(* ===== verification/Prelude.thy ===== *)
theory Prelude
  imports Main "HOL-Library.Word" "HOL-Library.Monad_Syntax"
begin

section \<open>Prelude: machine integers, assertions and shared lemmas\<close>

text \<open>
  What every component of the development shares: the names of the machine integer types of
  the C++ source, the model of the assertion macros of \<open>src/banjo/utils/macros.hpp\<close>, byte
  sequences in little-endian order, and lemmas on words and lists.

  A computation that the source can abort (a failed \<open>ASSERT\<close>, \<open>ASSERT_UNREACHABLE\<close>, an
  uncaught standard library exception such as \<open>std::out_of_range\<close> or
  \<open>std::bad_variant_access\<close>) or whose behaviour is undefined has type \<open>'a option\<close>:
  \<open>None\<close> is the abort, \<open>Some\<close> the normal return. Sequencing is \<open>Option.bind\<close>, written
  with the \<open>do\<close> blocks of \<open>HOL-Library.Monad_Syntax\<close>. The macros are modelled as in a
  build with \<open>BANJO_DEBUG\<close>; in a release build the aborting paths are undefined behaviour, so
  \<open>None\<close> marks the same inputs.
\<close>

unbundle bit_operations_syntax

type_synonym u8 = "8 word"
type_synonym u16 = "16 word"
type_synonym u32 = "32 word"
type_synonym u64 = "64 word"

text \<open>Simplification rules that one group of proofs shares and that are not global simp rules.\<close>

named_theorems bind_simps \<open>unfolding of option binds and assertions\<close>
named_theorems frame_simps \<open>which fields of a state an operation leaves alone\<close>

subsection \<open>Assertions\<close>

definition ASSERT :: "bool \<Rightarrow> unit option" where
  "ASSERT c = (if c then Some () else None)"

lemma ASSERT_eq_Some [simp]: "ASSERT c = Some u \<longleftrightarrow> c"
  by (simp add: ASSERT_def)

lemma ASSERT_True [simp]: "ASSERT True = Some ()"
  by (simp add: ASSERT_def)

lemma ASSERT_False [simp]: "ASSERT False = None"
  by (simp add: ASSERT_def)

lemmas [bind_simps] = Option.bind_eq_Some_conv ASSERT_eq_Some

subsection \<open>Lists\<close>

lemma nth_butlast_append_last:
  "xs \<noteq> [] \<Longrightarrow> butlast xs @ [last xs] = xs"
  by simp

lemma list_eq_take_nth_drop:
  "i < length xs \<Longrightarrow> xs = take i xs @ [xs ! i] @ drop (Suc i) xs"
  by (simp add: id_take_nth_drop)

lemma mod_of_unat_word: "(of_nat (unat x) :: 'a::len word) = x"
  by simp

subsection \<open>Little-endian bytes\<close>

text \<open>
  \<open>le_bytes n w\<close> are the \<open>n\<close> low bytes of \<open>w\<close>, least significant first: what
  \<open>(std::uint8_t)(w >> 0)\<close>, \<open>(std::uint8_t)(w >> 8)\<close>, and so on compute. \<open>le_value\<close>
  reads a byte sequence back as a number.
\<close>

primrec le_bytes :: "nat \<Rightarrow> 'a::len word \<Rightarrow> u8 list" where
  "le_bytes 0 w = []"
| "le_bytes (Suc n) w = ucast w # le_bytes n (drop_bit 8 w)"

primrec le_value :: "u8 list \<Rightarrow> nat" where
  "le_value [] = 0"
| "le_value (b # bs) = unat b + 256 * le_value bs"

lemma length_le_bytes [simp]: "length (le_bytes n w) = n"
  by (induction n arbitrary: w) auto

lemma unat_ucast_u8: "unat (ucast (w :: 'a::len word) :: u8) = unat w mod 256"
  by (simp add: unsigned_ucast_eq take_bit_eq_mod)

lemma unat_ucast_up: "unat (ucast (b :: u8) :: u32) = unat b"
proof -
  have "unat b < 2 ^ 8" using unsigned_less [of b, where 'a=nat] by simp
  then have "unat b < 2 ^ 32" by simp
  then show ?thesis by (simp add: unsigned_ucast_eq take_bit_nat_eq_self)
qed

lemma unat_drop_bit: "unat (drop_bit n (w :: 'a::len word)) = unat w div 2 ^ n"
proof -
  have "take_bit LENGTH('a) (unat w) = unat w" by (rule take_bit_nat_eq_self) simp
  then show ?thesis unfolding unsigned_drop_bit_eq by (simp only: drop_bit_eq_div)
qed

lemma uint_drop_bit: "uint (drop_bit n (w :: 'a::len word)) = uint w div 2 ^ n"
proof -
  have "take_bit LENGTH('a) (uint w) = uint w" by (rule take_bit_int_eq_self) simp_all
  then show ?thesis unfolding unsigned_drop_bit_eq by (simp only: drop_bit_eq_div)
qed

lemma unat_drop_bit_8: "unat (drop_bit 8 (w :: 'a::len word)) = unat w div 256"
  by (simp only: unat_drop_bit) simp

lemma le_value_le_bytes: "le_value (le_bytes n w) = unat w mod 256 ^ n"
proof (induction n arbitrary: w)
  case 0
  then show ?case by simp
next
  case (Suc n)
  have "le_value (le_bytes (Suc n) w) = unat w mod 256 + 256 * (unat w div 256 mod 256 ^ n)"
    using Suc.IH [of "drop_bit 8 w"] by (simp add: unat_ucast_u8 unat_drop_bit_8)
  also have "\<dots> = unat w mod 256 ^ Suc n"
    by (simp add: mod_mult2_eq)
  finally show ?case .
qed

lemma le_value_bound: "le_value bs < 256 ^ length bs"
proof (induction bs)
  case Nil
  then show ?case by simp
next
  case (Cons b bs)
  have "unat b < 256" using unsigned_less [of b, where 'a=nat] by simp
  then show ?case using Cons by simp
qed

lemma le_value_u16 [simp]: "le_value (le_bytes 2 (w :: u16)) = unat w"
  using unsigned_less [of w, where 'a=nat] by (simp add: le_value_le_bytes)

lemma le_value_u32 [simp]: "le_value (le_bytes 4 (w :: u32)) = unat w"
  using unsigned_less [of w, where 'a=nat] by (simp add: le_value_le_bytes)

lemma le_value_u64 [simp]: "le_value (le_bytes 8 (w :: u64)) = unat w"
  using unsigned_less [of w, where 'a=nat] by (simp add: le_value_le_bytes)

subsection \<open>Bit fields\<close>

text \<open>Packing a field above \<open>n\<close> occupied bits with \<open>OR\<close> is an addition.\<close>

lemma unat_push_bit: "unat (push_bit n (w :: 'a::len word)) = unat w * 2 ^ n mod 2 ^ LENGTH('a)"
  unfolding unsigned_push_bit_eq by (simp only: push_bit_eq_mult take_bit_eq_mod)

lemma and_push_bit_eq_0:
  assumes "unat a < 2 ^ n"
  shows "a AND push_bit n b = (0 :: 'a::len word)"
proof (rule bit_word_eqI)
  fix k :: nat
  have "\<not> bit a k" if "n \<le> k"
  proof -
    have "unat a div 2 ^ k = 0" using assms that
      by (metis div_less less_le_trans one_le_numeral power_increasing)
    then have "\<not> bit (unat a) k" by (simp add: bit_iff_odd)
    then show ?thesis by (simp add: bit_unsigned_iff)
  qed
  then show "bit (a AND push_bit n b) k = bit (0 :: 'a word) k"
    unfolding bit_and_iff bit_push_bit_iff by auto
qed

lemma unat_or_push_bit:
  fixes a b :: "'a::len word"
  assumes "unat a < 2 ^ n" and "unat a + unat b * 2 ^ n < 2 ^ LENGTH('a)"
  shows "unat (a OR push_bit n b) = unat a + unat b * 2 ^ n"
proof -
  have "a OR push_bit n b = a + push_bit n b"
    using and_push_bit_eq_0 [OF assms(1)] by (simp add: disjunctive_add_eq_or)
  moreover have "unat (push_bit n b) = unat b * 2 ^ n"
    using assms(2) by (simp add: unat_push_bit)
  ultimately show ?thesis using assms(2) by (simp add: unat_word_ariths)
qed

text \<open>Reading a field back: \<open>bit_field lo w\<close> are the bits of \<open>w\<close> from \<open>lo\<close> on, as many as its type has.\<close>

definition bit_field :: "nat \<Rightarrow> 'a::len word \<Rightarrow> 'n::len word" where
  "bit_field lo w = ucast (drop_bit lo w)"

lemma bit_bit_field: "bit (bit_field lo (w :: 'a::len word) :: 'n::len word) k \<longleftrightarrow> k < LENGTH('n) \<and> bit w (lo + k)"
  unfolding bit_field_def bit_ucast_iff bit_drop_bit_eq by (auto simp: comp_def dest: bit_imp_le_length)

lemma bit_field_or [simp]:
  "(bit_field lo (v OR w) :: 'n::len word) = bit_field lo v OR bit_field lo w"
  by (rule bit_word_eqI) (simp add: bit_bit_field bit_or_iff)

lemma bit_field_above [simp]:
  "lo + LENGTH('n) \<le> hi \<Longrightarrow> (bit_field lo (push_bit hi w) :: 'n::len word) = 0"
  by (rule bit_word_eqI) (simp add: bit_bit_field bit_push_bit_iff del: push_bit_eq_mult)

lemma bit_field_same [simp]:
  "lo + LENGTH('n) \<le> LENGTH('a) \<Longrightarrow>
   (bit_field lo (push_bit lo (w :: 'a::len word)) :: 'n::len word) = ucast w"
  by (rule bit_word_eqI) (auto simp: bit_bit_field bit_push_bit_iff bit_ucast_iff)

lemma not_bit_small: "unat (w :: 'a::len word) < 2 ^ k \<Longrightarrow> k \<le> n \<Longrightarrow> \<not> bit w n"
proof -
  assume w: "unat w < 2 ^ k" and n: "k \<le> n"
  have "unat w div 2 ^ n = 0"
    using w n by (metis div_less less_le_trans one_le_numeral power_increasing)
  then have "\<not> bit (unat w) n" by (simp add: bit_iff_odd)
  then show ?thesis by (simp add: bit_unsigned_iff)
qed

lemma bit_field_below:
  assumes "unat w < 2 ^ k" and "hi + k \<le> lo"
  shows "(bit_field lo (push_bit hi (w :: 'a::len word)) :: 'n::len word) = 0"
proof (rule bit_word_eqI)
  fix n :: nat
  have "\<not> bit w (lo + n - hi)" using not_bit_small [OF assms(1), of "lo + n - hi"] assms(2) by simp
  then show "bit (bit_field lo (push_bit hi w) :: 'n word) n = bit (0 :: 'n word) n"
    unfolding bit_bit_field bit_push_bit_iff by simp
qed

lemma bit_field_small:
  assumes "unat w < 2 ^ k" and "k \<le> lo"
  shows "(bit_field lo (w :: 'a::len word) :: 'n::len word) = 0"
  using bit_field_below [of w k 0 lo] assms by simp

lemma bit_field_0: "(bit_field 0 (w :: 'a::len word) :: 'n::len word) = ucast w"
  by (simp add: bit_field_def)

subsection \<open>Loops over the elements of a container\<close>

text \<open>
  \<open>for_each xs body s\<close> is a range-based \<open>for\<close> loop whose body updates the state \<open>s\<close> and may
  abort.
\<close>

primrec for_each :: "'a list \<Rightarrow> ('a \<Rightarrow> 's \<Rightarrow> 's option) \<Rightarrow> 's \<Rightarrow> 's option" where
  "for_each [] body s = Some s"
| "for_each (x # xs) body s = Option.bind (body x s) (for_each xs body)"

lemma for_each_append:
  "for_each (xs @ ys) body s = Option.bind (for_each xs body s) (for_each ys body)"
  by (induction xs arbitrary: s) (auto split: bind_splits)

lemma for_each_inv:
  assumes "for_each xs body s = Some s'" and "P s"
    and "\<And>x s s'. x \<in> set xs \<Longrightarrow> P s \<Longrightarrow> body x s = Some s' \<Longrightarrow> P s'"
  shows "P s'"
  using assms by (induction xs arbitrary: s) (auto simp: Option.bind_eq_Some_conv)

text \<open>\<open>map_each\<close> is a loop that rewrites the elements of a vector in place, with an accumulator.\<close>

primrec map_each :: "('a \<Rightarrow> 's \<Rightarrow> ('a \<times> 's) option) \<Rightarrow> 'a list \<Rightarrow> 's \<Rightarrow> ('a list \<times> 's) option" where
  "map_each body [] s = Some ([], s)"
| "map_each body (x # xs) s =
     do {
       (y, s') \<leftarrow> body x s;
       (ys, s'') \<leftarrow> map_each body xs s';
       Some (y # ys, s'')
     }"

text \<open>\<open>collect_each\<close> is a loop that builds a vector.\<close>

primrec collect_each :: "('a \<Rightarrow> 'b option) \<Rightarrow> 'a list \<Rightarrow> 'b list option" where
  "collect_each body [] = Some []"
| "collect_each body (x # xs) =
     do {
       y \<leftarrow> body x;
       ys \<leftarrow> collect_each body xs;
       Some (y # ys)
     }"

lemma collect_each_nth:
  "collect_each body xs = Some ys \<longleftrightarrow> length ys = length xs \<and> (\<forall>i<length xs. body (xs ! i) = Some (ys ! i))"
proof (induction xs arbitrary: ys)
  case Nil
  then show ?case by auto
next
  case (Cons x xs)
  have "(\<forall>i<Suc (length xs). body ((x # xs) ! i) = Some ((z # zs) ! i)) \<longleftrightarrow>
      body x = Some z \<and> (\<forall>i<length xs. body (xs ! i) = Some (zs ! i))" for z zs
    by (auto simp: less_Suc_eq_0_disj)
  then show ?case
    using Cons.IH by (cases ys) (auto simp: Option.bind_eq_Some_conv)
qed

lemma length_map_each: "map_each body xs s = Some (ys, s') \<Longrightarrow> length ys = length xs"
  by (induction xs arbitrary: s ys) (auto simp: Option.bind_eq_Some_conv)

subsection \<open>Converting double to float\<close>

text \<open>
  The conversion of a \<open>double\<close> to a \<open>float\<close> on bit patterns (IEEE 754 binary64 to binary32, round
  to nearest, ties to even; a NaN becomes quiet and keeps the upper bits of its payload).
\<close>

definition round_nearest_even :: "nat \<Rightarrow> nat \<Rightarrow> nat" where
  "round_nearest_even m k =
     (let q = m div 2 ^ k; r = 2 * (m mod 2 ^ k)
      in if r > 2 ^ k \<or> (r = 2 ^ k \<and> odd q) then q + 1 else q)"

definition float_of_double :: "u64 \<Rightarrow> u32" where
  "float_of_double d =
     (let s = unat (drop_bit 63 d); e = unat (drop_bit 52 d) mod 2048; m = unat d mod 2 ^ 52;
          magnitude =
            (if e = 2047 then (if m = 0 then 0x7F800000
                               else 0x7FC00000 + m div 2 ^ 29 mod 2 ^ 22)
             else if e = 0 then 0
             else if 897 \<le> e
             then min 0x7F800000 ((e - 897) * 2 ^ 23 + round_nearest_even (2 ^ 52 + m) 29)
             else round_nearest_even (2 ^ 52 + m) (29 + (897 - e)))
      in of_nat (s * 2 ^ 31 + magnitude))"

end
