(* ===== verification/Large_Int.thy ===== *)
theory Large_Int
  imports Prelude
begin

section \<open>LargeInt: the compiler's sign-magnitude integers\<close>

text \<open>
  The class \<open>LargeInt\<close> of \<open>src/banjo/utils/large_int.hpp\<close> and \<open>large_int.cpp\<close>: a 64-bit
  magnitude and a sign. Literals, immediates of both intermediate representations and constant
  folding all compute with it. Division and remainder by zero are undefined behaviour in the
  source and \<open>None\<close> here; \<open>to_u64\<close> asserts that the sign is not set.
\<close>

record large_int =
  magnitude :: u64
  negative :: bool

text \<open>
  \<open>std::strong_ordering\<close>, with the four relational operators C++ derives from \<open><=>\<close>.
\<close>

datatype strong_ordering = SO_less | SO_equal | SO_greater

subsection \<open>Construction\<close>

text \<open>
  In the first constructor the parameter \<open>negative\<close> hides the member of the same name, so the
  assignment in the body clears the parameter only: the member keeps the sign it was
  initialised with, and a zero with the sign set is built.
\<close>

definition LargeInt_make :: "u64 \<Rightarrow> bool \<Rightarrow> large_int" where
  "LargeInt_make mag neg =
     (let this = \<lparr>magnitude = mag, negative = neg\<rparr>;
          neg_parameter = (if mag = 0 \<and> neg then False else neg)
      in this)"

text \<open>\<open>set_from\<close>, with the \<open>std::int64_t\<close> given as its two's complement word.\<close>

definition LargeInt_set_from :: "u64 \<Rightarrow> large_int" where
  "LargeInt_set_from value =
     (if 0 \<le>s value then \<lparr>magnitude = value, negative = False\<rparr>
      else \<lparr>magnitude = - (value + 1) + 1, negative = True\<rparr>)"

definition LargeInt_of_int :: "u32 \<Rightarrow> large_int" where
  "LargeInt_of_int value = LargeInt_set_from (scast value)"

definition LargeInt_of_long :: "u64 \<Rightarrow> large_int" where
  "LargeInt_of_long value = LargeInt_set_from value"

definition LargeInt_of_unsigned :: "u32 \<Rightarrow> large_int" where
  "LargeInt_of_unsigned value = \<lparr>magnitude = ucast value, negative = False\<rparr>"

definition LargeInt_of_unsigned_long :: "u64 \<Rightarrow> large_int" where
  "LargeInt_of_unsigned_long value = \<lparr>magnitude = value, negative = False\<rparr>"

subsection \<open>Strings\<close>

definition digit_of_char :: "char \<Rightarrow> u64" where
  "digit_of_char c =
     (let n = of_char c :: nat in
      if 48 \<le> n \<and> n \<le> 57 then of_nat (n - 48)
      else if 97 \<le> n \<and> n \<le> 102 then of_nat (10 + n - 97)
      else if 65 \<le> n \<and> n \<le> 70 then of_nat (10 + n - 65)
      else 0)"

text \<open>
  The base prefix: \<open>0x\<close>, \<open>0b\<close> or \<open>0o\<close> after the sign selects the base and is skipped.
\<close>

definition LargeInt_parse_base :: "string \<Rightarrow> nat \<Rightarrow> u64 \<times> nat" where
  "LargeInt_parse_base s start =
     (if length s \<ge> start + 2 \<and> s ! start = CHR ''0'' then
        let c = s ! (start + 1) in
        if c = CHR ''x'' \<or> c = CHR ''X'' then (16, start + 2)
        else if c = CHR ''b'' \<or> c = CHR ''B'' then (2, start + 2)
        else if c = CHR ''o'' \<or> c = CHR ''O'' then (8, start + 2)
        else (10, start)
      else (10, start))"

text \<open>
  The loop from the last character down to \<open>start_index\<close>, over those characters in reverse;
  \<open>multiplier\<close> and the accumulated magnitude wrap around at 64 bits as \<open>std::uint64_t\<close> does.
\<close>

fun LargeInt_digits_loop :: "u64 \<Rightarrow> u64 \<Rightarrow> u64 \<Rightarrow> string \<Rightarrow> u64" where
  "LargeInt_digits_loop base multiplier mag [] = mag"
| "LargeInt_digits_loop base multiplier mag (c # cs) =
     LargeInt_digits_loop base (multiplier * base) (mag + multiplier * digit_of_char c) cs"

text \<open>Reading \<open>string[0]\<close> of an empty view is undefined behaviour.\<close>

definition LargeInt_of_string :: "string \<Rightarrow> large_int option" where
  "LargeInt_of_string s =
     (if s = [] then None
      else
        let neg = (hd s = CHR ''-'');
            (base, start) = LargeInt_parse_base s (if neg then 1 else 0);
            mag = LargeInt_digits_loop base 1 0 (rev (drop start s))
        in Some \<lparr>magnitude = mag, negative = (if mag = 0 \<and> neg then False else neg)\<rparr>)"

function LargeInt_to_string_loop :: "u64 \<Rightarrow> string" where
  "LargeInt_to_string_loop value =
     (if value > 0
      then char_of (unat (value mod 10) + 48) # LargeInt_to_string_loop (value div 10)
      else [])"
  by pat_completeness auto
termination
  by (relation "measure unat") (auto simp: unat_div word_less_nat_alt intro!: div_less_dividend)

definition LargeInt_to_string :: "large_int \<Rightarrow> string" where
  "LargeInt_to_string x =
     (if magnitude x = 0 then ''0''
      else rev (LargeInt_to_string_loop (magnitude x) @ (if negative x then ''-'' else [])))"

subsection \<open>Conversions\<close>

definition LargeInt_to_s64 :: "large_int \<Rightarrow> u64" where
  "LargeInt_to_s64 x = (if negative x then - magnitude x else magnitude x)"

definition LargeInt_to_u64 :: "large_int \<Rightarrow> u64 option" where
  "LargeInt_to_u64 x = do { ASSERT (\<not> negative x); Some (magnitude x) }"

definition LargeInt_to_s32 :: "large_int \<Rightarrow> u32" where
  "LargeInt_to_s32 x = ucast (LargeInt_to_s64 x)"

definition LargeInt_to_unsigned :: "large_int \<Rightarrow> u32 option" where
  "LargeInt_to_unsigned x = do { v \<leftarrow> LargeInt_to_u64 x; Some (ucast v) }"

definition LargeInt_to_bits :: "large_int \<Rightarrow> u64" where
  "LargeInt_to_bits x = (if \<not> negative x then magnitude x else NOT (magnitude x) + 1)"

definition LargeInt_abs :: "large_int \<Rightarrow> large_int" where
  "LargeInt_abs x = LargeInt_make (magnitude x) False"

subsection \<open>Arithmetic\<close>

definition LargeInt_neg :: "large_int \<Rightarrow> large_int" where
  "LargeInt_neg x = LargeInt_make (magnitude x) (\<not> negative x)"

definition LargeInt_add :: "large_int \<Rightarrow> large_int \<Rightarrow> large_int" where
  "LargeInt_add lhs rhs =
     (if negative lhs = negative rhs then
        LargeInt_make (magnitude lhs + magnitude rhs) (negative lhs)
      else if magnitude rhs \<le> magnitude lhs then
        LargeInt_make (magnitude lhs - magnitude rhs) (negative lhs)
      else
        LargeInt_make (magnitude rhs - magnitude lhs) (\<not> negative lhs))"

definition LargeInt_sub :: "large_int \<Rightarrow> large_int \<Rightarrow> large_int" where
  "LargeInt_sub lhs rhs = LargeInt_add lhs (LargeInt_neg rhs)"

definition LargeInt_mul :: "large_int \<Rightarrow> large_int \<Rightarrow> large_int" where
  "LargeInt_mul lhs rhs =
     LargeInt_make (magnitude lhs * magnitude rhs) (negative lhs \<noteq> negative rhs)"

definition LargeInt_div :: "large_int \<Rightarrow> large_int \<Rightarrow> large_int option" where
  "LargeInt_div lhs rhs =
     (if magnitude rhs = 0 then None
      else Some (LargeInt_make (magnitude lhs div magnitude rhs) (negative lhs \<noteq> negative rhs)))"

definition LargeInt_rem :: "large_int \<Rightarrow> large_int \<Rightarrow> large_int option" where
  "LargeInt_rem lhs rhs =
     (if magnitude rhs = 0 then None
      else Some (LargeInt_make (magnitude lhs mod magnitude rhs) (negative lhs \<noteq> negative rhs)))"

definition LargeInt_and :: "large_int \<Rightarrow> large_int \<Rightarrow> large_int" where
  "LargeInt_and lhs rhs = LargeInt_make (LargeInt_to_bits lhs AND LargeInt_to_bits rhs) False"

definition LargeInt_or :: "large_int \<Rightarrow> large_int \<Rightarrow> large_int" where
  "LargeInt_or lhs rhs = LargeInt_make (LargeInt_to_bits lhs OR LargeInt_to_bits rhs) False"

definition LargeInt_xor :: "large_int \<Rightarrow> large_int \<Rightarrow> large_int" where
  "LargeInt_xor lhs rhs = LargeInt_make (LargeInt_to_bits lhs XOR LargeInt_to_bits rhs) False"

subsection \<open>Comparison\<close>

definition LargeInt_eq :: "large_int \<Rightarrow> large_int \<Rightarrow> bool" where
  "LargeInt_eq lhs rhs \<longleftrightarrow> magnitude lhs = magnitude rhs \<and> negative lhs = negative rhs"

definition LargeInt_compare :: "large_int \<Rightarrow> large_int \<Rightarrow> strong_ordering" where
  "LargeInt_compare lhs rhs =
     (if negative lhs = negative rhs then
        if magnitude lhs = magnitude rhs then SO_equal
        else if magnitude lhs > magnitude rhs
        then (if negative lhs then SO_less else SO_greater)
        else (if negative lhs then SO_greater else SO_less)
      else if negative lhs then SO_less
      else SO_greater)"

definition LargeInt_less :: "large_int \<Rightarrow> large_int \<Rightarrow> bool" where
  "LargeInt_less lhs rhs \<longleftrightarrow> LargeInt_compare lhs rhs = SO_less"

definition LargeInt_less_eq :: "large_int \<Rightarrow> large_int \<Rightarrow> bool" where
  "LargeInt_less_eq lhs rhs \<longleftrightarrow> LargeInt_compare lhs rhs \<noteq> SO_greater"

section \<open>The number a LargeInt stands for\<close>

text \<open>
  \<open>LargeInt_value\<close> is the abstraction function of the class. It is injective on the values
  without a negative zero (\<open>LargeInt_normal\<close>).
\<close>

definition LargeInt_value :: "large_int \<Rightarrow> int" where
  "LargeInt_value x = (if negative x then - uint (magnitude x) else uint (magnitude x))"

definition LargeInt_normal :: "large_int \<Rightarrow> bool" where
  "LargeInt_normal x \<longleftrightarrow> (magnitude x = 0 \<longrightarrow> \<not> negative x)"

lemma LargeInt_make_simps [simp]:
  "magnitude (LargeInt_make m n) = m" "negative (LargeInt_make m n) = n"
  by (simp_all add: LargeInt_make_def)

lemma LargeInt_value_make:
  "LargeInt_value (LargeInt_make m n) = (if n then - uint m else uint m)"
  by (simp add: LargeInt_value_def)

lemma uint_u64_bound: "uint (w :: u64) < 18446744073709551616"
  using unsigned_less [of w, where 'a=int] by simp

lemma uint_u64_nonneg [simp]: "0 \<le> uint (w :: u64)"
  by simp

lemma LargeInt_value_bound: "\<bar>LargeInt_value x\<bar> < 18446744073709551616"
  using uint_u64_bound [of "magnitude x"] by (simp add: LargeInt_value_def)

lemma uint_add_u64:
  "uint (a :: u64) + uint b < 18446744073709551616 \<Longrightarrow> uint (a + b) = uint a + uint b"
  by (simp add: uint_word_ariths)

lemma uint_sub_u64:
  "(b :: u64) \<le> a \<Longrightarrow> uint (a - b) = uint a - uint b"
  by (simp add: uint_minus_simple_alt)

lemma uint_mult_u64:
  "uint (a :: u64) * uint b < 18446744073709551616 \<Longrightarrow> uint (a * b) = uint a * uint b"
  by (simp add: uint_word_ariths)

lemma LargeInt_eq_iff: "LargeInt_eq x y \<longleftrightarrow> x = y"
  by (cases x; cases y) (simp add: LargeInt_eq_def)

lemma uint_pos_iff: "0 < uint (m :: 'a::len word) \<longleftrightarrow> m \<noteq> 0"
  using uint_0_iff [of m] order_le_less [of 0 "uint m"] by auto

lemma LargeInt_negative_iff:
  assumes "LargeInt_normal x"
  shows "negative x \<longleftrightarrow> LargeInt_value x < 0"
proof (cases "negative x")
  case True
  then have "0 < uint (magnitude x)"
    unfolding uint_pos_iff using assms by (auto simp: LargeInt_normal_def)
  then show ?thesis using True by (simp add: LargeInt_value_def)
next
  case False
  then show ?thesis by (simp add: LargeInt_value_def)
qed

lemma LargeInt_magnitude_eq: "magnitude x = word_of_int \<bar>LargeInt_value x\<bar>"
  by (simp add: LargeInt_value_def)

lemma LargeInt_value_inj:
  assumes "LargeInt_normal x" "LargeInt_normal y"
  shows "LargeInt_value x = LargeInt_value y \<longleftrightarrow> x = y"
proof
  assume "LargeInt_value x = LargeInt_value y"
  then have "magnitude x = magnitude y" "negative x = negative y"
    using assms by (simp_all add: LargeInt_magnitude_eq LargeInt_negative_iff)
  then show "x = y" by simp
qed simp

lemma LargeInt_value_neg [simp]: "LargeInt_value (LargeInt_neg x) = - LargeInt_value x"
  by (simp add: LargeInt_neg_def LargeInt_value_def)

subsection \<open>Sums, differences and products\<close>

lemma LargeInt_add_value:
  assumes "\<bar>LargeInt_value x + LargeInt_value y\<bar> < 18446744073709551616"
  shows "LargeInt_value (LargeInt_add x y) = LargeInt_value x + LargeInt_value y"
proof -
  let ?a = "magnitude x" and ?b = "magnitude y"
  show ?thesis
  proof (cases "negative x = negative y")
    case True
    then have "uint ?a + uint ?b < 18446744073709551616"
      using assms by (auto simp: LargeInt_value_def split: if_splits)
    then show ?thesis
      using True by (auto simp: LargeInt_add_def LargeInt_value_make LargeInt_value_def uint_add_u64)
  next
    case False
    then show ?thesis
      by (auto simp: LargeInt_add_def LargeInt_value_make LargeInt_value_def uint_sub_u64)
  qed
qed

lemma LargeInt_sub_value:
  assumes "\<bar>LargeInt_value x - LargeInt_value y\<bar> < 18446744073709551616"
  shows "LargeInt_value (LargeInt_sub x y) = LargeInt_value x - LargeInt_value y"
  using assms LargeInt_add_value [of x "LargeInt_neg y"] by (simp add: LargeInt_sub_def)

lemma LargeInt_mul_value:
  assumes "\<bar>LargeInt_value x * LargeInt_value y\<bar> < 18446744073709551616"
  shows "LargeInt_value (LargeInt_mul x y) = LargeInt_value x * LargeInt_value y"
proof -
  have "uint (magnitude x) * uint (magnitude y) < 18446744073709551616"
    using assms by (auto simp: LargeInt_value_def abs_mult split: if_splits)
  then show ?thesis
    by (auto simp: LargeInt_mul_def LargeInt_value_make LargeInt_value_def uint_mult_u64)
qed

subsection \<open>Quotients and remainders\<close>

lemma LargeInt_div_value:
  assumes "LargeInt_div x y = Some q"
  shows "LargeInt_value q =
    sgn (LargeInt_value x) * sgn (LargeInt_value y) * (\<bar>LargeInt_value x\<bar> div \<bar>LargeInt_value y\<bar>)"
proof -
  have y: "magnitude y \<noteq> 0" and q: "q = LargeInt_make (magnitude x div magnitude y) (negative x \<noteq> negative y)"
    using assms by (auto simp: LargeInt_div_def split: if_splits)
  have "0 < uint (magnitude y)" using y unfolding uint_pos_iff .
  then have "sgn (uint (magnitude y)) = 1" by (rule sgn_pos)
  moreover have "sgn (uint (magnitude x)) * (uint (magnitude x) div uint (magnitude y)) =
    uint (magnitude x) div uint (magnitude y)"
    by (cases "magnitude x = 0") (auto simp: sgn_if uint_pos_iff)
  ultimately show ?thesis
    by (auto simp: q LargeInt_value_make LargeInt_value_def uint_div sgn_minus)
qed

lemma signed_division_identity:
  fixes a b d m :: int
  assumes "0 < b" "a = d * b + m"
  shows "(if nx then - a else a) =
    (if nx = ny then d else - d) * (if ny then - b else b) +
    (if (if ny then - b else b) > 0 then (if nx = ny then m else - m)
     else - (if nx = ny then m else - m))"
  using assms by (cases nx; cases ny) simp_all

lemma LargeInt_rem_value:
  assumes "LargeInt_rem x y = Some r"
  shows "LargeInt_value r =
    (if negative x = negative y then 1 else - 1) * (\<bar>LargeInt_value x\<bar> mod \<bar>LargeInt_value y\<bar>)"
  using assms
  by (auto simp: LargeInt_rem_def LargeInt_value_make LargeInt_value_def uint_mod split: if_splits)

subsection \<open>The two's complement view\<close>

lemma LargeInt_to_bits_value: "LargeInt_to_bits x = word_of_int (LargeInt_value x)"
  by (simp add: LargeInt_to_bits_def LargeInt_value_def flip: minus_eq_not_plus_1)

lemma LargeInt_to_bits_neg: "LargeInt_to_bits (LargeInt_neg x) = - LargeInt_to_bits x"
  by (simp add: LargeInt_to_bits_value)

lemma LargeInt_to_bits_add:
  "LargeInt_to_bits (LargeInt_add x y) = LargeInt_to_bits x + LargeInt_to_bits y"
  by (auto simp: LargeInt_to_bits_def LargeInt_add_def simp flip: minus_eq_not_plus_1)

lemma LargeInt_to_bits_sub:
  "LargeInt_to_bits (LargeInt_sub x y) = LargeInt_to_bits x - LargeInt_to_bits y"
  by (simp add: LargeInt_sub_def LargeInt_to_bits_add LargeInt_to_bits_neg)

lemma LargeInt_to_bits_mul:
  "LargeInt_to_bits (LargeInt_mul x y) = LargeInt_to_bits x * LargeInt_to_bits y"
  by (auto simp: LargeInt_to_bits_def LargeInt_mul_def simp flip: minus_eq_not_plus_1)

lemma LargeInt_to_bits_set_from: "LargeInt_to_bits (LargeInt_set_from v) = v"
  by (simp add: LargeInt_set_from_def LargeInt_to_bits_def flip: minus_eq_not_plus_1)

subsection \<open>Construction from machine integers\<close>

lemma uint_sint_u64: "uint (v :: u64) = sint v mod 18446744073709551616"
proof -
  have "uint v = uint (word_of_int (sint v) :: u64)" by simp
  then show ?thesis unfolding uint_word_of_int by simp
qed

lemma sint_u64_bounds: "- 9223372036854775808 \<le> sint (v :: u64)" "sint (v :: u64) < 9223372036854775808"
  using sint_ge [of v] sint_lt [of v] by simp_all

lemma uint_minus_sint_u64: "uint (- (v :: u64)) = (- sint v) mod 18446744073709551616"
proof -
  have "uint (- v) = (- uint v) mod 18446744073709551616"
    unfolding uint_word_ariths by simp
  then show ?thesis by (simp only: uint_sint_u64 [of v] mod_minus_eq)
qed

lemma LargeInt_set_from_value: "LargeInt_value (LargeInt_set_from v) = sint v"
proof (cases "0 \<le> sint v")
  case True
  then show ?thesis using sint_u64_bounds [of v]
    by (simp add: LargeInt_set_from_def LargeInt_value_def word_sle_eq uint_sint_u64)
next
  case False
  then show ?thesis using sint_u64_bounds [of v]
    by (simp add: LargeInt_set_from_def LargeInt_value_def word_sle_eq uint_minus_sint_u64)
qed

lemma LargeInt_set_from_normal: "LargeInt_normal (LargeInt_set_from v)"
  by (auto simp: LargeInt_set_from_def LargeInt_normal_def word_sle_eq)

subsection \<open>Comparison\<close>

lemma LargeInt_compare_value:
  assumes "LargeInt_normal x" "LargeInt_normal y"
  shows "LargeInt_compare x y =
    (if LargeInt_value x < LargeInt_value y then SO_less
     else if LargeInt_value x = LargeInt_value y then SO_equal else SO_greater)"
proof -
  have eq: "magnitude x = magnitude y \<longleftrightarrow> uint (magnitude x) = uint (magnitude y)"
    by (rule word_uint_eq_iff)
  have nonneg: "0 \<le> uint (magnitude x)" "0 \<le> uint (magnitude y)" by simp_all
  note neg = LargeInt_negative_iff [OF assms(1)] LargeInt_negative_iff [OF assms(2)]
  show ?thesis
  proof (cases "negative x = negative y")
    case True
    then show ?thesis
      by (cases "negative y") (simp_all add: LargeInt_compare_def LargeInt_value_def eq word_less_def)
  next
    case False
    then show ?thesis
      using neg nonneg by (cases "negative x") (simp_all add: LargeInt_compare_def)
  qed
qed

subsection \<open>Decimal strings\<close>

declare LargeInt_to_string_loop.simps [simp del]

lemma digit_of_char_decimal:
  "digit_of_char (char_of (unat (v mod 10 :: u64) + 48)) = v mod 10"
proof -
  have "unat (v mod 10) < 10" by (simp add: unat_mod)
  then show ?thesis by (simp add: digit_of_char_def of_char_of)
qed

lemma LargeInt_digits_loop_to_string:
  "LargeInt_digits_loop 10 mult mag (LargeInt_to_string_loop v) = mag + mult * v"
proof (induction v arbitrary: mult mag rule: LargeInt_to_string_loop.induct)
  case (1 v)
  show ?case
  proof (cases "v > 0")
    case True
    have "mult * v = mult * (v div 10 * 10 + v mod 10)"
      by (simp only: word_mod_div_equality)
    moreover have "LargeInt_digits_loop 10 mult mag (LargeInt_to_string_loop v) =
      LargeInt_digits_loop 10 (mult * 10) (mag + mult * (v mod 10)) (LargeInt_to_string_loop (v div 10))"
      using True by (simp add: LargeInt_to_string_loop.simps [of v] digit_of_char_decimal)
    ultimately show ?thesis using "1.IH" [OF True]
      by (simp add: algebra_simps)
  next
    case False
    then have "v = 0" using word_gt_0 [of v] by metis
    then show ?thesis
      by (simp add: LargeInt_to_string_loop.simps [of 0])
  qed
qed

lemma LargeInt_to_string_loop_last:
  "v > 0 \<Longrightarrow> LargeInt_to_string_loop v \<noteq> [] \<and>
    (\<exists>d. 1 \<le> d \<and> d \<le> 9 \<and> last (LargeInt_to_string_loop v) = char_of (d + 48 :: nat))"
proof (induction v rule: LargeInt_to_string_loop.induct)
  case (1 v)
  have unf: "LargeInt_to_string_loop v = char_of (unat (v mod 10) + 48) # LargeInt_to_string_loop (v div 10)"
    using "1.prems" by (simp add: LargeInt_to_string_loop.simps [of v])
  show ?case
  proof (cases "v div 10 > 0")
    case True
    then show ?thesis using "1.IH" "1.prems" unf by simp
  next
    case False
    then have z: "v div 10 = 0" using word_gt_0 [of "v div 10"] by metis
    have "unat v div unat (10 :: u64) = 0"
      using z unat_div [of v 10] by (simp only: unat_0)
    then have "unat v < 10" by (simp add: div_eq_0_iff)
    moreover have "unat v \<noteq> 0" using "1.prems" by (simp add: unat_eq_0)
    ultimately have "1 \<le> unat (v mod 10)" "unat (v mod 10) \<le> 9" by (simp_all add: unat_mod)
    then show ?thesis using unf z by (auto simp: LargeInt_to_string_loop.simps [of 0])
  qed
qed

lemma LargeInt_parse_base_10:
  assumes "start < length s" "s ! start \<noteq> CHR ''0''"
  shows "LargeInt_parse_base s start = (10, start)"
  using assms by (simp add: LargeInt_parse_base_def)

lemma LargeInt_of_string_to_string:
  "LargeInt_of_string (LargeInt_to_string x) =
     Some (if magnitude x = 0 then \<lparr>magnitude = 0, negative = False\<rparr> else x)"
proof (cases "magnitude x = 0")
  case True
  then show ?thesis
    by (simp add: LargeInt_to_string_def LargeInt_of_string_def LargeInt_parse_base_def digit_of_char_def)
next
  case False
  define ds where "ds = LargeInt_to_string_loop (magnitude x)"
  obtain d :: nat where ne: "ds \<noteq> []" and d: "1 \<le> d" "d \<le> 9" "last ds = char_of (d + 48)"
    using False LargeInt_to_string_loop_last [of "magnitude x"] by (auto simp: ds_def word_gt_0)
  have hd_rev: "hd (rev ds) = char_of (d + 48)" "rev ds ! 0 = char_of (d + 48)"
    using ne d by (simp_all add: hd_rev rev_nth last_conv_nth)
  have of_char_d: "of_char (char_of (d + 48) :: char) = d + 48"
    using d by (simp add: of_char_of)
  have not_char: "char_of (d + 48) \<noteq> c" if "of_char c < (49 :: nat)" for c :: char
    using that d of_char_d by auto
  then have not_minus: "char_of (d + 48) \<noteq> CHR ''-''" and not_zero: "char_of (d + 48) \<noteq> CHR ''0''"
    by simp_all
  have loop: "LargeInt_digits_loop 10 1 0 ds = magnitude x"
    by (simp add: ds_def LargeInt_digits_loop_to_string)
  show ?thesis
  proof (cases "negative x")
    case True
    then have s: "LargeInt_to_string x = CHR ''-'' # rev ds"
      using False by (simp add: LargeInt_to_string_def ds_def)
    have "LargeInt_parse_base (CHR ''-'' # rev ds) 1 = (10, 1)"
      using ne hd_rev not_zero by (intro LargeInt_parse_base_10) auto
    then show ?thesis
      using True False by (simp add: LargeInt_of_string_def s loop)
  next
    case neg: False
    then have s: "LargeInt_to_string x = rev ds"
      using False by (simp add: LargeInt_to_string_def ds_def)
    have "LargeInt_parse_base (rev ds) 0 = (10, 0)"
      using ne hd_rev not_zero by (intro LargeInt_parse_base_10) auto
    then show ?thesis
      using neg False ne hd_rev not_minus by (simp add: LargeInt_of_string_def s loop)
  qed
qed

section \<open>Properties\<close>

text \<open>
  C1: addition, subtraction and multiplication are exact: they compute the integer result
  whenever its magnitude fits 64 bits.
\<close>

theorem LargeInt_arithmetic_exact:
  shows "(\<bar>LargeInt_value x + LargeInt_value y\<bar> < 2 ^ 64 \<longrightarrow>
            LargeInt_value (LargeInt_add x y) = LargeInt_value x + LargeInt_value y) \<and>
         (\<bar>LargeInt_value x - LargeInt_value y\<bar> < 2 ^ 64 \<longrightarrow>
            LargeInt_value (LargeInt_sub x y) = LargeInt_value x - LargeInt_value y) \<and>
         (\<bar>LargeInt_value x * LargeInt_value y\<bar> < 2 ^ 64 \<longrightarrow>
            LargeInt_value (LargeInt_mul x y) = LargeInt_value x * LargeInt_value y)"
  using LargeInt_add_value LargeInt_sub_value LargeInt_mul_value by simp

theorem LargeInt_arithmetic_exact_witness:
  "LargeInt_value (LargeInt_add (LargeInt_of_int 7) (LargeInt_of_int (- 9))) = - 2 \<and>
   LargeInt_value (LargeInt_sub (LargeInt_of_int 7) (LargeInt_of_int (- 9))) = 16 \<and>
   LargeInt_value (LargeInt_mul (LargeInt_of_int 7) (LargeInt_of_int (- 9))) = - 63"
proof -
  have v: "LargeInt_value (LargeInt_of_int 7) = 7" "LargeInt_value (LargeInt_of_int (- 9)) = - 9"
    by (simp_all add: LargeInt_of_int_def LargeInt_set_from_value)
  show ?thesis
    using LargeInt_arithmetic_exact [of "LargeInt_of_int 7" "LargeInt_of_int (- 9)"]
    unfolding v by simp
qed

text \<open>
  \<open>to_bits\<close> is the two's complement reading, and it commutes with negation, sum,
  difference and product modulo \<open>2 ^ 64\<close>, with no bound on the operands.
\<close>

theorem LargeInt_to_bits_homomorphism:
  "LargeInt_to_bits x = word_of_int (LargeInt_value x) \<and>
   LargeInt_to_bits (LargeInt_neg x) = - LargeInt_to_bits x \<and>
   LargeInt_to_bits (LargeInt_add x y) = LargeInt_to_bits x + LargeInt_to_bits y \<and>
   LargeInt_to_bits (LargeInt_sub x y) = LargeInt_to_bits x - LargeInt_to_bits y \<and>
   LargeInt_to_bits (LargeInt_mul x y) = LargeInt_to_bits x * LargeInt_to_bits y"
  by (simp add: LargeInt_to_bits_value [symmetric] LargeInt_to_bits_neg LargeInt_to_bits_add
      LargeInt_to_bits_sub LargeInt_to_bits_mul)

text \<open>
  C2: parsing the printed form of a LargeInt gives it back, for every magnitude and sign; a
  negative zero comes back as zero.
\<close>

theorem LargeInt_string_roundtrip:
  "LargeInt_of_string (LargeInt_to_string x) =
     Some (if magnitude x = 0 then \<lparr>magnitude = 0, negative = False\<rparr> else x)"
  by (rule LargeInt_of_string_to_string)

text \<open>
  the order and the equality are those of the integers on values without a negative zero,
  but adding a positive number to its negation builds a negative zero, which the operators
  call different from and smaller than zero.
\<close>

theorem LargeInt_order_and_negative_zero:
  shows "LargeInt_normal x \<Longrightarrow> LargeInt_normal y \<Longrightarrow>
    LargeInt_compare x y =
      (if LargeInt_value x < LargeInt_value y then SO_less
       else if LargeInt_value x = LargeInt_value y then SO_equal else SO_greater) \<and>
    LargeInt_eq x y = (LargeInt_value x = LargeInt_value y) \<and>
    LargeInt_value (LargeInt_add (LargeInt_make m True) (LargeInt_make m False)) = 0 \<and>
    \<not> LargeInt_eq (LargeInt_add (LargeInt_make m True) (LargeInt_make m False)) (LargeInt_set_from 0) \<and>
    LargeInt_less (LargeInt_add (LargeInt_make m True) (LargeInt_make m False)) (LargeInt_set_from 0)"
  by (simp add: LargeInt_compare_value LargeInt_value_inj LargeInt_eq_iff)
    (simp add: LargeInt_add_def LargeInt_value_def LargeInt_set_from_def LargeInt_less_def
      LargeInt_compare_def LargeInt_make_def)

theorem LargeInt_order_and_negative_zero_witness:
  "LargeInt_compare (LargeInt_make 3 True) (LargeInt_make 2 False) = SO_less \<and>
   \<not> LargeInt_eq (LargeInt_add (LargeInt_make 5 True) (LargeInt_make 5 False)) (LargeInt_set_from 0)"
  using LargeInt_order_and_negative_zero [of "LargeInt_make 3 True" "LargeInt_make 2 False" 5]
  by (simp add: LargeInt_normal_def LargeInt_value_def)

text \<open>
  C3: division and remainder fail exactly for a zero divisor; otherwise the quotient truncates towards
  zero as in C++, and quotient and remainder satisfy \<open>x = q * y + r\<close> for a positive divisor, but
  \<open>x = q * y - r\<close> for a negative one, where the remainder of C++ has the opposite sign.
\<close>

theorem LargeInt_division:
  "(LargeInt_div x y = None \<longleftrightarrow> LargeInt_value y = 0) \<and>
   (LargeInt_rem x y = None \<longleftrightarrow> LargeInt_value y = 0) \<and>
   (LargeInt_value y \<noteq> 0 \<longrightarrow>
     (\<exists>q r. LargeInt_div x y = Some q \<and> LargeInt_rem x y = Some r \<and>
      LargeInt_value q =
        sgn (LargeInt_value x) * sgn (LargeInt_value y) * (\<bar>LargeInt_value x\<bar> div \<bar>LargeInt_value y\<bar>) \<and>
      \<bar>LargeInt_value r\<bar> = \<bar>LargeInt_value x\<bar> mod \<bar>LargeInt_value y\<bar> \<and>
      LargeInt_value x = LargeInt_value q * LargeInt_value y +
        (if LargeInt_value y > 0 then LargeInt_value r else - LargeInt_value r)))"
proof (cases "LargeInt_value y = 0")
  case True
  then have "magnitude y = 0" by (auto simp: LargeInt_value_def uint_0_iff split: if_splits)
  then show ?thesis using True by (simp add: LargeInt_div_def LargeInt_rem_def)
next
  case False
  have my: "magnitude y \<noteq> 0" using False by (auto simp: LargeInt_value_def split: if_splits)
  obtain q where q: "LargeInt_div x y = Some q" using my by (simp add: LargeInt_div_def)
  obtain r where r: "LargeInt_rem x y = Some r" using my by (simp add: LargeInt_rem_def)
  let ?a = "uint (magnitude x)" and ?b = "uint (magnitude y)"
  have b: "0 < ?b" using my unfolding uint_pos_iff .
  have ident: "?a = ?a div ?b * ?b + ?a mod ?b" by simp
  have qv: "LargeInt_value q = (if negative x = negative y then ?a div ?b else - (?a div ?b))"
    using q my by (auto simp: LargeInt_div_def LargeInt_value_make uint_div)
  have rv: "LargeInt_value r = (if negative x = negative y then ?a mod ?b else - (?a mod ?b))"
    using r my by (auto simp: LargeInt_rem_def LargeInt_value_make uint_mod)
  have abs_r: "\<bar>LargeInt_value r\<bar> = \<bar>LargeInt_value x\<bar> mod \<bar>LargeInt_value y\<bar>"
  proof -
    have "\<bar>LargeInt_value r\<bar> = ?a mod ?b" using b by (simp add: rv)
    moreover have "\<bar>LargeInt_value x\<bar> = ?a" "\<bar>LargeInt_value y\<bar> = ?b"
      by (simp_all add: LargeInt_value_def)
    ultimately show ?thesis by simp
  qed
  have xv: "LargeInt_value x = (if negative x then - ?a else ?a)"
    and yv: "LargeInt_value y = (if negative y then - ?b else ?b)"
    by (simp_all add: LargeInt_value_def)
  have "LargeInt_value x = LargeInt_value q * LargeInt_value y +
      (if LargeInt_value y > 0 then LargeInt_value r else - LargeInt_value r)"
    unfolding qv rv xv yv by (rule signed_division_identity [OF b ident])
  then show ?thesis using q r LargeInt_div_value [OF q] abs_r False by simp
qed

theorem LargeInt_division_witness:
  "\<exists>q r. LargeInt_div (LargeInt_make 7 True) (LargeInt_make 2 False) = Some q \<and>
     LargeInt_rem (LargeInt_make 7 True) (LargeInt_make 2 False) = Some r \<and>
     LargeInt_value q = - 3 \<and> \<bar>LargeInt_value r\<bar> = 1 \<and>
     LargeInt_div (LargeInt_make 7 True) (LargeInt_make 0 True) = None"
  using LargeInt_division [of "LargeInt_make 7 True" "LargeInt_make 2 False"]
    LargeInt_division [of "LargeInt_make 7 True" "LargeInt_make 0 True"]
  by (auto simp: LargeInt_value_make)

end
