(* ===== verification/Utils.thy ===== *)
theory Utils
  imports Large_Int
begin

section \<open>Utilities\<close>

text \<open>
  The helper functions of \<open>src/banjo/utils/utils.hpp\<close>, \<open>utils.cpp\<close> and the fixed-capacity
  vector of \<open>fixed_vector.hpp\<close>: rounding and alignment, list helpers, decimal parsing, string
  splitting, line-ending conversion and the LEB128 encodings of the WebAssembly emitter.
  File access and environment variables are not modelled.
\<close>

subsection \<open>Arithmetic helpers\<close>

text \<open>The templates are used at unsigned integer types; \<open>div_ceil\<close> divides by a nonzero value.\<close>

definition div_ceil :: "nat \<Rightarrow> nat \<Rightarrow> nat" where
  "div_ceil divident divisor = (divident + divisor - 1) div divisor"

definition is_power_of_two :: "u64 \<Rightarrow> bool" where
  "is_power_of_two value \<longleftrightarrow> value AND (value - 1) = 0"

function first_bit_set_loop :: "u64 \<Rightarrow> int \<Rightarrow> int" where
  "first_bit_set_loop value shift =
     (if value \<noteq> 0 then first_bit_set_loop (drop_bit 1 value) (shift + 1) else shift)"
  by pat_completeness auto
termination
proof (relation "measure (\<lambda>(v, shift). unat v)")
  fix v :: u64 and shift :: int
  assume "v \<noteq> 0"
  then have "0 < unat v" by (simp add: unat_gt_0)
  moreover have "unat (drop_bit 1 v) = unat v div 2"
    using unat_drop_bit [of 1 v] by simp
  ultimately show "((drop_bit 1 v, shift + 1), (v, shift)) \<in> measure (\<lambda>(v, shift). unat v)"
    by simp
qed simp

text \<open>The result is converted to \<open>unsigned\<close>: \<open>-1\<close> becomes \<open>2 ^ 32 - 1\<close>.\<close>

definition first_bit_set :: "u64 \<Rightarrow> u32" where
  "first_bit_set value = word_of_int (first_bit_set_loop value (- 1))"

definition align :: "nat \<Rightarrow> nat \<Rightarrow> nat" where
  "align value boundary =
     (if boundary = 0 then value
      else let m = value mod boundary in if m = 0 then value else value + boundary - m)"

subsection \<open>Lists\<close>

definition is_one_of :: "'a \<Rightarrow> 'a list \<Rightarrow> bool" where
  "is_one_of value candidates \<longleftrightarrow> list_ex (\<lambda>candidate. value = candidate) candidates"

definition equal_ranges :: "'a list \<Rightarrow> 'a list \<Rightarrow> bool" where
  "equal_ranges lhs rhs \<longleftrightarrow>
     length lhs = length rhs \<and> list_all (\<lambda>i. lhs ! i = rhs ! i) [0..<length lhs]"

fun remove_duplicates_loop :: "'a list \<Rightarrow> 'a list \<Rightarrow> 'a list" where
  "remove_duplicates_loop result [] = result"
| "remove_duplicates_loop result (element # rest) =
     remove_duplicates_loop
       (if list_ex (\<lambda>other. other = element) result then result else result @ [element]) rest"

definition remove_duplicates :: "'a list \<Rightarrow> 'a list" where
  "remove_duplicates array = remove_duplicates_loop [] array"

subsection \<open>Strings\<close>

text \<open>\<open>parse_u64\<close> walks the digits from the last one; its arithmetic wraps at 64 bits.\<close>

fun parse_u64_loop :: "string \<Rightarrow> u64 \<Rightarrow> u64 \<Rightarrow> u64 option" where
  "parse_u64_loop [] value multiplier = Some value"
| "parse_u64_loop (c # cs) value multiplier =
     (if 48 \<le> (of_char c :: nat) \<and> (of_char c :: nat) \<le> 57
      then parse_u64_loop cs (value + multiplier * of_nat (of_char c - 48)) (multiplier * 10)
      else None)"

definition parse_u64 :: "string \<Rightarrow> u64 option" where
  "parse_u64 s = parse_u64_loop (rev s) 0 1"

text \<open>
  \<open>split_string\<close>: the loop of the source with its \<open>start\<close> and \<open>index\<close>; the substring
  between them is pushed at a delimiter and at the end, when it is not empty.
\<close>

function split_string_loop :: "string \<Rightarrow> char \<Rightarrow> nat \<Rightarrow> nat \<Rightarrow> string list" where
  "split_string_loop s delimiter start index =
     (if index \<ge> length s then
        (if index \<noteq> start then [take (index - start) (drop start s)] else [])
      else if s ! index = delimiter then
        (if index \<noteq> start then [take (index - start) (drop start s)] else []) @
        split_string_loop s delimiter (index + 1) (index + 1)
      else split_string_loop s delimiter start (index + 1))"
  by pat_completeness auto
termination
  by (relation "measure (\<lambda>(s, d, start, index). length s - index)") auto

definition split_string :: "string \<Rightarrow> char \<Rightarrow> string list" where
  "split_string s delimiter = split_string_loop s delimiter 0 0"

text \<open>
  \<open>convert_eol_to_lf\<close> looks one character ahead. The guard \<open>i <= size - 2\<close> is an unsigned
  comparison: for a single character it always holds, and a lone carriage return then reads
  past the end of the view, which is undefined behaviour.
\<close>

definition eol_guard :: "string \<Rightarrow> nat \<Rightarrow> bool" where
  "eol_guard s i \<longleftrightarrow> (of_nat i :: u64) \<le> of_nat (length s) - 2"

fun convert_eol_loop :: "string \<Rightarrow> nat \<Rightarrow> nat \<Rightarrow> string option" where
  "convert_eol_loop s 0 i = Some []"
| "convert_eol_loop s (Suc n) i =
     do {
       c \<leftarrow> (if eol_guard s i \<and> s ! i = CHR 0x0D
             then (if i + 1 < length s
                   then Some (if s ! (i + 1) = CHR 0x0A then CHR 0x0A else s ! i)
                   else None)
             else Some (s ! i));
       rest \<leftarrow> convert_eol_loop s n (i + 1);
       Some (c # rest)
     }"

definition convert_eol_to_lf :: "string \<Rightarrow> string option" where
  "convert_eol_to_lf s = convert_eol_loop s (length s) 0"

subsection \<open>Vectors of fixed capacity\<close>

text \<open>\<open>FixedVector<T, Capacity>\<close>: \<open>append\<close> asserts that the capacity is not exceeded.\<close>

definition FixedVector_append :: "nat \<Rightarrow> 'a list \<Rightarrow> 'a \<Rightarrow> 'a list option" where
  "FixedVector_append capacity elements element =
     do { ASSERT (length elements < capacity); Some (elements @ [element]) }"

definition LEB128_capacity :: nat where
  "LEB128_capacity = 16"

subsection \<open>LEB128\<close>

text \<open>
  The \<open>while (!last)\<close> loops; each iteration appends one byte to the buffer, whose capacity
  bounds the number of iterations.
\<close>

function encode_uleb128_loop :: "u64 \<Rightarrow> u8 list \<Rightarrow> u8 list option" where
  "encode_uleb128_loop bits buffer =
     (let byte = ucast (bits AND 0x7F) :: u8;
          bits' = drop_bit 7 bits;
          last = (bits' = 0);
          byte' = (if last then byte else byte OR 0x80)
      in case FixedVector_append LEB128_capacity buffer byte' of
           None \<Rightarrow> None
         | Some buffer' \<Rightarrow> if last then Some buffer' else encode_uleb128_loop bits' buffer')"
  by pat_completeness auto
termination
  by (relation "measure (\<lambda>(bits, buffer). LEB128_capacity + 1 - length buffer)")
    (auto simp: FixedVector_append_def ASSERT_def split: if_splits)

definition encode_uleb128 :: "u64 \<Rightarrow> u8 list option" where
  "encode_uleb128 value = encode_uleb128_loop value []"

function encode_sleb128_loop :: "bool \<Rightarrow> u64 \<Rightarrow> u8 list \<Rightarrow> u8 list option" where
  "encode_sleb128_loop is_negative bits buffer =
     (let byte = ucast (bits AND 0x7F) :: u8;
          sign_bit = (byte AND 0x40 \<noteq> 0);
          shifted = drop_bit 7 bits;
          bits' = (if is_negative then shifted OR push_bit 57 0x7F else shifted);
          last = ((bits' = 0 \<and> \<not> sign_bit) \<or> (bits' = NOT 0 \<and> sign_bit));
          byte' = (if last then byte else byte OR 0x80)
      in case FixedVector_append LEB128_capacity buffer byte' of
           None \<Rightarrow> None
         | Some buffer' \<Rightarrow>
             if last then Some buffer' else encode_sleb128_loop is_negative bits' buffer')"
  by pat_completeness auto
termination
  by (relation "measure (\<lambda>(neg, bits, buffer). LEB128_capacity + 1 - length buffer)")
    (auto simp: FixedVector_append_def ASSERT_def split: if_splits)

definition encode_sleb128 :: "large_int \<Rightarrow> u8 list option" where
  "encode_sleb128 value = encode_sleb128_loop (negative value) (LargeInt_to_bits value) []"

declare encode_uleb128_loop.simps [simp del] encode_sleb128_loop.simps [simp del]
  first_bit_set_loop.simps [simp del] split_string_loop.simps [simp del]

section \<open>LEB128 decoding\<close>

text \<open>
  What the encodings promise: the reader of the WebAssembly binary format. Seven payload bits
  per byte, least significant first; the top bit marks that another byte follows; the signed
  form sign-extends from bit 6 of the last byte.
\<close>

fun uleb128_value :: "u8 list \<Rightarrow> nat" where
  "uleb128_value [] = 0"
| "uleb128_value (b # bs) = unat (b AND 0x7F) + 128 * uleb128_value bs"

fun sleb128_value :: "u8 list \<Rightarrow> int" where
  "sleb128_value [] = 0"
| "sleb128_value [b] = uint (b AND 0x7F) - (if bit b 6 then 128 else 0)"
| "sleb128_value (b # c # bs) = uint (b AND 0x7F) + 128 * sleb128_value (c # bs)"

definition leb128_terminated :: "u8 list \<Rightarrow> bool" where
  "leb128_terminated bs \<longleftrightarrow>
     bs \<noteq> [] \<and> list_all (\<lambda>b. bit b 7) (butlast bs) \<and> \<not> bit (last bs) 7"

lemma and_7F: "(w :: 'a::len word) AND 0x7F = take_bit 7 w"
  by (simp add: take_bit_eq_mask mask_eq_exp_minus_1)

lemma and_80: "(0x80 :: u8) = push_bit 7 1" by simp

lemma low_byte_facts:
  fixes w :: u64
  defines "b \<equiv> ucast (w AND 0x7F) :: u8"
  shows "b AND 0x7F = b" "(b OR 0x80) AND 0x7F = b" "\<not> bit b 7" "bit (b OR 0x80) 7"
    "unat b = unat w mod 128" "bit (b OR 0x80) 6 = bit b 6" "bit b 6 = bit w 6"
proof -
  show "b AND 0x7F = b"
    unfolding b_def and_7F by (rule bit_word_eqI) (auto simp: bit_simps)
  show "(b OR 0x80) AND 0x7F = b"
    unfolding b_def and_7F and_80 by (rule bit_word_eqI) (auto simp: bit_simps)
  show "\<not> bit b 7" "bit (b OR 0x80) 7" "bit (b OR 0x80) 6 = bit b 6" "bit b 6 = bit w 6"
    unfolding b_def and_7F and_80 by (auto simp: bit_simps)
  have "unat b = take_bit 8 (take_bit 7 (unat w))"
    unfolding b_def and_7F by (simp add: unsigned_ucast_eq unsigned_take_bit_eq)
  then show "unat b = unat w mod 128" by (simp add: take_bit_eq_mod)
qed

lemma encode_uleb128_loop_correct:
  "unat bits < 128 ^ Suc k \<Longrightarrow> length buffer + Suc k \<le> LEB128_capacity \<Longrightarrow>
   \<exists>bs. encode_uleb128_loop bits buffer = Some (buffer @ bs) \<and> uleb128_value bs = unat bits \<and>
     leb128_terminated bs \<and> length bs \<le> Suc k"
proof (induction k arbitrary: bits buffer)
  case 0
  then have "drop_bit 7 bits = 0"
    using unat_drop_bit [of 7 bits] by (simp add: unat_eq_0 [symmetric] del: unat_eq_0)
  with 0 show ?case
    by (subst encode_uleb128_loop.simps)
      (auto simp: Let_def FixedVector_append_def low_byte_facts leb128_terminated_def)
next
  case (Suc k)
  let ?b = "ucast (bits AND 0x7F) :: u8"
  have d: "unat (drop_bit 7 bits) = unat bits div 128"
    using unat_drop_bit [of 7 bits] by simp
  show ?case
  proof (cases "drop_bit 7 bits = 0")
    case True
    then have "unat bits mod 128 = unat bits" using d by (simp add: div_eq_0_iff)
    with True Suc.prems show ?thesis
      by (subst encode_uleb128_loop.simps)
        (auto simp: Let_def FixedVector_append_def low_byte_facts leb128_terminated_def)
  next
    case False
    have "unat (drop_bit 7 bits) < 128 ^ Suc k" unfolding d
      using Suc.prems(1) by (simp add: less_mult_imp_div_less mult.commute)
    moreover have "length (buffer @ [?b OR 0x80]) + Suc k \<le> LEB128_capacity"
      using Suc.prems(2) by simp
    ultimately obtain bs where bs: "encode_uleb128_loop (drop_bit 7 bits) (buffer @ [?b OR 0x80]) =
        Some ((buffer @ [?b OR 0x80]) @ bs)" "uleb128_value bs = unat (drop_bit 7 bits)"
        "leb128_terminated bs" "length bs \<le> Suc k"
      using Suc.IH by blast
    have "encode_uleb128_loop bits buffer = Some (buffer @ ((?b OR 0x80) # bs))"
      using False Suc.prems(2) bs(1)
      by (subst encode_uleb128_loop.simps) (simp add: Let_def FixedVector_append_def)
    moreover have "uleb128_value ((?b OR 0x80) # bs) = unat bits"
      using bs(2) by (simp add: low_byte_facts d)
    moreover have "leb128_terminated ((?b OR 0x80) # bs)"
      using bs(3) by (auto simp: leb128_terminated_def low_byte_facts)
    moreover have "length ((?b OR 0x80) # bs) \<le> Suc (Suc k)" using bs(4) by simp
    ultimately show ?thesis by blast
  qed
qed

lemma sleb128_value_Cons:
  "bs \<noteq> [] \<Longrightarrow> sleb128_value (b # bs) = uint (b AND 0x7F) + 128 * sleb128_value bs"
  by (cases bs) auto

lemma uint_low_byte: "uint (ucast ((w :: u64) AND 0x7F) :: u8) = uint w mod 128"
proof -
  have "uint (ucast (w AND 0x7F) :: u8) = take_bit 8 (take_bit 7 (uint w))"
    unfolding and_7F by (simp add: unsigned_ucast_eq unsigned_take_bit_eq)
  then show ?thesis by (simp add: take_bit_eq_mod)
qed

lemma and_40_bit: "(b :: u8) AND 0x40 \<noteq> 0 \<longleftrightarrow> bit b 6"
proof -
  have e: "(0x40 :: u8) = 2 ^ 6" by simp
  show ?thesis unfolding e by (simp only: and_exp_eq_0_iff_not_bit) simp
qed

lemma uint_word_of_signed:
  assumes "- (2 ^ 64) < v" "v < 2 ^ 64"
  shows "uint (word_of_int v :: u64) = (if v < 0 then v + 2 ^ 64 else v)"
proof (cases "v < 0")
  case True
  then have "(v + 2 ^ 64) mod 2 ^ 64 = v + 2 ^ 64" using assms by (intro mod_pos_pos_trivial) simp_all
  then show ?thesis using True unfolding uint_word_of_int by simp
next
  case False
  then show ?thesis using assms unfolding uint_word_of_int by simp
qed

lemma word_of_int_plus_exp: "(word_of_int (v + 2 ^ 64) :: u64) = word_of_int v"
  by (simp add: word_of_int_eq_iff take_bit_eq_mod)

text \<open>Filling in seven sign bits makes the logical shift an arithmetic one.\<close>

lemma sleb128_shift:
  assumes "- (2 ^ 64) < v" "v < 2 ^ 64"
  defines "bits \<equiv> word_of_int v :: u64"
  shows "(if v < 0 then drop_bit 7 bits OR push_bit 57 0x7F else drop_bit 7 bits) = word_of_int (v div 128)"
proof -
  have u: "uint (drop_bit 7 bits) = uint bits div 128"
    using uint_drop_bit [of 7 bits] by simp
  show ?thesis
  proof (cases "v < 0")
    case True
    have m: "(0x7F :: u64) = mask 7" by (simp add: mask_eq_exp_minus_1)
    have "drop_bit 7 bits AND push_bit 57 0x7F = 0"
      unfolding m by (rule bit_word_eqI) (auto simp: bit_simps dest: bit_imp_le_length)
    then have or_plus: "drop_bit 7 bits OR push_bit 57 0x7F = drop_bit 7 bits + push_bit 57 0x7F"
      by (simp add: disjunctive_add_eq_or)
    have "uint (drop_bit 7 bits) = v div 128 + 2 ^ 57"
      using u True assms(1,2) uint_word_of_signed [of v] by (simp add: bits_def)
    then have shifted: "drop_bit 7 bits = word_of_int (v div 128 + 2 ^ 57)"
      by (metis word_of_int_uint)
    have "word_of_int (v div 128 + 2 ^ 57) + push_bit 57 0x7F = (word_of_int (v div 128 + 2 ^ 64) :: u64)"
      by (simp add: push_bit_eq_mult)
    also have "\<dots> = word_of_int (v div 128)" by (rule word_of_int_plus_exp)
    finally have "drop_bit 7 bits + push_bit 57 0x7F = word_of_int (v div 128)"
      by (simp only: shifted)
    then show ?thesis using True or_plus by simp
  next
    case False
    have "drop_bit 7 bits = word_of_int (uint (drop_bit 7 bits))" by simp
    also have "uint (drop_bit 7 bits) = v div 128"
      using u False assms(1,2) uint_word_of_signed [of v] by (simp add: bits_def)
    finally show ?thesis using False by simp
  qed
qed


lemma sleb128_low_byte:
  assumes "- (2 ^ 64) < v" "v < 2 ^ 64"
  defines "b \<equiv> ucast ((word_of_int v :: u64) AND 0x7F) :: u8"
  shows "uint b = v mod 128" "bit b 6 \<longleftrightarrow> 64 \<le> v mod 128"
proof -
  show u: "uint b = v mod 128"
    unfolding b_def uint_low_byte
    using uint_word_of_signed [of v] assms(1,2) mod_mult_self1 [of v 144115188075855872 128] by simp
  have "v mod 128 < 128" "0 \<le> v mod 128" by simp_all
  then have d: "v mod 128 div 64 = (if 64 \<le> v mod 128 then 1 else 0)"
    by (auto intro!: int_div_pos_eq [where r = "v mod 128 - 64"])
  moreover have "bit b 6 \<longleftrightarrow> bit (uint b) 6" by (simp add: bit_uint_iff)
  moreover have "bit (uint b) 6 \<longleftrightarrow> odd (uint b div 64)" by (simp add: bit_iff_odd)
  ultimately show "bit b 6 \<longleftrightarrow> 64 \<le> v mod 128"
    by (simp add: u d)
qed

lemma sleb128_last:
  fixes v :: int
  shows "(v div 128 = 0 \<and> v mod 128 < 64) \<or> (v div 128 = - 1 \<and> 64 \<le> v mod 128) \<longleftrightarrow>
    - 64 \<le> v \<and> v < 64"
  by presburger

lemma word_of_int_eq_small:
  assumes "- (2 ^ 57) \<le> w" "w < 2 ^ 57"
  shows "(word_of_int w :: u64) = 0 \<longleftrightarrow> w = 0" "(word_of_int w :: u64) = NOT 0 \<longleftrightarrow> w = - 1"
proof -
  have b: "- (2 ^ 64) < w" "w < 2 ^ 64" using assms by simp_all
  have "(word_of_int w :: u64) = word_of_int u \<longleftrightarrow> w = u" if "u = 0 \<or> u = - 1" for u
  proof
    assume "(word_of_int w :: u64) = word_of_int u"
    then have "uint (word_of_int w :: u64) = uint (word_of_int u :: u64)" by simp
    then show "w = u"
      using uint_word_of_signed [OF b] uint_word_of_signed [of u] that assms by (auto split: if_splits)
  qed simp
  from this [of 0] this [of "- 1"] show "(word_of_int w :: u64) = 0 \<longleftrightarrow> w = 0"
    "(word_of_int w :: u64) = NOT 0 \<longleftrightarrow> w = - 1" by simp_all
qed

lemma sleb128_loop_step:
  assumes "- (2 ^ 64) < v" "v < 2 ^ 64" "length buffer < LEB128_capacity"
  defines "b \<equiv> ucast ((word_of_int v :: u64) AND 0x7F) :: u8"
  shows "encode_sleb128_loop (v < 0) (word_of_int v) buffer =
    (if - 64 \<le> v \<and> v < 64 then Some (buffer @ [b])
     else encode_sleb128_loop (v div 128 < 0) (word_of_int (v div 128)) (buffer @ [b OR 0x80]))"
proof -
  have small: "- (2 ^ 57) \<le> v div 128" "v div 128 < 2 ^ 57" using assms(1,2) by simp_all
  have last: "(word_of_int (v div 128) :: u64) = 0 \<and> \<not> bit b 6 \<or>
      (word_of_int (v div 128) :: u64) = NOT 0 \<and> bit b 6 \<longleftrightarrow> - 64 \<le> v \<and> v < 64"
    unfolding word_of_int_eq_small [OF small] b_def sleb128_low_byte(2) [OF assms(1,2)]
    using sleb128_last [of v] by (simp add: not_le)
  have neg: "v < 0 \<longleftrightarrow> v div 128 < 0" by presburger
  have shift: "(if v < 0 then drop_bit 7 (word_of_int v) OR push_bit 57 0x7F else drop_bit 7 (word_of_int v))
      = (word_of_int (v div 128) :: u64)"
    by (rule sleb128_shift [OF assms(1,2)])
  show ?thesis
    by (subst encode_sleb128_loop.simps)
      (simp only: Let_def shift and_40_bit b_def [symmetric] last neg [symmetric]
        FixedVector_append_def assms(3) ASSERT_True bind.bind_lunit option.case split: if_split, auto)
qed

lemma sleb128_value_last:
  assumes "- 64 \<le> v" "v < 64"
  shows "sleb128_value [ucast ((word_of_int v :: u64) AND 0x7F) :: u8] = v"
proof -
  have b: "- (2 ^ 64) < v" "v < 2 ^ 64" using assms by simp_all
  show ?thesis
    unfolding sleb128_value.simps(2) low_byte_facts(1) sleb128_low_byte [OF b]
    using assms by presburger
qed

lemma encode_sleb128_loop_correct:
  "- (64 * 128 ^ k) \<le> v \<Longrightarrow> v < 64 * 128 ^ k \<Longrightarrow> - (2 ^ 64) < v \<Longrightarrow> v < 2 ^ 64 \<Longrightarrow>
   length buffer + Suc k \<le> LEB128_capacity \<Longrightarrow>
   \<exists>bs. encode_sleb128_loop (v < 0) (word_of_int v) buffer = Some (buffer @ bs) \<and>
     sleb128_value bs = v \<and> leb128_terminated bs \<and> length bs \<le> Suc k"
proof (induction k arbitrary: v buffer)
  case (0 v buffer)
  let ?b = "ucast ((word_of_int v :: u64) AND 0x7F) :: u8"
  have step: "encode_sleb128_loop (v < 0) (word_of_int v) buffer = Some (buffer @ [?b])"
    using sleb128_loop_step [of v buffer] 0 by simp
  have "sleb128_value [?b] = v"
    using sleb128_value_last [of v] 0 by simp
  then show ?case using step by (auto simp: leb128_terminated_def low_byte_facts)
next
  case (Suc k v buffer)
  let ?b = "ucast ((word_of_int v :: u64) AND 0x7F) :: u8"
  show ?case
  proof (cases "- 64 \<le> v \<and> v < 64")
    case True
    have step: "encode_sleb128_loop (v < 0) (word_of_int v) buffer = Some (buffer @ [?b])"
      using sleb128_loop_step [of v buffer] True Suc.prems by simp
    then show ?thesis using sleb128_value_last [of v] True Suc.prems
      by (auto simp: leb128_terminated_def low_byte_facts)
  next
    case False
    have step: "encode_sleb128_loop (v < 0) (word_of_int v) buffer =
      encode_sleb128_loop (v div 128 < 0) (word_of_int (v div 128)) (buffer @ [?b OR 0x80])"
      using sleb128_loop_step [of v buffer] False Suc.prems by simp
    have "- (64 * 128 ^ k) \<le> v div 128" "v div 128 < 64 * 128 ^ k"
      using Suc.prems(1,2) by simp_all
    moreover have "- (2 ^ 64) < v div 128" "v div 128 < 2 ^ 64"
      using Suc.prems(3,4) by simp_all
    moreover have "length (buffer @ [?b OR 0x80]) + Suc k \<le> LEB128_capacity"
      using Suc.prems(5) by simp
    ultimately obtain bs where bs:
      "encode_sleb128_loop (v div 128 < 0) (word_of_int (v div 128)) (buffer @ [?b OR 0x80]) =
         Some ((buffer @ [?b OR 0x80]) @ bs)"
      "sleb128_value bs = v div 128" "leb128_terminated bs" "length bs \<le> Suc k"
      using Suc.IH by blast
    have "sleb128_value ((?b OR 0x80) # bs) = v"
      using bs(2,3) sleb128_low_byte(1) [of v] Suc.prems(3,4)
      by (simp add: sleb128_value_Cons leb128_terminated_def low_byte_facts)
    moreover have "leb128_terminated ((?b OR 0x80) # bs)"
      using bs(3) by (auto simp: leb128_terminated_def low_byte_facts)
    ultimately show ?thesis using step bs(1,4)
      by (intro exI [of _ "(?b OR 0x80) # bs"]) simp
  qed
qed

lemma encode_uleb128_correct:
  "\<exists>bs. encode_uleb128 v = Some bs \<and> uleb128_value bs = unat v \<and> leb128_terminated bs \<and> length bs \<le> 10"
proof -
  have "unat v < 128 ^ Suc 9" using unsigned_less [of v, where 'a=nat] by simp
  from encode_uleb128_loop_correct [OF this, of "[]"] show ?thesis
    by (simp add: encode_uleb128_def LEB128_capacity_def)
qed

lemma encode_sleb128_correct:
  assumes "LargeInt_normal x"
  shows "\<exists>bs. encode_sleb128 x = Some bs \<and> sleb128_value bs = LargeInt_value x \<and>
    leb128_terminated bs \<and> length bs \<le> 10"
proof -
  have "negative x \<longleftrightarrow> LargeInt_value x < 0" by (rule LargeInt_negative_iff [OF assms])
  moreover have "- (2 ^ 64) < LargeInt_value x" "LargeInt_value x < 2 ^ 64"
    using LargeInt_value_bound [of x] by simp_all
  moreover have "- (64 * 128 ^ 9) \<le> LargeInt_value x" "LargeInt_value x < 64 * 128 ^ 9"
    using LargeInt_value_bound [of x] by simp_all
  ultimately show ?thesis
    using encode_sleb128_loop_correct [of 9 "LargeInt_value x" "[]"]
    by (simp add: encode_sleb128_def LargeInt_to_bits_value LEB128_capacity_def)
qed

lemma encode_sleb128_negative_zero:
  "encode_sleb128 \<lparr>magnitude = 0, negative = True\<rparr> =
     Some [0x80, 0x80, 0x80, 0x80, 0x80, 0x80, 0x80, 0x80, 0x80, 0x7E]"
  unfolding encode_sleb128_def LargeInt_to_bits_def
  by (simp add: encode_sleb128_loop.simps FixedVector_append_def LEB128_capacity_def)

subsection \<open>Alignment\<close>

lemma align_0 [simp]: "align v 0 = v"
  by (simp add: align_def)

lemma align_unfold:
  assumes "b \<noteq> 0" "v mod b \<noteq> 0"
  shows "align v b = b * Suc (v div b)"
proof -
  have "v mod b \<le> v" by simp
  then have "v + b - v mod b = (v - v mod b) + b" by simp
  then show ?thesis using assms by (simp add: align_def Let_def minus_mod_eq_mult_div)
qed

lemma align_aligned: "b dvd v \<Longrightarrow> align v b = v"
  by (simp add: align_def mod_eq_0_iff_dvd)

lemma dvd_align: "b \<noteq> 0 \<Longrightarrow> b dvd align v b"
  by (cases "v mod b = 0") (simp_all add: align_aligned mod_eq_0_iff_dvd align_unfold)

lemma align_bounds: "b \<noteq> 0 \<Longrightarrow> v \<le> align v b \<and> align v b < v + b"
proof (cases "v mod b = 0")
  case False
  assume b: "b \<noteq> 0"
  then have "v mod b < b" "v = b * (v div b) + v mod b" by simp_all
  then have "v \<le> b * (v div b) + b" "b * (v div b) + b < v + b"
    using False by linarith+
  then show ?thesis using False b by (simp add: align_unfold)
qed (simp add: align_def)

lemma align_ge: "v \<le> align v b"
  using align_bounds [of b v] by (cases "b = 0") auto

lemma align_least: "v \<le> w \<Longrightarrow> b dvd w \<Longrightarrow> align v b \<le> w"
proof (cases "v mod b = 0")
  case True
  then show "v \<le> w \<Longrightarrow> align v b \<le> w" by (simp add: align_def)
next
  case False
  assume "v \<le> w" "b dvd w"
  then obtain k where k: "w = b * k" by (auto elim: dvdE)
  have "v div b < k"
  proof (rule ccontr)
    assume "\<not> v div b < k"
    then have "b * k \<le> b * (v div b)" by simp
    also have "\<dots> < v" using False mod_mult_div_eq [of v b] by linarith
    finally show False using \<open>v \<le> w\<close> k by simp
  qed
  then have "b * Suc (v div b) \<le> b * k" by (intro mult_le_mono2) simp
  then show "align v b \<le> w"
    using False \<open>v \<le> w\<close> by (cases "b = 0") (simp_all add: align_unfold k)
qed

subsection \<open>Lists and strings\<close>

lemma remove_duplicates_loop_correct:
  "distinct result \<Longrightarrow> distinct (remove_duplicates_loop result xs) \<and>
     set (remove_duplicates_loop result xs) = set result \<union> set xs"
proof (induction result xs rule: remove_duplicates_loop.induct)
  case (2 result x xs)
  then show ?case by (cases "x \<in> set result") (auto simp: list_ex_iff)
qed simp

lemma convert_eol_loop_eq:
  assumes "length s \<noteq> 1" "i + n = length s" "length s < 2 ^ 64"
  shows "convert_eol_loop s n i =
    Some (map (\<lambda>k. if s ! k = CHR 0x0D \<and> k + 1 < length s \<and> s ! (k + 1) = CHR 0x0A
                  then CHR 0x0A else s ! k) [i..<length s])"
  using assms(2)
proof (induction n arbitrary: i)
  case 0
  then show ?case by simp
next
  case (Suc n)
  then have i: "i < length s" by simp
  with assms(1) have two: "2 \<le> length s" by simp
  have "unat (of_nat (length s) - 2 :: u64) = length s - 2"
    using two assms(3) by (simp add: unat_sub word_le_nat_alt unat_of_nat)
  then have g: "eol_guard s i \<longleftrightarrow> i + 1 < length s"
    using i two assms(3) by (auto simp: eol_guard_def word_le_nat_alt unat_of_nat)
  show ?case
    using Suc.IH [of "i + 1"] Suc.prems i
    by (auto simp: g upt_conv_Cons [OF i])
qed

subsection \<open>Powers of two\<close>

lemma nat_and_pred_eq_0: "0 < (x :: nat) \<Longrightarrow> and x (x - 1) = 0 \<Longrightarrow> \<exists>n. x = 2 ^ n"
proof (induction x rule: less_induct)
  case (less x)
  show ?case
  proof (cases "even x")
    case True
    then obtain y where y: "x = 2 * y" by (elim evenE)
    with less.prems have "x - 1 = 2 * (y - 1) + 1" by simp
    then have "and x (x - 1) = 2 * and y (y - 1)"
      using y by (simp add: and_nat_rec [of "2 * y"])
    with less y obtain n where "y = 2 ^ n" by force
    then show ?thesis using y by (intro exI [of _ "Suc n"]) simp
  next
    case False
    then obtain y where y: "x = 2 * y + 1" by (elim oddE)
    then have "and x (x - 1) = 2 * y"
      by (simp add: and_nat_rec [of "Suc (2 * y)"])
    with less.prems y show ?thesis by (intro exI [of _ 0]) simp
  qed
qed

lemma unat_p2_u64: "n < 64 \<Longrightarrow> unat (2 ^ n :: u64) = 2 ^ n"
proof -
  assume "n < 64"
  then have "(2 :: nat) ^ n < 2 ^ 64" by (intro power_strict_increasing) simp_all
  then show ?thesis using unat_of_nat [of "2 ^ n", where 'a=64] by simp
qed

lemma is_power_of_two_exp:
  fixes w :: u64
  assumes "w \<noteq> 0" "is_power_of_two w"
  shows "\<exists>n < 64. w = 2 ^ n"
proof -
  have pos: "0 < unat w" using assms by (simp add: unat_gt_0)
  have "unat (w AND (w - 1)) = 0" using assms(2) by (simp add: is_power_of_two_def)
  moreover have "unat (w - 1) = unat w - 1"
    using assms(1) by (simp add: unat_minus_one)
  ultimately have "and (unat w) (unat w - 1) = 0" by (simp add: unsigned_and_eq)
  then obtain n where n: "unat w = 2 ^ n" using nat_and_pred_eq_0 [OF pos] by blast
  have "unat w < 2 ^ 64" using unsigned_less [of w, where 'a=nat] by simp
  then have "n < 64" using n by (metis numeral_le_iff one_less_numeral_iff power_less_imp_less_exp semiring_norm(76))
  moreover have "w = 2 ^ n" using n by (simp add: word_unat_eq_iff unat_p2_u64 \<open>n < 64\<close>)
  ultimately show ?thesis by blast
qed

lemma first_bit_set_loop_exp:
  "n < 64 \<Longrightarrow> first_bit_set_loop (2 ^ n) k = k + int n + 1"
proof (induction n arbitrary: k)
  case 0
  then show ?case by (simp add: first_bit_set_loop.simps [of 1] first_bit_set_loop.simps [of 0])
next
  case (Suc n)
  have d: "drop_bit 1 (2 ^ Suc n :: u64) = 2 ^ n"
    using Suc.prems by (intro bit_word_eqI) (auto simp: bit_simps)
  have "(2 ^ Suc n :: u64) \<noteq> 0"
    using Suc.prems by (metis unat_p2_u64 power_not_zero unat_0 zero_neq_numeral)
  then have "first_bit_set_loop (2 ^ Suc n) k = first_bit_set_loop (2 ^ n) (k + 1)"
    by (subst first_bit_set_loop.simps) (simp only: d if_True not_False_eq_True simp_thms)
  then show ?case using Suc by simp
qed

lemma first_bit_set_exp: "n < 64 \<Longrightarrow> unat (first_bit_set (2 ^ n)) = n"
  by (simp add: first_bit_set_def first_bit_set_loop_exp unat_of_nat)

section \<open>Properties\<close>

text \<open>
  C4: the unsigned LEB128 encoder never overflows its 16-byte buffer, writes at most ten bytes
  with a well-formed continuation, and its output decodes to the value.
\<close>

theorem encode_uleb128_roundtrip:
  "\<exists>bs. encode_uleb128 v = Some bs \<and> uleb128_value bs = unat v \<and>
     leb128_terminated bs \<and> length bs \<le> 10"
  by (rule encode_uleb128_correct)

text \<open>
  C5: the signed encoder does the same for every LargeInt of either sign and any 64-bit
  magnitude, except for a negative zero, which comes out as the ten-byte encoding of \<open>- 2 ^ 64\<close>.
\<close>

theorem encode_sleb128_roundtrip:
  assumes "LargeInt_normal x"
  shows "(\<exists>bs. encode_sleb128 x = Some bs \<and> sleb128_value bs = LargeInt_value x \<and>
      leb128_terminated bs \<and> length bs \<le> 10) \<and>
    (\<exists>bs. encode_sleb128 \<lparr>magnitude = 0, negative = True\<rparr> = Some bs \<and> sleb128_value bs = - (2 ^ 64))"
  using encode_sleb128_correct [OF assms] by (simp add: encode_sleb128_negative_zero)

theorem encode_sleb128_roundtrip_witness:
  "\<exists>bs. encode_sleb128 \<lparr>magnitude = 624485, negative = True\<rparr> = Some bs \<and> sleb128_value bs = - 624485"
  using encode_sleb128_roundtrip [of "\<lparr>magnitude = 624485, negative = True\<rparr>"]
  by (auto simp: LargeInt_normal_def LargeInt_value_def)

text \<open>
  \<open>convert_eol_to_lf\<close> does not remove carriage returns: on any string that is not one
  character long it returns a string of the same length in which each carriage return that a
  line feed follows is itself replaced by a line feed, so a CRLF line ending becomes two line
  feeds. A single carriage return makes it read past the end.
\<close>

theorem convert_eol_to_lf_doubles:
  assumes "length s \<noteq> 1" "length s < 2 ^ 64"
  shows "(\<exists>r. convert_eol_to_lf s = Some r \<and> length r = length s \<and>
      (\<forall>i < length s. r ! i =
        (if s ! i = CHR 0x0D \<and> i + 1 < length s \<and> s ! (i + 1) = CHR 0x0A then CHR 0x0A else s ! i))) \<and>
    convert_eol_to_lf [CHR 0x0D] = None"
proof
  show "\<exists>r. convert_eol_to_lf s = Some r \<and> length r = length s \<and>
      (\<forall>i < length s. r ! i =
        (if s ! i = CHR 0x0D \<and> i + 1 < length s \<and> s ! (i + 1) = CHR 0x0A then CHR 0x0A else s ! i))"
    using convert_eol_loop_eq [OF assms(1), of 0 "length s"] assms(2)
    by (simp add: convert_eol_to_lf_def)
  show "convert_eol_to_lf [CHR 0x0D] = None"
    by (simp add: convert_eol_to_lf_def eol_guard_def)
qed

theorem convert_eol_to_lf_doubles_witness:
  "\<exists>r. convert_eol_to_lf [CHR ''a'', CHR 0x0D, CHR 0x0A] = Some r \<and> length r = 3 \<and> r ! 1 = CHR 0x0A"
  using convert_eol_to_lf_doubles [of "[CHR ''a'', CHR 0x0D, CHR 0x0A]"] by force

text \<open>
  the strength reduction the optimizer builds on: when \<open>is_power_of_two\<close> accepts a nonzero
  constant, multiplying, dividing and taking the remainder by it are a shift left, a shift right
  and a mask, with the shift amount that \<open>first_bit_set\<close> returns.
\<close>

theorem power_of_two_shift:
  assumes "is_power_of_two w" "w \<noteq> 0"
  shows "unat (first_bit_set w) < 64 \<and>
    x * w = push_bit (unat (first_bit_set w)) x \<and>
    x div w = drop_bit (unat (first_bit_set w)) x \<and>
    x mod w = x AND (w - 1)"
proof -
  obtain n where n: "n < 64" "w = 2 ^ n" using is_power_of_two_exp [OF assms(2,1)] by blast
  have "x mod w = take_bit n x" by (simp add: n take_bit_eq_mod)
  also have "\<dots> = x AND (w - 1)" by (simp add: n take_bit_eq_mask mask_eq_exp_minus_1)
  finally show ?thesis
    using n by (simp add: first_bit_set_exp push_bit_eq_mult drop_bit_eq_div)
qed

theorem power_of_two_shift_witness:
  "(5 :: u64) * 8 = push_bit (unat (first_bit_set 8)) 5"
  using power_of_two_shift [of 8 5] by (simp add: is_power_of_two_def)

end
