(* ===== verification/Bit_Set.thy ===== *)
theory Bit_Set
  imports Prelude
begin

section \<open>BitSet: sets of unsigned positions\<close>

text \<open>
  The class \<open>BitSet\<close> of \<open>src/banjo/utils/bit_set.hpp\<close> and \<open>bit_set.cpp\<close>: a vector of 64-bit
  words that grows on demand, with an iterator that skips the cleared positions. The machine
  register sets of liveness analysis and register allocation are built on it. The interface
  its clients rely on is the locale \<open>set_impl\<close>; the model is an interpretation of it.
\<close>

type_synonym bit_set = "u64 list"

subsection \<open>Operations\<close>

definition BitSet_get_word_index :: "u32 \<Rightarrow> nat" where
  "BitSet_get_word_index position = unat (position div 64)"

definition BitSet_get_mask :: "u32 \<Rightarrow> u64" where
  "BitSet_get_mask position = push_bit (unat (position mod 64)) 1"

definition BitSet_empty :: bit_set where
  "BitSet_empty = []"

definition BitSet_get :: "bit_set \<Rightarrow> u32 \<Rightarrow> bool" where
  "BitSet_get words position =
     (let word_index = BitSet_get_word_index position in
      if word_index \<ge> length words then False
      else words ! word_index AND BitSet_get_mask position \<noteq> 0)"

definition popcount :: "u64 \<Rightarrow> nat" where
  "popcount word = length (filter (bit word) [0..<64])"

definition BitSet_size :: "bit_set \<Rightarrow> u32" where
  "BitSet_size words = foldl (\<lambda>size word. size + of_nat (popcount word)) 0 words"

text \<open>\<open>std::vector::resize\<close> appends zero words, or drops words from the end.\<close>

definition BitSet_resize :: "bit_set \<Rightarrow> nat \<Rightarrow> bit_set" where
  "BitSet_resize words n = take n words @ replicate (n - length words) 0"

definition BitSet_set :: "bit_set \<Rightarrow> u32 \<Rightarrow> bit_set" where
  "BitSet_set words position =
     (let word_index = BitSet_get_word_index position;
          words' = (if word_index \<ge> length words
                    then BitSet_resize words (word_index + 1) else words)
      in words'[word_index := words' ! word_index OR BitSet_get_mask position])"

definition BitSet_clear :: "bit_set \<Rightarrow> u32 \<Rightarrow> bit_set" where
  "BitSet_clear words position =
     (let word_index = BitSet_get_word_index position in
      if word_index \<ge> length words then words
      else words[word_index := words ! word_index AND NOT (BitSet_get_mask position)])"

fun BitSet_union_loop :: "bit_set \<Rightarrow> bit_set \<Rightarrow> nat list \<Rightarrow> bit_set" where
  "BitSet_union_loop words other [] = words"
| "BitSet_union_loop words other (i # is) =
     BitSet_union_loop (words[i := words ! i OR other ! i]) other is"

definition BitSet_union_with :: "bit_set \<Rightarrow> bit_set \<Rightarrow> bit_set" where
  "BitSet_union_with words other =
     (let words' = (if length words < length other
                    then BitSet_resize words (length other) else words)
      in BitSet_union_loop words' other [0..<length other])"

subsection \<open>Iteration\<close>

text \<open>
  \<open>Iterator::advance\<close> increments the 32-bit position until it finds a set bit or leaves the
  words. \<open>begin()\<close> starts at zero, \<open>end()\<close> at \<open>words.size() * 64\<close> converted to \<open>unsigned\<close>; both
  constructors advance. \<open>BitSet_elements\<close> is the sequence a range-based \<open>for\<close> loop visits. The
  loops are partial functions: \<open>None\<close> is non-termination.
\<close>

partial_function (option) BitSet_Iterator_advance :: "bit_set \<Rightarrow> u32 \<Rightarrow> u32 option" where
  "BitSet_Iterator_advance words position =
     (if BitSet_get_word_index position < length words \<and>
         words ! BitSet_get_word_index position AND BitSet_get_mask position = 0
      then BitSet_Iterator_advance words (position + 1)
      else Some position)"

definition BitSet_begin :: "bit_set \<Rightarrow> u32 option" where
  "BitSet_begin words = BitSet_Iterator_advance words 0"

definition BitSet_end :: "bit_set \<Rightarrow> u32 option" where
  "BitSet_end words = BitSet_Iterator_advance words (of_nat (length words * 64))"

partial_function (option) BitSet_iterate :: "bit_set \<Rightarrow> u32 \<Rightarrow> u32 \<Rightarrow> u32 list option" where
  "BitSet_iterate words position end_position =
     (if position \<noteq> end_position then
        Option.bind (BitSet_Iterator_advance words (position + 1)) (\<lambda>next.
        Option.bind (BitSet_iterate words next end_position) (\<lambda>rest.
        Some (position # rest)))
      else Some [])"

definition BitSet_elements :: "bit_set \<Rightarrow> u32 list option" where
  "BitSet_elements words =
     do {
       first \<leftarrow> BitSet_begin words;
       last \<leftarrow> BitSet_end words;
       BitSet_iterate words first last
     }"

section \<open>The interface of a set\<close>

text \<open>
  The contract that the users of \<open>BitSet\<close> and of \<open>RegisterSet\<close> rely on, over an abstraction
  \<open>\<alpha>\<close> to mathematical sets. Iteration has a contract only where \<open>iterable\<close> holds.
\<close>

locale set_impl =
  fixes \<alpha> :: "'s \<Rightarrow> 'e set"
    and empty :: 's
    and contains :: "'s \<Rightarrow> 'e \<Rightarrow> bool"
    and insert_elem :: "'s \<Rightarrow> 'e \<Rightarrow> 's"
    and remove_elem :: "'s \<Rightarrow> 'e \<Rightarrow> 's"
    and union_with :: "'s \<Rightarrow> 's \<Rightarrow> 's"
    and size_of :: "'s \<Rightarrow> u32"
    and elements :: "'s \<Rightarrow> 'e list option"
    and iterable :: "'s \<Rightarrow> bool"
  assumes abs_empty: "\<alpha> empty = {}"
    and contains_iff: "contains s x \<longleftrightarrow> x \<in> \<alpha> s"
    and abs_insert: "\<alpha> (insert_elem s x) = insert x (\<alpha> s)"
    and abs_remove: "\<alpha> (remove_elem s x) = \<alpha> s - {x}"
    and abs_union: "\<alpha> (union_with s t) = \<alpha> s \<union> \<alpha> t"
    and size_card: "iterable s \<Longrightarrow> size_of s = of_nat (card (\<alpha> s))"
    and elements_set: "iterable s \<Longrightarrow> \<exists>xs. elements s = Some xs \<and> distinct xs \<and> set xs = \<alpha> s"
begin

lemma contains_insert: "contains (insert_elem s x) y \<longleftrightarrow> y = x \<or> contains s y"
  by (simp add: contains_iff abs_insert)

lemma contains_remove: "contains (remove_elem s x) y \<longleftrightarrow> y \<noteq> x \<and> contains s y"
  by (auto simp: contains_iff abs_remove)

lemma contains_union: "contains (union_with s t) y \<longleftrightarrow> contains s y \<or> contains t y"
  by (simp add: contains_iff abs_union)

lemma abs_insert_all: "\<alpha> (foldl insert_elem s xs) = \<alpha> s \<union> set xs"
  by (induction xs arbitrary: s) (auto simp: abs_insert)

lemma size_length_elements:
  "iterable s \<Longrightarrow> elements s = Some xs \<Longrightarrow> size_of s = of_nat (length xs)"
  using elements_set [of s] size_card [of s] distinct_card [of xs] by auto

end


section \<open>BitSet implements sets of positions\<close>

definition bitset_bit :: "bit_set \<Rightarrow> nat \<Rightarrow> bool" where
  "bitset_bit words n \<longleftrightarrow> n div 64 < length words \<and> bit (words ! (n div 64)) (n mod 64)"

definition BitSet_abs :: "bit_set \<Rightarrow> u32 set" where
  "BitSet_abs words = {p. bitset_bit words (unat p)}"

text \<open>The bit just behind the last word has a 32-bit position.\<close>

definition BitSet_bounded :: "bit_set \<Rightarrow> bool" where
  "BitSet_bounded words \<longleftrightarrow> length words * 64 < 2 ^ 32"

lemma get_word_index_unat: "BitSet_get_word_index p = unat p div 64"
  by (simp add: BitSet_get_word_index_def unat_div)

lemma bit_get_mask: "bit (BitSet_get_mask p) k \<longleftrightarrow> k = unat p mod 64"
proof -
  have "unat p mod 64 < 64" by simp
  then show ?thesis
    unfolding BitSet_get_mask_def bit_push_bit_iff by (auto simp: unat_mod bit_1_iff)
qed

lemma and_get_mask_eq_0: "w AND BitSet_get_mask p = 0 \<longleftrightarrow> \<not> bit w (unat p mod 64)"
proof
  assume "w AND BitSet_get_mask p = 0"
  then have "\<not> bit (w AND BitSet_get_mask p) (unat p mod 64)" by simp
  then show "\<not> bit w (unat p mod 64)" by (simp add: bit_and_iff bit_get_mask)
next
  assume "\<not> bit w (unat p mod 64)"
  then show "w AND BitSet_get_mask p = 0"
    by (intro bit_word_eqI) (auto simp: bit_and_iff bit_get_mask)
qed

lemma BitSet_get_bit: "BitSet_get words p \<longleftrightarrow> bitset_bit words (unat p)"
  by (simp add: BitSet_get_def bitset_bit_def get_word_index_unat and_get_mask_eq_0 Let_def)

lemma length_resize [simp]: "length (BitSet_resize words n) = n"
  by (simp add: BitSet_resize_def)

lemma bitset_bit_grow:
  "length words \<le> n \<Longrightarrow> bitset_bit (BitSet_resize words n) = bitset_bit words"
  by (rule ext) (auto simp: bitset_bit_def BitSet_resize_def nth_append)

lemma bitset_bit_update:
  assumes "i < length words"
  shows "bitset_bit (words[i := w]) n \<longleftrightarrow>
           (if n div 64 = i then bit w (n mod 64) else bitset_bit words n)"
  using assms by (auto simp: bitset_bit_def)

lemma div_mod_64_eq_iff: "(n :: nat) div 64 = m div 64 \<and> n mod 64 = m mod 64 \<longleftrightarrow> n = m"
  by (metis div_mult_mod_eq)

lemma bitset_bit_set: "bitset_bit (BitSet_set words p) n \<longleftrightarrow> n = unat p \<or> bitset_bit words n"
proof -
  define i where "i = unat p div 64"
  define words' where "words' = (if i \<ge> length words then BitSet_resize words (i + 1) else words)"
  have i: "i < length words'" and same: "bitset_bit words' = bitset_bit words"
    by (auto simp: words'_def bitset_bit_grow)
  have "BitSet_set words p = words'[i := words' ! i OR BitSet_get_mask p]"
    by (simp add: BitSet_set_def get_word_index_unat words'_def i_def Let_def)
  moreover have "n div 64 = i \<Longrightarrow> bit (words' ! i) (n mod 64) = bitset_bit words n"
    using i same by (metis bitset_bit_def)
  moreover have "n = unat p \<longleftrightarrow> n div 64 = i \<and> n mod 64 = unat p mod 64"
    using div_mod_64_eq_iff [of n "unat p"] by (simp add: i_def)
  ultimately show ?thesis
    using i same by (auto simp: bitset_bit_update bit_or_iff bit_get_mask)
qed

lemma bitset_bit_clear:
  "bitset_bit (BitSet_clear words p) n \<longleftrightarrow> n \<noteq> unat p \<and> bitset_bit words n"
proof (cases "unat p div 64 < length words")
  case True
  define i where "i = unat p div 64"
  have "BitSet_clear words p = words[i := words ! i AND NOT (BitSet_get_mask p)]"
    using True by (simp add: BitSet_clear_def get_word_index_unat i_def Let_def)
  moreover have "n div 64 = i \<Longrightarrow> bit (words ! i) (n mod 64) = bitset_bit words n"
    using True by (simp add: bitset_bit_def i_def)
  moreover have "n = unat p \<longleftrightarrow> n div 64 = i \<and> n mod 64 = unat p mod 64"
    using div_mod_64_eq_iff [of n "unat p"] by (simp add: i_def)
  moreover have "n mod 64 < 64" by simp
  ultimately show ?thesis
    using True by (auto simp: bitset_bit_update bit_and_iff bit_not_iff bit_get_mask i_def)
next
  case False
  then have "BitSet_clear words p = words"
    by (simp add: BitSet_clear_def get_word_index_unat)
  moreover have "\<not> bitset_bit words (unat p)" using False by (simp add: bitset_bit_def)
  ultimately show ?thesis by auto
qed

lemma union_loop:
  "set is \<subseteq> {..<length words} \<Longrightarrow> distinct is \<Longrightarrow>
   length (BitSet_union_loop words other is) = length words \<and>
   (\<forall>k < length words. BitSet_union_loop words other is ! k =
      (if k \<in> set is then words ! k OR other ! k else words ! k))"
  by (induction words other "is" rule: BitSet_union_loop.induct) (auto simp: nth_list_update)

lemma bitset_bit_union:
  "bitset_bit (BitSet_union_with words other) n \<longleftrightarrow> bitset_bit words n \<or> bitset_bit other n"
proof -
  define words' where
    "words' = (if length words < length other then BitSet_resize words (length other) else words)"
  define result where "result = BitSet_union_loop words' other [0..<length other]"
  have len: "length other \<le> length words'" by (simp add: words'_def)
  have same: "bitset_bit words' n = bitset_bit words n" by (simp add: words'_def bitset_bit_grow)
  have "BitSet_union_with words other = result"
    by (simp add: BitSet_union_with_def words'_def result_def)
  moreover have "length result = length words'"
    and "\<And>k. k < length words' \<Longrightarrow> result ! k =
      (if k < length other then words' ! k OR other ! k else words' ! k)"
    using union_loop [of "[0..<length other]" words' other] len
    by (auto simp: result_def subset_iff)
  ultimately have "bitset_bit (BitSet_union_with words other) n \<longleftrightarrow>
      bitset_bit words' n \<or> bitset_bit other n"
    using len by (auto simp: bitset_bit_def bit_or_iff split: if_splits)
  then show ?thesis using same by simp
qed

subsection \<open>Counting and iterating\<close>

definition BitSet_positions :: "bit_set \<Rightarrow> nat list" where
  "BitSet_positions words = filter (bitset_bit words) [0..<length words * 64]"

lemma bitset_bit_Cons:
  "bitset_bit (w # words) n \<longleftrightarrow> (if n < 64 then bit w n else bitset_bit words (n - 64))"
proof (cases "n < 64")
  case True
  then show ?thesis by (simp add: bitset_bit_def)
next
  case False
  then obtain m where "n = m + 64" by (metis add.commute le_Suc_ex linorder_not_less)
  moreover have "(m + 64) div 64 = m div 64 + 1" by simp
  ultimately show ?thesis by (simp only: bitset_bit_def) simp
qed

lemma positions_Cons:
  "BitSet_positions (w # words) = filter (bit w) [0..<64] @ map (\<lambda>n. n + 64) (BitSet_positions words)"
proof -
  have "[0..<length (w # words) * 64] = [0..<64] @ map (\<lambda>n. n + 64) [0..<length words * 64]"
    using upt_add_eq_append [of 0 64 "length words * 64"] map_add_upt [of 64 "length words * 64"]
    by (simp add: add.commute)
  moreover have "filter (bitset_bit (w # words)) [0..<64] = filter (bit w) [0..<64]"
    by (rule filter_cong) (auto simp: bitset_bit_Cons)
  ultimately show ?thesis
    by (simp add: BitSet_positions_def filter_map comp_def bitset_bit_Cons)
qed

lemma size_length_positions: "BitSet_size words = of_nat (length (BitSet_positions words))"
proof -
  have "foldl (\<lambda>size word. size + of_nat (popcount word)) k words =
        k + of_nat (length (BitSet_positions words))" for k :: u32
    by (induction words arbitrary: k)
      (simp add: BitSet_positions_def, simp add: positions_Cons popcount_def)
  then show ?thesis by (simp add: BitSet_size_def)
qed

lemma bitset_bit_less: "bitset_bit words n \<Longrightarrow> n < length words * 64"
  by (simp add: bitset_bit_def div_less_iff_less_mult)

lemma positions_set: "set (BitSet_positions words) = {n. bitset_bit words n}"
  by (auto simp: BitSet_positions_def dest: bitset_bit_less)

lemma unat_end_position:
  assumes "BitSet_bounded words"
  shows "unat (of_nat (length words * 64) :: u32) = length words * 64"
proof -
  have "length words * 64 < 2 ^ LENGTH(32)" using assms by (simp add: BitSet_bounded_def)
  then show ?thesis by (simp only: unat_of_nat take_bit_nat_eq_self mod_less)
qed

text \<open>\<open>advance\<close> stops at the first set bit, or behind the last word.\<close>

lemma advance_spec:
  assumes "BitSet_bounded words" and "unat p \<le> length words * 64"
  shows "\<exists>q. BitSet_Iterator_advance words p = Some q \<and>
             unat p \<le> unat q \<and> unat q \<le> length words * 64 \<and>
             (unat q < length words * 64 \<longrightarrow> bitset_bit words (unat q)) \<and>
             (\<forall>n. unat p \<le> n \<and> n < unat q \<longrightarrow> \<not> bitset_bit words n)"
  using assms(2)
proof (induction "length words * 64 - unat p" arbitrary: p rule: less_induct)
  case less
  show ?case
  proof (cases "unat p < length words * 64 \<and> \<not> bitset_bit words (unat p)")
    case True
    have "unat p div 64 < length words" using True by (simp add: div_less_iff_less_mult)
    then have step: "BitSet_Iterator_advance words p = BitSet_Iterator_advance words (p + 1)"
      using True
      by (subst BitSet_Iterator_advance.simps)
        (simp add: get_word_index_unat and_get_mask_eq_0 bitset_bit_def)
    have "unat (p + 1) = unat p + 1"
      using True assms(1) by (simp add: BitSet_bounded_def unat_word_ariths)
    then obtain q where q: "BitSet_Iterator_advance words (p + 1) = Some q"
      "unat p + 1 \<le> unat q" "unat q \<le> length words * 64"
      "unat q < length words * 64 \<longrightarrow> bitset_bit words (unat q)"
      "\<forall>n. unat p + 1 \<le> n \<and> n < unat q \<longrightarrow> \<not> bitset_bit words n"
      using less.hyps [of "p + 1"] True by (auto simp: diff_less_mono2)
    have "\<not> bitset_bit words n" if "unat p \<le> n \<and> n < unat q" for n
      using q(5) that True by (cases "n = unat p") auto
    then show ?thesis using q step by (intro exI [of _ q]) auto
  next
    case False
    then have "BitSet_Iterator_advance words p = Some p"
      by (subst BitSet_Iterator_advance.simps)
        (auto simp: get_word_index_unat and_get_mask_eq_0 bitset_bit_def div_less_iff_less_mult)
    then show ?thesis using less.prems False by auto
  qed
qed

lemma filter_upt_skip:
  "a \<le> b \<Longrightarrow> b \<le> c \<Longrightarrow> (\<And>n. a \<le> n \<Longrightarrow> n < b \<Longrightarrow> \<not> P n) \<Longrightarrow> filter P [a..<c] = filter P [b..<c]"
  using upt_add_eq_append [of a b "c - b"] by simp

lemma iterate_spec:
  assumes bounded: "BitSet_bounded words"
    and "unat p \<le> length words * 64" and "unat p < length words * 64 \<Longrightarrow> bitset_bit words (unat p)"
  shows "BitSet_iterate words p (of_nat (length words * 64)) =
         Some (map of_nat (filter (bitset_bit words) [unat p..<length words * 64]))"
  using assms(2,3)
proof (induction "length words * 64 - unat p" arbitrary: p rule: less_induct)
  case less
  let ?n = "length words * 64"
  have n: "unat (of_nat ?n :: u32) = ?n" by (rule unat_end_position [OF bounded])
  show ?case
  proof (cases "unat p = ?n")
    case True
    then have "p = of_nat ?n" using n by (metis word_unat_eq_iff)
    then show ?thesis using True by (subst BitSet_iterate.simps) simp
  next
    case False
    then have p: "unat p < ?n" and "p \<noteq> of_nat ?n" using less.prems n by auto
    have suc: "unat (p + 1) = unat p + 1"
      using p bounded by (simp add: BitSet_bounded_def unat_word_ariths)
    obtain q where q: "BitSet_Iterator_advance words (p + 1) = Some q" "unat p + 1 \<le> unat q"
      "unat q \<le> ?n" "unat q < ?n \<Longrightarrow> bitset_bit words (unat q)"
      "\<And>n. unat p + 1 \<le> n \<Longrightarrow> n < unat q \<Longrightarrow> \<not> bitset_bit words n"
      using advance_spec [OF bounded, of "p + 1"] p by (auto simp: suc)
    have "BitSet_iterate words q (of_nat ?n) =
          Some (map of_nat (filter (bitset_bit words) [unat q..<?n]))"
      using less.hyps [of q] q p by simp
    moreover have "filter (bitset_bit words) [unat p..<?n] =
                   unat p # filter (bitset_bit words) [unat q..<?n]"
      using p less.prems(2) filter_upt_skip [of "unat p + 1" "unat q" ?n "bitset_bit words"] q
      by (simp add: upt_conv_Cons)
    ultimately show ?thesis
      using q(1) \<open>p \<noteq> of_nat ?n\<close> by (subst BitSet_iterate.simps) simp
  qed
qed

lemma elements_positions:
  assumes "BitSet_bounded words"
  shows "BitSet_elements words = Some (map of_nat (BitSet_positions words))"
proof -
  let ?n = "length words * 64"
  have n: "unat (of_nat ?n :: u32) = ?n" by (rule unat_end_position [OF assms])
  obtain q where q: "BitSet_begin words = Some q" "unat q \<le> ?n"
    "unat q < ?n \<Longrightarrow> bitset_bit words (unat q)" "\<And>n. n < unat q \<Longrightarrow> \<not> bitset_bit words n"
    using advance_spec [OF assms, of 0] by (auto simp: BitSet_begin_def)
  have "BitSet_end words = Some (of_nat ?n)"
    using advance_spec [OF assms, of "of_nat ?n"] n
    by (auto simp: BitSet_end_def word_unat_eq_iff)
  moreover have "filter (bitset_bit words) [0..<?n] = filter (bitset_bit words) [unat q..<?n]"
    using q by (intro filter_upt_skip) auto
  ultimately show ?thesis
    using iterate_spec [OF assms, of q] q by (simp add: BitSet_elements_def BitSet_positions_def)
qed

text \<open>
  A vector of \<open>2 ^ 26\<close> words (one that holds the position \<open>0xFFFFFFFF\<close>) is not bounded: its
  \<open>end()\<close> position wraps to zero, \<open>end()\<close> equals \<open>begin()\<close>, and the loop visits nothing.
\<close>

lemma unbounded_iterates_nothing:
  assumes "length words * 64 = 2 ^ 32"
  shows "BitSet_elements words = Option.bind (BitSet_begin words) (\<lambda>_. Some [])"
proof -
  have "(of_nat (2 ^ 32) :: u32) = 0" by (simp add: word_unat_eq_iff unat_of_nat take_bit_eq_mod)
  then have "BitSet_end words = BitSet_begin words"
    by (simp only: BitSet_end_def BitSet_begin_def assms)
  moreover have "BitSet_iterate words p p = Some []" for p
    by (subst BitSet_iterate.simps) simp
  ultimately show ?thesis by (cases "BitSet_begin words") (simp_all add: BitSet_elements_def)
qed

lemma BitSet_elements_abs:
  assumes "BitSet_bounded words"
  shows "\<exists>xs. BitSet_elements words = Some xs \<and> sorted (map unat xs) \<and> distinct xs \<and>
              set xs = BitSet_abs words"
proof -
  have small: "n < 2 ^ 32" if "n \<in> set (BitSet_positions words)" for n
    using that assms by (auto simp: BitSet_positions_def BitSet_bounded_def)
  then have unat_positions: "map unat (map of_nat (BitSet_positions words) :: u32 list) = BitSet_positions words"
    by (auto intro!: map_idI simp: comp_def unat_of_nat take_bit_nat_eq_self)
  have positions: "sorted (BitSet_positions words) \<and> distinct (BitSet_positions words)"
    by (simp add: BitSet_positions_def sorted_wrt_filter)
  have "distinct (map of_nat (BitSet_positions words) :: u32 list)"
    using unat_positions positions by (metis distinct_map)
  moreover have "set (map of_nat (BitSet_positions words)) = BitSet_abs words"
  proof (intro set_eqI iffI)
    fix p :: u32
    assume "p \<in> set (map of_nat (BitSet_positions words))"
    then show "p \<in> BitSet_abs words"
      using small by (auto simp: BitSet_abs_def positions_set unat_of_nat take_bit_nat_eq_self)
  next
    fix p :: u32
    assume "p \<in> BitSet_abs words"
    then have "unat p \<in> set (BitSet_positions words)" by (simp add: BitSet_abs_def positions_set)
    then show "p \<in> set (map of_nat (BitSet_positions words))" by (force intro: rev_image_eqI)
  qed
  ultimately show ?thesis
    using elements_positions [OF assms] unat_positions positions by (intro exI conjI) auto
qed

interpretation bs: set_impl BitSet_abs BitSet_empty BitSet_get BitSet_set BitSet_clear
  BitSet_union_with BitSet_size BitSet_elements BitSet_bounded
proof unfold_locales
  fix s t :: bit_set and x :: u32
  show "BitSet_abs BitSet_empty = {}" by (simp add: BitSet_abs_def BitSet_empty_def bitset_bit_def)
  show "BitSet_get s x \<longleftrightarrow> x \<in> BitSet_abs s" by (simp add: BitSet_get_bit BitSet_abs_def)
  show "BitSet_abs (BitSet_set s x) = insert x (BitSet_abs s)"
    by (auto simp: BitSet_abs_def bitset_bit_set word_unat_eq_iff)
  show "BitSet_abs (BitSet_clear s x) = BitSet_abs s - {x}"
    by (auto simp: BitSet_abs_def bitset_bit_clear word_unat_eq_iff)
  show "BitSet_abs (BitSet_union_with s t) = BitSet_abs s \<union> BitSet_abs t"
    by (auto simp: BitSet_abs_def bitset_bit_union)
  assume bounded: "BitSet_bounded s"
  then obtain xs where "BitSet_elements s = Some xs" "distinct xs" "set xs = BitSet_abs s"
    using BitSet_elements_abs by blast
  moreover have "length xs = length (BitSet_positions s)"
    using calculation elements_positions [OF bounded] by auto
  ultimately show "BitSet_size s = of_nat (card (BitSet_abs s))"
    by (metis distinct_card size_length_positions)
  show "\<exists>xs. BitSet_elements s = Some xs \<and> distinct xs \<and> set xs = BitSet_abs s"
    using BitSet_elements_abs [OF bounded] by blast
qed

section \<open>Registers and register sets\<close>

text \<open>
  \<open>mcode::Register\<close> packs a register number and a kind bit into one \<open>unsigned\<close>; a default
  constructed register has all bits set. \<open>mcode::RegisterSet\<close> (\<open>src/banjo/mcode/register.hpp\<close>)
  is a bit set over the packed values.
\<close>

datatype register = Register (internal_value: u32)

definition Register_from_virtual :: "u32 \<Rightarrow> register" where
  "Register_from_virtual reg = Register (push_bit 1 reg OR 0)"

definition Register_from_physical :: "u32 \<Rightarrow> register" where
  "Register_from_physical reg = Register (push_bit 1 reg OR 1)"

definition Register_default :: register where
  "Register_default = Register 0xFFFFFFFF"

definition Register_is_virtual :: "register \<Rightarrow> bool" where
  "Register_is_virtual reg \<longleftrightarrow> internal_value reg AND 1 = 0"

definition Register_is_physical :: "register \<Rightarrow> bool" where
  "Register_is_physical reg \<longleftrightarrow> internal_value reg AND 1 = 1"

definition Register_get_virtual_reg :: "register \<Rightarrow> u32" where
  "Register_get_virtual_reg reg = drop_bit 1 (internal_value reg)"

definition Register_get_physical_reg :: "register \<Rightarrow> u32" where
  "Register_get_physical_reg reg = drop_bit 1 (internal_value reg)"

definition RegisterSet_contains :: "bit_set \<Rightarrow> register \<Rightarrow> bool" where
  "RegisterSet_contains words reg = BitSet_get words (internal_value reg)"

definition RegisterSet_insert :: "bit_set \<Rightarrow> register \<Rightarrow> bit_set" where
  "RegisterSet_insert words reg = BitSet_set words (internal_value reg)"

definition RegisterSet_remove :: "bit_set \<Rightarrow> register \<Rightarrow> bit_set" where
  "RegisterSet_remove words reg = BitSet_clear words (internal_value reg)"

definition RegisterSet_elements :: "bit_set \<Rightarrow> register list option" where
  "RegisterSet_elements words = map_option (map Register) (BitSet_elements words)"

definition RegisterSet_abs :: "bit_set \<Rightarrow> register set" where
  "RegisterSet_abs words = Register ` BitSet_abs words"

lemma Register_mem_iff: "r \<in> Register ` S \<longleftrightarrow> internal_value r \<in> S"
  by (cases r) auto

interpretation rs: set_impl RegisterSet_abs BitSet_empty RegisterSet_contains RegisterSet_insert
  RegisterSet_remove BitSet_union_with BitSet_size RegisterSet_elements BitSet_bounded
proof unfold_locales
  fix s t :: bit_set and x :: register
  have inj: "inj Register" by (rule injI) simp
  show "RegisterSet_abs BitSet_empty = {}" by (simp add: RegisterSet_abs_def bs.abs_empty)
  show "RegisterSet_contains s x \<longleftrightarrow> x \<in> RegisterSet_abs s"
    by (simp add: RegisterSet_contains_def RegisterSet_abs_def bs.contains_iff Register_mem_iff)
  show "RegisterSet_abs (RegisterSet_insert s x) = insert x (RegisterSet_abs s)"
    by (simp add: RegisterSet_abs_def RegisterSet_insert_def bs.abs_insert)
  show "RegisterSet_abs (RegisterSet_remove s x) = RegisterSet_abs s - {x}"
    by (simp add: RegisterSet_abs_def RegisterSet_remove_def bs.abs_remove image_set_diff [OF inj])
  show "RegisterSet_abs (BitSet_union_with s t) = RegisterSet_abs s \<union> RegisterSet_abs t"
    by (simp add: RegisterSet_abs_def bs.abs_union image_Un)
  assume bounded: "BitSet_bounded s"
  show "BitSet_size s = of_nat (card (RegisterSet_abs s))"
    using bs.size_card [OF bounded] by (simp add: RegisterSet_abs_def card_image inj_on_def)
  show "\<exists>xs. RegisterSet_elements s = Some xs \<and> distinct xs \<and> set xs = RegisterSet_abs s"
    using bs.elements_set [OF bounded]
    by (auto simp: RegisterSet_elements_def RegisterSet_abs_def distinct_map inj_on_def)
qed

lemma bit_from_virtual:
  "bit (internal_value (Register_from_virtual v)) k \<longleftrightarrow> 0 < k \<and> k < 32 \<and> bit v (k - 1)"
  unfolding Register_from_virtual_def register.sel bit_or_iff bit_push_bit_iff
  by (auto simp: Suc_le_eq)

lemma bit_from_physical:
  "bit (internal_value (Register_from_physical v)) k \<longleftrightarrow>
     k = 0 \<or> (0 < k \<and> k < 32 \<and> bit v (k - 1))"
  unfolding Register_from_physical_def register.sel bit_or_iff bit_push_bit_iff
  by (auto simp: Suc_le_eq bit_1_iff)

lemma and_1_eq_bit_0: "w AND 1 = (if bit w 0 then 1 else (0 :: 'a::len word))"
  by (rule bit_word_eqI) (auto simp: bit_and_iff bit_1_iff intro: gr0I)

lemma not_bit_31: "v < 2 ^ 31 \<Longrightarrow> \<not> bit (v :: u32) 31"
proof -
  assume "v < 2 ^ 31"
  then have "unat v < 2 ^ 31" by (simp add: word_less_nat_alt)
  then have "\<not> bit (unat v) 31" by (simp add: bit_iff_odd)
  then show ?thesis by (simp add: bit_unsigned_iff)
qed

lemma drop_bit_1_eqI:
  assumes "v < 2 ^ 31" and "\<And>k. k < 31 \<Longrightarrow> bit r (k + 1) \<longleftrightarrow> bit (v :: u32) k"
  shows "drop_bit 1 r = v"
proof (rule bit_word_eqI)
  fix k :: nat
  assume "k < LENGTH(32)"
  then have "k < 31 \<or> k = 31" by auto
  then show "bit (drop_bit 1 r) k = bit v k"
    using assms not_bit_31 [OF assms(1)] unfolding bit_drop_bit_eq
    by (auto simp: add.commute dest: bit_imp_le_length)
qed

section \<open>Properties\<close>

text \<open>
  C6: \<open>BitSet\<close> implements a set of positions: membership after \<open>set\<close>, \<open>clear\<close> and
  \<open>union_with\<close> is membership in the updated set, for every position and every state of the
  words, whether or not the vector has to grow.
\<close>

theorem BitSet_refines_set:
  "BitSet_abs (BitSet_set words p) = insert p (BitSet_abs words) \<and>
   BitSet_abs (BitSet_clear words p) = BitSet_abs words - {p} \<and>
   BitSet_abs (BitSet_union_with words other) = BitSet_abs words \<union> BitSet_abs other \<and>
   (BitSet_get words p \<longleftrightarrow> p \<in> BitSet_abs words)"
  by (simp add: bs.abs_insert bs.abs_remove bs.abs_union bs.contains_iff)

text \<open>
  On words that fit the 32-bit positions, a loop over a \<open>BitSet\<close> terminates and visits
  exactly the positions for which \<open>get\<close> holds, each once and in ascending order, and \<open>size\<close>
  is their number.
\<close>

theorem BitSet_iteration:
  assumes "length words * 64 < 2 ^ 32"
  shows "\<exists>xs. BitSet_elements words = Some xs \<and> sorted (map unat xs) \<and> distinct xs \<and>
              set xs = {p. BitSet_get words p} \<and> BitSet_size words = of_nat (length xs)"
proof -
  have bounded: "BitSet_bounded words" using assms by (simp add: BitSet_bounded_def)
  have "{p. BitSet_get words p} = BitSet_abs words" by (auto simp: bs.contains_iff)
  then show ?thesis
    using BitSet_elements_abs [OF bounded] bs.size_length_elements [OF bounded] by auto
qed

theorem BitSet_iteration_witness:
  "\<exists>xs. BitSet_elements [5, 0, 2] = Some xs \<and> set xs = {p. BitSet_get [5, 0, 2] p}"
  using BitSet_iteration [of "[5, 0, 2]"] by auto

text \<open>
  The packed registers keep virtual and physical registers apart: with numbers below
  \<open>2 ^ 31\<close> both kinds read back their number and their kind, and inserting or removing a
  physical register changes no virtual member of a \<open>RegisterSet\<close>.
\<close>

theorem Register_kinds_disjoint:
  assumes "v < 2 ^ 31" and "p < 2 ^ 31"
  shows "Register_is_virtual (Register_from_virtual v) \<and>
         \<not> Register_is_physical (Register_from_virtual v) \<and>
         Register_is_physical (Register_from_physical p) \<and>
         \<not> Register_is_virtual (Register_from_physical p) \<and>
         Register_get_virtual_reg (Register_from_virtual v) = v \<and>
         Register_get_physical_reg (Register_from_physical p) = p \<and>
         (RegisterSet_contains (RegisterSet_insert s (Register_from_physical p))
            (Register_from_virtual v) \<longleftrightarrow> RegisterSet_contains s (Register_from_virtual v)) \<and>
         (RegisterSet_contains (RegisterSet_remove s (Register_from_physical p))
            (Register_from_virtual v) \<longleftrightarrow> RegisterSet_contains s (Register_from_virtual v))"
proof -
  have "Register_get_virtual_reg (Register_from_virtual v) = v"
    unfolding Register_get_virtual_reg_def
    by (rule drop_bit_1_eqI [OF assms(1)]) (simp add: bit_from_virtual)
  moreover have "Register_get_physical_reg (Register_from_physical p) = p"
    unfolding Register_get_physical_reg_def
    by (rule drop_bit_1_eqI [OF assms(2)]) (simp add: bit_from_physical)
  moreover have "Register_from_virtual v \<noteq> Register_from_physical p"
    using bit_from_virtual [of v 0] bit_from_physical [of p 0] by auto
  ultimately show ?thesis
    by (simp add: Register_is_virtual_def Register_is_physical_def and_1_eq_bit_0
        bit_from_virtual bit_from_physical rs.contains_insert rs.contains_remove)
qed

theorem Register_kinds_disjoint_witness:
  "Register_get_virtual_reg (Register_from_virtual 7) = 7 \<and>
   Register_get_physical_reg (Register_from_physical 9) = 9"
  using Register_kinds_disjoint [of 7 9 "[]"] by simp

end
