(* ===== verification/Write_Buffer.thy ===== *)
theory Write_Buffer
  imports Prelude Utils
begin

section \<open>WriteBuffer: a growing byte buffer with a cursor\<close>

text \<open>
  The class \<open>WriteBuffer\<close> of \<open>src/banjo/utils/write_buffer.hpp\<close> and \<open>write_buffer.cpp\<close>, which
  every emitter writes through. The position and the sizes are natural numbers: the source
  keeps the position in 32 bits, so the model covers buffers below \<open>2 ^ 32\<close> bytes, which an
  object file section is. Floating-point values are their bit patterns, as \<open>memcpy\<close> stores
  them on the little-endian hosts the source assumes. The size and position a write leaves
  behind, and that it changes no byte outside its range, are what the section and object file
  builders rely on.
\<close>

unbundle bit_operations_syntax

record write_buffer =
  buf_data :: "u8 list"
  buf_position :: nat

definition WriteBuffer_new :: write_buffer where
  "WriteBuffer_new = \<lparr>buf_data = [], buf_position = 0\<rparr>"

definition WriteBuffer_get_size :: "write_buffer \<Rightarrow> nat" where
  "WriteBuffer_get_size b = length (buf_data b)"

definition WriteBuffer_tell :: "write_buffer \<Rightarrow> nat" where
  "WriteBuffer_tell b = buf_position b"

definition WriteBuffer_seek :: "write_buffer \<Rightarrow> nat \<Rightarrow> write_buffer" where
  "WriteBuffer_seek b position = b\<lparr>buf_position := position\<rparr>"

definition WriteBuffer_ensure_size :: "write_buffer \<Rightarrow> nat \<Rightarrow> write_buffer" where
  "WriteBuffer_ensure_size b n =
     (if length (buf_data b) < n
      then b\<lparr>buf_data := buf_data b @ replicate (n - length (buf_data b)) 0\<rparr>
      else b)"

text \<open>
  \<open>WriteBuffer_store\<close> is the body that the fixed-width writers share: grow to
  \<open>position + n\<close>, assign \<open>data[position + i]\<close> for each of the \<open>n\<close> bytes, advance.
\<close>

definition WriteBuffer_store :: "write_buffer \<Rightarrow> u8 list \<Rightarrow> write_buffer" where
  "WriteBuffer_store b bytes =
     (let p = buf_position b;
          b' = WriteBuffer_ensure_size b (p + length bytes)
      in b'\<lparr>buf_data := take p (buf_data b') @ bytes @ drop (p + length bytes) (buf_data b'),
            buf_position := p + length bytes\<rparr>)"

definition WriteBuffer_write_u8 :: "write_buffer \<Rightarrow> u8 \<Rightarrow> write_buffer" where
  "WriteBuffer_write_u8 b w = WriteBuffer_store b [w]"

definition WriteBuffer_write_i8 :: "write_buffer \<Rightarrow> u8 \<Rightarrow> write_buffer" where
  "WriteBuffer_write_i8 b w = WriteBuffer_store b [w]"

definition WriteBuffer_write_u16 :: "write_buffer \<Rightarrow> u16 \<Rightarrow> write_buffer" where
  "WriteBuffer_write_u16 b w = WriteBuffer_store b [ucast w, ucast (drop_bit 8 w)]"

text \<open>\<open>write_i16\<close> takes 32 bits and reads the low half of them.\<close>

definition WriteBuffer_write_i16 :: "write_buffer \<Rightarrow> u32 \<Rightarrow> write_buffer" where
  "WriteBuffer_write_i16 b w =
     (let h = (ucast w :: u16) in WriteBuffer_store b [ucast h, ucast (drop_bit 8 h)])"

definition WriteBuffer_write_u32 :: "write_buffer \<Rightarrow> u32 \<Rightarrow> write_buffer" where
  "WriteBuffer_write_u32 b w =
     WriteBuffer_store b
       [ucast w, ucast (drop_bit 8 w), ucast (drop_bit 16 w), ucast (drop_bit 24 w)]"

definition WriteBuffer_write_i32 :: "write_buffer \<Rightarrow> u32 \<Rightarrow> write_buffer" where
  "WriteBuffer_write_i32 b w = WriteBuffer_write_u32 b w"

definition WriteBuffer_write_u64 :: "write_buffer \<Rightarrow> u64 \<Rightarrow> write_buffer" where
  "WriteBuffer_write_u64 b w =
     WriteBuffer_store b
       [ucast w, ucast (drop_bit 8 w), ucast (drop_bit 16 w), ucast (drop_bit 24 w),
        ucast (drop_bit 32 w), ucast (drop_bit 40 w), ucast (drop_bit 48 w),
        ucast (drop_bit 56 w)]"

definition WriteBuffer_write_i64 :: "write_buffer \<Rightarrow> u64 \<Rightarrow> write_buffer" where
  "WriteBuffer_write_i64 b w = WriteBuffer_write_u64 b w"

definition WriteBuffer_write_f32 :: "write_buffer \<Rightarrow> u32 \<Rightarrow> write_buffer" where
  "WriteBuffer_write_f32 b bits = WriteBuffer_store b (le_bytes 4 bits)"

definition WriteBuffer_write_f64 :: "write_buffer \<Rightarrow> u64 \<Rightarrow> write_buffer" where
  "WriteBuffer_write_f64 b bits = WriteBuffer_store b (le_bytes 8 bits)"

definition WriteBuffer_write_data :: "write_buffer \<Rightarrow> u8 list \<Rightarrow> write_buffer" where
  "WriteBuffer_write_data b bytes = WriteBuffer_store b bytes"

text \<open>The overload for another buffer copies it when the own data is still empty.\<close>

definition WriteBuffer_write_buffer :: "write_buffer \<Rightarrow> write_buffer \<Rightarrow> write_buffer" where
  "WriteBuffer_write_buffer b buffer =
     (if buf_data buffer = [] then b
      else if buf_data b = []
      then b\<lparr>buf_data := buf_data buffer, buf_position := buf_position b + length (buf_data buffer)\<rparr>
      else WriteBuffer_write_data b (buf_data buffer))"

text \<open>
  \<open>write_zeroes\<close> grows by \<open>size\<close> from the end of the data, not from the position; with a
  position behind the end of the data, \<open>memset\<close> would leave the vector.
\<close>

definition WriteBuffer_write_zeroes :: "write_buffer \<Rightarrow> nat \<Rightarrow> write_buffer option" where
  "WriteBuffer_write_zeroes b n =
     (let p = buf_position b;
          b' = WriteBuffer_ensure_size b (length (buf_data b) + n)
      in if p + n \<le> length (buf_data b')
         then Some (b'\<lparr>buf_data := take p (buf_data b') @ replicate n 0 @ drop (p + n) (buf_data b'),
                       buf_position := p + n\<rparr>)
         else None)"

definition bytes_of_string :: "string \<Rightarrow> u8 list" where
  "bytes_of_string s = map of_char s"

definition WriteBuffer_write_cstr :: "write_buffer \<Rightarrow> u8 list \<Rightarrow> write_buffer" where
  "WriteBuffer_write_cstr b cstr = foldl WriteBuffer_write_u8 b (takeWhile (\<lambda>c. c \<noteq> 0) cstr)"

definition WriteBuffer_write_uleb128 :: "write_buffer \<Rightarrow> u64 \<Rightarrow> write_buffer option" where
  "WriteBuffer_write_uleb128 b v = map_option (WriteBuffer_write_data b) (encode_uleb128 v)"

definition WriteBuffer_write_sleb128 :: "write_buffer \<Rightarrow> large_int \<Rightarrow> write_buffer option" where
  "WriteBuffer_write_sleb128 b v = map_option (WriteBuffer_write_data b) (encode_sleb128 v)"

definition WriteBuffer_read_data :: "write_buffer \<Rightarrow> nat \<Rightarrow> (u8 list \<times> write_buffer) option" where
  "WriteBuffer_read_data b n =
     (if buf_position b + n \<le> length (buf_data b)
      then Some (take n (drop (buf_position b) (buf_data b)),
                 b\<lparr>buf_position := buf_position b + n\<rparr>)
      else None)"

definition u32_of_bytes :: "u8 list \<Rightarrow> u32" where
  "u32_of_bytes bytes =
     ucast (bytes ! 0) OR push_bit 8 (ucast (bytes ! 1)) OR push_bit 16 (ucast (bytes ! 2)) OR
     push_bit 24 (ucast (bytes ! 3))"

definition WriteBuffer_read_u32 :: "write_buffer \<Rightarrow> (u32 \<times> write_buffer) option" where
  "WriteBuffer_read_u32 b =
     do {
       (bytes, b') \<leftarrow> WriteBuffer_read_data b 4;
       Some (u32_of_bytes bytes, b')
     }"

section \<open>What a write does\<close>

text \<open>Every fixed-width writer stores the little-endian bytes of its argument.\<close>

named_theorems write_simps \<open>the writers in terms of \<open>WriteBuffer_store\<close>\<close>

lemma drop_bit_drop_bit_8: "drop_bit 8 (drop_bit n w) = drop_bit (n + 8) (w :: 'a::len word)"
  by (simp only: drop_bit_drop_bit add.commute)

lemma drop_bit_8_steps:
  "drop_bit 8 (drop_bit 8 (w :: 'a::len word)) = drop_bit 16 w"
  "drop_bit 8 (drop_bit 16 w) = drop_bit 24 w"
  "drop_bit 8 (drop_bit 24 w) = drop_bit 32 w"
  "drop_bit 8 (drop_bit 32 w) = drop_bit 40 w"
  "drop_bit 8 (drop_bit 40 w) = drop_bit 48 w"
  "drop_bit 8 (drop_bit 48 w) = drop_bit 56 w"
  unfolding drop_bit_drop_bit by simp_all

lemma numeral_Sucs:
  "2 = Suc (Suc 0)" "4 = Suc (Suc (Suc (Suc 0)))"
  "8 = Suc (Suc (Suc (Suc (Suc (Suc (Suc (Suc 0)))))))"
  by simp_all

lemma le_bytes_u16: "le_bytes 2 (w :: 'a::len word) = [ucast w, ucast (drop_bit 8 w)]"
  by (subst numeral_Sucs(1)) (simp only: le_bytes.simps)

lemma le_bytes_u32:
  "le_bytes 4 (w :: 'a::len word) =
     [ucast w, ucast (drop_bit 8 w), ucast (drop_bit 16 w), ucast (drop_bit 24 w)]"
  by (subst numeral_Sucs(2)) (simp only: le_bytes.simps drop_bit_8_steps)

lemma le_bytes_u64:
  "le_bytes 8 (w :: 'a::len word) =
     [ucast w, ucast (drop_bit 8 w), ucast (drop_bit 16 w), ucast (drop_bit 24 w),
      ucast (drop_bit 32 w), ucast (drop_bit 40 w), ucast (drop_bit 48 w), ucast (drop_bit 56 w)]"
  by (subst numeral_Sucs(3)) (simp only: le_bytes.simps drop_bit_8_steps)

lemma write_u8_store [write_simps]: "WriteBuffer_write_u8 b w = WriteBuffer_store b [w]"
  by (simp add: WriteBuffer_write_u8_def)

lemma write_u16_store [write_simps]:
  "WriteBuffer_write_u16 b w = WriteBuffer_store b (le_bytes 2 w)"
  by (simp only: WriteBuffer_write_u16_def le_bytes_u16)

lemma write_u32_store [write_simps]:
  "WriteBuffer_write_u32 b w = WriteBuffer_store b (le_bytes 4 w)"
  by (simp only: WriteBuffer_write_u32_def le_bytes_u32)

lemma write_u64_store [write_simps]:
  "WriteBuffer_write_u64 b w = WriteBuffer_store b (le_bytes 8 w)"
  by (simp only: WriteBuffer_write_u64_def le_bytes_u64)

lemmas [write_simps] = WriteBuffer_write_f32_def WriteBuffer_write_f64_def
  WriteBuffer_write_data_def WriteBuffer_write_i8_def WriteBuffer_write_i32_def
  WriteBuffer_write_i64_def

text \<open>A buffer is at its end when the next write appends.\<close>

definition at_end :: "write_buffer \<Rightarrow> bool" where
  "at_end b \<longleftrightarrow> buf_position b = length (buf_data b)"

lemma at_end_new [simp]: "at_end WriteBuffer_new"
  by (simp add: at_end_def WriteBuffer_new_def)

lemma data_new [simp]: "buf_data WriteBuffer_new = []"
  by (simp add: WriteBuffer_new_def)

lemma store_at_end [simp]:
  "at_end b \<Longrightarrow> buf_data (WriteBuffer_store b bytes) = buf_data b @ bytes"
  by (simp add: at_end_def WriteBuffer_store_def WriteBuffer_ensure_size_def Let_def)

lemma at_end_store [simp]: "at_end b \<Longrightarrow> at_end (WriteBuffer_store b bytes)"
  by (simp add: at_end_def WriteBuffer_store_def WriteBuffer_ensure_size_def Let_def)

lemma position_store [simp]:
  "buf_position (WriteBuffer_store b bytes) = buf_position b + length bytes"
  by (simp add: WriteBuffer_store_def Let_def)

lemma length_store:
  "length (buf_data (WriteBuffer_store b bytes)) =
     max (length (buf_data b)) (buf_position b + length bytes)"
  by (auto simp: WriteBuffer_store_def WriteBuffer_ensure_size_def Let_def max_def)

lemma write_buffer_at_end [simp]:
  "at_end b \<Longrightarrow> buf_data (WriteBuffer_write_buffer b c) = buf_data b @ buf_data c"
  by (simp add: WriteBuffer_write_buffer_def WriteBuffer_write_data_def)

lemma at_end_write_buffer [simp]: "at_end b \<Longrightarrow> at_end (WriteBuffer_write_buffer b c)"
  by (simp add: WriteBuffer_write_buffer_def WriteBuffer_write_data_def) (simp add: at_end_def)

lemma write_zeroes_at_end:
  "at_end b \<Longrightarrow> WriteBuffer_write_zeroes b n = Some (WriteBuffer_store b (replicate n 0))"
  by (simp add: at_end_def WriteBuffer_write_zeroes_def WriteBuffer_store_def
      WriteBuffer_ensure_size_def Let_def)

lemma write_cstr_at_end:
  assumes "at_end b"
  shows "buf_data (WriteBuffer_write_cstr b s) = buf_data b @ takeWhile (\<lambda>c. c \<noteq> 0) s \<and>
         at_end (WriteBuffer_write_cstr b s)"
proof -
  have "buf_data (foldl WriteBuffer_write_u8 b cs) = buf_data b @ cs \<and>
        at_end (foldl WriteBuffer_write_u8 b cs)" if "at_end b" for b cs
    using that by (induction cs arbitrary: b) (auto simp: write_simps)
  then show ?thesis using assms by (simp add: WriteBuffer_write_cstr_def)
qed

text \<open>Overwriting in place: a seek into the data, a store and a read.\<close>

lemma store_in_place:
  assumes "p + length bytes \<le> length (buf_data b)"
  shows "buf_data (WriteBuffer_store (WriteBuffer_seek b p) bytes) =
         take p (buf_data b) @ bytes @ drop (p + length bytes) (buf_data b)"
  using assms
  by (simp add: WriteBuffer_store_def WriteBuffer_seek_def WriteBuffer_ensure_size_def Let_def)

lemma le_value_u32_of_bytes:
  assumes "length bytes = 4"
  shows "unat (u32_of_bytes bytes) = le_value bytes"
proof -
  obtain b0 b1 b2 b3 where bytes: "bytes = [b0, b1, b2, b3]"
    using assms by (auto simp: numeral_eq_Suc length_Suc_conv)
  have bounds: "unat b0 < 256" "unat b1 < 256" "unat b2 < 256" "unat b3 < 256"
    using unsigned_less [where 'a=nat, of b0] unsigned_less [where 'a=nat, of b1]
      unsigned_less [where 'a=nat, of b2] unsigned_less [where 'a=nat, of b3] by auto
  have up: "unat (ucast b :: u32) = unat b" for b :: u8
    by (rule unat_ucast_up)
  have "unat (ucast b0 OR push_bit 8 (ucast b1) :: u32) = unat b0 + unat b1 * 2 ^ 8"
    using bounds up by (subst unat_or_push_bit) auto
  moreover have "unat ((ucast b0 OR push_bit 8 (ucast b1)) OR push_bit 16 (ucast b2) :: u32) =
      unat b0 + unat b1 * 2 ^ 8 + unat b2 * 2 ^ 16"
    using bounds up calculation by (subst unat_or_push_bit) auto
  ultimately have "unat (((ucast b0 OR push_bit 8 (ucast b1)) OR push_bit 16 (ucast b2)) OR
      push_bit 24 (ucast b3) :: u32) =
      unat b0 + unat b1 * 2 ^ 8 + unat b2 * 2 ^ 16 + unat b3 * 2 ^ 24"
    using bounds up by (subst unat_or_push_bit) auto
  then show ?thesis unfolding u32_of_bytes_def bytes by (simp add: or.assoc)
qed

lemma u32_of_le_bytes [simp]: "u32_of_bytes (le_bytes 4 w) = w"
  using le_value_u32_of_bytes [of "le_bytes 4 w"] by (simp add: word_unat_eq_iff)

section \<open>Properties\<close>

text \<open>
  Patching in place: after a seek to any place inside the data, \<open>write_u32\<close> stores a value
  that \<open>read_u32\<close> reads back from there, leaves the cursor behind it, and changes neither the
  size nor any other byte.
\<close>

theorem WriteBuffer_patch:
  assumes "p + 4 \<le> WriteBuffer_get_size b"
  shows "\<exists>b'. b' = WriteBuffer_write_u32 (WriteBuffer_seek b p) w \<and>
           WriteBuffer_read_u32 (WriteBuffer_seek b' p) = Some (w, b') \<and>
           WriteBuffer_tell b' = p + 4 \<and> WriteBuffer_get_size b' = WriteBuffer_get_size b \<and>
           (\<forall>i. i < p \<or> p + 4 \<le> i \<longrightarrow> buf_data b' ! i = buf_data b ! i)"
proof (intro exI conjI allI impI)
  let ?b' = "WriteBuffer_write_u32 (WriteBuffer_seek b p) w"
  have p: "p + length (le_bytes 4 w) \<le> length (buf_data b)"
    using assms by (simp add: WriteBuffer_get_size_def)
  have data: "buf_data ?b' = take p (buf_data b) @ le_bytes 4 w @ drop (p + 4) (buf_data b)"
    using store_in_place [OF p] by (simp add: write_simps)
  have pos: "buf_position ?b' = p + 4"
    by (simp add: write_simps WriteBuffer_seek_def)
  have bytes: "take 4 (drop p (buf_data ?b')) = le_bytes 4 w"
    using p by (simp add: data)
  have len: "length (buf_data ?b') = length (buf_data b)" using p by (simp add: data)
  have "WriteBuffer_read_data (WriteBuffer_seek ?b' p) 4 = Some (le_bytes 4 w, ?b')"
    using p len pos bytes by (simp add: WriteBuffer_read_data_def WriteBuffer_seek_def)
  then show "WriteBuffer_read_u32 (WriteBuffer_seek ?b' p) = Some (w, ?b')"
    by (simp add: WriteBuffer_read_u32_def)
  show "WriteBuffer_tell ?b' = p + 4" by (simp add: WriteBuffer_tell_def pos)
  show "WriteBuffer_get_size ?b' = WriteBuffer_get_size b" by (simp add: WriteBuffer_get_size_def len)
  fix i
  assume "i < p \<or> p + 4 \<le> i"
  then show "buf_data ?b' ! i = buf_data b ! i"
    using p by (auto simp: data nth_append)
qed simp

theorem WriteBuffer_patch_witness:
  "WriteBuffer_read_u32 (WriteBuffer_seek (WriteBuffer_write_u32 (WriteBuffer_seek
       \<lparr>buf_data = [1, 2, 3, 4, 5, 6], buf_position = 6\<rparr> 1) 0xAABBCCDD) 1) \<noteq> None"
  using WriteBuffer_patch [of 1 "\<lparr>buf_data = [1, 2, 3, 4, 5, 6], buf_position = 6\<rparr>" "0xAABBCCDD"]
  by (auto simp: WriteBuffer_get_size_def)

end
