(* ===== verification/MCode.thy ===== *)
theory MCode
  imports Prelude Large_Int Bit_Set
begin

section \<open>MCode: the machine code representation\<close>

text \<open>
  The data that instruction selection produces and the encoders read (\<open>src/banjo/mcode\<close>):
  symbols, stack slots and frames, operands, instructions, basic blocks, functions, globals and
  modules, with the address types of the two native targets. The \<open>std::variant\<close>s are
  datatypes, \<open>std::get\<close> on the wrong alternative throws (\<open>None\<close>), an \<open>int\<close> is the word of its
  two's complement, a \<open>double\<close> is its bit pattern. An operand that points to a basic block
  holds the label of the block, the only thing the encoders read of it; an \<open>unordered_set\<close> is
  a list of its elements in iteration order, so that what holds for every list holds for
  every iteration order.
\<close>

unbundle bit_operations_syntax

subsection \<open>Symbols and stack frames\<close>

datatype relocation =
    Reloc_NONE | Reloc_GOT | Reloc_PLT
  | Reloc_ADR_PREL_PG_HI21 | Reloc_ADD_ABS_LO12_NC | Reloc_ADR_GOT_PAGE | Reloc_LD64_GOT_LO12_NC
  | Reloc_PAGE21 | Reloc_PAGEOFF12 | Reloc_GOT_LOAD_PAGE21 | Reloc_GOT_LOAD_PAGEOFF12
  | Reloc_MEMORY_ADDR_SLEB | Reloc_TABLE_INDEX_SLEB

record m_symbol =
  sym_name :: string
  sym_reloc :: relocation

type_synonym stack_slot_id = nat

record stack_address =
  sa_slot :: stack_slot_id
  sa_offset :: u32

datatype stack_slot_type = Slot_GENERIC | Slot_ARG_STORE | Slot_CALL_ARG

record stack_slot =
  slot_type :: stack_slot_type
  slot_size :: u32
  slot_alignment :: u32
  slot_offset :: u32
  slot_call_arg_index :: u32

definition StackSlot_INVALID_OFFSET :: u32 where
  "StackSlot_INVALID_OFFSET = 0xFFFFFFFF"

definition StackSlot_make :: "stack_slot_type \<Rightarrow> u32 \<Rightarrow> u32 \<Rightarrow> stack_slot" where
  "StackSlot_make t s a =
     \<lparr>slot_type = t, slot_size = s, slot_alignment = a,
      slot_offset = StackSlot_INVALID_OFFSET, slot_call_arg_index = 0\<rparr>"

definition StackSlot_is_defined :: "stack_slot \<Rightarrow> bool" where
  "StackSlot_is_defined slot \<longleftrightarrow> slot_offset slot \<noteq> StackSlot_INVALID_OFFSET"

record stack_frame =
  frame_stack_slots :: "stack_slot list"
  frame_call_arg_slot_indices :: "nat list"
  frame_reg_save_slot_indices :: "nat list"
  frame_size :: u32
  frame_total_size :: u32

definition StackFrame_get_stack_slot :: "stack_frame \<Rightarrow> stack_slot_id \<Rightarrow> stack_slot option" where
  "StackFrame_get_stack_slot frame i =
     do {
       ASSERT (i < length (frame_stack_slots frame));
       Some (frame_stack_slots frame ! i)
     }"

definition StackFrame_new_stack_slot ::
  "stack_frame \<Rightarrow> stack_slot \<Rightarrow> stack_slot_id \<times> stack_frame" where
  "StackFrame_new_stack_slot frame slot =
     (let index = length (frame_stack_slots frame);
          frame' = frame\<lparr>frame_stack_slots := frame_stack_slots frame @ [slot]\<rparr>
      in (index,
          if slot_type slot = Slot_CALL_ARG
          then frame'\<lparr>frame_call_arg_slot_indices := frame_call_arg_slot_indices frame' @ [index]\<rparr>
          else frame'))"

definition StackFrame_create_call_arg_slot ::
  "stack_frame \<Rightarrow> nat \<Rightarrow> u32 \<Rightarrow> u32 \<Rightarrow> stack_slot_id \<times> stack_frame" where
  "StackFrame_create_call_arg_slot frame index s a =
     (if length (frame_call_arg_slot_indices frame) \<le> index
      then StackFrame_new_stack_slot frame
             ((StackSlot_make Slot_CALL_ARG s a)\<lparr>slot_call_arg_index := of_nat index\<rparr>)
      else (frame_call_arg_slot_indices frame ! index, frame))"

definition StackFrame_offset_of :: "stack_frame \<Rightarrow> stack_address \<Rightarrow> u32 option" where
  "StackFrame_offset_of frame addr =
     do {
       slot \<leftarrow> StackFrame_get_stack_slot frame (sa_slot addr);
       Some (slot_offset slot + sa_offset addr)
     }"

subsection \<open>Addresses and conditions of the targets\<close>

record reg_offset =
  ro_reg :: register
  ro_shift :: u32

datatype aarch64_address =
    AA_BASE register
  | AA_BASE_OFFSET_IMM register u32
  | AA_BASE_OFFSET_IMM_WRITE register u32
  | AA_BASE_OFFSET_STACK_ADDR register stack_address
  | AA_BASE_OFFSET_REG register reg_offset
  | AA_BASE_OFFSET_SYMBOL register m_symbol

datatype aarch64_condition =
  Cond_EQ | Cond_NE | Cond_HS | Cond_LO | Cond_HI | Cond_LS | Cond_GE | Cond_LT | Cond_GT | Cond_LE

record x86_64_reg_offset =
  xro_reg :: register
  xro_scale :: u32

datatype x86_64_base = XBase_reg register | XBase_symbol m_symbol

datatype x86_64_const_offset = XOffset_imm u32 | XOffset_stack_addr stack_address

record x86_64_address =
  xa_base :: x86_64_base
  xa_offset_const :: x86_64_const_offset
  xa_offset_reg :: "x86_64_reg_offset option"

text \<open>The opcodes of the AArch64 target, numbered in the order of their enumeration.\<close>

datatype aarch64_opcode =
  A64_MOV | A64_MOVZ | A64_MOVK | A64_LDR | A64_LDRB | A64_LDRH | A64_STR | A64_STRB |
  A64_STRH | A64_LDP | A64_STP | A64_ADD | A64_SUB | A64_MUL | A64_MADD | A64_MSUB | A64_SDIV |
  A64_UDIV | A64_AND | A64_ORR | A64_EOR | A64_LSL | A64_LSR | A64_ASR | A64_CSEL | A64_FMOV |
  A64_FADD | A64_FSUB | A64_FMUL | A64_FDIV | A64_FCVT | A64_SCVTF | A64_UCVTF | A64_FCVTZS |
  A64_FCVTZU | A64_FCSEL | A64_CMP | A64_FCMP | A64_B | A64_BR | A64_B_EQ | A64_B_NE |
  A64_B_HS | A64_B_LO | A64_B_HI | A64_B_LS | A64_B_GE | A64_B_LT | A64_B_GT | A64_B_LE |
  A64_BL | A64_BLR | A64_RET | A64_ADRP | A64_UXTB | A64_UXTH | A64_SXTB | A64_SXTH | A64_SXTW

definition AArch64Opcodes :: "aarch64_opcode list" where
  "AArch64Opcodes =
  [A64_MOV, A64_MOVZ, A64_MOVK, A64_LDR, A64_LDRB, A64_LDRH, A64_STR, A64_STRB, A64_STRH,
   A64_LDP, A64_STP, A64_ADD, A64_SUB, A64_MUL, A64_MADD, A64_MSUB, A64_SDIV, A64_UDIV,
   A64_AND, A64_ORR, A64_EOR, A64_LSL, A64_LSR, A64_ASR, A64_CSEL, A64_FMOV, A64_FADD,
   A64_FSUB, A64_FMUL, A64_FDIV, A64_FCVT, A64_SCVTF, A64_UCVTF, A64_FCVTZS, A64_FCVTZU,
   A64_FCSEL, A64_CMP, A64_FCMP, A64_B, A64_BR, A64_B_EQ, A64_B_NE, A64_B_HS, A64_B_LO,
   A64_B_HI, A64_B_LS, A64_B_GE, A64_B_LT, A64_B_GT, A64_B_LE, A64_BL, A64_BLR, A64_RET,
   A64_ADRP, A64_UXTB, A64_UXTH, A64_SXTB, A64_SXTH, A64_SXTW]"

definition AArch64Opcode_of_int :: "int \<Rightarrow> aarch64_opcode option" where
  "AArch64Opcode_of_int opcode =
     (if 0 \<le> opcode \<and> opcode < int (length AArch64Opcodes)
      then Some (AArch64Opcodes ! nat opcode) else None)"

definition AArch64Opcode_to_int :: "aarch64_opcode \<Rightarrow> int" where
  "AArch64Opcode_to_int opcode = int (length (takeWhile (\<lambda>o'. o' \<noteq> opcode) AArch64Opcodes))"

subsection \<open>Operands and instructions\<close>

datatype operand_value =
    Op_int_immediate large_int
  | Op_fp_immediate u64
  | Op_register register
  | Op_stack_slot stack_slot_id
  | Op_symbol m_symbol
  | Op_basic_block string
  | Op_symbol_deref m_symbol
  | Op_x86_64_addr x86_64_address
  | Op_aarch64_addr aarch64_address
  | Op_stack_offset stack_address
  | Op_aarch64_left_shift u32
  | Op_aarch64_condition aarch64_condition

record operand =
  op_value :: operand_value
  op_size :: u32

definition Operand_get_int_immediate :: "operand \<Rightarrow> large_int option" where
  "Operand_get_int_immediate op = (case op_value op of Op_int_immediate i \<Rightarrow> Some i | _ \<Rightarrow> None)"

definition Operand_get_fp_immediate :: "operand \<Rightarrow> u64 option" where
  "Operand_get_fp_immediate op = (case op_value op of Op_fp_immediate d \<Rightarrow> Some d | _ \<Rightarrow> None)"

definition Operand_get_register :: "operand \<Rightarrow> register option" where
  "Operand_get_register op = (case op_value op of Op_register r \<Rightarrow> Some r | _ \<Rightarrow> None)"

definition MOperand_is_register :: "operand \<Rightarrow> bool" where
  "MOperand_is_register op \<longleftrightarrow> Operand_get_register op \<noteq> None"

definition MOperand_is_virtual_reg :: "operand \<Rightarrow> bool" where
  "MOperand_is_virtual_reg op \<longleftrightarrow> (case Operand_get_register op of Some r \<Rightarrow> Register_is_virtual r | None \<Rightarrow> False)"

definition MOperand_is_physical_reg :: "operand \<Rightarrow> bool" where
  "MOperand_is_physical_reg op \<longleftrightarrow> (case Operand_get_register op of Some r \<Rightarrow> Register_is_physical r | None \<Rightarrow> False)"

definition Operand_get_symbol :: "operand \<Rightarrow> m_symbol option" where
  "Operand_get_symbol op = (case op_value op of Op_symbol s \<Rightarrow> Some s | _ \<Rightarrow> None)"

definition Operand_get_basic_block :: "operand \<Rightarrow> string option" where
  "Operand_get_basic_block op = (case op_value op of Op_basic_block l \<Rightarrow> Some l | _ \<Rightarrow> None)"

definition Operand_get_aarch64_left_shift :: "operand \<Rightarrow> u32 option" where
  "Operand_get_aarch64_left_shift op =
     (case op_value op of Op_aarch64_left_shift s \<Rightarrow> Some s | _ \<Rightarrow> None)"

definition Operand_get_aarch64_condition :: "operand \<Rightarrow> aarch64_condition option" where
  "Operand_get_aarch64_condition op =
     (case op_value op of Op_aarch64_condition c \<Rightarrow> Some c | _ \<Rightarrow> None)"

text \<open>\<open>get_physical_reg\<close> drops the kind bit of the register without looking at it.\<close>

definition Operand_get_physical_reg :: "operand \<Rightarrow> u32 option" where
  "Operand_get_physical_reg op = map_option Register_get_physical_reg (Operand_get_register op)"

record m_instr =
  instr_opcode :: int
  instr_operands :: "operand list"
  instr_flags :: u32

definition Instruction_is_flag :: "m_instr \<Rightarrow> u32 \<Rightarrow> bool" where
  "Instruction_is_flag instr flag \<longleftrightarrow> instr_flags instr AND flag \<noteq> 0"

definition Instruction_get_operand :: "m_instr \<Rightarrow> nat \<Rightarrow> operand option" where
  "Instruction_get_operand instr index =
     do {
       ASSERT (index < length (instr_operands instr));
       Some (instr_operands instr ! index)
     }"

definition Instruction_try_get_operand :: "m_instr \<Rightarrow> nat \<Rightarrow> operand option" where
  "Instruction_try_get_operand instr index =
     (if length (instr_operands instr) > index then Some (instr_operands instr ! index) else None)"

subsection \<open>Blocks, functions, globals and modules\<close>

record m_basic_block =
  block_label :: string
  block_instrs :: "m_instr list"

record m_function =
  func_name :: string
  func_basic_blocks :: "m_basic_block list"
  func_stack_frame :: stack_frame
  func_unwind_alloc_size :: u32

datatype global_value =
    Global_None
  | Global_Integer large_int
  | Global_FloatingPoint u64
  | Global_Bytes "u8 list"
  | Global_String string
  | Global_SymbolRef string

record m_global =
  global_name :: string
  global_size :: u32
  global_alignment :: u32
  global_init :: global_value

record m_module =
  mod_functions :: "m_function list"
  mod_globals :: "m_global list"
  mod_external_symbols :: "string list"
  mod_global_symbols :: "string list"
  mod_dll_exports :: "string list"
  mod_addr_table :: "string list option"

subsection \<open>Target descriptions\<close>

datatype architecture = Arch_INVALID | Arch_X86_64 | Arch_AARCH64 | Arch_WASM

datatype operating_system =
  OS_INVALID | OS_WINDOWS | OS_LINUX | OS_MACOS | OS_ANDROID | OS_IOS | OS_EMSCRIPTEN | OS_UNKNOWN

datatype environment = Env_NONE | Env_MSVC | Env_GNU

record target_description =
  target_architecture :: architecture
  target_operating_system :: operating_system
  target_environment :: environment

definition Target_is_windows :: "target_description \<Rightarrow> bool" where
  "Target_is_windows t \<longleftrightarrow> target_operating_system t = OS_WINDOWS"

definition Target_is_unix :: "target_description \<Rightarrow> bool" where
  "Target_is_unix t \<longleftrightarrow>
     target_operating_system t = OS_LINUX \<or> target_operating_system t = OS_EMSCRIPTEN"

definition Target_is_darwin :: "target_description \<Rightarrow> bool" where
  "Target_is_darwin t \<longleftrightarrow>
     target_operating_system t = OS_MACOS \<or> target_operating_system t = OS_IOS"

definition Target_is_wasm :: "target_description \<Rightarrow> bool" where
  "Target_is_wasm t \<longleftrightarrow> target_architecture t = Arch_WASM"

definition Architecture_name :: "architecture \<Rightarrow> string" where
  "Architecture_name a = (case a of Arch_INVALID \<Rightarrow> ''invalid'' | Arch_X86_64 \<Rightarrow> ''x86_64''
     | Arch_AARCH64 \<Rightarrow> ''aarch64'' | Arch_WASM \<Rightarrow> ''wasm'')"

definition OperatingSystem_name :: "operating_system \<Rightarrow> string" where
  "OperatingSystem_name os = (case os of OS_INVALID \<Rightarrow> ''invalid'' | OS_WINDOWS \<Rightarrow> ''windows''
     | OS_LINUX \<Rightarrow> ''linux'' | OS_MACOS \<Rightarrow> ''macos'' | OS_ANDROID \<Rightarrow> ''android'' | OS_IOS \<Rightarrow> ''ios''
     | OS_EMSCRIPTEN \<Rightarrow> ''emscripten'' | OS_UNKNOWN \<Rightarrow> ''unknown'')"

definition Environment_name :: "environment \<Rightarrow> string" where
  "Environment_name e = (case e of Env_NONE \<Rightarrow> '''' | Env_MSVC \<Rightarrow> ''msvc'' | Env_GNU \<Rightarrow> ''gnu'')"

definition Target_to_string :: "target_description \<Rightarrow> string" where
  "Target_to_string t =
     (let arch_os = Architecture_name (target_architecture t) @ ''-'' @
                    OperatingSystem_name (target_operating_system t)
      in if target_environment t = Env_NONE then arch_os
         else arch_os @ ''-'' @ Environment_name (target_environment t))"

end
