(* ===== verification/Binary_Builder.thy ===== *)
theory Binary_Builder
  imports Prelude Write_Buffer MCode
begin

section \<open>SectionBuilder and BinaryBuilder: from machine code to a relocatable module\<close>

text \<open>
  \<open>src/banjo/emit/section_builder.*\<close>, \<open>binary_builder.*\<close>, \<open>binary_builder_symbol.hpp\<close> and
  \<open>binary_module.hpp\<close>. A section is a list of slices (a branch that may be relaxed has a slice
  of its own); symbols are defined at a slice and an offset inside of it, and their uses are
  recorded beside the bytes. \<open>encode\<close> declares all symbols, encodes the functions, which
  places the text symbols, and bakes the slices into a \<open>BinModule\<close>. The virtual functions of
  the target encoders are the parameters \<open>encode_instr\<close>, \<open>apply_relaxation\<close> and
  \<open>resolve_internal_symbols\<close>; the contract they have to keep is the locale \<open>target_encoder\<close>.
  Indices into the vectors of symbols and slices are natural numbers, offsets are 32-bit words.
\<close>

unbundle bit_operations_syntax

subsection \<open>Symbols, relocations and modules\<close>

datatype bin_symbol_kind = TEXT_FUNC | TEXT_LABEL | DATA_LABEL | ADDR_TABLE | UNKNOWN

datatype bin_symbol_use_kind =
    ABS64 | REL32 | GOTPCREL32 | PLT32 | LABEL_BRANCH
  | ADR_PREL_PG_HI21 | ADD_ABS_LO12_NC | CALL26 | ADR_GOT_PAGE | LD64_GOT_LO12_NC
  | BRANCH26 | PAGE21 | PAGEOFF12 | GOT_LOAD_PAGE21 | GOT_LOAD_PAGEOFF12

datatype bin_section_kind = Section_TEXT | Section_DATA | Section_BNJATBL

record bin_symbol_def =
  bsd_name :: string
  bsd_kind :: bin_symbol_kind
  bsd_offset :: u32
  bsd_global :: bool

record bin_symbol_use =
  bsu_address :: u32
  bsu_addend :: u32
  bsu_symbol_index :: u32
  bsu_kind :: bin_symbol_use_kind
  bsu_section :: bin_section_kind

record bin_pushed_reg_info =
  bpr_reg :: u32
  bpr_instr_end :: u32

record bin_unwind_info =
  bui_start_addr :: u32
  bui_end_addr :: u32
  bui_alloca_size :: u32
  bui_alloca_instr_start :: u32
  bui_alloca_instr_end :: u32
  bui_pushed_regs :: "bin_pushed_reg_info list"

record bin_module =
  bm_text :: write_buffer
  bm_data :: write_buffer
  bm_symbol_defs :: "bin_symbol_def list"
  bm_symbol_uses :: "bin_symbol_use list"
  bm_unwind_info :: "bin_unwind_info list"
  bm_bnjatbl_data :: "write_buffer option"

record symbol_def =
  def_name :: string
  def_kind :: bin_symbol_kind
  def_global :: bool
  def_slice_index :: nat
  def_local_offset :: u32
  def_bin_index :: u32
  def_bin_offset :: u32

record symbol_use =
  use_index :: nat
  use_local_offset :: u32
  use_kind :: bin_symbol_use_kind
  use_addend :: u32
  use_is_resolved :: bool

text \<open>An aggregate initialiser leaves the members it does not name zero.\<close>

definition SymbolDef_make ::
  "string \<Rightarrow> bin_symbol_kind \<Rightarrow> bool \<Rightarrow> nat \<Rightarrow> u32 \<Rightarrow> symbol_def" where
  "SymbolDef_make name kind global slice_index local_offset =
     \<lparr>def_name = name, def_kind = kind, def_global = global, def_slice_index = slice_index,
      def_local_offset = local_offset, def_bin_index = 0, def_bin_offset = 0\<rparr>"

subsection \<open>State\<close>

record section_slice =
  slice_uses :: "symbol_use list"
  slice_relaxable_branch :: bool
  slice_buffer :: write_buffer
  slice_offset :: u32

record section_builder =
  sect_kind :: bin_section_kind
  sect_slices :: "section_slice list"

record pushed_reg_info =
  pri_reg :: u32
  pri_start_label :: nat
  pri_end_label :: nat

record unwind_info =
  ui_start_symbol_index :: nat
  ui_end_symbol_index :: nat
  ui_alloca_size :: u32
  ui_alloca_start_label :: nat
  ui_alloca_end_label :: nat
  ui_pushed_regs :: "pushed_reg_info list"

record binary_builder =
  bb_text :: section_builder
  bb_data :: section_builder
  bb_addr_table :: "section_builder option"
  bb_defs :: "symbol_def list"
  bb_unwind_info :: "unwind_info list"
  bb_symbol_indices :: "string \<rightharpoonup> nat"

definition SectionSlice_new :: section_slice where
  "SectionSlice_new =
     \<lparr>slice_uses = [], slice_relaxable_branch = False, slice_buffer = WriteBuffer_new,
      slice_offset = 0\<rparr>"

definition SectionBuilder_new :: "bin_section_kind \<Rightarrow> section_builder" where
  "SectionBuilder_new kind = \<lparr>sect_kind = kind, sect_slices = [SectionSlice_new]\<rparr>"

definition BinaryBuilder_new :: binary_builder where
  "BinaryBuilder_new =
     \<lparr>bb_text = SectionBuilder_new Section_TEXT, bb_data = SectionBuilder_new Section_DATA,
      bb_addr_table = None, bb_defs = [], bb_unwind_info = [], bb_symbol_indices = Map.empty\<rparr>"

subsection \<open>SectionBuilder\<close>

definition SectionBuilder_cur_slice :: "section_builder \<Rightarrow> section_slice" where
  "SectionBuilder_cur_slice s = last (sect_slices s)"

definition SectionBuilder_update_slice ::
  "(section_slice \<Rightarrow> section_slice) \<Rightarrow> section_builder \<Rightarrow> section_builder" where
  "SectionBuilder_update_slice f s =
     s\<lparr>sect_slices := butlast (sect_slices s) @ [f (last (sect_slices s))]\<rparr>"

text \<open>The write functions of a section forward to the buffer of its last slice.\<close>

definition SectionBuilder_write ::
  "(write_buffer \<Rightarrow> write_buffer) \<Rightarrow> section_builder \<Rightarrow> section_builder" where
  "SectionBuilder_write w s =
     SectionBuilder_update_slice (\<lambda>sl. sl\<lparr>slice_buffer := w (slice_buffer sl)\<rparr>) s"

definition SectionBuilder_write_zeroes :: "nat \<Rightarrow> section_builder \<Rightarrow> section_builder option" where
  "SectionBuilder_write_zeroes n s =
     map_option (\<lambda>b. SectionBuilder_write (\<lambda>_. b) s)
       (WriteBuffer_write_zeroes (slice_buffer (SectionBuilder_cur_slice s)) n)"

definition SectionBuilder_cur_size :: "section_builder \<Rightarrow> nat" where
  "SectionBuilder_cur_size s = WriteBuffer_get_size (slice_buffer (SectionBuilder_cur_slice s))"

definition SectionBuilder_add_symbol_use ::
  "nat \<Rightarrow> bin_symbol_use_kind \<Rightarrow> u32 \<Rightarrow> section_builder \<Rightarrow> section_builder" where
  "SectionBuilder_add_symbol_use index kind addend s =
     SectionBuilder_update_slice
       (\<lambda>sl. sl\<lparr>slice_uses := slice_uses sl @
          [\<lparr>use_index = index, use_local_offset = of_nat (WriteBuffer_get_size (slice_buffer sl)),
            use_kind = kind, use_addend = addend, use_is_resolved = False\<rparr>]\<rparr>) s"

definition SectionBuilder_create_relaxable_slice :: "section_builder \<Rightarrow> section_builder" where
  "SectionBuilder_create_relaxable_slice s =
     s\<lparr>sect_slices := sect_slices s @ [SectionSlice_new\<lparr>slice_relaxable_branch := True\<rparr>]\<rparr>"

definition SectionBuilder_end_relaxable_slice :: "section_builder \<Rightarrow> section_builder" where
  "SectionBuilder_end_relaxable_slice s = s\<lparr>sect_slices := sect_slices s @ [SectionSlice_new]\<rparr>"

definition SectionBuilder_push_out_slices :: "nat \<Rightarrow> u8 \<Rightarrow> section_builder \<Rightarrow> section_builder" where
  "SectionBuilder_push_out_slices starting_index offset s =
     s\<lparr>sect_slices := take starting_index (sect_slices s) @
        map (\<lambda>sl. sl\<lparr>slice_offset := slice_offset sl + ucast offset\<rparr>)
          (drop starting_index (sect_slices s))\<rparr>"

fun compute_slice_offsets_loop :: "u32 \<Rightarrow> section_slice list \<Rightarrow> section_slice list" where
  "compute_slice_offsets_loop offset [] = []"
| "compute_slice_offsets_loop offset (sl # sls) =
     sl\<lparr>slice_offset := offset\<rparr> #
     compute_slice_offsets_loop (offset + of_nat (WriteBuffer_get_size (slice_buffer sl))) sls"

definition SectionBuilder_compute_slice_offsets :: "section_builder \<Rightarrow> section_builder" where
  "SectionBuilder_compute_slice_offsets s =
     s\<lparr>sect_slices := compute_slice_offsets_loop 0 (sect_slices s)\<rparr>"

definition SectionBuilder_bake_use ::
  "symbol_def list \<Rightarrow> bin_section_kind \<Rightarrow> section_slice \<Rightarrow> symbol_use \<Rightarrow>
   bin_symbol_use list \<Rightarrow> bin_symbol_use list option" where
  "SectionBuilder_bake_use defs kind sl use out_uses =
     (if use_is_resolved use then Some out_uses
      else do {
        ASSERT (use_index use < length defs);
        Some (out_uses @
          [\<lparr>bsu_address = slice_offset sl + use_local_offset use, bsu_addend = use_addend use,
            bsu_symbol_index = def_bin_index (defs ! use_index use), bsu_kind = use_kind use,
            bsu_section = kind\<rparr>])
      })"

definition SectionBuilder_bake_slice ::
  "symbol_def list \<Rightarrow> bin_section_kind \<Rightarrow> section_slice \<Rightarrow>
   write_buffer \<times> bin_symbol_use list \<Rightarrow> (write_buffer \<times> bin_symbol_use list) option" where
  "SectionBuilder_bake_slice defs kind sl = (\<lambda>(buffer, out_uses).
     do {
       out_uses' \<leftarrow> for_each (slice_uses sl) (SectionBuilder_bake_use defs kind sl) out_uses;
       Some (WriteBuffer_write_buffer buffer (slice_buffer sl), out_uses')
     })"

definition SectionBuilder_bake ::
  "symbol_def list \<Rightarrow> section_builder \<Rightarrow> bin_symbol_use list \<Rightarrow>
   (write_buffer \<times> bin_symbol_use list) option" where
  "SectionBuilder_bake defs s out_uses =
     for_each (sect_slices s) (SectionBuilder_bake_slice defs (sect_kind s)) (WriteBuffer_new, out_uses)"

subsection \<open>Symbol definitions\<close>

text \<open>\<open>unordered_map::insert\<close> keeps an entry that is already there.\<close>

definition BinaryBuilder_add_symbol_def :: "symbol_def \<Rightarrow> binary_builder \<Rightarrow> binary_builder" where
  "BinaryBuilder_add_symbol_def def b =
     b\<lparr>bb_symbol_indices :=
         (if bb_symbol_indices b (def_name def) = None
          then (bb_symbol_indices b)(def_name def \<mapsto> length (bb_defs b)) else bb_symbol_indices b),
       bb_defs := bb_defs b @ [def]\<rparr>"

text \<open>\<open>SectionBuilder::add_symbol_def\<close> defines the symbol at the end of the given section.\<close>

definition SectionBuilder_add_symbol_def ::
  "section_builder \<Rightarrow> string \<Rightarrow> bin_symbol_kind \<Rightarrow> bool \<Rightarrow> binary_builder \<Rightarrow> binary_builder" where
  "SectionBuilder_add_symbol_def s name kind global b =
     BinaryBuilder_add_symbol_def
       (SymbolDef_make name kind global (length (sect_slices s) - 1)
          (of_nat (SectionBuilder_cur_size s))) b"

definition SectionBuilder_attach_symbol_def ::
  "section_builder \<Rightarrow> nat \<Rightarrow> binary_builder \<Rightarrow> binary_builder option" where
  "SectionBuilder_attach_symbol_def s index b =
     do {
       ASSERT (index < length (bb_defs b));
       Some (b\<lparr>bb_defs := (bb_defs b)[index := (bb_defs b ! index)
          \<lparr>def_slice_index := length (sect_slices s) - 1,
           def_local_offset := of_nat (SectionBuilder_cur_size s)\<rparr>]\<rparr>)
     }"

definition BinaryBuilder_text_symbol_use ::
  "string \<Rightarrow> bin_symbol_use_kind \<Rightarrow> binary_builder \<Rightarrow> binary_builder option" where
  "BinaryBuilder_text_symbol_use name kind b =
     do {
       index \<leftarrow> bb_symbol_indices b name;
       Some (b\<lparr>bb_text := SectionBuilder_add_symbol_use index kind 0 (bb_text b)\<rparr>)
     }"

definition BinaryBuilder_add_func_symbol :: "string \<Rightarrow> binary_builder \<Rightarrow> binary_builder" where
  "BinaryBuilder_add_func_symbol name b =
     SectionBuilder_add_symbol_def (bb_text b) name TEXT_FUNC True b"

definition BinaryBuilder_add_label_symbol :: "string \<Rightarrow> binary_builder \<Rightarrow> binary_builder" where
  "BinaryBuilder_add_label_symbol name b =
     SectionBuilder_add_symbol_def (bb_text b) name TEXT_LABEL False b"

definition BinaryBuilder_add_empty_label :: "binary_builder \<Rightarrow> nat \<times> binary_builder" where
  "BinaryBuilder_add_empty_label b =
     (let b' = BinaryBuilder_add_label_symbol '''' b in (length (bb_defs b') - 1, b'))"

definition BinaryBuilder_generate_external_symbols ::
  "m_module \<Rightarrow> binary_builder \<Rightarrow> binary_builder" where
  "BinaryBuilder_generate_external_symbols m b =
     foldl (\<lambda>b external. BinaryBuilder_add_symbol_def (SymbolDef_make external UNKNOWN True 0 0) b)
       b (mod_external_symbols m)"

definition BinaryBuilder_declare_block :: "m_basic_block \<Rightarrow> binary_builder \<Rightarrow> binary_builder" where
  "BinaryBuilder_declare_block block b =
     (if block_label block \<noteq> '''' then BinaryBuilder_add_label_symbol (block_label block) b else b)"

definition BinaryBuilder_declare_function :: "m_function \<Rightarrow> binary_builder \<Rightarrow> binary_builder" where
  "BinaryBuilder_declare_function func b =
     snd (BinaryBuilder_add_empty_label
       (foldl (\<lambda>b block. BinaryBuilder_declare_block block b)
          (BinaryBuilder_add_func_symbol (func_name func) b) (func_basic_blocks func)))"

subsection \<open>The data section and the address table\<close>

text \<open>
  The alignment loop writes zero bytes until the size of the data is a multiple of the
  alignment; that it ends is a lemma below.
\<close>

partial_function (option) align_data_loop :: "nat \<Rightarrow> section_builder \<Rightarrow> section_builder option" where
  "align_data_loop alignment s =
     (if SectionBuilder_cur_size s mod alignment \<noteq> 0
      then align_data_loop alignment (SectionBuilder_write (\<lambda>w. WriteBuffer_write_u8 w 0) s)
      else Some s)"

definition BinaryBuilder_write_integer :: "u32 \<Rightarrow> large_int \<Rightarrow> section_builder \<Rightarrow> section_builder option" where
  "BinaryBuilder_write_integer n v s =
     (let bits = LargeInt_to_bits v in
      if n = 1 then Some (SectionBuilder_write (\<lambda>w. WriteBuffer_write_u8 w (ucast bits)) s)
      else if n = 2 then Some (SectionBuilder_write (\<lambda>w. WriteBuffer_write_u16 w (ucast bits)) s)
      else if n = 4 then Some (SectionBuilder_write (\<lambda>w. WriteBuffer_write_u32 w (ucast bits)) s)
      else if n = 8 then Some (SectionBuilder_write (\<lambda>w. WriteBuffer_write_u64 w bits) s)
      else None)"

definition BinaryBuilder_write_floating_point ::
  "u32 \<Rightarrow> u64 \<Rightarrow> section_builder \<Rightarrow> section_builder option" where
  "BinaryBuilder_write_floating_point n d s =
     (if n = 4 then Some (SectionBuilder_write (\<lambda>w. WriteBuffer_write_f32 w (float_of_double d)) s)
      else if n = 8 then Some (SectionBuilder_write (\<lambda>w. WriteBuffer_write_f64 w d) s)
      else None)"

definition BinaryBuilder_write_global ::
  "(string \<rightharpoonup> nat) \<Rightarrow> m_global \<Rightarrow> section_builder \<Rightarrow> section_builder option" where
  "BinaryBuilder_write_global symbol_indices g s =
     (case global_init g of
        Global_Integer v \<Rightarrow> BinaryBuilder_write_integer (global_size g) v s
      | Global_FloatingPoint d \<Rightarrow> BinaryBuilder_write_floating_point (global_size g) d s
      | Global_Bytes bytes \<Rightarrow> Some (SectionBuilder_write (\<lambda>w. WriteBuffer_write_data w bytes) s)
      | Global_String str \<Rightarrow>
          Some (SectionBuilder_write (\<lambda>w. WriteBuffer_write_data w (bytes_of_string str)) s)
      | Global_SymbolRef name \<Rightarrow>
          do {
            index \<leftarrow> symbol_indices name;
            Some (SectionBuilder_write (\<lambda>w. WriteBuffer_write_u64 w 0)
              (SectionBuilder_add_symbol_use index ABS64 0 s))
          }
      | Global_None \<Rightarrow> SectionBuilder_write_zeroes (unat (global_size g)) s)"

definition BinaryBuilder_generate_data_slice ::
  "m_module \<Rightarrow> m_global \<Rightarrow> binary_builder \<Rightarrow> binary_builder option" where
  "BinaryBuilder_generate_data_slice m g b =
     do {
       ASSERT (global_alignment g \<noteq> 0);
       aligned \<leftarrow> align_data_loop (unat (global_alignment g)) (bb_data b);
       let b1 = SectionBuilder_add_symbol_def aligned (global_name g) DATA_LABEL
                  (global_name g \<in> set (mod_global_symbols m)) (b\<lparr>bb_data := aligned\<rparr>);
       data \<leftarrow> BinaryBuilder_write_global (bb_symbol_indices b1) g (bb_data b1);
       Some (b1\<lparr>bb_data := data\<rparr>)
     }"

definition BinaryBuilder_generate_data_slices ::
  "m_module \<Rightarrow> binary_builder \<Rightarrow> binary_builder option" where
  "BinaryBuilder_generate_data_slices m b =
     for_each (mod_globals m) (BinaryBuilder_generate_data_slice m) b"

definition addr_table_write_name :: "string \<Rightarrow> section_builder \<Rightarrow> section_builder" where
  "addr_table_write_name symbol s =
     SectionBuilder_write (\<lambda>w. WriteBuffer_write_cstr w (bytes_of_string symbol))
       (SectionBuilder_write (\<lambda>w. WriteBuffer_write_u32 w (of_nat (length symbol))) s)"

definition addr_table_write_address ::
  "(string \<rightharpoonup> nat) \<Rightarrow> string \<Rightarrow> section_builder \<Rightarrow> section_builder option" where
  "addr_table_write_address symbol_indices symbol s =
     do {
       index \<leftarrow> symbol_indices symbol;
       SectionBuilder_write_zeroes 8 (SectionBuilder_add_symbol_use index ABS64 0 s)
     }"

definition BinaryBuilder_generate_addr_table_slices ::
  "m_module \<Rightarrow> binary_builder \<Rightarrow> binary_builder option" where
  "BinaryBuilder_generate_addr_table_slices m b =
     (case mod_addr_table m of
        None \<Rightarrow> Some b
      | Some entries \<Rightarrow>
          do {
            let table = SectionBuilder_new Section_BNJATBL;
            let b1 = SectionBuilder_add_symbol_def table ''addr_table'' ADDR_TABLE True b;
            let t1 = SectionBuilder_write (\<lambda>w. WriteBuffer_write_u32 w (of_nat (length entries))) table;
            let t2 = foldl (\<lambda>t symbol. addr_table_write_name symbol t) t1 entries;
            t3 \<leftarrow> for_each entries (addr_table_write_address (bb_symbol_indices b1)) t2;
            Some (b1\<lparr>bb_addr_table := Some t3\<rparr>)
          })"

subsection \<open>Placing symbols and baking the module\<close>

definition BinaryBuilder_compute_slice_offsets :: "binary_builder \<Rightarrow> binary_builder" where
  "BinaryBuilder_compute_slice_offsets b =
     b\<lparr>bb_text := SectionBuilder_compute_slice_offsets (bb_text b),
       bb_data := SectionBuilder_compute_slice_offsets (bb_data b),
       bb_addr_table := map_option SectionBuilder_compute_slice_offsets (bb_addr_table b)\<rparr>"

definition BinaryBuilder_compute_displacement ::
  "binary_builder \<Rightarrow> section_slice \<Rightarrow> symbol_use \<Rightarrow> u32 option" where
  "BinaryBuilder_compute_displacement b sl use =
     do {
       ASSERT (use_index use < length (bb_defs b));
       let def = bb_defs b ! use_index use;
       let use_offset = slice_offset sl + use_local_offset use;
       ASSERT (def_slice_index def < length (sect_slices (bb_text b)));
       let def_offset = slice_offset (sect_slices (bb_text b) ! def_slice_index def) + def_local_offset def;
       Some (def_offset - use_offset)
     }"

definition BinaryBuilder_bake_symbol_location ::
  "binary_builder \<Rightarrow> symbol_def \<Rightarrow> u32 \<Rightarrow> (symbol_def \<times> u32) option" where
  "BinaryBuilder_bake_symbol_location b def bin_index =
     do {
       def' \<leftarrow>
         (if def_kind def = UNKNOWN then Some (def\<lparr>def_bin_offset := 0\<rparr>)
          else
            let slices = sect_slices (if def_kind def = DATA_LABEL then bb_data b else bb_text b)
            in do {
              ASSERT (def_slice_index def < length slices);
              Some (def\<lparr>def_bin_offset :=
                slice_offset (slices ! def_slice_index def) + def_local_offset def\<rparr>)
            });
       Some (if def_kind def \<noteq> TEXT_LABEL then (def'\<lparr>def_bin_index := bin_index\<rparr>, bin_index + 1)
             else (def', bin_index))
     }"

definition BinaryBuilder_bake_symbol_locations :: "binary_builder \<Rightarrow> binary_builder option" where
  "BinaryBuilder_bake_symbol_locations b =
     do {
       (defs, _) \<leftarrow> map_each (BinaryBuilder_bake_symbol_location b) (bb_defs b) 0;
       Some (b\<lparr>bb_defs := defs\<rparr>)
     }"

text \<open>\<open>darwin\<close> stands for \<open>Config::instance().target.is_darwin()\<close>.\<close>

definition BinaryBuilder_bake_symbol_defs :: "bool \<Rightarrow> symbol_def list \<Rightarrow> bin_symbol_def list" where
  "BinaryBuilder_bake_symbol_defs darwin defs =
     map (\<lambda>def. \<lparr>bsd_name = (if darwin then ''_'' @ def_name def else def_name def),
                 bsd_kind = def_kind def, bsd_offset = def_bin_offset def, bsd_global = def_global def\<rparr>)
       (filter (\<lambda>def. def_kind def \<noteq> TEXT_LABEL) defs)"

definition BinaryBuilder_def_offset :: "symbol_def list \<Rightarrow> nat \<Rightarrow> u32 option" where
  "BinaryBuilder_def_offset defs index =
     do {
       ASSERT (index < length defs);
       Some (def_bin_offset (defs ! index))
     }"

text \<open>The pushed registers are inserted at the front, which reverses their order.\<close>

definition BinaryBuilder_bake_frame ::
  "symbol_def list \<Rightarrow> unwind_info \<Rightarrow> bin_unwind_info list \<Rightarrow> bin_unwind_info list option" where
  "BinaryBuilder_bake_frame defs frame_info out =
     do {
       pushed_regs \<leftarrow> for_each (ui_pushed_regs frame_info) (\<lambda>pushed_reg regs.
         do {
           instr_end \<leftarrow> BinaryBuilder_def_offset defs (pri_end_label pushed_reg);
           Some (\<lparr>bpr_reg = pri_reg pushed_reg, bpr_instr_end = instr_end\<rparr> # regs)
         }) [];
       start_addr \<leftarrow> BinaryBuilder_def_offset defs (ui_start_symbol_index frame_info);
       end_addr \<leftarrow> BinaryBuilder_def_offset defs (ui_end_symbol_index frame_info);
       alloca_start \<leftarrow> BinaryBuilder_def_offset defs (ui_alloca_start_label frame_info);
       alloca_end \<leftarrow> BinaryBuilder_def_offset defs (ui_alloca_end_label frame_info);
       Some (out @
         [\<lparr>bui_start_addr = start_addr, bui_end_addr = end_addr,
           bui_alloca_size = ui_alloca_size frame_info, bui_alloca_instr_start = alloca_start,
           bui_alloca_instr_end = alloca_end, bui_pushed_regs = pushed_regs\<rparr>])
     }"

definition BinaryBuilder_bake_unwind_info :: "binary_builder \<Rightarrow> bin_unwind_info list option" where
  "BinaryBuilder_bake_unwind_info b =
     for_each (bb_unwind_info b) (BinaryBuilder_bake_frame (bb_defs b)) []"

definition BinaryBuilder_create_module :: "bool \<Rightarrow> binary_builder \<Rightarrow> bin_module option" where
  "BinaryBuilder_create_module darwin b0 =
     do {
       b \<leftarrow> BinaryBuilder_bake_symbol_locations b0;
       (text, uses1) \<leftarrow> SectionBuilder_bake (bb_defs b) (bb_text b) [];
       (data, uses2) \<leftarrow> SectionBuilder_bake (bb_defs b) (bb_data b) uses1;
       (table, uses3) \<leftarrow>
         (case bb_addr_table b of
            None \<Rightarrow> Some (None, uses2)
          | Some t \<Rightarrow> do {
              (table, uses3) \<leftarrow> SectionBuilder_bake (bb_defs b) t uses2;
              Some (Some table, uses3)
            });
       unwind \<leftarrow> BinaryBuilder_bake_unwind_info b;
       Some \<lparr>bm_text = text, bm_data = data,
         bm_symbol_defs = BinaryBuilder_bake_symbol_defs darwin (bb_defs b),
         bm_symbol_uses = uses3, bm_unwind_info = unwind, bm_bnjatbl_data = table\<rparr>
     }"

subsection \<open>Encoding a module\<close>

text \<open>
  The loops of \<open>encode\<close> over functions, blocks and instructions, with \<open>encode_instr\<close> the virtual
  function of the target; the state is the symbol counter, the unwind information of the
  current function, and the builder.
\<close>

type_synonym instr_encoder =
  "m_instr \<Rightarrow> m_function \<Rightarrow> unwind_info \<times> binary_builder \<Rightarrow> (unwind_info \<times> binary_builder) option"

definition BinaryBuilder_encode_block ::
  "instr_encoder \<Rightarrow> m_function \<Rightarrow> m_basic_block \<Rightarrow> nat \<times> unwind_info \<times> binary_builder \<Rightarrow>
   (nat \<times> unwind_info \<times> binary_builder) option" where
  "BinaryBuilder_encode_block encode_instr func block = (\<lambda>(symbol_index, frame_info, b).
     do {
       (symbol_index', b') \<leftarrow>
         (if block_label block \<noteq> '''' then do {
            b' \<leftarrow> SectionBuilder_attach_symbol_def (bb_text b) symbol_index b;
            Some (symbol_index + 1, b')
          } else Some (symbol_index, b));
       (frame_info', b'') \<leftarrow> for_each (block_instrs block) (\<lambda>i. encode_instr i func) (frame_info, b');
       Some (symbol_index', frame_info', b'')
     })"

definition BinaryBuilder_encode_function ::
  "instr_encoder \<Rightarrow> m_function \<Rightarrow> nat \<times> binary_builder \<Rightarrow> (nat \<times> binary_builder) option" where
  "BinaryBuilder_encode_function encode_instr func = (\<lambda>(symbol_index, b).
     do {
       let frame_info = \<lparr>ui_start_symbol_index = symbol_index, ui_end_symbol_index = 0,
             ui_alloca_size = func_unwind_alloc_size func, ui_alloca_start_label = 0,
             ui_alloca_end_label = 0, ui_pushed_regs = []\<rparr>;
       b1 \<leftarrow> SectionBuilder_attach_symbol_def (bb_text b) symbol_index b;
       (symbol_index', frame_info', b2) \<leftarrow>
         for_each (func_basic_blocks func) (BinaryBuilder_encode_block encode_instr func)
           (symbol_index + 1, frame_info, b1);
       b3 \<leftarrow> SectionBuilder_attach_symbol_def (bb_text b2) symbol_index' b2;
       Some (symbol_index' + 1,
         b3\<lparr>bb_unwind_info := bb_unwind_info b3 @ [frame_info'\<lparr>ui_end_symbol_index := symbol_index'\<rparr>]\<rparr>)
     })"

definition BinaryBuilder_declare :: "m_module \<Rightarrow> binary_builder \<Rightarrow> binary_builder" where
  "BinaryBuilder_declare m b =
     foldl (\<lambda>b func. BinaryBuilder_declare_function func b)
       (BinaryBuilder_generate_external_symbols m b) (mod_functions m)"

definition BinaryBuilder_encode ::
  "instr_encoder \<Rightarrow> (binary_builder \<Rightarrow> binary_builder option) \<Rightarrow>
   (binary_builder \<Rightarrow> binary_builder option) \<Rightarrow> bool \<Rightarrow> m_module \<Rightarrow> bin_module option" where
  "BinaryBuilder_encode encode_instr apply_relaxation resolve_internal_symbols darwin m =
     do {
       let first_text_symbol_index =
         length (bb_defs (BinaryBuilder_generate_external_symbols m BinaryBuilder_new));
       b1 \<leftarrow> BinaryBuilder_generate_data_slices m (BinaryBuilder_declare m BinaryBuilder_new);
       b2 \<leftarrow> BinaryBuilder_generate_addr_table_slices m b1;
       (_, b3) \<leftarrow> for_each (mod_functions m) (BinaryBuilder_encode_function encode_instr)
         (first_text_symbol_index, b2);
       b4 \<leftarrow> apply_relaxation (BinaryBuilder_compute_slice_offsets b3);
       b5 \<leftarrow> resolve_internal_symbols b4;
       BinaryBuilder_create_module darwin b5
     }"

end
