(* ===== verification/Binary_Layout.thy ===== *)
theory Binary_Layout
  imports Binary_Builder
begin

section \<open>The layout that BinaryBuilder produces\<close>

text \<open>
  What the builder of \<open>src/banjo/emit\<close> guarantees: slices are laid out one after the other,
  baking concatenates them and moves every use to its address, the data of a global is
  aligned, and the functions of a module partition its text section, with their symbols and
  unwind information at the boundaries. The last fact rests on the contract of the target
  encoders, the locale \<open>target_encoder\<close>.
\<close>

subsection \<open>Slices\<close>

definition slice_size :: "section_slice \<Rightarrow> nat" where
  "slice_size sl = length (buf_data (slice_buffer sl))"

definition slice_sizes :: "section_builder \<Rightarrow> nat list" where
  "slice_sizes s = map slice_size (sect_slices s)"

definition section_bytes :: "section_builder \<Rightarrow> u8 list" where
  "section_bytes s = concat (map (buf_data \<circ> slice_buffer) (sect_slices s))"

lemma length_section_bytes: "length (section_bytes s) = sum_list (slice_sizes s)"
  by (simp add: section_bytes_def slice_sizes_def slice_size_def [abs_def] length_concat comp_def)

lemma get_size_slice_size: "WriteBuffer_get_size (slice_buffer sl) = slice_size sl"
  by (simp add: WriteBuffer_get_size_def slice_size_def)

lemma cur_size_last:
  "sect_slices s \<noteq> [] \<Longrightarrow> SectionBuilder_cur_size s = last (slice_sizes s)"
  by (simp add: SectionBuilder_cur_size_def SectionBuilder_cur_slice_def get_size_slice_size
      slice_sizes_def last_map)

lemma compute_slice_offsets_loop_nth:
  "i < length sls \<Longrightarrow>
   compute_slice_offsets_loop offset sls ! i =
     (sls ! i)\<lparr>slice_offset := offset + of_nat (sum_list (take i (map slice_size sls)))\<rparr>"
  by (induction offset sls arbitrary: i rule: compute_slice_offsets_loop.induct)
    (auto simp: nth_Cons' take_Cons' get_size_slice_size algebra_simps)

lemma length_compute_slice_offsets_loop [simp]:
  "length (compute_slice_offsets_loop offset sls) = length sls"
  by (induction offset sls rule: compute_slice_offsets_loop.induct) auto

lemma map_compute_slice_offsets_loop:
  "(\<And>sl x. f (sl\<lparr>slice_offset := x\<rparr>) = f sl) \<Longrightarrow>
   map f (compute_slice_offsets_loop offset sls) = map f sls"
  by (induction offset sls rule: compute_slice_offsets_loop.induct) auto

lemma slice_size_offset [simp]: "slice_size (sl\<lparr>slice_offset := x\<rparr>) = slice_size sl"
  by (simp add: slice_size_def)

lemma slice_sizes_compute [simp]:
  "slice_sizes (SectionBuilder_compute_slice_offsets s) = slice_sizes s"
  by (simp add: slice_sizes_def SectionBuilder_compute_slice_offsets_def
      map_compute_slice_offsets_loop)

text \<open>The offsets are right: every slice begins where the slices before it end.\<close>

definition offsets_computed :: "section_builder \<Rightarrow> bool" where
  "offsets_computed s \<longleftrightarrow>
     (\<forall>i < length (sect_slices s).
        slice_offset (sect_slices s ! i) = of_nat (sum_list (take i (slice_sizes s))))"

lemma offsets_computed_compute: "offsets_computed (SectionBuilder_compute_slice_offsets s)"
  unfolding offsets_computed_def slice_sizes_compute
  by (simp add: SectionBuilder_compute_slice_offsets_def compute_slice_offsets_loop_nth
      slice_sizes_def)

lemma offsets_computed_cong:
  assumes "map slice_offset (sect_slices s) = map slice_offset (sect_slices t)"
    and "slice_sizes s = slice_sizes t"
  shows "offsets_computed s \<longleftrightarrow> offsets_computed t"
proof -
  have "length (sect_slices s) = length (sect_slices t)"
    using assms(1) by (metis length_map)
  moreover have "slice_offset (sect_slices s ! i) = slice_offset (sect_slices t ! i)"
    if "i < length (sect_slices t)" for i
    using assms(1) that calculation by (metis nth_map)
  ultimately show ?thesis using assms(2) by (simp add: offsets_computed_def)
qed

subsection \<open>Baking\<close>

definition baked_use :: "symbol_def list \<Rightarrow> bin_section_kind \<Rightarrow> section_slice \<Rightarrow> symbol_use \<Rightarrow> bin_symbol_use" where
  "baked_use defs kind sl use =
     \<lparr>bsu_address = slice_offset sl + use_local_offset use, bsu_addend = use_addend use,
      bsu_symbol_index = def_bin_index (defs ! use_index use), bsu_kind = use_kind use,
      bsu_section = kind\<rparr>"

definition baked_uses :: "symbol_def list \<Rightarrow> section_builder \<Rightarrow> bin_symbol_use list" where
  "baked_uses defs s =
     concat (map (\<lambda>sl. map (baked_use defs (sect_kind s) sl)
       (filter (\<lambda>use. \<not> use_is_resolved use) (slice_uses sl))) (sect_slices s))"

lemma bake_uses:
  "for_each uses (SectionBuilder_bake_use defs kind sl) out = Some out' \<Longrightarrow>
   out' = out @ map (baked_use defs kind sl) (filter (\<lambda>use. \<not> use_is_resolved use) uses)"
proof (induction uses arbitrary: out)
  case Nil
  then show ?case by simp
next
  case (Cons use uses)
  then obtain out1 where "SectionBuilder_bake_use defs kind sl use out = Some out1"
    and "out' = out1 @ map (baked_use defs kind sl) (filter (\<lambda>use. \<not> use_is_resolved use) uses)"
    by (auto simp: Option.bind_eq_Some_conv)
  then show ?case
    by (auto simp: SectionBuilder_bake_use_def baked_use_def Option.bind_eq_Some_conv split: if_splits)
qed

lemma bake_slice_Some:
  "SectionBuilder_bake_slice defs kind sl (buffer, out) = Some r \<longleftrightarrow>
   (\<exists>out1. for_each (slice_uses sl) (SectionBuilder_bake_use defs kind sl) out = Some out1 \<and>
           r = (WriteBuffer_write_buffer buffer (slice_buffer sl), out1))"
  by (auto simp: SectionBuilder_bake_slice_def Option.bind_eq_Some_conv)

lemma bake_slices:
  assumes "for_each sls (SectionBuilder_bake_slice defs kind) (buffer, out) = Some (buffer', out')"
    and "at_end buffer"
  shows "at_end buffer' \<and>
         buf_data buffer' = buf_data buffer @ concat (map (buf_data \<circ> slice_buffer) sls) \<and>
         out' = out @ concat (map (\<lambda>sl. map (baked_use defs kind sl)
           (filter (\<lambda>use. \<not> use_is_resolved use) (slice_uses sl))) sls)"
  using assms
proof (induction sls arbitrary: buffer out)
  case Nil
  then show ?case by simp
next
  case (Cons sl sls)
  obtain out1 where out1: "for_each (slice_uses sl) (SectionBuilder_bake_use defs kind sl) out = Some out1"
    and rest: "for_each sls (SectionBuilder_bake_slice defs kind)
      (WriteBuffer_write_buffer buffer (slice_buffer sl), out1) = Some (buffer', out')"
    using Cons.prems(1) by (auto simp: bake_slice_Some Option.bind_eq_Some_conv)
  show ?case using Cons.IH [OF rest] bake_uses [OF out1] Cons.prems(2) by simp
qed

lemma bake_result:
  assumes "SectionBuilder_bake defs s out = Some (buffer, out')"
  shows "buf_data buffer = section_bytes s \<and> out' = out @ baked_uses defs s"
  using bake_slices [OF assms [unfolded SectionBuilder_bake_def]]
  by (simp add: section_bytes_def baked_uses_def)

lemma bake_at_end:
  assumes "SectionBuilder_bake defs s out = Some (buffer, out')"
  shows "at_end buffer"
  using bake_slices [OF assms [unfolded SectionBuilder_bake_def]] by simp

subsection \<open>Positions of symbols\<close>

text \<open>
  A section grows when bytes are appended to its last slice and slices are added behind it.
  A symbol that has been placed in it then keeps its position.
\<close>

definition grows :: "nat list \<Rightarrow> nat list \<Rightarrow> bool" where
  "grows xs ys \<longleftrightarrow> xs \<noteq> [] \<and> (\<exists>n zs. ys = butlast xs @ (last xs + n) # zs)"

lemma grows_refl: "xs \<noteq> [] \<Longrightarrow> grows xs xs"
  unfolding grows_def by (intro conjI exI [of _ 0] exI [of _ "[]"]) auto

lemma grows_trans: "grows xs ys \<Longrightarrow> grows ys zs \<Longrightarrow> grows xs zs"
  unfolding grows_def
proof (elim conjE exE)
  fix n as m bs
  assume "xs \<noteq> []" and ys: "ys = butlast xs @ (last xs + n) # as"
    and zs: "zs = butlast ys @ (last ys + m) # bs"
  show "xs \<noteq> [] \<and> (\<exists>n cs. zs = butlast xs @ (last xs + n) # cs)"
  proof (cases as rule: rev_cases)
    case Nil
    then have "zs = butlast xs @ (last xs + (n + m)) # bs" using ys zs by (simp add: add.assoc)
    then show ?thesis using \<open>xs \<noteq> []\<close> by blast
  next
    case (snoc as' a)
    then have "zs = butlast xs @ (last xs + n) # (as' @ (a + m) # bs)"
      using ys zs by (simp add: butlast_append)
    then show ?thesis using \<open>xs \<noteq> []\<close> by blast
  qed
qed

lemma grows_append: "xs \<noteq> [] \<Longrightarrow> grows xs (butlast xs @ [last xs + n])"
  unfolding grows_def by blast

lemma grows_props:
  assumes "grows xs ys"
  shows "xs \<noteq> []" and "ys \<noteq> []" and "length xs \<le> length ys" and "sum_list xs \<le> sum_list ys"
    and "i < length xs \<Longrightarrow> take i ys = take i xs" and "i < length xs \<Longrightarrow> xs ! i \<le> ys ! i"
proof -
  obtain n zs where xs: "xs \<noteq> []" and ys: "ys = butlast xs @ (last xs + n) # zs"
    using assms by (auto simp: grows_def)
  obtain as a where as: "xs = as @ [a]" using xs by (metis append_butlast_last_id)
  show "xs \<noteq> []" "ys \<noteq> []" "length xs \<le> length ys" "sum_list xs \<le> sum_list ys"
    using xs ys as by simp_all
  show "i < length xs \<Longrightarrow> take i ys = take i xs" "i < length xs \<Longrightarrow> xs ! i \<le> ys ! i"
    using ys as by (auto simp: nth_append less_Suc_eq)
qed

text \<open>
  \<open>placed text d p\<close>: the symbol definition \<open>d\<close> points at the position \<open>p\<close> of the text, counted in
  bytes from the beginning of the section.
\<close>

definition placed :: "nat list \<Rightarrow> symbol_def \<Rightarrow> nat \<Rightarrow> bool" where
  "placed sizes d p \<longleftrightarrow>
     def_slice_index d < length sizes \<and>
     (\<exists>off \<le> sizes ! def_slice_index d.
        def_local_offset d = of_nat off \<and> p = sum_list (take (def_slice_index d) sizes) + off)"

lemma placed_grows: "placed sizes d p \<Longrightarrow> grows sizes sizes' \<Longrightarrow> placed sizes' d p"
  unfolding placed_def
  using grows_props(3) [of sizes sizes'] grows_props(5,6) [of sizes sizes' "def_slice_index d"]
  by (auto intro: order_trans)

text \<open>What the names, kinds and visibilities of symbols are does not depend on their place.\<close>

definition signature :: "symbol_def \<Rightarrow> string \<times> bin_symbol_kind \<times> bool" where
  "signature d = (def_name d, def_kind d, def_global d)"

text \<open>
  \<open>encoding_step n b n' b'\<close>: encoding from the builder \<open>b\<close>, with \<open>n\<close> the next symbol to place,
  led to \<open>b'\<close> with \<open>n'\<close>.
\<close>

definition encoding_step :: "nat \<Rightarrow> binary_builder \<Rightarrow> nat \<Rightarrow> binary_builder \<Rightarrow> bool" where
  "encoding_step n b n' b' \<longleftrightarrow>
     n \<le> n' \<and> grows (slice_sizes (bb_text b)) (slice_sizes (bb_text b')) \<and>
     length (bb_defs b) \<le> length (bb_defs b') \<and>
     (\<forall>i < length (bb_defs b). signature (bb_defs b' ! i) = signature (bb_defs b ! i)) \<and>
     (\<forall>i < n. i < length (bb_defs b) \<longrightarrow> bb_defs b' ! i = bb_defs b ! i) \<and>
     (\<forall>i. length (bb_defs b) \<le> i \<and> i < length (bb_defs b') \<longrightarrow> def_kind (bb_defs b' ! i) = TEXT_LABEL)"

lemma encoding_step_trans:
  assumes s: "encoding_step n b n' b'" and t: "encoding_step n' b' n'' b''"
  shows "encoding_step n b n'' b''"
  unfolding encoding_step_def
proof (intro conjI allI impI)
  show "n \<le> n''" "length (bb_defs b) \<le> length (bb_defs b'')"
    using s t by (auto simp: encoding_step_def)
  show "grows (slice_sizes (bb_text b)) (slice_sizes (bb_text b''))"
    using s t grows_trans by (auto simp: encoding_step_def)
  fix i
  show "i < length (bb_defs b) \<Longrightarrow> signature (bb_defs b'' ! i) = signature (bb_defs b ! i)"
    "i < n \<Longrightarrow> i < length (bb_defs b) \<Longrightarrow> bb_defs b'' ! i = bb_defs b ! i"
    using s t by (auto simp: encoding_step_def)
  assume i: "length (bb_defs b) \<le> i \<and> i < length (bb_defs b'')"
  show "def_kind (bb_defs b'' ! i) = TEXT_LABEL"
  proof (cases "i < length (bb_defs b')")
    case True
    then have "signature (bb_defs b'' ! i) = signature (bb_defs b' ! i)"
      "def_kind (bb_defs b' ! i) = TEXT_LABEL"
      using s t i by (auto simp: encoding_step_def)
    then show ?thesis by (simp add: signature_def)
  next
    case False
    then show ?thesis using t i by (auto simp: encoding_step_def)
  qed
qed

lemma encoding_step_refl:
  "sect_slices (bb_text b) \<noteq> [] \<Longrightarrow> encoding_step n b n b"
  by (auto simp: encoding_step_def grows_refl slice_sizes_def)

lemma encoding_step_text:
  "encoding_step n b n' b' \<Longrightarrow> sect_slices (bb_text b') \<noteq> []"
  using grows_props(2) by (force simp: encoding_step_def slice_sizes_def)

text \<open>Attaching a symbol places it at the current end of the text.\<close>

lemma attach_step:
  assumes "SectionBuilder_attach_symbol_def (bb_text b) n b = Some b'"
    and "sect_slices (bb_text b) \<noteq> []"
  shows "encoding_step n b (n + 1) b' \<and> bb_text b' = bb_text b \<and>
         bb_unwind_info b' = bb_unwind_info b \<and> n < length (bb_defs b') \<and>
         placed (slice_sizes (bb_text b)) (bb_defs b' ! n) (sum_list (slice_sizes (bb_text b)))"
proof -
  let ?sizes = "slice_sizes (bb_text b)"
  have ne: "?sizes \<noteq> []" using assms(2) by (simp add: slice_sizes_def)
  obtain xs x where snoc: "?sizes = xs @ [x]" using ne by (metis append_butlast_last_id)
  have len: "length (sect_slices (bb_text b)) = length ?sizes" by (simp add: slice_sizes_def)
  have b': "b' = b\<lparr>bb_defs := (bb_defs b)[n := (bb_defs b ! n)
      \<lparr>def_slice_index := length ?sizes - 1, def_local_offset := of_nat x\<rparr>]\<rparr>"
    and n: "n < length (bb_defs b)"
    using assms snoc len
    by (auto simp: SectionBuilder_attach_symbol_def_def cur_size_last Option.bind_eq_Some_conv)
  have "placed ?sizes (bb_defs b' ! n) (sum_list ?sizes)"
    using n snoc by (auto simp: placed_def b')
  moreover have "encoding_step n b (n + 1) b'"
    using n ne by (auto simp: encoding_step_def b' grows_refl nth_list_update signature_def)
  ultimately show ?thesis using n by (simp add: b')
qed

subsection \<open>The contract of a target encoder\<close>

text \<open>
  What \<open>BinaryBuilder::encode\<close> relies on when it calls the virtual functions: \<open>encode_instr\<close>
  only appends to the text (bytes and slices) and to the symbol definitions (labels), and
  \<open>resolve_internal_symbols\<close> only overwrites bytes in place.
\<close>

definition num_labels :: "m_function \<Rightarrow> nat" where
  "num_labels f = length (filter (\<lambda>block. block_label block \<noteq> '''') (func_basic_blocks f))"

fun functions_at ::
  "nat list \<Rightarrow> symbol_def list \<Rightarrow> nat \<Rightarrow> nat \<Rightarrow> m_function list \<Rightarrow> nat \<Rightarrow> bool" where
  "functions_at sizes defs n p [] q \<longleftrightarrow> p = q"
| "functions_at sizes defs n p (f # fs) q \<longleftrightarrow>
     (\<exists>r \<ge> p. n + 1 + num_labels f < length defs \<and> placed sizes (defs ! n) p \<and>
          placed sizes (defs ! (n + 1 + num_labels f)) r \<and>
          functions_at sizes defs (n + 2 + num_labels f) r fs q)"

fun frame_indices :: "nat \<Rightarrow> m_function list \<Rightarrow> (nat \<times> nat) list" where
  "frame_indices n [] = []"
| "frame_indices n (f # fs) = (n, n + 1 + num_labels f) # frame_indices (n + 2 + num_labels f) fs"

definition frame_pair :: "unwind_info \<Rightarrow> nat \<times> nat" where
  "frame_pair u = (ui_start_symbol_index u, ui_end_symbol_index u)"

locale target_encoder =
  fixes encode_instr :: instr_encoder
    and resolve_internal_symbols :: "binary_builder \<Rightarrow> binary_builder option"
  assumes encode_step:
      "encode_instr i f (u, b) = Some (u', b') \<Longrightarrow> sect_slices (bb_text b) \<noteq> [] \<Longrightarrow>
       encoding_step n b n b'"
    and encode_unwind:
      "encode_instr i f (u, b) = Some (u', b') \<Longrightarrow>
       bb_unwind_info b' = bb_unwind_info b \<and> ui_start_symbol_index u' = ui_start_symbol_index u"
    and resolve_keeps:
      "resolve_internal_symbols b = Some b' \<Longrightarrow>
       bb_defs b' = bb_defs b \<and> bb_unwind_info b' = bb_unwind_info b \<and>
       map slice_size (sect_slices (bb_text b')) = map slice_size (sect_slices (bb_text b)) \<and>
       map slice_offset (sect_slices (bb_text b')) = map slice_offset (sect_slices (bb_text b))"
begin

lemma encode_instrs_step:
  assumes "for_each instrs (\<lambda>i. encode_instr i f) (u, b) = Some (u', b')"
    and "sect_slices (bb_text b) \<noteq> []"
  shows "encoding_step n b n b' \<and> bb_unwind_info b' = bb_unwind_info b \<and>
         ui_start_symbol_index u' = ui_start_symbol_index u"
  using assms
proof (induction instrs arbitrary: u b)
  case Nil
  then show ?case by (simp add: encoding_step_refl)
next
  case (Cons i instrs)
  obtain u1 b1 where first: "encode_instr i f (u, b) = Some (u1, b1)"
    and rest: "for_each instrs (\<lambda>i. encode_instr i f) (u1, b1) = Some (u', b')"
    using Cons.prems(1) by (auto simp: Option.bind_eq_Some_conv)
  have step: "encoding_step n b n b1" using encode_step [OF first Cons.prems(2)] .
  then show ?case
    using Cons.IH [OF rest encoding_step_text [OF step]] encode_unwind [OF first]
      encoding_step_trans by auto
qed

lemma encode_block_step:
  assumes "BinaryBuilder_encode_block encode_instr f block (n, u, b) = Some (n', u', b')"
    and "sect_slices (bb_text b) \<noteq> []"
  shows "n' = n + (if block_label block \<noteq> '''' then 1 else 0) \<and> encoding_step n b n' b' \<and>
         bb_unwind_info b' = bb_unwind_info b \<and> ui_start_symbol_index u' = ui_start_symbol_index u"
proof (cases "block_label block = ''''")
  case True
  then have "n' = n" "for_each (block_instrs block) (\<lambda>i. encode_instr i f) (u, b) = Some (u', b')"
    using assms(1) by (auto simp: BinaryBuilder_encode_block_def Option.bind_eq_Some_conv)
  then show ?thesis using encode_instrs_step [of _ f u b u' b' n] assms(2) True by simp
next
  case False
  then obtain b1 where attach: "SectionBuilder_attach_symbol_def (bb_text b) n b = Some b1"
    and n': "n' = n + 1"
    and rest: "for_each (block_instrs block) (\<lambda>i. encode_instr i f) (u, b1) = Some (u', b')"
    using assms(1) by (auto simp: BinaryBuilder_encode_block_def Option.bind_eq_Some_conv)
  note a = attach_step [OF attach assms(2)]
  have ne: "sect_slices (bb_text b1) \<noteq> []" using a assms(2) by simp
  show ?thesis
    using encode_instrs_step [OF rest ne, of "n + 1"] a n' False encoding_step_trans by auto
qed

lemma encode_blocks_step:
  assumes "for_each blocks (BinaryBuilder_encode_block encode_instr f) (n, u, b) = Some (n', u', b')"
    and "sect_slices (bb_text b) \<noteq> []"
  shows "n' = n + length (filter (\<lambda>block. block_label block \<noteq> '''') blocks) \<and>
         encoding_step n b n' b' \<and> bb_unwind_info b' = bb_unwind_info b \<and>
         ui_start_symbol_index u' = ui_start_symbol_index u"
  using assms
proof (induction blocks arbitrary: n u b)
  case Nil
  then show ?case by (simp add: encoding_step_refl)
next
  case (Cons block blocks)
  obtain n1 u1 b1 where first: "BinaryBuilder_encode_block encode_instr f block (n, u, b) = Some (n1, u1, b1)"
    and rest: "for_each blocks (BinaryBuilder_encode_block encode_instr f) (n1, u1, b1) = Some (n', u', b')"
    using Cons.prems(1) by (auto simp: Option.bind_eq_Some_conv)
  note s = encode_block_step [OF first Cons.prems(2)]
  then have ne: "sect_slices (bb_text b1) \<noteq> []" using encoding_step_text by blast
  note t = Cons.IH [OF rest ne]
  have "encoding_step n b n' b'" using encoding_step_trans s t by blast
  then show ?case using s t by simp
qed

lemma encode_function_step:
  assumes "BinaryBuilder_encode_function encode_instr f (n, b) = Some (n', b')"
    and "sect_slices (bb_text b) \<noteq> []"
  shows "n' = n + 2 + num_labels f \<and> encoding_step n b n' b' \<and> n' \<le> length (bb_defs b') \<and>
         placed (slice_sizes (bb_text b')) (bb_defs b' ! n) (sum_list (slice_sizes (bb_text b))) \<and>
         placed (slice_sizes (bb_text b')) (bb_defs b' ! (n' - 1)) (sum_list (slice_sizes (bb_text b'))) \<and>
         (\<exists>u. bb_unwind_info b' = bb_unwind_info b @ [u] \<and> frame_pair u = (n, n' - 1))"
proof -
  define frame where "frame = \<lparr>ui_start_symbol_index = n, ui_end_symbol_index = 0,
      ui_alloca_size = func_unwind_alloc_size f, ui_alloca_start_label = 0,
      ui_alloca_end_label = 0, ui_pushed_regs = []\<rparr>"
  then have start: "ui_start_symbol_index frame = n" by simp
  obtain b1 m u b2 b3 where first: "SectionBuilder_attach_symbol_def (bb_text b) n b = Some b1"
    and blocks: "for_each (func_basic_blocks f) (BinaryBuilder_encode_block encode_instr f)
      (n + 1, frame, b1) = Some (m, u, b2)"
    and final: "SectionBuilder_attach_symbol_def (bb_text b2) m b2 = Some b3"
    and n': "n' = m + 1"
    and b': "b' = b3\<lparr>bb_unwind_info := bb_unwind_info b3 @ [u\<lparr>ui_end_symbol_index := m\<rparr>]\<rparr>"
    using assms(1)
    by (auto simp: BinaryBuilder_encode_function_def Option.bind_eq_Some_conv frame_def [symmetric])
  note a1 = attach_step [OF first assms(2)]
  have ne1: "sect_slices (bb_text b1) \<noteq> []" using a1 assms(2) by simp
  note s = encode_blocks_step [OF blocks ne1]
  then have ne2: "sect_slices (bb_text b2) \<noteq> []" using encoding_step_text by blast
  note a2 = attach_step [OF final ne2]
  have later: "encoding_step (n + 1) b1 n' b3"
    using s a2 n' encoding_step_trans by metis
  have same: "bb_defs b' = bb_defs b3" "bb_text b' = bb_text b3" by (simp_all add: b')
  have keep: "bb_defs b3 ! n = bb_defs b1 ! n"
    and grow: "grows (slice_sizes (bb_text b1)) (slice_sizes (bb_text b3))"
    using later a1 unfolding encoding_step_def by simp_all
  have m: "m = n + 1 + num_labels f" and same_text: "bb_text b3 = bb_text b2"
    and unwind: "bb_unwind_info b3 = bb_unwind_info b" "ui_start_symbol_index u = n"
    using s a1 a2 start by (simp_all add: num_labels_def)
  have p1: "placed (slice_sizes (bb_text b')) (bb_defs b' ! n) (sum_list (slice_sizes (bb_text b)))"
    using placed_grows [OF _ grow] a1 keep same by simp
  have p2: "placed (slice_sizes (bb_text b')) (bb_defs b' ! m) (sum_list (slice_sizes (bb_text b')))"
    using a2 same same_text by simp
  have "encoding_step n b n' b3"
    using encoding_step_trans [OF _ later] a1 by blast
  then have "encoding_step n b n' b'" by (simp add: encoding_step_def same)
  moreover have "m < length (bb_defs b')" using a2 same by simp
  ultimately show ?thesis
    using p1 p2 n' m unwind by (simp add: b' frame_pair_def)
qed

lemma encode_functions_step:
  assumes "for_each fs (BinaryBuilder_encode_function encode_instr) (n, b) = Some (n', b')"
    and "sect_slices (bb_text b) \<noteq> []"
  shows "encoding_step n b n' b' \<and>
         functions_at (slice_sizes (bb_text b')) (bb_defs b') n (sum_list (slice_sizes (bb_text b)))
           fs (sum_list (slice_sizes (bb_text b'))) \<and>
         (\<exists>us. bb_unwind_info b' = bb_unwind_info b @ us \<and> map frame_pair us = frame_indices n fs)"
  using assms
proof (induction fs arbitrary: n b)
  case Nil
  then show ?case by (simp add: encoding_step_refl)
next
  case (Cons f fs)
  obtain n1 b1 where first: "BinaryBuilder_encode_function encode_instr f (n, b) = Some (n1, b1)"
    and rest: "for_each fs (BinaryBuilder_encode_function encode_instr) (n1, b1) = Some (n', b')"
    using Cons.prems(1) by (auto simp: Option.bind_eq_Some_conv)
  note s = encode_function_step [OF first Cons.prems(2)]
  then have ne: "sect_slices (bb_text b1) \<noteq> []" using encoding_step_text by blast
  note t = Cons.IH [OF rest ne]
  have grow: "grows (slice_sizes (bb_text b1)) (slice_sizes (bb_text b'))"
    and keep: "\<And>i. i < n1 \<Longrightarrow> i < length (bb_defs b1) \<Longrightarrow> bb_defs b' ! i = bb_defs b1 ! i"
    and len: "length (bb_defs b1) \<le> length (bb_defs b')"
    using t by (auto simp: encoding_step_def)
  have first_total: "sum_list (slice_sizes (bb_text b)) \<le> sum_list (slice_sizes (bb_text b1))"
    using s grows_props(4) by (auto simp: encoding_step_def)
  have "functions_at (slice_sizes (bb_text b')) (bb_defs b') n (sum_list (slice_sizes (bb_text b)))
          (f # fs) (sum_list (slice_sizes (bb_text b')))"
    using s t grow keep len first_total
    by (auto intro!: exI [of _ "sum_list (slice_sizes (bb_text b1))"] intro: placed_grows)
  moreover have "encoding_step n b n' b'" using s t encoding_step_trans by blast
  ultimately show ?case using s t by auto
qed

end

subsection \<open>Declaring the symbols of a module\<close>

definition declares :: "binary_builder \<Rightarrow> symbol_def list \<Rightarrow> binary_builder \<Rightarrow> bool" where
  "declares b ds b' \<longleftrightarrow>
     bb_defs b' = bb_defs b @ ds \<and> bb_text b' = bb_text b \<and> bb_unwind_info b' = bb_unwind_info b"

lemma declares_trans: "declares b ds b' \<Longrightarrow> declares b' es b'' \<Longrightarrow> declares b (ds @ es) b''"
  by (simp add: declares_def)

lemma declares_nil: "declares b [] b" by (simp add: declares_def)

lemma declares_add: "declares b [d] (BinaryBuilder_add_symbol_def d b)"
  by (simp add: declares_def BinaryBuilder_add_symbol_def_def)

lemma declares_section_add:
  "\<exists>d. declares b [d] (SectionBuilder_add_symbol_def s name kind global b) \<and>
       signature d = (name, kind, global)"
  unfolding SectionBuilder_add_symbol_def_def
  by (intro exI conjI, rule declares_add) (simp add: signature_def SymbolDef_make_def)

lemma declares_externals:
  "\<exists>ds. declares b ds (BinaryBuilder_generate_external_symbols m b) \<and>
        length ds = length (mod_external_symbols m)"
proof -
  have "\<exists>ds. declares b ds (foldl (\<lambda>b external.
      BinaryBuilder_add_symbol_def (SymbolDef_make external UNKNOWN True 0 0) b) b xs) \<and>
      length ds = length xs" for b xs
  proof (induction xs arbitrary: b)
    case Nil
    then show ?case using declares_nil by auto
  next
    case (Cons x xs)
    let ?b = "BinaryBuilder_add_symbol_def (SymbolDef_make x UNKNOWN True 0 0) b"
    show ?case using Cons.IH [of ?b] declares_trans [OF declares_add] by fastforce
  qed
  then show ?thesis by (simp add: BinaryBuilder_generate_external_symbols_def)
qed

lemma declares_blocks:
  "\<exists>ds. declares b ds (foldl (\<lambda>b block. BinaryBuilder_declare_block block b) b blocks) \<and>
        length ds = length (filter (\<lambda>block. block_label block \<noteq> '''') blocks)"
proof (induction blocks arbitrary: b)
  case Nil
  then show ?case using declares_nil by auto
next
  case (Cons block blocks)
  let ?b = "BinaryBuilder_declare_block block b"
  have "\<exists>es. declares b es ?b \<and> length es = (if block_label block \<noteq> '''' then 1 else 0)"
    using declares_add declares_nil
    by (auto simp: BinaryBuilder_declare_block_def BinaryBuilder_add_label_symbol_def
        SectionBuilder_add_symbol_def_def intro!: exI [of _ "[_]"])
  then show ?case using Cons.IH [of ?b] declares_trans by fastforce
qed

lemma declares_function:
  "\<exists>d ds. declares b (d # ds) (BinaryBuilder_declare_function f b) \<and>
          signature d = (func_name f, TEXT_FUNC, True) \<and> length ds = num_labels f + 1 \<and>
          def_kind (last ds) = TEXT_LABEL"
proof -
  let ?b1 = "BinaryBuilder_add_func_symbol (func_name f) b"
  obtain d where d: "declares b [d] ?b1" and "signature d = (func_name f, TEXT_FUNC, True)"
    using declares_section_add unfolding BinaryBuilder_add_func_symbol_def by blast
  moreover let ?b2 = "foldl (\<lambda>b block. BinaryBuilder_declare_block block b) ?b1 (func_basic_blocks f)"
  obtain ds where ds: "declares ?b1 ds ?b2" and "length ds = num_labels f"
    using declares_blocks unfolding num_labels_def by blast
  moreover obtain e where e: "declares ?b2 [e] (BinaryBuilder_declare_function f b)"
    "signature e = ('''', TEXT_LABEL, False)"
    using declares_section_add
    unfolding BinaryBuilder_declare_function_def BinaryBuilder_add_empty_label_def Let_def
      BinaryBuilder_add_label_symbol_def snd_conv by blast
  moreover have "declares b ([d] @ ds @ [e]) (BinaryBuilder_declare_function f b)"
    using declares_trans [OF d declares_trans [OF ds e(1)]] .
  ultimately show ?thesis
    by (intro exI [of _ d] exI [of _ "ds @ [e]"]) (simp add: signature_def)
qed

fun functions_named :: "symbol_def list \<Rightarrow> nat \<Rightarrow> m_function list \<Rightarrow> bool" where
  "functions_named defs n [] \<longleftrightarrow> True"
| "functions_named defs n (f # fs) \<longleftrightarrow>
     n + 1 + num_labels f < length defs \<and>
     signature (defs ! n) = (func_name f, TEXT_FUNC, True) \<and>
     def_kind (defs ! (n + 1 + num_labels f)) = TEXT_LABEL \<and>
     functions_named defs (n + 2 + num_labels f) fs"

lemma functions_named_mono:
  assumes "functions_named defs n fs" and "length defs \<le> length defs'"
    and "\<And>i. i < length defs \<Longrightarrow> signature (defs' ! i) = signature (defs ! i)"
  shows "functions_named defs' n fs"
  using assms by (induction defs n fs rule: functions_named.induct) (auto simp: signature_def)

lemma functions_named_append: "functions_named defs n fs \<Longrightarrow> functions_named (defs @ ds) n fs"
  by (erule functions_named_mono) (auto simp: nth_append)

lemma declares_functions:
  "\<exists>ds. declares b ds (foldl (\<lambda>b f. BinaryBuilder_declare_function f b) b fs) \<and>
        functions_named (bb_defs b @ ds) (length (bb_defs b)) fs"
proof (induction fs arbitrary: b)
  case Nil
  then show ?case using declares_nil by auto
next
  case (Cons f fs)
  let ?b1 = "BinaryBuilder_declare_function f b"
  obtain d es where first: "declares b (d # es) ?b1" "signature d = (func_name f, TEXT_FUNC, True)"
    "length es = num_labels f + 1" "def_kind (last es) = TEXT_LABEL"
    using declares_function by blast
  obtain ds where rest: "declares ?b1 ds (foldl (\<lambda>b f. BinaryBuilder_declare_function f b) ?b1 fs)"
    "functions_named (bb_defs ?b1 @ ds) (length (bb_defs ?b1)) fs"
    using Cons.IH by blast
  have "bb_defs ?b1 = bb_defs b @ d # es" using first by (simp add: declares_def)
  moreover have "es ! num_labels f = last es" using first(3) by (subst last_conv_nth) auto
  ultimately have "functions_named (bb_defs b @ (d # es) @ ds) (length (bb_defs b)) (f # fs)"
    using rest(2) first by (simp add: nth_append)
  then show ?case using declares_trans [OF first(1) rest(1)] by (intro exI) (auto simp del: functions_named.simps)
qed

lemma declares_data:
  assumes "BinaryBuilder_generate_data_slices m b = Some b'"
  shows "\<exists>ds. declares b ds b'"
proof -
  have one: "\<exists>ds. declares b ds b'" if "BinaryBuilder_generate_data_slice m g b = Some b'" for g b b'
    using that
    by (auto simp: BinaryBuilder_generate_data_slice_def Option.bind_eq_Some_conv Let_def
        declares_def SectionBuilder_add_symbol_def_def BinaryBuilder_add_symbol_def_def)
  show ?thesis
  proof (rule for_each_inv [OF assms [unfolded BinaryBuilder_generate_data_slices_def]])
    show "\<exists>ds. declares b ds b" using declares_nil by blast
    show "\<exists>ds. declares b ds s'" if "\<exists>ds. declares b ds s"
      "BinaryBuilder_generate_data_slice m g s = Some s'" for g s s'
      using that one declares_trans by blast
  qed
qed

lemma declares_addr_table:
  assumes "BinaryBuilder_generate_addr_table_slices m b = Some b'"
  shows "\<exists>ds. declares b ds b'"
  using assms
  by (auto simp: BinaryBuilder_generate_addr_table_slices_def Option.bind_eq_Some_conv Let_def
      declares_def SectionBuilder_add_symbol_def_def BinaryBuilder_add_symbol_def_def
      split: option.splits)

subsection \<open>Baking symbols\<close>

lemma bake_symbol_location_Some:
  assumes "BinaryBuilder_bake_symbol_location b d k = Some (d', k')"
  shows "signature d' = signature d \<and> k' = (if def_kind d \<noteq> TEXT_LABEL then k + 1 else k) \<and>
         def_bin_index d' = (if def_kind d \<noteq> TEXT_LABEL then k else def_bin_index d)"
  using assms
  by (auto simp: BinaryBuilder_bake_symbol_location_def Option.bind_eq_Some_conv signature_def Let_def
      split: if_splits)

lemma bake_symbol_location_placed:
  assumes "BinaryBuilder_bake_symbol_location b d k = Some (d', k')"
    and "placed (slice_sizes (bb_text b)) d p" and "offsets_computed (bb_text b)"
    and "def_kind d \<in> {TEXT_FUNC, TEXT_LABEL}"
  shows "def_bin_offset d' = of_nat p"
  using assms
  by (auto simp: BinaryBuilder_bake_symbol_location_def Option.bind_eq_Some_conv Let_def
      placed_def offsets_computed_def slice_sizes_def split: if_splits)

lemma map_each_nth:
  "map_each body xs s = Some (ys, s') \<Longrightarrow> i < length xs \<Longrightarrow>
   \<exists>t t'. body (xs ! i) t = Some (ys ! i, t')"
proof (induction xs arbitrary: s ys i)
  case Nil
  then show ?case by simp
next
  case (Cons x xs)
  obtain y t zs where "body x s = Some (y, t)" "map_each body xs t = Some (zs, s')" "ys = y # zs"
    using Cons.prems(1) by (auto simp: Option.bind_eq_Some_conv)
  then show ?case using Cons.IH [of t zs] Cons.prems(2) by (cases i) auto
qed

text \<open>The functions of a module lie between consecutive boundaries \<open>ps\<close>.\<close>

lemma functions_at_boundaries:
  assumes "functions_at sizes defs n p fs q"
  shows "\<exists>ps. length ps = Suc (length fs) \<and> sorted ps \<and> hd ps = p \<and> last ps = q \<and>
    (\<forall>k < length fs.
       fst (frame_indices n fs ! k) < length defs \<and> snd (frame_indices n fs ! k) < length defs \<and>
       placed sizes (defs ! fst (frame_indices n fs ! k)) (ps ! k) \<and>
       placed sizes (defs ! snd (frame_indices n fs ! k)) (ps ! Suc k))"
  using assms
proof (induction sizes defs n p fs q rule: functions_at.induct)
  case (1 sizes defs n p q)
  then show ?case by (intro exI [of _ "[p]"]) simp
next
  case (2 sizes defs n p f fs q)
  then obtain r where r: "p \<le> r" "n + 1 + num_labels f < length defs" "placed sizes (defs ! n) p"
    "placed sizes (defs ! (n + 1 + num_labels f)) r"
    "functions_at sizes defs (n + 2 + num_labels f) r fs q" by auto
  then obtain ps where ps: "length ps = Suc (length fs)" "sorted ps" "hd ps = r" "last ps = q"
    "\<forall>k < length fs.
       fst (frame_indices (n + 2 + num_labels f) fs ! k) < length defs \<and>
       snd (frame_indices (n + 2 + num_labels f) fs ! k) < length defs \<and>
       placed sizes (defs ! fst (frame_indices (n + 2 + num_labels f) fs ! k)) (ps ! k) \<and>
       placed sizes (defs ! snd (frame_indices (n + 2 + num_labels f) fs ! k)) (ps ! Suc k)"
    using 2 by blast
  then obtain ps' where ps': "ps = r # ps'" by (cases ps) auto
  have "sorted (p # ps)" using ps(2) r(1) ps' by auto
  moreover have "placed sizes (defs ! fst (frame_indices n (f # fs) ! k)) ((p # ps) ! k) \<and>
      placed sizes (defs ! snd (frame_indices n (f # fs) ! k)) ((p # ps) ! Suc k) \<and>
      fst (frame_indices n (f # fs) ! k) < length defs \<and>
      snd (frame_indices n (f # fs) ! k) < length defs" if "k < length (f # fs)" for k
    using that r ps(5) ps' by (cases k) auto
  ultimately show ?case using ps by (intro exI [of _ "p # ps"]) auto
qed

lemma length_frame_indices [simp]: "length (frame_indices n fs) = length fs"
  by (induction n fs rule: frame_indices.induct) auto

lemma functions_named_nth:
  "functions_named defs n fs \<Longrightarrow> k < length fs \<Longrightarrow>
   signature (defs ! fst (frame_indices n fs ! k)) = (func_name (fs ! k), TEXT_FUNC, True) \<and>
   def_kind (defs ! snd (frame_indices n fs ! k)) = TEXT_LABEL"
  by (induction defs n fs arbitrary: k rule: functions_named.induct) (auto simp: nth_Cons')

lemma bake_frames:
  assumes "for_each us (BinaryBuilder_bake_frame defs) out = Some out'"
  shows "\<exists>vs. out' = out @ vs \<and> length vs = length us \<and>
    (\<forall>k < length us.
       bui_start_addr (vs ! k) = def_bin_offset (defs ! ui_start_symbol_index (us ! k)) \<and>
       bui_end_addr (vs ! k) = def_bin_offset (defs ! ui_end_symbol_index (us ! k)))"
  using assms
proof (induction us arbitrary: out)
  case Nil
  then show ?case by simp
next
  case (Cons u us)
  obtain out1 where first: "BinaryBuilder_bake_frame defs u out = Some out1"
    and rest: "for_each us (BinaryBuilder_bake_frame defs) out1 = Some out'"
    using Cons.prems by (auto simp: Option.bind_eq_Some_conv)
  obtain v where v: "out1 = out @ [v]" "bui_start_addr v = def_bin_offset (defs ! ui_start_symbol_index u)"
    "bui_end_addr v = def_bin_offset (defs ! ui_end_symbol_index u)"
    using first
    by (auto simp: BinaryBuilder_bake_frame_def BinaryBuilder_def_offset_def Option.bind_eq_Some_conv)
  obtain vs where vs: "out' = out1 @ vs" "length vs = length us"
    "\<forall>k < length us.
       bui_start_addr (vs ! k) = def_bin_offset (defs ! ui_start_symbol_index (us ! k)) \<and>
       bui_end_addr (vs ! k) = def_bin_offset (defs ! ui_end_symbol_index (us ! k))"
    using Cons.IH [OF rest] by blast
  show ?case
    using v vs by (intro exI [of _ "v # vs"]) (auto simp: nth_Cons')
qed

text \<open>The state after all symbols of a module are declared and its data is generated.\<close>

lemma declared_module:
  assumes "BinaryBuilder_generate_data_slices m (BinaryBuilder_declare m BinaryBuilder_new) = Some b1"
    and "BinaryBuilder_generate_addr_table_slices m b1 = Some b2"
  shows "bb_text b2 = SectionBuilder_new Section_TEXT \<and> bb_unwind_info b2 = [] \<and>
         functions_named (bb_defs b2)
           (length (bb_defs (BinaryBuilder_generate_external_symbols m BinaryBuilder_new)))
           (mod_functions m)"
proof -
  let ?e = "BinaryBuilder_generate_external_symbols m BinaryBuilder_new"
  let ?d = "BinaryBuilder_declare m BinaryBuilder_new"
  obtain ds0 where e: "declares BinaryBuilder_new ds0 ?e" using declares_externals by blast
  obtain ds1 where d: "declares ?e ds1 ?d"
    and named: "functions_named (bb_defs ?e @ ds1) (length (bb_defs ?e)) (mod_functions m)"
    using declares_functions unfolding BinaryBuilder_declare_def by blast
  obtain ds2 where d2: "declares ?d ds2 b1" using declares_data [OF assms(1)] by blast
  obtain ds3 where d3: "declares b1 ds3 b2" using declares_addr_table [OF assms(2)] by blast
  have "declares BinaryBuilder_new (ds0 @ ds1 @ ds2 @ ds3) b2"
    using declares_trans [OF e declares_trans [OF d declares_trans [OF d2 d3]]] .
  moreover have "bb_defs b2 = (bb_defs ?e @ ds1) @ ds2 @ ds3"
    using d d2 d3 by (simp add: declares_def)
  ultimately show ?thesis
    using functions_named_append [OF named]
    by (simp add: declares_def BinaryBuilder_new_def)
qed

text \<open>What baking makes of the symbols and the unwind information.\<close>

lemma create_module_result:
  assumes "BinaryBuilder_create_module darwin b = Some bin" and "offsets_computed (bb_text b)"
  shows "\<exists>defs. length defs = length (bb_defs b) \<and>
    (\<forall>i < length defs. signature (defs ! i) = signature (bb_defs b ! i) \<and>
       (\<forall>p. placed (slice_sizes (bb_text b)) (bb_defs b ! i) p \<longrightarrow>
          def_kind (bb_defs b ! i) \<in> {TEXT_FUNC, TEXT_LABEL} \<longrightarrow>
          def_bin_offset (defs ! i) = of_nat p)) \<and>
    bm_symbol_defs bin = BinaryBuilder_bake_symbol_defs darwin defs \<and>
    buf_data (bm_text bin) = section_bytes (bb_text b) \<and>
    for_each (bb_unwind_info b) (BinaryBuilder_bake_frame defs) [] = Some (bm_unwind_info bin)"
proof -
  obtain defs k where bake: "map_each (BinaryBuilder_bake_symbol_location b) (bb_defs b) 0 = Some (defs, k)"
    and bin: "bm_symbol_defs bin = BinaryBuilder_bake_symbol_defs darwin defs"
    and unwind: "for_each (bb_unwind_info b) (BinaryBuilder_bake_frame defs) [] = Some (bm_unwind_info bin)"
    and baked: "\<exists>uses. SectionBuilder_bake defs (bb_text b) [] = Some (bm_text bin, uses)"
    using assms(1)
    by (auto simp: BinaryBuilder_create_module_def BinaryBuilder_bake_symbol_locations_def
        BinaryBuilder_bake_unwind_info_def Option.bind_eq_Some_conv)
  have len: "length defs = length (bb_defs b)" by (rule length_map_each [OF bake])
  have each: "signature (defs ! i) = signature (bb_defs b ! i) \<and>
       (\<forall>p. placed (slice_sizes (bb_text b)) (bb_defs b ! i) p \<longrightarrow>
          def_kind (bb_defs b ! i) \<in> {TEXT_FUNC, TEXT_LABEL} \<longrightarrow>
          def_bin_offset (defs ! i) = of_nat p)" if i: "i < length defs" for i
  proof -
    obtain t t' where "BinaryBuilder_bake_symbol_location b (bb_defs b ! i) t = Some (defs ! i, t')"
      using map_each_nth [OF bake, of i] i len by auto
    then show ?thesis
      using bake_symbol_location_Some bake_symbol_location_placed assms(2) by blast
  qed
  show ?thesis using len each bin unwind bake_result baked by blast
qed

lemma baked_func_symbol:
  assumes "i < length defs" and "signature (defs ! i) = (name, TEXT_FUNC, True)"
  shows "\<lparr>bsd_name = (if darwin then ''_'' else '''') @ name, bsd_kind = TEXT_FUNC,
          bsd_offset = def_bin_offset (defs ! i), bsd_global = True\<rparr>
         \<in> set (BinaryBuilder_bake_symbol_defs darwin defs)"
proof -
  have "defs ! i \<in> set (filter (\<lambda>def. def_kind def \<noteq> TEXT_LABEL) defs)"
    using assms by (simp add: signature_def)
  then show ?thesis
    unfolding BinaryBuilder_bake_symbol_defs_def set_map
    using assms(2) by (intro image_eqI [of _ _ "defs ! i"]) (auto simp: signature_def)
qed

context target_encoder begin

lemma encode_partition:
  assumes "BinaryBuilder_encode encode_instr Some resolve_internal_symbols darwin m = Some bin"
  shows "\<exists>ps. length ps = Suc (length (mod_functions m)) \<and> sorted ps \<and> hd ps = 0 \<and>
    last ps = length (buf_data (bm_text bin)) \<and>
    length (bm_unwind_info bin) = length (mod_functions m) \<and>
    (\<forall>k < length (mod_functions m).
       bui_start_addr (bm_unwind_info bin ! k) = of_nat (ps ! k) \<and>
       bui_end_addr (bm_unwind_info bin ! k) = of_nat (ps ! Suc k) \<and>
       \<lparr>bsd_name = (if darwin then ''_'' else '''') @ func_name (mod_functions m ! k),
        bsd_kind = TEXT_FUNC, bsd_offset = of_nat (ps ! k), bsd_global = True\<rparr>
          \<in> set (bm_symbol_defs bin))"
proof -
  let ?fs = "mod_functions m"
  define n where "n = length (bb_defs (BinaryBuilder_generate_external_symbols m BinaryBuilder_new))"
  obtain b1 b2 n' b3 b5 where
    data: "BinaryBuilder_generate_data_slices m (BinaryBuilder_declare m BinaryBuilder_new) = Some b1"
    and addr: "BinaryBuilder_generate_addr_table_slices m b1 = Some b2"
    and funs: "for_each ?fs (BinaryBuilder_encode_function encode_instr) (n, b2) = Some (n', b3)"
    and resolve: "resolve_internal_symbols (BinaryBuilder_compute_slice_offsets b3) = Some b5"
    and create: "BinaryBuilder_create_module darwin b5 = Some bin"
    using assms by (auto simp: BinaryBuilder_encode_def Option.bind_eq_Some_conv n_def)
  have start: "bb_text b2 = SectionBuilder_new Section_TEXT" "bb_unwind_info b2 = []"
    and named2: "functions_named (bb_defs b2) n ?fs"
    using declared_module [OF data addr] by (simp_all add: n_def)
  have ne: "sect_slices (bb_text b2) \<noteq> []" by (simp add: start SectionBuilder_new_def)
  note s = encode_functions_step [OF funs ne]
  let ?sizes = "slice_sizes (bb_text b3)"
  have total0: "sum_list (slice_sizes (bb_text b2)) = 0"
    by (simp add: start SectionBuilder_new_def slice_sizes_def slice_size_def SectionSlice_new_def)
  obtain us where us: "bb_unwind_info b3 = us" "map frame_pair us = frame_indices n ?fs"
    using s start(2) by auto
  have named3: "functions_named (bb_defs b3) n ?fs"
    by (rule functions_named_mono [OF named2]) (use s in \<open>auto simp: encoding_step_def\<close>)
  obtain ps where ps: "length ps = Suc (length ?fs)" "sorted ps" "hd ps = 0" "last ps = sum_list ?sizes"
    and at: "\<And>k. k < length ?fs \<Longrightarrow>
      fst (frame_indices n ?fs ! k) < length (bb_defs b3) \<and> snd (frame_indices n ?fs ! k) < length (bb_defs b3) \<and>
      placed ?sizes (bb_defs b3 ! fst (frame_indices n ?fs ! k)) (ps ! k) \<and>
      placed ?sizes (bb_defs b3 ! snd (frame_indices n ?fs ! k)) (ps ! Suc k)"
    using functions_at_boundaries s total0 by metis
  have b5: "bb_defs b5 = bb_defs b3" "bb_unwind_info b5 = us" "slice_sizes (bb_text b5) = ?sizes"
    using resolve_keeps [OF resolve] us(1) slice_sizes_compute [of "bb_text b3"]
    by (simp_all add: slice_sizes_def BinaryBuilder_compute_slice_offsets_def)
  have offsets: "offsets_computed (bb_text b5)"
    using resolve_keeps [OF resolve]
      offsets_computed_cong [of "SectionBuilder_compute_slice_offsets (bb_text b3)" "bb_text b5"]
    by (simp add: slice_sizes_def BinaryBuilder_compute_slice_offsets_def offsets_computed_compute)
  obtain defs where len: "length defs = length (bb_defs b3)"
    and sig: "\<And>i. i < length defs \<Longrightarrow> signature (defs ! i) = signature (bb_defs b3 ! i)"
    and off: "\<And>i p. i < length defs \<Longrightarrow> placed ?sizes (bb_defs b3 ! i) p \<Longrightarrow>
      def_kind (bb_defs b3 ! i) \<in> {TEXT_FUNC, TEXT_LABEL} \<Longrightarrow> def_bin_offset (defs ! i) = of_nat p"
    and symbols: "bm_symbol_defs bin = BinaryBuilder_bake_symbol_defs darwin defs"
    and bytes: "buf_data (bm_text bin) = section_bytes (bb_text b5)"
    and unwind: "for_each us (BinaryBuilder_bake_frame defs) [] = Some (bm_unwind_info bin)"
    using create_module_result [OF create offsets] unfolding b5 by metis
  have lus: "length us = length ?fs" using us(2) by (metis length_frame_indices length_map)
  have pair: "frame_indices n ?fs ! k = (ui_start_symbol_index (us ! k), ui_end_symbol_index (us ! k))"
    if "k < length ?fs" for k
    using that lus by (simp flip: us(2) add: frame_pair_def)
  obtain vs where vs: "bm_unwind_info bin = vs" "length vs = length us"
    "\<And>k. k < length us \<Longrightarrow>
       bui_start_addr (vs ! k) = def_bin_offset (defs ! ui_start_symbol_index (us ! k)) \<and>
       bui_end_addr (vs ! k) = def_bin_offset (defs ! ui_end_symbol_index (us ! k))"
    using bake_frames [OF unwind] by auto
  have "bui_start_addr (vs ! k) = of_nat (ps ! k) \<and> bui_end_addr (vs ! k) = of_nat (ps ! Suc k) \<and>
      \<lparr>bsd_name = (if darwin then ''_'' else '''') @ func_name (?fs ! k),
       bsd_kind = TEXT_FUNC, bsd_offset = of_nat (ps ! k), bsd_global = True\<rparr>
         \<in> set (bm_symbol_defs bin)" if k: "k < length ?fs" for k
  proof -
    let ?i = "ui_start_symbol_index (us ! k)" and ?j = "ui_end_symbol_index (us ! k)"
    have named: "signature (bb_defs b3 ! ?i) = (func_name (?fs ! k), TEXT_FUNC, True)"
      "def_kind (bb_defs b3 ! ?j) = TEXT_LABEL"
      using functions_named_nth [OF named3 k] pair [OF k] by auto
    have pos: "?i < length defs" "?j < length defs" "placed ?sizes (bb_defs b3 ! ?i) (ps ! k)"
      "placed ?sizes (bb_defs b3 ! ?j) (ps ! Suc k)"
      using at [OF k] pair [OF k] len by auto
    have "def_bin_offset (defs ! ?i) = of_nat (ps ! k)" "def_bin_offset (defs ! ?j) = of_nat (ps ! Suc k)"
      using off [OF pos(1,3)] off [OF pos(2,4)] named by (simp_all add: signature_def)
    then show ?thesis
      using vs(3) [of k] k lus baked_func_symbol [OF pos(1), of "func_name (?fs ! k)" darwin]
        named(1) sig [OF pos(1)] symbols by simp
  qed
  moreover have "last ps = length (buf_data (bm_text bin))"
    using ps(4) bytes b5(3) by (simp add: length_section_bytes)
  ultimately show ?thesis
    using ps(1-3) vs(1,2) lus by (intro exI [of _ ps] conjI allI impI) simp_all
qed

end

section \<open>The data of globals\<close>

text \<open>The data section is one slice whose buffer is at its end.\<close>

definition single_slice :: "section_builder \<Rightarrow> bool" where
  "single_slice s \<longleftrightarrow> (\<exists>sl. sect_slices s = [sl] \<and> at_end (slice_buffer sl))"

lemma single_slice_new: "single_slice (SectionBuilder_new kind)"
  by (simp add: single_slice_def SectionBuilder_new_def SectionSlice_new_def)

lemma single_slice_size:
  "single_slice s \<Longrightarrow> SectionBuilder_cur_size s = length (section_bytes s)"
  by (auto simp: single_slice_def SectionBuilder_cur_size_def SectionBuilder_cur_slice_def
      WriteBuffer_get_size_def section_bytes_def)

lemma single_slice_store:
  assumes "single_slice s"
  shows "single_slice (SectionBuilder_write (\<lambda>w. WriteBuffer_store w bytes) s)"
    and "section_bytes (SectionBuilder_write (\<lambda>w. WriteBuffer_store w bytes) s) =
           section_bytes s @ bytes"
  using assms
  by (auto simp: single_slice_def SectionBuilder_write_def SectionBuilder_update_slice_def
      section_bytes_def)

lemma single_slice_use:
  assumes "single_slice s"
  shows "single_slice (SectionBuilder_add_symbol_use i kind a s)"
    and "section_bytes (SectionBuilder_add_symbol_use i kind a s) = section_bytes s"
  using assms
  by (auto simp: single_slice_def SectionBuilder_add_symbol_use_def SectionBuilder_update_slice_def
      section_bytes_def)

lemma single_slice_zeroes:
  assumes "single_slice s"
  shows "SectionBuilder_write_zeroes n s =
         Some (SectionBuilder_write (\<lambda>w. WriteBuffer_store w (replicate n 0)) s)"
  using assms
  by (auto simp: single_slice_def SectionBuilder_write_zeroes_def SectionBuilder_cur_slice_def
      SectionBuilder_write_def SectionBuilder_update_slice_def write_zeroes_at_end)

text \<open>The alignment loop ends, with fewer zero bytes than the alignment.\<close>

lemma align_data_loop_result:
  assumes "single_slice s" and "0 < alignment"
  shows "\<exists>s' k. align_data_loop alignment s = Some s' \<and> single_slice s' \<and> k < alignment \<and>
           section_bytes s' = section_bytes s @ replicate k 0 \<and>
           length (section_bytes s') mod alignment = 0"
  using assms(1)
proof (induction "(alignment - length (section_bytes s) mod alignment) mod alignment"
    arbitrary: s rule: less_induct)
  case less
  let ?n = "length (section_bytes s)"
  show ?case
  proof (cases "?n mod alignment = 0")
    case True
    then have "align_data_loop alignment s = Some s"
      by (subst align_data_loop.simps) (simp add: single_slice_size [OF less.prems])
    then show ?thesis
      using True less.prems assms(2) by (intro exI [of _ s] exI [of _ 0]) simp
  next
    case False
    let ?s = "SectionBuilder_write (\<lambda>w. WriteBuffer_store w [0]) s"
    have s: "single_slice ?s" "section_bytes ?s = section_bytes s @ [0]"
      using single_slice_store [OF less.prems] by auto
    have step: "align_data_loop alignment s = align_data_loop alignment ?s"
      using False by (subst align_data_loop.simps)
        (simp add: single_slice_size [OF less.prems] write_simps)
    have small: "?n mod alignment < alignment" using assms(2) by simp
    have suc: "(?n + 1) mod alignment = (if ?n mod alignment + 1 = alignment then 0 else ?n mod alignment + 1)"
      using small by (metis Suc_eq_plus1 mod_Suc)
    have "(alignment - length (section_bytes ?s) mod alignment) mod alignment <
          (alignment - ?n mod alignment) mod alignment"
      using s(2) suc small False by (auto simp: mod_less)
    then obtain s' k where ih: "align_data_loop alignment ?s = Some s'" "single_slice s'"
      "section_bytes s' = section_bytes ?s @ replicate k 0"
      "length (section_bytes s') mod alignment = 0" "k < alignment"
      using less.hyps [of ?s, OF _ s(1)] by auto
    have bytes: "section_bytes s' = section_bytes s @ replicate (Suc k) 0" using ih(3) s(2) by simp
    have "Suc k < alignment"
    proof (rule ccontr)
      assume "\<not> Suc k < alignment"
      then have "Suc k = alignment" using ih(5) by simp
      then have "length (section_bytes s') mod alignment = ?n mod alignment"
        using bytes by (metis length_append length_replicate mod_add_self2)
      then show False using ih(4) False by simp
    qed
    then show ?thesis using ih(1,2,4) step bytes by auto
  qed
qed

text \<open>The bytes that a global occupies.\<close>

definition global_payload :: "m_global \<Rightarrow> u8 list" where
  "global_payload g =
     (case global_init g of
        Global_Integer v \<Rightarrow> le_bytes (unat (global_size g)) (LargeInt_to_bits v)
      | Global_FloatingPoint d \<Rightarrow>
          if global_size g = 4 then le_bytes 4 (float_of_double d) else le_bytes 8 d
      | Global_Bytes bytes \<Rightarrow> bytes
      | Global_String str \<Rightarrow> bytes_of_string str
      | Global_SymbolRef name \<Rightarrow> replicate 8 0
      | Global_None \<Rightarrow> replicate (unat (global_size g)) 0)"

lemma le_value_inj: "length xs = length ys \<Longrightarrow> le_value xs = le_value ys \<Longrightarrow> xs = ys"
proof (induction xs ys rule: list_induct2)
  case Nil
  then show ?case by simp
next
  case (Cons x xs y ys)
  have "unat x < 256" "unat y < 256"
    using unsigned_less [where 'a=nat, of x] unsigned_less [where 'a=nat, of y] by auto
  moreover have "unat x + 256 * le_value xs = unat y + 256 * le_value ys" using Cons.prems by simp
  moreover from calculation have "le_value xs = le_value ys" by linarith
  ultimately have "unat x = unat y" "le_value xs = le_value ys" by simp_all
  then show ?case using Cons.IH by (simp add: word_unat_eq_iff)
qed

lemma le_bytes_ucast:
  assumes "8 * n \<le> LENGTH('b)"
  shows "le_bytes n (ucast (w :: 'a::len word) :: 'b::len word) = le_bytes n w"
proof (rule le_value_inj)
  have "(256 :: nat) ^ n = 2 ^ (8 * n)" by (simp add: power_mult)
  then have "(256 :: nat) ^ n dvd 2 ^ LENGTH('b)" using assms by (simp add: le_imp_power_dvd)
  then show "le_value (le_bytes n (ucast w :: 'b word)) = le_value (le_bytes n w)"
    by (simp add: le_value_le_bytes unsigned_ucast_eq take_bit_eq_mod mod_mod_cancel)
qed simp

lemma le_value_zeroes: "le_value (replicate n 0) = 0"
  by (induction n) simp_all

lemma le_bytes_0: "le_bytes n (0 :: 'a::len word) = replicate n 0"
  by (rule le_value_inj) (simp_all add: le_value_le_bytes le_value_zeroes)

lemma write_global_payload:
  assumes "BinaryBuilder_write_global indices g s = Some s'" and "single_slice s"
  shows "single_slice s' \<and> section_bytes s' = section_bytes s @ global_payload g"
proof (cases "global_init g")
  case (Global_Integer v)
  have "8 * 1 \<le> LENGTH(8)" "8 * 2 \<le> LENGTH(16)" "8 * 4 \<le> LENGTH(32)" by simp_all
  then show ?thesis
    using assms Global_Integer le_bytes_ucast [where 'b=8 and n=1 and w="LargeInt_to_bits v"]
      le_bytes_ucast [where 'b=16 and n=2 and w="LargeInt_to_bits v"]
      le_bytes_ucast [where 'b=32 and n=4 and w="LargeInt_to_bits v"]
    by (auto simp: BinaryBuilder_write_global_def BinaryBuilder_write_integer_def Let_def write_simps
        global_payload_def single_slice_store split: if_splits)
qed (use assms in \<open>auto simp: BinaryBuilder_write_global_def BinaryBuilder_write_floating_point_def
    write_simps global_payload_def single_slice_store single_slice_use single_slice_zeroes le_bytes_0
    Option.bind_eq_Some_conv split: if_splits\<close>)

section \<open>Symbol indices\<close>

lemma nth_filter_position:
  "i < length xs \<Longrightarrow> P (xs ! i) \<Longrightarrow>
   length (filter P (take i xs)) < length (filter P xs) \<and>
   filter P xs ! length (filter P (take i xs)) = xs ! i"
proof (induction xs arbitrary: i)
  case Nil
  then show ?case by simp
next
  case (Cons x xs)
  then show ?case by (cases i) auto
qed

lemma bake_symbol_locations_index:
  assumes "map_each (BinaryBuilder_bake_symbol_location b) ds k = Some (ds', k')"
  shows "map signature ds' = map signature ds \<and>
    (\<forall>i < length ds. def_kind (ds ! i) \<noteq> TEXT_LABEL \<longrightarrow>
       def_bin_index (ds' ! i) =
         k + of_nat (length (filter (\<lambda>d. def_kind d \<noteq> TEXT_LABEL) (take i ds))))"
  using assms
proof (induction ds arbitrary: k ds')
  case Nil
  then show ?case by simp
next
  case (Cons d ds)
  obtain d' k1 ds1 where first: "BinaryBuilder_bake_symbol_location b d k = Some (d', k1)"
    and rest: "map_each (BinaryBuilder_bake_symbol_location b) ds k1 = Some (ds1, k')"
    and ds': "ds' = d' # ds1"
    using Cons.prems by (auto simp: Option.bind_eq_Some_conv)
  note one = bake_symbol_location_Some [OF first]
  note ih = Cons.IH [OF rest]
  have "def_bin_index (ds' ! i) =
      k + of_nat (length (filter (\<lambda>d. def_kind d \<noteq> TEXT_LABEL) (take i (d # ds))))"
    if "i < length (d # ds)" "def_kind ((d # ds) ! i) \<noteq> TEXT_LABEL" for i
    using that ih one ds' by (cases i) (auto simp: add.commute add.left_commute)
  then show ?case using ih one ds' by auto
qed

lemma filter_signature:
  assumes "map signature ds' = map signature ds"
  shows "map signature (filter (\<lambda>d. def_kind d \<noteq> TEXT_LABEL) ds') =
         map signature (filter (\<lambda>d. def_kind d \<noteq> TEXT_LABEL) ds)"
proof -
  have "map signature (filter (\<lambda>d. def_kind d \<noteq> TEXT_LABEL) es) =
      filter (\<lambda>s. fst (snd s) \<noteq> TEXT_LABEL) (map signature es)" for es
    by (simp add: filter_map comp_def signature_def)
  then show ?thesis using assms by simp
qed

section \<open>Properties\<close>

text \<open>
  C7: Baking a section whose bytes fit in the 32-bit positions of a buffer concatenates the bytes of its
  slices and lists every use that is not resolved yet, in order, at the offset of its slice plus its
  offset in the slice; with the offsets that \<open>compute_slice_offsets\<close> assigns, a slice begins where the
  slices before it end.
\<close>

theorem SectionBuilder_bake_concatenates:
  assumes "SectionBuilder_bake defs (SectionBuilder_compute_slice_offsets s) out_uses = Some (buffer, uses)"
    and "length (section_bytes s) < 2 ^ 32"
  shows "buf_data buffer = section_bytes s \<and> buf_position buffer = length (section_bytes s) \<and>
         uses = out_uses @ baked_uses defs (SectionBuilder_compute_slice_offsets s) \<and>
         (\<forall>i < length (sect_slices s).
            unat (slice_offset (sect_slices (SectionBuilder_compute_slice_offsets s) ! i)) =
              length (concat (map (buf_data \<circ> slice_buffer) (take i (sect_slices s)))))"
proof -
  have bytes: "section_bytes (SectionBuilder_compute_slice_offsets s) = section_bytes s"
    by (simp add: section_bytes_def SectionBuilder_compute_slice_offsets_def
        map_compute_slice_offsets_loop)
  have "unat (slice_offset (sect_slices (SectionBuilder_compute_slice_offsets s) ! i)) =
      length (concat (map (buf_data \<circ> slice_buffer) (take i (sect_slices s))))"
    if "i < length (sect_slices s)" for i
  proof -
    let ?before = "concat (map (buf_data \<circ> slice_buffer) (take i (sect_slices s)))"
    have "section_bytes s = ?before @ concat (map (buf_data \<circ> slice_buffer) (drop i (sect_slices s)))"
      by (simp add: section_bytes_def flip: concat_append map_append)
    then have "length ?before < 2 ^ 32"
      using assms(2) by simp
    then show ?thesis
      using that by (simp add: SectionBuilder_compute_slice_offsets_def compute_slice_offsets_loop_nth
          length_concat comp_def slice_size_def [abs_def] take_map unat_of_nat take_bit_nat_eq_self)
  qed
  then show ?thesis
    using bake_result [OF assms(1)] bake_at_end [OF assms(1)] bytes by (simp add: at_end_def)
qed

text \<open>Three slices, with a use in the first and the last of them and a resolved one in between.\<close>

definition three_slices :: section_builder where
  "three_slices = \<lparr>sect_kind = Section_TEXT, sect_slices =
     [SectionSlice_new\<lparr>slice_buffer := \<lparr>buf_data = [1, 2], buf_position = 2\<rparr>, slice_uses :=
        [\<lparr>use_index = 1, use_local_offset = 1, use_kind = REL32, use_addend = 3, use_is_resolved = False\<rparr>]\<rparr>,
      SectionSlice_new\<lparr>slice_buffer := \<lparr>buf_data = [3], buf_position = 1\<rparr>, slice_uses :=
        [\<lparr>use_index = 0, use_local_offset = 0, use_kind = REL32, use_addend = 0, use_is_resolved = True\<rparr>]\<rparr>,
      SectionSlice_new\<lparr>slice_buffer := \<lparr>buf_data = [4, 5], buf_position = 2\<rparr>, slice_uses :=
        [\<lparr>use_index = 0, use_local_offset = 1, use_kind = ABS64, use_addend = 0, use_is_resolved = False\<rparr>]\<rparr>]\<rparr>"

definition two_defs :: "symbol_def list" where
  "two_defs = [(SymbolDef_make ''f'' TEXT_FUNC True 0 0)\<lparr>def_bin_index := 7\<rparr>,
               (SymbolDef_make ''g'' TEXT_FUNC True 2 0)\<lparr>def_bin_index := 8\<rparr>]"

theorem SectionBuilder_bake_concatenates_witness:
  "\<exists>buffer uses. SectionBuilder_bake two_defs (SectionBuilder_compute_slice_offsets three_slices) [] = Some (buffer, uses) \<and>
     buf_data buffer = [1, 2, 3, 4, 5] \<and> map bsu_address uses = [1, 4] \<and> map bsu_symbol_index uses = [8, 7] \<and>
     map bsu_addend uses = [3, 0]"
proof -
  have "\<exists>r. SectionBuilder_bake two_defs (SectionBuilder_compute_slice_offsets three_slices) [] = Some r"
    by (simp add: SectionBuilder_bake_def three_slices_def two_defs_def SectionBuilder_compute_slice_offsets_def
        SectionSlice_new_def SectionBuilder_bake_slice_def SectionBuilder_bake_use_def)
  then obtain buffer uses where
    baked: "SectionBuilder_bake two_defs (SectionBuilder_compute_slice_offsets three_slices) [] = Some (buffer, uses)"
    by fastforce
  have "buf_data buffer = section_bytes three_slices \<and>
      uses = [] @ baked_uses two_defs (SectionBuilder_compute_slice_offsets three_slices)"
    using SectionBuilder_bake_concatenates [OF baked] by (simp add: section_bytes_def three_slices_def)
  then show ?thesis
    using baked by (simp add: section_bytes_def three_slices_def two_defs_def baked_uses_def baked_use_def
        SectionBuilder_compute_slice_offsets_def SectionSlice_new_def WriteBuffer_get_size_def)
qed

text \<open>
  A relocation names the right symbol: the index that a symbol which is not a label gets
  is its place in the symbol list of the module, so the entry there has its name, kind and
  visibility, for modules below \<open>2 ^ 32\<close> symbols.
\<close>

theorem BinaryBuilder_symbol_indices:
  assumes "BinaryBuilder_bake_symbol_locations b = Some b'"
    and "i < length (bb_defs b)" and "def_kind (bb_defs b ! i) \<noteq> TEXT_LABEL"
    and "length (bb_defs b) < 2 ^ 32"
  shows "\<exists>sym. unat (def_bin_index (bb_defs b' ! i)) <
             length (BinaryBuilder_bake_symbol_defs darwin (bb_defs b')) \<and>
           sym = BinaryBuilder_bake_symbol_defs darwin (bb_defs b') !
             unat (def_bin_index (bb_defs b' ! i)) \<and>
           bsd_name sym = (if darwin then ''_'' else '''') @ def_name (bb_defs b ! i) \<and>
           bsd_kind sym = def_kind (bb_defs b ! i) \<and> bsd_global sym = def_global (bb_defs b ! i) \<and>
           bsd_offset sym = def_bin_offset (bb_defs b' ! i)"
proof -
  let ?P = "\<lambda>d. def_kind d \<noteq> TEXT_LABEL"
  obtain k where each: "map_each (BinaryBuilder_bake_symbol_location b) (bb_defs b) 0 = Some (bb_defs b', k)"
    using assms(1) by (auto simp: BinaryBuilder_bake_symbol_locations_def Option.bind_eq_Some_conv)
  let ?j = "length (filter ?P (take i (bb_defs b)))"
  have sig: "map signature (bb_defs b') = map signature (bb_defs b)"
    and index: "def_bin_index (bb_defs b' ! i) = of_nat ?j"
    using bake_symbol_locations_index [OF each] assms(2,3) by auto
  have len: "length (bb_defs b') = length (bb_defs b)" using sig by (metis length_map)
  have sigi: "signature (bb_defs b' ! i) = signature (bb_defs b ! i)"
    using sig assms(2) len by (metis nth_map)
  have "?j \<le> i" using length_filter_le [of ?P "take i (bb_defs b)"] by simp
  then have "?j < 2 ^ 32" using assms(2,4) by simp
  then have j: "unat (def_bin_index (bb_defs b' ! i)) = ?j"
    by (simp add: index unat_of_nat take_bit_nat_eq_self)
  have "map signature (take i (bb_defs b')) = map signature (take i (bb_defs b))"
    using sig by (simp add: take_map [symmetric])
  then have "?j = length (filter ?P (take i (bb_defs b')))"
    using filter_signature by (metis length_map)
  moreover have "?P (bb_defs b' ! i)" using assms(3) sigi by (simp add: signature_def)
  ultimately have "?j < length (filter ?P (bb_defs b'))"
    "filter ?P (bb_defs b') ! ?j = bb_defs b' ! i"
    using nth_filter_position [of i "bb_defs b'" ?P] assms(2) len by auto
  then show ?thesis
    using sigi by (simp add: j BinaryBuilder_bake_symbol_defs_def signature_def)
qed

theorem BinaryBuilder_symbol_indices_witness:
  "\<exists>b b'. BinaryBuilder_bake_symbol_locations b = Some b' \<and>
     bsd_name (BinaryBuilder_bake_symbol_defs False (bb_defs b') !
       unat (def_bin_index (bb_defs b' ! 1))) = ''puts''"
proof -
  define b where "b = BinaryBuilder_add_symbol_def (SymbolDef_make ''puts'' UNKNOWN True 0 0)
    (BinaryBuilder_add_label_symbol ''loop'' BinaryBuilder_new)"
  have "\<exists>b'. BinaryBuilder_bake_symbol_locations b = Some b'"
    by (simp add: b_def BinaryBuilder_bake_symbol_locations_def BinaryBuilder_bake_symbol_location_def
        BinaryBuilder_add_symbol_def_def BinaryBuilder_add_label_symbol_def SymbolDef_make_def
        SectionBuilder_add_symbol_def_def BinaryBuilder_new_def SectionBuilder_new_def Let_def)
  then obtain b' where b': "BinaryBuilder_bake_symbol_locations b = Some b'" by blast
  have "bb_defs b ! 1 = SymbolDef_make ''puts'' UNKNOWN True 0 0" "length (bb_defs b) = 2"
    by (simp_all add: b_def BinaryBuilder_add_symbol_def_def BinaryBuilder_add_label_symbol_def
        SectionBuilder_add_symbol_def_def BinaryBuilder_new_def)
  then show ?thesis
    using BinaryBuilder_symbol_indices [OF b', of 1 False] b' by (auto simp: SymbolDef_make_def)
qed

text \<open>
  The data of a global: with a nonzero alignment the loop that pads the data section ends,
  the symbol is defined at an offset that is a multiple of the alignment and fewer than that
  many zero bytes behind the old end, and the bytes there are the little-endian value, the
  bytes of the initialiser, or zeros, followed by nothing else.
\<close>

theorem BinaryBuilder_global_data:
  assumes "BinaryBuilder_generate_data_slice m g b = Some b'" and "single_slice (bb_data b)"
  shows "\<exists>k. k < unat (global_alignment g) \<and>
           section_bytes (bb_data b') =
             section_bytes (bb_data b) @ replicate k 0 @ global_payload g \<and>
           (length (section_bytes (bb_data b)) + k) mod unat (global_alignment g) = 0 \<and>
           bb_defs b' = bb_defs b @ [SymbolDef_make (global_name g) DATA_LABEL
             (global_name g \<in> set (mod_global_symbols m)) 0
             (of_nat (length (section_bytes (bb_data b)) + k))] \<and>
           single_slice (bb_data b')"
proof -
  have a: "0 < unat (global_alignment g)"
    using assms(1)
    by (auto simp: BinaryBuilder_generate_data_slice_def Option.bind_eq_Some_conv unat_gt_0)
  obtain s k where s: "align_data_loop (unat (global_alignment g)) (bb_data b) = Some s" "single_slice s"
    "k < unat (global_alignment g)" "section_bytes s = section_bytes (bb_data b) @ replicate k 0"
    "length (section_bytes s) mod unat (global_alignment g) = 0"
    using align_data_loop_result [OF assms(2) a] by auto
  obtain indices data where "BinaryBuilder_write_global indices g s = Some data"
    and b': "bb_data b' = data" "bb_defs b' = bb_defs b @ [SymbolDef_make (global_name g) DATA_LABEL
      (global_name g \<in> set (mod_global_symbols m)) (length (sect_slices s) - 1)
      (of_nat (SectionBuilder_cur_size s))]"
    using assms(1) s(1)
    by (auto simp: BinaryBuilder_generate_data_slice_def Option.bind_eq_Some_conv Let_def
        SectionBuilder_add_symbol_def_def BinaryBuilder_add_symbol_def_def)
  then have "single_slice data" "section_bytes data = section_bytes s @ global_payload g"
    using write_global_payload s(2) by blast+
  moreover have "length (sect_slices s) = 1" using s(2) by (auto simp: single_slice_def)
  ultimately show ?thesis
    using s b' single_slice_size [OF s(2)] by (intro exI [of _ k]) simp
qed

theorem BinaryBuilder_global_data_witness:
  "\<exists>m g b b'. BinaryBuilder_generate_data_slice m g b = Some b' \<and>
     section_bytes (bb_data b') = [7, 0, 0x34, 0x12]"
proof -
  define m where "m = \<lparr>mod_functions = [], mod_globals = [], mod_external_symbols = [],
    mod_global_symbols = [], mod_dll_exports = [], mod_addr_table = None\<rparr>"
  define g where "g = \<lparr>global_name = ''g'', global_size = 2, global_alignment = 2,
    global_init = Global_Integer (LargeInt_of_unsigned_long 0x1234)\<rparr>"
  define b where "b = BinaryBuilder_new\<lparr>bb_data := SectionBuilder_write (\<lambda>w. WriteBuffer_store w [7])
    (SectionBuilder_new Section_DATA)\<rparr>"
  have s: "single_slice (bb_data b)" "section_bytes (bb_data b) = [7]"
    using single_slice_store [OF single_slice_new [of Section_DATA], of "[7]"]
    by (simp_all add: b_def section_bytes_def SectionBuilder_new_def SectionSlice_new_def)
  then obtain s' where "align_data_loop 2 (bb_data b) = Some s'"
    using align_data_loop_result [of "bb_data b" 2] by auto
  then obtain b' where b': "BinaryBuilder_generate_data_slice m g b = Some b'"
    by (auto simp: BinaryBuilder_generate_data_slice_def g_def BinaryBuilder_write_global_def
        BinaryBuilder_write_integer_def Let_def)
  obtain k where k: "k < 2" "section_bytes (bb_data b') = [7] @ replicate k 0 @ global_payload g"
    "(1 + k) mod 2 = 0"
    using BinaryBuilder_global_data [OF b' s(1)] s(2) by (auto simp: g_def)
  have "k = 1" using k(1,3) by (cases k) auto
  moreover have "global_payload g = [0x34, 0x12]"
    by (simp add: g_def global_payload_def LargeInt_of_unsigned_long_def LargeInt_to_bits_def le_bytes_u16)
  ultimately have "section_bytes (bb_data b') = [7, 0, 0x34, 0x12]" using k(2) by simp
  then show ?thesis using b' by blast
qed

end
