(* ===== verification/AArch64_Encoder.thy ===== *)
theory AArch64_Encoder
  imports Binary_Layout
begin

section \<open>AArch64Encoder: from machine instructions to AArch64 words\<close>

text \<open>
  \<open>src/banjo/target/aarch64/aarch64_encoder.*\<close>: every \<open>encode_*\<close> member function, the families
  they share, the encodings of registers, immediates, addresses and conditions, and the
  resolution of branches inside the text. A function that writes takes the builder and returns
  it updated. \<open>cur_func\<close> is the function argument \<open>f\<close>; the enumerators of \<open>AArch64Register\<close> are
  their values (\<open>R0\<close> to \<open>R30\<close> are 0 to 30, \<open>V0\<close> to \<open>V30\<close> are 31 to 61, \<open>SP\<close> is 62).
\<close>

unbundle bit_operations_syntax

subsection \<open>Registers, immediates and conditions\<close>

definition AArch64_R30 :: u32 where "AArch64_R30 = 30"
definition AArch64_V0 :: u32 where "AArch64_V0 = 31"
definition AArch64_V30 :: u32 where "AArch64_V30 = 61"
definition AArch64_SP :: u32 where "AArch64_SP = 62"

lemmas aarch64_regs = AArch64_R30_def AArch64_V0_def AArch64_V30_def AArch64_SP_def

definition AArch64_is_gp_reg :: "u32 \<Rightarrow> bool" where
  "AArch64_is_gp_reg reg \<longleftrightarrow> reg \<le> AArch64_R30 \<or> reg = AArch64_SP"

definition AArch64_is_fp_reg :: "u32 \<Rightarrow> bool" where
  "AArch64_is_fp_reg reg \<longleftrightarrow> AArch64_V0 \<le> reg \<and> reg \<le> AArch64_V30"

definition AArch64_is_sp :: "u32 \<Rightarrow> bool" where
  "AArch64_is_sp reg \<longleftrightarrow> reg = AArch64_SP"

definition AArch64_encode_gp_reg :: "u32 \<Rightarrow> u32 option" where
  "AArch64_encode_gp_reg reg =
     (if reg \<le> AArch64_R30 then Some reg else if reg = AArch64_SP then Some 31 else None)"

definition AArch64_encode_fp_reg :: "u32 \<Rightarrow> u32 option" where
  "AArch64_encode_fp_reg reg =
     (if AArch64_V0 \<le> reg \<and> reg \<le> AArch64_V30 then Some (reg - AArch64_V0) else None)"

definition AArch64_encode_imm :: "large_int \<Rightarrow> nat \<Rightarrow> nat \<Rightarrow> u32 option" where
  "AArch64_encode_imm imm num_bits shift =
     do {
       let bits = LargeInt_to_bits imm;
       ASSERT (bits AND (push_bit shift 1 - 1) = 0);
       let mask = (ucast (push_bit num_bits 1 - 1 :: u64) :: u32);
       Some (ucast (drop_bit shift bits) AND mask)
     }"

definition AArch64_encode_f32_imm :: "u32 \<Rightarrow> u32 option" where
  "AArch64_encode_f32_imm bits =
     do {
       ASSERT (bits AND 0x0007FFFF = 0);
       let b_bits = drop_bit 25 (bits AND 0x7E000000);
       ASSERT (b_bits = 0x20 \<or> b_bits = 0x1F);
       Some (drop_bit 24 (bits AND 0x80000000) OR drop_bit 19 (bits AND 0x03F80000))
     }"

definition AArch64_encode_f64_imm :: "u64 \<Rightarrow> u32 option" where
  "AArch64_encode_f64_imm bits =
     do {
       ASSERT (bits AND 0x0000FFFFFFFFFFFF = 0);
       let b_bits = drop_bit 54 (bits AND 0x7FC0000000000000);
       ASSERT (b_bits = 0x100 \<or> b_bits = 0xFF);
       Some (ucast (drop_bit 56 (bits AND 0x8000000000000000) OR
                    drop_bit 48 (bits AND 0x007F000000000000)))
     }"

definition AArch64_encode_cond :: "aarch64_condition \<Rightarrow> u32" where
  "AArch64_encode_cond c =
     (case c of Cond_EQ \<Rightarrow> 0x0 | Cond_NE \<Rightarrow> 0x1 | Cond_HS \<Rightarrow> 0x2 | Cond_LO \<Rightarrow> 0x3 | Cond_HI \<Rightarrow> 0x8
      | Cond_LS \<Rightarrow> 0x9 | Cond_GE \<Rightarrow> 0xA | Cond_LT \<Rightarrow> 0xB | Cond_GT \<Rightarrow> 0xC | Cond_LE \<Rightarrow> 0xD)"

definition AArch64_lower_reloc :: "relocation \<Rightarrow> bin_symbol_use_kind option" where
  "AArch64_lower_reloc reloc =
     (case reloc of
        Reloc_ADR_PREL_PG_HI21 \<Rightarrow> Some ADR_PREL_PG_HI21
      | Reloc_ADD_ABS_LO12_NC \<Rightarrow> Some ADD_ABS_LO12_NC
      | Reloc_PAGE21 \<Rightarrow> Some PAGE21
      | Reloc_PAGEOFF12 \<Rightarrow> Some PAGEOFF12
      | Reloc_GOT_LOAD_PAGE21 \<Rightarrow> Some GOT_LOAD_PAGE21
      | Reloc_GOT_LOAD_PAGEOFF12 \<Rightarrow> Some GOT_LOAD_PAGEOFF12
      | Reloc_ADR_GOT_PAGE \<Rightarrow> Some ADR_GOT_PAGE
      | Reloc_LD64_GOT_LO12_NC \<Rightarrow> Some LD64_GOT_LO12_NC
      | _ \<Rightarrow> None)"

text \<open>A \<open>bool\<close> shifted to a bit of the instruction.\<close>

definition flag_bit :: "bool \<Rightarrow> nat \<Rightarrow> u32" where
  "flag_bit c n = push_bit n (of_bool c)"

subsection \<open>Operands\<close>

definition A64_gp :: "m_instr \<Rightarrow> nat \<Rightarrow> u32 option" where
  "A64_gp instr index =
     do {
       op \<leftarrow> Instruction_get_operand instr index;
       reg \<leftarrow> Operand_get_physical_reg op;
       AArch64_encode_gp_reg reg
     }"

definition A64_fp :: "m_instr \<Rightarrow> nat \<Rightarrow> u32 option" where
  "A64_fp instr index =
     do {
       op \<leftarrow> Instruction_get_operand instr index;
       reg \<leftarrow> Operand_get_physical_reg op;
       AArch64_encode_fp_reg reg
     }"

text \<open>\<open>get_operand(index).get_size() == 8\<close>.\<close>

definition A64_is_64 :: "m_instr \<Rightarrow> nat \<Rightarrow> bool option" where
  "A64_is_64 instr index =
     do {
       op \<leftarrow> Instruction_get_operand instr index;
       Some (op_size op = 8)
     }"

text \<open>\<open>text.write_u32\<close>.\<close>

definition text_write_u32 :: "u32 \<Rightarrow> binary_builder \<Rightarrow> binary_builder" where
  "text_write_u32 w b =
     b\<lparr>bb_text := SectionBuilder_write (\<lambda>buf. WriteBuffer_write_u32 buf w) (bb_text b)\<rparr>"

subsection \<open>Addresses\<close>

datatype a64_addressing_mode =
  Mode_OFFSET_CONST | Mode_OFFSET_REG | Mode_OFFSET_SYMBOL | Mode_POST_INDEX | Mode_PRE_INDEX

record a64_address =
  addr_mode :: a64_addressing_mode
  addr_base :: register
  addr_offset_const :: large_int
  addr_offset_reg :: reg_offset
  addr_offset_symbol :: m_symbol

definition A64_Address :: "a64_addressing_mode \<Rightarrow> register \<Rightarrow> a64_address" where
  "A64_Address mode base =
     \<lparr>addr_mode = mode, addr_base = base, addr_offset_const = LargeInt_of_int 0,
      addr_offset_reg = \<lparr>ro_reg = Register_from_virtual 0, ro_shift = 0\<rparr>,
      addr_offset_symbol = \<lparr>sym_name = '''', sym_reloc = Reloc_NONE\<rparr>\<rparr>"

definition AArch64_lower_addr ::
  "m_function \<Rightarrow> operand \<Rightarrow> operand option \<Rightarrow> a64_address option" where
  "AArch64_lower_addr f op post_operand =
     (case op_value op of
        Op_stack_slot slot_id \<Rightarrow>
          do {
            slot \<leftarrow> StackFrame_get_stack_slot (func_stack_frame f) slot_id;
            Some ((A64_Address Mode_OFFSET_CONST (Register_from_physical AArch64_SP))
              \<lparr>addr_offset_const := LargeInt_of_int (slot_offset slot)\<rparr>)
          }
      | Op_aarch64_addr addr \<Rightarrow>
          (case addr of
             AA_BASE base \<Rightarrow>
               (case post_operand of
                  Some post \<Rightarrow>
                    do {
                      offset \<leftarrow> Operand_get_int_immediate post;
                      Some ((A64_Address Mode_POST_INDEX base)\<lparr>addr_offset_const := offset\<rparr>)
                    }
                | None \<Rightarrow> Some (A64_Address Mode_OFFSET_CONST base))
           | AA_BASE_OFFSET_IMM base imm \<Rightarrow>
               do {
                 ASSERT (post_operand = None);
                 Some ((A64_Address Mode_OFFSET_CONST base)\<lparr>addr_offset_const := LargeInt_of_int imm\<rparr>)
               }
           | AA_BASE_OFFSET_IMM_WRITE base imm \<Rightarrow>
               do {
                 ASSERT (post_operand = None);
                 Some ((A64_Address Mode_PRE_INDEX base)\<lparr>addr_offset_const := LargeInt_of_int imm\<rparr>)
               }
           | AA_BASE_OFFSET_STACK_ADDR base stack_addr \<Rightarrow>
               do {
                 ASSERT (post_operand = None);
                 offset \<leftarrow> StackFrame_offset_of (func_stack_frame f) stack_addr;
                 Some ((A64_Address Mode_OFFSET_CONST base)
                   \<lparr>addr_offset_const := LargeInt_of_unsigned offset\<rparr>)
               }
           | AA_BASE_OFFSET_REG base offset \<Rightarrow>
               Some ((A64_Address Mode_OFFSET_REG base)\<lparr>addr_offset_reg := offset\<rparr>)
           | AA_BASE_OFFSET_SYMBOL base symbol \<Rightarrow>
               Some ((A64_Address Mode_OFFSET_SYMBOL base)\<lparr>addr_offset_symbol := symbol\<rparr>))
      | _ \<Rightarrow> None)"

definition AArch64_encode_addr ::
  "a64_address \<Rightarrow> nat \<Rightarrow> binary_builder \<Rightarrow> (u32 \<times> binary_builder) option" where
  "AArch64_encode_addr addr imm_shift b =
     do {
       r_base \<leftarrow> AArch64_encode_gp_reg (Register_get_physical_reg (addr_base addr));
       (case addr_mode addr of
          Mode_OFFSET_CONST \<Rightarrow>
            if \<not> LargeInt_less (addr_offset_const addr) (LargeInt_of_int 0) \<and>
               LargeInt_eq (LargeInt_and (addr_offset_const addr)
                              (LargeInt_of_int (push_bit imm_shift 1 - 1))) (LargeInt_of_int 0)
            then do {
              imm \<leftarrow> AArch64_encode_imm (addr_offset_const addr) 12 imm_shift;
              Some (0x01000000 OR push_bit 10 imm OR push_bit 5 r_base, b)
            }
            else do {
              imm \<leftarrow> AArch64_encode_imm (addr_offset_const addr) 9 0;
              Some (0x00000000 OR push_bit 12 imm OR push_bit 5 r_base, b)
            }
        | Mode_OFFSET_REG \<Rightarrow>
            do {
              r_off \<leftarrow> AArch64_encode_gp_reg (Register_get_physical_reg (ro_reg (addr_offset_reg addr)));
              let shift = (if ro_shift (addr_offset_reg addr) \<noteq> 0 then 1 else 0);
              Some (0x206800 OR push_bit 16 r_off OR push_bit 12 shift OR push_bit 5 r_base, b)
            }
        | Mode_OFFSET_SYMBOL \<Rightarrow>
            do {
              kind \<leftarrow> AArch64_lower_reloc (sym_reloc (addr_offset_symbol addr));
              b' \<leftarrow> BinaryBuilder_text_symbol_use (sym_name (addr_offset_symbol addr)) kind b;
              Some (0x01000000 OR push_bit 5 r_base, b')
            }
        | Mode_POST_INDEX \<Rightarrow>
            do {
              imm \<leftarrow> AArch64_encode_imm (addr_offset_const addr) 9 0;
              Some (0x00000400 OR push_bit 12 imm OR push_bit 5 r_base, b)
            }
        | Mode_PRE_INDEX \<Rightarrow>
            do {
              imm \<leftarrow> AArch64_encode_imm (addr_offset_const addr) 9 0;
              Some (0x00000C00 OR push_bit 12 imm OR push_bit 5 r_base, b)
            })
     }"

subsection \<open>Instruction families\<close>

definition AArch64_encode_movz_family ::
  "u32 \<Rightarrow> m_instr \<Rightarrow> binary_builder \<Rightarrow> binary_builder option" where
  "AArch64_encode_movz_family param instr b =
     do {
       m_src \<leftarrow> Instruction_get_operand instr 1;
       sf \<leftarrow> A64_is_64 instr 0;
       r_dst \<leftarrow> A64_gp instr 0;
       shift \<leftarrow> (case Instruction_try_get_operand instr 2 of
                  Some m_shift \<Rightarrow> Operand_get_aarch64_left_shift m_shift | None \<Rightarrow> Some 0);
       src \<leftarrow> Operand_get_int_immediate m_src;
       imm \<leftarrow> AArch64_encode_imm src 16 0;
       hw \<leftarrow> AArch64_encode_imm (LargeInt_of_unsigned shift) 2 4;
       Some (text_write_u32
         (param OR flag_bit sf 31 OR push_bit 21 hw OR push_bit 5 imm OR r_dst) b)
     }"

definition AArch64_encode_ldr_family ::
  "u32 \<Rightarrow> u32 \<Rightarrow> m_function \<Rightarrow> m_instr \<Rightarrow> binary_builder \<Rightarrow> binary_builder option" where
  "AArch64_encode_ldr_family param0 param1 f instr b =
     do {
       m_reg \<leftarrow> Instruction_get_operand instr 0;
       m_addr \<leftarrow> Instruction_get_operand instr 1;
       addr \<leftarrow> AArch64_lower_addr f m_addr (Instruction_try_get_operand instr 2);
       is_64 \<leftarrow> A64_is_64 instr 0;
       (addr_bits, b') \<leftarrow> AArch64_encode_addr addr (if is_64 then 3 else 2) b;
       reg \<leftarrow> Operand_get_physical_reg m_reg;
       (if AArch64_is_gp_reg reg then do {
          r_reg \<leftarrow> AArch64_encode_gp_reg reg;
          Some (text_write_u32 (param0 OR flag_bit is_64 30 OR addr_bits OR r_reg) b')
        }
        else if AArch64_is_fp_reg reg then do {
          r_reg \<leftarrow> AArch64_encode_fp_reg reg;
          Some (text_write_u32 (param1 OR flag_bit is_64 30 OR addr_bits OR r_reg) b')
        }
        else None)
     }"

definition AArch64_encode_ldrb_family ::
  "nat \<Rightarrow> u32 \<Rightarrow> m_function \<Rightarrow> m_instr \<Rightarrow> binary_builder \<Rightarrow> binary_builder option" where
  "AArch64_encode_ldrb_family imm_shift param1 f instr b =
     do {
       m_addr \<leftarrow> Instruction_get_operand instr 1;
       r_reg \<leftarrow> A64_gp instr 0;
       addr \<leftarrow> AArch64_lower_addr f m_addr (Instruction_try_get_operand instr 2);
       (addr_bits, b') \<leftarrow> AArch64_encode_addr addr imm_shift b;
       Some (text_write_u32 (param1 OR addr_bits OR r_reg) b')
     }"

definition AArch64_encode_ldp_family ::
  "u32 \<Rightarrow> u32 \<Rightarrow> m_function \<Rightarrow> m_instr \<Rightarrow> binary_builder \<Rightarrow> binary_builder option" where
  "AArch64_encode_ldp_family param0 param1 f instr b =
     do {
       m_dst \<leftarrow> Instruction_get_operand instr 2;
       sf \<leftarrow> A64_is_64 instr 0;
       let imm_shift = (if sf then 3 else 2);
       r_reg1 \<leftarrow> A64_gp instr 0;
       r_reg2 \<leftarrow> A64_gp instr 1;
       addr \<leftarrow> AArch64_lower_addr f m_dst (Instruction_try_get_operand instr 3);
       (if addr_mode addr = Mode_POST_INDEX then do {
          r_base \<leftarrow> AArch64_encode_gp_reg (Register_get_physical_reg (addr_base addr));
          imm \<leftarrow> AArch64_encode_imm (addr_offset_const addr) 7 imm_shift;
          Some (text_write_u32 (param0 OR flag_bit sf 31 OR push_bit 15 imm OR push_bit 10 r_reg2 OR
            push_bit 5 r_base OR r_reg1) b)
        }
        else if addr_mode addr = Mode_PRE_INDEX then do {
          r_base \<leftarrow> AArch64_encode_gp_reg (Register_get_physical_reg (addr_base addr));
          imm \<leftarrow> AArch64_encode_imm (addr_offset_const addr) 7 imm_shift;
          Some (text_write_u32 (param1 OR flag_bit sf 31 OR push_bit 15 imm OR push_bit 10 r_reg2 OR
            push_bit 5 r_base OR r_reg1) b)
        }
        else None)
     }"

text \<open>The shift operand of a shifted register, as six bits.\<close>

definition A64_shift_imm6 :: "m_instr \<Rightarrow> nat \<Rightarrow> u32 option" where
  "A64_shift_imm6 instr index =
     (case Instruction_try_get_operand instr index of
        Some m_shift \<Rightarrow>
          do {
            shift \<leftarrow> Operand_get_aarch64_left_shift m_shift;
            AArch64_encode_imm (LargeInt_of_unsigned shift) 6 0
          }
      | None \<Rightarrow> Some 0)"

definition AArch64_encode_add_family ::
  "u32 \<Rightarrow> u32 \<Rightarrow> u32 \<Rightarrow> m_function \<Rightarrow> m_instr \<Rightarrow> binary_builder \<Rightarrow> binary_builder option" where
  "AArch64_encode_add_family param0 param1 param2 f instr b =
     do {
       ASSERT (length (instr_operands instr) = 3 \<or> length (instr_operands instr) = 4);
       m_dst \<leftarrow> Instruction_get_operand instr 0;
       m_lhs \<leftarrow> Instruction_get_operand instr 1;
       m_rhs \<leftarrow> Instruction_get_operand instr 2;
       sf \<leftarrow> A64_is_64 instr 0;
       r_dst \<leftarrow> A64_gp instr 0;
       r_lhs \<leftarrow> A64_gp instr 1;
       (case op_value m_rhs of
          Op_register _ \<Rightarrow>
            do {
              r_rhs \<leftarrow> A64_gp instr 2;
              dst \<leftarrow> Operand_get_physical_reg m_dst;
              lhs \<leftarrow> Operand_get_physical_reg m_lhs;
              (if AArch64_is_sp dst \<or> AArch64_is_sp lhs
               then Some (text_write_u32 (param0 OR flag_bit sf 31 OR push_bit 16 r_rhs OR
                      push_bit 13 0b011 OR push_bit 5 r_lhs OR r_dst) b)
               else do {
                 shift \<leftarrow> A64_shift_imm6 instr 3;
                 Some (text_write_u32 (param1 OR flag_bit sf 31 OR push_bit 16 r_rhs OR
                   push_bit 10 shift OR push_bit 5 r_lhs OR r_dst) b)
               })
            }
        | Op_int_immediate rhs \<Rightarrow>
            do {
              shifted \<leftarrow>
                (case Instruction_try_get_operand instr 3 of
                   Some m_shift \<Rightarrow>
                     do {
                       shift \<leftarrow> Operand_get_aarch64_left_shift m_shift;
                       ASSERT (shift = 0 \<or> shift = 12);
                       Some (shift = 12)
                     }
                 | None \<Rightarrow> Some False);
              imm \<leftarrow> AArch64_encode_imm rhs 12 0;
              Some (text_write_u32 (param2 OR flag_bit sf 31 OR flag_bit shifted 22 OR
                push_bit 10 imm OR push_bit 5 r_lhs OR r_dst) b)
            }
        | Op_symbol symbol \<Rightarrow>
            do {
              ASSERT sf;
              kind \<leftarrow> AArch64_lower_reloc (sym_reloc symbol);
              b' \<leftarrow> BinaryBuilder_text_symbol_use (sym_name symbol) kind b;
              Some (text_write_u32 (param2 OR push_bit 31 1 OR push_bit 5 r_lhs OR r_dst) b')
            }
        | Op_stack_offset stack_addr \<Rightarrow>
            do {
              slot \<leftarrow> StackFrame_get_stack_slot (func_stack_frame f) (sa_slot stack_addr);
              let total_offset = (ucast (slot_offset slot + sa_offset stack_addr) :: u64);
              imm \<leftarrow> AArch64_encode_imm (LargeInt_of_unsigned_long total_offset) 12 0;
              Some (text_write_u32 (param2 OR flag_bit sf 31 OR push_bit 10 imm OR push_bit 5 r_lhs OR
                r_dst) b)
            }
        | _ \<Rightarrow> None)
     }"

definition AArch64_encode_mul_family ::
  "u32 \<Rightarrow> m_instr \<Rightarrow> binary_builder \<Rightarrow> binary_builder option" where
  "AArch64_encode_mul_family param instr b =
     do {
       sf \<leftarrow> A64_is_64 instr 0;
       r_dst \<leftarrow> A64_gp instr 0;
       r_lhs \<leftarrow> A64_gp instr 1;
       r_rhs \<leftarrow> A64_gp instr 2;
       Some (text_write_u32 (param OR flag_bit sf 31 OR push_bit 16 r_rhs OR push_bit 5 r_lhs OR r_dst) b)
     }"

definition AArch64_encode_madd_family ::
  "u32 \<Rightarrow> m_instr \<Rightarrow> binary_builder \<Rightarrow> binary_builder option" where
  "AArch64_encode_madd_family param instr b =
     do {
       sf \<leftarrow> A64_is_64 instr 0;
       r_dst \<leftarrow> A64_gp instr 0;
       r_mul_lhs \<leftarrow> A64_gp instr 1;
       r_mul_rhs \<leftarrow> A64_gp instr 2;
       r_add_sub \<leftarrow> A64_gp instr 3;
       Some (text_write_u32 (param OR flag_bit sf 31 OR push_bit 16 r_mul_rhs OR push_bit 10 r_add_sub OR
         push_bit 5 r_mul_lhs OR r_dst) b)
     }"

definition AArch64_encode_and_family ::
  "u32 \<Rightarrow> m_instr \<Rightarrow> binary_builder \<Rightarrow> binary_builder option" where
  "AArch64_encode_and_family param instr b =
     do {
       ASSERT (length (instr_operands instr) = 3 \<or> length (instr_operands instr) = 4);
       m_rhs \<leftarrow> Instruction_get_operand instr 2;
       sf \<leftarrow> A64_is_64 instr 0;
       r_dst \<leftarrow> A64_gp instr 0;
       r_lhs \<leftarrow> A64_gp instr 1;
       (case op_value m_rhs of
          Op_register _ \<Rightarrow>
            do {
              r_rhs \<leftarrow> A64_gp instr 2;
              shift \<leftarrow> A64_shift_imm6 instr 3;
              Some (text_write_u32 (param OR flag_bit sf 31 OR push_bit 16 r_rhs OR push_bit 10 shift OR
                push_bit 5 r_lhs OR r_dst) b)
            }
        | _ \<Rightarrow> None)
     }"

definition AArch64_encode_lsl_family ::
  "u32 \<Rightarrow> m_instr \<Rightarrow> binary_builder \<Rightarrow> binary_builder option" where
  "AArch64_encode_lsl_family param instr b =
     do {
       ASSERT (length (instr_operands instr) = 3);
       m_rhs \<leftarrow> Instruction_get_operand instr 2;
       sf \<leftarrow> A64_is_64 instr 0;
       r_dst \<leftarrow> A64_gp instr 0;
       r_lhs \<leftarrow> A64_gp instr 1;
       (case op_value m_rhs of
          Op_register _ \<Rightarrow>
            do {
              r_rhs \<leftarrow> A64_gp instr 2;
              Some (text_write_u32 (param OR flag_bit sf 31 OR push_bit 16 r_rhs OR push_bit 5 r_lhs OR
                r_dst) b)
            }
        | _ \<Rightarrow> None)
     }"

definition AArch64_encode_fadd_family ::
  "u32 \<Rightarrow> m_instr \<Rightarrow> binary_builder \<Rightarrow> binary_builder option" where
  "AArch64_encode_fadd_family param instr b =
     do {
       ASSERT (length (instr_operands instr) = 3);
       ftype \<leftarrow> A64_is_64 instr 0;
       r_dst \<leftarrow> A64_fp instr 0;
       r_lhs \<leftarrow> A64_fp instr 1;
       r_rhs \<leftarrow> A64_fp instr 2;
       Some (text_write_u32 (param OR flag_bit ftype 22 OR push_bit 16 r_rhs OR push_bit 5 r_lhs OR
         r_dst) b)
     }"

definition AArch64_encode_scvtf_family ::
  "u32 \<Rightarrow> m_instr \<Rightarrow> binary_builder \<Rightarrow> binary_builder option" where
  "AArch64_encode_scvtf_family param instr b =
     do {
       ASSERT (length (instr_operands instr) = 2);
       sf \<leftarrow> A64_is_64 instr 1;
       ftype \<leftarrow> A64_is_64 instr 0;
       r_dst \<leftarrow> A64_fp instr 0;
       r_src \<leftarrow> A64_gp instr 1;
       Some (text_write_u32 (param OR flag_bit sf 31 OR flag_bit ftype 22 OR push_bit 5 r_src OR r_dst) b)
     }"

definition AArch64_encode_fcvtzs_family ::
  "u32 \<Rightarrow> m_instr \<Rightarrow> binary_builder \<Rightarrow> binary_builder option" where
  "AArch64_encode_fcvtzs_family param instr b =
     do {
       ASSERT (length (instr_operands instr) = 2);
       sf \<leftarrow> A64_is_64 instr 0;
       ftype \<leftarrow> A64_is_64 instr 1;
       r_dst \<leftarrow> A64_gp instr 0;
       r_src \<leftarrow> A64_fp instr 1;
       Some (text_write_u32 (param OR flag_bit sf 31 OR flag_bit ftype 22 OR push_bit 5 r_src OR r_dst) b)
     }"

definition AArch64_encode_b_cond_family ::
  "aarch64_condition \<Rightarrow> m_instr \<Rightarrow> binary_builder \<Rightarrow> binary_builder option" where
  "AArch64_encode_b_cond_family cond instr b =
     do {
       m_target \<leftarrow> Instruction_get_operand instr 0;
       label \<leftarrow> Operand_get_basic_block m_target;
       b' \<leftarrow> BinaryBuilder_text_symbol_use label LABEL_BRANCH b;
       Some (text_write_u32 (0x54000000 OR AArch64_encode_cond cond) b')
     }"

definition AArch64_encode_ubfm_family ::
  "u32 \<Rightarrow> m_instr \<Rightarrow> binary_builder \<Rightarrow> binary_builder option" where
  "AArch64_encode_ubfm_family param instr b =
     do {
       r_dst \<leftarrow> A64_gp instr 0;
       r_src \<leftarrow> A64_gp instr 1;
       Some (text_write_u32 (param OR push_bit 5 r_src OR r_dst) b)
     }"

definition AArch64_encode_sbfm_family ::
  "u32 \<Rightarrow> m_instr \<Rightarrow> binary_builder \<Rightarrow> binary_builder option" where
  "AArch64_encode_sbfm_family param instr b =
     do {
       sf \<leftarrow> A64_is_64 instr 0;
       r_dst \<leftarrow> A64_gp instr 0;
       r_src \<leftarrow> A64_gp instr 1;
       Some (text_write_u32 (param OR flag_bit sf 31 OR flag_bit sf 22 OR push_bit 5 r_src OR r_dst) b)
     }"

subsection \<open>Instructions\<close>

definition AArch64_mov_shift :: "u64 \<Rightarrow> nat" where
  "AArch64_mov_shift bits =
     (if bits \<ge> push_bit 48 1 then 48
      else if bits \<ge> push_bit 32 1 then 32
      else if bits \<ge> push_bit 16 1 then 16
      else 0)"

definition AArch64_encode_mov :: "m_instr \<Rightarrow> binary_builder \<Rightarrow> binary_builder option" where
  "AArch64_encode_mov instr b =
     do {
       m_src \<leftarrow> Instruction_get_operand instr 1;
       sf \<leftarrow> A64_is_64 instr 0;
       r_dst \<leftarrow> A64_gp instr 0;
       (case op_value m_src of
          Op_register _ \<Rightarrow>
            do {
              r_src \<leftarrow> A64_gp instr 1;
              Some (text_write_u32 (0x2A0003E0 OR flag_bit sf 31 OR push_bit 16 r_src OR r_dst) b)
            }
        | Op_int_immediate src \<Rightarrow>
            do {
              let bits = LargeInt_to_bits src;
              let shift = AArch64_mov_shift bits;
              let use_movn = (bits AND (push_bit shift 1 - 1) \<noteq> 0);
              let bits' = (if use_movn then NOT bits else bits);
              let shift' = (if use_movn then 0 else shift);
              let instr_template = (if use_movn then 0x12800000 else 0x52800000);
              imm \<leftarrow> AArch64_encode_imm (LargeInt_of_unsigned_long bits') 16 shift';
              hw \<leftarrow> AArch64_encode_imm (LargeInt_of_unsigned (of_nat shift')) 2 4;
              Some (text_write_u32 (instr_template OR flag_bit sf 31 OR push_bit 21 hw OR
                push_bit 5 imm OR r_dst) b)
            }
        | _ \<Rightarrow> None)
     }"


definition AArch64_encode_movz :: "m_instr \<Rightarrow> binary_builder \<Rightarrow> binary_builder option" where
  "AArch64_encode_movz = AArch64_encode_movz_family 0x52800000"

definition AArch64_encode_movk :: "m_instr \<Rightarrow> binary_builder \<Rightarrow> binary_builder option" where
  "AArch64_encode_movk = AArch64_encode_movz_family 0x72800000"

definition AArch64_encode_ldr :: "m_function \<Rightarrow> m_instr \<Rightarrow> binary_builder \<Rightarrow> binary_builder option" where
  "AArch64_encode_ldr = AArch64_encode_ldr_family 0xB8400000 0xBC400000"

definition AArch64_encode_ldrb :: "m_function \<Rightarrow> m_instr \<Rightarrow> binary_builder \<Rightarrow> binary_builder option" where
  "AArch64_encode_ldrb = AArch64_encode_ldrb_family 0 0x38400000"

definition AArch64_encode_ldrh :: "m_function \<Rightarrow> m_instr \<Rightarrow> binary_builder \<Rightarrow> binary_builder option" where
  "AArch64_encode_ldrh = AArch64_encode_ldrb_family 1 0x78400000"

definition AArch64_encode_str :: "m_function \<Rightarrow> m_instr \<Rightarrow> binary_builder \<Rightarrow> binary_builder option" where
  "AArch64_encode_str = AArch64_encode_ldr_family 0xB8000000 0xBC000000"

definition AArch64_encode_strb :: "m_function \<Rightarrow> m_instr \<Rightarrow> binary_builder \<Rightarrow> binary_builder option" where
  "AArch64_encode_strb = AArch64_encode_ldrb_family 0 0x38000000"

definition AArch64_encode_strh :: "m_function \<Rightarrow> m_instr \<Rightarrow> binary_builder \<Rightarrow> binary_builder option" where
  "AArch64_encode_strh = AArch64_encode_ldrb_family 1 0x78000000"

definition AArch64_encode_ldp :: "m_function \<Rightarrow> m_instr \<Rightarrow> binary_builder \<Rightarrow> binary_builder option" where
  "AArch64_encode_ldp = AArch64_encode_ldp_family 0x28C00000 0x29C00000"

definition AArch64_encode_stp :: "m_function \<Rightarrow> m_instr \<Rightarrow> binary_builder \<Rightarrow> binary_builder option" where
  "AArch64_encode_stp = AArch64_encode_ldp_family 0x28800000 0x29800000"

definition AArch64_encode_add :: "m_function \<Rightarrow> m_instr \<Rightarrow> binary_builder \<Rightarrow> binary_builder option" where
  "AArch64_encode_add = AArch64_encode_add_family 0x0B200000 0x0B000000 0x11000000"

definition AArch64_encode_sub :: "m_function \<Rightarrow> m_instr \<Rightarrow> binary_builder \<Rightarrow> binary_builder option" where
  "AArch64_encode_sub = AArch64_encode_add_family 0x4B200000 0x4B000000 0x51000000"

definition AArch64_encode_mul :: "m_instr \<Rightarrow> binary_builder \<Rightarrow> binary_builder option" where
  "AArch64_encode_mul = AArch64_encode_mul_family 0x1B007C00"

definition AArch64_encode_madd :: "m_instr \<Rightarrow> binary_builder \<Rightarrow> binary_builder option" where
  "AArch64_encode_madd = AArch64_encode_madd_family 0x1B000000"

definition AArch64_encode_msub :: "m_instr \<Rightarrow> binary_builder \<Rightarrow> binary_builder option" where
  "AArch64_encode_msub = AArch64_encode_madd_family 0x1B008000"

definition AArch64_encode_sdiv :: "m_instr \<Rightarrow> binary_builder \<Rightarrow> binary_builder option" where
  "AArch64_encode_sdiv = AArch64_encode_mul_family 0x1AC00C00"

definition AArch64_encode_udiv :: "m_instr \<Rightarrow> binary_builder \<Rightarrow> binary_builder option" where
  "AArch64_encode_udiv = AArch64_encode_mul_family 0x1AC00800"

definition AArch64_encode_and :: "m_instr \<Rightarrow> binary_builder \<Rightarrow> binary_builder option" where
  "AArch64_encode_and = AArch64_encode_and_family 0x0A000000"

definition AArch64_encode_orr :: "m_instr \<Rightarrow> binary_builder \<Rightarrow> binary_builder option" where
  "AArch64_encode_orr = AArch64_encode_and_family 0x2A000000"

definition AArch64_encode_eor :: "m_instr \<Rightarrow> binary_builder \<Rightarrow> binary_builder option" where
  "AArch64_encode_eor = AArch64_encode_and_family 0x4A000000"

definition AArch64_encode_lsl :: "m_instr \<Rightarrow> binary_builder \<Rightarrow> binary_builder option" where
  "AArch64_encode_lsl = AArch64_encode_lsl_family 0x1AC02000"

definition AArch64_encode_lsr :: "m_instr \<Rightarrow> binary_builder \<Rightarrow> binary_builder option" where
  "AArch64_encode_lsr = AArch64_encode_lsl_family 0x1AC02400"

definition AArch64_encode_asr :: "m_instr \<Rightarrow> binary_builder \<Rightarrow> binary_builder option" where
  "AArch64_encode_asr = AArch64_encode_lsl_family 0x1AC02800"

definition AArch64_encode_fadd :: "m_instr \<Rightarrow> binary_builder \<Rightarrow> binary_builder option" where
  "AArch64_encode_fadd = AArch64_encode_fadd_family 0x1E202800"

definition AArch64_encode_fsub :: "m_instr \<Rightarrow> binary_builder \<Rightarrow> binary_builder option" where
  "AArch64_encode_fsub = AArch64_encode_fadd_family 0x1E203800"

definition AArch64_encode_fmul :: "m_instr \<Rightarrow> binary_builder \<Rightarrow> binary_builder option" where
  "AArch64_encode_fmul = AArch64_encode_fadd_family 0x1E200800"

definition AArch64_encode_fdiv :: "m_instr \<Rightarrow> binary_builder \<Rightarrow> binary_builder option" where
  "AArch64_encode_fdiv = AArch64_encode_fadd_family 0x1E201800"

definition AArch64_encode_scvtf :: "m_instr \<Rightarrow> binary_builder \<Rightarrow> binary_builder option" where
  "AArch64_encode_scvtf = AArch64_encode_scvtf_family 0x1E220000"

definition AArch64_encode_ucvtf :: "m_instr \<Rightarrow> binary_builder \<Rightarrow> binary_builder option" where
  "AArch64_encode_ucvtf = AArch64_encode_scvtf_family 0x1E230000"

definition AArch64_encode_fcvtzs :: "m_instr \<Rightarrow> binary_builder \<Rightarrow> binary_builder option" where
  "AArch64_encode_fcvtzs = AArch64_encode_fcvtzs_family 0x1E380000"

definition AArch64_encode_fcvtzu :: "m_instr \<Rightarrow> binary_builder \<Rightarrow> binary_builder option" where
  "AArch64_encode_fcvtzu = AArch64_encode_fcvtzs_family 0x1E390000"

definition AArch64_encode_b_eq :: "m_instr \<Rightarrow> binary_builder \<Rightarrow> binary_builder option" where
  "AArch64_encode_b_eq = AArch64_encode_b_cond_family Cond_EQ"

definition AArch64_encode_b_ne :: "m_instr \<Rightarrow> binary_builder \<Rightarrow> binary_builder option" where
  "AArch64_encode_b_ne = AArch64_encode_b_cond_family Cond_NE"

definition AArch64_encode_b_hs :: "m_instr \<Rightarrow> binary_builder \<Rightarrow> binary_builder option" where
  "AArch64_encode_b_hs = AArch64_encode_b_cond_family Cond_HS"

definition AArch64_encode_b_lo :: "m_instr \<Rightarrow> binary_builder \<Rightarrow> binary_builder option" where
  "AArch64_encode_b_lo = AArch64_encode_b_cond_family Cond_LO"

definition AArch64_encode_b_hi :: "m_instr \<Rightarrow> binary_builder \<Rightarrow> binary_builder option" where
  "AArch64_encode_b_hi = AArch64_encode_b_cond_family Cond_HI"

definition AArch64_encode_b_ls :: "m_instr \<Rightarrow> binary_builder \<Rightarrow> binary_builder option" where
  "AArch64_encode_b_ls = AArch64_encode_b_cond_family Cond_LS"

definition AArch64_encode_b_ge :: "m_instr \<Rightarrow> binary_builder \<Rightarrow> binary_builder option" where
  "AArch64_encode_b_ge = AArch64_encode_b_cond_family Cond_GE"

definition AArch64_encode_b_lt :: "m_instr \<Rightarrow> binary_builder \<Rightarrow> binary_builder option" where
  "AArch64_encode_b_lt = AArch64_encode_b_cond_family Cond_LT"

definition AArch64_encode_b_gt :: "m_instr \<Rightarrow> binary_builder \<Rightarrow> binary_builder option" where
  "AArch64_encode_b_gt = AArch64_encode_b_cond_family Cond_GT"

definition AArch64_encode_b_le :: "m_instr \<Rightarrow> binary_builder \<Rightarrow> binary_builder option" where
  "AArch64_encode_b_le = AArch64_encode_b_cond_family Cond_LE"

definition AArch64_encode_uxtb :: "m_instr \<Rightarrow> binary_builder \<Rightarrow> binary_builder option" where
  "AArch64_encode_uxtb = AArch64_encode_ubfm_family 0x53001C00"

definition AArch64_encode_uxth :: "m_instr \<Rightarrow> binary_builder \<Rightarrow> binary_builder option" where
  "AArch64_encode_uxth = AArch64_encode_ubfm_family 0x53003C00"

definition AArch64_encode_sxtb :: "m_instr \<Rightarrow> binary_builder \<Rightarrow> binary_builder option" where
  "AArch64_encode_sxtb = AArch64_encode_sbfm_family 0x13001C00"

definition AArch64_encode_sxth :: "m_instr \<Rightarrow> binary_builder \<Rightarrow> binary_builder option" where
  "AArch64_encode_sxth = AArch64_encode_sbfm_family 0x13003C00"

definition AArch64_encode_sxtw :: "m_instr \<Rightarrow> binary_builder \<Rightarrow> binary_builder option" where
  "AArch64_encode_sxtw = AArch64_encode_sbfm_family 0x13007C00"

definition A64_cond :: "m_instr \<Rightarrow> nat \<Rightarrow> u32 option" where
  "A64_cond instr index =
     do {
       op \<leftarrow> Instruction_get_operand instr index;
       cond \<leftarrow> Operand_get_aarch64_condition op;
       Some (AArch64_encode_cond cond)
     }"

definition AArch64_encode_csel :: "m_instr \<Rightarrow> binary_builder \<Rightarrow> binary_builder option" where
  "AArch64_encode_csel instr b =
     do {
       ASSERT (length (instr_operands instr) = 4);
       sf \<leftarrow> A64_is_64 instr 0;
       r_dst \<leftarrow> A64_gp instr 0;
       r_lhs \<leftarrow> A64_gp instr 1;
       r_rhs \<leftarrow> A64_gp instr 2;
       cond \<leftarrow> A64_cond instr 3;
       Some (text_write_u32 (0x1A800000 OR flag_bit sf 31 OR push_bit 16 r_rhs OR push_bit 12 cond OR
         push_bit 5 r_lhs OR r_dst) b)
     }"

definition AArch64_encode_fmov :: "m_instr \<Rightarrow> binary_builder \<Rightarrow> binary_builder option" where
  "AArch64_encode_fmov instr b =
     do {
       ASSERT (length (instr_operands instr) = 2);
       m_dst \<leftarrow> Instruction_get_operand instr 0;
       m_src \<leftarrow> Instruction_get_operand instr 1;
       let ftype = (op_size m_dst = 8);
       (case op_value m_src of
          Op_register src_reg \<Rightarrow>
            do {
              dst \<leftarrow> Operand_get_physical_reg m_dst;
              let from_fp = AArch64_is_fp_reg (Register_get_physical_reg src_reg);
              let to_fp = AArch64_is_fp_reg dst;
              (if from_fp \<and> to_fp then do {
                 r_dst \<leftarrow> A64_fp instr 0;
                 r_src \<leftarrow> A64_fp instr 1;
                 Some (text_write_u32 (0x1E204000 OR flag_bit ftype 22 OR (push_bit 5 r_src OR r_dst)) b)
               }
               else if from_fp \<and> \<not> to_fp then do {
                 let sf = (op_size m_dst = 8);
                 let ftype = (op_size m_src = 8);
                 r_dst \<leftarrow> A64_gp instr 0;
                 r_src \<leftarrow> A64_fp instr 1;
                 Some (text_write_u32 (0x1E260000 OR flag_bit sf 31 OR flag_bit ftype 22 OR
                   flag_bit False 16 OR push_bit 5 r_src OR r_dst) b)
               }
               else if \<not> from_fp \<and> to_fp then do {
                 let sf = (op_size m_src = 8);
                 let ftype = (op_size m_src = 8);
                 r_dst \<leftarrow> A64_fp instr 0;
                 r_src \<leftarrow> A64_gp instr 1;
                 Some (text_write_u32 (0x1E260000 OR flag_bit sf 31 OR flag_bit ftype 22 OR
                   flag_bit True 16 OR push_bit 5 r_src OR r_dst) b)
               }
               else None)
            }
        | Op_fp_immediate value \<Rightarrow>
            do {
              r_dst \<leftarrow> A64_fp instr 0;
              imm \<leftarrow> (if ftype then AArch64_encode_f64_imm value
                     else AArch64_encode_f32_imm (float_of_double value));
              Some (text_write_u32 (0x1E201000 OR flag_bit ftype 22 OR push_bit 13 imm OR r_dst) b)
            }
        | _ \<Rightarrow> None)
     }"

definition AArch64_encode_fcvt :: "m_instr \<Rightarrow> binary_builder \<Rightarrow> binary_builder option" where
  "AArch64_encode_fcvt instr b =
     do {
       ASSERT (length (instr_operands instr) = 2);
       ftype \<leftarrow> A64_is_64 instr 1;
       opc \<leftarrow> A64_is_64 instr 0;
       r_dst \<leftarrow> A64_fp instr 0;
       r_src \<leftarrow> A64_fp instr 1;
       Some (text_write_u32 (0x1E224000 OR flag_bit ftype 22 OR flag_bit opc 15 OR push_bit 5 r_src OR
         r_dst) b)
     }"

definition AArch64_encode_fcsel :: "m_instr \<Rightarrow> binary_builder \<Rightarrow> binary_builder option" where
  "AArch64_encode_fcsel instr b =
     do {
       ASSERT (length (instr_operands instr) = 4);
       ftype \<leftarrow> A64_is_64 instr 0;
       r_dst \<leftarrow> A64_fp instr 0;
       r_lhs \<leftarrow> A64_fp instr 1;
       r_rhs \<leftarrow> A64_fp instr 2;
       cond \<leftarrow> A64_cond instr 3;
       Some (text_write_u32 (0x1E200C00 OR flag_bit ftype 22 OR push_bit 16 r_rhs OR push_bit 12 cond OR
         push_bit 5 r_lhs OR r_dst) b)
     }"

definition AArch64_encode_cmp :: "m_instr \<Rightarrow> binary_builder \<Rightarrow> binary_builder option" where
  "AArch64_encode_cmp instr b =
     do {
       m_rhs \<leftarrow> Instruction_get_operand instr 1;
       sf \<leftarrow> A64_is_64 instr 0;
       r_lhs \<leftarrow> A64_gp instr 0;
       (case op_value m_rhs of
          Op_register _ \<Rightarrow>
            do {
              r_rhs \<leftarrow> A64_gp instr 1;
              Some (text_write_u32 (0x6B00001F OR flag_bit sf 31 OR push_bit 16 r_rhs OR push_bit 5 r_lhs) b)
            }
        | Op_int_immediate rhs \<Rightarrow>
            do {
              imm \<leftarrow> AArch64_encode_imm rhs 12 0;
              Some (text_write_u32 (0x7100001F OR flag_bit sf 31 OR push_bit 10 imm OR push_bit 5 r_lhs) b)
            }
        | _ \<Rightarrow> None)
     }"

definition AArch64_encode_fcmp :: "m_instr \<Rightarrow> binary_builder \<Rightarrow> binary_builder option" where
  "AArch64_encode_fcmp instr b =
     do {
       ASSERT (length (instr_operands instr) = 2);
       ftype \<leftarrow> A64_is_64 instr 0;
       r_lhs \<leftarrow> A64_fp instr 0;
       r_rhs \<leftarrow> A64_fp instr 1;
       Some (text_write_u32 (0x1E202000 OR flag_bit ftype 22 OR push_bit 16 r_rhs OR push_bit 5 r_lhs) b)
     }"

definition AArch64_encode_b :: "m_instr \<Rightarrow> binary_builder \<Rightarrow> binary_builder option" where
  "AArch64_encode_b instr b =
     do {
       m_target \<leftarrow> Instruction_get_operand instr 0;
       label \<leftarrow> Operand_get_basic_block m_target;
       b' \<leftarrow> BinaryBuilder_text_symbol_use label LABEL_BRANCH b;
       Some (text_write_u32 0x14000000 b')
     }"

definition AArch64_encode_br :: "m_instr \<Rightarrow> binary_builder \<Rightarrow> binary_builder option" where
  "AArch64_encode_br instr b =
     do {
       r_target \<leftarrow> A64_gp instr 0;
       Some (text_write_u32 (0xD61F0000 OR push_bit 5 r_target) b)
     }"

definition AArch64_encode_bl ::
  "target_description \<Rightarrow> m_instr \<Rightarrow> binary_builder \<Rightarrow> binary_builder option" where
  "AArch64_encode_bl target instr b =
     do {
       m_callee \<leftarrow> Instruction_get_operand instr 0;
       kind \<leftarrow> (if Target_is_unix target then Some CALL26
               else if Target_is_darwin target then Some BRANCH26
               else None);
       symbol \<leftarrow> Operand_get_symbol m_callee;
       b' \<leftarrow> BinaryBuilder_text_symbol_use (sym_name symbol) kind b;
       Some (text_write_u32 0x94000000 b')
     }"

definition AArch64_encode_blr :: "m_instr \<Rightarrow> binary_builder \<Rightarrow> binary_builder option" where
  "AArch64_encode_blr instr b =
     do {
       r_callee \<leftarrow> A64_gp instr 0;
       Some (text_write_u32 (0xD63F0000 OR push_bit 5 r_callee) b)
     }"

definition AArch64_encode_ret :: "m_instr \<Rightarrow> binary_builder \<Rightarrow> binary_builder option" where
  "AArch64_encode_ret instr b = Some (text_write_u32 (0xD65F0000 OR push_bit 5 30) b)"

definition AArch64_encode_adrp :: "m_instr \<Rightarrow> binary_builder \<Rightarrow> binary_builder option" where
  "AArch64_encode_adrp instr b =
     do {
       m_symbol \<leftarrow> Instruction_get_operand instr 1;
       symbol \<leftarrow> Operand_get_symbol m_symbol;
       r_dst \<leftarrow> A64_gp instr 0;
       kind \<leftarrow> AArch64_lower_reloc (sym_reloc symbol);
       b' \<leftarrow> BinaryBuilder_text_symbol_use (sym_name symbol) kind b;
       Some (text_write_u32 (0x90000000 OR r_dst) b')
     }"

text \<open>\<open>encode_instr\<close>: the switch over the opcode; the unwind information is not touched.\<close>

definition AArch64_encode_opcode ::
  "target_description \<Rightarrow> aarch64_opcode \<Rightarrow> m_function \<Rightarrow> m_instr \<Rightarrow> binary_builder \<Rightarrow>
   binary_builder option" where
  "AArch64_encode_opcode target opcode f instr b =
     (case opcode of
        A64_MOV \<Rightarrow> AArch64_encode_mov instr b
      | A64_MOVZ \<Rightarrow> AArch64_encode_movz instr b
      | A64_MOVK \<Rightarrow> AArch64_encode_movk instr b
      | A64_LDR \<Rightarrow> AArch64_encode_ldr f instr b
      | A64_LDRB \<Rightarrow> AArch64_encode_ldrb f instr b
      | A64_LDRH \<Rightarrow> AArch64_encode_ldrh f instr b
      | A64_STR \<Rightarrow> AArch64_encode_str f instr b
      | A64_STRB \<Rightarrow> AArch64_encode_strb f instr b
      | A64_STRH \<Rightarrow> AArch64_encode_strh f instr b
      | A64_LDP \<Rightarrow> AArch64_encode_ldp f instr b
      | A64_STP \<Rightarrow> AArch64_encode_stp f instr b
      | A64_ADD \<Rightarrow> AArch64_encode_add f instr b
      | A64_SUB \<Rightarrow> AArch64_encode_sub f instr b
      | A64_MUL \<Rightarrow> AArch64_encode_mul instr b
      | A64_MADD \<Rightarrow> AArch64_encode_madd instr b
      | A64_MSUB \<Rightarrow> AArch64_encode_msub instr b
      | A64_SDIV \<Rightarrow> AArch64_encode_sdiv instr b
      | A64_UDIV \<Rightarrow> AArch64_encode_udiv instr b
      | A64_AND \<Rightarrow> AArch64_encode_and instr b
      | A64_ORR \<Rightarrow> AArch64_encode_orr instr b
      | A64_EOR \<Rightarrow> AArch64_encode_eor instr b
      | A64_LSL \<Rightarrow> AArch64_encode_lsl instr b
      | A64_LSR \<Rightarrow> AArch64_encode_lsr instr b
      | A64_ASR \<Rightarrow> AArch64_encode_asr instr b
      | A64_CSEL \<Rightarrow> AArch64_encode_csel instr b
      | A64_FMOV \<Rightarrow> AArch64_encode_fmov instr b
      | A64_FADD \<Rightarrow> AArch64_encode_fadd instr b
      | A64_FSUB \<Rightarrow> AArch64_encode_fsub instr b
      | A64_FMUL \<Rightarrow> AArch64_encode_fmul instr b
      | A64_FDIV \<Rightarrow> AArch64_encode_fdiv instr b
      | A64_FCVT \<Rightarrow> AArch64_encode_fcvt instr b
      | A64_SCVTF \<Rightarrow> AArch64_encode_scvtf instr b
      | A64_UCVTF \<Rightarrow> AArch64_encode_ucvtf instr b
      | A64_FCVTZS \<Rightarrow> AArch64_encode_fcvtzs instr b
      | A64_FCVTZU \<Rightarrow> AArch64_encode_fcvtzu instr b
      | A64_FCSEL \<Rightarrow> AArch64_encode_fcsel instr b
      | A64_CMP \<Rightarrow> AArch64_encode_cmp instr b
      | A64_FCMP \<Rightarrow> AArch64_encode_fcmp instr b
      | A64_B \<Rightarrow> AArch64_encode_b instr b
      | A64_BR \<Rightarrow> AArch64_encode_br instr b
      | A64_B_EQ \<Rightarrow> AArch64_encode_b_eq instr b
      | A64_B_NE \<Rightarrow> AArch64_encode_b_ne instr b
      | A64_B_HS \<Rightarrow> AArch64_encode_b_hs instr b
      | A64_B_LO \<Rightarrow> AArch64_encode_b_lo instr b
      | A64_B_HI \<Rightarrow> AArch64_encode_b_hi instr b
      | A64_B_LS \<Rightarrow> AArch64_encode_b_ls instr b
      | A64_B_GE \<Rightarrow> AArch64_encode_b_ge instr b
      | A64_B_LT \<Rightarrow> AArch64_encode_b_lt instr b
      | A64_B_GT \<Rightarrow> AArch64_encode_b_gt instr b
      | A64_B_LE \<Rightarrow> AArch64_encode_b_le instr b
      | A64_BL \<Rightarrow> AArch64_encode_bl target instr b
      | A64_BLR \<Rightarrow> AArch64_encode_blr instr b
      | A64_RET \<Rightarrow> AArch64_encode_ret instr b
      | A64_ADRP \<Rightarrow> AArch64_encode_adrp instr b
      | A64_UXTB \<Rightarrow> AArch64_encode_uxtb instr b
      | A64_UXTH \<Rightarrow> AArch64_encode_uxth instr b
      | A64_SXTB \<Rightarrow> AArch64_encode_sxtb instr b
      | A64_SXTH \<Rightarrow> AArch64_encode_sxth instr b
      | A64_SXTW \<Rightarrow> AArch64_encode_sxtw instr b)"

definition AArch64_encode_instr :: "target_description \<Rightarrow> instr_encoder" where
  "AArch64_encode_instr target instr f = (\<lambda>(frame_info, b).
     do {
       opcode \<leftarrow> AArch64Opcode_of_int (instr_opcode instr);
       b' \<leftarrow> AArch64_encode_opcode target opcode f instr b;
       Some (frame_info, b')
     })"

subsection \<open>Resolving branches\<close>

text \<open>
  \<open>resolve_symbol\<close> patches one use of a slice. The slices and uses of the text are rewritten in
  place while \<open>defs\<close> and the offsets that \<open>compute_displacement\<close> reads do not change.
\<close>

definition AArch64_resolve_symbol ::
  "binary_builder \<Rightarrow> symbol_use \<Rightarrow> section_slice \<Rightarrow> (symbol_use \<times> section_slice) option" where
  "AArch64_resolve_symbol b use sl =
     (if \<not> is_one_of (use_kind use) [LABEL_BRANCH, CALL26, BRANCH26] then Some (use, sl)
      else do {
        (instr_template, buffer) \<leftarrow>
          WriteBuffer_read_u32 (WriteBuffer_seek (slice_buffer sl) (unat (use_local_offset use)));
        let buffer' = WriteBuffer_seek buffer (unat (use_local_offset use));
        ASSERT (use_index use < length (bb_defs b));
        let def = bb_defs b ! use_index use;
        displacement \<leftarrow> BinaryBuilder_compute_displacement b sl use;
        (if use_kind use = LABEL_BRANCH then do {
           let first_byte = drop_bit 24 instr_template;
           (if first_byte = 0x14 then do {
              imm \<leftarrow> AArch64_encode_imm (LargeInt_of_unsigned displacement) 26 2;
              Some (use\<lparr>use_is_resolved := True\<rparr>,
                    sl\<lparr>slice_buffer := WriteBuffer_write_u32 buffer' (instr_template OR imm)\<rparr>)
            }
            else if first_byte = 0x54 then do {
              imm \<leftarrow> AArch64_encode_imm (LargeInt_of_unsigned displacement) 19 2;
              Some (use\<lparr>use_is_resolved := True\<rparr>,
                    sl\<lparr>slice_buffer := WriteBuffer_write_u32 buffer' (instr_template OR push_bit 5 imm)\<rparr>)
            }
            else None)
         }
         else if def_kind def = TEXT_FUNC then do {
           imm \<leftarrow> AArch64_encode_imm (LargeInt_of_unsigned displacement) 26 2;
           Some (use\<lparr>use_is_resolved := True\<rparr>,
                 sl\<lparr>slice_buffer := WriteBuffer_write_u32 buffer' (instr_template OR imm)\<rparr>)
         }
         else Some (use, sl\<lparr>slice_buffer := buffer'\<rparr>))
      })"

definition AArch64_resolve_slice ::
  "binary_builder \<Rightarrow> section_slice \<Rightarrow> unit \<Rightarrow> (section_slice \<times> unit) option" where
  "AArch64_resolve_slice b sl u =
     do {
       (uses, sl') \<leftarrow> map_each (AArch64_resolve_symbol b) (slice_uses sl) sl;
       Some (sl'\<lparr>slice_uses := uses\<rparr>, ())
     }"

definition AArch64_resolve_internal_symbols :: "binary_builder \<Rightarrow> binary_builder option" where
  "AArch64_resolve_internal_symbols b =
     do {
       (slices, _) \<leftarrow> map_each (AArch64_resolve_slice b) (sect_slices (bb_text b)) ();
       Some (b\<lparr>bb_text := (bb_text b)\<lparr>sect_slices := slices\<rparr>\<rparr>)
     }"

subsection \<open>What can be encoded\<close>

text \<open>
  \<open>aarch64_encoding_info.cpp\<close>: the address offsets that the instruction selection keeps in a load
  or store, and \<open>aarch64_immediate.cpp\<close>: the parts of a constant that \<open>movz\<close> and \<open>movk\<close> take
  and the floating-point constants that \<open>fmov\<close> takes. Remainders of C++ are zero exactly for
  multiples.
\<close>

definition is_addr_8_offset_encodable :: "u32 \<Rightarrow> bool" where
  "is_addr_8_offset_encodable offset \<longleftrightarrow> sint offset \<ge> -256 \<and> sint offset \<le> 4095"

definition is_addr_16_offset_encodable :: "u32 \<Rightarrow> bool" where
  "is_addr_16_offset_encodable offset \<longleftrightarrow>
     (if sint offset \<ge> -256 \<and> sint offset \<le> 255 then True
      else sint offset \<ge> 0 \<and> sint offset \<le> 8190 \<and> sint offset mod 2 = 0)"

definition is_addr_32_offset_encodable :: "u32 \<Rightarrow> bool" where
  "is_addr_32_offset_encodable offset \<longleftrightarrow>
     (if sint offset \<ge> -4096 \<and> sint offset \<le> 4095 then True
      else sint offset \<ge> 0 \<and> sint offset \<le> 16380 \<and> sint offset mod 4 = 0)"

definition is_addr_64_offset_encodable :: "u32 \<Rightarrow> bool" where
  "is_addr_64_offset_encodable offset \<longleftrightarrow>
     (if sint offset \<ge> -256 \<and> sint offset \<le> 255 then True
      else sint offset \<ge> 0 \<and> sint offset \<le> 32760 \<and> sint offset mod 8 = 0)"

definition is_addr_offset_encodable :: "u32 \<Rightarrow> u32 \<Rightarrow> bool option" where
  "is_addr_offset_encodable offset n =
     (if n = 1 then Some (is_addr_8_offset_encodable offset)
      else if n = 2 then Some (is_addr_16_offset_encodable offset)
      else if n = 4 then Some (is_addr_32_offset_encodable offset)
      else if n = 8 then Some (is_addr_64_offset_encodable offset)
      else None)"

definition decompose_u64_u16 :: "u64 \<Rightarrow> u16 list" where
  "decompose_u64_u16 v =
     [ucast (drop_bit 0 (v AND 0x000000000000FFFF)), ucast (drop_bit 16 (v AND 0x00000000FFFF0000)),
      ucast (drop_bit 32 (v AND 0x0000FFFF00000000)), ucast (drop_bit 48 (v AND 0xFFFF000000000000))]"

definition decompose_u32_u16 :: "u32 \<Rightarrow> u16 list" where
  "decompose_u32_u16 v =
     [ucast (drop_bit 0 (v AND 0x0000FFFF)), ucast (drop_bit 16 (v AND 0xFFFF0000))]"

text \<open>The static set is computed on the first use; its elements are the same at every use.\<close>

definition get_encodable_pos_floats :: "u64 list" where
  "get_encodable_pos_floats =
     map (\<lambda>encoding. (if encoding AND 0x40 \<noteq> 0 then 0x3FC0000000000000 else 0x4000000000000000) OR
                     push_bit 48 (encoding AND 0x3F)) (map word_of_nat [0..<128])"

text \<open>\<open>std::fabs\<close> clears the sign bit.\<close>

definition is_float_encodable :: "u64 \<Rightarrow> bool" where
  "is_float_encodable d \<longleftrightarrow> (d AND 0x7FFFFFFFFFFFFFFF) \<in> set get_encodable_pos_floats"

end
