(* ===== verification/AArch64_Correct.thy ===== *)
theory AArch64_Correct
  imports AArch64_Encoder
begin

section \<open>The AArch64 encoder: every instruction is one word\<close>

text \<open>
  Lemmas and properties of the encoder: an instruction that is encoded appends one
  little-endian 32-bit word and at most one symbol use, which makes the encoder an instance of
  the contract \<open>target_encoder\<close>; the immediates and register fields read back from the word;
  branches inside the text get the displacement to their label; and which address offsets and
  constants the encoder can represent. The decoders are those of the architecture manual.
\<close>

unbundle bit_operations_syntax

subsection \<open>Emitting a word\<close>

definition emit_word :: "symbol_use list \<Rightarrow> u32 \<Rightarrow> binary_builder \<Rightarrow> binary_builder" where
  "emit_word uses w b =
     b\<lparr>bb_text := SectionBuilder_update_slice
         (\<lambda>sl. sl\<lparr>slice_uses := slice_uses sl @ uses,
                  slice_buffer := WriteBuffer_write_u32 (slice_buffer sl) w\<rparr>) (bb_text b)\<rparr>"

definition word_emitted :: "binary_builder \<Rightarrow> binary_builder \<Rightarrow> bool" where
  "word_emitted b b' \<longleftrightarrow>
     (\<exists>uses w. b' = emit_word uses w b \<and> length uses \<le> 1 \<and>
        (\<forall>use \<in> set uses. use_local_offset use = of_nat (SectionBuilder_cur_size (bb_text b)) \<and>
           use_addend use = 0 \<and> \<not> use_is_resolved use \<and> use_index use \<in> ran (bb_symbol_indices b)))"

lemma word_emitted_write [simp, intro]: "word_emitted b (text_write_u32 w b)"
  unfolding word_emitted_def
  by (intro exI [of _ "[]"] exI [of _ w])
    (simp add: emit_word_def text_write_u32_def SectionBuilder_write_def SectionBuilder_update_slice_def)

lemma word_emitted_use:
  assumes "BinaryBuilder_text_symbol_use name kind b = Some b'"
  shows "word_emitted b (text_write_u32 w b')"
proof -
  obtain i where i: "bb_symbol_indices b name = Some i"
    and b': "b' = b\<lparr>bb_text := SectionBuilder_add_symbol_use i kind 0 (bb_text b)\<rparr>"
    using assms by (auto simp: BinaryBuilder_text_symbol_use_def Option.bind_eq_Some_conv)
  let ?use = "\<lparr>use_index = i, use_local_offset = of_nat (SectionBuilder_cur_size (bb_text b)),
    use_kind = kind, use_addend = 0, use_is_resolved = False\<rparr>"
  have "text_write_u32 w b' = emit_word [?use] w b"
    by (simp add: b' text_write_u32_def emit_word_def SectionBuilder_add_symbol_use_def
        SectionBuilder_write_def SectionBuilder_update_slice_def SectionBuilder_cur_size_def
        SectionBuilder_cur_slice_def)
  then show ?thesis
    unfolding word_emitted_def using i by (intro exI [of _ "[?use]"] exI [of _ w]) (auto simp: ran_def)
qed

lemma encode_addr_emitted:
  assumes "AArch64_encode_addr addr s b = Some (bits, b')"
  shows "word_emitted b (text_write_u32 w b')"
  using assms word_emitted_use
  by (cases "addr_mode addr")
    (auto simp: AArch64_encode_addr_def Option.bind_eq_Some_conv split: if_splits)

text \<open>A case analysis of an operand that succeeds, one disjunct per alternative.\<close>

lemma operand_case_Some:
  "case_operand_value f1 f2 f3 f4 f5 f6 f7 f8 f9 f10 f11 f12 v = Some x \<longleftrightarrow>
   (\<exists>a. v = Op_int_immediate a \<and> f1 a = Some x) \<or>
   (\<exists>a. v = Op_fp_immediate a \<and> f2 a = Some x) \<or>
   (\<exists>a. v = Op_register a \<and> f3 a = Some x) \<or>
   (\<exists>a. v = Op_stack_slot a \<and> f4 a = Some x) \<or>
   (\<exists>a. v = Op_symbol a \<and> f5 a = Some x) \<or>
   (\<exists>a. v = Op_basic_block a \<and> f6 a = Some x) \<or>
   (\<exists>a. v = Op_symbol_deref a \<and> f7 a = Some x) \<or>
   (\<exists>a. v = Op_x86_64_addr a \<and> f8 a = Some x) \<or>
   (\<exists>a. v = Op_aarch64_addr a \<and> f9 a = Some x) \<or>
   (\<exists>a. v = Op_stack_offset a \<and> f10 a = Some x) \<or>
   (\<exists>a. v = Op_aarch64_left_shift a \<and> f11 a = Some x) \<or>
   (\<exists>a. v = Op_aarch64_condition a \<and> f12 a = Some x)"
  by (cases v) simp_all

lemmas emit_simps = Option.bind_eq_Some_conv operand_case_Some Let_def

text \<open>Each family emits a word.\<close>

named_theorems emits \<open>encoding functions that emit a word when they succeed\<close>

lemma emits_movz [emits]: "AArch64_encode_movz_family p i b = Some b' \<Longrightarrow> word_emitted b b'"
  by (auto simp: AArch64_encode_movz_family_def emit_simps)

lemma emits_ldr [emits]: "AArch64_encode_ldr_family p q f i b = Some b' \<Longrightarrow> word_emitted b b'"
  by (auto simp: AArch64_encode_ldr_family_def emit_simps encode_addr_emitted
      split: if_splits)

lemma emits_ldrb [emits]: "AArch64_encode_ldrb_family n q f i b = Some b' \<Longrightarrow> word_emitted b b'"
  by (auto simp: AArch64_encode_ldrb_family_def emit_simps encode_addr_emitted)

lemma emits_ldp [emits]: "AArch64_encode_ldp_family p q f i b = Some b' \<Longrightarrow> word_emitted b b'"
  by (auto simp: AArch64_encode_ldp_family_def emit_simps Let_def split: if_splits)

lemma emits_add [emits]: "AArch64_encode_add_family p q r f i b = Some b' \<Longrightarrow> word_emitted b b'"
  unfolding AArch64_encode_add_family_def
  by (auto simp: emit_simps Let_def word_emitted_use
      split: if_splits)

lemma emits_mul [emits]: "AArch64_encode_mul_family p i b = Some b' \<Longrightarrow> word_emitted b b'"
  by (auto simp: AArch64_encode_mul_family_def emit_simps)

lemma emits_madd [emits]: "AArch64_encode_madd_family p i b = Some b' \<Longrightarrow> word_emitted b b'"
  by (auto simp: AArch64_encode_madd_family_def emit_simps)

lemma emits_and [emits]: "AArch64_encode_and_family p i b = Some b' \<Longrightarrow> word_emitted b b'"
  by (auto simp: AArch64_encode_and_family_def emit_simps)

lemma emits_lsl [emits]: "AArch64_encode_lsl_family p i b = Some b' \<Longrightarrow> word_emitted b b'"
  by (auto simp: AArch64_encode_lsl_family_def emit_simps)

lemma emits_fadd [emits]: "AArch64_encode_fadd_family p i b = Some b' \<Longrightarrow> word_emitted b b'"
  by (auto simp: AArch64_encode_fadd_family_def emit_simps)

lemma emits_scvtf [emits]: "AArch64_encode_scvtf_family p i b = Some b' \<Longrightarrow> word_emitted b b'"
  by (auto simp: AArch64_encode_scvtf_family_def emit_simps)

lemma emits_fcvtzs [emits]: "AArch64_encode_fcvtzs_family p i b = Some b' \<Longrightarrow> word_emitted b b'"
  by (auto simp: AArch64_encode_fcvtzs_family_def emit_simps)

lemma emits_b_cond [emits]: "AArch64_encode_b_cond_family c i b = Some b' \<Longrightarrow> word_emitted b b'"
  by (auto simp: AArch64_encode_b_cond_family_def emit_simps word_emitted_use)

lemma emits_ubfm [emits]: "AArch64_encode_ubfm_family p i b = Some b' \<Longrightarrow> word_emitted b b'"
  by (auto simp: AArch64_encode_ubfm_family_def emit_simps)

lemma emits_sbfm [emits]: "AArch64_encode_sbfm_family p i b = Some b' \<Longrightarrow> word_emitted b b'"
  by (auto simp: AArch64_encode_sbfm_family_def emit_simps)

lemma emits_mov [emits]: "AArch64_encode_mov i b = Some b' \<Longrightarrow> word_emitted b b'"
  unfolding AArch64_encode_mov_def
  by (auto simp: emit_simps Let_def)

lemma emits_csel [emits]: "AArch64_encode_csel i b = Some b' \<Longrightarrow> word_emitted b b'"
  by (auto simp: AArch64_encode_csel_def emit_simps)

lemma emits_fmov [emits]: "AArch64_encode_fmov i b = Some b' \<Longrightarrow> word_emitted b b'"
  unfolding AArch64_encode_fmov_def
  by (auto simp: emit_simps Let_def split: if_splits)

lemma emits_fcvt [emits]: "AArch64_encode_fcvt i b = Some b' \<Longrightarrow> word_emitted b b'"
  by (auto simp: AArch64_encode_fcvt_def emit_simps)

lemma emits_fcsel [emits]: "AArch64_encode_fcsel i b = Some b' \<Longrightarrow> word_emitted b b'"
  by (auto simp: AArch64_encode_fcsel_def emit_simps)

lemma emits_cmp [emits]: "AArch64_encode_cmp i b = Some b' \<Longrightarrow> word_emitted b b'"
  by (auto simp: AArch64_encode_cmp_def emit_simps)

lemma emits_fcmp [emits]: "AArch64_encode_fcmp i b = Some b' \<Longrightarrow> word_emitted b b'"
  by (auto simp: AArch64_encode_fcmp_def emit_simps)

lemma emits_b [emits]: "AArch64_encode_b i b = Some b' \<Longrightarrow> word_emitted b b'"
  by (auto simp: AArch64_encode_b_def emit_simps word_emitted_use)

lemma emits_br [emits]: "AArch64_encode_br i b = Some b' \<Longrightarrow> word_emitted b b'"
  by (auto simp: AArch64_encode_br_def emit_simps)

lemma emits_bl [emits]: "AArch64_encode_bl t i b = Some b' \<Longrightarrow> word_emitted b b'"
  by (auto simp: AArch64_encode_bl_def emit_simps word_emitted_use split: if_splits)

lemma emits_blr [emits]: "AArch64_encode_blr i b = Some b' \<Longrightarrow> word_emitted b b'"
  by (auto simp: AArch64_encode_blr_def emit_simps)

lemma emits_ret [emits]: "AArch64_encode_ret i b = Some b' \<Longrightarrow> word_emitted b b'"
  by (auto simp: AArch64_encode_ret_def)

lemma emits_adrp [emits]: "AArch64_encode_adrp i b = Some b' \<Longrightarrow> word_emitted b b'"
  by (auto simp: AArch64_encode_adrp_def emit_simps word_emitted_use)

lemmas encode_member_defs =
  AArch64_encode_movz_def AArch64_encode_movk_def AArch64_encode_ldr_def
  AArch64_encode_ldrb_def AArch64_encode_ldrh_def AArch64_encode_str_def
  AArch64_encode_strb_def AArch64_encode_strh_def AArch64_encode_ldp_def
  AArch64_encode_stp_def AArch64_encode_add_def AArch64_encode_sub_def AArch64_encode_mul_def
  AArch64_encode_madd_def AArch64_encode_msub_def AArch64_encode_sdiv_def
  AArch64_encode_udiv_def AArch64_encode_and_def AArch64_encode_orr_def AArch64_encode_eor_def
  AArch64_encode_lsl_def AArch64_encode_lsr_def AArch64_encode_asr_def AArch64_encode_fadd_def
  AArch64_encode_fsub_def AArch64_encode_fmul_def AArch64_encode_fdiv_def
  AArch64_encode_scvtf_def AArch64_encode_ucvtf_def AArch64_encode_fcvtzs_def
  AArch64_encode_fcvtzu_def AArch64_encode_b_eq_def AArch64_encode_b_ne_def
  AArch64_encode_b_hs_def AArch64_encode_b_lo_def AArch64_encode_b_hi_def
  AArch64_encode_b_ls_def AArch64_encode_b_ge_def AArch64_encode_b_lt_def
  AArch64_encode_b_gt_def AArch64_encode_b_le_def AArch64_encode_uxtb_def
  AArch64_encode_uxth_def AArch64_encode_sxtb_def AArch64_encode_sxth_def
  AArch64_encode_sxtw_def

lemma encode_opcode_emits:
  "AArch64_encode_opcode t opcode f i b = Some b' \<Longrightarrow> word_emitted b b'"
  unfolding AArch64_encode_opcode_def encode_member_defs
  by (cases opcode) (simp_all only: aarch64_opcode.case, (erule emits)+)

lemma encode_instr_emits:
  "AArch64_encode_instr t i f (u, b) = Some (u', b') \<Longrightarrow> u' = u \<and> word_emitted b b'"
  by (auto simp: AArch64_encode_instr_def emit_simps encode_opcode_emits)

subsection \<open>The encoder keeps the contract of the builder\<close>

lemma emit_word_slices:
  "sect_slices (bb_text b) = xs @ [x] \<Longrightarrow>
   sect_slices (bb_text (emit_word uses w b)) =
     xs @ [x\<lparr>slice_uses := slice_uses x @ uses,
             slice_buffer := WriteBuffer_write_u32 (slice_buffer x) w\<rparr>]"
  by (simp add: emit_word_def SectionBuilder_update_slice_def)

lemma emit_word_fields [simp]:
  "bb_defs (emit_word uses w b) = bb_defs b" "bb_data (emit_word uses w b) = bb_data b"
  "bb_unwind_info (emit_word uses w b) = bb_unwind_info b"
  "bb_symbol_indices (emit_word uses w b) = bb_symbol_indices b"
  "bb_addr_table (emit_word uses w b) = bb_addr_table b"
  by (simp_all add: emit_word_def)

lemma emit_word_grows:
  assumes "sect_slices (bb_text b) \<noteq> []"
  shows "grows (slice_sizes (bb_text b)) (slice_sizes (bb_text (emit_word uses w b)))"
proof -
  obtain xs x where x: "sect_slices (bb_text b) = xs @ [x]"
    using assms by (metis append_butlast_last_id)
  let ?n = "length (buf_data (WriteBuffer_write_u32 (slice_buffer x) w))"
  have "length (buf_data (slice_buffer x)) \<le> ?n" by (simp add: write_simps length_store)
  then obtain k where "?n = length (buf_data (slice_buffer x)) + k" using le_Suc_ex by blast
  then have "slice_sizes (bb_text (emit_word uses w b)) =
      butlast (slice_sizes (bb_text b)) @ [last (slice_sizes (bb_text b)) + k]"
    by (simp add: slice_sizes_def emit_word_slices [OF x] x slice_size_def)
  moreover have "slice_sizes (bb_text b) \<noteq> []" by (simp add: slice_sizes_def x)
  ultimately show ?thesis using grows_append by metis
qed

lemma word_emitted_step:
  assumes "word_emitted b b'" and "sect_slices (bb_text b) \<noteq> []"
  shows "encoding_step n b n b'"
  using assms emit_word_grows by (auto simp: word_emitted_def encoding_step_def)

lemma read_u32_Some:
  "WriteBuffer_read_u32 b = Some (w, b') \<Longrightarrow>
   buf_position b + 4 \<le> length (buf_data b) \<and> buf_data b' = buf_data b \<and>
   w = u32_of_bytes (take 4 (drop (buf_position b) (buf_data b)))"
  by (auto simp: WriteBuffer_read_u32_def WriteBuffer_read_data_def Option.bind_eq_Some_conv
      split: if_splits)

lemma resolve_symbol_keeps:
  assumes "AArch64_resolve_symbol b use sl = Some (use', sl')"
  shows "slice_offset sl' = slice_offset sl \<and> slice_size sl' = slice_size sl"
proof (cases "is_one_of (use_kind use) [LABEL_BRANCH, CALL26, BRANCH26]")
  case False
  then show ?thesis using assms by (simp add: AArch64_resolve_symbol_def)
next
  case True
  let ?p = "unat (use_local_offset use)"
  obtain w buf where read: "WriteBuffer_read_u32 (WriteBuffer_seek (slice_buffer sl) ?p) = Some (w, buf)"
    using assms True by (auto simp: AArch64_resolve_symbol_def Option.bind_eq_Some_conv)
  have p: "?p + 4 \<le> length (buf_data (slice_buffer sl))" "buf_data buf = buf_data (slice_buffer sl)"
    using read_u32_Some [OF read] by (simp_all add: WriteBuffer_seek_def)
  have len: "length (buf_data (WriteBuffer_store (WriteBuffer_seek buf ?p) (le_bytes 4 v))) =
      length (buf_data (slice_buffer sl))" for v :: u32
    using p by (simp add: length_store WriteBuffer_seek_def)
  obtain buf' where "sl' = sl\<lparr>slice_buffer := buf'\<rparr>"
    and "buf' = WriteBuffer_seek buf ?p \<or>
         (\<exists>v. buf' = WriteBuffer_write_u32 (WriteBuffer_seek buf ?p) v)"
    using assms True read
    by (auto simp: AArch64_resolve_symbol_def Option.bind_eq_Some_conv Let_def split: if_splits)
  then show ?thesis
    using len p by (auto simp: slice_size_def write_simps WriteBuffer_seek_def)
qed

lemma resolve_uses_keeps:
  assumes "map_each (AArch64_resolve_symbol b) uses sl = Some (uses', sl')"
  shows "slice_offset sl' = slice_offset sl \<and> slice_size sl' = slice_size sl"
  using assms
proof (induction uses arbitrary: sl uses')
  case Nil
  then show ?case by simp
next
  case (Cons use uses)
  then obtain use' sl1 uses1 where "AArch64_resolve_symbol b use sl = Some (use', sl1)"
    "map_each (AArch64_resolve_symbol b) uses sl1 = Some (uses1, sl')"
    by (auto simp: Option.bind_eq_Some_conv)
  then show ?case using Cons.IH resolve_symbol_keeps by metis
qed

lemma resolve_internal_symbols_keeps:
  assumes "AArch64_resolve_internal_symbols b = Some b'"
  shows "bb_defs b' = bb_defs b \<and> bb_unwind_info b' = bb_unwind_info b \<and>
         map slice_size (sect_slices (bb_text b')) = map slice_size (sect_slices (bb_text b)) \<and>
         map slice_offset (sect_slices (bb_text b')) = map slice_offset (sect_slices (bb_text b))"
proof -
  have one: "slice_offset sl' = slice_offset sl \<and> slice_size sl' = slice_size sl"
    if "AArch64_resolve_slice b sl u = Some (sl', u')" for sl sl' u u'
    using that resolve_uses_keeps
    by (auto simp: AArch64_resolve_slice_def Option.bind_eq_Some_conv slice_size_def)
  have all: "map slice_size sls' = map slice_size sls \<and> map slice_offset sls' = map slice_offset sls"
    if "map_each (AArch64_resolve_slice b) sls u = Some (sls', u')" for sls sls' u u'
    using that
  proof (induction sls arbitrary: sls' u)
    case Nil
    then show ?case by simp
  next
    case (Cons sl sls)
    then show ?case using one by (fastforce simp: Option.bind_eq_Some_conv)
  qed
  show ?thesis
    using assms all by (auto simp: AArch64_resolve_internal_symbols_def Option.bind_eq_Some_conv)
qed

interpretation a64: target_encoder "AArch64_encode_instr t" AArch64_resolve_internal_symbols for t
proof unfold_locales
  fix i f u b u' b' n
  assume enc: "AArch64_encode_instr t i f (u, b) = Some (u', b')"
  note e = encode_instr_emits [OF enc]
  then show "bb_unwind_info b' = bb_unwind_info b \<and> ui_start_symbol_index u' = ui_start_symbol_index u"
    by (auto simp: word_emitted_def)
  assume "sect_slices (bb_text b) \<noteq> []"
  then show "encoding_step n b n b'" using e word_emitted_step by blast
qed (rule resolve_internal_symbols_keeps)


subsection \<open>Immediates and addresses\<close>

lemma push_bit_1_minus_1: "(push_bit n 1 - 1 :: 'a::len word) = mask n"
  by (simp add: mask_eq_exp_minus_1 push_bit_eq_mult)

lemma ucast_mask_u32: "n \<le> 32 \<Longrightarrow> (ucast (mask n :: u64) :: u32) = mask n"
  by (rule bit_word_eqI) (auto simp: bit_ucast_iff bit_mask_iff)

lemma encode_imm_eq:
  assumes "n \<le> 32"
  shows "AArch64_encode_imm v n s =
     (if take_bit s (LargeInt_to_bits v) = 0
      then Some (take_bit n (ucast (drop_bit s (LargeInt_to_bits v)))) else None)"
  unfolding AArch64_encode_imm_def push_bit_1_minus_1 Let_def ucast_mask_u32 [OF assms]
    take_bit_eq_mask [symmetric] ASSERT_def by simp

lemma unat_gp_reg: "AArch64_encode_gp_reg r = Some w \<Longrightarrow> unat w < 2 ^ 5"
  by (auto simp: AArch64_encode_gp_reg_def aarch64_regs word_le_nat_alt split: if_splits)

lemma unat_fp_reg: "AArch64_encode_fp_reg r = Some w \<Longrightarrow> unat w < 2 ^ 5"
  by (auto simp: AArch64_encode_fp_reg_def aarch64_regs word_le_nat_alt unat_sub split: if_splits)

lemma unat_take_bit_less: "unat (take_bit n (w :: 'a::len word)) < 2 ^ n"
  by (simp add: unsigned_take_bit_eq)

lemma of_int_value: "LargeInt_value (LargeInt_of_int i) = sint i"
proof -
  have "- (2 ^ 31) \<le> sint i" "sint i < 2 ^ 31" using sint_ge [of i] sint_lt [of i] by simp_all
  then have "sint (scast i :: u64) = sint i"
    by (simp add: signed_scast_eq signed_take_bit_int_eq_self)
  then show ?thesis by (simp add: LargeInt_of_int_def LargeInt_set_from_value)
qed

lemma of_int_normal: "LargeInt_normal (LargeInt_of_int i)"
  by (simp add: LargeInt_of_int_def LargeInt_set_from_normal)

lemma of_int_less_0: "LargeInt_less (LargeInt_of_int i) (LargeInt_of_int 0) \<longleftrightarrow> sint i < 0"
  by (simp add: LargeInt_less_def LargeInt_compare_value of_int_normal of_int_value)

lemma of_int_bits: "LargeInt_to_bits (LargeInt_of_int i) = word_of_int (sint i)"
  by (simp add: LargeInt_to_bits_value of_int_value)

lemma scaled_offset_check:
  assumes "s \<le> 3"
  shows "LargeInt_eq (LargeInt_and v (LargeInt_of_int (push_bit s 1 - 1))) (LargeInt_of_int 0) \<longleftrightarrow>
         take_bit s (LargeInt_to_bits v) = 0"
proof -
  have "s = 0 \<or> s = 1 \<or> s = 2 \<or> s = 3" using assms by auto
  then have "sint (push_bit s 1 - 1 :: u32) = mask s"
    by (auto simp: mask_eq_exp_minus_1)
  then have "LargeInt_to_bits (LargeInt_of_int (push_bit s 1 - 1)) = mask s"
    by (simp only: of_int_bits) (simp add: mask_eq_exp_minus_1)
  moreover have "LargeInt_of_int 0 = LargeInt_make 0 False"
    by (simp add: LargeInt_of_int_def LargeInt_set_from_def LargeInt_make_def)
  ultimately show ?thesis
    by (simp add: LargeInt_and_def LargeInt_eq_iff take_bit_eq_mask LargeInt_make_def)
qed

text \<open>
  The address fields of a load or store as the architecture defines them: bit 24 selects the
  scaled 12-bit offset, otherwise the offset is nine bits, signed and not scaled; the base is in
  the bits from 5.
\<close>

definition a64_addr_offset :: "nat \<Rightarrow> u32 \<Rightarrow> int" where
  "a64_addr_offset s bits =
     (if (bit_field 24 bits :: 1 word) = 1 then uint (bit_field 10 bits :: 12 word) * 2 ^ s
      else sint (bit_field 12 bits :: 9 word))"

definition a64_addr_base :: "u32 \<Rightarrow> u32" where
  "a64_addr_base bits = ucast (bit_field 5 bits :: 5 word)"

lemma ucast_take_bit_12: "(ucast (take_bit 12 (w :: u32)) :: 12 word) = ucast w"
  by (rule bit_word_eqI) (auto simp: bit_ucast_iff bit_take_bit_iff)

lemma ucast_take_bit_9: "(ucast (take_bit 9 (w :: u32)) :: 9 word) = ucast w"
  by (rule bit_word_eqI) (auto simp: bit_ucast_iff bit_take_bit_iff)

lemma bit_field_constants:
  "(bit_field 24 (0x01000000 :: u32) :: 1 word) = 1"
  "(bit_field 10 (0x01000000 :: u32) :: 12 word) = 0"
  "(bit_field 5 (0x01000000 :: u32) :: 5 word) = 0"
  "(bit_field lo (0 :: u32) :: 'n::len word) = 0"
  by (simp_all add: bit_field_def)

lemma ucast_reg5: "unat (r :: u32) < 2 ^ 5 \<Longrightarrow> ucast (ucast r :: 5 word) = r"
proof -
  assume "unat r < 2 ^ 5"
  then have "take_bit 5 (unat r) = unat r" by (rule take_bit_nat_eq_self)
  moreover have "unat r < 2 ^ 32" using unsigned_less [of r, where 'a=nat] by simp
  then have "take_bit 32 (unat r) = unat r" by (rule take_bit_nat_eq_self)
  ultimately show ?thesis by (simp add: word_unat_eq_iff unsigned_ucast_eq unsigned_take_bit_eq)
qed

lemma scaled_addr_fields:
  assumes "unat r < 2 ^ 5" and "unat imm < 2 ^ 12"
  defines "bits \<equiv> 0x01000000 OR push_bit 10 imm OR push_bit 5 (r :: u32)"
  shows "a64_addr_offset s bits = uint (ucast imm :: 12 word) * 2 ^ s" and "a64_addr_base bits = r"
proof -
  have "(bit_field 24 bits :: 1 word) = 1" "(bit_field 10 bits :: 12 word) = ucast imm"
    "(bit_field 5 bits :: 5 word) = ucast r"
    unfolding bits_def
    by (simp_all add: bit_field_constants bit_field_below [OF assms(1)] bit_field_below [OF assms(2)])
  then show "a64_addr_offset s bits = uint (ucast imm :: 12 word) * 2 ^ s" "a64_addr_base bits = r"
    using ucast_reg5 [OF assms(1)] by (simp_all add: a64_addr_offset_def a64_addr_base_def)
qed

lemma unscaled_addr_fields:
  assumes "unat r < 2 ^ 5" and "unat imm < 2 ^ 9"
  defines "bits \<equiv> 0x00000000 OR push_bit 12 imm OR push_bit 5 (r :: u32)"
  shows "a64_addr_offset s bits = sint (ucast imm :: 9 word)" and "a64_addr_base bits = r"
proof -
  have "(bit_field 24 bits :: 1 word) = 0" "(bit_field 12 bits :: 9 word) = ucast imm"
    "(bit_field 5 bits :: 5 word) = ucast r"
    unfolding bits_def
    by (simp_all add: bit_field_constants bit_field_below [OF assms(1)] bit_field_below [OF assms(2)])
  then show "a64_addr_offset s bits = sint (ucast imm :: 9 word)" "a64_addr_base bits = r"
    using ucast_reg5 [OF assms(1)] by (simp_all add: a64_addr_offset_def a64_addr_base_def)
qed

text \<open>Encoding a constant offset from a base register.\<close>

definition const_addr :: "register \<Rightarrow> u32 \<Rightarrow> a64_address" where
  "const_addr base offset =
     (A64_Address Mode_OFFSET_CONST base)\<lparr>addr_offset_const := LargeInt_of_int offset\<rparr>"

lemma const_addr_simps [simp]:
  "addr_mode (const_addr base offset) = Mode_OFFSET_CONST"
  "addr_base (const_addr base offset) = base"
  "addr_offset_const (const_addr base offset) = LargeInt_of_int offset"
  by (simp_all add: const_addr_def A64_Address_def)

lemma take_bit_bits_0_iff:
  "s \<le> 63 \<Longrightarrow> take_bit s (word_of_int i :: u64) = 0 \<longleftrightarrow> i mod 2 ^ s = 0"
proof -
  assume s: "s \<le> 63"
  have dvd: "(2 :: int) ^ s dvd 2 ^ LENGTH(64)" by (rule le_imp_power_dvd) (use s in simp)
  have "uint (take_bit s (word_of_int i :: u64)) = i mod 2 ^ s"
    unfolding unsigned_take_bit_eq uint_word_of_int take_bit_eq_mod [where 'a=int]
    by (rule mod_mod_cancel [OF dvd])
  then show ?thesis by (simp add: word_uint_eq_iff)
qed

lemma uint_field_of_int:
  assumes "0 \<le> i" and "i < 2 ^ (12 + s)" and "s \<le> 3"
  shows "uint (ucast (take_bit 12 (ucast (drop_bit s (word_of_int i :: u64)) :: u32)) :: 12 word) =
         i div 2 ^ s"
proof -
  have "(2 :: int) ^ (12 + s) \<le> 2 ^ 15" by (rule power_increasing) (use assms(3) in auto)
  then have small: "i < 2 ^ 15" using assms(2) by simp
  have "uint (drop_bit s (word_of_int i :: u64)) = i div 2 ^ s"
    using assms(1) small by (simp add: uint_drop_bit uint_word_of_int)
  moreover have "i div 2 ^ s < 2 ^ 12"
  proof (rule ccontr)
    assume "\<not> i div 2 ^ s < 2 ^ 12"
    then have "2 ^ s * 2 ^ 12 \<le> 2 ^ s * (i div 2 ^ s)" by (intro mult_left_mono) auto
    also have "\<dots> \<le> i" using minus_mod_eq_mult_div [of i "2 ^ s"] by (simp flip: minus_mod_eq_mult_div)
    finally show False using assms(2) by (simp add: power_add mult.commute)
  qed
  moreover have "0 \<le> i div 2 ^ s" using assms(1) by (simp add: pos_imp_zdiv_nonneg_iff)
  ultimately show ?thesis
    by (simp add: ucast_take_bit_12 unsigned_ucast_eq unsigned_take_bit_eq take_bit_int_eq_self)
qed

lemma sint_field_of_int:
  assumes "- 256 \<le> i" and "i \<le> 255"
  shows "sint (ucast (take_bit 9 (ucast (word_of_int i :: u64) :: u32)) :: 9 word) = i"
proof -
  have "(ucast (take_bit 9 (ucast (word_of_int i :: u64) :: u32)) :: 9 word) = word_of_int i"
    by (rule bit_word_eqI) (auto simp: bit_ucast_iff bit_take_bit_iff bit_of_int_iff)
  moreover have "sint (word_of_int i :: 9 word) = i"
    using assms by (simp add: sint_sbintrunc' signed_take_bit_int_eq_self)
  ultimately show ?thesis by simp
qed

lemma encode_const_addr:
  assumes base: "AArch64_encode_gp_reg (Register_get_physical_reg base) = Some r" and s: "s \<le> 3"
    and ok: "(- 256 \<le> sint off \<and> sint off \<le> 255) \<or>
             (0 \<le> sint off \<and> sint off < 2 ^ (12 + s) \<and> sint off mod 2 ^ s = 0)"
  shows "\<exists>bits. AArch64_encode_addr (const_addr base off) s b = Some (bits, b) \<and>
           a64_addr_offset s bits = sint off \<and> a64_addr_base bits = r"
proof -
  note r = unat_gp_reg [OF base]
  let ?bits = "LargeInt_to_bits (LargeInt_of_int off)"
  have bits: "?bits = word_of_int (sint off)" by (rule of_int_bits)
  show ?thesis
  proof (cases "0 \<le> sint off \<and> sint off mod 2 ^ s = 0")
    case True
    have low: "take_bit s ?bits = 0"
      unfolding bits using True s take_bit_bits_0_iff [of s "sint off"] by linarith
    let ?imm = "take_bit 12 (ucast (drop_bit s ?bits)) :: u32"
    have "(256 :: int) \<le> 2 ^ (12 + s)" by (rule order_trans [OF _ power_increasing [of 12]]) auto
    then have lt: "sint off < 2 ^ (12 + s)" using ok by auto
    have "sint off div 2 ^ s * 2 ^ s = sint off" using True by (simp add: minus_mod_eq_div_mult [symmetric])
    then have "uint (ucast ?imm :: 12 word) * 2 ^ s = sint off"
      using uint_field_of_int [OF _ lt s] True by (simp add: bits)
    moreover have "AArch64_encode_addr (const_addr base off) s b =
        Some (0x01000000 OR push_bit 10 ?imm OR push_bit 5 r, b)"
      using True low base
      by (simp add: AArch64_encode_addr_def of_int_less_0
          scaled_offset_check [OF s, unfolded push_bit_of_1] encode_imm_eq)
    ultimately show ?thesis
      using scaled_addr_fields [OF r unat_take_bit_less] by fastforce
  next
    case False
    then have range: "- 256 \<le> sint off" "sint off \<le> 255" using ok by auto
    let ?imm = "take_bit 9 (ucast (drop_bit 0 ?bits)) :: u32"
    have "\<not> (\<not> sint off < 0 \<and> take_bit s ?bits = 0)"
      unfolding bits using False s take_bit_bits_0_iff [of s "sint off"] by linarith
    then have "AArch64_encode_addr (const_addr base off) s b =
        Some (0x00000000 OR push_bit 12 ?imm OR push_bit 5 r, b)"
      using base
      by (auto simp: AArch64_encode_addr_def of_int_less_0
          scaled_offset_check [OF s, unfolded push_bit_of_1] encode_imm_eq)
    moreover have "sint (ucast ?imm :: 9 word) = sint off"
      using sint_field_of_int [OF range] by (simp add: bits)
    ultimately show ?thesis
      using unscaled_addr_fields [OF r unat_take_bit_less] by fastforce
  qed
qed

subsection \<open>Branch displacements\<close>

text \<open>
  The displacement of a branch as the architecture decodes it: \<open>B\<close> and \<open>BL\<close> hold 26 bits,
  \<open>B.cond\<close> holds 19 bits from bit 5, both signed and in units of four bytes.
\<close>

definition a64_branch_displacement :: "u32 \<Rightarrow> int option" where
  "a64_branch_displacement w =
     (if (bit_field 26 w :: 6 word) = 0b000101 \<or> (bit_field 26 w :: 6 word) = 0b100101
      then Some (sint (bit_field 0 w :: 26 word) * 4)
      else if (bit_field 24 w :: 8 word) = 0x54
      then Some (sint (bit_field 5 w :: 19 word) * 4)
      else None)"

definition a64_branch_range :: "u32 \<Rightarrow> int" where
  "a64_branch_range template = (if (bit_field 24 template :: 8 word) = 0x54 then 2 ^ 20 else 2 ^ 27)"

lemma of_unsigned_bits: "LargeInt_to_bits (LargeInt_of_unsigned d) = ucast d"
  by (simp add: LargeInt_of_unsigned_def LargeInt_to_bits_def)

lemma displacement_field:
  assumes "LENGTH('n) \<le> 30"
  shows "(ucast (drop_bit 2 (ucast (d :: u32) :: u64)) :: 'n::len word) = word_of_int (sint d div 4)"
proof -
  have u: "uint (drop_bit 2 (ucast d :: u64)) = uint d div 4"
  proof -
    have "uint d < 2 ^ 32" using unsigned_less [of d, where 'a=int] by simp
    then have "uint (ucast d :: u64) = uint d"
      by (simp add: unsigned_ucast_eq take_bit_int_eq_self)
    then show ?thesis by (simp only: uint_drop_bit) simp
  qed
  have "(ucast (drop_bit 2 (ucast d :: u64)) :: 'n word) = word_of_int (uint (drop_bit 2 (ucast d :: u64)))"
    by simp
  then have lhs: "(ucast (drop_bit 2 (ucast d :: u64)) :: 'n word) = word_of_int (uint d div 4)"
    by (simp only: u)
  have "uint d div 2 ^ 2 = take_bit (32 - 2) (sint d div 2 ^ 2)"
    unfolding uint_sint drop_bit_eq_div [symmetric] by (simp add: drop_bit_take_bit)
  then have "uint d div 4 = take_bit 30 (sint d div 4)" by simp
  moreover have "(word_of_int (take_bit 30 k) :: 'n word) = word_of_int k" for k
    by (rule bit_word_eqI) (use assms in \<open>auto simp: bit_of_int_iff bit_take_bit_iff\<close>)
  ultimately show ?thesis by (simp add: lhs)
qed

lemma displacement_mult_4:
  assumes "take_bit 2 (ucast (d :: u32) :: u64) = 0"
  shows "sint d div 4 * 4 = sint d"
proof -
  have "\<not> bit (ucast d :: u64) 0" "\<not> bit (ucast d :: u64) 1"
    using assms by (metis bit_0_eq bit_take_bit_iff zero_less_numeral bot_apply bot_bool_def one_less_numeral_iff semiring_norm(76))+
  then have "\<not> bit d 0" "\<not> bit d 1" by (simp_all add: bit_ucast_iff)
  then have "\<not> bit (sint d) 0" "\<not> bit (sint d) 1" by (simp_all add: bit_sint_iff)
  then have "take_bit 2 (sint d) = 0"
    by (intro bit_eqI) (auto simp: bit_take_bit_iff numeral_2_eq_2 less_Suc_eq intro!: gr0I)
  then show ?thesis by (simp add: take_bit_eq_mod minus_mod_eq_div_mult [symmetric])
qed

text \<open>The two forms of the patched word.\<close>

lemma branch26_displacement:
  assumes "template = 0x14000000 \<or> template = 0x94000000" and "take_bit 2 (ucast d :: u64) = 0"
    and "- (2 ^ 27) \<le> sint d" and "sint d < 2 ^ 27"
  shows "a64_branch_displacement
           (template OR take_bit 26 (ucast (drop_bit 2 (ucast (d :: u32) :: u64)))) = Some (sint d)"
proof -
  let ?imm = "take_bit 26 (ucast (drop_bit 2 (ucast d :: u64))) :: u32"
  have "(bit_field 0 ?imm :: 26 word) = ucast (drop_bit 2 (ucast d :: u64))"
    by (rule bit_word_eqI) (auto simp: bit_bit_field bit_take_bit_iff bit_ucast_iff)
  also have "\<dots> = word_of_int (sint d div 4)" by (rule displacement_field) simp
  finally have imm: "(bit_field 0 ?imm :: 26 word) = word_of_int (sint d div 4)" .
  have "sint (word_of_int (sint d div 4) :: 26 word) = sint d div 4"
    using assms(3,4) by (simp add: sint_sbintrunc' signed_take_bit_int_eq_self)
  moreover have "(bit_field 26 ?imm :: 6 word) = 0"
    by (rule bit_field_small [OF unat_take_bit_less]) simp
  moreover have "(bit_field 0 template :: 26 word) = 0"
    "(bit_field 26 template :: 6 word) = 0b000101 \<or> (bit_field 26 template :: 6 word) = 0b100101"
    using assms(1) by (auto simp: bit_field_def)
  ultimately show ?thesis
    using imm displacement_mult_4 [OF assms(2)] by (auto simp: a64_branch_displacement_def)
qed

lemma branch19_displacement:
  assumes "template = 0x54000000 OR AArch64_encode_cond c" and "take_bit 2 (ucast d :: u64) = 0"
    and "- (2 ^ 20) \<le> sint d" and "sint d < 2 ^ 20"
  shows "a64_branch_displacement
           (template OR push_bit 5 (take_bit 19 (ucast (drop_bit 2 (ucast (d :: u32) :: u64))))) =
         Some (sint d)"
proof -
  let ?imm = "take_bit 19 (ucast (drop_bit 2 (ucast d :: u64))) :: u32"
  have "(bit_field 5 (push_bit 5 ?imm) :: 19 word) = ucast ?imm" by simp
  also have "\<dots> = ucast (drop_bit 2 (ucast d :: u64))"
    by (rule bit_word_eqI) (auto simp: bit_take_bit_iff bit_ucast_iff)
  also have "\<dots> = word_of_int (sint d div 4)" by (rule displacement_field) simp
  finally have imm: "(bit_field 5 (push_bit 5 ?imm) :: 19 word) = word_of_int (sint d div 4)" .
  have "sint (word_of_int (sint d div 4) :: 19 word) = sint d div 4"
    using assms(3,4) by (simp add: sint_sbintrunc' signed_take_bit_int_eq_self)
  moreover have "(bit_field 24 (push_bit 5 ?imm) :: 8 word) = 0" "(bit_field 26 (push_bit 5 ?imm) :: 6 word) = 0"
    by (rule bit_field_below [OF unat_take_bit_less], simp)+
  moreover have "(bit_field 5 template :: 19 word) = 0" "(bit_field 24 template :: 8 word) = 0x54"
    "(bit_field 26 template :: 6 word) = 0b010101"
    unfolding assms(1) by (cases c; simp add: bit_field_def AArch64_encode_cond_def)+
  ultimately show ?thesis
    using imm displacement_mult_4 [OF assms(2)] by (simp add: a64_branch_displacement_def)
qed

subsection \<open>Moving constants\<close>

lemma mov_templates:
  "(bit_field 21 (0x52800000 :: u32) :: 2 word) = 0" "(bit_field 21 (0x12800000 :: u32) :: 2 word) = 0"
  "(bit_field 5 (0x52800000 :: u32) :: u16) = 0" "(bit_field 5 (0x12800000 :: u32) :: u16) = 0"
  "(bit_field 29 (0x52800000 :: u32) :: 2 word) = 2" "(bit_field 29 (0x12800000 :: u32) :: 2 word) = 0"
  "(bit_field 23 (0x52800000 :: u32) :: 6 word) = 0x25" "(bit_field 23 (0x12800000 :: u32) :: 6 word) = 0x25"
  "(bit_field 31 (0x52800000 :: u32) :: 1 word) = 0" "(bit_field 31 (0x12800000 :: u32) :: 1 word) = 0"
  "(bit_field 0 (0x52800000 :: u32) :: 5 word) = 0" "(bit_field 0 (0x12800000 :: u32) :: 5 word) = 0"
  by (simp_all add: bit_field_def)

definition single_chunk :: "u64 \<Rightarrow> bool" where
  "single_chunk v \<longleftrightarrow> (\<exists>k < 4. \<exists>c :: u16. v = push_bit (16 * k) (ucast c))"

lemma mov_shift_bounds:
  "AArch64_mov_shift v \<in> {0, 16, 32, 48}" "unat v < 2 ^ (AArch64_mov_shift v + 16)"
  "AArch64_mov_shift v \<noteq> 0 \<Longrightarrow> 2 ^ AArch64_mov_shift v \<le> unat v"
  using unsigned_less [of v, where 'a=nat]
  by (auto simp: AArch64_mov_shift_def word_le_nat_alt not_le)

lemma unat_ucast_u16: "unat (ucast (c :: u16) :: u64) = unat c"
proof -
  have "unat c < 2 ^ 16" using unsigned_less [of c, where 'a=nat] by simp
  then show ?thesis by (simp add: unsigned_ucast_eq take_bit_nat_eq_self)
qed

lemma drop_mov_shift:
  "push_bit (AArch64_mov_shift v) (ucast (ucast (drop_bit (AArch64_mov_shift v) v) :: u16)) =
   v AND NOT (mask (AArch64_mov_shift v))"
proof -
  have "n < 16 + AArch64_mov_shift v" if "bit v n" for n
    using not_bit_small [OF mov_shift_bounds(2), of v n] that by (metis add.commute not_le)
  then show ?thesis
    by (intro bit_word_eqI)
      (auto simp: bit_push_bit_iff bit_ucast_iff bit_drop_bit_eq bit_and_iff bit_not_iff bit_mask_iff
        less_diff_conv2)
qed

lemma single_chunk_iff: "single_chunk v \<longleftrightarrow> take_bit (AArch64_mov_shift v) v = 0"
proof
  let ?s = "AArch64_mov_shift v"
  assume low: "take_bit ?s v = 0"
  have "v = push_bit ?s (ucast (ucast (drop_bit ?s v) :: u16))"
  proof -
    have "\<not> bit v n" if "n < ?s" for n
      using low that by (metis bit_take_bit_iff bit_0_eq bot_apply bot_bool_def)
    then have "v AND NOT (mask ?s) = v"
      by (intro bit_word_eqI) (auto simp: bit_and_iff bit_not_iff bit_mask_iff)
    then show ?thesis by (simp only: drop_mov_shift)
  qed
  moreover obtain k where "k < 4" "?s = 16 * k" using mov_shift_bounds(1) [of v] by force
  ultimately show "single_chunk v" unfolding single_chunk_def by metis
next
  assume "single_chunk v"
  then obtain k and c :: u16 where k: "k < 4" and v: "v = push_bit (16 * k) (ucast c)"
    by (auto simp: single_chunk_def)
  have c: "unat c < 2 ^ 16" using unsigned_less [of c, where 'a=nat] by simp
  have "AArch64_mov_shift v \<le> 16 * k"
  proof (rule ccontr)
    assume "\<not> AArch64_mov_shift v \<le> 16 * k"
    then have "16 * k + 16 \<le> AArch64_mov_shift v" "AArch64_mov_shift v \<noteq> 0"
      using mov_shift_bounds(1) [of v] k by auto
    then have "2 ^ (16 * k + 16) \<le> unat v"
      using mov_shift_bounds(3) [of v] power_increasing [of "16 * k + 16" "AArch64_mov_shift v" "2 :: nat"]
      by linarith
    moreover have "unat c * 2 ^ (16 * k) < 2 ^ 64"
    proof -
      have "unat c * 2 ^ (16 * k) < 2 ^ 16 * 2 ^ (16 * k)" using c by simp
      also have "\<dots> = 2 ^ (16 + 16 * k)" by (simp only: power_add)
      also have "\<dots> \<le> 2 ^ 64" by (rule power_increasing) (use k in auto)
      finally show ?thesis .
    qed
    then have "unat v = unat c * 2 ^ (16 * k)"
      unfolding v unat_push_bit unat_ucast_u16 by simp
    ultimately show False using c by (simp add: power_add)
  qed
  then show "take_bit (AArch64_mov_shift v) v = 0"
    unfolding v by (intro bit_word_eqI) (auto simp: bit_take_bit_iff bit_push_bit_iff)
qed

lemma of_unsigned_long_bits: "LargeInt_to_bits (LargeInt_of_unsigned_long v) = v"
  by (simp add: LargeInt_of_unsigned_long_def LargeInt_to_bits_def)

lemma hw_imm:
  assumes "sh \<in> {0, 16, 32, 48}"
  shows "AArch64_encode_imm (LargeInt_of_unsigned (of_nat sh)) 2 4 = Some (of_nat (sh div 16))"
  using assms by (auto simp: encode_imm_eq of_unsigned_bits)

lemma not_ucast_u16_iff: "NOT (ucast (ucast (take_bit 16 (ucast (NOT v) :: u32)) :: u16)) = (v :: u64) \<longleftrightarrow>
    unat (NOT v) < 2 ^ 16"
proof -
  have "(ucast (ucast (take_bit 16 (ucast (NOT v) :: u32)) :: u16) :: u64) = take_bit 16 (NOT v)"
    by (rule bit_word_eqI) (auto simp: bit_ucast_iff bit_take_bit_iff)
  moreover have "NOT x = v \<longleftrightarrow> x = NOT v" for x by auto
  moreover have "take_bit 16 w = w \<longleftrightarrow> unat w < 2 ^ 16" for w :: u64
    unfolding word_unat_eq_iff unsigned_take_bit_eq take_bit_nat_eq_self_iff ..
  ultimately show ?thesis by metis
qed

subsection \<open>Register fields\<close>

text \<open>The register fields of the data processing instructions.\<close>

definition a64_rd :: "u32 \<Rightarrow> u32" where "a64_rd w = ucast (bit_field 0 w :: 5 word)"
definition a64_rn :: "u32 \<Rightarrow> u32" where "a64_rn w = ucast (bit_field 5 w :: 5 word)"
definition a64_ra :: "u32 \<Rightarrow> u32" where "a64_ra w = ucast (bit_field 10 w :: 5 word)"
definition a64_rm :: "u32 \<Rightarrow> u32" where "a64_rm w = ucast (bit_field 16 w :: 5 word)"
definition a64_sf :: "u32 \<Rightarrow> bool" where "a64_sf w \<longleftrightarrow> (bit_field 31 w :: 1 word) = 1"

lemma A64_gp_less: "A64_gp i n = Some r \<Longrightarrow> unat r < 2 ^ 5"
  by (auto simp: A64_gp_def Option.bind_eq_Some_conv dest: unat_gp_reg)

lemma bit_field_flag:
  "lo + LENGTH('n) \<le> hi \<Longrightarrow> (bit_field lo (flag_bit c hi) :: 'n::len word) = 0"
  "(bit_field 31 (flag_bit c 31) :: 1 word) = of_bool c"
  by (simp_all add: flag_bit_def)

lemma madd_fields:
  fixes sf :: bool
  assumes "unat rd < 2 ^ 5" and "unat rn < 2 ^ 5" and "unat ra < 2 ^ 5" and "unat rm < 2 ^ 5"
    and "p = 0x1B000000 \<or> p = 0x1B008000"
  defines "w \<equiv> p OR flag_bit sf 31 OR push_bit 16 rm OR push_bit 10 ra OR push_bit 5 rn OR rd"
  shows "a64_rd w = rd" and "a64_rn w = rn" and "a64_ra w = ra" and "a64_rm w = rm" and "a64_sf w = sf"
    and "(bit_field 24 w :: 7 word) = 0x1B" and "(bit_field 21 w :: 3 word) = 0"
proof -
  have p: "(bit_field 24 p :: 7 word) = 0x1B" "(bit_field 21 p :: 3 word) = 0" "(bit_field 0 p :: 5 word) = 0" "(bit_field 5 p :: 5 word) = 0" "(bit_field 10 p :: 5 word) = 0"
    "(bit_field 16 p :: 5 word) = 0" "(bit_field 31 p :: 1 word) = 0"
    using assms(5) by (auto simp: bit_field_def)
  note simps = p bit_field_flag bit_field_below [OF assms(1)] bit_field_below [OF assms(2)]
    bit_field_below [OF assms(3)] bit_field_below [OF assms(4)] bit_field_small [OF assms(1)]
    bit_field_0 [of rd]
  show "a64_rd w = rd" "a64_rn w = rn" "a64_ra w = ra" "a64_rm w = rm"
    using ucast_reg5 [OF assms(1)] ucast_reg5 [OF assms(2)] ucast_reg5 [OF assms(3)]
      ucast_reg5 [OF assms(4)]
    by (simp_all add: w_def a64_rd_def a64_rn_def a64_ra_def a64_rm_def simps)
  show "a64_sf w = sf" "(bit_field 24 w :: 7 word) = 0x1B" "(bit_field 21 w :: 3 word) = 0"
    by (simp_all add: w_def a64_sf_def simps)
qed

text \<open>
  What the architecture does with a word of the move-wide group, when it is a \<open>MOVZ\<close> or a
  \<open>MOVN\<close>: the size of the move, its register, and the value that it leaves there. The class
  is given by bits 23 to 28, the 16-bit immediate stands from bit 5 and is shifted by 16 times
  the field from bit 21, \<open>MOVN\<close> inverts the result, and the 32-bit form allows no shift of 32
  or more and keeps 32 bits. Every other word is none of these instructions.
\<close>

definition a64_mov_word :: "u32 \<Rightarrow> (bool \<times> u32 \<times> u64) option" where
  "a64_mov_word w =
     (let sf = a64_sf w; opc = (bit_field 29 w :: 2 word); hw = unat (bit_field 21 w :: 2 word);
          v = push_bit (16 * hw) (ucast (bit_field 5 w :: u16)) :: u64
      in if (bit_field 23 w :: 6 word) = 0x25 \<and> (opc = 0 \<or> opc = 2) \<and> (sf \<or> hw < 2)
         then Some (sf, a64_rd w, take_bit (if sf then 64 else 32) (if opc = 2 then v else NOT v))
         else None)"

lemma mov_fields:
  fixes sf :: bool
  assumes "unat r < 2 ^ 5" and "unat hw < 2 ^ 2" and "unat imm < 2 ^ 16"
    and "t = 0x52800000 \<or> t = 0x12800000"
  defines "w \<equiv> t OR flag_bit sf 31 OR push_bit 21 hw OR push_bit 5 imm OR (r :: u32)"
  shows "bit_field 21 w = (ucast hw :: 2 word)" and "bit_field 5 w = (ucast imm :: u16)"
    and "bit_field 29 w = (if t = 0x52800000 then 2 else 0 :: 2 word)"
    and "bit_field 23 w = (0x25 :: 6 word)" and "a64_rd w = r" and "a64_sf w = sf"
  using assms(4)
  by (auto simp: w_def flag_bit_def a64_rd_def a64_sf_def bit_field_below [OF assms(1)]
      bit_field_below [OF assms(2)] bit_field_below [OF assms(3)] bit_field_small [OF assms(1)]
      bit_field_0 [of r] ucast_reg5 [OF assms(1)] mov_templates)

lemma mov_word_template:
  assumes "unat r < 2 ^ 5" and "k < 4" and "unat imm < 2 ^ 16"
  shows "a64_mov_word (0x52800000 OR flag_bit sf 31 OR push_bit 21 (of_nat k) OR push_bit 5 imm OR r) =
         (if sf \<or> k < 2
          then Some (sf, r, take_bit (if sf then 64 else 32) (push_bit (16 * k) (ucast (ucast imm :: u16))))
          else None)"
    and "a64_mov_word (0x12800000 OR flag_bit sf 31 OR push_bit 21 0 OR push_bit 5 imm OR r) =
         Some (sf, r, take_bit (if sf then 64 else 32) (NOT (ucast (ucast imm :: u16))))"
proof -
  have "k = 0 \<or> k = 1 \<or> k = 2 \<or> k = 3" using assms(2) by linarith
  then have k: "unat (of_nat k :: u32) < 2 ^ 2" "unat (ucast (of_nat k :: u32) :: 2 word) = k"
    by auto
  show "a64_mov_word (0x52800000 OR flag_bit sf 31 OR push_bit 21 (of_nat k) OR push_bit 5 imm OR r) =
         (if sf \<or> k < 2
          then Some (sf, r, take_bit (if sf then 64 else 32) (push_bit (16 * k) (ucast (ucast imm :: u16))))
          else None)"
    unfolding a64_mov_word_def
    using mov_fields [OF assms(1) k(1) assms(3), of "0x52800000" sf] k(2) by (simp add: Let_def)
  show "a64_mov_word (0x12800000 OR flag_bit sf 31 OR push_bit 21 0 OR push_bit 5 imm OR r) =
         Some (sf, r, take_bit (if sf then 64 else 32) (NOT (ucast (ucast imm :: u16))))"
    unfolding a64_mov_word_def
    using mov_fields [OF assms(1) _ assms(3), of 0 "0x12800000" sf] by (simp add: Let_def)
qed

text \<open>When the shifted or the inverted immediate is the wanted value, cut to the width of the move.\<close>

lemma take_not_ucast_u16_iff:
  assumes "n = 32 \<or> n = (64 :: nat)"
  shows "take_bit n (NOT (ucast (ucast (take_bit 16 (ucast (NOT v) :: u32)) :: u16)) :: u64) = take_bit n v \<longleftrightarrow>
    unat (take_bit n (NOT v)) < 2 ^ 16"
proof -
  have low: "(ucast (ucast (take_bit 16 (ucast (NOT v) :: u32)) :: u16) :: u64) = take_bit 16 (NOT v)"
    by (rule bit_word_eqI) (auto simp: bit_ucast_iff bit_take_bit_iff)
  have "take_bit n (NOT x) = take_bit n v \<longleftrightarrow> take_bit n x = take_bit n (NOT v)" for x
    unfolding bit_eq_iff by (auto simp: bit_take_bit_iff bit_not_iff)
  moreover have "take_bit n (take_bit 16 (NOT v)) = take_bit 16 (take_bit n (NOT v))"
    using assms by (auto simp: take_bit_take_bit)
  moreover have "take_bit 16 w = w \<longleftrightarrow> unat w < 2 ^ 16" for w :: u64
    unfolding word_unat_eq_iff unsigned_take_bit_eq take_bit_nat_eq_self_iff ..
  ultimately show ?thesis unfolding low by metis
qed

lemma single_chunk_small:
  assumes "single_chunk v"
  shows "unat v < 2 ^ 32 \<longleftrightarrow> AArch64_mov_shift v < 32"
  using mov_shift_bounds [of v]
  by (auto simp: AArch64_mov_shift_def word_le_nat_alt not_le split: if_splits)

lemma single_chunk_not_small:
  assumes "single_chunk v" and "32 \<le> AArch64_mov_shift v" and "n = 32"
  shows "\<not> unat (take_bit n (NOT v)) < 2 ^ 16"
proof -
  have "take_bit n (take_bit (AArch64_mov_shift v) v) = take_bit n v"
    using assms(2,3) by (simp add: take_bit_take_bit min_absorb1)
  moreover have "take_bit (AArch64_mov_shift v) v = 0" using assms(1) by (simp add: single_chunk_iff)
  ultimately have "take_bit n v = 0" by simp
  then have "\<not> bit v k" if "k < n" for k
    using that by (metis bit_take_bit_iff bit_0_eq bot_apply bot_bool_def)
  then have "take_bit n (NOT v) = mask n"
    using assms(3) by (intro bit_word_eqI) (auto simp: bit_take_bit_iff bit_not_iff bit_mask_iff)
  then show ?thesis by (simp add: assms(3) mask_eq_exp_minus_1)
qed

text \<open>A module for the witnesses: one function with one block that returns.\<close>

definition ret_module :: m_module where
  "ret_module =
     \<lparr>mod_functions =
        [\<lparr>func_name = ''f'',
          func_basic_blocks =
            [\<lparr>block_label = ''a'',
              block_instrs = [\<lparr>instr_opcode = 52, instr_operands = [], instr_flags = 0\<rparr>]\<rparr>],
          func_stack_frame = \<lparr>frame_stack_slots = [], frame_call_arg_slot_indices = [], frame_reg_save_slot_indices = [], frame_size = 0, frame_total_size = 0\<rparr>, func_unwind_alloc_size = 0\<rparr>],
      mod_globals = [], mod_external_symbols = [], mod_global_symbols = [], mod_dll_exports = [],
      mod_addr_table = None\<rparr>"

section \<open>Properties\<close>

text \<open>
  C8: Every instruction that the AArch64 encoder accepts becomes exactly one 32-bit word: four
  little-endian bytes are appended to the text, with at most one symbol use, which points at
  the word, is not resolved and names a known symbol; nothing else of the builder changes.  Positions are
  unbounded in the model, which agrees with the code as long as the text is below 4 GiB.
\<close>

theorem AArch64_encode_instr_one_word:
  assumes "AArch64_encode_instr t i f (u, b) = Some (u', b')"
    and "single_slice (bb_text b)"
  shows "\<exists>(w :: u32) uses. section_bytes (bb_text b') = section_bytes (bb_text b) @ le_bytes 4 w \<and>
           single_slice (bb_text b') \<and>
           slice_uses (last (sect_slices (bb_text b'))) =
             slice_uses (last (sect_slices (bb_text b))) @ uses \<and>
           length uses \<le> 1 \<and>
           (\<forall>use \<in> set uses. use_local_offset use = of_nat (length (section_bytes (bb_text b))) \<and>
              \<not> use_is_resolved use \<and> use_index use \<in> ran (bb_symbol_indices b)) \<and>
           b' = b\<lparr>bb_text := bb_text b'\<rparr> \<and> u' = u"
proof -
  obtain uses w where b': "b' = emit_word uses w b" and uses: "length uses \<le> 1"
    "\<forall>use \<in> set uses. use_local_offset use = of_nat (SectionBuilder_cur_size (bb_text b)) \<and>
       use_addend use = 0 \<and> \<not> use_is_resolved use \<and> use_index use \<in> ran (bb_symbol_indices b)"
    and u: "u' = u"
    using encode_instr_emits [OF assms(1)] by (auto simp: word_emitted_def)
  obtain sl where sl: "sect_slices (bb_text b) = [] @ [sl]" and end_: "at_end (slice_buffer sl)"
    using assms(2) by (auto simp: single_slice_def)
  have bytes: "section_bytes (bb_text b') = section_bytes (bb_text b) @ le_bytes 4 w"
    and single: "single_slice (bb_text b')"
    and all_uses: "slice_uses (last (sect_slices (bb_text b'))) =
      slice_uses (last (sect_slices (bb_text b))) @ uses"
    using emit_word_slices [OF sl, of uses w] sl end_
    by (simp_all add: b' section_bytes_def write_simps single_slice_def)
  have rest: "b' = b\<lparr>bb_text := bb_text b'\<rparr>" by (simp add: b' emit_word_def)
  have new_uses: "\<forall>use \<in> set uses. use_local_offset use = of_nat (length (section_bytes (bb_text b))) \<and>
      \<not> use_is_resolved use \<and> use_index use \<in> ran (bb_symbol_indices b)"
    using uses(2) single_slice_size [OF assms(2)] by simp
  show ?thesis
    by (intro exI [of _ w] exI [of _ uses] conjI) fact+
qed

theorem AArch64_encode_instr_one_word_witness:
  "\<forall>t f u. \<exists>b' (w :: u32). AArch64_encode_instr t \<lparr>instr_opcode = 52, instr_operands = [], instr_flags = 0\<rparr> f
       (u, BinaryBuilder_new) = Some (u, b') \<and> section_bytes (bb_text b') = le_bytes 4 w"
proof (intro allI)
  fix t f u
  have "AArch64Opcode_of_int 52 = Some A64_RET"
    by (simp add: AArch64Opcode_of_int_def AArch64Opcodes_def)
  then obtain b' where b': "AArch64_encode_instr t \<lparr>instr_opcode = 52, instr_operands = [], instr_flags = 0\<rparr> f
      (u, BinaryBuilder_new) = Some (u, b')"
    by (simp add: AArch64_encode_instr_def AArch64_encode_opcode_def AArch64_encode_ret_def)
  have "single_slice (bb_text BinaryBuilder_new)"
    by (simp add: BinaryBuilder_new_def single_slice_new)
  moreover have "section_bytes (bb_text BinaryBuilder_new) = []"
    by (simp add: BinaryBuilder_new_def section_bytes_def SectionBuilder_new_def SectionSlice_new_def)
  ultimately show "\<exists>b' (w :: u32). AArch64_encode_instr t \<lparr>instr_opcode = 52, instr_operands = [], instr_flags = 0\<rparr> f
       (u, BinaryBuilder_new) = Some (u, b') \<and> section_bytes (bb_text b') = le_bytes 4 w" using AArch64_encode_instr_one_word [OF b'] b' by auto
qed

text \<open>
  C9: The functions of an AArch64 module partition its text: there are boundaries from 0 to the
  size of the text, in order, such that the unwind information of the \<open>k\<close>-th function spans
  from the \<open>k\<close>-th boundary to the next, and the symbol of the function is defined there,
  global, under its name (with the underscore of Darwin targets).  As in C8 the text is below 4 GiB.
\<close>

theorem AArch64_functions_partition_text:
  assumes "BinaryBuilder_encode (AArch64_encode_instr t) Some AArch64_resolve_internal_symbols darwin m =
             Some bin"
  shows "\<exists>ps. length ps = Suc (length (mod_functions m)) \<and> sorted ps \<and> hd ps = 0 \<and>
    last ps = length (buf_data (bm_text bin)) \<and>
    length (bm_unwind_info bin) = length (mod_functions m) \<and>
    (\<forall>k < length (mod_functions m).
       bui_start_addr (bm_unwind_info bin ! k) = of_nat (ps ! k) \<and>
       bui_end_addr (bm_unwind_info bin ! k) = of_nat (ps ! Suc k) \<and>
       \<lparr>bsd_name = (if darwin then ''_'' else '''') @ func_name (mod_functions m ! k),
        bsd_kind = TEXT_FUNC, bsd_offset = of_nat (ps ! k), bsd_global = True\<rparr>
          \<in> set (bm_symbol_defs bin))"
  using assms by (rule a64.encode_partition)

theorem AArch64_functions_partition_text_witness:
  "\<forall>t. \<exists>bin. BinaryBuilder_encode (AArch64_encode_instr t) Some AArch64_resolve_internal_symbols False
       ret_module = Some bin \<and> bui_start_addr (bm_unwind_info bin ! 0) = 0"
proof (intro allI)
  fix t
  have ret_opcode: "AArch64Opcode_of_int 52 = Some A64_RET"
    by (simp add: AArch64Opcode_of_int_def AArch64Opcodes_def)
  have "\<exists>bin. BinaryBuilder_encode (AArch64_encode_instr t) Some AArch64_resolve_internal_symbols False
      ret_module = Some bin"
    apply (simp add: BinaryBuilder_encode_def ret_module_def BinaryBuilder_new_def SectionBuilder_new_def
   SectionSlice_new_def BinaryBuilder_generate_external_symbols_def BinaryBuilder_declare_def
   BinaryBuilder_declare_function_def BinaryBuilder_declare_block_def BinaryBuilder_add_func_symbol_def
   BinaryBuilder_add_label_symbol_def BinaryBuilder_add_empty_label_def SectionBuilder_add_symbol_def_def
   BinaryBuilder_add_symbol_def_def SymbolDef_make_def Let_def BinaryBuilder_generate_data_slices_def
   BinaryBuilder_generate_addr_table_slices_def BinaryBuilder_encode_function_def BinaryBuilder_encode_block_def
   SectionBuilder_attach_symbol_def_def)
    apply (simp add: AArch64_encode_instr_def ret_opcode AArch64_encode_opcode_def AArch64_encode_ret_def
    SectionBuilder_cur_size_def SectionBuilder_cur_slice_def)
    apply (simp add: text_write_u32_def SectionBuilder_write_def SectionBuilder_update_slice_def
   WriteBuffer_get_size_def WriteBuffer_new_def write_simps SectionBuilder_cur_size_def
   SectionBuilder_cur_slice_def)
    apply (simp add: BinaryBuilder_compute_slice_offsets_def SectionBuilder_compute_slice_offsets_def
   AArch64_resolve_internal_symbols_def AArch64_resolve_slice_def BinaryBuilder_create_module_def
   BinaryBuilder_bake_symbol_locations_def BinaryBuilder_bake_symbol_location_def SectionBuilder_bake_def
   SectionBuilder_bake_slice_def BinaryBuilder_bake_unwind_info_def BinaryBuilder_bake_frame_def BinaryBuilder_def_offset_def)
    done
  then obtain bin where bin: "BinaryBuilder_encode (AArch64_encode_instr t) Some
      AArch64_resolve_internal_symbols False ret_module = Some bin" ..
  have "bui_start_addr (bm_unwind_info bin ! 0) = 0"
    using AArch64_functions_partition_text [OF bin]
  proof (elim exE conjE)
    fix ps :: "nat list"
    assume "length ps = Suc (length (mod_functions ret_module))" "hd ps = 0"
    then have "ps ! 0 = 0" by (cases ps) auto
    moreover assume "\<forall>k < length (mod_functions ret_module).
       bui_start_addr (bm_unwind_info bin ! k) = of_nat (ps ! k) \<and>
       bui_end_addr (bm_unwind_info bin ! k) = of_nat (ps ! Suc k) \<and>
       \<lparr>bsd_name = (if False then ''_'' else []) @ func_name (mod_functions ret_module ! k),
        bsd_kind = TEXT_FUNC, bsd_offset = of_nat (ps ! k), bsd_global = True\<rparr>
          \<in> set (bm_symbol_defs bin)"
    ultimately show ?thesis by (simp add: ret_module_def)
  qed
  then show "\<exists>bin. BinaryBuilder_encode (AArch64_encode_instr t) Some AArch64_resolve_internal_symbols False
      ret_module = Some bin \<and> bui_start_addr (bm_unwind_info bin ! 0) = 0"
    using bin by blast
qed

text \<open>
  C10: Address offsets: for loads and stores of one, two and eight bytes, every offset that
  \<open>is_addr_offset_encodable\<close> accepts is encoded so that the architecture reads the same offset
  and base back. For four bytes this is false: the check accepts every offset from -4096 to
  4095, but an offset that is not a multiple of four has nine signed bits only, and 258 is
  encoded as -254.
\<close>

theorem AArch64_addr_offset_encodable:
  assumes "AArch64_encode_gp_reg (Register_get_physical_reg base) = Some r"
  shows "(s \<in> {0, 1, 3} \<longrightarrow> is_addr_offset_encodable off (of_nat (2 ^ s)) = Some True \<longrightarrow>
            (\<exists>bits. AArch64_encode_addr (const_addr base off) s b = Some (bits, b) \<and>
               a64_addr_offset s bits = sint off \<and> a64_addr_base bits = r)) \<and>
         is_addr_offset_encodable 258 4 = Some True \<and>
         (\<exists>bits. AArch64_encode_addr (const_addr base 258) 2 b = Some (bits, b) \<and>
            a64_addr_offset 2 bits = - 254)"
proof (intro conjI impI)
  assume s: "s \<in> {0, 1, 3}" and ok: "is_addr_offset_encodable off (of_nat (2 ^ s)) = Some True"
  then have "(- 256 \<le> sint off \<and> sint off \<le> 255) \<or>
             (0 \<le> sint off \<and> sint off < 2 ^ (12 + s) \<and> sint off mod 2 ^ s = 0)"
    by (auto simp: is_addr_offset_encodable_def is_addr_8_offset_encodable_def
        is_addr_16_offset_encodable_def is_addr_64_offset_encodable_def split: if_splits)
  then show "\<exists>bits. AArch64_encode_addr (const_addr base off) s b = Some (bits, b) \<and>
      a64_addr_offset s bits = sint off \<and> a64_addr_base bits = r"
    using encode_const_addr [OF assms] s by auto
next
  show "is_addr_offset_encodable 258 4 = Some True"
    by (simp add: is_addr_offset_encodable_def is_addr_32_offset_encodable_def)
  have "AArch64_encode_addr (const_addr base 258) 2 b = Some (0 OR push_bit 12 258 OR push_bit 5 r, b)"
    using assms
    by (simp add: AArch64_encode_addr_def of_int_less_0
        scaled_offset_check [of 2, unfolded push_bit_of_1, simplified] encode_imm_eq of_int_bits)
  moreover have "a64_addr_offset 2 (0 OR push_bit 12 258 OR push_bit 5 r) = - 254"
    using unscaled_addr_fields(1) [OF unat_gp_reg [OF assms], of 258 2] by simp
  ultimately show "\<exists>bits. AArch64_encode_addr (const_addr base 258) 2 b = Some (bits, b) \<and>
      a64_addr_offset 2 bits = - 254" by blast
qed

theorem AArch64_addr_offset_encodable_witness:
  "\<exists>bits. AArch64_encode_addr (const_addr (Register_from_physical 1) 16) 3 BinaryBuilder_new =
     Some (bits, BinaryBuilder_new) \<and> a64_addr_offset 3 bits = 16"
proof -
  have r: "AArch64_encode_gp_reg (Register_get_physical_reg (Register_from_physical 1)) = Some 1"
    by (simp add: AArch64_encode_gp_reg_def Register_get_physical_reg_def Register_from_physical_def
        aarch64_regs)
  have "is_addr_offset_encodable 16 (of_nat (2 ^ 3)) = Some True"
    by (simp add: is_addr_offset_encodable_def is_addr_64_offset_encodable_def)
  then show ?thesis
    using AArch64_addr_offset_encodable [OF r, of 3 16 BinaryBuilder_new] by auto
qed

text \<open>
  C11: Moving a constant into a register with one \<open>mov\<close> is encoded as one word, and that word is
  a \<open>MOVZ\<close> or \<open>MOVN\<close> of the operand's size and register that leaves exactly the constant (its
  lower 32 bits for a narrow register) in these cases and in no others: the constant is a 16-bit
  value shifted by 0, 16, 32 or 48 bits that fits in the register, or its complement within
  the register fits in 16 bits. For every other constant the \<open>MOVN\<close> path drops the upper bits
  without a check (or the shift is not one of the 32-bit form), so the caller must not ask for
  such a constant.
\<close>

theorem AArch64_mov_constant:
  assumes "AArch64_encode_mov i b = Some b'"
    and "Instruction_get_operand i 0 = Some m_dst" and "A64_gp i 0 = Some r"
    and "Instruction_get_operand i 1 = Some m_src" and "op_value m_src = Op_int_immediate v"
  defines "is_64 \<equiv> op_size m_dst = 8" and "width \<equiv> if op_size m_dst = 8 then 64 else (32 :: nat)"
  shows "\<exists>w. b' = text_write_u32 w b \<and>
           (a64_mov_word w = Some (is_64, r, take_bit width (LargeInt_to_bits v)) \<longleftrightarrow>
              single_chunk (LargeInt_to_bits v) \<and> unat (LargeInt_to_bits v) < 2 ^ width \<or>
              unat (take_bit width (NOT (LargeInt_to_bits v))) < 2 ^ 16)"
proof -
  let ?v = "LargeInt_to_bits v" and ?s = "AArch64_mov_shift (LargeInt_to_bits v)"
  have sf: "A64_is_64 i 0 = Some is_64" using assms(2) by (simp add: A64_is_64_def is_64_def)
  note r = assms(3) and r5 = A64_gp_less [OF assms(3)]
  have width: "width = (if is_64 then 64 else 32)" by (simp add: width_def is_64_def)
  have fits: "unat ?v < 2 ^ 64" using unsigned_less [of ?v, where 'a=nat] by simp
  have mask: "?v AND (push_bit ?s 1 - 1) = take_bit ?s ?v"
    by (simp only: push_bit_1_minus_1 take_bit_eq_mask)
  show ?thesis
  proof (cases "take_bit ?s ?v = 0")
    case True
    let ?imm = "take_bit 16 (ucast (drop_bit ?s ?v)) :: u32"
    have s: "?s div 16 < 4" "16 * (?s div 16) = ?s" using mov_shift_bounds(1) [of ?v] by auto
    have b': "b' = text_write_u32 (0x52800000 OR flag_bit is_64 31 OR push_bit 21 (of_nat (?s div 16)) OR
        push_bit 5 ?imm OR r) b"
      using assms(1,4,5) r sf hw_imm [OF mov_shift_bounds(1), of ?v] True
      by (simp add: AArch64_encode_mov_def mask Let_def encode_imm_eq [of 16] of_unsigned_long_bits
          del: push_bit_of_1)
    have imm: "(ucast ?imm :: u16) = ucast (drop_bit ?s ?v)"
      by (rule bit_word_eqI) (auto simp: bit_ucast_iff bit_take_bit_iff)
    have "?v AND NOT (mask ?s) = ?v"
    proof (rule bit_word_eqI)
      fix n
      have "\<not> bit ?v n" if "n < ?s"
        using True that by (metis bit_take_bit_iff bit_0_eq bot_apply bot_bool_def)
      then show "bit (?v AND NOT (mask ?s)) n = bit ?v n" if "n < LENGTH(64)"
        using that by (auto simp: bit_and_iff bit_not_iff bit_mask_iff)
    qed
    note moved = drop_mov_shift [of ?v, unfolded this]
    have chunk: "single_chunk ?v" using True by (simp add: single_chunk_iff)
    have "?s div 16 < 2 \<longleftrightarrow> unat ?v < 2 ^ 32"
      unfolding single_chunk_small [OF chunk] using s by auto
    moreover have "\<not> unat (take_bit 32 (NOT ?v)) < 2 ^ 16" if "\<not> unat ?v < 2 ^ 32"
      using single_chunk_not_small [OF chunk _ refl] that single_chunk_small [OF chunk] by simp
    ultimately show ?thesis
      using b' mov_word_template(1) [OF r5 s(1) unat_take_bit_less, where sf=is_64]
      by (intro exI [of _ "0x52800000 OR flag_bit is_64 31 OR push_bit 21 (of_nat (?s div 16)) OR
        push_bit 5 ?imm OR r"]) (cases is_64; simp add: imm moved s(2) chunk width fits [simplified])
  next
    case False
    let ?imm = "take_bit 16 (ucast (NOT ?v)) :: u32"
    have b': "b' = text_write_u32 (0x12800000 OR flag_bit is_64 31 OR push_bit 21 0 OR push_bit 5 ?imm OR r) b"
      using assms(1,4,5) r sf hw_imm [of 0] False
      by (simp add: AArch64_encode_mov_def mask Let_def encode_imm_eq [of 16] of_unsigned_long_bits
          del: push_bit_of_1)
    have "width = 32 \<or> width = 64" by (simp add: width)
    note iff = take_not_ucast_u16_iff [OF this, of ?v]
    have "\<not> single_chunk ?v" using False by (simp add: single_chunk_iff)
    then show ?thesis
      using b' mov_word_template(2) [OF r5 zero_less_numeral unat_take_bit_less, where sf=is_64] iff
      by (intro exI [of _ "0x12800000 OR flag_bit is_64 31 OR push_bit 21 0 OR push_bit 5 ?imm OR r"])
        (simp add: width)
  qed
qed

theorem AArch64_mov_constant_witness:
  "\<exists>b' w. AArch64_encode_mov \<lparr>instr_opcode = 0, instr_operands =
       [\<lparr>op_value = Op_register (Register_from_physical 3), op_size = 8\<rparr>,
        \<lparr>op_value = Op_int_immediate (LargeInt_of_unsigned_long 0x50000), op_size = 0\<rparr>],
       instr_flags = 0\<rparr> BinaryBuilder_new = Some b' \<and>
     b' = text_write_u32 w BinaryBuilder_new \<and> a64_mov_word w = Some (True, 3, 0x50000)"
proof -
  let ?dst = "\<lparr>op_value = Op_register (Register_from_physical 3), op_size = 8\<rparr>"
  let ?src = "\<lparr>op_value = Op_int_immediate (LargeInt_of_unsigned_long 0x50000), op_size = 0\<rparr>"
  let ?i = "\<lparr>instr_opcode = 0, instr_operands = [?dst, ?src], instr_flags = 0\<rparr>"
  have dst: "Instruction_get_operand ?i 0 = Some ?dst" and src: "Instruction_get_operand ?i 1 = Some ?src"
    by (simp_all add: Instruction_get_operand_def)
  have r: "A64_gp ?i 0 = Some 3" "A64_is_64 ?i 0 = Some True"
    by (simp_all add: A64_gp_def A64_is_64_def Instruction_get_operand_def Operand_get_physical_reg_def
        Operand_get_register_def Register_from_physical_def Register_get_physical_reg_def
        AArch64_encode_gp_reg_def aarch64_regs)
  then obtain b' where b': "AArch64_encode_mov ?i BinaryBuilder_new = Some b'"
    using src by (simp add: AArch64_encode_mov_def of_unsigned_long_bits Let_def AArch64_mov_shift_def
        word_le_nat_alt encode_imm_eq of_unsigned_bits)
  have "single_chunk 0x50000"
    unfolding single_chunk_def by (intro exI [of _ 1] conjI exI [of _ 5]) simp_all
  then show ?thesis
    using AArch64_mov_constant [OF b' dst r(1) src] b' by (auto simp: of_unsigned_long_bits)
qed

end
