(* ===== verification/AArch64_Link.thy ===== *)
theory AArch64_Link
  imports AArch64_Correct
begin

section \<open>Linking inside the text, and constants\<close>

text \<open>
  What the second half of the AArch64 back end promises: branches inside the text are patched so
  that the architecture jumps to their targets, the register fields of the multiply-accumulate
  instructions are those of the operands, and the constants that \<open>aarch64_immediate.cpp\<close>
  offers to the instruction selection are the ones that the encoder can write.
\<close>

unbundle bit_operations_syntax

subsection \<open>Resolving branches\<close>

text \<open>The word at a place of a slice, and the branches that are resolved inside the text.\<close>

definition slice_word :: "section_slice \<Rightarrow> nat \<Rightarrow> u32" where
  "slice_word sl p = u32_of_bytes (take 4 (drop p (buf_data (slice_buffer sl))))"

definition internal_branch :: "binary_builder \<Rightarrow> symbol_use \<Rightarrow> u32 \<Rightarrow> bool" where
  "internal_branch b use template \<longleftrightarrow>
     use_kind use = LABEL_BRANCH \<and>
       (template = 0x14000000 \<or> template \<in> {0x54000000 OR AArch64_encode_cond c | c. True}) \<or>
     use_kind use \<in> {CALL26, BRANCH26} \<and> def_kind (bb_defs b ! use_index use) = TEXT_FUNC \<and>
       (template = 0x14000000 \<or> template = 0x94000000)"

definition branch_target :: "binary_builder \<Rightarrow> symbol_use \<Rightarrow> u32" where
  "branch_target b use =
     (let def = bb_defs b ! use_index use
      in slice_offset (sect_slices (bb_text b) ! def_slice_index def) + def_local_offset def)"

lemma compute_displacement_Some:
  "BinaryBuilder_compute_displacement b sl use = Some d \<longleftrightarrow>
     use_index use < length (bb_defs b) \<and>
     def_slice_index (bb_defs b ! use_index use) < length (sect_slices (bb_text b)) \<and>
     d = branch_target b use - (slice_offset sl + use_local_offset use)"
  by (auto simp: BinaryBuilder_compute_displacement_def branch_target_def Let_def Option.bind_eq_Some_conv)

lemma read_u32_seek:
  assumes "p + 4 \<le> length (buf_data (slice_buffer sl))"
  shows "WriteBuffer_read_u32 (WriteBuffer_seek (slice_buffer sl) p) =
         Some (slice_word sl p, WriteBuffer_seek (slice_buffer sl) (p + 4))"
  using assms
  by (simp add: WriteBuffer_read_u32_def WriteBuffer_read_data_def WriteBuffer_seek_def slice_word_def)

text \<open>A slice with one word replaced.\<close>

definition patch_slice :: "section_slice \<Rightarrow> nat \<Rightarrow> u32 \<Rightarrow> section_slice" where
  "patch_slice sl p w =
     sl\<lparr>slice_buffer := WriteBuffer_write_u32 (WriteBuffer_seek (slice_buffer sl) p) w\<rparr>"

lemma patch_slice_props:
  assumes "p + 4 \<le> length (buf_data (slice_buffer sl))"
  shows "slice_word (patch_slice sl p w) p = w"
    and "length (buf_data (slice_buffer (patch_slice sl p w))) = length (buf_data (slice_buffer sl))"
    and "i < p \<or> p + 4 \<le> i \<Longrightarrow>
         buf_data (slice_buffer (patch_slice sl p w)) ! i = buf_data (slice_buffer sl) ! i"
    and "slice_offset (patch_slice sl p w) = slice_offset sl"
    and "slice_uses (patch_slice sl p w) = slice_uses sl"
proof -
  have "p + length (le_bytes 4 w) \<le> length (buf_data (slice_buffer sl))" using assms by simp
  then have data: "buf_data (slice_buffer (patch_slice sl p w)) =
      take p (buf_data (slice_buffer sl)) @ le_bytes 4 w @ drop (p + 4) (buf_data (slice_buffer sl))"
    using store_in_place by (simp add: patch_slice_def write_simps)
  show "slice_word (patch_slice sl p w) p = w"
    using assms by (simp add: slice_word_def data)
  show "length (buf_data (slice_buffer (patch_slice sl p w))) = length (buf_data (slice_buffer sl))"
    using assms by (simp add: data)
  show "buf_data (slice_buffer (patch_slice sl p w)) ! i = buf_data (slice_buffer sl) ! i"
    if "i < p \<or> p + 4 \<le> i"
    using that assms by (auto simp: data nth_append)
qed (simp_all add: patch_slice_def)

lemma take_bit_2_mask: "(w :: u64) AND (push_bit 2 1 - 1) = take_bit 2 w"
  by (simp only: push_bit_1_minus_1 take_bit_eq_mask)

lemma branch_imm:
  assumes "take_bit 2 (ucast (d :: u32) :: u64) = 0" and "n \<le> 32"
  shows "AArch64_encode_imm (LargeInt_of_unsigned d) n 2 =
         Some (take_bit n (ucast (drop_bit 2 (ucast d :: u64))))"
  using assms by (simp add: encode_imm_eq of_unsigned_bits take_bit_2_mask)

lemma resolve_internal_branch:
  assumes "BinaryBuilder_compute_displacement b sl use = Some d"
    and fits: "unat (use_local_offset use) + 4 \<le> length (buf_data (slice_buffer sl))"
    and branch: "internal_branch b use (slice_word sl (unat (use_local_offset use)))"
    and aligned: "take_bit 2 (ucast d :: u64) = 0"
  shows "AArch64_resolve_symbol b use sl = Some (use\<lparr>use_is_resolved := True\<rparr>,
     patch_slice sl (unat (use_local_offset use))
       (let w = slice_word sl (unat (use_local_offset use))
        in if (bit_field 24 w :: 8 word) = 0x54
           then w OR push_bit 5 (take_bit 19 (ucast (drop_bit 2 (ucast d :: u64))))
           else w OR take_bit 26 (ucast (drop_bit 2 (ucast d :: u64)))))"
proof -
  let ?w = "slice_word sl (unat (use_local_offset use))"
  have seek: "WriteBuffer_seek (WriteBuffer_seek bf p) q = WriteBuffer_seek bf q" for bf p q
    by (simp add: WriteBuffer_seek_def)
  have cond: "drop_bit 24 (AArch64_encode_cond c) = 0"
    "(bit_field 24 (AArch64_encode_cond c) :: 8 word) = 0" for c
    by (cases c; simp add: AArch64_encode_cond_def bit_field_def)+
  have plain: "drop_bit 24 (0x14000000 :: u32) = 0x14" "(bit_field 24 (0x14000000 :: u32) :: 8 word) = 0x14"
    "(bit_field 24 (0x94000000 :: u32) :: 8 word) = 0x94"
    "(bit_field 24 (0x54000000 :: u32) :: 8 word) = 0x54"
    by (simp_all add: bit_field_def)
  have bound: "use_index use < length (bb_defs b)"
    using assms(1) by (simp add: compute_displacement_Some)
  show ?thesis
    using branch unfolding internal_branch_def AArch64_resolve_symbol_def
    by (elim disjE conjE) (auto simp: read_u32_seek [OF fits] seek assms(1) bound cond plain
        branch_imm [OF aligned] patch_slice_def is_one_of_def Let_def)
qed


subsection \<open>Register fields of the multiplications\<close>

text \<open>
  What the architecture does with a word of the three-source data processing group when it is
  a \<open>MADD\<close> or an \<open>MSUB\<close>: the register it writes and the value computed from the values \<open>R\<close> of
  the registers. The group is given by bits 24 to 30, the two instructions by zero in bits 21
  to 23, and bit 15 selects the subtraction; \<open>MUL\<close> is \<open>MADD\<close> with the zero register. A 32-bit
  form keeps 32 bits. Every other word is none of these instructions.
\<close>

definition a64_madd :: "(u32 \<Rightarrow> u64) \<Rightarrow> u32 \<Rightarrow> (u32 \<times> u64) option" where
  "a64_madd R w =
     (let product = R (a64_rn w) * R (a64_rm w);
          result = (if bit w 15 then R (a64_ra w) - product else R (a64_ra w) + product)
      in if (bit_field 24 w :: 7 word) = 0x1B \<and> (bit_field 21 w :: 3 word) = 0
         then Some (a64_rd w, take_bit (if a64_sf w then 64 else 32) result)
         else None)"

lemma madd_bit15:
  assumes "unat rd < 2 ^ 5" and "unat rn < 2 ^ 5" and "unat ra < 2 ^ 5"
  shows "bit (p OR flag_bit sf 31 OR push_bit 16 rm OR push_bit 10 ra OR push_bit 5 rn OR (rd :: u32)) 15
         \<longleftrightarrow> bit p 15"
  using not_bit_small [OF assms(1), of 15] not_bit_small [OF assms(2), of 10]
    not_bit_small [OF assms(3), of 5]
  by (simp add: bit_or_iff bit_push_bit_iff flag_bit_def del: push_bit_eq_mult)

lemma madd_word:
  fixes sf :: bool
  assumes "unat rd < 2 ^ 5" and "unat rn < 2 ^ 5" and "unat ra < 2 ^ 5" and "unat rm < 2 ^ 5"
    and "p = 0x1B000000 \<or> p = 0x1B008000"
  defines "w \<equiv> p OR flag_bit sf 31 OR push_bit 16 rm OR push_bit 10 ra OR push_bit 5 rn OR rd"
  shows "a64_madd R w =
     Some (rd, take_bit (if sf then 64 else 32)
       (if p = 0x1B008000 then R ra - R rn * R rm else R ra + R rn * R rm))"
proof -
  have "bit w 15 \<longleftrightarrow> p = 0x1B008000"
    unfolding w_def madd_bit15 [OF assms(1-3)] using assms(5) by auto
  then show ?thesis
    using madd_fields [OF assms(1-5), of sf, folded w_def] by (simp add: a64_madd_def Let_def)
qed


subsection \<open>Constants in registers\<close>



definition a64_instr :: "int \<Rightarrow> operand list \<Rightarrow> m_instr" where
  "a64_instr opcode operands = \<lparr>instr_opcode = opcode, instr_operands = operands, instr_flags = 0\<rparr>"







subsubsection \<open>Encoding and executing one move\<close>






definition encodes_to :: "target_description \<Rightarrow> m_function \<Rightarrow> m_instr list \<Rightarrow> u32 list \<Rightarrow> bool" where
  "encodes_to t f is ws \<longleftrightarrow>
     (\<forall>u b. for_each is (\<lambda>i. AArch64_encode_instr t i f) (u, b) = Some (u, fold text_write_u32 ws b))"

lemma encodes_to_Nil [intro]: "encodes_to t f [] []"
  by (simp add: encodes_to_def)










subsubsection \<open>Assembling a value from its elements\<close>















subsection \<open>Floating-point constants\<close>

text \<open>The constant of an \<open>FMOV\<close> as the architecture expands its eight bits (\<open>VFPExpandImm\<close>).\<close>

definition a64_expand_f64_imm :: "u32 \<Rightarrow> u64" where
  "a64_expand_f64_imm e =
     push_bit 63 (of_bool (bit e 7)) OR
     (if bit e 6 then 0x3FC0000000000000 else 0x4000000000000000) OR
     push_bit 48 (ucast (take_bit 6 e))"

lemma float_masks:
  "(0x0000FFFFFFFFFFFF :: u64) = mask 48" "(0x7FC0000000000000 :: u64) = push_bit 54 (mask 9)"
  "(0x8000000000000000 :: u64) = push_bit 63 1" "(0x007F000000000000 :: u64) = push_bit 48 (mask 7)"
  "(0x3F :: u64) = mask 6" "(0x40 :: u64) = push_bit 6 1"
  "(0x7FFFFFFFFFFFFFFF :: u64) = mask 63"
  "(0x3FC0000000000000 :: u64) = push_bit 54 (mask 8)" "(0x4000000000000000 :: u64) = push_bit 62 1"
  by (simp_all add: mask_eq_exp_minus_1)

lemma f64_imm_fields:
  "drop_bit 54 (d AND 0x7FC0000000000000) = (ucast (bit_field 54 d :: 9 word) :: u64)"
  "(ucast (drop_bit 56 (d AND 0x8000000000000000) OR drop_bit 48 (d AND 0x007F000000000000)) :: u32) =
     push_bit 7 (of_bool (bit d 63)) OR ucast (bit_field 48 d :: 7 word)"
  unfolding float_masks
  by (rule bit_word_eqI;
      auto simp: bit_drop_bit_eq bit_and_iff bit_push_bit_iff bit_mask_iff bit_ucast_iff bit_bit_field
        bit_or_iff bit_1_iff simp del: push_bit_eq_mult push_bit_of_1)+

lemma encode_f64_imm_iff:
  "AArch64_encode_f64_imm d = Some e \<longleftrightarrow>
     take_bit 48 d = 0 \<and> (bit_field 54 d :: 9 word) \<in> {0x100, 0xFF} \<and>
     e = push_bit 7 (of_bool (bit d 63)) OR ucast (bit_field 48 d :: 7 word)"
proof -
  have narrow: "(ucast (ucast x :: u64) :: 9 word) = x" for x :: "9 word"
    by (rule bit_word_eqI) (simp add: bit_ucast_iff)
  have "(ucast x :: u64) = 0x100 \<longleftrightarrow> x = 0x100" "(ucast x :: u64) = 0xFF \<longleftrightarrow> x = 0xFF" for x :: "9 word"
    using narrow [of x] by auto
  then show ?thesis
    unfolding AArch64_encode_f64_imm_def f64_imm_fields
    by (auto simp: Let_def Option.bind_eq_Some_conv take_bit_eq_mask float_masks(1) [symmetric])
qed

lemma exponent_bits:
  assumes "(bit_field 54 (d :: u64) :: 9 word) = (if c then 0xFF else 0x100)" and "54 \<le> n" and "n < 63"
  shows "bit d n \<longleftrightarrow> bit (if c then 0x3FC0000000000000 else 0x4000000000000000 :: u64) n"
proof -
  have "bit d n \<longleftrightarrow> bit (bit_field 54 d :: 9 word) (n - 54)"
    using assms(2,3) by (auto simp: bit_bit_field less_diff_conv2)
  also have "\<dots> \<longleftrightarrow> bit (if c then mask 8 else push_bit 8 1 :: 9 word) (n - 54)"
    by (simp add: assms(1) mask_eq_exp_minus_1)
  also have "\<dots> \<longleftrightarrow> bit (if c then push_bit 54 (mask 8) else push_bit 62 1 :: u64) n"
    using assms(2,3) by (auto simp: bit_mask_iff bit_push_bit_iff bit_1_iff simp del: push_bit_of_1)
  finally show ?thesis by (simp only: float_masks(8,9))
qed

lemma exponent_choice:
  "(bit_field 54 (d :: u64) :: 9 word) \<in> {0x100, 0xFF} \<longleftrightarrow>
   (bit_field 54 d :: 9 word) = (if bit d 54 then 0xFF else 0x100)"
proof -
  have "bit d 54 \<longleftrightarrow> bit (bit_field 54 d :: 9 word) 0" by (simp add: bit_bit_field)
  then show ?thesis by auto
qed

lemma encode_f64_imm_expand:
  assumes "AArch64_encode_f64_imm d = Some e"
  shows "a64_expand_f64_imm e = d" and "unat e < 2 ^ 8"
proof -
  have low: "take_bit 48 d = 0" and ex: "(bit_field 54 d :: 9 word) = (if bit d 54 then 0xFF else 0x100)"
    and e: "e = push_bit 7 (of_bool (bit d 63)) OR ucast (bit_field 48 d :: 7 word)"
    using assms exponent_choice [of d] by (auto simp: encode_f64_imm_iff)
  have e': "take_bit 8 e = e"
    unfolding e by (rule bit_word_eqI)
      (auto simp: bit_take_bit_iff bit_or_iff bit_push_bit_iff bit_ucast_iff bit_bit_field bit_1_iff
        simp del: push_bit_eq_mult push_bit_of_1)
  have "unat (take_bit 8 e) < 2 ^ 8" by (rule unat_take_bit_less)
  then show "unat e < 2 ^ 8" by (simp only: e')
  have bits: "bit e 7 \<longleftrightarrow> bit d 63" "bit e 6 \<longleftrightarrow> bit d 54"
    unfolding e
    by (auto simp: bit_or_iff bit_push_bit_iff bit_ucast_iff bit_bit_field bit_1_iff
        simp del: push_bit_eq_mult push_bit_of_1)
  have frac: "bit e (n - 48) \<longleftrightarrow> bit d n" if "48 \<le> n" "n < 54" for n
    using that unfolding e
    by (auto simp: bit_or_iff bit_push_bit_iff bit_ucast_iff bit_bit_field bit_1_iff less_diff_conv2
        simp del: push_bit_eq_mult push_bit_of_1)
  have low': "\<not> bit d n" if "n < 48" for n
    using low that by (metis bit_take_bit_iff bit_0_eq bot_apply bot_bool_def)
  have mid: "bit (if c then 0x3FC0000000000000 else 0x4000000000000000 :: u64) n \<longleftrightarrow>
      (if c then 54 \<le> n \<and> n < 62 else n = 62)" if "n < 64" for n c
    using that unfolding float_masks(8,9)
    by (auto simp: bit_push_bit_iff bit_mask_iff bit_1_iff simp del: push_bit_of_1)
  have expanded: "bit (a64_expand_f64_imm e) n \<longleftrightarrow>
      n = 63 \<and> bit d 63 \<or> (if bit d 54 then 54 \<le> n \<and> n < 62 else n = 62) \<or>
      48 \<le> n \<and> n < 54 \<and> bit d n" if "n < 64" for n
  proof -
    have "bit (push_bit 63 (of_bool (bit e 7)) :: u64) n \<longleftrightarrow> n = 63 \<and> bit d 63"
      using that bits by (auto simp: bit_push_bit_iff bit_1_iff simp del: push_bit_eq_mult push_bit_of_1)
    moreover have "bit (push_bit 48 (ucast (take_bit 6 e)) :: u64) n \<longleftrightarrow> 48 \<le> n \<and> n < 54 \<and> bit d n"
      using that frac [of n]
      by (auto simp: bit_push_bit_iff bit_ucast_iff bit_take_bit_iff less_diff_conv2
          simp del: push_bit_eq_mult push_bit_of_1)
    ultimately show ?thesis
      using mid [OF that] unfolding a64_expand_f64_imm_def bit_or_iff bits by simp
  qed
  show "a64_expand_f64_imm e = d"
  proof (rule bit_word_eqI)
    fix n
    assume "n < LENGTH(64)"
    then have n: "n < 64" by simp
    then consider "n < 48" | "48 \<le> n" "n < 54" | "54 \<le> n" "n < 63" | "n = 63" by linarith
    then show "bit (a64_expand_f64_imm e) n = bit d n"
      using low' exponent_bits [OF ex, of n] mid [OF n] unfolding expanded [OF n]
      by cases auto
  qed
qed

lemma encodable_float:
  "(if x AND 0x40 \<noteq> 0 then 0x3FC0000000000000 else 0x4000000000000000) OR push_bit 48 (x AND 0x3F) =
   (if bit x 6 then push_bit 54 (mask 8) else push_bit 62 1) OR push_bit 48 (take_bit 6 (x :: u64))"
proof -
  have "x AND 0x40 \<noteq> 0 \<longleftrightarrow> bit x 6"
    using and_exp_eq_0_iff_not_bit [of x 6] by simp
  then show ?thesis by (simp only: float_masks(8,9) float_masks(5) take_bit_eq_mask)
qed

lemma is_float_encodable_iff:
  "is_float_encodable d \<longleftrightarrow> take_bit 48 d = 0 \<and> (bit_field 54 d :: 9 word) \<in> {0x100, 0xFF}"
proof
  assume "is_float_encodable d"
  then obtain x where x: "d AND mask 63 =
      (if bit x 6 then push_bit 54 (mask 8) else push_bit 62 1) OR push_bit 48 (take_bit 6 x)"
    unfolding is_float_encodable_def get_encodable_pos_floats_def float_masks(7) encodable_float by auto
  have b: "bit d n \<longleftrightarrow> (if bit x 6 then 54 \<le> n \<and> n < 62 else n = 62) \<or>
      48 \<le> n \<and> n < 54 \<and> bit x (n - 48)" if "n < 63" for n
    using that arg_cong [OF x, of "\<lambda>w. bit w n"]
    by (auto simp: bit_and_iff bit_or_iff bit_push_bit_iff bit_mask_iff bit_take_bit_iff bit_1_iff
        simp del: push_bit_of_1 split: if_splits)
  have "take_bit 48 d = 0"
    by (rule bit_word_eqI) (auto simp: bit_take_bit_iff b)
  moreover have "bit_field 54 d = (if bit x 6 then mask 8 else push_bit 8 1 :: 9 word)"
    by (rule bit_word_eqI)
      (auto simp: bit_bit_field b bit_mask_iff bit_push_bit_iff bit_1_iff simp del: push_bit_of_1)
  moreover have "(mask 8 :: 9 word) = 0xFF" "(push_bit 8 1 :: 9 word) = 0x100"
    by (simp_all add: mask_eq_exp_minus_1)
  ultimately show "take_bit 48 d = 0 \<and> (bit_field 54 d :: 9 word) \<in> {0x100, 0xFF}" by simp
next
  assume d: "take_bit 48 d = 0 \<and> (bit_field 54 d :: 9 word) \<in> {0x100, 0xFF}"
  define m where "m = unat (bit_field 48 d :: 7 word)"
  have m: "m < 128" using unsigned_less [of "bit_field 48 d :: 7 word", where 'a=nat] by (simp add: m_def)
  have x: "(word_of_nat m :: u64) = ucast (bit_field 48 d :: 7 word)" by (simp add: m_def)
  have xb: "bit (word_of_nat m :: u64) n \<longleftrightarrow> n < 7 \<and> bit d (48 + n)" for n
    unfolding x by (auto simp: bit_ucast_iff bit_bit_field)
  have low: "\<not> bit d n" if "n < 48" for n
    using d that by (metis bit_take_bit_iff bit_0_eq bot_apply bot_bool_def)
  note ex = exponent_bits [OF iffD1 [OF exponent_choice conjunct2 [OF d]], unfolded float_masks(8,9)]
  have "d AND mask 63 = (if bit (word_of_nat m :: u64) 6 then push_bit 54 (mask 8) else push_bit 62 1) OR
      push_bit 48 (take_bit 6 (word_of_nat m :: u64))"
  proof (rule bit_word_eqI)
    fix n
    assume "n < LENGTH(64)"
    then consider "n < 48" | "48 \<le> n" "n < 54" | "54 \<le> n" "n < 63" | "n = 63" by fastforce
    then show "bit (d AND mask 63) n = bit ((if bit (word_of_nat m :: u64) 6 then push_bit 54 (mask 8)
        else push_bit 62 1) OR push_bit 48 (take_bit 6 (word_of_nat m :: u64))) n"
      using low ex [of n]
      by cases (auto simp: bit_and_iff bit_or_iff bit_push_bit_iff bit_mask_iff bit_take_bit_iff
          bit_1_iff xb not_less simp del: push_bit_of_1)
  qed
  then show "is_float_encodable d"
    unfolding is_float_encodable_def get_encodable_pos_floats_def float_masks(7) encodable_float
    using m by auto
qed


section \<open>Properties\<close>

text \<open>
  C12: Branches inside the text: a use that refers to a label, or a call or jump to a function of
  the module, is resolved. The word in its place then decodes to the displacement of its
  target, every other byte is unchanged, and the displacement leads from the branch to the
  target; this needs a displacement in the range of the instruction, which is not checked.
\<close>

theorem AArch64_branch_resolved:
  assumes "BinaryBuilder_compute_displacement b sl use = Some d"
    and "unat (use_local_offset use) + 4 \<le> length (buf_data (slice_buffer sl))"
    and "internal_branch b use (slice_word sl (unat (use_local_offset use)))"
    and "take_bit 2 (ucast d :: u64) = 0"
    and "- a64_branch_range (slice_word sl (unat (use_local_offset use))) \<le> sint d"
    and "sint d < a64_branch_range (slice_word sl (unat (use_local_offset use)))"
  shows "\<exists>sl'. AArch64_resolve_symbol b use sl = Some (use\<lparr>use_is_resolved := True\<rparr>, sl') \<and>
           a64_branch_displacement (slice_word sl' (unat (use_local_offset use))) = Some (sint d) \<and>
           slice_offset sl' + use_local_offset use + word_of_int (sint d) = branch_target b use \<and>
           length (buf_data (slice_buffer sl')) = length (buf_data (slice_buffer sl)) \<and>
           (\<forall>i. i < unat (use_local_offset use) \<or> unat (use_local_offset use) + 4 \<le> i \<longrightarrow>
              buf_data (slice_buffer sl') ! i = buf_data (slice_buffer sl) ! i)"
proof -
  let ?p = "unat (use_local_offset use)"
  let ?w = "slice_word sl ?p"
  let ?v = "if (bit_field 24 ?w :: 8 word) = 0x54
    then ?w OR push_bit 5 (take_bit 19 (ucast (drop_bit 2 (ucast d :: u64))))
    else ?w OR take_bit 26 (ucast (drop_bit 2 (ucast d :: u64)))"
  have cond: "(bit_field 24 (0x54000000 OR AArch64_encode_cond c) :: 8 word) = 0x54" for c
    by (cases c) (simp_all add: AArch64_encode_cond_def bit_field_def)
  have plain: "(bit_field 24 (0x14000000 :: u32) :: 8 word) = 0x14"
    "(bit_field 24 (0x94000000 :: u32) :: 8 word) = 0x94"
    by (simp_all add: bit_field_def)
  have dec: "a64_branch_displacement ?v = Some (sint d)"
  proof (cases "(bit_field 24 ?w :: 8 word) = 0x54")
    case True
    then obtain c where c: "?w = 0x54000000 OR AArch64_encode_cond c"
      using assms(3) plain unfolding internal_branch_def by (elim disjE conjE) auto
    have "- (2 ^ 20) \<le> sint d" "sint d < 2 ^ 20"
      using assms(5,6) True by (simp_all add: a64_branch_range_def)
    from branch19_displacement [OF c assms(4) this] True show ?thesis by simp
  next
    case False
    then have c: "?w = 0x14000000 \<or> ?w = 0x94000000"
      using assms(3) cond unfolding internal_branch_def by (elim disjE conjE) auto
    have "- (2 ^ 27) \<le> sint d" "sint d < 2 ^ 27"
      using assms(5,6) False by (simp_all add: a64_branch_range_def)
    from branch26_displacement [OF c assms(4) this] False show ?thesis by simp
  qed
  have "slice_offset sl + use_local_offset use + word_of_int (sint d) = branch_target b use"
    using assms(1) by (simp add: compute_displacement_Some)
  then show ?thesis
    using resolve_internal_branch [OF assms(1-4)] dec patch_slice_props [OF assms(2)]
    by (intro exI [of _ "patch_slice sl ?p ?v"]) (simp add: Let_def)
qed

theorem AArch64_branch_resolved_witness:
  "let sl = SectionSlice_new\<lparr>slice_buffer := \<lparr>buf_data = le_bytes 4 (0x94000000 :: u32) @ [1, 2, 3, 4],
         buf_position = 8\<rparr>\<rparr>;
       b = BinaryBuilder_new\<lparr>bb_text := \<lparr>sect_kind = Section_TEXT, sect_slices = [sl]\<rparr>,
         bb_defs := [SymbolDef_make ''f'' TEXT_FUNC True 0 4]\<rparr>;
       use = \<lparr>use_index = 0, use_local_offset = 0, use_kind = CALL26, use_addend = 0, use_is_resolved = False\<rparr>
   in \<exists>sl'. AArch64_resolve_symbol b use sl = Some (use\<lparr>use_is_resolved := True\<rparr>, sl') \<and>
        a64_branch_displacement (slice_word sl' 0) = Some 4"
proof -
  let ?sl = "SectionSlice_new\<lparr>slice_buffer := \<lparr>buf_data = le_bytes 4 (0x94000000 :: u32) @ [1, 2, 3, 4],
         buf_position = 8\<rparr>\<rparr>"
  let ?b = "BinaryBuilder_new\<lparr>bb_text := \<lparr>sect_kind = Section_TEXT, sect_slices = [?sl]\<rparr>,
         bb_defs := [SymbolDef_make ''f'' TEXT_FUNC True 0 4]\<rparr>"
  let ?use = "\<lparr>use_index = 0, use_local_offset = 0, use_kind = CALL26, use_addend = 0, use_is_resolved = False\<rparr>"
  have d: "BinaryBuilder_compute_displacement ?b ?sl ?use = Some 4"
    by (simp add: compute_displacement_Some branch_target_def SymbolDef_make_def SectionSlice_new_def)
  have w: "slice_word ?sl (unat (use_local_offset ?use)) = 0x94000000"
    by (simp add: slice_word_def)
  have br: "internal_branch ?b ?use (slice_word ?sl (unat (use_local_offset ?use)))"
    unfolding w by (simp add: internal_branch_def SymbolDef_make_def)
  have range: "a64_branch_range 0x94000000 = 2 ^ 27" by (simp add: a64_branch_range_def bit_field_def)
  show ?thesis
    unfolding Let_def using AArch64_branch_resolved [OF d _ br] w range by auto
qed

text \<open>
  C13: Multiplications: \<open>mul\<close> with three register operands, \<open>madd\<close> and \<open>msub\<close> with four are
  encoded as one word of the multiply-accumulate instructions, with which the architecture
  multiplies the second and third operand, adds the product to the fourth or subtracts it from
  it, and puts the result, cut to 32 bits for the narrow form, into the register of the first.
\<close>

theorem AArch64_multiply:
  assumes "A64_gp i 0 = Some rd" and "A64_gp i 1 = Some rn" and "A64_gp i 2 = Some rm"
    and "A64_is_64 i 0 = Some sf"
  shows "(\<exists>w. AArch64_encode_mul i b = Some (text_write_u32 w b) \<and>
            (\<forall>R. R 31 = 0 \<longrightarrow>
               a64_madd R w = Some (rd, take_bit (if sf then 64 else 32) (R rn * R rm)))) \<and>
         (\<forall>ra. A64_gp i 3 = Some ra \<longrightarrow>
           (\<exists>w. AArch64_encode_madd i b = Some (text_write_u32 w b) \<and>
              (\<forall>R. a64_madd R w = Some (rd, take_bit (if sf then 64 else 32) (R ra + R rn * R rm)))) \<and>
           (\<exists>w. AArch64_encode_msub i b = Some (text_write_u32 w b) \<and>
              (\<forall>R. a64_madd R w = Some (rd, take_bit (if sf then 64 else 32) (R ra - R rn * R rm)))))"
proof (intro conjI allI impI)
  let ?w = "\<lambda>p ra. p OR flag_bit sf 31 OR push_bit 16 rm OR push_bit 10 ra OR push_bit 5 rn OR rd :: u32"
  note less = A64_gp_less [OF assms(1)] A64_gp_less [OF assms(2)] A64_gp_less A64_gp_less [OF assms(3)]
  have zr: "0x1B007C00 = 0x1B000000 OR push_bit 10 (31 :: u32)" by simp
  have mul: "0x1B007C00 OR flag_bit sf 31 OR push_bit 16 rm OR push_bit 5 rn OR rd =
      0x1B000000 OR flag_bit sf 31 OR push_bit 16 rm OR push_bit 10 31 OR push_bit 5 rn OR rd"
    unfolding zr by (simp only: or.assoc or.left_commute)
  have less31: "unat (31 :: u32) < 2 ^ 5" by simp
  show "\<exists>w. AArch64_encode_mul i b = Some (text_write_u32 w b) \<and>
      (\<forall>R. R 31 = 0 \<longrightarrow> a64_madd R w = Some (rd, take_bit (if sf then 64 else 32) (R rn * R rm)))"
    using assms madd_word [OF less(1,2) less31 less(4), where p="0x1B000000" and sf=sf]
    by (intro exI [of _ "?w 0x1B000000 31"])
      (simp add: AArch64_encode_mul_def AArch64_encode_mul_family_def Let_def mul)
  fix ra
  assume ra: "A64_gp i 3 = Some ra"
  note word = madd_word [OF less(1,2) less(3) [OF ra] less(4), where sf=sf]
  show "\<exists>w. AArch64_encode_madd i b = Some (text_write_u32 w b) \<and>
      (\<forall>R. a64_madd R w = Some (rd, take_bit (if sf then 64 else 32) (R ra + R rn * R rm)))"
    using assms ra word [where p="0x1B000000"]
    by (intro exI [of _ "?w 0x1B000000 ra"])
      (simp add: AArch64_encode_madd_def AArch64_encode_madd_family_def Let_def)
  show "\<exists>w. AArch64_encode_msub i b = Some (text_write_u32 w b) \<and>
      (\<forall>R. a64_madd R w = Some (rd, take_bit (if sf then 64 else 32) (R ra - R rn * R rm)))"
    using assms ra word [where p="0x1B008000"]
    by (intro exI [of _ "?w 0x1B008000 ra"])
      (simp add: AArch64_encode_msub_def AArch64_encode_madd_family_def Let_def)
qed

text \<open>
  A three-operand \<open>mul\<close> of the 64-bit registers 6 and 7, and a 32-bit \<open>msub\<close>, with every
  register but the zero register holding its own number.
\<close>

theorem AArch64_multiply_witness:
  "\<exists>w w'. AArch64_encode_mul (a64_instr 9
       (map (\<lambda>r. \<lparr>op_value = Op_register (Register_from_physical r), op_size = 8\<rparr>) [5, 6, 7]))
         BinaryBuilder_new = Some (text_write_u32 w BinaryBuilder_new) \<and>
     a64_madd (\<lambda>r. if r = 31 then 0 else ucast r) w = Some (5, 42) \<and>
     AArch64_encode_msub (a64_instr 11
       (map (\<lambda>r. \<lparr>op_value = Op_register (Register_from_physical r), op_size = 4\<rparr>) [5, 6, 7, 8]))
         BinaryBuilder_new = Some (text_write_u32 w' BinaryBuilder_new) \<and>
     a64_madd (\<lambda>r. if r = 31 then 0 else ucast r) w' = Some (5, 0xFFFFFFDE)"
proof -
  let ?R = "\<lambda>r :: u32. if r = 31 then 0 else ucast r :: u64"
  let ?i = "a64_instr 9
    (map (\<lambda>r. \<lparr>op_value = Op_register (Register_from_physical r), op_size = 8\<rparr>) [5, 6, 7])"
  let ?j = "a64_instr 11
    (map (\<lambda>r. \<lparr>op_value = Op_register (Register_from_physical r), op_size = 4\<rparr>) [5, 6, 7, 8])"
  note defs = A64_gp_def A64_is_64_def Instruction_get_operand_def a64_instr_def
    Operand_get_physical_reg_def Operand_get_register_def Register_from_physical_def
    Register_get_physical_reg_def AArch64_encode_gp_reg_def aarch64_regs
  have "A64_gp ?i 0 = Some 5" "A64_gp ?i 1 = Some 6" "A64_gp ?i 2 = Some 7" "A64_is_64 ?i 0 = Some True"
    by (simp_all add: defs)
  from AArch64_multiply [OF this, of BinaryBuilder_new]
  obtain w where w: "AArch64_encode_mul ?i BinaryBuilder_new = Some (text_write_u32 w BinaryBuilder_new)"
    "a64_madd ?R w = Some (5, take_bit 64 (?R 6 * ?R 7))"
    by (auto simp only: if_True simp_thms)
  have "A64_gp ?j 0 = Some 5" "A64_gp ?j 1 = Some 6" "A64_gp ?j 2 = Some 7" "A64_is_64 ?j 0 = Some False"
    and ra: "A64_gp ?j 3 = Some 8"
    by (simp_all add: defs)
  note m = AArch64_multiply [OF this(1-4), of BinaryBuilder_new, THEN conjunct2, rule_format, OF ra,
      THEN conjunct2]
  obtain w' where w': "AArch64_encode_msub ?j BinaryBuilder_new = Some (text_write_u32 w' BinaryBuilder_new)"
    "a64_madd ?R w' = Some (5, take_bit 32 (?R 8 - ?R 6 * ?R 7))"
    using m by auto
  show ?thesis
    by (rule exI [of _ w], rule exI [of _ w'], intro conjI w(1) w'(1)) (simp_all add: w(2) w'(2))
qed




text \<open>
  Floating-point constants: \<open>is_float_encodable\<close> accepts a double exactly when the encoder of
  \<open>fmov\<close> accepts it, and then the eight bits that are written expand to that double.
\<close>

theorem AArch64_float_constant:
  "(case AArch64_encode_f64_imm d of
      None \<Rightarrow> \<not> is_float_encodable d
    | Some e \<Rightarrow> is_float_encodable d \<and> unat e < 2 ^ 8 \<and> a64_expand_f64_imm e = d)"
proof (cases "AArch64_encode_f64_imm d")
  case None
  then show ?thesis using encode_f64_imm_iff [of d] is_float_encodable_iff [of d] by auto
next
  case (Some e)
  then show ?thesis
    using encode_f64_imm_iff [of d e] is_float_encodable_iff [of d] encode_f64_imm_expand [OF Some]
    by auto
qed

end
