(* ===== verification/Elf_Builder.thy ===== *)
theory Elf_Builder
  imports Prelude Write_Buffer MCode Binary_Builder
begin

section \<open>ELF object files\<close>

text \<open>
  \<open>src/banjo/emit/elf/\<close>: the sections of a relocatable object file (\<open>elf_format.hpp\<close>),
  \<open>ELFBuilder\<close>, which turns a \<open>BinModule\<close> into sections, symbols and relocations, and
  \<open>ELFEmitter\<close>, which writes the file. The output stream is a buffer with a position, as
  \<open>std::ostream\<close> with \<open>tellp\<close> and \<open>seekp\<close>; a \<open>std::get\<close> of the wrong alternative, a missing
  optional and an index out of range are \<open>None\<close>.
\<close>

unbundle bit_operations_syntax

subsection \<open>The format\<close>

definition ELF_PROGBITS :: u32 where "ELF_PROGBITS = 1"
definition ELF_SYMTAB :: u32 where "ELF_SYMTAB = 2"
definition ELF_STRTAB :: u32 where "ELF_STRTAB = 3"
definition ELF_RELA :: u32 where "ELF_RELA = 4"

definition ELF_WRITE :: u64 where "ELF_WRITE = 0x1"
definition ELF_ALLOC :: u64 where "ELF_ALLOC = 0x2"
definition ELF_EXECINSTR :: u64 where "ELF_EXECINSTR = 0x4"

definition ELF_LOCAL :: u8 where "ELF_LOCAL = 0"
definition ELF_GLOBAL :: u8 where "ELF_GLOBAL = 1"

definition ELF_NOTYPE :: u8 where "ELF_NOTYPE = 0"
definition ELF_OBJECT :: u8 where "ELF_OBJECT = 1"
definition ELF_FUNC :: u8 where "ELF_FUNC = 2"
definition ELF_SECTION :: u8 where "ELF_SECTION = 3"

record elf_symbol =
  esym_name_offset :: u32
  esym_binding :: u8
  esym_type :: u8
  esym_section_index :: u16
  esym_value :: u64
  esym_size :: u64

datatype elf_relocation_type =
    X86_64_64 | X86_64_PC32 | X86_64_GOT32 | X86_64_PLT32 | X86_64_GOTPCREL
  | AARCH64_ABS64 | AARCH64_ADR_PREL_PG_HI21 | AARCH64_ADD_ABS_LO12_NC | AARCH64_CALL26
  | AARCH64_ADR_GOT_PAGE | AARCH64_LD64_GOT_LO12_NC

definition ELFRelocationType_value :: "elf_relocation_type \<Rightarrow> u32" where
  "ELFRelocationType_value t =
     (case t of X86_64_64 \<Rightarrow> 1 | X86_64_PC32 \<Rightarrow> 2 | X86_64_GOT32 \<Rightarrow> 3 | X86_64_PLT32 \<Rightarrow> 4
      | X86_64_GOTPCREL \<Rightarrow> 9 | AARCH64_ABS64 \<Rightarrow> 257 | AARCH64_ADR_PREL_PG_HI21 \<Rightarrow> 275
      | AARCH64_ADD_ABS_LO12_NC \<Rightarrow> 277 | AARCH64_CALL26 \<Rightarrow> 283 | AARCH64_ADR_GOT_PAGE \<Rightarrow> 311
      | AARCH64_LD64_GOT_LO12_NC \<Rightarrow> 312)"

record elf_relocation =
  erel_offset :: u64
  erel_symbol_index :: u32
  erel_type :: u32
  erel_addend :: u64

datatype elf_data =
    Elf_BinaryData "u8 list"
  | Elf_SymbolList "elf_symbol list"
  | Elf_RelocationList "elf_relocation list"

record elf_section =
  esec_name_offset :: u32
  esec_type :: u32
  esec_flags :: u64
  esec_link :: u32
  esec_info :: u32
  esec_alignment :: u64
  esec_entry_size :: u64
  esec_data :: elf_data

definition ELFMachine_X86_64 :: u16 where "ELFMachine_X86_64 = 62"
definition ELFMachine_AARCH64 :: u16 where "ELFMachine_AARCH64 = 183"

record elf_file =
  elf_machine :: u16
  elf_sections :: "elf_section list"

text \<open>\<open>std::get\<close> of the three alternatives.\<close>

definition Elf_get_binary :: "elf_section \<Rightarrow> u8 list option" where
  "Elf_get_binary s = (case esec_data s of Elf_BinaryData bytes \<Rightarrow> Some bytes | _ \<Rightarrow> None)"

definition Elf_get_symbols :: "elf_section \<Rightarrow> elf_symbol list option" where
  "Elf_get_symbols s = (case esec_data s of Elf_SymbolList symbols \<Rightarrow> Some symbols | _ \<Rightarrow> None)"

definition Elf_get_relocations :: "elf_section \<Rightarrow> elf_relocation list option" where
  "Elf_get_relocations s =
     (case esec_data s of Elf_RelocationList relocations \<Rightarrow> Some relocations | _ \<Rightarrow> None)"

subsection \<open>ELFBuilder\<close>

text \<open>The members of the builder that change while the symbols and relocations are collected.\<close>

record elf_builder =
  eb_strtab_section :: elf_section
  eb_symtab_section :: elf_section
  eb_text_rela_section :: elf_section
  eb_data_rela_section :: elf_section
  eb_bnjatbl_rela_section :: "elf_section option"
  eb_symbol_indices :: "u32 list"

text \<open>A section as its designated initialisers leave it; what they do not name is zero.\<close>

definition ELFSection_make ::
  "u32 \<Rightarrow> u32 \<Rightarrow> u64 \<Rightarrow> u32 \<Rightarrow> u32 \<Rightarrow> u64 \<Rightarrow> u64 \<Rightarrow> elf_data \<Rightarrow> elf_section" where
  "ELFSection_make name_offset type flags link info alignment entry_size data =
     \<lparr>esec_name_offset = name_offset, esec_type = type, esec_flags = flags, esec_link = link,
      esec_info = info, esec_alignment = alignment, esec_entry_size = entry_size, esec_data = data\<rparr>"

definition ELFBuilder_add_string :: "elf_section \<Rightarrow> string \<Rightarrow> (u32 \<times> elf_section) option" where
  "ELFBuilder_add_string section str =
     do {
       data \<leftarrow> Elf_get_binary section;
       let offset = of_nat (length data);
       Some (offset, section\<lparr>esec_data := Elf_BinaryData (data @ bytes_of_string str @ [0])\<rparr>)
     }"

definition ELFBuilder_symbol_kind :: "bin_symbol_kind \<Rightarrow> (u8 \<times> u16) option" where
  "ELFBuilder_symbol_kind kind =
     (case kind of
        TEXT_FUNC \<Rightarrow> Some (ELF_FUNC, 1)
      | DATA_LABEL \<Rightarrow> Some (ELF_OBJECT, 2)
      | ADDR_TABLE \<Rightarrow> Some (ELF_NOTYPE, 8)
      | UNKNOWN \<Rightarrow> Some (ELF_NOTYPE, 0)
      | TEXT_LABEL \<Rightarrow> None)"

definition ELFBuilder_process_def :: "bin_symbol_def \<Rightarrow> elf_builder \<Rightarrow> elf_builder option" where
  "ELFBuilder_process_def def b =
     do {
       symbols \<leftarrow> Elf_get_symbols (eb_symtab_section b);
       (type, section_index) \<leftarrow> ELFBuilder_symbol_kind (bsd_kind def);
       (name_offset, strtab) \<leftarrow> ELFBuilder_add_string (eb_strtab_section b) (bsd_name def);
       Some (b\<lparr>eb_strtab_section := strtab,
         eb_symtab_section := (eb_symtab_section b)\<lparr>esec_data := Elf_SymbolList (symbols @
           [\<lparr>esym_name_offset = name_offset,
             esym_binding = (if bsd_global def then ELF_GLOBAL else ELF_LOCAL),
             esym_type = type, esym_section_index = section_index,
             esym_value = ucast (bsd_offset def), esym_size = 0\<rparr>])\<rparr>\<rparr>)
     }"

text \<open>One pass over the definitions: those that are global or those that are not.\<close>

definition ELFBuilder_process_pass ::
  "bool \<Rightarrow> bin_symbol_def list \<Rightarrow> elf_builder \<Rightarrow> elf_builder option" where
  "ELFBuilder_process_pass global defs b =
     for_each [0..<length defs] (\<lambda>i b.
       if bsd_global (defs ! i) = global then do {
         symbols \<leftarrow> Elf_get_symbols (eb_symtab_section b);
         ELFBuilder_process_def (defs ! i)
           (b\<lparr>eb_symbol_indices := (eb_symbol_indices b)[i := of_nat (length symbols)]\<rparr>)
       } else Some b) b"

definition ELFBuilder_process_defs :: "bin_symbol_def list \<Rightarrow> elf_builder \<Rightarrow> elf_builder option" where
  "ELFBuilder_process_defs defs b =
     do {
       b1 \<leftarrow> ELFBuilder_process_pass False defs
         (b\<lparr>eb_symbol_indices := replicate (length defs) 0\<rparr>);
       symbols \<leftarrow> Elf_get_symbols (eb_symtab_section b1);
       ELFBuilder_process_pass True defs
         (b1\<lparr>eb_symtab_section := (eb_symtab_section b1)\<lparr>esec_info := of_nat (length symbols)\<rparr>\<rparr>)
     }"

definition ELFBuilder_process_x86_64_relocation ::
  "bin_symbol_use_kind \<Rightarrow> (u32 \<times> elf_relocation_type) option" where
  "ELFBuilder_process_x86_64_relocation kind =
     (case kind of
        ABS64 \<Rightarrow> Some (0, X86_64_64)
      | REL32 \<Rightarrow> Some (- 4, X86_64_PC32)
      | GOTPCREL32 \<Rightarrow> Some (- 4, X86_64_GOTPCREL)
      | PLT32 \<Rightarrow> Some (- 4, X86_64_PLT32)
      | _ \<Rightarrow> None)"

definition ELFBuilder_process_aarch64_relocation ::
  "bin_symbol_use_kind \<Rightarrow> (u32 \<times> elf_relocation_type) option" where
  "ELFBuilder_process_aarch64_relocation kind =
     (case kind of
        ABS64 \<Rightarrow> Some (0, AARCH64_ABS64)
      | ADR_PREL_PG_HI21 \<Rightarrow> Some (0, AARCH64_ADR_PREL_PG_HI21)
      | ADD_ABS_LO12_NC \<Rightarrow> Some (0, AARCH64_ADD_ABS_LO12_NC)
      | CALL26 \<Rightarrow> Some (0, AARCH64_CALL26)
      | ADR_GOT_PAGE \<Rightarrow> Some (0, AARCH64_ADR_GOT_PAGE)
      | LD64_GOT_LO12_NC \<Rightarrow> Some (0, AARCH64_LD64_GOT_LO12_NC)
      | _ \<Rightarrow> None)"

definition ELFBuilder_relocation ::
  "architecture \<Rightarrow> bin_symbol_use_kind \<Rightarrow> (u32 \<times> elf_relocation_type) option" where
  "ELFBuilder_relocation arch kind =
     (case arch of
        Arch_X86_64 \<Rightarrow> ELFBuilder_process_x86_64_relocation kind
      | Arch_AARCH64 \<Rightarrow> ELFBuilder_process_aarch64_relocation kind
      | _ \<Rightarrow> None)"

definition ELFSection_add_relocation :: "elf_relocation \<Rightarrow> elf_section \<Rightarrow> elf_section option" where
  "ELFSection_add_relocation r section =
     do {
       relocations \<leftarrow> Elf_get_relocations section;
       Some (section\<lparr>esec_data := Elf_RelocationList (relocations @ [r])\<rparr>)
     }"

definition ELFBuilder_process_use ::
  "architecture \<Rightarrow> bin_symbol_use \<Rightarrow> elf_builder \<Rightarrow> elf_builder option" where
  "ELFBuilder_process_use arch use b =
     do {
       (address_offset, type) \<leftarrow> ELFBuilder_relocation arch (bsu_kind use);
       ASSERT (unat (bsu_symbol_index use) < length (eb_symbol_indices b));
       let relocation =
         \<lparr>erel_offset = ucast (bsu_address use),
          erel_symbol_index = eb_symbol_indices b ! unat (bsu_symbol_index use),
          erel_type = ELFRelocationType_value type,
          erel_addend = scast (bsu_addend use + address_offset)\<rparr>;
       (case bsu_section use of
          Section_TEXT \<Rightarrow> do {
            section \<leftarrow> ELFSection_add_relocation relocation (eb_text_rela_section b);
            Some (b\<lparr>eb_text_rela_section := section\<rparr>)
          }
        | Section_DATA \<Rightarrow> do {
            section \<leftarrow> ELFSection_add_relocation relocation (eb_data_rela_section b);
            Some (b\<lparr>eb_data_rela_section := section\<rparr>)
          }
        | Section_BNJATBL \<Rightarrow> do {
            section0 \<leftarrow> eb_bnjatbl_rela_section b;
            section \<leftarrow> ELFSection_add_relocation relocation section0;
            Some (b\<lparr>eb_bnjatbl_rela_section := Some section\<rparr>)
          })
     }"

definition ELFBuilder_process_uses ::
  "architecture \<Rightarrow> bin_symbol_use list \<Rightarrow> elf_builder \<Rightarrow> elf_builder option" where
  "ELFBuilder_process_uses arch uses b = for_each uses (ELFBuilder_process_use arch) b"

subsubsection \<open>Building the file\<close>

text \<open>
  \<open>build\<close> creates the sections in this order, since each creation appends its name to the
  table of section names. The first three symbols are the null symbol and the symbols of the
  text and data sections.
\<close>

definition ELFBuilder_machine :: "architecture \<Rightarrow> u16 option" where
  "ELFBuilder_machine arch =
     (case arch of
        Arch_X86_64 \<Rightarrow> Some ELFMachine_X86_64
      | Arch_AARCH64 \<Rightarrow> Some ELFMachine_AARCH64
      | _ \<Rightarrow> None)"

definition ELFBuilder_initial_symbol :: "u8 \<Rightarrow> u16 \<Rightarrow> elf_symbol" where
  "ELFBuilder_initial_symbol type section_index =
     \<lparr>esym_name_offset = 0, esym_binding = 0, esym_type = type, esym_section_index = section_index,
      esym_value = 0, esym_size = 0\<rparr>"

definition ELFBuilder_initial_symbols :: "elf_symbol list" where
  "ELFBuilder_initial_symbols =
     [ELFBuilder_initial_symbol ELF_NOTYPE 0, ELFBuilder_initial_symbol ELF_SECTION 1,
      ELFBuilder_initial_symbol ELF_SECTION 2]"

text \<open>The relocation section for the section with a given index.\<close>

definition ELFBuilder_rela_section :: "u32 \<Rightarrow> u32 \<Rightarrow> elf_section" where
  "ELFBuilder_rela_section name_offset info =
     ELFSection_make name_offset ELF_RELA 0 5 info 8 24 (Elf_RelocationList [])"

definition ELFBuilder_build :: "architecture \<Rightarrow> bin_module \<Rightarrow> elf_file option" where
  "ELFBuilder_build arch m =
     do {
       machine \<leftarrow> ELFBuilder_machine arch;
       let shstrtab0 = ELFSection_make 0 ELF_STRTAB 0 0 0 1 0 (Elf_BinaryData [0]);
       (text_name, shstrtab1) \<leftarrow> ELFBuilder_add_string shstrtab0 ''.text'';
       let text_section = ELFSection_make text_name ELF_PROGBITS (ELF_ALLOC OR ELF_EXECINSTR) 0 0 16 0
             (Elf_BinaryData (buf_data (bm_text m)));
       (data_name, shstrtab2) \<leftarrow> ELFBuilder_add_string shstrtab1 ''.data'';
       let data_section = ELFSection_make data_name ELF_PROGBITS (ELF_ALLOC OR ELF_WRITE) 0 0 16 0
             (Elf_BinaryData (buf_data (bm_data m)));
       (shstrtab_name, shstrtab3) \<leftarrow> ELFBuilder_add_string shstrtab2 ''.shstrtab'';
       (strtab_name, shstrtab4) \<leftarrow>
         ELFBuilder_add_string (shstrtab3\<lparr>esec_name_offset := shstrtab_name\<rparr>) ''.strtab'';
       let strtab = ELFSection_make strtab_name ELF_STRTAB 0 0 0 1 0 (Elf_BinaryData [0]);
       (symtab_name, shstrtab5) \<leftarrow> ELFBuilder_add_string shstrtab4 ''.symtab'';
       let symtab = ELFSection_make symtab_name ELF_SYMTAB 0 4 0 8 24
             (Elf_SymbolList ELFBuilder_initial_symbols);
       (text_rela_name, shstrtab6) \<leftarrow> ELFBuilder_add_string shstrtab5 ''.rela.text'';
       (data_rela_name, shstrtab7) \<leftarrow> ELFBuilder_add_string shstrtab6 ''.rela.data'';
       (shstrtab, bnjatbl, bnjatbl_rela) \<leftarrow>
         (case bm_bnjatbl_data m of
            None \<Rightarrow> Some (shstrtab7, None, None)
          | Some table \<Rightarrow> do {
              (bnjatbl_name, shstrtab8) \<leftarrow> ELFBuilder_add_string shstrtab7 ''.bnjatbl'';
              (bnjatbl_rela_name, shstrtab9) \<leftarrow> ELFBuilder_add_string shstrtab8 ''.rela.bnjatbl'';
              Some (shstrtab9,
                Some (ELFSection_make bnjatbl_name ELF_PROGBITS (ELF_ALLOC OR ELF_WRITE) 0 0 16 0
                  (Elf_BinaryData (buf_data table))),
                Some (ELFBuilder_rela_section bnjatbl_rela_name 8))
            });
       b1 \<leftarrow> ELFBuilder_process_defs (bm_symbol_defs m)
         \<lparr>eb_strtab_section = strtab, eb_symtab_section = symtab,
          eb_text_rela_section = ELFBuilder_rela_section text_rela_name 1,
          eb_data_rela_section = ELFBuilder_rela_section data_rela_name 2,
          eb_bnjatbl_rela_section = bnjatbl_rela, eb_symbol_indices = []\<rparr>;
       b \<leftarrow> ELFBuilder_process_uses arch (bm_symbol_uses m) b1;
       bnjatbl_sections \<leftarrow>
         (case bnjatbl of
            None \<Rightarrow> Some []
          | Some section \<Rightarrow> do {
              rela \<leftarrow> eb_bnjatbl_rela_section b;
              Some [section, rela]
            });
       Some \<lparr>elf_machine = machine,
         elf_sections = [text_section, data_section, shstrtab, eb_strtab_section b, eb_symtab_section b,
           eb_text_rela_section b, eb_data_rela_section b] @ bnjatbl_sections\<rparr>
     }"

subsection \<open>ELFEmitter\<close>

text \<open>The stream: \<open>emit_u8\<close>, \<open>emit_u16\<close>, \<open>emit_u32\<close>, \<open>emit_u64\<close> of \<open>BinaryEmitter\<close> on a little-endian host.\<close>

definition emit_bytes :: "u8 list \<Rightarrow> write_buffer \<Rightarrow> write_buffer" where
  "emit_bytes bytes s = WriteBuffer_store s bytes"

definition emit_u8 :: "u8 \<Rightarrow> write_buffer \<Rightarrow> write_buffer" where "emit_u8 v = emit_bytes [v]"
definition emit_u16 :: "u16 \<Rightarrow> write_buffer \<Rightarrow> write_buffer" where "emit_u16 v = emit_bytes (le_bytes 2 v)"
definition emit_u32 :: "u32 \<Rightarrow> write_buffer \<Rightarrow> write_buffer" where "emit_u32 v = emit_bytes (le_bytes 4 v)"
definition emit_u64 :: "u64 \<Rightarrow> write_buffer \<Rightarrow> write_buffer" where "emit_u64 v = emit_bytes (le_bytes 8 v)"

primrec emit_times :: "nat \<Rightarrow> u8 \<Rightarrow> write_buffer \<Rightarrow> write_buffer" where
  "emit_times 0 v s = s"
| "emit_times (Suc n) v s = emit_times n v (emit_u8 v s)"

definition ELFEmitter_emit_header :: "elf_file \<Rightarrow> write_buffer \<Rightarrow> write_buffer" where
  "ELFEmitter_emit_header file s0 =
     (let s1 = fold emit_u8 [0x7F, of_char CHR ''E'', of_char CHR ''L'', of_char CHR ''F'', 2, 1, 1, 0, 0] s0;
          s2 = emit_times 7 0 s1;
          s3 = emit_u32 1 (emit_u16 (elf_machine file) (emit_u16 1 s2));
          s4 = emit_u32 0 (emit_u64 64 (emit_u64 0 (emit_u64 0 s3)))
      in fold emit_u16 [64, 0, 0, 64, of_nat (length (elf_sections file) + 1), 3] s4)"

definition ELFSection_data_size :: "elf_section \<Rightarrow> u64" where
  "ELFSection_data_size section =
     (case esec_data section of
        Elf_BinaryData bytes \<Rightarrow> of_nat (length bytes)
      | Elf_SymbolList symbols \<Rightarrow> esec_entry_size section * of_nat (length symbols)
      | Elf_RelocationList relocations \<Rightarrow> esec_entry_size section * of_nat (length relocations))"

text \<open>A header is written with a null pointer, whose position is remembered.\<close>

definition ELFEmitter_emit_section_header :: "elf_section \<Rightarrow> write_buffer \<Rightarrow> nat \<times> write_buffer" where
  "ELFEmitter_emit_section_header section s0 =
     (let s1 = emit_u64 0 (emit_u64 (esec_flags section)
                 (emit_u32 (esec_type section) (emit_u32 (esec_name_offset section) s0)));
          pointer_position = WriteBuffer_tell s1;
          s2 = emit_u64 (ELFSection_data_size section) (emit_u64 0 s1);
          s3 = emit_u32 (esec_info section) (emit_u32 (esec_link section) s2)
      in (pointer_position, emit_u64 (esec_entry_size section) (emit_u64 (esec_alignment section) s3)))"

definition ELFEmitter_emit_symbol :: "elf_symbol \<Rightarrow> write_buffer \<Rightarrow> write_buffer" where
  "ELFEmitter_emit_symbol symbol s0 =
     (let s1 = emit_u8 0 (emit_u8 (esym_type symbol OR push_bit 4 (esym_binding symbol))
                 (emit_u32 (esym_name_offset symbol) s0))
      in emit_u64 (esym_size symbol) (emit_u64 (esym_value symbol)
           (emit_u16 (esym_section_index symbol) s1)))"

definition ELFEmitter_emit_relocation :: "elf_relocation \<Rightarrow> write_buffer \<Rightarrow> write_buffer" where
  "ELFEmitter_emit_relocation r s =
     emit_u64 (erel_addend r)
       (emit_u64 (ucast (erel_type r) OR push_bit 32 (ucast (erel_symbol_index r)))
         (emit_u64 (erel_offset r) s))"

definition ELFEmitter_emit_section_data :: "elf_data \<Rightarrow> nat \<Rightarrow> write_buffer \<Rightarrow> write_buffer" where
  "ELFEmitter_emit_section_data data pointer_pos s0 =
     (let pos = WriteBuffer_tell s0;
          s1 = emit_u64 (of_nat pos) (WriteBuffer_seek s0 pointer_pos);
          s2 = WriteBuffer_seek s1 pos
      in case data of
           Elf_BinaryData bytes \<Rightarrow> emit_bytes bytes s2
         | Elf_SymbolList symbols \<Rightarrow> fold ELFEmitter_emit_symbol symbols s2
         | Elf_RelocationList relocations \<Rightarrow> fold ELFEmitter_emit_relocation relocations s2)"

text \<open>The two loops of \<open>emit_sections\<close>; the first collects the positions of the pointers.\<close>

fun emit_section_headers :: "elf_section list \<Rightarrow> write_buffer \<Rightarrow> nat list \<times> write_buffer" where
  "emit_section_headers [] s = ([], s)"
| "emit_section_headers (section # sections) s =
     (let (pointer_position, s') = ELFEmitter_emit_section_header section s;
          (pointer_positions, s'') = emit_section_headers sections s'
      in (pointer_position # pointer_positions, s''))"

definition ELFEmitter_emit_sections :: "elf_section list \<Rightarrow> write_buffer \<Rightarrow> write_buffer" where
  "ELFEmitter_emit_sections sections s0 =
     (let s1 = emit_times 64 0 s0;
          (pointer_positions, s2) = emit_section_headers sections s1
      in fold (\<lambda>i. ELFEmitter_emit_section_data (esec_data (sections ! i)) (pointer_positions ! i))
           [0..<length sections] s2)"

definition ELFEmitter_emit_file :: "elf_file \<Rightarrow> write_buffer \<Rightarrow> write_buffer" where
  "ELFEmitter_emit_file file s =
     ELFEmitter_emit_sections (elf_sections file) (ELFEmitter_emit_header file s)"

text \<open>
  \<open>generate\<close>, with the encoders of the two architectures as parameters: \<open>X8664Encoder().encode\<close>
  and \<open>AArch64Encoder(target).encode\<close>.
\<close>

definition ELFEmitter_generate ::
  "(m_module \<Rightarrow> bin_module option) \<Rightarrow> (target_description \<Rightarrow> m_module \<Rightarrow> bin_module option) \<Rightarrow>
   target_description \<Rightarrow> m_module \<Rightarrow> write_buffer \<Rightarrow> write_buffer option" where
  "ELFEmitter_generate x86_64_encode aarch64_encode target m s =
     do {
       bin_mod \<leftarrow>
         (case target_architecture target of
            Arch_X86_64 \<Rightarrow> x86_64_encode m
          | Arch_AARCH64 \<Rightarrow> aarch64_encode target m
          | _ \<Rightarrow> None);
       file \<leftarrow> ELFBuilder_build (target_architecture target) bin_mod;
       Some (ELFEmitter_emit_file file s)
     }"

end
