(* ===== verification/Elf_Correct.thy ===== *)
theory Elf_Correct
  imports Elf_Builder Binary_Layout
begin

section \<open>What an ELF object file holds\<close>

text \<open>
  The bytes that \<open>ELFEmitter\<close> writes, in closed form and read back through the section table, and
  the symbols, names and relocations that \<open>ELFBuilder\<close> collects.
\<close>

unbundle bit_operations_syntax

subsection \<open>Writing at the end of the stream\<close>

named_theorems emit_simps

lemma emit_bytes_end [emit_simps]:
  "at_end s \<Longrightarrow> buf_data (emit_bytes bytes s) = buf_data s @ bytes"
  "at_end s \<Longrightarrow> at_end (emit_bytes bytes s)"
  by (simp_all add: emit_bytes_def)

lemma emit_ints_end [emit_simps]:
  assumes "at_end s"
  shows "buf_data (emit_u8 b s) = buf_data s @ [b]" "at_end (emit_u8 b s)"
    "buf_data (emit_u16 h s) = buf_data s @ le_bytes 2 h" "at_end (emit_u16 h s)"
    "buf_data (emit_u32 w s) = buf_data s @ le_bytes 4 w" "at_end (emit_u32 w s)"
    "buf_data (emit_u64 d s) = buf_data s @ le_bytes 8 d" "at_end (emit_u64 d s)"
  using assms by (simp_all add: emit_u8_def emit_u16_def emit_u32_def emit_u64_def emit_bytes_end)

lemma emit_times_end [emit_simps]:
  assumes "at_end s"
  shows "buf_data (emit_times n v s) = buf_data s @ replicate n v" "at_end (emit_times n v s)"
  using assms by (induction n arbitrary: s) (auto simp: emit_simps replicate_app_Cons_same)

lemma tell_at_end: "at_end s \<Longrightarrow> WriteBuffer_tell s = length (buf_data s)"
  by (simp add: at_end_def WriteBuffer_tell_def)

text \<open>A fold of writers appends the concatenation of what each of them writes.\<close>

lemma emit_fold:
  assumes "\<And>x s. at_end s \<Longrightarrow> buf_data (f x s) = buf_data s @ enc x \<and> at_end (f x s)" and "at_end s"
  shows "buf_data (fold f xs s) = buf_data s @ concat (map enc xs)" "at_end (fold f xs s)"
  using assms(2) by (induction xs arbitrary: s) (simp_all add: assms(1))

subsection \<open>The encoding of the parts\<close>

definition elf_symbol_bytes :: "elf_symbol \<Rightarrow> u8 list" where
  "elf_symbol_bytes y =
     le_bytes 4 (esym_name_offset y) @ [esym_type y OR push_bit 4 (esym_binding y), 0] @
     le_bytes 2 (esym_section_index y) @ le_bytes 8 (esym_value y) @ le_bytes 8 (esym_size y)"

definition elf_relocation_bytes :: "elf_relocation \<Rightarrow> u8 list" where
  "elf_relocation_bytes r =
     le_bytes 8 (erel_offset r) @ le_bytes 4 (erel_type r) @ le_bytes 4 (erel_symbol_index r) @
     le_bytes 8 (erel_addend r)"

definition elf_data_bytes :: "elf_data \<Rightarrow> u8 list" where
  "elf_data_bytes data =
     (case data of
        Elf_BinaryData bytes \<Rightarrow> bytes
      | Elf_SymbolList symbols \<Rightarrow> concat (map elf_symbol_bytes symbols)
      | Elf_RelocationList relocations \<Rightarrow> concat (map elf_relocation_bytes relocations))"

definition elf_section_header :: "elf_section \<Rightarrow> u64 \<Rightarrow> u8 list" where
  "elf_section_header s offset =
     (le_bytes 4 (esec_name_offset s) @ le_bytes 4 (esec_type s) @ le_bytes 8 (esec_flags s) @
      le_bytes 8 (0 :: u64)) @ le_bytes 8 offset @
     (le_bytes 8 (ELFSection_data_size s) @ le_bytes 4 (esec_link s) @ le_bytes 4 (esec_info s) @
      le_bytes 8 (esec_alignment s) @ le_bytes 8 (esec_entry_size s))"

definition elf_header :: "elf_file \<Rightarrow> u8 list" where
  "elf_header f =
     [0x7F, 0x45, 0x4C, 0x46, 2, 1, 1, 0, 0] @ replicate 7 0 @ le_bytes 2 (1 :: u16) @
     le_bytes 2 (elf_machine f) @ le_bytes 4 (1 :: u32) @ le_bytes 8 (0 :: u64) @
     le_bytes 8 (0 :: u64) @ le_bytes 8 (64 :: u64) @ le_bytes 4 (0 :: u32) @ le_bytes 2 (64 :: u16) @
     le_bytes 2 (0 :: u16) @ le_bytes 2 (0 :: u16) @ le_bytes 2 (64 :: u16) @
     le_bytes 2 (of_nat (length (elf_sections f) + 1) :: u16) @ le_bytes 2 (3 :: u16)"

lemma length_elf_parts [simp]:
  "length (elf_header f) = 64" "length (elf_section_header s offset) = 64"
  "length (elf_symbol_bytes y) = 24" "length (elf_relocation_bytes r) = 24"
  by (simp_all add: elf_header_def elf_section_header_def elf_symbol_bytes_def elf_relocation_bytes_def)

lemma emit_header_end [emit_simps]:
  assumes "at_end s"
  shows "buf_data (ELFEmitter_emit_header f s) = buf_data s @ elf_header f"
    "at_end (ELFEmitter_emit_header f s)"
  using assms
  by (simp_all add: ELFEmitter_emit_header_def elf_header_def emit_simps of_char_def)

lemma le_bytes_append_words:
  "le_bytes 8 (ucast (v :: u32) OR push_bit 32 (ucast (w :: u32)) :: u64) = le_bytes 4 v @ le_bytes 4 w"
proof -
  have lo: "(ucast (drop_bit k (ucast v OR push_bit 32 (ucast w) :: u64)) :: u8) = ucast (drop_bit k v)"
    if "k \<le> 24" for k
    by (rule bit_word_eqI)
      (use that in \<open>auto simp: bit_ucast_iff bit_drop_bit_eq bit_or_iff bit_push_bit_iff
        simp del: push_bit_eq_mult\<close>)
  have hi: "(ucast (drop_bit (32 + k) (ucast v OR push_bit 32 (ucast w) :: u64)) :: u8) =
      ucast (drop_bit k w)" if "k \<le> 24" for k
    by (rule bit_word_eqI)
      (use that in \<open>auto simp: bit_ucast_iff bit_drop_bit_eq bit_or_iff bit_push_bit_iff
        dest: bit_imp_le_length simp del: push_bit_eq_mult\<close>)
  show ?thesis
    unfolding le_bytes_u64 le_bytes_u32
    using lo [of 0] lo [of 8] lo [of 16] lo [of 24] hi [of 0] hi [of 8] hi [of 16] hi [of 24]
    by (simp del: push_bit_eq_mult)
qed

lemma emit_symbol_end:
  assumes "at_end s"
  shows "buf_data (ELFEmitter_emit_symbol y s) = buf_data s @ elf_symbol_bytes y \<and>
         at_end (ELFEmitter_emit_symbol y s)"
  using assms by (simp add: ELFEmitter_emit_symbol_def elf_symbol_bytes_def emit_simps)

lemma emit_relocation_end:
  assumes "at_end s"
  shows "buf_data (ELFEmitter_emit_relocation r s) = buf_data s @ elf_relocation_bytes r \<and>
         at_end (ELFEmitter_emit_relocation r s)"
  using assms
  by (simp add: ELFEmitter_emit_relocation_def elf_relocation_bytes_def emit_simps le_bytes_append_words
      del: push_bit_eq_mult)

lemma emit_data_end:
  assumes "at_end s"
  shows "buf_data (case data of
           Elf_BinaryData bytes \<Rightarrow> emit_bytes bytes s
         | Elf_SymbolList symbols \<Rightarrow> fold ELFEmitter_emit_symbol symbols s
         | Elf_RelocationList relocations \<Rightarrow> fold ELFEmitter_emit_relocation relocations s) =
         buf_data s @ elf_data_bytes data"
    and "at_end (case data of
           Elf_BinaryData bytes \<Rightarrow> emit_bytes bytes s
         | Elf_SymbolList symbols \<Rightarrow> fold ELFEmitter_emit_symbol symbols s
         | Elf_RelocationList relocations \<Rightarrow> fold ELFEmitter_emit_relocation relocations s)"
  using emit_fold [of ELFEmitter_emit_symbol elf_symbol_bytes, OF emit_symbol_end assms]
    emit_fold [of ELFEmitter_emit_relocation elf_relocation_bytes, OF emit_relocation_end assms]
    emit_bytes_end [OF assms]
  by (simp_all add: elf_data_bytes_def split: elf_data.splits)

subsection \<open>The two passes over the sections\<close>

lemma emit_section_header_end:
  assumes "at_end s"
  shows "fst (ELFEmitter_emit_section_header sec s) = length (buf_data s) + 24"
    and "buf_data (snd (ELFEmitter_emit_section_header sec s)) = buf_data s @ elf_section_header sec 0"
    and "at_end (snd (ELFEmitter_emit_section_header sec s))"
  using assms
  by (simp_all add: ELFEmitter_emit_section_header_def elf_section_header_def emit_simps Let_def
      tell_at_end)

lemma emit_section_headers_end:
  assumes "at_end s"
  shows "fst (emit_section_headers secs s) =
           map (\<lambda>i. length (buf_data s) + 64 * i + 24) [0..<length secs] \<and>
         buf_data (snd (emit_section_headers secs s)) =
           buf_data s @ concat (map (\<lambda>sec. elf_section_header sec 0) secs) \<and>
         at_end (snd (emit_section_headers secs s))"
  using assms
proof (induction secs arbitrary: s)
  case (Cons sec secs)
  obtain p s' where step: "ELFEmitter_emit_section_header sec s = (p, s')" by fastforce
  obtain ps s'' where rest: "emit_section_headers secs s' = (ps, s'')" by fastforce
  have s': "at_end s'" "p = length (buf_data s) + 24" "buf_data s' = buf_data s @ elf_section_header sec 0"
    using emit_section_header_end [OF Cons.prems, of sec] by (simp_all add: step)
  have "ps = map (\<lambda>i. length (buf_data s) + 64 * Suc i + 24) [0..<length secs]"
    "buf_data s'' = buf_data s' @ concat (map (\<lambda>sec. elf_section_header sec 0) secs)" "at_end s''"
    using Cons.IH [OF s'(1)] rest s'(3) by simp_all
  then show ?case
    by (simp add: step rest s'(2,3) map_upt_Suc del: upt_Suc)
qed simp

text \<open>The offsets that the patched headers hold.\<close>

fun elf_offsets :: "nat \<Rightarrow> elf_section list \<Rightarrow> nat list" where
  "elf_offsets start [] = []"
| "elf_offsets start (sec # secs) =
     start # elf_offsets (start + length (elf_data_bytes (esec_data sec))) secs"

lemma length_elf_offsets [simp]: "length (elf_offsets start secs) = length secs"
  by (induction secs arbitrary: start) simp_all

lemma emit_section_data_end:
  assumes s: "at_end s" and data: "buf_data s = P @ elf_section_header sec 0 @ R"
  shows "buf_data (ELFEmitter_emit_section_data (esec_data sec) (length P + 24) s) =
           P @ elf_section_header sec (of_nat (length (buf_data s))) @ R @ elf_data_bytes (esec_data sec)"
    and "at_end (ELFEmitter_emit_section_data (esec_data sec) (length P + 24) s)"
proof -
  let ?pos = "length (buf_data s)"
  let ?s = "WriteBuffer_seek (emit_u64 (of_nat ?pos) (WriteBuffer_seek s (length P + 24))) ?pos"
  let ?A = "le_bytes 4 (esec_name_offset sec) @ le_bytes 4 (esec_type sec) @ le_bytes 8 (esec_flags sec) @
    le_bytes 8 (0 :: u64)"
  let ?C = "le_bytes 8 (ELFSection_data_size sec) @ le_bytes 4 (esec_link sec) @
    le_bytes 4 (esec_info sec) @ le_bytes 8 (esec_alignment sec) @ le_bytes 8 (esec_entry_size sec)"
  have h: "elf_section_header sec v = ?A @ le_bytes 8 v @ ?C" for v
    by (simp only: elf_section_header_def append_assoc)
  have fits: "length P + 24 + length (le_bytes 8 (of_nat ?pos :: u64)) \<le> ?pos"
    using data by simp
  have "buf_data (emit_u64 (of_nat ?pos) (WriteBuffer_seek s (length P + 24))) =
      take (length P + 24) (buf_data s) @ le_bytes 8 (of_nat ?pos :: u64) @
      drop (length P + 24 + 8) (buf_data s)"
    using store_in_place [OF fits] by (simp add: emit_u64_def emit_bytes_def)
  also have "\<dots> = P @ elf_section_header sec (of_nat ?pos) @ R"
    unfolding data h by simp
  finally have patched: "buf_data ?s = P @ elf_section_header sec (of_nat ?pos) @ R"
    by (simp add: WriteBuffer_seek_def)
  have "at_end ?s"
  proof -
    have "length (buf_data ?s) = ?pos" unfolding patched by (simp add: data)
    then show ?thesis by (simp add: at_end_def WriteBuffer_seek_def)
  qed
  note e = emit_data_end [OF this, of "esec_data sec"]
  show "buf_data (ELFEmitter_emit_section_data (esec_data sec) (length P + 24) s) =
      P @ elf_section_header sec (of_nat ?pos) @ R @ elf_data_bytes (esec_data sec)"
    using e(1) patched by (simp add: ELFEmitter_emit_section_data_def tell_at_end [OF s] Let_def)
  show "at_end (ELFEmitter_emit_section_data (esec_data sec) (length P + 24) s)"
    using e(2) by (simp add: ELFEmitter_emit_section_data_def tell_at_end [OF s] Let_def)
qed

lemma fold_index_zip:
  assumes "length ps = length xs"
  shows "fold (\<lambda>i. f (xs ! i) (ps ! i)) [0..<length xs] s = fold (\<lambda>(x, p). f x p) (zip xs ps) s"
  using assms[symmetric]
proof (induction xs ps arbitrary: s rule: list_induct2)
  case (Cons x xs p ps)
  have "[0..<length (x # xs)] = 0 # map Suc [0..<length xs]"
    by (simp add: map_Suc_upt upt_conv_Cons del: upt_Suc)
  then show ?case by (simp add: fold_map comp_def Cons.IH del: upt_Suc)
qed simp

lemma emit_all_data_end:
  assumes "at_end s" and "buf_data s = P @ concat (map (\<lambda>sec. elf_section_header sec 0) secs) @ D"
  shows "buf_data (fold (\<lambda>(sec, p). ELFEmitter_emit_section_data (esec_data sec) p)
           (zip secs (map (\<lambda>i. length P + 64 * i + 24) [0..<length secs])) s) =
         P @ concat (map2 (\<lambda>sec off. elf_section_header sec (of_nat off)) secs
                (elf_offsets (length (buf_data s)) secs)) @ D @
         concat (map (\<lambda>sec. elf_data_bytes (esec_data sec)) secs)"
  using assms
proof (induction secs arbitrary: s P D)
  case (Cons sec secs)
  let ?R = "concat (map (\<lambda>sec. elf_section_header sec 0) secs) @ D"
  let ?s = "ELFEmitter_emit_section_data (esec_data sec) (length P + 24) s"
  let ?P = "P @ elf_section_header sec (of_nat (length (buf_data s)))"
  have data: "buf_data s = P @ elf_section_header sec 0 @ ?R" using Cons.prems(2) by simp
  note e = emit_section_data_end [OF Cons.prems(1) data]
  have "length (buf_data ?s) = length (buf_data s) + length (elf_data_bytes (esec_data sec))"
    unfolding e(1) data by simp
  moreover have "buf_data ?s = ?P @ concat (map (\<lambda>sec. elf_section_header sec 0) secs) @
      (D @ elf_data_bytes (esec_data sec))"
    by (simp add: e(1))
  note Cons.IH [OF e(2) this]
  moreover have "map (\<lambda>i. length P + 64 * i + 24) [0..<length (sec # secs)] =
      (length P + 24) # map (\<lambda>i. length ?P + 64 * i + 24) [0..<length secs]"
    by (simp add: map_upt_Suc del: upt_Suc)
  ultimately show ?case by simp
qed simp

text \<open>The file in closed form.\<close>

lemma emit_file_bytes:
  "buf_data (ELFEmitter_emit_file f WriteBuffer_new) =
     elf_header f @ replicate 64 0 @
     concat (map2 (\<lambda>sec off. elf_section_header sec (of_nat off)) (elf_sections f)
       (elf_offsets (64 * (length (elf_sections f) + 2)) (elf_sections f))) @
     concat (map (\<lambda>sec. elf_data_bytes (esec_data sec)) (elf_sections f))"
proof -
  let ?secs = "elf_sections f"
  let ?s1 = "emit_times 64 0 (ELFEmitter_emit_header f WriteBuffer_new)"
  obtain ps s2 where hs: "emit_section_headers ?secs ?s1 = (ps, s2)" by fastforce
  have s1: "at_end ?s1" "buf_data ?s1 = elf_header f @ replicate 64 0"
    by (simp_all add: emit_simps)
  have s2: "at_end s2" "buf_data s2 = (elf_header f @ replicate 64 0) @
      concat (map (\<lambda>sec. elf_section_header sec 0) ?secs) @ []"
    "ps = map (\<lambda>i. length (elf_header f @ replicate 64 (0 :: u8)) + 64 * i + 24) [0..<length ?secs]"
    using emit_section_headers_end [OF s1(1), of ?secs] by (simp_all add: hs s1(2))
  have "length (concat (map (\<lambda>sec. elf_section_header sec 0) ?secs)) = 64 * length ?secs"
    by (induction ?secs arbitrary: f) (simp_all add: length_concat comp_def sum_list_triv)
  then have "length (buf_data s2) = 64 * (length ?secs + 2)" using s2(2) by simp
  moreover have "buf_data (ELFEmitter_emit_file f WriteBuffer_new) =
      buf_data (fold (\<lambda>(sec, p). ELFEmitter_emit_section_data (esec_data sec) p) (zip ?secs ps) s2)"
    using fold_index_zip [of ps ?secs "\<lambda>sec. ELFEmitter_emit_section_data (esec_data sec)" s2]
    by (simp add: ELFEmitter_emit_file_def ELFEmitter_emit_sections_def hs s2(3))
  ultimately show ?thesis
    using emit_all_data_end [OF s2(1,2)] by (simp add: s2(3))
qed

subsection \<open>Reading the file back\<close>

text \<open>What a reader of the section table finds: the fields of the \<open>i\<close>-th header behind the null header.\<close>

definition elf_field :: "u8 list \<Rightarrow> nat \<Rightarrow> nat \<Rightarrow> nat \<Rightarrow> nat" where
  "elf_field bytes i pos width = le_value (take width (drop (64 * (i + 2) + pos) bytes))"

lemma take_drop_concat:
  assumes "\<forall>x \<in> set xs. length x = k" and "i < length xs" and "p + w \<le> k"
  shows "take w (drop (k * i + p) (concat xs @ ys)) = take w (drop p (xs ! i))"
  using assms
proof (induction xs arbitrary: i)
  case (Cons x xs)
  show ?case
  proof (cases i)
    case 0
    then show ?thesis using Cons.prems by simp
  next
    case (Suc j)
    have "drop (k * i + p) (concat (x # xs) @ ys) = drop (k * j + p) (concat xs @ ys)"
      using Suc Cons.prems by simp
    then show ?thesis using Cons.IH [of j] Cons.prems Suc by simp
  qed
qed simp

lemma elf_offsets_nth:
  "i < length secs \<Longrightarrow> elf_offsets start secs ! i =
     start + length (concat (map (\<lambda>sec. elf_data_bytes (esec_data sec)) (take i secs)))"
proof (induction secs arbitrary: i start)
  case (Cons sec secs)
  then show ?case by (cases i) simp_all
qed simp

lemma concat_take_nth_drop:
  assumes "i < length xs"
  shows "concat xs = concat (take i xs) @ xs ! i @ concat (drop (Suc i) xs)"
  using assms by (metis append_take_drop_id concat.simps(2) concat_append Cons_nth_drop_Suc)

definition elf_consistent :: "elf_section \<Rightarrow> bool" where
  "elf_consistent sec \<longleftrightarrow>
     (case esec_data sec of Elf_BinaryData _ \<Rightarrow> True | _ \<Rightarrow> esec_entry_size sec = 24)"

lemma length_concat_map_const: "\<forall>x \<in> set xs. length (f x) = k \<Longrightarrow> length (concat (map f xs)) = k * length xs"
  by (induction xs) simp_all

lemma data_size:
  assumes "elf_consistent sec"
  shows "ELFSection_data_size sec = of_nat (length (elf_data_bytes (esec_data sec)))"
  using assms
  by (auto simp: elf_consistent_def ELFSection_data_size_def elf_data_bytes_def
      length_concat_map_const [of _ _ 24] split: elf_data.splits)

lemma le_value_le_bytes_u: 
  "le_value (le_bytes 8 (d :: u64)) = unat d" "le_value (le_bytes 4 (w :: u32)) = unat w"
  by (simp_all add: le_value_u64 le_value_u32)

lemma elf_file_field:
  assumes "i < length (elf_sections f)" and "pos + width \<le> 64"
  defines "bytes \<equiv> buf_data (ELFEmitter_emit_file f WriteBuffer_new)"
  shows "elf_field bytes i pos width = le_value (take width (drop pos
           (elf_section_header (elf_sections f ! i)
              (of_nat (elf_offsets (64 * (length (elf_sections f) + 2)) (elf_sections f) ! i)))))"
proof -
  let ?hs = "map2 (\<lambda>sec off. elf_section_header sec (of_nat off)) (elf_sections f)
    (elf_offsets (64 * (length (elf_sections f) + 2)) (elf_sections f))"
  let ?D = "concat (map (\<lambda>sec. elf_data_bytes (esec_data sec)) (elf_sections f))"
  have "drop (64 * (i + 2) + pos) bytes = drop (64 * i + pos) (concat ?hs @ ?D)"
    unfolding bytes_def emit_file_bytes by simp
  moreover have "take width (drop (64 * i + pos) (concat ?hs @ ?D)) = take width (drop pos (?hs ! i))"
    by (rule take_drop_concat) (use assms in \<open>auto simp: set_zip\<close>)
  ultimately show ?thesis using assms(1) by (simp add: elf_field_def)
qed

subsection \<open>Symbols\<close>

text \<open>The symbol of a definition, with its name in the string table.\<close>

definition symbol_for :: "u8 list \<Rightarrow> bin_symbol_def \<Rightarrow> elf_symbol \<Rightarrow> bool" where
  "symbol_for strings def y \<longleftrightarrow>
     esym_binding y = (if bsd_global def then ELF_GLOBAL else ELF_LOCAL) \<and>
     ELFBuilder_symbol_kind (bsd_kind def) = Some (esym_type y, esym_section_index y) \<and>
     esym_value y = ucast (bsd_offset def) \<and>
     (\<exists>n. esym_name_offset y = of_nat n \<and>
        take (length (bsd_name def) + 1) (drop n strings) = bytes_of_string (bsd_name def) @ [0])"

lemma length_bytes_of_string [simp]: "length (bytes_of_string s) = length s"
  by (simp add: bytes_of_string_def)

lemma symbol_for_append:
  assumes "symbol_for strings def y"
  shows "symbol_for (strings @ extra) def y"
proof -
  obtain n where n: "esym_name_offset y = of_nat n"
    "take (length (bsd_name def) + 1) (drop n strings) = bytes_of_string (bsd_name def) @ [0]"
    using assms by (auto simp: symbol_for_def)
  have "length (take (length (bsd_name def) + 1) (drop n strings)) = length (bsd_name def) + 1"
    unfolding n(2) by simp
  then have "length (bsd_name def) + 1 \<le> length (drop n strings)" by simp
  then have "take (length (bsd_name def) + 1) (drop n (strings @ extra)) =
      bytes_of_string (bsd_name def) @ [0]"
    using n(2) by simp
  then show ?thesis using assms n(1) unfolding symbol_for_def by blast
qed

text \<open>The state of the builder as far as symbols go, and one definition.\<close>

definition elf_symbols :: "elf_builder \<Rightarrow> elf_symbol list \<Rightarrow> u8 list \<Rightarrow> bool" where
  "elf_symbols b symbols strings \<longleftrightarrow>
     esec_data (eb_symtab_section b) = Elf_SymbolList symbols \<and>
     esec_data (eb_strtab_section b) = Elf_BinaryData strings"

lemma process_def_symbol:
  assumes "ELFBuilder_process_def def b = Some b'" and "elf_symbols b symbols strings"
  shows "\<exists>y extra. elf_symbols b' (symbols @ [y]) (strings @ extra) \<and> symbol_for (strings @ extra) def y \<and>
           esec_info (eb_symtab_section b') = esec_info (eb_symtab_section b) \<and>
           eb_symbol_indices b' = eb_symbol_indices b \<and>
           eb_text_rela_section b' = eb_text_rela_section b \<and>
           eb_data_rela_section b' = eb_data_rela_section b \<and>
           eb_bnjatbl_rela_section b' = eb_bnjatbl_rela_section b"
proof -
  let ?extra = "bytes_of_string (bsd_name def) @ [0]"
  obtain type index where kind: "ELFBuilder_symbol_kind (bsd_kind def) = Some (type, index)"
    using assms by (auto simp: ELFBuilder_process_def_def Option.bind_eq_Some_conv)
  let ?y = "\<lparr>esym_name_offset = of_nat (length strings),
     esym_binding = (if bsd_global def then ELF_GLOBAL else ELF_LOCAL),
     esym_type = type, esym_section_index = index, esym_value = ucast (bsd_offset def), esym_size = 0\<rparr>"
  have b': "b' = b\<lparr>eb_strtab_section := (eb_strtab_section b)\<lparr>esec_data := Elf_BinaryData (strings @ ?extra)\<rparr>,
      eb_symtab_section := (eb_symtab_section b)\<lparr>esec_data := Elf_SymbolList (symbols @ [?y])\<rparr>\<rparr>"
    using assms kind
    by (simp add: ELFBuilder_process_def_def ELFBuilder_add_string_def Elf_get_symbols_def
        Elf_get_binary_def elf_symbols_def)
  have "take (length (bsd_name def) + 1) (drop (length strings) (strings @ ?extra)) = ?extra" by simp
  then have "symbol_for (strings @ ?extra) def ?y"
    using kind by (auto simp: symbol_for_def intro!: exI [of _ "length strings"])
  then show ?thesis using b' by (intro exI [of _ ?y] exI [of _ ?extra]) (simp add: elf_symbols_def)
qed

lemma process_pass_symbols:
  fixes defs :: "bin_symbol_def list" and g :: bool
  defines "step \<equiv> \<lambda>i b.
       if bsd_global (defs ! i) = g then do {
         symbols \<leftarrow> Elf_get_symbols (eb_symtab_section b);
         ELFBuilder_process_def (defs ! i)
           (b\<lparr>eb_symbol_indices := (eb_symbol_indices b)[i := of_nat (length symbols)]\<rparr>)
       } else Some b"
  assumes "for_each is step b = Some b'" and "elf_symbols b symbols strings"
    and "distinct is" and "\<forall>i \<in> set is. i < length (eb_symbol_indices b)"
  shows "\<exists>new extra. elf_symbols b' (symbols @ new) (strings @ extra) \<and>
           length new = length (filter (\<lambda>i. bsd_global (defs ! i) = g) is) \<and>
           (\<forall>y \<in> set new. esym_binding y = (if g then ELF_GLOBAL else ELF_LOCAL)) \<and>
           esec_info (eb_symtab_section b') = esec_info (eb_symtab_section b) \<and>
           length (eb_symbol_indices b') = length (eb_symbol_indices b) \<and>
           (\<forall>i. \<not> (i \<in> set is \<and> bsd_global (defs ! i) = g) \<longrightarrow>
              eb_symbol_indices b' ! i = eb_symbol_indices b ! i) \<and>
           (\<forall>i \<in> set is. bsd_global (defs ! i) = g \<longrightarrow>
              (\<exists>k < length new. eb_symbol_indices b' ! i = of_nat (length symbols + k) \<and>
                 symbol_for (strings @ extra) (defs ! i) (new ! k))) \<and>
           eb_text_rela_section b' = eb_text_rela_section b \<and>
           eb_data_rela_section b' = eb_data_rela_section b \<and>
           eb_bnjatbl_rela_section b' = eb_bnjatbl_rela_section b"
  using assms(2-)
proof (induction "is" arbitrary: b symbols strings)
  case Nil
  then show ?case by (auto intro!: exI [of _ "[]"])
next
  case (Cons i js)
  obtain b1 where step1: "step i b = Some b1" and rest: "for_each js step b1 = Some b'"
    using Cons.prems(1) by (auto simp: Option.bind_eq_Some_conv)
  have js: "distinct js" "i \<notin> set js" using Cons.prems(3) by auto
  show ?case
  proof (cases "bsd_global (defs ! i) = g")
    case False
    then have b1: "b1 = b" using step1 by (simp add: step_def)
    have "\<forall>j \<in> set js. j < length (eb_symbol_indices b)" using Cons.prems(4) by simp
    note ih = Cons.IH [OF rest [unfolded b1] Cons.prems(2) js(1) this]
    show ?thesis
      using ih False
      by (elim exE) (rule exI, rule exI, rule conjI, erule conjunct1, simp, metis)
  next
    case True
    let ?b = "b\<lparr>eb_symbol_indices := (eb_symbol_indices b)[i := of_nat (length symbols)]\<rparr>"
    have pd: "ELFBuilder_process_def (defs ! i) ?b = Some b1"
      using step1 True Cons.prems(2) by (simp add: step_def Elf_get_symbols_def elf_symbols_def)
    have "elf_symbols ?b symbols strings" using Cons.prems(2) by (simp add: elf_symbols_def)
    from process_def_symbol [OF pd this] obtain y extra1 where
      y: "elf_symbols b1 (symbols @ [y]) (strings @ extra1)" "symbol_for (strings @ extra1) (defs ! i) y"
      and b1: "esec_info (eb_symtab_section b1) = esec_info (eb_symtab_section b)"
        "eb_symbol_indices b1 = (eb_symbol_indices b)[i := of_nat (length symbols)]"
        "eb_text_rela_section b1 = eb_text_rela_section b"
        "eb_data_rela_section b1 = eb_data_rela_section b"
        "eb_bnjatbl_rela_section b1 = eb_bnjatbl_rela_section b" by auto
    have "\<forall>j \<in> set js. j < length (eb_symbol_indices b1)" using Cons.prems(4) b1(2) by simp
    from Cons.IH [OF rest y(1) js(1) this] obtain new extra where
      ih: "elf_symbols b' ((symbols @ [y]) @ new) ((strings @ extra1) @ extra)"
        "length new = length (filter (\<lambda>i. bsd_global (defs ! i) = g) js)"
        "\<forall>y \<in> set new. esym_binding y = (if g then ELF_GLOBAL else ELF_LOCAL)"
        "\<forall>j. \<not> (j \<in> set js \<and> bsd_global (defs ! j) = g) \<longrightarrow>
           eb_symbol_indices b' ! j = eb_symbol_indices b1 ! j"
        "\<forall>j \<in> set js. bsd_global (defs ! j) = g \<longrightarrow>
           (\<exists>k < length new. eb_symbol_indices b' ! j = of_nat (length (symbols @ [y]) + k) \<and>
              symbol_for ((strings @ extra1) @ extra) (defs ! j) (new ! k))"
      and b': "esec_info (eb_symtab_section b') = esec_info (eb_symtab_section b1)"
        "length (eb_symbol_indices b') = length (eb_symbol_indices b1)"
        "eb_text_rela_section b' = eb_text_rela_section b1"
        "eb_data_rela_section b' = eb_data_rela_section b1"
        "eb_bnjatbl_rela_section b' = eb_bnjatbl_rela_section b1" by auto
    have binding: "esym_binding y = (if g then ELF_GLOBAL else ELF_LOCAL)"
      using y(2) True by (simp add: symbol_for_def)
    have yi: "symbol_for (strings @ extra1 @ extra) (defs ! i) y"
      using symbol_for_append [OF y(2)] by simp
    have idx: "eb_symbol_indices b' ! i = of_nat (length symbols)"
      using ih(4) js(2) b1(2) Cons.prems(4) by simp
    have found: "\<exists>k < length (y # new). eb_symbol_indices b' ! j = of_nat (length symbols + k) \<and>
        symbol_for (strings @ extra1 @ extra) (defs ! j) ((y # new) ! k)"
      if j: "j \<in> set (i # js)" "bsd_global (defs ! j) = g" for j
    proof (cases "j = i")
      case True
      then show ?thesis using yi idx by (intro exI [of _ 0]) simp
    next
      case False
      then obtain k where "k < length new" "eb_symbol_indices b' ! j = of_nat (length (symbols @ [y]) + k)"
        "symbol_for ((strings @ extra1) @ extra) (defs ! j) (new ! k)"
        using j ih(5) by auto
      then show ?thesis by (intro exI [of _ "Suc k"]) simp
    qed
    have other: "eb_symbol_indices b' ! j = eb_symbol_indices b ! j"
      if "\<not> (j \<in> set (i # js) \<and> bsd_global (defs ! j) = g)" for j
    proof -
      have "j \<noteq> i" "\<not> (j \<in> set js \<and> bsd_global (defs ! j) = g)" using that True by auto
      then show ?thesis using ih(4) b1(2) by simp
    qed
    show ?thesis
      using ih(1-3) b' b1 binding found other True
      by (intro exI [of _ "y # new"] exI [of _ "extra1 @ extra"]) auto
  qed
qed

lemma process_defs_symbols:
  assumes "ELFBuilder_process_defs defs b = Some b'" and "elf_symbols b symbols strings"
    and "\<forall>y \<in> set symbols. esym_binding y = ELF_LOCAL" and "length symbols + length defs < 2 ^ 32"
  shows "\<exists>ys names. elf_symbols b' ys names \<and> length ys = length symbols + length defs \<and>
           (\<forall>j < length ys. esym_binding (ys ! j) = ELF_GLOBAL \<longleftrightarrow>
              unat (esec_info (eb_symtab_section b')) \<le> j) \<and>
           length (eb_symbol_indices b') = length defs \<and>
           (\<forall>i < length defs. unat (eb_symbol_indices b' ! i) < length ys \<and>
              symbol_for names (defs ! i) (ys ! unat (eb_symbol_indices b' ! i))) \<and>
           eb_text_rela_section b' = eb_text_rela_section b \<and>
           eb_data_rela_section b' = eb_data_rela_section b \<and>
           eb_bnjatbl_rela_section b' = eb_bnjatbl_rela_section b"
proof -
  let ?is = "[0..<length defs]"
  let ?b = "b\<lparr>eb_symbol_indices := replicate (length defs) 0\<rparr>"
  let ?L = "filter (\<lambda>i. \<not> bsd_global (defs ! i)) ?is" and ?G = "filter (\<lambda>i. bsd_global (defs ! i)) ?is"
  obtain b1 where pass1: "ELFBuilder_process_pass False defs ?b = Some b1"
    using assms(1) by (auto simp: ELFBuilder_process_defs_def Option.bind_eq_Some_conv)
  have "elf_symbols ?b symbols strings" using assms(2) by (simp add: elf_symbols_def)
  from process_pass_symbols [OF pass1 [unfolded ELFBuilder_process_pass_def] this] obtain ls ns1 where
    ls: "elf_symbols b1 (symbols @ ls) (strings @ ns1)" "length ls = length ?L"
      "\<forall>y \<in> set ls. esym_binding y = ELF_LOCAL" "length (eb_symbol_indices b1) = length defs"
      "\<forall>i \<in> set ?is. \<not> bsd_global (defs ! i) \<longrightarrow>
         (\<exists>k < length ls. eb_symbol_indices b1 ! i = of_nat (length symbols + k) \<and>
            symbol_for (strings @ ns1) (defs ! i) (ls ! k))"
    and rela1: "eb_text_rela_section b1 = eb_text_rela_section b"
      "eb_data_rela_section b1 = eb_data_rela_section b"
      "eb_bnjatbl_rela_section b1 = eb_bnjatbl_rela_section b" by auto
  let ?info = "of_nat (length (symbols @ ls)) :: u32"
  let ?b1 = "b1\<lparr>eb_symtab_section := (eb_symtab_section b1)\<lparr>esec_info := ?info\<rparr>\<rparr>"
  have pass2: "ELFBuilder_process_pass True defs ?b1 = Some b'"
    using assms(1) pass1 ls(1)
    by (simp add: ELFBuilder_process_defs_def Elf_get_symbols_def elf_symbols_def)
  have b1: "elf_symbols ?b1 (symbols @ ls) (strings @ ns1)" using ls(1) by (simp add: elf_symbols_def)
  have "\<forall>i \<in> set ?is. i < length (eb_symbol_indices ?b1)" using ls(4) by simp
  from process_pass_symbols [OF pass2 [unfolded ELFBuilder_process_pass_def] b1 _ this] obtain gs ns2 where
    gs: "elf_symbols b' ((symbols @ ls) @ gs) ((strings @ ns1) @ ns2)" "length gs = length ?G"
      "\<forall>y \<in> set gs. esym_binding y = ELF_GLOBAL" "esec_info (eb_symtab_section b') = ?info"
      "length (eb_symbol_indices b') = length defs"
      "\<forall>i. \<not> (i \<in> set ?is \<and> bsd_global (defs ! i)) \<longrightarrow> eb_symbol_indices b' ! i = eb_symbol_indices b1 ! i"
      "\<forall>i \<in> set ?is. bsd_global (defs ! i) \<longrightarrow>
         (\<exists>k < length gs. eb_symbol_indices b' ! i = of_nat (length (symbols @ ls) + k) \<and>
            symbol_for ((strings @ ns1) @ ns2) (defs ! i) (gs ! k))"
    and rela2: "eb_text_rela_section b' = eb_text_rela_section b1"
      "eb_data_rela_section b' = eb_data_rela_section b1"
      "eb_bnjatbl_rela_section b' = eb_bnjatbl_rela_section b1"
    using ls(4) by auto
  let ?ys = "(symbols @ ls) @ gs" and ?names = "(strings @ ns1) @ ns2"
  have "length ?L + length ?G = length defs"
    using sum_length_filter_compl [of "\<lambda>i. bsd_global (defs ! i)" ?is] by simp
  then have len: "length ?ys = length symbols + length defs" using ls(2) gs(2) by simp
  then have small: "length ?ys < 2 ^ 32" using assms(4) by simp
  have small_index: "unat (of_nat n :: u32) = n" if "n \<le> length ?ys" for n
    using that small by (simp add: unsigned_of_nat take_bit_nat_eq_self)
  have info: "unat ?info = length (symbols @ ls)"
    by (rule small_index) simp
  have binding: "esym_binding (?ys ! j) = ELF_GLOBAL \<longleftrightarrow> unat (esec_info (eb_symtab_section b')) \<le> j"
    if "j < length ?ys" for j
  proof (cases "j < length (symbols @ ls)")
    case True
    then have "?ys ! j \<in> set symbols \<union> set ls" by (metis nth_append nth_mem set_append)
    then show ?thesis
      using True assms(3) ls(3) info gs(4) by (auto simp: ELF_GLOBAL_def ELF_LOCAL_def)
  next
    case False
    have "?ys ! j = gs ! (j - length (symbols @ ls))" using False by (metis nth_append)
    then have "?ys ! j \<in> set gs" using that False by simp
    then show ?thesis using False gs(3,4) info by simp
  qed
  have found: "unat (eb_symbol_indices b' ! i) < length ?ys \<and>
      symbol_for ?names (defs ! i) (?ys ! unat (eb_symbol_indices b' ! i))" if i: "i < length defs" for i
  proof (cases "bsd_global (defs ! i)")
    case True
    then obtain k where k: "k < length gs" "eb_symbol_indices b' ! i = of_nat (length (symbols @ ls) + k)"
      "symbol_for ?names (defs ! i) (gs ! k)" using gs(7) i by auto
    then have "unat (eb_symbol_indices b' ! i) = length (symbols @ ls) + k"
      using small_index [of "length (symbols @ ls) + k"] by simp
    then show ?thesis using k by (simp add: nth_append)
  next
    case False
    then obtain k where k: "k < length ls" "eb_symbol_indices b1 ! i = of_nat (length symbols + k)"
      "symbol_for (strings @ ns1) (defs ! i) (ls ! k)" using ls(5) i by auto
    then have "unat (eb_symbol_indices b' ! i) = length symbols + k"
      using small_index [of "length symbols + k"] gs(6) False by simp
    then show ?thesis using k symbol_for_append [OF k(3)] by (simp add: nth_append)
  qed
  show ?thesis
    using gs(1,5) len binding found rela1 rela2
    by (intro exI [of _ ?ys] exI [of _ ?names]) auto
qed

subsection \<open>Relocations\<close>

definition elf_relocation_of :: "architecture \<Rightarrow> u32 list \<Rightarrow> bin_symbol_use \<Rightarrow> elf_relocation" where
  "elf_relocation_of arch indices use =
     (let (address_offset, type) = the (ELFBuilder_relocation arch (bsu_kind use))
      in \<lparr>erel_offset = ucast (bsu_address use),
          erel_symbol_index = indices ! unat (bsu_symbol_index use),
          erel_type = ELFRelocationType_value type,
          erel_addend = scast (bsu_addend use + address_offset)\<rparr>)"

definition elf_rela :: "elf_builder \<Rightarrow> bin_section_kind \<Rightarrow> elf_relocation list option" where
  "elf_rela b kind =
     (case kind of
        Section_TEXT \<Rightarrow> Elf_get_relocations (eb_text_rela_section b)
      | Section_DATA \<Rightarrow> Elf_get_relocations (eb_data_rela_section b)
      | Section_BNJATBL \<Rightarrow> Option.bind (eb_bnjatbl_rela_section b) Elf_get_relocations)"

lemma get_relocations_add:
  "ELFSection_add_relocation r sec = Some sec' \<Longrightarrow>
   \<exists>rs. Elf_get_relocations sec = Some rs \<and> Elf_get_relocations sec' = Some (rs @ [r])"
  by (auto simp: ELFSection_add_relocation_def Elf_get_relocations_def Option.bind_eq_Some_conv)

lemma process_use_relocation:
  assumes "ELFBuilder_process_use arch use b = Some b'"
  shows "eb_symtab_section b' = eb_symtab_section b \<and> eb_strtab_section b' = eb_strtab_section b \<and>
         eb_symbol_indices b' = eb_symbol_indices b \<and>
         unat (bsu_symbol_index use) < length (eb_symbol_indices b) \<and>
         (\<forall>kind. kind \<noteq> bsu_section use \<longrightarrow> elf_rela b' kind = elf_rela b kind) \<and>
         (\<exists>rs. elf_rela b (bsu_section use) = Some rs \<and>
            elf_rela b' (bsu_section use) =
              Some (rs @ [elf_relocation_of arch (eb_symbol_indices b) use]))"
  using assms get_relocations_add
  by (cases "bsu_section use")
    (fastforce simp: ELFBuilder_process_use_def Option.bind_eq_Some_conv elf_rela_def Let_def
      elf_relocation_of_def split: bin_section_kind.split)+

lemma process_uses_relocations:
  assumes "ELFBuilder_process_uses arch uses b = Some b'"
  shows "eb_symtab_section b' = eb_symtab_section b \<and> eb_strtab_section b' = eb_strtab_section b \<and>
         eb_symbol_indices b' = eb_symbol_indices b \<and>
         (\<forall>use \<in> set uses. unat (bsu_symbol_index use) < length (eb_symbol_indices b)) \<and>
         (\<forall>kind rs. elf_rela b kind = Some rs \<longrightarrow> elf_rela b' kind =
            Some (rs @ map (elf_relocation_of arch (eb_symbol_indices b))
              (filter (\<lambda>use. bsu_section use = kind) uses)))"
  using assms unfolding ELFBuilder_process_uses_def
proof (induction uses arbitrary: b)
  case Nil
  then show ?case by simp
next
  case (Cons use uses)
  obtain b1 where b1: "ELFBuilder_process_use arch use b = Some b1"
    "for_each uses (ELFBuilder_process_use arch) b1 = Some b'"
    using Cons.prems by (auto simp: Option.bind_eq_Some_conv)
  note step = process_use_relocation [OF b1(1)] and ih = Cons.IH [OF b1(2)]
  have "elf_rela b' kind = Some (rs @ map (elf_relocation_of arch (eb_symbol_indices b))
      (filter (\<lambda>use. bsu_section use = kind) (use # uses)))" if "elf_rela b kind = Some rs" for kind rs
    using that step ih by (cases "kind = bsu_section use") auto
  then show ?case using step ih by auto
qed

subsubsection \<open>What a relocation means\<close>

text \<open>
  What a linker writes for a relocation, from the processor supplements of the ELF standard: the
  type, a number of the machine, selects a field of the code or data and a value computed from
  the address \<open>S\<close> of the symbol, the addend \<open>A\<close>, the place \<open>P\<close>, the entry \<open>L\<close> of the procedure
  linkage table, and the entries \<open>G\<close> of the global offset table. On x86-64 the table has one entry
  per symbol (written \<open>G 0\<close> here), on AArch64 one per symbol and addend. The AArch64 fields are the page
  count of \<open>ADRP\<close>, the offsets of \<open>ADD\<close> and of a 64-bit load, and the displacement of a branch.
\<close>

datatype elf_field = Field_64 | Field_32 | Field_adrp | Field_add12 | Field_ldr12 | Field_branch26

record elf_link =
  link_S :: u64
  link_L :: u64
  link_G :: "u64 \<Rightarrow> u64"
  link_P :: u64

definition page_of :: "u64 \<Rightarrow> u64" where "page_of a = a AND NOT 0xFFF"

definition elf_resolves :: "u16 \<Rightarrow> u32 \<Rightarrow> u64 \<Rightarrow> elf_link \<Rightarrow> (elf_field \<times> u64) option" where
  "elf_resolves machine type A e =
     (let S = link_S e; P = link_P e in
      if machine = 62 then
        (if type = 1 then Some (Field_64, S + A)
         else if type = 2 then Some (Field_32, S + A - P)
         else if type = 4 then Some (Field_32, link_L e + A - P)
         else if type = 9 then Some (Field_32, link_G e 0 + A - P)
         else None)
      else if machine = 183 then
        (if type = 257 then Some (Field_64, S + A)
         else if type = 275 then Some (Field_adrp, page_of (S + A) - page_of P)
         else if type = 277 then Some (Field_add12, (S + A) AND 0xFFF)
         else if type = 283 then Some (Field_branch26, S + A - P)
         else if type = 311 then Some (Field_adrp, page_of (link_G e A) - page_of P)
         else if type = 312 then Some (Field_ldr12, link_G e A AND 0xFFF)
         else None)
      else None)"

text \<open>
  What the encoders mean with a use and its addend \<open>a\<close>: an absolute address; on x86-64 a distance
  from the end of the four-byte field to the symbol, its entry of the linkage table or the place
  of its address; on AArch64 the two halves of an address or of the place of the address, and
  the distance of a call.
\<close>

definition elf_use_means ::
  "architecture \<Rightarrow> bin_symbol_use_kind \<Rightarrow> u64 \<Rightarrow> elf_link \<Rightarrow> (elf_field \<times> u64) option" where
  "elf_use_means arch kind a e =
     (let S = link_S e; P = link_P e in
      if arch = Arch_X86_64 then
        (case kind of
           ABS64 \<Rightarrow> Some (Field_64, S + a)
         | REL32 \<Rightarrow> Some (Field_32, S + a - (P + 4))
         | PLT32 \<Rightarrow> Some (Field_32, link_L e + a - (P + 4))
         | GOTPCREL32 \<Rightarrow> Some (Field_32, link_G e 0 + a - (P + 4))
         | _ \<Rightarrow> None)
      else
        (case kind of
           ABS64 \<Rightarrow> Some (Field_64, S + a)
         | ADR_PREL_PG_HI21 \<Rightarrow> Some (Field_adrp, page_of (S + a) - page_of P)
         | ADD_ABS_LO12_NC \<Rightarrow> Some (Field_add12, (S + a) AND 0xFFF)
         | CALL26 \<Rightarrow> Some (Field_branch26, S + a - P)
         | ADR_GOT_PAGE \<Rightarrow> Some (Field_adrp, page_of (link_G e a) - page_of P)
         | LD64_GOT_LO12_NC \<Rightarrow> Some (Field_ldr12, link_G e a AND 0xFFF)
         | _ \<Rightarrow> None))"

lemma scast_addend:
  assumes "d = 0 \<or> d = - 4" and "- (2 ^ 31) + 4 \<le> sint (a :: u32)"
  shows "(scast (a + d) :: u64) = scast a + scast d"
  using assms(1)
proof
  assume d: "d = - 4"
  have "sint a < 2 ^ 31" using sint_lt [of a] by simp
  then have "sint (a + d) = sint a - 4"
    using assms(2) by (simp add: d sint_word_ariths signed_take_bit_int_eq_self)
  then have "(scast (a + d) :: u64) = word_of_int (sint a - 4)" by (simp only: scast_eq)
  also have "\<dots> = scast a - 4" by (simp only: of_int_diff scast_eq) simp
  also have "scast a - 4 = scast a + (scast d :: u64)" unfolding d by simp
  finally show ?thesis .
qed simp

lemma relocation_cases:
  assumes "ELFBuilder_relocation arch kind = Some (d, type)"
  shows "arch = Arch_X86_64 \<and>
      (kind = ABS64 \<and> d = 0 \<and> type = X86_64_64 \<or> kind = REL32 \<and> d = - 4 \<and> type = X86_64_PC32 \<or>
       kind = GOTPCREL32 \<and> d = - 4 \<and> type = X86_64_GOTPCREL \<or>
       kind = PLT32 \<and> d = - 4 \<and> type = X86_64_PLT32) \<or>
    arch = Arch_AARCH64 \<and> d = 0 \<and>
      (kind = ABS64 \<and> type = AARCH64_ABS64 \<or>
       kind = ADR_PREL_PG_HI21 \<and> type = AARCH64_ADR_PREL_PG_HI21 \<or>
       kind = ADD_ABS_LO12_NC \<and> type = AARCH64_ADD_ABS_LO12_NC \<or>
       kind = CALL26 \<and> type = AARCH64_CALL26 \<or> kind = ADR_GOT_PAGE \<and> type = AARCH64_ADR_GOT_PAGE \<or>
       kind = LD64_GOT_LO12_NC \<and> type = AARCH64_LD64_GOT_LO12_NC)"
proof (cases arch)
  case Arch_X86_64
  then show ?thesis
    using assms by (cases kind) (simp_all add: ELFBuilder_relocation_def ELFBuilder_process_x86_64_relocation_def)
next
  case Arch_AARCH64
  then show ?thesis
    using assms by (cases kind) (simp_all add: ELFBuilder_relocation_def ELFBuilder_process_aarch64_relocation_def)
qed (use assms in \<open>simp_all add: ELFBuilder_relocation_def\<close>)

lemma relocation_meaning:
  assumes "ELFBuilder_machine arch = Some machine" and "ELFBuilder_relocation arch kind = Some (d, type)"
    and "- (2 ^ 31) + 4 \<le> sint a"
  shows "elf_resolves machine (ELFRelocationType_value type) (scast (a + d)) e =
           elf_use_means arch kind (scast a) e"
    and "elf_use_means arch kind (scast a) e \<noteq> None"
proof -
  note cases = relocation_cases [OF assms(2)]
  then have "d = 0 \<or> d = - 4" by auto
  note addend = scast_addend [OF this assms(3)]
  have minus: "(scast (- 4 :: u32) :: u64) = - 4" by simp
  note defs = ELFBuilder_machine_def ELFMachine_X86_64_def ELFMachine_AARCH64_def
    ELFRelocationType_value_def elf_resolves_def elf_use_means_def Let_def minus
  show "elf_resolves machine (ELFRelocationType_value type) (scast (a + d)) e =
           elf_use_means arch kind (scast a) e"
    and "elf_use_means arch kind (scast a) e \<noteq> None"
    using assms(1) cases unfolding addend
    by (elim disjE conjE; simp add: defs; fail)+
qed

lemma process_uses_relocatable:
  assumes "ELFBuilder_process_uses arch uses b = Some b'" and "use \<in> set uses"
  shows "ELFBuilder_relocation arch (bsu_kind use) \<noteq> None"
  using assms unfolding ELFBuilder_process_uses_def
  by (induction uses arbitrary: b)
    (auto simp: Option.bind_eq_Some_conv ELFBuilder_process_use_def)

text \<open>The steps of \<open>build\<close>.\<close>

definition elf_build_steps ::
  "architecture \<Rightarrow> bin_module \<Rightarrow> elf_file \<Rightarrow> elf_builder \<Rightarrow> elf_builder \<Rightarrow> elf_builder \<Rightarrow> bool" where
  "elf_build_steps arch m f b0 b1 b \<longleftrightarrow>
     ELFBuilder_process_defs (bm_symbol_defs m) b0 = Some b1 \<and>
     ELFBuilder_process_uses arch (bm_symbol_uses m) b1 = Some b \<and>
     elf_symbols b0 ELFBuilder_initial_symbols [0] \<and>
     elf_rela b0 Section_TEXT = Some [] \<and> elf_rela b0 Section_DATA = Some [] \<and>
     (bm_bnjatbl_data m \<noteq> None \<longrightarrow> elf_rela b0 Section_BNJATBL = Some []) \<and>
     elf_sections f ! 3 = eb_strtab_section b \<and> elf_sections f ! 4 = eb_symtab_section b \<and>
     elf_sections f ! 5 = eb_text_rela_section b \<and> elf_sections f ! 6 = eb_data_rela_section b \<and>
     (bm_bnjatbl_data m \<noteq> None \<longrightarrow> eb_bnjatbl_rela_section b = Some (elf_sections f ! 8))"

lemma build_parts:
  assumes "ELFBuilder_build arch m = Some f"
  shows "\<exists>b0 b1 b. elf_build_steps arch m f b0 b1 b"
proof -
  note init = elf_symbols_def elf_rela_def ELFBuilder_rela_section_def ELFSection_make_def
    Elf_get_relocations_def
  show ?thesis
  proof (cases "bm_bnjatbl_data m")
    case None
    then show ?thesis
      using assms
      apply (clarsimp simp: ELFBuilder_build_def Option.bind_eq_Some_conv)
      apply (unfold elf_build_steps_def)
      apply (intro exI conjI, assumption, assumption)
      apply (simp_all add: init)
      done
  next
    case (Some table)
    then show ?thesis
      using assms
      apply (clarsimp simp: ELFBuilder_build_def Option.bind_eq_Some_conv)
      apply (unfold elf_build_steps_def)
      apply (intro exI conjI, assumption, assumption)
      apply (simp_all add: init)
      done
  qed
qed

lemma build_machine:
  "ELFBuilder_build arch m = Some f \<Longrightarrow> ELFBuilder_machine arch = Some (elf_machine f)"
  by (auto simp: ELFBuilder_build_def Option.bind_eq_Some_conv split: option.splits)

text \<open>A module for the witnesses: a function that refers to a private data object.\<close>

definition elf_example :: bin_module where
  "elf_example =
     \<lparr>bm_text = \<lparr>buf_data = [1, 2, 3, 4], buf_position = 4\<rparr>, bm_data = \<lparr>buf_data = [5], buf_position = 1\<rparr>,
      bm_symbol_defs =
        [\<lparr>bsd_name = ''f'', bsd_kind = TEXT_FUNC, bsd_offset = 0, bsd_global = True\<rparr>,
         \<lparr>bsd_name = ''d'', bsd_kind = DATA_LABEL, bsd_offset = 0, bsd_global = False\<rparr>],
      bm_symbol_uses =
        [\<lparr>bsu_address = 0, bsu_addend = 0, bsu_symbol_index = 1, bsu_kind = ADR_PREL_PG_HI21,
          bsu_section = Section_TEXT\<rparr>],
      bm_unwind_info = [], bm_bnjatbl_data = None\<rparr>"

lemma elf_example_builds: "\<exists>f. ELFBuilder_build Arch_AARCH64 elf_example = Some f"
  by (simp add: ELFBuilder_build_def elf_example_def ELFBuilder_machine_def ELFBuilder_add_string_def
      Elf_get_binary_def ELFSection_make_def ELFBuilder_process_defs_def ELFBuilder_process_pass_def
      ELFBuilder_process_def_def Elf_get_symbols_def ELFBuilder_symbol_kind_def upt_rec
      ELFBuilder_process_uses_def ELFBuilder_process_use_def ELFBuilder_relocation_def
      ELFBuilder_process_aarch64_relocation_def ELFSection_add_relocation_def Elf_get_relocations_def
      ELFBuilder_rela_section_def Let_def)

definition elf_example_x86 :: bin_module where
  "elf_example_x86 = elf_example\<lparr>bm_symbol_uses :=
     [\<lparr>bsu_address = 0, bsu_addend = 0, bsu_symbol_index = 1, bsu_kind = REL32, bsu_section = Section_TEXT\<rparr>]\<rparr>"

lemma elf_example_x86_builds: "\<exists>f. ELFBuilder_build Arch_X86_64 elf_example_x86 = Some f"
  by (simp add: ELFBuilder_build_def elf_example_x86_def elf_example_def ELFBuilder_machine_def
      ELFBuilder_add_string_def Elf_get_binary_def ELFSection_make_def ELFBuilder_process_defs_def
      ELFBuilder_process_pass_def ELFBuilder_process_def_def Elf_get_symbols_def
      ELFBuilder_symbol_kind_def upt_rec ELFBuilder_process_uses_def ELFBuilder_process_use_def
      ELFBuilder_relocation_def ELFBuilder_process_x86_64_relocation_def ELFSection_add_relocation_def
      Elf_get_relocations_def ELFBuilder_rela_section_def Let_def)

section \<open>Properties\<close>

text \<open>
  C15: An ELF file can be read back through its section table: the pointer and the size in the
  header of every section delimit exactly the encoded data of that section inside of the file,
  and the header keeps the name, type, link and info of the section.
\<close>

theorem ELFEmitter_sections_readable:
  assumes "\<forall>sec \<in> set (elf_sections f). elf_consistent sec"
    and "length (buf_data (ELFEmitter_emit_file f WriteBuffer_new)) < 2 ^ 64"
    and "i < length (elf_sections f)"
  shows "(let bytes = buf_data (ELFEmitter_emit_file f WriteBuffer_new); sec = elf_sections f ! i;
              off = elf_field bytes i 24 8; len = elf_field bytes i 32 8
          in off + len \<le> length bytes \<and> take len (drop off bytes) = elf_data_bytes (esec_data sec) \<and>
             elf_field bytes i 0 4 = unat (esec_name_offset sec) \<and>
             elf_field bytes i 4 4 = unat (esec_type sec) \<and>
             elf_field bytes i 40 4 = unat (esec_link sec) \<and>
             elf_field bytes i 44 4 = unat (esec_info sec))"
proof -
  let ?secs = "elf_sections f" and ?bytes = "buf_data (ELFEmitter_emit_file f WriteBuffer_new)"
  let ?enc = "\<lambda>sec. elf_data_bytes (esec_data sec)"
  let ?start = "64 * (length ?secs + 2)"
  let ?off = "elf_offsets ?start ?secs ! i"
  define H where "H = elf_header f @ replicate 64 0 @
    concat (map2 (\<lambda>sec off. elf_section_header sec (of_nat off)) ?secs (elf_offsets ?start ?secs))"
  have bytes: "?bytes = H @ concat (map ?enc ?secs)" by (simp add: H_def emit_file_bytes)
  have H: "length H = ?start"
    by (simp add: H_def length_concat_map_const [of _ _ 64] split_beta)
  have split: "concat (map ?enc ?secs) = concat (take i (map ?enc ?secs)) @ ?enc (?secs ! i) @
      concat (drop (Suc i) (map ?enc ?secs))"
    using concat_take_nth_drop [of i "map ?enc ?secs"] assms(3) by simp
  have off: "?off = length (H @ concat (take i (map ?enc ?secs)))"
    using elf_offsets_nth [OF assms(3), of ?start] by (simp add: H take_map)
  have all: "?bytes = (H @ concat (take i (map ?enc ?secs))) @ ?enc (?secs ! i) @
      concat (drop (Suc i) (map ?enc ?secs))"
    unfolding bytes split by simp
  then have data: "drop ?off ?bytes = ?enc (?secs ! i) @ concat (drop (Suc i) (map ?enc ?secs))"
    unfolding off by (metis append_eq_conv_conj)
  have len: "?off + length (?enc (?secs ! i)) \<le> length ?bytes" using all off by simp
  have "ELFSection_data_size (?secs ! i) = of_nat (length (?enc (?secs ! i)))"
    using data_size assms(1,3) by simp
  moreover have "?off < 2 ^ 64" "length (?enc (?secs ! i)) < 2 ^ 64" using assms(2) len by simp_all
  ultimately have fields: "elf_field ?bytes i 24 8 = ?off" "elf_field ?bytes i 32 8 = length (?enc (?secs ! i))"
    "elf_field ?bytes i 0 4 = unat (esec_name_offset (?secs ! i))"
    "elf_field ?bytes i 4 4 = unat (esec_type (?secs ! i))"
    "elf_field ?bytes i 40 4 = unat (esec_link (?secs ! i))"
    "elf_field ?bytes i 44 4 = unat (esec_info (?secs ! i))"
    by (simp_all add: elf_file_field [OF assms(3)] elf_section_header_def le_value_le_bytes_u
        unsigned_of_nat take_bit_nat_eq_self)
  show ?thesis using len data by (simp add: fields Let_def)
qed


theorem ELFEmitter_sections_readable_witness:
  "let bytes = buf_data (ELFEmitter_emit_file \<lparr>elf_machine = 183, elf_sections =
         [ELFSection_make 1 ELF_PROGBITS 6 0 0 16 0 (Elf_BinaryData [10, 20, 30])]\<rparr> WriteBuffer_new)
   in take (elf_field bytes 0 32 8) (drop (elf_field bytes 0 24 8) bytes) = [10, 20, 30]"
proof -
  let ?f = "\<lparr>elf_machine = 183, elf_sections =
         [ELFSection_make 1 ELF_PROGBITS 6 0 0 16 0 (Elf_BinaryData [10, 20, 30])]\<rparr>"
  have "length (buf_data (ELFEmitter_emit_file ?f WriteBuffer_new)) < 2 ^ 64"
    unfolding emit_file_bytes by (simp add: elf_data_bytes_def ELFSection_make_def)
  then show ?thesis
    using ELFEmitter_sections_readable [of ?f 0]
    by (simp add: elf_consistent_def ELFSection_make_def elf_data_bytes_def Let_def)
qed

text \<open>
  C16: The symbol table of an ELF file: every symbol definition of the module has a symbol with its
  binding, kind, section and offset, whose name is in the string table, and the \<open>info\<close> field
  separates the local symbols from the global ones, as the format demands.
\<close>

theorem ELFBuilder_symbols:
  assumes "ELFBuilder_build arch m = Some f" and "length (bm_symbol_defs m) + 3 < 2 ^ 32"
  shows "\<exists>ys names. esec_data (elf_sections f ! 4) = Elf_SymbolList ys \<and>
           esec_data (elf_sections f ! 3) = Elf_BinaryData names \<and>
           length ys = 3 + length (bm_symbol_defs m) \<and>
           (\<forall>j < length ys. esym_binding (ys ! j) = ELF_GLOBAL \<longleftrightarrow>
              unat (esec_info (elf_sections f ! 4)) \<le> j) \<and>
           (\<forall>def \<in> set (bm_symbol_defs m). \<exists>y \<in> set ys. symbol_for names def y)"
proof -
  obtain b0 b1 b where "elf_build_steps arch m f b0 b1 b" using build_parts [OF assms(1)] by blast
  then have parts: "elf_symbols b0 ELFBuilder_initial_symbols [0]"
    "ELFBuilder_process_defs (bm_symbol_defs m) b0 = Some b1"
    "ELFBuilder_process_uses arch (bm_symbol_uses m) b1 = Some b"
    "elf_sections f ! 3 = eb_strtab_section b" "elf_sections f ! 4 = eb_symtab_section b"
    by (simp_all add: elf_build_steps_def)
  have init: "length ELFBuilder_initial_symbols = 3"
    "\<forall>y \<in> set ELFBuilder_initial_symbols. esym_binding y = ELF_LOCAL"
    by (simp_all add: ELFBuilder_initial_symbols_def ELFBuilder_initial_symbol_def ELF_LOCAL_def)
  obtain ys names where ys: "elf_symbols b1 ys names" "length ys = 3 + length (bm_symbol_defs m)"
    "\<forall>j < length ys. esym_binding (ys ! j) = ELF_GLOBAL \<longleftrightarrow> unat (esec_info (eb_symtab_section b1)) \<le> j"
    "\<forall>i < length (bm_symbol_defs m). unat (eb_symbol_indices b1 ! i) < length ys \<and>
       symbol_for names (bm_symbol_defs m ! i) (ys ! unat (eb_symbol_indices b1 ! i))"
    using process_defs_symbols [OF parts(2,1) init(2)] init(1) assms(2) by auto
  have "\<exists>y \<in> set ys. symbol_for names def y" if "def \<in> set (bm_symbol_defs m)" for def
    using that ys(4) by (metis in_set_conv_nth)
  then show ?thesis
    using ys(1-3) process_uses_relocations [OF parts(3)] parts(4,5)
    by (intro exI [of _ ys] exI [of _ names]) (simp add: elf_symbols_def)
qed

theorem ELFBuilder_symbols_witness:
  "\<exists>f ys names. ELFBuilder_build Arch_AARCH64 elf_example = Some f \<and>
     esec_data (elf_sections f ! 4) = Elf_SymbolList ys \<and> length ys = 5 \<and>
     (\<exists>y \<in> set ys. symbol_for names (bm_symbol_defs elf_example ! 0) y)"
proof -
  obtain f where f: "ELFBuilder_build Arch_AARCH64 elf_example = Some f" using elf_example_builds ..
  have defs: "length (bm_symbol_defs elf_example) = 2" by (simp add: elf_example_def)
  then have "bm_symbol_defs elf_example ! 0 \<in> set (bm_symbol_defs elf_example)" by simp
  then show ?thesis using ELFBuilder_symbols [OF f] f defs by fastforce
qed

text \<open>
  C17: The relocations of an ELF file: the uses of symbols in a section of the module become, in
  their order, the relocations of that section, at the same addresses; the symbol index of
  each relocation leads to the symbol of the definition that the use refers to; and its type and
  addend are those with which the linker of the file's machine, following the processor
  supplement, writes what the use means: an absolute address, on x86-64 a distance from the end
  of the four-byte field, on AArch64 the page, the offset or the distance of a call. The
  addend of a use must leave room for the subtraction of 4 in 32 bits.
\<close>

theorem ELFBuilder_relocations:
  assumes "ELFBuilder_build arch m = Some f" and "length (bm_symbol_defs m) + 3 < 2 ^ 32"
    and "kind = Section_BNJATBL \<Longrightarrow> bm_bnjatbl_data m \<noteq> None"
    and "uses = filter (\<lambda>use. bsu_section use = kind) (bm_symbol_uses m)"
    and "n = (case kind of Section_TEXT \<Rightarrow> 5 | Section_DATA \<Rightarrow> 6 | Section_BNJATBL \<Rightarrow> 8)"
    and "\<forall>use \<in> set uses. - (2 ^ 31) + 4 \<le> sint (bsu_addend use)"
  shows "\<exists>ys names rs. esec_data (elf_sections f ! 4) = Elf_SymbolList ys \<and>
           esec_data (elf_sections f ! 3) = Elf_BinaryData names \<and>
           esec_data (elf_sections f ! n) = Elf_RelocationList rs \<and> length rs = length uses \<and>
           (\<forall>i < length rs. erel_offset (rs ! i) = ucast (bsu_address (uses ! i)) \<and>
              unat (erel_symbol_index (rs ! i)) < length ys \<and>
              symbol_for names (bm_symbol_defs m ! unat (bsu_symbol_index (uses ! i)))
                (ys ! unat (erel_symbol_index (rs ! i))) \<and>
              (\<forall>e. elf_resolves (elf_machine f) (erel_type (rs ! i)) (erel_addend (rs ! i)) e =
                     elf_use_means arch (bsu_kind (uses ! i)) (scast (bsu_addend (uses ! i))) e \<and>
                   elf_use_means arch (bsu_kind (uses ! i)) (scast (bsu_addend (uses ! i))) e \<noteq> None))"
proof -
  obtain b0 b1 b where steps: "elf_build_steps arch m f b0 b1 b" using build_parts [OF assms(1)] by blast
  then have parts: "elf_symbols b0 ELFBuilder_initial_symbols [0]"
    "ELFBuilder_process_defs (bm_symbol_defs m) b0 = Some b1"
    "ELFBuilder_process_uses arch (bm_symbol_uses m) b1 = Some b"
    "elf_sections f ! 3 = eb_strtab_section b" "elf_sections f ! 4 = eb_symtab_section b"
    by (simp_all add: elf_build_steps_def)
  have kinds: "elf_rela b0 kind = Some []" "elf_rela b kind = Elf_get_relocations (elf_sections f ! n)"
    using steps assms(3,5) by (cases kind; simp add: elf_build_steps_def elf_rela_def)+
  have init: "length ELFBuilder_initial_symbols = 3"
    "\<forall>y \<in> set ELFBuilder_initial_symbols. esym_binding y = ELF_LOCAL"
    by (simp_all add: ELFBuilder_initial_symbols_def ELFBuilder_initial_symbol_def ELF_LOCAL_def)
  obtain ys names where ys: "elf_symbols b1 ys names" "length (eb_symbol_indices b1) = length (bm_symbol_defs m)"
    "\<forall>i < length (bm_symbol_defs m). unat (eb_symbol_indices b1 ! i) < length ys \<and>
       symbol_for names (bm_symbol_defs m ! i) (ys ! unat (eb_symbol_indices b1 ! i))"
    and rela: "elf_rela b1 kind = elf_rela b0 kind"
    using process_defs_symbols [OF parts(2,1) init(2)] init(1) assms(2)
    by (auto simp: elf_rela_def split: bin_section_kind.splits)
  define rs where "rs = map (elf_relocation_of arch (eb_symbol_indices b1)) uses"
  note reloc = process_uses_relocations [OF parts(3)]
  have "elf_rela b kind = Some rs" using reloc rela kinds(1) assms(4) by (simp add: rs_def)
  then have data: "esec_data (elf_sections f ! n) = Elf_RelocationList rs"
    using kinds(2) by (auto simp: Elf_get_relocations_def split: elf_data.splits)
  have symbols: "erel_offset (rs ! i) = ucast (bsu_address (uses ! i)) \<and>
      unat (erel_symbol_index (rs ! i)) < length ys \<and>
      symbol_for names (bm_symbol_defs m ! unat (bsu_symbol_index (uses ! i)))
        (ys ! unat (erel_symbol_index (rs ! i)))" if i: "i < length rs" for i
  proof -
    have "uses ! i \<in> set (bm_symbol_uses m)"
      using i nth_mem [of i uses] by (auto simp: rs_def assms(4))
    then have "unat (bsu_symbol_index (uses ! i)) < length (bm_symbol_defs m)"
      using reloc ys(2) by simp
    then show ?thesis
      using ys(3) i by (simp add: rs_def elf_relocation_of_def split_beta)
  qed
  have meaning: "elf_resolves (elf_machine f) (erel_type (rs ! i)) (erel_addend (rs ! i)) e =
      elf_use_means arch (bsu_kind (uses ! i)) (scast (bsu_addend (uses ! i))) e \<and>
      elf_use_means arch (bsu_kind (uses ! i)) (scast (bsu_addend (uses ! i))) e \<noteq> None"
    if i: "i < length rs" for i e
  proof -
    have use: "uses ! i \<in> set uses" using i by (simp add: rs_def)
    then have "uses ! i \<in> set (bm_symbol_uses m)" using assms(4) by simp
    then obtain d type where r: "ELFBuilder_relocation arch (bsu_kind (uses ! i)) = Some (d, type)"
      using process_uses_relocatable [OF parts(3)] by fast
    show ?thesis
      using relocation_meaning [OF build_machine [OF assms(1)] r] assms(6) use i
      by (simp add: rs_def elf_relocation_of_def r)
  qed
  show ?thesis
    using data ys(1) reloc parts(4,5) symbols meaning
    by (intro exI [of _ ys] exI [of _ names] exI [of _ rs]) (simp add: elf_symbols_def rs_def)
qed

text \<open>
  The page of \<open>adrp\<close> on AArch64, and a 32-bit displacement on x86-64, whose addend is \<open>-4\<close>.
\<close>

theorem ELFBuilder_relocations_witness:
  "(\<exists>f ys names rs. ELFBuilder_build Arch_AARCH64 elf_example = Some f \<and>
     esec_data (elf_sections f ! 5) = Elf_RelocationList rs \<and> length rs = 1 \<and>
     symbol_for names (bm_symbol_defs elf_example ! 1) (ys ! unat (erel_symbol_index (rs ! 0))) \<and>
     (\<forall>e. elf_resolves (elf_machine f) (erel_type (rs ! 0)) (erel_addend (rs ! 0)) e =
        Some (Field_adrp, page_of (link_S e) - page_of (link_P e)))) \<and>
   (\<exists>f rs. ELFBuilder_build Arch_X86_64 elf_example_x86 = Some f \<and>
     esec_data (elf_sections f ! 5) = Elf_RelocationList rs \<and> length rs = 1 \<and>
     (\<forall>e. elf_resolves (elf_machine f) (erel_type (rs ! 0)) (erel_addend (rs ! 0)) e =
        Some (Field_32, link_S e - (link_P e + 4))))"
proof
  obtain f where f: "ELFBuilder_build Arch_AARCH64 elf_example = Some f" using elf_example_builds ..
  let ?uses = "filter (\<lambda>use. bsu_section use = Section_TEXT) (bm_symbol_uses elf_example)"
  have uses: "?uses = bm_symbol_uses elf_example" "length (bm_symbol_uses elf_example) = 1"
    "unat (bsu_symbol_index (bm_symbol_uses elf_example ! 0)) = 1"
    "elf_use_means Arch_AARCH64 (bsu_kind (bm_symbol_uses elf_example ! 0))
       (scast (bsu_addend (bm_symbol_uses elf_example ! 0))) e =
     Some (Field_adrp, page_of (link_S e) - page_of (link_P e))" for e
    by (simp_all add: elf_example_def elf_use_means_def Let_def)
  have "length (bm_symbol_defs elf_example) + 3 < 2 ^ 32"
    "\<forall>use \<in> set ?uses. - (2 ^ 31) + 4 \<le> sint (bsu_addend use)"
    by (simp_all add: elf_example_def)
  from ELFBuilder_relocations [OF f this(1) _ refl _ this(2), of 5]
  show "\<exists>f ys names rs. ELFBuilder_build Arch_AARCH64 elf_example = Some f \<and>
     esec_data (elf_sections f ! 5) = Elf_RelocationList rs \<and> length rs = 1 \<and>
     symbol_for names (bm_symbol_defs elf_example ! 1) (ys ! unat (erel_symbol_index (rs ! 0))) \<and>
     (\<forall>e. elf_resolves (elf_machine f) (erel_type (rs ! 0)) (erel_addend (rs ! 0)) e =
        Some (Field_adrp, page_of (link_S e) - page_of (link_P e)))"
    unfolding uses(1) using f uses(2-4) by fastforce
next
  obtain f where f: "ELFBuilder_build Arch_X86_64 elf_example_x86 = Some f" using elf_example_x86_builds ..
  let ?uses = "filter (\<lambda>use. bsu_section use = Section_TEXT) (bm_symbol_uses elf_example_x86)"
  have uses: "?uses = bm_symbol_uses elf_example_x86" "length (bm_symbol_uses elf_example_x86) = 1"
    "elf_use_means Arch_X86_64 (bsu_kind (bm_symbol_uses elf_example_x86 ! 0))
       (scast (bsu_addend (bm_symbol_uses elf_example_x86 ! 0))) e =
     Some (Field_32, link_S e - (link_P e + 4))" for e
    by (simp_all add: elf_example_x86_def elf_example_def elf_use_means_def Let_def)
  have "length (bm_symbol_defs elf_example_x86) + 3 < 2 ^ 32"
    "\<forall>use \<in> set ?uses. - (2 ^ 31) + 4 \<le> sint (bsu_addend use)"
    by (simp_all add: elf_example_x86_def elf_example_def)
  from ELFBuilder_relocations [OF f this(1) _ refl _ this(2), of 5]
  show "\<exists>f rs. ELFBuilder_build Arch_X86_64 elf_example_x86 = Some f \<and>
     esec_data (elf_sections f ! 5) = Elf_RelocationList rs \<and> length rs = 1 \<and>
     (\<forall>e. elf_resolves (elf_machine f) (erel_type (rs ! 0)) (erel_addend (rs ! 0)) e =
        Some (Field_32, link_S e - (link_P e + 4)))"
    unfolding uses(1) using f uses(2,3) by fastforce
qed

end
