(* ===== verification/Decimal.thy ===== *)
theory Decimal
  imports Prelude "HOL-Library.Sublist"
begin

section \<open>Decimal numbers of the standard library\<close>

text \<open>
  What the sources use of the C++ standard library to read and print numbers: \<open>std::stoll\<close> and
  \<open>std::stod\<close> on the slices that the JSON parser passes to them, and \<open>std::ostream <<\<close> for
  \<open>long long\<close> and \<open>double\<close> with the default precision of six digits. A double is its bit
  pattern; conversions are exact in the rationals and round to nearest, ties to even.
\<close>

unbundle bit_operations_syntax

subsection \<open>Integers\<close>

definition is_digit :: "char \<Rightarrow> bool" where
  "is_digit c \<longleftrightarrow> 48 \<le> (of_char c :: nat) \<and> (of_char c :: nat) \<le> 57"

definition digit_char :: "nat \<Rightarrow> char" where
  "digit_char d = char_of (48 + d)"

fun decimal_digits :: "nat \<Rightarrow> string" where
  "decimal_digits n =
     (if n < 10 then [digit_char n] else decimal_digits (n div 10) @ [digit_char (n mod 10)])"

declare decimal_digits.simps [simp del]

definition digits_value :: "string \<Rightarrow> nat" where
  "digits_value s = foldl (\<lambda>v c. 10 * v + (of_char c - 48)) 0 s"

definition int_to_string :: "int \<Rightarrow> string" where
  "int_to_string i = (if i < 0 then CHR ''-'' # decimal_digits (nat (- i)) else decimal_digits (nat i))"

text \<open>\<open>std::stoll\<close> of an optional sign and digits; it throws when the value does not fit.\<close>

definition std_stoll :: "string \<Rightarrow> u64 option" where
  "std_stoll s =
     (let v = (case s of c # cs \<Rightarrow> if c = CHR ''-'' then - int (digits_value cs) else int (digits_value s)
                       | [] \<Rightarrow> 0)
      in if - (2 ^ 63) \<le> v \<and> v < 2 ^ 63 then Some (word_of_int v) else None)"

lemma of_char_digit_char: "d < 10 \<Longrightarrow> (of_char (digit_char d) :: nat) = 48 + d"
  by (simp add: digit_char_def)

lemma is_digit_digit_char: "d < 10 \<Longrightarrow> is_digit (digit_char d)"
  by (simp add: is_digit_def of_char_digit_char)

lemma decimal_digits_digit: "c \<in> set (decimal_digits n) \<Longrightarrow> is_digit c"
proof (induction n rule: decimal_digits.induct)
  case (1 n)
  then show ?case
    by (subst (asm) (2) decimal_digits.simps) (auto simp: is_digit_digit_char split: if_splits)
qed

lemma decimal_digits_not_Nil [simp]: "decimal_digits n \<noteq> []"
  by (subst decimal_digits.simps) simp

lemma digits_value_snoc: "digits_value (s @ [c]) = 10 * digits_value s + (of_char c - 48)"
  by (simp add: digits_value_def)

lemma digits_value_decimal [simp]: "digits_value (decimal_digits n) = n"
proof (induction n rule: decimal_digits.induct)
  case (1 n)
  show ?case
  proof (cases "n < 10")
    case True
    then show ?thesis
      by (subst decimal_digits.simps) (simp add: digits_value_def of_char_digit_char)
  next
    case False
    then have "digits_value (decimal_digits (n div 10)) = n div 10" by (rule 1)
    then show ?thesis
      using False
      by (subst decimal_digits.simps) (simp add: digits_value_snoc of_char_digit_char)
  qed
qed

lemma std_stoll_int_to_string:
  "std_stoll (int_to_string i) = (if - (2 ^ 63) \<le> i \<and> i < 2 ^ 63 then Some (word_of_int i) else None)"
proof (cases "i < 0")
  case True
  then show ?thesis by (simp add: std_stoll_def int_to_string_def)
next
  case False
  obtain c cs where d: "decimal_digits (nat i) = c # cs"
    by (cases "decimal_digits (nat i)") auto
  then have "is_digit c" using decimal_digits_digit [of c "nat i"] by simp
  then have "c \<noteq> CHR ''-''" by (auto simp: is_digit_def)
  then show ?thesis
    using False d digits_value_decimal [of "nat i"] by (simp add: std_stoll_def int_to_string_def)
qed

lemma stoll_int_to_string: "std_stoll (int_to_string (sint (v :: u64))) = Some v"
  using sint_range_size [of v] by (simp add: std_stoll_int_to_string word_size)

subsection \<open>Doubles\<close>

fun bit_length :: "nat \<Rightarrow> nat" where
  "bit_length n = (if n = 0 then 0 else Suc (bit_length (n div 2)))"

declare bit_length.simps [simp del]

definition round_ratio :: "nat \<Rightarrow> nat \<Rightarrow> nat" where
  "round_ratio a b =
     (let q = a div b; r = 2 * (a mod b) in if r > b \<or> (r = b \<and> odd q) then q + 1 else q)"

text \<open>The double nearest to \<open>a / b\<close>; overflow and results below the normal numbers throw.\<close>

definition double_of_ratio :: "bool \<Rightarrow> nat \<Rightarrow> nat \<Rightarrow> u64 option" where
  "double_of_ratio neg a b =
     (let sign = of_bool neg * 2 ^ 63 in
      if a = 0 then Some (of_nat sign)
      else
        let scaled = (\<lambda>e :: int. if 0 \<le> e then (a, b * 2 ^ nat e) else (a * 2 ^ nat (- e), b));
            e0 = int (bit_length a) - int (bit_length b) - 53;
            e1 = (if fst (scaled e0) div snd (scaled e0) \<ge> 2 ^ 53 then e0 + 1 else e0);
            e2 = max e1 (- 1074);
            m2 = round_ratio (fst (scaled e2)) (snd (scaled e2));
            m = (if m2 = 2 ^ 53 then 2 ^ 52 else m2);
            e = (if m2 = 2 ^ 53 then e2 + 1 else e2)
        in if m < 2 ^ 52 \<or> 971 < e then None
           else Some (of_nat (sign + nat (e + 1075) * 2 ^ 52 + (m - 2 ^ 52))))"

text \<open>\<open>std::stod\<close> of an optional sign, digits, and optionally a point and more digits.\<close>

definition std_stod :: "string \<Rightarrow> u64 option" where
  "std_stod s =
     (let neg = (s \<noteq> [] \<and> hd s = CHR ''-'');
          body = (if neg then tl s else s);
          integer = takeWhile is_digit body;
          fraction = takeWhile is_digit (drop (length integer + 1) body)
      in double_of_ratio neg (digits_value (integer @ fraction)) (10 ^ length fraction))"

text \<open>
  \<open>std::ostream <<\<close> for a double: six significant digits, in scientific form when the decimal
  exponent is below -4 or at least 6, without trailing zeros (\<open>%g\<close>).
\<close>

function negative_exponent :: "nat \<Rightarrow> nat \<Rightarrow> nat" where
  "negative_exponent a b = (if a = 0 \<or> b \<le> 10 * a then 1 else Suc (negative_exponent (10 * a) b))"
  by pat_completeness auto
termination
  by (relation "measure (\<lambda>(a, b). b - a)") auto

declare negative_exponent.simps [simp del]

definition strip_zeros :: "string \<Rightarrow> string" where
  "strip_zeros s = rev (dropWhile (\<lambda>c. c = CHR ''0'') (rev s))"

definition format_decimal :: "nat \<Rightarrow> int \<Rightarrow> string" where
  "format_decimal digits x =
     (let ds = decimal_digits digits in
      if x < - 4 \<or> 6 \<le> x then
        let fraction = strip_zeros (tl ds);
            magnitude = decimal_digits (nat \<bar>x\<bar>)
        in [hd ds] @ (if fraction = [] then [] else CHR ''.'' # fraction) @ ''e'' @
           (if x < 0 then ''-'' else ''+'') @ (if length magnitude < 2 then CHR ''0'' # magnitude else magnitude)
      else if 0 \<le> x then
        let fraction = strip_zeros (drop (nat x + 1) ds)
        in take (nat x + 1) ds @ (if fraction = [] then [] else CHR ''.'' # fraction)
      else ''0.'' @ replicate (nat (- x) - 1) CHR ''0'' @ strip_zeros ds)"

definition format_ratio :: "nat \<Rightarrow> nat \<Rightarrow> string" where
  "format_ratio a b =
     (let x = (if b \<le> a then int (length (decimal_digits (a div b))) - 1 else - int (negative_exponent a b));
          d = (if 5 \<le> x then round_ratio a (b * 10 ^ nat (x - 5)) else round_ratio (a * 10 ^ nat (5 - x)) b)
      in if d = 10 ^ 6 then format_decimal (10 ^ 5) (x + 1) else format_decimal d x)"

definition format_double :: "u64 \<Rightarrow> string" where
  "format_double d =
     (let sign = (if bit d 63 then ''-'' else []);
          e = unat (drop_bit 52 d) mod 2048; m = unat d mod 2 ^ 52
      in if e = 2047 then sign @ (if m = 0 then ''inf'' else ''nan'')
         else if e = 0 \<and> m = 0 then sign @ ''0''
         else
           let sig = (if e = 0 then m else 2 ^ 52 + m);
               ex = int (max e 1) - 1075
           in sign @ (if 0 \<le> ex then format_ratio (sig * 2 ^ nat ex) 1 else format_ratio sig (2 ^ nat (- ex))))"

end
