(* ===== verification/Json.thy ===== *)
theory Json
  imports Decimal
begin

section \<open>JSON values, parser and serializer\<close>

text \<open>
  \<open>src/banjo/utils/json.*\<close>, \<open>json_parser.*\<close> and \<open>json_serializer.*\<close>, which the language server
  speaks through and which reads the manifests of packages. An object is the list of its entries
  in the order in which the hash map is iterated; \<open>add\<close> keeps an entry whose key is already
  there. Positions are natural numbers. The recursive functions of the parser take fuel, which
  runs out never when there is enough for the text (\<open>None\<close> is lack of fuel); a failed parse and
  an exception of \<open>std::stoll\<close> or \<open>std::stod\<close> are outcomes.
\<close>

subsection \<open>Values\<close>

datatype json_value =
    Json_String string
  | Json_Int u64
  | Json_Float u64
  | Json_Bool bool
  | Json_Object "(string \<times> json_value) list"
  | Json_Array "json_value list"
  | Json_Null

type_synonym json_object = "(string \<times> json_value) list"

definition Value_as_string :: "json_value \<Rightarrow> string option" where
  "Value_as_string v = (case v of Json_String s \<Rightarrow> Some s | _ \<Rightarrow> None)"

definition Value_as_int :: "json_value \<Rightarrow> u64 option" where
  "Value_as_int v = (case v of Json_Int i \<Rightarrow> Some i | _ \<Rightarrow> None)"

definition Value_as_float :: "json_value \<Rightarrow> u64 option" where
  "Value_as_float v = (case v of Json_Float d \<Rightarrow> Some d | _ \<Rightarrow> None)"

definition Value_as_bool :: "json_value \<Rightarrow> bool option" where
  "Value_as_bool v = (case v of Json_Bool b \<Rightarrow> Some b | _ \<Rightarrow> None)"

definition Value_as_object :: "json_value \<Rightarrow> json_object option" where
  "Value_as_object v = (case v of Json_Object entries \<Rightarrow> Some entries | _ \<Rightarrow> None)"

definition Value_as_array :: "json_value \<Rightarrow> json_value list option" where
  "Value_as_array v = (case v of Json_Array values \<Rightarrow> Some values | _ \<Rightarrow> None)"

text \<open>\<open>Object\<close>: \<open>get\<close> throws for a missing key, \<open>try_get\<close> returns a null pointer, the inner \<open>None\<close>.\<close>

definition Object_add :: "string \<Rightarrow> json_value \<Rightarrow> json_object \<Rightarrow> json_object" where
  "Object_add key v obj = (if map_of obj key = None then obj @ [(key, v)] else obj)"

definition Object_of_list :: "(string \<times> json_value) list \<Rightarrow> json_object" where
  "Object_of_list entries = foldl (\<lambda>obj (key, v). Object_add key v obj) [] entries"

definition Object_contains :: "json_object \<Rightarrow> string \<Rightarrow> bool" where
  "Object_contains obj key \<longleftrightarrow> map_of obj key \<noteq> None"

definition Object_get :: "json_object \<Rightarrow> string \<Rightarrow> json_value option" where
  "Object_get obj key = map_of obj key"

definition Object_get_string :: "json_object \<Rightarrow> string \<Rightarrow> string option" where
  "Object_get_string obj key = Option.bind (Object_get obj key) Value_as_string"

definition Object_get_int :: "json_object \<Rightarrow> string \<Rightarrow> u64 option" where
  "Object_get_int obj key = Option.bind (Object_get obj key) Value_as_int"

definition Object_get_float :: "json_object \<Rightarrow> string \<Rightarrow> u64 option" where
  "Object_get_float obj key = Option.bind (Object_get obj key) Value_as_float"

definition Object_get_bool :: "json_object \<Rightarrow> string \<Rightarrow> bool option" where
  "Object_get_bool obj key = Option.bind (Object_get obj key) Value_as_bool"

definition Object_get_object :: "json_object \<Rightarrow> string \<Rightarrow> json_object option" where
  "Object_get_object obj key = Option.bind (Object_get obj key) Value_as_object"

definition Object_get_array :: "json_object \<Rightarrow> string \<Rightarrow> json_value list option" where
  "Object_get_array obj key = Option.bind (Object_get obj key) Value_as_array"

definition Object_try_get :: "json_object \<Rightarrow> string \<Rightarrow> json_value option" where
  "Object_try_get obj key = map_of obj key"

text \<open>The typed \<open>try_get\<close> functions throw when the key is there with a value of another type.\<close>

definition Object_try_get_as ::
  "(json_value \<Rightarrow> 'a option) \<Rightarrow> json_object \<Rightarrow> string \<Rightarrow> 'a option option" where
  "Object_try_get_as as_type obj key =
     (case Object_try_get obj key of
        Some v \<Rightarrow> map_option Some (as_type v)
      | None \<Rightarrow> Some None)"

definition Object_try_get_string :: "json_object \<Rightarrow> string \<Rightarrow> string option option" where
  "Object_try_get_string = Object_try_get_as Value_as_string"

definition Object_try_get_int :: "json_object \<Rightarrow> string \<Rightarrow> u64 option option" where
  "Object_try_get_int = Object_try_get_as Value_as_int"

definition Object_try_get_float :: "json_object \<Rightarrow> string \<Rightarrow> u64 option option" where
  "Object_try_get_float = Object_try_get_as Value_as_float"

definition Object_try_get_bool :: "json_object \<Rightarrow> string \<Rightarrow> bool option option" where
  "Object_try_get_bool = Object_try_get_as Value_as_bool"

definition Object_try_get_object :: "json_object \<Rightarrow> string \<Rightarrow> json_object option option" where
  "Object_try_get_object = Object_try_get_as Value_as_object"

definition Object_try_get_array :: "json_object \<Rightarrow> string \<Rightarrow> json_value list option option" where
  "Object_try_get_array = Object_try_get_as Value_as_array"

definition Array_get :: "json_value list \<Rightarrow> nat \<Rightarrow> json_value option" where
  "Array_get values index = (if index < length values then Some (values ! index) else None)"

definition Array_get_string :: "json_value list \<Rightarrow> nat \<Rightarrow> string option" where
  "Array_get_string values index = Option.bind (Array_get values index) Value_as_string"

definition Array_get_int :: "json_value list \<Rightarrow> nat \<Rightarrow> u64 option" where
  "Array_get_int values index = Option.bind (Array_get values index) Value_as_int"

definition Array_get_float :: "json_value list \<Rightarrow> nat \<Rightarrow> u64 option" where
  "Array_get_float values index = Option.bind (Array_get values index) Value_as_float"

definition Array_get_bool :: "json_value list \<Rightarrow> nat \<Rightarrow> bool option" where
  "Array_get_bool values index = Option.bind (Array_get values index) Value_as_bool"

definition Array_get_object :: "json_value list \<Rightarrow> nat \<Rightarrow> json_object option" where
  "Array_get_object values index = Option.bind (Array_get values index) Value_as_object"

definition Array_get_array :: "json_value list \<Rightarrow> nat \<Rightarrow> json_value list option" where
  "Array_get_array values index = Option.bind (Array_get values index) Value_as_array"

definition Object_get_string_array :: "json_object \<Rightarrow> string \<Rightarrow> string list option" where
  "Object_get_string_array obj key =
     do {
       json_array \<leftarrow> Object_get_array obj key;
       for_each [0..<length json_array] (\<lambda>i array.
         do {
           s \<leftarrow> Array_get_string json_array i;
           Some (array[i := s])
         }) (replicate (length json_array) [])
     }"

definition Object_get_string_or :: "json_object \<Rightarrow> string \<Rightarrow> string \<Rightarrow> string option" where
  "Object_get_string_or obj key default_value =
     do {
       s \<leftarrow> Object_try_get_string obj key;
       Some (case s of Some s \<Rightarrow> s | None \<Rightarrow> default_value)
     }"

subsection \<open>The parser\<close>

datatype json_outcome = Parsed json_value | Failed | Throws

definition Parser_get :: "string \<Rightarrow> nat \<Rightarrow> char option" where
  "Parser_get buffer position = (if position < length buffer then Some (buffer ! position) else None)"

text \<open>\<open>consume\<close> and \<open>consume_n\<close> return the position behind what they take.\<close>

definition Parser_consume :: "string \<Rightarrow> nat \<Rightarrow> char option \<times> nat" where
  "Parser_consume buffer position =
     (if position < length buffer then (Some (buffer ! position), position + 1) else (None, position))"

definition Parser_consume_n :: "string \<Rightarrow> nat \<Rightarrow> nat \<Rightarrow> string option \<times> nat" where
  "Parser_consume_n buffer count position =
     (if position + count > length buffer then (None, position)
      else (Some (take count (drop position buffer)), position + count))"

definition is_whitespace :: "char \<Rightarrow> bool" where
  "is_whitespace c \<longleftrightarrow> c = CHR '' '' \<or> c = CHR 0x0A \<or> c = CHR 0x0D \<or> c = CHR 0x09"

function Parser_skip_whitespace :: "string \<Rightarrow> nat \<Rightarrow> nat" where
  "Parser_skip_whitespace buffer position =
     (if position < length buffer \<and> is_whitespace (buffer ! position)
      then Parser_skip_whitespace buffer (position + 1) else position)"
  by pat_completeness auto
termination
  by (relation "measure (\<lambda>(buffer, position). length buffer - position)") auto

definition Parser_parse_literal :: "string \<Rightarrow> json_value \<Rightarrow> string \<Rightarrow> nat \<Rightarrow> json_outcome \<times> nat" where
  "Parser_parse_literal literal v buffer position =
     (let (slice, position') = Parser_consume_n buffer (length literal) position
      in (if slice = Some literal then Parsed v else Failed, position'))"

definition Parser_parse_null :: "string \<Rightarrow> nat \<Rightarrow> json_outcome \<times> nat" where
  "Parser_parse_null = Parser_parse_literal ''null'' Json_Null"

definition Parser_parse_false :: "string \<Rightarrow> nat \<Rightarrow> json_outcome \<times> nat" where
  "Parser_parse_false = Parser_parse_literal ''false'' (Json_Bool False)"

definition Parser_parse_true :: "string \<Rightarrow> nat \<Rightarrow> json_outcome \<times> nat" where
  "Parser_parse_true = Parser_parse_literal ''true'' (Json_Bool True)"

definition at_digit :: "string \<Rightarrow> nat \<Rightarrow> bool" where
  "at_digit buffer position \<longleftrightarrow> position < length buffer \<and> is_digit (buffer ! position)"

text \<open>The loop over the digits; \<open>None\<close> is the return for a second point.\<close>

function Parser_number_loop :: "string \<Rightarrow> nat \<Rightarrow> bool \<Rightarrow> bool option \<times> nat" where
  "Parser_number_loop buffer position is_fp =
     (if at_digit buffer position then
        if Parser_get buffer (position + 1) = Some CHR ''.'' then
          if is_fp then (None, position + 1) else Parser_number_loop buffer (position + 2) True
        else Parser_number_loop buffer (position + 1) is_fp
      else (Some is_fp, position))"
  by pat_completeness auto
termination
  by (relation "measure (\<lambda>(buffer, position, is_fp). length buffer - position)")
    (auto simp: at_digit_def)

definition Parser_parse_number :: "string \<Rightarrow> nat \<Rightarrow> json_outcome \<times> nat" where
  "Parser_parse_number buffer start =
     (let position = (if Parser_get buffer start = Some CHR ''-'' then start + 1 else start);
          (is_fp, position') = Parser_number_loop buffer position False
      in case is_fp of
           None \<Rightarrow> (Failed, position')
         | Some fp \<Rightarrow>
             if buffer ! (position' - 1) = CHR ''-'' then (Failed, position')
             else
               let slice = take (position' - start) (drop start buffer)
               in (case (if fp then map_option Json_Float (std_stod slice)
                         else map_option Json_Int (std_stoll slice)) of
                     Some v \<Rightarrow> Parsed v
                   | None \<Rightarrow> Throws, position'))"

definition unescape :: "char \<Rightarrow> char option" where
  "unescape c =
     (if c = CHR 0x22 then Some CHR 0x22 else if c = CHR 0x5C then Some CHR 0x5C
      else if c = CHR ''b'' then Some CHR 0x08 else if c = CHR ''f'' then Some CHR 0x0C
      else if c = CHR ''n'' then Some CHR 0x0A else if c = CHR ''r'' then Some CHR 0x0D
      else if c = CHR ''t'' then Some CHR 0x09 else None)"

function Parser_string_loop :: "string \<Rightarrow> nat \<Rightarrow> string \<Rightarrow> string option \<times> nat" where
  "Parser_string_loop buffer position acc =
     (if position < length buffer then
        let c = buffer ! position in
        if c = CHR 0x5C then
          let (escaped, position') = Parser_consume buffer (position + 1) in
          (case Option.bind escaped unescape of
             Some d \<Rightarrow> Parser_string_loop buffer (position + 2) (acc @ [d])
           | None \<Rightarrow> (None, position'))
        else if c = CHR 0x22 then (Some acc, position + 1)
        else Parser_string_loop buffer (position + 1) (acc @ [c])
      else (None, position))"
  by pat_completeness auto
termination
  by (relation "measure (\<lambda>(buffer, position, acc). length buffer - position)") auto

definition Parser_parse_string_raw :: "string \<Rightarrow> nat \<Rightarrow> string option \<times> nat" where
  "Parser_parse_string_raw buffer position = Parser_string_loop buffer (position + 1) []"

definition Parser_parse_string :: "string \<Rightarrow> nat \<Rightarrow> json_outcome \<times> nat" where
  "Parser_parse_string buffer position =
     (let (str, position') = Parser_parse_string_raw buffer position
      in (case str of Some s \<Rightarrow> Parsed (Json_String s) | None \<Rightarrow> Failed, position'))"

text \<open>
  The recursion of \<open>parse_value\<close>, \<open>parse_array\<close> and \<open>parse_object\<close>: a task is a value to parse or
  one more iteration of the loop of an array or an object, with what has been collected. Each step
  is a definition over the function \<open>run\<close> that does the calls. Strings, numbers and literals need
  no recursion.
\<close>

datatype parse_task = Parse_Value | Parse_Elements "json_value list" | Parse_Entries json_object

type_synonym parse_result = "(json_outcome \<times> nat) option"

definition Parser_parse_array :: "(parse_task \<Rightarrow> nat \<Rightarrow> parse_result) \<Rightarrow> string \<Rightarrow> nat \<Rightarrow> parse_result" where
  "Parser_parse_array run buffer position =
     (let start = Parser_skip_whitespace buffer (position + 1) in
      if Parser_get buffer start = Some CHR '']'' then Some (Parsed (Json_Array []), start + 1)
      else run (Parse_Elements []) start)"

definition Parser_parse_object :: "(parse_task \<Rightarrow> nat \<Rightarrow> parse_result) \<Rightarrow> string \<Rightarrow> nat \<Rightarrow> parse_result" where
  "Parser_parse_object run buffer position =
     (let start = Parser_skip_whitespace buffer (position + 1) in
      if Parser_get buffer start = Some CHR ''}'' then Some (Parsed (Json_Object []), start + 1)
      else run (Parse_Entries []) start)"

definition Parser_value_step :: "(parse_task \<Rightarrow> nat \<Rightarrow> parse_result) \<Rightarrow> string \<Rightarrow> nat \<Rightarrow> parse_result" where
  "Parser_value_step run buffer position =
     (case Parser_get buffer position of
        None \<Rightarrow> Some (Failed, position)
      | Some c \<Rightarrow>
          if c = CHR ''n'' then Some (Parser_parse_null buffer position)
          else if c = CHR ''f'' then Some (Parser_parse_false buffer position)
          else if c = CHR ''t'' then Some (Parser_parse_true buffer position)
          else if c = CHR ''-'' \<or> is_digit c then Some (Parser_parse_number buffer position)
          else if c = CHR 0x22 then Some (Parser_parse_string buffer position)
          else if c = CHR ''['' then Parser_parse_array run buffer position
          else if c = CHR ''{'' then Parser_parse_object run buffer position
          else Some (Failed, position))"

definition Parser_element_step ::
  "(parse_task \<Rightarrow> nat \<Rightarrow> parse_result) \<Rightarrow> string \<Rightarrow> json_value list \<Rightarrow> nat \<Rightarrow> parse_result" where
  "Parser_element_step run buffer array position =
     (case run Parse_Value position of
        None \<Rightarrow> None
      | Some (Parsed v, p1) \<Rightarrow>
          (let p2 = Parser_skip_whitespace buffer p1 in
           if Parser_get buffer p2 = Some CHR '']'' then Some (Parsed (Json_Array (array @ [v])), p2 + 1)
           else if Parser_get buffer p2 = Some CHR '','' then
             run (Parse_Elements (array @ [v])) (Parser_skip_whitespace buffer (p2 + 1))
           else Some (Failed, p2))
      | Some (outcome, p1) \<Rightarrow> Some (outcome, p1))"

definition Parser_entry_step ::
  "(parse_task \<Rightarrow> nat \<Rightarrow> parse_result) \<Rightarrow> string \<Rightarrow> json_object \<Rightarrow> nat \<Rightarrow> parse_result" where
  "Parser_entry_step run buffer obj position =
     (case Parser_parse_string_raw buffer position of
        (None, p1) \<Rightarrow> Some (Failed, p1)
      | (Some key, p1) \<Rightarrow>
          (let p2 = Parser_skip_whitespace buffer p1 in
           if Parser_get buffer p2 \<noteq> Some CHR '':'' then Some (Failed, p2)
           else
             (case run Parse_Value (Parser_skip_whitespace buffer (p2 + 1)) of
                None \<Rightarrow> None
              | Some (Parsed v, p3) \<Rightarrow>
                  (let p4 = Parser_skip_whitespace buffer p3; obj' = Object_add key v obj in
                   if Parser_get buffer p4 = Some CHR ''}'' then Some (Parsed (Json_Object obj'), p4 + 1)
                   else if Parser_get buffer p4 = Some CHR '','' then
                     run (Parse_Entries obj') (Parser_skip_whitespace buffer (p4 + 1))
                   else Some (Failed, p4))
              | Some (outcome, p3) \<Rightarrow> Some (outcome, p3))))"

primrec Parser_run :: "string \<Rightarrow> nat \<Rightarrow> parse_task \<Rightarrow> nat \<Rightarrow> parse_result" where
  "Parser_run buffer 0 = (\<lambda>task position. None)"
| "Parser_run buffer (Suc fuel) = (\<lambda>task position.
     case task of
       Parse_Value \<Rightarrow> Parser_value_step (Parser_run buffer fuel) buffer position
     | Parse_Elements array \<Rightarrow> Parser_element_step (Parser_run buffer fuel) buffer array position
     | Parse_Entries obj \<Rightarrow> Parser_entry_step (Parser_run buffer fuel) buffer obj position)"

definition Parser_parse_value :: "nat \<Rightarrow> string \<Rightarrow> nat \<Rightarrow> parse_result" where
  "Parser_parse_value fuel buffer position = Parser_run buffer fuel Parse_Value position"

text \<open>Twice the length of the text, and two, is fuel enough, as is shown below.\<close>

definition Parser_parse :: "string \<Rightarrow> json_outcome option" where
  "Parser_parse buffer =
     (case Parser_parse_value (2 * length buffer + 2) buffer (Parser_skip_whitespace buffer 0) of
        None \<Rightarrow> None
      | Some (Throws, position) \<Rightarrow> Some Throws
      | Some (outcome, position) \<Rightarrow>
          Some (if Parser_skip_whitespace buffer position = length buffer then outcome else Failed))"

subsection \<open>The serializer\<close>

definition Serializer_indent :: "nat \<Rightarrow> string" where
  "Serializer_indent indent = replicate (2 * indent) CHR '' ''"

definition escape :: "char \<Rightarrow> string" where
  "escape c =
     (if c = CHR 0x22 then [CHR 0x5C, CHR 0x22] else if c = CHR 0x5C then [CHR 0x5C, CHR 0x5C]
      else if c = CHR 0x08 then [CHR 0x5C, CHR ''b''] else if c = CHR 0x0C then [CHR 0x5C, CHR ''f'']
      else if c = CHR 0x0A then [CHR 0x5C, CHR ''n''] else if c = CHR 0x0D then [CHR 0x5C, CHR ''r'']
      else if c = CHR 0x09 then [CHR 0x5C, CHR ''t''] else [c])"

definition Serializer_string :: "string \<Rightarrow> string" where
  "Serializer_string s = [CHR 0x22] @ concat (map escape s) @ [CHR 0x22]"

fun Serializer_serialize :: "nat \<Rightarrow> json_value \<Rightarrow> string"
  and Serializer_elements :: "nat \<Rightarrow> json_value list \<Rightarrow> string"
  and Serializer_entries :: "nat \<Rightarrow> (string \<times> json_value) list \<Rightarrow> string" where
  "Serializer_serialize indent Json_Null = ''null''"
| "Serializer_serialize indent (Json_Bool b) = (if b then ''true'' else ''false'')"
| "Serializer_serialize indent (Json_Int i) = int_to_string (sint i)"
| "Serializer_serialize indent (Json_Float d) = format_double d"
| "Serializer_serialize indent (Json_String s) = Serializer_string s"
| "Serializer_serialize indent (Json_Array values) =
     (if values = [] then ''[]''
      else ''['' @ [CHR 0x0A] @ Serializer_elements (indent + 1) values @ Serializer_indent indent @ '']'')"
| "Serializer_serialize indent (Json_Object entries) =
     (if entries = [] then ''{}''
      else ''{'' @ [CHR 0x0A] @ Serializer_entries (indent + 1) entries @ Serializer_indent indent @ ''}'')"
| "Serializer_elements indent [] = []"
| "Serializer_elements indent (v # vs) =
     Serializer_indent indent @ Serializer_serialize indent v @ (if vs \<noteq> [] then '','' else []) @
     [CHR 0x0A] @ Serializer_elements indent vs"
| "Serializer_entries indent [] = []"
| "Serializer_entries indent ((key, v) # entries) =
     Serializer_indent indent @ Serializer_string key @ '': '' @ Serializer_serialize indent v @
     (if entries \<noteq> [] then '','' else []) @ [CHR 0x0A] @ Serializer_entries indent entries"

end
