(* ===== verification/Json_Correct.thy ===== *)
theory Json_Correct
  imports Json
begin

section \<open>Correctness of the JSON parser and serializer\<close>

text \<open>
  The parser always ends with the fuel \<open>Parser_parse\<close> gives it, it reads back what the serializer
  writes for a value without floats, and objects behave as finite maps.
\<close>

declare Parser_skip_whitespace.simps [simp del]
  and Parser_number_loop.simps [simp del]
  and Parser_string_loop.simps [simp del]

subsection \<open>Every step moves forward\<close>

lemma Parser_skip_whitespace_le [simp]: "position \<le> Parser_skip_whitespace buffer position"
proof (induction buffer position rule: Parser_skip_whitespace.induct)
  case (1 buffer position)
  then show ?case by (subst Parser_skip_whitespace.simps) auto
qed

lemma Parser_number_loop_le:
  "Parser_number_loop buffer position is_fp = (r, q) \<Longrightarrow> position \<le> q"
proof (induction buffer position is_fp arbitrary: r q rule: Parser_number_loop.induct)
  case (1 buffer position is_fp)
  have "position \<le> q" if "at_digit buffer position" "Parser_get buffer (position + 1) = Some CHR ''.''"
      "\<not> is_fp" "Parser_number_loop buffer (position + 2) True = (r, q)"
    using 1(1) [OF that] by simp
  moreover have "position \<le> q" if "at_digit buffer position" "Parser_get buffer (position + 1) \<noteq> Some CHR ''.''"
      "Parser_number_loop buffer (position + 1) is_fp = (r, q)"
    using 1(2) [OF that] by simp
  ultimately show ?case
    using 1(3) [unfolded Parser_number_loop.simps [of buffer position is_fp]]
    by (auto split: if_splits)
qed

lemma Parser_string_loop_le:
  "Parser_string_loop buffer position acc = (r, q) \<Longrightarrow> position \<le> q"
proof (induction buffer position acc arbitrary: r q rule: Parser_string_loop.induct)
  case (1 buffer position acc)
  have esc: "position \<le> q"
    if "Parser_consume buffer (position + 1) = (e, p)" "Option.bind e unescape = Some d"
       "position < length buffer" "buffer ! position = CHR 0x5C"
       "Parser_string_loop buffer (position + 2) (acc @ [d]) = (r, q)" for e p d
    using 1(1) [OF that(3) refl that(4) that(1) [symmetric] refl that(2) that(5)] by simp
  have plain: "position \<le> q"
    if "position < length buffer" "buffer ! position \<noteq> CHR 0x5C" "buffer ! position \<noteq> CHR 0x22"
       "Parser_string_loop buffer (position + 1) (acc @ [buffer ! position]) = (r, q)"
    using 1(2) [OF that(1) refl that(2,3,4)] by simp
  have "position \<le> snd (Parser_consume buffer (position + 1))" by (simp add: Parser_consume_def)
  then show ?case
    using 1(3) [unfolded Parser_string_loop.simps [of buffer position acc]] esc plain
    by (auto simp: Let_def split: if_splits prod.splits option.splits)
qed

lemma Parser_parse_string_raw_less: "Parser_parse_string_raw buffer position = (r, q) \<Longrightarrow> position < q"
  unfolding Parser_parse_string_raw_def by (drule Parser_string_loop_le) simp

lemma Parser_parse_number_less:
  assumes "Parser_parse_number buffer position = (Parsed v, q)"
    and "position < length buffer" "buffer ! position = CHR ''-'' \<or> is_digit (buffer ! position)"
  shows "position < q"
proof (cases "buffer ! position = CHR ''-''")
  case True
  then have "Parser_get buffer position = Some CHR ''-''" using assms(2) by (simp add: Parser_get_def)
  then show ?thesis
    using assms(1) Parser_number_loop_le [of buffer "position + 1" False]
    by (auto simp: Parser_parse_number_def Let_def split: prod.splits option.splits if_splits)
next
  case False
  then have d: "at_digit buffer position" using assms(2,3) by (simp add: at_digit_def)
  have start: "Parser_get buffer position \<noteq> Some CHR ''-''"
    using False by (auto simp: Parser_get_def)
  have "position < snd (Parser_number_loop buffer position False)"
    using d Parser_number_loop_le [of buffer "position + 1" False]
      Parser_number_loop_le [of buffer "position + 2" True]
    by (subst Parser_number_loop.simps)
      (auto simp: less_eq_Suc_le prod_eq_iff intro: Suc_leD)
  then show ?thesis
    using assms(1) start
    by (auto simp: Parser_parse_number_def Let_def split: prod.splits option.splits if_splits)
qed

lemma Parser_parse_literal_less:
  "Parser_parse_literal literal v buffer position = (Parsed w, q) \<Longrightarrow> literal \<noteq> [] \<Longrightarrow> position < q"
  by (auto simp: Parser_parse_literal_def Parser_consume_n_def split: if_splits)

text \<open>A parsed value, and a finished array or object, ends behind where its task began.\<close>

lemma Parser_run_less:
  "Parser_run buffer fuel task position = Some (Parsed v, q) \<Longrightarrow> position < q"
proof (induction fuel arbitrary: task position v q)
  case 0
  then show ?case by simp
next
  case (Suc fuel)
  have array: "position < q" if "Parser_parse_array (Parser_run buffer fuel) buffer position = Some (Parsed v, q)"
    using that Suc.IH [of "Parse_Elements []" "Parser_skip_whitespace buffer (position + 1)" v q]
      Parser_skip_whitespace_le [of "position + 1" buffer]
    by (auto simp: Parser_parse_array_def Let_def simp del: Parser_skip_whitespace_le split: if_splits)
  have obj: "position < q" if "Parser_parse_object (Parser_run buffer fuel) buffer position = Some (Parsed v, q)"
    using that Suc.IH [of "Parse_Entries []" "Parser_skip_whitespace buffer (position + 1)" v q]
      Parser_skip_whitespace_le [of "position + 1" buffer]
    by (auto simp: Parser_parse_object_def Let_def simp del: Parser_skip_whitespace_le split: if_splits)
  show ?case
  proof (cases task)
    case Parse_Value
    then show ?thesis
      using Suc.prems array obj
      by (auto simp: Parser_value_step_def Parser_get_def Parser_parse_null_def Parser_parse_false_def
          Parser_parse_true_def Parser_parse_string_def
          dest: Parser_parse_literal_less Parser_parse_number_less Parser_parse_string_raw_less
          split: if_splits option.splits prod.splits)
  next
    case (Parse_Elements vs)
    then obtain w p1 where w: "Parser_run buffer fuel Parse_Value position = Some (Parsed w, p1)"
      using Suc.prems by (auto simp: Parser_element_step_def split: option.splits json_outcome.splits)
    have "position < Parser_skip_whitespace buffer p1"
      using Suc.IH [OF w] Parser_skip_whitespace_le [of p1 buffer] by (simp del: Parser_skip_whitespace_le)
    then show ?thesis
      using Suc.prems w Parse_Elements Parser_skip_whitespace_le [of "Parser_skip_whitespace buffer p1 + 1" buffer]
      by (auto simp: Parser_element_step_def Let_def simp del: Parser_skip_whitespace_le
          dest: Suc.IH split: if_splits)
  next
    case (Parse_Entries obj)
    then obtain key p1 where k: "Parser_parse_string_raw buffer position = (Some key, p1)"
      using Suc.prems by (auto simp: Parser_entry_step_def split: option.splits prod.splits)
    define p2 where "p2 = Parser_skip_whitespace buffer (Parser_skip_whitespace buffer p1 + 1)"
    have p2: "position < p2"
      using Parser_parse_string_raw_less [OF k] Parser_skip_whitespace_le [of p1 buffer]
        Parser_skip_whitespace_le [of "Parser_skip_whitespace buffer p1 + 1" buffer]
      unfolding p2_def by (simp del: Parser_skip_whitespace_le)
    obtain w p3 where w: "Parser_run buffer fuel Parse_Value p2 = Some (Parsed w, p3)"
      using Suc.prems Parse_Entries k
      by (auto simp: Parser_entry_step_def Let_def p2_def split: option.splits json_outcome.splits if_splits)
    have "position < Parser_skip_whitespace buffer p3"
      using p2 Suc.IH [OF w] Parser_skip_whitespace_le [of p3 buffer] by (simp del: Parser_skip_whitespace_le)
    then show ?thesis
      using Suc.prems w k Parse_Entries Parser_skip_whitespace_le [of "Parser_skip_whitespace buffer p3 + 1" buffer]
      by (auto simp: Parser_entry_step_def Let_def p2_def simp del: Parser_skip_whitespace_le
          dest: Suc.IH split: if_splits)
  qed
qed

subsection \<open>The fuel is enough\<close>

definition parse_fuel :: "string \<Rightarrow> parse_task \<Rightarrow> nat \<Rightarrow> nat" where
  "parse_fuel buffer task position =
     2 * (length buffer - position) + (if task = Parse_Value then 1 else 2)"

lemma Parser_get_less: "Parser_get buffer position = Some c \<Longrightarrow> position < length buffer"
  by (simp add: Parser_get_def split: if_splits)

lemma parse_fuel_less:
  "position < length buffer \<Longrightarrow> position < q \<Longrightarrow> Suc (parse_fuel buffer task q) \<le> parse_fuel buffer task' position"
  by (auto simp: parse_fuel_def)

lemma Parser_run_fuel:
  "parse_fuel buffer task position \<le> fuel \<Longrightarrow> Parser_run buffer fuel task position \<noteq> None"
proof (induction fuel arbitrary: task position)
  case 0
  then show ?case by (simp add: parse_fuel_def split: if_splits)
next
  case (Suc fuel)
  have later: "Parser_run buffer fuel task' q \<noteq> None" if "position < length buffer" "position < q" for task' q
    using parse_fuel_less [OF that, of task' task] Suc.prems by (intro Suc.IH) simp
  show ?case
  proof (cases task)
    case Parse_Value
    have "position < Parser_skip_whitespace buffer (Suc position)"
      using Parser_skip_whitespace_le [of "Suc position" buffer] by (simp del: Parser_skip_whitespace_le)
    then show ?thesis
      using Parse_Value later
      by (auto simp: Parser_value_step_def Parser_parse_array_def Parser_parse_object_def Let_def
          dest!: Parser_get_less split: option.splits)
  next
    case (Parse_Elements vs)
    have "Parser_run buffer fuel Parse_Value position \<noteq> None"
      using Suc.prems Parse_Elements by (intro Suc.IH) (simp add: parse_fuel_def)
    then obtain o1 p1 where v: "Parser_run buffer fuel Parse_Value position = Some (o1, p1)" by auto
    show ?thesis
    proof (cases o1)
      case (Parsed w)
      let ?p2 = "Parser_skip_whitespace buffer p1"
      let ?p3 = "Parser_skip_whitespace buffer (Suc ?p2)"
      have "position < ?p2" "position < ?p3"
        using Parser_run_less v Parsed Parser_skip_whitespace_le [of p1 buffer]
          Parser_skip_whitespace_le [of "Suc ?p2" buffer]
        by (fastforce simp del: Parser_skip_whitespace_le)+
      then show ?thesis
        using v Parsed Parse_Elements later [of ?p3]
        by (auto simp: Parser_element_step_def Let_def dest!: Parser_get_less)
    qed (use v Parse_Elements in \<open>auto simp: Parser_element_step_def\<close>)
  next
    case (Parse_Entries obj)
    obtain k p1 where k: "Parser_parse_string_raw buffer position = (k, p1)" by fastforce
    let ?p2 = "Parser_skip_whitespace buffer p1"
    let ?p3 = "Parser_skip_whitespace buffer (Suc ?p2)"
    have p2: "position < ?p2"
      using Parser_parse_string_raw_less [OF k] Parser_skip_whitespace_le [of p1 buffer]
      by (simp del: Parser_skip_whitespace_le)
    then have p3: "position < ?p3"
      using Parser_skip_whitespace_le [of "Suc ?p2" buffer] by (simp del: Parser_skip_whitespace_le)
    show ?thesis
    proof (cases "k = None \<or> Parser_get buffer ?p2 \<noteq> Some CHR '':''")
      case True
      then show ?thesis
        using Parse_Entries k by (auto simp: Parser_entry_step_def Let_def split: option.splits)
    next
      case False
      then have len: "position < length buffer" using p2 by (auto dest: Parser_get_less)
      obtain o3 p where v: "Parser_run buffer fuel Parse_Value ?p3 = Some (o3, p)"
        using later [OF len p3, of Parse_Value] by auto
      show ?thesis
      proof (cases o3)
        case (Parsed w)
        let ?p4 = "Parser_skip_whitespace buffer p"
        let ?p5 = "Parser_skip_whitespace buffer (Suc ?p4)"
        have "position < ?p5"
          using Parser_run_less [of buffer fuel Parse_Value ?p3 w p] v Parsed p3
            Parser_skip_whitespace_le [of p buffer] Parser_skip_whitespace_le [of "Suc ?p4" buffer]
          by (simp del: Parser_skip_whitespace_le)
        then show ?thesis
          using v Parsed Parse_Entries k False later [OF len, of ?p5]
          by (auto simp: Parser_entry_step_def Let_def)
      qed (use v Parse_Entries k False in \<open>auto simp: Parser_entry_step_def Let_def\<close>)
    qed
  qed
qed

lemma Parser_parse_fuel:
  "\<exists>outcome q. Parser_parse_value (2 * length buffer + 2) buffer position = Some (outcome, q)"
proof -
  have "parse_fuel buffer Parse_Value position \<le> 2 * length buffer + 2" by (simp add: parse_fuel_def)
  then have "Parser_parse_value (2 * length buffer + 2) buffer position \<noteq> None"
    unfolding Parser_parse_value_def by (rule Parser_run_fuel)
  then show ?thesis by auto
qed

subsection \<open>Reading back what was written\<close>

text \<open>\<open>at_text buffer p s\<close>: from the position \<open>p\<close> on, the buffer holds exactly \<open>s\<close>.\<close>

definition at_text :: "string \<Rightarrow> nat \<Rightarrow> string \<Rightarrow> bool" where
  "at_text buffer p s \<longleftrightarrow> p \<le> length buffer \<and> drop p buffer = s"

lemma at_text_Cons:
  assumes "at_text buffer p (c # s)"
  shows "p < length buffer" "buffer ! p = c" "Parser_get buffer p = Some c" "at_text buffer (Suc p) s"
proof -
  show len: "p < length buffer" using assms by (cases "p < length buffer") (auto simp: at_text_def)
  show "buffer ! p = c" "at_text buffer (Suc p) s"
    using assms len by (auto simp: at_text_def Cons_nth_drop_Suc [symmetric])
  then show "Parser_get buffer p = Some c" using len by (simp add: Parser_get_def)
qed

lemma at_text_append: "at_text buffer p (s @ t) \<Longrightarrow> at_text buffer (p + length s) t"
  by (induction s arbitrary: p) (fastforce dest: at_text_Cons(4))+

lemma at_text_Nil: "at_text buffer p [] \<Longrightarrow> p = length buffer"
  by (simp add: at_text_def)

lemma at_text_get: "at_text buffer p s \<Longrightarrow> Parser_get buffer p = (case s of [] \<Rightarrow> None | c # _ \<Rightarrow> Some c)"
  by (cases s) (auto dest: at_text_Cons at_text_Nil simp: Parser_get_def)

lemma at_text_consume_n:
  "at_text buffer p (s @ t) \<Longrightarrow> Parser_consume_n buffer (length s) p = (Some s, p + length s)"
  unfolding at_text_def Parser_consume_n_def
  by (smt (verit) append_eq_conv_conj length_append length_drop le_add_diff_inverse linorder_not_le
      nat_add_left_cancel_le le_add1)

lemma at_text_whitespace:
  assumes "at_text buffer p (ws @ s)" "\<forall>c\<in>set ws. is_whitespace c" "s = [] \<or> \<not> is_whitespace (hd s)"
  shows "Parser_skip_whitespace buffer p = p + length ws" "at_text buffer (p + length ws) s"
proof -
  show "at_text buffer (p + length ws) s" using assms(1) by (rule at_text_append)
  show "Parser_skip_whitespace buffer p = p + length ws"
    using assms
  proof (induction ws arbitrary: p)
    case Nil
    then show ?case
      by (subst Parser_skip_whitespace.simps) (cases s, auto dest: at_text_Cons at_text_Nil)
  next
    case (Cons w ws)
    have t: "p < length buffer" "buffer ! p = w" "at_text buffer (Suc p) (ws @ s)"
      using Cons.prems(1) by (auto dest: at_text_Cons)
    then show ?case
      using Cons.IH [OF t(3)] Cons.prems(2,3) by (subst Parser_skip_whitespace.simps) simp
  qed
qed

definition no_number_char :: "string \<Rightarrow> bool" where
  "no_number_char s \<longleftrightarrow> (case s of [] \<Rightarrow> True | c # _ \<Rightarrow> \<not> is_digit c \<and> c \<noteq> CHR ''.'')"

lemma Parser_number_loop_digits:
  assumes "at_text buffer p (ds @ s)" "\<forall>c\<in>set ds. is_digit c" "no_number_char s"
  shows "Parser_number_loop buffer p is_fp = (Some is_fp, p + length ds)"
  using assms
proof (induction ds arbitrary: p)
  case Nil
  then show ?case
    by (subst Parser_number_loop.simps)
      (cases s, auto simp: at_digit_def no_number_char_def dest: at_text_Cons at_text_Nil)
next
  case (Cons d ds)
  have t: "p < length buffer" "buffer ! p = d" "at_text buffer (Suc p) (ds @ s)"
    using Cons.prems(1) by (auto dest: at_text_Cons)
  have "\<not> is_digit CHR ''.''" by (simp add: is_digit_def)
  then have "Parser_get buffer (Suc p) \<noteq> Some CHR ''.''"
    using Cons.prems(2,3) at_text_get [OF t(3)]
    by (auto simp: no_number_char_def split: list.splits) (cases ds; auto)+
  then show ?case
    using Cons.IH [OF t(3)] Cons.prems t(1,2)
    by (subst Parser_number_loop.simps) (simp add: at_digit_def)
qed

lemma int_to_string_cases:
  obtains (neg) ds where "int_to_string i = CHR ''-'' # ds" "ds \<noteq> []" "\<forall>c\<in>set ds. is_digit c"
  | (pos) ds where "int_to_string i = ds" "ds \<noteq> []" "\<forall>c\<in>set ds. is_digit c"
  using decimal_digits_digit decimal_digits_not_Nil
  by (cases "i < 0") (auto simp: int_to_string_def)

lemma take_drop_at_text: "at_text buffer p (s @ t) \<Longrightarrow> take (length s) (drop p buffer) = s"
  by (auto simp: at_text_def)

lemma Parser_parse_number_int:
  assumes "at_text buffer p (int_to_string i @ s)" "no_number_char s"
  shows "Parser_parse_number buffer p =
     (case std_stoll (int_to_string i) of Some v \<Rightarrow> Parsed (Json_Int v) | None \<Rightarrow> Throws, p + length (int_to_string i))"
proof (cases rule: int_to_string_cases [of i])
  case (neg ds)
  then have t: "at_text buffer p (CHR ''-'' # ds @ s)" using assms(1) by simp
  then have c: "Parser_get buffer p = Some CHR ''-''" "at_text buffer (Suc p) (ds @ s)"
    by (auto dest: at_text_Cons)
  have l: "Parser_number_loop buffer (Suc p) False = (Some False, Suc p + length ds)"
    using c(2) neg(3) assms(2) by (rule Parser_number_loop_digits)
  obtain es e where ds: "ds = es @ [e]" using neg(2) by (cases ds rule: rev_cases) auto
  have "at_text buffer (Suc p + length es) (e # s)" using at_text_append [of buffer "Suc p" es] c(2) ds by simp
  then have "buffer ! (p + length ds) \<noteq> CHR ''-''"
    using neg(3) ds by (auto dest!: at_text_Cons(2) simp: is_digit_def)
  moreover have "take (Suc (length ds)) (drop p buffer) = int_to_string i"
    using take_drop_at_text [OF assms(1)] neg(1) by simp
  ultimately show ?thesis
    using c l neg(1) by (auto simp: Parser_parse_number_def Let_def split: option.split)
next
  case (pos ds)
  then have t: "at_text buffer p (ds @ s)" using assms(1) by simp
  have l: "Parser_number_loop buffer p False = (Some False, p + length ds)"
    using t pos(3) assms(2) by (rule Parser_number_loop_digits)
  obtain es e where ds: "ds = es @ [e]" using pos(2) by (cases ds rule: rev_cases) auto
  have "at_text buffer (p + length es) (e # s)" using at_text_append [of buffer p es] t ds by simp
  then have "buffer ! (p + length ds - 1) \<noteq> CHR ''-''"
    using pos(3) ds by (auto dest!: at_text_Cons(2) simp: is_digit_def)
  moreover have "Parser_get buffer p \<noteq> Some CHR ''-''"
    using at_text_get [OF t] pos(2,3) by (cases ds) (auto simp: is_digit_def)
  moreover have "take (length ds) (drop p buffer) = int_to_string i"
    using take_drop_at_text [OF t] pos(1) by simp
  ultimately show ?thesis
    using l pos(1) by (auto simp: Parser_parse_number_def Let_def split: option.split)
qed

lemma unescape_escape:
  "escape c = [c] \<and> c \<noteq> CHR 0x5C \<and> c \<noteq> CHR 0x22 \<or>
   (\<exists>e. escape c = [CHR 0x5C, e] \<and> unescape e = Some c)"
  by (simp add: escape_def unescape_def)

lemma Parser_string_loop_escape:
  "at_text buffer p (concat (map escape str) @ CHR 0x22 # s) \<Longrightarrow>
   Parser_string_loop buffer p acc = (Some (acc @ str), p + length (concat (map escape str)) + 1)"
proof (induction str arbitrary: p acc)
  case Nil
  then have "p < length buffer" "buffer ! p = CHR 0x22" by (auto dest: at_text_Cons)
  then show ?case by (subst Parser_string_loop.simps) simp
next
  case (Cons c str)
  note step = Parser_string_loop.simps [of buffer p acc]
  consider "escape c = [c]" "c \<noteq> CHR 0x5C" "c \<noteq> CHR 0x22"
    | e where "escape c = [CHR 0x5C, e]" "unescape e = Some c"
    using unescape_escape by blast
  then show ?case
  proof cases
    case 1
    then have t: "p < length buffer" "buffer ! p = c"
        "at_text buffer (Suc p) (concat (map escape str) @ CHR 0x22 # s)"
      using Cons.prems by (auto dest: at_text_Cons)
    then show ?thesis using Cons.IH [OF t(3)] 1 unfolding step by simp
  next
    case 2
    then have t0: "at_text buffer p (CHR 0x5C # e # concat (map escape str) @ CHR 0x22 # s)"
      using Cons.prems by simp
    note t = at_text_Cons [OF t0] at_text_Cons [OF at_text_Cons(4) [OF t0]]
    show ?thesis using Cons.IH [OF t(8)] t 2 unfolding step by (simp add: Parser_consume_def)
  qed
qed

lemma Parser_parse_string_raw_written:
  "at_text buffer p (Serializer_string str @ s) \<Longrightarrow>
   Parser_parse_string_raw buffer p = (Some str, p + length (Serializer_string str))"
  unfolding Parser_parse_string_raw_def Serializer_string_def
  using Parser_string_loop_escape [of buffer "Suc p" str s "[]"] by (auto dest: at_text_Cons(4))

text \<open>
  A value that is written without loss: no floats, and no key twice in an object (as in the hash
  map of the code).
\<close>

fun writable :: "json_value \<Rightarrow> bool" where
  "writable (Json_Float d) = False"
| "writable (Json_Array vs) = list_all writable vs"
| "writable (Json_Object entries) =
     (distinct (map fst entries) \<and> list_all (\<lambda>(key, v). writable v) entries)"
| "writable v = True"

definition reads :: "string \<Rightarrow> parse_result \<Rightarrow> json_value \<Rightarrow> string \<Rightarrow> bool" where
  "reads buffer r v s \<longleftrightarrow> r = None \<or> (\<exists>q. r = Some (Parsed v, q) \<and> at_text buffer q s)"

lemma readsI: "r = Some (Parsed v, q) \<Longrightarrow> at_text buffer q s \<Longrightarrow> reads buffer r v s"
  by (auto simp: reads_def)

lemma Serializer_indent_whitespace [simp]: "c \<in> set (Serializer_indent n) \<Longrightarrow> is_whitespace c"
  by (auto simp: Serializer_indent_def is_whitespace_def)

lemma is_whitespace_newline [simp]: "is_whitespace CHR 0x0A" "is_whitespace CHR '' ''"
  by (simp_all add: is_whitespace_def)

lemma is_digit_others: "is_digit c \<Longrightarrow> \<not> is_whitespace c" "is_digit c \<Longrightarrow> c \<noteq> CHR '']''"
  by (auto simp: is_digit_def is_whitespace_def)

text \<open>What is written starts with one of these characters, and never with white space.\<close>

lemma serialize_head_ex:
  assumes "writable v"
  shows "\<exists>c s. Serializer_serialize indent v = c # s \<and> \<not> is_whitespace c \<and> c \<noteq> CHR '']''"
proof (cases v)
  case (Json_Int i)
  show ?thesis
    by (cases rule: int_to_string_cases [of "sint i"])
      (use Json_Int is_digit_others in \<open>auto simp: is_whitespace_def neq_Nil_conv\<close>)
qed (use assms in \<open>auto simp: is_whitespace_def Serializer_string_def\<close>)

lemma serialize_head:
  assumes "writable v"
  obtains c s where "Serializer_serialize indent v = c # s" "\<not> is_whitespace c" "c \<noteq> CHR '']''"
  using serialize_head_ex [OF assms] by blast

text \<open>The text of the elements, and of the entries, behind the indentation of the first.\<close>

definition elements_text :: "nat \<Rightarrow> json_value list \<Rightarrow> string" where
  "elements_text indent vs = drop (length (Serializer_indent indent)) (Serializer_elements indent vs)"

definition entries_text :: "nat \<Rightarrow> (string \<times> json_value) list \<Rightarrow> string" where
  "entries_text indent entries =
     drop (length (Serializer_indent indent)) (Serializer_entries indent entries)"

lemma elements_text_Cons:
  "elements_text indent (v # vs) =
     Serializer_serialize indent v @ (if vs = [] then [CHR 0x0A] else CHR '','' # CHR 0x0A # Serializer_indent indent @ elements_text indent vs)"
  by (cases vs) (simp_all add: elements_text_def)

lemma entries_text_Cons:
  "entries_text indent ((key, v) # entries) =
     Serializer_string key @ '': '' @ Serializer_serialize indent v @
     (if entries = [] then [CHR 0x0A] else CHR '','' # CHR 0x0A # Serializer_indent indent @ entries_text indent entries)"
  by (cases entries) (auto simp: entries_text_def)

lemma Serializer_elements_text: "vs \<noteq> [] \<Longrightarrow> Serializer_elements indent vs = Serializer_indent indent @ elements_text indent vs"
  by (cases vs) (auto simp: elements_text_def)

lemma Serializer_entries_text: "es \<noteq> [] \<Longrightarrow> Serializer_entries indent es = Serializer_indent indent @ entries_text indent es"
  by (cases es) (auto simp: entries_text_def)

lemma elements_text_head:
  assumes "vs \<noteq> []" "list_all writable vs"
  obtains c s where "elements_text indent vs = c # s" "\<not> is_whitespace c" "c \<noteq> CHR '']''"
proof -
  obtain v vs' where vs: "vs = v # vs'" using assms(1) by (cases vs) auto
  obtain c s where "Serializer_serialize indent v = c # s" "\<not> is_whitespace c" "c \<noteq> CHR '']''"
    using serialize_head [of v indent] assms(2) vs by auto
  then show ?thesis using that vs by (simp add: elements_text_Cons)
qed

lemma entries_text_head:
  assumes "es \<noteq> []"
  obtains s where "entries_text indent es = CHR 0x22 # s"
  using assms by (cases es) (auto simp: entries_text_Cons Serializer_string_def)

lemma Object_add_new: "key \<notin> fst ` set obj \<Longrightarrow> Object_add key v obj = obj @ [(key, v)]"
  by (simp add: Object_add_def map_of_eq_None_iff)

lemma reads_literal:
  assumes "at_text buffer p (literal @ s)"
  shows "Parser_parse_literal literal v buffer p = (Parsed v, p + length literal)"
  using at_text_consume_n [OF assms] by (simp add: Parser_parse_literal_def)

lemma Parser_skip_no_whitespace:
  assumes "at_text buffer p s" "s = [] \<or> \<not> is_whitespace (hd s)"
  shows "Parser_skip_whitespace buffer p = p"
  using at_text_whitespace(1) [of buffer p "[]" s] assms by simp

lemma no_number_chars [simp]:
  "no_number_char (CHR 0x0A # s)" "no_number_char (CHR '','' # s)" "no_number_char []"
  by (simp_all add: no_number_char_def is_digit_def)

text \<open>One more element: behind a value and a comma, white space leads to the next element.\<close>

lemma skip_newline_indent:
  assumes "at_text buffer p (CHR 0x0A # Serializer_indent indent @ c # s)" "\<not> is_whitespace c"
  shows "Parser_skip_whitespace buffer p = p + Suc (2 * indent)"
    and "at_text buffer (p + Suc (2 * indent)) (c # s)"
  using at_text_whitespace [of buffer p "CHR 0x0A # Serializer_indent indent" "c # s"] assms
  by (auto simp: Serializer_indent_def simp del: at_text_append)

lemma reads_scalar:
  assumes "at_text buffer p (Serializer_serialize indent v @ s)" "no_number_char s"
    and "case v of Json_Array vs \<Rightarrow> False | Json_Object es \<Rightarrow> False | Json_Float d \<Rightarrow> False | _ \<Rightarrow> True"
  shows "reads buffer (Parser_value_step run buffer p) v s"
proof (rule readsI)
  show "at_text buffer (p + length (Serializer_serialize indent v)) s"
    using assms(1) by (rule at_text_append)
  show "Parser_value_step run buffer p = Some (Parsed v, p + length (Serializer_serialize indent v))"
  proof (cases v)
    case (Json_String str)
    then have "Parser_get buffer p = Some CHR 0x22"
      using assms(1) by (auto simp: Serializer_string_def dest: at_text_Cons)
    then show ?thesis
      using Parser_parse_string_raw_written [of buffer p str s] assms(1) Json_String
      by (simp add: Parser_value_step_def Parser_parse_string_def is_digit_def)
  next
    case (Json_Int i)
    obtain c cs where c: "int_to_string (sint i) = c # cs" "c = CHR ''-'' \<or> is_digit c"
      by (cases rule: int_to_string_cases [of "sint i"]) (auto simp: neq_Nil_conv)
    then have "Parser_get buffer p = Some c" using assms(1) Json_Int by (auto dest: at_text_Cons)
    moreover have "c \<notin> {CHR ''n'', CHR ''f'', CHR ''t''}" using c(2) by (auto simp: is_digit_def)
    ultimately show ?thesis
      using Parser_parse_number_int [of buffer p "sint i" s] assms(1,2) Json_Int c(2)
      by (auto simp: Parser_value_step_def stoll_int_to_string)
  next
    case (Json_Bool b)
    have "Parser_get buffer p = Some (if b then CHR ''t'' else CHR ''f'')"
      using assms(1) Json_Bool by (auto dest: at_text_Cons split: if_splits)
    then show ?thesis
      using reads_literal [of buffer p "if b then ''true'' else ''false''" s v] assms(1) Json_Bool
      by (auto simp: Parser_value_step_def Parser_parse_true_def Parser_parse_false_def)
  next
    case Json_Null
    have "Parser_get buffer p = Some CHR ''n''" using assms(1) Json_Null by (auto dest: at_text_Cons)
    then show ?thesis
      using reads_literal [of buffer p "''null''" s v] assms(1) Json_Null
      by (auto simp: Parser_value_step_def Parser_parse_null_def)
  qed (use assms(3) in auto)
qed

lemma reads_array:
  assumes "at_text buffer p (Serializer_serialize indent (Json_Array vs) @ s)" "list_all writable vs"
    and "\<And>p. vs \<noteq> [] \<Longrightarrow> at_text buffer p (elements_text (indent + 1) vs @ Serializer_indent indent @ CHR '']'' # s) \<Longrightarrow>
           reads buffer (run (Parse_Elements []) p) (Json_Array vs) s"
  shows "reads buffer (Parser_value_step run buffer p) (Json_Array vs) s"
proof -
  have c: "Parser_get buffer p = Some CHR ''[''"
    using assms(1) by (auto dest: at_text_Cons split: if_splits)
  then have v: "Parser_value_step run buffer p = Parser_parse_array run buffer p"
    by (simp add: Parser_value_step_def is_digit_def)
  show ?thesis
  proof (cases "vs = []")
    case True
    then have t: "at_text buffer (Suc p) (CHR '']'' # s)" using assms(1) by (auto dest: at_text_Cons)
    then have "Parser_skip_whitespace buffer (Suc p) = Suc p"
      by (rule Parser_skip_no_whitespace) (simp add: is_whitespace_def)
    then show ?thesis
      unfolding v using True t
      by (auto simp: Parser_parse_array_def intro!: readsI dest: at_text_Cons)
  next
    case False
    obtain c cs where c: "elements_text (indent + 1) vs = c # cs" "\<not> is_whitespace c" "c \<noteq> CHR '']''"
      using elements_text_head [OF False assms(2)] .
    have "at_text buffer (Suc p)
        (CHR 0x0A # Serializer_indent (indent + 1) @ c # cs @ Serializer_indent indent @ CHR '']'' # s)"
      using assms(1) False c(1) by (auto simp: Serializer_elements_text dest: at_text_Cons)
    note t = skip_newline_indent [OF this c(2)]
    then have "Parser_get buffer (Suc p + Suc (2 * (indent + 1))) \<noteq> Some CHR '']''"
      using c(3) by (auto dest: at_text_Cons)
    then show ?thesis
      unfolding v using t assms(3) [OF False] c(1) by (simp add: Parser_parse_array_def)
  qed
qed

lemma reads_object:
  assumes "at_text buffer p (Serializer_serialize indent (Json_Object es) @ s)"
    and "\<And>p. es \<noteq> [] \<Longrightarrow> at_text buffer p (entries_text (indent + 1) es @ Serializer_indent indent @ CHR ''}'' # s) \<Longrightarrow>
           reads buffer (run (Parse_Entries []) p) (Json_Object es) s"
  shows "reads buffer (Parser_value_step run buffer p) (Json_Object es) s"
proof -
  have c: "Parser_get buffer p = Some CHR ''{''"
    using assms(1) by (auto dest: at_text_Cons split: if_splits)
  then have v: "Parser_value_step run buffer p = Parser_parse_object run buffer p"
    by (simp add: Parser_value_step_def is_digit_def)
  show ?thesis
  proof (cases "es = []")
    case True
    then have t: "at_text buffer (Suc p) (CHR ''}'' # s)" using assms(1) by (auto dest: at_text_Cons)
    then have "Parser_skip_whitespace buffer (Suc p) = Suc p"
      by (rule Parser_skip_no_whitespace) (simp add: is_whitespace_def)
    then show ?thesis
      unfolding v using True t
      by (auto simp: Parser_parse_object_def intro!: readsI dest: at_text_Cons)
  next
    case False
    obtain cs where c: "entries_text (indent + 1) es = CHR 0x22 # cs"
      using entries_text_head [OF False] .
    have "at_text buffer (Suc p)
        (CHR 0x0A # Serializer_indent (indent + 1) @ CHR 0x22 # cs @ Serializer_indent indent @ CHR ''}'' # s)"
      using assms(1) False c by (auto simp: Serializer_entries_text dest: at_text_Cons)
    note t = skip_newline_indent [OF this]
    then have "Parser_get buffer (Suc p + Suc (2 * (indent + 1))) \<noteq> Some CHR ''}''"
      by (auto simp: is_whitespace_def dest: at_text_Cons)
    then show ?thesis
      unfolding v using t assms(2) [OF False] c by (simp add: Parser_parse_object_def is_whitespace_def)
  qed
qed

definition value_reads :: "string \<Rightarrow> nat \<Rightarrow> json_value \<Rightarrow> bool" where
  "value_reads buffer indent v \<longleftrightarrow>
     (\<forall>fuel p s. at_text buffer p (Serializer_serialize indent v @ s) \<longrightarrow> no_number_char s \<longrightarrow>
        reads buffer (Parser_run buffer fuel Parse_Value p) v s)"

lemma value_readsD:
  "value_reads buffer indent v \<Longrightarrow> at_text buffer p (Serializer_serialize indent v @ s) \<Longrightarrow> no_number_char s \<Longrightarrow>
   reads buffer (Parser_run buffer fuel Parse_Value p) v s"
  by (auto simp: value_reads_def)

text \<open>White space between the last element, or entry, and the closing bracket.\<close>

lemma closing_bracket:
  assumes "at_text buffer p (CHR 0x0A # Serializer_indent k @ c # s)" "\<not> is_whitespace c"
  shows "Parser_get buffer (Parser_skip_whitespace buffer p) = Some c"
    and "at_text buffer (Suc (Parser_skip_whitespace buffer p)) s"
  using skip_newline_indent [OF assms] by (auto dest: at_text_Cons)

lemma comma:
  assumes "at_text buffer p (CHR '','' # CHR 0x0A # Serializer_indent k @ c # s)" "\<not> is_whitespace c"
  shows "Parser_get buffer (Parser_skip_whitespace buffer p) = Some CHR '',''"
    and "at_text buffer (Parser_skip_whitespace buffer (Suc (Parser_skip_whitespace buffer p))) (c # s)"
proof -
  have "Parser_skip_whitespace buffer p = p"
    using assms(1) by (rule Parser_skip_no_whitespace) (simp add: is_whitespace_def)
  moreover have "Parser_skip_whitespace buffer (Suc p) = Suc p + Suc (2 * k)"
      "at_text buffer (Suc p + Suc (2 * k)) (c # s)"
    using skip_newline_indent [OF at_text_Cons(4) [OF assms(1)] assms(2)] by auto
  ultimately show "Parser_get buffer (Parser_skip_whitespace buffer p) = Some CHR '',''"
      "at_text buffer (Parser_skip_whitespace buffer (Suc (Parser_skip_whitespace buffer p))) (c # s)"
    using assms(1) by (auto dest: at_text_Cons)
qed

lemma not_whitespace_brackets [simp]: "\<not> is_whitespace CHR '']''" "\<not> is_whitespace CHR ''}''" "\<not> is_whitespace CHR 0x22"
  by (simp_all add: is_whitespace_def)

lemma reads_elements:
  assumes "\<forall>v\<in>set vs. value_reads buffer indent v" "vs \<noteq> []" "list_all writable vs"
    and "at_text buffer p (elements_text indent vs @ Serializer_indent k @ CHR '']'' # s)"
  shows "reads buffer (Parser_run buffer fuel (Parse_Elements acc) p) (Json_Array (acc @ vs)) s"
  using assms
proof (induction vs arbitrary: acc p fuel)
  case Nil
  then show ?case by simp
next
  case (Cons v vs)
  show ?case
  proof (cases fuel)
    case 0
    then show ?thesis by (simp add: reads_def)
  next
    case (Suc fuel')
    let ?s = "if vs = [] then CHR 0x0A # Serializer_indent k @ CHR '']'' # s
              else CHR '','' # CHR 0x0A # Serializer_indent indent @ elements_text indent vs @
                Serializer_indent k @ CHR '']'' # s"
    have "at_text buffer p (Serializer_serialize indent v @ ?s)"
      using Cons.prems(4) by (simp add: elements_text_Cons split: if_splits)
    then have "reads buffer (Parser_run buffer fuel' Parse_Value p) v ?s"
      using Cons.prems(1) by (intro value_readsD) auto
    then consider "Parser_run buffer fuel' Parse_Value p = None"
      | q where "Parser_run buffer fuel' Parse_Value p = Some (Parsed v, q)" "at_text buffer q ?s"
      by (auto simp: reads_def)
    then show ?thesis
    proof cases
      case 1
      then show ?thesis using Suc by (simp add: Parser_element_step_def reads_def)
    next
      case 2
      show ?thesis
      proof (cases "vs = []")
        case True
        then show ?thesis
          using 2 Suc closing_bracket [of buffer q k "CHR '']''" s]
          by (simp add: Parser_element_step_def readsI)
      next
        case False
        obtain c cs where c: "elements_text indent vs = c # cs" "\<not> is_whitespace c" "c \<noteq> CHR '']''"
          using elements_text_head [OF False] Cons.prems(3) by auto
        let ?q = "Parser_skip_whitespace buffer (Suc (Parser_skip_whitespace buffer q))"
        have q: "Parser_get buffer (Parser_skip_whitespace buffer q) = Some CHR '',''"
            "at_text buffer ?q (elements_text indent vs @ Serializer_indent k @ CHR '']'' # s)"
          using comma [of buffer q indent c] 2(2) False c by auto
        have "reads buffer (Parser_run buffer fuel' (Parse_Elements (acc @ [v])) ?q)
            (Json_Array ((acc @ [v]) @ vs)) s"
          using Cons.prems(1,3) False q(2) by (intro Cons.IH) auto
        then show ?thesis using 2(1) Suc q(1) by (simp add: Parser_element_step_def)
      qed
    qed
  qed
qed

lemma reads_entries:
  assumes "\<forall>(key, v)\<in>set es. value_reads buffer indent v" "es \<noteq> []" "list_all (\<lambda>(key, v). writable v) es"
    and "distinct (map fst (acc @ es))"
    and "at_text buffer p (entries_text indent es @ Serializer_indent k @ CHR ''}'' # s)"
  shows "reads buffer (Parser_run buffer fuel (Parse_Entries acc) p) (Json_Object (acc @ es)) s"
  using assms
proof (induction es arbitrary: acc p fuel)
  case Nil
  then show ?case by simp
next
  case (Cons e es)
  obtain key v where e: "e = (key, v)" by (cases e)
  have add: "Object_add key v acc = acc @ [(key, v)]"
    using Cons.prems(4) e by (intro Object_add_new) auto
  show ?case
  proof (cases fuel)
    case 0
    then show ?thesis by (simp add: reads_def)
  next
    case (Suc fuel')
    let ?s = "if es = [] then CHR 0x0A # Serializer_indent k @ CHR ''}'' # s
              else CHR '','' # CHR 0x0A # Serializer_indent indent @ entries_text indent es @
                Serializer_indent k @ CHR ''}'' # s"
    define p1 where "p1 = p + length (Serializer_string key)"
    have k: "at_text buffer p (Serializer_string key @ CHR '':'' # CHR '' '' # Serializer_serialize indent v @ ?s)"
      using Cons.prems(5) e by (simp add: entries_text_Cons split: if_splits)
    then have key: "Parser_parse_string_raw buffer p = (Some key, p1)"
      unfolding p1_def by (rule Parser_parse_string_raw_written)
    have t1: "at_text buffer p1 (CHR '':'' # CHR '' '' # Serializer_serialize indent v @ ?s)"
      unfolding p1_def using k by (rule at_text_append)
    have s1: "Parser_skip_whitespace buffer p1 = p1" "Parser_get buffer p1 = Some CHR '':''"
      using Parser_skip_no_whitespace [OF t1] t1 by (auto simp: is_whitespace_def dest: at_text_Cons)
    obtain c cs where c: "Serializer_serialize indent v = c # cs" "\<not> is_whitespace c"
      using serialize_head_ex [of v indent] Cons.prems(3) e by auto
    have t2: "Parser_skip_whitespace buffer (Suc p1) = Suc (Suc p1)"
        "at_text buffer (Suc (Suc p1)) (Serializer_serialize indent v @ ?s)"
      using at_text_whitespace [of buffer "Suc p1" "'' ''" "Serializer_serialize indent v @ ?s"]
        at_text_Cons(4) [OF t1] c by auto
    have "reads buffer (Parser_run buffer fuel' Parse_Value (Suc (Suc p1))) v ?s"
      using Cons.prems(1) e t2(2) by (intro value_readsD) auto
    then consider "Parser_run buffer fuel' Parse_Value (Suc (Suc p1)) = None"
      | q where "Parser_run buffer fuel' Parse_Value (Suc (Suc p1)) = Some (Parsed v, q)" "at_text buffer q ?s"
      by (auto simp: reads_def)
    then show ?thesis
    proof cases
      case 1
      then show ?thesis using Suc key s1 t2(1) by (simp add: Parser_entry_step_def reads_def)
    next
      case 2
      show ?thesis
      proof (cases "es = []")
        case True
        then show ?thesis
          using 2 Suc key s1 t2(1) add e closing_bracket [of buffer q k "CHR ''}''" s]
          by (simp add: Parser_entry_step_def readsI)
      next
        case False
        obtain cs where c: "entries_text indent es = CHR 0x22 # cs"
          using entries_text_head [OF False] .
        let ?q = "Parser_skip_whitespace buffer (Suc (Parser_skip_whitespace buffer q))"
        have q: "Parser_get buffer (Parser_skip_whitespace buffer q) = Some CHR '',''"
            "at_text buffer ?q (entries_text indent es @ Serializer_indent k @ CHR ''}'' # s)"
          using comma [of buffer q indent "CHR 0x22"] 2(2) False c by auto
        have "reads buffer (Parser_run buffer fuel' (Parse_Entries (acc @ [(key, v)])) ?q)
            (Json_Object ((acc @ [(key, v)]) @ es)) s"
          using Cons.prems(1,3,4) False q(2) e by (intro Cons.IH) auto
        then show ?thesis using 2(1) Suc key s1 t2(1) add e q(1) by (simp add: Parser_entry_step_def)
      qed
    qed
  qed
qed

lemma value_reads_scalar:
  assumes "case v of Json_Array vs \<Rightarrow> False | Json_Object es \<Rightarrow> False | Json_Float d \<Rightarrow> False | _ \<Rightarrow> True"
  shows "value_reads buffer indent v"
  unfolding value_reads_def
proof (intro allI impI)
  fix fuel p s
  assume "at_text buffer p (Serializer_serialize indent v @ s)" "no_number_char s"
  then show "reads buffer (Parser_run buffer fuel Parse_Value p) v s"
    using reads_scalar [of buffer p indent v s] assms by (cases fuel) (simp_all add: reads_def)
qed

lemma value_reads_writable: "writable v \<Longrightarrow> value_reads buffer indent v"
proof (induction v arbitrary: indent)
  case (Json_Array vs)
  have w: "list_all writable vs" "\<forall>v\<in>set vs. value_reads buffer (indent + 1) v"
    using Json_Array by (auto simp: list_all_iff)
  have "reads buffer (Parser_run buffer fuel Parse_Value p) (Json_Array vs) s"
    if t: "at_text buffer p (Serializer_serialize indent (Json_Array vs) @ s)" for fuel p s
  proof (cases fuel)
    case (Suc fuel')
    then show ?thesis
      using reads_array [OF t w(1), of "Parser_run buffer fuel'"] reads_elements [OF w(2) _ w(1), of _ indent s fuel' "[]"]
      by simp
  qed (simp add: reads_def)
  then show ?case by (auto simp: value_reads_def)
next
  case (Json_Object es)
  have w: "list_all (\<lambda>(key, v). writable v) es" "\<forall>(key, v)\<in>set es. value_reads buffer (indent + 1) v"
    using Json_Object by (fastforce simp: list_all_iff)+
  have d: "distinct (map fst ([] @ es))" using Json_Object.prems by simp
  have "reads buffer (Parser_run buffer fuel Parse_Value p) (Json_Object es) s"
    if t: "at_text buffer p (Serializer_serialize indent (Json_Object es) @ s)" for fuel p s
  proof (cases fuel)
    case (Suc fuel')
    then show ?thesis
      using reads_object [OF t, of "Parser_run buffer fuel'"] reads_entries [OF w(2) _ w(1) d, of _ indent s fuel']
      by simp
  qed (simp add: reads_def)
  then show ?case by (auto simp: value_reads_def)
next
  case (Json_Float d)
  then show ?case by simp
qed (simp_all add: value_reads_scalar)

text \<open>C18: what \<open>Serializer::serialize\<close> writes for a value without floats, \<open>Parser::parse\<close> reads back as that value.\<close>

theorem Parser_parse_serialize:
  assumes "writable v"
  shows "Parser_parse (Serializer_serialize 0 v) = Some (Parsed v)"
proof -
  let ?buffer = "Serializer_serialize 0 v"
  have t: "at_text ?buffer 0 (Serializer_serialize 0 v @ [])" by (simp add: at_text_def)
  have s: "Parser_skip_whitespace ?buffer 0 = 0"
    using Parser_skip_no_whitespace [OF t] serialize_head_ex [OF assms, of 0] by auto
  have "reads ?buffer (Parser_parse_value (2 * length ?buffer + 2) ?buffer 0) v []"
    unfolding Parser_parse_value_def by (rule value_readsD [OF value_reads_writable [OF assms] t]) simp
  then obtain q where q: "Parser_parse_value (2 * length ?buffer + 2) ?buffer 0 = Some (Parsed v, q)"
      "at_text ?buffer q []"
    using Parser_parse_fuel [of ?buffer 0] by (auto simp: reads_def)
  have "Parser_skip_whitespace ?buffer q = length ?buffer"
    using Parser_skip_no_whitespace [OF q(2)] at_text_Nil [OF q(2)] by simp
  then show ?thesis using s q(1) by (simp add: Parser_parse_def)
qed

theorem Parser_parse_serialize_witness:
  "Parser_parse (Serializer_serialize 0 (Json_Object
       [(''a'', Json_Array [Json_Int (- 5), Json_Null, Json_Object []]), (''b'', Json_String [CHR 0x22, CHR 0x0A])])) =
     Some (Parsed (Json_Object
       [(''a'', Json_Array [Json_Int (- 5), Json_Null, Json_Object []]), (''b'', Json_String [CHR 0x22, CHR 0x0A])]))"
  by (rule Parser_parse_serialize) simp

subsection \<open>Every text has an outcome, and the objects read are maps\<close>

fun keys_distinct :: "json_value \<Rightarrow> bool" where
  "keys_distinct (Json_Array vs) = list_all keys_distinct vs"
| "keys_distinct (Json_Object entries) =
     (distinct (map fst entries) \<and> list_all (\<lambda>(key, v). keys_distinct v) entries)"
| "keys_distinct v = True"

definition task_distinct :: "parse_task \<Rightarrow> bool" where
  "task_distinct task =
     (case task of Parse_Value \<Rightarrow> True | Parse_Elements vs \<Rightarrow> keys_distinct (Json_Array vs)
      | Parse_Entries es \<Rightarrow> keys_distinct (Json_Object es))"

lemma Object_add_distinct:
  "keys_distinct (Json_Object obj) \<Longrightarrow> keys_distinct v \<Longrightarrow> keys_distinct (Json_Object (Object_add key v obj))"
  by (auto simp: Object_add_def map_of_eq_None_iff)

lemma Parser_run_distinct:
  "Parser_run buffer fuel task position = Some (Parsed v, q) \<Longrightarrow> task_distinct task \<Longrightarrow> keys_distinct v"
proof (induction fuel arbitrary: task position v q)
  case 0
  then show ?case by simp
next
  case (Suc fuel)
  show ?case
  proof (cases task)
    case Parse_Value
    then show ?thesis
      using Suc.prems
      by (auto simp: Parser_value_step_def Parser_parse_null_def Parser_parse_false_def
          Parser_parse_true_def Parser_parse_string_def Parser_parse_literal_def Parser_parse_number_def
          Parser_parse_array_def Parser_parse_object_def Let_def task_distinct_def
          split: if_splits option.splits prod.splits dest!: Suc.IH)
  next
    case (Parse_Elements vs)
    then obtain w p where w: "Parser_run buffer fuel Parse_Value position = Some (Parsed w, p)"
      using Suc.prems by (auto simp: Parser_element_step_def split: option.splits json_outcome.splits)
    then have "keys_distinct w" by (rule Suc.IH) (simp add: task_distinct_def)
    then show ?thesis
      using Suc.prems w Parse_Elements
      by (auto simp: Parser_element_step_def Let_def task_distinct_def split: if_splits dest!: Suc.IH)
  next
    case (Parse_Entries obj)
    then obtain key p1 where k: "Parser_parse_string_raw buffer position = (Some key, p1)"
      using Suc.prems by (auto simp: Parser_entry_step_def split: option.splits prod.splits)
    let ?p2 = "Parser_skip_whitespace buffer (Suc (Parser_skip_whitespace buffer p1))"
    obtain w p where w: "Parser_run buffer fuel Parse_Value ?p2 = Some (Parsed w, p)"
      using Suc.prems Parse_Entries k
      by (auto simp: Parser_entry_step_def Let_def split: option.splits json_outcome.splits if_splits)
    then have "keys_distinct w" by (rule Suc.IH) (simp add: task_distinct_def)
    then have "keys_distinct (Json_Object (Object_add key w obj))"
      using Suc.prems(2) Parse_Entries by (intro Object_add_distinct) (simp_all add: task_distinct_def)
    then show ?thesis
      using Suc.prems(1) w k Parse_Entries
      by (auto simp: Parser_entry_step_def Let_def task_distinct_def simp del: keys_distinct.simps
          split: if_splits dest!: Suc.IH)
  qed
qed

text \<open>
  C19: \<open>Parser::parse\<close> ends on every text, and in what it returns no object has a key twice.
\<close>

theorem Parser_parse_total:
  "\<exists>outcome. Parser_parse buffer = Some outcome \<and>
     (case outcome of Parsed v \<Rightarrow> keys_distinct v | Failed \<Rightarrow> True | Throws \<Rightarrow> True)"
proof -
  obtain outcome q where r: "Parser_parse_value (2 * length buffer + 2) buffer
      (Parser_skip_whitespace buffer 0) = Some (outcome, q)"
    using Parser_parse_fuel by blast
  have "keys_distinct v" if "outcome = Parsed v" for v
    using r that Parser_run_distinct [of buffer "2 * length buffer + 2" Parse_Value _ v q]
    unfolding Parser_parse_value_def by (simp add: task_distinct_def del: Parser_run.simps)
  then show ?thesis using r by (auto simp: Parser_parse_def split: json_outcome.splits)
qed

text \<open>\<open>Object\<close> is a map in which the first value of a key stays.\<close>

theorem Object_of_list_map:
  "map_of (Object_of_list entries) = map_of entries \<and> distinct (map fst (Object_of_list entries))"
proof -
  define add where "add = (\<lambda>obj (key, v). Object_add key v obj)"
  have "map_of (foldl add obj entries) = map_of entries ++ map_of obj \<and> distinct (map fst (foldl add obj entries))"
    if "distinct (map fst obj)" for obj
    using that
  proof (induction entries arbitrary: obj)
    case Nil
    then show ?case by simp
  next
    case (Cons e entries)
    obtain key v where e: "e = (key, v)" by (cases e)
    have "distinct (map fst (add obj e))" 
      using Cons.prems e by (auto simp: add_def Object_add_def map_of_eq_None_iff)
    moreover have "map_of (add obj e) = map_of [e] ++ map_of obj"
      using e by (auto simp: add_def Object_add_def map_add_def fun_eq_iff split: option.splits)
    ultimately show ?case
      using Cons.IH [of "add obj e"] e by (auto simp: map_add_def fun_eq_iff split: option.splits)
  qed
  from this [of "[]"] show ?thesis by (simp add: Object_of_list_def add_def)
qed

subsection \<open>What the parser accepts and rejects\<close>

text \<open>The first character of a key is not looked at.\<close>

theorem Parser_parse_key_unquoted:
  "Parser_parse (''{xa'' @ [CHR 0x22] @ '':1}'') = Some (Parsed (Json_Object [(''a'', Json_Int 1)]))"
  by code_simp

text \<open>C20: a text that is a decimal integer is read as it; outside 64 bits, \<open>std::stoll\<close> throws through the parser.\<close>

theorem Parser_parse_int:
  "Parser_parse (int_to_string i) =
     Some (if - (2 ^ 63) \<le> i \<and> i < 2 ^ 63 then Parsed (Json_Int (word_of_int i)) else Throws)"
proof -
  let ?buffer = "int_to_string i"
  have t: "at_text ?buffer 0 (int_to_string i @ [])" by (simp add: at_text_def)
  obtain c cs where c: "int_to_string i = c # cs" "c = CHR ''-'' \<or> is_digit c"
    by (cases rule: int_to_string_cases [of i]) (auto simp: neq_Nil_conv)
  have "c \<notin> {CHR ''n'', CHR ''f'', CHR ''t''}" "\<not> is_whitespace c"
    using c(2) by (auto simp: is_digit_def is_whitespace_def)
  moreover from this have s: "Parser_skip_whitespace ?buffer 0 = 0"
    using Parser_skip_no_whitespace [OF t] c(1) by simp
  moreover have "Parser_get ?buffer 0 = Some c" using c(1) by (simp add: Parser_get_def)
  ultimately have v: "Parser_value_step run ?buffer 0 = Some (Parser_parse_number ?buffer 0)" for run
    using c(2) by (auto simp: Parser_value_step_def)
  have f: "2 * length ?buffer + 2 = Suc (2 * length ?buffer + 1)" by simp
  have "Parser_skip_whitespace ?buffer (length ?buffer) = length ?buffer"
    by (rule Parser_skip_no_whitespace [of _ _ "[]"]) (simp_all add: at_text_def)
  then show ?thesis
    using Parser_parse_number_int [OF t] s
    by (simp add: Parser_parse_def Parser_parse_value_def f v std_stoll_int_to_string del: Parser_run.simps(2))
       (simp add: v)
qed

lemma decimal_digits_numeral:
  "decimal_digits 0 = ''0''" "decimal_digits 1 = ''1''"
  "decimal_digits (numeral k) =
     (if (numeral k :: nat) < 10 then [digit_char (numeral k)]
      else decimal_digits (numeral k div 10) @ [digit_char (numeral k mod 10)])"
  by (simp_all add: decimal_digits.simps [of 0] decimal_digits.simps [of "Suc 0"]
      decimal_digits.simps [of "numeral k"] digit_char_def char_of_def bit_0)

lemmas format_evaluate = format_double_def format_ratio_def format_decimal_def round_ratio_def
  strip_zeros_def decimal_digits_numeral digit_char_def char_of_def bit_0 unat_drop_bit Let_def

text \<open>
  a float does not survive: 2.0 is written as an integer, and the exponent that is
  written for a million is not read back.
\<close>

theorem Serializer_float_lost:
  "Parser_parse (Serializer_serialize 0 (Json_Float 0x4000000000000000)) = Some (Parsed (Json_Int 2)) \<and>
   Parser_parse (Serializer_serialize 0 (Json_Float 0x412E848000000000)) = Some Failed"
proof -
  have two: "format_double 0x4000000000000000 = int_to_string 2"
    by (simp add: format_evaluate int_to_string_def)
  have l: "length (decimal_digits 1000000) = 7" "decimal_digits 6 = ''6''" "decimal_digits 100000 = ''100000''"
    by (simp_all add: format_evaluate decimal_digits.simps [of "Suc 0"])
  have million: "format_double 0x412E848000000000 = ''1e+06''"
    by (simp add: format_double_def format_ratio_def format_decimal_def round_ratio_def strip_zeros_def
        unat_drop_bit Let_def l)
  have "Parser_parse ''1e+06'' = Some Failed" by code_simp
  then show ?thesis by (simp add: two million Parser_parse_int)
qed

end
