(* ===== verification/Ssa.thy ===== *)
theory Ssa
  imports Large_Int Utils
begin

section \<open>The SSA intermediate representation\<close>

text \<open>
  \<open>src/banjo/ssa/\<close>: types, operands, instructions, basic blocks with parameters, functions and
  modules. A pointer to a structure, function or global is its name; an iterator of the linked
  list of basic blocks is the number of the node it points to, and the list is the list of these
  numbers with the blocks. An instruction iterator is the position in the list of the block.
  Doubles are their bit patterns.
\<close>

type_synonym virtual_register = int
type_synonym block_id = nat

subsection \<open>Types\<close>

datatype primitive =
    P_VOID | P_I8 | P_I16 | P_I32 | P_I64 | P_U8 | P_U16 | P_U32 | P_U64 | P_F32 | P_F64 | P_ADDR

datatype type_kind = Kind_Primitive primitive | Kind_Struct string

record ssa_type =
  type_kind :: type_kind
  type_array_length :: nat

definition Type_primitive :: "primitive \<Rightarrow> ssa_type" where
  "Type_primitive p = \<lparr>type_kind = Kind_Primitive p, type_array_length = 1\<rparr>"

definition Type_struct :: "string \<Rightarrow> ssa_type" where
  "Type_struct name = \<lparr>type_kind = Kind_Struct name, type_array_length = 1\<rparr>"

definition Type_get_primitive :: "ssa_type \<Rightarrow> primitive option" where
  "Type_get_primitive t = (case type_kind t of Kind_Primitive p \<Rightarrow> Some p | Kind_Struct _ \<Rightarrow> None)"

definition Type_get_struct :: "ssa_type \<Rightarrow> string option" where
  "Type_get_struct t = (case type_kind t of Kind_Struct s \<Rightarrow> Some s | Kind_Primitive _ \<Rightarrow> None)"

definition Type_sized :: "nat \<Rightarrow> ssa_type option" where
  "Type_sized n =
     (if n = 0 then Some (Type_primitive P_VOID)
      else if n = 1 then Some (Type_primitive P_U8)
      else if n = 2 then Some (Type_primitive P_U16)
      else if n \<in> {3, 4} then Some (Type_primitive P_U32)
      else if n \<in> {5, 6, 7, 8} then Some (Type_primitive P_U64)
      else None)"

definition Type_is_primitive :: "primitive \<Rightarrow> ssa_type \<Rightarrow> bool" where
  "Type_is_primitive p t \<longleftrightarrow> type_array_length t = 1 \<and> type_kind t = Kind_Primitive p"

definition Type_is_floating_point :: "ssa_type \<Rightarrow> bool" where
  "Type_is_floating_point t \<longleftrightarrow>
     type_array_length t = 1 \<and> (type_kind t = Kind_Primitive P_F32 \<or> type_kind t = Kind_Primitive P_F64)"

definition Type_is_integer :: "ssa_type \<Rightarrow> bool" where
  "Type_is_integer t \<longleftrightarrow> type_array_length t = 1 \<and> \<not> Type_is_floating_point t"

record structure_member =
  member_name :: string
  member_type :: ssa_type

record ssa_structure =
  struct_name :: string
  struct_members :: "structure_member list"
  struct_is_union :: bool

definition Type_is_struct_aggregate :: "(string \<Rightarrow> ssa_structure option) \<Rightarrow> ssa_type \<Rightarrow> bool" where
  "Type_is_struct_aggregate struct_of t \<longleftrightarrow>
     (case type_kind t of
        Kind_Struct name \<Rightarrow>
          type_array_length t = 1 \<and> (case struct_of name of Some s \<Rightarrow> \<not> struct_is_union s | None \<Rightarrow> False)
      | Kind_Primitive _ \<Rightarrow> False)"

subsection \<open>Comparisons\<close>

datatype comparison =
    C_EQ | C_NE | C_UGT | C_UGE | C_ULT | C_ULE | C_SGT | C_SGE | C_SLT | C_SLE
  | C_FEQ | C_FNE | C_FGT | C_FGE | C_FLT | C_FLE

definition invert_comparison :: "comparison \<Rightarrow> comparison" where
  "invert_comparison c =
     (case c of
        C_EQ \<Rightarrow> C_NE | C_NE \<Rightarrow> C_EQ
      | C_UGT \<Rightarrow> C_ULE | C_UGE \<Rightarrow> C_ULT | C_ULT \<Rightarrow> C_UGE | C_ULE \<Rightarrow> C_UGT
      | C_SGT \<Rightarrow> C_SLE | C_SGE \<Rightarrow> C_SLT | C_SLT \<Rightarrow> C_SGE | C_SLE \<Rightarrow> C_SGT
      | C_FEQ \<Rightarrow> C_FNE | C_FNE \<Rightarrow> C_FEQ
      | C_FGT \<Rightarrow> C_FLE | C_FGE \<Rightarrow> C_FLT | C_FLT \<Rightarrow> C_FGE | C_FLE \<Rightarrow> C_FGT)"

definition is_comparison_signed :: "comparison \<Rightarrow> bool" where
  "is_comparison_signed c \<longleftrightarrow> c = C_SGT \<or> c = C_SGE \<or> c = C_SLT \<or> c = C_SLE"

subsection \<open>Operands\<close>

text \<open>The value of an operand and its type; the arguments of a branch target are operands.\<close>

datatype ssa_operand = Operand (op_value: ssa_value) (op_type: ssa_type)
  and ssa_value =
    Int_Immediate large_int
  | Fp_Immediate u64
  | Register virtual_register
  | Func_Ref string
  | Global_Ref string
  | Extern_Func_Ref string
  | Extern_Global_Ref string
  | Branch_Target block_id "ssa_operand list"
  | Comparison_Value comparison
  | Type_Value
  | Undef_Value

definition Operand_is_int_immediate :: "ssa_operand \<Rightarrow> bool" where
  "Operand_is_int_immediate op = (case op_value op of Int_Immediate _ \<Rightarrow> True | _ \<Rightarrow> False)"

definition Operand_is_fp_immediate :: "ssa_operand \<Rightarrow> bool" where
  "Operand_is_fp_immediate op = (case op_value op of Fp_Immediate _ \<Rightarrow> True | _ \<Rightarrow> False)"

definition Operand_is_immediate :: "ssa_operand \<Rightarrow> bool" where
  "Operand_is_immediate op \<longleftrightarrow> Operand_is_int_immediate op \<or> Operand_is_fp_immediate op"

definition Operand_is_register :: "virtual_register \<Rightarrow> ssa_operand \<Rightarrow> bool" where
  "Operand_is_register reg op \<longleftrightarrow> op_value op = Register reg"

definition Operand_int_immediate :: "ssa_operand \<Rightarrow> large_int option" where
  "Operand_int_immediate op = (case op_value op of Int_Immediate i \<Rightarrow> Some i | _ \<Rightarrow> None)"

definition Operand_fp_immediate :: "ssa_operand \<Rightarrow> u64 option" where
  "Operand_fp_immediate op = (case op_value op of Fp_Immediate d \<Rightarrow> Some d | _ \<Rightarrow> None)"

definition Operand_register :: "ssa_operand \<Rightarrow> virtual_register option" where
  "Operand_register op = (case op_value op of Register r \<Rightarrow> Some r | _ \<Rightarrow> None)"

definition Operand_branch_target :: "ssa_operand \<Rightarrow> (block_id \<times> ssa_operand list) option" where
  "Operand_branch_target op =
     (case op_value op of Branch_Target block args \<Rightarrow> Some (block, args) | _ \<Rightarrow> None)"

definition Operand_comparison :: "ssa_operand \<Rightarrow> comparison option" where
  "Operand_comparison op = (case op_value op of Comparison_Value c \<Rightarrow> Some c | _ \<Rightarrow> None)"

definition Operand_from_int_immediate :: "large_int \<Rightarrow> ssa_type \<Rightarrow> ssa_operand" where
  "Operand_from_int_immediate i t = Operand (Int_Immediate i) t"

definition Operand_from_fp_immediate :: "u64 \<Rightarrow> ssa_type \<Rightarrow> ssa_operand" where
  "Operand_from_fp_immediate d t = Operand (Fp_Immediate d) t"

definition Operand_with_type :: "ssa_type \<Rightarrow> ssa_operand \<Rightarrow> ssa_operand" where
  "Operand_with_type t op = Operand (op_value op) t"

subsection \<open>Instructions\<close>

datatype ssa_opcode =
    O_ALLOCA | O_LOAD | O_STORE | O_LOADARG | O_ADD | O_SUB | O_MUL | O_SDIV | O_SREM | O_UDIV
  | O_UREM | O_FADD | O_FSUB | O_FMUL | O_FDIV | O_AND | O_OR | O_XOR | O_LSHL | O_LSHR | O_ASHR
  | O_JMP | O_CJMP | O_FCJMP | O_SELECT | O_CALL | O_RET | O_UEXTEND | O_SEXTEND | O_TRUNCATE
  | O_FPROMOTE | O_FDEMOTE | O_UTOF | O_STOF | O_FTOU | O_FTOS | O_MEMBERPTR | O_OFFSETPTR
  | O_COPY | O_SQRT

datatype ssa_attribute = Attr_NONE | Attr_ARG_STORE | Attr_SAVE_ARG | Attr_VARIADIC

record ssa_instr =
  instr_opcode :: ssa_opcode
  instr_dest :: "virtual_register option"
  instr_operands :: "ssa_operand list"
  instr_attr :: ssa_attribute
  instr_attr_data :: nat

definition SsaInstr_make :: "ssa_opcode \<Rightarrow> virtual_register option \<Rightarrow> ssa_operand list \<Rightarrow> ssa_instr" where
  "SsaInstr_make opcode dest operands =
     \<lparr>instr_opcode = opcode, instr_dest = dest, instr_operands = operands, instr_attr = Attr_NONE,
      instr_attr_data = 0\<rparr>"

text \<open>\<open>get_operand\<close>; an index out of range is undefined behaviour.\<close>

definition SsaInstr_get_operand :: "ssa_instr \<Rightarrow> nat \<Rightarrow> ssa_operand option" where
  "SsaInstr_get_operand i index =
     (if index < length (instr_operands i) then Some (instr_operands i ! index) else None)"

definition SsaInstr_might_access_memory :: "ssa_instr \<Rightarrow> bool" where
  "SsaInstr_might_access_memory i \<longleftrightarrow> instr_opcode i \<in> {O_LOAD, O_STORE, O_CALL, O_COPY}"

definition SsaInstr_is_branching :: "ssa_instr \<Rightarrow> bool" where
  "SsaInstr_is_branching i \<longleftrightarrow> instr_opcode i \<in> {O_JMP, O_CJMP, O_FCJMP}"

definition SsaInstr_is_cond_branch :: "ssa_instr \<Rightarrow> bool" where
  "SsaInstr_is_cond_branch i \<longleftrightarrow> instr_opcode i \<in> {O_CJMP, O_FCJMP}"

definition SsaInstr_branch_target :: "ssa_instr \<Rightarrow> nat \<Rightarrow> block_id option" where
  "SsaInstr_branch_target i index =
     do {
       op \<leftarrow> SsaInstr_get_operand i index;
       (block, args) \<leftarrow> Operand_branch_target op;
       Some block
     }"

subsection \<open>Basic blocks, functions and modules\<close>

record ssa_block =
  block_instrs :: "ssa_instr list"
  block_param_regs :: "virtual_register list"
  block_param_types :: "ssa_type list"
  block_label :: string

record function_type =
  ftype_params :: "ssa_type list"
  ftype_return_type :: ssa_type
  ftype_variadic :: bool
  ftype_first_variadic_index :: nat

record ssa_function =
  func_name :: string
  func_type :: function_type
  func_global :: bool
  func_never_inline :: bool
  func_blocks :: "(block_id \<times> ssa_block) list"
  func_last_virtual_reg :: virtual_register

datatype global_value_ssa =
    G_None | G_Integer large_int | G_FloatingPoint u64 | G_Bytes "u8 list" | G_String string
  | G_Function string | G_GlobalRef string | G_ExternFuncRef string | G_ExternGlobalRef string

record ssa_global =
  global_name :: string
  global_type :: ssa_type
  global_initial_value :: global_value_ssa
  global_external :: bool

record ssa_module =
  mod_functions :: "ssa_function list"
  mod_globals :: "ssa_global list"
  mod_structures :: "ssa_structure list"
  mod_external_functions :: "(string \<times> function_type) list"
  mod_external_globals :: "(string \<times> ssa_type) list"
  mod_dll_exports :: "string list"

definition BasicBlock_make :: "string \<Rightarrow> ssa_block" where
  "BasicBlock_make label =
     \<lparr>block_instrs = [], block_param_regs = [], block_param_types = [], block_label = label\<rparr>"

definition BasicBlock_has_label :: "ssa_block \<Rightarrow> bool" where
  "BasicBlock_has_label b \<longleftrightarrow> block_label b \<noteq> []"

definition BasicBlock_append :: "ssa_instr \<Rightarrow> ssa_block \<Rightarrow> ssa_block" where
  "BasicBlock_append i b = b\<lparr>block_instrs := block_instrs b @ [i]\<rparr>"

definition BasicBlock_is_branching :: "ssa_block \<Rightarrow> bool" where
  "BasicBlock_is_branching b \<longleftrightarrow> block_instrs b \<noteq> [] \<and> SsaInstr_is_branching (last (block_instrs b))"

text \<open>Dereferencing a block iterator, and the first block of a function.\<close>

definition Function_block :: "ssa_function \<Rightarrow> block_id \<Rightarrow> ssa_block option" where
  "Function_block f block = map_of (func_blocks f) block"

definition Function_entry_block :: "ssa_function \<Rightarrow> block_id option" where
  "Function_entry_block f = (case func_blocks f of [] \<Rightarrow> None | (block, _) # _ \<Rightarrow> Some block)"

definition Function_next_virtual_reg :: "ssa_function \<Rightarrow> virtual_register \<times> ssa_function" where
  "Function_next_virtual_reg f =
     (func_last_virtual_reg f, f\<lparr>func_last_virtual_reg := func_last_virtual_reg f + 1\<rparr>)"

definition Function_find_basic_block :: "ssa_function \<Rightarrow> string \<Rightarrow> block_id option" where
  "Function_find_basic_block f label =
     map_option fst (find (\<lambda>(block, b). block_label b = label) (func_blocks f))"

definition Function_update_block :: "block_id \<Rightarrow> (ssa_block \<Rightarrow> ssa_block) \<Rightarrow> ssa_function \<Rightarrow> ssa_function" where
  "Function_update_block block update f =
     f\<lparr>func_blocks := map (\<lambda>(id, b). (id, if id = block then update b else b)) (func_blocks f)\<rparr>"

text \<open>\<open>merge_blocks\<close> moves the instructions of the second block behind those of the first.\<close>

definition Function_merge_blocks :: "block_id \<Rightarrow> block_id \<Rightarrow> ssa_function \<Rightarrow> ssa_function option" where
  "Function_merge_blocks first second f =
     do {
       b \<leftarrow> Function_block f second;
       let f1 = Function_update_block first (fold BasicBlock_append (block_instrs b)) f;
       Some (f1\<lparr>func_blocks := filter (\<lambda>(id, _). id \<noteq> second) (func_blocks f1)\<rparr>)
     }"

definition Module_get_function :: "ssa_module \<Rightarrow> string \<Rightarrow> ssa_function option" where
  "Module_get_function m name = find (\<lambda>f. func_name f = name) (mod_functions m)"

definition Module_get_structure :: "ssa_module \<Rightarrow> string \<Rightarrow> ssa_structure option" where
  "Module_get_structure m name = find (\<lambda>s. struct_name s = name) (mod_structures m)"

subsection \<open>Types of instructions\<close>

text \<open>
  \<open>Instruction::get_type\<close>: structures are looked up by name. Missing operands, and members out
  of range, are undefined behaviour.
\<close>

definition SsaInstr_operand_type :: "ssa_instr \<Rightarrow> nat \<Rightarrow> ssa_type option" where
  "SsaInstr_operand_type i index = map_option op_type (SsaInstr_get_operand i index)"

definition SsaInstr_member_type :: "(string \<Rightarrow> ssa_structure option) \<Rightarrow> ssa_instr \<Rightarrow> ssa_type option" where
  "SsaInstr_member_type struct_of i =
     do {
       t \<leftarrow> SsaInstr_operand_type i 0;
       name \<leftarrow> Type_get_struct t;
       s \<leftarrow> struct_of name;
       op \<leftarrow> SsaInstr_get_operand i 2;
       index \<leftarrow> Operand_int_immediate op;
       v \<leftarrow> LargeInt_to_unsigned index;
       let k = unat v;
       if k < length (struct_members s) then Some (member_type (struct_members s ! k)) else None
     }"

definition SsaInstr_get_type :: "(string \<Rightarrow> ssa_structure option) \<Rightarrow> ssa_instr \<Rightarrow> ssa_type option" where
  "SsaInstr_get_type struct_of i =
     (let opcode = instr_opcode i in
      if opcode \<in> {O_STORE, O_JMP, O_CJMP, O_FCJMP, O_RET, O_COPY} then Some (Type_primitive P_VOID)
      else if opcode = O_OFFSETPTR then Some (Type_primitive P_ADDR)
      else if opcode \<in> {O_UEXTEND, O_SEXTEND, O_TRUNCATE, O_FPROMOTE, O_FDEMOTE, O_UTOF, O_STOF, O_FTOU, O_FTOS}
      then SsaInstr_operand_type i 1
      else if opcode = O_SELECT then SsaInstr_operand_type i 3
      else if opcode = O_CALL then
        (if instr_dest i \<noteq> None then SsaInstr_operand_type i 0 else Some (Type_primitive P_VOID))
      else if opcode = O_MEMBERPTR then SsaInstr_member_type struct_of i
      else SsaInstr_operand_type i 0)"

text \<open>\<open>ssa::get_result_type\<close> and \<open>ssa::get_call_func_type\<close>.\<close>

definition ssa_get_result_type :: "ssa_instr \<Rightarrow> ssa_type \<Rightarrow> ssa_type option" where
  "ssa_get_result_type i addr_type =
     (let opcode = instr_opcode i in
      if opcode \<in> {O_ALLOCA, O_MEMBERPTR, O_OFFSETPTR} then Some addr_type
      else if opcode \<in> {O_STORE, O_JMP, O_CJMP, O_FCJMP, O_RET, O_COPY} then Some (Type_primitive P_VOID)
      else if opcode \<in> {O_UEXTEND, O_SEXTEND, O_TRUNCATE, O_FPROMOTE, O_FDEMOTE, O_UTOF, O_STOF, O_FTOU, O_FTOS}
      then SsaInstr_operand_type i 1
      else if opcode = O_SELECT then SsaInstr_operand_type i 3
      else SsaInstr_operand_type i 0)"

definition ssa_get_call_func_type :: "ssa_instr \<Rightarrow> function_type option" where
  "ssa_get_call_func_type i =
     map_option (\<lambda>return_type.
       \<lparr>ftype_params = map op_type (tl (instr_operands i)), ftype_return_type = return_type,
        ftype_variadic = (instr_attr i = Attr_VARIADIC),
        ftype_first_variadic_index = (if instr_attr i = Attr_VARIADIC then instr_attr_data i else 0)\<rparr>)
       (SsaInstr_operand_type i 0)"

end
