(* ===== verification/Control_Flow_Graph.thy ===== *)
theory Control_Flow_Graph
  imports Ssa
begin

section \<open>Control flow graphs and dominator trees\<close>

text \<open>
  \<open>ControlFlowGraph\<close>, \<open>DominatorTree\<close> (\<open>src/banjo/ssa/control_flow_graph.*\<close>) and \<open>LoopAnalyzer\<close>
  (\<open>passes/loop_analysis.*\<close>). The recursions over the graph take fuel; a failed assertion, an
  index out of range and a lack of fuel are \<open>None\<close>. The loop that computes the immediate
  dominators, which stops when nothing changes, is a partial function.
\<close>

subsection \<open>ControlFlowGraph\<close>

record cfg_node =
  cn_block :: block_id
  cn_predecessors :: "nat list"
  cn_successors :: "nat list"

record cfg =
  cfg_nodes :: "cfg_node list"
  cfg_entry_index :: nat
  cfg_blocks2nodes :: "block_id \<rightharpoonup> nat"

definition Cfg_contains :: "cfg \<Rightarrow> block_id \<Rightarrow> bool" where
  "Cfg_contains g block \<longleftrightarrow> cfg_blocks2nodes g block \<noteq> None"

definition Cfg_add_successor :: "nat \<Rightarrow> nat \<Rightarrow> cfg_node list \<Rightarrow> cfg_node list" where
  "Cfg_add_successor i j nodes = nodes[i := (nodes ! i)\<lparr>cn_successors := cn_successors (nodes ! i) @ [j]\<rparr>]"

definition Cfg_add_predecessor :: "nat \<Rightarrow> nat \<Rightarrow> cfg_node list \<Rightarrow> cfg_node list" where
  "Cfg_add_predecessor i j nodes = nodes[i := (nodes ! i)\<lparr>cn_predecessors := cn_predecessors (nodes ! i) @ [j]\<rparr>]"

text \<open>\<open>create_edge\<close>, over the function that creates the nodes from a block.\<close>

definition Cfg_create_edge ::
  "(block_id \<Rightarrow> cfg \<Rightarrow> cfg option) \<Rightarrow> block_id \<Rightarrow> block_id \<Rightarrow> cfg \<Rightarrow> cfg option" where
  "Cfg_create_edge create from to g =
     do {
       g1 \<leftarrow> create to g;
       from_index \<leftarrow> cfg_blocks2nodes g1 from;
       to_index \<leftarrow> cfg_blocks2nodes g1 to;
       Some (g1\<lparr>cfg_nodes :=
         Cfg_add_predecessor to_index from_index (Cfg_add_successor from_index to_index (cfg_nodes g1))\<rparr>)
     }"

definition Cfg_add_node :: "block_id \<Rightarrow> cfg \<Rightarrow> cfg" where
  "Cfg_add_node block g =
     g\<lparr>cfg_nodes := cfg_nodes g @ [\<lparr>cn_block = block, cn_predecessors = [], cn_successors = []\<rparr>],
       cfg_blocks2nodes := (cfg_blocks2nodes g)(block \<mapsto> length (cfg_nodes g))\<rparr>"

primrec Cfg_create_nodes :: "ssa_function \<Rightarrow> nat \<Rightarrow> block_id \<Rightarrow> cfg \<Rightarrow> cfg option" where
  "Cfg_create_nodes f 0 = (\<lambda>block g. None)"
| "Cfg_create_nodes f (Suc fuel) = (\<lambda>block g.
     do {
       b \<leftarrow> Function_block f block;
       ASSERT (block_instrs b \<noteq> []);
       (if Cfg_contains g block then Some g
        else
          let last_instr = last (block_instrs b); g0 = Cfg_add_node block g in
          case instr_opcode last_instr of
            O_JMP \<Rightarrow> do {
              to \<leftarrow> SsaInstr_branch_target last_instr 0;
              Cfg_create_edge (Cfg_create_nodes f fuel) block to g0
            }
          | O_CJMP \<Rightarrow> do {
              to_true \<leftarrow> SsaInstr_branch_target last_instr 3;
              g1 \<leftarrow> Cfg_create_edge (Cfg_create_nodes f fuel) block to_true g0;
              to_false \<leftarrow> SsaInstr_branch_target last_instr 4;
              Cfg_create_edge (Cfg_create_nodes f fuel) block to_false g1
            }
          | O_FCJMP \<Rightarrow> do {
              to_true \<leftarrow> SsaInstr_branch_target last_instr 3;
              g1 \<leftarrow> Cfg_create_edge (Cfg_create_nodes f fuel) block to_true g0;
              to_false \<leftarrow> SsaInstr_branch_target last_instr 4;
              Cfg_create_edge (Cfg_create_nodes f fuel) block to_false g1
            }
          | O_RET \<Rightarrow> Some g0
          | _ \<Rightarrow> None)
     })"

text \<open>
  \<open>collect_nodes_in_post_order\<close>: the state is the index map, in which a node under way has a
  dummy value, and the next number.
\<close>

primrec Cfg_collect_post_order ::
  "cfg_node list \<Rightarrow> nat \<Rightarrow> nat \<Rightarrow> (nat \<rightharpoonup> nat) \<times> nat \<Rightarrow> ((nat \<rightharpoonup> nat) \<times> nat) option" where
  "Cfg_collect_post_order nodes 0 = (\<lambda>index s. None)"
| "Cfg_collect_post_order nodes (Suc fuel) = (\<lambda>index (index_map, cur_new_index).
     do {
       ASSERT (index < length nodes);
       (index_map', cur_new_index') \<leftarrow>
         for_each (cn_successors (nodes ! index))
           (\<lambda>successor (m, c).
              if m successor = None then Cfg_collect_post_order nodes fuel successor (m, c) else Some (m, c))
           (index_map(index \<mapsto> 0), cur_new_index);
       Some (index_map'(index \<mapsto> cur_new_index'), cur_new_index' + 1)
     })"

definition Cfg_renumber_node :: "(nat \<rightharpoonup> nat) \<Rightarrow> cfg_node \<Rightarrow> cfg_node" where
  "Cfg_renumber_node index_map node =
     node\<lparr>cn_predecessors := map (\<lambda>i. the (index_map i)) (cn_predecessors node),
       cn_successors := map (\<lambda>i. the (index_map i)) (cn_successors node)\<rparr>"

text \<open>The loop of \<open>sort_in_post_order\<close> over the old nodes, on the new nodes and the map of blocks.\<close>

definition Cfg_place_node ::
  "(nat \<rightharpoonup> nat) \<Rightarrow> cfg_node list \<Rightarrow> nat \<Rightarrow> cfg_node list \<times> (block_id \<rightharpoonup> nat) \<Rightarrow> cfg_node list \<times> (block_id \<rightharpoonup> nat)" where
  "Cfg_place_node index_map nodes i s =
     (let node = Cfg_renumber_node index_map (nodes ! i); new_index = the (index_map i)
      in ((fst s)[new_index := node], (snd s)(cn_block node \<mapsto> new_index)))"

definition Cfg_place_nodes ::
  "(nat \<rightharpoonup> nat) \<Rightarrow> cfg_node list \<Rightarrow> cfg_node list \<times> (block_id \<rightharpoonup> nat) \<Rightarrow> cfg_node list \<times> (block_id \<rightharpoonup> nat)" where
  "Cfg_place_nodes index_map nodes s = fold (Cfg_place_node index_map nodes) [0..<length nodes] s"

definition Cfg_empty_node :: cfg_node where
  "Cfg_empty_node = \<lparr>cn_block = 0, cn_predecessors = [], cn_successors = []\<rparr>"

definition Cfg_sort_in_post_order :: "cfg \<Rightarrow> cfg option" where
  "Cfg_sort_in_post_order g =
     do {
       (index_map, cur_new_index) \<leftarrow>
         Cfg_collect_post_order (cfg_nodes g) (length (cfg_nodes g) + 1) (cfg_entry_index g) (Map.empty, 0);
       ASSERT (length (cfg_nodes g) = length (filter (\<lambda>i. index_map i \<noteq> None) [0..<length (cfg_nodes g)]));
       let (sorted, blocks2nodes) =
         Cfg_place_nodes index_map (cfg_nodes g)
           (replicate (length (cfg_nodes g)) Cfg_empty_node, cfg_blocks2nodes g);
       Some \<lparr>cfg_nodes = sorted, cfg_entry_index = length sorted - 1, cfg_blocks2nodes = blocks2nodes\<rparr>
     }"

text \<open>The fuel: the recursion is never deeper than the number of blocks.\<close>

definition ControlFlowGraph :: "ssa_function \<Rightarrow> cfg option" where
  "ControlFlowGraph f =
     do {
       entry \<leftarrow> Function_entry_block f;
       g \<leftarrow> Cfg_create_nodes f (length (func_blocks f) + 1) entry
         \<lparr>cfg_nodes = [], cfg_entry_index = 0, cfg_blocks2nodes = Map.empty\<rparr>;
       Cfg_sort_in_post_order (g\<lparr>cfg_entry_index := 0\<rparr>)
     }"

subsection \<open>DominatorTree\<close>

record dom_node =
  dn_parent_index :: nat
  dn_children_indices :: "nat list"
  dn_dominance_frontiers :: "nat list"

text \<open>\<open>intersect\<close>: walks up from the smaller index until both meet; \<open>doms\<close> holds \<open>None\<close> for -1.\<close>

partial_function (option) DominatorTree_intersect :: "nat \<Rightarrow> nat \<Rightarrow> nat option list \<Rightarrow> nat option" where
  "DominatorTree_intersect b1 b2 doms =
     (if b1 = b2 then Some b1
      else if b1 < b2 then
        Option.bind (if b1 < length doms then doms ! b1 else None) (\<lambda>d. DominatorTree_intersect d b2 doms)
      else
        Option.bind (if b2 < length doms then doms ! b2 else None) (\<lambda>d. DominatorTree_intersect b1 d doms))"

text \<open>The new immediate dominator of a node from its predecessors that have been processed.\<close>

definition DominatorTree_new_idom :: "nat list \<Rightarrow> nat option list \<Rightarrow> nat option option" where
  "DominatorTree_new_idom preds doms =
     for_each preds (\<lambda>pred new_idom.
       if doms ! pred \<noteq> None then
         (case new_idom of
            None \<Rightarrow> Some (Some pred)
          | Some i \<Rightarrow> map_option Some (DominatorTree_intersect i pred doms))
       else Some new_idom) None"

text \<open>One iteration of the outer loop: the nodes from the last to the first, with the flag \<open>changed\<close>.\<close>

definition DominatorTree_visit :: "cfg \<Rightarrow> nat \<Rightarrow> nat option list \<times> bool \<Rightarrow> (nat option list \<times> bool) option" where
  "DominatorTree_visit g index s =
     (let (doms, changed) = s in
      if index = cfg_entry_index g then Some (doms, changed)
      else do {
        new_idom \<leftarrow> DominatorTree_new_idom (cn_predecessors (cfg_nodes g ! index)) doms;
        Some (if doms ! index \<noteq> new_idom then (doms[index := new_idom], True) else (doms, changed))
      })"

definition DominatorTree_sweep :: "cfg \<Rightarrow> nat option list \<Rightarrow> (nat option list \<times> bool) option" where
  "DominatorTree_sweep g doms =
     for_each (rev [0..<length (cfg_nodes g)]) (DominatorTree_visit g) (doms, False)"

partial_function (option) DominatorTree_idoms_loop :: "cfg \<Rightarrow> nat option list \<Rightarrow> nat option list option" where
  "DominatorTree_idoms_loop g doms =
     Option.bind (DominatorTree_sweep g doms) (\<lambda>(doms', changed).
       if changed then DominatorTree_idoms_loop g doms' else Some doms')"

text \<open>The tree from the array: -1 as an index, which it is for a node that was never reached, is out of range.\<close>

definition DominatorTree_compute_idoms :: "cfg \<Rightarrow> dom_node list option" where
  "DominatorTree_compute_idoms g =
     do {
       let n = length (cfg_nodes g);
       doms \<leftarrow> DominatorTree_idoms_loop g ((replicate n None)[cfg_entry_index g := Some (cfg_entry_index g)]);
       for_each [0..<n]
         (\<lambda>i nodes. do {
            idom \<leftarrow> doms ! i;
            let nodes1 = nodes[i := (nodes ! i)\<lparr>dn_parent_index := idom\<rparr>];
            Some (if i \<noteq> cfg_entry_index g
                  then nodes1[idom := (nodes1 ! idom)\<lparr>dn_children_indices := dn_children_indices (nodes1 ! idom) @ [i]\<rparr>]
                  else nodes1)
          })
         (replicate n \<lparr>dn_parent_index = 0, dn_children_indices = [], dn_dominance_frontiers = []\<rparr>)
     }"

partial_function (option) DominatorTree_run_frontier ::
  "nat \<Rightarrow> nat \<Rightarrow> nat \<Rightarrow> dom_node list \<Rightarrow> dom_node list option" where
  "DominatorTree_run_frontier i idom runner nodes =
     (if runner = idom then Some nodes
      else DominatorTree_run_frontier i idom (dn_parent_index (nodes ! runner))
        (nodes[runner := (nodes ! runner)\<lparr>dn_dominance_frontiers := dn_dominance_frontiers (nodes ! runner) @ [i]\<rparr>]))"

definition DominatorTree_compute_dominance_frontiers :: "cfg \<Rightarrow> dom_node list \<Rightarrow> dom_node list option" where
  "DominatorTree_compute_dominance_frontiers g nodes =
     for_each [0..<length (cfg_nodes g)]
       (\<lambda>i nodes.
          let preds = cn_predecessors (cfg_nodes g ! i); idom = dn_parent_index (nodes ! i) in
          if length preds < 2 then Some nodes
          else for_each preds (\<lambda>pred. DominatorTree_run_frontier i idom pred) nodes) nodes"

definition DominatorTree :: "cfg \<Rightarrow> dom_node list option" where
  "DominatorTree g = Option.bind (DominatorTree_compute_idoms g) (DominatorTree_compute_dominance_frontiers g)"

text \<open>\<open>dominates\<close> searches the subtree of \<open>a\<close>; the depth of the recursion is at most the number of nodes.\<close>

primrec DominatorTree_dominates :: "dom_node list \<Rightarrow> nat \<Rightarrow> nat \<Rightarrow> nat \<Rightarrow> bool" where
  "DominatorTree_dominates nodes 0 a b = (a = b)"
| "DominatorTree_dominates nodes (Suc fuel) a b =
     (a = b \<or> list_ex (\<lambda>child. DominatorTree_dominates nodes fuel child b) (dn_children_indices (nodes ! a)))"

subsection \<open>LoopAnalyzer\<close>

text \<open>\<open>is_dominated_by\<close> walks up the tree from \<open>a\<close>, and stops at the root without comparing it.\<close>

partial_function (option) LoopAnalyzer_walk :: "dom_node list \<Rightarrow> nat \<Rightarrow> nat \<Rightarrow> bool option" where
  "LoopAnalyzer_walk nodes idom b =
     (if dn_parent_index (nodes ! idom) = idom then Some False
      else if idom = b then Some True
      else LoopAnalyzer_walk nodes (dn_parent_index (nodes ! idom)) b)"

definition LoopAnalyzer_is_dominated_by :: "dom_node list \<Rightarrow> nat \<Rightarrow> nat \<Rightarrow> bool option" where
  "LoopAnalyzer_is_dominated_by nodes a b =
     (if a = b then Some True else LoopAnalyzer_walk nodes (dn_parent_index (nodes ! a)) b)"

record loop_analysis =
  loop_header :: nat
  loop_body :: "nat list"
  loop_tail :: nat
  loop_entries :: "nat list"
  loop_exits :: "(nat \<times> nat) list"

text \<open>
  The hash sets are lists without duplicates in the order of insertion. The recursion of
  \<open>collect_body_nodes\<close> is as deep as the number of nodes at most.
\<close>

primrec LoopAnalyzer_collect_body :: "cfg \<Rightarrow> nat \<Rightarrow> nat \<Rightarrow> nat list \<Rightarrow> nat list option" where
  "LoopAnalyzer_collect_body g 0 = (\<lambda>node body. None)"
| "LoopAnalyzer_collect_body g (Suc fuel) = (\<lambda>node body.
     if node \<in> set body then Some body
     else for_each (cn_predecessors (cfg_nodes g ! node)) (LoopAnalyzer_collect_body g fuel) (body @ [node]))"

definition LoopAnalyzer_analyze_back_edge :: "cfg \<Rightarrow> nat \<Rightarrow> nat \<Rightarrow> loop_analysis option" where
  "LoopAnalyzer_analyze_back_edge g from to =
     do {
       body \<leftarrow> LoopAnalyzer_collect_body g (length (cfg_nodes g) + 1) from [to];
       Some \<lparr>loop_header = to, loop_body = body, loop_tail = from,
         loop_entries = remdups (filter (\<lambda>p. p \<notin> set body) (cn_predecessors (cfg_nodes g ! to))),
         loop_exits = remdups (concat (map (\<lambda>node.
           map (Pair node) (filter (\<lambda>s. s \<notin> set body) (cn_successors (cfg_nodes g ! node)))) body))\<rparr>
     }"

definition LoopAnalyzer_analyze :: "cfg \<Rightarrow> dom_node list \<Rightarrow> loop_analysis list option" where
  "LoopAnalyzer_analyze g nodes =
     for_each [0..<length (cfg_nodes g)] (\<lambda>i loops.
       for_each (cn_successors (cfg_nodes g ! i)) (\<lambda>succ loops.
         do {
           dominated \<leftarrow> LoopAnalyzer_is_dominated_by nodes i succ;
           (if dominated then map_option (\<lambda>loop. loops @ [loop]) (LoopAnalyzer_analyze_back_edge g i succ)
            else Some loops)
         }) loops) []"

end
