(* ===== verification/Dominators.thy ===== *)
theory Dominators
  imports Control_Flow_Graph
begin

section \<open>Dominator trees are correct\<close>

text \<open>
  The iteration of \<open>compute_idoms\<close> ends, and the tree it computes is the dominator tree of the
  graph: a node lies on the path from another one to the root exactly when it dominates it. The
  proof follows the iteration: a sweep visits the nodes in reverse post-order, so every node is
  visited behind one of its predecessors.
\<close>

subsection \<open>Graphs numbered in post-order, and dominance\<close>

abbreviation cfg_size :: "cfg \<Rightarrow> nat" where
  "cfg_size g \<equiv> length (cfg_nodes g)"

abbreviation cfg_preds :: "cfg \<Rightarrow> nat \<Rightarrow> nat list" where
  "cfg_preds g v \<equiv> cn_predecessors (cfg_nodes g ! v)"

text \<open>
  The entry is the last node, and every other node has a predecessor with a larger number, given
  by \<open>par\<close>: the node from which the depth-first search reached it.
\<close>

definition post_ordered :: "cfg \<Rightarrow> (nat \<Rightarrow> nat) \<Rightarrow> bool" where
  "post_ordered g par \<longleftrightarrow>
     cfg_nodes g \<noteq> [] \<and> cfg_entry_index g = cfg_size g - 1 \<and>
     (\<forall>v<cfg_size g. \<forall>u\<in>set (cfg_preds g v). u < cfg_size g) \<and>
     (\<forall>v<cfg_size g - 1. par v \<in> set (cfg_preds g v) \<and> v < par v)"

text \<open>\<open>avoids g a v\<close>: there is a path from the entry to \<open>v\<close> that does not go through \<open>a\<close>.\<close>

inductive avoids :: "cfg \<Rightarrow> nat \<Rightarrow> nat \<Rightarrow> bool" for g a where
  entry: "cfg_entry_index g \<noteq> a \<Longrightarrow> avoids g a (cfg_entry_index g)"
| step: "avoids g a u \<Longrightarrow> u \<in> set (cfg_preds g v) \<Longrightarrow> v < cfg_size g \<Longrightarrow> v \<noteq> a \<Longrightarrow> avoids g a v"

definition dominates :: "cfg \<Rightarrow> nat \<Rightarrow> nat \<Rightarrow> bool" where
  "dominates g a b \<longleftrightarrow> \<not> avoids g a b"

lemma dominates_pred:
  "dominates g a b \<Longrightarrow> a \<noteq> b \<Longrightarrow> b < cfg_size g \<Longrightarrow> u \<in> set (cfg_preds g b) \<Longrightarrow> dominates g a u"
  by (auto simp: dominates_def intro: avoids.step)

subsection \<open>The tree in the array\<close>

text \<open>The nodes on the way from a node to the root, itself included.\<close>

definition up_edges :: "nat option list \<Rightarrow> (nat \<times> nat) set" where
  "up_edges d = {(x, p). x < length d \<and> d ! x = Some p}"

definition up :: "nat option list \<Rightarrow> nat \<Rightarrow> nat set" where
  "up d b = {a. (b, a) \<in> (up_edges d)\<^sup>*}"

text \<open>Behind a node that has been processed there is a processed node with a larger number; the last node is the root.\<close>

definition tree_ok :: "nat \<Rightarrow> nat option list \<Rightarrow> bool" where
  "tree_ok n d \<longleftrightarrow>
     length d = n \<and> n > 0 \<and> d ! (n - 1) = Some (n - 1) \<and>
     (\<forall>b<n - 1. \<forall>p. d ! b = Some p \<longrightarrow> b < p \<and> p < n \<and> d ! p \<noteq> None)"

lemma up_refl [simp]: "b \<in> up d b"
  by (simp add: up_def)

lemma up_Some: "b < length d \<Longrightarrow> d ! b = Some p \<Longrightarrow> up d b = insert b (up d p)"
  by (auto simp: up_def up_edges_def elim: converse_rtranclE intro: converse_rtrancl_into_rtrancl)

lemma up_None: "d ! b = None \<Longrightarrow> up d b = {b}"
  by (auto simp: up_def up_edges_def elim: converse_rtranclE)

lemma up_trans: "a \<in> up d b \<Longrightarrow> up d a \<subseteq> up d b"
  by (auto simp: up_def)

lemma tree_okD:
  assumes "tree_ok n d"
  shows "length d = n" "n > 0" "d ! (n - 1) = Some (n - 1)"
    and "b < n - 1 \<Longrightarrow> d ! b = Some p \<Longrightarrow> b < p" "b < n - 1 \<Longrightarrow> d ! b = Some p \<Longrightarrow> p < n"
    and "b < n - 1 \<Longrightarrow> d ! b = Some p \<Longrightarrow> d ! p \<noteq> None"
  using assms by (auto simp: tree_ok_def)

lemma tree_induct [consumes 3, case_names root step]:
  assumes "tree_ok n d" "b < n" "d ! b \<noteq> None"
    and root: "P (n - 1)"
    and step: "\<And>b p. b < n - 1 \<Longrightarrow> d ! b = Some p \<Longrightarrow> b < p \<Longrightarrow> p < n \<Longrightarrow> d ! p \<noteq> None \<Longrightarrow> P p \<Longrightarrow> P b"
  shows "P b"
  using assms(2,3)
proof (induction "n - b" arbitrary: b rule: less_induct)
  case less
  show ?case
  proof (cases "b = n - 1")
    case False
    then have b: "b < n - 1" using less.prems by simp
    obtain p where p: "d ! b = Some p" using less.prems by auto
    note t = tree_okD(4-6) [OF assms(1) b p]
    have "P p" using t less.prems by (intro less.hyps) auto
    then show ?thesis using step [OF b p t(1,2,3)] by simp
  qed (use root in simp)
qed

lemma up_root: "tree_ok n d \<Longrightarrow> up d (n - 1) = {n - 1}"
proof -
  assume t: "tree_ok n d"
  have "a = n - 1" if "(n - 1, a) \<in> (up_edges d)\<^sup>*" for a
    using that tree_okD(3) [OF t] by (induction rule: rtrancl_induct) (auto simp: up_edges_def)
  then show ?thesis by (auto simp: up_def)
qed

lemma up_bounds:
  assumes "tree_ok n d" "b < n" "d ! b \<noteq> None" "a \<in> up d b"
  shows "b \<le> a \<and> a < n \<and> d ! a \<noteq> None \<and> n - 1 \<in> up d b"
proof -
  have "\<forall>a\<in>up d b. b \<le> a \<and> a < n \<and> d ! a \<noteq> None \<and> n - 1 \<in> up d b"
    using assms(1-3)
  proof (induction rule: tree_induct)
    case root
    then show ?case using up_root [OF assms(1)] tree_okD(2,3) [OF assms(1)] by simp
  next
    case (step b p)
    have "up d b = insert b (up d p)"
      using step tree_okD(1) [OF assms(1)] by (intro up_Some) auto
    moreover have "n - 1 \<in> up d p" using step.IH up_refl [of p d] by blast
    ultimately show ?case using step by auto
  qed
  then show ?thesis using assms(4) by blast
qed

lemma up_split:
  assumes "tree_ok n d" "b < n - 1" "d ! b = Some p"
  shows "up d b = insert b (up d p)" "b \<notin> up d p"
proof -
  show "up d b = insert b (up d p)" using assms tree_okD(1) [OF assms(1)] by (intro up_Some) auto
  show "b \<notin> up d p"
    using up_bounds [OF assms(1), of p b] tree_okD(4-6) [OF assms] by auto
qed

text \<open>\<open>intersect\<close> finds the node at which the two ways to the root meet.\<close>

lemma DominatorTree_intersect:
  assumes "tree_ok n d" "b1 < n" "b2 < n" "d ! b1 \<noteq> None" "d ! b2 \<noteq> None"
  shows "\<exists>c. DominatorTree_intersect b1 b2 d = Some c \<and> c < n \<and> d ! c \<noteq> None \<and> up d c = up d b1 \<inter> up d b2"
  using assms(2-)
proof (induction "(n - b1) + (n - b2)" arbitrary: b1 b2 rule: less_induct)
  case less
  have one: "\<exists>c. Option.bind (if x < length d then d ! x else None) (\<lambda>p. h p) = Some c \<and>
      c < n \<and> d ! c \<noteq> None \<and> up d c = up d x \<inter> up d y"
    if x: "x < y" "y < n" "d ! x \<noteq> None" "d ! y \<noteq> None"
      and h: "\<And>p. x < p \<Longrightarrow> p < n \<Longrightarrow> d ! p \<noteq> None \<Longrightarrow> \<exists>c. h p = Some c \<and> c < n \<and> d ! c \<noteq> None \<and> up d c = up d p \<inter> up d y"
    for x y :: nat and h
  proof -
    obtain p where p: "d ! x = Some p" using x(3) by auto
    have x1: "x < n - 1" using x by simp
    note t = tree_okD(4-6) [OF assms(1) x1 p]
    obtain c where c: "h p = Some c" "c < n" "d ! c \<noteq> None" "up d c = up d p \<inter> up d y"
      using h [OF t] by auto
    have "x \<notin> up d y" using up_bounds [OF assms(1) x(2,4), of x] x(1) by auto
    then have "up d c = up d x \<inter> up d y"
      using c(4) up_split(1) [OF assms(1) x1 p] by auto
    then show ?thesis using p c x1 tree_okD(1) [OF assms(1)] by simp
  qed
  consider "b1 = b2" | "b1 < b2" | "b2 < b1" by linarith
  then show ?case
  proof cases
    case 1
    then show ?thesis using less.prems by (subst DominatorTree_intersect.simps) simp
  next
    case 2
    have "\<exists>c. Option.bind (if b1 < length d then d ! b1 else None) (\<lambda>p. DominatorTree_intersect p b2 d) = Some c \<and>
        c < n \<and> d ! c \<noteq> None \<and> up d c = up d b1 \<inter> up d b2"
      by (rule one [OF 2 less.prems(2,3,4)]) (use less 2 in auto)
    then show ?thesis using 2 by (subst DominatorTree_intersect.simps) simp
  next
    case 3
    have "\<exists>c. Option.bind (if b2 < length d then d ! b2 else None) (\<lambda>p. DominatorTree_intersect b1 p d) = Some c \<and>
        c < n \<and> d ! c \<noteq> None \<and> up d c = up d b2 \<inter> up d b1"
    proof (rule one [OF 3 less.prems(1,4,3)])
      fix p assume "b2 < p" "p < n" "d ! p \<noteq> None"
      then show "\<exists>c. DominatorTree_intersect b1 p d = Some c \<and> c < n \<and> d ! c \<noteq> None \<and> up d c = up d p \<inter> up d b1"
        using less.hyps [of b1 p] less.prems by (auto simp: Int_commute)
    qed
    then show ?thesis using 3 by (subst DominatorTree_intersect.simps) (simp add: Int_commute)
  qed
qed

text \<open>The new immediate dominator of a node is where the ways of all processed predecessors meet.\<close>

definition processed_preds :: "nat list \<Rightarrow> nat option list \<Rightarrow> nat set" where
  "processed_preds preds d = {p \<in> set preds. d ! p \<noteq> None}"

lemma new_idom_loop:
  assumes "tree_ok n d" "\<forall>p\<in>set preds. p < n" "acc = None \<or> (\<exists>i. acc = Some i \<and> i < n \<and> d ! i \<noteq> None)"
  shows "\<exists>r. for_each preds (\<lambda>pred new_idom.
       if d ! pred \<noteq> None then
         (case new_idom of
            None \<Rightarrow> Some (Some pred)
          | Some i \<Rightarrow> map_option Some (DominatorTree_intersect i pred d))
       else Some new_idom) acc = Some r \<and>
     (let S = set_option acc \<union> processed_preds preds d in
      if S = {} then r = None else \<exists>c. r = Some c \<and> c < n \<and> d ! c \<noteq> None \<and> up d c = \<Inter> (up d ` S))"
  using assms(2,3)
proof (induction preds arbitrary: acc)
  case Nil
  then show ?case by (auto simp: processed_preds_def)
next
  case (Cons p preds)
  have p: "p < n" using Cons.prems by simp
  show ?case
  proof (cases "d ! p = None")
    case True
    then have "processed_preds (p # preds) d = processed_preds preds d" by (auto simp: processed_preds_def)
    then show ?thesis using Cons.IH [of acc] Cons.prems True by simp
  next
    case False
    then have s: "processed_preds (p # preds) d = insert p (processed_preds preds d)"
      by (auto simp: processed_preds_def)
    show ?thesis
    proof (cases acc)
      case None
      then show ?thesis using Cons.IH [of "Some p"] Cons.prems False s p by (simp add: Let_def)
    next
      case (Some i)
      then obtain c where c: "DominatorTree_intersect i p d = Some c" "c < n" "d ! c \<noteq> None" "up d c = up d i \<inter> up d p"
        using DominatorTree_intersect [OF assms(1), of i p] Cons.prems p False by auto
      then show ?thesis
        using Cons.IH [of "Some c"] Cons.prems Some False s by (simp add: Let_def Int_ac)
    qed
  qed
qed

lemma DominatorTree_new_idom:
  assumes "tree_ok n d" "\<forall>p\<in>set preds. p < n" "p \<in> set preds" "d ! p \<noteq> None"
  obtains c where "DominatorTree_new_idom preds d = Some (Some c)" "c < n" "d ! c \<noteq> None"
    "up d c = \<Inter> (up d ` processed_preds preds d)"
proof -
  have "processed_preds preds d \<noteq> {}" using assms(3,4) by (auto simp: processed_preds_def)
  then show ?thesis
    using new_idom_loop [OF assms(1,2), of None] that
    by (auto simp: DominatorTree_new_idom_def Let_def)
qed

subsection \<open>Setting one immediate dominator\<close>

lemma tree_ok_update:
  assumes "tree_ok n d" "i < n - 1" "i < c" "c < n" "d ! c \<noteq> None"
  shows "tree_ok n (d[i := Some c])"
  using assms by (auto simp: tree_ok_def nth_list_update)

lemma up_update_other:
  assumes "tree_ok n d" "b < n" "d ! b \<noteq> None" "i \<notin> up d b" "i < n"
  shows "up (d[i := v]) b = up d b"
  using assms(1-4)
proof (induction rule: tree_induct)
  case root
  have i: "i \<noteq> n - 1" using root by (metis up_refl)
  have "a = n - 1" if "(n - 1, a) \<in> (up_edges (d[i := v]))\<^sup>*" for a
    using that i tree_okD(3) [OF assms(1)] by (induction rule: rtrancl_induct) (auto simp: up_edges_def)
  then show ?case using up_root [OF assms(1)] by (auto simp: up_def)
next
  case (step b p)
  have s: "up d b = insert b (up d p)" using up_split [OF assms(1) step.hyps(1,2)] by simp
  then have "i \<noteq> b" "i \<notin> up d p" using step.prems up_refl by auto
  moreover from this have "up (d[i := v]) b = insert b (up (d[i := v]) p)"
    using step.hyps tree_okD(1) [OF assms(1)] by (intro up_Some) auto
  ultimately show ?case using step.IH s by simp
qed

text \<open>Below the node the way to the root stays, from the node on it is the new one.\<close>

lemma up_update:
  assumes t: "tree_ok n d" and i: "i < n - 1" "i < c" "c < n" "d ! c \<noteq> None"
    and b: "b < n" "d ! b \<noteq> None" "i \<in> up d b"
  shows "up (d[i := Some c]) b = {a \<in> up d b. a \<le> i} \<union> up d c"
proof -
  have c: "up (d[i := Some c]) c = up d c"
    using up_bounds [OF t i(3,4), of i] i by (intro up_update_other [OF t i(3,4)]) auto
  have at_i: "up (d[i := Some c]) i = insert i (up d c)"
    using up_Some [of i "d[i := Some c]" c] i tree_okD(1) [OF t] c by simp
  show ?thesis
    using t b
  proof (induction rule: tree_induct)
    case root
    then show ?case using i up_root [OF t] by simp
  next
    case (step b p)
    have s: "up d b = insert b (up d p)" "b \<notin> up d p"
      using up_split [OF t step.hyps(1,2)] by auto
    show ?case
    proof (cases "b = i")
      case True
      have "a = i" if "a \<in> up d i" "a \<le> i" for a
        using up_bounds [OF t, of i a] i that step True by auto
      then show ?thesis using at_i True up_refl [of i d] by auto
    next
      case False
      then have ip: "i \<in> up d p" using s step.prems by auto
      have "b \<le> i" using up_bounds [OF t, of b i] step i by auto
      moreover have "up (d[i := Some c]) b = insert b (up (d[i := Some c]) p)"
        using step.hyps tree_okD(1) [OF t] False by (intro up_Some) auto
      ultimately show ?thesis using step.IH [OF ip] s by auto
    qed
  qed
qed

lemma up_update_self:
  assumes "tree_ok n d" "i < n - 1" "i < c" "c < n" "d ! c \<noteq> None"
  shows "up (d[i := Some c]) i = insert i (up d c)" "up (d[i := Some c]) c = up d c"
proof -
  show c: "up (d[i := Some c]) c = up d c"
    using up_bounds [OF assms(1,4,5), of i] assms by (intro up_update_other [OF assms(1,4,5)]) auto
  show "up (d[i := Some c]) i = insert i (up d c)"
    using up_Some [of i "d[i := Some c]" c] assms tree_okD(1) [OF assms(1)] c by simp
qed

subsection \<open>The invariant of a sweep\<close>

text \<open>
  \<open>anc par v\<close>: the ancestors of a node in the tree of the depth-first search. With the nodes from
  \<open>k\<close> on visited in this sweep, the invariant says: only the initial sweep meets unprocessed nodes;
  immediate dominators are ancestors; every dominator is on the way to the root; a node on the way
  of all predecessors is on the way of the node; and the ways above \<open>par\<close> agree as far as nothing
  has changed since the last visit.
\<close>

definition anc :: "(nat \<Rightarrow> nat) \<Rightarrow> nat \<Rightarrow> nat \<Rightarrow> nat set" where
  "anc par n v = {a. (v, a) \<in> {(x, par x) | x. x < n - 1}\<^sup>*}"

definition idom_of :: "nat option list \<Rightarrow> nat \<Rightarrow> nat" where
  "idom_of d b = the (d ! b)"

definition sweep_inv :: "cfg \<Rightarrow> (nat \<Rightarrow> nat) \<Rightarrow> nat \<Rightarrow> nat option list \<Rightarrow> bool" where
  "sweep_inv g par k d \<longleftrightarrow>
     (let n = cfg_size g in
      tree_ok n d \<and>
      ((\<forall>b<n. d ! b \<noteq> None) \<or> (\<forall>b<n. d ! b \<noteq> None \<longleftrightarrow> k \<le> b \<or> b = n - 1)) \<and>
      (\<forall>b<n - 1. d ! b \<noteq> None \<longrightarrow> idom_of d b \<in> anc par n (par b)) \<and>
      (\<forall>b<n. d ! b \<noteq> None \<longrightarrow> (\<forall>e. dominates g e b \<longrightarrow> e \<in> up d b)) \<and>
      (\<forall>b<n - 1. d ! b \<noteq> None \<longrightarrow>
         \<Inter> (up d ` processed_preds (cfg_preds g b) d) \<subseteq> up d (idom_of d b)) \<and>
      (\<forall>b<n - 1. k \<le> b \<longrightarrow> up d (idom_of d b) \<subseteq> up d (par b)) \<and>
      (\<forall>b<n - 1. b < k \<longrightarrow> d ! b \<noteq> None \<longrightarrow> (\<forall>j\<in>up d (idom_of d b). j < k \<longrightarrow> j \<in> up d (par b))))"

lemma sweep_invD:
  assumes "sweep_inv g par k d"
  shows "tree_ok (cfg_size g) d"
    and "(\<forall>b<cfg_size g. d ! b \<noteq> None) \<or> (\<forall>b<cfg_size g. d ! b \<noteq> None \<longleftrightarrow> k \<le> b \<or> b = cfg_size g - 1)"
    and "\<And>b. b < cfg_size g - 1 \<Longrightarrow> d ! b \<noteq> None \<Longrightarrow> idom_of d b \<in> anc par (cfg_size g) (par b)"
    and "\<And>b e. b < cfg_size g \<Longrightarrow> d ! b \<noteq> None \<Longrightarrow> dominates g e b \<Longrightarrow> e \<in> up d b"
    and "\<And>b. b < cfg_size g - 1 \<Longrightarrow> d ! b \<noteq> None \<Longrightarrow>
           \<Inter> (up d ` processed_preds (cfg_preds g b) d) \<subseteq> up d (idom_of d b)"
    and "\<And>b. b < cfg_size g - 1 \<Longrightarrow> k \<le> b \<Longrightarrow> up d (idom_of d b) \<subseteq> up d (par b)"
    and "\<And>b j. b < cfg_size g - 1 \<Longrightarrow> b < k \<Longrightarrow> d ! b \<noteq> None \<Longrightarrow> j \<in> up d (idom_of d b) \<Longrightarrow> j < k \<Longrightarrow> j \<in> up d (par b)"
  using assms by (auto simp: sweep_inv_def Let_def)

lemma post_orderedD:
  assumes "post_ordered g par"
  shows "cfg_size g > 0" "cfg_entry_index g = cfg_size g - 1"
    and "\<And>v u. v < cfg_size g \<Longrightarrow> u \<in> set (cfg_preds g v) \<Longrightarrow> u < cfg_size g"
    and "\<And>v. v < cfg_size g - 1 \<Longrightarrow> par v \<in> set (cfg_preds g v)"
    and "\<And>v. v < cfg_size g - 1 \<Longrightarrow> v < par v"
    and "\<And>v. v < cfg_size g - 1 \<Longrightarrow> par v < cfg_size g"
proof -
  show preds: "\<And>v u. v < cfg_size g \<Longrightarrow> u \<in> set (cfg_preds g v) \<Longrightarrow> u < cfg_size g"
    and par: "\<And>v. v < cfg_size g - 1 \<Longrightarrow> par v \<in> set (cfg_preds g v)"
    using assms by (auto simp: post_ordered_def)
  show "\<And>v. v < cfg_size g - 1 \<Longrightarrow> par v < cfg_size g" by (rule preds [OF _ par]) auto
qed (use assms in \<open>auto simp: post_ordered_def\<close>)

lemma anc_step: "v < n - 1 \<Longrightarrow> anc par n v = insert v (anc par n (par v))"
  by (auto simp: anc_def elim: converse_rtranclE intro: converse_rtrancl_into_rtrancl)

lemma anc_trans: "a \<in> anc par n v \<Longrightarrow> anc par n a \<subseteq> anc par n v"
  by (auto simp: anc_def)

lemma anc_refl [simp]: "v \<in> anc par n v"
  by (simp add: anc_def)

text \<open>The way to the root of a processed node runs through its ancestors.\<close>

lemma up_anc:
  assumes "sweep_inv g par k d" "b < cfg_size g" "d ! b \<noteq> None"
  shows "up d b \<subseteq> anc par (cfg_size g) b"
  using sweep_invD(1) [OF assms(1)] assms(2,3)
proof (induction rule: tree_induct)
  case root
  then show ?case using up_root [OF sweep_invD(1) [OF assms(1)]] by simp
next
  case (step b p)
  have "p \<in> anc par (cfg_size g) (par b)"
    using sweep_invD(3) [OF assms(1) step.hyps(1)] step.hyps(2) by (simp add: idom_of_def)
  then have "up d p \<subseteq> anc par (cfg_size g) b"
    using step.IH anc_trans [of p par "cfg_size g" "par b"] anc_step [OF step.hyps(1), of par] by auto
  then show ?case using up_split [OF sweep_invD(1) [OF assms(1)] step.hyps(1,2)] by auto
qed

text \<open>What dominates a node and lies above one of its ancestors dominates the ancestor.\<close>

lemma dominates_anc:
  assumes "post_ordered g par" "i \<in> anc par (cfg_size g) b" "dominates g e b" "i < e" "b < cfg_size g"
  shows "dominates g e i"
proof (rule ccontr)
  assume "\<not> dominates g e i"
  then have i: "avoids g e i" by (simp add: dominates_def)
  have "b \<le> i \<and> avoids g e b"
    using assms(2) unfolding anc_def mem_Collect_eq
  proof (induction rule: converse_rtrancl_induct)
    case base
    then show ?case using i by simp
  next
    case (step x y)
    then have x: "x < cfg_size g - 1" "y = par x" by auto
    then have "x < y" "y \<in> set (cfg_preds g x)" using post_orderedD(4,5) [OF assms(1)] by auto
    then show ?case using step.IH x(1) assms(4) by (auto intro: avoids.step)
  qed
  then show False using assms(3) by (simp add: dominates_def)
qed

subsection \<open>A visit keeps the invariant\<close>

text \<open>The node \<open>i\<close> is visited next, and \<open>c\<close> is its new immediate dominator.\<close>

definition visiting :: "cfg \<Rightarrow> (nat \<Rightarrow> nat) \<Rightarrow> nat \<Rightarrow> nat option list \<Rightarrow> nat \<Rightarrow> bool" where
  "visiting g par i d c \<longleftrightarrow>
     sweep_inv g par (Suc i) d \<and> post_ordered g par \<and> i < cfg_size g - 1 \<and>
     c < cfg_size g \<and> d ! c \<noteq> None \<and> up d c = \<Inter> (up d ` processed_preds (cfg_preds g i) d)"

lemma visitingD:
  assumes "visiting g par i d c"
  shows "sweep_inv g par (Suc i) d" "post_ordered g par" "i < cfg_size g - 1" "i < cfg_size g"
    and "c < cfg_size g" "d ! c \<noteq> None" "up d c = \<Inter> (up d ` processed_preds (cfg_preds g i) d)"
    and "tree_ok (cfg_size g) d"
  using assms sweep_invD(1) by (auto simp: visiting_def)

lemma visit_par:
  assumes v: "visiting g par i d c"
  shows "par i < cfg_size g" "d ! par i \<noteq> None" "i < par i" "up d c \<subseteq> up d (par i)" "i < c"
proof -
  note V = visitingD [OF v]
  show par: "par i < cfg_size g" "d ! par i \<noteq> None" "i < par i"
    using post_orderedD(5,6) [OF V(2,3)] sweep_invD(2) [OF V(1)] by auto
  then show c_par: "up d c \<subseteq> up d (par i)"
    using V(7) post_orderedD(4) [OF V(2,3)] by (auto simp: processed_preds_def)
  then have "c \<in> up d (par i)" using up_refl by blast
  then show "i < c" using up_bounds [OF V(8) par(1,2), of c] par(3) by simp
qed

text \<open>How the array and the ways to the root change.\<close>

lemma visit_array:
  assumes v: "visiting g par i d c"
  shows "\<And>b. b < cfg_size g \<Longrightarrow> d[i := Some c] ! b \<noteq> None \<longleftrightarrow> b = i \<or> d ! b \<noteq> None"
    and "\<And>b. b < cfg_size g \<Longrightarrow> idom_of (d[i := Some c]) b = (if b = i then c else idom_of d b)"
    and "\<And>a b. d ! a \<noteq> None \<Longrightarrow> a \<le> i \<Longrightarrow> b < cfg_size g \<Longrightarrow> d ! b \<noteq> None"
    and "\<And>b. b < cfg_size g - 1 \<Longrightarrow> d ! b \<noteq> None \<Longrightarrow>
           idom_of d b < cfg_size g \<and> d ! idom_of d b \<noteq> None \<and> b < idom_of d b"
proof -
  note V = visitingD [OF v]
  show "\<And>b. b < cfg_size g \<Longrightarrow> d[i := Some c] ! b \<noteq> None \<longleftrightarrow> b = i \<or> d ! b \<noteq> None"
    using V(3) tree_okD(1) [OF V(8)] by (auto simp: nth_list_update)
  show "\<And>b. b < cfg_size g \<Longrightarrow> idom_of (d[i := Some c]) b = (if b = i then c else idom_of d b)"
    using tree_okD(1) [OF V(8)] by (simp add: idom_of_def)
  show "d ! b \<noteq> None" if "d ! a \<noteq> None" "a \<le> i" "b < cfg_size g" for a b
  proof -
    have "a < cfg_size g" "\<not> (Suc i \<le> a \<or> a = cfg_size g - 1)" using that V(3) by auto
    then show ?thesis using sweep_invD(2) [OF V(1)] that by blast
  qed
  show "\<And>b. b < cfg_size g - 1 \<Longrightarrow> d ! b \<noteq> None \<Longrightarrow>
      idom_of d b < cfg_size g \<and> d ! idom_of d b \<noteq> None \<and> b < idom_of d b"
    using tree_okD(4-6) [OF V(8)] by (auto simp: idom_of_def)
qed

lemma visit_up:
  assumes v: "visiting g par i d c"
  shows "\<And>b. b < cfg_size g \<Longrightarrow> d ! b \<noteq> None \<Longrightarrow> i \<in> up d b \<Longrightarrow>
           up (d[i := Some c]) b = {a \<in> up d b. a \<le> i} \<union> up d c"
    and "\<And>b. b < cfg_size g \<Longrightarrow> d ! b \<noteq> None \<Longrightarrow> i \<notin> up d b \<Longrightarrow> up (d[i := Some c]) b = up d b"
    and "\<And>b. b < cfg_size g \<Longrightarrow> d ! b \<noteq> None \<Longrightarrow> i < b \<Longrightarrow> up (d[i := Some c]) b = up d b"
    and "up (d[i := Some c]) i = insert i (up d c)" "up (d[i := Some c]) c = up d c"
proof -
  note V = visitingD [OF v] and ic = visit_par(5) [OF v]
  show "\<And>b. b < cfg_size g \<Longrightarrow> d ! b \<noteq> None \<Longrightarrow> i \<in> up d b \<Longrightarrow>
      up (d[i := Some c]) b = {a \<in> up d b. a \<le> i} \<union> up d c"
    by (rule up_update [OF V(8,3) ic V(5,6)])
  show other: "\<And>b. b < cfg_size g \<Longrightarrow> d ! b \<noteq> None \<Longrightarrow> i \<notin> up d b \<Longrightarrow> up (d[i := Some c]) b = up d b"
    using V(4) by (intro up_update_other [OF V(8)]) auto
  show "up (d[i := Some c]) b = up d b" if "b < cfg_size g" "d ! b \<noteq> None" "i < b" for b
    using up_bounds [OF V(8) that(1,2), of i] that(3) by (intro other that(1,2)) auto
  show "up (d[i := Some c]) i = insert i (up d c)" "up (d[i := Some c]) c = up d c"
    using up_update_self [OF V(8,3) ic V(5,6)] by simp_all
qed

lemma visit_shrink:
  assumes v: "visiting g par i d c"
  shows "d ! i \<noteq> None \<Longrightarrow> up d c \<subseteq> up d (idom_of d i)"
    and "\<And>b. b < cfg_size g \<Longrightarrow> d ! b \<noteq> None \<Longrightarrow> up (d[i := Some c]) b \<subseteq> up d b"
    and "d ! i \<noteq> None \<Longrightarrow> idom_of d i \<le> c"
proof -
  note V = visitingD [OF v]
  show i: "up d c \<subseteq> up d (idom_of d i)" if "d ! i \<noteq> None"
    using sweep_invD(5) [OF V(1,3) that] V(7) by simp
  show "up (d[i := Some c]) b \<subseteq> up d b" if b: "b < cfg_size g" "d ! b \<noteq> None" for b
  proof (cases "i \<in> up d b")
    case True
    then have "d ! i \<noteq> None" using up_bounds [OF V(8) b, of i] by auto
    then have "up d c \<subseteq> up d i"
      using i up_split(1) [OF V(8,3), of "idom_of d i"] by (auto simp: idom_of_def)
    then show ?thesis using visit_up(1) [OF v b True] up_trans [OF True] by auto
  qed (use visit_up(2) [OF v b] in simp)
  show "idom_of d i \<le> c" if "d ! i \<noteq> None"
    using i [OF that] up_refl [of c d] visit_array(4) [OF v V(3) that]
      up_bounds [OF V(8), of "idom_of d i" c] by blast
qed

text \<open>The parts of the invariant, one after the other: dominators stay on the way to the root.\<close>

lemma visit_dominators_self:
  assumes v: "visiting g par i d c" and dom: "dominates g e i"
  shows "e \<in> up (d[i := Some c]) i"
proof (cases "e = i")
  case False
  note V = visitingD [OF v]
  have "e \<in> up d p" if p: "p \<in> processed_preds (cfg_preds g i) d" for p
    using p dominates_pred [OF dom False V(4)] sweep_invD(4) [OF V(1)] post_orderedD(3) [OF V(2,4), of p]
    by (auto simp: processed_preds_def)
  then show ?thesis using V(7) visit_up(4) [OF v] by auto
qed simp

lemma visit_dominators:
  assumes v: "visiting g par i d c"
    and b: "b < cfg_size g" "d[i := Some c] ! b \<noteq> None" and e: "dominates g e b"
  shows "e \<in> up (d[i := Some c]) b"
proof (cases "b = i \<or> i \<notin> up d b")
  case True
  then show ?thesis
    using visit_dominators_self [OF v] e b visit_array(1) [OF v] visit_up(2) [OF v b(1)]
      sweep_invD(4) [OF visitingD(1) [OF v] b(1) _ e] by auto
next
  case False
  note V = visitingD [OF v]
  have db: "d ! b \<noteq> None" "i \<in> up d b" using b visit_array(1) [OF v] False by auto
  note up_b = visit_up(1) [OF v b(1) db]
  show ?thesis
  proof (cases "e \<le> i")
    case True
    then show ?thesis using up_b sweep_invD(4) [OF V(1) b(1) db(1) e] by simp
  next
    case False
    have "dominates g e i"
      using dominates_anc [OF V(2) _ e] up_anc [OF V(1) b(1) db(1)] db(2) False b(1) by auto
    then have "e \<in> up d c" using visit_dominators_self [OF v] visit_up(4) [OF v] False by auto
    then show ?thesis using up_b by simp
  qed
qed

text \<open>What is on the ways of all predecessors stays on the way of the node.\<close>

lemma visit_inter:
  assumes v: "visiting g par i d c" and b: "b < cfg_size g"
  shows "\<Inter> (up (d[i := Some c]) ` processed_preds (cfg_preds g b) (d[i := Some c]))
           \<subseteq> \<Inter> (up d ` processed_preds (cfg_preds g b) d)"
proof -
  have "p \<in> processed_preds (cfg_preds g b) (d[i := Some c]) \<and> up (d[i := Some c]) p \<subseteq> up d p"
    if "p \<in> processed_preds (cfg_preds g b) d" for p
    using that visit_shrink(2) [OF v, of p] visit_array(1) [OF v]
      post_orderedD(3) [OF visitingD(2) [OF v] b, of p]
    by (auto simp: processed_preds_def)
  then show ?thesis by blast
qed

lemma visit_meet:
  assumes v: "visiting g par i d c" and b: "b < cfg_size g - 1" "d[i := Some c] ! b \<noteq> None"
  shows "\<Inter> (up (d[i := Some c]) ` processed_preds (cfg_preds g b) (d[i := Some c]))
           \<subseteq> up (d[i := Some c]) (idom_of (d[i := Some c]) b)"
proof (cases "b = i")
  case True
  then show ?thesis
    using visit_inter [OF v visitingD(4) [OF v]] visitingD(4,7) [OF v] visit_array(2) [OF v] visit_up(5) [OF v]
    by auto
next
  case False
  note V = visitingD [OF v]
  have b': "b < cfg_size g" and db: "d ! b \<noteq> None" using b False visit_array(1) [OF v] by auto
  note pb = visit_array(4) [OF v b(1) db] and meet = sweep_invD(5) [OF V(1) b(1) db]
  note idom = visit_array(2) [OF v b']
  show ?thesis
  proof (cases "i \<in> up d (idom_of d b)")
    case False
    then show ?thesis
      using visit_inter [OF v b'] meet \<open>b \<noteq> i\<close> idom visit_up(2) [OF v, of "idom_of d b"] pb by auto
  next
    case True
    have bi: "b < i" using up_bounds [OF V(8), of "idom_of d b" i] pb True by auto
    have i_par: "i \<in> up d (par b)" using sweep_invD(7) [OF V(1) b(1) _ db True] bi by simp
    have par_b: "par b \<in> processed_preds (cfg_preds g b) (d[i := Some c])" "par b < cfg_size g" "d ! par b \<noteq> None"
      using post_orderedD(4,6) [OF V(2) b(1)] visit_array(3) [OF v db] bi b(1) visit_array(1) [OF v]
      by (auto simp: processed_preds_def)
    show ?thesis
    proof
      fix e assume e: "e \<in> \<Inter> (up (d[i := Some c]) ` processed_preds (cfg_preds g b) (d[i := Some c]))"
      then have "e \<in> up d (idom_of d b)" using visit_inter [OF v b'] meet by auto
      moreover have "e \<in> up (d[i := Some c]) (par b)" using e par_b by blast
      ultimately show "e \<in> up (d[i := Some c]) (idom_of (d[i := Some c]) b)"
        using visit_up(1) [OF v par_b(2,3) i_par] visit_up(1) [OF v _ _ True] pb idom \<open>b \<noteq> i\<close> by auto
    qed
  qed
qed

text \<open>The ways above a node and above the node \<open>par\<close> gives for it.\<close>

lemma visit_visited:
  assumes v: "visiting g par i d c" and b: "b < cfg_size g - 1" "i \<le> b"
  shows "up (d[i := Some c]) (idom_of (d[i := Some c]) b) \<subseteq> up (d[i := Some c]) (par b)"
proof (cases "b = i")
  case True
  then show ?thesis
    using visit_array(2) [OF v] visitingD(4) [OF v] visit_up(5) [OF v] visit_par [OF v]
      visit_up(3) [OF v visit_par(1-3) [OF v]] by auto
next
  case False
  note V = visitingD [OF v]
  have ib: "Suc i \<le> b" using b False by simp
  have db: "d ! b \<noteq> None" using sweep_invD(2) [OF V(1)] b ib by auto
  have "up (d[i := Some c]) (idom_of d b) = up d (idom_of d b)"
    using visit_array(4) [OF v b(1) db] ib by (intro visit_up(3) [OF v]) auto
  moreover have "d ! par b \<noteq> None"
    using sweep_invD(2) [OF V(1)] post_orderedD(5,6) [OF V(2) b(1)] ib by auto
  then have "up (d[i := Some c]) (par b) = up d (par b)"
    using post_orderedD(5,6) [OF V(2) b(1)] ib by (intro visit_up(3) [OF v]) auto
  ultimately show ?thesis
    using sweep_invD(6) [OF V(1) b(1) ib] visit_array(2) [OF v] b False by auto
qed

lemma visit_unvisited:
  assumes v: "visiting g par i d c" and b: "b < cfg_size g - 1" "b < i" "d[i := Some c] ! b \<noteq> None"
    and j: "j \<in> up (d[i := Some c]) (idom_of (d[i := Some c]) b)" "j < i"
  shows "j \<in> up (d[i := Some c]) (par b)"
proof -
  note V = visitingD [OF v]
  have db: "d ! b \<noteq> None" using b visit_array(1) [OF v] by simp
  have "j \<in> up d (idom_of d b)"
    using j visit_shrink(2) [OF v, of "idom_of d b"] visit_array(4) [OF v b(1) db] visit_array(2) [OF v] b by auto
  then have jp: "j \<in> up d (par b)" using sweep_invD(7) [OF V(1) b(1) _ db] b j by simp
  have par_b: "par b < cfg_size g" "d ! par b \<noteq> None"
    using post_orderedD(6) [OF V(2) b(1)] visit_array(3) [OF v db] b by auto
  show ?thesis
    using jp j visit_up(1,2) [OF v par_b] by (cases "i \<in> up d (par b)") auto
qed

lemma visit_ancestors:
  assumes v: "visiting g par i d c" and b: "b < cfg_size g - 1" "d[i := Some c] ! b \<noteq> None"
  shows "idom_of (d[i := Some c]) b \<in> anc par (cfg_size g) (par b)"
proof (cases "b = i")
  case True
  have "c \<in> anc par (cfg_size g) (par i)"
    using up_anc [OF visitingD(1) [OF v] visit_par(1,2) [OF v]] visit_par(4) [OF v] up_refl [of c d] by blast
  then show ?thesis using True visit_array(2) [OF v] visitingD(4) [OF v] by simp
next
  case False
  then show ?thesis
    using b sweep_invD(3) [OF visitingD(1) [OF v] b(1)] visit_array(1,2) [OF v] by simp
qed

lemma sweep_inv_visit:
  assumes v: "visiting g par i d c"
  shows "sweep_inv g par i (d[i := Some c])"
proof -
  note V = visitingD [OF v]
  have "tree_ok (cfg_size g) (d[i := Some c])"
    by (rule tree_ok_update [OF V(8,3) visit_par(5) [OF v] V(5,6)])
  moreover have "(\<forall>b<cfg_size g. d[i := Some c] ! b \<noteq> None) \<or>
      (\<forall>b<cfg_size g. d[i := Some c] ! b \<noteq> None \<longleftrightarrow> i \<le> b \<or> b = cfg_size g - 1)"
    using sweep_invD(2) [OF V(1)] visit_array(1) [OF v]
    by (metis Suc_le_eq le_neq_implies_less less_or_eq_imp_le)
  ultimately show ?thesis
    unfolding sweep_inv_def Let_def
    using visit_ancestors [OF v] visit_dominators [OF v] visit_meet [OF v] visit_visited [OF v]
      visit_unvisited [OF v] by blast
qed

subsection \<open>The iteration ends\<close>

text \<open>Every change moves an immediate dominator towards the root.\<close>

definition idom_distance :: "nat \<Rightarrow> nat option \<Rightarrow> nat" where
  "idom_distance n v = (case v of None \<Rightarrow> n + 1 | Some p \<Rightarrow> n - p)"

definition dom_measure :: "cfg \<Rightarrow> nat option list \<Rightarrow> nat" where
  "dom_measure g d = (\<Sum>b<cfg_size g. idom_distance (cfg_size g) (d ! b))"

lemma dom_measure_update:
  assumes v: "visiting g par i d c"
  shows "dom_measure g (d[i := Some c]) \<le> dom_measure g d"
    and "d ! i \<noteq> Some c \<Longrightarrow> dom_measure g (d[i := Some c]) < dom_measure g d"
proof -
  note V = visitingD [OF v]
  let ?n = "cfg_size g"
  have len: "length d = ?n" using tree_okD(1) [OF V(8)] .
  have split: "dom_measure g e = idom_distance ?n (e ! i) + (\<Sum>b\<in>{..<?n} - {i}. idom_distance ?n (e ! b))" for e
    unfolding dom_measure_def using V(4) by (subst sum.remove [of _ i]) auto
  have rest: "(\<Sum>b\<in>{..<?n} - {i}. idom_distance ?n (d[i := Some c] ! b)) =
      (\<Sum>b\<in>{..<?n} - {i}. idom_distance ?n (d ! b))"
    by (rule sum.cong) auto
  have new: "d[i := Some c] ! i = Some c" using V(4) len by simp
  have "idom_distance ?n (Some c) \<le> idom_distance ?n (d ! i)"
    and "d ! i \<noteq> Some c \<Longrightarrow> idom_distance ?n (Some c) < idom_distance ?n (d ! i)"
    using visit_shrink(3) [OF v] V(5) by (cases "d ! i"; force simp: idom_distance_def idom_of_def)+
  then show "dom_measure g (d[i := Some c]) \<le> dom_measure g d"
    and "d ! i \<noteq> Some c \<Longrightarrow> dom_measure g (d[i := Some c]) < dom_measure g d"
    using split [of d] split [of "d[i := Some c]"] rest new by simp_all
qed

text \<open>\<open>meets g d i\<close>: the way of \<open>i\<close> to the root is where those of its predecessors meet.\<close>

definition meets :: "cfg \<Rightarrow> nat option list \<Rightarrow> nat \<Rightarrow> bool" where
  "meets g d i \<longleftrightarrow>
     d ! i \<noteq> None \<and> up d (idom_of d i) = \<Inter> (up d ` processed_preds (cfg_preds g i) d)"

lemma DominatorTree_visit:
  assumes inv: "sweep_inv g par (Suc i) d" and g: "post_ordered g par" and i: "i < cfg_size g - 1"
  obtains d' changed' where "DominatorTree_visit g i (d, changed) = Some (d', changed')"
    "sweep_inv g par i d'" "dom_measure g d' \<le> dom_measure g d"
    "changed' \<Longrightarrow> \<not> changed \<Longrightarrow> dom_measure g d' < dom_measure g d"
    "\<not> changed' \<Longrightarrow> \<not> changed \<and> d' = d \<and> meets g d i"
proof -
  have i': "i < cfg_size g" using i by simp
  have par: "par i \<in> set (cfg_preds g i)" "d ! par i \<noteq> None"
    using post_orderedD(4-6) [OF g i] sweep_invD(2) [OF inv] by auto
  have preds: "\<forall>p\<in>set (cfg_preds g i). p < cfg_size g" using post_orderedD(3) [OF g i'] by simp
  obtain c where c: "DominatorTree_new_idom (cfg_preds g i) d = Some (Some c)" "c < cfg_size g" "d ! c \<noteq> None"
      "up d c = \<Inter> (up d ` processed_preds (cfg_preds g i) d)"
    using DominatorTree_new_idom [OF sweep_invD(1) [OF inv] preds par] .
  have v: "visiting g par i d c" using inv g i c by (simp add: visiting_def)
  have entry: "i \<noteq> cfg_entry_index g" using post_orderedD(2) [OF g] i by simp
  let ?d = "d[i := Some c]"
  have same: "d[i := Some c] = d" if "d ! i = Some c" using that list_update_id [of d i] by simp
  have "DominatorTree_visit g i (d, changed) = Some (?d, changed \<or> d ! i \<noteq> Some c)"
    using c(1) entry same by (auto simp: DominatorTree_visit_def)
  then show thesis
    using that [of ?d "changed \<or> d ! i \<noteq> Some c"] sweep_inv_visit [OF v] dom_measure_update [OF v] c(4)
      same
    by (auto simp: meets_def idom_of_def)
qed

lemma DominatorTree_visits:
  assumes "post_ordered g par" "k \<le> cfg_size g - 1" "sweep_inv g par k d"
  shows "\<exists>d' changed'. for_each (rev [0..<k]) (DominatorTree_visit g) (d, changed) = Some (d', changed') \<and>
     sweep_inv g par 0 d' \<and> dom_measure g d' \<le> dom_measure g d \<and>
     (changed' \<longrightarrow> \<not> changed \<longrightarrow> dom_measure g d' < dom_measure g d) \<and>
     (\<not> changed' \<longrightarrow> \<not> changed \<and> d' = d \<and> (\<forall>i<k. meets g d i))"
  using assms(2,3)
proof (induction k arbitrary: d changed)
  case 0
  then show ?case by simp
next
  case (Suc k)
  have k: "k < cfg_size g - 1" using Suc.prems by simp
  obtain d1 changed1 where v: "DominatorTree_visit g k (d, changed) = Some (d1, changed1)"
    "sweep_inv g par k d1" "dom_measure g d1 \<le> dom_measure g d"
    "changed1 \<Longrightarrow> \<not> changed \<Longrightarrow> dom_measure g d1 < dom_measure g d"
    "\<not> changed1 \<Longrightarrow> \<not> changed \<and> d1 = d \<and> meets g d k"
    using DominatorTree_visit [OF Suc.prems(2) assms(1) k, of changed] by metis
  obtain d2 changed2 where r: "for_each (rev [0..<k]) (DominatorTree_visit g) (d1, changed1) = Some (d2, changed2)"
    "sweep_inv g par 0 d2" "dom_measure g d2 \<le> dom_measure g d1"
    "changed2 \<longrightarrow> \<not> changed1 \<longrightarrow> dom_measure g d2 < dom_measure g d1"
    "\<not> changed2 \<longrightarrow> \<not> changed1 \<and> d2 = d1 \<and> (\<forall>i<k. meets g d1 i)"
    using Suc.IH [OF _ v(2), of changed1] k by auto
  show ?case
    using v r by (intro exI [of _ d2] exI [of _ changed2]) (auto simp: less_Suc_eq)
qed

text \<open>The next sweep starts where the last one ended.\<close>

lemma sweep_inv_restart:
  assumes "sweep_inv g par 0 d"
  shows "sweep_inv g par (cfg_size g - 1) d"
proof -
  note D = sweep_invD [OF assms]
  have "\<forall>b<cfg_size g. d ! b \<noteq> None" using D(2) by auto
  then show ?thesis
    unfolding sweep_inv_def Let_def using D(1,3-5) subsetD [OF D(6)] by auto
qed

lemma DominatorTree_sweep:
  assumes g: "post_ordered g par" and inv: "sweep_inv g par (cfg_size g - 1) d"
  obtains d' changed where "DominatorTree_sweep g d = Some (d', changed)" "sweep_inv g par (cfg_size g - 1) d'"
    "changed \<Longrightarrow> dom_measure g d' < dom_measure g d"
    "\<not> changed \<Longrightarrow> d' = d \<and> (\<forall>i<cfg_size g - 1. meets g d i) \<and> (\<forall>b<cfg_size g. d ! b \<noteq> None)"
proof -
  obtain n where n: "cfg_size g = Suc n" using post_orderedD(1) [OF g] by (cases "cfg_size g") auto
  have "DominatorTree_visit g n (d, False) = Some (d, False)"
    using post_orderedD(2) [OF g] n by (simp add: DominatorTree_visit_def)
  then have s: "DominatorTree_sweep g d = for_each (rev [0..<n]) (DominatorTree_visit g) (d, False)"
    by (simp add: DominatorTree_sweep_def n)
  obtain d' changed where r: "for_each (rev [0..<n]) (DominatorTree_visit g) (d, False) = Some (d', changed)"
    "sweep_inv g par 0 d'" "changed \<longrightarrow> dom_measure g d' < dom_measure g d"
    "\<not> changed \<longrightarrow> d' = d \<and> (\<forall>i<n. meets g d i)"
    using DominatorTree_visits [OF g _ inv, of False] n inv by auto
  show thesis
    using that [of d' changed] s r sweep_inv_restart [OF r(2)] sweep_invD(2) [OF r(2)] n by auto
qed

lemma DominatorTree_idoms_loop:
  assumes g: "post_ordered g par" and inv: "sweep_inv g par (cfg_size g - 1) d"
  shows "\<exists>d'. DominatorTree_idoms_loop g d = Some d' \<and> sweep_inv g par (cfg_size g - 1) d' \<and>
     (\<forall>i<cfg_size g - 1. meets g d' i) \<and> (\<forall>b<cfg_size g. d' ! b \<noteq> None)"
  using inv
proof (induction "dom_measure g d" arbitrary: d rule: less_induct)
  case less
  obtain d' changed where s: "DominatorTree_sweep g d = Some (d', changed)" "sweep_inv g par (cfg_size g - 1) d'"
    "changed \<Longrightarrow> dom_measure g d' < dom_measure g d"
    "\<not> changed \<Longrightarrow> d' = d \<and> (\<forall>i<cfg_size g - 1. meets g d i) \<and> (\<forall>b<cfg_size g. d ! b \<noteq> None)"
    using DominatorTree_sweep [OF g less.prems] by metis
  show ?case
  proof (cases changed)
    case True
    then show ?thesis
      using less.hyps [OF s(3) s(2)] s(1) by (subst DominatorTree_idoms_loop.simps) simp
  next
    case False
    then show ?thesis
      using s less.prems by (subst DominatorTree_idoms_loop.simps) simp
  qed
qed

subsection \<open>The way to the root is the set of dominators\<close>

lemma initial_doms:
  assumes g: "post_ordered g par"
  shows "sweep_inv g par (cfg_size g - 1)
           ((replicate (cfg_size g) None)[cfg_entry_index g := Some (cfg_entry_index g)])"
    (is "sweep_inv _ _ ?k ?d")
proof -
  have n: "cfg_size g > 0" "cfg_entry_index g = ?k" using post_orderedD [OF g] by auto
  have at: "?d ! b = (if b = ?k then Some ?k else None)" if "b < cfg_size g" for b
    using that n by (simp add: nth_list_update)
  have t: "tree_ok (cfg_size g) ?d" using n at by (auto simp: tree_ok_def)
  have "e \<in> up ?d b" if "b < cfg_size g" "?d ! b \<noteq> None" "dominates g e b" for e b
  proof -
    have "b = ?k" using at that by (auto split: if_splits)
    moreover have "e = ?k"
      using that(3) avoids.entry [of g e] n calculation by (auto simp: dominates_def)
    ultimately show ?thesis by simp
  qed
  then show ?thesis unfolding sweep_inv_def Let_def using t at by auto
qed

lemma meets_dominates:
  assumes g: "post_ordered g par" and t: "tree_ok (cfg_size g) d"
    and meets: "\<forall>i<cfg_size g - 1. meets g d i" and all: "\<forall>b<cfg_size g. d ! b \<noteq> None"
    and "avoids g a v"
  shows "v < cfg_size g \<and> a \<notin> up d v"
  using assms(5)
proof (induction rule: avoids.induct)
  case entry
  then show ?case using up_root [OF t] post_orderedD(1,2) [OF g] by simp
next
  case (step u v)
  show ?case
  proof (cases "v = cfg_size g - 1")
    case True
    then show ?thesis using up_root [OF t] step.hyps by simp
  next
    case False
    then have v: "v < cfg_size g - 1" using step.hyps by simp
    then have m: "meets g d v" using meets by simp
    have "u \<in> processed_preds (cfg_preds g v) d"
      using step.hyps all post_orderedD(3) [OF g] by (auto simp: processed_preds_def)
    then have "a \<notin> up d (idom_of d v)" using m step.IH by (auto simp: meets_def)
    then show ?thesis
      using up_split(1) [OF t v, of "idom_of d v"] m step.hyps by (auto simp: meets_def idom_of_def)
  qed
qed

text \<open>The result of the iteration: an array in which the way to the root is the set of dominators.\<close>

definition dominator_array :: "cfg \<Rightarrow> nat option list \<Rightarrow> bool" where
  "dominator_array g d \<longleftrightarrow>
     tree_ok (cfg_size g) d \<and> (\<forall>b<cfg_size g. d ! b \<noteq> None) \<and>
     (\<forall>i<cfg_size g - 1. meets g d i) \<and>
     (\<forall>b<cfg_size g. up d b = {a. dominates g a b})"

lemma DominatorTree_idoms:
  assumes g: "post_ordered g par"
  obtains d where "DominatorTree_idoms_loop g
      ((replicate (cfg_size g) None)[cfg_entry_index g := Some (cfg_entry_index g)]) = Some d"
    "dominator_array g d"
proof -
  obtain d where d: "DominatorTree_idoms_loop g
      ((replicate (cfg_size g) None)[cfg_entry_index g := Some (cfg_entry_index g)]) = Some d"
      "sweep_inv g par (cfg_size g - 1) d"
      "\<forall>i<cfg_size g - 1. meets g d i" "\<forall>b<cfg_size g. d ! b \<noteq> None"
    using DominatorTree_idoms_loop [OF g initial_doms [OF g]] by auto
  have "up d b = {a. dominates g a b}" if b: "b < cfg_size g" for b
    using sweep_invD(4) [OF d(2) b] d(4) b meets_dominates [OF g sweep_invD(1) [OF d(2)] d(3,4)]
    by (auto simp: dominates_def)
  then show thesis using that d sweep_invD(1) [OF d(2)] by (auto simp: dominator_array_def)
qed

lemma dominator_arrayD:
  assumes "dominator_array g d"
  shows "tree_ok (cfg_size g) d" "\<And>b. b < cfg_size g \<Longrightarrow> d ! b \<noteq> None"
    and "\<And>i. i < cfg_size g - 1 \<Longrightarrow> meets g d i"
    and "\<And>a b. b < cfg_size g \<Longrightarrow> a \<in> up d b \<longleftrightarrow> dominates g a b"
  using assms by (auto simp: dominator_array_def)

text \<open>The immediate dominator of a node, and what it means.\<close>

lemma idom_dominator:
  assumes d: "dominator_array g d" and b: "b < cfg_size g - 1"
  shows "d ! b = Some (idom_of d b)" "b < idom_of d b" "idom_of d b < cfg_size g"
    and "\<And>a. a \<in> up d (idom_of d b) \<longleftrightarrow> dominates g a b \<and> a \<noteq> b"
proof -
  note D = dominator_arrayD [OF d]
  show p: "d ! b = Some (idom_of d b)" using D(2) [of b] b by (auto simp: idom_of_def)
  show "b < idom_of d b" "idom_of d b < cfg_size g"
    using tree_okD(4,5) [OF D(1) b p] by simp_all
  show "\<And>a. a \<in> up d (idom_of d b) \<longleftrightarrow> dominates g a b \<and> a \<noteq> b"
    using up_split [OF D(1) b p] D(4) [OF less_le_trans [OF b]] by auto
qed

lemma idom_entry: "dominator_array g d \<Longrightarrow> idom_of d (cfg_size g - 1) = cfg_size g - 1"
  using tree_okD(3) dominator_arrayD(1) by (fastforce simp: idom_of_def)

subsection \<open>The nodes of the tree\<close>

text \<open>The nodes up to \<open>k\<close> have been entered into the tree.\<close>

definition dom_nodes :: "cfg \<Rightarrow> nat option list \<Rightarrow> nat \<Rightarrow> dom_node list" where
  "dom_nodes g d k =
     map (\<lambda>i. \<lparr>dn_parent_index = (if i < k then idom_of d i else 0),
               dn_children_indices = filter (\<lambda>j. j \<noteq> cfg_entry_index g \<and> idom_of d j = i) [0..<k],
               dn_dominance_frontiers = []\<rparr>) [0..<cfg_size g]"

lemma compute_idoms_prefix:
  assumes d: "dominator_array g d" and "k \<le> cfg_size g" and entry: "cfg_entry_index g = cfg_size g - 1"
  shows "for_each [0..<k]
         (\<lambda>i nodes. do {
            idom \<leftarrow> d ! i;
            let nodes1 = nodes[i := (nodes ! i)\<lparr>dn_parent_index := idom\<rparr>];
            Some (if i \<noteq> cfg_entry_index g
                  then nodes1[idom := (nodes1 ! idom)\<lparr>dn_children_indices := dn_children_indices (nodes1 ! idom) @ [i]\<rparr>]
                  else nodes1)
          })
         (replicate (cfg_size g) \<lparr>dn_parent_index = 0, dn_children_indices = [], dn_dominance_frontiers = []\<rparr>)
       = Some (dom_nodes g d k)"
  using assms(2)
proof (induction k)
  case 0
  show ?case by (simp add: dom_nodes_def map_replicate_const)
next
  case (Suc k)
  then have k: "k < cfg_size g" by simp
  obtain p where p: "d ! k = Some p" "idom_of d k = p"
    using dominator_arrayD(2) [OF d k] by (auto simp: idom_of_def)
  have "p < cfg_size g"
  proof (cases "k = cfg_size g - 1")
    case True
    then show ?thesis using idom_entry [OF d] p k by simp
  next
    case False
    then show ?thesis using idom_dominator(3) [OF d, of k] p k by simp
  qed
  then have "(let nodes = dom_nodes g d k; nodes1 = nodes[k := (nodes ! k)\<lparr>dn_parent_index := p\<rparr>] in
        if k \<noteq> cfg_entry_index g
        then nodes1[p := (nodes1 ! p)\<lparr>dn_children_indices := dn_children_indices (nodes1 ! p) @ [k]\<rparr>]
        else nodes1) = dom_nodes g d (Suc k)"
    using k p by (intro nth_equalityI) (auto simp: dom_nodes_def Let_def nth_list_update)
  then show ?case using Suc p by (simp add: for_each_append Let_def)
qed

lemma DominatorTree_compute_idoms:
  assumes g: "post_ordered g par"
  obtains d where "dominator_array g d" "DominatorTree_compute_idoms g = Some (dom_nodes g d (cfg_size g))"
proof -
  obtain d where d: "DominatorTree_idoms_loop g
      ((replicate (cfg_size g) None)[cfg_entry_index g := Some (cfg_entry_index g)]) = Some d"
      "dominator_array g d"
    using DominatorTree_idoms [OF g] .
  then show thesis
    using that [OF d(2)] compute_idoms_prefix [OF d(2) order_refl post_orderedD(2) [OF g]]
    by (simp add: DominatorTree_compute_idoms_def)
qed

text \<open>What a list of nodes shows of the array: the frontiers are left open.\<close>

definition dom_shape :: "cfg \<Rightarrow> nat option list \<Rightarrow> dom_node list \<Rightarrow> bool" where
  "dom_shape g d nodes \<longleftrightarrow>
     length nodes = cfg_size g \<and>
     (\<forall>i<cfg_size g. dn_parent_index (nodes ! i) = idom_of d i \<and>
        dn_children_indices (nodes ! i) = filter (\<lambda>j. j \<noteq> cfg_entry_index g \<and> idom_of d j = i) [0..<cfg_size g])"

lemma dom_shapeD:
  assumes "dom_shape g d nodes"
  shows "length nodes = cfg_size g" "\<And>i. i < cfg_size g \<Longrightarrow> dn_parent_index (nodes ! i) = idom_of d i"
    and "\<And>i j. i < cfg_size g \<Longrightarrow> j \<in> set (dn_children_indices (nodes ! i)) \<longleftrightarrow>
           j < cfg_size g \<and> j \<noteq> cfg_entry_index g \<and> idom_of d j = i"
  using assms by (auto simp: dom_shape_def)

lemma dom_shape_dom_nodes: "dom_shape g d (dom_nodes g d (cfg_size g))"
  by (simp add: dom_shape_def dom_nodes_def)

text \<open>A node is on the way of another one when it is that node or one of its children is.\<close>

lemma up_child:
  assumes d: "dominator_array g d" and b: "b < cfg_size g" and a: "a \<in> up d b" "a \<noteq> b"
  shows "\<exists>c<cfg_size g - 1. idom_of d c = a \<and> c \<in> up d b"
  using dominator_arrayD(1) [OF d] b dominator_arrayD(2) [OF d b] a
proof (induction rule: tree_induct)
  case root
  then show ?case using up_root [OF dominator_arrayD(1) [OF d]] by simp
next
  case (step b p)
  have s: "up d b = insert b (up d p)" using up_split [OF dominator_arrayD(1) [OF d] step.hyps(1,2)] by simp
  show ?case
  proof (cases "a = p")
    case True
    then show ?thesis using step.hyps by (intro exI [of _ b]) (auto simp: idom_of_def)
  next
    case False
    then show ?thesis using step.IH step.prems s by auto
  qed
qed

lemma DominatorTree_dominates:
  assumes g: "post_ordered g par" and d: "dominator_array g d" and nodes: "dom_shape g d nodes"
    and "a < cfg_size g" "b < cfg_size g" "a \<le> k"
  shows "DominatorTree_dominates nodes k a b \<longleftrightarrow> a \<in> up d b"
  using assms(4,6)
proof (induction k arbitrary: a)
  case 0
  have "a = b" if "a \<in> up d b"
    using that up_bounds [OF dominator_arrayD(1) [OF d] assms(5) dominator_arrayD(2) [OF d assms(5)], of a] 0 by simp
  then show ?case by auto
next
  case (Suc k)
  note children = dom_shapeD(3) [OF nodes Suc.prems(1)]
  have entry: "j \<noteq> cfg_entry_index g \<longleftrightarrow> j < cfg_size g - 1" if "j < cfg_size g" for j
    using post_orderedD(2) [OF g] that by auto
  have child: "DominatorTree_dominates nodes k c b \<longleftrightarrow> c \<in> up d b"
    if "c \<in> set (dn_children_indices (nodes ! a))" for c
    using that children [of c] entry [of c] idom_dominator(2) [OF d, of c] Suc.prems
    by (intro Suc.IH) auto
  have "a \<in> up d b" if "c \<in> set (dn_children_indices (nodes ! a))" "c \<in> up d b" for c
  proof -
    have "c < cfg_size g - 1" "idom_of d c = a" using that(1) children [of c] entry [of c] by auto
    then have "a \<in> up d c"
      using up_split(1) [OF dominator_arrayD(1) [OF d], of c a] idom_dominator(1) [OF d, of c] by simp
    then show ?thesis using up_trans [OF that(2)] by auto
  qed
  moreover have "\<exists>c\<in>set (dn_children_indices (nodes ! a)). c \<in> up d b" if a: "a \<in> up d b" "a \<noteq> b"
  proof -
    obtain c where c: "c < cfg_size g - 1" "idom_of d c = a" "c \<in> up d b"
      using up_child [OF d assms(5) a] by auto
    then have "c \<in> set (dn_children_indices (nodes ! a))" using children [of c] entry [of c] by simp
    then show ?thesis using c(3) by auto
  qed
  ultimately show ?case using child by (auto simp: list_ex_iff)
qed

subsection \<open>Dominance frontiers\<close>

abbreviation frontier :: "dom_node list \<Rightarrow> nat \<Rightarrow> nat set" where
  "frontier nodes r \<equiv> set (dn_dominance_frontiers (nodes ! r))"

lemma dom_shape_add_frontier:
  "dom_shape g d nodes \<Longrightarrow>
   dom_shape g d (nodes[r := (nodes ! r)\<lparr>dn_dominance_frontiers := fs\<rparr>])"
  by (cases "r < length nodes") (auto simp: dom_shape_def nth_list_update)

lemma DominatorTree_run_frontier:
  assumes d: "dominator_array g d" and "dom_shape g d nodes" "runner < cfg_size g" "idom \<in> up d runner"
  shows "\<exists>nodes'. DominatorTree_run_frontier i idom runner nodes = Some nodes' \<and> dom_shape g d nodes' \<and>
     (\<forall>r<cfg_size g. frontier nodes' r = frontier nodes r \<union> (if r \<in> up d runner - up d idom then {i} else {}))"
  using assms(2-)
proof (induction "cfg_size g - runner" arbitrary: runner nodes rule: less_induct)
  case less
  note t = dominator_arrayD(1) [OF d]
  show ?case
  proof (cases "runner = idom")
    case True
    then show ?thesis using less.prems by (subst DominatorTree_run_frontier.simps) simp
  next
    case False
    have "runner \<noteq> cfg_size g - 1" using less.prems(3) False up_root [OF t] by auto
    then have r: "runner < cfg_size g - 1" using less.prems(2) by simp
    let ?p = "idom_of d runner"
    note p = idom_dominator(1-3) [OF d r]
    have s: "up d runner = insert runner (up d ?p)" using up_split(1) [OF t r p(1)] .
    have ip: "idom \<in> up d ?p" using s less.prems(3) False by auto
    have idom_n: "idom < cfg_size g" "?p \<le> idom"
      using up_bounds [OF t p(3) dominator_arrayD(2) [OF d p(3)] ip] by auto
    have notin: "runner \<notin> up d idom"
      using up_bounds [OF t idom_n(1) dominator_arrayD(2) [OF d idom_n(1)], of runner] p(2) idom_n(2) by auto
    let ?nodes = "nodes[runner := (nodes ! runner)\<lparr>dn_dominance_frontiers := dn_dominance_frontiers (nodes ! runner) @ [i]\<rparr>]"
    have lt: "cfg_size g - ?p < cfg_size g - runner" using p(2) r by simp
    have shape: "dom_shape g d ?nodes" using less.prems(1) by (rule dom_shape_add_frontier)
    obtain nodes' where n': "DominatorTree_run_frontier i idom ?p ?nodes = Some nodes'" "dom_shape g d nodes'"
      "\<forall>r<cfg_size g. frontier nodes' r = frontier ?nodes r \<union> (if r \<in> up d ?p - up d idom then {i} else {})"
      using less.hyps [OF lt shape p(3) ip] by blast
    have "frontier nodes' r = frontier nodes r \<union> (if r \<in> up d runner - up d idom then {i} else {})"
      if "r < cfg_size g" for r
      using n'(3) that s notin less.prems(2) dom_shapeD(1) [OF less.prems(1)] by (auto simp: nth_list_update)
    then show ?thesis
      using n'(1,2) False dom_shapeD(2) [OF less.prems(1,2)]
      by (subst DominatorTree_run_frontier.simps) simp
  qed
qed

lemma run_frontiers:
  assumes d: "dominator_array g d" and "dom_shape g d nodes" "\<forall>p\<in>set ps. p < cfg_size g \<and> idom \<in> up d p"
  shows "\<exists>nodes'. for_each ps (DominatorTree_run_frontier i idom) nodes = Some nodes' \<and> dom_shape g d nodes' \<and>
     (\<forall>r<cfg_size g. frontier nodes' r =
        frontier nodes r \<union> (if \<exists>p\<in>set ps. r \<in> up d p - up d idom then {i} else {}))"
  using assms(2,3)
proof (induction ps arbitrary: nodes)
  case Nil
  then show ?case by simp
next
  case (Cons p ps)
  obtain nodes1 where n1: "DominatorTree_run_frontier i idom p nodes = Some nodes1" "dom_shape g d nodes1"
     "\<forall>r<cfg_size g. frontier nodes1 r = frontier nodes r \<union> (if r \<in> up d p - up d idom then {i} else {})"
    using DominatorTree_run_frontier [OF d Cons.prems(1), of p idom i] Cons.prems(2) by auto
  obtain nodes2 where n2: "for_each ps (DominatorTree_run_frontier i idom) nodes1 = Some nodes2" "dom_shape g d nodes2"
     "\<forall>r<cfg_size g. frontier nodes2 r =
        frontier nodes1 r \<union> (if \<exists>p\<in>set ps. r \<in> up d p - up d idom then {i} else {})"
    using Cons.IH [OF n1(2)] Cons.prems(2) by auto
  have "frontier nodes2 r =
      frontier nodes r \<union> (if \<exists>p\<in>set (p # ps). r \<in> up d p - up d idom then {i} else {})"
    if "r < cfg_size g" for r
    using n1(3) n2(3) that by auto
  then show ?case using n1(1) n2(1,2) by simp
qed

lemma idom_above_preds:
  assumes g: "post_ordered g par" and d: "dominator_array g d"
    and i: "i < cfg_size g" and p: "p \<in> set (cfg_preds g i)"
  shows "p < cfg_size g \<and> idom_of d i \<in> up d p"
proof
  show pn: "p < cfg_size g" using post_orderedD(3) [OF g i p] .
  note dp = dominator_arrayD(2) [OF d pn]
  show "idom_of d i \<in> up d p"
  proof (cases "i = cfg_size g - 1")
    case True
    then show ?thesis
      using idom_entry [OF d] up_bounds [OF dominator_arrayD(1) [OF d] pn dp up_refl] by simp
  next
    case False
    then have "meets g d i" using dominator_arrayD(3) [OF d, of i] i by simp
    moreover have "p \<in> processed_preds (cfg_preds g i) d" using p dp by (simp add: processed_preds_def)
    ultimately have "up d (idom_of d i) \<subseteq> up d p" by (auto simp: meets_def)
    then show ?thesis using up_refl by blast
  qed
qed

definition frontier_spec :: "cfg \<Rightarrow> nat option list \<Rightarrow> nat \<Rightarrow> nat \<Rightarrow> bool" where
  "frontier_spec g d i r \<longleftrightarrow>
     2 \<le> length (cfg_preds g i) \<and> (\<exists>p\<in>set (cfg_preds g i). r \<in> up d p - up d (idom_of d i))"

lemma compute_frontiers_prefix:
  assumes g: "post_ordered g par" and d: "dominator_array g d" and "dom_shape g d nodes"
    and "\<forall>r<cfg_size g. frontier nodes r = {}" and "k \<le> cfg_size g"
  shows "\<exists>nodes'. for_each [0..<k]
       (\<lambda>i nodes.
          let preds = cn_predecessors (cfg_nodes g ! i); idom = dn_parent_index (nodes ! i) in
          if length preds < 2 then Some nodes
          else for_each preds (\<lambda>pred. DominatorTree_run_frontier i idom pred) nodes) nodes = Some nodes' \<and>
     dom_shape g d nodes' \<and> (\<forall>r<cfg_size g. frontier nodes' r = {i. i < k \<and> frontier_spec g d i r})"
  using assms(5)
proof (induction k)
  case 0
  then show ?case using assms(3,4) by simp
next
  case (Suc k)
  then have k: "k < cfg_size g" by simp
  obtain nodes1 where n1: "for_each [0..<k]
       (\<lambda>i nodes.
          let preds = cn_predecessors (cfg_nodes g ! i); idom = dn_parent_index (nodes ! i) in
          if length preds < 2 then Some nodes
          else for_each preds (\<lambda>pred. DominatorTree_run_frontier i idom pred) nodes) nodes = Some nodes1"
    "dom_shape g d nodes1" "\<forall>r<cfg_size g. frontier nodes1 r = {i. i < k \<and> frontier_spec g d i r}"
    using Suc by auto
  have all: "\<forall>p\<in>set (cfg_preds g k). p < cfg_size g \<and> idom_of d k \<in> up d p"
    using idom_above_preds [OF g d k] by simp
  obtain nodes2 where n2: "for_each (cfg_preds g k) (DominatorTree_run_frontier k (idom_of d k)) nodes1 = Some nodes2"
    "dom_shape g d nodes2"
    "\<forall>r<cfg_size g. frontier nodes2 r = frontier nodes1 r \<union>
       (if \<exists>p\<in>set (cfg_preds g k). r \<in> up d p - up d (idom_of d k) then {k} else {})"
    using run_frontiers [OF d n1(2) all, of k] by auto
  have parent: "dn_parent_index (nodes1 ! k) = idom_of d k" using dom_shapeD(2) [OF n1(2) k] .
  show ?case
  proof (cases "length (cfg_preds g k) < 2")
    case True
    then show ?thesis
      using n1 by (intro exI [of _ nodes1])
        (auto simp: for_each_append Let_def less_Suc_eq frontier_spec_def)
  next
    case False
    then show ?thesis
      using n1 n2 parent by (intro exI [of _ nodes2])
        (auto simp: for_each_append Let_def less_Suc_eq frontier_spec_def)
  qed
qed

lemma DominatorTree_frontiers:
  assumes g: "post_ordered g par"
  obtains d nodes where "dominator_array g d" "DominatorTree g = Some nodes" "dom_shape g d nodes"
    "\<And>i r. r < cfg_size g \<Longrightarrow> i \<in> frontier nodes r \<longleftrightarrow> i < cfg_size g \<and> frontier_spec g d i r"
proof -
  obtain d where d: "dominator_array g d" "DominatorTree_compute_idoms g = Some (dom_nodes g d (cfg_size g))"
    using DominatorTree_compute_idoms [OF g] .
  have "\<forall>r<cfg_size g. frontier (dom_nodes g d (cfg_size g)) r = {}" by (simp add: dom_nodes_def)
  then show thesis
    using compute_frontiers_prefix [OF g d(1) dom_shape_dom_nodes _ order_refl] d that
    by (auto simp: DominatorTree_def DominatorTree_compute_dominance_frontiers_def)
qed

text \<open>Apart from the entry, this is the definition of the dominance frontier.\<close>

lemma frontier_spec_dominates:
  assumes g: "post_ordered g par" and d: "dominator_array g d" and i: "i < cfg_size g - 1"
  shows "frontier_spec g d i r \<longleftrightarrow>
     (\<exists>p\<in>set (cfg_preds g i). dominates g r p \<and> \<not> (dominates g r i \<and> r \<noteq> i))"
proof -
  have i': "i < cfg_size g" using i by simp
  have up_p: "r \<in> up d p \<longleftrightarrow> dominates g r p" if "p \<in> set (cfg_preds g i)" for p
    using dominator_arrayD(4) [OF d] post_orderedD(3) [OF g i' that] by simp
  have len: "2 \<le> length (cfg_preds g i)"
    if p: "p \<in> set (cfg_preds g i)" "r \<in> up d p - up d (idom_of d i)" for p
  proof (rule ccontr)
    assume "\<not> 2 \<le> length (cfg_preds g i)"
    then have "cfg_preds g i = [p]" using p(1) by (cases "cfg_preds g i") (auto simp: length_Suc_conv not_le less_2_cases_iff)
    then have "processed_preds (cfg_preds g i) d = {p}"
      using dominator_arrayD(2) [OF d] post_orderedD(3) [OF g i' p(1)] by (auto simp: processed_preds_def)
    then show False using dominator_arrayD(3) [OF d i] p(2) by (simp add: meets_def)
  qed
  then show ?thesis
    using up_p idom_dominator(4) [OF d i, of r] by (auto simp: frontier_spec_def)
qed

end
