(* ===== verification/Cfg_Correct.thy ===== *)
theory Cfg_Correct
  imports Dominators "HOL-Library.Sublist"
begin

section \<open>Control flow graphs represent their functions\<close>

text \<open>
  The control flow graph of a function has one node for every block that is reachable from the
  entry, the successors of a node are the targets of the branch at the end of its block, the
  predecessors are the same edges backwards, and the nodes are numbered in post-order. Together
  with the previous theory: \<open>DominatorTree::dominates\<close> decides dominance of blocks.
\<close>

subsection \<open>The flow of control of a function\<close>

definition Block_targets :: "ssa_block \<Rightarrow> block_id list option" where
  "Block_targets b =
     (if block_instrs b = [] then None
      else
        let i = last (block_instrs b) in
        case instr_opcode i of
          O_JMP \<Rightarrow> do { to \<leftarrow> SsaInstr_branch_target i 0; Some [to] }
        | O_CJMP \<Rightarrow> do { t \<leftarrow> SsaInstr_branch_target i 3; e \<leftarrow> SsaInstr_branch_target i 4; Some [t, e] }
        | O_FCJMP \<Rightarrow> do { t \<leftarrow> SsaInstr_branch_target i 3; e \<leftarrow> SsaInstr_branch_target i 4; Some [t, e] }
        | O_RET \<Rightarrow> Some []
        | _ \<Rightarrow> None)"

definition block_ids :: "ssa_function \<Rightarrow> block_id set" where
  "block_ids f = fst ` set (func_blocks f)"

text \<open>Every block ends in a branch or a return, and the targets are blocks of the function.\<close>

definition flow_ok :: "ssa_function \<Rightarrow> bool" where
  "flow_ok f \<longleftrightarrow>
     func_blocks f \<noteq> [] \<and> distinct (map fst (func_blocks f)) \<and>
     list_all (\<lambda>(id, b).
       case Block_targets b of None \<Rightarrow> False | Some ts \<Rightarrow> list_all (\<lambda>t. t \<in> block_ids f) ts) (func_blocks f)"

definition block_succs :: "ssa_function \<Rightarrow> block_id \<Rightarrow> block_id list" where
  "block_succs f block =
     (case Function_block f block of
        Some b \<Rightarrow> (case Block_targets b of Some ts \<Rightarrow> ts | None \<Rightarrow> [])
      | None \<Rightarrow> [])"

definition block_reach :: "ssa_function \<Rightarrow> block_id \<Rightarrow> block_id set" where
  "block_reach f a = {b. (a, b) \<in> {(x, y). y \<in> set (block_succs f x)}\<^sup>*}"

lemma flow_ok_block:
  assumes "flow_ok f" "block \<in> block_ids f"
  obtains b ts where "Function_block f block = Some b" "block_instrs b \<noteq> []" "Block_targets b = Some ts"
    "block_succs f block = ts" "set ts \<subseteq> block_ids f"
proof -
  obtain b where b: "(block, b) \<in> set (func_blocks f)" using assms(2) by (auto simp: block_ids_def)
  then have f: "Function_block f block = Some b"
    using assms(1) by (auto simp: Function_block_def flow_ok_def)
  obtain ts where ts: "Block_targets b = Some ts" "set ts \<subseteq> block_ids f"
    using assms(1) b by (fastforce simp: flow_ok_def list_all_iff split: option.splits)
  have "block_instrs b \<noteq> []" using ts(1) by (auto simp: Block_targets_def)
  then show thesis using that f ts by (simp add: block_succs_def)
qed

lemma block_succs_ids: "flow_ok f \<Longrightarrow> block \<in> block_ids f \<Longrightarrow> t \<in> set (block_succs f block) \<Longrightarrow> t \<in> block_ids f"
  by (elim flow_ok_block [of f block]) auto

lemma block_reach_refl [simp]: "a \<in> block_reach f a"
  by (simp add: block_reach_def)

lemma block_reach_step: "y \<in> block_reach f x \<Longrightarrow> t \<in> set (block_succs f y) \<Longrightarrow> t \<in> block_reach f x"
  unfolding block_reach_def by (auto intro: rtrancl_into_rtrancl)

lemma block_reach_trans: "y \<in> block_reach f x \<Longrightarrow> z \<in> block_reach f y \<Longrightarrow> z \<in> block_reach f x"
  unfolding block_reach_def by auto

lemma for_each_single: "for_each [x] body = body x"
proof
  fix s
  show "for_each [x] body s = body x s" by (cases "body x s") auto
qed

text \<open>The creation of a node is a loop over the targets.\<close>

lemma Cfg_create_nodes_new:
  assumes "flow_ok f" "block \<in> block_ids f" "\<not> Cfg_contains g block"
  shows "Cfg_create_nodes f (Suc n) block g =
     for_each (block_succs f block) (Cfg_create_edge (Cfg_create_nodes f n) block) (Cfg_add_node block g)"
proof -
  obtain b ts where b: "Function_block f block = Some b" "block_instrs b \<noteq> []" "Block_targets b = Some ts"
    "block_succs f block = ts"
    using flow_ok_block [OF assms(1,2)] by metis
  show ?thesis
    using b(1,2,3) assms(3) unfolding b(4)
    by (cases "instr_opcode (last (block_instrs b))")
      (auto simp: Block_targets_def Let_def Option.bind_eq_Some_conv for_each_single)
qed

lemma Cfg_create_nodes_old:
  assumes "flow_ok f" "block \<in> block_ids f" "Cfg_contains g block"
  shows "Cfg_create_nodes f (Suc n) block g = Some g"
  by (rule flow_ok_block [OF assms(1,2)]) (use assms(3) in simp)

subsection \<open>Graphs under construction\<close>

abbreviation cfg_succs :: "cfg \<Rightarrow> nat \<Rightarrow> nat list" where
  "cfg_succs g v \<equiv> cn_successors (cfg_nodes g ! v)"

abbreviation cfg_block :: "cfg \<Rightarrow> nat \<Rightarrow> block_id" where
  "cfg_block g v \<equiv> cn_block (cfg_nodes g ! v)"

definition cfg_part :: "ssa_function \<Rightarrow> cfg \<Rightarrow> bool" where
  "cfg_part f g \<longleftrightarrow>
     (\<forall>b i. cfg_blocks2nodes g b = Some i \<longleftrightarrow> i < cfg_size g \<and> cfg_block g i = b) \<and>
     (\<forall>i<cfg_size g. cfg_block g i \<in> block_ids f \<and>
        set (cfg_succs g i) \<subseteq> {..<cfg_size g} \<and> set (cfg_preds g i) \<subseteq> {..<cfg_size g}) \<and>
     (\<forall>i<cfg_size g. \<forall>j<cfg_size g. count_list (cfg_preds g j) i = count_list (cfg_succs g i) j)"

lemma cfg_partD:
  assumes "cfg_part f g"
  shows "\<And>b i. cfg_blocks2nodes g b = Some i \<longleftrightarrow> i < cfg_size g \<and> cfg_block g i = b"
    and "\<And>i. i < cfg_size g \<Longrightarrow> cfg_block g i \<in> block_ids f"
    and "\<And>i j. i < cfg_size g \<Longrightarrow> j \<in> set (cfg_succs g i) \<Longrightarrow> j < cfg_size g"
    and "\<And>i j. i < cfg_size g \<Longrightarrow> j \<in> set (cfg_preds g i) \<Longrightarrow> j < cfg_size g"
    and "\<And>i j. i < cfg_size g \<Longrightarrow> j < cfg_size g \<Longrightarrow> count_list (cfg_preds g j) i = count_list (cfg_succs g i) j"
  using assms by (auto simp: cfg_part_def)

definition node_complete :: "ssa_function \<Rightarrow> cfg \<Rightarrow> nat \<Rightarrow> bool" where
  "node_complete f g i \<longleftrightarrow> map (cfg_block g) (cfg_succs g i) = block_succs f (cfg_block g i)"

text \<open>
  \<open>cfg_ext f start K g g'\<close>: nodes have been added to \<open>g\<close>, all of them complete and reachable
  from the block \<open>start\<close>; of the old nodes only those in \<open>K\<close> have new successors.
\<close>

definition cfg_ext :: "ssa_function \<Rightarrow> block_id \<Rightarrow> nat set \<Rightarrow> cfg \<Rightarrow> cfg \<Rightarrow> bool" where
  "cfg_ext f start K g g' \<longleftrightarrow>
     cfg_size g \<le> cfg_size g' \<and>
     (\<forall>i<cfg_size g. cfg_block g' i = cfg_block g i \<and> (i \<notin> K \<longrightarrow> cfg_succs g' i = cfg_succs g i)) \<and>
     (\<forall>i. cfg_size g \<le> i \<longrightarrow> i < cfg_size g' \<longrightarrow> node_complete f g' i \<and> cfg_block g' i \<in> block_reach f start)"

lemma cfg_extD:
  assumes "cfg_ext f start K g g'"
  shows "cfg_size g \<le> cfg_size g'"
    and "\<And>i. i < cfg_size g \<Longrightarrow> cfg_block g' i = cfg_block g i"
    and "\<And>i. i < cfg_size g \<Longrightarrow> i \<notin> K \<Longrightarrow> cfg_succs g' i = cfg_succs g i"
    and "\<And>i. cfg_size g \<le> i \<Longrightarrow> i < cfg_size g' \<Longrightarrow> node_complete f g' i"
    and "\<And>i. cfg_size g \<le> i \<Longrightarrow> i < cfg_size g' \<Longrightarrow> cfg_block g' i \<in> block_reach f start"
  using assms by (auto simp: cfg_ext_def)

lemma node_complete_ext:
  assumes "cfg_part f g" "cfg_ext f start K g g'" "i < cfg_size g" "i \<notin> K" "node_complete f g i"
  shows "node_complete f g' i"
proof -
  have m: "map (cfg_block g') (cfg_succs g i) = map (cfg_block g) (cfg_succs g i)"
    using cfg_partD(3) [OF assms(1,3)] cfg_extD(2) [OF assms(2)] by simp
  show ?thesis
    unfolding node_complete_def cfg_extD(2) [OF assms(2,3)] cfg_extD(3) [OF assms(2,3,4)] m
    using assms(5) by (simp only: node_complete_def)
qed

lemma cfg_ext_refl: "cfg_ext f start K g g"
  by (simp add: cfg_ext_def)

lemma cfg_ext_trans:
  assumes p: "cfg_part f g1" and 1: "cfg_ext f s1 K g g1" and 2: "cfg_ext f s2 K g1 g2"
    and K: "K \<subseteq> {..<cfg_size g}" and s2: "s1 \<in> block_reach f s" "s2 \<in> block_reach f s"
  shows "cfg_ext f s K g g2"
proof -
  note E1 = cfg_extD [OF 1] and E2 = cfg_extD [OF 2]
  have "node_complete f g2 i \<and> cfg_block g2 i \<in> block_reach f s"
    if i: "cfg_size g \<le> i" "i < cfg_size g2" for i
  proof (cases "i < cfg_size g1")
    case True
    then have "i \<notin> K" using K i by auto
    then show ?thesis
      using node_complete_ext [OF p 2 True] E1(4,5) [OF i(1) True] E2(2) [OF True] block_reach_trans [OF s2(1)]
      by simp
  next
    case False
    then show ?thesis using E2(4,5) [of i] i block_reach_trans [OF s2(2)] by simp
  qed
  then show ?thesis using E1(1,2,3) E2(1,2,3) by (auto simp: cfg_ext_def)
qed

subsection \<open>The construction visits what is reachable\<close>

definition unseen :: "ssa_function \<Rightarrow> cfg \<Rightarrow> nat" where
  "unseen f g = card (block_ids f - cfg_block g ` {..<cfg_size g})"

lemma finite_block_ids [simp]: "finite (block_ids f)"
  by (simp add: block_ids_def)

lemma Cfg_contains_iff: "cfg_part f g \<Longrightarrow> Cfg_contains g b \<longleftrightarrow> b \<in> cfg_block g ` {..<cfg_size g}"
  using cfg_partD(1) by (fastforce simp: Cfg_contains_def)

lemma unseen_ext:
  assumes "cfg_ext f s K g g'"
  shows "unseen f g' \<le> unseen f g"
proof -
  have "cfg_block g ` {..<cfg_size g} \<subseteq> cfg_block g' ` {..<cfg_size g'}"
  proof
    fix b assume "b \<in> cfg_block g ` {..<cfg_size g}"
    then obtain i where "i < cfg_size g" "b = cfg_block g i" by auto
    then show "b \<in> cfg_block g' ` {..<cfg_size g'}"
      using cfg_extD(1,2) [OF assms] by (intro image_eqI [of _ _ i]) auto
  qed
  then show ?thesis unfolding unseen_def by (intro card_mono) auto
qed

lemma Cfg_add_node:
  assumes p: "cfg_part f g" and b: "block \<in> block_ids f" and new: "\<not> Cfg_contains g block"
  shows "cfg_part f (Cfg_add_node block g)" "cfg_size (Cfg_add_node block g) = Suc (cfg_size g)"
    and "cfg_blocks2nodes (Cfg_add_node block g) block = Some (cfg_size g)"
    and "cfg_succs (Cfg_add_node block g) (cfg_size g) = []"
    and "\<And>i. i < cfg_size g \<Longrightarrow> cfg_nodes (Cfg_add_node block g) ! i = cfg_nodes g ! i"
    and "Suc (unseen f (Cfg_add_node block g)) = unseen f g"
proof -
  note P = cfg_partD [OF p]
  have out: "cfg_block g i \<noteq> block" if "i < cfg_size g" for i
    using new that Cfg_contains_iff [OF p] by auto
  have c: "count_list (cfg_preds g j) (cfg_size g) = 0" "count_list (cfg_succs g j) (cfg_size g) = 0"
    if "j < cfg_size g" for j
    using P(3,4) [OF that] by (auto simp: count_list_0_iff)
  let ?g = "Cfg_add_node block g"
  have nodes: "cfg_nodes ?g ! i = (if i < cfg_size g then cfg_nodes g ! i
      else \<lparr>cn_block = block, cn_predecessors = [], cn_successors = []\<rparr>)" if "i < cfg_size ?g" for i
    using that by (auto simp: Cfg_add_node_def nth_append less_Suc_eq)
  have len: "cfg_size ?g = Suc (cfg_size g)" by (simp add: Cfg_add_node_def)
  have 1: "cfg_blocks2nodes ?g x = Some i \<longleftrightarrow> i < cfg_size ?g \<and> cfg_block ?g i = x" for x i
    using P(1) [of x i] out [of i] nodes [of i] len
    by (cases "i < cfg_size g") (auto simp: Cfg_add_node_def less_Suc_eq)
  have 2: "cfg_block ?g i \<in> block_ids f \<and> set (cfg_succs ?g i) \<subseteq> {..<cfg_size ?g} \<and>
      set (cfg_preds ?g i) \<subseteq> {..<cfg_size ?g}" if "i < cfg_size ?g" for i
    using P(2-4) [of i] nodes [OF that] b len by (cases "i < cfg_size g") (auto intro: less_SucI)
  have 3: "count_list (cfg_preds ?g j) i = count_list (cfg_succs ?g i) j"
    if ij: "i < cfg_size ?g" "j < cfg_size ?g" for i j
    using P(5) [of i j] nodes [OF ij(1)] nodes [OF ij(2)] c [of i] c [of j] ij len
    by (cases "i < cfg_size g"; cases "j < cfg_size g") (auto simp: less_Suc_eq)
  show "cfg_part f ?g" unfolding cfg_part_def using 1 2 3 by blast
  show "cfg_size (Cfg_add_node block g) = Suc (cfg_size g)"
    "cfg_blocks2nodes (Cfg_add_node block g) block = Some (cfg_size g)"
    "cfg_succs (Cfg_add_node block g) (cfg_size g) = []"
    "\<And>i. i < cfg_size g \<Longrightarrow> cfg_nodes (Cfg_add_node block g) ! i = cfg_nodes g ! i"
    by (simp_all add: Cfg_add_node_def nth_append)
  have "cfg_block (Cfg_add_node block g) ` {..<Suc (cfg_size g)} = insert block (cfg_block g ` {..<cfg_size g})"
  proof -
    have "cfg_block ?g ` {..<cfg_size g} = cfg_block g ` {..<cfg_size g}"
      using nodes len by (intro image_cong) auto
    then show ?thesis using nodes [of "cfg_size g"] len by (simp add: lessThan_Suc)
  qed
  moreover have "block \<notin> cfg_block g ` {..<cfg_size g}" using out by auto
  ultimately show "Suc (unseen f (Cfg_add_node block g)) = unseen f g"
    using b card_Suc_Diff1 [of "block_ids f - cfg_block g ` {..<cfg_size g}" block]
    unfolding unseen_def len by (metis Diff_iff Diff_insert finite_Diff finite_block_ids)
qed

lemma add_edge_nodes:
  assumes "k < cfg_size g" "j < cfg_size g"
    and g': "g' = g\<lparr>cfg_nodes := Cfg_add_predecessor j k (Cfg_add_successor k j (cfg_nodes g))\<rparr>"
  shows "cfg_size g' = cfg_size g" "\<And>i. cfg_block g' i = cfg_block g i"
    and "\<And>i. i < cfg_size g \<Longrightarrow> cfg_succs g' i = (if i = k then cfg_succs g i @ [j] else cfg_succs g i)"
    and "\<And>i. i < cfg_size g \<Longrightarrow> cfg_preds g' i = (if i = j then cfg_preds g i @ [k] else cfg_preds g i)"
    and "cfg_blocks2nodes g' = cfg_blocks2nodes g"
  using assms by (auto simp: Cfg_add_predecessor_def Cfg_add_successor_def nth_list_update)

lemma add_edge_part:
  assumes p: "cfg_part f g" and kj: "k < cfg_size g" "j < cfg_size g"
    and g': "g' = g\<lparr>cfg_nodes := Cfg_add_predecessor j k (Cfg_add_successor k j (cfg_nodes g))\<rparr>"
  shows "cfg_part f g'"
proof -
  note E = add_edge_nodes [OF kj g'] and P = cfg_partD [OF p]
  have "count_list (cfg_preds g' y) x = count_list (cfg_succs g' x) y" if "x < cfg_size g" "y < cfg_size g" for x y
    using E(3) [OF that(1)] E(4) [OF that(2)] P(5) [OF that] by auto
  moreover have "set (cfg_succs g' x) \<subseteq> {..<cfg_size g}" "set (cfg_preds g' x) \<subseteq> {..<cfg_size g}"
    if "x < cfg_size g" for x
    using E(3,4) [OF that] P(3,4) [OF that] kj by auto
  ultimately show ?thesis unfolding cfg_part_def E(1,2,5) using P(1,2) by blast
qed

text \<open>One edge, and the loop over the edges of the node \<open>k\<close>.\<close>

definition creates :: "ssa_function \<Rightarrow> nat \<Rightarrow> (block_id \<Rightarrow> cfg \<Rightarrow> cfg option) \<Rightarrow> bool" where
  "creates f n create \<longleftrightarrow>
     (\<forall>g t. cfg_part f g \<longrightarrow> t \<in> block_ids f \<longrightarrow> unseen f g < n \<longrightarrow>
        (\<exists>g'. create t g = Some g' \<and> cfg_part f g' \<and> cfg_ext f t {} g g' \<and> Cfg_contains g' t))"

lemma Cfg_create_edge:
  assumes c: "creates f n create" and g: "cfg_part f g" "cfg_blocks2nodes g block = Some k"
    and t: "t \<in> block_ids f" "t \<in> block_reach f block" and n: "unseen f g < n"
  shows "\<exists>g'. Cfg_create_edge create block t g = Some g' \<and> cfg_part f g' \<and>
     cfg_ext f block {k} g g' \<and> cfg_blocks2nodes g' block = Some k \<and>
     map (cfg_block g') (cfg_succs g' k) = map (cfg_block g) (cfg_succs g k) @ [t]"
proof -
  obtain g1 where g1: "create t g = Some g1" "cfg_part f g1" "cfg_ext f t {} g g1" "Cfg_contains g1 t"
    using c g(1) t(1) n by (auto simp: creates_def)
  note P = cfg_partD [OF g1(2)] and E = cfg_extD [OF g1(3)]
  have k: "k < cfg_size g" "cfg_block g k = block" using g(2) cfg_partD(1) [OF g(1)] by auto
  then have k1: "k < cfg_size g1" "cfg_block g1 k = block" using E(1,2) by auto
  have kb: "cfg_blocks2nodes g1 block = Some k" using P(1) k1 by simp
  obtain j where j: "cfg_blocks2nodes g1 t = Some j" using g1(4) by (auto simp: Cfg_contains_def)
  then have j1: "j < cfg_size g1" "cfg_block g1 j = t" using P(1) by auto
  define g2 where "g2 = g1\<lparr>cfg_nodes := Cfg_add_predecessor j k (Cfg_add_successor k j (cfg_nodes g1))\<rparr>"
  note A = add_edge_nodes [OF k1(1) j1(1) g2_def]
  have "Cfg_create_edge create block t g = Some g2"
    using g1(1) j kb by (simp add: Cfg_create_edge_def g2_def)
  moreover have "cfg_part f g2" using add_edge_part [OF g1(2) k1(1) j1(1) g2_def] .
  moreover have e2: "cfg_ext f block {k} g1 g2"
    using A(1-3) by (auto simp: cfg_ext_def)
  have e1: "cfg_ext f t {k} g g1" using g1(3) by (auto simp: cfg_ext_def)
  have "cfg_ext f block {k} g g2"
    using cfg_ext_trans [OF g1(2) e1 e2 _ t(2) block_reach_refl] k(1) by simp
  moreover have "cfg_blocks2nodes g2 block = Some k" using A(5) P(1) k1 by simp
  moreover have "map (cfg_block g2) (cfg_succs g2 k) = map (cfg_block g) (cfg_succs g k) @ [t]"
    using A(2,3) k1(1) j1(2) E(2,3) [OF k(1)] cfg_partD(3) [OF g(1) k(1)] E(2) by simp
  ultimately show ?thesis by blast
qed

lemma Cfg_create_edges:
  assumes c: "creates f n create"
    and "cfg_part f g" "cfg_blocks2nodes g block = Some k" "unseen f g < n"
    and "\<forall>t\<in>set ts. t \<in> block_ids f \<and> t \<in> block_reach f block"
  shows "\<exists>g'. for_each ts (Cfg_create_edge create block) g = Some g' \<and> cfg_part f g' \<and>
     cfg_ext f block {k} g g' \<and> cfg_blocks2nodes g' block = Some k \<and>
     map (cfg_block g') (cfg_succs g' k) = map (cfg_block g) (cfg_succs g k) @ ts"
  using assms(2-)
proof (induction ts arbitrary: g)
  case Nil
  then show ?case by (simp add: cfg_ext_refl)
next
  case (Cons t ts)
  obtain g1 where g1: "Cfg_create_edge create block t g = Some g1" "cfg_part f g1"
     "cfg_ext f block {k} g g1" "cfg_blocks2nodes g1 block = Some k"
     "map (cfg_block g1) (cfg_succs g1 k) = map (cfg_block g) (cfg_succs g k) @ [t]"
    using Cfg_create_edge [OF c Cons.prems(1,2), of t] Cons.prems by auto
  have "unseen f g1 < n" using unseen_ext [OF g1(3)] Cons.prems(3) by simp
  then obtain g2 where g2: "for_each ts (Cfg_create_edge create block) g1 = Some g2" "cfg_part f g2"
     "cfg_ext f block {k} g1 g2" "cfg_blocks2nodes g2 block = Some k"
     "map (cfg_block g2) (cfg_succs g2 k) = map (cfg_block g1) (cfg_succs g1 k) @ ts"
    using Cons.IH [OF g1(2,4)] Cons.prems(4) by auto
  have "{k} \<subseteq> {..<cfg_size g}" using cfg_partD(1) [OF Cons.prems(1)] Cons.prems(2) by auto
  then have "cfg_ext f block {k} g g2"
    using cfg_ext_trans [OF g1(2,3) g2(3)] by simp
  then show ?case using g1(1,5) g2 by auto
qed

lemma Cfg_create_nodes: 
  assumes f: "flow_ok f"
  shows "creates f n (Cfg_create_nodes f n)"
proof (induction n)
  case 0
  then show ?case by (simp add: creates_def)
next
  case (Suc n)
  have "\<exists>g'. Cfg_create_nodes f (Suc n) t g = Some g' \<and> cfg_part f g' \<and> cfg_ext f t {} g g' \<and> Cfg_contains g' t"
    if g: "cfg_part f g" and t: "t \<in> block_ids f" and u: "unseen f g < Suc n" for g t
  proof (cases "Cfg_contains g t")
    case True
    then show ?thesis using Cfg_create_nodes_old [OF f t True] g cfg_ext_refl by simp
  next
    case False
    let ?g0 = "Cfg_add_node t g" and ?k = "cfg_size g"
    note A = Cfg_add_node [OF g t False]
    have ts: "\<forall>s\<in>set (block_succs f t). s \<in> block_ids f \<and> s \<in> block_reach f t"
      using block_succs_ids [OF f t] block_reach_step [OF block_reach_refl] by auto
    have "unseen f ?g0 < n" using A(6) u by simp
    then obtain g' where g': "for_each (block_succs f t) (Cfg_create_edge (Cfg_create_nodes f n) t) ?g0 = Some g'"
       "cfg_part f g'" "cfg_ext f t {?k} ?g0 g'" "cfg_blocks2nodes g' t = Some ?k"
       "map (cfg_block g') (cfg_succs g' ?k) = block_succs f t"
      using Cfg_create_edges [OF Suc A(1,3) _ ts] A(4) by auto
    note E = cfg_extD [OF g'(3)]
    have "node_complete f g' ?k" "cfg_block g' ?k = t"
      using g'(4,5) cfg_partD(1) [OF g'(2)] by (auto simp: node_complete_def)
    moreover have "node_complete f g' i \<and> cfg_block g' i \<in> block_reach f t"
      if "cfg_size g \<le> i" "i < cfg_size g'" for i
      using that calculation E(4,5) [of i] A(2) by (cases "i = ?k") auto
    moreover have "cfg_block g' i = cfg_block g i \<and> cfg_succs g' i = cfg_succs g i" if "i < cfg_size g" for i
      using that E(2,3) [of i] A(2) A(5) [OF that] by simp
    ultimately have "cfg_ext f t {} g g'" using E(1) A(2) by (simp add: cfg_ext_def)
    then show ?thesis
      using g' Cfg_create_nodes_new [OF f t False, of n] by (simp add: Cfg_contains_def)
  qed
  then show ?case by (simp add: creates_def)
qed

lemma Cfg_created:
  assumes f: "flow_ok f" and e: "Function_entry_block f = Some entry"
  obtains g where
    "Cfg_create_nodes f (length (func_blocks f) + 1) entry
       \<lparr>cfg_nodes = [], cfg_entry_index = 0, cfg_blocks2nodes = Map.empty\<rparr> = Some g"
    "cfg_part f g" "cfg_size g > 0" "cfg_block g 0 = entry" "\<forall>i<cfg_size g. node_complete f g i"
    "cfg_block g ` {..<cfg_size g} = block_reach f entry"
proof -
  let ?g = "\<lparr>cfg_nodes = [], cfg_entry_index = 0, cfg_blocks2nodes = Map.empty\<rparr>"
  have en: "entry \<in> block_ids f"
    using e by (auto simp: Function_entry_block_def block_ids_def split: list.splits)
  have p0: "cfg_part f ?g" by (simp add: cfg_part_def)
  have "card (block_ids f) \<le> length (func_blocks f)"
    unfolding block_ids_def using card_image_le [of "set (func_blocks f)" fst] card_length [of "func_blocks f"]
    by simp
  then have u: "unseen f ?g < length (func_blocks f) + 1" by (simp add: unseen_def)
  obtain g where g: "Cfg_create_nodes f (length (func_blocks f) + 1) entry ?g = Some g" "cfg_part f g"
      "cfg_ext f entry {} ?g g" "Cfg_contains g entry"
    using Cfg_create_nodes [OF f, of "length (func_blocks f) + 1"] p0 en u unfolding creates_def by blast
  note P = cfg_partD [OF g(2)] and E = cfg_extD [OF g(3)]
  have complete: "\<forall>i<cfg_size g. node_complete f g i" using E(4) by simp
  have zero: "cfg_size g > 0" "cfg_block g 0 = entry"
  proof -
    have new: "\<not> Cfg_contains ?g entry" by (simp add: Cfg_contains_def)
    note A = Cfg_add_node [OF p0 en new]
    have ts: "\<forall>s\<in>set (block_succs f entry). s \<in> block_ids f \<and> s \<in> block_reach f entry"
      using block_succs_ids [OF f en] block_reach_step [OF block_reach_refl] by auto
    have "unseen f (Cfg_add_node entry ?g) < length (func_blocks f)" using A(6) u by simp
    then obtain g' where "for_each (block_succs f entry)
         (Cfg_create_edge (Cfg_create_nodes f (length (func_blocks f))) entry) (Cfg_add_node entry ?g) = Some g'"
       "cfg_blocks2nodes g' entry = Some 0"
      using Cfg_create_edges [OF Cfg_create_nodes [OF f] A(1,3) _ ts] by auto
    then have "cfg_blocks2nodes g entry = Some 0"
      using g(1) Cfg_create_nodes_new [OF f en new, of "length (func_blocks f)"] by simp
    then show "cfg_size g > 0" "cfg_block g 0 = entry" using P(1) by auto
  qed
  have "b \<in> cfg_block g ` {..<cfg_size g}" if "b \<in> block_reach f entry" for b
    using that unfolding block_reach_def mem_Collect_eq
  proof (induction rule: rtrancl_induct)
    case base
    then show ?case using zero by auto
  next
    case (step b c)
    then obtain i where i: "i < cfg_size g" "cfg_block g i = b" by auto
    then have "c \<in> set (map (cfg_block g) (cfg_succs g i))"
      using complete step by (auto simp: node_complete_def simp del: set_map)
    then show ?case using P(3) [OF i(1)] by auto
  qed
  then have "cfg_block g ` {..<cfg_size g} = block_reach f entry" using E(5) by auto
  then show thesis using that g(1,2) zero complete by simp
qed

subsection \<open>Depth-first search in post-order\<close>

text \<open>
  \<open>dfs_ext nodes R s s'\<close>: the search has numbered new nodes with consecutive numbers; all their
  successors have been seen; and a new node outside of \<open>R\<close> has a new predecessor with a larger
  number.
\<close>

definition dfs_ext :: "cfg_node list \<Rightarrow> nat set \<Rightarrow> (nat \<rightharpoonup> nat) \<times> nat \<Rightarrow> (nat \<rightharpoonup> nat) \<times> nat \<Rightarrow> bool" where
  "dfs_ext nodes R s s' \<longleftrightarrow>
     (let (m, c) = s; (m', c') = s'; N = dom m' - dom m in
      dom m \<subseteq> dom m' \<and> (\<forall>i\<in>dom m. m' i = m i) \<and> N \<subseteq> {..<length nodes} \<and> c \<le> c' \<and>
      bij_betw (\<lambda>i. the (m' i)) N {c..<c'} \<and>
      (\<forall>v\<in>N. v \<in> R \<or> (\<exists>u\<in>N. v \<in> set (cn_successors (nodes ! u)) \<and> the (m' v) < the (m' u))) \<and>
      (\<forall>v\<in>N. set (cn_successors (nodes ! v)) \<subseteq> dom m'))"

lemma dfs_ext_refl: "dfs_ext nodes R (m, c) (m, c)"
  by (simp add: dfs_ext_def bij_betw_def)

lemma dfs_ext_mono: "dfs_ext nodes R s s' \<Longrightarrow> R \<subseteq> R' \<Longrightarrow> dfs_ext nodes R' s s'"
  by (auto simp: dfs_ext_def Let_def)

lemma dfs_extD:
  assumes "dfs_ext nodes R (m, c) (m', c')"
  shows "dom m \<subseteq> dom m'" "\<And>i. i \<in> dom m \<Longrightarrow> m' i = m i" "dom m' - dom m \<subseteq> {..<length nodes}" "c \<le> c'"
    and "bij_betw (\<lambda>i. the (m' i)) (dom m' - dom m) {c..<c'}"
    and "\<And>v. v \<in> dom m' - dom m \<Longrightarrow>
           v \<in> R \<or> (\<exists>u\<in>dom m' - dom m. v \<in> set (cn_successors (nodes ! u)) \<and> the (m' v) < the (m' u))"
    and "\<And>v. v \<in> dom m' - dom m \<Longrightarrow> set (cn_successors (nodes ! v)) \<subseteq> dom m'"
  using assms unfolding dfs_ext_def Let_def prod.case by blast+

lemma dfs_extI:
  assumes "dom m \<subseteq> dom m'" "\<And>i. i \<in> dom m \<Longrightarrow> m' i = m i" "dom m' - dom m \<subseteq> {..<length nodes}" "c \<le> c'"
    and "bij_betw (\<lambda>i. the (m' i)) (dom m' - dom m) {c..<c'}"
    and "\<And>v. v \<in> dom m' - dom m \<Longrightarrow>
           v \<in> R \<or> (\<exists>u\<in>dom m' - dom m. v \<in> set (cn_successors (nodes ! u)) \<and> the (m' v) < the (m' u))"
    and "\<And>v. v \<in> dom m' - dom m \<Longrightarrow> set (cn_successors (nodes ! v)) \<subseteq> dom m'"
  shows "dfs_ext nodes R (m, c) (m', c')"
  unfolding dfs_ext_def Let_def prod.case by (intro conjI ballI assms)

lemma dfs_ext_trans:
  assumes 1: "dfs_ext nodes R (m, c) (m1, c1)" and 2: "dfs_ext nodes R (m1, c1) (m2, c2)"
  shows "dfs_ext nodes R (m, c) (m2, c2)"
proof -
  let ?N1 = "dom m1 - dom m" and ?N2 = "dom m2 - dom m1" and ?N = "dom m2 - dom m"
  note D1 = dfs_extD [OF 1] and D2 = dfs_extD [OF 2]
  have N: "?N = ?N1 \<union> ?N2" using D1(1) D2(1) by blast
  note m2 = D2(2)
  have same: "the (m2 i) = the (m1 i)" if "i \<in> ?N1" for i using that m2 [of i] by simp
  have "bij_betw (\<lambda>i. the (m2 i)) ?N1 {c..<c1}"
    using D1(5) bij_betw_cong [of ?N1, OF same] by simp
  then have "bij_betw (\<lambda>i. the (m2 i)) (?N1 \<union> ?N2) ({c..<c1} \<union> {c1..<c2})"
    by (rule bij_betw_combine [OF _ D2(5)]) auto
  moreover have "{c..<c1} \<union> {c1..<c2} = {c..<c2}" using D1(4) D2(4) by auto
  ultimately have b: "bij_betw (\<lambda>i. the (m2 i)) ?N {c..<c2}" using N by simp
  have par: "v \<in> R \<or> (\<exists>u\<in>?N. v \<in> set (cn_successors (nodes ! u)) \<and> the (m2 v) < the (m2 u))" if "v \<in> ?N" for v
  proof (cases "v \<in> dom m1")
    case True
    then have v: "v \<in> ?N1" using that by blast
    show ?thesis using D1(6) [OF v] same [OF v] same N by (metis UnI1)
  next
    case False
    then have "v \<in> ?N2" using that by blast
    then show ?thesis using D2(6) N by (metis UnI2)
  qed
  have closed: "set (cn_successors (nodes ! v)) \<subseteq> dom m2" if "v \<in> ?N" for v
    using that D1(7) D2(1,7) N by blast
  have old: "m2 i = m i" if "i \<in> dom m" for i
    using D1(1,2) m2 that by (metis subsetD)
  have doms: "dom m \<subseteq> dom m2" "?N \<subseteq> {..<length nodes}" "c \<le> c2"
    using D1(1,3,4) D2(1,3,4) N by (blast, blast, linarith)
  show ?thesis by (rule dfs_extI [OF doms(1) old doms(2,3) b par closed])
qed

definition dfs_visits :: "cfg_node list \<Rightarrow> nat \<Rightarrow> (nat \<Rightarrow> (nat \<rightharpoonup> nat) \<times> nat \<Rightarrow> ((nat \<rightharpoonup> nat) \<times> nat) option) \<Rightarrow> bool" where
  "dfs_visits nodes n rec \<longleftrightarrow>
     (\<forall>index m c. index < length nodes \<longrightarrow> m index = None \<longrightarrow> card ({..<length nodes} - dom m) < n \<longrightarrow>
        (\<exists>m' c'. rec index (m, c) = Some (m', c' + 1) \<and> dfs_ext nodes {index} (m, c) (m', c' + 1) \<and> m' index = Some c'))"

lemma dfs_loop:
  assumes rec: "dfs_visits nodes n rec"
    and "set ss \<subseteq> {..<length nodes}" "card ({..<length nodes} - dom m) < n"
  shows "\<exists>m' c'. for_each ss (\<lambda>s (m, c). if m s = None then rec s (m, c) else Some (m, c)) (m, c) = Some (m', c') \<and>
     dfs_ext nodes (set ss) (m, c) (m', c') \<and> set ss \<subseteq> dom m'"
  using assms(2,3)
proof (induction ss arbitrary: m c)
  case Nil
  then show ?case by (simp add: dfs_ext_refl)
next
  case (Cons s ss)
  obtain m1 c1 where 1: "(if m s = None then rec s (m, c) else Some (m, c)) = Some (m1, c1)"
      "dfs_ext nodes (set (s # ss)) (m, c) (m1, c1)" "s \<in> dom m1"
  proof (cases "m s")
    case None
    then obtain m1 c1 where "rec s (m, c) = Some (m1, c1 + 1)" "dfs_ext nodes {s} (m, c) (m1, c1 + 1)" "m1 s = Some c1"
      using rec Cons.prems unfolding dfs_visits_def by (metis insert_subset lessThan_iff list.simps(15))
    then show thesis using that [of m1 "c1 + 1"] None dfs_ext_mono [of nodes "{s}"] by auto
  next
    case (Some k)
    then show thesis using that [of m c] dfs_ext_refl by auto
  qed
  note D1 = dfs_extD [OF 1(2)]
  have "card ({..<length nodes} - dom m1) \<le> card ({..<length nodes} - dom m)"
    using D1(1) by (intro card_mono) auto
  then obtain m2 c2 where 2: "for_each ss (\<lambda>s (m, c). if m s = None then rec s (m, c) else Some (m, c)) (m1, c1) = Some (m2, c2)"
      "dfs_ext nodes (set ss) (m1, c1) (m2, c2)" "set ss \<subseteq> dom m2"
    using Cons.IH [of m1 c1] Cons.prems by auto
  have "dfs_ext nodes (set (s # ss)) (m, c) (m2, c2)"
    by (rule dfs_ext_trans [OF 1(2) dfs_ext_mono [OF 2(2)]]) auto
  moreover have "s \<in> dom m2" using 1(3) dfs_extD(1) [OF 2(2)] by auto
  ultimately show ?case using 1(1) 2(1,3) by auto
qed

text \<open>The node itself gets the next number behind those of all nodes reached from it.\<close>

lemma dfs_finish:
  assumes d: "dfs_ext nodes (set (cn_successors (nodes ! index))) (m(index \<mapsto> 0), c) (m1, c1)"
    and new: "m index = None" "index < length nodes"
    and succs: "set (cn_successors (nodes ! index)) \<subseteq> dom m1"
  shows "dfs_ext nodes {index} (m, c) (m1(index \<mapsto> c1), c1 + 1)"
proof -
  note D = dfs_extD [OF d]
  let ?N = "dom m1 - dom (m(index \<mapsto> 0))" and ?m = "m1(index \<mapsto> c1)"
  have idx: "index \<in> dom m1" "index \<notin> ?N" using D(1) by auto
  have N: "dom ?m - dom m = insert index ?N" using new idx by auto
  have "bij_betw (\<lambda>i. the (?m i)) ?N {c..<c1}"
    using D(5) bij_betw_cong [of ?N "\<lambda>i. the (?m i)" "\<lambda>i. the (m1 i)"] idx(2) by auto
  then have "bij_betw (\<lambda>i. the (?m i)) (?N \<union> {index}) ({c..<c1} \<union> {c1})"
    by (rule bij_betw_combine) (auto simp: bij_betw_def)
  moreover have "{c..<c1} \<union> {c1} = {c..<c1 + 1}" using D(4) by auto
  ultimately have b: "bij_betw (\<lambda>i. the (?m i)) (dom ?m - dom m) {c..<c1 + 1}" using N by simp
  have num: "the (m1 v) < c1" if "v \<in> ?N" for v
    using bij_betw_apply [OF D(5) that] by simp
  have par: "v \<in> {index} \<or> (\<exists>u\<in>dom ?m - dom m. v \<in> set (cn_successors (nodes ! u)) \<and> the (?m v) < the (?m u))"
    if v: "v \<in> dom ?m - dom m" for v
  proof (cases "v = index")
    case False
    then have vN: "v \<in> ?N" using v N by blast
    then consider "v \<in> set (cn_successors (nodes ! index))"
      | u where "u \<in> ?N" "v \<in> set (cn_successors (nodes ! u))" "the (m1 v) < the (m1 u)"
      using D(6) by blast
    then show ?thesis
    proof cases
      case 1
      then have "v \<in> set (cn_successors (nodes ! index)) \<and> the (?m v) < the (?m index)"
        using num [OF vN] False by simp
      then show ?thesis using N by blast
    next
      case 2
      then have "the (?m v) < the (?m u)" using False idx(2) by (cases "u = index") auto
      then show ?thesis using 2 N by blast
    qed
  qed simp
  have closed: "set (cn_successors (nodes ! v)) \<subseteq> dom ?m" if "v \<in> dom ?m - dom m" for v
  proof (cases "v = index")
    case False
    then have "v \<in> ?N" using that N by blast
    then show ?thesis using D(7) [of v] by auto
  qed (use succs in auto)
  have old: "?m i = m i" if "i \<in> dom m" for i
    using D(2) [of i] that new(1) by auto
  have doms: "dom m \<subseteq> dom ?m" "dom ?m - dom m \<subseteq> {..<length nodes}" "c \<le> c1 + 1"
    using D(1,3,4) new N by auto
  show ?thesis by (rule dfs_extI [OF doms(1) old doms(2,3) b par closed])
qed

lemma Cfg_collect_post_order:
  assumes range: "\<forall>i<length nodes. set (cn_successors (nodes ! i)) \<subseteq> {..<length nodes}"
  shows "dfs_visits nodes n (Cfg_collect_post_order nodes n)"
proof (induction n)
  case 0
  then show ?case by (simp add: dfs_visits_def)
next
  case (Suc n)
  have "\<exists>m' c'. Cfg_collect_post_order nodes (Suc n) index (m, c) = Some (m', c' + 1) \<and>
      dfs_ext nodes {index} (m, c) (m', c' + 1) \<and> m' index = Some c'"
    if i: "index < length nodes" "m index = None" "card ({..<length nodes} - dom m) < Suc n" for index m c
  proof -
    let ?m = "m(index \<mapsto> 0)"
    have split: "{..<length nodes} - dom m = insert index ({..<length nodes} - dom ?m)" using i(1,2) by auto
    have "card ({..<length nodes} - dom m) = Suc (card ({..<length nodes} - dom ?m))"
      unfolding split by (rule card_insert_disjoint) auto
    then have "card ({..<length nodes} - dom ?m) < n" using i(3) by linarith
    then obtain m1 c1 where l: "for_each (cn_successors (nodes ! index))
         (\<lambda>s (m, c). if m s = None then Cfg_collect_post_order nodes n s (m, c) else Some (m, c)) (?m, c) = Some (m1, c1)"
        "dfs_ext nodes (set (cn_successors (nodes ! index))) (?m, c) (m1, c1)"
        "set (cn_successors (nodes ! index)) \<subseteq> dom m1"
      using dfs_loop [OF Suc, of "cn_successors (nodes ! index)" ?m c] range i(1) by auto
    have "Cfg_collect_post_order nodes (Suc n) index (m, c) = Some (m1(index \<mapsto> c1), c1 + 1)"
      using l(1) i(1) by simp
    then show ?thesis
      using dfs_finish [OF l(2) i(2,1) l(3)] by (intro exI [of _ "m1(index \<mapsto> c1)"] exI [of _ c1]) simp
  qed
  then show ?case by (simp only: dfs_visits_def) blast
qed

subsection \<open>The sorted graph\<close>

text \<open>A numbering of the nodes: what the search yields on a graph whose nodes are all reachable.\<close>

definition post_numbering :: "cfg \<Rightarrow> (nat \<rightharpoonup> nat) \<Rightarrow> bool" where
  "post_numbering g m \<longleftrightarrow>
     dom m = {..<cfg_size g} \<and> bij_betw (\<lambda>i. the (m i)) {..<cfg_size g} {..<cfg_size g} \<and>
     the (m 0) = cfg_size g - 1 \<and>
     (\<forall>v<cfg_size g. v \<noteq> 0 \<longrightarrow> (\<exists>u<cfg_size g. v \<in> set (cfg_succs g u) \<and> the (m v) < the (m u)))"

lemma post_numbering:
  assumes p: "cfg_part f g" and n: "cfg_size g > 0" and complete: "\<forall>i<cfg_size g. node_complete f g i"
    and reach: "cfg_block g ` {..<cfg_size g} = block_reach f (cfg_block g 0)"
  obtains m c where "Cfg_collect_post_order (cfg_nodes g) (cfg_size g + 1) 0 (Map.empty, 0) = Some (m, c)"
    "post_numbering g m"
proof -
  note P = cfg_partD [OF p]
  have range: "\<forall>i<cfg_size g. set (cfg_succs g i) \<subseteq> {..<cfg_size g}" using P(3) by auto
  obtain m c where m: "Cfg_collect_post_order (cfg_nodes g) (cfg_size g + 1) 0 (Map.empty, 0) = Some (m, c + 1)"
      "dfs_ext (cfg_nodes g) {0} (Map.empty, 0) (m, c + 1)" "m 0 = Some c"
  proof -
    have v: "\<exists>m' c'. Cfg_collect_post_order (cfg_nodes g) (cfg_size g + 1) 0 (Map.empty, 0) = Some (m', c' + 1) \<and>
        dfs_ext (cfg_nodes g) {0} (Map.empty, 0) (m', c' + 1) \<and> m' 0 = Some c'"
      by (rule Cfg_collect_post_order [OF range, of "cfg_size g + 1", unfolded dfs_visits_def, rule_format])
        (use n in auto)
    then show thesis using that by blast
  qed
  note D = dfs_extD [OF m(2)]
  have closed: "cfg_block g i = b \<Longrightarrow> i < cfg_size g \<Longrightarrow> i \<in> dom m" if "b \<in> block_reach f (cfg_block g 0)" for b i
    using that unfolding block_reach_def mem_Collect_eq
  proof (induction arbitrary: i rule: rtrancl_induct)
    case base
    then have "i = 0" using P(1) n by (metis option.inject)
    then show ?case using m(3) by auto
  next
    case (step b c)
    have "b \<in> block_reach f (cfg_block g 0)" using step.hyps(1) by (simp add: block_reach_def)
    then have "b \<in> cfg_block g ` {..<cfg_size g}" using reach by blast
    then obtain k where k: "k < cfg_size g" "cfg_block g k = b" by auto
    then have "k \<in> dom m" using step.IH by simp
    moreover have "c \<in> cfg_block g ` set (cfg_succs g k)"
      using complete k step.hyps(2) by (auto simp: node_complete_def simp flip: set_map)
    then obtain j where j: "j \<in> set (cfg_succs g k)" "cfg_block g j = c" by auto
    ultimately have "j \<in> dom m" using D(7) [of k] by auto
    moreover have "j = i" using P(1) P(3) [OF k(1) j(1)] j(2) step.prems by (metis option.inject)
    ultimately show ?case by simp
  qed
  have "i \<in> dom m" if "i < cfg_size g" for i
    using closed [of "cfg_block g i" i] reach that by auto
  then have dm: "dom m = {..<cfg_size g}" using D(3) by auto
  have b: "bij_betw (\<lambda>i. the (m i)) {..<cfg_size g} {0..<c + 1}" using D(5) dm by simp
  then have c: "c + 1 = cfg_size g" using bij_betw_same_card by fastforce
  have "\<exists>u<cfg_size g. v \<in> set (cfg_succs g u) \<and> the (m v) < the (m u)" if "v < cfg_size g" "v \<noteq> 0" for v
    using D(6) [of v] that dm by auto
  then have "post_numbering g m"
    using dm b c m(3) by (auto simp: post_numbering_def atLeast0LessThan)
  then show thesis using that m(1) by blast
qed

definition nodes_placed ::
  "(nat \<rightharpoonup> nat) \<Rightarrow> cfg_node list \<Rightarrow> nat \<Rightarrow> (block_id \<rightharpoonup> nat) \<Rightarrow> cfg_node list \<times> (block_id \<rightharpoonup> nat) \<Rightarrow> bool" where
  "nodes_placed m nodes k b0 s \<longleftrightarrow>
     length (fst s) = length nodes \<and>
     (\<forall>i<k. fst s ! the (m i) = Cfg_renumber_node m (nodes ! i) \<and> snd s (cn_block (nodes ! i)) = Some (the (m i))) \<and>
     (\<forall>b. (\<forall>i<k. cn_block (nodes ! i) \<noteq> b) \<longrightarrow> snd s b = b0 b)"

lemma nodes_placed_step:
  assumes inj: "bij_betw (\<lambda>i. the (m i)) {..<length nodes} {..<length nodes}" and k: "k < length nodes"
    and blocks: "inj_on (\<lambda>i. cn_block (nodes ! i)) {..<length nodes}" and s: "nodes_placed m nodes k b0 s"
  shows "nodes_placed m nodes (Suc k) b0 (Cfg_place_node m nodes k s)"
proof -
  have mk: "the (m k) < length nodes" using bij_betw_apply [OF inj, of k] k by simp
  have diff: "the (m i) \<noteq> the (m k)" "cn_block (nodes ! i) \<noteq> cn_block (nodes ! k)" if "i < k" for i
    using bij_betw_imp_inj_on [OF inj] blocks that k by (auto simp: inj_on_def)
  show ?thesis
    using s mk diff diff(1) [symmetric]
    by (auto simp: nodes_placed_def Cfg_place_node_def Let_def less_Suc_eq Cfg_renumber_node_def nth_list_update)
qed

lemma Cfg_place_nodes:
  assumes inj: "bij_betw (\<lambda>i. the (m i)) {..<length nodes} {..<length nodes}"
    and blocks: "inj_on (\<lambda>i. cn_block (nodes ! i)) {..<length nodes}"
  shows "nodes_placed m nodes (length nodes) b0
     (Cfg_place_nodes m nodes (replicate (length nodes) Cfg_empty_node, b0))"
proof -
  have "nodes_placed m nodes k b0 (fold (Cfg_place_node m nodes) [0..<k] (replicate (length nodes) Cfg_empty_node, b0))"
    if "k \<le> length nodes" for k
    using that
  proof (induction k)
    case 0
    then show ?case by (simp add: nodes_placed_def)
  next
    case (Suc k)
    then show ?case using nodes_placed_step [OF inj _ blocks] by simp
  qed
  then show ?thesis by (simp add: Cfg_place_nodes_def)
qed

text \<open>What the graph of a function shows of it.\<close>

definition cfg_represents :: "ssa_function \<Rightarrow> block_id \<Rightarrow> cfg \<Rightarrow> bool" where
  "cfg_represents f entry g \<longleftrightarrow>
     (\<forall>b i. cfg_blocks2nodes g b = Some i \<longleftrightarrow> i < cfg_size g \<and> cfg_block g i = b) \<and>
     cfg_block g ` {..<cfg_size g} = block_reach f entry \<and>
     cfg_block g (cfg_entry_index g) = entry \<and>
     (\<forall>i<cfg_size g. map (cfg_block g) (cfg_succs g i) = block_succs f (cfg_block g i)) \<and>
     (\<forall>i<cfg_size g. set (cfg_succs g i) \<subseteq> {..<cfg_size g}) \<and>
     (\<forall>i<cfg_size g. \<forall>j<cfg_size g. count_list (cfg_preds g j) i = count_list (cfg_succs g i) j)"

definition post_order :: "cfg \<Rightarrow> bool" where
  "post_order g \<longleftrightarrow> (\<exists>par. post_ordered g par)"

lemma count_list_map_inj:
  "inj_on h A \<Longrightarrow> set xs \<subseteq> A \<Longrightarrow> a \<in> A \<Longrightarrow> count_list (map h xs) (h a) = count_list xs a"
  by (induction xs) (auto simp: inj_on_def)

lemma Cfg_sorted_nodes:
  assumes p: "cfg_part f g" and m: "post_numbering g m"
    and s: "nodes_placed m (cfg_nodes g) (cfg_size g) (cfg_blocks2nodes g) (srt, b2n)"
    and g': "g' = \<lparr>cfg_nodes = srt, cfg_entry_index = length srt - 1, cfg_blocks2nodes = b2n\<rparr>"
    and i: "i < cfg_size g"
  shows "cfg_size g' = cfg_size g" "the (m i) < cfg_size g" "cfg_block g' (the (m i)) = cfg_block g i"
    and "cfg_succs g' (the (m i)) = map (\<lambda>j. the (m j)) (cfg_succs g i)"
    and "cfg_preds g' (the (m i)) = map (\<lambda>j. the (m j)) (cfg_preds g i)"
    and "b2n (cfg_block g i) = Some (the (m i))"
  using assms bij_betw_apply [of "\<lambda>i. the (m i)" "{..<cfg_size g}" "{..<cfg_size g}" i]
  by (auto simp: nodes_placed_def post_numbering_def Cfg_renumber_node_def)

lemma Cfg_sorted:
  assumes p: "cfg_part f g" and n: "cfg_size g > 0" and complete: "\<forall>i<cfg_size g. node_complete f g i"
    and reach: "cfg_block g ` {..<cfg_size g} = block_reach f (cfg_block g 0)" and m: "post_numbering g m"
    and s: "nodes_placed m (cfg_nodes g) (cfg_size g) (cfg_blocks2nodes g) (srt, b2n)"
    and g': "g' = \<lparr>cfg_nodes = srt, cfg_entry_index = length srt - 1, cfg_blocks2nodes = b2n\<rparr>"
  shows "cfg_represents f (cfg_block g 0) g'" "post_order g'"
proof -
  note P = cfg_partD [OF p] and S = Cfg_sorted_nodes [OF p m s g']
  let ?n = "cfg_size g" and ?p = "\<lambda>i. the (m i)"
  have size: "cfg_size g' = ?n" using s g' by (simp add: nodes_placed_def)
  have bij: "bij_betw ?p {..<?n} {..<?n}" using m by (simp add: post_numbering_def)
  have old: "\<exists>i<?n. v = ?p i" if "v < ?n" for v
    using bij that unfolding bij_betw_def by (metis imageE lessThan_iff)
  have entry: "cfg_entry_index g' = ?p 0" using m size g' by (auto simp: post_numbering_def)
  have b2n: "cfg_blocks2nodes g' b = Some v \<longleftrightarrow> v < ?n \<and> cfg_block g' v = b" for b v
  proof (cases "\<exists>i<?n. cfg_block g i = b")
    case True
    then obtain i where i: "i < ?n" "cfg_block g i = b" by auto
    have "cfg_block g' v = b \<longleftrightarrow> v = ?p i" if v: "v < ?n"
    proof -
      obtain k where k: "k < ?n" "v = ?p k" using old [OF v] by auto
      then have "cfg_block g' v = b \<longleftrightarrow> k = i" using S(3) P(1) i by (metis option.inject)
      also have "\<dots> \<longleftrightarrow> v = ?p i" using bij_betw_imp_inj_on [OF bij] k i by (auto simp: inj_on_def)
      finally show ?thesis .
    qed
    then show ?thesis using S(2,6) [OF i(1)] i g' by auto
  next
    case False
    then have "b2n b = cfg_blocks2nodes g b" using s by (auto simp: nodes_placed_def)
    then have "cfg_blocks2nodes g' b = None" using False P(1) g' by (cases "cfg_blocks2nodes g b") auto
    moreover have "cfg_block g' v \<noteq> b" if v: "v < ?n"
    proof -
      obtain i where "i < ?n" "v = ?p i" using old [OF v] by auto
      then show ?thesis using False S(3) [of i] by simp
    qed
    ultimately show ?thesis by auto
  qed
  have blocks: "cfg_block g' ` {..<?n} = cfg_block g ` {..<?n}"
  proof -
    have "cfg_block g' ` ?p ` {..<?n} = cfg_block g ` {..<?n}" using S(3) by (force simp: image_image)
    then show ?thesis using bij by (simp add: bij_betw_def)
  qed
  have succs: "map (cfg_block g') (cfg_succs g' v) = block_succs f (cfg_block g' v) \<and> set (cfg_succs g' v) \<subseteq> {..<?n}"
    if v: "v < ?n" for v
  proof -
    obtain i where i: "i < ?n" "v = ?p i" using old [OF v] by auto
    have "map (cfg_block g') (cfg_succs g' v) = map (cfg_block g) (cfg_succs g i)"
      using S(3,4) i P(3) [OF i(1)] by simp
    moreover have "map (cfg_block g) (cfg_succs g i) = block_succs f (cfg_block g' v)"
      using complete i S(3) by (simp add: node_complete_def)
    moreover have "set (cfg_succs g' v) \<subseteq> {..<?n}" using i S(2,4) P(3) [OF i(1)] by auto
    ultimately show ?thesis by simp
  qed
  have counts: "count_list (cfg_preds g' w) v = count_list (cfg_succs g' v) w" if vw: "v < ?n" "w < ?n" for v w
  proof -
    obtain i j where ij: "i < ?n" "v = ?p i" "j < ?n" "w = ?p j" using old vw by metis
    note inj = count_list_map_inj [OF bij_betw_imp_inj_on [OF bij]]
    have "count_list (cfg_preds g' w) v = count_list (cfg_preds g j) i"
      using S(5) ij P(4) [OF ij(3)] inj [of "cfg_preds g j" i] by auto
    moreover have "count_list (cfg_succs g' v) w = count_list (cfg_succs g i) j"
      using S(4) ij P(3) [OF ij(1)] inj [of "cfg_succs g i" j] by auto
    ultimately show ?thesis using P(5) ij by simp
  qed
  show "cfg_represents f (cfg_block g 0) g'"
    unfolding cfg_represents_def size
    using b2n blocks reach succs counts entry S(3) [OF n] by simp
  have "\<exists>u\<in>set (cfg_preds g' v). v < u" if v: "v < ?n - 1" for v
  proof -
    have "v < ?n" using v by simp
    then obtain i where i: "i < ?n" "v = ?p i" using old by metis
    have "i \<noteq> 0" using m i v by (auto simp: post_numbering_def)
    then obtain u where u: "u < ?n" "i \<in> set (cfg_succs g u)" "?p i < ?p u"
      using m i by (auto simp: post_numbering_def)
    have "count_list (cfg_succs g u) i \<noteq> 0" using u(2) by (simp add: count_list_0_iff)
    then have "u \<in> set (cfg_preds g i)" using P(5) [OF u(1) i(1)] by (metis count_list_0_iff)
    then show ?thesis using S(5) [OF i(1)] u(3) i(2) by auto
  qed
  then obtain par where par: "\<forall>v<?n - 1. par v \<in> set (cfg_preds g' v) \<and> v < par v" by metis
  have "u < ?n" if v: "v < ?n" "u \<in> set (cfg_preds g' v)" for u v
  proof -
    obtain i where i: "i < ?n" "v = ?p i" using old [OF v(1)] by auto
    then show ?thesis using v(2) S(2,5) P(4) [OF i(1)] by auto
  qed
  then have "post_ordered g' par" using par n size g' by (auto simp: post_ordered_def)
  then show "post_order g'" by (auto simp: post_order_def)
qed

lemma ControlFlowGraph_represents:
  assumes f: "flow_ok f" and e: "Function_entry_block f = Some entry"
  shows "\<exists>g. ControlFlowGraph f = Some g \<and> cfg_represents f entry g \<and> post_order g"
proof -
  obtain g where g: "Cfg_create_nodes f (length (func_blocks f) + 1) entry
       \<lparr>cfg_nodes = [], cfg_entry_index = 0, cfg_blocks2nodes = Map.empty\<rparr> = Some g"
    "cfg_part f g" "cfg_size g > 0" "cfg_block g 0 = entry" "\<forall>i<cfg_size g. node_complete f g i"
    "cfg_block g ` {..<cfg_size g} = block_reach f entry"
    using Cfg_created [OF f e] .
  have reach: "cfg_block g ` {..<cfg_size g} = block_reach f (cfg_block g 0)" using g(4,6) by simp
  obtain m c where m: "Cfg_collect_post_order (cfg_nodes g) (cfg_size g + 1) 0 (Map.empty, 0) = Some (m, c)"
    "post_numbering g m"
    using post_numbering [OF g(2,3,5) reach] .
  have inj: "inj_on (cfg_block g) {..<cfg_size g}"
    using cfg_partD(1) [OF g(2)] by (intro inj_onI) (metis lessThan_iff option.inject)
  have bij: "bij_betw (\<lambda>i. the (m i)) {..<cfg_size g} {..<cfg_size g}" and dom: "dom m = {..<cfg_size g}"
    using m(2) by (auto simp: post_numbering_def)
  let ?s = "Cfg_place_nodes m (cfg_nodes g) (replicate (cfg_size g) Cfg_empty_node, cfg_blocks2nodes g)"
  obtain srt b2n where s: "?s = (srt, b2n)" by fastforce
  have placed: "nodes_placed m (cfg_nodes g) (cfg_size g) (cfg_blocks2nodes g) (srt, b2n)"
    using Cfg_place_nodes [OF bij inj] s by metis
  have "filter (\<lambda>i. m i \<noteq> None) [0..<cfg_size g] = [0..<cfg_size g]"
    using dom by (auto simp: filter_id_conv)
  then have "Cfg_sort_in_post_order (g\<lparr>cfg_entry_index := 0\<rparr>) =
      Some \<lparr>cfg_nodes = srt, cfg_entry_index = length srt - 1, cfg_blocks2nodes = b2n\<rparr>"
    using m(1) s by (simp add: Cfg_sort_in_post_order_def)
  then show ?thesis
    using Cfg_sorted [OF g(2,3,5) reach m(2) placed refl] g(1,4) e by (simp add: ControlFlowGraph_def del: Cfg_create_nodes.simps)
qed

subsection \<open>Dominance of blocks\<close>

text \<open>There is a path from the entry to a block that does not go through \<open>a\<close>.\<close>

inductive block_avoids :: "ssa_function \<Rightarrow> block_id \<Rightarrow> block_id \<Rightarrow> block_id \<Rightarrow> bool" for f entry a where
  entry: "entry \<noteq> a \<Longrightarrow> block_avoids f entry a entry"
| step: "block_avoids f entry a u \<Longrightarrow> v \<in> set (block_succs f u) \<Longrightarrow> v \<noteq> a \<Longrightarrow> block_avoids f entry a v"

definition block_dominates :: "ssa_function \<Rightarrow> block_id \<Rightarrow> block_id \<Rightarrow> block_id \<Rightarrow> bool" where
  "block_dominates f entry a b \<longleftrightarrow> \<not> block_avoids f entry a b"

lemma cfg_representsD:
  assumes "cfg_represents f entry g"
  shows "\<And>b i. cfg_blocks2nodes g b = Some i \<longleftrightarrow> i < cfg_size g \<and> cfg_block g i = b"
    and "cfg_block g ` {..<cfg_size g} = block_reach f entry"
    and "cfg_block g (cfg_entry_index g) = entry"
    and "\<And>i. i < cfg_size g \<Longrightarrow> map (cfg_block g) (cfg_succs g i) = block_succs f (cfg_block g i)"
    and "\<And>i j. i < cfg_size g \<Longrightarrow> j \<in> set (cfg_succs g i) \<Longrightarrow> j < cfg_size g"
    and "\<And>i j. i < cfg_size g \<Longrightarrow> j < cfg_size g \<Longrightarrow> count_list (cfg_preds g j) i = count_list (cfg_succs g i) j"
  using assms unfolding cfg_represents_def by blast+

lemma cfg_block_inj:
  "cfg_represents f entry g \<Longrightarrow> i < cfg_size g \<Longrightarrow> j < cfg_size g \<Longrightarrow> cfg_block g i = cfg_block g j \<Longrightarrow> i = j"
  using cfg_representsD(1) [of f entry g] by (metis option.inject)

lemma cfg_edges:
  assumes r: "cfg_represents f entry g" and "i < cfg_size g" "j < cfg_size g"
  shows "i \<in> set (cfg_preds g j) \<longleftrightarrow> j \<in> set (cfg_succs g i)"
    and "j \<in> set (cfg_succs g i) \<longleftrightarrow> cfg_block g j \<in> set (block_succs f (cfg_block g i))"
proof -
  show "i \<in> set (cfg_preds g j) \<longleftrightarrow> j \<in> set (cfg_succs g i)"
    using cfg_representsD(6) [OF r assms(2,3)] by (metis count_list_0_iff)
  have "cfg_block g j \<in> set (block_succs f (cfg_block g i)) \<longleftrightarrow> cfg_block g j \<in> cfg_block g ` set (cfg_succs g i)"
    using cfg_representsD(4) [OF r assms(2)] by (simp flip: set_map)
  then show "j \<in> set (cfg_succs g i) \<longleftrightarrow> cfg_block g j \<in> set (block_succs f (cfg_block g i))"
    using cfg_block_inj [OF r] cfg_representsD(5) [OF r assms(2)] assms(3) by blast
qed

lemma avoids_blocks:
  assumes r: "cfg_represents f entry g" and p: "post_order g" and i: "i < cfg_size g" and j: "j < cfg_size g"
  shows "avoids g i j \<longleftrightarrow> block_avoids f entry (cfg_block g i) (cfg_block g j)"
proof
  obtain par where g: "post_ordered g par" using p by (auto simp: post_order_def)
  have e: "cfg_entry_index g < cfg_size g" using post_orderedD(1,2) [OF g] by simp
  show "block_avoids f entry (cfg_block g i) (cfg_block g j)" if "avoids g i j"
    using that j
  proof (induction)
    case entry
    then show ?case using cfg_representsD(3) [OF r] cfg_block_inj [OF r e i] by (auto intro: block_avoids.entry)
  next
    case (step u v)
    have "u < cfg_size g" using post_orderedD(3) [OF g step.prems] step.hyps(2) by simp
    then show ?case
      using step cfg_edges [OF r, of u v] cfg_block_inj [OF r _ i, of v] by (auto intro: block_avoids.step)
  qed
  have "\<exists>k<cfg_size g. cfg_block g k = b \<and> avoids g i k" if "block_avoids f entry (cfg_block g i) b" for b
    using that
  proof (induction)
    case entry
    then show ?case using cfg_representsD(3) [OF r] e by (auto intro: avoids.entry)
  next
    case (step u v)
    then obtain k where k: "k < cfg_size g" "cfg_block g k = u" "avoids g i k" by auto
    have "v \<in> cfg_block g ` set (cfg_succs g k)"
      using step.hyps(2) cfg_representsD(4) [OF r k(1)] k(2) by (simp flip: set_map)
    then obtain l where l: "l \<in> set (cfg_succs g k)" "cfg_block g l = v" by auto
    then have "l < cfg_size g" using cfg_representsD(5) [OF r k(1)] by simp
    then show ?case
      using l k cfg_edges(1) [OF r k(1)] step.hyps(3) by (intro exI [of _ l]) (auto intro: avoids.step)
  qed
  then show "avoids g i j" if "block_avoids f entry (cfg_block g i) (cfg_block g j)"
    using that cfg_block_inj [OF r _ j] by metis
qed

text \<open>The graph of a well-formed function and its dominator tree, in the form the properties use.\<close>

lemma function_dominators:
  assumes f: "flow_ok f" and e: "Function_entry_block f = Some entry"
  obtains g par d nodes where "ControlFlowGraph f = Some g" "cfg_represents f entry g" "post_order g"
    "post_ordered g par" "dominator_array g d" "DominatorTree g = Some nodes" "dom_shape g d nodes"
    "\<And>i r. r < cfg_size g \<Longrightarrow> i \<in> frontier nodes r \<longleftrightarrow> i < cfg_size g \<and> frontier_spec g d i r"
proof -
  obtain g where g: "ControlFlowGraph f = Some g" "cfg_represents f entry g" "post_order g"
    using ControlFlowGraph_represents [OF f e] by auto
  then obtain par where par: "post_ordered g par" by (auto simp: post_order_def)
  show thesis using DominatorTree_frontiers [OF par] that [OF g par] by metis
qed

lemma dominates_blocks:
  "cfg_represents f entry g \<Longrightarrow> post_order g \<Longrightarrow> i < cfg_size g \<Longrightarrow> j < cfg_size g \<Longrightarrow>
     dominates g i j \<longleftrightarrow> block_dominates f entry (cfg_block g i) (cfg_block g j)"
  by (simp add: avoids_blocks dominates_def block_dominates_def)

subsection \<open>The properties\<close>

text \<open>Functions from the targets of their blocks; the example has a loop and a block that is not reachable.\<close>

definition example_branch :: "block_id list \<Rightarrow> ssa_instr" where
  "example_branch targets =
     (let target = (\<lambda>b. Operand (Branch_Target b []) (Type_primitive P_VOID));
          reg = Operand (Register 0) (Type_primitive P_I32)
      in case targets of
           [] \<Rightarrow> SsaInstr_make O_RET None []
         | [a] \<Rightarrow> SsaInstr_make O_JMP None [target a]
         | a # b # _ \<Rightarrow> SsaInstr_make O_CJMP None
             [reg, Operand (Comparison_Value C_EQ) (Type_primitive P_VOID), reg, target a, target b])"

definition example_function :: "(block_id \<times> block_id list) list \<Rightarrow> ssa_function" where
  "example_function blocks =
     \<lparr>func_name = ''f'',
      func_type = \<lparr>ftype_params = [], ftype_return_type = Type_primitive P_VOID, ftype_variadic = False,
                   ftype_first_variadic_index = 0\<rparr>,
      func_global = False, func_never_inline = False,
      func_blocks = map (\<lambda>(b, targets). (b, (BasicBlock_make [])\<lparr>block_instrs := [example_branch targets]\<rparr>)) blocks,
      func_last_virtual_reg = 1\<rparr>"

definition loop_function :: ssa_function where
  "loop_function = example_function [(0, [1]), (1, [2, 4]), (2, [3, 4]), (3, [1]), (4, []), (5, [1])]"

declare DominatorTree_idoms_loop.simps [code] DominatorTree_intersect.simps [code] DominatorTree_run_frontier.simps [code]

lemma loop_function: "flow_ok loop_function" "Function_entry_block loop_function = Some 0"
  by code_simp+

text \<open>
  C21: The control flow graph of a function whose blocks all end in a branch to its blocks or in a
  return: construction succeeds, the graph has one node for every block that is reachable from
  the entry and finds the node of a block, the successors of a node are the targets of the branch
  in their order, an edge is a predecessor as often as it is a successor, and the nodes are
  numbered in post-order: the entry is the last one and every other node has a predecessor with a
  greater number.
\<close>
theorem ControlFlowGraph_correct:
  assumes "flow_ok f" and "Function_entry_block f = Some entry"
  shows "\<exists>g. ControlFlowGraph f = Some g \<and> cfg_represents f entry g \<and> post_order g"
  using ControlFlowGraph_represents [OF assms] .

theorem ControlFlowGraph_correct_witness:
  "flow_ok loop_function \<and>
   (\<exists>g. ControlFlowGraph loop_function = Some g \<and> cfg_represents loop_function 0 g \<and> post_order g) \<and>
   map_option (\<lambda>g. (map cn_block (cfg_nodes g), map cn_successors (cfg_nodes g))) (ControlFlowGraph loop_function) =
     Some ([3, 4, 2, 1, 0], [[3], [], [0, 1], [2, 1], [3]])"
  by (intro conjI loop_function(1) ControlFlowGraph_correct [OF loop_function]) code_simp

text \<open>
  C22: \<open>DominatorTree::dominates\<close> decides dominance: the iteration of \<open>compute_idoms\<close> stops, and
  for reachable blocks the search of the subtree answers whether every path of branches from the
  entry to the second block goes through the first one. The number of nodes is enough fuel.
\<close>
theorem DominatorTree_correct:
  assumes "flow_ok f" and "Function_entry_block f = Some entry"
  shows "\<exists>g nodes. ControlFlowGraph f = Some g \<and> DominatorTree g = Some nodes \<and>
     (\<forall>i<length (cfg_nodes g). \<forall>j<length (cfg_nodes g).
        DominatorTree_dominates nodes (length nodes) i j \<longleftrightarrow>
        block_dominates f entry (cn_block (cfg_nodes g ! i)) (cn_block (cfg_nodes g ! j)))"
proof -
  obtain g par d nodes where g: "ControlFlowGraph f = Some g" "cfg_represents f entry g" "post_order g"
    "post_ordered g par" "dominator_array g d" "DominatorTree g = Some nodes" "dom_shape g d nodes"
    using function_dominators [OF assms] by metis
  have "DominatorTree_dominates nodes (length nodes) i j \<longleftrightarrow> block_dominates f entry (cfg_block g i) (cfg_block g j)"
    if "i < cfg_size g" "j < cfg_size g" for i j
    using that DominatorTree_dominates [OF g(4,5,7) that] dom_shapeD(1) [OF g(7)] dominator_arrayD(4) [OF g(5) that(2)]
      dominates_blocks [OF g(2,3) that] by simp
  then show ?thesis using g(1,6) by blast
qed

theorem DominatorTree_correct_witness:
  "(\<exists>g nodes. ControlFlowGraph loop_function = Some g \<and> DominatorTree g = Some nodes \<and>
     (\<forall>i<length (cfg_nodes g). \<forall>j<length (cfg_nodes g).
        DominatorTree_dominates nodes (length nodes) i j \<longleftrightarrow>
        block_dominates loop_function 0 (cn_block (cfg_nodes g ! i)) (cn_block (cfg_nodes g ! j)))) \<and>
   map_option (map dn_parent_index) (Option.bind (ControlFlowGraph loop_function) DominatorTree) = Some [2, 3, 3, 4, 4]"
  by (intro conjI loop_function(1) DominatorTree_correct [OF loop_function]) code_simp

text \<open>
  The parent of a node in the tree is its immediate dominator: it dominates the block of the
  node, it is another block unless the node is the entry, and every other dominator of the block
  dominates the parent.
\<close>
theorem DominatorTree_parent:
  assumes "flow_ok f" and "Function_entry_block f = Some entry"
  shows "\<exists>g nodes. ControlFlowGraph f = Some g \<and> DominatorTree g = Some nodes \<and>
     (\<forall>b<length (cfg_nodes g). let p = dn_parent_index (nodes ! b) in
        p < length (cfg_nodes g) \<and> (p = b \<longleftrightarrow> cn_block (cfg_nodes g ! b) = entry) \<and>
        block_dominates f entry (cn_block (cfg_nodes g ! p)) (cn_block (cfg_nodes g ! b)) \<and>
        (\<forall>a<length (cfg_nodes g). a = b \<or>
           block_dominates f entry (cn_block (cfg_nodes g ! a)) (cn_block (cfg_nodes g ! p)) =
           block_dominates f entry (cn_block (cfg_nodes g ! a)) (cn_block (cfg_nodes g ! b))))"
proof -
  obtain g par d nodes where g: "ControlFlowGraph f = Some g" "cfg_represents f entry g" "post_order g"
    "post_ordered g par" "dominator_array g d" "DominatorTree g = Some nodes" "dom_shape g d nodes"
    using function_dominators [OF assms] by metis
  note D = dominator_arrayD(4) [OF g(5)] and B = dominates_blocks [OF g(2,3)] and I = idom_dominator [OF g(5)]
  have root: "cfg_size g - 1 < cfg_size g" "cfg_block g (cfg_size g - 1) = entry"
    using post_orderedD(1,2) [OF g(4)] cfg_representsD(3) [OF g(2)] by auto
  have parent: "p < cfg_size g \<and> (p = b \<longleftrightarrow> cfg_block g b = entry) \<and> dominates g p b \<and>
      (\<forall>a<cfg_size g. a = b \<or> dominates g a p = dominates g a b)"
    if b: "b < cfg_size g" and p: "p = idom_of d b" for b p
  proof (cases "b = cfg_size g - 1")
    case True
    then show ?thesis using p idom_entry [OF g(5)] root b D [OF b, of b] by (metis up_refl)
  next
    case False
    then have b': "b < cfg_size g - 1" using b by simp
    then show ?thesis
      using I [OF b'] p D [of p] up_refl [of p d] cfg_block_inj [OF g(2) b root(1)] root(2)
      by (metis less_irrefl)
  qed
  have "let p = dn_parent_index (nodes ! b) in
        p < cfg_size g \<and> (p = b \<longleftrightarrow> cfg_block g b = entry) \<and>
        block_dominates f entry (cfg_block g p) (cfg_block g b) \<and>
        (\<forall>a<cfg_size g. a = b \<or>
           block_dominates f entry (cfg_block g a) (cfg_block g p) =
           block_dominates f entry (cfg_block g a) (cfg_block g b))" if b: "b < cfg_size g" for b
  proof -
    define p where "p = idom_of d b"
    note q = parent [OF b p_def]
    then have "p < cfg_size g" by simp
    then show ?thesis using q unfolding Let_def dom_shapeD(2) [OF g(7) b] p_def [symmetric] by (simp flip: B add: b)
  qed
  then show ?thesis using g(1,6) by blast
qed

theorem DominatorTree_parent_witness:
  "\<exists>g nodes. ControlFlowGraph loop_function = Some g \<and> DominatorTree g = Some nodes \<and>
     (\<forall>b<length (cfg_nodes g). let p = dn_parent_index (nodes ! b) in
        p < length (cfg_nodes g) \<and> (p = b \<longleftrightarrow> cn_block (cfg_nodes g ! b) = 0) \<and>
        block_dominates loop_function 0 (cn_block (cfg_nodes g ! p)) (cn_block (cfg_nodes g ! b)) \<and>
        (\<forall>a<length (cfg_nodes g). a = b \<or>
           block_dominates loop_function 0 (cn_block (cfg_nodes g ! a)) (cn_block (cfg_nodes g ! p)) =
           block_dominates loop_function 0 (cn_block (cfg_nodes g ! a)) (cn_block (cfg_nodes g ! b))))"
  using DominatorTree_parent [OF loop_function] .

text \<open>
  C23: The dominance frontiers: a node other than the entry is in the frontier of a node exactly
  when that node dominates one of its predecessors but does not strictly dominate the node itself.
\<close>
theorem DominatorTree_dominance_frontiers:
  assumes "flow_ok f" and "Function_entry_block f = Some entry"
  shows "\<exists>g nodes. ControlFlowGraph f = Some g \<and> DominatorTree g = Some nodes \<and>
     (\<forall>r<length (cfg_nodes g). \<forall>i<length (cfg_nodes g). cn_block (cfg_nodes g ! i) = entry \<or>
        (i \<in> set (dn_dominance_frontiers (nodes ! r))) =
        ((\<exists>p\<in>set (cn_predecessors (cfg_nodes g ! i)).
            block_dominates f entry (cn_block (cfg_nodes g ! r)) (cn_block (cfg_nodes g ! p))) \<and>
         (r = i \<or> \<not> block_dominates f entry (cn_block (cfg_nodes g ! r)) (cn_block (cfg_nodes g ! i)))))"
proof -
  obtain g par d nodes where g: "ControlFlowGraph f = Some g" "cfg_represents f entry g" "post_order g"
    "post_ordered g par" "dominator_array g d" "DominatorTree g = Some nodes"
    "\<And>i r. r < cfg_size g \<Longrightarrow> i \<in> frontier nodes r \<longleftrightarrow> i < cfg_size g \<and> frontier_spec g d i r"
    using function_dominators [OF assms] by metis
  note B = dominates_blocks [OF g(2,3)]
  have entry: "i < cfg_size g - 1" if "i < cfg_size g" "cfg_block g i \<noteq> entry" for i
  proof -
    have "i \<noteq> cfg_size g - 1" using that post_orderedD(2) [OF g(4)] cfg_representsD(3) [OF g(2)] by auto
    then show ?thesis using that by simp
  qed
  have "i \<in> frontier nodes r \<longleftrightarrow>
      (\<exists>p\<in>set (cfg_preds g i). block_dominates f entry (cfg_block g r) (cfg_block g p)) \<and>
      (r = i \<or> \<not> block_dominates f entry (cfg_block g r) (cfg_block g i))"
    if ri: "r < cfg_size g" "i < cfg_size g" "cfg_block g i \<noteq> entry" for r i
    using g(7) [OF ri(1)] frontier_spec_dominates [OF g(4,5) entry [OF ri(2,3)]] ri B
      post_orderedD(3) [OF g(4) ri(2)] by auto
  then show ?thesis using g(1,6) by blast
qed

theorem DominatorTree_dominance_frontiers_witness:
  "(\<exists>g nodes. ControlFlowGraph loop_function = Some g \<and> DominatorTree g = Some nodes \<and>
     (\<forall>r<length (cfg_nodes g). \<forall>i<length (cfg_nodes g). cn_block (cfg_nodes g ! i) = 0 \<or>
        (i \<in> set (dn_dominance_frontiers (nodes ! r))) =
        ((\<exists>p\<in>set (cn_predecessors (cfg_nodes g ! i)).
            block_dominates loop_function 0 (cn_block (cfg_nodes g ! r)) (cn_block (cfg_nodes g ! p))) \<and>
         (r = i \<or> \<not> block_dominates loop_function 0 (cn_block (cfg_nodes g ! r)) (cn_block (cfg_nodes g ! i)))))) \<and>
   map_option (map dn_dominance_frontiers) (Option.bind (ControlFlowGraph loop_function) DominatorTree) =
     Some [[3], [], [1, 3], [3], []]"
  by (intro conjI loop_function(1) DominatorTree_dominance_frontiers [OF loop_function]) code_simp

end
