(* ===== verification/Loops.thy ===== *)
theory Loops
  imports Cfg_Correct
begin

section \<open>Natural loops\<close>

text \<open>
  \<open>LoopAnalyzer\<close> (\<open>src/banjo/passes/loop_analysis.cpp\<close>) finds the edges whose target dominates
  their source, and for each of them the nodes from which the source can be reached without going
  through the target. The walk up the dominator tree stops at the root without comparing it, so
  an edge back to the entry is not found unless it is a self edge.
\<close>

subsection \<open>The walk up the tree\<close>

lemma LoopAnalyzer_walk:
  assumes d: "dominator_array g d" and nodes: "dom_shape g d nodes" and a: "a < cfg_size g"
  shows "LoopAnalyzer_walk nodes a b = Some (b \<in> up d a \<and> b \<noteq> cfg_size g - 1)"
  using dominator_arrayD(1) [OF d] a dominator_arrayD(2) [OF d a]
proof (induction rule: tree_induct)
  case root
  have "dn_parent_index (nodes ! (cfg_size g - 1)) = cfg_size g - 1"
    using dom_shapeD(2) [OF nodes, of "cfg_size g - 1"] idom_entry [OF d] a by simp
  then show ?case
    using up_root [OF dominator_arrayD(1) [OF d]] by (subst LoopAnalyzer_walk.simps) simp
next
  case (step v p)
  then have "dn_parent_index (nodes ! v) = p" "p \<noteq> v" "v \<noteq> cfg_size g - 1"
    using dom_shapeD(2) [OF nodes, of v] by (auto simp: idom_of_def)
  then show ?case
    using step up_split [OF dominator_arrayD(1) [OF d] step.hyps(1,2)]
    by (subst LoopAnalyzer_walk.simps) auto
qed

lemma LoopAnalyzer_is_dominated_by:
  assumes d: "dominator_array g d" and nodes: "dom_shape g d nodes" and a: "a < cfg_size g"
  shows "LoopAnalyzer_is_dominated_by nodes a b =
    Some (a = b \<or> b \<noteq> cfg_size g - 1 \<and> dominates g b a)"
proof (cases "a = cfg_size g - 1")
  case True
  have "dn_parent_index (nodes ! a) = a" using dom_shapeD(2) [OF nodes a] idom_entry [OF d] True by simp
  moreover have u: "up d a = {a}" using up_root [OF dominator_arrayD(1) [OF d]] True by simp
  moreover have "dominates g b a \<longleftrightarrow> b \<in> up d a" using dominator_arrayD(4) [OF d a] by simp
  ultimately show ?thesis
    using True LoopAnalyzer_walk [OF d nodes a, of b] by (auto simp: LoopAnalyzer_is_dominated_by_def)
next
  case False
  then have a': "a < cfg_size g - 1" using a by simp
  show ?thesis
    using idom_dominator [OF d a'] LoopAnalyzer_walk [OF d nodes, of "idom_of d a" b] dom_shapeD(2) [OF nodes a]
    by (auto simp: LoopAnalyzer_is_dominated_by_def)
qed

subsection \<open>The body of a loop\<close>

text \<open>The nodes from which the tail can be reached without going through the header.\<close>

inductive reaches_tail :: "cfg \<Rightarrow> nat \<Rightarrow> nat \<Rightarrow> nat \<Rightarrow> bool" for g header tail where
  tail: "tail \<noteq> header \<Longrightarrow> reaches_tail g header tail tail"
| step: "reaches_tail g header tail v \<Longrightarrow> u \<in> set (cfg_preds g v) \<Longrightarrow> u \<noteq> header \<Longrightarrow> reaches_tail g header tail u"

text \<open>The search extends the set it starts from by nodes of \<open>P\<close>, and follows all their edges.\<close>

definition body_ext :: "cfg \<Rightarrow> (nat \<Rightarrow> bool) \<Rightarrow> nat list \<Rightarrow> nat list \<Rightarrow> bool" where
  "body_ext g P body body' \<longleftrightarrow>
     set body \<subseteq> set body' \<and> distinct body' \<and> set body' \<subseteq> {..<cfg_size g} \<and>
     (\<forall>v\<in>set body' - set body. P v \<and> set (cfg_preds g v) \<subseteq> set body')"

lemma body_extD:
  assumes "body_ext g P body body'"
  shows "set body \<subseteq> set body'" "distinct body'" "set body' \<subseteq> {..<cfg_size g}"
    and "\<And>v. v \<in> set body' \<Longrightarrow> v \<notin> set body \<Longrightarrow> P v"
    and "\<And>v. v \<in> set body' \<Longrightarrow> v \<notin> set body \<Longrightarrow> set (cfg_preds g v) \<subseteq> set body'"
  using assms by (auto simp: body_ext_def)

lemma body_ext_trans: "body_ext g P a b \<Longrightarrow> body_ext g P b c \<Longrightarrow> body_ext g P a c"
  unfolding body_ext_def by blast

definition collects :: "cfg \<Rightarrow> nat \<Rightarrow> (nat \<Rightarrow> bool) \<Rightarrow> nat \<Rightarrow> (nat \<Rightarrow> nat list \<Rightarrow> nat list option) \<Rightarrow> bool" where
  "collects g header P n collect \<longleftrightarrow>
     (\<forall>v body. v < cfg_size g \<longrightarrow> distinct body \<longrightarrow> set body \<subseteq> {..<cfg_size g} \<longrightarrow> header \<in> set body \<longrightarrow>
        cfg_size g < length body + n \<longrightarrow> v \<in> set body \<or> P v \<longrightarrow>
        (\<exists>body'. collect v body = Some body' \<and> body_ext g P body body' \<and> v \<in> set body'))"

lemma collectsD:
  assumes "collects g header P n collect" "v < cfg_size g" "distinct body" "set body \<subseteq> {..<cfg_size g}"
    "header \<in> set body" "cfg_size g < length body + n" "v \<in> set body \<or> P v"
  obtains body' where "collect v body = Some body'" "body_ext g P body body'" "v \<in> set body'"
  using assms unfolding collects_def by blast

lemma collects_loop:
  assumes c: "collects g header P n collect" and "set vs \<subseteq> {..<cfg_size g}" "distinct body"
    "set body \<subseteq> {..<cfg_size g}" "header \<in> set body" "cfg_size g < length body + n" "\<forall>v\<in>set vs. v = header \<or> P v"
  shows "\<exists>body'. for_each vs collect body = Some body' \<and> body_ext g P body body' \<and> set vs \<subseteq> set body'"
  using assms(2-)
proof (induction vs arbitrary: body)
  case Nil
  then show ?case by (simp add: body_ext_def)
next
  case (Cons v vs)
  have v: "v < cfg_size g" "v \<in> set body \<or> P v" using Cons.prems by auto
  obtain b1 where b1: "collect v body = Some b1" "body_ext g P body b1" "v \<in> set b1"
    using collectsD [OF c v(1) Cons.prems(2-5) v(2)] .
  note B = body_extD(1-3) [OF b1(2)]
  have "length body \<le> length b1"
    using card_mono [OF _ B(1)] B(2) Cons.prems(2) by (simp add: distinct_card)
  then have "cfg_size g < length b1 + n" using Cons.prems(5) by simp
  then obtain b2 where b2: "for_each vs collect b1 = Some b2" "body_ext g P b1 b2" "set vs \<subseteq> set b2"
    using Cons.IH [of b1] Cons.prems(1,4,6) B by auto
  then show ?case using b1 body_ext_trans [OF b1(2) b2(2)] body_extD(1) [OF b2(2)] by auto
qed

lemma LoopAnalyzer_collect_body:
  assumes range: "\<And>v. v < cfg_size g \<Longrightarrow> set (cfg_preds g v) \<subseteq> {..<cfg_size g}"
    and P: "\<And>v u. P v \<Longrightarrow> u \<in> set (cfg_preds g v) \<Longrightarrow> u = header \<or> P u"
  shows "collects g header P n (LoopAnalyzer_collect_body g n)"
proof (induction n)
  case 0
  have "length body \<le> cfg_size g" if "distinct body" "set body \<subseteq> {..<cfg_size g}" for body
    using card_mono [OF finite_lessThan that(2)] that(1) by (simp add: distinct_card)
  then show ?case by (fastforce simp: collects_def simp flip: not_less)
next
  case (Suc n)
  have "\<exists>body'. LoopAnalyzer_collect_body g (Suc n) v body = Some body' \<and> body_ext g P body body' \<and> v \<in> set body'"
    if v: "v < cfg_size g" and b: "distinct body" "set body \<subseteq> {..<cfg_size g}" "header \<in> set body"
      "cfg_size g < length body + Suc n" and pv: "v \<in> set body \<or> P v" for v body
  proof (cases "v \<in> set body")
    case True
    then show ?thesis using b by (simp add: body_ext_def)
  next
    case False
    have "\<forall>u\<in>set (cfg_preds g v). u = header \<or> P u" using P pv False by blast
    then obtain b' where b': "for_each (cfg_preds g v) (LoopAnalyzer_collect_body g n) (body @ [v]) = Some b'"
      "body_ext g P (body @ [v]) b'" "set (cfg_preds g v) \<subseteq> set b'"
      using collects_loop [OF Suc range [OF v], of "body @ [v]"] v b False by auto
    then show ?thesis using False pv by (auto simp: body_ext_def)
  qed
  then show ?case unfolding collects_def by blast
qed

text \<open>What an analysed loop is: the natural loop of a back edge, which is entered through its header.\<close>

definition natural_loop :: "cfg \<Rightarrow> loop_analysis \<Rightarrow> bool" where
  "natural_loop g l \<longleftrightarrow>
     distinct (loop_body l) \<and>
     (\<forall>v. v \<in> set (loop_body l) \<longleftrightarrow> v = loop_header l \<or> reaches_tail g (loop_header l) (loop_tail l) v) \<and>
     (\<forall>v\<in>set (loop_body l). dominates g (loop_header l) v) \<and>
     (\<forall>v\<in>set (loop_body l). \<forall>u\<in>set (cfg_preds g v). u \<in> set (loop_body l) \<or> v = loop_header l) \<and>
     (\<forall>u. u \<in> set (loop_entries l) \<longleftrightarrow> u \<in> set (cfg_preds g (loop_header l)) \<and> u \<notin> set (loop_body l)) \<and>
     (\<forall>v s. (v, s) \<in> set (loop_exits l) \<longleftrightarrow>
        v \<in> set (loop_body l) \<and> s \<in> set (cfg_succs g v) \<and> s \<notin> set (loop_body l))"

lemma dominates_self: "dominates g a a"
  by (auto simp: dominates_def elim: avoids.cases)

lemma reaches_tail_dominated:
  assumes "reaches_tail g h t v" "dominates g h t" "t < cfg_size g"
    and range: "\<And>v. v < cfg_size g \<Longrightarrow> set (cfg_preds g v) \<subseteq> {..<cfg_size g}"
  shows "v \<noteq> h \<and> v < cfg_size g \<and> dominates g h v"
  using assms(1-3)
proof (induction)
  case (step v u)
  then have "u < cfg_size g" using range [of v] by auto
  then show ?case using step dominates_pred [of g h v u] by auto
qed auto

lemma LoopAnalyzer_analyze_back_edge:
  assumes range: "\<And>v. v < cfg_size g \<Longrightarrow> set (cfg_preds g v) \<subseteq> {..<cfg_size g}"
    and h: "h < cfg_size g" "dominates g h t" and t: "t < cfg_size g"
  obtains l where "LoopAnalyzer_analyze_back_edge g t h = Some l" "loop_header l = h" "loop_tail l = t"
    "natural_loop g l"
proof -
  let ?P = "reaches_tail g h t"
  have P: "u = h \<or> ?P u" if "?P v" "u \<in> set (cfg_preds g v)" for v u
    using that by (auto intro: reaches_tail.step)
  have start: "t \<in> set [h] \<or> ?P t" by (auto intro: reaches_tail.tail)
  have c: "collects g h ?P (cfg_size g + 1) (LoopAnalyzer_collect_body g (cfg_size g + 1))"
    using range P by (rule LoopAnalyzer_collect_body)
  obtain body where b: "LoopAnalyzer_collect_body g (cfg_size g + 1) t [h] = Some body" "body_ext g ?P [h] body"
    "t \<in> set body"
    by (rule collectsD [OF c t, where body = "[h]"]) (use h start in auto)
  note B = body_extD [OF b(2)]
  have P_body: "v \<in> set body" if "?P v" for v
    using that
  proof (induction)
    case (step v u)
    have "v \<noteq> h" using step.hyps(1) by (cases) auto
    then show ?case using B(5) [of v] step by auto
  qed (use b(3) in auto)
  have body: "v \<in> set body \<longleftrightarrow> v = h \<or> ?P v" for v
    using B(1) B(4) [of v] P_body [of v] by auto
  have dom: "dominates g h v" if "v \<in> set body" for v
    using that body [of v] reaches_tail_dominated [of g h t v, OF _ h(2) t range] dominates_self [of g h] by auto
  have inner: "\<forall>v\<in>set body. \<forall>u\<in>set (cfg_preds g v). u \<in> set body \<or> v = h"
    using B(5) by auto
  define l where "l = \<lparr>loop_header = h, loop_body = body, loop_tail = t,
         loop_entries = remdups (filter (\<lambda>p. p \<notin> set body) (cfg_preds g h)),
         loop_exits = remdups (concat (map (\<lambda>node.
           map (Pair node) (filter (\<lambda>s. s \<notin> set body) (cfg_succs g node))) body))\<rparr>"
  have "natural_loop g l"
    unfolding natural_loop_def l_def loop_analysis.select_convs
    by (intro conjI B(2) allI ballI body inner [rule_format] dom) auto
  then show thesis
    using b(1) that by (simp add: LoopAnalyzer_analyze_back_edge_def l_def del: LoopAnalyzer_collect_body.simps)
qed

subsection \<open>All loops of a function\<close>

lemma for_each_concat:
  assumes "\<And>x acc. x \<in> set xs \<Longrightarrow> body x acc = Some (acc @ h x)"
  shows "for_each xs body acc = Some (acc @ concat (map h xs))"
  using assms by (induction xs arbitrary: acc) auto

text \<open>The back edges in the order of the analysis, without those to the entry.\<close>

definition back_edges :: "cfg \<Rightarrow> (nat \<times> nat) list" where
  "back_edges g = concat (map (\<lambda>i. map (Pair i)
     (filter (\<lambda>s. i = s \<or> s \<noteq> cfg_entry_index g \<and> dominates g s i) (cfg_succs g i))) [0..<cfg_size g])"

lemma concat_map_choice:
  assumes "\<And>x. x \<in> set xs \<Longrightarrow> \<exists>ys. h x = ys \<and> map f ys = k x \<and> (\<forall>y\<in>set ys. P y)"
  shows "map f (concat (map h xs)) = concat (map k xs) \<and> (\<forall>y\<in>set (concat (map h xs)). P y)"
  using assms by (induction xs) auto

lemma LoopAnalyzer_analyze:
  assumes g: "post_ordered g par" and d: "dominator_array g d" and nodes: "dom_shape g d nodes"
    and succs: "\<And>i s. i < cfg_size g \<Longrightarrow> s \<in> set (cfg_succs g i) \<Longrightarrow> s < cfg_size g"
  shows "\<exists>loops. LoopAnalyzer_analyze g nodes = Some loops \<and>
     map (\<lambda>l. (loop_tail l, loop_header l)) loops = back_edges g \<and> (\<forall>l\<in>set loops. natural_loop g l)"
proof -
  have range: "set (cfg_preds g v) \<subseteq> {..<cfg_size g}" if "v < cfg_size g" for v
    using post_orderedD(3) [OF g that] by auto
  let ?dom = "\<lambda>i s. i = s \<or> s \<noteq> cfg_entry_index g \<and> dominates g s i"
  define h where "h = (\<lambda>i s. if ?dom i s then [the (LoopAnalyzer_analyze_back_edge g i s)] else [])"
  have dom: "LoopAnalyzer_is_dominated_by nodes i s = Some (?dom i s)" if "i < cfg_size g" for i s
    using LoopAnalyzer_is_dominated_by [OF d nodes that] post_orderedD(2) [OF g] by simp
  have edge: "\<exists>l. LoopAnalyzer_analyze_back_edge g i s = Some l \<and> loop_header l = s \<and> loop_tail l = i \<and> natural_loop g l"
    if i: "i < cfg_size g" and s: "s \<in> set (cfg_succs g i)" and "?dom i s" for i s
  proof -
    have "dominates g s i" using that(3) dominates_self by auto
    then show ?thesis using LoopAnalyzer_analyze_back_edge [OF range succs [OF i s] _ i] by metis
  qed
  have step: "(do {
           dominated \<leftarrow> LoopAnalyzer_is_dominated_by nodes i s;
           (if dominated then map_option (\<lambda>loop. loops @ [loop]) (LoopAnalyzer_analyze_back_edge g i s)
            else Some loops)
         }) = Some (loops @ h i s)" if "i < cfg_size g" "s \<in> set (cfg_succs g i)" for i s loops
    using dom [OF that(1)] edge [OF that] by (auto simp: h_def)
  have run: "LoopAnalyzer_analyze g nodes =
      Some ([] @ concat (map (\<lambda>i. concat (map (h i) (cfg_succs g i))) [0..<cfg_size g]))"
    unfolding LoopAnalyzer_analyze_def
    by (intro for_each_concat) (simp add: step)
  have "map (\<lambda>l. (loop_tail l, loop_header l)) (concat (map (h i) (cfg_succs g i))) =
        concat (map (\<lambda>s. if ?dom i s then [(i, s)] else []) (cfg_succs g i)) \<and>
      (\<forall>l\<in>set (concat (map (h i) (cfg_succs g i))). natural_loop g l)" if "i < cfg_size g" for i
    using edge [OF that] by (intro concat_map_choice) (force simp: h_def)
  then have "map (\<lambda>l. (loop_tail l, loop_header l)) (concat (map (\<lambda>i. concat (map (h i) (cfg_succs g i))) [0..<cfg_size g])) =
      concat (map (\<lambda>i. concat (map (\<lambda>s. if ?dom i s then [(i, s)] else []) (cfg_succs g i))) [0..<cfg_size g]) \<and>
      (\<forall>l\<in>set (concat (map (\<lambda>i. concat (map (h i) (cfg_succs g i))) [0..<cfg_size g])). natural_loop g l)"
    by (intro concat_map_choice) simp
  moreover have "concat (map (\<lambda>s. if ?dom i s then [(i, s)] else []) ss) = map (Pair i) (filter (?dom i) ss)" for i ss
    by (induction ss) auto
  ultimately show ?thesis using run by (simp add: back_edges_def)
qed

declare LoopAnalyzer_walk.simps [code]

text \<open>
  C24: \<open>LoopAnalyzer::analyze\<close> on a function whose blocks end in branches to its blocks or returns:
  the loops it returns belong to the back edges, in order: the self edges, and the edges whose
  target dominates their source and is not the entry. Each is the natural loop of its edge: the body
  is the header and the nodes that reach the tail without going through it, the header dominates the
  body and is the only node of it with predecessors outside, which are the entries, and the exits are
  the edges that leave the body.
\<close>
theorem LoopAnalyzer_correct:
  assumes f: "flow_ok f" and e: "Function_entry_block f = Some entry"
  shows "\<exists>g nodes loops. ControlFlowGraph f = Some g \<and> DominatorTree g = Some nodes \<and>
     LoopAnalyzer_analyze g nodes = Some loops \<and>
     map (\<lambda>l. (loop_tail l, loop_header l)) loops = back_edges g \<and> (\<forall>l\<in>set loops. natural_loop g l)"
proof -
  obtain g par d nodes where g: "ControlFlowGraph f = Some g" "cfg_represents f entry g"
    "post_ordered g par" "dominator_array g d" "DominatorTree g = Some nodes" "dom_shape g d nodes"
    using function_dominators [OF f e] by metis
  have "s < cfg_size g" if "i < cfg_size g" "s \<in> set (cfg_succs g i)" for i s
    using cfg_representsD(5) [OF g(2) that] .
  then show ?thesis using LoopAnalyzer_analyze [OF g(3,4,6)] g(1,5) by blast
qed

theorem LoopAnalyzer_correct_witness:
  "(\<exists>g nodes loops. ControlFlowGraph loop_function = Some g \<and> DominatorTree g = Some nodes \<and>
     LoopAnalyzer_analyze g nodes = Some loops \<and>
     map (\<lambda>l. (loop_tail l, loop_header l)) loops = back_edges g \<and> (\<forall>l\<in>set loops. natural_loop g l)) \<and>
   Option.bind (ControlFlowGraph loop_function) (\<lambda>g. Option.bind (DominatorTree g) (LoopAnalyzer_analyze g)) =
     Some [\<lparr>loop_header = 3, loop_body = [3, 0, 2], loop_tail = 0, loop_entries = [4],
            loop_exits = [(3, 1), (2, 1)]\<rparr>]"
  by (intro conjI LoopAnalyzer_correct [OF loop_function]) code_simp

end
