(* ===== verification/Reg_Alloc_Func.thy ===== *)
theory Reg_Alloc_Func
  imports MCode "HOL-Library.AList"
begin

section \<open>The function that the register allocator works on\<close>

text \<open>
  \<open>src/banjo/codegen/reg_alloc_func.hpp\<close> and \<open>target/target_reg_analyzer.hpp\<close>: points and
  ranges inside of a block, segments and bundles, and the interface of a target as a record of
  its virtual functions. An instruction iterator is the position of its node in the block; the
  instructions that are inserted before and after a node are kept with it, so that iterators stay
  valid as they do in the linked list.
\<close>

subsection \<open>Points and ranges\<close>

datatype reg_usage = Usage_DEF | Usage_USE | Usage_USE_DEF | Usage_KILL

record reg_op =
  regop_reg :: register
  regop_usage :: reg_usage

record ra_point =
  point_instr :: nat
  point_stage :: nat

definition RegAllocPoint :: "nat \<Rightarrow> nat \<Rightarrow> ra_point" where
  "RegAllocPoint i stage = \<lparr>point_instr = i, point_stage = stage\<rparr>"

definition RegAllocPoint_value :: "ra_point \<Rightarrow> nat" where
  "RegAllocPoint_value p = 2 * point_instr p + point_stage p"

record live_range =
  range_block :: nat
  range_start :: ra_point
  range_end :: ra_point

definition LiveRange :: "nat \<Rightarrow> ra_point \<Rightarrow> ra_point \<Rightarrow> live_range" where
  "LiveRange block start end' = \<lparr>range_block = block, range_start = start, range_end = end'\<rparr>"

definition LiveRange_intersects :: "live_range \<Rightarrow> live_range \<Rightarrow> bool" where
  "LiveRange_intersects r other \<longleftrightarrow>
     range_block r = range_block other \<and>
     RegAllocPoint_value (range_start r) \<le> RegAllocPoint_value (range_end other) \<and>
     RegAllocPoint_value (range_start other) \<le> RegAllocPoint_value (range_end r)"

definition LiveRange_contains :: "live_range \<Rightarrow> live_range \<Rightarrow> bool" where
  "LiveRange_contains r other \<longleftrightarrow>
     range_block r = range_block other \<and>
     RegAllocPoint_value (range_start r) \<le> RegAllocPoint_value (range_start other) \<and>
     RegAllocPoint_value (range_end other) \<le> RegAllocPoint_value (range_end r)"

record reserved_segment =
  reserved_reg :: u32
  reserved_range :: live_range

subsection \<open>Blocks and functions\<close>

text \<open>A node of the linked list with what has been inserted around it.\<close>

record ra_node =
  node_before :: "m_instr list"
  node_instr :: m_instr
  node_after :: "m_instr list"

record ra_instr =
  rai_index :: nat
  rai_regs :: "reg_op list"

record ra_block =
  rab_nodes :: "ra_node list"
  rab_instrs :: "ra_instr list"
  rab_preds :: "nat list"
  rab_succs :: "nat list"
  rab_reserved_segments :: "reserved_segment list"

record ra_func =
  raf_stack_frame :: stack_frame
  raf_blocks :: "ra_block list"

text \<open>
  A machine function with the edges between its blocks, as indices, and the volatile registers of
  its calling convention.
\<close>

record m_cfg_function = m_function +
  func_block_predecessors :: "nat list list"
  func_block_successors :: "nat list list"
  func_volatile_regs :: "u32 list"

subsection \<open>Segments and bundles\<close>

type_synonym reg_class = nat
type_synonym reg_class_map = "u32 \<rightharpoonup> reg_class"

record segment =
  seg_reg :: u32
  seg_range :: live_range

record ra_bundle =
  bundle_segments :: "segment list"
  bundle_reg_class :: reg_class
  bundle_evictable :: bool
  bundle_src_stack_slot :: "stack_slot_id option"
  bundle_dst_stack_slot :: "stack_slot_id option"
  bundle_deleted :: bool

definition Bundle_make :: "segment list \<Rightarrow> reg_class \<Rightarrow> ra_bundle" where
  "Bundle_make segments reg_class =
     \<lparr>bundle_segments = segments, bundle_reg_class = reg_class, bundle_evictable = True,
      bundle_src_stack_slot = None, bundle_dst_stack_slot = None, bundle_deleted = False\<rparr>"

text \<open>\<open>RegClassMap::insert\<close> keeps the class that is already there.\<close>

definition RegClassMap_insert :: "u32 \<Rightarrow> reg_class \<Rightarrow> reg_class_map \<Rightarrow> reg_class_map" where
  "RegClassMap_insert reg c m = (if m reg = None then m(reg \<mapsto> c) else m)"

subsection \<open>The target\<close>

record spilled_reg_use =
  spilled_stack_slot :: stack_slot_id
  spilled_reg :: u32
  spilled_reg_class :: reg_class

text \<open>
  The virtual functions of \<open>TargetRegAnalyzer\<close> that the pass calls. The operands of an
  instruction are asked for with the function, the instructions of its block and its position;
  the insertions are made at a node.
\<close>

record target_reg_analyzer =
  an_get_candidates :: "reg_class \<Rightarrow> u32 list option"
  an_suggest_regs :: "ra_func \<Rightarrow> ra_bundle \<Rightarrow> u32 list option"
  an_get_operands :: "u32 list \<Rightarrow> m_instr list \<Rightarrow> nat \<Rightarrow> reg_op list option"
  an_assign_reg_classes :: "m_instr \<Rightarrow> reg_class_map \<Rightarrow> reg_class_map option"
  an_is_move_from :: "m_instr \<Rightarrow> u32 \<Rightarrow> bool option"
  an_insert_load :: "stack_frame \<Rightarrow> spilled_reg_use \<Rightarrow> ra_node \<Rightarrow> ra_node option"
  an_insert_store :: "stack_frame \<Rightarrow> spilled_reg_use \<Rightarrow> ra_node \<Rightarrow> ra_node option"
  an_is_instr_removable :: "m_instr \<Rightarrow> bool option"

definition RaNode_insert_before :: "m_instr \<Rightarrow> ra_node \<Rightarrow> ra_node" where
  "RaNode_insert_before i node = node\<lparr>node_before := node_before node @ [i]\<rparr>"

definition RaNode_insert_after :: "m_instr \<Rightarrow> ra_node \<Rightarrow> ra_node" where
  "RaNode_insert_after i node = node\<lparr>node_after := i # node_after node\<rparr>"

subsection \<open>Creation\<close>

definition RegAllocPass_collect_instrs ::
  "target_reg_analyzer \<Rightarrow> u32 list \<Rightarrow> m_instr list \<Rightarrow> ra_instr list option" where
  "RegAllocPass_collect_instrs an volatile instrs =
     collect_each (\<lambda>index. do {
       regs \<leftarrow> an_get_operands an volatile instrs index;
       Some \<lparr>rai_index = index, rai_regs = regs\<rparr>
     }) [0..<length instrs]"

definition RegAllocPass_create_block ::
  "target_reg_analyzer \<Rightarrow> m_cfg_function \<Rightarrow> nat \<Rightarrow> ra_block option" where
  "RegAllocPass_create_block an f index =
     (let m_instrs = block_instrs (func_basic_blocks f ! index) in
      do {
        instrs \<leftarrow> RegAllocPass_collect_instrs an (func_volatile_regs f) m_instrs;
        Some \<lparr>rab_nodes = map (\<lambda>i. \<lparr>node_before = [], node_instr = i, node_after = []\<rparr>) m_instrs,
          rab_instrs = instrs, rab_preds = func_block_predecessors f ! index,
          rab_succs = func_block_successors f ! index, rab_reserved_segments = []\<rparr>
      })"

definition RegAllocPass_create_reg_alloc_func :: "target_reg_analyzer \<Rightarrow> m_cfg_function \<Rightarrow> ra_func option" where
  "RegAllocPass_create_reg_alloc_func an f =
     do {
       blocks \<leftarrow> collect_each (RegAllocPass_create_block an f) [0..<length (func_basic_blocks f)];
       Some \<lparr>raf_stack_frame = func_stack_frame f, raf_blocks = blocks\<rparr>
     }"

end
