(* ===== verification/Liveness.thy ===== *)
theory Liveness
  imports Reg_Alloc_Func
begin

section \<open>Liveness analysis\<close>

text \<open>
  \<open>LivenessAnalysis\<close> (\<open>src/banjo/codegen/liveness.cpp\<close>): the uses and definitions of a block, the
  registers that are live at its ends as the fixed point of an iteration over register sets, and
  the ranges of instructions in which a register is live. The map from registers to ranges is an
  association list, of which a lookup inserts an empty vector as \<open>operator[]\<close> does.
\<close>

record block_liveness =
  live_defs :: bit_set
  live_uses :: bit_set
  live_ins :: bit_set
  live_outs :: bit_set

record kill_point =
  kill_reg :: u32
  kill_block :: nat
  kill_instr :: nat

type_synonym reg_ranges = "(register \<times> live_range list) list"

record liveness_analysis =
  la_block_liveness :: "block_liveness list"
  la_reg_ranges :: reg_ranges
  la_kill_points :: "kill_point list"

definition RegRanges_get :: "reg_ranges \<Rightarrow> register \<Rightarrow> live_range list" where
  "RegRanges_get m r = (case map_of m r of Some ranges \<Rightarrow> ranges | None \<Rightarrow> [])"

definition RegRanges_push_back :: "register \<Rightarrow> live_range \<Rightarrow> reg_ranges \<Rightarrow> reg_ranges" where
  "RegRanges_push_back r lr m = AList.update r (RegRanges_get m r @ [lr]) m"

text \<open>\<open>ranges.back().start = point\<close>; without a range it is undefined behaviour.\<close>

definition RegRanges_set_back_start :: "register \<Rightarrow> ra_point \<Rightarrow> reg_ranges \<Rightarrow> reg_ranges option" where
  "RegRanges_set_back_start r point m =
     (let ranges = RegRanges_get m r in
      if ranges = [] then None
      else Some (AList.update r (butlast ranges @ [last ranges\<lparr>range_start := point\<rparr>]) m))"

subsection \<open>Uses and definitions of a block\<close>

definition Liveness_collect_op :: "reg_op \<Rightarrow> block_liveness \<Rightarrow> block_liveness" where
  "Liveness_collect_op op l =
     (if regop_usage op = Usage_DEF then l\<lparr>live_defs := RegisterSet_insert (live_defs l) (regop_reg op)\<rparr>
      else if regop_usage op = Usage_USE \<and> \<not> RegisterSet_contains (live_defs l) (regop_reg op)
      then l\<lparr>live_uses := RegisterSet_insert (live_uses l) (regop_reg op)\<rparr>
      else l)"

definition LivenessAnalysis_collect_uses_and_defs :: "ra_block \<Rightarrow> block_liveness \<Rightarrow> block_liveness" where
  "LivenessAnalysis_collect_uses_and_defs block l =
     fold (\<lambda>instr. fold Liveness_collect_op (rai_regs instr)) (rab_instrs block) l"

definition BlockLiveness_empty :: block_liveness where
  "BlockLiveness_empty =
     \<lparr>live_defs = BitSet_empty, live_uses = BitSet_empty, live_ins = BitSet_empty, live_outs = BitSet_empty\<rparr>"

subsection \<open>The iteration over the blocks\<close>

text \<open>
  \<open>collect_blocks_post_order\<close>: the call \<open>insert({block_index, 0})\<close> adds two elements to the set of
  visited blocks, the second one being the entry. The recursion is at most as deep as there are
  blocks.
\<close>

primrec LivenessAnalysis_collect_blocks_post_order ::
  "ra_block list \<Rightarrow> nat \<Rightarrow> nat \<Rightarrow> nat list \<times> nat list \<Rightarrow> (nat list \<times> nat list) option" where
  "LivenessAnalysis_collect_blocks_post_order blocks 0 = (\<lambda>block_index s. None)"
| "LivenessAnalysis_collect_blocks_post_order blocks (Suc fuel) = (\<lambda>block_index (indices, blocks_visited).
     do {
       ASSERT (block_index < length blocks);
       (indices', visited') \<leftarrow>
         for_each (rab_succs (blocks ! block_index))
           (\<lambda>succ (indices, visited).
              if succ \<notin> set visited
              then LivenessAnalysis_collect_blocks_post_order blocks fuel succ (indices, visited)
              else Some (indices, visited))
           (indices, List.insert 0 (List.insert block_index blocks_visited));
       Some (indices' @ [block_index], visited')
     })"

definition Liveness_new_outs :: "block_liveness list \<Rightarrow> nat list \<Rightarrow> bit_set \<Rightarrow> bit_set" where
  "Liveness_new_outs ls succs outs = fold (\<lambda>succ outs. BitSet_union_with outs (live_ins (ls ! succ))) succs outs"

definition Liveness_new_ins :: "block_liveness \<Rightarrow> bit_set \<Rightarrow> bit_set option" where
  "Liveness_new_ins l outs =
     do {
       uses \<leftarrow> RegisterSet_elements (live_uses l);
       outs_elements \<leftarrow> RegisterSet_elements outs;
       let ins = foldl RegisterSet_insert (live_ins l) uses;
       Some (foldl (\<lambda>ins out. if \<not> RegisterSet_contains (live_defs l) out then RegisterSet_insert ins out else ins)
         ins outs_elements)
     }"

text \<open>The body of the loop over the blocks, with the flag \<open>changes\<close>.\<close>

definition Liveness_visit ::
  "ra_block list \<Rightarrow> nat \<Rightarrow> block_liveness list \<times> bool \<Rightarrow> (block_liveness list \<times> bool) option" where
  "Liveness_visit blocks block_index s =
     (let (ls, changes) = s; l = ls ! block_index;
          prev_num_ins = BitSet_size (live_ins l); prev_num_outs = BitSet_size (live_outs l);
          outs = Liveness_new_outs ls (rab_succs (blocks ! block_index)) (live_outs l)
      in do {
        ins \<leftarrow> Liveness_new_ins l outs;
        Some (ls[block_index := l\<lparr>live_ins := ins, live_outs := outs\<rparr>],
          changes \<or> BitSet_size ins \<noteq> prev_num_ins \<or> BitSet_size outs \<noteq> prev_num_outs)
      })"

partial_function (option) Liveness_iterate ::
  "ra_block list \<Rightarrow> nat list \<Rightarrow> block_liveness list \<Rightarrow> block_liveness list option" where
  "Liveness_iterate blocks indices ls =
     Option.bind (for_each (rev indices) (Liveness_visit blocks) (ls, False)) (\<lambda>(ls', changes).
       if changes then Liveness_iterate blocks indices ls' else Some ls')"

definition LivenessAnalysis_compute_ins_and_outs ::
  "ra_block list \<Rightarrow> block_liveness list \<Rightarrow> block_liveness list option" where
  "LivenessAnalysis_compute_ins_and_outs blocks ls =
     do {
       (indices, visited) \<leftarrow> LivenessAnalysis_collect_blocks_post_order blocks (length blocks + 1) 0 ([], []);
       Liveness_iterate blocks indices ls
     }"

subsection \<open>Ranges\<close>

type_synonym range_state = "reg_ranges \<times> kill_point list \<times> register set"

definition Liveness_range_op :: "nat \<Rightarrow> nat \<Rightarrow> reg_op \<Rightarrow> range_state \<Rightarrow> range_state option" where
  "Liveness_range_op block_index i op s =
     (let (ranges, kills, live) = s; r = regop_reg op in
      case regop_usage op of
        Usage_USE \<Rightarrow>
          Some (if r \<notin> live
                then (RegRanges_push_back r (LiveRange block_index (RegAllocPoint i 0) (RegAllocPoint i 0)) ranges,
                      kills, insert r live)
                else (ranges, kills, live))
      | Usage_DEF \<Rightarrow>
          if r \<in> live
          then map_option (\<lambda>ranges'. (ranges', kills, live - {r}))
                 (RegRanges_set_back_start r (RegAllocPoint i 1) ranges)
          else Some (RegRanges_push_back r (LiveRange block_index (RegAllocPoint i 1) (RegAllocPoint i 1)) ranges,
                     kills, live)
      | Usage_USE_DEF \<Rightarrow>
          Some (if r \<notin> live
                then (RegRanges_push_back r (LiveRange block_index (RegAllocPoint i 0) (RegAllocPoint i 1)) ranges,
                      kills, insert r live)
                else (ranges, kills, live))
      | Usage_KILL \<Rightarrow>
          Some (ranges,
                kills @ [\<lparr>kill_reg = Register_get_physical_reg r, kill_block = block_index, kill_instr = i\<rparr>],
                live - {r}))"

definition Liveness_range_instr :: "nat \<Rightarrow> ra_block \<Rightarrow> nat \<Rightarrow> range_state \<Rightarrow> range_state option" where
  "Liveness_range_instr block_index block i =
     for_each (rai_regs (rab_instrs block ! i)) (Liveness_range_op block_index i)"

text \<open>The outs of a block are live from its first to its last point, as long as nothing else is known.\<close>

definition Liveness_range_outs :: "nat \<Rightarrow> ra_block \<Rightarrow> register list \<Rightarrow> reg_ranges \<Rightarrow> reg_ranges" where
  "Liveness_range_outs block_index block outs ranges =
     fold (\<lambda>out. RegRanges_push_back out
       (LiveRange block_index (RegAllocPoint 0 0) (RegAllocPoint (length (rab_instrs block) - 1) 1))) outs ranges"

definition Liveness_range_block ::
  "ra_block list \<Rightarrow> block_liveness list \<Rightarrow> nat \<Rightarrow> reg_ranges \<times> kill_point list \<Rightarrow> (reg_ranges \<times> kill_point list) option" where
  "Liveness_range_block blocks ls block_index s =
     (let (ranges, kills) = s; block = blocks ! block_index in
      if rab_instrs block = [] then Some (ranges, kills)
      else do {
        outs \<leftarrow> RegisterSet_elements (live_outs (ls ! block_index));
        (ranges1, kills1, live) \<leftarrow>
          for_each (rev [0..<length (rab_instrs block)]) (Liveness_range_instr block_index block)
            (Liveness_range_outs block_index block outs ranges, kills, set outs);
        ins \<leftarrow> RegisterSet_elements (live_ins (ls ! block_index));
        ranges2 \<leftarrow> for_each ins (\<lambda>r. RegRanges_set_back_start r (RegAllocPoint 0 0)) ranges1;
        Some (ranges2, kills1)
      })"

definition LivenessAnalysis_compute_precise_live_ranges ::
  "ra_block list \<Rightarrow> block_liveness list \<Rightarrow> (reg_ranges \<times> kill_point list) option" where
  "LivenessAnalysis_compute_precise_live_ranges blocks ls =
     for_each [0..<length blocks] (Liveness_range_block blocks ls) ([], [])"

definition LivenessAnalysis_compute :: "ra_func \<Rightarrow> liveness_analysis option" where
  "LivenessAnalysis_compute f =
     do {
       let blocks = raf_blocks f;
       ls \<leftarrow> LivenessAnalysis_compute_ins_and_outs blocks
         (map (\<lambda>block. LivenessAnalysis_collect_uses_and_defs block BlockLiveness_empty) blocks);
       (ranges, kills) \<leftarrow> LivenessAnalysis_compute_precise_live_ranges blocks ls;
       Some \<lparr>la_block_liveness = ls, la_reg_ranges = ranges, la_kill_points = kills\<rparr>
     }"

end
