(* ===== verification/Liveness_Correct.thy ===== *)
theory Liveness_Correct
  imports Liveness
begin

section \<open>The iteration computes liveness\<close>

text \<open>
  The blocks that the search visits are those that can be reached from the entry; the iteration
  over the register sets ends, and its result are the registers that are live at the ends of the
  blocks: those that some path uses before it defines them.
\<close>

subsection \<open>Register sets of bounded size\<close>

text \<open>Registers with numbers below this bound keep the positions of a bit set in 32 bits.\<close>

definition reg_small :: "register \<Rightarrow> bool" where
  "reg_small r \<longleftrightarrow> internal_value r < 0xFFFFFFC0"

lemma length_BitSet_set: "length (BitSet_set words p) = max (length words) (unat p div 64 + 1)"
  by (simp add: BitSet_set_def get_word_index_unat Let_def max_def)

lemma reg_small_unat: "reg_small r \<Longrightarrow> unat (internal_value r) < 2 ^ 32 - 64"
  by (simp add: reg_small_def word_less_nat_alt)

lemma bounded_insert: "BitSet_bounded s \<Longrightarrow> reg_small r \<Longrightarrow> BitSet_bounded (RegisterSet_insert s r)"
  using reg_small_unat by (fastforce simp: BitSet_bounded_def RegisterSet_insert_def length_BitSet_set max_def)

lemma length_BitSet_union_loop: "length (BitSet_union_loop words other is) = length words"
  by (induction words other "is" rule: BitSet_union_loop.induct) auto

lemma bounded_union: "BitSet_bounded s \<Longrightarrow> BitSet_bounded t \<Longrightarrow> BitSet_bounded (BitSet_union_with s t)"
  by (auto simp: BitSet_bounded_def BitSet_union_with_def length_BitSet_union_loop Let_def)

lemma bounded_empty [simp]: "BitSet_bounded BitSet_empty"
  by (simp add: BitSet_bounded_def BitSet_empty_def)

lemma finite_RegisterSet [simp]: "finite (RegisterSet_abs s)"
  by (rule finite_subset [of _ "Register ` UNIV"]) (auto simp: RegisterSet_abs_def)

lemma bounded_card: "BitSet_bounded s \<Longrightarrow> card (RegisterSet_abs s) < 2 ^ 32"
proof -
  assume b: "BitSet_bounded s"
  have "RegisterSet_abs s \<subseteq> (\<lambda>k. Register (of_nat k)) ` {..<length s * 64}"
  proof
    fix r
    assume "r \<in> RegisterSet_abs s"
    then obtain p where p: "r = Register p" "bitset_bit s (unat p)" by (auto simp: RegisterSet_abs_def BitSet_abs_def)
    then have "unat p < length s * 64" by (auto simp: bitset_bit_def dest: less_mult_imp_div_less)
    then show "r \<in> (\<lambda>k. Register (of_nat k)) ` {..<length s * 64}"
      using p(1) by (intro image_eqI [of _ _ "unat p"]) auto
  qed
  then have "card (RegisterSet_abs s) \<le> length s * 64"
    by (metis card_image_le card_lessThan card_mono finite_imageI finite_lessThan le_trans)
  then show ?thesis using b by (simp add: BitSet_bounded_def)
qed

lemma size_eq_iff:
  assumes "BitSet_bounded s" "BitSet_bounded t" "RegisterSet_abs s \<subseteq> RegisterSet_abs t"
  shows "BitSet_size t = BitSet_size s \<longleftrightarrow> RegisterSet_abs t = RegisterSet_abs s"
proof
  assume "BitSet_size t = BitSet_size s"
  then have "(of_nat (card (RegisterSet_abs t)) :: u32) = of_nat (card (RegisterSet_abs s))"
    using rs.size_card assms by simp
  then have "unat (of_nat (card (RegisterSet_abs t)) :: u32) = unat (of_nat (card (RegisterSet_abs s)) :: u32)"
    by simp
  then have "card (RegisterSet_abs t) = card (RegisterSet_abs s)"
    using bounded_card [OF assms(1)] bounded_card [OF assms(2)] by (simp add: unat_of_nat)
  then show "RegisterSet_abs t = RegisterSet_abs s" using assms(3) card_subset_eq [of "RegisterSet_abs t" "RegisterSet_abs s"] by simp
next
  assume "RegisterSet_abs t = RegisterSet_abs s"
  then show "BitSet_size t = BitSet_size s" using rs.size_card assms by simp
qed

lemma foldl_insert:
  assumes "BitSet_bounded s" "\<forall>r\<in>set xs. reg_small r"
  shows "BitSet_bounded (foldl RegisterSet_insert s xs)"
  using assms by (induction xs arbitrary: s) (auto intro: bounded_insert)

lemma foldl_insert_if:
  "RegisterSet_abs (foldl (\<lambda>ins out. if P out then RegisterSet_insert ins out else ins) s xs) =
     RegisterSet_abs s \<union> {r \<in> set xs. P r}"
  "BitSet_bounded s \<Longrightarrow> \<forall>r\<in>set xs. reg_small r \<Longrightarrow>
     BitSet_bounded (foldl (\<lambda>ins out. if P out then RegisterSet_insert ins out else ins) s xs)"
  by (induction xs arbitrary: s) (auto simp: rs.abs_insert intro: bounded_insert)

subsection \<open>Liveness at the ends of blocks\<close>

text \<open>The registers that a path from the block uses before it defines them.\<close>

inductive live_in :: "ra_block list \<Rightarrow> block_liveness list \<Rightarrow> nat \<Rightarrow> register \<Rightarrow> bool" for blocks ls where
  uses: "r \<in> RegisterSet_abs (live_uses (ls ! b)) \<Longrightarrow> live_in blocks ls b r"
| pass: "s \<in> set (rab_succs (blocks ! b)) \<Longrightarrow> live_in blocks ls s r \<Longrightarrow>
    r \<notin> RegisterSet_abs (live_defs (ls ! b)) \<Longrightarrow> live_in blocks ls b r"

definition live_out :: "ra_block list \<Rightarrow> block_liveness list \<Rightarrow> nat \<Rightarrow> register \<Rightarrow> bool" where
  "live_out blocks ls b r \<longleftrightarrow> (\<exists>s\<in>set (rab_succs (blocks ! b)). live_in blocks ls s r)"

abbreviation ins_of :: "block_liveness list \<Rightarrow> nat \<Rightarrow> register set" where
  "ins_of ls b \<equiv> RegisterSet_abs (live_ins (ls ! b))"

abbreviation outs_of :: "block_liveness list \<Rightarrow> nat \<Rightarrow> register set" where
  "outs_of ls b \<equiv> RegisterSet_abs (live_outs (ls ! b))"

text \<open>
  The state of the iteration: uses and definitions are those of the start \<open>ls0\<close>, and what is in
  the other sets is live.
\<close>

definition iterates :: "ra_block list \<Rightarrow> block_liveness list \<Rightarrow> block_liveness list \<Rightarrow> bool" where
  "iterates blocks ls0 ls \<longleftrightarrow>
     length ls = length blocks \<and>
     (\<forall>b<length blocks. live_uses (ls ! b) = live_uses (ls0 ! b) \<and> live_defs (ls ! b) = live_defs (ls0 ! b) \<and>
        BitSet_bounded (live_ins (ls ! b)) \<and> BitSet_bounded (live_outs (ls ! b)) \<and>
        ins_of ls b \<subseteq> {r. live_in blocks ls0 b r} \<and> outs_of ls b \<subseteq> {r. live_out blocks ls0 b r} \<and>
        ins_of ls b \<subseteq> RegisterSet_abs (live_uses (ls0 ! b)) \<union> outs_of ls b)"

lemma iteratesD:
  assumes "iterates blocks ls0 ls"
  shows "length ls = length blocks"
    and "\<And>b. b < length blocks \<Longrightarrow> live_uses (ls ! b) = live_uses (ls0 ! b)"
    and "\<And>b. b < length blocks \<Longrightarrow> live_defs (ls ! b) = live_defs (ls0 ! b)"
    and "\<And>b. b < length blocks \<Longrightarrow> BitSet_bounded (live_ins (ls ! b))"
    and "\<And>b. b < length blocks \<Longrightarrow> BitSet_bounded (live_outs (ls ! b))"
    and "\<And>b r. b < length blocks \<Longrightarrow> r \<in> ins_of ls b \<Longrightarrow> live_in blocks ls0 b r"
    and "\<And>b r. b < length blocks \<Longrightarrow> r \<in> outs_of ls b \<Longrightarrow> live_out blocks ls0 b r"
    and "\<And>b r. b < length blocks \<Longrightarrow> r \<in> ins_of ls b \<Longrightarrow> r \<in> RegisterSet_abs (live_uses (ls0 ! b)) \<union> outs_of ls b"
  using assms unfolding iterates_def by blast+

text \<open>The start of the iteration.\<close>

definition sets_ok :: "ra_block list \<Rightarrow> block_liveness list \<Rightarrow> bool" where
  "sets_ok blocks ls0 \<longleftrightarrow>
     length ls0 = length blocks \<and>
     (\<forall>b<length blocks. set (rab_succs (blocks ! b)) \<subseteq> {..<length blocks} \<and>
        BitSet_bounded (live_uses (ls0 ! b)) \<and> (\<forall>r\<in>RegisterSet_abs (live_uses (ls0 ! b)). reg_small r))"

lemma sets_okD:
  assumes "sets_ok blocks ls0"
  shows "length ls0 = length blocks"
    and "\<And>b s. b < length blocks \<Longrightarrow> s \<in> set (rab_succs (blocks ! b)) \<Longrightarrow> s < length blocks"
    and "\<And>b. b < length blocks \<Longrightarrow> BitSet_bounded (live_uses (ls0 ! b))"
    and "\<And>b r. b < length blocks \<Longrightarrow> r \<in> RegisterSet_abs (live_uses (ls0 ! b)) \<Longrightarrow> reg_small r"
  using assms unfolding sets_ok_def by blast+

definition used_regs :: "ra_block list \<Rightarrow> block_liveness list \<Rightarrow> register set" where
  "used_regs blocks ls0 = (\<Union>b<length blocks. RegisterSet_abs (live_uses (ls0 ! b)))"

lemma live_in_used:
  assumes ok: "sets_ok blocks ls0"
  shows "live_in blocks ls0 b r \<Longrightarrow> b < length blocks \<Longrightarrow> r \<in> used_regs blocks ls0"
proof (induction rule: live_in.induct)
  case (pass s b r)
  then show ?case using sets_okD(2) [OF ok] by blast
qed (auto simp: used_regs_def)

lemma live_out_used: "sets_ok blocks ls0 \<Longrightarrow> live_out blocks ls0 b r \<Longrightarrow> b < length blocks \<Longrightarrow> r \<in> used_regs blocks ls0"
  unfolding live_out_def using live_in_used sets_okD(2) by blast

lemma used_regs_small: "sets_ok blocks ls0 \<Longrightarrow> r \<in> used_regs blocks ls0 \<Longrightarrow> reg_small r"
  unfolding used_regs_def using sets_okD(4) by blast

lemma finite_used_regs [simp]: "finite (used_regs blocks ls0)"
  by (simp add: used_regs_def)

subsection \<open>A visit of a block\<close>

lemma Liveness_new_outs:
  "RegisterSet_abs (Liveness_new_outs ls succs outs) = RegisterSet_abs outs \<union> (\<Union>s\<in>set succs. ins_of ls s)"
  "BitSet_bounded outs \<Longrightarrow> \<forall>s\<in>set succs. BitSet_bounded (live_ins (ls ! s)) \<Longrightarrow>
     BitSet_bounded (Liveness_new_outs ls succs outs)"
  unfolding Liveness_new_outs_def
  by (induction succs arbitrary: outs) (auto simp: rs.abs_union bounded_union)

lemma Liveness_new_ins:
  assumes "BitSet_bounded (live_uses l)" "BitSet_bounded outs" "BitSet_bounded (live_ins l)"
    and "\<forall>r\<in>RegisterSet_abs (live_uses l) \<union> RegisterSet_abs outs. reg_small r"
  obtains ins where "Liveness_new_ins l outs = Some ins" "BitSet_bounded ins"
    "RegisterSet_abs ins = RegisterSet_abs (live_ins l) \<union> RegisterSet_abs (live_uses l) \<union>
       (RegisterSet_abs outs - RegisterSet_abs (live_defs l))"
proof -
  obtain us os where "RegisterSet_elements (live_uses l) = Some us" "set us = RegisterSet_abs (live_uses l)"
    "RegisterSet_elements outs = Some os" "set os = RegisterSet_abs outs"
    using rs.elements_set assms(1,2) by metis
  then show thesis
    using that assms(3,4)
    by (auto simp: Liveness_new_ins_def foldl_insert_if rs.abs_insert_all foldl_insert rs.contains_iff)
qed

text \<open>What a visit, and a sweep over several blocks, does.\<close>

definition same_sets :: "nat \<Rightarrow> block_liveness list \<Rightarrow> block_liveness list \<Rightarrow> bool" where
  "same_sets n ls ls' \<longleftrightarrow> (\<forall>b<n. ins_of ls' b = ins_of ls b \<and> outs_of ls' b = outs_of ls b)"

definition mono_sets :: "nat \<Rightarrow> block_liveness list \<Rightarrow> block_liveness list \<Rightarrow> bool" where
  "mono_sets n ls ls' \<longleftrightarrow> (\<forall>b<n. ins_of ls b \<subseteq> ins_of ls' b \<and> outs_of ls b \<subseteq> outs_of ls' b)"

definition equations :: "ra_block list \<Rightarrow> block_liveness list \<Rightarrow> block_liveness list \<Rightarrow> nat \<Rightarrow> bool" where
  "equations blocks ls0 ls b \<longleftrightarrow>
     (\<Union>s\<in>set (rab_succs (blocks ! b)). ins_of ls s) \<subseteq> outs_of ls b \<and>
     RegisterSet_abs (live_uses (ls0 ! b)) \<union> (outs_of ls b - RegisterSet_abs (live_defs (ls0 ! b))) \<subseteq> ins_of ls b"

lemma equations_same:
  assumes ok: "sets_ok blocks ls0" and "same_sets (length blocks) ls ls'" "equations blocks ls0 ls b" "b < length blocks"
  shows "equations blocks ls0 ls' b"
proof -
  have "(\<Union>s\<in>set (rab_succs (blocks ! b)). ins_of ls' s) = (\<Union>s\<in>set (rab_succs (blocks ! b)). ins_of ls s)"
    using sets_okD(2) [OF ok assms(4)] assms(2) by (intro SUP_cong) (auto simp: same_sets_def)
  then show ?thesis using assms by (simp add: equations_def same_sets_def)
qed

lemma Liveness_visit:
  assumes ok: "sets_ok blocks ls0" and i: "iterates blocks ls0 ls" and b: "b < length blocks"
  obtains ls' c' where "Liveness_visit blocks b (ls, c) = Some (ls', c')" "iterates blocks ls0 ls'"
    "mono_sets (length blocks) ls ls'" "c' \<longleftrightarrow> c \<or> \<not> same_sets (length blocks) ls ls'"
    "same_sets (length blocks) ls ls' \<Longrightarrow> equations blocks ls0 ls' b"
proof -
  note I = iteratesD [OF i] and S = sets_okD [OF ok]
  define outs where "outs = Liveness_new_outs ls (rab_succs (blocks ! b)) (live_outs (ls ! b))"
  have outs: "RegisterSet_abs outs = outs_of ls b \<union> (\<Union>s\<in>set (rab_succs (blocks ! b)). ins_of ls s)" "BitSet_bounded outs"
    unfolding outs_def using Liveness_new_outs I(4,5) b S(2) by auto
  have outs_live: "live_out blocks ls0 b r" if r: "r \<in> RegisterSet_abs outs" for r
  proof -
    consider "r \<in> outs_of ls b" | s where "s \<in> set (rab_succs (blocks ! b))" "r \<in> ins_of ls s"
      using r outs(1) by auto
    then show ?thesis
    proof cases
      case 2
      then show ?thesis using I(6) [of s r] S(2) [OF b] by (auto simp: live_out_def)
    qed (use I(7) b in auto)
  qed
  have small: "\<forall>r\<in>RegisterSet_abs (live_uses (ls ! b)) \<union> RegisterSet_abs outs. reg_small r"
    using outs_live live_out_used [OF ok _ b] used_regs_small [OF ok] S(4) [OF b] I(2) [OF b] by auto
  have ub: "BitSet_bounded (live_uses (ls ! b))" using S(3) I(2) b by simp
  obtain ins where ins: "Liveness_new_ins (ls ! b) outs = Some ins" "BitSet_bounded ins"
    "RegisterSet_abs ins = ins_of ls b \<union> RegisterSet_abs (live_uses (ls ! b)) \<union>
       (RegisterSet_abs outs - RegisterSet_abs (live_defs (ls ! b)))"
    using Liveness_new_ins [OF ub outs(2) I(4) [OF b] small] .
  have ins_live: "live_in blocks ls0 b r" if "r \<in> RegisterSet_abs ins" for r
    using that ins(3) I(2,3,6) [OF b] outs_live [of r] by (auto simp: live_out_def intro: live_in.intros)
  define ls' where "ls' = ls[b := (ls ! b)\<lparr>live_ins := ins, live_outs := outs\<rparr>]"
  have nth: "ins_of ls' k = (if k = b then RegisterSet_abs ins else ins_of ls k)"
    "outs_of ls' k = (if k = b then RegisterSet_abs outs else outs_of ls k)" for k
    using b I(1) by (auto simp: ls'_def nth_list_update)
  have it: "iterates blocks ls0 ls'"
    unfolding iterates_def
  proof (intro conjI allI impI)
    show "length ls' = length blocks" using I(1) by (simp add: ls'_def)
    fix k assume k: "k < length blocks"
    show "live_uses (ls' ! k) = live_uses (ls0 ! k)" "live_defs (ls' ! k) = live_defs (ls0 ! k)"
      "BitSet_bounded (live_ins (ls' ! k))" "BitSet_bounded (live_outs (ls' ! k))"
      using I(1-5) k b ins(2) outs(2) by (auto simp: ls'_def nth_list_update)
    show "ins_of ls' k \<subseteq> {r. live_in blocks ls0 k r}" "outs_of ls' k \<subseteq> {r. live_out blocks ls0 k r}"
      using nth I(6,7) k ins_live outs_live by auto
    show "ins_of ls' k \<subseteq> RegisterSet_abs (live_uses (ls0 ! k)) \<union> outs_of ls' k"
    proof (cases "k = b")
      case True
      have "r \<in> RegisterSet_abs (live_uses (ls0 ! b)) \<union> RegisterSet_abs outs" if "r \<in> RegisterSet_abs ins" for r
        using that I(8) [OF b, of r] unfolding ins(3) outs(1) I(2) [OF b] by auto
      then show ?thesis using True nth by auto
    next
      case False
      then show ?thesis using nth [of k] I(8) [OF k] by (simp add: subset_iff)
    qed
  qed
  have mono: "mono_sets (length blocks) ls ls'" using nth ins(3) outs(1) by (auto simp: mono_sets_def)
  have same: "same_sets (length blocks) ls ls' \<longleftrightarrow> RegisterSet_abs ins = ins_of ls b \<and> RegisterSet_abs outs = outs_of ls b"
    using nth b by (auto simp: same_sets_def)
  have eq: "equations blocks ls0 ls' b" if s: "same_sets (length blocks) ls ls'"
  proof -
    have "RegisterSet_abs ins = ins_of ls b" "RegisterSet_abs outs = outs_of ls b" using s same by auto
    then have same': "ins_of ls' k = ins_of ls k" "outs_of ls' k = outs_of ls k"
      and e: "ins_of ls b = ins_of ls b \<union> RegisterSet_abs (live_uses (ls0 ! b)) \<union> (outs_of ls b - RegisterSet_abs (live_defs (ls0 ! b)))"
        "outs_of ls b = outs_of ls b \<union> (\<Union>s\<in>set (rab_succs (blocks ! b)). ins_of ls s)" for k
      using nth ins(3) outs(1) I(2,3) [OF b] by auto
    show ?thesis unfolding equations_def same' using e by (simp only: Un_subset_iff) blast
  qed
  have "Liveness_visit blocks b (ls, c) = Some (ls', c \<or> \<not> same_sets (length blocks) ls ls')"
    using ins(1,3) outs(1) size_eq_iff [OF I(4) [OF b] ins(2)] size_eq_iff [OF I(5) [OF b] outs(2)] same
    by (auto simp: Liveness_visit_def Let_def outs_def [symmetric] ls'_def)
  then show thesis using that [OF _ it mono _ eq] by blast
qed

subsection \<open>Sweeps and the iteration\<close>

lemma mono_sets_refl: "mono_sets n ls ls"
  by (simp add: mono_sets_def)

lemma mono_sets_trans: "mono_sets n a b \<Longrightarrow> mono_sets n b c \<Longrightarrow> mono_sets n a c"
  unfolding mono_sets_def by blast

lemma same_sets_split:
  "mono_sets n a b \<Longrightarrow> mono_sets n b c \<Longrightarrow> same_sets n a c \<longleftrightarrow> same_sets n a b \<and> same_sets n b c"
  unfolding mono_sets_def same_sets_def by (metis subset_antisym)

lemma Liveness_visits:
  assumes ok: "sets_ok blocks ls0"
  shows "iterates blocks ls0 ls \<Longrightarrow> set is \<subseteq> {..<length blocks} \<Longrightarrow>
    \<exists>ls' c'. for_each is (Liveness_visit blocks) (ls, c) = Some (ls', c') \<and> iterates blocks ls0 ls' \<and>
      mono_sets (length blocks) ls ls' \<and> (c' \<longleftrightarrow> c \<or> \<not> same_sets (length blocks) ls ls') \<and>
      (same_sets (length blocks) ls ls' \<longrightarrow> (\<forall>b\<in>set is. equations blocks ls0 ls' b))"
proof (induction "is" arbitrary: ls c)
  case Nil
  then show ?case by (simp add: mono_sets_refl same_sets_def)
next
  case (Cons b bs)
  then have b: "b < length blocks" by simp
  obtain l1 c1 where l1: "Liveness_visit blocks b (ls, c) = Some (l1, c1)" "iterates blocks ls0 l1"
    "mono_sets (length blocks) ls l1" "c1 \<longleftrightarrow> c \<or> \<not> same_sets (length blocks) ls l1"
    "same_sets (length blocks) ls l1 \<Longrightarrow> equations blocks ls0 l1 b"
    using Liveness_visit [OF ok Cons.prems(1) b] by metis
  obtain l2 c2 where l2: "for_each bs (Liveness_visit blocks) (l1, c1) = Some (l2, c2)" "iterates blocks ls0 l2"
    "mono_sets (length blocks) l1 l2" "c2 \<longleftrightarrow> c1 \<or> \<not> same_sets (length blocks) l1 l2"
    "same_sets (length blocks) l1 l2 \<longrightarrow> (\<forall>b\<in>set bs. equations blocks ls0 l2 b)"
  proof -
    have "set bs \<subseteq> {..<length blocks}" using Cons.prems(2) by simp
    from Cons.IH [OF l1(2) this, of c1] show thesis using that by blast
  qed
  note split = same_sets_split [OF l1(3) l2(3)]
  have "equations blocks ls0 l2 b" if "same_sets (length blocks) ls l2"
    using that split l1(5) equations_same [OF ok _ _ b] by blast
  then show ?case using l1(1,4) l2 split mono_sets_trans [OF l1(3) l2(3)] by auto
qed

definition set_sizes :: "nat \<Rightarrow> block_liveness list \<Rightarrow> nat" where
  "set_sizes n ls = (\<Sum>b<n. card (ins_of ls b) + card (outs_of ls b))"

lemma set_sizes_less:
  assumes m: "mono_sets n ls ls'" and s: "\<not> same_sets n ls ls'"
  shows "set_sizes n ls < set_sizes n ls'"
proof -
  have le: "card (ins_of ls b) \<le> card (ins_of ls' b)" "card (outs_of ls b) \<le> card (outs_of ls' b)" if "b < n" for b
    using m that by (simp_all add: mono_sets_def card_mono)
  obtain b where b: "b < n" "ins_of ls b \<noteq> ins_of ls' b \<or> outs_of ls b \<noteq> outs_of ls' b"
    using s by (auto simp: same_sets_def)
  then have "ins_of ls b \<subset> ins_of ls' b \<or> outs_of ls b \<subset> outs_of ls' b" using m by (auto simp: mono_sets_def)
  then have "card (ins_of ls b) < card (ins_of ls' b) \<or> card (outs_of ls b) < card (outs_of ls' b)"
    by (auto intro: psubset_card_mono)
  then have "card (ins_of ls b) + card (outs_of ls b) < card (ins_of ls' b) + card (outs_of ls' b)"
    using le [OF b(1)] by linarith
  then show ?thesis
    unfolding set_sizes_def using le b(1)
    by (intro sum_strict_mono_ex1) (auto intro: add_mono)
qed

lemma set_sizes_bound:
  assumes ok: "sets_ok blocks ls0" and i: "iterates blocks ls0 ls"
  shows "set_sizes (length blocks) ls \<le> length blocks * (2 * card (used_regs blocks ls0))"
proof -
  have "card (ins_of ls b) \<le> card (used_regs blocks ls0) \<and> card (outs_of ls b) \<le> card (used_regs blocks ls0)"
    if b: "b < length blocks" for b
  proof -
    have "ins_of ls b \<subseteq> used_regs blocks ls0" "outs_of ls b \<subseteq> used_regs blocks ls0"
      using iteratesD(6,7) [OF i b] live_in_used [OF ok _ b] live_out_used [OF ok _ b] by blast+
    then show ?thesis by (auto intro: card_mono)
  qed
  then have "set_sizes (length blocks) ls \<le> (\<Sum>b<length blocks. 2 * card (used_regs blocks ls0))"
    unfolding set_sizes_def by (intro sum_mono) force
  then show ?thesis by simp
qed

lemma Liveness_iterate:
  assumes ok: "sets_ok blocks ls0" and i: "iterates blocks ls0 ls" and "set indices \<subseteq> {..<length blocks}"
  shows "\<exists>ls'. Liveness_iterate blocks indices ls = Some ls' \<and> iterates blocks ls0 ls' \<and>
    (\<forall>b\<in>set indices. equations blocks ls0 ls' b)"
  using i
proof (induction "length blocks * (2 * card (used_regs blocks ls0)) - set_sizes (length blocks) ls"
    arbitrary: ls rule: less_induct)
  case less
  obtain l1 c1 where l1: "for_each (rev indices) (Liveness_visit blocks) (ls, False) = Some (l1, c1)" "iterates blocks ls0 l1"
    "mono_sets (length blocks) ls l1" "c1 \<longleftrightarrow> \<not> same_sets (length blocks) ls l1"
    "same_sets (length blocks) ls l1 \<longrightarrow> (\<forall>b\<in>set indices. equations blocks ls0 l1 b)"
    using Liveness_visits [OF ok less.prems, of "rev indices" False] assms(3) by auto
  show ?case
  proof (cases "same_sets (length blocks) ls l1")
    case True
    then show ?thesis using l1 by (subst Liveness_iterate.simps) simp
  next
    case False
    then have "set_sizes (length blocks) ls < set_sizes (length blocks) l1" using set_sizes_less l1(3) by blast
    then have "length blocks * (2 * card (used_regs blocks ls0)) - set_sizes (length blocks) l1 <
        length blocks * (2 * card (used_regs blocks ls0)) - set_sizes (length blocks) ls"
      using set_sizes_bound [OF ok l1(2)] by linarith
    then obtain ls' where "Liveness_iterate blocks indices l1 = Some ls'" "iterates blocks ls0 ls'"
      "\<forall>b\<in>set indices. equations blocks ls0 ls' b"
      using less.hyps [OF _ l1(2)] by blast
    then show ?thesis using l1(1,4) False by (subst Liveness_iterate.simps) simp
  qed
qed

text \<open>On a set of blocks that is closed under successors, the equations determine the sets.\<close>

lemma equations_live_in:
  assumes closed: "\<And>b s. b \<in> B \<Longrightarrow> s \<in> set (rab_succs (blocks ! b)) \<Longrightarrow> s \<in> B"
    and eq: "\<And>b. b \<in> B \<Longrightarrow> equations blocks ls0 ls b"
  shows "live_in blocks ls0 b r \<Longrightarrow> b \<in> B \<Longrightarrow> r \<in> ins_of ls b"
proof (induction rule: live_in.induct)
  case (uses r b)
  then show ?case using eq by (auto simp: equations_def)
next
  case (pass s b r)
  have "r \<in> ins_of ls s" using pass closed by blast
  then have "r \<in> outs_of ls b" using eq [OF pass.prems] pass.hyps(1) by (auto simp: equations_def)
  then show ?case using eq [OF pass.prems] pass.hyps(3) by (auto simp: equations_def)
qed

subsection \<open>The blocks that the search visits\<close>

inductive_set reachable_blocks :: "ra_block list \<Rightarrow> nat set" for blocks where
  entry: "0 \<in> reachable_blocks blocks"
| step: "b \<in> reachable_blocks blocks \<Longrightarrow> s \<in> set (rab_succs (blocks ! b)) \<Longrightarrow> s \<in> reachable_blocks blocks"

definition search_ext :: "ra_block list \<Rightarrow> nat list \<times> nat list \<Rightarrow> nat list \<times> nat list \<Rightarrow> bool" where
  "search_ext blocks s s' \<longleftrightarrow>
     set (snd s) \<subseteq> set (snd s') \<and> set (snd s') \<subseteq> {..<length blocks} \<and>
     set (fst s') = set (fst s) \<union> (set (snd s') - set (snd s)) \<and>
     (\<forall>v\<in>set (snd s') - set (snd s). set (rab_succs (blocks ! v)) \<subseteq> set (snd s'))"

definition searches :: "ra_block list \<Rightarrow> nat \<Rightarrow> (nat \<Rightarrow> nat list \<times> nat list \<Rightarrow> (nat list \<times> nat list) option) \<Rightarrow> bool" where
  "searches blocks n search \<longleftrightarrow>
     (\<forall>b ind vis. b < length blocks \<longrightarrow> b \<notin> set vis \<longrightarrow> 0 \<in> set vis \<or> b = 0 \<longrightarrow> set vis \<subseteq> {..<length blocks} \<longrightarrow>
        card ({..<length blocks} - set vis) < n \<longrightarrow>
        (\<exists>s'. search b (ind, vis) = Some s' \<and> search_ext blocks (ind, vis) s' \<and> b \<in> set (snd s')))"

lemma searches_loop:
  assumes c: "searches blocks n search" and "set vs \<subseteq> {..<length blocks}" "0 \<in> set vis" "set vis \<subseteq> {..<length blocks}"
    "card ({..<length blocks} - set vis) < n"
  shows "\<exists>s'. for_each vs (\<lambda>v (ind, vis). if v \<notin> set vis then search v (ind, vis) else Some (ind, vis)) (ind, vis) = Some s' \<and>
    search_ext blocks (ind, vis) s' \<and> set vs \<subseteq> set (snd s')"
  using assms(2-)
proof (induction vs arbitrary: ind vis)
  case Nil
  then show ?case by (simp add: search_ext_def)
next
  case (Cons v vs)
  show ?case
  proof (cases "v \<in> set vis")
    case True
    obtain s' where "for_each vs (\<lambda>v (ind, vis). if v \<notin> set vis then search v (ind, vis) else Some (ind, vis)) (ind, vis) = Some s'"
      "search_ext blocks (ind, vis) s'" "set vs \<subseteq> set (snd s')"
      using Cons.IH [of vis ind] Cons.prems by auto
    then show ?thesis using True by (auto simp: search_ext_def)
  next
    case False
    obtain ind1 vis1 where s1: "search v (ind, vis) = Some (ind1, vis1)" "search_ext blocks (ind, vis) (ind1, vis1)" "v \<in> set vis1"
    proof -
      have "v < length blocks" using Cons.prems(1) by simp
      with c False Cons.prems(2-4) show thesis
        using that unfolding searches_def by (metis prod.collapse snd_conv)
    qed
    have v1: "0 \<in> set vis1" "set vis1 \<subseteq> {..<length blocks}" "set vis \<subseteq> set vis1" using s1(2) Cons.prems by (auto simp: search_ext_def)
    have "card ({..<length blocks} - set vis1) \<le> card ({..<length blocks} - set vis)"
      using v1(3) by (intro card_mono) auto
    then obtain s' where s': "for_each vs (\<lambda>v (ind, vis). if v \<notin> set vis then search v (ind, vis) else Some (ind, vis)) (ind1, vis1) = Some s'"
      "search_ext blocks (ind1, vis1) s'" "set vs \<subseteq> set (snd s')"
      using Cons.IH [of vis1 ind1] Cons.prems v1 by auto
    have "search_ext blocks (ind, vis) s'" using s1(2) s'(2) unfolding search_ext_def fst_conv snd_conv by blast
    then show ?thesis using False s1 s' by (auto simp: search_ext_def)
  qed
qed

lemma LivenessAnalysis_collect_blocks_post_order:
  assumes range: "\<And>b. b < length blocks \<Longrightarrow> set (rab_succs (blocks ! b)) \<subseteq> {..<length blocks}"
  shows "searches blocks n (LivenessAnalysis_collect_blocks_post_order blocks n)"
proof (induction n)
  case 0
  then show ?case by (simp add: searches_def)
next
  case (Suc n)
  have "\<exists>s'. LivenessAnalysis_collect_blocks_post_order blocks (Suc n) b (ind, vis) = Some s' \<and>
      search_ext blocks (ind, vis) s' \<and> b \<in> set (snd s')"
    if b: "b < length blocks" "b \<notin> set vis" "0 \<in> set vis \<or> b = 0" "set vis \<subseteq> {..<length blocks}"
      "card ({..<length blocks} - set vis) < Suc n" for b ind vis
  proof -
    let ?vis = "List.insert 0 (List.insert b vis)"
    have vis: "set ?vis = insert b (set vis)" using b(3) by auto
    have split: "{..<length blocks} - set vis = insert b ({..<length blocks} - set ?vis)" unfolding vis using b(1,2) by auto
    have "card ({..<length blocks} - set vis) = Suc (card ({..<length blocks} - set ?vis))"
      unfolding split using vis by (intro card_insert_disjoint) auto
    then have "card ({..<length blocks} - set ?vis) < n" using b(5) by linarith
    then obtain ind1 vis1 where s1: "for_each (rab_succs (blocks ! b))
        (\<lambda>v (ind, vis). if v \<notin> set vis then LivenessAnalysis_collect_blocks_post_order blocks n v (ind, vis) else Some (ind, vis))
        (ind, ?vis) = Some (ind1, vis1)" "search_ext blocks (ind, ?vis) (ind1, vis1)" "set (rab_succs (blocks ! b)) \<subseteq> set vis1"
      using searches_loop [OF Suc range [OF b(1)], of ?vis ind] b vis by auto
    have "search_ext blocks (ind, vis) (ind1 @ [b], vis1)"
      using s1(2,3) b(2) unfolding search_ext_def fst_conv snd_conv vis by auto
    then show ?thesis using s1 b(1) vis by (auto simp: search_ext_def)
  qed
  then show ?case unfolding searches_def by blast
qed

lemma collected_blocks:
  assumes range: "\<And>b. b < length blocks \<Longrightarrow> set (rab_succs (blocks ! b)) \<subseteq> {..<length blocks}" and "blocks \<noteq> []"
  obtains indices vis where "LivenessAnalysis_collect_blocks_post_order blocks (length blocks + 1) 0 ([], []) = Some (indices, vis)"
    "set indices \<subseteq> {..<length blocks}" "reachable_blocks blocks \<subseteq> set indices"
    "\<And>b s. b \<in> set indices \<Longrightarrow> s \<in> set (rab_succs (blocks ! b)) \<Longrightarrow> s \<in> set indices"
proof -
  have "\<exists>s'. LivenessAnalysis_collect_blocks_post_order blocks (length blocks + 1) 0 ([], []) = Some s' \<and>
      search_ext blocks ([], []) s' \<and> 0 \<in> set (snd s')"
    using LivenessAnalysis_collect_blocks_post_order [OF range, of "length blocks + 1"] assms(2)
    unfolding searches_def by auto
  then obtain ind vis where s: "LivenessAnalysis_collect_blocks_post_order blocks (length blocks + 1) 0 ([], []) = Some (ind, vis)"
    "set ind = set vis" "0 \<in> set vis" "set vis \<subseteq> {..<length blocks}"
    "\<forall>v\<in>set vis. set (rab_succs (blocks ! v)) \<subseteq> set vis"
    by (auto simp: search_ext_def)
  have "b \<in> set ind" if "b \<in> reachable_blocks blocks" for b
    using that s(2,3,5) by induction auto
  then show thesis using that s by blast
qed

text \<open>The result of the iteration for the blocks that can be reached.\<close>

lemma LivenessAnalysis_compute_ins_and_outs:
  assumes ok: "sets_ok blocks ls0" and "blocks \<noteq> []"
    and start: "\<And>b. b < length blocks \<Longrightarrow> live_ins (ls0 ! b) = BitSet_empty \<and> live_outs (ls0 ! b) = BitSet_empty"
  obtains ls where "LivenessAnalysis_compute_ins_and_outs blocks ls0 = Some ls" "iterates blocks ls0 ls"
    "\<And>b. b \<in> reachable_blocks blocks \<Longrightarrow> ins_of ls b = {r. live_in blocks ls0 b r} \<and> outs_of ls b = {r. live_out blocks ls0 b r}"
proof -
  have range: "set (rab_succs (blocks ! b)) \<subseteq> {..<length blocks}" if "b < length blocks" for b
    using sets_okD(2) [OF ok that] by auto
  obtain indices vis where ind: "LivenessAnalysis_collect_blocks_post_order blocks (length blocks + 1) 0 ([], []) = Some (indices, vis)"
    "set indices \<subseteq> {..<length blocks}" "reachable_blocks blocks \<subseteq> set indices"
    "\<And>b s. b \<in> set indices \<Longrightarrow> s \<in> set (rab_succs (blocks ! b)) \<Longrightarrow> s \<in> set indices"
    using collected_blocks [OF range assms(2)] by blast
  have "iterates blocks ls0 ls0" using sets_okD(1) [OF ok] start by (simp add: iterates_def rs.abs_empty)
  then obtain ls where ls: "Liveness_iterate blocks indices ls0 = Some ls" "iterates blocks ls0 ls"
    "\<forall>b\<in>set indices. equations blocks ls0 ls b"
    using Liveness_iterate [OF ok _ ind(2)] by blast
  have ins: "ins_of ls b = {r. live_in blocks ls0 b r}" if b: "b \<in> set indices" for b
  proof -
    have "r \<in> ins_of ls b" if "live_in blocks ls0 b r" for r
      using equations_live_in [of "set indices" blocks ls0 ls b r] ind(4) ls(3) that b by blast
    moreover have "b < length blocks" using b ind(2) by auto
    ultimately show ?thesis using iteratesD(6) [OF ls(2)] by blast
  qed
  have outs: "outs_of ls b = {r. live_out blocks ls0 b r}" if b: "b \<in> set indices" for b
  proof
    show "outs_of ls b \<subseteq> {r. live_out blocks ls0 b r}" using iteratesD(7) [OF ls(2)] b ind(2) by blast
    show "{r. live_out blocks ls0 b r} \<subseteq> outs_of ls b"
      using ls(3) b ins ind(4) [OF b] by (fastforce simp: live_out_def equations_def)
  qed
  have "LivenessAnalysis_compute_ins_and_outs blocks ls0 = Some ls"
    using ind(1) ls(1) by (simp add: LivenessAnalysis_compute_ins_and_outs_def)
  then show thesis using that ls(2) ins outs ind(3) by blast
qed

end
