(* ===== verification/Live_Ranges.thy ===== *)
theory Live_Ranges
  imports Liveness_Correct
begin

section \<open>The ranges of a register are where it is live\<close>

text \<open>
  For a register that no instruction killing (every virtual register), the ranges in a block are
  disjoint, and they contain a point exactly when the register is live there or is defined there.
\<close>

subsection \<open>What an instruction does with a register\<close>

text \<open>How the instruction uses or defines the register; that it kills it is a thing of its own.\<close>

primrec regop_of :: "reg_op list \<Rightarrow> register \<Rightarrow> reg_usage option" where
  "regop_of [] r = None"
| "regop_of (op # regs) r =
     (if regop_reg op = r \<and> regop_usage op \<noteq> Usage_KILL then Some (regop_usage op) else regop_of regs r)"

abbreviation killing :: "reg_op list \<Rightarrow> register \<Rightarrow> bool" where
  "killing regs r \<equiv> list_ex (\<lambda>op. regop_reg op = r \<and> regop_usage op = Usage_KILL) regs"

text \<open>A register is used or defined by one operand only, or used by several.\<close>

primrec regops_ok :: "reg_op list \<Rightarrow> bool" where
  "regops_ok [] = True"
| "regops_ok (op # regs) \<longleftrightarrow> regops_ok regs \<and>
     (regop_usage op = Usage_KILL \<or> regop_of regs (regop_reg op) = None \<or>
      regop_usage op = Usage_USE \<and> regop_of regs (regop_reg op) = Some Usage_USE)"

lemma regop_of_not_KILL: "regop_of regs r \<noteq> Some Usage_KILL"
  by (induction regs) auto

abbreviation usage_at :: "ra_block list \<Rightarrow> nat \<Rightarrow> nat \<Rightarrow> register \<Rightarrow> reg_usage option" where
  "usage_at blocks b i r \<equiv> regop_of (rai_regs (rab_instrs (blocks ! b) ! i)) r"

abbreviation num_instrs :: "ra_block list \<Rightarrow> nat \<Rightarrow> nat" where
  "num_instrs blocks b \<equiv> length (rab_instrs (blocks ! b))"

text \<open>
  The register is live before the instruction \<open>i\<close> of the block \<open>b\<close>: some path uses its value
  before it is defined again.
\<close>

inductive live_at :: "ra_block list \<Rightarrow> nat \<Rightarrow> nat \<Rightarrow> register \<Rightarrow> bool" for blocks where
  use_at: "i < num_instrs blocks b \<Longrightarrow> usage_at blocks b i r = Some Usage_USE \<or> usage_at blocks b i r = Some Usage_USE_DEF \<Longrightarrow>
    live_at blocks b i r"
| next_instr: "Suc i < num_instrs blocks b \<Longrightarrow> live_at blocks b (Suc i) r \<Longrightarrow> usage_at blocks b i r \<noteq> Some Usage_DEF \<Longrightarrow>
    live_at blocks b i r"
| next_block: "Suc i = num_instrs blocks b \<Longrightarrow> s \<in> set (rab_succs (blocks ! b)) \<Longrightarrow> live_at blocks s 0 r \<Longrightarrow>
    usage_at blocks b i r \<noteq> Some Usage_DEF \<Longrightarrow> live_at blocks b i r"

text \<open>
  Every block has instructions, which use or define a register in one way only, and may kill registers;
  what is used and defined by one operand has been defined before in the block.
\<close>

definition block_ok :: "ra_block \<Rightarrow> bool" where
  "block_ok block \<longleftrightarrow>
     rab_instrs block \<noteq> [] \<and>
     (\<forall>i<length (rab_instrs block). let regs = rai_regs (rab_instrs block ! i) in
        regops_ok regs \<and> list_all (\<lambda>op. reg_small (regop_reg op)) regs \<and>
        list_all (\<lambda>op. regop_usage op = Usage_USE_DEF \<longrightarrow>
          (\<exists>j<i. regop_of (rai_regs (rab_instrs block ! j)) (regop_reg op) = Some Usage_DEF)) regs)"

lemma regop_of_Some: "regop_of regs r = Some u \<Longrightarrow> \<exists>op\<in>set regs. regop_reg op = r \<and> regop_usage op = u"
  by (induction regs) (auto split: if_splits)

lemma block_okD:
  assumes "block_ok block"
  shows "rab_instrs block \<noteq> []"
    and "\<And>i. i < length (rab_instrs block) \<Longrightarrow> regops_ok (rai_regs (rab_instrs block ! i))"
    and "\<And>i r u. i < length (rab_instrs block) \<Longrightarrow> regop_of (rai_regs (rab_instrs block ! i)) r = Some u \<Longrightarrow> reg_small r"
    and "\<And>i r. i < length (rab_instrs block) \<Longrightarrow> regop_of (rai_regs (rab_instrs block ! i)) r = Some Usage_USE_DEF \<Longrightarrow>
      \<exists>j<i. regop_of (rai_regs (rab_instrs block ! j)) r = Some Usage_DEF"
  using assms unfolding block_ok_def Let_def list_all_iff by (blast dest: regop_of_Some)+

subsection \<open>The uses and definitions of a block\<close>

lemma Liveness_collect_ops:
  assumes "regops_ok ops"
  shows "RegisterSet_abs (live_defs (fold Liveness_collect_op ops l)) =
      RegisterSet_abs (live_defs l) \<union> {r. regop_of ops r = Some Usage_DEF}"
    and "RegisterSet_abs (live_uses (fold Liveness_collect_op ops l)) =
      RegisterSet_abs (live_uses l) \<union> {r. regop_of ops r = Some Usage_USE \<and> r \<notin> RegisterSet_abs (live_defs l)}"
    and "live_ins (fold Liveness_collect_op ops l) = live_ins l" "live_outs (fold Liveness_collect_op ops l) = live_outs l"
    and "(\<And>r u. regop_of ops r = Some u \<Longrightarrow> reg_small r) \<Longrightarrow> BitSet_bounded (live_uses l) \<Longrightarrow>
      BitSet_bounded (live_uses (fold Liveness_collect_op ops l))"
proof -
  have "RegisterSet_abs (live_defs (fold Liveness_collect_op ops l)) =
      RegisterSet_abs (live_defs l) \<union> {r. regop_of ops r = Some Usage_DEF} \<and>
    RegisterSet_abs (live_uses (fold Liveness_collect_op ops l)) =
      RegisterSet_abs (live_uses l) \<union> {r. regop_of ops r = Some Usage_USE \<and> r \<notin> RegisterSet_abs (live_defs l)} \<and>
    live_ins (fold Liveness_collect_op ops l) = live_ins l \<and> live_outs (fold Liveness_collect_op ops l) = live_outs l \<and>
    ((\<forall>r u. regop_of ops r = Some u \<longrightarrow> reg_small r) \<longrightarrow> BitSet_bounded (live_uses l) \<longrightarrow>
      BitSet_bounded (live_uses (fold Liveness_collect_op ops l)))"
    using assms
  proof (induction ops arbitrary: l)
    case (Cons op ops)
    let ?l = "Liveness_collect_op op l"
    have d: "RegisterSet_abs (live_defs ?l) =
        RegisterSet_abs (live_defs l) \<union> (if regop_usage op = Usage_DEF then {regop_reg op} else {})"
      and u: "RegisterSet_abs (live_uses ?l) = RegisterSet_abs (live_uses l) \<union>
        (if regop_usage op = Usage_USE \<and> regop_reg op \<notin> RegisterSet_abs (live_defs l) then {regop_reg op} else {})"
      and io: "live_ins ?l = live_ins l" "live_outs ?l = live_outs l"
      and b: "regop_usage op = Usage_USE \<Longrightarrow> reg_small (regop_reg op) \<Longrightarrow> BitSet_bounded (live_uses l) \<Longrightarrow> BitSet_bounded (live_uses ?l)"
      and b': "regop_usage op \<noteq> Usage_USE \<Longrightarrow> live_uses ?l = live_uses l"
      by (auto simp: Liveness_collect_op_def rs.abs_insert rs.contains_iff bounded_insert)
    have n: "regop_usage op = Usage_KILL \<or> regop_of ops (regop_reg op) = None \<or>
        regop_usage op = Usage_USE \<and> regop_of ops (regop_reg op) = Some Usage_USE" and ok: "regops_ok ops"
      using Cons.prems by simp_all
    have small: "(regop_usage op = Usage_USE \<longrightarrow> reg_small (regop_reg op)) \<and> (\<forall>r u. regop_of ops r = Some u \<longrightarrow> reg_small r)"
      if "\<forall>r u. regop_of (op # ops) r = Some u \<longrightarrow> reg_small r"
    proof (intro conjI allI impI)
      fix r u
      assume "regop_of ops r = Some u"
      then have "\<exists>u. regop_of (op # ops) r = Some u" by simp
      then show "reg_small r" using that by blast
    qed (use that in auto)
    note IH = Cons.IH [OF ok, of ?l]
    have f: "fold Liveness_collect_op (op # ops) l = fold Liveness_collect_op ops ?l" by simp
    have "{r. regop_of (op # ops) r = Some Usage_DEF} =
        (if regop_usage op = Usage_DEF then {regop_reg op} else {}) \<union> {r. regop_of ops r = Some Usage_DEF}"
      using n by auto
    then have "RegisterSet_abs (live_defs (fold Liveness_collect_op ops ?l)) =
        RegisterSet_abs (live_defs l) \<union> {r. regop_of (op # ops) r = Some Usage_DEF}"
      using IH d by (simp add: Un_assoc)
    moreover have "RegisterSet_abs (live_uses (fold Liveness_collect_op ops ?l)) = RegisterSet_abs (live_uses l) \<union>
        {r. regop_of (op # ops) r = Some Usage_USE \<and> r \<notin> RegisterSet_abs (live_defs l)}"
    proof -
      have "{r. regop_of (op # ops) r = Some Usage_USE \<and> r \<notin> RegisterSet_abs (live_defs l)} =
          (if regop_usage op = Usage_USE \<and> regop_reg op \<notin> RegisterSet_abs (live_defs l) then {regop_reg op} else {}) \<union>
          {r. regop_of ops r = Some Usage_USE \<and> r \<notin> RegisterSet_abs (live_defs ?l)}"
        unfolding d using n by auto
      then show ?thesis using IH u by (simp add: Un_assoc)
    qed
    moreover have "(\<forall>r u. regop_of (op # ops) r = Some u \<longrightarrow> reg_small r) \<longrightarrow> BitSet_bounded (live_uses l) \<longrightarrow>
        BitSet_bounded (live_uses (fold Liveness_collect_op ops ?l))"
      using IH b b' small by metis
    ultimately show ?case unfolding f using IH io by (intro conjI) simp_all
  qed simp
  then show "RegisterSet_abs (live_defs (fold Liveness_collect_op ops l)) =
      RegisterSet_abs (live_defs l) \<union> {r. regop_of ops r = Some Usage_DEF}"
    "RegisterSet_abs (live_uses (fold Liveness_collect_op ops l)) =
      RegisterSet_abs (live_uses l) \<union> {r. regop_of ops r = Some Usage_USE \<and> r \<notin> RegisterSet_abs (live_defs l)}"
    "live_ins (fold Liveness_collect_op ops l) = live_ins l" "live_outs (fold Liveness_collect_op ops l) = live_outs l"
    "(\<And>r u. regop_of ops r = Some u \<Longrightarrow> reg_small r) \<Longrightarrow> BitSet_bounded (live_uses l) \<Longrightarrow>
      BitSet_bounded (live_uses (fold Liveness_collect_op ops l))"
    by blast+
qed

definition uses_defs :: "reg_op list list \<Rightarrow> nat \<Rightarrow> block_liveness \<Rightarrow> bool" where
  "uses_defs opss k l \<longleftrightarrow>
     RegisterSet_abs (live_defs l) = {r. \<exists>i<k. regop_of (opss ! i) r = Some Usage_DEF} \<and>
     RegisterSet_abs (live_uses l) =
       {r. \<exists>i<k. regop_of (opss ! i) r = Some Usage_USE \<and> (\<forall>j<i. regop_of (opss ! j) r \<noteq> Some Usage_DEF)} \<and>
     live_ins l = BitSet_empty \<and> live_outs l = BitSet_empty \<and> BitSet_bounded (live_uses l)"

lemma uses_defs_step:
  assumes k: "regops_ok (opss ! k)" "\<And>r u. regop_of (opss ! k) r = Some u \<Longrightarrow> reg_small r"
    and l: "uses_defs opss k l"
  shows "uses_defs opss (Suc k) (fold Liveness_collect_op (opss ! k) l)"
proof -
  note F = Liveness_collect_ops [OF k(1), of l]
  have d: "RegisterSet_abs (live_defs l) = {r. \<exists>i<k. regop_of (opss ! i) r = Some Usage_DEF}"
    and u: "RegisterSet_abs (live_uses l) =
       {r. \<exists>i<k. regop_of (opss ! i) r = Some Usage_USE \<and> (\<forall>j<i. regop_of (opss ! j) r \<noteq> Some Usage_DEF)}"
    and io: "live_ins l = BitSet_empty" "live_outs l = BitSet_empty" "BitSet_bounded (live_uses l)"
    using l unfolding uses_defs_def by blast+
  show ?thesis
    unfolding uses_defs_def F(1-4) io d u less_Suc_eq
    using F(5) [OF k(2) io(3)] by (intro conjI) auto
qed

lemma collect_uses_and_defs:
  assumes b: "block_ok block"
  shows "uses_defs (map rai_regs (rab_instrs block)) (length (rab_instrs block))
    (LivenessAnalysis_collect_uses_and_defs block BlockLiveness_empty)"
proof -
  have "uses_defs (map rai_regs (rab_instrs block)) k
      (fold (\<lambda>instr. fold Liveness_collect_op (rai_regs instr)) (take k (rab_instrs block)) BlockLiveness_empty)"
    if "k \<le> length (rab_instrs block)" for k
    using that
  proof (induction k)
    case 0
    then show ?case by (simp add: uses_defs_def BlockLiveness_empty_def rs.abs_empty)
  next
    case (Suc k)
    then have "regops_ok (map rai_regs (rab_instrs block) ! k)"
      "\<And>r u. regop_of (map rai_regs (rab_instrs block) ! k) r = Some u \<Longrightarrow> reg_small r"
      using block_okD(2,3) [OF b, of k] by auto
    from uses_defs_step [OF this] Suc show ?case by (simp add: take_Suc_conv_app_nth)
  qed
  from this [OF order_refl] show ?thesis by (simp add: LivenessAnalysis_collect_uses_and_defs_def)
qed

subsection \<open>From the ends of a block to its instructions\<close>

text \<open>
  Liveness in front of the last \<open>k\<close> instructions of a block of \<open>n\<close>, for one register with the
  usages \<open>u\<close>, from what is live behind the block.
\<close>

primrec live_from :: "(nat \<Rightarrow> reg_usage option) \<Rightarrow> nat \<Rightarrow> bool \<Rightarrow> nat \<Rightarrow> bool" where
  "live_from u n out 0 = out"
| "live_from u n out (Suc k) =
     (u (n - Suc k) = Some Usage_USE \<or> u (n - Suc k) = Some Usage_USE_DEF \<or>
      u (n - Suc k) \<noteq> Some Usage_DEF \<and> live_from u n out k)"

lemma live_from_step:
  "i < n \<Longrightarrow> live_from u n out (n - i) \<longleftrightarrow>
     u i = Some Usage_USE \<or> u i = Some Usage_USE_DEF \<or> u i \<noteq> Some Usage_DEF \<and> live_from u n out (n - Suc i)"
proof -
  assume i: "i < n"
  then obtain k where "n - i = Suc k" "n - Suc i = k" "n - Suc k = i" by (metis Suc_diff_Suc diff_diff_cancel less_imp_le)
  then show ?thesis by simp
qed

lemma live_from_first:
  "k \<le> n \<Longrightarrow> live_from u n out k \<longleftrightarrow>
     (\<exists>i<n. n - k \<le> i \<and> (u i = Some Usage_USE \<or> u i = Some Usage_USE_DEF) \<and> (\<forall>j<i. n - k \<le> j \<longrightarrow> u j \<noteq> Some Usage_DEF)) \<or>
     out \<and> (\<forall>j<n. n - k \<le> j \<longrightarrow> u j \<noteq> Some Usage_DEF)"
proof (induction k)
  case (Suc k)
  define i where "i = n - Suc k"
  have i: "i < n" "n - k = Suc i" "\<And>j. n - Suc k \<le> j \<longleftrightarrow> j = i \<or> Suc i \<le> j" using Suc.prems by (auto simp: i_def)
  have "live_from u n out k \<longleftrightarrow>
     (\<exists>l<n. Suc i \<le> l \<and> (u l = Some Usage_USE \<or> u l = Some Usage_USE_DEF) \<and> (\<forall>j<l. Suc i \<le> j \<longrightarrow> u j \<noteq> Some Usage_DEF)) \<or>
     out \<and> (\<forall>j<n. Suc i \<le> j \<longrightarrow> u j \<noteq> Some Usage_DEF)"
    using Suc i(2) by simp
  then have "live_from u n out (Suc k) \<longleftrightarrow> u i = Some Usage_USE \<or> u i = Some Usage_USE_DEF \<or> u i \<noteq> Some Usage_DEF \<and>
     ((\<exists>l<n. Suc i \<le> l \<and> (u l = Some Usage_USE \<or> u l = Some Usage_USE_DEF) \<and> (\<forall>j<l. Suc i \<le> j \<longrightarrow> u j \<noteq> Some Usage_DEF)) \<or>
     out \<and> (\<forall>j<n. Suc i \<le> j \<longrightarrow> u j \<noteq> Some Usage_DEF))"
    by (simp add: i_def)
  also have "\<dots> \<longleftrightarrow> (\<exists>l<n. (l = i \<or> Suc i \<le> l) \<and> (u l = Some Usage_USE \<or> u l = Some Usage_USE_DEF) \<and>
       (\<forall>j<l. j = i \<or> Suc i \<le> j \<longrightarrow> u j \<noteq> Some Usage_DEF)) \<or>
     out \<and> (\<forall>j<n. j = i \<or> Suc i \<le> j \<longrightarrow> u j \<noteq> Some Usage_DEF)"
    using i(1) by (fastforce simp: Suc_le_eq)
  finally show ?case unfolding i(3) .
qed auto

text \<open>The blocks of a function, with the uses and definitions that the analysis starts from.\<close>

definition blocks_ok :: "ra_block list \<Rightarrow> bool" where
  "blocks_ok blocks \<longleftrightarrow>
     blocks \<noteq> [] \<and> list_all (\<lambda>block. block_ok block \<and> list_all (\<lambda>s. s < length blocks) (rab_succs block)) blocks"

lemma blocks_okD:
  assumes "blocks_ok blocks"
  shows "blocks \<noteq> []" "\<And>b. b < length blocks \<Longrightarrow> block_ok (blocks ! b)"
    and "\<And>b s. b < length blocks \<Longrightarrow> s \<in> set (rab_succs (blocks ! b)) \<Longrightarrow> s < length blocks"
  using assms by (auto simp: blocks_ok_def list_all_iff)

abbreviation start_liveness :: "ra_block list \<Rightarrow> block_liveness list" where
  "start_liveness blocks \<equiv> map (\<lambda>block. LivenessAnalysis_collect_uses_and_defs block BlockLiveness_empty) blocks"

lemma start_liveness:
  assumes ok: "blocks_ok blocks" and b: "b < length blocks"
  shows "r \<in> RegisterSet_abs (live_defs (start_liveness blocks ! b)) \<longleftrightarrow>
      (\<exists>i<num_instrs blocks b. usage_at blocks b i r = Some Usage_DEF)"
    and "r \<in> RegisterSet_abs (live_uses (start_liveness blocks ! b)) \<longleftrightarrow>
      (\<exists>i<num_instrs blocks b. usage_at blocks b i r = Some Usage_USE \<and> (\<forall>j<i. usage_at blocks b j r \<noteq> Some Usage_DEF))"
    and "live_ins (start_liveness blocks ! b) = BitSet_empty" "live_outs (start_liveness blocks ! b) = BitSet_empty"
    and "BitSet_bounded (live_uses (start_liveness blocks ! b))"
proof -
  have nth: "i < num_instrs blocks b \<Longrightarrow> regop_of (map rai_regs (rab_instrs (blocks ! b)) ! i) r = usage_at blocks b i r" for i
    by simp
  have l: "start_liveness blocks ! b = LivenessAnalysis_collect_uses_and_defs (blocks ! b) BlockLiveness_empty"
    using b by simp
  note U = collect_uses_and_defs [OF blocks_okD(2) [OF ok b], unfolded uses_defs_def, folded l]
  show "r \<in> RegisterSet_abs (live_defs (start_liveness blocks ! b)) \<longleftrightarrow>
      (\<exists>i<num_instrs blocks b. usage_at blocks b i r = Some Usage_DEF)"
    using U nth by (simp cong: conj_cong)
  show "r \<in> RegisterSet_abs (live_uses (start_liveness blocks ! b)) \<longleftrightarrow>
      (\<exists>i<num_instrs blocks b. usage_at blocks b i r = Some Usage_USE \<and> (\<forall>j<i. usage_at blocks b j r \<noteq> Some Usage_DEF))"
    using U nth by (auto; metis (no_types, lifting) less_trans)
  show "live_ins (start_liveness blocks ! b) = BitSet_empty" "live_outs (start_liveness blocks ! b) = BitSet_empty"
    "BitSet_bounded (live_uses (start_liveness blocks ! b))"
    using U by simp_all
qed

lemma start_sets_ok: "blocks_ok blocks \<Longrightarrow> sets_ok blocks (start_liveness blocks)"
  unfolding sets_ok_def
proof (intro conjI allI impI ballI)
  fix b assume ok: "blocks_ok blocks" and b: "b < length blocks"
  show "set (rab_succs (blocks ! b)) \<subseteq> {..<length blocks}" using blocks_okD(3) [OF ok b] by auto
  show "BitSet_bounded (live_uses (start_liveness blocks ! b))" using start_liveness(5) [OF ok b] .
  show "reg_small r" if "r \<in> RegisterSet_abs (live_uses (start_liveness blocks ! b))" for r
    using that start_liveness(2) [OF ok b] block_okD(3) [OF blocks_okD(2) [OF ok b]] by blast
qed simp

text \<open>Liveness at the start of a block is liveness in front of its first instruction.\<close>

lemma live_in_iff_live_from:
  assumes ok: "blocks_ok blocks" and b: "b < length blocks"
  shows "live_in blocks (start_liveness blocks) b r \<longleftrightarrow>
    live_from (\<lambda>i. usage_at blocks b i r) (num_instrs blocks b) (live_out blocks (start_liveness blocks) b r) (num_instrs blocks b)"
proof -
  note S = start_liveness(1,2) [OF ok b, of r]
  have usedef: "\<exists>j<i. usage_at blocks b j r = Some Usage_DEF" if "i < num_instrs blocks b" "usage_at blocks b i r = Some Usage_USE_DEF" for i
    using block_okD(4) [OF blocks_okD(2) [OF ok b] that] .
  have "live_in blocks (start_liveness blocks) b r \<longleftrightarrow>
      r \<in> RegisterSet_abs (live_uses (start_liveness blocks ! b)) \<or>
      live_out blocks (start_liveness blocks) b r \<and> r \<notin> RegisterSet_abs (live_defs (start_liveness blocks ! b))"
    unfolding live_out_def by (subst live_in.simps) blast
  then show ?thesis unfolding live_from_first [OF order_refl] S using usedef by (auto; blast)
qed

lemma live_at_iff_live_from:
  assumes ok: "blocks_ok blocks" and b: "b < length blocks" and "i < num_instrs blocks b"
  shows "live_at blocks b i r \<longleftrightarrow>
    live_from (\<lambda>i. usage_at blocks b i r) (num_instrs blocks b) (live_out blocks (start_liveness blocks) b r) (num_instrs blocks b - i)"
proof
  let ?out = "live_out blocks (start_liveness blocks)"
  note step = live_from_step
  show "live_from (\<lambda>i. usage_at blocks b i r) (num_instrs blocks b) (?out b r) (num_instrs blocks b - i)"
    if "live_at blocks b i r"
    using that b
  proof (induction)
    case (use_at i b r)
    then show ?case using step [OF use_at.hyps(1)] by auto
  next
    case (next_instr i b r)
    then have "i < num_instrs blocks b" by simp
    from step [OF this] show ?case using next_instr by auto
  next
    case (next_block i b s r)
    have s: "s < length blocks" using blocks_okD(3) [OF ok next_block.prems next_block.hyps(2)] .
    then have "live_in blocks (start_liveness blocks) s r"
      using next_block.IH live_in_iff_live_from [OF ok s] by simp
    then have "?out b r" using next_block.hyps(2) by (auto simp: live_out_def)
    moreover have "i < num_instrs blocks b" using next_block.hyps(1) by simp
    ultimately show ?case using step [of i "num_instrs blocks b"] next_block.hyps(1,4) by simp
  qed
  have inner: "live_at blocks b i r"
    if "live_from (\<lambda>i. usage_at blocks b i r) (num_instrs blocks b) o' (num_instrs blocks b - i)" "i < num_instrs blocks b"
      "o' \<Longrightarrow> \<exists>s\<in>set (rab_succs (blocks ! b)). live_at blocks s 0 r" for b i r o'
    using that(1,2)
  proof (induction "num_instrs blocks b - i" arbitrary: i rule: less_induct)
    case less
    note l = less.prems(1) [unfolded step [OF less.prems(2)]]
    show ?case
    proof (cases "Suc i < num_instrs blocks b")
      case True
      then show ?thesis using l less.hyps [of "Suc i"] less.prems(2) by (auto intro: live_at.intros)
    next
      case False
      then have "Suc i = num_instrs blocks b" using less.prems(2) by simp
      then show ?thesis using l less.prems(2) that(3) by (auto intro: live_at.intros)
    qed
  qed
  have entry: "b < length blocks \<Longrightarrow> live_at blocks b 0 r" if "live_in blocks (start_liveness blocks) b r" for b r
    using that
  proof (induction)
    case (uses r b)
    have n: "0 < num_instrs blocks b" using block_okD(1) [OF blocks_okD(2) [OF ok uses.prems]] by simp
    obtain j where "j < num_instrs blocks b" "usage_at blocks b j r = Some Usage_USE" "\<forall>k<j. usage_at blocks b k r \<noteq> Some Usage_DEF"
      using uses start_liveness(2) [OF ok uses.prems] by blast
    then have "live_from (\<lambda>i. usage_at blocks b i r) (num_instrs blocks b) False (num_instrs blocks b - 0)"
      unfolding diff_zero live_from_first [OF order_refl] by auto
    then show ?case using n by (rule inner) simp
  next
    case (pass s b r)
    have n: "0 < num_instrs blocks b" using block_okD(1) [OF blocks_okD(2) [OF ok pass.prems]] by simp
    have "live_from (\<lambda>i. usage_at blocks b i r) (num_instrs blocks b) True (num_instrs blocks b - 0)"
      using start_liveness(1) [OF ok pass.prems, of r] pass.hyps(3) unfolding diff_zero live_from_first [OF order_refl] by auto
    then show ?case
      using n by (rule inner) (use pass.IH blocks_okD(3) [OF ok pass.prems pass.hyps(1)] pass.hyps(1) in auto)
  qed
  show "live_at blocks b i r"
    if "live_from (\<lambda>i. usage_at blocks b i r) (num_instrs blocks b) (?out b r) (num_instrs blocks b - i)"
    using that assms(3) by (rule inner) (use entry blocks_okD(3) [OF ok b] in \<open>auto simp: live_out_def\<close>)
qed

subsection \<open>Scanning a block backwards, for one register\<close>

abbreviation start_of :: "live_range \<Rightarrow> nat" where
  "start_of x \<equiv> RegAllocPoint_value (range_start x)"

abbreviation end_of :: "live_range \<Rightarrow> nat" where
  "end_of x \<equiv> RegAllocPoint_value (range_end x)"

definition set_start :: "ra_point \<Rightarrow> live_range list \<Rightarrow> live_range list" where
  "set_start point rs = butlast rs @ [last rs\<lparr>range_start := point\<rparr>]"

text \<open>What an operand does to the ranges and to the liveness of its register.\<close>

definition scan_usage :: "nat \<Rightarrow> nat \<Rightarrow> reg_usage option \<Rightarrow> live_range list \<times> bool \<Rightarrow> live_range list \<times> bool" where
  "scan_usage b i u s =
     (let (rs, live) = s; at = (\<lambda>p q. LiveRange b (RegAllocPoint i p) (RegAllocPoint i q)) in
      case u of
        None \<Rightarrow> (rs, live)
      | Some Usage_USE \<Rightarrow> (if live then rs else rs @ [at 0 0], True)
      | Some Usage_DEF \<Rightarrow> (if live then set_start (RegAllocPoint i 1) rs else rs @ [at 1 1], False)
      | Some Usage_USE_DEF \<Rightarrow> (if live then rs else rs @ [at 0 1], True)
      | Some Usage_KILL \<Rightarrow> (rs, False))"

lemma RegRanges_get_push_back [simp]:
  "RegRanges_get (RegRanges_push_back r x m) q = (if q = r then RegRanges_get m r @ [x] else RegRanges_get m q)"
  by (auto simp: RegRanges_get_def RegRanges_push_back_def update_conv')

lemma RegRanges_set_back_start:
  assumes "RegRanges_get m r \<noteq> []"
  obtains m' where "RegRanges_set_back_start r p m = Some m'"
    "\<And>q. RegRanges_get m' q = (if q = r then set_start p (RegRanges_get m r) else RegRanges_get m q)"
  using assms that by (auto simp: RegRanges_get_def RegRanges_set_back_start_def update_conv' set_start_def Let_def)

text \<open>The registers that are live have a range.\<close>

definition range_state_ok :: "range_state \<Rightarrow> bool" where
  "range_state_ok s \<longleftrightarrow> (\<forall>r\<in>snd (snd s). RegRanges_get (fst s) r \<noteq> [])"

abbreviation reg_state :: "range_state \<Rightarrow> register \<Rightarrow> live_range list \<times> bool" where
  "reg_state s r \<equiv> (RegRanges_get (fst s) r, r \<in> snd (snd s))"

lemma Liveness_range_op:
  assumes "range_state_ok s"
  obtains s' where "Liveness_range_op b i op s = Some s'" "range_state_ok s'"
    "\<And>r. reg_state s' r = (if r = regop_reg op then scan_usage b i (Some (regop_usage op)) (reg_state s r) else reg_state s r)"
proof -
  obtain ranges kills live where s: "s = (ranges, kills, live)" by (cases s)
  let ?r = "regop_reg op"
  have ok: "r \<in> live \<Longrightarrow> RegRanges_get ranges r \<noteq> []" for r using assms s by (simp add: range_state_ok_def)
  have "\<exists>s'. Liveness_range_op b i op s = Some s' \<and> range_state_ok s' \<and>
      (\<forall>r. reg_state s' r = (if r = ?r then scan_usage b i (Some (regop_usage op)) (reg_state s r) else reg_state s r))"
  proof (cases "regop_usage op = Usage_DEF \<and> ?r \<in> live")
    case True
    then obtain m' where "RegRanges_set_back_start ?r (RegAllocPoint i 1) ranges = Some m'"
      "\<And>q. RegRanges_get m' q = (if q = ?r then set_start (RegAllocPoint i 1) (RegRanges_get ranges ?r) else RegRanges_get ranges q)"
      using RegRanges_set_back_start [OF ok] by metis
    then show ?thesis using True s ok
      by (auto simp: Liveness_range_op_def scan_usage_def range_state_ok_def Let_def)
  next
    case False
    then show ?thesis using s ok
      by (cases "regop_usage op") (auto simp: Liveness_range_op_def scan_usage_def range_state_ok_def Let_def)
  qed
  then show thesis using that by blast
qed

text \<open>All operands of an instruction, of which the register can have several.\<close>

primrec scan_ops :: "nat \<Rightarrow> nat \<Rightarrow> register \<Rightarrow> reg_op list \<Rightarrow> live_range list \<times> bool \<Rightarrow> live_range list \<times> bool" where
  "scan_ops b i r [] s = s"
| "scan_ops b i r (op # ops) s =
     scan_ops b i r ops (if regop_reg op = r then scan_usage b i (Some (regop_usage op)) s else s)"

lemma scan_usage_None [simp]: "scan_usage b i None s = s"
  by (simp add: scan_usage_def split: prod.splits)

lemma scan_ops_regop: "regops_ok ops \<Longrightarrow> \<not> killing ops r \<Longrightarrow> scan_ops b i r ops s = scan_usage b i (regop_of ops r) s"
proof (induction ops arbitrary: s)
  case (Cons op ops)
  show ?case
  proof (cases "regop_reg op = r")
    case True
    then have u: "regop_of (op # ops) r = Some (regop_usage op)" using Cons.prems(2) by simp
    have "scan_usage b i (Some Usage_USE) (scan_usage b i (Some Usage_USE) s) = scan_usage b i (Some Usage_USE) s"
      by (simp add: scan_usage_def split: prod.splits)
    then show ?thesis
      using Cons.IH Cons.prems True by (cases "regop_of ops r") (auto simp: u)
  qed (use Cons in auto)
qed simp

lemma Liveness_range_ops:
  assumes "range_state_ok s"
  obtains s' where "for_each ops (Liveness_range_op b i) s = Some s'" "range_state_ok s'"
    "\<And>r. reg_state s' r = scan_ops b i r ops (reg_state s r)"
proof -
  have "\<exists>s'. for_each ops (Liveness_range_op b i) s = Some s' \<and> range_state_ok s' \<and>
      (\<forall>r. reg_state s' r = scan_ops b i r ops (reg_state s r))"
    using assms
  proof (induction ops arbitrary: s)
    case Nil
    then show ?case by simp
  next
    case (Cons op ops)
    obtain s1 where s1: "Liveness_range_op b i op s = Some s1" "range_state_ok s1"
      "\<And>r. reg_state s1 r = (if r = regop_reg op then scan_usage b i (Some (regop_usage op)) (reg_state s r) else reg_state s r)"
      using Liveness_range_op [OF Cons.prems] by blast
    obtain s' where s': "for_each ops (Liveness_range_op b i) s1 = Some s'" "range_state_ok s'"
      "\<And>r. reg_state s' r = scan_ops b i r ops (reg_state s1 r)"
      using Cons.IH [OF s1(2)] by auto
    have "reg_state s' r = scan_ops b i r (op # ops) (reg_state s r)" for r
      using s'(3) [of r] s1(3) [of r] by auto
    then show ?case using s1(1) s'(1,2) by (intro exI [of _ s']) simp
  qed
  then show thesis using that by blast
qed

text \<open>The register is live at the use stage or defined at the definition stage of an instruction.\<close>

definition live_point :: "(nat \<Rightarrow> reg_usage option) \<Rightarrow> nat \<Rightarrow> bool \<Rightarrow> nat \<Rightarrow> bool" where
  "live_point u n out p \<longleftrightarrow>
     (if even p then live_from u n out (n - p div 2)
      else live_from u n out (n - Suc (p div 2)) \<or> u (p div 2) = Some Usage_DEF \<or> u (p div 2) = Some Usage_USE_DEF)"

text \<open>The ranges of the instructions from \<open>i\<close> on; the last range is open while the register is live.\<close>

definition scanned :: "nat \<Rightarrow> (nat \<Rightarrow> reg_usage option) \<Rightarrow> nat \<Rightarrow> bool \<Rightarrow> nat \<Rightarrow> live_range list \<times> bool \<Rightarrow> bool" where
  "scanned b u n out i s \<longleftrightarrow>
     (let (rs, live) = s; closed = if live then butlast rs else rs in
      (live \<longleftrightarrow> live_from u n out (n - i)) \<and> (live \<longrightarrow> rs \<noteq> [] \<and> 2 * i \<le> Suc (end_of (last rs))) \<and>
      (\<forall>x\<in>set rs. range_block x = b \<and> start_of x \<le> end_of x \<and> end_of x < 2 * n) \<and>
      (\<forall>x\<in>set closed. 2 * i \<le> start_of x) \<and> sorted_wrt (\<lambda>x y. end_of y < start_of x) rs \<and>
      (\<forall>p. 2 * i \<le> p \<and> p < 2 * n \<longrightarrow>
         (\<exists>x\<in>set closed. start_of x \<le> p \<and> p \<le> end_of x) \<or> live \<and> p \<le> end_of (last rs) \<longleftrightarrow> live_point u n out p))"

lemma scannedD:
  assumes "scanned b u n out i (rs, live)"
  shows "live \<longleftrightarrow> live_from u n out (n - i)" "live \<Longrightarrow> rs \<noteq> []" "live \<Longrightarrow> 2 * i \<le> Suc (end_of (last rs))"
    and "\<And>x. x \<in> set rs \<Longrightarrow> range_block x = b \<and> start_of x \<le> end_of x \<and> end_of x < 2 * n"
    and "\<And>x. x \<in> set (if live then butlast rs else rs) \<Longrightarrow> 2 * i \<le> start_of x"
    and "sorted_wrt (\<lambda>x y. end_of y < start_of x) rs"
    and "\<And>p. 2 * i \<le> p \<Longrightarrow> p < 2 * n \<Longrightarrow>
       (\<exists>x\<in>set (if live then butlast rs else rs). start_of x \<le> p \<and> p \<le> end_of x) \<or> live \<and> p \<le> end_of (last rs) \<longleftrightarrow>
       live_point u n out p"
  using assms unfolding scanned_def Let_def prod.case by blast+

lemma scannedI:
  assumes "live \<longleftrightarrow> live_from u n out (n - i)" "live \<Longrightarrow> rs \<noteq> []" "live \<Longrightarrow> 2 * i \<le> Suc (end_of (last rs))"
    and "\<And>x. x \<in> set rs \<Longrightarrow> range_block x = b \<and> start_of x \<le> end_of x \<and> end_of x < 2 * n"
    and "\<And>x. x \<in> set (if live then butlast rs else rs) \<Longrightarrow> 2 * i \<le> start_of x"
    and "sorted_wrt (\<lambda>x y. end_of y < start_of x) rs"
    and "\<And>p. 2 * i \<le> p \<Longrightarrow> p < 2 * n \<Longrightarrow>
       (\<exists>x\<in>set (if live then butlast rs else rs). start_of x \<le> p \<and> p \<le> end_of x) \<or> live \<and> p \<le> end_of (last rs) \<longleftrightarrow>
       live_point u n out p"
  shows "scanned b u n out i (rs, live)"
  using assms unfolding scanned_def Let_def prod.case by blast

lemma point_values [simp]:
  "RegAllocPoint_value (RegAllocPoint i k) = 2 * i + k"
  "range_block (LiveRange b p q) = b" "range_start (LiveRange b p q) = p" "range_end (LiveRange b p q) = q"
  by (simp_all add: RegAllocPoint_value_def RegAllocPoint_def LiveRange_def)

text \<open>The two new points of an instruction.\<close>

lemma live_point_new:
  assumes "i < n"
  shows "live_point u n out (2 * i) \<longleftrightarrow> live_from u n out (n - i)"
    and "live_point u n out (Suc (2 * i)) \<longleftrightarrow> live_from u n out (n - Suc i) \<or> u i = Some Usage_DEF \<or> u i = Some Usage_USE_DEF"
  by (simp_all add: live_point_def)

lemma point_cases: "2 * i \<le> (p::nat) \<Longrightarrow> p = 2 * i \<or> p = Suc (2 * i) \<or> 2 * Suc i \<le> p"
  by auto

lemma scan_same:
  assumes s: "scanned b u n out (Suc i) (rs, live)" and i: "i < n"
    and l: "live_from u n out (n - i) \<longleftrightarrow> live" and d: "u i = Some Usage_DEF \<or> u i = Some Usage_USE_DEF \<Longrightarrow> live"
  shows "scanned b u n out i (rs, live)"
proof (rule scannedI)
  note D = scannedD [OF s]
  show "live \<longleftrightarrow> live_from u n out (n - i)" using l by simp
  show "live \<Longrightarrow> rs \<noteq> []" "live \<Longrightarrow> 2 * i \<le> Suc (end_of (last rs))" using D(2,3) by auto
  show "x \<in> set rs \<Longrightarrow> range_block x = b \<and> start_of x \<le> end_of x \<and> end_of x < 2 * n" for x using D(4) .
  show c: "2 * i \<le> start_of x" if "x \<in> set (if live then butlast rs else rs)" for x using D(5) [OF that] by simp
  show "sorted_wrt (\<lambda>x y. end_of y < start_of x) rs" using D(6) .
  fix p assume p: "2 * i \<le> p" "p < 2 * n"
  have none: "\<not> (\<exists>x\<in>set (if live then butlast rs else rs). start_of x \<le> p \<and> p \<le> end_of x)" if "p \<le> Suc (2 * i)"
    using D(5) that by fastforce
  have new: "live_point u n out p \<longleftrightarrow> live" if "p \<le> Suc (2 * i)"
    using point_cases [OF p(1)] that live_point_new [OF i, of u out] D(1) l d by auto
  show "(\<exists>x\<in>set (if live then butlast rs else rs). start_of x \<le> p \<and> p \<le> end_of x) \<or> live \<and> p \<le> end_of (last rs) \<longleftrightarrow>
       live_point u n out p"
  proof (cases "p \<le> Suc (2 * i)")
    case True
    then show ?thesis using none new D(3) by auto
  next
    case False
    then show ?thesis using D(7) [of p] p(2) by simp
  qed
qed

lemma scan_push:
  assumes s: "scanned b u n out (Suc i) (rs, False)" and i: "i < n"
    and l: "live_from u n out (n - i) \<longleftrightarrow> live'"
    and x: "range_block x = b" "2 * i \<le> start_of x" "start_of x \<le> end_of x" "end_of x \<le> Suc (2 * i)"
    and new: "live_point u n out (2 * i) \<longleftrightarrow> live' \<or> start_of x = 2 * i"
      "live_point u n out (Suc (2 * i)) \<longleftrightarrow> end_of x = Suc (2 * i)"
  shows "scanned b u n out i (rs @ [x], live')"
proof (rule scannedI)
  note D = scannedD [OF s, simplified]
  have below: "end_of x < start_of y" if "y \<in> set rs" for y using D(5) [OF that] x(4) by simp
  show "live' \<longleftrightarrow> live_from u n out (n - i)" using l by simp
  show "rs @ [x] \<noteq> []" by simp
  show "2 * i \<le> Suc (end_of (last (rs @ [x])))" using x(2,3) by simp
  show "range_block y = b \<and> start_of y \<le> end_of y \<and> end_of y < 2 * n" if "y \<in> set (rs @ [x])" for y
    using that D(4) [of y] x i by auto
  show "2 * i \<le> start_of y" if "y \<in> set (if live' then butlast (rs @ [x]) else rs @ [x])" for y
    using that below [of y] D(5) [of y] x(2) by (auto split: if_splits)
  show "sorted_wrt (\<lambda>x y. end_of y < start_of x) (rs @ [x])"
    using D(6) below by (simp add: sorted_wrt_append)
  fix p assume p: "2 * i \<le> p" "p < 2 * n"
  have closed: "set (if live' then butlast (rs @ [x]) else rs @ [x]) = set rs \<union> (if live' then {} else {x})" by simp
  have none: "\<not> (\<exists>y\<in>set rs. start_of y \<le> p \<and> p \<le> end_of y)" if "p \<le> Suc (2 * i)"
    using D(5) that by fastforce
  show "(\<exists>y\<in>set (if live' then butlast (rs @ [x]) else rs @ [x]). start_of y \<le> p \<and> p \<le> end_of y) \<or>
      live' \<and> p \<le> end_of (last (rs @ [x])) \<longleftrightarrow> live_point u n out p"
  proof (cases "p \<le> Suc (2 * i)")
    case True
    then have "p = 2 * i \<or> p = Suc (2 * i)" using p(1) by auto
    then show ?thesis unfolding closed using none [OF True] new x(2-4) by (cases live') auto
  next
    case False
    then show ?thesis unfolding closed using D(7) [of p] p(2) x(4) by auto
  qed
qed

lemma set_start_props:
  assumes "rs \<noteq> []"
  shows "set_start q rs = butlast rs @ [last rs\<lparr>range_start := q\<rparr>]" "last (set_start q rs) = last rs\<lparr>range_start := q\<rparr>"
    "butlast (set_start q rs) = butlast rs" "set_start q rs \<noteq> []"
  by (simp_all add: set_start_def)

lemma sorted_set_start:
  "rs \<noteq> [] \<Longrightarrow> sorted_wrt (\<lambda>x y. end_of y < start_of x) rs \<Longrightarrow> sorted_wrt (\<lambda>x y. end_of y < start_of x) (set_start q rs)"
  by (cases rs rule: rev_cases) (auto simp: set_start_def sorted_wrt_append)

lemma scan_close:
  assumes s: "scanned b u n out (Suc i) (rs, True)" and i: "i < n" and u: "u i = Some Usage_DEF"
  shows "scanned b u n out i (set_start (RegAllocPoint i 1) rs, False)"
proof (rule scannedI)
  note D = scannedD [OF s, simplified]
  let ?x = "last rs\<lparr>range_start := RegAllocPoint i 1\<rparr>"
  have last: "last rs \<in> set rs" using D(2) by simp
  have e: "Suc (2 * i) \<le> end_of (last rs)" using D(3) by simp
  show "False \<longleftrightarrow> live_from u n out (n - i)" using live_from_step [OF i, of u out] u by simp
  have set: "set (set_start (RegAllocPoint i 1) rs) = insert ?x (set (butlast rs))" by (simp add: set_start_def)
  show "range_block y = b \<and> start_of y \<le> end_of y \<and> end_of y < 2 * n" if "y \<in> set (set_start (RegAllocPoint i 1) rs)" for y
    using that D(4) [of y] D(4) [OF last] e unfolding set by (auto dest: in_set_butlastD)
  show "2 * i \<le> start_of y" if "y \<in> set (if False then butlast (set_start (RegAllocPoint i 1) rs) else set_start (RegAllocPoint i 1) rs)" for y
    using that D(5) [of y] unfolding if_False set by auto
  show "sorted_wrt (\<lambda>x y. end_of y < start_of x) (set_start (RegAllocPoint i 1) rs)" using sorted_set_start D(2,6) by blast
  fix p assume p: "2 * i \<le> p" "p < 2 * n"
  have none: "\<not> (\<exists>y\<in>set (butlast rs). start_of y \<le> p \<and> p \<le> end_of y)" if "p \<le> Suc (2 * i)"
    using D(5) that by fastforce
  have "(\<exists>y\<in>set (set_start (RegAllocPoint i 1) rs). start_of y \<le> p \<and> p \<le> end_of y) \<longleftrightarrow>
      (\<exists>y\<in>set (butlast rs). start_of y \<le> p \<and> p \<le> end_of y) \<or> Suc (2 * i) \<le> p \<and> p \<le> end_of (last rs)"
    unfolding set by auto
  also have "\<dots> \<longleftrightarrow> live_point u n out p"
  proof (cases "p \<le> Suc (2 * i)")
    case True
    then have "p = 2 * i \<or> p = Suc (2 * i)" using p(1) by auto
    then show ?thesis
      using none [OF True] live_point_new [OF i, of u out] live_from_step [OF i, of u out] u e by auto
  next
    case False
    then show ?thesis using D(7) [of p] p(2) by auto
  qed
  finally show "(\<exists>y\<in>set (if False then butlast (set_start (RegAllocPoint i 1) rs) else set_start (RegAllocPoint i 1) rs).
      start_of y \<le> p \<and> p \<le> end_of y) \<or> False \<and> p \<le> end_of (last (set_start (RegAllocPoint i 1) rs)) \<longleftrightarrow> live_point u n out p"
    by simp
qed simp_all

lemma scanned_step:
  assumes s: "scanned b u n out (Suc i) (rs, live)" and i: "i < n" and k: "u i \<noteq> Some Usage_KILL"
  shows "scanned b u n out i (scan_usage b i (u i) (rs, live))"
proof -
  note L = live_from_step [OF i, of u out] and l = scannedD(1) [OF s] and N = live_point_new [OF i, of u out]
  consider "u i = None" | "u i = Some Usage_USE" | "u i = Some Usage_DEF" | "u i = Some Usage_USE_DEF"
    using k by (cases "u i") (auto intro: reg_usage.exhaust)
  then show ?thesis
  proof cases
    case 1
    then show ?thesis using scan_same [OF s i] L l by (auto simp: scan_usage_def)
  next
    case 2
    then show ?thesis
    proof (cases live)
      case True
      then show ?thesis using scan_same [OF s i] L l 2 by (auto simp: scan_usage_def)
    next
      case False
      then have s': "scanned b u n out (Suc i) (rs, False)" using s by simp
      show ?thesis using scan_push [OF s' i] L l N 2 False by (simp add: scan_usage_def)
    qed
  next
    case 3
    show ?thesis
    proof (cases live)
      case True
      then have "scanned b u n out (Suc i) (rs, True)" using s by simp
      from scan_close [OF this i 3] show ?thesis using 3 True by (simp add: scan_usage_def)
    next
      case False
      then have s': "scanned b u n out (Suc i) (rs, False)" using s by simp
      show ?thesis using scan_push [OF s' i] L l N 3 False by (simp add: scan_usage_def)
    qed
  next
    case 4
    show ?thesis
    proof (cases live)
      case True
      then show ?thesis using scan_same [OF s i] L l 4 by (auto simp: scan_usage_def)
    next
      case False
      then have s': "scanned b u n out (Suc i) (rs, False)" using s by simp
      show ?thesis using scan_push [OF s' i] L l N 4 False by (simp add: scan_usage_def)
    qed
  qed
qed

text \<open>The last \<open>k\<close> of \<open>n\<close> instructions.\<close>

definition scan_start :: "nat \<Rightarrow> nat \<Rightarrow> bool \<Rightarrow> live_range list \<times> bool" where
  "scan_start b n out = (if out then [LiveRange b (RegAllocPoint 0 0) (RegAllocPoint (n - 1) 1)] else [], out)"

primrec scan_from :: "nat \<Rightarrow> register \<Rightarrow> (nat \<Rightarrow> reg_op list) \<Rightarrow> nat \<Rightarrow> bool \<Rightarrow> nat \<Rightarrow> live_range list \<times> bool" where
  "scan_from b r ops n out 0 = scan_start b n out"
| "scan_from b r ops n out (Suc k) = scan_ops b (n - Suc k) r (ops (n - Suc k)) (scan_from b r ops n out k)"

lemma scan_from_scanned:
  "0 < n \<Longrightarrow> k \<le> n \<Longrightarrow> \<forall>i<n. regops_ok (ops i) \<and> \<not> killing (ops i) r \<Longrightarrow>
     scanned b (\<lambda>i. regop_of (ops i) r) n out (n - k) (scan_from b r ops n out k)"
proof (induction k)
  case 0
  then show ?case unfolding scan_from.simps scan_start_def
    by (intro scannedI) (auto simp: live_point_def split: if_splits)
next
  case (Suc k)
  then have i: "n - Suc k < n" and n: "Suc (n - Suc k) = n - k" by auto
  show ?case
    using scanned_step [OF _ i, of b "\<lambda>i. regop_of (ops i) r" out "fst (scan_from b r ops n out k)" "snd (scan_from b r ops n out k)"]
      Suc n i regop_of_not_KILL scan_ops_regop by simp
qed

lemma scan_usage_nonempty:
  assumes "snd s \<Longrightarrow> fst s \<noteq> []"
  shows "snd (scan_usage b i u s) \<Longrightarrow> fst (scan_usage b i u s) \<noteq> []"
    and "fst s \<noteq> [] \<or> u = Some Usage_USE \<Longrightarrow> fst (scan_usage b i u s) \<noteq> []"
  using assms by (auto simp: scan_usage_def set_start_def split: prod.splits option.splits reg_usage.splits if_splits)

lemma scan_ops_nonempty:
  assumes "snd s \<Longrightarrow> fst s \<noteq> []"
  shows "(snd (scan_ops b i r ops s) \<longrightarrow> fst (scan_ops b i r ops s) \<noteq> []) \<and>
    (fst s \<noteq> [] \<or> regop_of ops r = Some Usage_USE \<longrightarrow> fst (scan_ops b i r ops s) \<noteq> [])"
  using assms
proof (induction ops arbitrary: s)
  case (Cons op ops)
  let ?s = "if regop_reg op = r then scan_usage b i (Some (regop_usage op)) s else s"
  note N = scan_usage_nonempty [OF Cons.prems, where b = b and i = i and u = "Some (regop_usage op)"]
  have "snd ?s \<Longrightarrow> fst ?s \<noteq> []" using N(1) Cons.prems by (auto split: if_splits)
  note IH = Cons.IH [OF this]
  have "fst s \<noteq> [] \<or> regop_of (op # ops) r = Some Usage_USE \<Longrightarrow> fst ?s \<noteq> [] \<or> regop_of ops r = Some Usage_USE"
    using N(2) by (auto split: if_splits)
  then show ?case using IH by auto
qed auto

lemma scan_from_nonempty:
  "(snd (scan_from b r ops n out k) \<longrightarrow> fst (scan_from b r ops n out k) \<noteq> []) \<and>
   (out \<or> (\<exists>j<n. n - k \<le> j \<and> regop_of (ops j) r = Some Usage_USE) \<longrightarrow> k \<le> n \<longrightarrow> fst (scan_from b r ops n out k) \<noteq> [])"
proof (induction k)
  case 0
  then show ?case by (auto simp: scan_start_def)
next
  case (Suc k)
  note N = scan_ops_nonempty [where s = "scan_from b r ops n out k" and b = b and i = "n - Suc k" and r = r and ops = "ops (n - Suc k)"]
  have "regop_of (ops (n - Suc k)) r = Some Usage_USE \<or> n - k \<le> j" if "n - Suc k \<le> j" "regop_of (ops j) r = Some Usage_USE" for j
    using that by (cases "j = n - Suc k") auto
  then show ?case using Suc N unfolding scan_from.simps by auto
qed

lemma scan_usage_append:
  "(live \<Longrightarrow> rs \<noteq> []) \<Longrightarrow> scan_usage b i u (qs @ rs, live) = apfst ((@) qs) (scan_usage b i u (rs, live))"
  by (auto simp: scan_usage_def set_start_def butlast_append split: option.splits reg_usage.splits)

lemma scan_ops_append:
  "(live \<Longrightarrow> rs \<noteq> []) \<Longrightarrow> scan_ops b i r ops (qs @ rs, live) = apfst ((@) qs) (scan_ops b i r ops (rs, live))"
proof (induction ops arbitrary: rs live)
  case (Cons op ops)
  obtain rs' live' where s: "(if regop_reg op = r then scan_usage b i (Some (regop_usage op)) (rs, live) else (rs, live)) = (rs', live')"
    by fastforce
  have "live' \<Longrightarrow> rs' \<noteq> []"
    using s Cons.prems scan_usage_nonempty(1) [of "(rs, live)" b i "Some (regop_usage op)"] by (auto split: if_splits)
  then show ?case using Cons.IH [of live' rs'] s scan_usage_append [OF Cons.prems] by (auto split: if_splits)
qed simp

lemma for_each_down:
  assumes "\<And>i s. i < k \<Longrightarrow> P (Suc i) s \<Longrightarrow> \<exists>s'. f i s = Some s' \<and> P i s'" and "P k s"
  shows "\<exists>s'. for_each (rev [0..<k]) f s = Some s' \<and> P 0 s'"
  using assms
proof (induction k arbitrary: s)
  case (Suc k)
  then obtain s1 where "f k s = Some s1" "P k s1" by blast
  then show ?case using Suc.IH [OF _ \<open>P k s1\<close>] Suc.prems(1) by auto
qed simp

subsection \<open>A block\<close>

text \<open>The ranges of a register in a block, if the iteration has found out what is live at its start.\<close>

definition block_ranges :: "nat \<Rightarrow> (nat \<Rightarrow> reg_usage option) \<Rightarrow> nat \<Rightarrow> bool \<Rightarrow> bool \<Rightarrow> live_range list \<Rightarrow> bool" where
  "block_ranges b u n out in' rs \<longleftrightarrow>
     (\<forall>x\<in>set rs. range_block x = b \<and> start_of x \<le> end_of x \<and> end_of x < 2 * n) \<and>
     sorted_wrt (\<lambda>x y. end_of y < start_of x) rs \<and>
     ((in' \<longleftrightarrow> live_from u n out n) \<longrightarrow>
        (\<forall>p<2 * n. (\<exists>x\<in>set rs. start_of x \<le> p \<and> p \<le> end_of x) \<longleftrightarrow> live_point u n out p))"

lemma scanned_block:
  assumes s: "scanned b u n out 0 (rs, live)" and "in' \<Longrightarrow> rs \<noteq> []"
  shows "block_ranges b u n out in' (if in' then set_start (RegAllocPoint 0 0) rs else rs)"
proof (cases in')
  case True
  note D = scannedD [OF s]
  let ?x = "last rs\<lparr>range_start := RegAllocPoint 0 0\<rparr>"
  have rs: "rs \<noteq> []" using assms(2) True by simp
  have set: "set (set_start (RegAllocPoint 0 0) rs) = insert ?x (set (butlast rs))" by (simp add: set_start_def)
  have x: "range_block ?x = b" "start_of ?x = 0" "end_of ?x = end_of (last rs)" "end_of (last rs) < 2 * n"
    using D(4) [of "last rs"] rs by auto
  have "sorted_wrt (\<lambda>x y. end_of y < start_of x) (set_start (RegAllocPoint 0 0) rs)"
    using sorted_set_start rs D(6) by blast
  moreover have "\<forall>y\<in>set (set_start (RegAllocPoint 0 0) rs). range_block y = b \<and> start_of y \<le> end_of y \<and> end_of y < 2 * n"
    unfolding set using x D(4) by (auto dest: in_set_butlastD)
  moreover have "(\<exists>x\<in>set (set_start (RegAllocPoint 0 0) rs). start_of x \<le> p \<and> p \<le> end_of x) \<longleftrightarrow> live_point u n out p"
    if "live_from u n out n" "p < 2 * n" for p
  proof -
    have "live" using D(1) that by simp
    then show ?thesis using D(7) [of p] that(2) x unfolding set by auto
  qed
  ultimately show ?thesis using True by (simp add: block_ranges_def)
next
  case False
  note D = scannedD [OF s]
  have "(\<exists>x\<in>set rs. start_of x \<le> p \<and> p \<le> end_of x) \<longleftrightarrow> live_point u n out p"
    if "\<not> live_from u n out n" "p < 2 * n" for p
    using D(1) D(7) [of p] that by simp
  then show ?thesis using False D(4,6) by (auto simp: block_ranges_def)
qed

lemma Liveness_range_outs:
  "distinct outs \<Longrightarrow> RegRanges_get (Liveness_range_outs b block outs ranges) r =
     RegRanges_get ranges r @ fst (scan_start b (length (rab_instrs block)) (r \<in> set outs))"
  unfolding Liveness_range_outs_def by (induction outs arbitrary: ranges) (auto simp: scan_start_def)

lemma set_back_starts:
  assumes "distinct ins" "\<And>r. r \<in> set ins \<Longrightarrow> RegRanges_get ranges r \<noteq> []"
  obtains ranges' where "for_each ins (\<lambda>r. RegRanges_set_back_start r p) ranges = Some ranges'"
    "\<And>r. RegRanges_get ranges' r = (if r \<in> set ins then set_start p (RegRanges_get ranges r) else RegRanges_get ranges r)"
proof -
  have "\<exists>ranges'. for_each ins (\<lambda>r. RegRanges_set_back_start r p) ranges = Some ranges' \<and>
    (\<forall>r. RegRanges_get ranges' r = (if r \<in> set ins then set_start p (RegRanges_get ranges r) else RegRanges_get ranges r))"
    using assms
  proof (induction ins arbitrary: ranges)
    case (Cons q ins)
    have "RegRanges_get ranges q \<noteq> []" using Cons.prems(2) by simp
    then obtain m1 where m1: "RegRanges_set_back_start q p ranges = Some m1"
      "\<And>r. RegRanges_get m1 r = (if r = q then set_start p (RegRanges_get ranges q) else RegRanges_get ranges r)"
      using RegRanges_set_back_start by metis
    have "RegRanges_get m1 r \<noteq> []" if "r \<in> set ins" for r
      using that Cons.prems m1(2) by (auto simp: set_start_def)
    then obtain m2 where "for_each ins (\<lambda>r. RegRanges_set_back_start r p) m1 = Some m2"
      "\<forall>r. RegRanges_get m2 r = (if r \<in> set ins then set_start p (RegRanges_get m1 r) else RegRanges_get m1 r)"
      using Cons.IH [of m1] Cons.prems(1) by auto
    then show ?case using m1 Cons.prems(1) by auto
  qed simp
  then show thesis using that by blast
qed

lemma Liveness_range_block:
  assumes ok: "block_ok (blocks ! b)" and bounded: "BitSet_bounded (live_ins (ls ! b))" "BitSet_bounded (live_outs (ls ! b))"
    and ins: "\<And>r. r \<in> ins_of ls b \<Longrightarrow> r \<in> outs_of ls b \<or> (\<exists>i<num_instrs blocks b. usage_at blocks b i r = Some Usage_USE)"
  obtains ranges' kills' where "Liveness_range_block blocks ls b (ranges, kills) = Some (ranges', kills')"
    "\<And>r. \<forall>i<num_instrs blocks b. \<not> killing (rai_regs (rab_instrs (blocks ! b) ! i)) r \<Longrightarrow>
      \<exists>rs. RegRanges_get ranges' r = RegRanges_get ranges r @ rs \<and>
        block_ranges b (\<lambda>i. usage_at blocks b i r) (num_instrs blocks b) (r \<in> outs_of ls b) (r \<in> ins_of ls b) rs"
proof -
  let ?n = "num_instrs blocks b" and ?u = "\<lambda>r i. usage_at blocks b i r"
  obtain outs where outs: "RegisterSet_elements (live_outs (ls ! b)) = Some outs" "distinct outs" "set outs = outs_of ls b"
    using rs.elements_set [OF bounded(2)] by metis
  obtain in_regs where in_regs: "RegisterSet_elements (live_ins (ls ! b)) = Some in_regs" "distinct in_regs" "set in_regs = ins_of ls b"
    using rs.elements_set [OF bounded(1)] by metis
  have n: "0 < ?n" using block_okD(1) [OF ok] by simp
  let ?ops = "\<lambda>i. rai_regs (rab_instrs (blocks ! b) ! i)"
  define scan where "scan r k = scan_from b r ?ops ?n (r \<in> outs_of ls b) k" for r k
  have scan_live: "snd (scan r k) \<Longrightarrow> fst (scan r k) \<noteq> []" for r k using scan_from_nonempty by (simp add: scan_def)
  define P where "P i s \<longleftrightarrow> (\<forall>r. reg_state s r = apfst ((@) (RegRanges_get ranges r)) (scan r (?n - i)))"
    for i and s :: range_state
  have ok_P: "range_state_ok s" if "P i s" for i s
    using that scan_live by (auto simp: P_def range_state_ok_def prod_eq_iff)
  have step: "\<exists>s'. Liveness_range_instr b (blocks ! b) i s = Some s' \<and> P i s'" if i: "i < ?n" and s: "P (Suc i) s" for i s
  proof -
    obtain s' where s': "Liveness_range_instr b (blocks ! b) i s = Some s'"
      "\<And>r. reg_state s' r = scan_ops b i r (?ops i) (reg_state s r)"
      using Liveness_range_ops [OF ok_P [OF s]] unfolding Liveness_range_instr_def by metis
    have k: "?n - i = Suc (?n - Suc i)" "?n - Suc (?n - Suc i) = i" using i by auto
    have "reg_state s' r = apfst ((@) (RegRanges_get ranges r)) (scan r (?n - i))" for r
    proof -
      have "reg_state s r = (RegRanges_get ranges r @ fst (scan r (?n - Suc i)), snd (scan r (?n - Suc i)))"
        using s by (simp add: P_def apfst_def map_prod_def split: prod.splits)
      then show ?thesis
        using s'(2) scan_ops_append [OF scan_live, where b = b and i = i and r = r and ops = "?ops i" and qs = "RegRanges_get ranges r"]
        by (simp add: k scan_def)
    qed
    then show ?thesis using s'(1) by (auto simp: P_def)
  qed
  have start: "P ?n (Liveness_range_outs b (blocks ! b) outs ranges, kills, set outs)"
    using Liveness_range_outs [OF outs(2)] outs(3) by (simp add: P_def scan_def scan_start_def)
  have "\<exists>s'. for_each (rev [0..<?n]) (Liveness_range_instr b (blocks ! b))
      (Liveness_range_outs b (blocks ! b) outs ranges, kills, set outs) = Some s' \<and> P 0 s'"
    by (rule for_each_down [where P = P, OF step start])
  then obtain ranges1 kills1 live where s1: "for_each (rev [0..<?n]) (Liveness_range_instr b (blocks ! b))
      (Liveness_range_outs b (blocks ! b) outs ranges, kills, set outs) = Some (ranges1, kills1, live)" "P 0 (ranges1, kills1, live)"
    by (metis prod_cases3)
  have get1: "RegRanges_get ranges1 r = RegRanges_get ranges r @ fst (scan r ?n)" for r
    using s1(2) by (simp add: P_def prod_eq_iff)
  have nonempty: "fst (scan r ?n) \<noteq> []" if "r \<in> ins_of ls b" for r
    using scan_from_nonempty [of b r ?ops ?n "r \<in> outs_of ls b" ?n] ins [OF that] by (auto simp: scan_def)
  have "RegRanges_get ranges1 r \<noteq> []" if "r \<in> set in_regs" for r using that nonempty in_regs(3) get1 by simp
  then obtain ranges2 where r2: "for_each in_regs (\<lambda>r. RegRanges_set_back_start r (RegAllocPoint 0 0)) ranges1 = Some ranges2"
    "\<And>r. RegRanges_get ranges2 r = (if r \<in> ins_of ls b then set_start (RegAllocPoint 0 0) (RegRanges_get ranges1 r) else RegRanges_get ranges1 r)"
    using set_back_starts [OF in_regs(2)] in_regs(3) by metis
  have "\<exists>rs. RegRanges_get ranges2 r = RegRanges_get ranges r @ rs \<and>
        block_ranges b (?u r) ?n (r \<in> outs_of ls b) (r \<in> ins_of ls b) rs"
    if r: "\<forall>i<?n. \<not> killing (?ops i) r" for r
  proof -
    have "\<forall>i<?n. regops_ok (?ops i) \<and> \<not> killing (?ops i) r" using r block_okD(2) [OF ok] by blast
    then have "scanned b (?u r) ?n (r \<in> outs_of ls b) 0 (scan r ?n)"
      using scan_from_scanned [OF n order_refl] by (simp add: scan_def)
    from scanned_block [of b _ _ _ "fst (scan r ?n)" "snd (scan r ?n)", unfolded prod.collapse, OF this nonempty]
    have "block_ranges b (?u r) ?n (r \<in> outs_of ls b) (r \<in> ins_of ls b)
        (if r \<in> ins_of ls b then set_start (RegAllocPoint 0 0) (fst (scan r ?n)) else fst (scan r ?n))" .
    then show ?thesis using r2(2) get1 nonempty [of r] by (auto simp: set_start_def butlast_append)
  qed
  moreover have "Liveness_range_block blocks ls b (ranges, kills) = Some (ranges2, kills1)"
    using block_okD(1) [OF ok] outs(1) in_regs(1) s1(1) r2(1) by (simp add: Liveness_range_block_def Let_def)
  ultimately show thesis using that by blast
qed

subsection \<open>All blocks\<close>

definition killed :: "ra_block list \<Rightarrow> register \<Rightarrow> bool" where
  "killed blocks r \<longleftrightarrow> list_ex (\<lambda>block. list_ex (\<lambda>instr. killing (rai_regs instr) r) (rab_instrs block)) blocks"

lemma not_killed: "\<not> killed blocks r \<Longrightarrow> b < length blocks \<Longrightarrow> \<forall>i<num_instrs blocks b. \<not> killing (rai_regs (rab_instrs (blocks ! b) ! i)) r"
  by (auto simp: killed_def list_ex_length)

definition ranges_in :: "nat \<Rightarrow> live_range list \<Rightarrow> live_range list" where
  "ranges_in b rs = filter (\<lambda>x. range_block x = b) rs"

lemma ranges_in_append: "ranges_in b (rs @ qs) = ranges_in b rs @ ranges_in b qs"
  by (simp add: ranges_in_def)

lemma block_ranges_in: "block_ranges b u n out in' rs \<Longrightarrow> ranges_in c rs = (if c = b then rs else [])"
  by (auto simp: ranges_in_def block_ranges_def filter_empty_conv filter_id_conv)

lemma LivenessAnalysis_ranges_prefix:
  assumes ok: "blocks_ok blocks" and it: "iterates blocks (start_liveness blocks) ls" and "k \<le> length blocks"
  shows "\<exists>ranges kills. for_each [0..<k] (Liveness_range_block blocks ls) ([], []) = Some (ranges, kills) \<and>
    (\<forall>r. \<not> killed blocks r \<longrightarrow> (\<forall>x\<in>set (RegRanges_get ranges r). range_block x < k) \<and>
      (\<forall>b<k. block_ranges b (\<lambda>i. usage_at blocks b i r) (num_instrs blocks b) (r \<in> outs_of ls b) (r \<in> ins_of ls b)
         (ranges_in b (RegRanges_get ranges r))))"
  using assms(3)
proof (induction k)
  case 0
  then show ?case by (simp add: RegRanges_get_def)
next
  case (Suc k)
  then have k: "k < length blocks" by simp
  note I = iteratesD [OF it]
  obtain ranges kills where r: "for_each [0..<k] (Liveness_range_block blocks ls) ([], []) = Some (ranges, kills)"
    "\<And>r. \<not> killed blocks r \<Longrightarrow> (\<forall>x\<in>set (RegRanges_get ranges r). range_block x < k) \<and>
      (\<forall>b<k. block_ranges b (\<lambda>i. usage_at blocks b i r) (num_instrs blocks b) (r \<in> outs_of ls b) (r \<in> ins_of ls b)
         (ranges_in b (RegRanges_get ranges r)))"
    using Suc by auto
  have ins: "r \<in> outs_of ls k \<or> (\<exists>i<num_instrs blocks k. usage_at blocks k i r = Some Usage_USE)" if "r \<in> ins_of ls k" for r
    using I(8) [OF k that] start_liveness(2) [OF ok k, of r] by blast
  obtain ranges' kills' where b: "Liveness_range_block blocks ls k (ranges, kills) = Some (ranges', kills')"
    "\<And>r. \<forall>i<num_instrs blocks k. \<not> killing (rai_regs (rab_instrs (blocks ! k) ! i)) r \<Longrightarrow>
      \<exists>rs. RegRanges_get ranges' r = RegRanges_get ranges r @ rs \<and>
        block_ranges k (\<lambda>i. usage_at blocks k i r) (num_instrs blocks k) (r \<in> outs_of ls k) (r \<in> ins_of ls k) rs"
    by (rule Liveness_range_block [where b = k and ls = ls and ranges = ranges and kills = kills,
        OF blocks_okD(2) [OF ok k] I(4,5) [OF k]]) (assumption | rule ins that)+
  have "(\<forall>x\<in>set (RegRanges_get ranges' r). range_block x < Suc k) \<and>
      (\<forall>b<Suc k. block_ranges b (\<lambda>i. usage_at blocks b i r) (num_instrs blocks b) (r \<in> outs_of ls b) (r \<in> ins_of ls b)
         (ranges_in b (RegRanges_get ranges' r)))" if kr: "\<not> killed blocks r" for r
  proof -
    obtain rs where rs: "RegRanges_get ranges' r = RegRanges_get ranges r @ rs"
      "block_ranges k (\<lambda>i. usage_at blocks k i r) (num_instrs blocks k) (r \<in> outs_of ls k) (r \<in> ins_of ls k) rs"
      using b(2) [OF not_killed [OF kr k]] by blast
    note old = r(2) [OF kr]
    have "ranges_in k (RegRanges_get ranges r) = []" using old by (auto simp: ranges_in_def filter_empty_conv)
    then have in': "ranges_in b (RegRanges_get ranges' r) = (if b = k then rs else ranges_in b (RegRanges_get ranges r))" for b
      using rs(1) block_ranges_in [OF rs(2)] by (simp add: ranges_in_append)
    have "range_block x = k" if "x \<in> set rs" for x using rs(2) that by (simp add: block_ranges_def)
    then show ?thesis using old rs in' by (auto simp: less_Suc_eq)
  qed
  then show ?case using r(1) b(1) by (auto simp: for_each_append)
qed

text \<open>The registers that are live behind an instruction.\<close>

definition live_after :: "ra_block list \<Rightarrow> nat \<Rightarrow> nat \<Rightarrow> register \<Rightarrow> bool" where
  "live_after blocks b i r \<longleftrightarrow>
     (if Suc i < num_instrs blocks b then live_at blocks b (Suc i) r
      else \<exists>s\<in>set (rab_succs (blocks ! b)). live_at blocks s 0 r)"

lemma live_in_iff_live_at:
  assumes "blocks_ok blocks" "b < length blocks"
  shows "live_in blocks (start_liveness blocks) b r \<longleftrightarrow> live_at blocks b 0 r"
  using live_in_iff_live_from [OF assms] live_at_iff_live_from [OF assms, of 0 r] block_okD(1) [OF blocks_okD(2) [OF assms]]
  by simp

lemma live_out_iff_live_at:
  assumes "blocks_ok blocks" "b < length blocks"
  shows "live_out blocks (start_liveness blocks) b r \<longleftrightarrow> (\<exists>s\<in>set (rab_succs (blocks ! b)). live_at blocks s 0 r)"
  unfolding live_out_def using live_in_iff_live_at [OF assms(1)] blocks_okD(3) [OF assms] by blast

lemma reachable_blocks_range:
  assumes ok: "blocks_ok blocks"
  shows "b \<in> reachable_blocks blocks \<Longrightarrow> b < length blocks"
proof (induction rule: reachable_blocks.induct)
  case entry
  then show ?case using blocks_okD(1) [OF ok] by simp
next
  case (step b s)
  then show ?case using blocks_okD(3) [OF ok] by blast
qed

definition live_ranges_of :: "liveness_analysis \<Rightarrow> register \<Rightarrow> live_range list" where
  "live_ranges_of la r = RegRanges_get (la_reg_ranges la) r"

definition range_covers :: "live_range \<Rightarrow> nat \<Rightarrow> nat \<Rightarrow> nat \<Rightarrow> bool" where
  "range_covers x b i stage \<longleftrightarrow> range_block x = b \<and> start_of x \<le> 2 * i + stage \<and> 2 * i + stage \<le> end_of x"

lemma LivenessAnalysis_compute:
  assumes ok: "blocks_ok (raf_blocks f)"
  obtains la where "LivenessAnalysis_compute f = Some la"
    "\<And>b r. b \<in> reachable_blocks (raf_blocks f) \<Longrightarrow> r \<in> ins_of (la_block_liveness la) b \<longleftrightarrow> live_at (raf_blocks f) b 0 r"
    "\<And>b r. b \<in> reachable_blocks (raf_blocks f) \<Longrightarrow> r \<in> outs_of (la_block_liveness la) b \<longleftrightarrow>
       (\<exists>s\<in>set (rab_succs (raf_blocks f ! b)). live_at (raf_blocks f) s 0 r)"
    "\<And>r x. \<not> killed (raf_blocks f) r \<Longrightarrow> x \<in> set (live_ranges_of la r) \<Longrightarrow> range_block x < length (raf_blocks f)"
    "\<And>b r. \<not> killed (raf_blocks f) r \<Longrightarrow> b < length (raf_blocks f) \<Longrightarrow>
       block_ranges b (\<lambda>i. usage_at (raf_blocks f) b i r) (num_instrs (raf_blocks f) b)
         (r \<in> outs_of (la_block_liveness la) b) (r \<in> ins_of (la_block_liveness la) b) (ranges_in b (live_ranges_of la r))"
proof -
  let ?blocks = "raf_blocks f"
  have start: "live_ins (start_liveness ?blocks ! b) = BitSet_empty \<and> live_outs (start_liveness ?blocks ! b) = BitSet_empty"
    if "b < length ?blocks" for b using start_liveness(3,4) [OF ok that] by blast
  obtain ls where ls: "LivenessAnalysis_compute_ins_and_outs ?blocks (start_liveness ?blocks) = Some ls"
    "iterates ?blocks (start_liveness ?blocks) ls"
    "\<And>b. b \<in> reachable_blocks ?blocks \<Longrightarrow> ins_of ls b = {r. live_in ?blocks (start_liveness ?blocks) b r} \<and>
      outs_of ls b = {r. live_out ?blocks (start_liveness ?blocks) b r}"
    using LivenessAnalysis_compute_ins_and_outs [OF start_sets_ok [OF ok] blocks_okD(1) [OF ok] start] by blast
  obtain ranges kills where r: "for_each [0..<length ?blocks] (Liveness_range_block ?blocks ls) ([], []) = Some (ranges, kills)"
    "\<forall>r. \<not> killed ?blocks r \<longrightarrow> (\<forall>x\<in>set (RegRanges_get ranges r). range_block x < length ?blocks) \<and>
      (\<forall>b<length ?blocks. block_ranges b (\<lambda>i. usage_at ?blocks b i r) (num_instrs ?blocks b) (r \<in> outs_of ls b) (r \<in> ins_of ls b)
         (ranges_in b (RegRanges_get ranges r)))"
    using LivenessAnalysis_ranges_prefix [OF ok ls(2) order_refl] by blast
  define la where "la = \<lparr>la_block_liveness = ls, la_reg_ranges = ranges, la_kill_points = kills\<rparr>"
  have la: "la_block_liveness la = ls" "live_ranges_of la r = RegRanges_get ranges r" for r
    by (simp_all add: la_def live_ranges_of_def)
  have reach: "b < length ?blocks" if "b \<in> reachable_blocks ?blocks" for b using reachable_blocks_range [OF ok that] .
  show thesis
  proof (rule that [of la], unfold la)
    show "LivenessAnalysis_compute f = Some la"
      using ls(1) r(1) by (simp add: LivenessAnalysis_compute_def LivenessAnalysis_compute_precise_live_ranges_def la_def)
  qed (use ls(3) r(2) reach live_in_iff_live_at [OF ok] live_out_iff_live_at [OF ok] in auto)
qed

lemma sorted_wrt_ranges_in:
  "(\<And>b. b \<in> range_block ` set rs \<Longrightarrow> sorted_wrt Q (ranges_in b rs)) \<Longrightarrow>
     sorted_wrt (\<lambda>x y. range_block x = range_block y \<longrightarrow> Q x y) rs"
proof (induction rs)
  case (Cons x rs)
  have "sorted_wrt Q (ranges_in b rs)" if "b \<in> range_block ` set rs" for b
    using Cons.prems [of b] that by (auto simp: ranges_in_def split: if_splits)
  moreover have "Q x y" if "y \<in> set rs" "range_block x = range_block y" for y
    using Cons.prems [of "range_block x"] that by (auto simp: ranges_in_def)
  ultimately show ?case using Cons.IH by simp
qed simp

lemma live_ranges_disjoint:
  assumes range: "\<And>x. x \<in> set rs \<Longrightarrow> range_block x < n"
    and b: "\<And>b. b < n \<Longrightarrow> block_ranges b (u b) (k b) (out b) (in' b) (ranges_in b rs)"
  shows "sorted_wrt (\<lambda>x y. \<not> LiveRange_intersects x y) rs"
proof -
  have "sorted_wrt (\<lambda>x y. end_of y < start_of x) (ranges_in b rs)" if "b \<in> range_block ` set rs" for b
    using that range b [of b] by (auto simp: block_ranges_def)
  from sorted_wrt_ranges_in [OF this] show ?thesis
    by (rule sorted_wrt_mono_rel [rotated]) (auto simp: LiveRange_intersects_def)
qed

lemma block_ranges_cover:
  assumes ok: "blocks_ok blocks" and b: "b < length blocks" and i: "i < num_instrs blocks b"
    and r: "block_ranges b (\<lambda>i. usage_at blocks b i r) (num_instrs blocks b) out in' (ranges_in b rs)"
    and out: "out \<longleftrightarrow> (\<exists>s\<in>set (rab_succs (blocks ! b)). live_at blocks s 0 r)" and ins: "in' \<longleftrightarrow> live_at blocks b 0 r"
  shows "(\<exists>x\<in>set rs. range_covers x b i 0) \<longleftrightarrow> live_at blocks b i r"
    and "(\<exists>x\<in>set rs. range_covers x b i 1) \<longleftrightarrow>
      live_after blocks b i r \<or> usage_at blocks b i r = Some Usage_DEF \<or> usage_at blocks b i r = Some Usage_USE_DEF"
proof -
  let ?n = "num_instrs blocks b" and ?u = "\<lambda>i. usage_at blocks b i r"
  have o: "live_out blocks (start_liveness blocks) b r \<longleftrightarrow> out" using live_out_iff_live_at [OF ok b] out by simp
  have lf: "live_at blocks b j r \<longleftrightarrow> live_from ?u ?n out (?n - j)" if "j < ?n" for j
    using live_at_iff_live_from [OF ok b that] o by simp
  have "in' \<longleftrightarrow> live_from ?u ?n out ?n" using ins lf [of 0] i by (cases "rab_instrs (blocks ! b)") auto
  then have c: "(\<exists>x\<in>set rs. range_block x = b \<and> start_of x \<le> p \<and> p \<le> end_of x) \<longleftrightarrow> live_point ?u ?n out p" if "p < 2 * ?n" for p
    using r that unfolding block_ranges_def ranges_in_def by auto
  have after: "live_after blocks b i r \<longleftrightarrow> live_from ?u ?n out (?n - Suc i)"
    using lf [of "Suc i"] out i by (auto simp: live_after_def not_less le_less_Suc_eq)
  show "(\<exists>x\<in>set rs. range_covers x b i 0) \<longleftrightarrow> live_at blocks b i r"
    using c [of "2 * i"] i live_point_new(1) [OF i, of ?u out] lf [OF i] by (simp add: range_covers_def)
  show "(\<exists>x\<in>set rs. range_covers x b i 1) \<longleftrightarrow>
      live_after blocks b i r \<or> usage_at blocks b i r = Some Usage_DEF \<or> usage_at blocks b i r = Some Usage_USE_DEF"
    using c [of "Suc (2 * i)"] i live_point_new(2) [OF i, of ?u out] after by (simp add: range_covers_def)
qed

subsection \<open>The properties\<close>

text \<open>
  A loop: block 0 defines the registers 0 and 1, block 1 updates register 2, which it has copied
  from register 0, and uses register 1, block 2 uses register 0.
\<close>

definition live_example :: ra_func where
  "live_example =
     (let r = Register_from_virtual;
          op = (\<lambda>v u. \<lparr>regop_reg = r v, regop_usage = u\<rparr>);
          block = (\<lambda>opss succs. \<lparr>rab_nodes = [], rab_instrs = map (\<lambda>ops. \<lparr>rai_index = 0, rai_regs = ops\<rparr>) opss,
            rab_preds = [], rab_succs = succs, rab_reserved_segments = []\<rparr>)
      in \<lparr>raf_stack_frame = \<lparr>frame_stack_slots = [], frame_call_arg_slot_indices = [],
             frame_reg_save_slot_indices = [], frame_size = 0, frame_total_size = 0\<rparr>,
          raf_blocks = [
            block [[op 0 Usage_DEF], [op 1 Usage_DEF], []] [1],
            block [[op 2 Usage_DEF, op 0 Usage_USE], [op 2 Usage_USE_DEF, op 1 Usage_USE], []] [1, 2],
            block [[op 0 Usage_USE]] []]\<rparr>)"

lemma live_example: "blocks_ok (raf_blocks live_example)"
  by code_simp

text \<open>
  C25: Liveness at the ends of blocks: the iteration over the register sets ends, and for every block
  that can be reached from the entry, the sets of registers that it computes for the start and
  the end are exactly the registers that some path from there uses before it defines them.
\<close>
theorem LivenessAnalysis_ins_outs:
  assumes "blocks_ok (raf_blocks f)"
  shows "\<exists>la. LivenessAnalysis_compute f = Some la \<and>
     (\<forall>b\<in>reachable_blocks (raf_blocks f). \<forall>r.
        (RegisterSet_contains (live_ins (la_block_liveness la ! b)) r \<longleftrightarrow> live_at (raf_blocks f) b 0 r) \<and>
        (RegisterSet_contains (live_outs (la_block_liveness la ! b)) r \<longleftrightarrow>
           (\<exists>s\<in>set (rab_succs (raf_blocks f ! b)). live_at (raf_blocks f) s 0 r)))"
proof -
  obtain la where "LivenessAnalysis_compute f = Some la"
    "\<And>b r. b \<in> reachable_blocks (raf_blocks f) \<Longrightarrow> r \<in> ins_of (la_block_liveness la) b \<longleftrightarrow> live_at (raf_blocks f) b 0 r"
    "\<And>b r. b \<in> reachable_blocks (raf_blocks f) \<Longrightarrow> r \<in> outs_of (la_block_liveness la) b \<longleftrightarrow>
       (\<exists>s\<in>set (rab_succs (raf_blocks f ! b)). live_at (raf_blocks f) s 0 r)"
    using LivenessAnalysis_compute [OF assms] by metis
  then show ?thesis by (intro exI [of _ la]) (simp add: rs.contains_iff)
qed

theorem LivenessAnalysis_ins_outs_witness:
  "\<exists>la. LivenessAnalysis_compute live_example = Some la \<and>
     (\<forall>b\<in>reachable_blocks (raf_blocks live_example). \<forall>r.
        (RegisterSet_contains (live_ins (la_block_liveness la ! b)) r \<longleftrightarrow> live_at (raf_blocks live_example) b 0 r) \<and>
        (RegisterSet_contains (live_outs (la_block_liveness la ! b)) r \<longleftrightarrow>
           (\<exists>s\<in>set (rab_succs (raf_blocks live_example ! b)). live_at (raf_blocks live_example) s 0 r)))"
  using LivenessAnalysis_ins_outs [OF live_example] .

text \<open>
  C26: Live ranges of a register that no instruction kills, as the virtual registers: the ranges do not
  intersect each other, and in the blocks that can be reached they contain the use stage of an
  instruction exactly when the register is live in front of the instruction, and the definition
  stage exactly when it is live behind it or the instruction defines it.
\<close>
theorem LivenessAnalysis_ranges:
  assumes "blocks_ok (raf_blocks f)" and "\<not> killed (raf_blocks f) r"
  shows "\<exists>la. LivenessAnalysis_compute f = Some la \<and>
     sorted_wrt (\<lambda>x y. \<not> LiveRange_intersects x y) (live_ranges_of la r) \<and>
     (\<forall>b\<in>reachable_blocks (raf_blocks f). \<forall>i<length (rab_instrs (raf_blocks f ! b)).
        (\<exists>x\<in>set (live_ranges_of la r). range_covers x b i 0) = live_at (raf_blocks f) b i r \<and>
        (\<exists>x\<in>set (live_ranges_of la r). range_covers x b i 1) =
          (live_after (raf_blocks f) b i r \<or> usage_at (raf_blocks f) b i r = Some Usage_DEF \<or>
           usage_at (raf_blocks f) b i r = Some Usage_USE_DEF))"
proof -
  let ?blocks = "raf_blocks f"
  obtain la where la: "LivenessAnalysis_compute f = Some la"
    "\<And>b r. b \<in> reachable_blocks ?blocks \<Longrightarrow> r \<in> ins_of (la_block_liveness la) b \<longleftrightarrow> live_at ?blocks b 0 r"
    "\<And>b r. b \<in> reachable_blocks ?blocks \<Longrightarrow> r \<in> outs_of (la_block_liveness la) b \<longleftrightarrow>
       (\<exists>s\<in>set (rab_succs (?blocks ! b)). live_at ?blocks s 0 r)"
    "\<And>r x. \<not> killed ?blocks r \<Longrightarrow> x \<in> set (live_ranges_of la r) \<Longrightarrow> range_block x < length ?blocks"
    "\<And>b r. \<not> killed ?blocks r \<Longrightarrow> b < length ?blocks \<Longrightarrow>
       block_ranges b (\<lambda>i. usage_at ?blocks b i r) (num_instrs ?blocks b)
         (r \<in> outs_of (la_block_liveness la) b) (r \<in> ins_of (la_block_liveness la) b) (ranges_in b (live_ranges_of la r))"
    using LivenessAnalysis_compute [OF assms(1)] by blast
  have "sorted_wrt (\<lambda>x y. \<not> LiveRange_intersects x y) (live_ranges_of la r)"
    by (rule live_ranges_disjoint [OF la(4,5) [OF assms(2)]])
  moreover have "(\<exists>x\<in>set (live_ranges_of la r). range_covers x b i 0) = live_at ?blocks b i r \<and>
        (\<exists>x\<in>set (live_ranges_of la r). range_covers x b i 1) =
          (live_after ?blocks b i r \<or> usage_at ?blocks b i r = Some Usage_DEF \<or> usage_at ?blocks b i r = Some Usage_USE_DEF)"
    if b: "b \<in> reachable_blocks ?blocks" and i: "i < num_instrs ?blocks b" for b i
  proof -
    have b': "b < length ?blocks" using reachable_blocks_range [OF assms(1) b] .
    from block_ranges_cover [OF assms(1) b' i la(5) [OF assms(2) b'] la(3,2) [OF b]] show ?thesis by blast
  qed
  ultimately show ?thesis using la(1) by blast
qed

theorem LivenessAnalysis_ranges_witness:
  "\<exists>la. LivenessAnalysis_compute live_example = Some la \<and>
     sorted_wrt (\<lambda>x y. \<not> LiveRange_intersects x y) (live_ranges_of la (Register_from_virtual 2)) \<and>
     (\<forall>b\<in>reachable_blocks (raf_blocks live_example). \<forall>i<length (rab_instrs (raf_blocks live_example ! b)).
        (\<exists>x\<in>set (live_ranges_of la (Register_from_virtual 2)). range_covers x b i 0) =
          live_at (raf_blocks live_example) b i (Register_from_virtual 2) \<and>
        (\<exists>x\<in>set (live_ranges_of la (Register_from_virtual 2)). range_covers x b i 1) =
          (live_after (raf_blocks live_example) b i (Register_from_virtual 2) \<or>
           usage_at (raf_blocks live_example) b i (Register_from_virtual 2) = Some Usage_DEF \<or>
           usage_at (raf_blocks live_example) b i (Register_from_virtual 2) = Some Usage_USE_DEF))"
  by (rule LivenessAnalysis_ranges [OF live_example]) code_simp

end
