(* ===== verification/Reg_Alloc.thy ===== *)
theory Reg_Alloc
  imports Liveness
begin

section \<open>Register allocation\<close>

text \<open>
  \<open>RegAllocPass\<close> (\<open>src/banjo/codegen/reg_alloc_pass.cpp\<close>): bundles of segments are taken from a
  priority queue and get a register, evict another bundle or are spilled to a stack slot; then the
  registers are written into the instructions. What the standard library leaves open is a
  parameter: the order in which the map of ranges is iterated, and which of the bundles of the
  greatest weight is the top of the queue.
\<close>

record std_order =
  order_map :: "reg_ranges \<Rightarrow> reg_ranges"
  order_top :: "ra_bundle list \<Rightarrow> nat"

record ra_alloc =
  alloc_physical_reg :: u32
  alloc_bundle :: ra_bundle

record ra_context =
  ctx_func :: ra_func
  ctx_bundles :: "ra_bundle list"
  ctx_allocs :: "ra_alloc list"

subsection \<open>Preparation\<close>

definition RegAllocPass_assign_reg_classes :: "target_reg_analyzer \<Rightarrow> ra_func \<Rightarrow> reg_class_map option" where
  "RegAllocPass_assign_reg_classes an f =
     for_each (concat (map (\<lambda>block. map node_instr (rab_nodes block)) (raf_blocks f)))
       (an_assign_reg_classes an) Map.empty"

definition RegAllocPass_reserve :: "u32 \<Rightarrow> live_range \<Rightarrow> ra_func \<Rightarrow> ra_func" where
  "RegAllocPass_reserve reg lr f =
     (let b = range_block lr; block = raf_blocks f ! b in
      f\<lparr>raf_blocks := (raf_blocks f)[b := block\<lparr>rab_reserved_segments :=
          rab_reserved_segments block @ [\<lparr>reserved_reg = reg, reserved_range = lr\<rparr>]\<rparr>]\<rparr>)"

definition RegAllocPass_reserve_fixed_ranges :: "std_order \<Rightarrow> liveness_analysis \<Rightarrow> ra_func \<Rightarrow> ra_func" where
  "RegAllocPass_reserve_fixed_ranges ord la f =
     (let f1 = fold (\<lambda>(reg, ranges) f.
            if Register_is_physical reg
            then fold (RegAllocPass_reserve (Register_get_physical_reg reg)) ranges f
            else f) (order_map ord (la_reg_ranges la)) f
      in fold (\<lambda>k. RegAllocPass_reserve (kill_reg k)
            (LiveRange (kill_block k) (RegAllocPoint (kill_instr k) 1) (RegAllocPoint (kill_instr k) 1)))
          (la_kill_points la) f1)"

definition RegAllocPass_create_bundles ::
  "std_order \<Rightarrow> liveness_analysis \<Rightarrow> reg_class_map \<Rightarrow> ra_bundle list option" where
  "RegAllocPass_create_bundles ord la reg_classes =
     for_each (order_map ord (la_reg_ranges la)) (\<lambda>(reg, ranges) bundles.
       if Register_is_virtual reg
       then do {
         c \<leftarrow> reg_classes (Register_get_virtual_reg reg);
         Some (bundles @ [Bundle_make
           (map (\<lambda>lr. \<lparr>seg_reg = Register_get_virtual_reg reg, seg_range = lr\<rparr>) ranges) c])
       }
       else Some bundles) []"

subsection \<open>Coalescing\<close>

definition RegAllocPass_is_connecting_move ::
  "target_reg_analyzer \<Rightarrow> ra_block \<Rightarrow> segment \<Rightarrow> segment \<Rightarrow> bool option" where
  "RegAllocPass_is_connecting_move an block dst src =
     (let start = range_start (seg_range dst); end' = range_end (seg_range src) in
      if point_instr start = point_instr end' \<and> point_stage end' = 0 \<and> point_stage start = 1
      then do {
        ASSERT (point_instr start < length (rab_nodes block));
        an_is_move_from an (node_instr (rab_nodes block ! point_instr start)) (seg_reg src)
      }
      else Some False)"

definition RegAllocPass_intersect :: "ra_bundle \<Rightarrow> ra_bundle \<Rightarrow> bool" where
  "RegAllocPass_intersect a b \<longleftrightarrow>
     list_ex (\<lambda>segment_a. list_ex (\<lambda>segment_b. LiveRange_intersects (seg_range segment_a) (seg_range segment_b))
       (bundle_segments b)) (bundle_segments a)"

text \<open>The loop over the segments of the first bundle: whether the bundles are to be joined.\<close>

primrec RegAllocPass_find_connection ::
  "target_reg_analyzer \<Rightarrow> ra_func \<Rightarrow> ra_bundle \<Rightarrow> ra_bundle \<Rightarrow> segment \<Rightarrow> segment list \<Rightarrow> bool option" where
  "RegAllocPass_find_connection an f a b segment_b [] = Some False"
| "RegAllocPass_find_connection an f a b segment_b (segment_a # segments) =
     (if range_block (seg_range segment_a) \<noteq> range_block (seg_range segment_b)
      then RegAllocPass_find_connection an f a b segment_b segments
      else do {
        let block = raf_blocks f ! range_block (seg_range segment_a);
        is_a2b \<leftarrow> RegAllocPass_is_connecting_move an block segment_a segment_b;
        is_b2a \<leftarrow> RegAllocPass_is_connecting_move an block segment_b segment_a;
        (if (is_a2b \<or> is_b2a) \<and> \<not> RegAllocPass_intersect a b then Some True
         else RegAllocPass_find_connection an f a b segment_b segments)
      })"

definition RegAllocPass_try_coalesce ::
  "target_reg_analyzer \<Rightarrow> ra_func \<Rightarrow> nat \<Rightarrow> nat \<Rightarrow> ra_bundle list \<Rightarrow> ra_bundle list option" where
  "RegAllocPass_try_coalesce an f i j bundles =
     (let a = bundles ! i; b = bundles ! j in
      if bundle_reg_class a \<noteq> bundle_reg_class b \<or> length (bundle_segments b) \<noteq> 1 then Some bundles
      else do {
        let segment_b = bundle_segments b ! 0;
        found \<leftarrow> RegAllocPass_find_connection an f a b segment_b (bundle_segments a);
        Some (if found
              then (let joined = bundles[i := a\<lparr>bundle_segments := bundle_segments a @ [segment_b]\<rparr>] in
                    joined[j := (joined ! j)\<lparr>bundle_deleted := True\<rparr>])
              else bundles)
      })"

definition RegAllocPass_coalesce_bundles ::
  "target_reg_analyzer \<Rightarrow> ra_func \<Rightarrow> ra_bundle list \<Rightarrow> ra_bundle list option" where
  "RegAllocPass_coalesce_bundles an f bundles =
     do {
       bundles1 \<leftarrow> for_each [0..<length bundles] (\<lambda>i bundles.
         if bundle_deleted (bundles ! i) then Some bundles
         else for_each [0..<length bundles] (\<lambda>j bundles.
           if bundle_deleted (bundles ! j) then Some bundles
           else RegAllocPass_try_coalesce an f i j bundles) bundles) bundles;
       Some (filter (\<lambda>b. \<not> bundle_deleted b) bundles1)
     }"

subsection \<open>Allocation of a bundle\<close>

definition RegAllocPass_is_alloc_possible :: "ra_context \<Rightarrow> ra_bundle \<Rightarrow> u32 \<Rightarrow> bool" where
  "RegAllocPass_is_alloc_possible ctx b reg \<longleftrightarrow>
     list_all (\<lambda>segment.
       list_all (\<lambda>reserved. \<not> (reg = reserved_reg reserved \<and> LiveRange_intersects (seg_range segment) (reserved_range reserved)))
         (rab_reserved_segments (raf_blocks (ctx_func ctx) ! range_block (seg_range segment))) \<and>
       list_all (\<lambda>alloc. list_all (\<lambda>alloc_range.
         \<not> (alloc_physical_reg alloc = reg \<and> LiveRange_intersects (seg_range alloc_range) (seg_range segment)))
         (bundle_segments (alloc_bundle alloc))) (ctx_allocs ctx)) (bundle_segments b)"

text \<open>The loops over suggested and candidate registers.\<close>

definition RegAllocPass_try_assign :: "ra_context \<Rightarrow> ra_bundle \<Rightarrow> u32 list \<Rightarrow> ra_context option" where
  "RegAllocPass_try_assign ctx b regs =
     map_option (\<lambda>reg. ctx\<lparr>ctx_allocs := ctx_allocs ctx @ [\<lparr>alloc_physical_reg = reg, alloc_bundle = b\<rparr>]\<rparr>)
       (find (RegAllocPass_is_alloc_possible ctx b) regs)"

definition RegAllocPass_can_evict :: "ra_bundle \<Rightarrow> ra_alloc \<Rightarrow> bool" where
  "RegAllocPass_can_evict b alloc \<longleftrightarrow>
     bundle_evictable (alloc_bundle alloc) \<and> bundle_reg_class (alloc_bundle alloc) = bundle_reg_class b \<and>
     list_all (\<lambda>segment. list_ex (\<lambda>alloc_segment. LiveRange_contains (seg_range alloc_segment) (seg_range segment))
       (bundle_segments (alloc_bundle alloc))) (bundle_segments b)"

definition RegAllocPass_try_evict :: "ra_context \<Rightarrow> ra_bundle \<Rightarrow> ra_context option" where
  "RegAllocPass_try_evict ctx b =
     (if bundle_evictable b then None
      else map_option (\<lambda>i. ctx\<lparr>
          ctx_bundles := ctx_bundles ctx @ [alloc_bundle (ctx_allocs ctx ! i)],
          ctx_allocs := (ctx_allocs ctx)[i := (ctx_allocs ctx ! i)\<lparr>alloc_bundle := b\<rparr>]\<rparr>)
        (find (\<lambda>i. RegAllocPass_can_evict b (ctx_allocs ctx ! i)) [0..<length (ctx_allocs ctx)]))"

text \<open>The bundle that takes the place of an operand of a spilled register.\<close>

definition RegAllocPass_spill_op ::
  "ra_bundle \<Rightarrow> stack_slot_id \<Rightarrow> segment \<Rightarrow> nat \<Rightarrow> reg_op \<Rightarrow> ra_bundle list" where
  "RegAllocPass_spill_op b stack_slot segment instr op =
     (let v = Register_get_virtual_reg (regop_reg op);
          piece = (\<lambda>stage1 stage2 src dst.
            [\<lparr>bundle_segments = [\<lparr>seg_reg = v, seg_range = LiveRange (range_block (seg_range segment))
                 (RegAllocPoint instr stage1) (RegAllocPoint instr stage2)\<rparr>],
              bundle_reg_class = bundle_reg_class b, bundle_evictable = False,
              bundle_src_stack_slot = src, bundle_dst_stack_slot = dst, bundle_deleted = False\<rparr>])
      in if regop_reg op \<noteq> Register_from_virtual (seg_reg segment) then []
         else case regop_usage op of
           Usage_DEF \<Rightarrow> piece 1 1 None (Some stack_slot)
         | Usage_USE \<Rightarrow> piece 0 0 (Some stack_slot) None
         | Usage_USE_DEF \<Rightarrow> piece 0 1 (Some stack_slot) (Some stack_slot)
         | Usage_KILL \<Rightarrow> [])"

definition RegAllocPass_spill_segment :: "ra_func \<Rightarrow> ra_bundle \<Rightarrow> stack_slot_id \<Rightarrow> segment \<Rightarrow> ra_bundle list" where
  "RegAllocPass_spill_segment f b stack_slot segment =
     concat (map (\<lambda>instr. concat (map (RegAllocPass_spill_op b stack_slot segment instr)
         (rai_regs (rab_instrs (raf_blocks f ! range_block (seg_range segment)) ! instr))))
       [point_instr (range_start (seg_range segment))..<point_instr (range_end (seg_range segment)) + 1])"

definition RegAllocPass_spill :: "ra_context \<Rightarrow> ra_bundle \<Rightarrow> ra_context" where
  "RegAllocPass_spill ctx b =
     (let f = ctx_func ctx;
          (stack_slot, frame) = StackFrame_new_stack_slot (raf_stack_frame f) (StackSlot_make Slot_GENERIC 8 1)
      in ctx\<lparr>ctx_func := f\<lparr>raf_stack_frame := frame\<rparr>,
           ctx_bundles := ctx_bundles ctx @
             concat (map (RegAllocPass_spill_segment f b stack_slot) (bundle_segments b))\<rparr>)"

definition RegAllocPass_alloc_bundle :: "target_reg_analyzer \<Rightarrow> ra_context \<Rightarrow> ra_bundle \<Rightarrow> ra_context option" where
  "RegAllocPass_alloc_bundle an ctx b =
     do {
       suggested \<leftarrow> an_suggest_regs an (ctx_func ctx) b;
       (case RegAllocPass_try_assign ctx b suggested of
          Some ctx' \<Rightarrow> Some ctx'
        | None \<Rightarrow> do {
            candidates \<leftarrow> an_get_candidates an (bundle_reg_class b);
            Some (case RegAllocPass_try_assign ctx b candidates of
                    Some ctx' \<Rightarrow> ctx'
                  | None \<Rightarrow>
                      (case RegAllocPass_try_evict ctx b of
                         Some ctx' \<Rightarrow> ctx'
                       | None \<Rightarrow> RegAllocPass_spill ctx b))
          })
     }"

subsection \<open>The loop over the queue\<close>

definition BundleComparator_get_weight :: "ra_bundle \<Rightarrow> nat" where
  "BundleComparator_get_weight b =
     fold (\<lambda>segment longest. max longest
       (point_instr (range_end (seg_range segment)) - point_instr (range_start (seg_range segment))))
       (bundle_segments b) 0"

text \<open>One iteration: the top of the queue is removed and allocated.\<close>

definition RegAllocPass_alloc_step ::
  "target_reg_analyzer \<Rightarrow> std_order \<Rightarrow> ra_context \<Rightarrow> ra_context option" where
  "RegAllocPass_alloc_step an ord ctx =
     (let i = order_top ord (ctx_bundles ctx) in
      RegAllocPass_alloc_bundle an
        (ctx\<lparr>ctx_bundles := take i (ctx_bundles ctx) @ drop (Suc i) (ctx_bundles ctx)\<rparr>) (ctx_bundles ctx ! i))"

partial_function (option) RegAllocPass_alloc_loop ::
  "target_reg_analyzer \<Rightarrow> std_order \<Rightarrow> ra_context \<Rightarrow> ra_context option" where
  "RegAllocPass_alloc_loop an ord ctx =
     (if ctx_bundles ctx = [] then Some ctx
      else Option.bind (RegAllocPass_alloc_step an ord ctx) (RegAllocPass_alloc_loop an ord))"

subsection \<open>Writing the registers into the instructions\<close>

definition X8664Address_replace :: "register \<Rightarrow> register \<Rightarrow> x86_64_address \<Rightarrow> x86_64_address" where
  "X8664Address_replace reg new addr =
     (let addr1 = (if xa_base addr = XBase_reg reg then addr\<lparr>xa_base := XBase_reg new\<rparr> else addr) in
      case xa_offset_reg addr1 of
        Some offset \<Rightarrow>
          if xro_reg offset = reg then addr1\<lparr>xa_offset_reg := Some \<lparr>xro_reg = new, xro_scale = xro_scale offset\<rparr>\<rparr> else addr1
      | None \<Rightarrow> addr1)"

definition AArch64Address_get_base :: "aarch64_address \<Rightarrow> register" where
  "AArch64Address_get_base addr =
     (case addr of AA_BASE b \<Rightarrow> b | AA_BASE_OFFSET_IMM b _ \<Rightarrow> b | AA_BASE_OFFSET_IMM_WRITE b _ \<Rightarrow> b
      | AA_BASE_OFFSET_STACK_ADDR b _ \<Rightarrow> b | AA_BASE_OFFSET_REG b _ \<Rightarrow> b | AA_BASE_OFFSET_SYMBOL b _ \<Rightarrow> b)"

definition AArch64Address_set_base :: "register \<Rightarrow> aarch64_address \<Rightarrow> aarch64_address" where
  "AArch64Address_set_base new addr =
     (case addr of AA_BASE _ \<Rightarrow> AA_BASE new | AA_BASE_OFFSET_IMM _ i \<Rightarrow> AA_BASE_OFFSET_IMM new i
      | AA_BASE_OFFSET_IMM_WRITE _ i \<Rightarrow> AA_BASE_OFFSET_IMM_WRITE new i
      | AA_BASE_OFFSET_STACK_ADDR _ s \<Rightarrow> AA_BASE_OFFSET_STACK_ADDR new s
      | AA_BASE_OFFSET_REG _ r \<Rightarrow> AA_BASE_OFFSET_REG new r | AA_BASE_OFFSET_SYMBOL _ s \<Rightarrow> AA_BASE_OFFSET_SYMBOL new s)"

definition AArch64Address_replace :: "register \<Rightarrow> register \<Rightarrow> aarch64_address \<Rightarrow> aarch64_address" where
  "AArch64Address_replace reg new addr =
     (let addr1 = (if AArch64Address_get_base addr = reg then AArch64Address_set_base new addr else addr) in
      case addr1 of
        AA_BASE_OFFSET_REG b offset \<Rightarrow>
          if ro_reg offset = reg then AA_BASE_OFFSET_REG b \<lparr>ro_reg = new, ro_shift = ro_shift offset\<rparr> else addr1
      | _ \<Rightarrow> addr1)"

definition RegAllocPass_try_replace :: "u32 \<Rightarrow> u32 \<Rightarrow> operand \<Rightarrow> operand" where
  "RegAllocPass_try_replace virtual_reg physical_reg op =
     (let new = Register_from_physical physical_reg; reg = Register_from_virtual virtual_reg in
      case op_value op of
        Op_register r \<Rightarrow>
          if Register_is_virtual r \<and> Register_get_virtual_reg r = virtual_reg
          then op\<lparr>op_value := Op_register new\<rparr> else op
      | Op_x86_64_addr addr \<Rightarrow> op\<lparr>op_value := Op_x86_64_addr (X8664Address_replace reg new addr)\<rparr>
      | Op_aarch64_addr addr \<Rightarrow> op\<lparr>op_value := Op_aarch64_addr (AArch64Address_replace reg new addr)\<rparr>
      | _ \<Rightarrow> op)"

definition RaFunc_update_node :: "nat \<Rightarrow> nat \<Rightarrow> (ra_node \<Rightarrow> ra_node) \<Rightarrow> ra_func \<Rightarrow> ra_func" where
  "RaFunc_update_node b i update f =
     (let block = raf_blocks f ! b in
      f\<lparr>raf_blocks := (raf_blocks f)[b := block\<lparr>rab_nodes := (rab_nodes block)[i := update (rab_nodes block ! i)]\<rparr>]\<rparr>)"

definition RaNode_replace :: "u32 \<Rightarrow> u32 \<Rightarrow> ra_node \<Rightarrow> ra_node" where
  "RaNode_replace v p node =
     node\<lparr>node_instr := (node_instr node)\<lparr>instr_operands :=
        map (RegAllocPass_try_replace v p) (instr_operands (node_instr node))\<rparr>\<rparr>"

definition RegAllocPass_replace_segment :: "u32 \<Rightarrow> segment \<Rightarrow> ra_func \<Rightarrow> ra_func" where
  "RegAllocPass_replace_segment p segment f =
     fold (\<lambda>index. RaFunc_update_node (range_block (seg_range segment)) index (RaNode_replace (seg_reg segment) p))
       [point_instr (range_start (seg_range segment))..<point_instr (range_end (seg_range segment)) + 1] f"

text \<open>A load in front of the first, and a store behind the last instruction of the first segment.\<close>

definition RegAllocPass_insert ::
  "(stack_frame \<Rightarrow> spilled_reg_use \<Rightarrow> ra_node \<Rightarrow> ra_node option) \<Rightarrow> ra_alloc \<Rightarrow> nat \<Rightarrow> nat \<Rightarrow> stack_slot_id option \<Rightarrow>
     ra_func \<Rightarrow> ra_func option" where
  "RegAllocPass_insert insertion alloc b i slot f =
     (case slot of
        None \<Rightarrow> Some f
      | Some s \<Rightarrow>
          map_option (\<lambda>node. RaFunc_update_node b i (\<lambda>_. node) f)
            (insertion (raf_stack_frame f)
              \<lparr>spilled_stack_slot = s, spilled_reg = alloc_physical_reg alloc,
               spilled_reg_class = bundle_reg_class (alloc_bundle alloc)\<rparr>
              (rab_nodes (raf_blocks f ! b) ! i)))"

definition RegAllocPass_apply_alloc :: "target_reg_analyzer \<Rightarrow> ra_alloc \<Rightarrow> ra_func \<Rightarrow> ra_func option" where
  "RegAllocPass_apply_alloc an alloc f =
     (let b = alloc_bundle alloc; first = seg_range (bundle_segments b ! 0) in
      do {
        f1 \<leftarrow> RegAllocPass_insert (an_insert_load an) alloc (range_block first) (point_instr (range_start first))
          (bundle_src_stack_slot b) f;
        let f2 = fold (RegAllocPass_replace_segment (alloc_physical_reg alloc)) (bundle_segments b) f1;
        RegAllocPass_insert (an_insert_store an) alloc (range_block first) (point_instr (range_end first))
          (bundle_dst_stack_slot b) f2
      })"

definition RegAllocPass_remove_useless_instrs :: "target_reg_analyzer \<Rightarrow> m_instr list \<Rightarrow> m_instr list option" where
  "RegAllocPass_remove_useless_instrs an instrs =
     for_each instrs (\<lambda>i kept. do {
       removable \<leftarrow> an_is_instr_removable an i;
       Some (if removable then kept else kept @ [i])
     }) []"

definition RaBlock_instrs :: "ra_block \<Rightarrow> m_instr list" where
  "RaBlock_instrs block =
     concat (map (\<lambda>node. node_before node @ [node_instr node] @ node_after node) (rab_nodes block))"

subsection \<open>The pass\<close>

text \<open>What is done before the loop over the queue, and the loop.\<close>

definition RegAllocPass_start :: "target_reg_analyzer \<Rightarrow> std_order \<Rightarrow> ra_func \<Rightarrow> ra_context option" where
  "RegAllocPass_start an ord f =
     do {
       la \<leftarrow> LivenessAnalysis_compute f;
       reg_classes \<leftarrow> RegAllocPass_assign_reg_classes an f;
       let f1 = RegAllocPass_reserve_fixed_ranges ord la f;
       bundles \<leftarrow> RegAllocPass_create_bundles ord la reg_classes;
       bundles1 \<leftarrow> RegAllocPass_coalesce_bundles an f1 bundles;
       Some \<lparr>ctx_func = f1, ctx_bundles = bundles1, ctx_allocs = []\<rparr>
     }"

definition RegAllocPass_allocate :: "target_reg_analyzer \<Rightarrow> std_order \<Rightarrow> ra_func \<Rightarrow> ra_context option" where
  "RegAllocPass_allocate an ord f = Option.bind (RegAllocPass_start an ord f) (RegAllocPass_alloc_loop an ord)"

definition RegAllocPass_run_function :: "target_reg_analyzer \<Rightarrow> std_order \<Rightarrow> m_cfg_function \<Rightarrow> m_cfg_function option" where
  "RegAllocPass_run_function an ord func =
     do {
       f \<leftarrow> RegAllocPass_create_reg_alloc_func an func;
       ctx \<leftarrow> RegAllocPass_allocate an ord f;
       f1 \<leftarrow> for_each (ctx_allocs ctx) (RegAllocPass_apply_alloc an) (ctx_func ctx);
       instrs \<leftarrow> collect_each (\<lambda>block. RegAllocPass_remove_useless_instrs an (RaBlock_instrs block)) (raf_blocks f1);
       Some (func\<lparr>func_stack_frame := raf_stack_frame f1,
         func_basic_blocks := map (\<lambda>(block, instrs). block\<lparr>block_instrs := instrs\<rparr>) (zip (func_basic_blocks func) instrs)\<rparr>)
     }"

end
