(* ===== verification/Reg_Alloc_Loop.thy ===== *)
theory Reg_Alloc_Loop
  imports Reg_Alloc Live_Ranges "HOL-Library.Multiset"
begin

section \<open>Allocations do not interfere\<close>

text \<open>
  The invariant of the loop over the queue: allocations of the same register have no common point,
  with each other and with the reserved ranges of the register, and every live range is in a
  bundle or has been spilled. A measure shows that the loop ends, as long as no bundle that spilling
  has made is spilled again.
\<close>

subsection \<open>Ranges\<close>

lemma intersects_sym: "LiveRange_intersects x y \<longleftrightarrow> LiveRange_intersects y x"
  by (auto simp: LiveRange_intersects_def)

lemma intersects_contains:
  "LiveRange_contains x y \<Longrightarrow> LiveRange_intersects y z \<Longrightarrow> LiveRange_intersects x z"
  by (auto simp: LiveRange_contains_def LiveRange_intersects_def)

definition range_ok :: "live_range \<Rightarrow> bool" where
  "range_ok x \<longleftrightarrow> start_of x \<le> end_of x"

abbreviation segments_of :: "ra_bundle \<Rightarrow> segment set" where
  "segments_of b \<equiv> set (bundle_segments b)"

abbreviation clash :: "segment \<Rightarrow> segment \<Rightarrow> bool" where
  "clash s t \<equiv> LiveRange_intersects (seg_range s) (seg_range t)"

text \<open>The segments of a bundle have no common point.\<close>

definition bundle_ok :: "ra_bundle \<Rightarrow> bool" where
  "bundle_ok b \<longleftrightarrow> sorted_wrt (\<lambda>s t. \<not> clash s t) (bundle_segments b) \<and> (\<forall>s\<in>segments_of b. range_ok (seg_range s))"

subsection \<open>The invariant of the allocations\<close>

definition apart :: "ra_alloc \<Rightarrow> ra_alloc \<Rightarrow> bool" where
  "apart a a' \<longleftrightarrow>
     alloc_physical_reg a = alloc_physical_reg a' \<longrightarrow>
       (\<forall>s\<in>segments_of (alloc_bundle a). \<forall>t\<in>segments_of (alloc_bundle a'). \<not> clash s t)"

definition allocs_disjoint :: "ra_alloc list \<Rightarrow> bool" where
  "allocs_disjoint allocs \<longleftrightarrow> sorted_wrt apart allocs"

definition avoids_reserved :: "ra_func \<Rightarrow> ra_alloc \<Rightarrow> bool" where
  "avoids_reserved f a \<longleftrightarrow>
     (\<forall>s\<in>segments_of (alloc_bundle a). \<forall>r\<in>set (rab_reserved_segments (raf_blocks f ! range_block (seg_range s))).
        reserved_reg r = alloc_physical_reg a \<longrightarrow> \<not> LiveRange_intersects (seg_range s) (reserved_range r))"

definition allocs_ok :: "ra_context \<Rightarrow> bool" where
  "allocs_ok ctx \<longleftrightarrow>
     allocs_disjoint (ctx_allocs ctx) \<and> (\<forall>a\<in>set (ctx_allocs ctx). avoids_reserved (ctx_func ctx) a) \<and>
     (\<forall>a\<in>set (ctx_allocs ctx). bundle_ok (alloc_bundle a)) \<and> (\<forall>b\<in>set (ctx_bundles ctx). bundle_ok b)"

lemma sorted_wrt_symmetric:
  assumes sym: "\<And>x y. R x y \<Longrightarrow> R y x"
  shows "sorted_wrt R xs \<longleftrightarrow> (\<forall>i<length xs. \<forall>j<length xs. i \<noteq> j \<longrightarrow> R (xs ! i) (xs ! j))"
proof
  assume l: "sorted_wrt R xs"
  show "\<forall>i<length xs. \<forall>j<length xs. i \<noteq> j \<longrightarrow> R (xs ! i) (xs ! j)"
  proof (intro allI impI)
    fix i j
    assume "i < length xs" "j < length xs" "i \<noteq> j"
    then show "R (xs ! i) (xs ! j)"
      using l sym linorder_neqE_nat [of i j] unfolding sorted_wrt_iff_nth_less by metis
  qed
qed (simp add: sorted_wrt_iff_nth_less)

lemma apart_sym: "apart a a' \<Longrightarrow> apart a' a"
  unfolding apart_def by (metis intersects_sym)

lemma allocs_disjoint_nth:
  "allocs_disjoint allocs \<longleftrightarrow> (\<forall>i<length allocs. \<forall>j<length allocs. i \<noteq> j \<longrightarrow> apart (allocs ! i) (allocs ! j))"
  unfolding allocs_disjoint_def using sorted_wrt_symmetric [of apart, OF apart_sym] .

lemma assign_ok:
  assumes ok: "allocs_ok ctx" and b: "bundle_ok b" and r: "RegAllocPass_try_assign ctx b regs = Some ctx'"
  shows "allocs_ok ctx'" "ctx_func ctx' = ctx_func ctx" "ctx_bundles ctx' = ctx_bundles ctx"
    "\<exists>reg. ctx_allocs ctx' = ctx_allocs ctx @ [\<lparr>alloc_physical_reg = reg, alloc_bundle = b\<rparr>]"
proof -
  obtain reg where reg: "RegAllocPass_is_alloc_possible ctx b reg"
    "ctx' = ctx\<lparr>ctx_allocs := ctx_allocs ctx @ [\<lparr>alloc_physical_reg = reg, alloc_bundle = b\<rparr>]\<rparr>"
    using r by (auto simp: RegAllocPass_try_assign_def find_Some_iff)
  show "ctx_func ctx' = ctx_func ctx" "ctx_bundles ctx' = ctx_bundles ctx"
    "\<exists>reg. ctx_allocs ctx' = ctx_allocs ctx @ [\<lparr>alloc_physical_reg = reg, alloc_bundle = b\<rparr>]"
    using reg(2) by auto
  have free: "\<not> clash s t" if "a \<in> set (ctx_allocs ctx)" "alloc_physical_reg a = reg" "s \<in> segments_of (alloc_bundle a)" "t \<in> segments_of b" for a s t
    using reg(1) that unfolding RegAllocPass_is_alloc_possible_def list_all_iff by blast
  have "avoids_reserved (ctx_func ctx) \<lparr>alloc_physical_reg = reg, alloc_bundle = b\<rparr>"
    using reg(1) unfolding RegAllocPass_is_alloc_possible_def list_all_iff by (auto simp: avoids_reserved_def)
  then show "allocs_ok ctx'"
    using ok b free unfolding allocs_ok_def allocs_disjoint_def reg(2) by (auto simp: sorted_wrt_append apart_def)
qed

text \<open>Eviction puts a bundle into the place of another one that contains it.\<close>

lemma evict_cases:
  assumes "RegAllocPass_try_evict ctx b = Some ctx'"
  obtains i where "i < length (ctx_allocs ctx)" "RegAllocPass_can_evict b (ctx_allocs ctx ! i)" "\<not> bundle_evictable b"
    "ctx' = ctx\<lparr>ctx_bundles := ctx_bundles ctx @ [alloc_bundle (ctx_allocs ctx ! i)],
       ctx_allocs := (ctx_allocs ctx)[i := (ctx_allocs ctx ! i)\<lparr>alloc_bundle := b\<rparr>]\<rparr>"
  using assms by (auto simp: RegAllocPass_try_evict_def find_Some_iff split: if_splits)

lemma evict_ok:
  assumes ok: "allocs_ok ctx" and b: "bundle_ok b" and r: "RegAllocPass_try_evict ctx b = Some ctx'"
  shows "allocs_ok ctx'" "ctx_func ctx' = ctx_func ctx"
proof -
  obtain i where i: "i < length (ctx_allocs ctx)" "RegAllocPass_can_evict b (ctx_allocs ctx ! i)"
    "ctx' = ctx\<lparr>ctx_bundles := ctx_bundles ctx @ [alloc_bundle (ctx_allocs ctx ! i)],
       ctx_allocs := (ctx_allocs ctx)[i := (ctx_allocs ctx ! i)\<lparr>alloc_bundle := b\<rparr>]\<rparr>"
    using evict_cases [OF r] by metis
  let ?a = "ctx_allocs ctx ! i"
  show f: "ctx_func ctx' = ctx_func ctx" using i(3) by simp
  have inside: "\<exists>t\<in>segments_of (alloc_bundle ?a). LiveRange_contains (seg_range t) (seg_range s)" if "s \<in> segments_of b" for s
    using i(2) that by (auto simp: RegAllocPass_can_evict_def list_all_iff list_ex_iff)
  have mem: "?a \<in> set (ctx_allocs ctx)" using i(1) by simp
  have "avoids_reserved (ctx_func ctx) (?a\<lparr>alloc_bundle := b\<rparr>)"
    unfolding avoids_reserved_def
  proof (intro ballI impI)
    fix s r
    assume s: "s \<in> segments_of (alloc_bundle (?a\<lparr>alloc_bundle := b\<rparr>))"
      "r \<in> set (rab_reserved_segments (raf_blocks (ctx_func ctx) ! range_block (seg_range s)))"
      "reserved_reg r = alloc_physical_reg (?a\<lparr>alloc_bundle := b\<rparr>)"
    obtain t where t: "t \<in> segments_of (alloc_bundle ?a)" "LiveRange_contains (seg_range t) (seg_range s)"
      using inside [of s] s(1) by auto
    have "range_block (seg_range t) = range_block (seg_range s)" using t(2) by (simp add: LiveRange_contains_def)
    then have "\<not> LiveRange_intersects (seg_range t) (reserved_range r)"
      using ok mem t(1) s(2,3) by (auto simp: allocs_ok_def avoids_reserved_def)
    then show "\<not> LiveRange_intersects (seg_range s) (reserved_range r)" using intersects_contains t(2) by blast
  qed
  moreover have "allocs_disjoint ((ctx_allocs ctx)[i := ?a\<lparr>alloc_bundle := b\<rparr>])"
  proof -
    have old: "apart (ctx_allocs ctx ! j) (ctx_allocs ctx ! k)" if "j < length (ctx_allocs ctx)" "k < length (ctx_allocs ctx)" "j \<noteq> k" for j k
      using ok that unfolding allocs_ok_def allocs_disjoint_nth by blast
    have new: "apart (?a\<lparr>alloc_bundle := b\<rparr>) (ctx_allocs ctx ! k)" if "k < length (ctx_allocs ctx)" "i \<noteq> k" for k
      using old [OF i(1) that] inside intersects_contains by (fastforce simp: apart_def)
    show ?thesis
      unfolding allocs_disjoint_nth using i(1) old new apart_sym by (auto simp: nth_list_update)
  qed
  ultimately show "allocs_ok ctx'"
    using ok b mem unfolding allocs_ok_def f unfolding i(3)
    by (auto dest!: set_update_subset_insert [THEN subsetD])
qed

text \<open>The bundles that spilling makes have one segment each, at one instruction.\<close>

lemma spill_op_cases:
  assumes "p \<in> set (RegAllocPass_spill_op b k s i op)"
  shows "bundle_ok p" "\<not> bundle_evictable p" "regop_reg op = Register_from_virtual (seg_reg s)"
  using assms
  by (auto simp: RegAllocPass_spill_op_def Let_def bundle_ok_def range_ok_def split: if_splits reg_usage.splits)

lemma spill_segment_cases:
  "p \<in> set (RegAllocPass_spill_segment f b k s) \<Longrightarrow> \<exists>i op. p \<in> set (RegAllocPass_spill_op b k s i op)"
  by (auto simp: RegAllocPass_spill_segment_def)

definition spilled_bundles :: "ra_func \<Rightarrow> ra_bundle \<Rightarrow> stack_slot_id \<Rightarrow> ra_bundle list" where
  "spilled_bundles f b k = concat (map (RegAllocPass_spill_segment f b k) (bundle_segments b))"

lemma spill_ctx:
  obtains k frame where "RegAllocPass_spill ctx b =
    ctx\<lparr>ctx_func := (ctx_func ctx)\<lparr>raf_stack_frame := frame\<rparr>, ctx_bundles := ctx_bundles ctx @ spilled_bundles (ctx_func ctx) b k\<rparr>"
  using that unfolding RegAllocPass_spill_def spilled_bundles_def by (simp add: split_beta Let_def)

lemma spilled_bundles_ok: "p \<in> set (spilled_bundles f b k) \<Longrightarrow> bundle_ok p \<and> \<not> bundle_evictable p"
  unfolding spilled_bundles_def using spill_segment_cases spill_op_cases by fastforce

lemma spill_blocks: "raf_blocks (ctx_func (RegAllocPass_spill ctx b)) = raf_blocks (ctx_func ctx)"
  by (rule spill_ctx [of ctx b]) simp

lemma spill_ok:
  assumes "allocs_ok ctx"
  shows "allocs_ok (RegAllocPass_spill ctx b)"
proof -
  obtain k frame where e: "RegAllocPass_spill ctx b =
    ctx\<lparr>ctx_func := (ctx_func ctx)\<lparr>raf_stack_frame := frame\<rparr>, ctx_bundles := ctx_bundles ctx @ spilled_bundles (ctx_func ctx) b k\<rparr>"
    by (rule spill_ctx)
  show "allocs_ok (RegAllocPass_spill ctx b)"
    using assms spilled_bundles_ok unfolding e allocs_ok_def avoids_reserved_def by auto
qed

subsection \<open>The steps of the loop\<close>

abbreviation top_of :: "std_order \<Rightarrow> ra_context \<Rightarrow> ra_bundle" where
  "top_of ord ctx \<equiv> ctx_bundles ctx ! order_top ord (ctx_bundles ctx)"

definition without_top :: "std_order \<Rightarrow> ra_context \<Rightarrow> ra_context" where
  "without_top ord ctx =
     (let i = order_top ord (ctx_bundles ctx) in ctx\<lparr>ctx_bundles := take i (ctx_bundles ctx) @ drop (Suc i) (ctx_bundles ctx)\<rparr>)"

lemma without_top_simps [simp]:
  "ctx_func (without_top ord ctx) = ctx_func ctx" "ctx_allocs (without_top ord ctx) = ctx_allocs ctx"
  by (simp_all add: without_top_def Let_def)

lemma mset_without_top:
  assumes "order_top ord (ctx_bundles ctx) < length (ctx_bundles ctx)"
  shows "mset (ctx_bundles ctx) = add_mset (top_of ord ctx) (mset (ctx_bundles (without_top ord ctx)))"
proof -
  have "mset (ctx_bundles ctx) = mset (take (order_top ord (ctx_bundles ctx)) (ctx_bundles ctx) @ [top_of ord ctx] @
      drop (Suc (order_top ord (ctx_bundles ctx))) (ctx_bundles ctx))"
    using list_eq_take_nth_drop [OF assms] by simp
  then show ?thesis by (simp add: without_top_def Let_def)
qed

text \<open>
  The loop spills a bundle that spilling has made: no register is free for it, and it can evict
  no other bundle.
\<close>

definition respills :: "target_reg_analyzer \<Rightarrow> std_order \<Rightarrow> ra_context \<Rightarrow> bool" where
  "respills an ord ctx \<longleftrightarrow>
     (let b = top_of ord ctx; ctx' = without_top ord ctx in
      ctx_bundles ctx \<noteq> [] \<and> \<not> bundle_evictable b \<and>
      (case (an_suggest_regs an (ctx_func ctx) b, an_get_candidates an (bundle_reg_class b)) of
         (Some suggested, Some candidates) \<Rightarrow> list_all (\<lambda>reg. \<not> RegAllocPass_is_alloc_possible ctx' b reg) (suggested @ candidates)
       | _ \<Rightarrow> False) \<and>
      RegAllocPass_try_evict ctx' b = None)"

lemma alloc_step_cases:
  assumes "RegAllocPass_alloc_step an ord ctx = Some ctx'" "ctx_bundles ctx \<noteq> []"
  obtains (assign) regs where "RegAllocPass_try_assign (without_top ord ctx) (top_of ord ctx) regs = Some ctx'"
  | (evict) "RegAllocPass_try_evict (without_top ord ctx) (top_of ord ctx) = Some ctx'"
  | (spill) "ctx' = RegAllocPass_spill (without_top ord ctx) (top_of ord ctx)" "bundle_evictable (top_of ord ctx)"
  | (respill) "respills an ord ctx"
proof -
  let ?b = "top_of ord ctx" and ?c = "without_top ord ctx"
  have step: "RegAllocPass_alloc_bundle an ?c ?b = Some ctx'"
    using assms(1) by (simp add: RegAllocPass_alloc_step_def without_top_def Let_def)
  then obtain suggested where s: "an_suggest_regs an (ctx_func ctx) ?b = Some suggested"
    by (auto simp: RegAllocPass_alloc_bundle_def bind_simps)
  show thesis
  proof (cases "RegAllocPass_try_assign ?c ?b suggested")
    case (Some c)
    then show ?thesis using step s by (intro assign) (auto simp: RegAllocPass_alloc_bundle_def)
  next
    case None
    obtain candidates where c: "an_get_candidates an (bundle_reg_class ?b) = Some candidates"
      using step s None by (auto simp: RegAllocPass_alloc_bundle_def bind_simps)
    show ?thesis
    proof (cases "RegAllocPass_try_assign ?c ?b candidates")
      case (Some c')
      then show ?thesis using step s c None by (intro assign) (auto simp: RegAllocPass_alloc_bundle_def)
    next
      case none: None
      show ?thesis
      proof (cases "RegAllocPass_try_evict ?c ?b")
        case (Some c')
        then show ?thesis using step s c None none by (intro evict) (auto simp: RegAllocPass_alloc_bundle_def)
      next
        case last: None
        have "ctx' = RegAllocPass_spill ?c ?b"
          using step s c None none last by (auto simp: RegAllocPass_alloc_bundle_def)
        moreover have "list_all (\<lambda>reg. \<not> RegAllocPass_is_alloc_possible ?c ?b reg) (suggested @ candidates)"
          using None none by (auto simp: RegAllocPass_try_assign_def find_None_iff list_all_iff)
        ultimately show ?thesis
          using spill respill s c last assms(2) by (cases "bundle_evictable ?b") (auto simp: respills_def Let_def)
      qed
    qed
  qed
qed

subsection \<open>Termination\<close>

text \<open>
  The weight of the queue and of the allocations: a bundle that has not been spilled counts for
  the bundles that spilling it makes.
\<close>

definition pieces :: "ra_func \<Rightarrow> ra_bundle \<Rightarrow> nat" where
  "pieces f b = length (spilled_bundles f b 0)"

definition queue_weight :: "ra_func \<Rightarrow> ra_bundle \<Rightarrow> nat" where
  "queue_weight f b = (if bundle_evictable b then 2 + 2 * pieces f b else 2)"

definition alloc_weight :: "ra_func \<Rightarrow> ra_alloc \<Rightarrow> nat" where
  "alloc_weight f a = (if bundle_evictable (alloc_bundle a) then 1 + 2 * pieces f (alloc_bundle a) else 0)"

definition ctx_weight :: "ra_context \<Rightarrow> nat" where
  "ctx_weight ctx = sum_list (map (queue_weight (ctx_func ctx)) (ctx_bundles ctx)) +
     sum_list (map (alloc_weight (ctx_func ctx)) (ctx_allocs ctx))"

lemma length_concat_map_cong:
  "(\<And>x. x \<in> set xs \<Longrightarrow> length (f x) = length (g x)) \<Longrightarrow> length (concat (map f xs)) = length (concat (map g xs))"
  by (induction xs) auto

lemma length_spilled_bundles: "length (spilled_bundles f b k) = pieces f b"
proof -
  have "length (RegAllocPass_spill_op b k s i op) = length (RegAllocPass_spill_op b 0 s i op)" for s i op
    by (auto simp: RegAllocPass_spill_op_def Let_def split: reg_usage.splits)
  then show ?thesis
    unfolding pieces_def spilled_bundles_def RegAllocPass_spill_segment_def by (intro length_concat_map_cong) auto
qed

lemma weights_blocks:
  assumes "raf_blocks f = raf_blocks g"
  shows "queue_weight f = queue_weight g" "alloc_weight f = alloc_weight g"
proof -
  have "RegAllocPass_spill_segment f = RegAllocPass_spill_segment g"
    by (intro ext) (simp add: RegAllocPass_spill_segment_def assms)
  then show "queue_weight f = queue_weight g" "alloc_weight f = alloc_weight g"
    by (intro ext; simp add: queue_weight_def alloc_weight_def pieces_def spilled_bundles_def)+
qed

lemma sum_list_update_nat:
  "i < length xs \<Longrightarrow> sum_list (map (f :: 'a \<Rightarrow> nat) (xs[i := x])) + f (xs ! i) = sum_list (map f xs) + f x"
  by (induction xs arbitrary: i) (auto split: nat.splits)

lemma queue_weights_mset: "sum_list (map (queue_weight f) bs) = sum_mset (image_mset (queue_weight f) (mset bs))"
  by (metis mset_map sum_mset_sum_list)

lemma weight_without_top:
  assumes "order_top ord (ctx_bundles ctx) < length (ctx_bundles ctx)"
  shows "ctx_weight ctx = queue_weight (ctx_func ctx) (top_of ord ctx) + ctx_weight (without_top ord ctx)"
  unfolding ctx_weight_def queue_weights_mset mset_without_top [OF assms] by simp

lemma step_weight:
  assumes top: "order_top ord (ctx_bundles ctx) < length (ctx_bundles ctx)" and ne: "ctx_bundles ctx \<noteq> []"
    and step: "RegAllocPass_alloc_step an ord ctx = Some ctx'" and "\<not> respills an ord ctx"
  shows "ctx_weight ctx' < ctx_weight ctx"
  unfolding weight_without_top [OF top] using step ne
proof (cases rule: alloc_step_cases)
  case (assign regs)
  then obtain reg where "ctx' = (without_top ord ctx)\<lparr>ctx_allocs := ctx_allocs ctx @ [\<lparr>alloc_physical_reg = reg, alloc_bundle = top_of ord ctx\<rparr>]\<rparr>"
    by (auto simp: RegAllocPass_try_assign_def)
  then show "ctx_weight ctx' < queue_weight (ctx_func ctx) (top_of ord ctx) + ctx_weight (without_top ord ctx)"
    by (simp add: ctx_weight_def queue_weight_def alloc_weight_def)
next
  case evict
  obtain i where i: "i < length (ctx_allocs ctx)" "RegAllocPass_can_evict (top_of ord ctx) (ctx_allocs ctx ! i)"
    "\<not> bundle_evictable (top_of ord ctx)"
    "ctx' = (without_top ord ctx)\<lparr>ctx_bundles := ctx_bundles (without_top ord ctx) @ [alloc_bundle (ctx_allocs ctx ! i)],
       ctx_allocs := (ctx_allocs ctx)[i := (ctx_allocs ctx ! i)\<lparr>alloc_bundle := top_of ord ctx\<rparr>]\<rparr>"
    using evict_cases [OF evict] unfolding without_top_simps by blast
  have ev: "bundle_evictable (alloc_bundle (ctx_allocs ctx ! i))" using i(2) by (simp add: RegAllocPass_can_evict_def)
  have "sum_list (map (alloc_weight (ctx_func ctx)) (ctx_allocs ctx')) + alloc_weight (ctx_func ctx) (ctx_allocs ctx ! i) =
    sum_list (map (alloc_weight (ctx_func ctx)) (ctx_allocs ctx))"
    unfolding i(4) using sum_list_update_nat [OF i(1), of "alloc_weight (ctx_func ctx)" "(ctx_allocs ctx ! i)\<lparr>alloc_bundle := top_of ord ctx\<rparr>"] i(3)
    by (simp add: alloc_weight_def [of _ "(ctx_allocs ctx ! i)\<lparr>alloc_bundle := top_of ord ctx\<rparr>"])
  then show "ctx_weight ctx' < queue_weight (ctx_func ctx) (top_of ord ctx) + ctx_weight (without_top ord ctx)"
    using ev i(3) by (simp add: ctx_weight_def queue_weight_def alloc_weight_def i(4))
next
  case spill
  obtain k frame where e: "ctx' = (without_top ord ctx)\<lparr>ctx_func := (ctx_func ctx)\<lparr>raf_stack_frame := frame\<rparr>,
      ctx_bundles := ctx_bundles (without_top ord ctx) @ spilled_bundles (ctx_func ctx) (top_of ord ctx) k\<rparr>"
    using spill_ctx [of "without_top ord ctx" "top_of ord ctx"] spill(1) by (metis without_top_simps(1))
  have "map (queue_weight (ctx_func ctx)) (spilled_bundles (ctx_func ctx) (top_of ord ctx) k) =
      map (\<lambda>_. 2) (spilled_bundles (ctx_func ctx) (top_of ord ctx) k)"
    using spilled_bundles_ok by (auto simp: queue_weight_def)
  then have "sum_list (map (queue_weight (ctx_func ctx)) (spilled_bundles (ctx_func ctx) (top_of ord ctx) k)) = 2 * pieces (ctx_func ctx) (top_of ord ctx)"
    by (simp only: sum_list_triv length_spilled_bundles) simp
  moreover have "queue_weight (ctx_func ctx') = queue_weight (ctx_func ctx)" "alloc_weight (ctx_func ctx') = alloc_weight (ctx_func ctx)"
    by (rule weights_blocks, simp add: e)+
  ultimately show "ctx_weight ctx' < queue_weight (ctx_func ctx) (top_of ord ctx) + ctx_weight (without_top ord ctx)"
    using spill(2) by (simp add: ctx_weight_def e queue_weight_def [of _ "top_of ord ctx"])
qed (use assms in simp)

subsection \<open>Every range is kept or spilled\<close>

definition bundles_of :: "ra_context \<Rightarrow> ra_bundle set" where
  "bundles_of ctx = set (ctx_bundles ctx) \<union> alloc_bundle ` set (ctx_allocs ctx)"

text \<open>
  The segment is in a bundle, or spilled to a stack slot: then there is a bundle for every operand
  inside of it.
\<close>

definition placed :: "ra_context \<Rightarrow> segment \<Rightarrow> bool" where
  "placed ctx s \<longleftrightarrow>
     (\<exists>b\<in>bundles_of ctx. bundle_evictable b \<and> s \<in> segments_of b) \<or>
     (\<exists>b k. set (RegAllocPass_spill_segment (ctx_func ctx) b k s) \<subseteq> bundles_of ctx)"

lemma spill_segment_not_evictable: "p \<in> set (RegAllocPass_spill_segment f b k s) \<Longrightarrow> \<not> bundle_evictable p"
  using spill_segment_cases spill_op_cases(2) by blast

lemma placed_mono:
  assumes "placed ctx s" "raf_blocks (ctx_func ctx') = raf_blocks (ctx_func ctx)" "bundles_of ctx \<subseteq> bundles_of ctx'"
  shows "placed ctx' s"
proof -
  have "RegAllocPass_spill_segment (ctx_func ctx') b k s = RegAllocPass_spill_segment (ctx_func ctx) b k s" for b k
    by (simp add: RegAllocPass_spill_segment_def assms(2))
  then show ?thesis using assms(1,3) unfolding placed_def by (metis subset_iff)
qed

lemma bundles_without_top:
  assumes "order_top ord (ctx_bundles ctx) < length (ctx_bundles ctx)"
  shows "bundles_of ctx = insert (top_of ord ctx) (bundles_of (without_top ord ctx))"
proof -
  have "set (ctx_bundles ctx) = insert (top_of ord ctx) (set (ctx_bundles (without_top ord ctx)))"
    using arg_cong [OF mset_without_top [OF assms], of set_mset] by simp
  then show ?thesis by (auto simp: bundles_of_def)
qed

lemma step_placed:
  assumes top: "order_top ord (ctx_bundles ctx) < length (ctx_bundles ctx)" and ne: "ctx_bundles ctx \<noteq> []"
    and step: "RegAllocPass_alloc_step an ord ctx = Some ctx'" and "\<not> respills an ord ctx"
    and placed: "placed ctx s"
  shows "placed ctx' s"
  using step ne
proof (cases rule: alloc_step_cases)
  case (assign regs)
  then have e: "ctx_func ctx' = ctx_func ctx" "insert (top_of ord ctx) (bundles_of (without_top ord ctx)) \<subseteq> bundles_of ctx'"
    by (auto simp: RegAllocPass_try_assign_def bundles_of_def)
  show ?thesis by (rule placed_mono [OF placed]) (use e bundles_without_top [OF top] in auto)
next
  case evict
  obtain i where i: "i < length (ctx_allocs ctx)"
    "ctx' = (without_top ord ctx)\<lparr>ctx_bundles := ctx_bundles (without_top ord ctx) @ [alloc_bundle (ctx_allocs ctx ! i)],
       ctx_allocs := (ctx_allocs ctx)[i := (ctx_allocs ctx ! i)\<lparr>alloc_bundle := top_of ord ctx\<rparr>]\<rparr>"
    using evict_cases [OF evict] unfolding without_top_simps by blast
  have "a \<in> set ((ctx_allocs ctx)[i := (ctx_allocs ctx ! i)\<lparr>alloc_bundle := top_of ord ctx\<rparr>])"
    if "a \<in> set (ctx_allocs ctx)" "a \<noteq> ctx_allocs ctx ! i" for a
    using that by (metis in_set_conv_nth length_list_update nth_list_update_neq)
  moreover have "(ctx_allocs ctx ! i)\<lparr>alloc_bundle := top_of ord ctx\<rparr> \<in> set ((ctx_allocs ctx)[i := (ctx_allocs ctx ! i)\<lparr>alloc_bundle := top_of ord ctx\<rparr>])"
    using i(1) by (simp add: set_update_memI)
  ultimately have "insert (top_of ord ctx) (bundles_of (without_top ord ctx)) \<subseteq> bundles_of ctx'"
    unfolding bundles_of_def i(2) by (force simp: image_iff)
  then show ?thesis by (intro placed_mono [OF placed]) (auto simp: i(2) bundles_without_top [OF top])
next
  case spill
  obtain k frame where e: "ctx' = (without_top ord ctx)\<lparr>ctx_func := (ctx_func ctx)\<lparr>raf_stack_frame := frame\<rparr>,
      ctx_bundles := ctx_bundles (without_top ord ctx) @ spilled_bundles (ctx_func ctx) (top_of ord ctx) k\<rparr>"
    using spill_ctx [of "without_top ord ctx" "top_of ord ctx"] spill(1) by (metis without_top_simps(1))
  have blocks: "RegAllocPass_spill_segment (ctx_func ctx') = RegAllocPass_spill_segment (ctx_func ctx)"
    by (intro ext) (simp add: RegAllocPass_spill_segment_def e)
  have sub: "bundles_of (without_top ord ctx) \<union> set (spilled_bundles (ctx_func ctx) (top_of ord ctx) k) \<subseteq> bundles_of ctx'"
    by (auto simp: bundles_of_def e)
  from placed consider b where "b \<in> bundles_of ctx" "bundle_evictable b" "s \<in> segments_of b"
    | b k' where "set (RegAllocPass_spill_segment (ctx_func ctx) b k' s) \<subseteq> bundles_of ctx"
    unfolding placed_def by blast
  then show ?thesis
  proof cases
    case 1
    have "set (RegAllocPass_spill_segment (ctx_func ctx') b k s) \<subseteq> bundles_of ctx'" if "b = top_of ord ctx"
      using sub 1(3) that unfolding blocks by (auto simp: spilled_bundles_def)
    then show ?thesis
      using 1 sub bundles_without_top [OF top] unfolding placed_def by blast
  next
    case 2
    have "top_of ord ctx \<notin> set (RegAllocPass_spill_segment (ctx_func ctx) b k' s)"
      using spill(2) spill_segment_not_evictable by blast
    with 2 have "set (RegAllocPass_spill_segment (ctx_func ctx') b k' s) \<subseteq> bundles_of ctx'"
      using sub unfolding blocks bundles_without_top [OF top] by auto
    then show ?thesis unfolding placed_def by blast
  qed
qed (use assms in simp)

subsection \<open>Bundles name instructions that are there\<close>

text \<open>The code of two functions is the same, and the second one has at least the reservations of the first one.\<close>

definition same_code :: "ra_func \<Rightarrow> ra_func \<Rightarrow> bool" where
  "same_code f g \<longleftrightarrow> length (raf_blocks g) = length (raf_blocks f) \<and>
     (\<forall>b<length (raf_blocks f). rab_nodes (raf_blocks g ! b) = rab_nodes (raf_blocks f ! b) \<and>
        rab_instrs (raf_blocks g ! b) = rab_instrs (raf_blocks f ! b) \<and>
        set (rab_reserved_segments (raf_blocks f ! b)) \<subseteq> set (rab_reserved_segments (raf_blocks g ! b)))"

lemma nth_list_update': "i < length xs \<Longrightarrow> xs[j := x] ! i = (if i = j then x else xs ! i)"
  by simp

lemma same_code_refl: "same_code f f"
  by (simp add: same_code_def)

lemma same_code_trans: "same_code f g \<Longrightarrow> same_code g h \<Longrightarrow> same_code f h"
  by (force simp: same_code_def)

lemma same_code_blocks: "same_code f g \<Longrightarrow> raf_blocks h = raf_blocks g \<Longrightarrow> same_code f h"
  by (simp add: same_code_def)

text \<open>The instructions at the ends of a segment are there.\<close>

definition segment_inside :: "ra_func \<Rightarrow> segment \<Rightarrow> bool" where
  "segment_inside f s \<longleftrightarrow>
     range_block (seg_range s) < length (raf_blocks f) \<and>
     point_instr (range_start (seg_range s)) < length (rab_nodes (raf_blocks f ! range_block (seg_range s))) \<and>
     point_instr (range_end (seg_range s)) < length (rab_nodes (raf_blocks f ! range_block (seg_range s)))"

lemma segment_inside_same_code: "same_code f g \<Longrightarrow> segment_inside g s \<longleftrightarrow> segment_inside f s"
  by (auto simp: same_code_def segment_inside_def)

definition bundle_inside :: "ra_func \<Rightarrow> reg_class set \<Rightarrow> ra_bundle \<Rightarrow> bool" where
  "bundle_inside f classes b \<longleftrightarrow> (\<forall>s\<in>segments_of b. segment_inside f s) \<and> bundle_reg_class b \<in> classes"

definition ctx_inside :: "ra_func \<Rightarrow> reg_class set \<Rightarrow> ra_context \<Rightarrow> bool" where
  "ctx_inside f classes ctx \<longleftrightarrow> same_code f (ctx_func ctx) \<and> (\<forall>b\<in>bundles_of ctx. bundle_inside f classes b)"

lemma spilled_inside:
  assumes b: "bundle_inside f classes b" and p: "p \<in> set (spilled_bundles g b k)"
  shows "bundle_inside f classes p"
proof -
  obtain s i op where s: "s \<in> segments_of b" "p \<in> set (RegAllocPass_spill_op b k s i op)"
    "i < point_instr (range_end (seg_range s)) + 1"
    using p by (auto simp: spilled_bundles_def RegAllocPass_spill_segment_def)
  have "segment_inside f s" using b s(1) by (simp add: bundle_inside_def)
  moreover have "bundle_reg_class p = bundle_reg_class b \<and> (\<forall>t\<in>segments_of p. range_block (seg_range t) = range_block (seg_range s) \<and>
      point_instr (range_start (seg_range t)) = i \<and> point_instr (range_end (seg_range t)) = i)"
    using s(2) by (auto simp: RegAllocPass_spill_op_def Let_def LiveRange_def RegAllocPoint_def split: if_splits reg_usage.splits)
  ultimately show ?thesis using b s(3) by (auto simp: bundle_inside_def segment_inside_def)
qed

lemma step_inside:
  assumes top: "order_top ord (ctx_bundles ctx) < length (ctx_bundles ctx)" and ne: "ctx_bundles ctx \<noteq> []"
    and step: "RegAllocPass_alloc_step an ord ctx = Some ctx'" and "\<not> respills an ord ctx" and "ctx_inside f classes ctx"
    and blocks: "raf_blocks (ctx_func ctx') = raf_blocks (ctx_func ctx)"
  shows "ctx_inside f classes ctx'"
proof -
  note B = bundles_without_top [OF top]
  have "\<exists>k. bundles_of ctx' \<subseteq> bundles_of ctx \<union> set (spilled_bundles (ctx_func ctx) (top_of ord ctx) k)"
    using step ne
  proof (cases rule: alloc_step_cases)
    case (assign regs)
    then show ?thesis unfolding B by (intro exI [of _ 0]) (auto simp: RegAllocPass_try_assign_def bundles_of_def)
  next
    case evict
    obtain i where i: "i < length (ctx_allocs ctx)"
      "ctx' = (without_top ord ctx)\<lparr>ctx_bundles := ctx_bundles (without_top ord ctx) @ [alloc_bundle (ctx_allocs ctx ! i)],
         ctx_allocs := (ctx_allocs ctx)[i := (ctx_allocs ctx ! i)\<lparr>alloc_bundle := top_of ord ctx\<rparr>]\<rparr>"
      using evict_cases [OF evict] unfolding without_top_simps by blast
    have "bundles_of ctx' \<subseteq> insert (top_of ord ctx) (bundles_of (without_top ord ctx))"
      unfolding bundles_of_def i(2) using i(1) set_update_subset_insert by fastforce
    then show ?thesis unfolding B by blast
  next
    case spill
    obtain k frame where "ctx' = (without_top ord ctx)\<lparr>ctx_func := (ctx_func ctx)\<lparr>raf_stack_frame := frame\<rparr>,
        ctx_bundles := ctx_bundles (without_top ord ctx) @ spilled_bundles (ctx_func ctx) (top_of ord ctx) k\<rparr>"
      using spill_ctx [of "without_top ord ctx" "top_of ord ctx"] spill(1) by (metis without_top_simps(1))
    then show ?thesis unfolding B by (intro exI [of _ k]) (auto simp: bundles_of_def)
  qed (use assms in simp)
  then show ?thesis
    using assms(5) spilled_inside same_code_blocks [OF _ blocks] B unfolding ctx_inside_def by blast
qed

subsection \<open>The loop\<close>

lemma allocs_ok_without_top:
  assumes "order_top ord (ctx_bundles ctx) < length (ctx_bundles ctx)" "allocs_ok ctx"
  shows "allocs_ok (without_top ord ctx)" "bundle_ok (top_of ord ctx)"
proof -
  have "set (ctx_bundles ctx) = insert (top_of ord ctx) (set (ctx_bundles (without_top ord ctx)))"
    using arg_cong [OF mset_without_top [OF assms(1)], of set_mset] by simp
  then show "allocs_ok (without_top ord ctx)" "bundle_ok (top_of ord ctx)" using assms(2) by (auto simp: allocs_ok_def)
qed

lemma step_allocs_ok:
  assumes top: "order_top ord (ctx_bundles ctx) < length (ctx_bundles ctx)" and ne: "ctx_bundles ctx \<noteq> []"
    and step: "RegAllocPass_alloc_step an ord ctx = Some ctx'" and "\<not> respills an ord ctx" and ok: "allocs_ok ctx"
  shows "allocs_ok ctx'"
  using step ne
proof (cases rule: alloc_step_cases)
  case (assign regs)
  then show ?thesis using assign_ok(1) allocs_ok_without_top [OF top ok] by blast
next
  case evict
  then show ?thesis using evict_ok(1) allocs_ok_without_top [OF top ok] by blast
next
  case spill
  then show ?thesis using spill_ok allocs_ok_without_top [OF top ok] by simp
qed (use assms in simp)

lemma step_blocks:
  assumes "ctx_bundles ctx \<noteq> []" "RegAllocPass_alloc_step an ord ctx = Some ctx'" "\<not> respills an ord ctx" "allocs_ok ctx"
    and top: "order_top ord (ctx_bundles ctx) < length (ctx_bundles ctx)"
  shows "raf_blocks (ctx_func ctx') = raf_blocks (ctx_func ctx)"
  using assms(2,1)
proof (cases rule: alloc_step_cases)
  case evict
  then show ?thesis using evict_ok(2) [OF allocs_ok_without_top [OF top assms(4)]] by simp
qed (use assms in \<open>auto simp: RegAllocPass_try_assign_def spill_blocks\<close>)

text \<open>The contexts that the loop passes through.\<close>

inductive alloc_reachable :: "target_reg_analyzer \<Rightarrow> std_order \<Rightarrow> ra_context \<Rightarrow> ra_context \<Rightarrow> bool" for an ord where
  start: "alloc_reachable an ord ctx ctx"
| step: "ctx_bundles ctx \<noteq> [] \<Longrightarrow> RegAllocPass_alloc_step an ord ctx = Some ctx' \<Longrightarrow> alloc_reachable an ord ctx' ctx'' \<Longrightarrow>
    alloc_reachable an ord ctx ctx''"

definition order_ok :: "std_order \<Rightarrow> bool" where
  "order_ok ord \<longleftrightarrow> (\<forall>m. mset (order_map ord m) = mset m) \<and> (\<forall>bs. bs \<noteq> [] \<longrightarrow> order_top ord bs < length bs)"

definition alloc_done :: "ra_context \<Rightarrow> segment set \<Rightarrow> bool" where
  "alloc_done ctx segments \<longleftrightarrow> ctx_bundles ctx = [] \<and> allocs_ok ctx \<and> (\<forall>s\<in>segments. placed ctx s)"

lemma alloc_loop:
  assumes ord: "order_ok ord" and "allocs_ok ctx" "\<And>s. s \<in> segments \<Longrightarrow> placed ctx s"
    and "\<And>ctx'. alloc_reachable an ord ctx ctx' \<Longrightarrow> \<not> respills an ord ctx'"
    and "ctx_inside f classes ctx"
    and total: "\<And>ctx. ctx_inside f classes ctx \<Longrightarrow> ctx_bundles ctx \<noteq> [] \<Longrightarrow> RegAllocPass_alloc_step an ord ctx \<noteq> None"
  obtains ctx' where "RegAllocPass_alloc_loop an ord ctx = Some ctx'" "raf_blocks (ctx_func ctx') = raf_blocks (ctx_func ctx)"
    "alloc_done ctx' segments"
  using assms(2-5)
proof (induction "ctx_weight ctx" arbitrary: ctx thesis rule: less_induct)
  case less
  show ?case
  proof (cases "ctx_bundles ctx = []")
    case True
    have "RegAllocPass_alloc_loop an ord ctx = Some ctx" using True RegAllocPass_alloc_loop.simps by simp
    with True less.prems show ?thesis unfolding alloc_done_def by metis
  next
    case False
    have top: "order_top ord (ctx_bundles ctx) < length (ctx_bundles ctx)" using ord False by (simp add: order_ok_def)
    have nr: "\<not> respills an ord ctx" using less.prems(4) alloc_reachable.start by blast
    obtain c where c: "RegAllocPass_alloc_step an ord ctx = Some c" using total less.prems(5) False by blast
    note s = step_weight [OF top False c nr] step_allocs_ok [OF top False c nr less.prems(2)]
      step_placed [OF top False c nr less.prems(3)]
    have inside: "ctx_inside f classes c"
      by (rule step_inside [OF top False c nr less.prems(5) step_blocks [OF False c nr less.prems(2) top]])
    obtain c' where c': "RegAllocPass_alloc_loop an ord c = Some c'" "raf_blocks (ctx_func c') = raf_blocks (ctx_func c)"
      "alloc_done c' segments"
      using less.hyps [OF s(1) _ s(2,3) _ inside] less.prems(4) alloc_reachable.step [OF False c] by blast
    have "RegAllocPass_alloc_loop an ord ctx = Some c'"
      using False c c'(1) by (subst RegAllocPass_alloc_loop.simps) simp
    then show ?thesis using less.prems(1) step_blocks [OF False c nr less.prems(2) top] c'(2,3) by metis
  qed
qed

end
