(* ===== verification/Reg_Alloc_Correct.thy ===== *)
theory Reg_Alloc_Correct
  imports Reg_Alloc_Loop
begin

section \<open>The register allocation is correct\<close>

text \<open>
  What the loop over the queue starts with: bundles of the virtual registers, which are joined where a
  move connects them, and reservations for the ranges of physical registers and for the registers
  that calls kill.
\<close>

subsection \<open>The ranges that the allocation starts with\<close>

definition ranges_below :: "nat \<Rightarrow> reg_ranges \<Rightarrow> bool" where
  "ranges_below n m \<longleftrightarrow> distinct (map fst m) \<and> (\<forall>(r, xs)\<in>set m. \<forall>x\<in>set xs. range_block x < n)"

lemma ranges_below_get: "ranges_below n m \<Longrightarrow> x \<in> set (RegRanges_get m r) \<Longrightarrow> range_block x < n"
  by (auto simp: ranges_below_def RegRanges_get_def dest!: map_of_SomeD split: option.splits)

lemma ranges_below_update:
  assumes "ranges_below n m" "\<And>x. x \<in> set xs \<Longrightarrow> range_block x < n"
  shows "ranges_below n (AList.update r xs m)"
proof -
  have d: "distinct (map fst (AList.update r xs m))" using assms(1) by (simp add: ranges_below_def distinct_update)
  have "range_block x < n" if "(q, ys) \<in> set (AList.update r xs m)" "x \<in> set ys" for q ys x
  proof -
    have "map_of (AList.update r xs m) q = Some ys" using d that(1) by simp
    then have "ys = xs \<or> map_of m q = Some ys" by (auto simp: update_conv' split: if_splits)
    then show ?thesis using assms that(2) by (auto simp: ranges_below_def dest!: map_of_SomeD)
  qed
  with d show ?thesis by (auto simp: ranges_below_def)
qed

lemma ranges_below_push_back: "ranges_below n m \<Longrightarrow> range_block x < n \<Longrightarrow> ranges_below n (RegRanges_push_back r x m)"
  unfolding RegRanges_push_back_def by (rule ranges_below_update) (auto dest: ranges_below_get)

lemma ranges_below_set_back_start:
  assumes "ranges_below n m" "RegRanges_set_back_start r p m = Some m'"
  shows "ranges_below n m'"
proof -
  have m': "RegRanges_get m r \<noteq> []" "m' = AList.update r (butlast (RegRanges_get m r) @ [last (RegRanges_get m r)\<lparr>range_start := p\<rparr>]) m"
    using assms(2) by (auto simp: RegRanges_set_back_start_def Let_def split: if_splits)
  have "range_block x < n" if "x \<in> set (butlast (RegRanges_get m r) @ [last (RegRanges_get m r)\<lparr>range_start := p\<rparr>])" for x
    using that ranges_below_get [OF assms(1)] last_in_set [OF m'(1)] by (auto dest: in_set_butlastD)
  with assms(1) show ?thesis unfolding m'(2) by (rule ranges_below_update)
qed

lemma ranges_below_op:
  assumes "Liveness_range_op b i op s = Some s'" "ranges_below n (fst s)" "b < n"
  shows "ranges_below n (fst s')"
proof -
  obtain m kills live where s: "s = (m, kills, live)" by (cases s)
  show ?thesis
    using assms unfolding s
    by (auto simp: Liveness_range_op_def Let_def LiveRange_def intro!: ranges_below_push_back
        elim: ranges_below_set_back_start split: reg_usage.splits if_splits)
qed

lemma ranges_below_block:
  assumes "Liveness_range_block blocks ls b s = Some s'" "ranges_below n (fst s)" "b < n"
  shows "ranges_below n (fst s')"
proof -
  obtain m kills where s: "s = (m, kills)" by (cases s)
  show ?thesis
  proof (cases "rab_instrs (blocks ! b) = []")
    case True
    then show ?thesis using assms by (simp add: Liveness_range_block_def s)
  next
    case False
    obtain outs ins s1 m2 where r: "for_each (rev [0..<num_instrs blocks b]) (Liveness_range_instr b (blocks ! b))
        (Liveness_range_outs b (blocks ! b) outs m, kills, set outs) = Some s1"
      "for_each ins (\<lambda>r. RegRanges_set_back_start r (RegAllocPoint 0 0)) (fst s1) = Some m2" "fst s' = m2"
      using assms(1) False by (auto simp: Liveness_range_block_def s bind_simps Let_def split: prod.splits)
    have "ranges_below n (Liveness_range_outs b (blocks ! b) outs m)"
      unfolding Liveness_range_outs_def
      using assms(2) unfolding s fst_conv
      by (induction outs arbitrary: m) (simp_all add: LiveRange_def assms(3) ranges_below_push_back)
    then have "ranges_below n (fst s1)"
      by (intro for_each_inv [OF r(1), where P = "\<lambda>s. ranges_below n (fst s)"])
        (auto simp: Liveness_range_instr_def assms(3) elim!: for_each_inv [where P = "\<lambda>s. ranges_below n (fst s)"] ranges_below_op)
    then show ?thesis
      unfolding r(3) by (intro for_each_inv [OF r(2), where P = "ranges_below n"]) (auto elim: ranges_below_set_back_start)
  qed
qed

lemma LivenessAnalysis_ranges_below:
  assumes "LivenessAnalysis_compute f = Some la"
  shows "ranges_below (length (raf_blocks f)) (la_reg_ranges la)"
proof -
  let ?P = "\<lambda>s. ranges_below (length (raf_blocks f)) (fst s)"
  obtain ls kills where r: "for_each [0..<length (raf_blocks f)] (Liveness_range_block (raf_blocks f) ls) ([], []) =
      Some (la_reg_ranges la, kills)"
    using assms by (auto simp: LivenessAnalysis_compute_def LivenessAnalysis_compute_precise_live_ranges_def bind_simps Let_def)
  have "?P (la_reg_ranges la, kills)"
    by (rule for_each_inv [OF r, where P = ?P]) (auto intro: ranges_below_block simp: ranges_below_def [of _ "[]"])
  then show ?thesis by simp
qed

subsection \<open>The first bundles\<close>

abbreviation bundle_for :: "register \<Rightarrow> live_range list \<Rightarrow> reg_class \<Rightarrow> ra_bundle" where
  "bundle_for reg ranges c \<equiv>
     Bundle_make (map (\<lambda>lr. \<lparr>seg_reg = Register_get_virtual_reg reg, seg_range = lr\<rparr>) ranges) c"

definition bundles_for :: "reg_class_map \<Rightarrow> reg_ranges \<Rightarrow> ra_bundle set" where
  "bundles_for classes m =
     {bundle_for reg ranges c | reg ranges c. (reg, ranges) \<in> set m \<and> Register_is_virtual reg \<and>
        classes (Register_get_virtual_reg reg) = Some c}"

lemma bundles_for_Cons:
  "bundles_for classes ((reg, ranges) # m) =
     {bundle_for reg ranges c | c. Register_is_virtual reg \<and> classes (Register_get_virtual_reg reg) = Some c} \<union> bundles_for classes m"
  by (auto simp: bundles_for_def)

lemma create_bundles_loop:
  assumes "for_each xs (\<lambda>(reg, ranges) bundles.
       if Register_is_virtual reg
       then do { c \<leftarrow> reg_classes (Register_get_virtual_reg reg); Some (bundles @ [bundle_for reg ranges c]) }
       else Some bundles) acc = Some bs"
  shows "set acc \<subseteq> set bs \<and>
    set bs \<subseteq> set acc \<union> bundles_for reg_classes xs \<and>
    (\<forall>reg ranges. (reg, ranges) \<in> set xs \<longrightarrow> Register_is_virtual reg \<longrightarrow> (\<exists>c. bundle_for reg ranges c \<in> set bs))"
  using assms
proof (induction xs arbitrary: acc)
  case (Cons x xs)
  obtain reg ranges where x: "x = (reg, ranges)" by (cases x)
  show ?case
  proof (cases "Register_is_virtual reg")
    case False
    then show ?thesis using Cons.IH [of acc] Cons.prems unfolding x by (auto simp: bundles_for_Cons)
  next
    case True
    then obtain c where c: "reg_classes (Register_get_virtual_reg reg) = Some c" "for_each xs (\<lambda>(reg, ranges) bundles.
       if Register_is_virtual reg
       then do { c \<leftarrow> reg_classes (Register_get_virtual_reg reg); Some (bundles @ [bundle_for reg ranges c]) }
       else Some bundles) (acc @ [bundle_for reg ranges c]) = Some bs"
      using Cons.prems unfolding x by (auto simp: bind_simps)
    from Cons.IH [OF c(2)] show ?thesis using True c(1) unfolding x by (auto simp: bundles_for_Cons)
  qed
qed simp

text \<open>The invariant of coalescing: the segments of the bundles that are not deleted stay the same.\<close>

definition kept :: "ra_bundle list \<Rightarrow> ra_bundle list" where
  "kept bundles = filter (\<lambda>b. \<not> bundle_deleted b) bundles"

definition bundles_ok :: "reg_class set \<Rightarrow> segment set \<Rightarrow> ra_bundle list \<Rightarrow> bool" where
  "bundles_ok classes segments bundles \<longleftrightarrow>
     (\<forall>b\<in>set (kept bundles). bundle_ok b \<and> bundle_evictable b \<and> bundle_reg_class b \<in> classes) \<and> \<Union> (segments_of ` set (kept bundles)) = segments"

lemma range_ok_intersects: "range_ok x \<Longrightarrow> LiveRange_intersects x x"
  by (simp add: range_ok_def LiveRange_intersects_def)

lemma find_connection_apart:
  "RegAllocPass_find_connection an f a b s ss = Some True \<Longrightarrow> \<not> RegAllocPass_intersect a b"
  by (induction ss) (auto simp: bind_simps Let_def split: if_splits)

lemma bundle_ok_join:
  assumes "bundle_ok a" "bundle_ok b" "bundle_segments b = [s]" "\<not> RegAllocPass_intersect a b"
  shows "bundle_ok (a\<lparr>bundle_segments := bundle_segments a @ [s]\<rparr>)"
  using assms by (auto simp: bundle_ok_def RegAllocPass_intersect_def list_ex_iff sorted_wrt_append)

lemma kept_nth: "b \<in> set (kept bundles) \<longleftrightarrow> (\<exists>i<length bundles. bundles ! i = b \<and> \<not> bundle_deleted b)"
  by (auto simp: kept_def in_set_conv_nth)

lemma kept_update:
  assumes "i < length bs" "j < length bs" "i \<noteq> j" "\<not> bundle_deleted a" "bundle_deleted d"
  shows "b \<in> set (kept (bs[i := a, j := d])) \<longleftrightarrow> b = a \<or> (\<exists>k<length bs. k \<noteq> i \<and> k \<noteq> j \<and> bs ! k = b \<and> \<not> bundle_deleted b)"
  unfolding kept_nth
proof
  assume "\<exists>k<length (bs[i := a, j := d]). bs[i := a, j := d] ! k = b \<and> \<not> bundle_deleted b"
  then obtain k where "k < length bs" "bs[i := a, j := d] ! k = b" "\<not> bundle_deleted b" by auto
  then show "b = a \<or> (\<exists>k<length bs. k \<noteq> i \<and> k \<noteq> j \<and> bs ! k = b \<and> \<not> bundle_deleted b)"
    using assms by (cases "k = i"; cases "k = j") auto
next
  assume "b = a \<or> (\<exists>k<length bs. k \<noteq> i \<and> k \<noteq> j \<and> bs ! k = b \<and> \<not> bundle_deleted b)"
  then show "\<exists>k<length (bs[i := a, j := d]). bs[i := a, j := d] ! k = b \<and> \<not> bundle_deleted b"
  proof (elim disjE exE)
    assume "b = a"
    then show ?thesis using assms by (intro exI [of _ i]) simp
  next
    fix k
    assume "k < length bs \<and> k \<noteq> i \<and> k \<noteq> j \<and> bs ! k = b \<and> \<not> bundle_deleted b"
    then show ?thesis by (intro exI [of _ k]) simp
  qed
qed

text \<open>A bundle does not join with itself, as it intersects itself.\<close>

lemma try_coalesce_ok:
  assumes ok: "bundles_ok classes segments bundles" and ij: "i < length bundles" "j < length bundles"
    and kept: "\<not> bundle_deleted (bundles ! i)" "\<not> bundle_deleted (bundles ! j)"
    and r: "RegAllocPass_try_coalesce an f i j bundles = Some bundles'"
  shows "bundles_ok classes segments bundles' \<and> length bundles' = length bundles \<and> \<not> bundle_deleted (bundles' ! i)"
proof (cases "bundles' = bundles")
  case False
  let ?a = "bundles ! i" and ?b = "bundles ! j"
  obtain s where s: "bundle_segments ?b = [s]" "\<not> RegAllocPass_intersect ?a ?b"
    "bundles' = (bundles[i := ?a\<lparr>bundle_segments := bundle_segments ?a @ [s]\<rparr>])[j :=
       (bundles[i := ?a\<lparr>bundle_segments := bundle_segments ?a @ [s]\<rparr>] ! j)\<lparr>bundle_deleted := True\<rparr>]"
    using r False by (auto simp: RegAllocPass_try_coalesce_def Let_def bind_simps length_Suc_conv split: if_splits
        dest: find_connection_apart)
  have ab: "bundle_ok ?a" "bundle_ok ?b" "bundle_evictable ?a \<and> bundle_reg_class ?a \<in> classes" using ok ij kept kept_nth unfolding bundles_ok_def by blast+
  have "RegAllocPass_intersect ?b ?b"
    using ab(2) s(1) range_ok_intersects by (simp add: bundle_ok_def RegAllocPass_intersect_def)
  then have ne: "i \<noteq> j" using s(2) by metis
  let ?a' = "?a\<lparr>bundle_segments := bundle_segments ?a @ [s]\<rparr>"
  have b': "bundles' = bundles[i := ?a', j := ?b\<lparr>bundle_deleted := True\<rparr>]" using s(3) ne by simp
  have k': "b \<in> set (kept bundles') \<longleftrightarrow> b = ?a' \<or> (\<exists>k<length bundles. k \<noteq> i \<and> k \<noteq> j \<and> bundles ! k = b \<and> \<not> bundle_deleted b)" for b
    unfolding b' using kept(1) by (intro kept_update ij ne) simp_all
  have "bundle_ok b \<and> bundle_evictable b \<and> bundle_reg_class b \<in> classes" if "b \<in> set (kept bundles')" for b
    using that ok bundle_ok_join [OF ab(1,2) s(1,2)] ab(3) kept_nth unfolding k' bundles_ok_def by auto
  moreover have "\<Union> (segments_of ` set (kept bundles')) = segments"
  proof -
    let ?rest = "{b. \<exists>k<length bundles. k \<noteq> i \<and> k \<noteq> j \<and> bundles ! k = b \<and> \<not> bundle_deleted b}"
    have "set (kept bundles) = {?a, ?b} \<union> ?rest" using ij kept kept_nth by auto
    moreover have "set (kept bundles') = {?a'} \<union> ?rest" using k' by auto
    ultimately have "\<Union> (segments_of ` set (kept bundles')) = \<Union> (segments_of ` set (kept bundles))"
      using s(1) by simp
    then show ?thesis using ok by (simp add: bundles_ok_def)
  qed
  ultimately show ?thesis using ij ne kept by (simp add: bundles_ok_def b')
qed (use assms in auto)

lemma coalesce_bundles_ok:
  assumes ok: "bundles_ok classes segments bundles" and r: "RegAllocPass_coalesce_bundles an f bundles = Some bundles'"
  shows "\<forall>b\<in>set bundles'. bundle_ok b \<and> bundle_evictable b \<and> bundle_reg_class b \<in> classes" "\<Union> (segments_of ` set bundles') = segments"
proof -
  let ?P = "\<lambda>bs. bundles_ok classes segments bs \<and> length bs = length bundles"
  obtain bundles1 where b1: "for_each [0..<length bundles] (\<lambda>i bundles.
         if bundle_deleted (bundles ! i) then Some bundles
         else for_each [0..<length bundles] (\<lambda>j bundles.
           if bundle_deleted (bundles ! j) then Some bundles
           else RegAllocPass_try_coalesce an f i j bundles) bundles) bundles = Some bundles1" "bundles' = kept bundles1"
    using r by (auto simp: RegAllocPass_coalesce_bundles_def bind_simps kept_def)
  have "?P bundles1"
  proof (rule for_each_inv [OF b1(1), where P = ?P])
    fix i s s'
    assume i: "i \<in> set [0..<length bundles]" and s: "?P s" and
      r: "(if bundle_deleted (s ! i) then Some s
         else for_each [0..<length s] (\<lambda>j bundles.
           if bundle_deleted (bundles ! j) then Some bundles
           else RegAllocPass_try_coalesce an f i j bundles) s) = Some s'"
    show "?P s'"
    proof (cases "bundle_deleted (s ! i)")
      case True
      then show ?thesis using r s by simp
    next
      case False
      then have r': "for_each [0..<length s] (\<lambda>j bundles.
           if bundle_deleted (bundles ! j) then Some bundles
           else RegAllocPass_try_coalesce an f i j bundles) s = Some s'" using r by simp
      have "?P s' \<and> \<not> bundle_deleted (s' ! i)"
      proof (rule for_each_inv [OF r', where P = "\<lambda>s. ?P s \<and> \<not> bundle_deleted (s ! i)"])
        fix j t t'
        assume j: "j \<in> set [0..<length s]" and t: "?P t \<and> \<not> bundle_deleted (t ! i)"
          and r: "(if bundle_deleted (t ! j) then Some t else RegAllocPass_try_coalesce an f i j t) = Some t'"
        show "?P t' \<and> \<not> bundle_deleted (t' ! i)"
          using try_coalesce_ok [of classes segments t i j an f t'] i j s t r by (simp split: if_splits)
      qed (use s False in simp)
      then show ?thesis ..
    qed
  qed (simp add: ok)
  then show "\<forall>b\<in>set bundles'. bundle_ok b \<and> bundle_evictable b \<and> bundle_reg_class b \<in> classes" "\<Union> (segments_of ` set bundles') = segments"
    by (simp_all add: bundles_ok_def b1(2))
qed

subsection \<open>Fixed ranges\<close>

text \<open>What is fixed: the ranges of physical registers, and the points at which instructions kill a register.\<close>

definition fixed_ranges :: "liveness_analysis \<Rightarrow> (u32 \<times> live_range) set" where
  "fixed_ranges la =
     {(Register_get_physical_reg reg, x) | reg x. \<exists>ranges. (reg, ranges) \<in> set (la_reg_ranges la) \<and> Register_is_physical reg \<and> x \<in> set ranges} \<union>
     {(kill_reg k, LiveRange (kill_block k) (RegAllocPoint (kill_instr k) 1) (RegAllocPoint (kill_instr k) 1)) | k. k \<in> set (la_kill_points la)}"

definition reserved_in :: "ra_func \<Rightarrow> u32 \<times> live_range \<Rightarrow> bool" where
  "reserved_in f p \<longleftrightarrow>
     \<lparr>reserved_reg = fst p, reserved_range = snd p\<rparr> \<in> set (rab_reserved_segments (raf_blocks f ! range_block (snd p)))"

lemma reserved_mono: "same_code f g \<Longrightarrow> range_block (snd p) < length (raf_blocks f) \<Longrightarrow> reserved_in f p \<Longrightarrow> reserved_in g p"
  by (auto simp: same_code_def reserved_in_def)

lemma reserve:
  "same_code f (RegAllocPass_reserve reg x f)"
  "range_block x < length (raf_blocks f) \<Longrightarrow> reserved_in (RegAllocPass_reserve reg x f) (reg, x)"
  by (auto simp: same_code_def RegAllocPass_reserve_def reserved_in_def Let_def nth_list_update')

lemma fold_same_code:
  assumes "\<And>x f. x \<in> set xs \<Longrightarrow> same_code f (g x f)"
  shows "same_code f (fold g xs f)"
  using assms by (induction xs arbitrary: f) (auto intro: same_code_refl same_code_trans)

lemma fold_reserved:
  assumes "\<And>x f. same_code f (g x f)" and "x \<in> set xs" and "range_block (snd p) < length (raf_blocks f)"
    and "\<And>f. range_block (snd p) < length (raf_blocks f) \<Longrightarrow> reserved_in (g x f) p"
  shows "reserved_in (fold g xs f) p"
  using assms(2,3)
proof (induction xs arbitrary: f)
  case (Cons y xs)
  have l: "range_block (snd p) < length (raf_blocks (g y f))" using Cons.prems(2) assms(1) by (metis same_code_def)
  then show ?case
    using Cons reserved_mono [OF fold_same_code [OF assms(1)] l] assms(4) by (cases "x = y") auto
qed simp

lemma reserve_fixed_ranges:
  assumes ord: "order_ok ord"
  shows "same_code f (RegAllocPass_reserve_fixed_ranges ord la f)"
    and "p \<in> fixed_ranges la \<Longrightarrow> range_block (snd p) < length (raf_blocks f) \<Longrightarrow>
      reserved_in (RegAllocPass_reserve_fixed_ranges ord la f) p"
proof -
  define g1 where "g1 = (\<lambda>(reg, ranges) f. if Register_is_physical reg
            then fold (RegAllocPass_reserve (Register_get_physical_reg reg)) ranges f else f)"
  define g2 where "g2 = (\<lambda>k :: kill_point. RegAllocPass_reserve (kill_reg k)
            (LiveRange (kill_block k) (RegAllocPoint (kill_instr k) 1) (RegAllocPoint (kill_instr k) 1)))"
  define f1 where "f1 = fold g1 (order_map ord (la_reg_ranges la)) f"
  have e: "RegAllocPass_reserve_fixed_ranges ord la f = fold g2 (la_kill_points la) f1"
    by (simp add: RegAllocPass_reserve_fixed_ranges_def g1_def g2_def f1_def Let_def)
  have s1: "same_code f (g1 x f)" for x f
    by (cases x) (auto simp: g1_def intro!: fold_same_code reserve same_code_refl)
  have s2: "same_code f (g2 k f)" for k f by (simp add: g2_def reserve)
  have f1: "same_code f f1" unfolding f1_def by (rule fold_same_code) (rule s1)
  then show "same_code f (RegAllocPass_reserve_fixed_ranges ord la f)"
    unfolding e by (rule same_code_trans) (rule fold_same_code, rule s2)
  assume p: "p \<in> fixed_ranges la" "range_block (snd p) < length (raf_blocks f)"
  have l1: "range_block (snd p) < length (raf_blocks f1)" using p(2) f1 by (simp add: same_code_def)
  from p(1) consider reg x ranges where "p = (Register_get_physical_reg reg, x)" "(reg, ranges) \<in> set (la_reg_ranges la)"
      "Register_is_physical reg" "x \<in> set ranges"
    | k where "k \<in> set (la_kill_points la)"
      "p = (kill_reg k, LiveRange (kill_block k) (RegAllocPoint (kill_instr k) 1) (RegAllocPoint (kill_instr k) 1))"
    unfolding fixed_ranges_def by blast
  then show "reserved_in (RegAllocPass_reserve_fixed_ranges ord la f) p"
  proof cases
    case 1
    have "set (order_map ord (la_reg_ranges la)) = set (la_reg_ranges la)"
      using ord by (metis order_ok_def set_mset_mset)
    then have "(reg, ranges) \<in> set (order_map ord (la_reg_ranges la))" using 1(2) by simp
    moreover have "reserved_in (g1 (reg, ranges) f) p" if "range_block (snd p) < length (raf_blocks f)" for f
      using 1(1,3,4) that by (auto simp: g1_def intro!: fold_reserved reserve)
    ultimately have "reserved_in f1 p" unfolding f1_def by (intro fold_reserved [OF s1 _ p(2)]) auto
    moreover have "same_code f1 (fold g2 (la_kill_points la) f1)" by (rule fold_same_code) (rule s2)
    ultimately show ?thesis unfolding e using reserved_mono l1 by blast
  next
    case 2
    have "reserved_in (g2 k f) p" if "range_block (snd p) < length (raf_blocks f)" for f
      using that unfolding g2_def 2(2) snd_conv by (rule reserve)
    then show ?thesis unfolding e by (intro fold_reserved [OF s2 2(1) l1])
  qed
qed

subsection \<open>Start of the pass\<close>

text \<open>
  The target answers for the instructions of the function, gives a class with candidates to every
  virtual register that has a range, and only physical registers are killed, as by calls.
\<close>

definition moves_ok :: "target_reg_analyzer \<Rightarrow> ra_func \<Rightarrow> bool" where
  "moves_ok an f \<longleftrightarrow>
     (\<forall>block\<in>set (raf_blocks f). \<forall>node\<in>set (rab_nodes block). \<forall>v. an_is_move_from an (node_instr node) v \<noteq> None)"

lemma moves_ok_same_code: "same_code f g \<Longrightarrow> moves_ok an f \<Longrightarrow> moves_ok an g"
  by (fastforce simp: moves_ok_def same_code_def in_set_conv_nth)

definition target_ok :: "target_reg_analyzer \<Rightarrow> ra_func \<Rightarrow> bool" where
  "target_ok an f \<longleftrightarrow>
     (\<forall>block\<in>set (raf_blocks f). length (rab_nodes block) = length (rab_instrs block)) \<and> moves_ok an f \<and>
     (\<forall>r. killed (raf_blocks f) r \<longrightarrow> Register_is_physical r) \<and>
     (\<exists>classes. RegAllocPass_assign_reg_classes an f = Some classes \<and>
        (\<forall>c\<in>ran classes. an_get_candidates an c \<noteq> None) \<and>
        (\<forall>la. LivenessAnalysis_compute f = Some la \<longrightarrow>
          (\<forall>(reg, _)\<in>set (la_reg_ranges la). Register_is_virtual reg \<longrightarrow> classes (Register_get_virtual_reg reg) \<noteq> None))) \<and>
     (\<forall>g b. same_code f g \<longrightarrow> (\<forall>s\<in>segments_of b. segment_inside f s) \<longrightarrow> an_suggest_regs an g b \<noteq> None)"

lemma for_each_total:
  assumes "P s" "\<And>x s. x \<in> set xs \<Longrightarrow> P s \<Longrightarrow> \<exists>s'. body x s = Some s' \<and> P s'"
  shows "\<exists>s'. for_each xs body s = Some s' \<and> P s'"
  using assms
proof (induction xs arbitrary: s)
  case (Cons x xs)
  then obtain s1 where "body x s = Some s1" "P s1" by (meson list.set_intros(1))
  moreover obtain s' where "for_each xs body s1 = Some s'" "P s'"
    using Cons.IH [OF \<open>P s1\<close>] Cons.prems(2) by auto
  ultimately show ?case by auto
qed simp

text \<open>The segments of the virtual registers.\<close>

definition virtual_segments :: "liveness_analysis \<Rightarrow> segment set" where
  "virtual_segments la =
     {\<lparr>seg_reg = Register_get_virtual_reg reg, seg_range = x\<rparr> | reg x.
        \<exists>ranges. (reg, ranges) \<in> set (la_reg_ranges la) \<and> Register_is_virtual reg \<and> x \<in> set ranges}"

lemma try_coalesce_total:
  assumes moves: "moves_ok an f"
    and inside: "\<forall>s\<in>segments. segment_inside f s"
    and a: "segments_of (bundles ! i) \<subseteq> segments" "segments_of (bundles ! j) \<subseteq> segments"
  shows "\<exists>bundles'. RegAllocPass_try_coalesce an f i j bundles = Some bundles'"
proof -
  have move: "\<exists>m. RegAllocPass_is_connecting_move an (raf_blocks f ! range_block (seg_range s)) s t = Some m" if "s \<in> segments" for s t
  proof -
    have i: "range_block (seg_range s) < length (raf_blocks f)"
      "point_instr (range_start (seg_range s)) < length (rab_nodes (raf_blocks f ! range_block (seg_range s)))"
      using inside that by (auto simp: segment_inside_def)
    let ?node = "rab_nodes (raf_blocks f ! range_block (seg_range s)) ! point_instr (range_start (seg_range s))"
    have "an_is_move_from an (node_instr ?node) (seg_reg t) \<noteq> None"
      using moves nth_mem [OF i(1)] nth_mem [OF i(2)] unfolding moves_ok_def by blast
    then show ?thesis using i by (auto simp: RegAllocPass_is_connecting_move_def Let_def)
  qed
  have find: "\<exists>c. RegAllocPass_find_connection an f x y t ss = Some c" if "set ss \<subseteq> segments" "t \<in> segments" for x y t ss
    using that
  proof (induction ss)
    case (Cons s ss)
    show ?case
    proof (cases "range_block (seg_range s) = range_block (seg_range t)")
      case True
      obtain m m' where m: "RegAllocPass_is_connecting_move an (raf_blocks f ! range_block (seg_range s)) s t = Some m"
        "RegAllocPass_is_connecting_move an (raf_blocks f ! range_block (seg_range t)) t s = Some m'"
        using move Cons.prems by (metis list.set_intros(1) subset_iff)
      then show ?thesis using True Cons by (auto simp: Let_def)
    qed (use Cons in auto)
  qed auto
  show ?thesis
  proof (cases "length (bundle_segments (bundles ! j)) = 1")
    case True
    then have "bundle_segments (bundles ! j) ! 0 \<in> segments" using a(2) by (metis One_nat_def lessI nth_mem subset_iff)
    then obtain c where "RegAllocPass_find_connection an f (bundles ! i) (bundles ! j) (bundle_segments (bundles ! j) ! 0)
        (bundle_segments (bundles ! i)) = Some c" using find [OF a(1)] by blast
    then show ?thesis by (auto simp: RegAllocPass_try_coalesce_def Let_def)
  qed (simp add: RegAllocPass_try_coalesce_def Let_def)
qed

lemma coalesce_total:
  assumes an: "moves_ok an f"
    and inside: "\<forall>s\<in>segments. segment_inside f s"
    and ok: "bundles_ok classes segments bundles"
  shows "\<exists>bundles'. RegAllocPass_coalesce_bundles an f bundles = Some bundles'"
proof -
  let ?P = "\<lambda>bs. bundles_ok classes segments bs \<and> length bs = length bundles"
  let ?inner = "\<lambda>i j bundles. if bundle_deleted (bundles ! j) then Some bundles else RegAllocPass_try_coalesce an f i j bundles"
  have step: "\<exists>s'. ?inner i j s = Some s' \<and> ?P s' \<and> \<not> bundle_deleted (s' ! i)"
    if "i < length bundles" "j < length bundles" "?P s \<and> \<not> bundle_deleted (s ! i)" for i j s
  proof (cases "bundle_deleted (s ! j)")
    case False
    have "s ! i \<in> set (kept s)" "s ! j \<in> set (kept s)" using that False by (auto simp: kept_nth)
    then have sub: "segments_of (s ! i) \<subseteq> segments" "segments_of (s ! j) \<subseteq> segments" using that(3) by (auto simp: bundles_ok_def)
    obtain s' where "RegAllocPass_try_coalesce an f i j s = Some s'" using try_coalesce_total [OF an inside sub] by blast
    then show ?thesis using try_coalesce_ok [of classes segments s i j an f s'] that False by simp
  qed (use that in simp)
  have "\<exists>s'. for_each [0..<length bundles] (\<lambda>i bundles.
         if bundle_deleted (bundles ! i) then Some bundles
         else for_each [0..<length bundles] (?inner i) bundles) bundles = Some s' \<and> ?P s'"
  proof (rule for_each_total [where P = ?P])
    fix i s
    assume i: "i \<in> set [0..<length bundles]" and s: "?P s"
    show "\<exists>s'. (if bundle_deleted (s ! i) then Some s else for_each [0..<length s] (?inner i) s) = Some s' \<and> ?P s'"
    proof (cases "bundle_deleted (s ! i)")
      case False
      have "\<exists>s'. for_each [0..<length s] (?inner i) s = Some s' \<and> ?P s' \<and> \<not> bundle_deleted (s' ! i)"
        by (rule for_each_total [where P = "\<lambda>s. ?P s \<and> \<not> bundle_deleted (s ! i)"]) (use s i False step in auto)
      then show ?thesis using False by auto
    qed (use s in simp)
  qed (simp add: ok)
  then show ?thesis by (auto simp: RegAllocPass_coalesce_bundles_def)
qed

lemma create_bundles:
  assumes "order_ok ord"
    and classes: "\<forall>(reg, _)\<in>set (la_reg_ranges la). Register_is_virtual reg \<longrightarrow> classes (Register_get_virtual_reg reg) \<noteq> None"
    and ok: "\<And>reg ranges c. (reg, ranges) \<in> set (la_reg_ranges la) \<Longrightarrow> Register_is_virtual reg \<Longrightarrow> bundle_ok (bundle_for reg ranges c)"
  obtains bundles where "RegAllocPass_create_bundles ord la classes = Some bundles" "bundles_ok (ran classes) (virtual_segments la) bundles"
proof -
  let ?m = "order_map ord (la_reg_ranges la)"
  have m: "set ?m = set (la_reg_ranges la)" using assms(1) by (metis order_ok_def set_mset_mset)
  have "\<exists>bundles. RegAllocPass_create_bundles ord la classes = Some bundles \<and> True"
    unfolding RegAllocPass_create_bundles_def
    by (rule for_each_total) (use classes m in \<open>fastforce split: if_splits\<close>)+
  then obtain bundles where b: "RegAllocPass_create_bundles ord la classes = Some bundles" by blast
  have from_ranges: "set bundles \<subseteq> bundles_for classes ?m"
    "\<And>reg ranges. (reg, ranges) \<in> set ?m \<Longrightarrow> Register_is_virtual reg \<Longrightarrow> \<exists>c. bundle_for reg ranges c \<in> set bundles"
    using create_bundles_loop [OF b [unfolded RegAllocPass_create_bundles_def]] by auto
  have "kept bundles = bundles"
    using from_ranges(1) by (auto simp: kept_def filter_id_conv bundles_for_def Bundle_make_def)
  moreover have "bundle_ok x \<and> bundle_evictable x \<and> bundle_reg_class x \<in> ran classes" if "x \<in> set bundles" for x
    using that from_ranges(1) ok m by (fastforce simp: bundles_for_def Bundle_make_def ran_def)
  moreover have "\<Union> (segments_of ` set bundles) = virtual_segments la"
  proof (intro set_eqI iffI)
    fix s
    assume "s \<in> \<Union> (segments_of ` set bundles)"
    then show "s \<in> virtual_segments la"
      using from_ranges(1) m by (fastforce simp: virtual_segments_def bundles_for_def Bundle_make_def)
  next
    fix s
    assume "s \<in> virtual_segments la"
    then obtain reg x ranges where s: "s = \<lparr>seg_reg = Register_get_virtual_reg reg, seg_range = x\<rparr>" "(reg, ranges) \<in> set ?m"
      "Register_is_virtual reg" "x \<in> set ranges" unfolding virtual_segments_def m by blast
    obtain c where "bundle_for reg ranges c \<in> set bundles" using from_ranges(2) s(2,3) by blast
    moreover have "s \<in> segments_of (bundle_for reg ranges c)" using s by (simp add: Bundle_make_def)
    ultimately show "s \<in> \<Union> (segments_of ` set bundles)" by blast
  qed
  ultimately show thesis using that [OF b] by (simp add: bundles_ok_def)
qed

lemma ranges_of_virtual:
  assumes ok: "blocks_ok (raf_blocks f)" and la: "LivenessAnalysis_compute f = Some la"
    and r: "(reg, ranges) \<in> set (la_reg_ranges la)" and nk: "\<not> killed (raf_blocks f) reg"
  shows "sorted_wrt (\<lambda>x y. \<not> LiveRange_intersects x y) ranges"
    and "\<And>x. x \<in> set ranges \<Longrightarrow> range_ok x \<and> range_block x < length (raf_blocks f) \<and>
      point_instr (range_start x) < num_instrs (raf_blocks f) (range_block x) \<and>
      point_instr (range_end x) < num_instrs (raf_blocks f) (range_block x)"
proof -
  obtain la' where la': "LivenessAnalysis_compute f = Some la'"
    "\<And>x. x \<in> set (live_ranges_of la' reg) \<Longrightarrow> range_block x < length (raf_blocks f)"
    "\<And>b. b < length (raf_blocks f) \<Longrightarrow>
       block_ranges b (\<lambda>i. usage_at (raf_blocks f) b i reg) (num_instrs (raf_blocks f) b)
         (reg \<in> outs_of (la_block_liveness la') b) (reg \<in> ins_of (la_block_liveness la') b) (ranges_in b (live_ranges_of la' reg))"
    using LivenessAnalysis_compute [OF ok] nk by metis
  have e: "la' = la" using la la'(1) by simp
  have "distinct (map fst (la_reg_ranges la))" using LivenessAnalysis_ranges_below [OF la] by (simp add: ranges_below_def)
  then have g: "live_ranges_of la reg = ranges" using r by (simp add: live_ranges_of_def RegRanges_get_def)
  show "sorted_wrt (\<lambda>x y. \<not> LiveRange_intersects x y) ranges"
    using live_ranges_disjoint [OF la'(2,3)] unfolding e g .
  show "range_ok x \<and> range_block x < length (raf_blocks f) \<and>
      point_instr (range_start x) < num_instrs (raf_blocks f) (range_block x) \<and>
      point_instr (range_end x) < num_instrs (raf_blocks f) (range_block x)" if x: "x \<in> set ranges" for x
  proof -
    have b: "range_block x < length (raf_blocks f)" using la'(2) x unfolding e g by simp
    have "x \<in> set (ranges_in (range_block x) ranges)" using x by (simp add: ranges_in_def)
    then have "start_of x \<le> end_of x \<and> end_of x < 2 * num_instrs (raf_blocks f) (range_block x)"
      using la'(3) [OF b] unfolding e g block_ranges_def by blast
    then show ?thesis using b by (auto simp: range_ok_def RegAllocPoint_value_def)
  qed
qed

lemma RegAllocPass_start:
  assumes ok: "blocks_ok (raf_blocks f)" and ord: "order_ok ord" and an: "target_ok an f" and la: "LivenessAnalysis_compute f = Some la"
  obtains ctx and classes :: reg_class_map where "RegAllocPass_start an ord f = Some ctx" "allocs_ok ctx" "\<And>s. s \<in> virtual_segments la \<Longrightarrow> placed ctx s"
    "ctx_func ctx = RegAllocPass_reserve_fixed_ranges ord la f" "ctx_inside f (ran classes) ctx"
    "\<forall>c\<in>ran classes. an_get_candidates an c \<noteq> None"
proof -
  obtain classes where c: "RegAllocPass_assign_reg_classes an f = Some classes" "\<forall>c\<in>ran classes. an_get_candidates an c \<noteq> None"
    "\<forall>(reg, _)\<in>set (la_reg_ranges la). Register_is_virtual reg \<longrightarrow> classes (Register_get_virtual_reg reg) \<noteq> None"
    using an la unfolding target_ok_def by blast
  have nk: "\<not> killed (raf_blocks f) reg" if "Register_is_virtual reg" for reg
    using an that unfolding target_ok_def by (auto simp: Register_is_virtual_def Register_is_physical_def)
  have b_ok: "bundle_ok (bundle_for reg ranges c)" if "(reg, ranges) \<in> set (la_reg_ranges la)" "Register_is_virtual reg" for reg ranges c
    using ranges_of_virtual [OF ok la that(1) nk [OF that(2)]] by (auto simp: bundle_ok_def Bundle_make_def sorted_wrt_map)
  obtain bundles where b: "RegAllocPass_create_bundles ord la classes = Some bundles" "bundles_ok (ran classes) (virtual_segments la) bundles"
    using create_bundles [OF ord c(3) b_ok] by blast
  let ?f = "RegAllocPass_reserve_fixed_ranges ord la f"
  have code: "same_code f ?f" using reserve_fixed_ranges(1) [OF ord] .
  have inside_f: "segment_inside f s" if "s \<in> virtual_segments la" for s
  proof -
    from that obtain reg x ranges where s: "s = \<lparr>seg_reg = Register_get_virtual_reg reg, seg_range = x\<rparr>" "(reg, ranges) \<in> set (la_reg_ranges la)"
      "Register_is_virtual reg" "x \<in> set ranges" unfolding virtual_segments_def by blast
    have x: "range_block x < length (raf_blocks f)" "point_instr (range_start x) < num_instrs (raf_blocks f) (range_block x)"
      "point_instr (range_end x) < num_instrs (raf_blocks f) (range_block x)"
      using ranges_of_virtual(2) [OF ok la s(2) nk [OF s(3)] s(4)] by auto
    then have "length (rab_nodes (raf_blocks f ! range_block x)) = num_instrs (raf_blocks f) (range_block x)"
      using an by (simp add: target_ok_def)
    then show "segment_inside f s" using x by (simp add: segment_inside_def s(1))
  qed
  then have inside: "\<forall>s\<in>virtual_segments la. segment_inside ?f s" using segment_inside_same_code [OF code] by blast
  have move: "moves_ok an ?f" using an moves_ok_same_code [OF code] by (simp add: target_ok_def)
  obtain bundles1 where b1: "RegAllocPass_coalesce_bundles an ?f bundles = Some bundles1"
    using coalesce_total [OF move inside b(2)] by blast
  note b2 = coalesce_bundles_ok [OF b(2) b1]
  let ?ctx = "\<lparr>ctx_func = ?f, ctx_bundles = bundles1, ctx_allocs = []\<rparr>"
  show thesis
  proof (rule that [of ?ctx classes])
    show "RegAllocPass_start an ord f = Some ?ctx"
      by (simp add: RegAllocPass_start_def la c(1) b(1) b1 Let_def)
    show "allocs_ok ?ctx" using b2(1) by (simp add: allocs_ok_def allocs_disjoint_def)
    show "placed ?ctx s" if s: "s \<in> virtual_segments la" for s
    proof -
      obtain b where b: "b \<in> set bundles1" "s \<in> segments_of b" using s unfolding b2(2) [symmetric] by blast
      have "b \<in> bundles_of ?ctx" using b(1) by (simp add: bundles_of_def)
      then show ?thesis using b b2(1) unfolding placed_def by blast
    qed
    have "bundle_inside f (ran classes) b" if "b \<in> set bundles1" for b
      using that b2 inside_f unfolding bundle_inside_def by blast
    then show "ctx_inside f (ran classes) ?ctx" using code by (simp add: ctx_inside_def bundles_of_def)
  qed (simp_all add: c(2))
qed

text \<open>An allocation has no common point with a fixed range of its register.\<close>

definition avoids_fixed :: "liveness_analysis \<Rightarrow> nat \<Rightarrow> ra_alloc \<Rightarrow> bool" where
  "avoids_fixed la n a \<longleftrightarrow>
     (\<forall>(reg, x)\<in>fixed_ranges la. range_block x < n \<longrightarrow> alloc_physical_reg a = reg \<longrightarrow>
        (\<forall>s\<in>segments_of (alloc_bundle a). \<not> LiveRange_intersects (seg_range s) x))"

lemma avoids_reserved_fixed:
  assumes "avoids_reserved f a" "\<And>p. p \<in> fixed_ranges la \<Longrightarrow> range_block (snd p) < n \<Longrightarrow> reserved_in f p"
  shows "avoids_fixed la n a"
  unfolding avoids_fixed_def
proof (intro ballI, clarify)
  fix x s
  assume p: "(alloc_physical_reg a, x) \<in> fixed_ranges la" "range_block x < n" "s \<in> segments_of (alloc_bundle a)"
    "LiveRange_intersects (seg_range s) x"
  have "reserved_in f (alloc_physical_reg a, x)" using assms(2) [OF p(1)] p(2) by simp
  moreover have "range_block (seg_range s) = range_block x" using p(4) by (simp add: LiveRange_intersects_def)
  ultimately show False using assms(1) p(3,4) by (fastforce simp: avoids_reserved_def reserved_in_def)
qed

lemma alloc_step_total:
  assumes an: "target_ok an f" and c: "\<forall>c\<in>ran classes. an_get_candidates an c \<noteq> None" and ord: "order_ok ord"
    and ctx: "ctx_inside f (ran classes) ctx" "ctx_bundles ctx \<noteq> []"
  shows "RegAllocPass_alloc_step an ord ctx \<noteq> None"
proof -
  have "order_top ord (ctx_bundles ctx) < length (ctx_bundles ctx)" using ord ctx(2) by (simp add: order_ok_def)
  then have "top_of ord ctx \<in> bundles_of ctx" by (simp add: bundles_of_def)
  then have inside: "bundle_inside f (ran classes) (top_of ord ctx)" "same_code f (ctx_func ctx)" using ctx(1) unfolding ctx_inside_def by blast+
  have suggest: "\<forall>g b. same_code f g \<longrightarrow> (\<forall>s\<in>segments_of b. segment_inside f s) \<longrightarrow> an_suggest_regs an g b \<noteq> None"
    using an unfolding target_ok_def by blast
  have "an_suggest_regs an (ctx_func ctx) (top_of ord ctx) \<noteq> None"
    using suggest inside unfolding bundle_inside_def by simp
  moreover have "an_get_candidates an (bundle_reg_class (top_of ord ctx)) \<noteq> None"
    using c inside(1) unfolding bundle_inside_def by simp
  ultimately obtain suggested candidates where "an_suggest_regs an (ctx_func ctx) (top_of ord ctx) = Some suggested"
    "an_get_candidates an (bundle_reg_class (top_of ord ctx)) = Some candidates"
    by auto
  then show ?thesis by (simp add: RegAllocPass_alloc_step_def RegAllocPass_alloc_bundle_def Let_def split: option.splits)
qed

subsection \<open>The pass\<close>

text \<open>
  For a target that answers, the pass gets a result unless a bundle that spilling has made finds no
  register. The AArch64 target is one.
\<close>

lemma RegAllocPass_allocate_correct:
  assumes ok: "blocks_ok (raf_blocks f)" and ord: "order_ok ord" and an: "target_ok an f"
  shows "\<exists>la ctx0. LivenessAnalysis_compute f = Some la \<and> RegAllocPass_start an ord f = Some ctx0 \<and>
     ((\<exists>ctx. alloc_reachable an ord ctx0 ctx \<and> respills an ord ctx) \<or>
      (\<exists>ctx. RegAllocPass_allocate an ord f = Some ctx \<and> ctx_bundles ctx = [] \<and>
         allocs_disjoint (ctx_allocs ctx) \<and>
         (\<forall>a\<in>set (ctx_allocs ctx). avoids_fixed la (length (raf_blocks f)) a) \<and>
         (\<forall>s\<in>virtual_segments la. placed ctx s)))"
proof -
  obtain la where la: "LivenessAnalysis_compute f = Some la" using LivenessAnalysis_compute [OF ok] by metis
  obtain ctx0 and classes :: reg_class_map where ctx0: "RegAllocPass_start an ord f = Some ctx0" "allocs_ok ctx0" "\<And>s. s \<in> virtual_segments la \<Longrightarrow> placed ctx0 s"
    "ctx_func ctx0 = RegAllocPass_reserve_fixed_ranges ord la f" "ctx_inside f (ran classes) ctx0"
    "\<forall>c\<in>ran classes. an_get_candidates an c \<noteq> None"
    using RegAllocPass_start [OF ok ord an la] by metis
  show ?thesis
  proof (cases "\<exists>ctx. alloc_reachable an ord ctx0 ctx \<and> respills an ord ctx")
    case True
    then show ?thesis using la ctx0(1) by blast
  next
    case False
    then have nr: "\<not> respills an ord ctx" if "alloc_reachable an ord ctx0 ctx" for ctx using that by blast
    obtain ctx where ctx: "RegAllocPass_alloc_loop an ord ctx0 = Some ctx"
      "raf_blocks (ctx_func ctx) = raf_blocks (ctx_func ctx0)" "alloc_done ctx (virtual_segments la)"
      using alloc_loop [OF ord ctx0(2,3) nr ctx0(5) alloc_step_total [OF an ctx0(6) ord]] by metis
    have reserved: "reserved_in (ctx_func ctx) p" if "p \<in> fixed_ranges la" "range_block (snd p) < length (raf_blocks f)" for p
      using reserve_fixed_ranges(2) [OF ord that] ctx(2) ctx0(4) by (simp add: reserved_in_def)
    have 1: "avoids_fixed la (length (raf_blocks f)) a" if "a \<in> set (ctx_allocs ctx)" for a
      using avoids_reserved_fixed [OF _ reserved] ctx(3) that by (simp add: alloc_done_def allocs_ok_def)
    have 2: "RegAllocPass_allocate an ord f = Some ctx" using ctx0(1) ctx(1) by (simp add: RegAllocPass_allocate_def)
    have 3: "ctx_bundles ctx = []" "allocs_disjoint (ctx_allocs ctx)" "\<forall>s\<in>virtual_segments la. placed ctx s"
      using ctx(3) unfolding alloc_done_def allocs_ok_def by blast+
    show ?thesis
      by (rule exI [of _ la], rule exI [of _ ctx0], intro conjI la ctx0(1) disjI2 exI [of _ ctx] ballI 1 2 3) assumption
  qed
qed

end
