(* ===== verification/AArch64_Reg_Analyzer.thy ===== *)
theory AArch64_Reg_Analyzer
  imports Reg_Alloc_Correct
begin

section \<open>The registers of AArch64 instructions\<close>

text \<open>
  \<open>AArch64RegAnalyzer\<close> (\<open>src/banjo/target/aarch64/aarch64_reg_analyzer.cpp\<close>): which registers an
  instruction uses, defines and kills, of which class they are, and the loads and stores of spilled
  registers. The virtual functions are put together to a target for the register allocator.
\<close>

subsection \<open>Registers\<close>

text \<open>\<open>R0\<close> to \<open>R30\<close> are 0 to 30, \<open>V0\<close> to \<open>V30\<close> are 31 to 61; \<open>R28\<close> is the scratch register.\<close>

definition AArch64RegAnalyzer_SCRATCH_REGISTER :: u32 where
  "AArch64RegAnalyzer_SCRATCH_REGISTER = 28"

definition AArch64RegAnalyzer_general_purpose_regs :: "u32 option \<Rightarrow> u32 list" where
  "AArch64RegAnalyzer_general_purpose_regs fixed_reg =
     filter (\<lambda>reg. reg \<noteq> AArch64RegAnalyzer_SCRATCH_REGISTER \<and> fixed_reg \<noteq> Some reg) (map of_nat [0..<29])"

definition AArch64RegAnalyzer_fp_and_vector_regs :: "u32 list" where
  "AArch64RegAnalyzer_fp_and_vector_regs = map of_nat [31..<62]"

definition AArch64RegClass_GENERAL_PURPOSE :: reg_class where
  "AArch64RegClass_GENERAL_PURPOSE = 0"

definition AArch64RegClass_FP_AND_VECTOR :: reg_class where
  "AArch64RegClass_FP_AND_VECTOR = 1"

lemmas aarch64_reg_classes = AArch64RegClass_GENERAL_PURPOSE_def AArch64RegClass_FP_AND_VECTOR_def

definition AArch64RegAnalyzer_get_candidates :: "u32 option \<Rightarrow> reg_class \<Rightarrow> u32 list option" where
  "AArch64RegAnalyzer_get_candidates fixed_reg c =
     (if c = AArch64RegClass_GENERAL_PURPOSE then Some (AArch64RegAnalyzer_general_purpose_regs fixed_reg)
      else if c = AArch64RegClass_FP_AND_VECTOR then Some AArch64RegAnalyzer_fp_and_vector_regs
      else None)"

subsection \<open>Operands\<close>

definition Instruction_FLAG_FLOAT :: u32 where
  "Instruction_FLAG_FLOAT = 16"

abbreviation has_opcode :: "m_instr \<Rightarrow> aarch64_opcode list \<Rightarrow> bool" where
  "has_opcode instr opcodes \<equiv> list_ex (\<lambda>opcode. AArch64Opcode_of_int (instr_opcode instr) = Some opcode) opcodes"

definition AArch64RegAnalyzer_is_move_opcode :: "m_instr \<Rightarrow> bool" where
  "AArch64RegAnalyzer_is_move_opcode instr \<longleftrightarrow> has_opcode instr [A64_MOV, A64_FMOV]"

definition AArch64RegAnalyzer_is_float_instr :: "m_instr \<Rightarrow> bool" where
  "AArch64RegAnalyzer_is_float_instr instr \<longleftrightarrow>
     has_opcode instr [A64_FMOV, A64_FADD, A64_FSUB, A64_FMUL, A64_FDIV, A64_FCVT, A64_SCVTF, A64_UCVTF, A64_FCSEL, A64_FCMP] \<or>
     Instruction_is_flag instr Instruction_FLAG_FLOAT"

text \<open>A register that is there already with another usage is used and defined.\<close>

primrec AArch64RegAnalyzer_insert_existing :: "register \<Rightarrow> reg_usage \<Rightarrow> reg_op list \<Rightarrow> reg_op list" where
  "AArch64RegAnalyzer_insert_existing reg usage [] = [\<lparr>regop_reg = reg, regop_usage = usage\<rparr>]"
| "AArch64RegAnalyzer_insert_existing reg usage (existing # dst) =
     (if regop_reg existing \<noteq> reg then existing # AArch64RegAnalyzer_insert_existing reg usage dst
      else if regop_usage existing \<noteq> usage then existing\<lparr>regop_usage := Usage_USE_DEF\<rparr> # dst
      else existing # dst)"

definition AArch64RegAnalyzer_insert_reg :: "register \<Rightarrow> reg_usage \<Rightarrow> reg_op list \<Rightarrow> reg_op list option" where
  "AArch64RegAnalyzer_insert_reg reg usage dst =
     do {
       ASSERT (usage = Usage_USE \<or> usage = Usage_DEF);
       Some (AArch64RegAnalyzer_insert_existing reg usage dst)
     }"

definition AArch64RegAnalyzer_collect_addr_regs :: "aarch64_address \<Rightarrow> reg_op list \<Rightarrow> reg_op list option" where
  "AArch64RegAnalyzer_collect_addr_regs addr dst =
     do {
       dst1 \<leftarrow> AArch64RegAnalyzer_insert_reg (AArch64Address_get_base addr) Usage_USE dst;
       (case addr of
          AA_BASE_OFFSET_REG _ offset \<Rightarrow> AArch64RegAnalyzer_insert_reg (ro_reg offset) Usage_USE dst1
        | _ \<Rightarrow> Some dst1)
     }"

definition AArch64RegAnalyzer_collect_regs :: "operand \<Rightarrow> reg_usage \<Rightarrow> reg_op list \<Rightarrow> reg_op list option" where
  "AArch64RegAnalyzer_collect_regs op usage dst =
     (case op_value op of
        Op_register r \<Rightarrow> AArch64RegAnalyzer_insert_reg r usage dst
      | Op_aarch64_addr addr \<Rightarrow> AArch64RegAnalyzer_collect_addr_regs addr dst
      | _ \<Rightarrow> Some dst)"

text \<open>The operands whose registers an instruction uses and defines, in the order of the calls.\<close>

definition AArch64RegAnalyzer_roles :: "aarch64_opcode \<Rightarrow> (nat \<times> reg_usage) list" where
  "AArch64RegAnalyzer_roles opcode =
     (if opcode \<in> {A64_MOV, A64_FMOV} then [(0, Usage_DEF), (1, Usage_USE)]
      else if opcode \<in> {A64_MOVZ, A64_MOVK, A64_LDR, A64_LDRB, A64_LDRH, A64_FCVT, A64_SCVTF, A64_UCVTF, A64_FCVTZS,
        A64_FCVTZU, A64_ADRP, A64_UXTB, A64_UXTH, A64_SXTB, A64_SXTH, A64_SXTW} then [(0, Usage_DEF), (1, Usage_USE)]
      else if opcode \<in> {A64_STR, A64_STRB, A64_STRH, A64_CMP, A64_FCMP} then [(0, Usage_USE), (1, Usage_USE)]
      else if opcode = A64_LDP then [(0, Usage_DEF), (1, Usage_DEF), (2, Usage_USE)]
      else if opcode = A64_STP then [(0, Usage_USE), (1, Usage_USE), (2, Usage_USE)]
      else if opcode \<in> {A64_ADD, A64_SUB, A64_MUL, A64_SDIV, A64_UDIV, A64_AND, A64_ORR, A64_EOR, A64_LSL, A64_LSR,
        A64_ASR, A64_CSEL, A64_FADD, A64_FSUB, A64_FMUL, A64_FDIV, A64_FCSEL}
      then [(0, Usage_DEF), (1, Usage_USE), (2, Usage_USE)]
      else if opcode \<in> {A64_MADD, A64_MSUB} then [(0, Usage_DEF), (1, Usage_USE), (2, Usage_USE), (3, Usage_USE)]
      else if opcode \<in> {A64_BL, A64_RET} then []
      else [(0, Usage_USE)])"

text \<open>
  What a call uses: the physical destinations of the instructions behind the last call in front of it.
\<close>

definition AArch64RegAnalyzer_call_arg :: "m_instr \<Rightarrow> reg_op list \<Rightarrow> reg_op list option" where
  "AArch64RegAnalyzer_call_arg prev operands =
     do {
       dest \<leftarrow> Instruction_get_operand prev 0;
       (case Operand_get_register dest of
          Some r \<Rightarrow> Some (if Register_is_physical r then operands @ [\<lparr>regop_reg = r, regop_usage = Usage_USE\<rparr>] else operands)
        | None \<Rightarrow> Some operands)
     }"

definition AArch64RegAnalyzer_is_call :: "m_instr \<Rightarrow> bool" where
  "AArch64RegAnalyzer_is_call instr \<longleftrightarrow> has_opcode instr [A64_BL, A64_BLR]"

definition AArch64RegAnalyzer_call_operands :: "u32 list \<Rightarrow> m_instr list \<Rightarrow> nat \<Rightarrow> reg_op list option" where
  "AArch64RegAnalyzer_call_operands volatile instrs index =
     (if AArch64RegAnalyzer_is_call (instrs ! index)
      then for_each (takeWhile (\<lambda>prev. \<not> AArch64RegAnalyzer_is_call prev) (rev (take index instrs))) AArch64RegAnalyzer_call_arg
        (map (\<lambda>reg. \<lparr>regop_reg = Register_from_physical reg, regop_usage = Usage_KILL\<rparr>) volatile)
      else Some [])"

definition AArch64RegAnalyzer_same_regs :: "operand \<Rightarrow> operand \<Rightarrow> bool" where
  "AArch64RegAnalyzer_same_regs dst src \<longleftrightarrow>
     MOperand_is_register dst \<and> MOperand_is_register src \<and> Operand_get_register src = Operand_get_register dst"

definition AArch64RegAnalyzer_get_operands :: "u32 list \<Rightarrow> m_instr list \<Rightarrow> nat \<Rightarrow> reg_op list option" where
  "AArch64RegAnalyzer_get_operands volatile instrs index =
     (let instr = instrs ! index in
      do {
        operands \<leftarrow> AArch64RegAnalyzer_call_operands volatile instrs index;
        opcode \<leftarrow> AArch64Opcode_of_int (instr_opcode instr);
        useless \<leftarrow> (if opcode = A64_MOV \<or> opcode = A64_FMOV
          then do {
            dst \<leftarrow> Instruction_get_operand instr 0;
            src \<leftarrow> Instruction_get_operand instr 1;
            Some (AArch64RegAnalyzer_same_regs dst src)
          }
          else Some False);
        (if useless then Some operands
         else for_each (AArch64RegAnalyzer_roles opcode)
           (\<lambda>(i, usage) operands. do {
              op \<leftarrow> Instruction_get_operand instr i;
              AArch64RegAnalyzer_collect_regs op usage operands
            }) operands)
      })"

subsection \<open>Classes, moves and suggestions\<close>

definition AArch64RegAnalyzer_assign_reg_classes :: "m_instr \<Rightarrow> reg_class_map \<Rightarrow> reg_class_map option" where
  "AArch64RegAnalyzer_assign_reg_classes instr reg_classes =
     (case Instruction_try_get_operand instr 0 of
        None \<Rightarrow> Some reg_classes
      | Some op \<Rightarrow>
          (case Operand_get_register op of
             Some r \<Rightarrow>
               Some (if \<not> Register_is_virtual r then reg_classes
                     else RegClassMap_insert (Register_get_virtual_reg r)
                       (if AArch64RegAnalyzer_is_float_instr instr then AArch64RegClass_FP_AND_VECTOR
                        else AArch64RegClass_GENERAL_PURPOSE) reg_classes)
           | None \<Rightarrow> Some reg_classes))"

definition AArch64RegAnalyzer_is_move_from :: "m_instr \<Rightarrow> u32 \<Rightarrow> bool option" where
  "AArch64RegAnalyzer_is_move_from instr src_reg =
     (if AArch64RegAnalyzer_is_move_opcode instr
      then do {
        src \<leftarrow> Instruction_get_operand instr 1;
        Some (case Operand_get_register src of
                Some r \<Rightarrow> Register_is_virtual r \<and> Register_get_virtual_reg r = src_reg | None \<Rightarrow> False)
      }
      else Some False)"

definition AArch64RegAnalyzer_suggest_op :: "m_instr \<Rightarrow> nat \<Rightarrow> u32 list \<Rightarrow> u32 list option" where
  "AArch64RegAnalyzer_suggest_op instr i suggested_regs =
     (if AArch64RegAnalyzer_is_move_opcode instr
      then do {
        op \<leftarrow> Instruction_get_operand instr i;
        Some (case Operand_get_register op of
                Some r \<Rightarrow> if Register_is_physical r then suggested_regs @ [Register_get_physical_reg r] else suggested_regs
              | None \<Rightarrow> suggested_regs)
      }
      else Some suggested_regs)"

definition AArch64RegAnalyzer_suggest_regs :: "ra_func \<Rightarrow> ra_bundle \<Rightarrow> u32 list option" where
  "AArch64RegAnalyzer_suggest_regs f b =
     for_each (bundle_segments b) (\<lambda>segment suggested_regs.
       let r = seg_range segment; nodes = rab_nodes (raf_blocks f ! range_block r) in
       do {
         ASSERT (point_instr (range_start r) < length nodes \<and> point_instr (range_end r) < length nodes);
         suggested1 \<leftarrow> AArch64RegAnalyzer_suggest_op (node_instr (nodes ! point_instr (range_start r))) 1 suggested_regs;
         AArch64RegAnalyzer_suggest_op (node_instr (nodes ! point_instr (range_end r))) 0 suggested1
       }) []"

definition AArch64RegAnalyzer_is_reg_overridden :: "u32 list \<Rightarrow> m_instr \<Rightarrow> u32 \<Rightarrow> bool option" where
  "AArch64RegAnalyzer_is_reg_overridden volatile instr reg =
     (if AArch64RegAnalyzer_is_call instr then Some (reg \<in> set volatile)
      else if has_opcode instr [A64_MOV, A64_MOVZ, A64_MOVK]
      then do {
        dest \<leftarrow> Instruction_get_operand instr 0;
        Some (MOperand_is_physical_reg dest \<and> Operand_get_physical_reg dest = Some reg)
      }
      else Some False)"

subsection \<open>Spilling and useless moves\<close>

text \<open>The opcode for the size of the slot; the instruction has its number in the enumeration.\<close>

definition AArch64RegAnalyzer_spill_instr ::
  "aarch64_opcode \<times> aarch64_opcode \<times> aarch64_opcode \<Rightarrow> stack_frame \<Rightarrow> spilled_reg_use \<Rightarrow> m_instr option" where
  "AArch64RegAnalyzer_spill_instr opcodes frame use =
     do {
       slot \<leftarrow> StackFrame_get_stack_slot frame (spilled_stack_slot use);
       let s = slot_size slot;
       let reg_size = (if s = 8 then 8 else 4);
       let reg = \<lparr>op_value = Op_register (Register_from_physical (spilled_reg use)), op_size = reg_size\<rparr>;
       let addr = \<lparr>op_value = Op_stack_slot (spilled_stack_slot use), op_size = 8\<rparr>;
       opcode \<leftarrow> (if s = 1 then Some (fst opcodes) else if s = 2 then Some (fst (snd opcodes))
         else if s = 4 \<or> s = 8 then Some (snd (snd opcodes)) else None);
       Some \<lparr>instr_opcode = AArch64Opcode_to_int opcode, instr_operands = [reg, addr], instr_flags = 0\<rparr>
     }"

definition AArch64RegAnalyzer_insert_load :: "stack_frame \<Rightarrow> spilled_reg_use \<Rightarrow> ra_node \<Rightarrow> ra_node option" where
  "AArch64RegAnalyzer_insert_load frame use node =
     map_option (\<lambda>i. RaNode_insert_before i node)
       (AArch64RegAnalyzer_spill_instr (A64_LDRB, A64_LDRH, A64_LDR) frame use)"

definition AArch64RegAnalyzer_insert_store :: "stack_frame \<Rightarrow> spilled_reg_use \<Rightarrow> ra_node \<Rightarrow> ra_node option" where
  "AArch64RegAnalyzer_insert_store frame use node =
     map_option (\<lambda>i. RaNode_insert_after i node)
       (AArch64RegAnalyzer_spill_instr (A64_STRB, A64_STRH, A64_STR) frame use)"

definition AArch64RegAnalyzer_is_instr_removable :: "m_instr \<Rightarrow> bool option" where
  "AArch64RegAnalyzer_is_instr_removable instr =
     (if AArch64RegAnalyzer_is_move_opcode instr
      then do {
        dest \<leftarrow> Instruction_get_operand instr 0;
        src \<leftarrow> Instruction_get_operand instr 1;
        Some (AArch64RegAnalyzer_same_regs dest src)
      }
      else Some False)"

definition AArch64RegAnalyzer :: "u32 option \<Rightarrow> target_reg_analyzer" where
  "AArch64RegAnalyzer fixed_reg =
     \<lparr>an_get_candidates = AArch64RegAnalyzer_get_candidates fixed_reg,
      an_suggest_regs = AArch64RegAnalyzer_suggest_regs,
      an_get_operands = AArch64RegAnalyzer_get_operands,
      an_assign_reg_classes = AArch64RegAnalyzer_assign_reg_classes,
      an_is_move_from = AArch64RegAnalyzer_is_move_from,
      an_insert_load = AArch64RegAnalyzer_insert_load,
      an_insert_store = AArch64RegAnalyzer_insert_store,
      an_is_instr_removable = AArch64RegAnalyzer_is_instr_removable\<rparr>"

end
