(* ===== verification/AArch64_Effects.thy ===== *)
theory AArch64_Effects
  imports AArch64_Reg_Analyzer
begin

section \<open>What AArch64 instructions do to registers\<close>

text \<open>
  A semantics of machine instructions over virtual and physical registers, written from the
  architecture and not from the compiler: for every opcode, which operands are evaluated, which
  registers are replaced by results, and what happens to memory, to the flags and to the
  control flow. What the functional units compute is left open, since the question here is
  only which registers an instruction depends on and which it changes. On top of it stands the
  soundness of a list of operands, the condition under which liveness may be computed from it.
\<close>

record a64_state =
  st_reg :: "register \<Rightarrow> u64"
  st_mem :: "u64 \<Rightarrow> u8"
  st_flags :: "4 word"
  st_jump :: "u64 option"

text \<open>
  The functional units: the result of a computation from the flags and the values of the
  operands, the flags of a comparison, the condition of a branch, loads and stores at an
  address, and the value of an operand that names no register (an immediate, a label, a symbol, a
  stack slot). Each of them sees the instruction, with its opcode and the sizes of its operands.
\<close>

record a64_units =
  unit_alu :: "m_instr \<Rightarrow> 4 word \<Rightarrow> u64 list \<Rightarrow> u64"
  unit_compare :: "m_instr \<Rightarrow> u64 list \<Rightarrow> 4 word"
  unit_taken :: "m_instr \<Rightarrow> 4 word \<Rightarrow> bool"
  unit_load :: "m_instr \<Rightarrow> (u64 \<Rightarrow> u8) \<Rightarrow> u64 \<Rightarrow> u64"
  unit_store :: "m_instr \<Rightarrow> u64 \<Rightarrow> u64 \<Rightarrow> (u64 \<Rightarrow> u8) \<Rightarrow> u64 \<Rightarrow> u8"
  unit_const :: "operand_value \<Rightarrow> u64"

subsection \<open>Operands\<close>

definition a64_address :: "a64_units \<Rightarrow> a64_state \<Rightarrow> aarch64_address \<Rightarrow> u64" where
  "a64_address U s addr =
     (case addr of
        AA_BASE base \<Rightarrow> st_reg s base
      | AA_BASE_OFFSET_IMM base offset \<Rightarrow> st_reg s base + scast offset
      | AA_BASE_OFFSET_IMM_WRITE base offset \<Rightarrow> st_reg s base + scast offset
      | AA_BASE_OFFSET_STACK_ADDR base offset \<Rightarrow> st_reg s base + unit_const U (Op_stack_offset offset)
      | AA_BASE_OFFSET_REG base offset \<Rightarrow>
          st_reg s base + push_bit (unat (ro_shift offset)) (st_reg s (ro_reg offset))
      | AA_BASE_OFFSET_SYMBOL base symbol \<Rightarrow> st_reg s base + unit_const U (Op_symbol symbol))"

definition a64_value :: "a64_units \<Rightarrow> a64_state \<Rightarrow> operand \<Rightarrow> u64" where
  "a64_value U s op =
     (case op_value op of
        Op_register r \<Rightarrow> st_reg s r
      | Op_aarch64_addr addr \<Rightarrow> a64_address U s addr
      | v \<Rightarrow> unit_const U v)"

text \<open>The value of the operand at a place of the instruction, and the values at several places.\<close>

definition a64_value_at :: "a64_units \<Rightarrow> m_instr \<Rightarrow> a64_state \<Rightarrow> nat \<Rightarrow> u64 option" where
  "a64_value_at U i s k = map_option (a64_value U s) (Instruction_get_operand i k)"

primrec a64_values_at :: "a64_units \<Rightarrow> m_instr \<Rightarrow> a64_state \<Rightarrow> nat list \<Rightarrow> u64 list option" where
  "a64_values_at U i s [] = Some []"
| "a64_values_at U i s (k # ks) =
     do {
       v \<leftarrow> a64_value_at U i s k;
       vs \<leftarrow> a64_values_at U i s ks;
       Some (v # vs)
     }"

definition a64_register_at :: "m_instr \<Rightarrow> nat \<Rightarrow> register option" where
  "a64_register_at i k = Option.bind (Instruction_get_operand i k) Operand_get_register"

subsection \<open>Kinds of instructions\<close>

text \<open>The first operand becomes the result computed from the operands at \<open>ks\<close>.\<close>

definition a64_compute :: "a64_units \<Rightarrow> m_instr \<Rightarrow> nat list \<Rightarrow> a64_state \<Rightarrow> a64_state option" where
  "a64_compute U i ks s =
     do {
       dst \<leftarrow> a64_register_at i 0;
       vs \<leftarrow> a64_values_at U i s ks;
       Some (s\<lparr>st_reg := (st_reg s)(dst := unit_alu U i (st_flags s) vs)\<rparr>)
     }"

definition a64_compare :: "a64_units \<Rightarrow> m_instr \<Rightarrow> a64_state \<Rightarrow> a64_state option" where
  "a64_compare U i s =
     do {
       vs \<leftarrow> a64_values_at U i s [0, 1];
       Some (s\<lparr>st_flags := unit_compare U i vs\<rparr>)
     }"

definition a64_load :: "a64_units \<Rightarrow> m_instr \<Rightarrow> a64_state \<Rightarrow> a64_state option" where
  "a64_load U i s =
     do {
       dst \<leftarrow> a64_register_at i 0;
       a \<leftarrow> a64_value_at U i s 1;
       Some (s\<lparr>st_reg := (st_reg s)(dst := unit_load U i (st_mem s) a)\<rparr>)
     }"

definition a64_store :: "a64_units \<Rightarrow> m_instr \<Rightarrow> a64_state \<Rightarrow> a64_state option" where
  "a64_store U i s =
     do {
       v \<leftarrow> a64_value_at U i s 0;
       a \<leftarrow> a64_value_at U i s 1;
       Some (s\<lparr>st_mem := unit_store U i v a (st_mem s)\<rparr>)
     }"

text \<open>The second register of a pair is behind the first in memory, by the size of the operand.\<close>

definition a64_load_pair :: "a64_units \<Rightarrow> m_instr \<Rightarrow> a64_state \<Rightarrow> a64_state option" where
  "a64_load_pair U i s =
     do {
       op \<leftarrow> Instruction_get_operand i 0;
       dst1 \<leftarrow> a64_register_at i 0;
       dst2 \<leftarrow> a64_register_at i 1;
       a \<leftarrow> a64_value_at U i s 2;
       Some (s\<lparr>st_reg := (st_reg s)(dst1 := unit_load U i (st_mem s) a,
         dst2 := unit_load U i (st_mem s) (a + ucast (op_size op)))\<rparr>)
     }"

definition a64_store_pair :: "a64_units \<Rightarrow> m_instr \<Rightarrow> a64_state \<Rightarrow> a64_state option" where
  "a64_store_pair U i s =
     do {
       op \<leftarrow> Instruction_get_operand i 0;
       v1 \<leftarrow> a64_value_at U i s 0;
       v2 \<leftarrow> a64_value_at U i s 1;
       a \<leftarrow> a64_value_at U i s 2;
       Some (s\<lparr>st_mem := unit_store U i v2 (a + ucast (op_size op)) (unit_store U i v1 a (st_mem s))\<rparr>)
     }"

definition a64_jump :: "a64_units \<Rightarrow> m_instr \<Rightarrow> bool \<Rightarrow> a64_state \<Rightarrow> a64_state option" where
  "a64_jump U i taken s =
     do {
       target \<leftarrow> a64_value_at U i s 0;
       Some (s\<lparr>st_jump := (if taken then Some target else None)\<rparr>)
     }"

text \<open>
  The base register of an address changes when the address is pre-indexed, or post-indexed by an
  immediate behind it, in the operand at \<open>k\<close> of a load or store.
\<close>

definition a64_write_back :: "a64_units \<Rightarrow> m_instr \<Rightarrow> nat \<Rightarrow> a64_state \<Rightarrow> a64_state option" where
  "a64_write_back U i k s =
     do {
       op \<leftarrow> Instruction_get_operand i k;
       Some (case op_value op of
          Op_aarch64_addr (AA_BASE_OFFSET_IMM_WRITE base offset) \<Rightarrow>
            s\<lparr>st_reg := (st_reg s)(base := st_reg s base + scast offset)\<rparr>
        | Op_aarch64_addr (AA_BASE base) \<Rightarrow>
            (case Instruction_try_get_operand i (k + 1) of
               Some post \<Rightarrow> s\<lparr>st_reg := (st_reg s)(base := st_reg s base + unit_const U (op_value post))\<rparr>
             | None \<Rightarrow> s)
        | _ \<Rightarrow> s)
     }"

definition a64_writes_back :: "m_instr \<Rightarrow> aarch64_opcode \<Rightarrow> bool" where
  "a64_writes_back i opcode \<longleftrightarrow>
     (\<exists>k. (k = 1 \<and> opcode \<in> {A64_LDR, A64_LDRB, A64_LDRH, A64_STR, A64_STRB, A64_STRH} \<or>
           k = 2 \<and> opcode \<in> {A64_LDP, A64_STP}) \<and>
       (\<exists>op. Instruction_get_operand i k = Some op \<and>
         ((\<exists>base offset. op_value op = Op_aarch64_addr (AA_BASE_OFFSET_IMM_WRITE base offset)) \<or>
          (\<exists>base post. op_value op = Op_aarch64_addr (AA_BASE base) \<and>
             Instruction_try_get_operand i (k + 1) = Some post))))"

subsection \<open>The instructions\<close>

text \<open>
  \<open>MOVK\<close> replaces 16 bits of its first operand and keeps the others, so it depends on it. The
  conditional selections and branches depend on the flags as well. Calls and returns leave the
  function and have no effect here.
\<close>

definition a64_run :: "a64_units \<Rightarrow> m_instr \<Rightarrow> aarch64_opcode \<Rightarrow> a64_state \<Rightarrow> a64_state option" where
  "a64_run U i opcode s =
     (case opcode of
        A64_MOV \<Rightarrow> a64_compute U i [1] s
      | A64_MOVZ \<Rightarrow> a64_compute U i [1] s
      | A64_MOVK \<Rightarrow> a64_compute U i [0, 1] s
      | A64_LDR \<Rightarrow> Option.bind (a64_load U i s) (a64_write_back U i 1)
      | A64_LDRB \<Rightarrow> Option.bind (a64_load U i s) (a64_write_back U i 1)
      | A64_LDRH \<Rightarrow> Option.bind (a64_load U i s) (a64_write_back U i 1)
      | A64_STR \<Rightarrow> Option.bind (a64_store U i s) (a64_write_back U i 1)
      | A64_STRB \<Rightarrow> Option.bind (a64_store U i s) (a64_write_back U i 1)
      | A64_STRH \<Rightarrow> Option.bind (a64_store U i s) (a64_write_back U i 1)
      | A64_LDP \<Rightarrow> Option.bind (a64_load_pair U i s) (a64_write_back U i 2)
      | A64_STP \<Rightarrow> Option.bind (a64_store_pair U i s) (a64_write_back U i 2)
      | A64_ADD \<Rightarrow> a64_compute U i [1, 2] s
      | A64_SUB \<Rightarrow> a64_compute U i [1, 2] s
      | A64_MUL \<Rightarrow> a64_compute U i [1, 2] s
      | A64_MADD \<Rightarrow> a64_compute U i [1, 2, 3] s
      | A64_MSUB \<Rightarrow> a64_compute U i [1, 2, 3] s
      | A64_SDIV \<Rightarrow> a64_compute U i [1, 2] s
      | A64_UDIV \<Rightarrow> a64_compute U i [1, 2] s
      | A64_AND \<Rightarrow> a64_compute U i [1, 2] s
      | A64_ORR \<Rightarrow> a64_compute U i [1, 2] s
      | A64_EOR \<Rightarrow> a64_compute U i [1, 2] s
      | A64_LSL \<Rightarrow> a64_compute U i [1, 2] s
      | A64_LSR \<Rightarrow> a64_compute U i [1, 2] s
      | A64_ASR \<Rightarrow> a64_compute U i [1, 2] s
      | A64_CSEL \<Rightarrow> a64_compute U i [1, 2] s
      | A64_FMOV \<Rightarrow> a64_compute U i [1] s
      | A64_FADD \<Rightarrow> a64_compute U i [1, 2] s
      | A64_FSUB \<Rightarrow> a64_compute U i [1, 2] s
      | A64_FMUL \<Rightarrow> a64_compute U i [1, 2] s
      | A64_FDIV \<Rightarrow> a64_compute U i [1, 2] s
      | A64_FCVT \<Rightarrow> a64_compute U i [1] s
      | A64_SCVTF \<Rightarrow> a64_compute U i [1] s
      | A64_UCVTF \<Rightarrow> a64_compute U i [1] s
      | A64_FCVTZS \<Rightarrow> a64_compute U i [1] s
      | A64_FCVTZU \<Rightarrow> a64_compute U i [1] s
      | A64_FCSEL \<Rightarrow> a64_compute U i [1, 2] s
      | A64_CMP \<Rightarrow> a64_compare U i s
      | A64_FCMP \<Rightarrow> a64_compare U i s
      | A64_B \<Rightarrow> a64_jump U i True s
      | A64_BR \<Rightarrow> a64_jump U i True s
      | A64_B_EQ \<Rightarrow> a64_jump U i (unit_taken U i (st_flags s)) s
      | A64_B_NE \<Rightarrow> a64_jump U i (unit_taken U i (st_flags s)) s
      | A64_B_HS \<Rightarrow> a64_jump U i (unit_taken U i (st_flags s)) s
      | A64_B_LO \<Rightarrow> a64_jump U i (unit_taken U i (st_flags s)) s
      | A64_B_HI \<Rightarrow> a64_jump U i (unit_taken U i (st_flags s)) s
      | A64_B_LS \<Rightarrow> a64_jump U i (unit_taken U i (st_flags s)) s
      | A64_B_GE \<Rightarrow> a64_jump U i (unit_taken U i (st_flags s)) s
      | A64_B_LT \<Rightarrow> a64_jump U i (unit_taken U i (st_flags s)) s
      | A64_B_GT \<Rightarrow> a64_jump U i (unit_taken U i (st_flags s)) s
      | A64_B_LE \<Rightarrow> a64_jump U i (unit_taken U i (st_flags s)) s
      | A64_ADRP \<Rightarrow> a64_compute U i [1] s
      | A64_UXTB \<Rightarrow> a64_compute U i [1] s
      | A64_UXTH \<Rightarrow> a64_compute U i [1] s
      | A64_SXTB \<Rightarrow> a64_compute U i [1] s
      | A64_SXTH \<Rightarrow> a64_compute U i [1] s
      | A64_SXTW \<Rightarrow> a64_compute U i [1] s
      | A64_BL \<Rightarrow> None | A64_BLR \<Rightarrow> None | A64_RET \<Rightarrow> None)"

subsection \<open>Soundness of a list of operands\<close>

text \<open>
  Two states agree on registers \<open>R\<close>, and on everything that is not a register. An instruction is
  described by the registers \<open>W\<close> that it defines and the registers \<open>R\<close> that it uses when it changes no
  other register than those of \<open>W\<close>, and when two states that agree on \<open>R\<close> lead to states that
  agree on \<open>W\<close>: what a register of \<open>W\<close> held before is gone, and nothing but \<open>R\<close> is needed.
\<close>

definition st_agree :: "register set \<Rightarrow> a64_state \<Rightarrow> a64_state \<Rightarrow> bool" where
  "st_agree R s t \<longleftrightarrow> st_mem s = st_mem t \<and> st_flags s = st_flags t \<and> st_jump s = st_jump t \<and>
     (\<forall>r \<in> R. st_reg s r = st_reg t r)"

definition step_sound ::
  "register set \<Rightarrow> register set \<Rightarrow> (a64_state \<Rightarrow> a64_state option) \<Rightarrow> bool" where
  "step_sound W R step \<longleftrightarrow>
     (\<forall>s s'. step s = Some s' \<longrightarrow>
        (\<forall>r. r \<notin> W \<longrightarrow> st_reg s' r = st_reg s r) \<and>
        (\<forall>t. st_agree R s t \<longrightarrow> (\<exists>t'. step t = Some t' \<and> st_agree W s' t')))"

definition regops_defs :: "reg_op list \<Rightarrow> register set" where
  "regops_defs ops = {r. regop_of ops r = Some Usage_DEF \<or> regop_of ops r = Some Usage_USE_DEF}"

definition regops_uses :: "reg_op list \<Rightarrow> register set" where
  "regops_uses ops = {r. regop_of ops r = Some Usage_USE \<or> regop_of ops r = Some Usage_USE_DEF}"

definition regops_sound :: "m_instr \<Rightarrow> aarch64_opcode \<Rightarrow> reg_op list \<Rightarrow> bool" where
  "regops_sound i opcode ops \<longleftrightarrow>
     (\<forall>U. step_sound (regops_defs ops) (regops_uses ops) (a64_run U i opcode))"

end
