(* ===== verification/AArch64_Reg_Correct.thy ===== *)
theory AArch64_Reg_Correct
  imports AArch64_Effects
begin

section \<open>The operands of AArch64 instructions are sound\<close>

text \<open>
  The list of operands of an instruction names every register once, and it describes what the
  architecture does with the instruction; with it the register allocation is correct for the AArch64
  target.
\<close>

subsection \<open>Merging operands\<close>









definition op_writes :: "operand \<Rightarrow> reg_usage \<Rightarrow> register set" where
  "op_writes op u = (case op_value op of Op_register r \<Rightarrow> if u = Usage_DEF then {r} else {} | _ \<Rightarrow> {})"



subsection \<open>What is collected for an instruction\<close>

definition role_ops :: "m_instr \<Rightarrow> (nat \<times> reg_usage) list \<Rightarrow> (operand \<times> reg_usage) set" where
  "role_ops instr roles = {(instr_operands instr ! i, u) | i u. (i, u) \<in> set roles \<and> i < length (instr_operands instr)}"

definition instr_writes :: "m_instr \<Rightarrow> aarch64_opcode \<Rightarrow> register set" where
  "instr_writes instr opcode = (\<Union>(op, u)\<in>role_ops instr (AArch64RegAnalyzer_roles opcode). op_writes op u)"




subsection \<open>Calls\<close>

text \<open>The operands of a call kill the volatile registers and use physical registers.\<close>

definition call_ops :: "u32 list \<Rightarrow> reg_op list \<Rightarrow> bool" where
  "call_ops volatile ops \<longleftrightarrow>
     (\<forall>op\<in>set ops. regop_usage op = Usage_USE \<or> regop_usage op = Usage_KILL \<and> regop_reg op \<in> Register_from_physical ` set volatile)"


lemma call_operands:
  assumes "AArch64RegAnalyzer_call_operands volatile instrs i = Some ops"
  shows "call_ops volatile ops" "\<not> AArch64RegAnalyzer_is_call (instrs ! i) \<Longrightarrow> ops = []"
proof -
  show "\<not> AArch64RegAnalyzer_is_call (instrs ! i) \<Longrightarrow> ops = []"
    using assms by (simp add: AArch64RegAnalyzer_call_operands_def)
  show "call_ops volatile ops"
  proof (cases "AArch64RegAnalyzer_is_call (instrs ! i)")
    case True
    then have r: "for_each (takeWhile (\<lambda>prev. \<not> AArch64RegAnalyzer_is_call prev) (rev (take i instrs))) AArch64RegAnalyzer_call_arg
        (map (\<lambda>reg. \<lparr>regop_reg = Register_from_physical reg, regop_usage = Usage_KILL\<rparr>) volatile) = Some ops"
      using assms by (simp add: AArch64RegAnalyzer_call_operands_def)
    show ?thesis
    proof (rule for_each_inv [OF r, where P = "call_ops volatile"])
      fix x s s'
      assume s: "call_ops volatile s" and r: "AArch64RegAnalyzer_call_arg x s = Some s'"
      obtain dest where "(case Operand_get_register dest of
          Some r \<Rightarrow> Some (if Register_is_physical r then s @ [\<lparr>regop_reg = r, regop_usage = Usage_USE\<rparr>] else s)
        | None \<Rightarrow> Some s) = Some s'" using r by (auto simp: AArch64RegAnalyzer_call_arg_def bind_simps)
      then have "s' = s \<or> (\<exists>r. s' = s @ [\<lparr>regop_reg = r, regop_usage = Usage_USE\<rparr>])"
        by (auto split: option.splits if_splits)
      then show "call_ops volatile s'" using s by (auto simp: call_ops_def)
    qed (auto simp: call_ops_def)
  qed (use assms in \<open>simp add: AArch64RegAnalyzer_call_operands_def call_ops_def\<close>)
qed



lemma get_operands_cases:
  assumes "AArch64RegAnalyzer_get_operands volatile instrs i = Some ops"
  obtains ops0 opcode where "AArch64RegAnalyzer_call_operands volatile instrs i = Some ops0"
    "AArch64Opcode_of_int (instr_opcode (instrs ! i)) = Some opcode"
    "opcode = A64_MOV \<or> opcode = A64_FMOV \<Longrightarrow> 1 < length (instr_operands (instrs ! i))"
    "opcode = A64_MOV \<or> opcode = A64_FMOV \<Longrightarrow> AArch64RegAnalyzer_same_regs (instr_operands (instrs ! i) ! 0) (instr_operands (instrs ! i) ! 1) \<Longrightarrow> ops = ops0"
    "\<not> ((opcode = A64_MOV \<or> opcode = A64_FMOV) \<and> AArch64RegAnalyzer_same_regs (instr_operands (instrs ! i) ! 0) (instr_operands (instrs ! i) ! 1)) \<Longrightarrow>
      for_each (AArch64RegAnalyzer_roles opcode) (\<lambda>(j, usage) operands. do {
        op \<leftarrow> Instruction_get_operand (instrs ! i) j;
        AArch64RegAnalyzer_collect_regs op usage operands
      }) ops0 = Some ops"
  using assms
  by (auto simp: AArch64RegAnalyzer_get_operands_def Let_def bind_simps Instruction_get_operand_def split: if_splits)





subsection \<open>Soundness for the semantics\<close>





lemma no_writes:
  assumes "\<And>k u. (k, u) \<in> set (AArch64RegAnalyzer_roles opcode) \<Longrightarrow> u = Usage_USE"
  shows "instr_writes i opcode = {}"
proof -
  have "op_writes op u = {}" if "(op, u) \<in> role_ops i (AArch64RegAnalyzer_roles opcode)" for op u
  proof -
    have "u = Usage_USE" using that assms by (auto simp: role_ops_def)
    then show ?thesis by (simp add: op_writes_def split: operand_value.split)
  qed
  then show ?thesis by (auto simp: instr_writes_def)
qed

subsubsection \<open>Values depend on what is read\<close>





subsubsection \<open>Soundness of each kind of instruction\<close>









subsubsection \<open>All instructions\<close>
















subsection \<open>The property\<close>





subsection \<open>The registers that have ranges\<close>

definition used_regs :: "ra_block list \<Rightarrow> register set" where
  "used_regs blocks = {regop_reg op | op b i. b < length blocks \<and> i < num_instrs blocks b \<and> op \<in> set (rai_regs (rab_instrs (blocks ! b) ! i))}"

lemma regop_of_mem: "regop_of ops r = Some u \<Longrightarrow> \<exists>op\<in>set ops. regop_reg op = r"
  by (induction ops) (auto split: if_splits)

lemma live_at_used:
  assumes ok: "blocks_ok blocks"
  shows "live_at blocks b i r \<Longrightarrow> b < length blocks \<Longrightarrow> r \<in> used_regs blocks"
proof (induction rule: live_at.induct)
  case (use_at i b r)
  then show ?case using regop_of_mem unfolding used_regs_def by blast
next
  case (next_block i b s r)
  then show ?case using blocks_okD(3) [OF ok] by blast
qed

definition reg_keys :: "reg_ranges \<Rightarrow> register set" where
  "reg_keys m = fst ` set m"

lemma keys_update: "reg_keys (AList.update r x m) = insert r (reg_keys m)"
  by (simp add: reg_keys_def dom_update)

lemma keys_push_back: "reg_keys (RegRanges_push_back r x m) = insert r (reg_keys m)"
  by (simp add: RegRanges_push_back_def reg_keys_def dom_update)

lemma keys_get: "RegRanges_get m r \<noteq> [] \<Longrightarrow> r \<in> reg_keys m"
  by (auto simp: reg_keys_def RegRanges_get_def split: option.splits dest!: map_of_SomeD intro: rev_image_eqI)

lemma keys_set_back_start: "RegRanges_set_back_start r p m = Some m' \<Longrightarrow> reg_keys m' \<subseteq> insert r (reg_keys m) \<and> r \<in> reg_keys m"
  by (auto simp: RegRanges_set_back_start_def Let_def keys_update keys_get split: if_splits)

lemma keys_op:
  assumes "Liveness_range_op b i op s = Some s'"
  shows "reg_keys (fst s') \<subseteq> insert (regop_reg op) (reg_keys (fst s))"
proof -
  obtain m kills live where s: "s = (m, kills, live)" by (cases s)
  show ?thesis
    using assms unfolding s
    by (auto simp: Liveness_range_op_def Let_def keys_push_back split: reg_usage.splits if_splits dest!: keys_set_back_start)
qed

lemma keys_block:
  assumes r: "Liveness_range_block blocks ls b s = Some s'" and ok: "blocks_ok blocks" and b: "b < length blocks"
    and it: "iterates blocks (start_liveness blocks) ls" and s: "reg_keys (fst s) \<subseteq> used_regs blocks"
  shows "reg_keys (fst s') \<subseteq> used_regs blocks"
proof -
  let ?P = "\<lambda>m. reg_keys m \<subseteq> used_regs blocks"
  obtain m kills where m: "s = (m, kills)" by (cases s)
  have "rab_instrs (blocks ! b) \<noteq> []" using block_okD(1) [OF blocks_okD(2) [OF ok b]] .
  then obtain outs ins s1 m2 where r: "RegisterSet_elements (live_outs (ls ! b)) = Some outs"
      "for_each (rev [0..<num_instrs blocks b]) (Liveness_range_instr b (blocks ! b))
        (Liveness_range_outs b (blocks ! b) outs m, kills, set outs) = Some s1"
      "for_each ins (\<lambda>r. RegRanges_set_back_start r (RegAllocPoint 0 0)) (fst s1) = Some m2" "fst s' = m2"
    using r by (auto simp: Liveness_range_block_def m bind_simps Let_def split: prod.splits)
  have bounded: "BitSet_bounded (live_outs (ls ! b))" using iteratesD(5) [OF it b] .
  have "set outs = outs_of ls b" using rs.elements_set [OF bounded] r(1) by simp
  moreover have "outs_of ls b \<subseteq> used_regs blocks"
    using iteratesD(7) [OF it b] live_out_iff_live_at [OF ok b] live_at_used [OF ok] blocks_okD(3) [OF ok b] by blast
  ultimately have outs: "set outs \<subseteq> used_regs blocks" by simp
  have start: "?P (Liveness_range_outs b (blocks ! b) outs m)"
    unfolding Liveness_range_outs_def using outs s unfolding m fst_conv
    by (induction outs arbitrary: m) (simp_all add: keys_push_back)
  have "?P (fst s1)"
  proof (rule for_each_inv [OF r(2), where P = "\<lambda>s. ?P (fst s)"])
    fix i s s'
    assume i: "i \<in> set (rev [0..<num_instrs blocks b])" and s: "?P (fst s)" and r: "Liveness_range_instr b (blocks ! b) i s = Some s'"
    show "?P (fst s')"
    proof (rule for_each_inv [OF r [unfolded Liveness_range_instr_def], where P = "\<lambda>s. ?P (fst s)"])
      fix op s s'
      assume op: "op \<in> set (rai_regs (rab_instrs (blocks ! b) ! i))" and s: "?P (fst s)" and r: "Liveness_range_op b i op s = Some s'"
      have "regop_reg op \<in> used_regs blocks" using op i b by (auto simp: used_regs_def)
      then show "?P (fst s')" using keys_op [OF r] s by blast
    qed (use s in simp)
  qed (use start in simp)
  then show ?thesis
    unfolding r(4) by (rule for_each_inv [OF r(3), where P = ?P]) (use keys_set_back_start in blast)+
qed

lemma ranges_used:
  assumes ok: "blocks_ok (raf_blocks f)" and la: "LivenessAnalysis_compute f = Some la"
  shows "reg_keys (la_reg_ranges la) \<subseteq> used_regs (raf_blocks f)"
proof -
  let ?blocks = "raf_blocks f"
  have start: "live_ins (start_liveness ?blocks ! b) = BitSet_empty \<and> live_outs (start_liveness ?blocks ! b) = BitSet_empty"
    if "b < length ?blocks" for b using start_liveness(3,4) [OF ok that] by blast
  obtain ls where ls: "LivenessAnalysis_compute_ins_and_outs ?blocks (start_liveness ?blocks) = Some ls"
    "iterates ?blocks (start_liveness ?blocks) ls"
    "\<And>b. b \<in> reachable_blocks ?blocks \<Longrightarrow> ins_of ls b = {r. live_in ?blocks (start_liveness ?blocks) b r} \<and>
      outs_of ls b = {r. live_out ?blocks (start_liveness ?blocks) b r}"
    using LivenessAnalysis_compute_ins_and_outs [OF start_sets_ok [OF ok] blocks_okD(1) [OF ok] start] by blast
  obtain kills where r: "for_each [0..<length ?blocks] (Liveness_range_block ?blocks ls) ([], []) = Some (la_reg_ranges la, kills)"
    using la ls(1) by (auto simp: LivenessAnalysis_compute_def LivenessAnalysis_compute_precise_live_ranges_def bind_simps Let_def)
  have "reg_keys (fst (la_reg_ranges la, kills)) \<subseteq> used_regs ?blocks"
  proof (rule for_each_inv [OF r, where P = "\<lambda>s. reg_keys (fst s) \<subseteq> used_regs ?blocks"])
    fix b s s'
    assume b: "b \<in> set [0..<length ?blocks]" and s: "reg_keys (fst s) \<subseteq> used_regs ?blocks" and r: "Liveness_range_block ?blocks ls b s = Some s'"
    show "reg_keys (fst s') \<subseteq> used_regs ?blocks" using keys_block [OF r ok _ ls(2) s] b by simp
  qed (simp add: reg_keys_def)
  then show ?thesis by simp
qed


subsection \<open>Register allocation for AArch64\<close>

lemma create_reg_alloc_func_nth:
  assumes "RegAllocPass_create_reg_alloc_func an f = Some ra"
  shows "length (raf_blocks ra) = length (func_basic_blocks f)"
    and "\<And>b. b < length (raf_blocks ra) \<Longrightarrow>
      rab_nodes (raf_blocks ra ! b) = map (\<lambda>i. \<lparr>node_before = [], node_instr = i, node_after = []\<rparr>) (block_instrs (func_basic_blocks f ! b)) \<and>
      length (rab_instrs (raf_blocks ra ! b)) = length (block_instrs (func_basic_blocks f ! b))"
    and "\<And>b i. b < length (raf_blocks ra) \<Longrightarrow> i < length (block_instrs (func_basic_blocks f ! b)) \<Longrightarrow>
      an_get_operands an (func_volatile_regs f) (block_instrs (func_basic_blocks f ! b)) i = Some (rai_regs (rab_instrs (raf_blocks ra ! b) ! i))"
proof -
  have c: "collect_each (RegAllocPass_create_block an f) [0..<length (func_basic_blocks f)] = Some (raf_blocks ra)"
    using assms by (auto simp: RegAllocPass_create_reg_alloc_func_def bind_simps)
  then show l: "length (raf_blocks ra) = length (func_basic_blocks f)" by (simp add: collect_each_nth)
  have block: "RegAllocPass_create_block an f b = Some (raf_blocks ra ! b)" if "b < length (raf_blocks ra)" for b
    using c that l by (simp add: collect_each_nth)
  have instrs: "collect_each (\<lambda>index. do {
       regs \<leftarrow> an_get_operands an (func_volatile_regs f) (block_instrs (func_basic_blocks f ! b)) index;
       Some \<lparr>rai_index = index, rai_regs = regs\<rparr>
     }) [0..<length (block_instrs (func_basic_blocks f ! b))] = Some (rab_instrs (raf_blocks ra ! b))"
    and nodes: "rab_nodes (raf_blocks ra ! b) = map (\<lambda>i. \<lparr>node_before = [], node_instr = i, node_after = []\<rparr>) (block_instrs (func_basic_blocks f ! b))"
    if b: "b < length (raf_blocks ra)" for b
  proof -
    obtain y where y: "RegAllocPass_collect_instrs an (func_volatile_regs f) (block_instrs (func_basic_blocks f ! b)) = Some y"
      "raf_blocks ra ! b = \<lparr>rab_nodes = map (\<lambda>i. \<lparr>node_before = [], node_instr = i, node_after = []\<rparr>) (block_instrs (func_basic_blocks f ! b)),
          rab_instrs = y, rab_preds = func_block_predecessors f ! b,
          rab_succs = func_block_successors f ! b, rab_reserved_segments = []\<rparr>"
      using block [OF b] by (auto simp: RegAllocPass_create_block_def bind_simps Let_def)
    show "collect_each (\<lambda>index. do {
       regs \<leftarrow> an_get_operands an (func_volatile_regs f) (block_instrs (func_basic_blocks f ! b)) index;
       Some \<lparr>rai_index = index, rai_regs = regs\<rparr>
     }) [0..<length (block_instrs (func_basic_blocks f ! b))] = Some (rab_instrs (raf_blocks ra ! b))"
      using y by (simp add: RegAllocPass_collect_instrs_def)
    show "rab_nodes (raf_blocks ra ! b) = map (\<lambda>i. \<lparr>node_before = [], node_instr = i, node_after = []\<rparr>) (block_instrs (func_basic_blocks f ! b))"
      using y(2) by simp
  qed
  show "rab_nodes (raf_blocks ra ! b) = map (\<lambda>i. \<lparr>node_before = [], node_instr = i, node_after = []\<rparr>) (block_instrs (func_basic_blocks f ! b)) \<and>
      length (rab_instrs (raf_blocks ra ! b)) = length (block_instrs (func_basic_blocks f ! b))" if "b < length (raf_blocks ra)" for b
    using nodes [OF that] instrs [OF that] by (simp add: collect_each_nth)
  show "an_get_operands an (func_volatile_regs f) (block_instrs (func_basic_blocks f ! b)) i = Some (rai_regs (rab_instrs (raf_blocks ra ! b) ! i))"
    if "b < length (raf_blocks ra)" "i < length (block_instrs (func_basic_blocks f ! b))" for b i
  proof -
    have "do {
       regs \<leftarrow> an_get_operands an (func_volatile_regs f) (block_instrs (func_basic_blocks f ! b)) i;
       Some \<lparr>rai_index = i, rai_regs = regs\<rparr>
     } = Some (rab_instrs (raf_blocks ra ! b) ! i)" using instrs [OF that(1)] that(2) by (simp add: collect_each_nth)
    then obtain y where "an_get_operands an (func_volatile_regs f) (block_instrs (func_basic_blocks f ! b)) i = Some y"
      "rab_instrs (raf_blocks ra ! b) ! i = \<lparr>rai_index = i, rai_regs = y\<rparr>" by (auto simp: bind_simps)
    then show ?thesis by simp
  qed
qed

lemma physical_from_physical: "Register_is_physical (Register_from_physical reg)"
  by (simp add: Register_is_physical_def and_1_eq_bit_0 bit_from_physical)

lemma insert_existing_kills: "killing (AArch64RegAnalyzer_insert_existing r u ops) q \<Longrightarrow> u \<noteq> Usage_KILL \<Longrightarrow> killing ops q"
  by (induction ops) (auto split: if_splits)

lemma insert_reg_kills: "AArch64RegAnalyzer_insert_reg r u ops = Some ops' \<Longrightarrow> killing ops' q \<Longrightarrow> killing ops q"
  by (auto simp: AArch64RegAnalyzer_insert_reg_def bind_simps dest: insert_existing_kills)

lemma collect_regs_kills:
  assumes "AArch64RegAnalyzer_collect_regs op u ops = Some ops'" "killing ops' q"
  shows "killing ops q"
proof (cases "op_value op")
  case (Op_aarch64_addr addr)
  then obtain ops1 where "AArch64RegAnalyzer_insert_reg (AArch64Address_get_base addr) Usage_USE ops = Some ops1"
    "ops' = ops1 \<or> (\<exists>r. AArch64RegAnalyzer_insert_reg r Usage_USE ops1 = Some ops')"
    using assms(1) by (cases addr) (auto simp: AArch64RegAnalyzer_collect_regs_def AArch64RegAnalyzer_collect_addr_regs_def bind_simps)
  then show ?thesis using assms(2) insert_reg_kills by blast
qed (use assms insert_reg_kills in \<open>auto simp: AArch64RegAnalyzer_collect_regs_def\<close>)

text \<open>An instruction kills physical registers only.\<close>

lemma get_operands_kills:
  assumes "AArch64RegAnalyzer_get_operands volatile instrs i = Some ops" and q: "killing ops q"
  shows "Register_is_physical q"
  using assms(1)
proof (cases rule: get_operands_cases)
  case (1 ops0 opcode)
  have "killing ops0 q"
  proof (cases "(opcode = A64_MOV \<or> opcode = A64_FMOV) \<and> AArch64RegAnalyzer_same_regs (instr_operands (instrs ! i) ! 0) (instr_operands (instrs ! i) ! 1)")
    case True
    then show ?thesis using 1(4) q by blast
  next
    case False
    have "killing ops q \<longrightarrow> killing ops0 q"
      by (rule for_each_inv [OF 1(5) [OF False], where P = "\<lambda>ops. killing ops q \<longrightarrow> killing ops0 q"])
        (auto simp: bind_simps dest: collect_regs_kills)
    then show ?thesis using q by blast
  qed
  then show ?thesis
    using call_operands(1) [OF 1(1)] physical_from_physical by (fastforce simp: call_ops_def list_ex_iff)
qed

text \<open>Every virtual register is the first operand of an instruction, which gives it its class.\<close>

definition virtual_regs_defined :: "ra_func \<Rightarrow> bool" where
  "virtual_regs_defined ra \<longleftrightarrow>
     (\<forall>block\<in>set (raf_blocks ra). \<forall>instr\<in>set (rab_instrs block). \<forall>op\<in>set (rai_regs instr). Register_is_virtual (regop_reg op) \<longrightarrow>
        (\<exists>block'\<in>set (raf_blocks ra). \<exists>node\<in>set (rab_nodes block').
           Option.bind (Instruction_try_get_operand (node_instr node) 0) Operand_get_register = Some (regop_reg op)))"

lemma assign_class:
  assumes "AArch64RegAnalyzer_assign_reg_classes instr m = Some m'"
  shows "dom m \<subseteq> dom m'" "ran m' \<subseteq> ran m \<union> {0, 1}"
    "Option.bind (Instruction_try_get_operand instr 0) Operand_get_register = Some r \<Longrightarrow> Register_is_virtual r \<Longrightarrow>
      Register_get_virtual_reg r \<in> dom m'"
  using assms
  by (auto simp: AArch64RegAnalyzer_assign_reg_classes_def RegClassMap_insert_def aarch64_reg_classes ran_def
      split: option.splits if_splits)

lemma assign_classes:
  "\<exists>m'. for_each instrs AArch64RegAnalyzer_assign_reg_classes m = Some m' \<and> dom m \<subseteq> dom m' \<and> ran m' \<subseteq> ran m \<union> {0, 1} \<and>
     (\<forall>instr\<in>set instrs. \<forall>r. Option.bind (Instruction_try_get_operand instr 0) Operand_get_register = Some r \<longrightarrow> Register_is_virtual r \<longrightarrow>
        Register_get_virtual_reg r \<in> dom m')"
proof (induction instrs arbitrary: m)
  case (Cons i instrs)
  have "AArch64RegAnalyzer_assign_reg_classes i m \<noteq> None"
    by (simp add: AArch64RegAnalyzer_assign_reg_classes_def split: option.splits)
  then obtain m1 where m1: "AArch64RegAnalyzer_assign_reg_classes i m = Some m1" by blast
  obtain m' where m': "for_each instrs AArch64RegAnalyzer_assign_reg_classes m1 = Some m'" "dom m1 \<subseteq> dom m'"
    "ran m' \<subseteq> ran m1 \<union> {0, 1}"
    "\<forall>instr\<in>set instrs. \<forall>r. Option.bind (Instruction_try_get_operand instr 0) Operand_get_register = Some r \<longrightarrow> Register_is_virtual r \<longrightarrow>
        Register_get_virtual_reg r \<in> dom m'"
    using Cons.IH [of m1] by blast
  have "dom m \<subseteq> dom m'" "ran m' \<subseteq> ran m \<union> {0, 1}" using assign_class(1,2) [OF m1] m'(2,3) by blast+
  moreover have "Register_get_virtual_reg r \<in> dom m'"
    if "instr \<in> set (i # instrs)" "Option.bind (Instruction_try_get_operand instr 0) Operand_get_register = Some r" "Register_is_virtual r" for instr r
    using that m'(2,4) assign_class(3) [OF m1, of r] by auto
  ultimately show ?case using m1 m'(1) by (intro exI [of _ m']) auto
qed auto

lemma move_operands:
  assumes "AArch64RegAnalyzer_get_operands volatile instrs i = Some ops" "AArch64RegAnalyzer_is_move_opcode (instrs ! i)"
  shows "1 < length (instr_operands (instrs ! i))"
  using assms(1)
proof (cases rule: get_operands_cases)
  case (1 ops0 opcode)
  then show ?thesis using assms(2) by (auto simp: AArch64RegAnalyzer_is_move_opcode_def)
qed

lemma suggest_op_total: "(AArch64RegAnalyzer_is_move_opcode instr \<Longrightarrow> i < length (instr_operands instr)) \<Longrightarrow>
    AArch64RegAnalyzer_suggest_op instr i regs \<noteq> None"
  by (simp add: AArch64RegAnalyzer_suggest_op_def Instruction_get_operand_def)

lemma suggest_total:
  assumes moves: "\<And>block node. block \<in> set (raf_blocks g) \<Longrightarrow> node \<in> set (rab_nodes block) \<Longrightarrow>
      AArch64RegAnalyzer_is_move_opcode (node_instr node) \<Longrightarrow> 1 < length (instr_operands (node_instr node))"
    and inside: "\<forall>s\<in>segments_of b. segment_inside g s"
  shows "AArch64RegAnalyzer_suggest_regs g b \<noteq> None"
proof -
  have "\<exists>regs. AArch64RegAnalyzer_suggest_regs g b = Some regs \<and> True"
    unfolding AArch64RegAnalyzer_suggest_regs_def
  proof (rule for_each_total)
    fix s regs
    assume "s \<in> segments_of b"
    then have i: "range_block (seg_range s) < length (raf_blocks g)"
      "point_instr (range_start (seg_range s)) < length (rab_nodes (raf_blocks g ! range_block (seg_range s)))"
      "point_instr (range_end (seg_range s)) < length (rab_nodes (raf_blocks g ! range_block (seg_range s)))"
      using inside by (auto simp: segment_inside_def)
    let ?nodes = "rab_nodes (raf_blocks g ! range_block (seg_range s))"
    have op: "AArch64RegAnalyzer_suggest_op (node_instr (?nodes ! j)) k regs \<noteq> None" if "j < length ?nodes" "k < 2" for j k regs
      using moves [OF nth_mem [OF i(1)] nth_mem [OF that(1)]] that(2) by (intro suggest_op_total) auto
    obtain regs1 where r1: "AArch64RegAnalyzer_suggest_op (node_instr (?nodes ! point_instr (range_start (seg_range s)))) 1 regs = Some regs1"
      using op [OF i(2), of 1 regs] by auto
    obtain regs2 where "AArch64RegAnalyzer_suggest_op (node_instr (?nodes ! point_instr (range_end (seg_range s)))) 0 regs1 = Some regs2"
      using op [OF i(3), of 0 regs1] by auto
    with r1 i show "\<exists>s'. (let r = seg_range s; nodes = rab_nodes (raf_blocks g ! range_block r) in
       do {
         ASSERT (point_instr (range_start r) < length nodes \<and> point_instr (range_end r) < length nodes);
         suggested1 \<leftarrow> AArch64RegAnalyzer_suggest_op (node_instr (nodes ! point_instr (range_start r))) 1 regs;
         AArch64RegAnalyzer_suggest_op (node_instr (nodes ! point_instr (range_end r))) 0 suggested1
       }) = Some s' \<and> True" by (simp add: Let_def)
  qed simp
  then show ?thesis by simp
qed

text \<open>The AArch64 target answers for the functions that it has made.\<close>

lemma AArch64_target_ok:
  assumes c: "RegAllocPass_create_reg_alloc_func (AArch64RegAnalyzer fixed_reg) f = Some ra"
    and ok: "blocks_ok (raf_blocks ra)" and def: "virtual_regs_defined ra"
  shows "target_ok (AArch64RegAnalyzer fixed_reg) ra"
proof -
  let ?an = "AArch64RegAnalyzer fixed_reg" and ?instrs = "\<lambda>b. block_instrs (func_basic_blocks f ! b)"
  note C = create_reg_alloc_func_nth [OF c]
  have an: "an_get_operands ?an = AArch64RegAnalyzer_get_operands" "an_is_move_from ?an = AArch64RegAnalyzer_is_move_from"
    "an_suggest_regs ?an = AArch64RegAnalyzer_suggest_regs" "an_get_candidates ?an = AArch64RegAnalyzer_get_candidates fixed_reg"
    "an_assign_reg_classes ?an = AArch64RegAnalyzer_assign_reg_classes"
    by (simp_all add: AArch64RegAnalyzer_def)
  have ops: "AArch64RegAnalyzer_get_operands (func_volatile_regs f) (?instrs b) i = Some (rai_regs (rab_instrs (raf_blocks ra ! b) ! i))"
    if "b < length (raf_blocks ra)" "i < length (?instrs b)" for b i using C(3) that by (simp add: an)
  have moves: "1 < length (instr_operands (node_instr node))"
    if n: "block \<in> set (raf_blocks ra)" "node \<in> set (rab_nodes block)" "AArch64RegAnalyzer_is_move_opcode (node_instr node)" for block node
  proof -
    obtain b where b: "b < length (raf_blocks ra)" "block = raf_blocks ra ! b" using n(1) by (auto simp: in_set_conv_nth)
    obtain i where "i < length (?instrs b)" "node_instr node = ?instrs b ! i" using n(2) C(2) [OF b(1)] b(2) by (auto simp: in_set_conv_nth)
    then show ?thesis using move_operands [OF ops [OF b(1)]] n(3) by simp
  qed
  then have "moves_ok ?an ra"
    by (auto simp: moves_ok_def an AArch64RegAnalyzer_is_move_from_def Instruction_get_operand_def)
  moreover have "Register_is_physical r" if r: "killed (raf_blocks ra) r" for r
  proof -
    obtain b i where b: "b < length (raf_blocks ra)" "i < length (rab_instrs (raf_blocks ra ! b))" "killing (rai_regs (rab_instrs (raf_blocks ra ! b) ! i)) r"
      using r by (auto simp: killed_def list_ex_length)
    then show ?thesis using get_operands_kills [OF ops [OF b(1)]] C(2) [OF b(1)] by simp
  qed
  moreover have "AArch64RegAnalyzer_suggest_regs g b \<noteq> None" if g: "same_code ra g" "\<forall>s\<in>segments_of b. segment_inside ra s" for g b
  proof (rule suggest_total)
    show "\<forall>s\<in>segments_of b. segment_inside g s" using g segment_inside_same_code [OF g(1)] by blast
    show "1 < length (instr_operands (node_instr node))"
      if n: "block \<in> set (raf_blocks g)" "node \<in> set (rab_nodes block)" "AArch64RegAnalyzer_is_move_opcode (node_instr node)" for block node
    proof -
      obtain b where "b < length (raf_blocks g)" "block = raf_blocks g ! b" using n(1) by (auto simp: in_set_conv_nth)
      then have "raf_blocks ra ! b \<in> set (raf_blocks ra)" "node \<in> set (rab_nodes (raf_blocks ra ! b))" using n(2) g(1) by (auto simp: same_code_def)
      then show ?thesis using moves n(3) by blast
    qed
  qed
  moreover have "\<exists>classes. RegAllocPass_assign_reg_classes ?an ra = Some classes \<and>
      (\<forall>c\<in>ran classes. an_get_candidates ?an c \<noteq> None) \<and>
      (\<forall>la. LivenessAnalysis_compute ra = Some la \<longrightarrow>
        (\<forall>(reg, _)\<in>set (la_reg_ranges la). Register_is_virtual reg \<longrightarrow> classes (Register_get_virtual_reg reg) \<noteq> None))"
  proof -
    let ?all = "concat (map (\<lambda>block. map node_instr (rab_nodes block)) (raf_blocks ra))"
    obtain m where m: "for_each ?all AArch64RegAnalyzer_assign_reg_classes Map.empty = Some m" "ran m \<subseteq> {0, 1}"
      "\<forall>instr\<in>set ?all. \<forall>r. Option.bind (Instruction_try_get_operand instr 0) Operand_get_register = Some r \<longrightarrow> Register_is_virtual r \<longrightarrow>
        Register_get_virtual_reg r \<in> dom m"
      using assign_classes [of ?all Map.empty] by auto
    have "\<forall>c\<in>ran m. AArch64RegAnalyzer_get_candidates fixed_reg c \<noteq> None"
      using m(2) by (auto simp: AArch64RegAnalyzer_get_candidates_def aarch64_reg_classes)
    moreover have "m (Register_get_virtual_reg reg) \<noteq> None"
      if l: "LivenessAnalysis_compute ra = Some la" "(reg, ranges) \<in> set (la_reg_ranges la)" "Register_is_virtual reg" for la reg ranges
    proof -
      have "reg \<in> reg_keys (la_reg_ranges la)" using l(2) by (force simp: reg_keys_def)
      then have "reg \<in> used_regs (raf_blocks ra)" using ranges_used [OF ok l(1)] by blast
      then obtain op b i where r: "reg = regop_reg op" "b < length (raf_blocks ra)" "i < num_instrs (raf_blocks ra) b"
        "op \<in> set (rai_regs (rab_instrs (raf_blocks ra ! b) ! i))" unfolding used_regs_def by blast
      from def nth_mem [OF r(2)] nth_mem [OF r(3)] r(1,4) l(3)
      obtain block node where "block \<in> set (raf_blocks ra)" "node \<in> set (rab_nodes block)"
        "Option.bind (Instruction_try_get_operand (node_instr node) 0) Operand_get_register = Some reg"
        unfolding virtual_regs_defined_def by blast
      then have "Register_get_virtual_reg reg \<in> dom m" using m(3) l(3) by (auto simp: dom_def)
      then show ?thesis by auto
    qed
    ultimately show ?thesis
      using m(1) by (intro exI [of _ m]) (auto simp: RegAllocPass_assign_reg_classes_def an)
  qed
  moreover have "\<forall>block\<in>set (raf_blocks ra). length (rab_nodes block) = length (rab_instrs block)"
    using C(2) by (auto simp: in_set_conv_nth)
  ultimately show ?thesis unfolding target_ok_def an by blast
qed

text \<open>
  C27: Register allocation of a machine function for AArch64, whose liveness is well-formed and in which
  every virtual register is the first operand of some instruction: the pass gets a result unless,
  at some point of the loop, a bundle that spilling has made finds no register. In the result no two
  allocations of the same register have a common point, none has a common point with a range in
  which its register is fixed or with an instruction that kills it, and every live range of a
  virtual register is in an allocation, or spilled to a stack slot with an allocation for every
  operand inside of it.
\<close>
theorem RegAllocPass_AArch64_correct:
  assumes "RegAllocPass_create_reg_alloc_func (AArch64RegAnalyzer fixed_reg) f = Some ra"
    and "blocks_ok (raf_blocks ra)" and "virtual_regs_defined ra" and "order_ok ord"
  shows "\<exists>la ctx0. LivenessAnalysis_compute ra = Some la \<and> RegAllocPass_start (AArch64RegAnalyzer fixed_reg) ord ra = Some ctx0 \<and>
     ((\<exists>ctx. alloc_reachable (AArch64RegAnalyzer fixed_reg) ord ctx0 ctx \<and> respills (AArch64RegAnalyzer fixed_reg) ord ctx) \<or>
      (\<exists>ctx. RegAllocPass_allocate (AArch64RegAnalyzer fixed_reg) ord ra = Some ctx \<and> ctx_bundles ctx = [] \<and>
         allocs_disjoint (ctx_allocs ctx) \<and>
         (\<forall>a\<in>set (ctx_allocs ctx). avoids_fixed la (length (raf_blocks ra)) a) \<and>
         (\<forall>s\<in>virtual_segments la. placed ctx s)))"
  by (rule RegAllocPass_allocate_correct [OF assms(2,4) AArch64_target_ok [OF assms(1-3)]])

text \<open>
  \<open>MOV v2, x0; ADD v3, v2, v2; BL f; MOV x0, v3; RET\<close>, where calls kill \<open>x0\<close> and \<open>x1\<close>.
\<close>

definition alloc_example :: m_cfg_function where
  "alloc_example =
     (let reg = (\<lambda>v. \<lparr>op_value = Op_register (Register v), op_size = 8\<rparr>);
          instr = (\<lambda>opcode ops. \<lparr>instr_opcode = AArch64Opcode_to_int opcode, instr_operands = ops, instr_flags = 0\<rparr>)
      in \<lparr>func_name = ''f'',
           func_basic_blocks = [\<lparr>block_label = [], block_instrs =
             [instr A64_MOV [reg 4, reg 1], instr A64_ADD [reg 6, reg 4, reg 4], instr A64_BL [],
              instr A64_MOV [reg 1, reg 6], instr A64_RET []]\<rparr>],
           func_stack_frame = \<lparr>frame_stack_slots = [], frame_call_arg_slot_indices = [], frame_reg_save_slot_indices = [],
             frame_size = 0, frame_total_size = 0\<rparr>,
           func_unwind_alloc_size = 0, func_block_predecessors = [[]], func_block_successors = [[]],
           func_volatile_regs = [0, 1]\<rparr>)"

definition alloc_order :: std_order where
  "alloc_order = \<lparr>order_map = (\<lambda>m. m), order_top = (\<lambda>bs. 0)\<rparr>"

theorem RegAllocPass_AArch64_correct_witness:
  "\<exists>ra la ctx0. RegAllocPass_create_reg_alloc_func (AArch64RegAnalyzer None) alloc_example = Some ra \<and>
     LivenessAnalysis_compute ra = Some la \<and> RegAllocPass_start (AArch64RegAnalyzer None) alloc_order ra = Some ctx0 \<and>
     ((\<exists>ctx. alloc_reachable (AArch64RegAnalyzer None) alloc_order ctx0 ctx \<and> respills (AArch64RegAnalyzer None) alloc_order ctx) \<or>
      (\<exists>ctx. RegAllocPass_allocate (AArch64RegAnalyzer None) alloc_order ra = Some ctx \<and> ctx_bundles ctx = [] \<and>
         allocs_disjoint (ctx_allocs ctx) \<and>
         (\<forall>a\<in>set (ctx_allocs ctx). avoids_fixed la (length (raf_blocks ra)) a) \<and>
         (\<forall>s\<in>virtual_segments la. placed ctx s)))"
proof -
  have "case RegAllocPass_create_reg_alloc_func (AArch64RegAnalyzer None) alloc_example of
      None \<Rightarrow> False | Some ra \<Rightarrow> blocks_ok (raf_blocks ra) \<and> virtual_regs_defined ra" by code_simp
  then obtain ra where ra: "RegAllocPass_create_reg_alloc_func (AArch64RegAnalyzer None) alloc_example = Some ra"
    "blocks_ok (raf_blocks ra)" "virtual_regs_defined ra" by (auto split: option.splits)
  have "order_ok alloc_order" by (simp add: order_ok_def alloc_order_def)
  from RegAllocPass_AArch64_correct [OF ra this] ra(1) show ?thesis by blast
qed

end
