(* ===== verification/Token_List.thy ===== *)
theory Token_List
  imports Prelude
begin

section \<open>Tokens and source files\<close>

text \<open>
  \<open>src/banjo/lexer/token.hpp\<close>, \<open>token_list.hpp\<close>, \<open>token_list.cpp\<close> and the buffer of
  \<open>src/banjo/source/source_file.cpp\<close>: the tokens of a source file with the whitespace and comments
  attached to them, and the text with its zone of end characters.  The text is a list of 8-bit
  characters, a position in it is a \<open>nat\<close> (a source file is shorter than 4 GiB).
\<close>

subsection \<open>Tokens\<close>

text \<open>The one enumeration of \<open>token.hpp\<close> is split in its groups: keywords, punctuation, the rest.\<close>

datatype keyword_type =
    TKN_VAR | TKN_CONST | TKN_FUNC | TKN_I8 | TKN_I16 | TKN_I32 | TKN_I64 | TKN_U8 | TKN_U16
    | TKN_U32 | TKN_U64 | TKN_F32 | TKN_F64 | TKN_USIZE | TKN_BOOL | TKN_ADDR | TKN_VOID
    | TKN_EXCEPT | TKN_REF | TKN_MUT | TKN_SHARE | TKN_AS | TKN_IS | TKN_IF | TKN_ELSE
    | TKN_SWITCH | TKN_TRY | TKN_WHILE | TKN_FOR | TKN_IN | TKN_BREAK | TKN_CONTINUE
    | TKN_RETURN | TKN_STRUCT | TKN_SELF | TKN_ENUM | TKN_UNION | TKN_CASE | TKN_PROTO
    | TKN_FALSE | TKN_TRUE | TKN_NULL | TKN_NONE | TKN_UNDEFINED | TKN_USE | TKN_PUB
    | TKN_NATIVE | TKN_META | TKN_TYPE

datatype punctuation_type =
    TKN_PLUS | TKN_MINUS | TKN_STAR | TKN_SLASH | TKN_PERCENT | TKN_AND | TKN_OR | TKN_NOT
    | TKN_SHL | TKN_SHR | TKN_CARET | TKN_TILDE | TKN_EQ | TKN_EQ_EQ | TKN_NE | TKN_GT | TKN_LT
    | TKN_GE | TKN_LE | TKN_AND_AND | TKN_OR_OR | TKN_DOT | TKN_DOT_DOT | TKN_DOT_DOT_DOT
    | TKN_PLUS_EQ | TKN_MINUS_EQ | TKN_STAR_EQ | TKN_SLASH_EQ | TKN_PERCENT_EQ | TKN_AND_EQ
    | TKN_OR_EQ | TKN_CARET_EQ | TKN_SHL_EQ | TKN_SHR_EQ | TKN_SEMI | TKN_LPAREN | TKN_RPAREN
    | TKN_LBRACE | TKN_RBRACE | TKN_LBRACKET | TKN_RBRACKET | TKN_COLON | TKN_ARROW | TKN_COMMA
    | TKN_QUESTION | TKN_AT

datatype token_type =
    TKN_IDENTIFIER | TKN_LITERAL | TKN_CHARACTER | TKN_STRING | TKN_COMPLETION | TKN_EOF
  | TKN_keyword keyword_type | TKN_punctuation punctuation_type
  | TKN_WHITESPACE | TKN_COMMENT

record token =
  tkn_type :: token_type
  tkn_value :: string
  tkn_position :: nat
  tkn_end_of_line :: bool

definition Token :: "token_type \<Rightarrow> string \<Rightarrow> nat \<Rightarrow> token" where
  "Token type val position =
     \<lparr>tkn_type = type, tkn_value = val, tkn_position = position, tkn_end_of_line = False\<rparr>"

definition Token_end :: "token \<Rightarrow> nat" where
  "Token_end t = tkn_position t + length (tkn_value t)"

definition Token_range :: "token \<Rightarrow> nat \<times> nat" where
  "Token_range t = (tkn_position t, Token_end t)"

definition Token_is :: "token \<Rightarrow> token_type \<Rightarrow> bool" where
  "Token_is t type \<longleftrightarrow> tkn_type t = type"

record token_span =
  span_first :: nat
  span_count :: nat

record token_list =
  tl_tokens :: "token list"
  tl_attached_tokens :: "token list"
  tl_attachments :: "token_span list"

definition TokenList_EOF_ZONE_SIZE :: nat where
  "TokenList_EOF_ZONE_SIZE = 2"

text \<open>
  Outside the vector of the spans the access is undefined behaviour, here \<open>None\<close>.  An empty span gives the
  empty list; the code also forms the address of the element it would start with and reads nothing there.
\<close>

definition TokenList_get_attached_tokens :: "token_list \<Rightarrow> nat \<Rightarrow> token list option" where
  "TokenList_get_attached_tokens list token_index =
     (if token_index < length (tl_attachments list) then
        let span = tl_attachments list ! token_index in
        Some (take (span_count span) (drop (span_first span) (tl_attached_tokens list)))
      else None)"

subsection \<open>Source files\<close>

definition EOF_CHAR :: char where
  "EOF_CHAR = CHR 0x00"

definition SourceFile_EOF_ZONE_SIZE :: nat where
  "SourceFile_EOF_ZONE_SIZE = 2"

text \<open>\<open>read\<close> and \<open>update_content\<close> put the same buffer behind a file: its bytes and the EOF zone.\<close>

definition SourceFile_buffer :: "string \<Rightarrow> string" where
  "SourceFile_buffer content = content @ replicate SourceFile_EOF_ZONE_SIZE EOF_CHAR"

definition SourceFile_get_content :: "string \<Rightarrow> string" where
  "SourceFile_get_content buffer = take (length buffer - SourceFile_EOF_ZONE_SIZE) buffer"

lemma SourceFile_get_content_buffer [simp]:
  "SourceFile_get_content (SourceFile_buffer content) = content"
  by (simp add: SourceFile_get_content_def SourceFile_buffer_def)

end
