(* ===== verification/Lexer.thy ===== *)
theory Lexer
  imports Token_List "HOL-Library.Char_ord"
begin

section \<open>The lexer\<close>

text \<open>
  \<open>src/banjo/lexer/lexer.cpp\<close> with the reader of \<open>source_reader.hpp\<close>: one operation per member
  function over the record of the lexer's members.  An operation that would read outside the buffer
  is \<open>None\<close>.  The flag \<open>optional_semicolons\<close> of the singleton \<open>Config\<close> is an argument.
\<close>

subsection \<open>State and reader\<close>

datatype lexer_mode = COMPILATION | KEEP_WHITESPACE

record lexer =
  lx_buffer :: string
  lx_position :: nat
  lx_mode :: lexer_mode
  lx_completion_enabled :: bool
  lx_completion_point :: nat
  lx_completion_token_inserted :: bool
  lx_tokens :: "token list"
  lx_attached_tokens :: "token list"
  lx_attachments :: "token_span list"
  lx_start_position :: nat

definition Lexer :: "string \<Rightarrow> lexer_mode \<Rightarrow> lexer" where
  "Lexer buffer mode =
     \<lparr>lx_buffer = buffer, lx_position = 0, lx_mode = mode, lx_completion_enabled = False,
      lx_completion_point = 0, lx_completion_token_inserted = False, lx_tokens = [],
      lx_attached_tokens = [], lx_attachments = [], lx_start_position = 0\<rparr>"

definition Lexer_enable_completion :: "nat \<Rightarrow> lexer \<Rightarrow> lexer" where
  "Lexer_enable_completion point L =
     L\<lparr>lx_completion_enabled := True, lx_completion_point := point\<rparr>"

definition Reader_get :: "lexer \<Rightarrow> char option" where
  "Reader_get L =
     (if lx_position L < length (lx_buffer L) then Some (lx_buffer L ! lx_position L) else None)"

definition Reader_peek :: "lexer \<Rightarrow> char option" where
  "Reader_peek L =
     (if lx_position L + 1 < length (lx_buffer L) then Some (lx_buffer L ! (lx_position L + 1))
      else None)"

definition Reader_consume :: "lexer \<Rightarrow> (char \<times> lexer) option" where
  "Reader_consume L =
     do { c \<leftarrow> Reader_get L; Some (c, L\<lparr>lx_position := lx_position L + 1\<rparr>) }"

definition Reader_value :: "lexer \<Rightarrow> nat \<Rightarrow> string" where
  "Reader_value L start = take (lx_position L - start) (drop start (lx_buffer L))"

subsection \<open>Characters and keywords\<close>

text \<open>\<open>char\<close> is signed on most targets: the bytes from 128 on are in none of these ranges either way.\<close>

definition Lexer_is_whitespace_char :: "char \<Rightarrow> bool" where
  "Lexer_is_whitespace_char c \<longleftrightarrow>
     c = CHR '' '' \<or> c = CHR 0x0A \<or> c = CHR 0x0D \<or> c = CHR 0x09"

definition Lexer_is_identifier_start_char :: "char \<Rightarrow> bool" where
  "Lexer_is_identifier_start_char c \<longleftrightarrow>
     (c \<ge> CHR ''a'' \<and> c \<le> CHR ''z'') \<or> (c \<ge> CHR ''A'' \<and> c \<le> CHR ''Z'') \<or> c = CHR ''_''"

definition Lexer_is_identifier_char :: "char \<Rightarrow> bool" where
  "Lexer_is_identifier_char c \<longleftrightarrow>
     (c \<ge> CHR ''a'' \<and> c \<le> CHR ''z'') \<or> (c \<ge> CHR ''A'' \<and> c \<le> CHR ''Z'') \<or>
     (c \<ge> CHR ''0'' \<and> c \<le> CHR ''9'') \<or> c = CHR ''_''"

definition Lexer_is_number_char :: "char \<Rightarrow> bool" where
  "Lexer_is_number_char c \<longleftrightarrow>
     (c \<ge> CHR ''0'' \<and> c \<le> CHR ''9'') \<or> (c \<ge> CHR ''a'' \<and> c \<le> CHR ''f'') \<or>
     (c \<ge> CHR ''A'' \<and> c \<le> CHR ''F'') \<or> c = CHR ''x'' \<or> c = CHR ''b'' \<or> c = CHR ''o'' \<or>
     c = CHR ''.''"

definition Lexer_is_number_start_char :: "char \<Rightarrow> bool" where
  "Lexer_is_number_start_char c \<longleftrightarrow> c \<ge> CHR ''0'' \<and> c \<le> CHR ''9''"

definition KEYWORDS :: "(string \<times> keyword_type) list" where
  "KEYWORDS =
   [(''var'', TKN_VAR), (''const'', TKN_CONST), (''func'', TKN_FUNC), (''i8'', TKN_I8)
   , (''i16'', TKN_I16), (''i32'', TKN_I32), (''i64'', TKN_I64), (''u8'', TKN_U8)
   , (''u16'', TKN_U16), (''u32'', TKN_U32), (''u64'', TKN_U64), (''f32'', TKN_F32)
   , (''f64'', TKN_F64), (''usize'', TKN_USIZE), (''bool'', TKN_BOOL), (''addr'', TKN_ADDR)
   , (''void'', TKN_VOID), (''except'', TKN_EXCEPT), (''ref'', TKN_REF), (''mut'', TKN_MUT)
   , (''share'', TKN_SHARE), (''as'', TKN_AS), (''is'', TKN_IS), (''if'', TKN_IF)
   , (''else'', TKN_ELSE), (''switch'', TKN_SWITCH), (''try'', TKN_TRY)
   , (''while'', TKN_WHILE), (''for'', TKN_FOR), (''in'', TKN_IN), (''break'', TKN_BREAK)
   , (''continue'', TKN_CONTINUE), (''return'', TKN_RETURN), (''struct'', TKN_STRUCT)
   , (''self'', TKN_SELF), (''enum'', TKN_ENUM), (''union'', TKN_UNION), (''case'', TKN_CASE)
   , (''proto'', TKN_PROTO), (''false'', TKN_FALSE), (''true'', TKN_TRUE)
   , (''null'', TKN_NULL), (''none'', TKN_NONE), (''undefined'', TKN_UNDEFINED)
   , (''use'', TKN_USE), (''pub'', TKN_PUB), (''native'', TKN_NATIVE), (''meta'', TKN_META)
   , (''type'', TKN_TYPE)]"

subsection \<open>Finishing tokens and lines\<close>

definition Lexer_finish_token :: "token_type \<Rightarrow> lexer \<Rightarrow> lexer" where
  "Lexer_finish_token type L =
     (let L1 = L\<lparr>lx_tokens := lx_tokens L @
                   [Token type (Reader_value L (lx_start_position L)) (lx_start_position L)]\<rparr>
      in if lx_mode L = KEEP_WHITESPACE then
           L1\<lparr>lx_attachments := lx_attachments L1 @ [\<lparr>span_first = 0, span_count = 0\<rparr>]\<rparr>
         else L1)"

definition Lexer_finish_line :: "bool \<Rightarrow> lexer \<Rightarrow> lexer" where
  "Lexer_finish_line optional_semicolons L =
     (if optional_semicolons \<and> lx_tokens L \<noteq> [] then
        L\<lparr>lx_tokens := butlast (lx_tokens L) @ [(last (lx_tokens L))\<lparr>tkn_end_of_line := True\<rparr>]\<rparr>
      else L)"

definition Lexer_attach_token :: "token_type \<Rightarrow> lexer \<Rightarrow> lexer" where
  "Lexer_attach_token type L =
     (if lx_mode L \<noteq> KEEP_WHITESPACE then L
      else
        let attached = lx_attached_tokens L @
              [Token type (Reader_value L (lx_start_position L)) (lx_start_position L)];
            attachment = last (lx_attachments L);
            attachment' =
              (if span_count attachment = 0
               then \<lparr>span_first = length attached - 1, span_count = 1\<rparr>
               else attachment\<lparr>span_count := span_count attachment + 1\<rparr>)
        in L\<lparr>lx_attached_tokens := attached,
             lx_attachments := butlast (lx_attachments L) @ [attachment']\<rparr>)"

definition Lexer_try_insert_completion_token :: "lexer \<Rightarrow> lexer" where
  "Lexer_try_insert_completion_token L =
     (if lx_completion_enabled L \<and> \<not> lx_completion_token_inserted L \<and>
         lx_position L \<ge> lx_completion_point L then
        let tokens =
              (if lx_tokens L \<noteq> [] \<and> Token_is (last (lx_tokens L)) TKN_IDENTIFIER \<and>
                  lx_completion_point L = snd (Token_range (last (lx_tokens L)))
               then butlast (lx_tokens L) else lx_tokens L)
        in L\<lparr>lx_tokens := tokens @ [Token TKN_COMPLETION '''' (lx_position L)],
             lx_completion_token_inserted := True\<rparr>
      else L)"

subsection \<open>Reading one token\<close>

text \<open>Every loop moves the position on, so that the rest of the buffer measures it.\<close>

function Lexer_read_whitespace_loop :: "bool \<Rightarrow> lexer \<Rightarrow> (bool \<times> lexer) option" where
  "Lexer_read_whitespace_loop end_of_line L =
     (case Reader_get L of
        None \<Rightarrow> None
      | Some c \<Rightarrow>
          if Lexer_is_whitespace_char c then
            Lexer_read_whitespace_loop (if c = CHR 0x0A then True else end_of_line)
              (L\<lparr>lx_position := lx_position L + 1\<rparr>)
          else Some (end_of_line, L))"
  by pat_completeness auto
termination
  by (relation "measure (\<lambda>(_, L). length (lx_buffer L) - lx_position L)")
    (auto simp: Reader_get_def split: if_splits)

declare Lexer_read_whitespace_loop.simps [simp del]

definition Lexer_read_whitespace :: "bool \<Rightarrow> lexer \<Rightarrow> lexer option" where
  "Lexer_read_whitespace optional_semicolons L =
     do { (end_of_line, L1) \<leftarrow> Lexer_read_whitespace_loop False L;
          let L2 = (if end_of_line then Lexer_finish_line optional_semicolons L1 else L1);
          Some (Lexer_attach_token TKN_WHITESPACE L2) }"

function Lexer_read_identifier_loop :: "lexer \<Rightarrow> lexer option" where
  "Lexer_read_identifier_loop L =
     (case Reader_get L of
        None \<Rightarrow> None
      | Some c \<Rightarrow>
          if Lexer_is_identifier_char c
          then Lexer_read_identifier_loop (L\<lparr>lx_position := lx_position L + 1\<rparr>)
          else Some L)"
  by pat_completeness auto
termination
  by (relation "measure (\<lambda>L. length (lx_buffer L) - lx_position L)")
    (auto simp: Reader_get_def split: if_splits)

declare Lexer_read_identifier_loop.simps [simp del]

definition Lexer_read_identifier :: "lexer \<Rightarrow> lexer option" where
  "Lexer_read_identifier L =
     do { L1 \<leftarrow> Lexer_read_identifier_loop L;
          Some (Lexer_finish_token
                  (case map_of KEYWORDS (Reader_value L1 (lx_start_position L1)) of
                     None \<Rightarrow> TKN_IDENTIFIER | Some k \<Rightarrow> TKN_keyword k) L1) }"

function Lexer_read_number_loop :: "lexer \<Rightarrow> lexer option" where
  "Lexer_read_number_loop L =
     (case Reader_get L of
        None \<Rightarrow> None
      | Some c \<Rightarrow>
          if Lexer_is_number_char c then
            if c = CHR ''.'' then
              (case Reader_peek L of
                 None \<Rightarrow> None
               | Some d \<Rightarrow>
                   if d = CHR ''.'' then Some L
                   else Lexer_read_number_loop (L\<lparr>lx_position := lx_position L + 1\<rparr>))
            else Lexer_read_number_loop (L\<lparr>lx_position := lx_position L + 1\<rparr>)
          else Some L)"
  by pat_completeness auto
termination
  by (relation "measure (\<lambda>L. length (lx_buffer L) - lx_position L)")
    (auto simp: Reader_get_def split: if_splits)

declare Lexer_read_number_loop.simps [simp del]

definition Lexer_read_number :: "lexer \<Rightarrow> lexer option" where
  "Lexer_read_number L =
     do { L1 \<leftarrow> Lexer_read_number_loop L; Some (Lexer_finish_token TKN_LITERAL L1) }"

text \<open>The loop is entered with the character that was just consumed.\<close>

function Lexer_read_char_or_string_loop :: "char \<Rightarrow> char \<Rightarrow> lexer \<Rightarrow> lexer option" where
  "Lexer_read_char_or_string_loop terminator c L =
     (if c \<noteq> EOF_CHAR then
        if c = CHR 0x5C then
          (case Reader_consume L of
             None \<Rightarrow> None
           | Some (c, L1) \<Rightarrow>
               if c = EOF_CHAR then Some L1
               else
                 (case Reader_consume L1 of
                    None \<Rightarrow> None
                  | Some (c, L2) \<Rightarrow> Lexer_read_char_or_string_loop terminator c L2))
        else if c = terminator then Some L
        else
          (case Reader_consume L of
             None \<Rightarrow> None
           | Some (c, L2) \<Rightarrow> Lexer_read_char_or_string_loop terminator c L2)
      else Some L)"
  by pat_completeness auto
termination
  by (relation "measure (\<lambda>(_, _, L). length (lx_buffer L) - lx_position L)")
    (auto simp: Reader_get_def Reader_consume_def split: if_splits)

declare Lexer_read_char_or_string_loop.simps [simp del]

definition Lexer_read_char_or_string :: "token_type \<Rightarrow> char \<Rightarrow> lexer \<Rightarrow> lexer option" where
  "Lexer_read_char_or_string type terminator L =
     do { (_, L1) \<leftarrow> Reader_consume L;
          (c, L2) \<leftarrow> Reader_consume L1;
          L3 \<leftarrow> Lexer_read_char_or_string_loop terminator c L2;
          Some (Lexer_finish_token type L3) }"

function Lexer_read_comment_loop :: "lexer \<Rightarrow> lexer option" where
  "Lexer_read_comment_loop L =
     (case Reader_get L of
        None \<Rightarrow> None
      | Some c \<Rightarrow>
          if c \<noteq> CHR 0x0A \<and> c \<noteq> EOF_CHAR
          then Lexer_read_comment_loop (L\<lparr>lx_position := lx_position L + 1\<rparr>)
          else Some L)"
  by pat_completeness auto
termination
  by (relation "measure (\<lambda>L. length (lx_buffer L) - lx_position L)")
    (auto simp: Reader_get_def split: if_splits)

declare Lexer_read_comment_loop.simps [simp del]

definition Lexer_read_comment :: "lexer \<Rightarrow> lexer option" where
  "Lexer_read_comment L =
     do { L1 \<leftarrow> Lexer_read_comment_loop L; Some (Lexer_attach_token TKN_COMMENT L1) }"

definition Lexer_read_if :: "char \<Rightarrow> lexer \<Rightarrow> (bool \<times> lexer) option" where
  "Lexer_read_if c L =
     do { d \<leftarrow> Reader_get L;
          if d = c then do { (_, L1) \<leftarrow> Reader_consume L; Some (True, L1) }
          else Some (False, L) }"

text \<open>The type of the punctuation behind its first character; \<open>None\<close> is the \<open>default: return\<close>.\<close>

definition Lexer_punctuation_type ::
    "char \<Rightarrow> lexer \<Rightarrow> (punctuation_type option \<times> lexer) option" where
  "Lexer_punctuation_type c L =
     (if c = CHR ''+'' then
        do { (b, L) \<leftarrow> Lexer_read_if (CHR ''='') L; Some (Some (if b then TKN_PLUS_EQ else TKN_PLUS), L) }
      else if c = CHR ''-'' then
        do { (b, L) \<leftarrow> Lexer_read_if (CHR ''>'') L;
          if b then Some (Some TKN_ARROW, L)
          else do { (b, L) \<leftarrow> Lexer_read_if (CHR ''='') L;
                 Some (Some (if b then TKN_MINUS_EQ else TKN_MINUS), L) } }
      else if c = CHR ''*'' then
        do { (b, L) \<leftarrow> Lexer_read_if (CHR ''='') L; Some (Some (if b then TKN_STAR_EQ else TKN_STAR), L) }
      else if c = CHR ''/'' then
        do { (b, L) \<leftarrow> Lexer_read_if (CHR ''='') L; Some (Some (if b then TKN_SLASH_EQ else TKN_SLASH), L) }
      else if c = CHR ''%'' then
        do { (b, L) \<leftarrow> Lexer_read_if (CHR ''='') L; Some (Some (if b then TKN_PERCENT_EQ else TKN_PERCENT), L) }
      else if c = CHR ''&'' then
        do { (b, L) \<leftarrow> Lexer_read_if (CHR ''&'') L;
          if b then Some (Some TKN_AND_AND, L)
          else do { (b, L) \<leftarrow> Lexer_read_if (CHR ''='') L;
                 Some (Some (if b then TKN_AND_EQ else TKN_AND), L) } }
      else if c = CHR ''|'' then
        do { (b, L) \<leftarrow> Lexer_read_if (CHR ''|'') L;
          if b then Some (Some TKN_OR_OR, L)
          else do { (b, L) \<leftarrow> Lexer_read_if (CHR ''='') L;
                 Some (Some (if b then TKN_OR_EQ else TKN_OR), L) } }
      else if c = CHR ''!'' then
        do { (b, L) \<leftarrow> Lexer_read_if (CHR ''='') L; Some (Some (if b then TKN_NE else TKN_NOT), L) }
      else if c = CHR ''^'' then
        do { (b, L) \<leftarrow> Lexer_read_if (CHR ''='') L; Some (Some (if b then TKN_CARET_EQ else TKN_CARET), L) }
      else if c = CHR ''~'' then
        Some (Some TKN_TILDE, L)
      else if c = CHR ''>'' then
        do { (b, L) \<leftarrow> Lexer_read_if (CHR ''>'') L;
          if b then do { (b, L) \<leftarrow> Lexer_read_if (CHR ''='') L;
                         Some (Some (if b then TKN_SHR_EQ else TKN_SHR), L) }
          else do { (b, L) \<leftarrow> Lexer_read_if (CHR ''='') L;
                 Some (Some (if b then TKN_GE else TKN_GT), L) } }
      else if c = CHR ''<'' then
        do { (b, L) \<leftarrow> Lexer_read_if (CHR ''<'') L;
          if b then do { (b, L) \<leftarrow> Lexer_read_if (CHR ''='') L;
                         Some (Some (if b then TKN_SHL_EQ else TKN_SHL), L) }
          else do { (b, L) \<leftarrow> Lexer_read_if (CHR ''='') L;
                 Some (Some (if b then TKN_LE else TKN_LT), L) } }
      else if c = CHR ''='' then
        do { (b, L) \<leftarrow> Lexer_read_if (CHR ''='') L; Some (Some (if b then TKN_EQ_EQ else TKN_EQ), L) }
      else if c = CHR ''('' then
        Some (Some TKN_LPAREN, L)
      else if c = CHR '')'' then
        Some (Some TKN_RPAREN, L)
      else if c = CHR ''{'' then
        Some (Some TKN_LBRACE, L)
      else if c = CHR ''}'' then
        Some (Some TKN_RBRACE, L)
      else if c = CHR ''['' then
        Some (Some TKN_LBRACKET, L)
      else if c = CHR '']'' then
        Some (Some TKN_RBRACKET, L)
      else if c = CHR '';'' then
        Some (Some TKN_SEMI, L)
      else if c = CHR '':'' then
        Some (Some TKN_COLON, L)
      else if c = CHR '','' then
        Some (Some TKN_COMMA, L)
      else if c = CHR ''.'' then
        do { (b, L) \<leftarrow> Lexer_read_if (CHR ''.'') L;
          if b then do { (b, L) \<leftarrow> Lexer_read_if (CHR ''.'') L;
                         Some (Some (if b then TKN_DOT_DOT_DOT else TKN_DOT_DOT), L) }
          else Some (Some TKN_DOT, L) }
      else if c = CHR ''?'' then
        Some (Some TKN_QUESTION, L)
      else if c = CHR ''@'' then
        Some (Some TKN_AT, L)
      else Some (None, L))"

definition Lexer_read_punctuation :: "lexer \<Rightarrow> lexer option" where
  "Lexer_read_punctuation L =
     do { (c, L1) \<leftarrow> Reader_consume L;
          (type, L2) \<leftarrow> Lexer_punctuation_type c L1;
          Some (case type of
                  None \<Rightarrow> L2
                | Some p \<Rightarrow> Lexer_finish_token (TKN_punctuation p) L2) }"

definition Lexer_read_token :: "bool \<Rightarrow> lexer \<Rightarrow> lexer option" where
  "Lexer_read_token optional_semicolons L =
     do { c \<leftarrow> Reader_get L;
          if Lexer_is_whitespace_char c then Lexer_read_whitespace optional_semicolons L
          else if Lexer_is_identifier_start_char c then Lexer_read_identifier L
          else if Lexer_is_number_start_char c then Lexer_read_number L
          else if c = CHR 0x27 then Lexer_read_char_or_string TKN_CHARACTER (CHR 0x27) L
          else if c = CHR 0x22 then Lexer_read_char_or_string TKN_STRING (CHR 0x22) L
          else if c = CHR ''#'' then Lexer_read_comment L
          else Lexer_read_punctuation L }"

subsection \<open>The main loop\<close>

text \<open>What every operation of the lexer does to the reader: the buffer stays, the position moves on.\<close>

definition moved :: "nat \<Rightarrow> lexer \<Rightarrow> lexer \<Rightarrow> bool" where
  "moved n L L' \<longleftrightarrow> lx_buffer L' = lx_buffer L \<and> lx_position L + n \<le> lx_position L'"

lemma moved_refl [simp]: "moved 0 L L"
  by (simp add: moved_def)

lemma moved_trans: "moved m L L1 \<Longrightarrow> moved n L1 L2 \<Longrightarrow> k \<le> m + n \<Longrightarrow> moved k L L2"
  by (simp add: moved_def)

lemma moved_less: "moved n L L' \<Longrightarrow> m \<le> n \<Longrightarrow> moved m L L'"
  by (simp add: moved_def)

lemma moved_step:
  "moved n (L\<lparr>lx_position := Suc (lx_position L)\<rparr>) L' \<Longrightarrow> m \<le> Suc n \<Longrightarrow> moved m L L'"
  by (simp add: moved_def)

lemma moved_consume: "Reader_consume L = Some (c, L') \<Longrightarrow> moved 1 L L'"
  by (auto simp: moved_def Reader_consume_def split: bind_splits)

lemma moved_then: "moved n L L1 \<Longrightarrow> moved 0 L1 L2 \<Longrightarrow> moved n L L2"
  by (simp add: moved_def)

lemma moved_consume_then: "Reader_consume L = Some (c, L1) \<Longrightarrow> moved 0 L1 L' \<Longrightarrow> moved 0 L L'"
  by (blast intro: moved_consume moved_less moved_then le0)

lemma moved_finish [simp]:
  "moved n L (Lexer_finish_token type L') \<longleftrightarrow> moved n L L'"
  "moved n L (Lexer_finish_line opt L') \<longleftrightarrow> moved n L L'"
  "moved n L (Lexer_attach_token type L') \<longleftrightarrow> moved n L L'"
  by (simp_all add: moved_def Lexer_finish_token_def Lexer_finish_line_def Lexer_attach_token_def
      Let_def)

lemma moved_whitespace_loop:
  "Lexer_read_whitespace_loop end_of_line L = Some (b, L') \<Longrightarrow>
   moved (if Lexer_is_whitespace_char (the (Reader_get L)) then 1 else 0) L L'"
proof (induction end_of_line L rule: Lexer_read_whitespace_loop.induct)
  case (1 end_of_line L)
  then show ?case
    by (simp add: Lexer_read_whitespace_loop.simps [of end_of_line L] split: option.splits if_splits)
      (blast intro: moved_step moved_less)+
qed

lemma moved_identifier_loop:
  "Lexer_read_identifier_loop L = Some L' \<Longrightarrow>
   moved (if Lexer_is_identifier_char (the (Reader_get L)) then 1 else 0) L L'"
proof (induction L rule: Lexer_read_identifier_loop.induct)
  case (1 L)
  then show ?case
    by (simp add: Lexer_read_identifier_loop.simps [of L] split: option.splits if_splits)
      (blast intro: moved_step moved_less)+
qed

lemma number_start_chars:
  "Lexer_is_number_start_char c \<Longrightarrow> Lexer_is_number_char c \<and> c \<noteq> CHR ''.''"
  by (auto simp: Lexer_is_number_start_char_def Lexer_is_number_char_def)

lemma identifier_start_chars:
  "Lexer_is_identifier_start_char c \<Longrightarrow> Lexer_is_identifier_char c"
  by (auto simp: Lexer_is_identifier_start_char_def Lexer_is_identifier_char_def)

lemma moved_number_loop:
  "Lexer_read_number_loop L = Some L' \<Longrightarrow>
   moved (if Lexer_is_number_start_char (the (Reader_get L)) then 1 else 0) L L'"
proof (induction L rule: Lexer_read_number_loop.induct)
  case (1 L)
  then show ?case
    using number_start_chars [of "the (Reader_get L)"]
    by (simp add: Lexer_read_number_loop.simps [of L] split: option.splits if_splits)
      (blast intro: moved_step moved_less)+
qed

lemma moved_char_or_string_loop:
  "Lexer_read_char_or_string_loop terminator c L = Some L' \<Longrightarrow> moved 0 L L'"
proof (induction terminator c L rule: Lexer_read_char_or_string_loop.induct)
  case (1 terminator c L)
  note step = "1.prems" [unfolded Lexer_read_char_or_string_loop.simps [of terminator c L]]
  consider "L' = L" | d L1 where "Reader_consume L = Some (d, L1)"
    using step by (auto split: if_splits option.splits)
  then show ?case
  proof cases
    case 2
    have "moved 0 L1 L'" if ne: "L' \<noteq> L"
    proof (cases "c = CHR 0x5C \<and> d \<noteq> EOF_CHAR")
      case True
      then obtain e L2 where L2: "Reader_consume L1 = Some (e, L2)"
        "Lexer_read_char_or_string_loop terminator e L2 = Some L'"
        using step 2 ne by (auto simp: EOF_CHAR_def split: if_splits option.splits)
      moreover have "moved 0 L2 L'"
        using "1.IH"(1) [of "(d, L1)" d L1 "(e, L2)" e L2] step 2 ne True L2
        by (auto split: if_splits)
      ultimately show ?thesis
        by (blast intro: moved_consume_then)
    next
      case False
      then show ?thesis
        using "1.IH"(2) [of "(d, L1)" d L1] step 2 ne by (auto split: if_splits)
    qed
    with 2 show ?thesis
      by (cases "L' = L") (auto intro: moved_consume_then)
  qed simp
qed

lemma moved_comment_loop:
  "Lexer_read_comment_loop L = Some L' \<Longrightarrow>
   moved (if the (Reader_get L) \<noteq> CHR 0x0A \<and> the (Reader_get L) \<noteq> EOF_CHAR then 1 else 0) L L'"
proof (induction L rule: Lexer_read_comment_loop.induct)
  case (1 L)
  then show ?case
    by (simp add: Lexer_read_comment_loop.simps [of L] split: option.splits if_splits)
      (blast intro: moved_step moved_less)+
qed

lemma moved_read_if: "Lexer_read_if c L = Some (b, L') \<Longrightarrow> moved 0 L L'"
  by (auto simp: Lexer_read_if_def split: bind_splits if_splits intro: moved_consume_then)

lemma moved_read_if_then:
  assumes "Lexer_read_if c L \<bind> f = Some r" and "\<And>b L1. f (b, L1) = Some r \<Longrightarrow> moved 0 L1 L'"
  shows "moved 0 L L'"
  using assms by (auto split: bind_splits intro: moved_then [OF moved_read_if])

lemma moved_punctuation_type:
  "Lexer_punctuation_type c L = Some (type, L') \<Longrightarrow> moved 0 L L'"
  unfolding Lexer_punctuation_type_def
  by (auto split: if_split_asm elim!: moved_read_if_then)

lemma moved_read_token:
  assumes "Lexer_read_token optional_semicolons L = Some L'"
  shows "moved 1 L L'"
proof -
  obtain c where c: "Reader_get L = Some c"
    using assms by (auto simp: Lexer_read_token_def split: bind_splits)
  have string: "moved 1 L L'" if r: "Lexer_read_char_or_string type q L = Some L'" for type q
    using r unfolding Lexer_read_char_or_string_def
    by (auto split: bind_splits dest!: moved_consume moved_char_or_string_loop)
      (meson moved_less moved_then le0)
  have punctuation: "moved 1 L L'" if r: "Lexer_read_punctuation L = Some L'"
    using r unfolding Lexer_read_punctuation_def
    by (auto split: bind_splits option.splits dest!: moved_consume moved_punctuation_type)
      (blast intro: moved_then)+
  consider "Lexer_is_whitespace_char c" "Lexer_read_whitespace optional_semicolons L = Some L'"
    | "Lexer_is_identifier_start_char c" "Lexer_read_identifier L = Some L'"
    | "Lexer_is_number_start_char c" "Lexer_read_number L = Some L'"
    | "c = CHR ''#''" "Lexer_read_comment L = Some L'"
    | type q where "Lexer_read_char_or_string type q L = Some L'"
    | "Lexer_read_punctuation L = Some L'"
    using assms c unfolding Lexer_read_token_def by (auto split: if_splits)
  then show ?thesis
  proof cases
    case 1
    then show ?thesis using c
      by (auto simp: Lexer_read_whitespace_def split: bind_splits dest!: moved_whitespace_loop)
  next
    case 2
    then show ?thesis using c
      by (auto simp: Lexer_read_identifier_def split: bind_splits dest!: moved_identifier_loop
          dest: identifier_start_chars)
  next
    case 3
    then show ?thesis using c
      by (auto simp: Lexer_read_number_def split: bind_splits dest!: moved_number_loop)
  next
    case 4
    then show ?thesis using c
      by (auto simp: Lexer_read_comment_def EOF_CHAR_def split: bind_splits
          dest!: moved_comment_loop)
  qed (use string punctuation in blast)+
qed

function Lexer_tokenize_loop :: "bool \<Rightarrow> lexer \<Rightarrow> lexer option" where
  "Lexer_tokenize_loop optional_semicolons L =
     (case Reader_get L of
        None \<Rightarrow> None
      | Some c \<Rightarrow>
          if c \<noteq> EOF_CHAR then
            (case Lexer_read_token optional_semicolons L of
               None \<Rightarrow> None
             | Some L1 \<Rightarrow>
                 Lexer_tokenize_loop optional_semicolons
                   (Lexer_try_insert_completion_token
                     (L1\<lparr>lx_start_position := lx_position L1\<rparr>)))
          else Some L)"
  by pat_completeness auto
termination
proof (relation "measure (\<lambda>(_, L). length (lx_buffer L) - lx_position L)", simp, goal_cases)
  case (1 opt L c L1)
  then show ?case
    using moved_read_token [of opt L L1]
    by (auto simp: moved_def Reader_get_def Lexer_try_insert_completion_token_def Let_def
        split: if_splits)
qed

declare Lexer_tokenize_loop.simps [simp del]

definition Lexer_tokenize :: "bool \<Rightarrow> lexer \<Rightarrow> token_list option" where
  "Lexer_tokenize optional_semicolons L =
     do { let L1 = L\<lparr>lx_tokens := [], lx_start_position := lx_position L\<rparr>;
          let L2 = (if lx_mode L1 = KEEP_WHITESPACE then
                      L1\<lparr>lx_attachments := lx_attachments L1 @ [\<lparr>span_first = 0, span_count = 0\<rparr>]\<rparr>
                    else L1);
          L3 \<leftarrow> Lexer_tokenize_loop optional_semicolons L2;
          let L4 = Lexer_finish_line optional_semicolons L3;
          Some \<lparr>tl_tokens = lx_tokens L4 @
                  replicate TokenList_EOF_ZONE_SIZE (Token TKN_EOF '''' (lx_position L4)),
                tl_attached_tokens = lx_attached_tokens L4,
                tl_attachments = lx_attachments L4\<rparr> }"

end
