(* ===== verification/Lexer_Correct.thy ===== *)
theory Lexer_Correct
  imports Lexer "HOL-Library.Sublist"
begin

section \<open>What the lexer computes\<close>

text \<open>
  The language of the lexer as a function on texts: \<open>scan\<close> gives the kind and the text of the first
  piece of a text, \<open>pieces\<close> the whole sequence.  The lexer of \<open>lexer.cpp\<close> is shown to implement it,
  and the properties of the token list are read off the pieces.
\<close>

subsection \<open>The reference scanner\<close>

fun number_lexeme :: "string \<Rightarrow> string" where
  "number_lexeme [] = []"
| "number_lexeme (c # s) =
     (if Lexer_is_number_char c \<and> \<not> prefix ''..'' (c # s) then c # number_lexeme s else [])"

fun literal_body :: "char \<Rightarrow> string \<Rightarrow> string" where
  "literal_body q [] = []"
| "literal_body q (c # s) =
     (if c = EOF_CHAR \<or> c = q then [c]
      else if c = CHR 0x5C then
        (case s of [] \<Rightarrow> [c] | d # s' \<Rightarrow> c # d # (if d = EOF_CHAR then [] else literal_body q s'))
      else c # literal_body q s)"

primrec punctuation_text :: "punctuation_type \<Rightarrow> string" where
  "punctuation_text TKN_PLUS = ''+''"
| "punctuation_text TKN_MINUS = ''-''"
| "punctuation_text TKN_STAR = ''*''"
| "punctuation_text TKN_SLASH = ''/''"
| "punctuation_text TKN_PERCENT = ''%''"
| "punctuation_text TKN_AND = ''&''"
| "punctuation_text TKN_OR = ''|''"
| "punctuation_text TKN_NOT = ''!''"
| "punctuation_text TKN_SHL = ''<<''"
| "punctuation_text TKN_SHR = ''>>''"
| "punctuation_text TKN_CARET = ''^''"
| "punctuation_text TKN_TILDE = ''~''"
| "punctuation_text TKN_EQ = ''=''"
| "punctuation_text TKN_EQ_EQ = ''==''"
| "punctuation_text TKN_NE = ''!=''"
| "punctuation_text TKN_GT = ''>''"
| "punctuation_text TKN_LT = ''<''"
| "punctuation_text TKN_GE = ''>=''"
| "punctuation_text TKN_LE = ''<=''"
| "punctuation_text TKN_AND_AND = ''&&''"
| "punctuation_text TKN_OR_OR = ''||''"
| "punctuation_text TKN_DOT = ''.''"
| "punctuation_text TKN_DOT_DOT = ''..''"
| "punctuation_text TKN_DOT_DOT_DOT = ''...''"
| "punctuation_text TKN_PLUS_EQ = ''+=''"
| "punctuation_text TKN_MINUS_EQ = ''-=''"
| "punctuation_text TKN_STAR_EQ = ''*=''"
| "punctuation_text TKN_SLASH_EQ = ''/=''"
| "punctuation_text TKN_PERCENT_EQ = ''%=''"
| "punctuation_text TKN_AND_EQ = ''&=''"
| "punctuation_text TKN_OR_EQ = ''|=''"
| "punctuation_text TKN_CARET_EQ = ''^=''"
| "punctuation_text TKN_SHL_EQ = ''<<=''"
| "punctuation_text TKN_SHR_EQ = ''>>=''"
| "punctuation_text TKN_SEMI = '';''"
| "punctuation_text TKN_LPAREN = ''(''"
| "punctuation_text TKN_RPAREN = '')''"
| "punctuation_text TKN_LBRACE = ''{''"
| "punctuation_text TKN_RBRACE = ''}''"
| "punctuation_text TKN_LBRACKET = ''[''"
| "punctuation_text TKN_RBRACKET = '']''"
| "punctuation_text TKN_COLON = '':''"
| "punctuation_text TKN_ARROW = ''->''"
| "punctuation_text TKN_COMMA = '',''"
| "punctuation_text TKN_QUESTION = ''?''"
| "punctuation_text TKN_AT = ''@''"

text \<open>All the punctuation, the longer spellings first.\<close>

definition punctuations :: "punctuation_type list" where
  "punctuations =
   [TKN_DOT_DOT_DOT, TKN_SHL_EQ, TKN_SHR_EQ,
    TKN_SHL, TKN_SHR, TKN_EQ_EQ, TKN_NE, TKN_GE, TKN_LE, TKN_AND_AND, TKN_OR_OR, TKN_DOT_DOT,
    TKN_PLUS_EQ, TKN_MINUS_EQ, TKN_STAR_EQ, TKN_SLASH_EQ, TKN_PERCENT_EQ, TKN_AND_EQ, TKN_OR_EQ,
    TKN_CARET_EQ, TKN_ARROW,
    TKN_PLUS, TKN_MINUS, TKN_STAR, TKN_SLASH, TKN_PERCENT, TKN_AND, TKN_OR, TKN_NOT, TKN_CARET,
    TKN_TILDE, TKN_EQ, TKN_GT, TKN_LT, TKN_DOT, TKN_SEMI, TKN_LPAREN, TKN_RPAREN, TKN_LBRACE,
    TKN_RBRACE, TKN_LBRACKET, TKN_RBRACKET, TKN_COLON, TKN_COMMA, TKN_QUESTION, TKN_AT]"

definition longest_punctuation :: "string \<Rightarrow> punctuation_type option" where
  "longest_punctuation s = find (\<lambda>p. prefix (punctuation_text p) s) punctuations"

definition word_type :: "string \<Rightarrow> token_type" where
  "word_type s = (case map_of KEYWORDS s of None \<Rightarrow> TKN_IDENTIFIER | Some k \<Rightarrow> TKN_keyword k)"

text \<open>The first piece of a nonempty text; \<open>None\<close> is a character that starts no token.\<close>

definition scan :: "string \<Rightarrow> token_type option \<times> string" where
  "scan s =
     (let c = hd s in
      if Lexer_is_whitespace_char c
      then (Some TKN_WHITESPACE, takeWhile Lexer_is_whitespace_char s)
      else if Lexer_is_identifier_start_char c
      then (Some (word_type (takeWhile Lexer_is_identifier_char s)),
            takeWhile Lexer_is_identifier_char s)
      else if Lexer_is_number_start_char c then (Some TKN_LITERAL, number_lexeme s)
      else if c = CHR 0x27 then (Some TKN_CHARACTER, c # literal_body c (tl s))
      else if c = CHR 0x22 then (Some TKN_STRING, c # literal_body c (tl s))
      else if c = CHR ''#''
      then (Some TKN_COMMENT, takeWhile (\<lambda>d. d \<noteq> CHR 0x0A \<and> d \<noteq> EOF_CHAR) s)
      else
        (case longest_punctuation s of
           Some p \<Rightarrow> (Some (TKN_punctuation p), punctuation_text p)
         | None \<Rightarrow> (None, [c])))"

lemma number_lexeme_prefix: "prefix (number_lexeme s) s"
  by (induction s rule: number_lexeme.induct) auto

lemma literal_body_prefix: "prefix (literal_body q s) s"
  by (induction q s rule: literal_body.induct) (auto split: list.split)

lemma longest_punctuation_prefix:
  "longest_punctuation s = Some p \<Longrightarrow> prefix (punctuation_text p) s"
  by (auto simp: longest_punctuation_def find_Some_iff)

lemma punctuation_text_not_empty [simp]: "punctuation_text p \<noteq> []"
  by (cases p) simp_all

lemma scan_piece:
  assumes "scan s = (k, l)" and "s \<noteq> []"
  shows "prefix l s \<and> l \<noteq> []"
proof -
  obtain c r where s: "s = c # r"
    using assms(2) by (cases s) auto
  show ?thesis
    using assms(1) s number_lexeme_prefix [of s] literal_body_prefix [of c r]
    by (auto simp: scan_def Let_def takeWhile_is_prefix longest_punctuation_prefix EOF_CHAR_def
        dest: identifier_start_chars number_start_chars split: if_splits option.splits)
qed

subsection \<open>The reader and the rest of the text\<close>

definition rest :: "lexer \<Rightarrow> string" where
  "rest L = drop (lx_position L) (lx_buffer L)"

definition advance :: "nat \<Rightarrow> lexer \<Rightarrow> lexer" where
  "advance n L = L\<lparr>lx_position := lx_position L + n\<rparr>"

lemma rest_advance [simp]: "rest (advance n L) = drop n (rest L)"
  by (simp add: rest_def advance_def add.commute)

lemma advance_0 [simp]: "advance 0 L = L"
  by (simp add: advance_def)

lemma advance_advance [simp]: "advance n (advance m L) = advance (m + n) L"
  by (simp add: advance_def add.assoc)

lemma advance_fold: "L\<lparr>lx_position := Suc (lx_position L)\<rparr> = advance 1 L"
  by (simp add: advance_def)

lemma advance_simps [simp]:
  "lx_buffer (advance n L) = lx_buffer L" "lx_position (advance n L) = lx_position L + n"
  "lx_mode (advance n L) = lx_mode L" "lx_tokens (advance n L) = lx_tokens L"
  "lx_attached_tokens (advance n L) = lx_attached_tokens L"
  "lx_attachments (advance n L) = lx_attachments L"
  "lx_start_position (advance n L) = lx_start_position L"
  "lx_completion_enabled (advance n L) = lx_completion_enabled L"
  by (simp_all add: advance_def)

lemma Reader_get_rest: "Reader_get L = (case rest L of [] \<Rightarrow> None | c # s \<Rightarrow> Some c)"
  by (cases "lx_position L < length (lx_buffer L)")
    (simp_all add: Reader_get_def rest_def Cons_nth_drop_Suc [symmetric])

lemma Reader_peek_rest: "Reader_peek L = (case drop 1 (rest L) of [] \<Rightarrow> None | c # s \<Rightarrow> Some c)"
  by (cases "lx_position L + 1 < length (lx_buffer L)")
    (simp_all add: Reader_peek_def rest_def Cons_nth_drop_Suc [symmetric])

lemma Reader_consume_rest:
  "Reader_consume L = (case rest L of [] \<Rightarrow> None | c # s \<Rightarrow> Some (c, advance 1 L))"
  by (simp add: Reader_consume_def Reader_get_rest advance_def split: list.split)

lemma Reader_value_advance:
  "lx_start_position L = lx_position L \<Longrightarrow>
   Reader_value (advance n L) (lx_position L) = take n (rest L)"
  by (simp add: Reader_value_def rest_def)

lemmas reader_rest = Reader_get_rest Reader_peek_rest Reader_consume_rest

subsection \<open>The loops\<close>

lemma whitespace_loop_takeWhile:
  assumes "rest L = s" and "\<exists>c\<in>set s. \<not> Lexer_is_whitespace_char c"
  shows "Lexer_read_whitespace_loop b L =
    Some (b \<or> CHR 0x0A \<in> set (takeWhile Lexer_is_whitespace_char s),
          advance (length (takeWhile Lexer_is_whitespace_char s)) L)"
  using assms
proof (induction s arbitrary: b L)
  case (Cons c s)
  then show ?case
    by (subst Lexer_read_whitespace_loop.simps) (auto simp: reader_rest advance_fold)
qed simp

lemma identifier_loop_takeWhile:
  assumes "rest L = s" and "\<exists>c\<in>set s. \<not> Lexer_is_identifier_char c"
  shows "Lexer_read_identifier_loop L =
    Some (advance (length (takeWhile Lexer_is_identifier_char s)) L)"
  using assms
proof (induction s arbitrary: L)
  case (Cons c s)
  then show ?case
    by (subst Lexer_read_identifier_loop.simps) (auto simp: reader_rest advance_fold)
qed simp

lemma comment_loop_takeWhile:
  assumes "rest L = s" and "EOF_CHAR \<in> set s"
  shows "Lexer_read_comment_loop L =
    Some (advance (length (takeWhile (\<lambda>d. d \<noteq> CHR 0x0A \<and> d \<noteq> EOF_CHAR) s)) L)"
  using assms
proof (induction s arbitrary: L)
  case (Cons c s)
  then show ?case
    by (subst Lexer_read_comment_loop.simps) (auto simp: reader_rest advance_fold)
qed simp

lemma number_loop_lexeme:
  assumes "rest L = s" and "s \<noteq> []" and "last s = EOF_CHAR"
  shows "Lexer_read_number_loop L = Some (advance (length (number_lexeme s)) L)"
  using assms
proof (induction s arbitrary: L)
  case (Cons c s)
  have not_number: "\<not> Lexer_is_number_char EOF_CHAR"
    by (simp add: Lexer_is_number_char_def EOF_CHAR_def)
  show ?case
  proof (cases s)
    case Nil
    with Cons.prems not_number show ?thesis
      by (subst Lexer_read_number_loop.simps) (auto simp: reader_rest)
  next
    case (Cons d r)
    with Cons.prems Cons.IH [of "advance 1 L"] show ?thesis
      by (subst Lexer_read_number_loop.simps) (auto simp: reader_rest advance_fold)
  qed
qed simp

text \<open>The loop of the literals is entered behind the character it looks at.\<close>

lemma char_or_string_loop_body:
  assumes "rest L = s" and "EOF_CHAR \<in> set (c # s)" and "q \<noteq> CHR 0x5C"
  shows "Lexer_read_char_or_string_loop q c L =
    Some (advance (length (literal_body q (c # s)) - 1) L)"
  using assms
proof (induction "length s" arbitrary: c s L rule: less_induct)
  case less
  have eof: "EOF_CHAR \<noteq> CHR 0x5C"
    by (simp add: EOF_CHAR_def)
  show ?case
  proof (cases s)
    case Nil
    with less.prems show ?thesis
      by (subst Lexer_read_char_or_string_loop.simps) (auto simp: reader_rest)
  next
    case s: (Cons d r)
    have body: "Lexer_read_char_or_string_loop q d (advance 1 L) =
        Some (advance (length (literal_body q (d # r))) L)" if "c \<noteq> EOF_CHAR"
      using less.hyps [of r "advance 1 L" d] less.prems s that
      by (cases "literal_body q (d # r)") (auto split: if_splits list.splits)
    show ?thesis
    proof (cases "c = CHR 0x5C \<and> d \<noteq> EOF_CHAR")
      case True
      with less.prems s eof obtain e r' where r: "r = e # r'"
        by (cases r) auto
      have "Lexer_read_char_or_string_loop q e (advance 2 L) =
          Some (advance (Suc (length (literal_body q (e # r')))) L)"
        using less.hyps [of r' "advance 2 L" e] less.prems s r True eof
        by (cases "literal_body q (e # r')") (auto split: if_splits list.splits)
      with less.prems s r True eof show ?thesis
        by (subst Lexer_read_char_or_string_loop.simps)
          (simp add: reader_rest numeral_2_eq_2)
    next
      case False
      with less.prems s body eof show ?thesis
        by (subst Lexer_read_char_or_string_loop.simps) (auto simp: reader_rest)
    qed
  qed
qed

subsection \<open>One token\<close>

lemma read_if_rest:
  "rest L = d # s \<Longrightarrow>
   Lexer_read_if c L = Some (if d = c then (True, advance 1 L) else (False, L))"
  by (simp add: Lexer_read_if_def reader_rest)

lemma punctuation_text_hd: "hd (punctuation_text p) \<in> set ''+-*/%&|!^~><=(){}[];:,.?@''"
  by (cases p) simp_all

lemma longest_punctuation_None:
  assumes "c \<notin> set ''+-*/%&|!^~><=(){}[];:,.?@''"
  shows "longest_punctuation (c # s) = None"
proof -
  have "\<not> prefix (punctuation_text p) (c # s)" for p
    using punctuation_text_hd [of p] assms by (cases "punctuation_text p") (auto simp del: set_simps)
  then show ?thesis
    by (simp add: longest_punctuation_def find_None_iff)
qed

lemma punctuation_type_default:
  "c \<notin> set ''+-*/%&|!^~><=(){}[];:,.?@'' \<Longrightarrow> Lexer_punctuation_type c L = Some (None, L)"
  unfolding Lexer_punctuation_type_def by simp

lemma punctuation_type_longest:
  assumes "rest L = s" and "s \<noteq> []" and "last s = EOF_CHAR"
  shows "Lexer_punctuation_type c L =
    Some (longest_punctuation (c # s),
          advance (case longest_punctuation (c # s) of
                     None \<Rightarrow> 0 | Some p \<Rightarrow> length (punctuation_text p) - 1) L)"
proof -
  obtain d r where s: "s = d # r"
    using assms(2) by (cases s) auto
  obtain e where e: "d \<noteq> EOF_CHAR \<Longrightarrow> rest (advance 1 L) = e # tl r \<and> r = e # tl r"
    using assms s by (cases r) (auto split: if_splits)
  note defs = Lexer_punctuation_type_def longest_punctuation_def punctuations_def
    read_if_rest [of L d r] assms(1) s
  show ?thesis
  proof (cases "c \<in> set ''+-*/%&|!^~><=(){}[];:,.?@''")
    case False
    then show ?thesis
      by (simp only: longest_punctuation_None [OF False] punctuation_type_default [OF False]
          option.case advance_0)
  next
    case True
    have "d = EOF_CHAR \<or> rest (advance 1 L) = e # tl r \<and> r = e # tl r"
      using e by blast
    then show ?thesis
    proof
      assume "d = EOF_CHAR"
      with True show ?thesis
        by (simp only: list.set insert_iff empty_iff) (elim disjE FalseE; simp add: defs EOF_CHAR_def)
    next
      assume r: "rest (advance 1 L) = e # tl r \<and> r = e # tl r"
      then obtain r' where r': "r = e # r'"
        by blast
      have if2: "Lexer_read_if x (advance (Suc 0) L) =
          Some (if e = x then (True, advance 2 L) else (False, advance (Suc 0) L))" for x
        using r read_if_rest [of "advance 1 L" e "tl r" x] by (simp add: numeral_2_eq_2)
      from True show ?thesis
        by (simp only: list.set insert_iff empty_iff)
          (elim disjE FalseE; simp add: defs if2 r' numeral_2_eq_2)
    qed
  qed
qed

text \<open>What the lexer does with a piece it has read.\<close>

definition emit :: "bool \<Rightarrow> token_type option \<times> string \<Rightarrow> lexer \<Rightarrow> lexer" where
  "emit opt p L =
     (case fst p of
        None \<Rightarrow> L
      | Some type \<Rightarrow>
          if type = TKN_WHITESPACE then
            Lexer_attach_token type (if CHR 0x0A \<in> set (snd p) then Lexer_finish_line opt L else L)
          else if type = TKN_COMMENT then Lexer_attach_token type L
          else Lexer_finish_token type L)"

lemma word_type_not_trivia [simp]: "word_type s \<noteq> TKN_WHITESPACE" "word_type s \<noteq> TKN_COMMENT"
  by (simp_all add: word_type_def split: option.split)

lemma eof_class:
  "\<not> Lexer_is_whitespace_char EOF_CHAR" "\<not> Lexer_is_identifier_char EOF_CHAR"
  "\<not> Lexer_is_number_char EOF_CHAR"
  by (simp_all add: Lexer_is_whitespace_char_def Lexer_is_identifier_char_def
      Lexer_is_number_char_def EOF_CHAR_def)

lemma read_char_or_string_body:
  assumes "rest L = q # r" and "r \<noteq> []" and "last r = EOF_CHAR" and "q \<noteq> CHR 0x5C"
  shows "Lexer_read_char_or_string type q L =
    Some (Lexer_finish_token type (advance (length (q # literal_body q r)) L))"
proof -
  obtain d r' where r: "r = d # r'"
    using assms(2) by (cases r) auto
  obtain x xs where body: "literal_body q (d # r') = x # xs"
    by (cases "literal_body q (d # r')") (auto split: if_splits list.splits)
  have "EOF_CHAR \<in> set (d # r')"
    using assms(3) r last_in_set [of "d # r'"] by simp
  then have "Lexer_read_char_or_string_loop q d (advance 2 L) =
      Some (advance (length (literal_body q (d # r')) - 1) (advance 2 L))"
    using assms r by (intro char_or_string_loop_body) simp_all
  then show ?thesis
    using assms r body by (simp add: Lexer_read_char_or_string_def reader_rest numeral_2_eq_2)
qed

lemma read_token_scan:
  assumes "rest L = s" and "hd s \<noteq> EOF_CHAR" and "s = t @ [EOF_CHAR, EOF_CHAR]"
    and "lx_start_position L = lx_position L"
  shows "Lexer_read_token opt L = Some (emit opt (scan s) (advance (length (snd (scan s))) L))"
proof -
  obtain c r where s: "s = c # r" and c: "c \<noteq> EOF_CHAR" and r: "r \<noteq> []" "last r = EOF_CHAR"
    using assms(2,3) by (cases t) auto
  have get: "Reader_get L = Some c"
    using assms(1) s by (simp add: reader_rest)
  have eof: "EOF_CHAR \<in> set s" "s \<noteq> []" "last s = EOF_CHAR"
    using assms(3) by auto
  have ex: "\<exists>d\<in>set s. \<not> Lexer_is_whitespace_char d" "\<exists>d\<in>set s. \<not> Lexer_is_identifier_char d"
    using eof eof_class by blast+
  note scan_c = scan_def [of "c # r", unfolded Let_def list.sel]
  consider "Lexer_is_whitespace_char c"
    | "\<not> Lexer_is_whitespace_char c" "Lexer_is_identifier_start_char c"
    | "\<not> Lexer_is_whitespace_char c" "\<not> Lexer_is_identifier_start_char c"
      "Lexer_is_number_start_char c"
    | "\<not> Lexer_is_whitespace_char c" "\<not> Lexer_is_identifier_start_char c"
      "\<not> Lexer_is_number_start_char c"
    by blast
  then show ?thesis
  proof cases
    case 1
    then show ?thesis
      using get s assms(1) whitespace_loop_takeWhile [OF assms(1) ex(1), of False]
      by (simp add: Lexer_read_token_def Lexer_read_whitespace_def scan_c emit_def)
  next
    case 2
    have "Reader_value (advance (length (takeWhile Lexer_is_identifier_char s)) L)
        (lx_position L) = takeWhile Lexer_is_identifier_char s"
      using Reader_value_advance [OF assms(4)] assms(1)
      by (metis takeWhile_eq_take)
    then show ?thesis
      using 2 get s assms(4) identifier_loop_takeWhile [OF assms(1) ex(2)]
      by (simp add: Lexer_read_token_def Lexer_read_identifier_def scan_c emit_def word_type_def
          split: option.split)
  next
    case 3
    then show ?thesis
      using get s number_loop_lexeme [OF assms(1) eof(2,3)]
      by (simp add: Lexer_read_token_def Lexer_read_number_def scan_c emit_def)
  next
    case 4
    have lit: "Lexer_read_char_or_string type c L =
        Some (Lexer_finish_token type (advance (length (c # literal_body c r)) L))"
      if "c = CHR 0x27 \<or> c = CHR 0x22" for type
      using assms(1) s r that by (intro read_char_or_string_body) auto
    have punct: "Lexer_read_punctuation L =
        Some (emit opt (case longest_punctuation s of
           Some p \<Rightarrow> (Some (TKN_punctuation p), punctuation_text p) | None \<Rightarrow> (None, [c]))
          (advance (case longest_punctuation s of
             Some p \<Rightarrow> length (punctuation_text p) | None \<Rightarrow> 1) L))"
      using assms(1) s punctuation_type_longest [of "advance 1 L" r c] r
      by (auto simp: Lexer_read_punctuation_def reader_rest emit_def Suc_diff_1 split: option.split)
    show ?thesis
      using 4 get s comment_loop_takeWhile [OF assms(1) eof(1)] lit punct
      by (auto simp: Lexer_read_token_def Lexer_read_comment_def scan_c emit_def
          split: option.split)
  qed
qed

subsection \<open>All pieces of a text\<close>

function pieces :: "string \<Rightarrow> (token_type option \<times> string) list" where
  "pieces s =
     (if s = [] \<or> hd s = EOF_CHAR then []
      else scan s # pieces (drop (length (snd (scan s))) s))"
  by pat_completeness auto
termination
proof (relation "measure length", simp, goal_cases)
  case (1 s)
  then show ?case
    using scan_piece [of s "fst (scan s)" "snd (scan s)"] by auto
qed

declare pieces.simps [simp del]

definition is_trivia :: "token_type option \<Rightarrow> bool" where
  "is_trivia k \<longleftrightarrow> k = Some TKN_WHITESPACE \<or> k = Some TKN_COMMENT"

text \<open>A line ends behind a token when whitespace with a line feed or the end comes before any token.\<close>

fun line_ends :: "(token_type option \<times> string) list \<Rightarrow> bool" where
  "line_ends [] = True"
| "line_ends ((k, l) # ps) =
     (if k = Some TKN_WHITESPACE \<and> CHR 0x0A \<in> set l then True
      else if k = None \<or> is_trivia k then line_ends ps else False)"

fun tokens_of :: "bool \<Rightarrow> nat \<Rightarrow> (token_type option \<times> string) list \<Rightarrow> token list" where
  "tokens_of opt pos [] = []"
| "tokens_of opt pos ((k, l) # ps) =
     (if k = None \<or> is_trivia k then []
      else [(Token (the k) l pos)\<lparr>tkn_end_of_line := opt \<and> line_ends ps\<rparr>])
     @ tokens_of opt (pos + length l) ps"

text \<open>The whitespace and comments before each token and, in the last group, behind the last one.\<close>

fun groups_of :: "nat \<Rightarrow> (token_type option \<times> string) list \<Rightarrow> token list list" where
  "groups_of pos [] = [[]]"
| "groups_of pos ((k, l) # ps) =
     (let gs = groups_of (pos + length l) ps in
      if k = None then gs
      else if is_trivia k then (Token (the k) l pos # hd gs) # tl gs
      else [] # gs)"

definition pieces_text :: "(token_type option \<times> string) list \<Rightarrow> string" where
  "pieces_text ps = concat (map snd ps)"

lemma groups_of_not_empty [simp]: "groups_of pos ps \<noteq> []"
  by (induction pos ps rule: groups_of.induct) (auto simp: Let_def)

lemma length_groups_of: "length (groups_of pos ps) = length (tokens_of opt pos ps) + 1"
proof (induction pos ps rule: groups_of.induct)
  case (2 pos k l ps)
  then show ?case
    using groups_of_not_empty [of "pos + length l" ps] by (simp add: Let_def)
qed simp

subsection \<open>The end zone\<close>

definition zone :: "string \<Rightarrow> bool" where
  "zone s \<longleftrightarrow> s = [EOF_CHAR] \<or> (\<exists>t. s = t @ [EOF_CHAR, EOF_CHAR])"

lemma takeWhile_no_eof:
  "\<not> P EOF_CHAR \<Longrightarrow> EOF_CHAR \<notin> set (takeWhile P s)"
  by (auto dest: set_takeWhileD)

lemma butlast_literal_body: "EOF_CHAR \<notin> set (butlast (literal_body q s))"
proof (induction q s rule: literal_body.induct)
  case (2 q c s)
  have "CHR 0x5C \<noteq> EOF_CHAR"
    by (simp add: EOF_CHAR_def)
  with 2 show ?case
    by (cases s) (auto simp: literal_body.simps(2) [of q c] simp del: literal_body.simps)
qed simp

lemma number_lexeme_no_eof: "EOF_CHAR \<notin> set (number_lexeme s)"
  by (induction s rule: number_lexeme.induct) (auto simp: eof_class)

lemma punctuation_text_no_eof: "EOF_CHAR \<notin> set (punctuation_text p)"
  by (cases p) (simp_all add: EOF_CHAR_def)

lemma not_in_butlast: "x \<notin> set l \<Longrightarrow> x \<notin> set (butlast l)"
  by (auto dest: in_set_butlastD)

lemma scan_eof_only_last:
  assumes "s \<noteq> []" and "hd s \<noteq> EOF_CHAR"
  shows "EOF_CHAR \<notin> set (butlast (snd (scan s)))"
  using assms butlast_literal_body [of "hd s" "tl s"] number_lexeme_no_eof [of s]
  by (auto simp: scan_def Let_def takeWhile_no_eof eof_class punctuation_text_no_eof
      not_in_butlast split: option.split)

lemma zone_drop:
  assumes "s = t @ [EOF_CHAR, EOF_CHAR]" and "hd s \<noteq> EOF_CHAR"
  shows "zone (drop (length (snd (scan s))) s)"
proof -
  let ?l = "snd (scan s)"
  have l: "prefix ?l s" "?l \<noteq> []"
    using scan_piece [of s "fst (scan s)" ?l] assms(1) by auto
  have "length ?l \<le> length t + 1"
  proof (rule ccontr)
    assume "\<not> length ?l \<le> length t + 1"
    moreover from l(1) have "length ?l \<le> length t + 2"
      using assms(1) prefix_length_le by fastforce
    ultimately have "length ?l = length s"
      using assms(1) by simp
    with l(1) have "?l = s"
      by (metis append_take_drop_id length_drop diff_self_eq_0 length_0_conv append_Nil2 prefix_def
          append_eq_conv_conj)
    then have "EOF_CHAR \<in> set (butlast ?l)"
      using assms(1) by (simp add: butlast_append)
    with scan_eof_only_last [of s] assms show False
      by simp
  qed
  then show ?thesis
    using assms(1) by (auto simp: zone_def le_Suc_eq)
qed

subsection \<open>The effect of a piece on the state\<close>

definition mark :: "bool \<Rightarrow> token list \<Rightarrow> token list" where
  "mark b ts = (if b \<and> ts \<noteq> [] then butlast ts @ [(last ts)\<lparr>tkn_end_of_line := True\<rparr>] else ts)"

lemma mark_mark [simp]: "mark b (mark c ts) = mark (b \<or> c) ts"
  by (auto simp: mark_def)

lemma mark_False [simp]: "mark False ts = ts"
  by (simp add: mark_def)

lemma Token_not_end_of_line [simp]:
  "(Token type l pos)\<lparr>tkn_end_of_line := False\<rparr> = Token type l pos"
  by (simp add: Token_def)

lemma mark_Nil [simp]: "mark b [] = []"
  by (simp add: mark_def)

lemma mark_snoc [simp]:
  "mark b (ts @ [Token type l pos]) = ts @ [(Token type l pos)\<lparr>tkn_end_of_line := b\<rparr>]"
  by (simp add: mark_def Token_def)

lemma finish_line_tokens [simp]: "lx_tokens (Lexer_finish_line opt L) = mark opt (lx_tokens L)"
  by (simp add: Lexer_finish_line_def mark_def)

lemma finish_line_other [simp]:
  "lx_buffer (Lexer_finish_line opt L) = lx_buffer L"
  "lx_position (Lexer_finish_line opt L) = lx_position L"
  "lx_mode (Lexer_finish_line opt L) = lx_mode L"
  "lx_start_position (Lexer_finish_line opt L) = lx_start_position L"
  "lx_attached_tokens (Lexer_finish_line opt L) = lx_attached_tokens L"
  "lx_attachments (Lexer_finish_line opt L) = lx_attachments L"
  "lx_completion_enabled (Lexer_finish_line opt L) = lx_completion_enabled L"
  "Reader_value (Lexer_finish_line opt L) start = Reader_value L start"
  by (simp_all add: Lexer_finish_line_def Reader_value_def)

lemma finish_attach_other [simp]:
  "lx_buffer (Lexer_finish_token type L) = lx_buffer L"
  "lx_position (Lexer_finish_token type L) = lx_position L"
  "lx_mode (Lexer_finish_token type L) = lx_mode L"
  "lx_completion_enabled (Lexer_finish_token type L) = lx_completion_enabled L"
  "lx_attached_tokens (Lexer_finish_token type L) = lx_attached_tokens L"
  "lx_tokens (Lexer_finish_token type L) =
     lx_tokens L @ [Token type (Reader_value L (lx_start_position L)) (lx_start_position L)]"
  "lx_buffer (Lexer_attach_token type L) = lx_buffer L"
  "lx_position (Lexer_attach_token type L) = lx_position L"
  "lx_mode (Lexer_attach_token type L) = lx_mode L"
  "lx_completion_enabled (Lexer_attach_token type L) = lx_completion_enabled L"
  "lx_tokens (Lexer_attach_token type L) = lx_tokens L"
  by (simp_all add: Lexer_finish_token_def Lexer_attach_token_def Let_def)

lemma emit_other [simp]:
  "lx_buffer (emit opt p L) = lx_buffer L" "lx_position (emit opt p L) = lx_position L"
  "lx_mode (emit opt p L) = lx_mode L"
  "lx_completion_enabled (emit opt p L) = lx_completion_enabled L"
  by (simp_all add: emit_def split: option.split)

lemma emit_tokens:
  "lx_tokens (emit opt (k, l) L) =
     (if k = Some TKN_WHITESPACE then mark (opt \<and> CHR 0x0A \<in> set l) (lx_tokens L)
      else if k = None \<or> is_trivia k then lx_tokens L
      else lx_tokens L @
        [Token (the k) (Reader_value L (lx_start_position L)) (lx_start_position L)])"
  by (auto simp: emit_def is_trivia_def mark_def split: option.split)

text \<open>The attached tokens of a state, group by group.\<close>

definition lexer_groups :: "lexer \<Rightarrow> token list list" where
  "lexer_groups L =
     map (\<lambda>sp. take (span_count sp) (drop (span_first sp) (lx_attached_tokens L))) (lx_attachments L)"

definition spans_ok :: "lexer \<Rightarrow> bool" where
  "spans_ok L \<longleftrightarrow>
     lx_attachments L \<noteq> [] \<and>
     (\<forall>sp\<in>set (lx_attachments L).
        span_count sp = 0 \<or> span_first sp + span_count sp \<le> length (lx_attached_tokens L)) \<and>
     (span_count (last (lx_attachments L)) = 0 \<or>
      span_first (last (lx_attachments L)) + span_count (last (lx_attachments L))
        = length (lx_attached_tokens L))"

lemma spans_ok_finish_line [simp]: "spans_ok (Lexer_finish_line opt L) = spans_ok L"
  by (simp add: spans_ok_def)

lemma lexer_groups_finish_line [simp]: "lexer_groups (Lexer_finish_line opt L) = lexer_groups L"
  by (simp add: lexer_groups_def)

lemma finish_token_groups:
  assumes "lx_mode L = KEEP_WHITESPACE" and "spans_ok L"
  shows "spans_ok (Lexer_finish_token type L)"
    and "lexer_groups (Lexer_finish_token type L) = lexer_groups L @ [[]]"
  using assms by (auto simp: Lexer_finish_token_def Let_def spans_ok_def lexer_groups_def)

lemma attach_token_groups:
  assumes "lx_mode L = KEEP_WHITESPACE" and "spans_ok L"
  shows "spans_ok (Lexer_attach_token type L)"
    and "lexer_groups (Lexer_attach_token type L) =
      butlast (lexer_groups L) @ [last (lexer_groups L) @
        [Token type (Reader_value L (lx_start_position L)) (lx_start_position L)]]"
proof -
  obtain ats sp where at: "lx_attachments L = ats @ [sp]"
    using assms(2) by (metis append_butlast_last_id spans_ok_def)
  have old: "span_count x = 0 \<or> span_first x + span_count x \<le> length (lx_attached_tokens L)"
    if "x \<in> set ats" for x
    using assms(2) at that by (auto simp: spans_ok_def)
  have sp: "span_count sp = 0 \<or> span_first sp + span_count sp = length (lx_attached_tokens L)"
    using assms(2) at by (simp add: spans_ok_def)
  show "spans_ok (Lexer_attach_token type L)"
    using assms(1) at old sp by (force simp: Lexer_attach_token_def Let_def spans_ok_def)
  have "take (span_count x) (drop (span_first x) (lx_attached_tokens L @ [t])) =
      take (span_count x) (drop (span_first x) (lx_attached_tokens L))" if "x \<in> set ats" for x t
    using old [OF that] by auto
  then show "lexer_groups (Lexer_attach_token type L) =
      butlast (lexer_groups L) @ [last (lexer_groups L) @
        [Token type (Reader_value L (lx_start_position L)) (lx_start_position L)]]"
    using assms(1) at sp by (auto simp: Lexer_attach_token_def Let_def lexer_groups_def)
qed

lemma emit_groups:
  assumes "lx_mode L = KEEP_WHITESPACE" and "spans_ok L"
  shows "spans_ok (emit opt (k, l) L)"
    and "lexer_groups (emit opt (k, l) L) =
      (let t = Token (the k) (Reader_value L (lx_start_position L)) (lx_start_position L) in
       if k = None then lexer_groups L
       else if is_trivia k then butlast (lexer_groups L) @ [last (lexer_groups L) @ [t]]
       else lexer_groups L @ [[]])"
  using assms
  by (auto simp: emit_def is_trivia_def Let_def attach_token_groups finish_token_groups
      split: option.split)

subsection \<open>The main loop\<close>

lemma tokenize_loop_pieces:
  assumes "rest L = s" and "zone s" and "lx_start_position L = lx_position L"
    and "\<not> lx_completion_enabled L"
    and "lx_mode L = KEEP_WHITESPACE \<Longrightarrow> spans_ok L"
  shows "\<exists>L'. Lexer_tokenize_loop opt L = Some L' \<and>
     mark opt (lx_tokens L') =
       mark (opt \<and> line_ends (pieces s)) (lx_tokens L) @
       tokens_of opt (lx_position L) (pieces s) \<and>
     lx_position L' = lx_position L + length (pieces_text (pieces s)) \<and>
     (lx_mode L = KEEP_WHITESPACE \<longrightarrow>
        (let gs = groups_of (lx_position L) (pieces s) in
         lexer_groups L' = butlast (lexer_groups L) @ (last (lexer_groups L) @ hd gs) # tl gs))"
  using assms
proof (induction s arbitrary: L rule: pieces.induct)
  case (1 s)
  have get: "Reader_get L = Some (hd s)" and ne: "s \<noteq> []"
    using "1.prems"(1,2) by (auto simp: reader_rest zone_def split: list.split)
  show ?case
  proof (cases "hd s = EOF_CHAR")
    case True
    have "lx_mode L = KEEP_WHITESPACE \<Longrightarrow> lexer_groups L \<noteq> []"
      using "1.prems"(5) by (simp add: spans_ok_def lexer_groups_def)
    with True get show ?thesis
      by (auto simp: Lexer_tokenize_loop.simps [of opt L] pieces.simps [of s] pieces_text_def)
  next
    case False
    then obtain t where t: "s = t @ [EOF_CHAR, EOF_CHAR]"
      using "1.prems"(2) by (auto simp: zone_def)
    obtain k l where kl: "scan s = (k, l)"
      by (cases "scan s")
    have l: "prefix l s"
      using scan_piece [OF kl ne] by simp
    define L1 where "L1 = emit opt (k, l) (advance (length l) L)"
    define L2 where "L2 = L1\<lparr>lx_start_position := lx_position L1\<rparr>"
    have pieces: "pieces s = (k, l) # pieces (drop (length l) s)"
      using False ne kl by (simp add: pieces.simps [of s])
    have "Lexer_try_insert_completion_token L2 = L2"
      using "1.prems"(4) by (simp add: Lexer_try_insert_completion_token_def L2_def L1_def)
    then have loop: "Lexer_tokenize_loop opt L = Lexer_tokenize_loop opt L2"
      using read_token_scan [OF "1.prems"(1) False t "1.prems"(3), of opt] get False kl
      by (simp add: Lexer_tokenize_loop.simps [of opt L] L1_def L2_def)
    have text_l: "Reader_value (advance (length l) L) (lx_position L) = l"
      using Reader_value_advance [OF "1.prems"(3)] "1.prems"(1) l
      by (metis prefix_def append_eq_conv_conj)
    have rest2: "rest L2 = drop (length l) (rest L)"
      by (simp add: L2_def L1_def rest_def add.commute)
    have L2: "rest L2 = drop (length l) s" "lx_start_position L2 = lx_position L2"
      "\<not> lx_completion_enabled L2" "lx_position L2 = lx_position L + length l"
      "lx_mode L2 = lx_mode L" "lx_tokens L2 = lx_tokens L1"
      using "1.prems"(4) rest2 "1.prems"(1) by (simp_all add: L2_def L1_def)
    have groups: "spans_ok L2" "lexer_groups L2 = lexer_groups L1"
      if "lx_mode L = KEEP_WHITESPACE"
      using "1.prems"(5) [OF that] that emit_groups(1) [of "advance (length l) L" opt k l]
      by (simp_all add: L2_def L1_def spans_ok_def lexer_groups_def)
    have zone: "zone (drop (length l) s)"
      using zone_drop [OF t False] kl by simp
    obtain L' where L': "Lexer_tokenize_loop opt L2 = Some L'"
      "mark opt (lx_tokens L') =
         mark (opt \<and> line_ends (pieces (drop (length l) s))) (lx_tokens L2) @
         tokens_of opt (lx_position L2) (pieces (drop (length l) s))"
      "lx_position L' = lx_position L2 + length (pieces_text (pieces (drop (length l) s)))"
      "lx_mode L2 = KEEP_WHITESPACE \<longrightarrow>
        (let gs = groups_of (lx_position L2) (pieces (drop (length l) s)) in
         lexer_groups L' = butlast (lexer_groups L2) @ (last (lexer_groups L2) @ hd gs) # tl gs)"
      using "1.IH" [of L2] False ne kl L2 zone groups by auto
    have tokens: "lx_tokens L2 =
        (if k = Some TKN_WHITESPACE then mark (opt \<and> CHR 0x0A \<in> set l) (lx_tokens L)
         else if k = None \<or> is_trivia k then lx_tokens L
         else lx_tokens L @ [Token (the k) l (lx_position L)])"
      using "1.prems"(3) text_l by (simp add: L2 L1_def emit_tokens)
    have "mark opt (lx_tokens L') =
        mark (opt \<and> line_ends (pieces s)) (lx_tokens L) @ tokens_of opt (lx_position L) (pieces s)"
      using L'(2) tokens by (cases opt) (auto simp: pieces L2 is_trivia_def disj_commute)
    moreover have "lx_position L' = lx_position L + length (pieces_text (pieces s))"
      using L'(3) by (simp add: pieces L2 pieces_text_def)
    moreover have "let gs = groups_of (lx_position L) (pieces s) in
        lexer_groups L' = butlast (lexer_groups L) @ (last (lexer_groups L) @ hd gs) # tl gs"
      if keep: "lx_mode L = KEEP_WHITESPACE"
    proof -
      have "lexer_groups L \<noteq> []"
        using "1.prems"(5) [OF keep] by (simp add: spans_ok_def lexer_groups_def)
      moreover have "lexer_groups L2 =
          (if k = None then lexer_groups L
           else if is_trivia k then butlast (lexer_groups L) @
             [last (lexer_groups L) @ [Token (the k) l (lx_position L)]]
           else lexer_groups L @ [[]])"
        using emit_groups(2) [of "advance (length l) L" opt k l] "1.prems"(3,5) keep text_l
          groups(2) [OF keep]
        by (simp add: L1_def Let_def lexer_groups_def spans_ok_def)
      ultimately show ?thesis
        using L'(4) keep by (auto simp: pieces L2 Let_def butlast_append)
    qed
    ultimately show ?thesis
      using L'(1) loop by metis
  qed
qed

subsection \<open>The token list of a source file\<close>

text \<open>A token together with the text attached before it, for all tokens in order.\<close>

definition TokenList_source :: "token_list \<Rightarrow> string" where
  "TokenList_source list =
     concat (map (\<lambda>i. concat (map tkn_value (the (TokenList_get_attached_tokens list i))) @
                      tkn_value (tl_tokens list ! i))
       [0..<length (tl_attachments list)])"

lemma tokenize_pieces:
  fixes content :: string
  defines "ps \<equiv> pieces (SourceFile_buffer content)"
  shows "\<exists>list. Lexer_tokenize opt (Lexer (SourceFile_buffer content) mode) = Some list \<and>
    tl_tokens list = tokens_of opt 0 ps @
      replicate TokenList_EOF_ZONE_SIZE (Token TKN_EOF '''' (length (pieces_text ps))) \<and>
    (mode = KEEP_WHITESPACE \<longrightarrow>
      length (tl_attachments list) = length (tokens_of opt 0 ps) + 1 \<and>
      (\<forall>i<length (tl_attachments list).
         TokenList_get_attached_tokens list i = Some (groups_of 0 ps ! i)))"
proof -
  define s where "s = SourceFile_buffer content"
  define L0 where "L0 = Lexer s mode"
  define L where "L = (if mode = KEEP_WHITESPACE
    then L0\<lparr>lx_attachments := [\<lparr>span_first = 0, span_count = 0\<rparr>]\<rparr> else L0)"
  have zone: "zone s"
    by (simp add: s_def zone_def SourceFile_buffer_def SourceFile_EOF_ZONE_SIZE_def numeral_2_eq_2)
  have L: "rest L = s" "lx_start_position L = lx_position L" "\<not> lx_completion_enabled L"
    "lx_mode L = KEEP_WHITESPACE \<Longrightarrow> spans_ok L" "lx_tokens L = []" "lx_position L = 0"
    "lx_mode L = mode" "mode = KEEP_WHITESPACE \<Longrightarrow> lexer_groups L = [[]]"
    by (cases mode; simp add: L_def L0_def Lexer_def rest_def spans_ok_def lexer_groups_def)+
  from tokenize_loop_pieces [OF L(1) zone L(2-4), of opt] obtain L' where
    L': "Lexer_tokenize_loop opt L = Some L'"
      "mark opt (lx_tokens L') = tokens_of opt 0 (pieces s)"
      "lx_position L' = length (pieces_text (pieces s))"
      "mode = KEEP_WHITESPACE \<Longrightarrow> lexer_groups L' = groups_of 0 (pieces s)"
    by (auto simp: L Let_def)
  have eq: "Lexer_tokenize opt (Lexer s mode) =
      Some \<lparr>tl_tokens = mark opt (lx_tokens L') @
              replicate TokenList_EOF_ZONE_SIZE (Token TKN_EOF '''' (lx_position L')),
            tl_attached_tokens = lx_attached_tokens L', tl_attachments = lx_attachments L'\<rparr>"
  proof -
    have "(let L1 = Lexer s mode \<lparr>lx_tokens := [], lx_start_position := lx_position (Lexer s mode)\<rparr>
           in if lx_mode L1 = KEEP_WHITESPACE then
                L1\<lparr>lx_attachments := lx_attachments L1 @ [\<lparr>span_first = 0, span_count = 0\<rparr>]\<rparr>
              else L1) = L"
      by (simp add: L_def L0_def Lexer_def)
    then show ?thesis
      using L'(1) by (simp add: Lexer_tokenize_def Let_def)
  qed
  have groups: "length (lx_attachments L') = length (tokens_of opt 0 (pieces s)) + 1"
    "\<forall>i<length (lx_attachments L').
       take (span_count (lx_attachments L' ! i))
         (drop (span_first (lx_attachments L' ! i)) (lx_attached_tokens L')) =
       groups_of 0 (pieces s) ! i" if keep: "mode = KEEP_WHITESPACE"
  proof -
    have "length (lexer_groups L') = length (tokens_of opt 0 (pieces s)) + 1"
      using L'(4) [OF keep] by (simp add: length_groups_of [of _ _ opt])
    then show "length (lx_attachments L') = length (tokens_of opt 0 (pieces s)) + 1"
      by (simp add: lexer_groups_def)
    show "\<forall>i<length (lx_attachments L').
       take (span_count (lx_attachments L' ! i))
         (drop (span_first (lx_attachments L' ! i)) (lx_attached_tokens L')) =
       groups_of 0 (pieces s) ! i"
      unfolding L'(4) [OF keep, symmetric] by (simp add: lexer_groups_def)
  qed
  show ?thesis
    using eq L'(2,3) groups
    by (auto simp: ps_def s_def [symmetric] TokenList_get_attached_tokens_def Let_def)
qed

text \<open>
  C29: Lexing a source file is total and reads nothing outside the buffer, in both modes.  The tokens
  are the pieces of the text that are neither whitespace nor comments nor characters that start no
  token, each with its type, its text, its position and, with optional semicolons, the mark of the
  end of a line (the whitespace behind it holds a line feed before the next token, or it is the last
  token), followed by two end tokens.  When the whitespace is kept, the attachment of the \<open>i\<close>-th
  token is the whitespace and the comments between the token before and it, in order.  Positions, which
  the code counts in \<open>unsigned\<close>, are unbounded in the model: a source file is below 4 GiB.
\<close>

theorem Lexer_tokenize_pieces:
  "\<exists>list. Lexer_tokenize opt (Lexer (SourceFile_buffer content) mode) = Some list \<and>
    tl_tokens list = tokens_of opt 0 (pieces (SourceFile_buffer content)) @
      replicate TokenList_EOF_ZONE_SIZE
        (Token TKN_EOF '''' (length (pieces_text (pieces (SourceFile_buffer content))))) \<and>
    (mode = KEEP_WHITESPACE \<longrightarrow>
      length (tl_attachments list) =
        length (tokens_of opt 0 (pieces (SourceFile_buffer content))) + 1 \<and>
      (\<forall>i<length (tl_attachments list).
         TokenList_get_attached_tokens list i =
           Some (groups_of 0 (pieces (SourceFile_buffer content)) ! i)))"
  by (rule tokenize_pieces)

theorem Lexer_tokenize_pieces_witness:
  "\<exists>list. Lexer_tokenize True (Lexer (SourceFile_buffer ''var x # n'') KEEP_WHITESPACE) = Some list \<and>
    length (tl_attachments list) = 3 \<and>
    map (map tkn_value) [the (TokenList_get_attached_tokens list 2)] = [['' '', ''# n'']]"
proof -
  have "pieces (SourceFile_buffer ''var x # n'') =
      [(Some (TKN_keyword TKN_VAR), ''var''), (Some TKN_WHITESPACE, '' ''),
       (Some TKN_IDENTIFIER, ''x''), (Some TKN_WHITESPACE, '' ''), (Some TKN_COMMENT, ''# n'')]"
    by code_simp
  then show ?thesis
    using Lexer_tokenize_pieces [of True "''var x # n''" KEEP_WHITESPACE]
    by (auto simp: is_trivia_def Let_def Token_def)
qed

subsection \<open>The tokens keep the text\<close>

definition starts_token :: "char \<Rightarrow> bool" where
  "starts_token c \<longleftrightarrow>
     Lexer_is_whitespace_char c \<or> Lexer_is_identifier_start_char c \<or>
     Lexer_is_number_start_char c \<or> c = CHR 0x27 \<or> c = CHR 0x22 \<or> c = CHR ''#'' \<or>
     c \<in> set ''+-*/%&|!^~><=(){}[];:,.?@''"

lemma punctuation_text_single:
  "list_all (\<lambda>c. list_ex (\<lambda>p. punctuation_text p = [c]) punctuations) ''+-*/%&|!^~><=(){}[];:,.?@''"
  by code_simp

lemma longest_punctuation_Some:
  assumes "c \<in> set ''+-*/%&|!^~><=(){}[];:,.?@''"
  shows "longest_punctuation (c # s) \<noteq> None"
proof -
  have "\<exists>p\<in>set punctuations. punctuation_text p = [c]"
    using assms punctuation_text_single unfolding list_all_iff list_ex_iff by blast
  then obtain p where "p \<in> set punctuations" "prefix (punctuation_text p) (c # s)"
    by auto
  then show ?thesis
    by (auto simp: longest_punctuation_def find_None_iff)
qed

lemma scan_None:
  assumes "fst (scan s) = None" and "s \<noteq> []"
  shows "\<not> starts_token (hd s)"
proof -
  obtain c r where s: "s = c # r"
    using assms(2) by (cases s) auto
  have "c \<notin> set ''+-*/%&|!^~><=(){}[];:,.?@''" if "longest_punctuation s = None"
  proof
    assume "c \<in> set ''+-*/%&|!^~><=(){}[];:,.?@''"
    from longest_punctuation_Some [OF this, of r] that s show False
      by simp
  qed
  with assms s show ?thesis
    by (auto simp: scan_def Let_def starts_token_def simp del: list.set split: if_splits option.splits)
qed

text \<open>
  What is inside of literals and comments, as an automaton that reads the text one character at a
  time and knows nothing of tokens: quotes open and close literals, in which a backslash takes
  the next character with it, and a hash opens a comment up to the end of the line.
\<close>

datatype text_context = In_code | In_literal char | In_escape char | In_comment

fun context_step :: "text_context \<Rightarrow> char \<Rightarrow> text_context" where
  "context_step In_code c =
     (if c = CHR 0x27 \<or> c = CHR 0x22 then In_literal c else if c = CHR ''#'' then In_comment else In_code)"
| "context_step (In_literal q) c =
     (if c = q then In_code else if c = CHR 0x5C then In_escape q else In_literal q)"
| "context_step (In_escape q) c = In_literal q"
| "context_step In_comment c = (if c = CHR 0x0A then In_code else In_comment)"

definition in_literal :: "text_context \<Rightarrow> bool" where
  "in_literal x \<longleftrightarrow> (case x of In_literal q \<Rightarrow> True | In_escape q \<Rightarrow> True | _ \<Rightarrow> False)"

text \<open>The text ends inside of a literal.\<close>

definition unterminated :: "string \<Rightarrow> bool" where
  "unterminated s \<longleftrightarrow> in_literal (foldl context_step In_code s)"

text \<open>The text without the characters outside of literals and comments that cannot start a token.\<close>

fun keep_tokens :: "text_context \<Rightarrow> string \<Rightarrow> string" where
  "keep_tokens x [] = []"
| "keep_tokens x (c # s) =
     (if x = In_code \<and> \<not> starts_token c then [] else [c]) @ keep_tokens (context_step x c) s"

lemma keep_tokens_append:
  "keep_tokens x (s @ t) = keep_tokens x s @ keep_tokens (foldl context_step x s) t"
  by (induction s arbitrary: x) auto

lemma keep_tokens_plain:
  assumes "\<forall>c\<in>set s. starts_token c \<and> c \<noteq> CHR 0x27 \<and> c \<noteq> CHR 0x22 \<and> c \<noteq> CHR ''#''"
  shows "keep_tokens In_code s = s" and "foldl context_step In_code s = In_code"
  using assms by (induction s) auto

lemma keep_tokens_comment:
  assumes "CHR 0x0A \<notin> set s"
  shows "keep_tokens In_comment s = s" and "foldl context_step In_comment s = In_comment"
  using assms by (induction s) auto

lemma literal_body_context:
  assumes "EOF_CHAR \<notin> set r" and "q \<noteq> CHR 0x5C" and "q \<noteq> EOF_CHAR"
  defines "b \<equiv> literal_body q (r @ [EOF_CHAR, EOF_CHAR])"
  shows "(\<exists>r'. r = b @ r' \<and> foldl context_step (In_literal q) b = In_code \<and> keep_tokens (In_literal q) b = b) \<or>
    b = r @ [EOF_CHAR] \<and> in_literal (foldl context_step (In_literal q) r) \<and> keep_tokens (In_literal q) r = r"
  using assms(1) unfolding b_def
proof (induction "length r" arbitrary: r rule: less_induct)
  case less
  have eof: "EOF_CHAR \<noteq> CHR 0x5C" by (simp add: EOF_CHAR_def)
  show ?case
  proof (cases r)
    case Nil
    then show ?thesis by (simp add: in_literal_def)
  next
    case r: (Cons c r1)
    consider (close) "c = q" | (escape) "c = CHR 0x5C" "c \<noteq> q" | (plain) "c \<noteq> CHR 0x5C" "c \<noteq> q" by blast
    then show ?thesis
    proof cases
      case close
      then show ?thesis using r by simp
    next
      case plain
      then show ?thesis using less.hyps [of r1] less.prems r by auto
    next
      case escape
      show ?thesis
      proof (cases r1)
        case Nil
        then show ?thesis using escape r eof by (simp add: in_literal_def)
      next
        case (Cons d r2)
        then show ?thesis using less.hyps [of r2] less.prems r escape by auto
      qed
    qed
  qed
qed

lemma prefix_before_end:
  assumes "prefix l (u @ [EOF_CHAR, EOF_CHAR])" and "EOF_CHAR \<notin> set l"
  shows "prefix l u"
  using assms by (auto simp: prefix_append prefix_Cons Cons_eq_append_conv)

lemma takeWhile_stop: "takeWhile P (l @ d # t) = l \<Longrightarrow> \<not> P d"
  by (induction l) (auto split: if_splits)

lemma number_lexeme_chars: "c \<in> set (number_lexeme s) \<Longrightarrow> Lexer_is_number_char c"
  by (induction s rule: number_lexeme.induct) (auto split: if_splits)

lemma punctuation_text_chars: "set (punctuation_text p) \<subseteq> set ''+-*/%&|!^~><=(){}[];:,.?@''"
  by (cases p) simp_all

definition plain_char :: "char \<Rightarrow> bool" where
  "plain_char c \<longleftrightarrow> Lexer_is_whitespace_char c \<or> Lexer_is_identifier_char c \<or> Lexer_is_number_char c \<or>
    c \<in> set ''+-*/%&|!^~><=(){}[];:,.?@''"

lemma plain_charI:
  "Lexer_is_whitespace_char c \<Longrightarrow> plain_char c" "Lexer_is_identifier_char c \<Longrightarrow> plain_char c"
  "Lexer_is_number_char c \<Longrightarrow> plain_char c" "c \<in> set ''+-*/%&|!^~><=(){}[];:,.?@'' \<Longrightarrow> plain_char c"
  by (simp_all only: plain_char_def simp_thms)

lemma all_plain_chars:
  "list_all (\<lambda>c. plain_char c \<longrightarrow>
     starts_token c \<and> c \<noteq> CHR 0x27 \<and> c \<noteq> CHR 0x22 \<and> c \<noteq> CHR ''#'' \<and> c \<noteq> EOF_CHAR) (enum_class.enum :: char list)"
  by code_simp

lemma plain_chars:
  assumes "plain_char c"
  shows "starts_token c \<and> c \<noteq> CHR 0x27 \<and> c \<noteq> CHR 0x22 \<and> c \<noteq> CHR ''#'' \<and> c \<noteq> EOF_CHAR"
  using assms all_plain_chars by (simp add: list_all_iff enum_UNIV)

text \<open>A piece of plain characters that is read from the text ends before the end characters.\<close>

lemma plain_piece:
  assumes "prefix l (u @ [EOF_CHAR, EOF_CHAR])" and "\<forall>c\<in>set l. plain_char c"
  shows "\<exists>u'. u = l @ u' \<and> keep_tokens In_code l = l \<and> foldl context_step In_code l = In_code"
proof -
  have l: "\<forall>c\<in>set l. starts_token c \<and> c \<noteq> CHR 0x27 \<and> c \<noteq> CHR 0x22 \<and> c \<noteq> CHR ''#'' \<and> c \<noteq> EOF_CHAR"
    using assms(2) plain_chars by blast
  then have "prefix l u" using prefix_before_end [OF assms(1)] by blast
  then show ?thesis using keep_tokens_plain [of l] l by (auto simp: prefix_def)
qed

text \<open>A piece of a text that goes on with \<open>u'\<close>, or with nothing but the end characters.\<close>

lemma scan_context:
  assumes "scan (u @ [EOF_CHAR, EOF_CHAR]) = (k, l)" and "u \<noteq> []" and "EOF_CHAR \<notin> set u"
  shows "(\<exists>u'. u = l @ u' \<and> keep_tokens In_code l = (if k = None then [] else l) \<and>
            (foldl context_step In_code l = In_code \<or>
             foldl context_step In_code l = In_comment \<and> (u' = [] \<or> hd u' = CHR 0x0A))) \<or>
         l = u @ [EOF_CHAR] \<and> k \<noteq> None \<and> keep_tokens In_code u = u \<and> unterminated u"
proof -
  let ?s = "u @ [EOF_CHAR, EOF_CHAR]"
  obtain c r where u: "u = c # r" using assms(2) by (cases u) auto
  have pre: "prefix l ?s" using scan_piece [OF assms(1)] by simp
  have plain: ?thesis if "k \<noteq> None" and "\<forall>d\<in>set l. plain_char d"
    using plain_piece [OF pre that(2)] that(1) by auto
  consider (white) "Lexer_is_whitespace_char c"
    | (word) "\<not> Lexer_is_whitespace_char c" "Lexer_is_identifier_start_char c"
    | (number) "\<not> Lexer_is_whitespace_char c" "\<not> Lexer_is_identifier_start_char c"
        "Lexer_is_number_start_char c"
    | (literal) "\<not> Lexer_is_whitespace_char c" "\<not> Lexer_is_identifier_start_char c"
        "\<not> Lexer_is_number_start_char c" "c = CHR 0x27 \<or> c = CHR 0x22"
    | (comment) "\<not> Lexer_is_whitespace_char c" "\<not> Lexer_is_identifier_start_char c"
        "\<not> Lexer_is_number_start_char c" "c = CHR ''#''"
    | (other) "\<not> Lexer_is_whitespace_char c" "\<not> Lexer_is_identifier_start_char c"
        "\<not> Lexer_is_number_start_char c" "c \<noteq> CHR 0x27" "c \<noteq> CHR 0x22" "c \<noteq> CHR ''#''"
    by blast
  then show ?thesis
  proof cases
    case white
    then have "k \<noteq> None" "l = takeWhile Lexer_is_whitespace_char ?s"
      using assms(1) by (auto simp: u scan_def Let_def)
    then show ?thesis by (intro plain ballI plain_charI(1)) (auto dest: set_takeWhileD)
  next
    case word
    then have "k \<noteq> None" "l = takeWhile Lexer_is_identifier_char ?s"
      using assms(1) by (auto simp: u scan_def Let_def)
    then show ?thesis by (intro plain ballI plain_charI(2)) (auto dest: set_takeWhileD)
  next
    case number
    then have "k \<noteq> None" "l = number_lexeme ?s"
      using assms(1) by (auto simp: u scan_def Let_def)
    then show ?thesis by (intro plain ballI plain_charI(3)) (auto dest: number_lexeme_chars)
  next
    case literal
    let ?b = "literal_body c (r @ [EOF_CHAR, EOF_CHAR])"
    have l: "k \<noteq> None" "l = c # ?b" using assms(1) literal by (auto simp: u scan_def Let_def)
    have "EOF_CHAR \<notin> set r" "c \<noteq> CHR 0x5C" "c \<noteq> EOF_CHAR"
      using literal(4) assms(3) by (auto simp: u EOF_CHAR_def)
    note body = literal_body_context [OF this]
    have "context_step In_code c = In_literal c" "starts_token c"
      using literal(4) by (auto simp: starts_token_def)
    then have step: "keep_tokens In_code (c # t) = c # keep_tokens (In_literal c) t"
      "foldl context_step In_code (c # t) = foldl context_step (In_literal c) t" for t
      by simp_all
    from body show ?thesis
    proof
      assume "\<exists>r'. r = ?b @ r' \<and> foldl context_step (In_literal c) ?b = In_code \<and>
        keep_tokens (In_literal c) ?b = ?b"
      then obtain r' where "r = ?b @ r'" "foldl context_step (In_literal c) ?b = In_code"
        "keep_tokens (In_literal c) ?b = ?b" by blast
      then have "u = l @ r' \<and> keep_tokens In_code l = (if k = None then [] else l) \<and>
          foldl context_step In_code l = In_code"
        unfolding u l(2) step by (simp add: l(1))
      then show ?thesis by blast
    next
      assume "?b = r @ [EOF_CHAR] \<and> in_literal (foldl context_step (In_literal c) r) \<and>
        keep_tokens (In_literal c) r = r"
      then have "l = u @ [EOF_CHAR] \<and> k \<noteq> None \<and> keep_tokens In_code u = u \<and> unterminated u"
        unfolding u l(2) step unterminated_def by (simp add: l(1))
      then show ?thesis by blast
    qed
  next
    case comment
    have l: "k \<noteq> None" "l = takeWhile (\<lambda>d. d \<noteq> CHR 0x0A \<and> d \<noteq> EOF_CHAR) ?s"
      using assms(1) comment by (auto simp: u scan_def Let_def)
    define l' where "l' = takeWhile (\<lambda>d. d \<noteq> CHR 0x0A \<and> d \<noteq> EOF_CHAR) (r @ [EOF_CHAR, EOF_CHAR])"
    have l': "l = CHR ''#'' # l'" using l(2) comment(4) by (simp add: u l'_def EOF_CHAR_def)
    have "CHR 0x0A \<notin> set l'" "EOF_CHAR \<notin> set l" by (auto simp: l(2) l'_def dest: set_takeWhileD)
    then obtain u' where u': "u = l @ u'" using prefix_before_end [OF pre] by (auto simp: prefix_def)
    have "starts_token (CHR ''#'')" by (simp add: starts_token_def)
    moreover have "u' = [] \<or> hd u' = CHR 0x0A"
    proof (cases u')
      case (Cons d u'')
      have "takeWhile (\<lambda>d. d \<noteq> CHR 0x0A \<and> d \<noteq> EOF_CHAR) (l @ d # u'' @ [EOF_CHAR, EOF_CHAR]) = l"
        using l(2) u' Cons by simp
      then have "\<not> (d \<noteq> CHR 0x0A \<and> d \<noteq> EOF_CHAR)"
        by (rule takeWhile_stop)
      moreover have "d \<noteq> EOF_CHAR" using assms(3) u' Cons by auto
      ultimately show ?thesis using Cons by simp
    qed simp
    ultimately show ?thesis
      using keep_tokens_comment [OF \<open>CHR 0x0A \<notin> set l'\<close>] l(1) u' by (auto simp: l')
  next
    case other
    show ?thesis
    proof (cases "longest_punctuation ?s")
      case None
      then have "k = None" "l = [c]" using assms(1) other by (auto simp: u scan_def Let_def)
      moreover have "c \<notin> set ''+-*/%&|!^~><=(){}[];:,.?@''"
      proof
        assume "c \<in> set ''+-*/%&|!^~><=(){}[];:,.?@''"
        from longest_punctuation_Some [OF this, of "r @ [EOF_CHAR, EOF_CHAR]"] None show False
          by (simp add: u)
      qed
      then have "\<not> starts_token c" using other unfolding starts_token_def by blast
      moreover have "context_step In_code c = In_code" using other by simp
      ultimately show ?thesis by (simp add: u)
    next
      case (Some p)
      then have l: "k \<noteq> None" "l = punctuation_text p" using assms(1) other by (auto simp: u scan_def Let_def)
      have "plain_char d" if "d \<in> set l" for d
        using that punctuation_text_chars [of p] unfolding l(2) by (rule plain_charI(4) [OF subsetD, rotated])
      then show ?thesis using plain l(1) by blast
    qed
  qed
qed

lemma keep_tokens_line_end:
  assumes "s = [] \<or> hd s = CHR 0x0A"
  shows "keep_tokens In_comment s = keep_tokens In_code s"
    and "in_literal (foldl context_step In_comment s) \<longleftrightarrow> in_literal (foldl context_step In_code s)"
proof -
  have "starts_token (CHR 0x0A)" by (simp add: starts_token_def Lexer_is_whitespace_char_def)
  then show "keep_tokens In_comment s = keep_tokens In_code s"
    "in_literal (foldl context_step In_comment s) \<longleftrightarrow> in_literal (foldl context_step In_code s)"
    using assms by (cases s; auto simp: in_literal_def)+
qed

lemma pieces_keep_tokens:
  assumes "EOF_CHAR \<notin> set u"
  shows "concat (map snd (filter (\<lambda>p. fst p \<noteq> None) (pieces (u @ [EOF_CHAR, EOF_CHAR])))) =
    keep_tokens In_code u @ (if unterminated u then [EOF_CHAR] else [])"
  using assms
proof (induction "length u" arbitrary: u rule: less_induct)
  case less
  let ?eof = "[EOF_CHAR, EOF_CHAR]"
  show ?case
  proof (cases "u = []")
    case True
    then show ?thesis by (simp add: pieces.simps unterminated_def in_literal_def)
  next
    case False
    obtain k l where kl: "scan (u @ ?eof) = (k, l)" by (cases "scan (u @ ?eof)")
    have hd: "hd (u @ ?eof) \<noteq> EOF_CHAR" using False less.prems by (cases u) auto
    have pieces: "pieces (u @ ?eof) = (k, l) # pieces (drop (length l) (u @ ?eof))"
      using hd False kl by (simp add: pieces.simps [of "u @ ?eof"])
    have l: "l \<noteq> []" using scan_piece [OF kl] by simp
    from scan_context [OF kl False less.prems] show ?thesis
    proof
      assume "\<exists>u'. u = l @ u' \<and> keep_tokens In_code l = (if k = None then [] else l) \<and>
            (foldl context_step In_code l = In_code \<or>
             foldl context_step In_code l = In_comment \<and> (u' = [] \<or> hd u' = CHR 0x0A))"
      then obtain u' where u: "u = l @ u'" and keep: "keep_tokens In_code l = (if k = None then [] else l)"
        and ctx: "foldl context_step In_code l = In_code \<or>
          foldl context_step In_code l = In_comment \<and> (u' = [] \<or> hd u' = CHR 0x0A)" by blast
      have "keep_tokens In_code u = keep_tokens In_code l @ keep_tokens In_code u'"
        "unterminated u \<longleftrightarrow> unterminated u'"
        using ctx keep_tokens_line_end [of u'] by (auto simp: u keep_tokens_append unterminated_def)
      moreover have "pieces (u @ ?eof) = (k, l) # pieces (u' @ ?eof)" unfolding pieces by (simp add: u)
      ultimately show ?thesis
        using less.hyps [of u'] less.prems l keep by (simp add: u)
    next
      assume "l = u @ [EOF_CHAR] \<and> k \<noteq> None \<and> keep_tokens In_code u = u \<and> unterminated u"
      then show ?thesis by (auto simp: pieces pieces.simps [of "[EOF_CHAR]"])
    qed
  qed
qed

text \<open>Groups and tokens in turn are the pieces that were kept.\<close>

lemma weave_pieces:
  assumes "tkn_value e = []"
  shows "concat (map2 (\<lambda>g t. concat (map tkn_value g) @ tkn_value t)
      (groups_of pos ps) (tokens_of opt pos ps @ e # es)) =
    concat (map snd (filter (\<lambda>p. fst p \<noteq> None) ps))"
proof (induction pos ps rule: groups_of.induct)
  case (2 pos k l ps)
  obtain g gs where "groups_of (pos + length l) ps = g # gs"
    by (cases "groups_of (pos + length l) ps") auto
  moreover obtain t ts where "tokens_of opt (pos + length l) ps @ e # es = t # ts"
    by (cases "tokens_of opt (pos + length l) ps") auto
  ultimately show ?case
    using 2 by (auto simp: Let_def is_trivia_def Token_def)
qed (simp add: assms)

lemma map_nth_map2:
  "length xs \<le> length ys \<Longrightarrow> map (\<lambda>i. f (xs ! i) (ys ! i)) [0..<length xs] = map2 f xs ys"
  by (rule nth_equalityI) auto

lemma TokenList_source_pieces:
  assumes "tl_tokens list = tokens_of opt 0 ps @ e # es" and "tkn_value e = []"
    and "length (tl_attachments list) = length (tokens_of opt 0 ps) + 1"
    and "\<forall>i<length (tl_attachments list).
      TokenList_get_attached_tokens list i = Some (groups_of 0 ps ! i)"
  shows "TokenList_source list = concat (map snd (filter (\<lambda>p. fst p \<noteq> None) ps))"
proof -
  have len: "length (tl_attachments list) = length (groups_of 0 ps)"
    using assms(3) by (simp add: length_groups_of [of _ _ opt])
  have "TokenList_source list =
      concat (map (\<lambda>i. concat (map tkn_value (groups_of 0 ps ! i)) @
        tkn_value ((tokens_of opt 0 ps @ e # es) ! i)) [0..<length (groups_of 0 ps)])"
    unfolding TokenList_source_def using assms(1,4) len by (intro arg_cong [of _ _ concat]) auto
  also have "\<dots> = concat (map2 (\<lambda>g t. concat (map tkn_value g) @ tkn_value t)
      (groups_of 0 ps) (tokens_of opt 0 ps @ e # es))"
    by (subst map_nth_map2 [symmetric]) (simp_all add: length_groups_of [of _ _ opt])
  finally show ?thesis
    by (simp only: weave_pieces [OF assms(2)])
qed

lemma tokens_of_scan:
  assumes "t \<in> set (tokens_of opt (length pre) (pieces s))"
  shows "\<exists>s'. drop (tkn_position t) (pre @ s) = s' \<and> s' \<noteq> [] \<and> hd s' \<noteq> EOF_CHAR \<and>
    scan s' = (Some (tkn_type t), tkn_value t)"
  using assms
proof (induction s arbitrary: pre rule: pieces.induct)
  case (1 s)
  then have s: "s \<noteq> []" "hd s \<noteq> EOF_CHAR"
    by (auto simp: pieces.simps [of s] split: if_splits)
  obtain k l where kl: "scan s = (k, l)"
    by (cases "scan s")
  obtain s' where s': "s = l @ s'"
    using scan_piece [OF kl s(1)] by (auto simp: prefix_def)
  have "t \<in> set (tokens_of opt (length (pre @ l)) (pieces s')) \<or>
      k \<noteq> None \<and> t = (Token (the k) l (length pre))\<lparr>tkn_end_of_line := opt \<and> line_ends (pieces s')\<rparr>"
    using "1.prems" s kl s' by (auto simp: pieces.simps [of "l @ s'"] split: if_splits)
  then show ?case
  proof
    assume "t \<in> set (tokens_of opt (length (pre @ l)) (pieces s'))"
    then show ?thesis
      using "1.IH" [of "pre @ l"] s kl s' by simp
  next
    assume "k \<noteq> None \<and>
      t = (Token (the k) l (length pre))\<lparr>tkn_end_of_line := opt \<and> line_ends (pieces s')\<rparr>"
    then show ?thesis
      using s kl by (auto simp: Token_def)
  qed
qed

text \<open>
  C30: The token list keeps the source text.  Every token of either mode holds the text at its
  position.  When whitespace is kept and the source has no NUL, the attached and the proper tokens in
  order spell the source without the characters that start no token, and of those only the ones
  outside of literals and comments are lost: a backslash or a byte beyond ASCII inside of
  them stays.  When the source ends inside of a literal, the token of that literal takes the first end
  character of the buffer with it; in all other cases nothing is added.
\<close>

theorem Lexer_lossless:
  "\<exists>list. Lexer_tokenize opt (Lexer (SourceFile_buffer content) mode) = Some list \<and>
    (\<forall>t\<in>set (tl_tokens list).
       take (length (tkn_value t)) (drop (tkn_position t) (SourceFile_buffer content)) = tkn_value t) \<and>
    (mode = KEEP_WHITESPACE \<and> EOF_CHAR \<notin> set content \<longrightarrow>
       TokenList_source list =
         keep_tokens In_code content @ (if unterminated content then [EOF_CHAR] else []))"
proof -
  define s where "s = SourceFile_buffer content"
  define e where "e = Token TKN_EOF '''' (length (pieces_text (pieces s)))"
  obtain list where list: "Lexer_tokenize opt (Lexer s mode) = Some list"
    "tl_tokens list = tokens_of opt 0 (pieces s) @ [e, e]"
    "mode = KEEP_WHITESPACE \<Longrightarrow>
       length (tl_attachments list) = length (tokens_of opt 0 (pieces s)) + 1 \<and>
       (\<forall>i<length (tl_attachments list).
          TokenList_get_attached_tokens list i = Some (groups_of 0 (pieces s) ! i))"
    using tokenize_pieces [of opt content mode]
    by (auto simp: s_def e_def TokenList_EOF_ZONE_SIZE_def numeral_2_eq_2)
  have e: "tkn_value e = []"
    by (simp add: e_def Token_def)
  have positions: "take (length (tkn_value t)) (drop (tkn_position t) s) = tkn_value t"
    if "t \<in> set (tl_tokens list)" for t
  proof (cases "t = e")
    case False
    then have "t \<in> set (tokens_of opt (length []) (pieces s))"
      using that list(2) by auto
    from tokens_of_scan [OF this] show ?thesis
      using scan_piece [of "drop (tkn_position t) s"] by (auto simp: prefix_def)
  qed (simp add: e)
  have "TokenList_source list = keep_tokens In_code content @ (if unterminated content then [EOF_CHAR] else [])"
    if keep: "mode = KEEP_WHITESPACE" and content: "EOF_CHAR \<notin> set content"
  proof -
    have s: "s = content @ [EOF_CHAR, EOF_CHAR]"
      by (simp add: s_def SourceFile_buffer_def SourceFile_EOF_ZONE_SIZE_def numeral_2_eq_2)
    have "TokenList_source list = concat (map snd (filter (\<lambda>p. fst p \<noteq> None) (pieces s)))"
      using TokenList_source_pieces [of list opt "pieces s" e "[e]"] list(2,3) keep e by simp
    then show ?thesis
      using pieces_keep_tokens [OF content] by (simp only: s)
  qed
  with list(1) positions show ?thesis
    unfolding s_def by blast
qed

text \<open>
  A literal with an escaped quote and bytes that start no token, and a comment with a backslash; the same
  text with a stray backslash in the code; and an unterminated literal.
\<close>

theorem Lexer_lossless_witness:
  "let quote = CHR 0x22; backslash = CHR 0x5C;
       a = ''a = '' @ [quote, CHR 0xC3, backslash, quote, quote] @ '' #'' @ [backslash];
       b = backslash # a;
       c = ''b '' @ [quote]
   in (\<exists>list. Lexer_tokenize True (Lexer (SourceFile_buffer a) KEEP_WHITESPACE) = Some list \<and>
         TokenList_source list = a) \<and>
      (\<exists>list. Lexer_tokenize True (Lexer (SourceFile_buffer b) KEEP_WHITESPACE) = Some list \<and>
         TokenList_source list = a) \<and>
      (\<exists>list. Lexer_tokenize True (Lexer (SourceFile_buffer c) KEEP_WHITESPACE) = Some list \<and>
         TokenList_source list = c @ [EOF_CHAR])"
proof -
  define a where "a = ''a = '' @ [CHR 0x22, CHR 0xC3, CHR 0x5C, CHR 0x22, CHR 0x22] @ '' #'' @ [CHR 0x5C]"
  define b where "b = CHR 0x5C # a"
  define c where "c = ''b '' @ [CHR 0x22]"
  have a: "EOF_CHAR \<notin> set a" "keep_tokens In_code a = a" "\<not> unterminated a"
    unfolding a_def by code_simp+
  have b: "EOF_CHAR \<notin> set b" "keep_tokens In_code b = a" "\<not> unterminated b"
    unfolding b_def a_def by code_simp+
  have c: "EOF_CHAR \<notin> set c" "keep_tokens In_code c = c" "unterminated c"
    unfolding c_def by code_simp+
  have spells: "\<exists>list. Lexer_tokenize True (Lexer (SourceFile_buffer t) KEEP_WHITESPACE) = Some list \<and>
      TokenList_source list = keep_tokens In_code t @ (if unterminated t then [EOF_CHAR] else [])"
    if "EOF_CHAR \<notin> set t" for t
    using Lexer_lossless [of True t KEEP_WHITESPACE] that by blast
  show ?thesis
    unfolding Let_def a_def [symmetric] b_def [symmetric] c_def [symmetric]
    using spells [OF a(1)] spells [OF b(1)] spells [OF c(1)]
    by (simp only: a b c if_True if_False append_Nil2 simp_thms)
qed

subsection \<open>The spelling of the tokens\<close>

lemma punctuation_text_inj: "punctuation_text p = punctuation_text q \<Longrightarrow> p = q"
proof -
  have "map_of (map (\<lambda>p. (punctuation_text p, p)) punctuations) (punctuation_text p) = Some p" for p
    by (cases p) (simp_all add: punctuations_def)
  then show "punctuation_text p = punctuation_text q \<Longrightarrow> p = q"
    by (metis option.inject)
qed

lemma punctuation_char_class:
  "list_all (\<lambda>c. \<not> Lexer_is_whitespace_char c \<and> \<not> Lexer_is_identifier_start_char c \<and>
     \<not> Lexer_is_number_start_char c \<and> c \<noteq> CHR 0x27 \<and> c \<noteq> CHR 0x22 \<and> c \<noteq> CHR ''#'' \<and>
     c \<noteq> EOF_CHAR) ''+-*/%&|!^~><=(){}[];:,.?@''"
  by code_simp

lemma punctuation_hd_class:
  "\<not> Lexer_is_whitespace_char (hd (punctuation_text p))"
  "\<not> Lexer_is_identifier_start_char (hd (punctuation_text p))"
  "\<not> Lexer_is_number_start_char (hd (punctuation_text p))"
  "hd (punctuation_text p) \<notin> {CHR 0x27, CHR 0x22, CHR ''#'', EOF_CHAR}"
  using punctuation_char_class punctuation_text_hd [of p] unfolding list_all_iff by blast+

lemma KEYWORDS_words:
  "list_all (\<lambda>(w, _). w \<noteq> [] \<and> Lexer_is_identifier_start_char (hd w)) KEYWORDS"
  "distinct (map fst KEYWORDS)"
  by code_simp+

lemma KEYWORDS_Some: "map_of KEYWORDS w = Some k \<longleftrightarrow> (w, k) \<in> set KEYWORDS"
  using KEYWORDS_words(2) by simp

lemma longest_punctuation_longest:
  assumes "longest_punctuation s = Some p" and "prefix (punctuation_text q) s"
  shows "length (punctuation_text q) \<le> length (punctuation_text p)"
proof -
  have desc: "sorted_wrt (\<lambda>p q. length (punctuation_text q) \<le> length (punctuation_text p)) punctuations"
    by code_simp
  have "q \<in> set punctuations"
    by (cases q) (simp_all add: punctuations_def)
  then obtain j where j: "j < length punctuations" "punctuations ! j = q"
    by (auto simp: in_set_conv_nth)
  obtain i where i: "i < length punctuations" "punctuations ! i = p"
    "\<forall>k<i. \<not> prefix (punctuation_text (punctuations ! k)) s"
    using assms(1) by (auto simp: longest_punctuation_def find_Some_iff)
  have "i \<le> j"
    using i(3) j(2) assms(2) by (metis not_le)
  then show ?thesis
    using sorted_wrt_nth_less [OF desc, of i j] i j by (cases "i = j") auto
qed

text \<open>What the first character of a piece tells about its type.\<close>

lemma scan_word:
  assumes "Lexer_is_identifier_start_char c"
  shows "scan (c # r) = (Some (word_type (takeWhile Lexer_is_identifier_char (c # r))),
    takeWhile Lexer_is_identifier_char (c # r))"
proof -
  have "\<not> Lexer_is_whitespace_char c"
    using assms by (auto simp: Lexer_is_whitespace_char_def Lexer_is_identifier_start_char_def)
  with assms show ?thesis
    by (simp add: scan_def Let_def)
qed

lemma scan_not_word:
  assumes "scan (c # r) = (Some type, v)" and "\<not> Lexer_is_identifier_start_char c"
  shows "(\<forall>k. type \<noteq> TKN_keyword k) \<and> type \<noteq> TKN_IDENTIFIER \<and>
    (\<forall>p. type = TKN_punctuation p \<longleftrightarrow> v = punctuation_text p)"
proof (cases "c \<in> set ''+-*/%&|!^~><=(){}[];:,.?@''")
  case True
  have c: "\<not> Lexer_is_whitespace_char c" "\<not> Lexer_is_number_start_char c"
    "c \<noteq> CHR 0x27" "c \<noteq> CHR 0x22" "c \<noteq> CHR ''#''"
    using True punctuation_char_class unfolding list_all_iff by blast+
  with assms obtain p where "type = TKN_punctuation p" "v = punctuation_text p"
    by (auto simp: scan_def Let_def split: option.splits)
  then show ?thesis
    using punctuation_text_inj by auto
next
  case False
  have "prefix v (c # r)" "v \<noteq> []"
    using scan_piece [OF assms(1)] by auto
  then have "hd v = c"
    by (auto simp: prefix_Cons)
  then have "v \<noteq> punctuation_text p" for p
    using False punctuation_text_hd [of p] by auto
  moreover have "(\<forall>k. type \<noteq> TKN_keyword k) \<and> type \<noteq> TKN_IDENTIFIER \<and> (\<forall>p. type \<noteq> TKN_punctuation p)"
    using assms longest_punctuation_None [OF False, of r]
    by (auto simp: scan_def Let_def simp del: list.set split: if_splits)
  ultimately show ?thesis
    by blast
qed

definition well_spelled :: "string \<Rightarrow> token \<Rightarrow> bool" where
  "well_spelled buffer t \<longleftrightarrow>
     (\<forall>k. tkn_type t = TKN_keyword k \<longleftrightarrow> (tkn_value t, k) \<in> set KEYWORDS) \<and>
     (tkn_type t = TKN_IDENTIFIER \<longleftrightarrow>
        Lexer_is_identifier_start_char (hd (tkn_value t)) \<and> tkn_value t \<notin> fst ` set KEYWORDS) \<and>
     (\<forall>p. tkn_type t = TKN_punctuation p \<longleftrightarrow> tkn_value t = punctuation_text p) \<and>
     (Lexer_is_identifier_start_char (hd (tkn_value t)) \<longrightarrow>
        list_all Lexer_is_identifier_char (tkn_value t) \<and>
        \<not> Lexer_is_identifier_char (buffer ! Token_end t)) \<and>
     (\<forall>p q. tkn_type t = TKN_punctuation p \<and>
        prefix (punctuation_text q) (drop (tkn_position t) buffer) \<longrightarrow>
        length (punctuation_text q) \<le> length (tkn_value t))"

lemma length_takeWhile_less:
  "x \<in> set xs \<Longrightarrow> \<not> P x \<Longrightarrow> length (takeWhile P xs) < length xs"
  by (induction xs) auto

lemma scan_well_spelled:
  assumes "scan (drop (tkn_position t) s) = (Some (tkn_type t), tkn_value t)"
    and "drop (tkn_position t) s \<noteq> []" and "last s = EOF_CHAR"
  shows "well_spelled s t"
proof -
  obtain c r where cr: "drop (tkn_position t) s = c # r"
    using assms(2) by (cases "drop (tkn_position t) s") auto
  note sc = assms(1) [unfolded cr]
  have v: "prefix (tkn_value t) (c # r)" "tkn_value t \<noteq> []" "hd (tkn_value t) = c"
    using scan_piece [OF sc] by (auto simp: prefix_Cons)
  show ?thesis
  proof (cases "Lexer_is_identifier_start_char c")
    case True
    let ?w = "takeWhile Lexer_is_identifier_char (c # r)"
    have t: "tkn_type t = word_type ?w \<and> tkn_value t = ?w"
      using sc [unfolded scan_word [OF True, of r]] by (metis prod.inject option.inject)
    have no_punct: "?w \<noteq> punctuation_text p" for p
      using punctuation_hd_class(2) [of p] True identifier_start_chars [OF True]
      by (metis list.sel(1) takeWhile.simps(2))
    have "last (c # r) = EOF_CHAR"
      using assms(3) cr by (metis last_drop drop_eq_Nil list.distinct(1) not_le)
    then have "EOF_CHAR \<in> set (c # r)"
      by (metis last_in_set list.distinct(1))
    then have "length ?w < length (c # r)"
      using eof_class(2) by (rule length_takeWhile_less)
    then have "\<not> Lexer_is_identifier_char ((c # r) ! length ?w)"
      by (rule nth_length_takeWhile)
    moreover have "s ! (tkn_position t + length ?w) = (c # r) ! length ?w"
      using cr by (metis assms(2) drop_eq_Nil linorder_le_cases nth_drop)
    ultimately have "\<not> Lexer_is_identifier_char (s ! Token_end t)"
      by (simp only: Token_end_def t simp_thms)
    moreover have "list_all Lexer_is_identifier_char ?w"
      by (auto simp: list_all_iff dest: set_takeWhileD)
    moreover have "(tkn_type t = TKN_keyword k) = (map_of KEYWORDS ?w = Some k)" for k
      by (simp add: t word_type_def split: option.split)
    moreover have "(tkn_type t = TKN_IDENTIFIER) = (?w \<notin> fst ` set KEYWORDS)"
      by (auto simp: t word_type_def map_of_eq_None_iff split: option.split dest: map_of_SomeD
          intro: rev_image_eqI)
    moreover have "tkn_type t \<noteq> TKN_punctuation p" for p
      by (simp add: t word_type_def split: option.split)
    ultimately show ?thesis
      unfolding well_spelled_def KEYWORDS_Some [symmetric] v(3) using True no_punct t by simp
  next
    case False
    have "tkn_value t \<notin> fst ` set KEYWORDS"
      using KEYWORDS_words(1) v(3) False by (auto simp: list_all_iff)
    moreover have "length (punctuation_text q) \<le> length (punctuation_text p)"
      if p: "tkn_type t = TKN_punctuation p" and "prefix (punctuation_text q) (c # r)" for p q
    proof -
      have "longest_punctuation (c # r) = Some p"
        using sc p by (auto simp: scan_def Let_def word_type_def split: if_splits option.splits)
      then show ?thesis
        using that(2) by (rule longest_punctuation_longest)
    qed
    ultimately show ?thesis
      using scan_not_word [OF sc False] False v(3) cr
      by (auto simp: well_spelled_def intro: rev_image_eqI)
  qed
qed

text \<open>
  C31: The types of the tokens follow from their spelling, by the longest match.  A token is a keyword
  exactly when its text is in the table of keywords, an identifier exactly when it starts like a word
  and is no keyword, a punctuation exactly when its text is that punctuation's.  A word is made of
  identifier characters and no further one follows it, and no longer punctuation starts where a
  punctuation stands.
\<close>

theorem Lexer_token_spelling:
  assumes "Lexer_tokenize opt (Lexer (SourceFile_buffer content) mode) = Some list"
    and "t \<in> set (tl_tokens list)" and "tkn_type t \<noteq> TKN_EOF"
  shows "well_spelled (SourceFile_buffer content) t"
proof -
  define s where "s = SourceFile_buffer content"
  have "tl_tokens list = tokens_of opt 0 (pieces s) @
      replicate TokenList_EOF_ZONE_SIZE (Token TKN_EOF '''' (length (pieces_text (pieces s))))"
    using tokenize_pieces [of opt content mode] assms(1) by (auto simp: s_def)
  then have "t \<in> set (tokens_of opt (length []) (pieces s))"
    using assms(2,3) by (auto simp: Token_def)
  from tokens_of_scan [OF this] have "scan (drop (tkn_position t) s) = (Some (tkn_type t), tkn_value t)"
    "drop (tkn_position t) s \<noteq> []"
    by auto
  moreover have "last s = EOF_CHAR"
    by (simp add: s_def SourceFile_buffer_def SourceFile_EOF_ZONE_SIZE_def numeral_2_eq_2)
  ultimately show ?thesis
    unfolding s_def by (rule scan_well_spelled)
qed

theorem Lexer_token_spelling_witness:
  "\<exists>list. Lexer_tokenize False (Lexer (SourceFile_buffer ''a>>=1'') COMPILATION) = Some list \<and>
     map (well_spelled (SourceFile_buffer ''a>>=1'')) (take 3 (tl_tokens list)) = [True, True, True] \<and>
     map tkn_value (take 3 (tl_tokens list)) = [''a'', ''>>='', ''1'']"
proof -
  have ps: "pieces (SourceFile_buffer ''a>>=1'') =
      [(Some TKN_IDENTIFIER, ''a''), (Some (TKN_punctuation TKN_SHR_EQ), ''>>=''),
       (Some TKN_LITERAL, ''1'')]"
    by code_simp
  obtain list where list: "Lexer_tokenize False (Lexer (SourceFile_buffer ''a>>=1'') COMPILATION) = Some list"
    "tl_tokens list = tokens_of False 0 (pieces (SourceFile_buffer ''a>>=1'')) @
      replicate TokenList_EOF_ZONE_SIZE
        (Token TKN_EOF '''' (length (pieces_text (pieces (SourceFile_buffer ''a>>=1'')))))"
    using tokenize_pieces [of False "''a>>=1''" COMPILATION] by auto
  then have tokens: "take 3 (tl_tokens list) =
      [Token TKN_IDENTIFIER ''a'' 0, Token (TKN_punctuation TKN_SHR_EQ) ''>>='' 1,
       Token TKN_LITERAL ''1'' 4]"
    unfolding ps by (simp add: is_trivia_def eval_nat_numeral)
  have "well_spelled (SourceFile_buffer ''a>>=1'') t" if "t \<in> set (take 3 (tl_tokens list))" for t
    using Lexer_token_spelling [OF list(1), of t] that tokens in_set_takeD [OF that]
    by (auto simp: Token_def)
  with list(1) tokens show ?thesis
    by (simp add: Token_def)
qed

end
