(* ===== verification/Sources.thy ===== *)
theory Sources
  imports Token_List "HOL-Library.Multiset" "HOL-Library.Sublist"
begin

section \<open>Module paths and edits of sources\<close>

text \<open>
  \<open>src/banjo/source/module_path.cpp\<close>, the dotted paths of modules, and \<open>source/edit.cpp\<close>, the edits
  that the formatter and the language server make in a source file.  Sizes and positions are \<open>nat\<close>
  (strings are shorter than 4 GiB).  An access outside a string is \<open>None\<close>.
\<close>

subsection \<open>Module paths\<close>

text \<open>\<open>std::string::rfind\<close>\<close>

definition string_rfind :: "char \<Rightarrow> string \<Rightarrow> nat option" where
  "string_rfind c s = find (\<lambda>i. s ! i = c) (rev [0..<length s])"

definition ModulePath_append :: "string \<Rightarrow> string \<Rightarrow> string" where
  "ModulePath_append path element = (if path \<noteq> [] then path @ ''.'' else path) @ element"

definition ModulePath :: "string list \<Rightarrow> string" where
  "ModulePath elements = foldl ModulePath_append [] elements"

definition ModulePath_is_empty :: "string \<Rightarrow> bool" where
  "ModulePath_is_empty path \<longleftrightarrow> path = []"

definition ModulePath_get_size :: "string \<Rightarrow> nat" where
  "ModulePath_get_size path =
     (if ModulePath_is_empty path then 0
      else foldl (\<lambda>n c. if c = CHR ''.'' then n + 1 else n) 1 path)"

definition ModulePath_to_string :: "string \<Rightarrow> string \<Rightarrow> string" where
  "ModulePath_to_string path delimiter =
     foldl (\<lambda>s c. if c = CHR ''.'' then s @ delimiter else s @ [c]) [] path"

definition ModulePath_name :: "string \<Rightarrow> string" where
  "ModulePath_name path =
     (case string_rfind (CHR ''.'') path of None \<Rightarrow> path | Some position \<Rightarrow> drop (position + 1) path)"

definition ModulePath_parent :: "string \<Rightarrow> string option" where
  "ModulePath_parent path =
     (case string_rfind (CHR ''.'') path of
        None \<Rightarrow> None | Some position \<Rightarrow> Some (ModulePath [take position path]))"

function ModulePath_common_loop :: "string \<Rightarrow> string \<Rightarrow> nat \<Rightarrow> nat \<Rightarrow> nat \<Rightarrow> nat" where
  "ModulePath_common_loop path other stop i depth =
     (if i < stop then
        if path ! i \<noteq> other ! i then depth
        else ModulePath_common_loop path other stop (i + 1)
               (if path ! i = CHR ''.'' \<or> i = stop - 1 then depth + 1 else depth)
      else depth)"
  by pat_completeness auto
termination
  by (relation "measure (\<lambda>(_, _, stop, i, _). stop - i)") auto

declare ModulePath_common_loop.simps [simp del]

definition ModulePath_num_common_ancestors :: "string \<Rightarrow> string \<Rightarrow> nat" where
  "ModulePath_num_common_ancestors path other =
     ModulePath_common_loop path other (min (length path) (length other)) 0 0"

function ModulePath_strip_loop :: "string \<Rightarrow> nat \<Rightarrow> nat \<Rightarrow> nat" where
  "ModulePath_strip_loop path n index =
     (if n > 0 \<and> index < length path then
        ModulePath_strip_loop path (if path ! index = CHR ''.'' then n - 1 else n) (index + 1)
      else index)"
  by pat_completeness auto
termination
  by (relation "measure (\<lambda>(path, _, index). length path - index)") auto

declare ModulePath_strip_loop.simps [simp del]

definition ModulePath_strip :: "string \<Rightarrow> nat \<Rightarrow> string" where
  "ModulePath_strip path n = ModulePath [drop (ModulePath_strip_loop path n 0) path]"

text \<open>The loop of \<open>operator[]\<close> that has no bound: reading at the end of the string view is undefined.\<close>

function ModulePath_skip :: "string \<Rightarrow> nat \<Rightarrow> nat option" where
  "ModulePath_skip path start =
     (if start < length path then
        if path ! start \<noteq> CHR ''.'' then ModulePath_skip path (start + 1) else Some start
      else None)"
  by pat_completeness auto
termination
  by (relation "measure (\<lambda>(path, start). length path - start)") auto

declare ModulePath_skip.simps [simp del]

function ModulePath_element_end :: "string \<Rightarrow> nat \<Rightarrow> nat" where
  "ModulePath_element_end path index =
     (if index < length path \<and> path ! index \<noteq> CHR ''.''
      then ModulePath_element_end path (index + 1) else index)"
  by pat_completeness auto
termination
  by (relation "measure (\<lambda>(path, index). length path - index)") auto

declare ModulePath_element_end.simps [simp del]

primrec ModulePath_start :: "string \<Rightarrow> nat \<Rightarrow> nat option" where
  "ModulePath_start path 0 = Some 0"
| "ModulePath_start path (Suc i) =
     do { start \<leftarrow> ModulePath_start path i;
          dot \<leftarrow> ModulePath_skip path start;
          Some (dot + 1) }"

definition ModulePath_get :: "string \<Rightarrow> nat \<Rightarrow> string option" where
  "ModulePath_get path index =
     do { start \<leftarrow> ModulePath_start path index;
          let stop = ModulePath_element_end path start;
          Some (take (stop - start) (drop start path)) }"

definition Iterator_get :: "string \<Rightarrow> nat \<Rightarrow> string" where
  "Iterator_get path index =
     take (ModulePath_element_end path index - index) (drop index path)"

function Iterator_next :: "string \<Rightarrow> nat \<Rightarrow> nat" where
  "Iterator_next path index =
     (if index \<ge> length path then index
      else if path ! index = CHR ''.'' then index + 1
      else Iterator_next path (index + 1))"
  by pat_completeness auto
termination
  by (relation "measure (\<lambda>(path, index). length path - index)") auto

declare Iterator_next.simps [simp del]

text \<open>Iterating over a path from \<open>begin\<close> to \<open>end\<close>.\<close>

lemma Iterator_next_less: "i < length path \<Longrightarrow> i < Iterator_next path i"
proof (induction path i rule: Iterator_next.induct)
  case (1 path i)
  have "i < Iterator_next path (i + 1)" if "path ! i \<noteq> CHR ''.''"
  proof (cases "i + 1 < length path")
    case True
    with "1.IH" "1.prems" that show ?thesis
      by simp
  next
    case False
    then show ?thesis
      by (simp add: Iterator_next.simps [of path "Suc i"])
  qed
  with "1.prems" show ?case
    by (simp add: Iterator_next.simps [of path i])
qed

function ModulePath_iterate :: "string \<Rightarrow> nat \<Rightarrow> string list" where
  "ModulePath_iterate path index =
     (if index < length path
      then Iterator_get path index # ModulePath_iterate path (Iterator_next path index) else [])"
  by pat_completeness auto
termination
  by (relation "measure (\<lambda>(path, index). length path - index)")
    (auto simp: diff_less_mono2 Iterator_next_less)

declare ModulePath_iterate.simps [simp del]

subsection \<open>Paths and their elements\<close>

text \<open>A path stands for its elements: nonempty strings without a dot, with dots in between.\<close>

fun dotted :: "string list \<Rightarrow> string" where
  "dotted [] = []"
| "dotted [e] = e"
| "dotted (e # f # es) = e @ CHR ''.'' # dotted (f # es)"

definition proper_element :: "string \<Rightarrow> bool" where
  "proper_element e \<longleftrightarrow> e \<noteq> [] \<and> CHR ''.'' \<notin> set e"

lemma dotted_not_empty: "list_all proper_element es \<Longrightarrow> es \<noteq> [] \<Longrightarrow> dotted es \<noteq> []"
  by (induction es rule: dotted.induct) (auto simp: proper_element_def)

lemma dotted_snoc: "es \<noteq> [] \<Longrightarrow> dotted (es @ [e]) = dotted es @ CHR ''.'' # e"
proof (induction es rule: dotted.induct)
  case (3 e f es)
  then show ?case
    by (cases es) simp_all
qed simp_all

lemma dotted_Cons: "es \<noteq> [] \<Longrightarrow> dotted (e # es) = e @ CHR ''.'' # dotted es"
  by (cases es) simp_all

lemma ModulePath_snoc [simp]: "ModulePath (es @ [e]) = ModulePath_append (ModulePath es) e"
  by (simp add: ModulePath_def)

lemma ModulePath_single [simp]: "ModulePath [e] = e"
  by (simp add: ModulePath_def ModulePath_append_def)

lemma ModulePath_dotted: "list_all proper_element es \<Longrightarrow> ModulePath es = dotted es"
proof (induction es rule: rev_induct)
  case (snoc e es)
  then show ?case
    using dotted_not_empty [of es]
    by (cases "es = []") (simp_all add: ModulePath_append_def dotted_snoc)
qed (simp add: ModulePath_def)

lemma foldl_count_dots:
  "foldl (\<lambda>n c. if c = CHR ''.'' then n + 1 else n) k s = k + length (filter ((=) (CHR ''.'')) s)"
  by (induction s arbitrary: k) auto

lemma proper_no_dots: "proper_element e \<Longrightarrow> filter ((=) (CHR ''.'')) e = []"
  by (auto simp: proper_element_def filter_empty_conv)

lemma dotted_dots:
  "list_all proper_element es \<Longrightarrow> es \<noteq> [] \<Longrightarrow>
   length (filter ((=) (CHR ''.'')) (dotted es)) + 1 = length es"
  by (induction es rule: dotted.induct) (auto simp: proper_no_dots)

lemma ModulePath_get_size_dotted:
  "list_all proper_element es \<Longrightarrow> ModulePath_get_size (dotted es) = length es"
  using dotted_dots [of es] dotted_not_empty [of es]
  by (cases "es = []") (simp_all add: ModulePath_get_size_def ModulePath_is_empty_def foldl_count_dots)

lemma foldl_delimiter:
  "foldl (\<lambda>s c. if c = CHR ''.'' then s @ d else s @ [c]) r s =
   r @ concat (map (\<lambda>c. if c = CHR ''.'' then d else [c]) s)"
  by (induction s arbitrary: r) auto

lemma proper_delimiter:
  "proper_element e \<Longrightarrow> concat (map (\<lambda>c. if c = CHR ''.'' then d else [c]) e) = e"
proof -
  have "CHR ''.'' \<notin> set s \<Longrightarrow> concat (map (\<lambda>c. if c = CHR ''.'' then d else [c]) s) = s" for s
    by (induction s) auto
  then show "proper_element e \<Longrightarrow> ?thesis"
    by (simp add: proper_element_def)
qed

fun joined :: "string \<Rightarrow> string list \<Rightarrow> string" where
  "joined d [] = []"
| "joined d [e] = e"
| "joined d (e # f # es) = e @ d @ joined d (f # es)"

lemma ModulePath_to_string_dotted:
  "list_all proper_element es \<Longrightarrow> ModulePath_to_string (dotted es) d = joined d es"
  unfolding ModulePath_to_string_def foldl_delimiter
  by (induction es rule: dotted.induct) (auto simp: proper_delimiter)

text \<open>The last dot.\<close>

lemma string_rfind_None: "c \<notin> set s \<Longrightarrow> string_rfind c s = None"
  by (auto simp: string_rfind_def find_None_iff in_set_conv_nth)

lemma find_append:
  "find P (xs @ ys) = (case find P xs of None \<Rightarrow> find P ys | Some x \<Rightarrow> Some x)"
  by (induction xs) auto

lemma string_rfind_last:
  assumes "c \<notin> set t"
  shows "string_rfind c (s @ c # t) = Some (length s)"
proof -
  have upt: "rev [0..<length (s @ c # t)] =
      rev [Suc (length s)..<length (s @ c # t)] @ length s # rev [0..<length s]"
    using upt_add_eq_append [of 0 "length s" "Suc (length t)"]
    by (simp add: upt_conv_Cons del: upt_Suc)
  have "(s @ c # t) ! i \<noteq> c" if "i \<in> set (rev [Suc (length s)..<length (s @ c # t)])" for i
  proof -
    have "(s @ c # t) ! i = t ! (i - Suc (length s))" "i - Suc (length s) < length t"
      using that by (auto simp: nth_append nth_Cons')
    with assms show ?thesis
      by (metis nth_mem)
  qed
  then have "find (\<lambda>i. (s @ c # t) ! i = c) (rev [Suc (length s)..<length (s @ c # t)]) = None"
    by (auto simp: find_None_iff)
  then show ?thesis
    unfolding string_rfind_def upt by (simp add: find_append)
qed

lemma ModulePath_last_dotted:
  assumes "list_all proper_element (es @ [e])"
  shows "ModulePath_name (dotted (es @ [e])) = e"
    and "ModulePath_parent (dotted (es @ [e])) = (if es = [] then None else Some (dotted es))"
proof -
  have e: "CHR ''.'' \<notin> set e"
    using assms by (simp add: proper_element_def)
  show "ModulePath_name (dotted (es @ [e])) = e"
    using string_rfind_None [OF e] string_rfind_last [OF e, of "dotted es"]
    by (cases "es = []") (simp_all add: ModulePath_name_def dotted_snoc)
  show "ModulePath_parent (dotted (es @ [e])) = (if es = [] then None else Some (dotted es))"
    using string_rfind_None [OF e] string_rfind_last [OF e, of "dotted es"]
    by (cases "es = []") (simp_all add: ModulePath_parent_def dotted_snoc)
qed

text \<open>The loops over the characters, from an index on.\<close>

lemma element_end_takeWhile:
  "i \<le> length path \<Longrightarrow>
   ModulePath_element_end path i = i + length (takeWhile ((\<noteq>) (CHR ''.'')) (drop i path))"
proof (induction path i rule: ModulePath_element_end.induct)
  case (1 path i)
  then show ?case
    by (cases "i < length path")
      (auto simp: ModulePath_element_end.simps [of path i]
        ModulePath_element_end.simps [of path "length path"] Cons_nth_drop_Suc [symmetric])
qed

lemma Iterator_get_takeWhile:
  "i \<le> length path \<Longrightarrow> Iterator_get path i = takeWhile ((\<noteq>) (CHR ''.'')) (drop i path)"
  by (simp add: Iterator_get_def element_end_takeWhile flip: takeWhile_eq_take)

lemma Iterator_next_takeWhile:
  "i \<le> length path \<Longrightarrow>
   Iterator_next path i = min (length path) (Suc (i + length (takeWhile ((\<noteq>) (CHR ''.'')) (drop i path))))"
proof (induction path i rule: Iterator_next.induct)
  case (1 path i)
  then show ?case
    by (cases "i < length path")
      (auto simp: Iterator_next.simps [of path i] Iterator_next.simps [of path "length path"]
        Cons_nth_drop_Suc [symmetric])
qed

lemma skip_takeWhile:
  "CHR ''.'' \<in> set (drop i path) \<Longrightarrow>
   ModulePath_skip path i = Some (i + length (takeWhile ((\<noteq>) (CHR ''.'')) (drop i path)))"
proof (induction path i rule: ModulePath_skip.induct)
  case (1 path i)
  then show ?case
    by (cases "i < length path")
      (auto simp: ModulePath_skip.simps [of path i] Cons_nth_drop_Suc [symmetric])
qed

lemma takeWhile_until: "c \<notin> set e \<Longrightarrow> takeWhile ((\<noteq>) c) (e @ c # s) = e"
  by (induction e) auto

lemma takeWhile_element:
  "proper_element e \<Longrightarrow> takeWhile ((\<noteq>) (CHR ''.'')) e = e"
  "proper_element e \<Longrightarrow> takeWhile ((\<noteq>) (CHR ''.'')) (e @ CHR ''.'' # s) = e"
  by (auto simp: proper_element_def takeWhile_eq_all_conv takeWhile_until)

lemma takeWhile_dotted:
  "list_all proper_element (e # es) \<Longrightarrow> takeWhile ((\<noteq>) (CHR ''.'')) (dotted (e # es)) = e"
  by (cases es) (simp_all add: takeWhile_element)

lemma ModulePath_start_dotted:
  assumes "list_all proper_element es" and "i < length es"
  shows "\<exists>p. ModulePath_start (dotted es) i = Some p \<and> p \<le> length (dotted es) \<and>
    drop p (dotted es) = dotted (drop i es)"
  using assms(2)
proof (induction i)
  case (Suc i)
  then obtain p where p: "ModulePath_start (dotted es) i = Some p" "p \<le> length (dotted es)"
    "drop p (dotted es) = dotted (drop i es)"
    by auto
  have es: "drop i es = es ! i # drop (Suc i) es" "drop (Suc i) es \<noteq> []"
    using Suc.prems by (simp_all add: Cons_nth_drop_Suc)
  have d: "drop p (dotted es) = es ! i @ CHR ''.'' # dotted (drop (Suc i) es)"
    using p(3) es by (simp add: dotted_Cons)
  have "proper_element (es ! i)"
    using assms(1) Suc.prems by (simp add: list_all_length)
  then have "ModulePath_skip (dotted es) p = Some (p + length (es ! i))"
    using skip_takeWhile [of p "dotted es"] d by (simp add: takeWhile_element)
  moreover have "drop (p + length (es ! i) + 1) (dotted es) = drop (length (es ! i) + 1) (drop p (dotted es))"
    by (simp add: add.commute)
  moreover have "p + length (es ! i) + 1 \<le> length (dotted es)"
    using arg_cong [OF d, of length] p(2) by simp
  ultimately show ?case
    using p(1) d by simp
qed simp

lemma ModulePath_get_dotted:
  assumes "list_all proper_element es" and "i < length es"
  shows "ModulePath_get (dotted es) i = Some (es ! i)"
proof -
  obtain p where p: "ModulePath_start (dotted es) i = Some p" "p \<le> length (dotted es)"
    "drop p (dotted es) = dotted (drop i es)"
    using ModulePath_start_dotted [OF assms] by blast
  have "list_all proper_element (drop i es)"
    using assms(1) by (auto simp: list_all_iff dest: in_set_dropD)
  then have "takeWhile ((\<noteq>) (CHR ''.'')) (dotted (drop i es)) = es ! i"
    using takeWhile_dotted [of "es ! i" "drop (Suc i) es"] assms(2)
    by (simp add: Cons_nth_drop_Suc)
  moreover from this have "take (length (es ! i)) (dotted (drop i es)) = es ! i"
    by (metis takeWhile_eq_take)
  ultimately show ?thesis
    using p by (simp add: ModulePath_get_def Let_def element_end_takeWhile)
qed

lemma ModulePath_iterate_dotted:
  assumes "list_all proper_element es" and "drop p path = dotted es"
  shows "ModulePath_iterate path p = es"
  using assms
proof (induction es arbitrary: p)
  case Nil
  then show ?case
    by (simp add: ModulePath_iterate.simps [of path p])
next
  case (Cons e es)
  have p: "p < length path"
    using Cons.prems dotted_not_empty [of "e # es"] by (metis drop_eq_Nil list.distinct(1) not_le)
  have e: "takeWhile ((\<noteq>) (CHR ''.'')) (drop p path) = e"
    using takeWhile_dotted [OF Cons.prems(1)] Cons.prems(2) by simp
  have rest: "drop (Iterator_next path p) path = dotted es"
  proof (cases es)
    case Nil
    have "length path = p + length e"
      using arg_cong [OF Cons.prems(2), of length] Nil p by simp
    with p e Nil show ?thesis
      by (simp add: Iterator_next_takeWhile)
  next
    case (Cons f fs)
    then have d: "drop p path = e @ CHR ''.'' # dotted es"
      using Cons.prems(2) by simp
    have "length path = p + length e + 1 + length (dotted es)"
      using arg_cong [OF d, of length] p by simp
    then have "Iterator_next path p = p + length e + 1"
      using p e by (simp add: Iterator_next_takeWhile)
    moreover have "drop (p + length e + 1) path = drop (length e + 1) (drop p path)"
      by (simp add: add.commute)
    ultimately show ?thesis
      using d by simp
  qed
  with Cons.IH [OF _ rest] Cons.prems(1) p e show ?case
    by (simp add: ModulePath_iterate.simps [of path p] Iterator_get_takeWhile)
qed

fun after_dots :: "nat \<Rightarrow> string \<Rightarrow> string" where
  "after_dots 0 s = s"
| "after_dots (Suc n) [] = []"
| "after_dots (Suc n) (c # s) = (if c = CHR ''.'' then after_dots n s else after_dots (Suc n) s)"

lemma strip_loop_after_dots:
  "p \<le> length path \<Longrightarrow> drop (ModulePath_strip_loop path n p) path = after_dots n (drop p path)"
proof (induction path n p rule: ModulePath_strip_loop.induct)
  case (1 path n p)
  show ?case
  proof (cases "0 < n \<and> p < length path")
    case True
    then obtain m where "n = Suc m"
      by (cases n) auto
    with True "1.IH" show ?thesis
      by (cases "path ! p = CHR ''.''")
        (simp_all add: ModulePath_strip_loop.simps [of path "Suc m" p] Cons_nth_drop_Suc [symmetric])
  next
    case False
    then have "ModulePath_strip_loop path n p = p"
      by (subst ModulePath_strip_loop.simps) auto
    with "1.prems" False show ?thesis
      by (cases n) auto
  qed
qed

lemma after_dots_element:
  "CHR ''.'' \<notin> set e \<Longrightarrow> after_dots (Suc n) (e @ CHR ''.'' # s) = after_dots n s"
  "CHR ''.'' \<notin> set e \<Longrightarrow> after_dots (Suc n) e = []"
  by (induction e) auto

lemma after_dots_dotted:
  "list_all proper_element es \<Longrightarrow> after_dots n (dotted es) = dotted (drop n es)"
proof (induction es arbitrary: n)
  case (Cons e es)
  then have "CHR ''.'' \<notin> set e"
    by (simp add: proper_element_def)
  with Cons show ?case
    by (cases n; cases es) (simp_all add: after_dots_element)
qed (case_tac n; simp)

subsection \<open>Common ancestors\<close>

text \<open>The loop over the characters of two paths, and the number of elements they share.\<close>

fun common_dots :: "string \<Rightarrow> string \<Rightarrow> nat" where
  "common_dots (c # s) (d # t) =
     (if c \<noteq> d then 0
      else (if c = CHR ''.'' \<or> s = [] \<or> t = [] then 1 else 0) + common_dots s t)"
| "common_dots _ _ = 0"

fun common_elements :: "string list \<Rightarrow> string list \<Rightarrow> nat" where
  "common_elements (e # es) (f # fs) = (if e = f then 1 + common_elements es fs else 0)"
| "common_elements _ _ = 0"

text \<open>The last element of one path is the beginning of the element of the other one at its place.\<close>

definition cut_element :: "string list \<Rightarrow> string list \<Rightarrow> bool" where
  "cut_element es fs \<longleftrightarrow>
     (let n = common_elements es fs in
      length es = n + 1 \<and> n < length fs \<and> strict_prefix (es ! n) (fs ! n))"

lemma common_loop_dots:
  "i \<le> min (length path) (length other) \<Longrightarrow>
   ModulePath_common_loop path other (min (length path) (length other)) i depth =
   depth + common_dots (drop i path) (drop i other)"
proof (induction "min (length path) (length other) - i" arbitrary: i depth)
  case 0
  then have "drop i path = [] \<or> drop i other = []"
    by auto
  then have "common_dots (drop i path) (drop i other) = 0"
    by auto
  with 0 show ?case
    by (simp add: ModulePath_common_loop.simps [of _ _ _ i])
next
  case (Suc k)
  then have i: "i < length path" "i < length other"
    by auto
  have "i = min (length path) (length other) - 1 \<longleftrightarrow> drop (Suc i) path = [] \<or> drop (Suc i) other = []"
    using i by auto
  moreover have "ModulePath_common_loop path other (min (length path) (length other)) (i + 1) d =
      d + common_dots (drop (i + 1) path) (drop (i + 1) other)" for d
    using Suc i by (intro Suc.hyps(1)) auto
  ultimately show ?case
    using i by (auto simp: ModulePath_common_loop.simps [of _ _ _ i] Cons_nth_drop_Suc [symmetric])
qed

lemma common_dots_same:
  assumes "CHR ''.'' \<notin> set e" and "e \<noteq> []"
  shows "common_dots (e @ CHR ''.'' # s) (e @ CHR ''.'' # t) = 1 + common_dots s t"
    and "common_dots e (e @ CHR ''.'' # t) = 1" and "common_dots (e @ CHR ''.'' # t) e = 1"
    and "common_dots e e = 1"
  using assms
proof (induction e)
  case (Cons c e)
  { case 1 with Cons.IH(1) show ?case by (cases "e = []") auto }
  { case 2 with Cons.IH(2) show ?case by (cases "e = []") auto }
  { case 3 with Cons.IH(3) show ?case by (cases "e = []") auto }
  { case 4 with Cons.IH(4) show ?case by (cases "e = []") auto }
qed simp_all

lemma common_dots_differ:
  assumes "CHR ''.'' \<notin> set e" and "CHR ''.'' \<notin> set f" and "e \<noteq> f" and "e \<noteq> []" and "f \<noteq> []"
    and "s = [] \<or> hd s = CHR ''.''" and "t = [] \<or> hd t = CHR ''.''"
  shows "common_dots (e @ s) (f @ t) =
    (if s = [] \<and> strict_prefix e f \<or> t = [] \<and> strict_prefix f e then 1 else 0)"
  using assms
proof (induction e arbitrary: f)
  case (Cons c e)
  obtain d f' where f: "f = d # f'"
    using Cons.prems(5) by (cases f) auto
  show ?case
  proof (cases "c = d \<and> e \<noteq> [] \<and> f' \<noteq> []")
    case True
    then show ?thesis
      using Cons.IH [of f'] Cons.prems f by auto
  next
    case False
    then show ?thesis
      using Cons.prems f by (cases e; cases f'; cases s; cases t) auto
  qed
qed simp

lemma cut_Nil: "\<not> cut_element [] fs" "\<not> cut_element es []" "common_elements es [] = 0"
  by (simp_all add: cut_element_def)

lemma common_dots_dotted:
  assumes "list_all proper_element es" and "list_all proper_element fs"
  shows "common_dots (dotted es) (dotted fs) = common_elements es fs +
    (if cut_element es fs \<or> cut_element fs es then 1 else 0)"
  using assms
proof (induction es fs rule: common_elements.induct)
  case (1 e es f fs)
  have ef: "CHR ''.'' \<notin> set e" "e \<noteq> []" "CHR ''.'' \<notin> set f" "f \<noteq> []"
    using "1.prems" by (auto simp: proper_element_def)
  define s where "s = (if es = [] then [] else CHR ''.'' # dotted es)"
  define t where "t = (if fs = [] then [] else CHR ''.'' # dotted fs)"
  have d: "dotted (e # es) = e @ s" "dotted (f # fs) = f @ t"
    by (simp_all add: s_def t_def dotted_Cons)
  show ?case
  proof (cases "e = f")
    case True
    have "cut_element (e # es) (e # fs) = cut_element es fs"
      "cut_element (e # fs) (e # es) = cut_element fs es"
      by (simp_all add: cut_element_def Let_def)
    moreover have "common_dots (dotted es) (dotted fs) = common_elements es fs +
        (if cut_element es fs \<or> cut_element fs es then 1 else 0)"
      using 1 True by simp
    ultimately show ?thesis
      using True d ef
      by (cases "es = []"; cases "fs = []") (simp_all add: s_def t_def common_dots_same cut_Nil)
  next
    case False
    then show ?thesis
      using common_dots_differ [OF ef(1,3) False ef(2,4), of s t] d
      by (auto simp: cut_element_def Let_def s_def t_def split: if_splits)
  qed
qed (auto simp: cut_element_def)

text \<open>
  C32: A module path is its list of elements: for nonempty elements without dots, the size, the name,
  the parent, the elements by index and by iteration, the path without its first elements and the
  text with another delimiter are those of the list.
\<close>

theorem ModulePath_elements:
  assumes "list_all proper_element es"
  shows "ModulePath_get_size (ModulePath es) = length es \<and>
    ModulePath_iterate (ModulePath es) 0 = es \<and>
    (\<forall>i<length es. ModulePath_get (ModulePath es) i = Some (es ! i)) \<and>
    (es \<noteq> [] \<longrightarrow> ModulePath_name (ModulePath es) = last es \<and>
       ModulePath_parent (ModulePath es) =
         (if length es = 1 then None else Some (ModulePath (butlast es)))) \<and>
    ModulePath_strip (ModulePath es) n = ModulePath (drop n es) \<and>
    ModulePath_to_string (ModulePath es) d = joined d es"
proof -
  have drop: "list_all proper_element (drop n es)"
    using assms by (auto simp: list_all_iff dest: in_set_dropD)
  have "ModulePath_name (dotted es) = last es \<and>
      ModulePath_parent (dotted es) = (if length es = 1 then None else Some (dotted (butlast es)))"
    if "es \<noteq> []"
    using ModulePath_last_dotted [of "butlast es" "last es"] assms that
    by (cases es rule: rev_cases) auto
  moreover have "ModulePath (butlast es) = dotted (butlast es)"
    using assms by (intro ModulePath_dotted) (auto simp: list_all_iff dest: in_set_butlastD)
  moreover have "ModulePath_strip (dotted es) n = dotted (drop n es)"
    using strip_loop_after_dots [of 0 "dotted es" n] after_dots_dotted [OF assms, of n]
    by (simp add: ModulePath_strip_def)
  ultimately show ?thesis
    using assms ModulePath_get_dotted [OF assms] ModulePath_iterate_dotted [OF assms, of 0 "dotted es"]
    by (simp add: ModulePath_dotted [OF assms] ModulePath_dotted [OF drop]
        ModulePath_get_size_dotted ModulePath_to_string_dotted)
qed

theorem ModulePath_elements_witness:
  "ModulePath_get_size (ModulePath [''std'', ''math'']) = 2 \<and>
   ModulePath_parent (ModulePath [''std'', ''math'']) = Some (ModulePath [''std''])"
  using ModulePath_elements [of "[''std'', ''math'']" 0 "[]"] by (simp add: proper_element_def)

text \<open>
  What \<open>num_common_ancestors\<close> returns: the number of elements that the two paths share from the
  start, and one more when the last element of one of them is only the beginning of the element of
  the other one, as \<open>foo\<close> is of \<open>foobar\<close>.
\<close>

theorem ModulePath_num_common_ancestors_elements:
  assumes "list_all proper_element es" and "list_all proper_element fs"
  shows "ModulePath_num_common_ancestors (ModulePath es) (ModulePath fs) =
    common_elements es fs + (if cut_element es fs \<or> cut_element fs es then 1 else 0)"
  unfolding ModulePath_dotted [OF assms(1)] ModulePath_dotted [OF assms(2)]
    ModulePath_num_common_ancestors_def
  by (subst common_loop_dots) (simp_all add: common_dots_dotted [OF assms])

theorem ModulePath_num_common_ancestors_elements_witness:
  "ModulePath_num_common_ancestors (ModulePath [''foo'', ''x'']) (ModulePath [''foobar'']) = 0 \<and>
   ModulePath_num_common_ancestors (ModulePath [''foo'']) (ModulePath [''foobar'', ''x'']) = 1"
  using ModulePath_num_common_ancestors_elements [of "[''foo'', ''x'']" "[''foobar'']"]
    ModulePath_num_common_ancestors_elements [of "[''foo'']" "[''foobar'', ''x'']"]
  by (simp add: proper_element_def cut_element_def)

section \<open>Edits of a source file\<close>

subsection \<open>The list of edits\<close>

record text_range =
  range_start :: nat
  range_end :: nat

definition TextRange :: "nat \<Rightarrow> nat \<Rightarrow> text_range" where
  "TextRange start stop = \<lparr>range_start = start, range_end = stop\<rparr>"

record edit =
  edit_range :: text_range
  edit_replacement :: string

record edit_list =
  el_buffer :: string
  el_file_content :: string
  el_edits :: "edit list"

definition EditList :: "string \<Rightarrow> edit_list" where
  "EditList buffer =
     \<lparr>el_buffer = buffer, el_file_content = SourceFile_get_content buffer, el_edits = []\<rparr>"

text \<open>
  \<open>std::string_view::substr\<close> throws behind the end and clamps the length, which the callers compute
  as a difference of \<open>unsigned\<close> numbers.
\<close>

definition substr :: "string \<Rightarrow> nat \<Rightarrow> nat \<Rightarrow> string option" where
  "substr s pos n = (if pos \<le> length s then Some (take n (drop pos s)) else None)"

definition unsigned_minus :: "nat \<Rightarrow> nat \<Rightarrow> nat" where
  "unsigned_minus a b = (if b \<le> a then a - b else 2 ^ 32 + a - b)"

definition EditList_push_back :: "edit \<Rightarrow> edit_list \<Rightarrow> edit_list" where
  "EditList_push_back e el = el\<lparr>el_edits := el_edits el @ [e]\<rparr>"

definition EditList_add_replace_edit :: "text_range \<Rightarrow> string \<Rightarrow> edit_list \<Rightarrow> edit_list option" where
  "EditList_add_replace_edit r replacement el =
     (if range_start r \<noteq> range_end r then
        do { old \<leftarrow> substr (el_file_content el) (range_start r)
                     (unsigned_minus (range_end r) (range_start r));
             if old = replacement then Some el
             else Some (EditList_push_back \<lparr>edit_range = r, edit_replacement = replacement\<rparr> el) }
      else Some (EditList_push_back \<lparr>edit_range = r, edit_replacement = replacement\<rparr> el))"

definition EditList_add_copy_edit :: "text_range \<Rightarrow> text_range \<Rightarrow> edit_list \<Rightarrow> edit_list option" where
  "EditList_add_copy_edit dst src el =
     (if dst = src then Some el
      else
        do { replacement \<leftarrow> substr (el_file_content el) (range_start src)
                             (unsigned_minus (range_end src) (range_start src));
             Some (EditList_push_back \<lparr>edit_range = dst, edit_replacement = replacement\<rparr> el) })"

definition EditList_add_insert_edit :: "nat \<Rightarrow> string \<Rightarrow> edit_list \<Rightarrow> edit_list" where
  "EditList_add_insert_edit position replacement el =
     EditList_push_back \<lparr>edit_range = TextRange position position, edit_replacement = replacement\<rparr> el"

definition EditList_add_delete_edit :: "text_range \<Rightarrow> edit_list \<Rightarrow> edit_list" where
  "EditList_add_delete_edit r el =
     EditList_push_back \<lparr>edit_range = r, edit_replacement = ''''\<rparr> el"

subsection \<open>Applying the edits\<close>

text \<open>
  \<open>std::sort\<close> by the start of the range is a parameter: it does not say in which order edits with
  the same start come.  Copying a range whose end is before its start is undefined, here \<open>None\<close>.
  The members are sorted in place when the whole file is copied.
\<close>

definition copy_range :: "string \<Rightarrow> nat \<Rightarrow> nat \<Rightarrow> string option" where
  "copy_range s start stop =
     (if start \<le> stop \<and> stop \<le> length s then Some (take (stop - start) (drop start s)) else None)"

fun EditList_copy_loop :: "string \<Rightarrow> nat \<Rightarrow> edit list \<Rightarrow> string \<Rightarrow> string option" where
  "EditList_copy_loop input prev_end [] out =
     do { tail \<leftarrow> copy_range input prev_end (length input); Some (out @ tail) }"
| "EditList_copy_loop input prev_end (e # es) out =
     do { kept \<leftarrow> copy_range input prev_end (range_start (edit_range e));
          EditList_copy_loop input (range_end (edit_range e)) es
            (out @ kept @ edit_replacement e) }"

definition EditList_in_range :: "text_range \<Rightarrow> edit list \<Rightarrow> edit list" where
  "EditList_in_range r es =
     map (\<lambda>e. \<lparr>edit_range = TextRange (range_start (edit_range e) - range_start r)
                            (range_end (edit_range e) - range_start r),
               edit_replacement = edit_replacement e\<rparr>)
       (filter (\<lambda>e. \<not> (range_start (edit_range e) < range_start r \<or>
                       range_end (edit_range e) > range_end r)) es)"

definition EditList_apply_edits_to_source_copy ::
    "(edit list \<Rightarrow> edit list) \<Rightarrow> text_range \<Rightarrow> edit_list \<Rightarrow> (string \<times> edit_list) option" where
  "EditList_apply_edits_to_source_copy std_sort r el =
     (let entire_file = range_start r = 0 \<and> range_end r = length (el_file_content el)
      in do { input \<leftarrow> (if entire_file then Some (el_file_content el)
                        else substr (el_file_content el) (range_start r)
                               (unsigned_minus (range_end r) (range_start r)));
              let edits = std_sort (if entire_file then el_edits el
                                    else EditList_in_range r (el_edits el));
              output_text \<leftarrow> (if edits = [] then Some input else EditList_copy_loop input 0 edits '''');
              Some (output_text, if entire_file then el\<lparr>el_edits := edits\<rparr> else el) })"

definition EditList_entire_range :: "edit_list \<Rightarrow> text_range" where
  "EditList_entire_range el = TextRange 0 (length (el_file_content el))"

definition EditList_apply_edits :: "(edit list \<Rightarrow> edit list) \<Rightarrow> edit_list \<Rightarrow> edit_list option" where
  "EditList_apply_edits std_sort el =
     do { (out, el') \<leftarrow> EditList_apply_edits_to_source_copy std_sort (EditList_entire_range el) el;
          Some (el'\<lparr>el_buffer := SourceFile_buffer out\<rparr>) }"

subsection \<open>What the edits do\<close>

text \<open>The edits made one after the other in the text itself, from the last one to the first.\<close>

definition splice :: "edit \<Rightarrow> string \<Rightarrow> string" where
  "splice e s = take (range_start (edit_range e)) s @ edit_replacement e @
     drop (range_end (edit_range e)) s"

fun separate :: "nat \<Rightarrow> edit list \<Rightarrow> nat \<Rightarrow> bool" where
  "separate p [] n \<longleftrightarrow> p \<le> n"
| "separate p (e # es) n \<longleftrightarrow>
     p \<le> range_start (edit_range e) \<and> range_start (edit_range e) \<le> range_end (edit_range e) \<and>
     separate (range_end (edit_range e)) es n"

lemma separate_le: "separate p es n \<Longrightarrow> p \<le> n"
  by (induction es arbitrary: p) fastforce+

lemma splice_prefix:
  "separate p es (length s) \<Longrightarrow>
   take p (foldr splice es s) = take p s \<and> p \<le> length (foldr splice es s)"
proof (induction es arbitrary: p)
  case (Cons e es)
  then have p: "p \<le> range_start (edit_range e)" "range_start (edit_range e) \<le> range_end (edit_range e)"
    and IH: "take (range_end (edit_range e)) (foldr splice es s) = take (range_end (edit_range e)) s"
      "range_end (edit_range e) \<le> length (foldr splice es s)"
    using Cons.IH [of "range_end (edit_range e)"] by auto
  have "take p (foldr splice es s) = take p s"
    using arg_cong [OF IH(1), of "take p"] p by (simp add: min_absorb1)
  moreover have "take p (splice e r) = take p r \<and> p \<le> length (splice e r)"
    if "range_end (edit_range e) \<le> length r" for r
    using that p by (simp add: splice_def min_absorb1)
  ultimately show ?case
    using IH(2) by simp
qed simp

lemma copy_loop_splice:
  "separate p es (length s) \<Longrightarrow>
   EditList_copy_loop s p es out = Some (out @ drop p (foldr splice es s))"
proof (induction es arbitrary: p out)
  case (Cons e es)
  let ?a = "range_start (edit_range e)" and ?b = "range_end (edit_range e)"
  have p: "p \<le> ?a" "?a \<le> ?b" and sep: "separate ?b es (length s)"
    using Cons.prems by auto
  note b = separate_le [OF sep] splice_prefix [OF sep]
  have "take ?a (foldr splice es s) = take ?a s"
    using arg_cong [of _ _ "take ?a", OF conjunct1 [OF b(2)]] p by (simp add: min_absorb1)
  then have "drop p (foldr splice (e # es) s) =
      take (?a - p) (drop p s) @ edit_replacement e @ drop ?b (foldr splice es s)"
    using p b by (simp add: splice_def drop_take)
  moreover have "copy_range s p ?a = Some (take (?a - p) (drop p s))"
    using p b by (simp add: copy_range_def)
  ultimately show ?case
    using Cons.IH [OF sep] by simp
qed (simp add: copy_range_def)

text \<open>Sorting is unique when no two edits start at the same place.\<close>

lemma sort_key_unique:
  assumes "mset ys = mset xs" and "sorted (map f ys)" and "distinct (map f xs)"
  shows "ys = sort_key f xs"
proof -
  have one: "filter (\<lambda>x. f k = f x) zs = [k]" if "k \<in> set zs" "distinct (map f zs)" for k zs
    using that
  proof (induction zs)
    case (Cons z zs)
    then show ?case
      by (cases "k = z") (auto simp: filter_empty_conv rev_image_eqI)
  qed simp
  have "distinct (map f ys)"
    using assms(1,3) by (metis mset_map mset_eq_imp_distinct_iff)
  then show ?thesis
    using assms one
    by (intro properties_for_sort_key [symmetric]) (auto dest: mset_eq_setD)
qed

abbreviation edit_start :: "edit \<Rightarrow> nat" where
  "edit_start e \<equiv> range_start (edit_range e)"

text \<open>
  Two edits that can be made in the same list: their ranges have no character in common, and when
  they start at the same place, both are insertions.
\<close>

definition apart :: "edit \<Rightarrow> edit \<Rightarrow> bool" where
  "apart e d \<longleftrightarrow>
     (range_end (edit_range e) \<le> edit_start d \<or> range_end (edit_range d) \<le> edit_start e) \<and>
     (edit_start e = edit_start d \<longrightarrow>
        range_end (edit_range e) = edit_start e \<and> range_end (edit_range d) = edit_start d)"

definition ranges_in :: "nat \<Rightarrow> edit list \<Rightarrow> bool" where
  "ranges_in n es \<longleftrightarrow> (\<forall>e \<in> set es. edit_start e \<le> range_end (edit_range e) \<and> range_end (edit_range e) \<le> n)"

definition all_apart :: "edit list \<Rightarrow> bool" where
  "all_apart es \<longleftrightarrow> (\<forall>e d. {#e, d#} \<subseteq># mset es \<longrightarrow> apart e d)"

lemma apart_in_order:
  assumes "all_apart es" and "ranges_in n es" and "mset ys = mset es" and "sorted (map edit_start ys)"
  shows "sorted_wrt (\<lambda>e d. range_end (edit_range e) \<le> edit_start d) ys"
proof -
  have "\<forall>e d. {#e, d#} \<subseteq># mset ys \<longrightarrow> apart e d" "ranges_in n ys"
    using assms(1-3) by (auto simp: all_apart_def ranges_in_def dest: mset_eq_setD)
  then show ?thesis
    using assms(4)
  proof (induction ys)
    case (Cons e ys)
    have "range_end (edit_range e) \<le> edit_start d" if "d \<in> set ys" for d
    proof -
      have "apart e d" using Cons.prems(1) that by (simp add: mset_subset_eq_single)
      moreover have "edit_start e \<le> edit_start d" "edit_start d \<le> range_end (edit_range d)"
        using Cons.prems(2,3) that by (auto simp: ranges_in_def)
      ultimately show ?thesis by (fastforce simp: apart_def)
    qed
    moreover have "{#a, b#} \<subseteq># mset ys \<longrightarrow> apart a b" for a b
      using Cons.prems(1) subset_mset.order_trans [of "{#a, b#}" "mset ys" "mset (e # ys)"] by auto
    ultimately show ?case
      using Cons.IH Cons.prems(2,3) by (simp add: ranges_in_def)
  qed simp
qed

lemma separate_in_order:
  "sorted_wrt (\<lambda>e d. range_end (edit_range e) \<le> edit_start d) ys \<Longrightarrow> ranges_in n ys \<Longrightarrow> p \<le> n \<Longrightarrow>
   \<forall>e \<in> set ys. p \<le> edit_start e \<Longrightarrow> separate p ys n"
  by (induction ys arbitrary: p) (auto simp: ranges_in_def)

lemma copy_loop_None:
  "\<not> separate p es (length s) \<Longrightarrow> \<forall>e \<in> set es. edit_start e \<le> range_end (edit_range e) \<Longrightarrow>
   EditList_copy_loop s p es out = None"
  by (induction es arbitrary: p out) (auto simp: copy_range_def)

text \<open>
  C33: Applying a list of edits, with any sorting routine that sorts by the start of the ranges.  When
  no two ranges have a character in common, and only insertions start at the same place, it
  succeeds and makes every edit at its place: the new text is the one that the edits give when
  they are made one by one in the text, the last one first, and the buffer behind it gets its
  end zone.  When the starts are distinct, the order in which the edits were added and the
  sorting routine do not matter.  When the sorted ranges are not one behind the other, as when an
  insertion and the replacement of the text behind it start at the same place and the routine
  puts the replacement first, a range is copied that ends before it starts, which is undefined.
\<close>

theorem EditList_apply_edits_splices:
  assumes "\<And>es. mset (std_sort es) = mset es \<and> sorted (map edit_start (std_sort es))"
  shows "(ranges_in (length (el_file_content el)) (el_edits el) \<and> all_apart (el_edits el) \<longrightarrow>
      EditList_apply_edits std_sort el =
        Some (el\<lparr>el_buffer := SourceFile_buffer (foldr splice (std_sort (el_edits el)) (el_file_content el)),
                el_edits := std_sort (el_edits el)\<rparr>)) \<and>
    (distinct (map edit_start (el_edits el)) \<longrightarrow>
      std_sort (el_edits el) = sort_key edit_start (el_edits el)) \<and>
    ((\<forall>e \<in> set (el_edits el). edit_start e \<le> range_end (edit_range e)) \<and>
     \<not> separate 0 (std_sort (el_edits el)) (length (el_file_content el)) \<longrightarrow>
      EditList_apply_edits std_sort el = None)"
proof (intro conjI impI; (elim conjE)?)
  let ?es = "el_edits el" and ?s = "el_file_content el"
  note sort = assms [of ?es, THEN conjunct1] assms [of ?es, THEN conjunct2]
  note members = mset_eq_setD [OF sort(1)]
  note defs = EditList_apply_edits_def EditList_apply_edits_to_source_copy_def
    EditList_entire_range_def TextRange_def Let_def
  show "std_sort ?es = sort_key edit_start ?es" if "distinct (map edit_start ?es)"
    using sort_key_unique [OF sort that] .
  show "EditList_apply_edits std_sort el =
      Some (el\<lparr>el_buffer := SourceFile_buffer (foldr splice (std_sort ?es) ?s), el_edits := std_sort ?es\<rparr>)"
    if "ranges_in (length ?s) ?es" "all_apart ?es"
  proof -
    have "separate 0 (std_sort ?es) (length ?s)"
      using separate_in_order [OF apart_in_order [OF that(2,1) sort]] that(1) members
      by (simp add: ranges_in_def)
    note loop = copy_loop_splice [OF this, of "[]"]
    show ?thesis
    proof (cases "std_sort ?es = []")
      case False
      then show ?thesis using loop by (simp add: defs)
    qed (simp add: defs)
  qed
  show "EditList_apply_edits std_sort el = None"
    if "\<forall>e \<in> set ?es. edit_start e \<le> range_end (edit_range e)" "\<not> separate 0 (std_sort ?es) (length ?s)"
  proof -
    have "std_sort ?es \<noteq> []" using that(2) by auto
    then show ?thesis using copy_loop_None [OF that(2), of "[]"] that(1) members by (simp add: defs)
  qed
qed

text \<open>
  A deletion in front of two insertions at one place; and an insertion that was added after the deletion
  of the text behind it, with a sorting routine that keeps this order.
\<close>

theorem EditList_apply_edits_splices_witness:
  "let source = EditList (SourceFile_buffer ''abcd'');
       el = EditList_add_insert_edit 3 ''y'' (EditList_add_delete_edit (TextRange 0 2)
              (EditList_add_insert_edit 3 ''x'' source));
       bad = EditList_add_insert_edit 0 ''y'' (EditList_add_delete_edit (TextRange 0 2) source)
   in map_option el_buffer (EditList_apply_edits (sort_key edit_start) el) = Some (SourceFile_buffer ''cxyd'') \<and>
      EditList_apply_edits (sort_key edit_start) bad = None"
proof -
  define source where "source = EditList (SourceFile_buffer ''abcd'')"
  define el where "el = EditList_add_insert_edit 3 ''y'' (EditList_add_delete_edit (TextRange 0 2)
              (EditList_add_insert_edit 3 ''x'' source))"
  define bad where "bad = EditList_add_insert_edit 0 ''y'' (EditList_add_delete_edit (TextRange 0 2) source)"
  note defs = EditList_add_delete_edit_def EditList_add_insert_edit_def EditList_push_back_def
      EditList_def TextRange_def
  have sort: "mset (sort_key edit_start es) = mset es \<and> sorted (map edit_start (sort_key edit_start es))" for es
    by simp
  note applied = EditList_apply_edits_splices [OF sort]
  have "ranges_in (length (el_file_content el)) (el_edits el)" "el_file_content el = ''abcd''"
    "foldr splice (sort_key edit_start (el_edits el)) ''abcd'' = ''cxyd''"
    by (simp_all add: el_def source_def defs ranges_in_def splice_def)
  moreover have "all_apart (el_edits el)"
  proof -
    have "apart e d" if "{#e, d#} \<subseteq># mset (el_edits el)" for e d
    proof -
      have "e \<in> set (el_edits el)" "d \<in> set (el_edits el)"
        using that mset_subset_eqD [OF that] by (auto simp flip: set_mset_mset)
      moreover have "count (mset (el_edits el)) e \<ge> 2" if "e = d"
        using mset_subset_eq_count [OF \<open>{#e, d#} \<subseteq># mset (el_edits el)\<close>, of e] that by simp
      ultimately show ?thesis
        by (auto simp: el_def source_def defs apart_def split: if_splits)
    qed
    then show ?thesis by (simp add: all_apart_def)
  qed
  ultimately have 1: "map_option el_buffer (EditList_apply_edits (sort_key edit_start) el) =
      Some (SourceFile_buffer ''cxyd'')"
    using applied [of el] by simp
  have "\<forall>e \<in> set (el_edits bad). edit_start e \<le> range_end (edit_range e)"
    "\<not> separate 0 (sort_key edit_start (el_edits bad)) (length (el_file_content bad))"
    by (simp_all add: bad_def source_def defs)
  then have 2: "EditList_apply_edits (sort_key edit_start) bad = None"
    using applied [of bad] by blast
  show ?thesis
    unfolding Let_def source_def [symmetric] el_def [symmetric] bad_def [symmetric] using 1 2 ..
qed

end
