(* ===== verification/Stack_Frame.thy ===== *)
theory Stack_Frame
  imports Ssa MCode "HOL-Library.Signed_Division"
begin

section \<open>Stack frames\<close>

text \<open>
  The regions of a stack frame (\<open>src/banjo/mcode/stack_regions.hpp\<close>), the interface of the calling
  conventions (\<open>mcode/calling_convention.hpp\<close>) and the pass that gives the stack slots their offsets
  (\<open>codegen/stack_frame_pass.cpp\<close>) with the pass that puts the prolog and the epilogs into the code
  (\<open>codegen/prolog_epilog_pass.cpp\<close>).  Sizes that the source computes in \<open>int\<close> are integers, whose
  overflow is undefined there; the slots keep them as words.  A virtual function is a field of a
  record.  A map from slots to offsets is the list of its pairs in the order of their insertion; each
  slot is in it once, so that no order of iteration matters.
\<close>

subsection \<open>Functions with parameters\<close>

record m_parameter =
  mparam_type :: ssa_type
  mparam_storage :: "register + stack_slot_id"

record m_frame_function = m_function +
  fn_parameters :: "m_parameter list"

datatype arg_storage = Storage_reg u32 | Storage_stack (storage_slot_index: "nat option") (storage_offset: nat)

record stack_regions =
  rg_implicit_size :: int
  rg_saved_reg_size :: int
  rg_arg_store_size :: int
  rg_arg_store_offsets :: "(stack_slot_id \<times> int) list"
  rg_generic_size :: int
  rg_call_arg_size :: int

definition StackRegions :: stack_regions where
  "StackRegions =
     \<lparr>rg_implicit_size = 0, rg_saved_reg_size = 0, rg_arg_store_size = 0, rg_arg_store_offsets = [],
      rg_generic_size = 0, rg_call_arg_size = 0\<rparr>"

record calling_convention =
  cc_volatile_regs :: "u32 list"
  cc_create_arg_store_region :: "stack_frame \<Rightarrow> stack_regions \<Rightarrow> stack_regions"
  cc_create_call_arg_region ::
    "m_basic_block list \<Rightarrow> stack_frame \<Rightarrow> stack_regions \<Rightarrow> (stack_frame \<times> stack_regions) option"
  cc_create_implicit_region ::
    "m_basic_block list \<Rightarrow> stack_frame \<Rightarrow> stack_regions \<Rightarrow> stack_frame \<times> stack_regions"
  cc_get_alloca_size :: "stack_regions \<Rightarrow> int"
  cc_get_prolog :: "m_basic_block list \<Rightarrow> stack_frame \<Rightarrow> m_instr list option"
  cc_get_epilog :: "m_basic_block list \<Rightarrow> stack_frame \<Rightarrow> m_instr list option"
  cc_is_func_exit :: "int \<Rightarrow> bool"
  cc_get_arg_storage :: "function_type \<Rightarrow> arg_storage list"

definition CallingConvention_is_volatile :: "u32 list \<Rightarrow> u32 \<Rightarrow> bool" where
  "CallingConvention_is_volatile volatile_regs reg \<longleftrightarrow> reg \<in> set volatile_regs"

subsection \<open>Registers a function has to save\<close>

definition MachinePassUtils_modified_instr :: "u32 list \<Rightarrow> u32 list \<Rightarrow> m_instr \<Rightarrow> u32 list" where
  "MachinePassUtils_modified_instr volatile_regs result instr =
     (case instr_operands instr of
        [] \<Rightarrow> result
      | dest # _ \<Rightarrow>
          (case Operand_get_physical_reg dest of
             None \<Rightarrow> result
           | Some reg \<Rightarrow>
               if MOperand_is_physical_reg dest \<and> \<not> CallingConvention_is_volatile volatile_regs reg \<and>
                  reg \<notin> set result
               then result @ [reg] else result))"

definition MachinePassUtils_get_modified_volatile_regs ::
    "u32 list \<Rightarrow> m_basic_block list \<Rightarrow> u32 list" where
  "MachinePassUtils_get_modified_volatile_regs volatile_regs blocks =
     foldl (\<lambda>result block.
       foldl (MachinePassUtils_modified_instr volatile_regs) result (m_basic_block.block_instrs block))
       [] blocks"

lemma modified_instr_invariant:
  "distinct result \<Longrightarrow> set result \<inter> set volatile_regs = {} \<Longrightarrow>
   distinct (MachinePassUtils_modified_instr volatile_regs result instr) \<and>
   set (MachinePassUtils_modified_instr volatile_regs result instr) \<inter> set volatile_regs = {}"
  by (auto simp: MachinePassUtils_modified_instr_def CallingConvention_is_volatile_def
      split: list.split option.split)

lemma foldl_invariant:
  assumes "P r" and "\<And>r x. P r \<Longrightarrow> P (f r x)"
  shows "P (foldl f r xs)"
  using assms(1) by (induction xs arbitrary: r) (simp_all add: assms(2))

text \<open>The saved registers are distinct and not volatile.\<close>

lemma modified_regs_distinct:
  "distinct (MachinePassUtils_get_modified_volatile_regs volatile_regs blocks)"
  "set (MachinePassUtils_get_modified_volatile_regs volatile_regs blocks) \<inter> set volatile_regs = {}"
proof -
  define P where "P r \<longleftrightarrow> distinct r \<and> set r \<inter> set volatile_regs = {}" for r :: "u32 list"
  have instr: "P r \<Longrightarrow> P (MachinePassUtils_modified_instr volatile_regs r i)" for r i
    unfolding P_def using modified_instr_invariant by blast
  have block: "P r \<Longrightarrow> P (foldl (MachinePassUtils_modified_instr volatile_regs) r instrs)" for r instrs
    by (erule foldl_invariant [where P = P]) (rule instr)
  have "P (MachinePassUtils_get_modified_volatile_regs volatile_regs blocks)"
    unfolding MachinePassUtils_get_modified_volatile_regs_def
    by (rule foldl_invariant [where P = P]) (simp add: P_def, erule block)
  then show "distinct (MachinePassUtils_get_modified_volatile_regs volatile_regs blocks)"
    "set (MachinePassUtils_get_modified_volatile_regs volatile_regs blocks) \<inter> set volatile_regs = {}"
    by (simp_all add: P_def)
qed

subsection \<open>The pass over a function\<close>

definition align_int :: "int \<Rightarrow> int \<Rightarrow> int" where
  "align_int val boundary =
     (if boundary = 0 then val
      else let m = val smod boundary in if m = 0 then val else val + boundary - m)"

definition StackFrame_set_offset :: "stack_slot_id \<Rightarrow> u32 \<Rightarrow> stack_frame \<Rightarrow> stack_frame option" where
  "StackFrame_set_offset i offset frame =
     do { slot \<leftarrow> StackFrame_get_stack_slot frame i;
          Some (frame\<lparr>frame_stack_slots := (frame_stack_slots frame)[i := slot\<lparr>slot_offset := offset\<rparr>]\<rparr>) }"

fun StackFramePass_generic_loop ::
    "nat \<Rightarrow> stack_slot list \<Rightarrow> int \<Rightarrow> (stack_slot_id \<times> int) list \<Rightarrow> int \<times> (stack_slot_id \<times> int) list" where
  "StackFramePass_generic_loop i [] offset offsets = (offset, offsets)"
| "StackFramePass_generic_loop i (slot # slots) offset offsets =
     (if \<not> StackSlot_is_defined slot \<and> slot_type slot = Slot_GENERIC then
        let offset' = offset - align_int (sint (slot_size slot)) 8
        in StackFramePass_generic_loop (i + 1) slots offset' (offsets @ [(i, offset')])
      else StackFramePass_generic_loop (i + 1) slots offset offsets)"

definition StackFramePass_create_generic_region ::
    "stack_frame \<Rightarrow> (stack_slot_id \<times> int) list \<Rightarrow> int \<Rightarrow> int \<times> (stack_slot_id \<times> int) list" where
  "StackFramePass_create_generic_region frame pre_alloca_offsets top_offset =
     (let (offset, offsets) =
        StackFramePass_generic_loop 0 (frame_stack_slots frame) top_offset pre_alloca_offsets
      in (- (offset + top_offset), offsets))"

fun StackFramePass_set_offsets ::
    "int \<Rightarrow> (stack_slot_id \<times> int) list \<Rightarrow> stack_frame \<Rightarrow> stack_frame option" where
  "StackFramePass_set_offsets alloca_size [] frame = Some frame"
| "StackFramePass_set_offsets alloca_size ((i, offset) # rest) frame =
     do { frame' \<leftarrow> StackFrame_set_offset i (word_of_int (offset + alloca_size)) frame;
          StackFramePass_set_offsets alloca_size rest frame' }"

fun StackFramePass_params ::
    "(m_parameter \<times> arg_storage) list \<Rightarrow> stack_frame \<Rightarrow> stack_frame option" where
  "StackFramePass_params [] frame = Some frame"
| "StackFramePass_params ((param, Storage_reg _) # rest) frame = StackFramePass_params rest frame"
| "StackFramePass_params ((param, Storage_stack _ sp_offset) # rest) frame =
     (case mparam_storage param of
        Inl _ \<Rightarrow> None
      | Inr slot \<Rightarrow>
          do { frame' \<leftarrow> StackFrame_set_offset slot (frame_total_size frame + of_nat sp_offset) frame;
               StackFramePass_params rest frame' })"

definition StackFramePass_param_type :: "m_parameter list \<Rightarrow> function_type" where
  "StackFramePass_param_type params =
     \<lparr>ftype_params = map mparam_type params, ftype_return_type = Type_primitive P_VOID,
      ftype_variadic = False, ftype_first_variadic_index = 0\<rparr>"

definition StackFramePass_frame ::
    "calling_convention \<Rightarrow> m_basic_block list \<Rightarrow> m_parameter list \<Rightarrow> stack_frame \<Rightarrow> stack_frame option" where
  "StackFramePass_frame cc blocks params frame =
     (let (frame, regions) = cc_create_implicit_region cc blocks frame StackRegions;
          regions = cc_create_arg_store_region cc frame regions;
          (generic_bytes, pre_alloca_offsets) =
            StackFramePass_create_generic_region frame (rg_arg_store_offsets regions)
              (rg_arg_store_size regions);
          regions = regions\<lparr>rg_generic_size := generic_bytes\<rparr>
      in do {
        (frame, regions) \<leftarrow> cc_create_call_arg_region cc blocks frame regions;
        let alloca_size = cc_get_alloca_size cc regions;
        let total_size = alloca_size + rg_implicit_size regions;
        frame \<leftarrow> StackFramePass_set_offsets alloca_size pre_alloca_offsets frame;
        let frame = frame\<lparr>frame_total_size := word_of_int total_size,
                          frame_size := word_of_int alloca_size\<rparr>;
        StackFramePass_params
          (zip params (cc_get_arg_storage cc (StackFramePass_param_type params))) frame })"

definition StackFramePass_run ::
    "calling_convention \<Rightarrow> m_frame_function \<Rightarrow> m_frame_function option" where
  "StackFramePass_run cc f =
     do { frame \<leftarrow> StackFramePass_frame cc (func_basic_blocks f) (fn_parameters f) (func_stack_frame f);
          Some (f\<lparr>func_stack_frame := frame, func_unwind_alloc_size := frame_size frame\<rparr>) }"

subsection \<open>Prolog and epilogs\<close>

definition PrologEpilogPass_insert_prolog ::
    "calling_convention \<Rightarrow> m_frame_function \<Rightarrow> m_frame_function option" where
  "PrologEpilogPass_insert_prolog cc f =
     (case func_basic_blocks f of
        [] \<Rightarrow> None
      | block # blocks \<Rightarrow>
          do { prolog \<leftarrow> cc_get_prolog cc (func_basic_blocks f) (func_stack_frame f);
               Some (f\<lparr>func_basic_blocks :=
                 block\<lparr>m_basic_block.block_instrs := prolog @ m_basic_block.block_instrs block\<rparr> # blocks\<rparr>) })"

text \<open>
  The epilog is computed again for every exit from the code as it is by then; its own instructions
  write only registers that have been collected before it.
\<close>

fun PrologEpilogPass_epilog_block ::
    "(int \<Rightarrow> bool) \<Rightarrow> (m_instr list \<Rightarrow> m_instr list option) \<Rightarrow> m_instr list \<Rightarrow> m_instr list \<Rightarrow>
     m_instr list option" where
  "PrologEpilogPass_epilog_block is_exit epilog passed [] = Some passed"
| "PrologEpilogPass_epilog_block is_exit epilog passed (instr # rest) =
     (if is_exit (instr_opcode instr) then
        do { instrs \<leftarrow> epilog (passed @ instr # rest);
             PrologEpilogPass_epilog_block is_exit epilog (passed @ instrs @ [instr]) rest }
      else PrologEpilogPass_epilog_block is_exit epilog (passed @ [instr]) rest)"

fun PrologEpilogPass_epilog_blocks ::
    "calling_convention \<Rightarrow> stack_frame \<Rightarrow> m_basic_block list \<Rightarrow> m_basic_block list \<Rightarrow>
     m_basic_block list option" where
  "PrologEpilogPass_epilog_blocks cc frame passed [] = Some passed"
| "PrologEpilogPass_epilog_blocks cc frame passed (block # rest) =
     do { instrs \<leftarrow> PrologEpilogPass_epilog_block (cc_is_func_exit cc)
            (\<lambda>instrs. cc_get_epilog cc
               (passed @ block\<lparr>m_basic_block.block_instrs := instrs\<rparr> # rest) frame)
            [] (m_basic_block.block_instrs block);
          PrologEpilogPass_epilog_blocks cc frame
            (passed @ [block\<lparr>m_basic_block.block_instrs := instrs\<rparr>]) rest }"

definition PrologEpilogPass_run ::
    "calling_convention \<Rightarrow> m_frame_function \<Rightarrow> m_frame_function option" where
  "PrologEpilogPass_run cc f =
     do { f \<leftarrow> PrologEpilogPass_insert_prolog cc f;
          blocks \<leftarrow> PrologEpilogPass_epilog_blocks cc (func_stack_frame f) [] (func_basic_blocks f);
          Some (f\<lparr>func_basic_blocks := blocks\<rparr>) }"

end
