(* ===== verification/Calling_Conv.thy ===== *)
theory Calling_Conv
  imports Stack_Frame
begin

section \<open>The calling conventions\<close>

text \<open>
  \<open>src/banjo/target/aarch64/aapcs_calling_conv.cpp\<close>, \<open>target/x86_64/sys_v_calling_conv.cpp\<close> and
  \<open>target/x86_64/ms_abi_calling_conv.cpp\<close>: where arguments are passed, as the caller and as the
  callee see it, the regions of the stack frame, and the prolog and the epilog.  The moves of the
  arguments themselves are the lowerer's; modelled are the places they are moved to.
\<close>

subsection \<open>Operands\<close>

definition m_op :: "operand_value \<Rightarrow> u32 \<Rightarrow> operand" where
  "m_op v n = \<lparr>op_value = v, op_size = n\<rparr>"

definition m_reg :: "u32 \<Rightarrow> u32 \<Rightarrow> operand" where
  "m_reg reg n = m_op (Op_register (Register_from_physical reg)) n"

definition m_imm :: "int \<Rightarrow> operand" where
  "m_imm i = m_op (Op_int_immediate (LargeInt_of_int (word_of_int i))) 0"

definition m_instruction :: "int \<Rightarrow> operand list \<Rightarrow> m_instr" where
  "m_instruction opcode operands =
     \<lparr>instr_opcode = opcode, instr_operands = operands, instr_flags = 0\<rparr>"

definition Instruction_set_flag :: "u32 \<Rightarrow> m_instr \<Rightarrow> m_instr" where
  "Instruction_set_flag flag instr = instr\<lparr>instr_flags := instr_flags instr OR flag\<rparr>"

definition Instruction_FLAG_ALLOCA :: u32 where
  "Instruction_FLAG_ALLOCA = 2"

text \<open>A destination of an argument: a register, or the slot of an outgoing argument.\<close>

datatype arg_dst = Dst_reg u32 | Dst_slot stack_slot_id

definition vector_get :: "'a list \<Rightarrow> nat \<Rightarrow> 'a option" where
  "vector_get xs i = (if i < length xs then Some (xs ! i) else None)"

subsection \<open>Regions that several conventions share\<close>

fun arg_store_below ::
    "nat \<Rightarrow> stack_slot list \<Rightarrow> int \<Rightarrow> (stack_slot_id \<times> int) list \<Rightarrow> int \<times> (stack_slot_id \<times> int) list" where
  "arg_store_below i [] n offsets = (n, offsets)"
| "arg_store_below i (slot # slots) n offsets =
     (if \<not> StackSlot_is_defined slot \<and> slot_type slot = Slot_ARG_STORE then
        let n' = n - sint (slot_size slot) in arg_store_below (i + 1) slots n' (offsets @ [(i, n')])
      else arg_store_below (i + 1) slots n offsets)"

text \<open>The slots of the outgoing arguments, from an offset \<open>base\<close> of the stack pointer on.\<close>

fun call_arg_loop :: "u32 \<Rightarrow> nat list \<Rightarrow> int \<Rightarrow> stack_frame \<Rightarrow> (stack_frame \<times> int) option" where
  "call_arg_loop base [] n frame = Some (frame, n)"
| "call_arg_loop base (index # indices) n frame =
     do { slot \<leftarrow> StackFrame_get_stack_slot frame index;
          frame' \<leftarrow> StackFrame_set_offset index (base + 8 * slot_call_arg_index slot) frame;
          call_arg_loop base indices (n + 8) frame' }"

text \<open>The registers of a list to save: general-purpose ones are pushed, the others get a slot.\<close>

fun x86_64_save_loop :: "(u32 \<Rightarrow> bool) \<Rightarrow> u32 \<Rightarrow> u32 list \<Rightarrow> int \<Rightarrow> stack_frame \<Rightarrow> int \<times> stack_frame" where
  "x86_64_save_loop is_gp alignment [] n frame = (n, frame)"
| "x86_64_save_loop is_gp alignment (reg # regs) n frame =
     (if is_gp reg then x86_64_save_loop is_gp alignment regs (n + 8) frame
      else
        let (index, frame') =
              StackFrame_new_stack_slot frame (StackSlot_make Slot_GENERIC 8 alignment)
        in x86_64_save_loop is_gp alignment regs n
             (frame'\<lparr>frame_reg_save_slot_indices := frame_reg_save_slot_indices frame' @ [index]\<rparr>))"

subsection \<open>AAPCS\<close>

datatype aapcs_variant = AAPCS_STANDARD | AAPCS_APPLE

definition AAPCS_ARG_REGS_INT :: "u32 list" where
  "AAPCS_ARG_REGS_INT = [0, 1, 2, 3, 4, 5, 6, 7]"

definition AAPCS_ARG_REGS_FP :: "u32 list" where
  "AAPCS_ARG_REGS_FP = [31, 32, 33, 34, 35, 36, 37, 38]"

definition AAPCS_volatile_regs :: "u32 list" where
  "AAPCS_volatile_regs =
     [0, 1, 2, 3, 4, 5, 6, 7, 8, 9, 10, 11, 12, 13, 14, 15, 16, 17, 18,
      31, 32, 33, 34, 35, 36, 37, 38, 62]"

definition AAPCS_emit_reg_arg_move :: "ssa_type \<Rightarrow> nat \<Rightarrow> arg_dst option" where
  "AAPCS_emit_reg_arg_move t index =
     do { reg \<leftarrow> vector_get (if Type_is_floating_point t then AAPCS_ARG_REGS_FP else AAPCS_ARG_REGS_INT) index;
          Some (Dst_reg reg) }"

definition AAPCS_emit_stack_arg_move :: "nat \<Rightarrow> stack_frame \<Rightarrow> arg_dst \<times> stack_frame" where
  "AAPCS_emit_stack_arg_move arg_slot_index frame =
     (let (slot, frame') = StackFrame_create_call_arg_slot frame arg_slot_index 8 1
      in (Dst_slot slot, frame'))"

fun AAPCS_emit_arg_moves_loop ::
    "aapcs_variant \<Rightarrow> function_type \<Rightarrow> nat \<Rightarrow> nat \<Rightarrow> nat \<Rightarrow> ssa_type list \<Rightarrow> stack_frame \<Rightarrow>
     (arg_dst list \<times> stack_frame) option" where
  "AAPCS_emit_arg_moves_loop variant ftype index gp fp [] frame = Some ([], frame)"
| "AAPCS_emit_arg_moves_loop variant ftype index gp fp (t # types) frame =
     (if variant = AAPCS_APPLE \<and> ftype_variadic ftype \<and>
         index \<ge> ftype_first_variadic_index ftype then
        let (dst, frame') =
              AAPCS_emit_stack_arg_move (index - ftype_first_variadic_index ftype) frame
        in do { (dsts, frame'') \<leftarrow>
                  AAPCS_emit_arg_moves_loop variant ftype (index + 1) gp fp types frame';
                Some (dst # dsts, frame'') }
      else if index < 8 then
        if Type_is_floating_point t then
          do { dst \<leftarrow> AAPCS_emit_reg_arg_move t fp;
               (dsts, frame') \<leftarrow>
                 AAPCS_emit_arg_moves_loop variant ftype (index + 1) gp (fp + 1) types frame;
               Some (dst # dsts, frame') }
        else
          do { dst \<leftarrow> AAPCS_emit_reg_arg_move t gp;
               (dsts, frame') \<leftarrow>
                 AAPCS_emit_arg_moves_loop variant ftype (index + 1) (gp + 1) fp types frame;
               Some (dst # dsts, frame') }
      else
        let (dst, frame') = AAPCS_emit_stack_arg_move (index - 8) frame
        in do { (dsts, frame'') \<leftarrow>
                  AAPCS_emit_arg_moves_loop variant ftype (index + 1) gp fp types frame';
                Some (dst # dsts, frame'') })"

definition AAPCS_emit_arg_moves ::
    "aapcs_variant \<Rightarrow> function_type \<Rightarrow> ssa_type list \<Rightarrow> stack_frame \<Rightarrow>
     (arg_dst list \<times> stack_frame) option" where
  "AAPCS_emit_arg_moves variant ftype arg_types frame =
     AAPCS_emit_arg_moves_loop variant ftype 0 0 0 arg_types frame"

fun AAPCS_arg_storage_loop ::
    "aapcs_variant \<Rightarrow> function_type \<Rightarrow> nat \<Rightarrow> nat \<Rightarrow> nat \<Rightarrow> nat \<Rightarrow> ssa_type list \<Rightarrow> arg_storage list" where
  "AAPCS_arg_storage_loop variant ftype i gp fp stack_offset [] = []"
| "AAPCS_arg_storage_loop variant ftype i gp fp stack_offset (t # types) =
     (let is_fp = Type_is_floating_point t in
      if variant = AAPCS_APPLE \<and> ftype_variadic ftype \<and> i \<ge> ftype_first_variadic_index ftype then
        Storage_stack None stack_offset #
          AAPCS_arg_storage_loop variant ftype (i + 1) gp fp (stack_offset + 8) types
      else if is_fp \<and> fp < length AAPCS_ARG_REGS_FP then
        Storage_reg (AAPCS_ARG_REGS_FP ! fp) #
          AAPCS_arg_storage_loop variant ftype (i + 1) gp (fp + 1) stack_offset types
      else if \<not> is_fp \<and> gp < length AAPCS_ARG_REGS_INT then
        Storage_reg (AAPCS_ARG_REGS_INT ! gp) #
          AAPCS_arg_storage_loop variant ftype (i + 1) (gp + 1) fp stack_offset types
      else
        Storage_stack None stack_offset #
          AAPCS_arg_storage_loop variant ftype (i + 1) gp fp (stack_offset + 8) types)"

definition AAPCS_get_arg_storage :: "aapcs_variant \<Rightarrow> function_type \<Rightarrow> arg_storage list" where
  "AAPCS_get_arg_storage variant ftype =
     AAPCS_arg_storage_loop variant ftype 0 0 0 0 (ftype_params ftype)"

definition AAPCS_get_implicit_stack_bytes :: int where
  "AAPCS_get_implicit_stack_bytes = 16"

definition AAPCS_create_arg_store_region :: "stack_frame \<Rightarrow> stack_regions \<Rightarrow> stack_regions" where
  "AAPCS_create_arg_store_region frame regions =
     (let (n, offsets) = arg_store_below 0 (frame_stack_slots frame) 0 (rg_arg_store_offsets regions)
      in regions\<lparr>rg_arg_store_size := n, rg_arg_store_offsets := offsets\<rparr>)"

definition AAPCS_create_call_arg_region ::
    "m_basic_block list \<Rightarrow> stack_frame \<Rightarrow> stack_regions \<Rightarrow> (stack_frame \<times> stack_regions) option" where
  "AAPCS_create_call_arg_region blocks frame regions =
     do { (frame', n) \<leftarrow> call_arg_loop 0 (frame_call_arg_slot_indices frame) 0 frame;
          Some (frame', regions\<lparr>rg_call_arg_size := n\<rparr>) }"

definition AAPCS_create_implicit_region ::
    "m_basic_block list \<Rightarrow> stack_frame \<Rightarrow> stack_regions \<Rightarrow> stack_frame \<times> stack_regions" where
  "AAPCS_create_implicit_region blocks frame regions =
     (let saved = 8 * int (length (MachinePassUtils_get_modified_volatile_regs AAPCS_volatile_regs blocks))
      in (frame, regions\<lparr>rg_saved_reg_size := saved,
                         rg_implicit_size := AAPCS_get_implicit_stack_bytes + saved\<rparr>))"

definition AAPCS_get_alloca_size :: "stack_regions \<Rightarrow> int" where
  "AAPCS_get_alloca_size regions =
     (let minimum_size =
            rg_arg_store_size regions + rg_generic_size regions + rg_call_arg_size regions
      in align_int minimum_size 16 + 16)"

definition AAPCS_modify_sp :: "aarch64_opcode \<Rightarrow> u32 \<Rightarrow> m_instr list option" where
  "AAPCS_modify_sp opcode val =
     (let sp = m_reg 62 8 in
      if val < 4096 then
        Some [m_instruction (AArch64Opcode_to_int opcode) [sp, sp, m_imm (uint val)]]
      else if val < 4096 * 4096 then
        Some [m_instruction (AArch64Opcode_to_int opcode)
                [sp, sp, m_imm (uint (drop_bit 12 val)), m_op (Op_aarch64_left_shift 12) 0],
              m_instruction (AArch64Opcode_to_int opcode) [sp, sp, m_imm (uint (val AND 0xFFF))]]
      else None)"

definition AAPCS_get_prolog :: "m_basic_block list \<Rightarrow> stack_frame \<Rightarrow> m_instr list option" where
  "AAPCS_get_prolog blocks frame =
     (let push = m_op (Op_aarch64_addr (AA_BASE_OFFSET_IMM_WRITE (Register_from_physical 62) (- 16))) 0;
          modified_regs = MachinePassUtils_get_modified_volatile_regs AAPCS_volatile_regs blocks;
          saves = map (\<lambda>reg. m_instruction (AArch64Opcode_to_int A64_STR) [m_reg reg 8, push])
            (filter (\<lambda>reg. \<not> (reg = 29 \<or> reg = 30)) modified_regs);
          frame_record = m_instruction (AArch64Opcode_to_int A64_STP) [m_reg 29 8, m_reg 30 8, push]
      in do { allocation \<leftarrow> AAPCS_modify_sp A64_SUB (frame_size frame);
              Some (saves @ [frame_record] @
                    map (Instruction_set_flag Instruction_FLAG_ALLOCA) allocation) })"

definition AAPCS_get_epilog :: "m_basic_block list \<Rightarrow> stack_frame \<Rightarrow> m_instr list option" where
  "AAPCS_get_epilog blocks frame =
     (let sp = m_op (Op_aarch64_addr (AA_BASE (Register_from_physical 62))) 0;
          modified_regs = MachinePassUtils_get_modified_volatile_regs AAPCS_volatile_regs blocks;
          frame_record =
            m_instruction (AArch64Opcode_to_int A64_LDP) [m_reg 29 8, m_reg 30 8, sp, m_imm 16];
          restores = map (\<lambda>reg. m_instruction (AArch64Opcode_to_int A64_LDR) [m_reg reg 8, sp, m_imm 16])
            (filter (\<lambda>reg. \<not> (reg = 29 \<or> reg = 30)) (rev modified_regs))
      in do { deallocation \<leftarrow> AAPCS_modify_sp A64_ADD (frame_size frame);
              Some (deallocation @ [frame_record] @ restores) })"

definition AAPCS_is_func_exit :: "int \<Rightarrow> bool" where
  "AAPCS_is_func_exit opcode \<longleftrightarrow> opcode = AArch64Opcode_to_int A64_RET"

definition AAPCSCallingConv :: "aapcs_variant \<Rightarrow> calling_convention" where
  "AAPCSCallingConv variant =
     \<lparr>cc_volatile_regs = AAPCS_volatile_regs,
      cc_create_arg_store_region = AAPCS_create_arg_store_region,
      cc_create_call_arg_region = AAPCS_create_call_arg_region,
      cc_create_implicit_region = AAPCS_create_implicit_region,
      cc_get_alloca_size = AAPCS_get_alloca_size,
      cc_get_prolog = AAPCS_get_prolog, cc_get_epilog = AAPCS_get_epilog,
      cc_is_func_exit = AAPCS_is_func_exit,
      cc_get_arg_storage = AAPCS_get_arg_storage variant\<rparr>"

subsection \<open>x86-64 instructions and registers\<close>

text \<open>The enumerators that the calling conventions use, by their values.\<close>

definition X8664_MOV :: int where "X8664_MOV = 0"
definition X8664_PUSH :: int where "X8664_PUSH = 1"
definition X8664_POP :: int where "X8664_POP = 2"
definition X8664_ADD :: int where "X8664_ADD = 3"
definition X8664_SUB :: int where "X8664_SUB = 4"
definition X8664_CALL :: int where "X8664_CALL = 39"
definition X8664_RET :: int where "X8664_RET = 40"
definition X8664_MOVSD :: int where "X8664_MOVSD = 45"
definition EH_PUSHREG :: int where "EH_PUSHREG = - 1"

definition X8664_RSP :: u32 where "X8664_RSP = 6"
definition X8664_RBP :: u32 where "X8664_RBP = 7"

text \<open>\<open>RAX\<close> to \<open>R15\<close> are 0 to 15, \<open>XMM0\<close> to \<open>XMM15\<close> are 16 to 31.\<close>

definition X8664_is_gp :: "u32 \<Rightarrow> bool" where
  "X8664_is_gp reg \<longleftrightarrow> 0 \<le> reg \<and> reg \<le> 15"

definition X8664_is_xmm :: "u32 \<Rightarrow> bool" where
  "X8664_is_xmm reg \<longleftrightarrow> 16 \<le> reg \<and> reg \<le> 31"

text \<open>The saves and restores of the vector registers in their slots, one after the other.\<close>

fun X8664_sse_moves :: "(operand \<Rightarrow> operand \<Rightarrow> operand list) \<Rightarrow> nat list \<Rightarrow> u32 list \<Rightarrow> m_instr list option" where
  "X8664_sse_moves operands slots [] = Some []"
| "X8664_sse_moves operands slots (reg # regs) =
     (if X8664_is_xmm reg then
        (case slots of
           [] \<Rightarrow> None
         | slot # slots' \<Rightarrow>
             do { rest \<leftarrow> X8664_sse_moves operands slots' regs;
                  Some (m_instruction X8664_MOVSD (operands (m_op (Op_stack_slot slot) 8) (m_reg reg 8))
                        # rest) })
      else X8664_sse_moves operands slots regs)"

definition X8664_pushes :: "u32 list \<Rightarrow> m_instr list" where
  "X8664_pushes regs =
     concat (map (\<lambda>reg. [m_instruction X8664_PUSH [m_reg reg 8], m_instruction EH_PUSHREG [m_reg reg 8]])
       (filter X8664_is_gp regs))"

definition X8664_pops :: "u32 list \<Rightarrow> m_instr list" where
  "X8664_pops regs = map (\<lambda>reg. m_instruction X8664_POP [m_reg reg 8]) (filter X8664_is_gp (rev regs))"

subsection \<open>System V\<close>

definition SysV_ARG_REGS_INT :: "u32 list" where
  "SysV_ARG_REGS_INT = [5, 4, 2, 1, 8, 9]"

definition SysV_ARG_REGS_FLOAT :: "u32 list" where
  "SysV_ARG_REGS_FLOAT = [16, 17, 18, 19, 20, 21, 22, 23, 24]"

definition SysV_volatile_regs :: "u32 list" where
  "SysV_volatile_regs =
     [0, 5, 4, 2, 1, 6, 7, 8, 9, 10, 11, 16, 17, 18, 19, 20, 21, 22, 23, 24, 25, 26, 27, 28, 29, 30, 31]"

fun SysV_arg_storage_loop :: "nat \<Rightarrow> nat \<Rightarrow> nat \<Rightarrow> ssa_type list \<Rightarrow> arg_storage list" where
  "SysV_arg_storage_loop gp fp arg_slot_index [] = []"
| "SysV_arg_storage_loop gp fp arg_slot_index (t # types) =
     (let is_fp = Type_is_floating_point t in
      if is_fp \<and> fp < length SysV_ARG_REGS_FLOAT then
        Storage_reg (SysV_ARG_REGS_FLOAT ! fp) # SysV_arg_storage_loop gp (fp + 1) arg_slot_index types
      else if \<not> is_fp \<and> gp < length SysV_ARG_REGS_INT then
        Storage_reg (SysV_ARG_REGS_INT ! gp) # SysV_arg_storage_loop (gp + 1) fp arg_slot_index types
      else
        Storage_stack (Some arg_slot_index) (8 * arg_slot_index) #
          SysV_arg_storage_loop gp fp (arg_slot_index + 1) types)"

definition SysV_get_arg_storage :: "function_type \<Rightarrow> arg_storage list" where
  "SysV_get_arg_storage ftype = SysV_arg_storage_loop 0 0 0 (ftype_params ftype)"

definition SysV_get_arg_dst :: "arg_storage \<Rightarrow> stack_frame \<Rightarrow> (arg_dst \<times> stack_frame) option" where
  "SysV_get_arg_dst storage frame =
     (case storage of
        Storage_reg reg \<Rightarrow> Some (Dst_reg reg, frame)
      | Storage_stack slot_index _ \<Rightarrow>
          do { index \<leftarrow> slot_index;
               if length (frame_call_arg_slot_indices frame) \<le> index then
                 let (slot, frame') = StackFrame_new_stack_slot frame
                       ((StackSlot_make Slot_CALL_ARG 8 1)\<lparr>slot_call_arg_index := of_nat index\<rparr>)
                 in Some (Dst_slot slot, frame')
               else Some (Dst_slot (frame_call_arg_slot_indices frame ! index), frame) })"

text \<open>The destinations of the arguments in \<open>lower_call\<close>, one storage for every argument.\<close>

fun SysV_arg_dsts :: "arg_storage list \<Rightarrow> stack_frame \<Rightarrow> (arg_dst list \<times> stack_frame) option" where
  "SysV_arg_dsts [] frame = Some ([], frame)"
| "SysV_arg_dsts (storage # rest) frame =
     do { (dst, frame') \<leftarrow> SysV_get_arg_dst storage frame;
          (dsts, frame'') \<leftarrow> SysV_arg_dsts rest frame';
          Some (dst # dsts, frame'') }"

definition SysV_get_implicit_stack_bytes :: int where
  "SysV_get_implicit_stack_bytes = 16"

definition SysV_create_arg_store_region :: "stack_frame \<Rightarrow> stack_regions \<Rightarrow> stack_regions" where
  "SysV_create_arg_store_region frame regions =
     (let (n, offsets) = arg_store_below 0 (frame_stack_slots frame) 0 (rg_arg_store_offsets regions)
      in regions\<lparr>rg_arg_store_size := n, rg_arg_store_offsets := offsets\<rparr>)"

definition SysV_create_call_arg_region ::
    "m_basic_block list \<Rightarrow> stack_frame \<Rightarrow> stack_regions \<Rightarrow> (stack_frame \<times> stack_regions) option" where
  "SysV_create_call_arg_region blocks frame regions =
     do { (frame', n) \<leftarrow> call_arg_loop 0 (frame_call_arg_slot_indices frame) 0 frame;
          Some (frame', regions\<lparr>rg_call_arg_size := n\<rparr>) }"

definition SysV_create_implicit_region ::
    "m_basic_block list \<Rightarrow> stack_frame \<Rightarrow> stack_regions \<Rightarrow> stack_frame \<times> stack_regions" where
  "SysV_create_implicit_region blocks frame regions =
     (let (saved, frame') = x86_64_save_loop X8664_is_gp 0
            (MachinePassUtils_get_modified_volatile_regs SysV_volatile_regs blocks) 0 frame
      in (frame', regions\<lparr>rg_saved_reg_size := saved,
                          rg_implicit_size := SysV_get_implicit_stack_bytes + saved\<rparr>))"

definition SysV_get_alloca_size :: "stack_regions \<Rightarrow> int" where
  "SysV_get_alloca_size regions =
     (let minimum_size =
            rg_arg_store_size regions + rg_generic_size regions + rg_call_arg_size regions;
          saved_reg_bytes = rg_saved_reg_size regions
      in align_int (minimum_size + saved_reg_bytes) 16 - saved_reg_bytes)"

definition SysV_get_prolog :: "m_basic_block list \<Rightarrow> stack_frame \<Rightarrow> m_instr list option" where
  "SysV_get_prolog blocks frame =
     (let modified_regs = MachinePassUtils_get_modified_volatile_regs SysV_volatile_regs blocks;
          rbp = m_reg X8664_RBP 8; rsp = m_reg X8664_RSP 8;
          frame_size = m_imm (sint (frame_size frame))
      in do { saves \<leftarrow> X8664_sse_moves (\<lambda>slot reg. [slot, reg]) (frame_reg_save_slot_indices frame) modified_regs;
              Some (X8664_pushes modified_regs @
                    [m_instruction X8664_PUSH [rbp], m_instruction X8664_MOV [rbp, rsp],
                     Instruction_set_flag Instruction_FLAG_ALLOCA
                       (m_instruction X8664_SUB [rsp, frame_size])] @ saves) })"

definition SysV_get_epilog :: "m_basic_block list \<Rightarrow> stack_frame \<Rightarrow> m_instr list option" where
  "SysV_get_epilog blocks frame =
     (let modified_regs = MachinePassUtils_get_modified_volatile_regs SysV_volatile_regs blocks;
          rbp = m_reg X8664_RBP 8; rsp = m_reg X8664_RSP 8;
          frame_size = m_imm (sint (frame_size frame))
      in do { restores \<leftarrow> X8664_sse_moves (\<lambda>slot reg. [reg, slot]) (frame_reg_save_slot_indices frame) modified_regs;
              Some (restores @
                    [m_instruction X8664_ADD [rsp, frame_size], m_instruction X8664_POP [rbp]] @
                    X8664_pops modified_regs) })"

definition SysV_is_func_exit :: "int \<Rightarrow> bool" where
  "SysV_is_func_exit opcode \<longleftrightarrow> opcode = X8664_RET"

definition SysVCallingConv :: calling_convention where
  "SysVCallingConv =
     \<lparr>cc_volatile_regs = SysV_volatile_regs,
      cc_create_arg_store_region = SysV_create_arg_store_region,
      cc_create_call_arg_region = SysV_create_call_arg_region,
      cc_create_implicit_region = SysV_create_implicit_region,
      cc_get_alloca_size = SysV_get_alloca_size,
      cc_get_prolog = SysV_get_prolog, cc_get_epilog = SysV_get_epilog,
      cc_is_func_exit = SysV_is_func_exit,
      cc_get_arg_storage = SysV_get_arg_storage\<rparr>"

subsection \<open>Microsoft x64\<close>

definition MSABI_ARG_REGS_INT :: "u32 list" where
  "MSABI_ARG_REGS_INT = [1, 2, 8, 9]"

definition MSABI_ARG_REGS_FP :: "u32 list" where
  "MSABI_ARG_REGS_FP = [16, 17, 18, 19]"

definition MSABI_volatile_regs :: "u32 list" where
  "MSABI_volatile_regs = [0, 1, 2, 6, 7, 8, 9, 10, 11, 16, 17, 18, 19, 20, 21]"

definition MSABI_emit_reg_arg_move :: "ssa_type \<Rightarrow> nat \<Rightarrow> arg_dst list" where
  "MSABI_emit_reg_arg_move t index =
     [Dst_reg ((if Type_is_floating_point t then MSABI_ARG_REGS_FP else MSABI_ARG_REGS_INT) ! index)]"

definition MSABI_emit_reg_arg_move_variadic :: "ssa_type \<Rightarrow> nat \<Rightarrow> arg_dst list option" where
  "MSABI_emit_reg_arg_move_variadic t index =
     (if Type_is_floating_point t then
        do { ASSERT (Type_is_primitive P_F64 t);
             Some [Dst_reg (MSABI_ARG_REGS_FP ! index), Dst_reg (MSABI_ARG_REGS_INT ! index)] }
      else Some [Dst_reg (MSABI_ARG_REGS_INT ! index)])"

definition MSABI_emit_stack_arg_move :: "nat \<Rightarrow> stack_frame \<Rightarrow> arg_dst list \<times> stack_frame" where
  "MSABI_emit_stack_arg_move index frame =
     (let arg_slot_index = index - 4 in
      if length (frame_call_arg_slot_indices frame) \<le> arg_slot_index then
        let (slot, frame') = StackFrame_new_stack_slot frame
              ((StackSlot_make Slot_CALL_ARG 8 1)\<lparr>slot_call_arg_index := of_nat arg_slot_index\<rparr>)
        in ([Dst_slot slot], frame')
      else ([Dst_slot (frame_call_arg_slot_indices frame ! arg_slot_index)], frame))"

definition MSABI_emit_arg_move ::
    "ssa_type \<Rightarrow> nat \<Rightarrow> bool \<Rightarrow> stack_frame \<Rightarrow> (arg_dst list \<times> stack_frame) option" where
  "MSABI_emit_arg_move t index variadic frame =
     (if index < 4 then
        if variadic then do { dsts \<leftarrow> MSABI_emit_reg_arg_move_variadic t index; Some (dsts, frame) }
        else Some (MSABI_emit_reg_arg_move t index, frame)
      else Some (MSABI_emit_stack_arg_move index frame))"

text \<open>The loop of \<open>lower_call\<close> over the arguments.\<close>

fun MSABI_emit_arg_moves ::
    "bool \<Rightarrow> nat \<Rightarrow> ssa_type list \<Rightarrow> stack_frame \<Rightarrow> (arg_dst list list \<times> stack_frame) option" where
  "MSABI_emit_arg_moves variadic index [] frame = Some ([], frame)"
| "MSABI_emit_arg_moves variadic index (t # types) frame =
     do { (dsts, frame') \<leftarrow> MSABI_emit_arg_move t index variadic frame;
          (rest, frame'') \<leftarrow> MSABI_emit_arg_moves variadic (index + 1) types frame';
          Some (dsts # rest, frame'') }"

fun MSABI_arg_storage_loop :: "nat \<Rightarrow> ssa_type list \<Rightarrow> arg_storage list" where
  "MSABI_arg_storage_loop i [] = []"
| "MSABI_arg_storage_loop i (t # types) =
     (if i < length MSABI_ARG_REGS_INT then
        Storage_reg (if Type_is_floating_point t then MSABI_ARG_REGS_FP ! i else MSABI_ARG_REGS_INT ! i)
      else Storage_stack None (8 * i)) # MSABI_arg_storage_loop (i + 1) types"

definition MSABI_get_arg_storage :: "function_type \<Rightarrow> arg_storage list" where
  "MSABI_get_arg_storage ftype = MSABI_arg_storage_loop 0 (ftype_params ftype)"

definition MSABI_get_implicit_stack_bytes :: int where
  "MSABI_get_implicit_stack_bytes = 8"

fun MSABI_arg_store_loop ::
    "nat \<Rightarrow> stack_slot list \<Rightarrow> int \<Rightarrow> (stack_slot_id \<times> int) list \<Rightarrow> (stack_slot_id \<times> int) list" where
  "MSABI_arg_store_loop i [] offset offsets = offsets"
| "MSABI_arg_store_loop i (slot # slots) offset offsets =
     (if \<not> StackSlot_is_defined slot \<and> slot_type slot = Slot_ARG_STORE
      then MSABI_arg_store_loop (i + 1) slots (offset + 8) (offsets @ [(i, offset)])
      else MSABI_arg_store_loop (i + 1) slots offset offsets)"

definition MSABI_create_arg_store_region :: "stack_frame \<Rightarrow> stack_regions \<Rightarrow> stack_regions" where
  "MSABI_create_arg_store_region frame regions =
     regions\<lparr>rg_arg_store_size := 0,
       rg_arg_store_offsets := MSABI_arg_store_loop 0 (frame_stack_slots frame)
         (rg_implicit_size regions) (rg_arg_store_offsets regions)\<rparr>"

definition MSABI_has_call_instr :: "m_basic_block list \<Rightarrow> bool" where
  "MSABI_has_call_instr blocks \<longleftrightarrow>
     list_ex (\<lambda>block. list_ex (\<lambda>instr. instr_opcode instr = X8664_CALL) (m_basic_block.block_instrs block)) blocks"

definition MSABI_create_call_arg_region ::
    "m_basic_block list \<Rightarrow> stack_frame \<Rightarrow> stack_regions \<Rightarrow> (stack_frame \<times> stack_regions) option" where
  "MSABI_create_call_arg_region blocks frame regions =
     (if MSABI_has_call_instr blocks then
        do { (frame', n) \<leftarrow> call_arg_loop 32 (frame_call_arg_slot_indices frame) 32 frame;
             Some (frame', regions\<lparr>rg_call_arg_size := n\<rparr>) }
      else Some (frame, regions\<lparr>rg_call_arg_size := 0\<rparr>))"

definition MSABI_create_implicit_region ::
    "m_basic_block list \<Rightarrow> stack_frame \<Rightarrow> stack_regions \<Rightarrow> stack_frame \<times> stack_regions" where
  "MSABI_create_implicit_region blocks frame regions =
     (let (saved, frame') = x86_64_save_loop X8664_is_gp 8
            (MachinePassUtils_get_modified_volatile_regs MSABI_volatile_regs blocks) 0 frame
      in (frame', regions\<lparr>rg_saved_reg_size := saved,
                          rg_implicit_size := MSABI_get_implicit_stack_bytes + saved\<rparr>))"

definition MSABI_get_alloca_size :: "stack_regions \<Rightarrow> int" where
  "MSABI_get_alloca_size regions =
     (let minimum_size =
            rg_arg_store_size regions + rg_generic_size regions + rg_call_arg_size regions
      in if rg_call_arg_size regions = 0 then minimum_size
         else align_int (minimum_size + rg_implicit_size regions) 16 - rg_implicit_size regions)"

definition MSABI_get_prolog :: "m_basic_block list \<Rightarrow> stack_frame \<Rightarrow> m_instr list option" where
  "MSABI_get_prolog blocks frame =
     (let modified_regs = MachinePassUtils_get_modified_volatile_regs MSABI_volatile_regs blocks;
          allocation =
            (if 0 <s frame_size frame then
               [Instruction_set_flag Instruction_FLAG_ALLOCA
                  (m_instruction X8664_SUB [m_reg X8664_RSP 8, m_imm (sint (frame_size frame))])]
             else [])
      in do { saves \<leftarrow> X8664_sse_moves (\<lambda>slot reg. [slot, reg]) (frame_reg_save_slot_indices frame) modified_regs;
              Some (X8664_pushes modified_regs @ allocation @ saves) })"

definition MSABI_get_epilog :: "m_basic_block list \<Rightarrow> stack_frame \<Rightarrow> m_instr list option" where
  "MSABI_get_epilog blocks frame =
     (let modified_regs = MachinePassUtils_get_modified_volatile_regs MSABI_volatile_regs blocks;
          deallocation =
            (if 0 <s frame_size frame
             then [m_instruction X8664_ADD [m_reg X8664_RSP 8, m_imm (sint (frame_size frame))]] else [])
      in do { restores \<leftarrow> X8664_sse_moves (\<lambda>slot reg. [reg, slot]) (frame_reg_save_slot_indices frame) modified_regs;
              Some (restores @ deallocation @ X8664_pops modified_regs) })"

definition MSABI_is_func_exit :: "int \<Rightarrow> bool" where
  "MSABI_is_func_exit opcode \<longleftrightarrow> opcode = X8664_RET"

definition MSABICallingConv :: calling_convention where
  "MSABICallingConv =
     \<lparr>cc_volatile_regs = MSABI_volatile_regs,
      cc_create_arg_store_region = MSABI_create_arg_store_region,
      cc_create_call_arg_region = MSABI_create_call_arg_region,
      cc_create_implicit_region = MSABI_create_implicit_region,
      cc_get_alloca_size = MSABI_get_alloca_size,
      cc_get_prolog = MSABI_get_prolog, cc_get_epilog = MSABI_get_epilog,
      cc_is_func_exit = MSABI_is_func_exit,
      cc_get_arg_storage = MSABI_get_arg_storage\<rparr>"

end
