(* ===== verification/Stack_Layout.thy ===== *)
theory Stack_Layout
  imports Calling_Conv
begin

section \<open>The layout of stack frames\<close>

text \<open>
  The contract of a calling convention that the stack frame pass relies on, as a locale, with the
  layout that the pass then produces; the three native conventions satisfy it.
\<close>

subsection \<open>Placing slots one below the other\<close>

text \<open>The loops that take the slots downwards, over the slots to place and the space each takes.\<close>

fun place_down ::
    "(stack_slot \<Rightarrow> bool) \<Rightarrow> (stack_slot \<Rightarrow> int) \<Rightarrow> nat \<Rightarrow> stack_slot list \<Rightarrow> int \<Rightarrow> int \<times> (nat \<times> int) list" where
  "place_down P sz i [] n = (n, [])"
| "place_down P sz i (slot # slots) n =
     (if P slot then
        let n' = n - sz slot; (m, offsets) = place_down P sz (i + 1) slots n' in (m, (i, n') # offsets)
      else place_down P sz (i + 1) slots n)"

definition to_place :: "stack_slot_type \<Rightarrow> stack_slot \<Rightarrow> bool" where
  "to_place t slot \<longleftrightarrow> \<not> StackSlot_is_defined slot \<and> slot_type slot = t"

lemma arg_store_below_place:
  "arg_store_below i slots n offsets =
     (let (m, new) = place_down (to_place Slot_ARG_STORE) (\<lambda>s. sint (slot_size s)) i slots n
      in (m, offsets @ new))"
  by (induction slots arbitrary: i n offsets)
    (auto simp: to_place_def Let_def split: prod.splits)

lemma generic_loop_place:
  "StackFramePass_generic_loop i slots n offsets =
     (let (m, new) = place_down (to_place Slot_GENERIC) (\<lambda>s. align_int (sint (slot_size s)) 8) i slots n
      in (m, offsets @ new))"
  by (induction slots arbitrary: i n offsets)
    (auto simp: to_place_def Let_def split: prod.splits)

text \<open>Offsets for the slots of a kind: each of them once, apart from each other.\<close>

definition apart_in :: "(stack_slot \<Rightarrow> int) \<Rightarrow> stack_slot list \<Rightarrow> nat \<times> int \<Rightarrow> nat \<times> int \<Rightarrow> bool" where
  "apart_in sz slots p q \<longleftrightarrow>
     snd p + sz (slots ! fst p) \<le> snd q \<or> snd q + sz (slots ! fst q) \<le> snd p"

definition placed ::
    "(stack_slot \<Rightarrow> bool) \<Rightarrow> (stack_slot \<Rightarrow> int) \<Rightarrow> stack_slot list \<Rightarrow> (nat \<times> int) list \<Rightarrow> bool" where
  "placed P sz slots offsets \<longleftrightarrow>
     distinct (map fst offsets) \<and>
     fst ` set offsets = {i. i < length slots \<and> P (slots ! i)} \<and>
     (\<forall>p\<in>set offsets. \<forall>q\<in>set offsets. fst p \<noteq> fst q \<longrightarrow> apart_in sz slots p q)"

lemma place_down_chain:
  assumes "place_down P sz i (drop i slots) n = (m, offsets)" and "\<And>s. s \<in> set slots \<Longrightarrow> 0 \<le> sz s"
  shows "m \<le> n \<and> fst ` set offsets = {j. i \<le> j \<and> j < length slots \<and> P (slots ! j)} \<and>
    (\<forall>p\<in>set offsets. m \<le> snd p \<and> snd p + sz (slots ! fst p) \<le> n) \<and>
    sorted_wrt (\<lambda>p q. fst p < fst q \<and> snd q + sz (slots ! fst q) \<le> snd p) offsets"
  using assms(1)
proof (induction "length slots - i" arbitrary: i n m offsets)
  case 0
  then show ?case by auto
next
  case (Suc k)
  then have i: "i < length slots"
    by simp
  have slot: "drop i slots = slots ! i # drop (Suc i) slots" "0 \<le> sz (slots ! i)"
    using i assms(2) by (simp_all add: Cons_nth_drop_Suc)
  have keys: "{j. i \<le> j \<and> j < length slots \<and> P (slots ! j)} =
      (if P (slots ! i) then {i} else {}) \<union> {j. Suc i \<le> j \<and> j < length slots \<and> P (slots ! j)}"
    using i by (auto simp: not_less_eq_eq dest: le_imp_less_or_eq)
  have hyp: "k = length slots - Suc i"
    using Suc.hyps(2) by simp
  show ?case
  proof (cases "P (slots ! i)")
    case True
    then obtain new where new: "place_down P sz (Suc i) (drop (Suc i) slots) (n - sz (slots ! i)) = (m, new)"
      "offsets = (i, n - sz (slots ! i)) # new"
      using Suc.prems slot(1) by (auto simp: Let_def split: prod.splits)
    note IH = Suc.hyps(1) [OF hyp new(1)]
    have later: "i < fst q \<and> m \<le> snd q \<and> snd q + sz (slots ! fst q) \<le> n - sz (slots ! i)"
      if "q \<in> set new" for q
      using that IH by (metis (mono_tags, lifting) Suc_le_eq image_eqI mem_Collect_eq)
    have "fst ` set offsets = {j. i \<le> j \<and> j < length slots \<and> P (slots ! j)}"
      using IH True by (simp add: new(2) keys)
    moreover have "\<forall>p\<in>set offsets. m \<le> snd p \<and> snd p + sz (slots ! fst p) \<le> n"
      using IH slot(2) later unfolding new(2) by fastforce
    moreover have "sorted_wrt (\<lambda>p q. fst p < fst q \<and> snd q + sz (slots ! fst q) \<le> snd p) offsets"
      using IH later by (simp add: new(2))
    ultimately show ?thesis
      using IH slot(2) by simp
  next
    case False
    then have "place_down P sz (Suc i) (drop (Suc i) slots) n = (m, offsets)"
      using Suc.prems slot(1) by simp
    from Suc.hyps(1) [OF hyp this] show ?thesis
      using False keys by simp
  qed
qed

lemma chain_placed:
  assumes "fst ` set offsets = {j. j < length slots \<and> P (slots ! j)}"
    and "sorted_wrt (\<lambda>p q. fst p < fst q \<and> apart_in sz slots p q) offsets"
  shows "placed P sz slots offsets"
proof -
  have "sorted_wrt (<) (map fst offsets)"
    using assms(2) by (auto simp: sorted_wrt_map intro: sorted_wrt_mono_rel [rotated])
  then have "distinct (map fst offsets)"
    by (simp add: strict_sorted_iff)
  moreover have "apart_in sz slots p q" if pq: "p \<in> set offsets" "q \<in> set offsets" and ne: "fst p \<noteq> fst q" for p q
  proof -
    obtain a b where ab: "a < length offsets" "b < length offsets" "p = offsets ! a" "q = offsets ! b"
      using pq by (auto simp: in_set_conv_nth)
    then consider "a < b" | "b < a"
      using ne by (metis nat_neq_iff)
    then show ?thesis
      using ab sorted_wrt_nth_less [OF assms(2)] by cases (auto simp: apart_in_def disj_commute)
  qed
  ultimately show ?thesis
    using assms(1) by (simp add: placed_def)
qed

lemma place_down_placed:
  assumes "place_down P sz 0 slots n = (m, offsets)" and "\<And>s. s \<in> set slots \<Longrightarrow> 0 \<le> sz s"
  shows "placed P sz slots offsets" and "m \<le> n"
    and "p \<in> set offsets \<Longrightarrow> m \<le> snd p \<and> snd p + sz (slots ! fst p) \<le> n"
proof -
  have chain: "m \<le> n \<and> fst ` set offsets = {j. j < length slots \<and> P (slots ! j)} \<and>
      (\<forall>p\<in>set offsets. m \<le> snd p \<and> snd p + sz (slots ! fst p) \<le> n) \<and>
      sorted_wrt (\<lambda>p q. fst p < fst q \<and> snd q + sz (slots ! fst q) \<le> snd p) offsets"
    using place_down_chain [of P sz 0 slots n m offsets] assms by simp
  have "sorted_wrt (\<lambda>p q. fst p < fst q \<and> apart_in sz slots p q) offsets"
    by (rule sorted_wrt_mono_rel [OF _ conjunct2 [OF conjunct2 [OF conjunct2 [OF chain]]]])
      (auto simp: apart_in_def)
  with chain show "placed P sz slots offsets"
    by (blast intro: chain_placed)
  show "m \<le> n" and "p \<in> set offsets \<Longrightarrow> m \<le> snd p \<and> snd p + sz (slots ! fst p) \<le> n"
    using chain by blast+
qed

text \<open>
  The homes of the Microsoft convention: eight bytes for every slot of a stored argument, upwards in the
  order of the slots.
\<close>

definition store_rank :: "stack_slot list \<Rightarrow> nat \<Rightarrow> nat" where
  "store_rank slots i = length (filter (\<lambda>s. slot_type s = Slot_ARG_STORE) (take i slots))"

lemma store_rank_le: "i < length slots \<Longrightarrow> store_rank slots i \<le> length slots"
  unfolding store_rank_def by (metis length_filter_le length_take min.cobounded1 order_trans)

lemma store_rank_map: "map slot_type slots = map slot_type slots' \<Longrightarrow> store_rank slots i = store_rank slots' i"
proof -
  have "store_rank ss i = length (filter (\<lambda>t. t = Slot_ARG_STORE) (take i (map slot_type ss)))" for ss
    by (simp add: store_rank_def take_map filter_map o_def)
  then show "map slot_type slots = map slot_type slots' \<Longrightarrow> store_rank slots i = store_rank slots' i" by simp
qed

lemma store_rank_append: "i < length slots \<Longrightarrow> store_rank (slots @ extra) i = store_rank slots i"
  by (simp add: store_rank_def)

lemma MSABI_arg_store_rank:
  assumes "p \<in> set (MSABI_arg_store_loop i ss m os)" and "p \<notin> set os"
    and "\<And>s. s \<in> set ss \<Longrightarrow> \<not> StackSlot_is_defined s"
  shows "i \<le> fst p \<and> snd p = m + 8 * int (store_rank ss (fst p - i))"
  using assms
proof (induction ss arbitrary: i m os)
  case (Cons slot ss)
  have rank: "store_rank (slot # ss) (fst p - i) =
      (if slot_type slot = Slot_ARG_STORE then 1 else 0) + store_rank ss (fst p - (i + 1))" if "i + 1 \<le> fst p"
  proof -
    have "fst p - i = Suc (fst p - (i + 1))" using that by simp
    then show ?thesis by (simp add: store_rank_def)
  qed
  show ?case
  proof (cases "slot_type slot = Slot_ARG_STORE")
    case True
    show ?thesis
    proof (cases "p = (i, m)")
      case False
      then show ?thesis
        using Cons.IH [of "i + 1" "m + 8" "os @ [(i, m)]"] Cons.prems True rank by auto
    qed (simp add: store_rank_def)
  next
    case False
    then show ?thesis
      using Cons.IH [of "i + 1" m os] Cons.prems rank by auto
  qed
qed simp

lemma MSABI_arg_store_chain:
  "MSABI_arg_store_loop i (drop i slots) n offsets = offsets @ new \<Longrightarrow>
   fst ` set new = {j. i \<le> j \<and> j < length slots \<and> to_place Slot_ARG_STORE (slots ! j)} \<and>
   (\<forall>p\<in>set new. n \<le> snd p) \<and> sorted_wrt (\<lambda>p q. fst p < fst q \<and> snd p + 8 \<le> snd q) new"
proof (induction "length slots - i" arbitrary: i n offsets new)
  case 0
  then show ?case by auto
next
  case (Suc k)
  then have i: "i < length slots"
    by simp
  have slot: "drop i slots = slots ! i # drop (Suc i) slots"
    using i by (simp add: Cons_nth_drop_Suc)
  let ?P = "to_place Slot_ARG_STORE"
  have keys: "{j. i \<le> j \<and> j < length slots \<and> ?P (slots ! j)} =
      (if ?P (slots ! i) then {i} else {}) \<union> {j. Suc i \<le> j \<and> j < length slots \<and> ?P (slots ! j)}"
    using i by (auto simp: not_less_eq_eq dest: le_imp_less_or_eq)
  have hyp: "k = length slots - Suc i"
    using Suc.hyps(2) by simp
  have grows: "\<exists>new. MSABI_arg_store_loop j ss m os = os @ new" for j ss m os
    by (induction ss arbitrary: j m os) (auto, metis append.assoc)
  show ?case
  proof (cases "?P (slots ! i)")
    case True
    obtain rest where rest: "MSABI_arg_store_loop (Suc i) (drop (Suc i) slots) (n + 8) (offsets @ [(i, n)]) =
        (offsets @ [(i, n)]) @ rest"
      using grows by blast
    then have new: "new = (i, n) # rest"
      using Suc.prems True slot by (simp add: to_place_def)
    note IH = Suc.hyps(1) [OF hyp rest]
    have "i < fst q \<and> n + 8 \<le> snd q" if "q \<in> set rest" for q
      using that IH by (metis (mono_tags, lifting) Suc_le_eq image_eqI mem_Collect_eq)
    then show ?thesis
      using IH True keys by (force simp: new)
  next
    case False
    then have "MSABI_arg_store_loop (Suc i) (drop (Suc i) slots) n offsets = offsets @ new"
      using Suc.prems slot by (auto simp: to_place_def)
    from Suc.hyps(1) [OF hyp this] show ?thesis
      using False keys by simp
  qed
qed

lemma MSABI_arg_store_placed:
  assumes "\<And>s. s \<in> set slots \<Longrightarrow> to_place Slot_ARG_STORE s \<Longrightarrow> sz s \<le> 8"
  shows "placed (to_place Slot_ARG_STORE) sz slots (MSABI_arg_store_loop 0 slots n [])"
    and "p \<in> set (MSABI_arg_store_loop 0 slots n []) \<Longrightarrow> n \<le> snd p"
proof -
  let ?new = "MSABI_arg_store_loop 0 slots n []"
  have chain: "fst ` set ?new = {j. j < length slots \<and> to_place Slot_ARG_STORE (slots ! j)} \<and>
      (\<forall>p\<in>set ?new. n \<le> snd p) \<and> sorted_wrt (\<lambda>p q. fst p < fst q \<and> snd p + 8 \<le> snd q) ?new"
    using MSABI_arg_store_chain [of 0 slots n "[]" ?new] by simp
  have small: "sz (slots ! fst p) \<le> 8" if "p \<in> set ?new" for p
  proof -
    have "fst p < length slots" "to_place Slot_ARG_STORE (slots ! fst p)"
      using chain that by blast+
    then show ?thesis
      using assms by simp
  qed
  have "sorted_wrt (\<lambda>p q. fst p < fst q \<and> apart_in sz slots p q) ?new"
    by (rule sorted_wrt_mono_rel [OF _ conjunct2 [OF conjunct2 [OF chain]]])
      (auto simp: apart_in_def dest: small)
  with chain show "placed (to_place Slot_ARG_STORE) sz slots ?new"
    by (blast intro: chain_placed)
  show "p \<in> set ?new \<Longrightarrow> n \<le> snd p"
    using chain by blast
qed

subsection \<open>Setting offsets\<close>

lemma set_offset_Some:
  "i < length (frame_stack_slots frame) \<Longrightarrow>
   StackFrame_set_offset i w frame =
     Some (frame\<lparr>frame_stack_slots := (frame_stack_slots frame)
       [i := (frame_stack_slots frame ! i)\<lparr>slot_offset := w\<rparr>]\<rparr>)"
  by (simp add: StackFrame_set_offset_def StackFrame_get_stack_slot_def)

text \<open>The slots of a frame up to their offsets.\<close>

definition same_slots :: "stack_frame \<Rightarrow> stack_frame \<Rightarrow> bool" where
  "same_slots frame frame' \<longleftrightarrow>
     map (\<lambda>s. s\<lparr>slot_offset := 0\<rparr>) (frame_stack_slots frame') =
     map (\<lambda>s. s\<lparr>slot_offset := 0\<rparr>) (frame_stack_slots frame)"

lemma same_slots_refl [simp]: "same_slots frame frame"
  by (simp add: same_slots_def)

lemma same_slots_trans: "same_slots f g \<Longrightarrow> same_slots g h \<Longrightarrow> same_slots f h"
  by (simp add: same_slots_def)

lemma same_slots_length: "same_slots f g \<Longrightarrow> length (frame_stack_slots g) = length (frame_stack_slots f)"
  unfolding same_slots_def by (metis length_map)

lemma same_slots_nth:
  assumes "same_slots f g" and "i < length (frame_stack_slots f)"
  shows "slot_size (frame_stack_slots g ! i) = slot_size (frame_stack_slots f ! i)"
    and "slot_type (frame_stack_slots g ! i) = slot_type (frame_stack_slots f ! i)"
    and "slot_call_arg_index (frame_stack_slots g ! i) = slot_call_arg_index (frame_stack_slots f ! i)"
proof -
  have "(frame_stack_slots g ! i)\<lparr>slot_offset := 0\<rparr> = (frame_stack_slots f ! i)\<lparr>slot_offset := 0\<rparr>"
    using assms same_slots_length [OF assms(1)] unfolding same_slots_def by (metis nth_map)
  then show "slot_size (frame_stack_slots g ! i) = slot_size (frame_stack_slots f ! i)"
    and "slot_type (frame_stack_slots g ! i) = slot_type (frame_stack_slots f ! i)"
    and "slot_call_arg_index (frame_stack_slots g ! i) = slot_call_arg_index (frame_stack_slots f ! i)"
    by (metis stack_slot.select_convs stack_slot.surjective stack_slot.update_convs(4))+
qed

lemma set_offset_same:
  "StackFrame_set_offset i w frame = Some frame' \<Longrightarrow> same_slots frame frame'"
  by (auto simp: StackFrame_set_offset_def StackFrame_get_stack_slot_def same_slots_def map_update
      split: bind_splits intro!: nth_equalityI simp: nth_list_update)

lemma set_offsets_result:
  assumes "distinct (map fst offsets)" and "\<forall>p\<in>set offsets. fst p < length (frame_stack_slots frame)"
  shows "\<exists>slots. StackFramePass_set_offsets n offsets frame = Some (frame\<lparr>frame_stack_slots := slots\<rparr>) \<and>
    same_slots frame (frame\<lparr>frame_stack_slots := slots\<rparr>) \<and>
    (\<forall>(i, off)\<in>set offsets. slot_offset (slots ! i) = word_of_int (off + n)) \<and>
    (\<forall>i<length slots. i \<notin> fst ` set offsets \<longrightarrow> slots ! i = frame_stack_slots frame ! i)"
  using assms
proof (induction offsets arbitrary: frame)
  case Nil
  then show ?case
    by (auto intro!: exI [of _ "frame_stack_slots frame"])
next
  case (Cons p offsets)
  obtain i off where p: "p = (i, off)" and i: "i < length (frame_stack_slots frame)"
    using Cons.prems by (cases p) auto
  define slots1 where "slots1 = (frame_stack_slots frame)
    [i := (frame_stack_slots frame ! i)\<lparr>slot_offset := word_of_int (off + n)\<rparr>]"
  let ?frame1 = "frame\<lparr>frame_stack_slots := slots1\<rparr>"
  have set1: "StackFrame_set_offset i (word_of_int (off + n)) frame = Some ?frame1"
    using set_offset_Some [OF i] by (simp add: slots1_def)
  from Cons.IH [of ?frame1] Cons.prems obtain slots where slots:
    "StackFramePass_set_offsets n offsets ?frame1 = Some (?frame1\<lparr>frame_stack_slots := slots\<rparr>)"
    "same_slots ?frame1 (?frame1\<lparr>frame_stack_slots := slots\<rparr>)"
    "\<forall>(i, off)\<in>set offsets. slot_offset (slots ! i) = word_of_int (off + n)"
    "\<forall>j<length slots. j \<notin> fst ` set offsets \<longrightarrow> slots ! j = slots1 ! j"
    by (auto simp: slots1_def)
  have len: "length slots = length (frame_stack_slots frame)"
    using same_slots_length [OF slots(2)] by (simp add: slots1_def)
  have "i \<notin> fst ` set offsets"
    using Cons.prems(1) p by (auto simp: image_iff)
  then have "slots ! i = slots1 ! i"
    using slots(4) i len by simp
  then have "slot_offset (slots ! i) = word_of_int (off + n)"
    using i by (simp add: slots1_def)
  moreover have "slots ! j = frame_stack_slots frame ! j" if "j < length slots" "j \<notin> fst ` set (p # offsets)" for j
    using slots(4) that p by (auto simp: slots1_def)
  moreover have "same_slots frame (frame\<lparr>frame_stack_slots := slots\<rparr>)"
    using same_slots_trans [OF set_offset_same [OF set1] slots(2)] by (simp add: same_slots_def)
  moreover have "StackFramePass_set_offsets n (p # offsets) frame = Some (frame\<lparr>frame_stack_slots := slots\<rparr>)"
    using set1 slots(1) p by simp
  ultimately show ?case
    using slots(3) p by (intro exI [of _ slots]) auto
qed

subsection \<open>Outgoing arguments and saved registers\<close>

text \<open>The slots of outgoing arguments are listed in the order of their index.\<close>

definition call_slots_ok :: "stack_frame \<Rightarrow> bool" where
  "call_slots_ok frame \<longleftrightarrow>
     distinct (frame_call_arg_slot_indices frame) \<and>
     set (frame_call_arg_slot_indices frame) =
       {i. i < length (frame_stack_slots frame) \<and> slot_type (frame_stack_slots frame ! i) = Slot_CALL_ARG} \<and>
     (\<forall>k<length (frame_call_arg_slot_indices frame).
        let slot = frame_stack_slots frame ! (frame_call_arg_slot_indices frame ! k) in
        slot_call_arg_index slot = of_nat k \<and> sint (slot_size slot) \<le> 8)"

lemma call_slots_ok_create:
  assumes "call_slots_ok frame" and "index \<le> length (frame_call_arg_slot_indices frame)"
    and "StackFrame_create_call_arg_slot frame index 8 a = (slot, frame')"
  shows "call_slots_ok frame'" and "slot = frame_call_arg_slot_indices frame' ! index"
    and "index < length (frame_call_arg_slot_indices frame')"
    and "length (frame_call_arg_slot_indices frame) \<le> length (frame_call_arg_slot_indices frame')"
proof -
  have less: "frame_call_arg_slot_indices frame ! k < length (frame_stack_slots frame)"
    if "k < length (frame_call_arg_slot_indices frame)" for k
    using assms(1) nth_mem [OF that] by (simp add: call_slots_ok_def)
  have fresh: "length (frame_stack_slots frame) \<notin> set (frame_call_arg_slot_indices frame)"
    using assms(1) by (simp add: call_slots_ok_def)
  have "call_slots_ok frame' \<and> slot = frame_call_arg_slot_indices frame' ! index \<and>
      index < length (frame_call_arg_slot_indices frame') \<and>
      length (frame_call_arg_slot_indices frame) \<le> length (frame_call_arg_slot_indices frame')"
  proof (cases "index < length (frame_call_arg_slot_indices frame)")
    case False
    then show ?thesis
      using assms less fresh
      by (auto simp: call_slots_ok_def StackFrame_create_call_arg_slot_def StackFrame_new_stack_slot_def
          StackSlot_make_def Let_def nth_append less_Suc_eq)
  qed (use assms in \<open>auto simp: StackFrame_create_call_arg_slot_def\<close>)
  then show "call_slots_ok frame'" and "slot = frame_call_arg_slot_indices frame' ! index"
    and "index < length (frame_call_arg_slot_indices frame')"
    and "length (frame_call_arg_slot_indices frame) \<le> length (frame_call_arg_slot_indices frame')"
    by blast+
qed

lemma call_arg_loop_result:
  assumes "distinct idx" and "\<forall>i\<in>set idx. i < length (frame_stack_slots frame)"
  shows "\<exists>slots. call_arg_loop base idx n frame =
      Some (frame\<lparr>frame_stack_slots := slots\<rparr>, n + 8 * int (length idx)) \<and>
    same_slots frame (frame\<lparr>frame_stack_slots := slots\<rparr>) \<and>
    (\<forall>i\<in>set idx. slot_offset (slots ! i) =
       base + 8 * slot_call_arg_index (frame_stack_slots frame ! i)) \<and>
    (\<forall>i<length slots. i \<notin> set idx \<longrightarrow> slots ! i = frame_stack_slots frame ! i)"
  using assms
proof (induction idx arbitrary: frame n)
  case Nil
  then show ?case
    by (auto intro!: exI [of _ "frame_stack_slots frame"])
next
  case (Cons i idx)
  define slots1 where "slots1 = (frame_stack_slots frame)[i := (frame_stack_slots frame ! i)
    \<lparr>slot_offset := base + 8 * slot_call_arg_index (frame_stack_slots frame ! i)\<rparr>]"
  let ?frame1 = "frame\<lparr>frame_stack_slots := slots1\<rparr>"
  have set1: "StackFrame_set_offset i
      (base + 8 * slot_call_arg_index (frame_stack_slots frame ! i)) frame = Some ?frame1"
    using Cons.prems(2) by (simp add: set_offset_Some slots1_def)
  from Cons.IH [of ?frame1 "n + 8"] Cons.prems obtain slots where slots:
    "call_arg_loop base idx (n + 8) ?frame1 =
       Some (?frame1\<lparr>frame_stack_slots := slots\<rparr>, n + 8 + 8 * int (length idx))"
    "same_slots ?frame1 (?frame1\<lparr>frame_stack_slots := slots\<rparr>)"
    "\<forall>j\<in>set idx. slot_offset (slots ! j) = base + 8 * slot_call_arg_index (slots1 ! j)"
    "\<forall>j<length slots. j \<notin> set idx \<longrightarrow> slots ! j = slots1 ! j"
    by (auto simp: slots1_def)
  have len: "length slots = length (frame_stack_slots frame)"
    using same_slots_length [OF slots(2)] by (simp add: slots1_def)
  have "slots ! i = slots1 ! i"
    using slots(4) len Cons.prems by simp
  then have "slot_offset (slots ! j) = base + 8 * slot_call_arg_index (frame_stack_slots frame ! j)"
    if "j \<in> set (i # idx)" for j
    using that slots(3) Cons.prems by (auto simp: slots1_def nth_list_update)
  moreover have "slots ! j = frame_stack_slots frame ! j" if "j < length slots" "j \<notin> set (i # idx)" for j
    using slots(4) that by (auto simp: slots1_def)
  moreover have "same_slots frame (frame\<lparr>frame_stack_slots := slots\<rparr>)"
    using same_slots_trans [OF set_offset_same [OF set1] slots(2)] by (simp add: same_slots_def)
  moreover have "call_arg_loop base (i # idx) n frame =
      Some (frame\<lparr>frame_stack_slots := slots\<rparr>, n + 8 * int (length (i # idx)))"
    using set1 slots(1) Cons.prems(2) by (simp add: StackFrame_get_stack_slot_def)
  ultimately show ?case
    by blast
qed

lemma save_loop_result:
  "\<exists>k. x86_64_save_loop is_gp a regs n frame =
     (n + 8 * int (length (filter is_gp regs)),
      frame\<lparr>frame_stack_slots := frame_stack_slots frame @ replicate k (StackSlot_make Slot_GENERIC 8 a),
            frame_reg_save_slot_indices := frame_reg_save_slot_indices frame @
              [length (frame_stack_slots frame)..<length (frame_stack_slots frame) + k]\<rparr>) \<and>
     k = length (filter (\<lambda>r. \<not> is_gp r) regs)"
proof (induction regs arbitrary: n frame)
  case (Cons reg regs)
  show ?case
  proof (cases "is_gp reg")
    case True
    with Cons.IH [of "n + 8" frame] show ?thesis
      by auto
  next
    case False
    let ?frame1 = "frame\<lparr>frame_stack_slots := frame_stack_slots frame @ [StackSlot_make Slot_GENERIC 8 a],
      frame_reg_save_slot_indices := frame_reg_save_slot_indices frame @ [length (frame_stack_slots frame)]\<rparr>"
    have "x86_64_save_loop is_gp a (reg # regs) n frame = x86_64_save_loop is_gp a regs n ?frame1"
      using False by (simp add: StackFrame_new_stack_slot_def StackSlot_make_def Let_def)
    with Cons.IH [of n ?frame1] False show ?thesis
      by (auto simp: replicate_append_same upt_conv_Cons simp del: upt_Suc)
  qed
qed simp

lemma params_result:
  assumes "distinct (map fst targets)" and "\<forall>p\<in>set targets. fst p < length (frame_stack_slots frame)"
    and "targets = concat (map (\<lambda>(param, storage).
      case storage of Storage_reg _ \<Rightarrow> [] | Storage_stack _ s \<Rightarrow> [(projr (mparam_storage param), s)]) ps)"
    and "\<forall>(param, storage)\<in>set ps. (\<exists>r. storage = Storage_reg r) \<or> \<not> isl (mparam_storage param)"
  shows "\<exists>slots. StackFramePass_params ps frame = Some (frame\<lparr>frame_stack_slots := slots\<rparr>) \<and>
    same_slots frame (frame\<lparr>frame_stack_slots := slots\<rparr>) \<and>
    (\<forall>(i, s)\<in>set targets. slot_offset (slots ! i) = frame_total_size frame + of_nat s) \<and>
    (\<forall>i<length slots. i \<notin> fst ` set targets \<longrightarrow> slots ! i = frame_stack_slots frame ! i)"
  using assms
proof (induction ps arbitrary: frame targets)
  case Nil
  then show ?case
    by (auto intro!: exI [of _ "frame_stack_slots frame"])
next
  case (Cons p ps)
  obtain param storage where p: "p = (param, storage)"
    by (cases p)
  show ?case
  proof (cases storage)
    case (Storage_reg r)
    with Cons.IH [of targets frame] Cons.prems p show ?thesis
      by simp
  next
    case (Storage_stack q s)
    then obtain i where i: "mparam_storage param = Inr i"
      using Cons.prems(4) p by (cases "mparam_storage param") auto
    define rest where "rest = concat (map (\<lambda>(param, storage).
      case storage of Storage_reg _ \<Rightarrow> [] | Storage_stack _ s \<Rightarrow> [(projr (mparam_storage param), s)]) ps)"
    have targets: "targets = (i, s) # rest"
      using Cons.prems(3) p Storage_stack i by (simp add: rest_def)
    define slots1 where "slots1 = (frame_stack_slots frame)
      [i := (frame_stack_slots frame ! i)\<lparr>slot_offset := frame_total_size frame + of_nat s\<rparr>]"
    let ?frame1 = "frame\<lparr>frame_stack_slots := slots1\<rparr>"
    have set1: "StackFrame_set_offset i (frame_total_size frame + of_nat s) frame = Some ?frame1"
      using Cons.prems(2) targets by (simp add: set_offset_Some slots1_def)
    from Cons.IH [of rest ?frame1] Cons.prems targets obtain slots where slots:
      "StackFramePass_params ps ?frame1 = Some (?frame1\<lparr>frame_stack_slots := slots\<rparr>)"
      "same_slots ?frame1 (?frame1\<lparr>frame_stack_slots := slots\<rparr>)"
      "\<forall>(i, s)\<in>set rest. slot_offset (slots ! i) = frame_total_size frame + of_nat s"
      "\<forall>j<length slots. j \<notin> fst ` set rest \<longrightarrow> slots ! j = slots1 ! j"
      by (auto simp: slots1_def rest_def)
    have len: "length slots = length (frame_stack_slots frame)"
      using same_slots_length [OF slots(2)] by (simp add: slots1_def)
    have "i \<notin> fst ` set rest"
      using Cons.prems(1) targets by (auto simp: image_iff)
    then have "slots ! i = slots1 ! i"
      using slots(4) Cons.prems(2) targets len by simp
    then have "slot_offset (slots ! i) = frame_total_size frame + of_nat s"
      using Cons.prems(2) targets by (simp add: slots1_def)
    moreover have "slots ! j = frame_stack_slots frame ! j"
      if "j < length slots" "j \<notin> fst ` set targets" for j
      using slots(4) that targets by (auto simp: slots1_def)
    moreover have "same_slots frame (frame\<lparr>frame_stack_slots := slots\<rparr>)"
      using same_slots_trans [OF set_offset_same [OF set1] slots(2)] by (simp add: same_slots_def)
    moreover have "StackFramePass_params (p # ps) frame = Some (frame\<lparr>frame_stack_slots := slots\<rparr>)"
      using set1 slots(1) p Storage_stack i by simp
    ultimately show ?thesis
      using slots(3) targets by (intro exI [of _ slots]) auto
  qed
qed

subsection \<open>The contract of a calling convention\<close>

definition reg_count :: "calling_convention \<Rightarrow> m_basic_block list \<Rightarrow> nat" where
  "reg_count cc blocks =
     length (MachinePassUtils_get_modified_volatile_regs (cc_volatile_regs cc) blocks)"

abbreviation sz_of :: "stack_slot \<Rightarrow> int" where
  "sz_of slot \<equiv> sint (slot_size slot)"

abbreviation slots_of :: "stack_frame \<Rightarrow> stack_slot list" where
  "slots_of frame \<equiv> frame_stack_slots frame"

text \<open>
  \<open>home\<close> says whether arguments are stored at their homes, the places that the caller keeps for them
  above the frame, or inside of the frame; \<open>store_ok\<close> which slots may hold a stored argument;
  \<open>calls_ok\<close> which code may have slots for outgoing arguments.
\<close>

locale stack_convention =
  fixes cc :: calling_convention
    and home :: bool
    and store_ok :: "stack_slot \<Rightarrow> bool"
    and calls_ok :: "m_basic_block list \<Rightarrow> bool"
  assumes implicit: "\<And>regions :: stack_regions.
      cc_create_implicit_region cc blocks frame StackRegions = (frame', regions) \<Longrightarrow>
      \<exists>k a. slots_of frame' = slots_of frame @ replicate k (StackSlot_make Slot_GENERIC 8 a) \<and>
        frame_call_arg_slot_indices frame' = frame_call_arg_slot_indices frame \<and>
        k \<le> reg_count cc blocks \<and> 0 \<le> rg_saved_reg_size regions \<and>
        rg_saved_reg_size regions \<le> rg_implicit_size regions \<and>
        rg_implicit_size regions \<le> 16 + 8 * int (reg_count cc blocks) \<and>
        rg_arg_store_offsets regions = []"
    and arg_store: "\<And>regions :: stack_regions. rg_arg_store_offsets regions = [] \<Longrightarrow> 0 \<le> rg_implicit_size regions \<Longrightarrow>
      (\<And>s. s \<in> set (slots_of frame) \<Longrightarrow> \<not> StackSlot_is_defined s \<and> 0 \<le> sz_of s \<and>
        (slot_type s = Slot_ARG_STORE \<longrightarrow> store_ok s)) \<Longrightarrow>
      \<exists>n offsets. cc_create_arg_store_region cc frame regions =
          regions\<lparr>rg_arg_store_size := n, rg_arg_store_offsets := offsets\<rparr> \<and>
        placed (to_place Slot_ARG_STORE) sz_of (slots_of frame) offsets \<and>
        n \<le> 0 \<and> - n \<le> sum_list (map sz_of (slots_of frame)) \<and>
        (\<forall>p\<in>set offsets. if home then snd p = rg_implicit_size regions + 8 * int (store_rank (slots_of frame) (fst p))
           else n \<le> snd p \<and> snd p + sz_of (slots_of frame ! fst p) \<le> 0)"
    and call_arg: "call_slots_ok frame \<Longrightarrow>
      calls_ok blocks \<or> frame_call_arg_slot_indices frame = [] \<Longrightarrow>
      \<exists>slots b n. cc_create_call_arg_region cc blocks frame regions =
          Some (frame\<lparr>frame_stack_slots := slots\<rparr>, regions\<lparr>rg_call_arg_size := n\<rparr>) \<and>
        same_slots frame (frame\<lparr>frame_stack_slots := slots\<rparr>) \<and>
        (\<forall>k<length (frame_call_arg_slot_indices frame).
           slot_offset (slots ! (frame_call_arg_slot_indices frame ! k)) = word_of_int (b + 8 * int k)) \<and>
        (\<forall>i<length slots. i \<notin> set (frame_call_arg_slot_indices frame) \<longrightarrow>
           slots ! i = slots_of frame ! i) \<and>
        0 \<le> b \<and> b + 8 * int (length (frame_call_arg_slot_indices frame)) \<le> n \<and>
        n \<le> 32 + 8 * int (length (frame_call_arg_slot_indices frame))"
    and alloca: "\<And>regions :: stack_regions. 0 \<le> rg_saved_reg_size regions \<Longrightarrow> rg_saved_reg_size regions \<le> rg_implicit_size regions \<Longrightarrow>
      need = rg_arg_store_size regions + rg_generic_size regions + rg_call_arg_size regions \<Longrightarrow>
      0 \<le> need \<Longrightarrow> need \<le> cc_get_alloca_size cc regions \<and> cc_get_alloca_size cc regions \<le> need + 32"
    and arg_storage: "Storage_stack q s \<in> set (cc_get_arg_storage cc ftype) \<Longrightarrow>
      s \<le> 8 * length (ftype_params ftype) \<and> (home \<longrightarrow> 8 dvd s)"
    and home_size: "home \<Longrightarrow> store_ok slot \<Longrightarrow> sz_of slot \<le> 8"

subsection \<open>What the layout has to be\<close>

definition slot_start :: "stack_frame \<Rightarrow> nat \<Rightarrow> int" where
  "slot_start frame i = sint (slot_offset (slots_of frame ! i))"

definition slot_end :: "stack_frame \<Rightarrow> nat \<Rightarrow> int" where
  "slot_end frame i = slot_start frame i + sz_of (slots_of frame ! i)"

text \<open>The slots of the parameters that are passed on the stack, with the offsets of their places.\<close>

definition stack_params :: "calling_convention \<Rightarrow> m_parameter list \<Rightarrow> (nat \<times> nat) list" where
  "stack_params cc params = concat (map (\<lambda>(param, storage).
      case storage of Storage_reg _ \<Rightarrow> [] | Storage_stack _ s \<Rightarrow> [(projr (mparam_storage param), s)])
    (zip params (cc_get_arg_storage cc (StackFramePass_param_type params))))"

definition params_ok :: "calling_convention \<Rightarrow> m_parameter list \<Rightarrow> stack_frame \<Rightarrow> bool" where
  "params_ok cc params frame \<longleftrightarrow>
     distinct (map fst (stack_params cc params)) \<and>
     (\<forall>p\<in>set (stack_params cc params). fst p < length (slots_of frame)) \<and>
     (\<forall>(param, storage)\<in>set (zip params (cc_get_arg_storage cc (StackFramePass_param_type params))).
        (\<exists>r. storage = Storage_reg r) \<or> \<not> isl (mparam_storage param))"

definition fresh_frame :: "(stack_slot \<Rightarrow> bool) \<Rightarrow> stack_frame \<Rightarrow> bool" where
  "fresh_frame store_ok frame \<longleftrightarrow>
     call_slots_ok frame \<and>
     (\<forall>s\<in>set (slots_of frame). \<not> StackSlot_is_defined s \<and> 0 \<le> sz_of s \<and>
        (slot_type s = Slot_ARG_STORE \<longrightarrow> store_ok s))"

text \<open>An upper bound of the space that a frame can need.\<close>

definition frame_space :: "calling_convention \<Rightarrow> m_basic_block list \<Rightarrow> m_parameter list \<Rightarrow> stack_frame \<Rightarrow> int" where
  "frame_space cc blocks params frame =
     sum_list (map (\<lambda>s. 2 * sz_of s + 24) (slots_of frame)) + 48 * int (reg_count cc blocks) +
     8 * int (length params) + 128"

text \<open>
  The layout that a frame must have. The pass keeps the slots, with their sizes and types, and adds
  slots for saved registers. A slot is local unless it is a parameter that the caller passes on the
  stack. Local slots do not overlap. A local slot lies inside of the frame; only with homes, the slot of
  the \<open>k\<close>-th stored argument lies eight times \<open>k\<close> bytes above the frame and all that was
  pushed, so that the first four are in the 32 bytes of shadow space and the others are at the home
  of the argument with this number. A parameter on the stack is where the convention puts it, and all
  local slots end in front of it, but for the stored arguments with its number or a later one.
\<close>

definition layout_ok :: "bool \<Rightarrow> (nat \<times> nat) list \<Rightarrow> stack_frame \<Rightarrow> stack_frame \<Rightarrow> bool" where
  "layout_ok home on_stack frame frame' \<longleftrightarrow>
     (let local = {i. i < length (slots_of frame') \<and> i \<notin> fst ` set on_stack};
          at_home = (\<lambda>i. home \<and> slot_type (slots_of frame' ! i) = Slot_ARG_STORE);
          total = sint (frame_total_size frame') in
      length (slots_of frame) \<le> length (slots_of frame') \<and>
      (\<forall>i<length (slots_of frame).
         slot_size (slots_of frame' ! i) = slot_size (slots_of frame ! i) \<and>
         slot_type (slots_of frame' ! i) = slot_type (slots_of frame ! i)) \<and>
      (\<forall>i\<in>local. \<forall>j\<in>local. i \<noteq> j \<longrightarrow>
         slot_end frame' i \<le> slot_start frame' j \<or> slot_end frame' j \<le> slot_start frame' i) \<and>
      (\<forall>i\<in>local. if at_home i then slot_start frame' i = total + 8 * int (store_rank (slots_of frame') i)
         else 0 \<le> slot_start frame' i \<and> slot_end frame' i \<le> sint (frame_size frame')) \<and>
      (\<forall>(j, s)\<in>set on_stack. slot_start frame' j = total + int s \<and>
         (\<forall>i\<in>local. slot_end frame' i \<le> slot_start frame' j \<or>
            at_home i \<and> s \<le> 8 * store_rank (slots_of frame') i)) \<and>
      0 \<le> sint (frame_size frame') \<and> sint (frame_size frame') \<le> total)"

subsection \<open>Bounds\<close>

lemma sint_small: "- (2 ^ 31) \<le> x \<Longrightarrow> x < 2 ^ 31 \<Longrightarrow> sint (word_of_int x :: u32) = x"
  by (simp add: signed_of_int signed_take_bit_int_eq_self)

lemma align_int_bounds:
  assumes "0 \<le> x" and "0 < b"
  shows "x \<le> align_int x b" and "align_int x b < x + b" and "align_int x b mod b = 0"
proof -
  have smod: "x smod b = x mod b"
    using assms by (cases "x = 0") (simp_all add: smod_int_alt_def)
  have pos: "x mod b \<noteq> 0 \<Longrightarrow> 0 < x mod b"
    using pos_mod_sign [OF assms(2), of x] by linarith
  show "x \<le> align_int x b"
    using assms by (auto simp: align_int_def Let_def smod less_imp_le)
  show "align_int x b < x + b"
    using assms pos by (auto simp: align_int_def Let_def smod)
  have "(x + b - x mod b) mod b = 0"
    by (simp add: mod_diff_right_eq)
  then show "align_int x b mod b = 0"
    using assms by (auto simp: align_int_def Let_def smod)
qed

lemma place_down_space:
  "place_down P sz i slots n = (m, offsets) \<Longrightarrow> (\<And>s. s \<in> set slots \<Longrightarrow> 0 \<le> sz s) \<Longrightarrow>
   n - m \<le> sum_list (map sz slots)"
proof (induction slots arbitrary: i n offsets)
  case (Cons slot slots)
  have nonneg: "0 \<le> sz slot"
    using Cons.prems(2) by simp
  show ?case
  proof (cases "P slot")
    case True
    then obtain new where "place_down P sz (i + 1) slots (n - sz slot) = (m, new)"
      using Cons.prems(1) by (auto simp: Let_def split: prod.splits)
    from Cons.IH [OF this] Cons.prems(2) show ?thesis
      by simp
  next
    case False
    with Cons.prems Cons.IH [of "i + 1" n offsets] have "n - m \<le> sum_list (map sz slots)"
      by simp
    then show ?thesis
      using nonneg by simp
  qed
qed simp

lemma make_slot [simp]:
  "slot_type (StackSlot_make t n a) = t" "slot_size (StackSlot_make t n a) = n"
  "StackSlot_is_defined (StackSlot_make t n a) = False"
  by (simp_all add: StackSlot_make_def StackSlot_is_defined_def)

text \<open>The offsets of the two kinds of slots together.\<close>

lemma placed_append:
  assumes "placed P sz1 slots xs" and "placed Q sz2 slots ys"
    and "\<And>s. \<not> (P s \<and> Q s)" and "\<And>s. s \<in> set slots \<Longrightarrow> sz s \<le> sz1 s" and "\<And>s. s \<in> set slots \<Longrightarrow> sz s \<le> sz2 s"
    and "\<And>p q. p \<in> set xs \<Longrightarrow> q \<in> set ys \<Longrightarrow> apart_in sz slots p q"
  shows "placed (\<lambda>s. P s \<or> Q s) sz slots (xs @ ys)"
proof -
  have keys: "fst ` set xs = {i. i < length slots \<and> P (slots ! i)}" "fst ` set ys = {i. i < length slots \<and> Q (slots ! i)}"
    using assms(1,2) by (simp_all add: placed_def)
  have mono1: "apart_in sz slots p q" if "apart_in sz1 slots p q" "p \<in> set xs" "q \<in> set xs" for p q
  proof -
    have "fst p < length slots" "fst q < length slots"
      using that(2,3) keys(1) by blast+
    then show ?thesis
      using that(1) assms(4) [of "slots ! fst p"] assms(4) [of "slots ! fst q"] by (auto simp: apart_in_def)
  qed
  have mono2: "apart_in sz slots p q" if "apart_in sz2 slots p q" "p \<in> set ys" "q \<in> set ys" for p q
  proof -
    have "fst p < length slots" "fst q < length slots"
      using that(2,3) keys(2) by blast+
    then show ?thesis
      using that(1) assms(5) [of "slots ! fst p"] assms(5) [of "slots ! fst q"] by (auto simp: apart_in_def)
  qed
  have sym: "apart_in sz slots p q \<longleftrightarrow> apart_in sz slots q p" for p q
    by (auto simp: apart_in_def)
  have "apart_in sz slots p q"
    if pq: "p \<in> set (xs @ ys)" "q \<in> set (xs @ ys)" and ne: "fst p \<noteq> fst q" for p q
  proof -
    consider "p \<in> set xs" "q \<in> set xs" | "p \<in> set ys" "q \<in> set ys"
      | "p \<in> set xs" "q \<in> set ys" | "p \<in> set ys" "q \<in> set xs"
      using pq by auto
    then show ?thesis
    proof cases
      case 1
      then show ?thesis
        using ne assms(1) mono1 by (simp add: placed_def)
    next
      case 2
      then show ?thesis
        using ne assms(2) mono2 by (simp add: placed_def)
    qed (use assms(6) sym in blast)+
  qed
  moreover have "distinct (map fst (xs @ ys))"
  proof -
    have "fst ` set xs \<inter> fst ` set ys = {}"
      unfolding keys using assms(3) by auto
    then show ?thesis
      using assms(1,2) by (simp add: placed_def)
  qed
  moreover have "fst ` set (xs @ ys) = {i. i < length slots \<and> (P (slots ! i) \<or> Q (slots ! i))}"
    by (auto simp: image_Un keys)
  ultimately show ?thesis
    by (simp add: placed_def)
qed

lemma fresh_to_place:
  "(\<And>s. s \<in> set slots \<Longrightarrow> \<not> StackSlot_is_defined s) \<Longrightarrow> i < length slots \<Longrightarrow>
   to_place t (slots ! i) \<longleftrightarrow> slot_type (slots ! i) = t"
  by (simp add: to_place_def)

lemma not_call_arg: "slot_type s \<noteq> Slot_CALL_ARG \<longleftrightarrow> slot_type s = Slot_ARG_STORE \<or> slot_type s = Slot_GENERIC"
  by (cases "slot_type s") simp_all

text \<open>Where the offset of a slot is, relative to the end of the frame, and the lowest one.\<close>

definition fits :: "bool \<Rightarrow> stack_slot list \<Rightarrow> int \<Rightarrow> int \<Rightarrow> nat \<times> int \<Rightarrow> bool" where
  "fits home slots imp G p \<longleftrightarrow>
     (if home \<and> slot_type (slots ! fst p) = Slot_ARG_STORE
      then snd p = imp + 8 * int (store_rank slots (fst p))
      else G \<le> snd p \<and> snd p + sz_of (slots ! fst p) \<le> 0)"

lemma fits_bounds:
  assumes "fits home slots imp G p" and "fst p < length slots" and "0 \<le> imp" and "G \<le> 0" and "0 \<le> sz_of (slots ! fst p)"
  shows "G \<le> snd p" and "snd p \<le> imp + 8 * int (length slots)"
  using assms store_rank_le [OF assms(2)] by (auto simp: fits_def split: if_splits)

text \<open>The stored arguments above the generic slots.\<close>

lemma placed_regions:
  assumes args: "placed (to_place Slot_ARG_STORE) sz_of slots xs"
      "\<And>p. p \<in> set xs \<Longrightarrow> if home then snd p = imp + 8 * int (store_rank slots (fst p))
         else n \<le> snd p \<and> snd p + sz_of (slots ! fst p) \<le> 0"
    and generic: "place_down (to_place Slot_GENERIC) (\<lambda>s. align_int (sz_of s) 8) 0 slots n = (G, ys)"
    and bounds: "n \<le> 0" "0 \<le> imp"
    and slots: "\<And>s. s \<in> set slots \<Longrightarrow> \<not> StackSlot_is_defined s \<and> 0 \<le> sz_of s"
  shows "placed (\<lambda>s. slot_type s \<noteq> Slot_CALL_ARG) sz_of slots (xs @ ys)" and "G \<le> n"
    and "p \<in> set (xs @ ys) \<Longrightarrow> fits home slots imp G p"
proof -
  have nonneg: "0 \<le> align_int (sz_of s) 8" "sz_of s \<le> align_int (sz_of s) 8" if "s \<in> set slots" for s
    using align_int_bounds(1) [of "sz_of s" 8] slots [OF that] by simp_all
  note down = place_down_placed(1,2) [OF generic nonneg(1)] and down3 = place_down_placed(3) [OF generic]
  show "G \<le> n"
    by (rule down(2))
  have gen: "G \<le> snd q \<and> snd q + sz_of (slots ! fst q) \<le> n" if q: "q \<in> set ys" for q
  proof -
    have "fst q < length slots"
      using down(1) q by (auto simp: placed_def)
    then have "sz_of (slots ! fst q) \<le> align_int (sz_of (slots ! fst q)) 8"
      by (simp add: nonneg(2))
    then show ?thesis
      using down3 [OF _ q] nonneg(1) by fastforce
  qed
  have arg_type: "slot_type (slots ! fst q) = Slot_ARG_STORE" if "q \<in> set xs" for q
    using args(1) that by (auto simp: placed_def to_place_def)
  have "placed (\<lambda>s. to_place Slot_ARG_STORE s \<or> to_place Slot_GENERIC s) sz_of slots (xs @ ys)"
  proof (rule placed_append [OF args(1) down(1)])
    show "apart_in sz_of slots q r" if "q \<in> set xs" "r \<in> set ys" for q r
      using args(2) [OF that(1)] gen [OF that(2)] bounds by (auto simp: apart_in_def split: if_splits)
  qed (simp_all add: to_place_def nonneg(2))
  then show "placed (\<lambda>s. slot_type s \<noteq> Slot_CALL_ARG) sz_of slots (xs @ ys)"
    using slots by (simp add: placed_def to_place_def not_call_arg cong: conj_cong)
  have gen_type: "slot_type (slots ! fst q) = Slot_GENERIC" if "q \<in> set ys" for q
    using down(1) that by (auto simp: placed_def to_place_def)
  show "p \<in> set (xs @ ys) \<Longrightarrow> fits home slots imp G p"
    using args(2) [of p] gen [of p] arg_type [of p] gen_type [of p] bounds \<open>G \<le> n\<close>
    by (auto simp: fits_def split: if_splits)
qed

lemma call_slots_ok_append:
  assumes "call_slots_ok frame" and "slots_of frame' = slots_of frame @ replicate k slot"
    and "frame_call_arg_slot_indices frame' = frame_call_arg_slot_indices frame"
    and "slot_type slot \<noteq> Slot_CALL_ARG"
  shows "call_slots_ok frame'"
proof -
  have "frame_call_arg_slot_indices frame ! k < length (frame_stack_slots frame)"
    if "k < length (frame_call_arg_slot_indices frame)" for k
    using assms(1) nth_mem [OF that] by (simp add: call_slots_ok_def)
  moreover have "{i. i < length (slots_of frame') \<and> slot_type (slots_of frame' ! i) = Slot_CALL_ARG} =
      {i. i < length (slots_of frame) \<and> slot_type (slots_of frame ! i) = Slot_CALL_ARG}"
    using assms(2,4) by (auto simp: nth_append split: if_splits) (rule ccontr, simp)
  ultimately show ?thesis
    using assms unfolding call_slots_ok_def by (auto simp: nth_append)
qed

subsection \<open>The layout that the contract gives\<close>

text \<open>The regions, and the positions relative to the end of the frame, before any offset is set.\<close>

definition frame_plan ::
    "calling_convention \<Rightarrow> m_basic_block list \<Rightarrow> m_parameter list \<Rightarrow> stack_frame \<Rightarrow>
     stack_frame \<Rightarrow> stack_slot list \<Rightarrow> (nat \<times> int) list \<Rightarrow> int \<Rightarrow> int \<Rightarrow> bool" where
  "frame_plan cc blocks params frame frame1 slots offsets imp alloca \<longleftrightarrow>
     StackFramePass_frame cc blocks params frame =
       do { frame2 \<leftarrow> StackFramePass_set_offsets alloca offsets (frame1\<lparr>frame_stack_slots := slots\<rparr>);
            StackFramePass_params (zip params (cc_get_arg_storage cc (StackFramePass_param_type params)))
              (frame2\<lparr>frame_total_size := word_of_int (alloca + imp), frame_size := word_of_int alloca\<rparr>) }"

definition plan_ok :: "bool \<Rightarrow> stack_frame \<Rightarrow> stack_slot list \<Rightarrow> (nat \<times> int) list \<Rightarrow> int \<Rightarrow> int \<Rightarrow> bool" where
  "plan_ok home frame1 slots offsets imp alloca \<longleftrightarrow>
     (let idx = frame_call_arg_slot_indices frame1 in
      call_slots_ok frame1 \<and> same_slots frame1 (frame1\<lparr>frame_stack_slots := slots\<rparr>) \<and>
      placed (\<lambda>s. slot_type s \<noteq> Slot_CALL_ARG) sz_of (slots_of frame1) offsets \<and> 0 \<le> imp \<and> 0 \<le> alloca \<and>
      alloca \<le> sum_list (map (\<lambda>s. 2 * sz_of s + 15) (slots_of frame1)) + 64 \<and>
      (\<exists>G b. G \<le> 0 \<and> 0 \<le> b \<and> b + 8 * int (length idx) \<le> alloca + G \<and>
        (\<forall>k<length idx. slot_offset (slots ! (idx ! k)) = word_of_int (b + 8 * int k)) \<and>
        (\<forall>p\<in>set offsets. fits home (slots_of frame1) imp G p)))"

lemma call_slots_count: "call_slots_ok frame \<Longrightarrow> length (frame_call_arg_slot_indices frame) \<le> length (slots_of frame)"
  unfolding call_slots_ok_def
  by (metis (no_types, lifting) card_mono distinct_card finite_lessThan lessThan_iff mem_Collect_eq
      subsetI card_lessThan)

lemma sum_list_upper:
  fixes f g :: "'a \<Rightarrow> int"
  shows "(\<And>x. x \<in> set xs \<Longrightarrow> f x \<le> g x) \<Longrightarrow> sum_list (map f xs) \<le> sum_list (map g xs)"
  by (rule sum_list_mono)

lemma sum_list_linear:
  fixes f :: "'a \<Rightarrow> int"
  shows "sum_list (map (\<lambda>s. a * f s + c) xs) = a * sum_list (map f xs) + c * int (length xs)"
  by (induction xs) (simp_all add: algebra_simps)

lemma plan_bound:
  assumes "plan_ok home frame1 slots offsets imp alloca"
    and "slots_of frame1 = slots_of frame @ replicate k (StackSlot_make Slot_GENERIC 8 a)"
    and "k \<le> reg_count cc blocks" and "imp \<le> 16 + 8 * int (reg_count cc blocks)"
    and "frame_space cc blocks params frame < 2 ^ 31"
  shows "alloca + imp + 8 * int (length (slots_of frame1)) + 8 * int (length params) < 2 ^ 31"
proof -
  have "alloca \<le> sum_list (map (\<lambda>s. 2 * sz_of s + 15) (slots_of frame1)) + 64"
    using assms(1) by (simp add: plan_ok_def Let_def)
  also have "sum_list (map (\<lambda>s. 2 * sz_of s + 15) (slots_of frame1)) =
      sum_list (map (\<lambda>s. 2 * sz_of s + 24) (slots_of frame)) - 9 * int (length (slots_of frame)) + 31 * int k"
    by (simp add: assms(2) sum_list_linear [of 2 sz_of] sum_list_replicate)
  finally show ?thesis
    using assms(2-5) by (simp add: frame_space_def)
qed

text \<open>Where a slot of the frame ends up.\<close>

definition at_place :: "stack_frame \<Rightarrow> (nat \<times> int) list \<Rightarrow> int \<Rightarrow> int \<Rightarrow> nat \<Rightarrow> int \<Rightarrow> bool" where
  "at_place frame1 offsets alloca b i start \<longleftrightarrow>
     (\<exists>off. (i, off) \<in> set offsets \<and> start = off + alloca) \<or>
     (\<exists>k<length (frame_call_arg_slot_indices frame1).
        i = frame_call_arg_slot_indices frame1 ! k \<and> start = b + 8 * int k)"

lemma at_place_apart:
  assumes "placed P sz_of (slots_of frame1) offsets" and "call_slots_ok frame1"
    and "b + 8 * int (length (frame_call_arg_slot_indices frame1)) \<le> alloca + G"
    and "\<forall>p\<in>set offsets. G \<le> snd p" and "at_place frame1 offsets alloca b i m"
    and "at_place frame1 offsets alloca b j n" and "i \<noteq> j"
  shows "m + sz_of (slots_of frame1 ! i) \<le> n \<or> n + sz_of (slots_of frame1 ! j) \<le> m"
proof -
  let ?idx = "frame_call_arg_slot_indices frame1"
  have size: "sz_of (slots_of frame1 ! (?idx ! k)) \<le> 8" if "k < length ?idx" for k
    using assms(2) that by (simp add: call_slots_ok_def Let_def)
  consider (local) x y where "(i, x) \<in> set offsets" "m = x + alloca" "(j, y) \<in> set offsets" "n = y + alloca"
    | (below) x k where "(i, x) \<in> set offsets" "m = x + alloca" "k < length ?idx" "j = ?idx ! k" "n = b + 8 * int k"
    | (above) y k where "(j, y) \<in> set offsets" "n = y + alloca" "k < length ?idx" "i = ?idx ! k" "m = b + 8 * int k"
    | (args) k l where "k < length ?idx" "i = ?idx ! k" "m = b + 8 * int k"
        "l < length ?idx" "j = ?idx ! l" "n = b + 8 * int l"
    using assms(5,6) unfolding at_place_def by blast
  then show ?thesis
  proof cases
    case local
    then have "apart_in sz_of (slots_of frame1) (i, x) (j, y)"
      using assms(1,7) by (fastforce simp: placed_def)
    then show ?thesis
      using local by (auto simp: apart_in_def)
  next
    case below
    then show ?thesis
      using assms(3,4) size [of k] by fastforce
  next
    case above
    then show ?thesis
      using assms(3,4) size [of k] by fastforce
  next
    case args
    then have "k \<noteq> l"
      using assms(7) by auto
    then have "k + 1 \<le> l \<or> l + 1 \<le> k"
      by linarith
    then show ?thesis
      using args size [of k] size [of l] by auto
  qed
qed

lemma at_place_inside:
  assumes "at_place frame1 offsets alloca b i start" and "call_slots_ok frame1"
    and "G \<le> 0" and "0 \<le> b" and "b + 8 * int (length (frame_call_arg_slot_indices frame1)) \<le> alloca + G"
    and "\<forall>p\<in>set offsets. fits home (slots_of frame1) imp G p"
  shows "if home \<and> slot_type (slots_of frame1 ! i) = Slot_ARG_STORE
    then start = alloca + imp + 8 * int (store_rank (slots_of frame1) i)
    else 0 \<le> start \<and> start + sz_of (slots_of frame1 ! i) \<le> alloca"
  using assms(1) unfolding at_place_def
proof (elim disjE exE conjE)
  fix off
  assume off: "(i, off) \<in> set offsets" "start = off + alloca"
  then have "fits home (slots_of frame1) imp G (i, off)" using assms(6) by blast
  then show ?thesis
    using assms(3-5) off(2) by (auto simp: fits_def split: if_splits)
next
  fix k
  assume k: "k < length (frame_call_arg_slot_indices frame1)" "i = frame_call_arg_slot_indices frame1 ! k"
    "start = b + 8 * int k"
  then have "sz_of (slots_of frame1 ! i) \<le> 8"
    using assms(2) by (simp add: call_slots_ok_def Let_def)
  moreover have "i \<in> set (frame_call_arg_slot_indices frame1)" using k by simp
  then have "slot_type (slots_of frame1 ! i) = Slot_CALL_ARG"
    using assms(2) unfolding call_slots_ok_def by blast
  ultimately show ?thesis
    using k assms(3-5) by simp
qed

text \<open>The offsets that are set before those of the parameters.\<close>

lemma plan_offsets:
  assumes "plan_ok home frame1 slots offsets imp alloca" and "alloca + imp + 8 * int (length (slots_of frame1)) < 2 ^ 31"
    and "\<And>s. s \<in> set (slots_of frame1) \<Longrightarrow> 0 \<le> sz_of s"
  shows "\<exists>slots2 G b. StackFramePass_set_offsets alloca offsets (frame1\<lparr>frame_stack_slots := slots\<rparr>) =
      Some (frame1\<lparr>frame_stack_slots := slots2\<rparr>) \<and>
    same_slots frame1 (frame1\<lparr>frame_stack_slots := slots2\<rparr>) \<and>
    G \<le> 0 \<and> 0 \<le> b \<and> b + 8 * int (length (frame_call_arg_slot_indices frame1)) \<le> alloca + G \<and>
    (\<forall>p\<in>set offsets. fits home (slots_of frame1) imp G p) \<and>
    (\<forall>i<length slots2. at_place frame1 offsets alloca b i (sint (slot_offset (slots2 ! i))))"
proof -
  let ?idx = "frame_call_arg_slot_indices frame1" and ?n = "length (slots_of frame1)"
  obtain G b where Gb: "G \<le> 0" "0 \<le> b" "b + 8 * int (length ?idx) \<le> alloca + G"
    "\<forall>k<length ?idx. slot_offset (slots ! (?idx ! k)) = word_of_int (b + 8 * int k)"
    "\<forall>p\<in>set offsets. fits home (slots_of frame1) imp G p"
    using assms(1) unfolding plan_ok_def Let_def by blast
  have ok: "call_slots_ok frame1" "same_slots frame1 (frame1\<lparr>frame_stack_slots := slots\<rparr>)"
    "placed (\<lambda>s. slot_type s \<noteq> Slot_CALL_ARG) sz_of (slots_of frame1) offsets" "0 \<le> imp" "0 \<le> alloca"
    using assms(1) by (simp_all add: plan_ok_def Let_def)
  have len: "length slots = ?n"
    using same_slots_length [OF ok(2)] by simp
  have keys: "fst ` set offsets = {i. i < ?n \<and> slot_type (slots_of frame1 ! i) \<noteq> Slot_CALL_ARG}"
    using ok(3) by (simp add: placed_def)
  then have "\<forall>p\<in>set offsets. fst p < length (slots_of (frame1\<lparr>frame_stack_slots := slots\<rparr>))"
    by (auto simp: len)
  moreover have "distinct (map fst offsets)"
    using ok(3) by (simp add: placed_def)
  ultimately obtain slots2 where slots2:
    "StackFramePass_set_offsets alloca offsets (frame1\<lparr>frame_stack_slots := slots\<rparr>) =
       Some (frame1\<lparr>frame_stack_slots := slots2\<rparr>)"
    "same_slots (frame1\<lparr>frame_stack_slots := slots\<rparr>) (frame1\<lparr>frame_stack_slots := slots2\<rparr>)"
    "\<forall>(i, off)\<in>set offsets. slot_offset (slots2 ! i) = word_of_int (off + alloca)"
    "\<forall>i<length slots2. i \<notin> fst ` set offsets \<longrightarrow> slots2 ! i = slots ! i"
    using set_offsets_result [of offsets "frame1\<lparr>frame_stack_slots := slots\<rparr>" alloca] by auto
  have len2: "length slots2 = ?n"
    using same_slots_length [OF slots2(2)] len by simp
  have "at_place frame1 offsets alloca b i (sint (slot_offset (slots2 ! i)))" if i: "i < length slots2" for i
  proof (cases "i \<in> fst ` set offsets")
    case True
    then obtain off where off: "(i, off) \<in> set offsets"
      by auto
    have "0 \<le> sz_of (slots_of frame1 ! i)"
      using i len2 assms(3) by simp
    then have "G \<le> off" "off \<le> imp + 8 * int ?n"
      using fits_bounds [of home "slots_of frame1" imp G "(i, off)"] Gb(1,5) off ok(4) i len2 by auto
    then have "- (2 ^ 31) \<le> off + alloca \<and> off + alloca < 2 ^ 31"
      using Gb(1-3) ok(4,5) assms(2) by linarith
    then have "sint (slot_offset (slots2 ! i)) = off + alloca"
      using slots2(3) off sint_small by fastforce
    then show ?thesis
      using off by (auto simp: at_place_def)
  next
    case False
    then have "i \<in> set ?idx"
      using i len2 ok(1) by (simp add: call_slots_ok_def keys)
    then obtain k where k: "k < length ?idx" "i = ?idx ! k"
      by (auto simp: in_set_conv_nth)
    have "- (2 ^ 31) \<le> b + 8 * int k \<and> b + 8 * int k < 2 ^ 31"
      using k(1) Gb(1-3) ok(4) assms(2) by linarith
    moreover have "slot_offset (slots2 ! i) = word_of_int (b + 8 * int k)"
      using slots2(4) i False Gb(4) k by auto
    ultimately have "sint (slot_offset (slots2 ! i)) = b + 8 * int k"
      by (simp only: sint_small)
    then show ?thesis
      using k by (auto simp: at_place_def)
  qed
  moreover have "same_slots frame1 (frame1\<lparr>frame_stack_slots := slots2\<rparr>)"
    using ok(2) slots2(2) by (rule same_slots_trans)
  ultimately show ?thesis
    using slots2(1) Gb(1-3,5) by (intro exI [of _ slots2] exI [of _ G] exI [of _ b]) auto
qed

lemma plan_layout:
  assumes plan: "frame_plan cc blocks params frame frame1 slots offsets imp alloca"
    and ok: "plan_ok home frame1 slots offsets imp alloca"
    and bound: "alloca + imp + 8 * int (length (slots_of frame1)) + 8 * int (length params) < 2 ^ 31"
    and params: "params_ok cc params frame" "\<forall>p\<in>set (stack_params cc params). snd p \<le> 8 * length params \<and> (home \<longrightarrow> 8 dvd snd p)"
    and frame1: "slots_of frame1 = slots_of frame @ extra" "\<And>s. s \<in> set (slots_of frame1) \<Longrightarrow> 0 \<le> sz_of s"
      "\<And>s. home \<Longrightarrow> s \<in> set (slots_of frame1) \<Longrightarrow> slot_type s = Slot_ARG_STORE \<Longrightarrow> sz_of s \<le> 8"
  shows "\<exists>frame'. StackFramePass_frame cc blocks params frame = Some frame' \<and>
    layout_ok home (stack_params cc params) frame frame'"
proof -
  let ?ps = "zip params (cc_get_arg_storage cc (StackFramePass_param_type params))"
  let ?on = "stack_params cc params"
  have "alloca + imp + 8 * int (length (slots_of frame1)) < 2 ^ 31"
    using bound by linarith
  from plan_offsets [OF ok this frame1(2)] obtain slots2 G b where slots2:
    "StackFramePass_set_offsets alloca offsets (frame1\<lparr>frame_stack_slots := slots\<rparr>) =
       Some (frame1\<lparr>frame_stack_slots := slots2\<rparr>)"
    "same_slots frame1 (frame1\<lparr>frame_stack_slots := slots2\<rparr>)"
    "G \<le> 0" "0 \<le> b" "b + 8 * int (length (frame_call_arg_slot_indices frame1)) \<le> alloca + G"
    "\<forall>p\<in>set offsets. fits home (slots_of frame1) imp G p"
    "\<forall>i<length slots2. at_place frame1 offsets alloca b i (sint (slot_offset (slots2 ! i)))"
    by blast
  define frame2 where "frame2 = frame1\<lparr>frame_stack_slots := slots2,
    frame_total_size := word_of_int (alloca + imp), frame_size := word_of_int alloca\<rparr>"
  have len: "length slots2 = length (slots_of frame1)" "length (slots_of frame) \<le> length (slots_of frame1)"
    using same_slots_length [OF slots2(2)] frame1(1) by simp_all
  have "\<forall>p\<in>set ?on. fst p < length (slots_of frame2)"
    using params(1) len by (fastforce simp: params_ok_def frame2_def)
  then obtain slots3 where slots3: "StackFramePass_params ?ps frame2 = Some (frame2\<lparr>frame_stack_slots := slots3\<rparr>)"
    "same_slots frame2 (frame2\<lparr>frame_stack_slots := slots3\<rparr>)"
    "\<forall>(i, s)\<in>set ?on. slot_offset (slots3 ! i) = frame_total_size frame2 + of_nat s"
    "\<forall>i<length slots3. i \<notin> fst ` set ?on \<longrightarrow> slots3 ! i = slots_of frame2 ! i"
    using params_result [of ?on frame2 ?ps] params(1) by (auto simp: params_ok_def stack_params_def)
  let ?frame' = "frame2\<lparr>frame_stack_slots := slots3\<rparr>"
  have result: "StackFramePass_frame cc blocks params frame = Some ?frame'"
    using plan slots2(1) slots3(1) by (simp add: frame_plan_def frame2_def)
  have nonneg: "0 \<le> imp" "0 \<le> alloca"
    using ok by (simp_all add: plan_ok_def Let_def)
  have len3: "length slots3 = length (slots_of frame1)"
    using same_slots_length [OF slots3(2)] len by (simp add: frame2_def)
  have "sint (word_of_int alloca :: u32) = alloca" "sint (word_of_int (alloca + imp) :: u32) = alloca + imp"
    using nonneg bound by (intro sint_small; linarith)+
  moreover have "frame_size frame2 = word_of_int alloca" "frame_total_size frame2 = word_of_int (alloca + imp)"
    by (simp_all add: frame2_def)
  ultimately have sizes: "sint (frame_size frame2) = alloca" "sint (frame_total_size frame2) = alloca + imp"
    by simp_all
  have same: "slot_size (slots3 ! i) = slot_size (slots_of frame1 ! i)"
      "slot_type (slots3 ! i) = slot_type (slots_of frame1 ! i)" if "i < length slots3" for i
    using same_slots_nth [OF slots2(2), of i] same_slots_nth [OF slots3(2), of i] that len3 len
    by (simp_all add: frame2_def)
  have place: "at_place frame1 offsets alloca b i (slot_start ?frame' i)"
    if "i < length slots3" "i \<notin> fst ` set ?on" for i
    using that slots2(7) slots3(4) len len3 by (simp add: slot_start_def frame2_def)
  have placed: "placed (\<lambda>s. slot_type s \<noteq> Slot_CALL_ARG) sz_of (slots_of frame1) offsets" "call_slots_ok frame1"
    using ok by (simp_all add: plan_ok_def Let_def)
  have low: "\<forall>p\<in>set offsets. G \<le> snd p"
  proof
    fix p
    assume p: "p \<in> set offsets"
    then have "fst p < length (slots_of frame1)" using placed(1) by (auto simp: placed_def)
    then show "G \<le> snd p"
      using fits_bounds(1) [of home "slots_of frame1" imp G p] slots2(3,6) nonneg(1) p frame1(2) by simp
  qed
  have rank: "store_rank slots3 i = store_rank (slots_of frame1) i" for i
    using same len3 by (intro store_rank_map nth_equalityI) simp_all
  have "slot_end ?frame' i \<le> slot_start ?frame' j \<or> slot_end ?frame' j \<le> slot_start ?frame' i"
    if "i < length slots3" "i \<notin> fst ` set ?on" "j < length slots3" "j \<notin> fst ` set ?on" "i \<noteq> j" for i j
    using at_place_apart [OF placed slots2(5) low place [OF that(1,2)] place [OF that(3,4)] that(5)]
      same [OF that(1)] same [OF that(3)] by (simp add: slot_end_def)
  moreover have inside: "if home \<and> slot_type (slots3 ! i) = Slot_ARG_STORE
      then slot_start ?frame' i = alloca + imp + 8 * int (store_rank slots3 i)
      else 0 \<le> slot_start ?frame' i \<and> slot_end ?frame' i \<le> alloca"
    if "i < length slots3" "i \<notin> fst ` set ?on" for i
    using at_place_inside [OF place [OF that] placed(2) slots2(3,4,5,6)] same [OF that(1)]
    by (simp add: slot_end_def rank)
  moreover
  have start: "slot_start ?frame' i = alloca + imp + int s" if "(i, s) \<in> set ?on" for i s
  proof -
    have "slot_offset (slots3 ! i) = word_of_int (alloca + imp + int s)"
      using slots3(3) that by (auto simp: frame2_def)
    moreover have "alloca + imp + int s < 2 ^ 31" "- (2 ^ 31) \<le> alloca + imp + int s"
      using params(2) that bound nonneg by fastforce+
    ultimately have "sint (slot_offset (slots3 ! i)) = alloca + imp + int s"
      by (simp only: sint_small)
    then show ?thesis
      by (simp add: slot_start_def)
  qed
  have clear: "slot_end ?frame' i \<le> slot_start ?frame' j \<or>
      home \<and> slot_type (slots3 ! i) = Slot_ARG_STORE \<and> s \<le> 8 * store_rank slots3 i"
    if js: "(j, s) \<in> set ?on" and i: "i < length slots3" "i \<notin> fst ` set ?on" for i j s
  proof (cases "home \<and> slot_type (slots3 ! i) = Slot_ARG_STORE")
    case True
    have "slots_of frame1 ! i \<in> set (slots_of frame1)" using i(1) len3 by simp
    then have "sz_of (slots3 ! i) \<le> 8" using frame1(3) True same [OF i(1)] by simp
    moreover have "8 dvd s" using params(2) js True by auto
    moreover have "slot_start ?frame' i = alloca + imp + 8 * int (store_rank slots3 i)"
      using inside [OF i] True by simp
    ultimately show ?thesis
      using True start [OF js] by (auto simp: slot_end_def dvd_def not_le)
  next
    case False
    then have "slot_end ?frame' i \<le> alloca" using inside [OF i] by (simp split: if_splits)
    then show ?thesis using start [OF js] nonneg(1) by simp
  qed
  have "\<forall>(j, s)\<in>set ?on. slot_start ?frame' j = alloca + imp + int s \<and>
      (\<forall>i\<in>{i. i < length slots3 \<and> i \<notin> fst ` set ?on}. slot_end ?frame' i \<le> slot_start ?frame' j \<or>
         (home \<and> slot_type (slots3 ! i) = Slot_ARG_STORE) \<and> s \<le> 8 * store_rank slots3 i)"
    using start clear by blast
  moreover have "slot_size (slots3 ! i) = slot_size (slots_of frame ! i) \<and>
      slot_type (slots3 ! i) = slot_type (slots_of frame ! i)" if "i < length (slots_of frame)" for i
    using that same [of i] len3 frame1(1) by (simp add: nth_append)
  ultimately have "layout_ok home ?on frame ?frame'"
    using nonneg len3 len(2) by (simp add: layout_ok_def sizes Let_def)
  then show ?thesis
    using result by blast
qed

context stack_convention
begin

lemma plan:
  assumes "fresh_frame store_ok frame"
    and "calls_ok blocks \<or> frame_call_arg_slot_indices frame = []"
  shows "\<exists>frame1 slots offsets imp alloca k a.
    frame_plan cc blocks params frame frame1 slots offsets imp alloca \<and>
    plan_ok home frame1 slots offsets imp alloca \<and>
    slots_of frame1 = slots_of frame @ replicate k (StackSlot_make Slot_GENERIC 8 a) \<and>
    k \<le> reg_count cc blocks \<and> imp \<le> 16 + 8 * int (reg_count cc blocks)"
proof -
  obtain frame1 r1 where r1: "cc_create_implicit_region cc blocks frame StackRegions = (frame1, r1)"
    by force
  from implicit [OF r1] obtain k a where frame1:
    "slots_of frame1 = slots_of frame @ replicate k (StackSlot_make Slot_GENERIC 8 a)"
    "frame_call_arg_slot_indices frame1 = frame_call_arg_slot_indices frame"
    "k \<le> reg_count cc blocks" "0 \<le> rg_saved_reg_size r1" "rg_saved_reg_size r1 \<le> rg_implicit_size r1"
    "rg_implicit_size r1 \<le> 16 + 8 * int (reg_count cc blocks)" "rg_arg_store_offsets r1 = []"
    by blast
  let ?slots = "slots_of frame1" and ?idx = "frame_call_arg_slot_indices frame1"
  have slots: "\<not> StackSlot_is_defined s \<and> 0 \<le> sz_of s \<and> (slot_type s = Slot_ARG_STORE \<longrightarrow> store_ok s)"
    if "s \<in> set ?slots" for s
    using that assms(1) frame1(1) by (auto simp: fresh_frame_def)
  have calls: "call_slots_ok frame1"
    using assms(1) frame1(1,2) by (auto simp: fresh_frame_def intro: call_slots_ok_append)
  have imp: "0 \<le> rg_implicit_size r1"
    using frame1(4,5) by linarith
  obtain n args where args: "cc_create_arg_store_region cc frame1 r1 =
      r1\<lparr>rg_arg_store_size := n, rg_arg_store_offsets := args\<rparr>"
    "placed (to_place Slot_ARG_STORE) sz_of ?slots args"
    "n \<le> 0" "- n \<le> sum_list (map sz_of ?slots)"
    "\<forall>p\<in>set args. if home then snd p = rg_implicit_size r1 + 8 * int (store_rank ?slots (fst p))
       else n \<le> snd p \<and> snd p + sz_of (?slots ! fst p) \<le> 0"
    using arg_store [OF frame1(7) imp, of frame1] slots by blast
  obtain G new where down:
    "place_down (to_place Slot_GENERIC) (\<lambda>s. align_int (sz_of s) 8) 0 ?slots n = (G, new)"
    by force
  note regions = placed_regions [OF args(2) bspec [OF args(5)] down args(3) imp]
  define g where "g = - (G + n)"
  have generic: "StackFramePass_create_generic_region frame1 args n = (g, args @ new)"
    by (simp add: g_def StackFramePass_create_generic_region_def generic_loop_place down)
  have space: "n - G \<le> sum_list (map (\<lambda>s. sz_of s + 7) ?slots)"
  proof -
    have "align_int (sz_of s) 8 \<le> sz_of s + 7 \<and> 0 \<le> align_int (sz_of s) 8" if "s \<in> set ?slots" for s
      using slots [OF that] align_int_bounds(1,2) [of "sz_of s" 8] by linarith
    then show ?thesis
      using place_down_space [OF down] sum_list_upper [of ?slots "\<lambda>s. align_int (sz_of s) 8" "\<lambda>s. sz_of s + 7"]
      by (meson order_trans)
  qed
  let ?r2 = "r1\<lparr>rg_arg_store_size := n, rg_arg_store_offsets := args, rg_generic_size := g\<rparr>"
  obtain sl b m where call:
    "cc_create_call_arg_region cc blocks frame1 ?r2 =
       Some (frame1\<lparr>frame_stack_slots := sl\<rparr>, ?r2\<lparr>rg_call_arg_size := m\<rparr>)"
    "same_slots frame1 (frame1\<lparr>frame_stack_slots := sl\<rparr>)"
    "\<forall>k<length ?idx. slot_offset (sl ! (?idx ! k)) = word_of_int (b + 8 * int k)"
    "0 \<le> b" "b + 8 * int (length ?idx) \<le> m" "m \<le> 32 + 8 * int (length ?idx)"
    using call_arg [OF calls, of blocks ?r2] assms(2) frame1(2) by auto
  define al where "al = cc_get_alloca_size cc (?r2\<lparr>rg_call_arg_size := m\<rparr>)"
  have "G \<le> n"
    using regions(2) slots by blast
  have al: "m - G \<le> al" "al \<le> m - G + 32"
    using alloca [of "?r2\<lparr>rg_call_arg_size := m\<rparr>" "m - G"] frame1(4,5) args(3) \<open>G \<le> n\<close> call(4,5)
    by (simp_all add: al_def g_def)
  have "frame_plan cc blocks params frame frame1 sl (args @ new) (rg_implicit_size r1) al"
    by (simp add: frame_plan_def StackFramePass_frame_def r1 args(1) generic call(1) al_def Let_def)
  moreover have "plan_ok home frame1 sl (args @ new) (rg_implicit_size r1) al"
  proof -
    have "al \<le> sum_list (map (\<lambda>s. 2 * sz_of s + 15) ?slots) + 64"
      using al(2) call(6) call_slots_count [OF calls] space args(4)
      by (simp add: sum_list_linear [of 2 sz_of 15] sum_list_linear [of 1 sz_of 7, simplified])
    then show ?thesis
      using calls call(2-5) imp al(1) regions(1,3) args(3,5) slots \<open>G \<le> n\<close>
      unfolding plan_ok_def Let_def by (intro conjI exI [of _ G] exI [of _ b]) auto
  qed
  ultimately show ?thesis
    using frame1(1,3,6) by blast
qed

lemma stack_params_bound:
  "p \<in> set (stack_params cc params) \<Longrightarrow> snd p \<le> 8 * length params \<and> (home \<longrightarrow> 8 dvd snd p)"
  using arg_storage [of _ _ "StackFramePass_param_type params"]
  by (fastforce simp: stack_params_def StackFramePass_param_type_def split: arg_storage.splits
      dest: set_zip_rightD)

theorem layout:
  assumes "fresh_frame store_ok frame" and "calls_ok blocks \<or> frame_call_arg_slot_indices frame = []"
    and "params_ok cc params frame" and "frame_space cc blocks params frame < 2 ^ 31"
  shows "\<exists>frame'. StackFramePass_frame cc blocks params frame = Some frame' \<and>
    layout_ok home (stack_params cc params) frame frame'"
proof -
  from plan [OF assms(1,2), of params] obtain frame1 slots offsets imp al k a where plan:
    "frame_plan cc blocks params frame frame1 slots offsets imp al" "plan_ok home frame1 slots offsets imp al"
    "slots_of frame1 = slots_of frame @ replicate k (StackSlot_make Slot_GENERIC 8 a)"
    "k \<le> reg_count cc blocks" "imp \<le> 16 + 8 * int (reg_count cc blocks)"
    by blast
  have nonneg: "0 \<le> sz_of s" if "s \<in> set (slots_of frame1)" for s
    using that plan(3) assms(1) by (auto simp: fresh_frame_def)
  have small: "sz_of s \<le> 8" if "home" "s \<in> set (slots_of frame1)" "slot_type s = Slot_ARG_STORE" for s
    using that plan(3) assms(1) home_size by (auto simp: fresh_frame_def)
  show ?thesis
    using plan_layout [OF plan(1,2) plan_bound [OF plan(2-5) assms(4)] assms(3) _ plan(3) nonneg small]
      stack_params_bound by blast
qed

end

end
