(* ===== verification/Stack_Correct.thy ===== *)
theory Stack_Correct
  imports Stack_Layout
begin

section \<open>The calling conventions satisfy the contract\<close>

text \<open>
  The three native conventions as instances of the contract of \<^theory_text>\<open>Stack_Layout\<close>, the layout
  of the stack frames that follows, and the agreement of caller and callee on the places of the
  arguments.
\<close>

subsection \<open>The laws, one by one\<close>

lemma below_arg_store:
  assumes "\<And>s. s \<in> set (slots_of frame) \<Longrightarrow> 0 \<le> sz_of s"
  shows "\<exists>n offsets. arg_store_below 0 (slots_of frame) 0 [] = (n, offsets) \<and>
    placed (to_place Slot_ARG_STORE) sz_of (slots_of frame) offsets \<and>
    n \<le> 0 \<and> - n \<le> sum_list (map sz_of (slots_of frame)) \<and>
    (\<forall>p\<in>set offsets. n \<le> snd p \<and> snd p + sz_of (slots_of frame ! fst p) \<le> 0)"
proof -
  obtain n offsets where down: "place_down (to_place Slot_ARG_STORE) sz_of 0 (slots_of frame) 0 = (n, offsets)"
    by force
  then show ?thesis
    using place_down_placed [OF down] place_down_space [OF down] assms
    by (simp add: arg_store_below_place)
qed

lemma home_arg_store:
  assumes "\<And>s. s \<in> set slots \<Longrightarrow> slot_type s = Slot_ARG_STORE \<Longrightarrow> sz_of s \<le> 8"
    and "\<And>s. s \<in> set slots \<Longrightarrow> \<not> StackSlot_is_defined s"
  shows "placed (to_place Slot_ARG_STORE) sz_of slots (MSABI_arg_store_loop 0 slots n [])"
    and "p \<in> set (MSABI_arg_store_loop 0 slots n []) \<Longrightarrow> snd p = n + 8 * int (store_rank slots (fst p))"
proof -
  show "placed (to_place Slot_ARG_STORE) sz_of slots (MSABI_arg_store_loop 0 slots n [])"
    using assms(1) by (intro MSABI_arg_store_placed) (auto simp: to_place_def)
  show "p \<in> set (MSABI_arg_store_loop 0 slots n []) \<Longrightarrow> snd p = n + 8 * int (store_rank slots (fst p))"
    using MSABI_arg_store_rank [of p 0 slots n "[]"] assms(2) by simp
qed

lemma call_arg_contract:
  assumes "call_slots_ok frame"
  shows "\<exists>slots. call_arg_loop (word_of_int b) (frame_call_arg_slot_indices frame) b frame =
      Some (frame\<lparr>frame_stack_slots := slots\<rparr>, b + 8 * int (length (frame_call_arg_slot_indices frame))) \<and>
    same_slots frame (frame\<lparr>frame_stack_slots := slots\<rparr>) \<and>
    (\<forall>k<length (frame_call_arg_slot_indices frame).
       slot_offset (slots ! (frame_call_arg_slot_indices frame ! k)) = word_of_int (b + 8 * int k)) \<and>
    (\<forall>i<length slots. i \<notin> set (frame_call_arg_slot_indices frame) \<longrightarrow> slots ! i = slots_of frame ! i)"
proof -
  let ?idx = "frame_call_arg_slot_indices frame"
  have idx: "distinct ?idx" "\<forall>i\<in>set ?idx. i < length (slots_of frame)"
    using assms by (auto simp: call_slots_ok_def)
  obtain slots where slots: "call_arg_loop (word_of_int b) ?idx b frame =
      Some (frame\<lparr>frame_stack_slots := slots\<rparr>, b + 8 * int (length ?idx))"
    "same_slots frame (frame\<lparr>frame_stack_slots := slots\<rparr>)"
    "\<forall>i\<in>set ?idx. slot_offset (slots ! i) = word_of_int b + 8 * slot_call_arg_index (slots_of frame ! i)"
    "\<forall>i<length slots. i \<notin> set ?idx \<longrightarrow> slots ! i = slots_of frame ! i"
    using call_arg_loop_result [OF idx] by blast
  have "slot_offset (slots ! (?idx ! k)) = word_of_int (b + 8 * int k)" if "k < length ?idx" for k
  proof -
    have "slot_call_arg_index (slots_of frame ! (?idx ! k)) = of_nat k"
      using assms that by (simp add: call_slots_ok_def Let_def)
    then show ?thesis
      using slots(3) nth_mem [OF that] by simp
  qed
  then show ?thesis
    using slots(1,2,4) by blast
qed

lemma call_arg_law:
  assumes "call_slots_ok frame" and "0 \<le> b" and "b \<le> 32"
    and create: "create = do { (frame', n) \<leftarrow>
        call_arg_loop (word_of_int b) (frame_call_arg_slot_indices frame) b frame;
      Some (frame', regions\<lparr>rg_call_arg_size := n\<rparr>) }"
  shows "\<exists>slots b n. create = Some (frame\<lparr>frame_stack_slots := slots\<rparr>, regions\<lparr>rg_call_arg_size := n\<rparr>) \<and>
    same_slots frame (frame\<lparr>frame_stack_slots := slots\<rparr>) \<and>
    (\<forall>k<length (frame_call_arg_slot_indices frame).
       slot_offset (slots ! (frame_call_arg_slot_indices frame ! k)) = word_of_int (b + 8 * int k)) \<and>
    (\<forall>i<length slots. i \<notin> set (frame_call_arg_slot_indices frame) \<longrightarrow> slots ! i = slots_of frame ! i) \<and>
    0 \<le> b \<and> b + 8 * int (length (frame_call_arg_slot_indices frame)) \<le> n \<and>
    n \<le> 32 + 8 * int (length (frame_call_arg_slot_indices frame))"
proof -
  let ?n = "b + 8 * int (length (frame_call_arg_slot_indices frame))"
  obtain slots where "call_arg_loop (word_of_int b) (frame_call_arg_slot_indices frame) b frame =
      Some (frame\<lparr>frame_stack_slots := slots\<rparr>, ?n)"
    "same_slots frame (frame\<lparr>frame_stack_slots := slots\<rparr>)"
    "\<forall>k<length (frame_call_arg_slot_indices frame).
       slot_offset (slots ! (frame_call_arg_slot_indices frame ! k)) = word_of_int (b + 8 * int k)"
    "\<forall>i<length slots. i \<notin> set (frame_call_arg_slot_indices frame) \<longrightarrow> slots ! i = slots_of frame ! i"
    using call_arg_contract [OF assms(1)] by blast
  then show ?thesis
    using assms(2,3) by (intro exI [of _ slots] exI [of _ b] exI [of _ ?n]) (simp add: create)
qed

lemma below_law:
  assumes "rg_arg_store_offsets regions = []" and "\<And>s. s \<in> set (slots_of frame) \<Longrightarrow> 0 \<le> sz_of s"
    and create: "create = (let (n, offsets) = arg_store_below 0 (slots_of frame) 0 (rg_arg_store_offsets regions)
      in regions\<lparr>rg_arg_store_size := n, rg_arg_store_offsets := offsets\<rparr>)"
  shows "\<exists>n offsets. create = regions\<lparr>rg_arg_store_size := n, rg_arg_store_offsets := offsets\<rparr> \<and>
    placed (to_place Slot_ARG_STORE) sz_of (slots_of frame) offsets \<and>
    n \<le> 0 \<and> - n \<le> sum_list (map sz_of (slots_of frame)) \<and>
    (\<forall>p\<in>set offsets. n \<le> snd p \<and> snd p + sz_of (slots_of frame ! fst p) \<le> 0)"
proof -
  obtain n offsets where "arg_store_below 0 (slots_of frame) 0 [] = (n, offsets)"
    "placed (to_place Slot_ARG_STORE) sz_of (slots_of frame) offsets"
    "n \<le> 0" "- n \<le> sum_list (map sz_of (slots_of frame))"
    "\<forall>p\<in>set offsets. n \<le> snd p \<and> snd p + sz_of (slots_of frame ! fst p) \<le> 0"
    using below_arg_store [of frame] assms(2) by blast
  then show ?thesis
    using assms(1) by (intro exI [of _ n] exI [of _ offsets]) (simp add: create)
qed

lemma save_loop_contract:
  "\<exists>m k frame'. x86_64_save_loop is_gp a regs 0 frame = (m, frame') \<and> 0 \<le> m \<and> m \<le> 8 * int (length regs) \<and>
     slots_of frame' = slots_of frame @ replicate k (StackSlot_make Slot_GENERIC 8 a) \<and>
     frame_call_arg_slot_indices frame' = frame_call_arg_slot_indices frame \<and> k \<le> length regs"
  using save_loop_result [of is_gp a regs 0 frame] length_filter_le [of is_gp regs] by auto

lemma AAPCS_arg_storage_bound:
  "Storage_stack q s \<in> set (AAPCS_arg_storage_loop v ftype i gp fp n ts) \<Longrightarrow> s \<le> n + 8 * length ts"
  by (induction ts arbitrary: i gp fp n) (fastforce simp: Let_def split: if_splits)+

lemma SysV_arg_storage_bound:
  "Storage_stack q s \<in> set (SysV_arg_storage_loop gp fp n ts) \<Longrightarrow> s \<le> 8 * n + 8 * length ts"
  by (induction ts arbitrary: gp fp n) (fastforce simp: Let_def split: if_splits)+

lemma MSABI_arg_storage_bound:
  "Storage_stack q s \<in> set (MSABI_arg_storage_loop i ts) \<Longrightarrow> s \<le> 8 * i + 8 * length ts \<and> 8 dvd s"
  by (induction ts arbitrary: i) (fastforce split: if_splits)+

subsection \<open>The instances\<close>

interpretation aapcs: stack_convention "AAPCSCallingConv v" False "\<lambda>_. True" "\<lambda>_. True" for v
proof (unfold_locales, goal_cases)
  case (1 blocks frame frame' regions)
  then show ?case
    by (auto simp: AAPCSCallingConv_def AAPCS_create_implicit_region_def reg_count_def
        AAPCS_get_implicit_stack_bytes_def StackRegions_def Let_def intro!: exI [of _ 0])
next
  case (2 frame regions)
  then show ?case
    unfolding if_False by (intro below_law) (simp_all add: AAPCSCallingConv_def AAPCS_create_arg_store_region_def)
next
  case (3 frame blocks regions)
  then show ?case
    by (intro call_arg_law [where b = 0]) (simp_all add: AAPCSCallingConv_def AAPCS_create_call_arg_region_def)
next
  case (4 need regions)
  then show ?case
    using align_int_bounds(1,2) [of need 16] by (simp add: AAPCSCallingConv_def AAPCS_get_alloca_size_def Let_def)
next
  case (5 q s ftype)
  then show ?case
    using AAPCS_arg_storage_bound [of q s v ftype 0 0 0 0]
    by (simp add: AAPCSCallingConv_def AAPCS_get_arg_storage_def)
qed simp

interpretation sysv: stack_convention SysVCallingConv False "\<lambda>_. True" "\<lambda>_. True"
proof (unfold_locales, goal_cases)
  case (1 blocks frame frame' regions)
  let ?regs = "MachinePassUtils_get_modified_volatile_regs SysV_volatile_regs blocks"
  obtain m k frame2 where "x86_64_save_loop X8664_is_gp 0 ?regs 0 frame = (m, frame2)"
    "0 \<le> m" "m \<le> 8 * int (length ?regs)"
    "slots_of frame2 = slots_of frame @ replicate k (StackSlot_make Slot_GENERIC 8 0)"
    "frame_call_arg_slot_indices frame2 = frame_call_arg_slot_indices frame" "k \<le> length ?regs"
    using save_loop_contract by blast
  then show ?case
    using 1 by (auto simp: SysVCallingConv_def SysV_create_implicit_region_def reg_count_def
        SysV_get_implicit_stack_bytes_def StackRegions_def Let_def intro!: exI [of _ k] exI [of _ 0])
next
  case (2 frame regions)
  then show ?case
    unfolding if_False by (intro below_law) (simp_all add: SysVCallingConv_def SysV_create_arg_store_region_def)
next
  case (3 frame blocks regions)
  then show ?case
    by (intro call_arg_law [where b = 0]) (simp_all add: SysVCallingConv_def SysV_create_call_arg_region_def)
next
  case (4 need regions)
  then show ?case
    using align_int_bounds(1,2) [of "need + rg_saved_reg_size regions" 16]
    by (simp add: SysVCallingConv_def SysV_get_alloca_size_def Let_def)
next
  case (5 q s ftype)
  then show ?case
    using SysV_arg_storage_bound [of q s 0 0 0] by (simp add: SysVCallingConv_def SysV_get_arg_storage_def)
qed simp

interpretation msabi: stack_convention MSABICallingConv True "\<lambda>slot. sz_of slot \<le> 8" MSABI_has_call_instr
proof (unfold_locales, goal_cases)
  case (1 blocks frame frame' regions)
  let ?regs = "MachinePassUtils_get_modified_volatile_regs MSABI_volatile_regs blocks"
  obtain m k frame2 where "x86_64_save_loop X8664_is_gp 8 ?regs 0 frame = (m, frame2)"
    "0 \<le> m" "m \<le> 8 * int (length ?regs)"
    "slots_of frame2 = slots_of frame @ replicate k (StackSlot_make Slot_GENERIC 8 8)"
    "frame_call_arg_slot_indices frame2 = frame_call_arg_slot_indices frame" "k \<le> length ?regs"
    using save_loop_contract by blast
  then show ?case
    using 1 by (auto simp: MSABICallingConv_def MSABI_create_implicit_region_def reg_count_def
        MSABI_get_implicit_stack_bytes_def StackRegions_def Let_def intro!: exI [of _ k] exI [of _ 8])
next
  case (2 frame regions)
  then have small: "\<And>s. s \<in> set (slots_of frame) \<Longrightarrow> slot_type s = Slot_ARG_STORE \<Longrightarrow> sz_of s \<le> 8"
    and fresh: "\<And>s. s \<in> set (slots_of frame) \<Longrightarrow> \<not> StackSlot_is_defined s"
    by blast+
  have nonneg: "0 \<le> sum_list (map sz_of (slots_of frame))"
    using 2(3) by (intro sum_list_nonneg) auto
  from home_arg_store [OF small fresh] nonneg 2(1) show ?case
    by (auto simp: MSABICallingConv_def MSABI_create_arg_store_region_def intro!: exI [of _ 0])
next
  case (3 frame blocks regions)
  show ?case
  proof (cases "MSABI_has_call_instr blocks")
    case True
    with 3(1) show ?thesis
      by (intro call_arg_law [where b = 32]) (simp_all add: MSABICallingConv_def MSABI_create_call_arg_region_def)
  next
    case False
    with 3(2) show ?thesis
      by (intro exI [of _ "slots_of frame"] exI [of _ 0])
        (simp add: MSABICallingConv_def MSABI_create_call_arg_region_def)
  qed
next
  case (4 need regions)
  then show ?case
    using align_int_bounds(1,2) [of "need + rg_implicit_size regions" 16]
    by (simp add: MSABICallingConv_def MSABI_get_alloca_size_def Let_def)
next
  case (5 q s ftype)
  then show ?case
    using MSABI_arg_storage_bound [of q s 0] by (simp add: MSABICallingConv_def MSABI_get_arg_storage_def)
qed simp

subsection \<open>The layout of every frame\<close>

text \<open>
  C34: The stack frame pass gives every slot a place under each of the three native conventions. It
  keeps the slots with their sizes and kinds and adds slots for saved registers; no two local slots
  overlap. Under AAPCS and System V every local slot lies inside of the allocated frame. Under Microsoft
  x64 this holds for all but the stored arguments, which lie at their homes, the \<open>k\<close>-th of them
  exactly \<open>8 * k\<close> bytes above the frame, the pushed registers and the return address: the first four in the 32
  bytes of shadow space of the caller, the others at the home of the stack argument with the same
  number. A parameter passed on the stack is where \<open>get_arg_storage\<close> says, above the frame, and no
  local slot reaches into it but a stored argument with the same or a higher number. The frame is one
  whose slots have no offsets yet and whose sizes add up to less than \<open>2 ^ 31\<close>; under Microsoft
  x64 stored arguments have at most eight bytes, and only functions with calls have slots for
  outgoing arguments.
\<close>

theorem StackFramePass_layout:
  fixes f :: m_frame_function
  defines "frame \<equiv> func_stack_frame f" and "params \<equiv> fn_parameters f" and "blocks \<equiv> func_basic_blocks f"
  assumes "cc = AAPCSCallingConv v \<and> home = False \<and> fresh_frame (\<lambda>_. True) frame \<or>
      cc = SysVCallingConv \<and> home = False \<and> fresh_frame (\<lambda>_. True) frame \<or>
      cc = MSABICallingConv \<and> home = True \<and> fresh_frame (\<lambda>slot. sint (slot_size slot) \<le> 8) frame \<and>
        (MSABI_has_call_instr blocks \<or> frame_call_arg_slot_indices frame = [])"
    and "params_ok cc params frame" and "frame_space cc blocks params frame < 2 ^ 31"
  shows "\<exists>f'. StackFramePass_run cc f = Some f' \<and> func_basic_blocks f' = blocks \<and>
    layout_ok home (stack_params cc params) frame (func_stack_frame f')"
proof -
  from assms(4) have "\<exists>frame'. StackFramePass_frame cc blocks params frame = Some frame' \<and>
      layout_ok home (stack_params cc params) frame frame'"
    using assms(5,6) by (elim disjE conjE) (auto intro: aapcs.layout sysv.layout msabi.layout)
  then show ?thesis
    by (auto simp: StackFramePass_run_def frame_def params_def blocks_def)
qed

text \<open>A function with five parameters, a call with five arguments, and a register to save.\<close>

definition layout_frame :: stack_frame where
  "layout_frame =
     \<lparr>frame_stack_slots =
        [StackSlot_make Slot_GENERIC 12 4, StackSlot_make Slot_ARG_STORE 8 8,
         StackSlot_make Slot_CALL_ARG 8 1, StackSlot_make Slot_GENERIC 8 8],
      frame_call_arg_slot_indices = [2], frame_reg_save_slot_indices = [], frame_size = 0,
      frame_total_size = 0\<rparr>"

definition layout_function :: m_frame_function where
  "layout_function =
     \<lparr>func_name = ''f'',
      func_basic_blocks = [\<lparr>block_label = '''',
        block_instrs = [m_instruction X8664_MOV [m_reg 3 8, m_imm 1], m_instruction X8664_CALL []]\<rparr>],
      func_stack_frame = layout_frame, func_unwind_alloc_size = 0,
      fn_parameters = map (\<lambda>storage. \<lparr>mparam_type = Type_primitive P_I64, mparam_storage = storage\<rparr>)
        [Inl (Register_from_virtual 0), Inl (Register_from_virtual 1), Inl (Register_from_virtual 2),
         Inl (Register_from_virtual 3), Inr 3]\<rparr>"

theorem StackFramePass_layout_witness:
  "\<exists>f'. StackFramePass_run MSABICallingConv layout_function = Some f' \<and>
     layout_ok True [(3, 32)] layout_frame (func_stack_frame f')"
proof -
  note defs = layout_function_def layout_frame_def MSABICallingConv_def MSABI_get_arg_storage_def
    MSABI_ARG_REGS_INT_def StackFramePass_param_type_def Type_is_floating_point_def Type_primitive_def
    Type_is_primitive_def
  have on_stack: "stack_params MSABICallingConv (fn_parameters layout_function) = [(3, 32)]"
    by (simp add: defs stack_params_def)
  have "fresh_frame (\<lambda>slot. sint (slot_size slot) \<le> 8) layout_frame"
    by (auto simp: layout_frame_def fresh_frame_def call_slots_ok_def StackSlot_make_def StackSlot_is_defined_def
        StackSlot_INVALID_OFFSET_def less_Suc_eq)
  moreover have "MSABI_has_call_instr (func_basic_blocks layout_function)"
    by (simp add: layout_function_def MSABI_has_call_instr_def m_instruction_def X8664_MOV_def)
  moreover have "params_ok MSABICallingConv (fn_parameters layout_function) layout_frame"
    by (simp add: params_ok_def on_stack) (simp add: defs)
  moreover have "frame_space MSABICallingConv (func_basic_blocks layout_function) (fn_parameters layout_function)
      layout_frame < 2 ^ 31"
    by (simp add: frame_space_def reg_count_def defs MachinePassUtils_get_modified_volatile_regs_def
        MachinePassUtils_modified_instr_def m_instruction_def split: option.split)
  moreover have "func_stack_frame layout_function = layout_frame"
    by (simp add: layout_function_def)
  ultimately show ?thesis
    using StackFramePass_layout [of MSABICallingConv AAPCS_APPLE True layout_function] by (metis on_stack)
qed

end
