(* ===== verification/Arg_Places.thy ===== *)
theory Arg_Places
  imports Stack_Layout
begin

section \<open>Where the caller and the callee see an argument\<close>

text \<open>
  The caller moves the arguments of a call to registers and to slots of outgoing arguments, the callee
  looks for its parameters where \<open>get_arg_storage\<close> says.  Under the System V and the Microsoft
  conventions the two always agree (in variadic calls of Microsoft x64, for both views of a double); under AAPCS they do exactly for at most eight arguments or
  arguments of one class.
\<close>

subsection \<open>Agreement\<close>

text \<open>\<open>base\<close> is the offset of the first slot from the stack pointer of the caller.\<close>

definition place_agrees :: "nat \<Rightarrow> stack_frame \<Rightarrow> arg_dst \<Rightarrow> arg_storage \<Rightarrow> bool" where
  "place_agrees base frame dst storage \<longleftrightarrow>
     (case (dst, storage) of
        (Dst_reg r, Storage_reg r') \<Rightarrow> r = r'
      | (Dst_slot i, Storage_stack _ offset) \<Rightarrow>
          i < length (slots_of frame) \<and> base \<le> offset \<and> 8 dvd offset - base \<and>
          slot_call_arg_index (slots_of frame ! i) = of_nat ((offset - base) div 8)
      | _ \<Rightarrow> False)"

definition places_agree :: "nat \<Rightarrow> stack_frame \<Rightarrow> arg_dst list \<Rightarrow> arg_storage list \<Rightarrow> bool" where
  "places_agree base frame dsts storages \<longleftrightarrow> list_all2 (place_agrees base frame) dsts storages"

definition frame_extends :: "stack_frame \<Rightarrow> stack_frame \<Rightarrow> bool" where
  "frame_extends frame frame' \<longleftrightarrow> (\<exists>new. slots_of frame' = slots_of frame @ new)"

lemma frame_extends_refl [simp]: "frame_extends frame frame"
  by (simp add: frame_extends_def)

lemma frame_extends_trans: "frame_extends f g \<Longrightarrow> frame_extends g h \<Longrightarrow> frame_extends f h"
  by (auto simp: frame_extends_def)

lemma place_agrees_extends:
  "place_agrees base frame dst storage \<Longrightarrow> frame_extends frame frame' \<Longrightarrow> place_agrees base frame' dst storage"
  by (auto simp: place_agrees_def frame_extends_def nth_append split: arg_dst.splits arg_storage.splits)

lemma places_agree_Nil [simp]: "places_agree base frame [] []"
  by (simp add: places_agree_def)

lemma places_agree_Cons:
  "place_agrees base frame dst storage \<Longrightarrow> frame_extends frame frame' \<Longrightarrow>
   places_agree base frame' dsts storages \<Longrightarrow> places_agree base frame' (dst # dsts) (storage # storages)"
  by (simp add: places_agree_def place_agrees_extends)

lemma places_agree_reg:
  "places_agree base frame' dsts storages \<Longrightarrow>
   places_agree base frame' (Dst_reg r # dsts) (Storage_reg r # storages)"
  by (simp add: places_agree_def place_agrees_def)

definition is_reg :: "arg_storage \<Rightarrow> bool" where
  "is_reg storage \<longleftrightarrow> (case storage of Storage_reg _ \<Rightarrow> True | Storage_stack _ _ \<Rightarrow> False)"

lemma is_reg_simps [simp]: "is_reg (Storage_reg r)" "\<not> is_reg (Storage_stack q s)"
  by (simp_all add: is_reg_def)

lemma place_agrees_kind:
  "place_agrees base frame dst s1 \<Longrightarrow> place_agrees base frame dst s2 \<Longrightarrow> is_reg s1 = is_reg s2"
  by (auto simp: place_agrees_def split: arg_dst.splits arg_storage.splits)

lemma places_agree_kinds:
  "places_agree base frame dsts xs \<Longrightarrow> places_agree base frame dsts ys \<Longrightarrow> map is_reg xs = map is_reg ys"
  unfolding places_agree_def list_all2_conv_all_nth
  by (intro nth_equalityI) (simp_all, metis place_agrees_kind)

text \<open>The slots of outgoing arguments grow by one at a time.\<close>

lemma create_slot:
  assumes "call_slots_ok frame" and "index \<le> length (frame_call_arg_slot_indices frame)"
    and "StackFrame_create_call_arg_slot frame index 8 a = (slot, frame')"
  shows "call_slots_ok frame'" and "index < length (frame_call_arg_slot_indices frame')"
    and "frame_extends frame frame'" and "place_agrees base frame' (Dst_slot slot) (Storage_stack q (base + 8 * index))"
proof -
  note created = call_slots_ok_create [OF assms]
  show "call_slots_ok frame'" and "index < length (frame_call_arg_slot_indices frame')"
    by (rule created)+
  show "frame_extends frame frame'"
    using assms(3) by (auto simp: StackFrame_create_call_arg_slot_def StackFrame_new_stack_slot_def
        frame_extends_def Let_def split: if_splits)
  have "slot \<in> set (frame_call_arg_slot_indices frame')"
    using created(2,3) by simp
  then show "place_agrees base frame' (Dst_slot slot) (Storage_stack q (base + 8 * index))"
    using created(1-3) by (auto simp: place_agrees_def call_slots_ok_def Let_def)
qed

subsection \<open>System V\<close>

lemma SysV_dst_stack:
  "SysV_get_arg_dst (Storage_stack (Some index) offset) frame =
     Some (let (slot, frame') = StackFrame_create_call_arg_slot frame index 8 1 in (Dst_slot slot, frame'))"
  by (simp add: SysV_get_arg_dst_def StackFrame_create_call_arg_slot_def Let_def not_less split: prod.split)

lemma SysV_places:
  assumes "call_slots_ok frame" and "n \<le> length (frame_call_arg_slot_indices frame)"
  shows "\<exists>dsts frame'. SysV_arg_dsts (SysV_arg_storage_loop gp fp n ts) frame = Some (dsts, frame') \<and>
    frame_extends frame frame' \<and> call_slots_ok frame' \<and>
    places_agree 0 frame' dsts (SysV_arg_storage_loop gp fp n ts)"
  using assms
proof (induction ts arbitrary: gp fp n frame)
  case (Cons t ts)
  have "(\<exists>r gp' fp'. SysV_arg_storage_loop gp fp n (t # ts) =
        Storage_reg r # SysV_arg_storage_loop gp' fp' n ts) \<or>
      SysV_arg_storage_loop gp fp n (t # ts) =
        Storage_stack (Some n) (8 * n) # SysV_arg_storage_loop gp fp (n + 1) ts"
    by (auto simp: Let_def)
  then consider (reg) r gp' fp' where "SysV_arg_storage_loop gp fp n (t # ts) =
      Storage_reg r # SysV_arg_storage_loop gp' fp' n ts"
    | (stack) "SysV_arg_storage_loop gp fp n (t # ts) =
      Storage_stack (Some n) (8 * n) # SysV_arg_storage_loop gp fp (n + 1) ts"
    by blast
  then show ?case
  proof cases
    case reg
    with Cons.IH [OF Cons.prems, of gp' fp'] show ?thesis
      by (auto simp: SysV_get_arg_dst_def places_agree_reg)
  next
    case stack
    obtain slot frame1 where create: "StackFrame_create_call_arg_slot frame n 8 1 = (slot, frame1)"
      by force
    note slot = create_slot [OF Cons.prems create]
    obtain dsts frame' where "SysV_arg_dsts (SysV_arg_storage_loop gp fp (n + 1) ts) frame1 = Some (dsts, frame')"
      "frame_extends frame1 frame'" "call_slots_ok frame'"
      "places_agree 0 frame' dsts (SysV_arg_storage_loop gp fp (n + 1) ts)"
      using Cons.IH [OF slot(1), of "n + 1" gp fp] slot(2) by auto
    then show ?thesis
      using slot(3) slot(4) [of 0 "Some n"] unfolding stack
      by (auto simp: SysV_dst_stack create intro: frame_extends_trans places_agree_Cons)
  qed
qed simp

subsection \<open>Microsoft x64\<close>

lemma MSABI_stack_move:
  "MSABI_emit_stack_arg_move index frame =
     (let (slot, frame') = StackFrame_create_call_arg_slot frame (index - 4) 8 1 in ([Dst_slot slot], frame'))"
  by (simp add: MSABI_emit_stack_arg_move_def StackFrame_create_call_arg_slot_def Let_def not_less split: prod.split)

text \<open>
  In a variadic call, floating-point arguments are doubles, and those in registers are moved to an integer
  register as well. \<open>as_ints\<close> are the parameters of a callee that takes every argument from the place
  of an integer, as it does for the arguments that it has no names for.
\<close>

definition promoted :: "ssa_type list \<Rightarrow> bool" where
  "promoted types \<longleftrightarrow> (\<forall>t\<in>set types. Type_is_floating_point t \<longrightarrow> t = Type_primitive P_F64)"

definition as_ints :: "ssa_type list \<Rightarrow> ssa_type list" where
  "as_ints types = map (\<lambda>_. Type_primitive P_I64) types"

definition MSABI_moves_agree :: "bool \<Rightarrow> nat \<Rightarrow> ssa_type list \<Rightarrow> stack_frame \<Rightarrow> arg_dst list list \<Rightarrow> bool" where
  "MSABI_moves_agree variadic i types frame moves \<longleftrightarrow>
     (\<forall>dsts\<in>set moves. dsts \<noteq> [] \<and> length dsts \<le> (if variadic then 2 else 1)) \<and>
     places_agree 32 frame (map hd moves) (MSABI_arg_storage_loop i types) \<and>
     (variadic \<longrightarrow> places_agree 32 frame (map last moves) (MSABI_arg_storage_loop i (as_ints types)))"

lemma int_not_float [simp]: "\<not> Type_is_floating_point (Type_primitive P_I64)"
  by (simp add: Type_is_floating_point_def Type_is_primitive_def Type_primitive_def)

lemma MSABI_moves_agree_reg:
  assumes "MSABI_moves_agree variadic (i + 1) types frame moves" and "i < 4"
    and "dsts = (if variadic \<and> Type_is_floating_point t then [Dst_reg (MSABI_ARG_REGS_FP ! i), Dst_reg (MSABI_ARG_REGS_INT ! i)]
      else [Dst_reg (if Type_is_floating_point t then MSABI_ARG_REGS_FP ! i else MSABI_ARG_REGS_INT ! i)])"
  shows "MSABI_moves_agree variadic i (t # types) frame (dsts # moves)"
  using assms by (auto simp: MSABI_moves_agree_def as_ints_def MSABI_ARG_REGS_INT_def places_agree_reg)

lemma MSABI_moves_agree_slot:
  assumes "MSABI_moves_agree variadic (i + 1) types frame' moves" and "\<not> i < 4"
    and "place_agrees 32 frame (Dst_slot slot) (Storage_stack None (8 * i))" and "frame_extends frame frame'"
  shows "MSABI_moves_agree variadic i (t # types) frame' ([Dst_slot slot] # moves)"
  using assms by (auto simp: MSABI_moves_agree_def as_ints_def MSABI_ARG_REGS_INT_def intro: places_agree_Cons)

lemma MSABI_places:
  assumes "call_slots_ok frame" and "i - 4 \<le> length (frame_call_arg_slot_indices frame)"
    and "variadic \<Longrightarrow> promoted (take (4 - i) ts)"
  shows "\<exists>moves frame'. MSABI_emit_arg_moves variadic i ts frame = Some (moves, frame') \<and>
    frame_extends frame frame' \<and> call_slots_ok frame' \<and> MSABI_moves_agree variadic i ts frame' moves"
  using assms
proof (induction ts arbitrary: i frame)
  case Nil
  then show ?case by (simp add: MSABI_moves_agree_def as_ints_def)
next
  case (Cons t ts)
  show ?case
  proof (cases "i < 4")
    case True
    let ?dsts = "if variadic \<and> Type_is_floating_point t
      then [Dst_reg (MSABI_ARG_REGS_FP ! i), Dst_reg (MSABI_ARG_REGS_INT ! i)]
      else [Dst_reg (if Type_is_floating_point t then MSABI_ARG_REGS_FP ! i else MSABI_ARG_REGS_INT ! i)]"
    have take: "take (4 - i) (t # ts) = t # take (4 - (i + 1)) ts" using True by (simp add: take_Cons')
    have later: "promoted (take (4 - (i + 1)) ts)" and "Type_is_floating_point t \<longrightarrow> t = Type_primitive P_F64"
      if variadic using Cons.prems(3) [OF that] unfolding take promoted_def by simp_all
    then have "MSABI_emit_arg_move t i variadic frame = Some (?dsts, frame)"
      using True by (auto simp: MSABI_emit_arg_move_def MSABI_emit_reg_arg_move_def
          MSABI_emit_reg_arg_move_variadic_def Type_is_primitive_def Type_primitive_def)
    moreover obtain moves frame' where "MSABI_emit_arg_moves variadic (i + 1) ts frame = Some (moves, frame')"
      "frame_extends frame frame'" "call_slots_ok frame'" "MSABI_moves_agree variadic (i + 1) ts frame' moves"
      using Cons.IH [OF Cons.prems(1), of "i + 1"] later True by auto
    ultimately show ?thesis
      using MSABI_moves_agree_reg [OF _ True refl] by fastforce
  next
    case False
    obtain slot frame1 where create: "StackFrame_create_call_arg_slot frame (i - 4) 8 1 = (slot, frame1)"
      by force
    note slot = create_slot [OF Cons.prems(1,2) create]
    have "i + 1 - 4 \<le> length (frame_call_arg_slot_indices frame1)"
      using slot(2) by linarith
    then obtain moves frame' where rest: "MSABI_emit_arg_moves variadic (i + 1) ts frame1 = Some (moves, frame')"
      "frame_extends frame1 frame'" "call_slots_ok frame'" "MSABI_moves_agree variadic (i + 1) ts frame' moves"
      using Cons.IH [OF slot(1), of "i + 1"] False by (auto simp: promoted_def)
    have "32 + 8 * (i - 4) = 8 * i"
      using False by simp
    then have "place_agrees 32 frame1 (Dst_slot slot) (Storage_stack None (8 * i))"
      using slot(4) [of 32 None] by simp
    from MSABI_moves_agree_slot [OF rest(4) False this rest(2)] show ?thesis
      using rest False frame_extends_trans [OF slot(3) rest(2)]
      by (auto simp: MSABI_emit_arg_move_def MSABI_stack_move create)
  qed
qed

subsection \<open>AAPCS\<close>

text \<open>The places to which the caller moves its arguments.\<close>

fun AAPCS_caller_places :: "nat \<Rightarrow> nat \<Rightarrow> nat \<Rightarrow> ssa_type list \<Rightarrow> arg_storage list" where
  "AAPCS_caller_places i gp fp [] = []"
| "AAPCS_caller_places i gp fp (t # ts) =
     (if i < 8 then
        if Type_is_floating_point t
        then Storage_reg (AAPCS_ARG_REGS_FP ! fp) # AAPCS_caller_places (i + 1) gp (fp + 1) ts
        else Storage_reg (AAPCS_ARG_REGS_INT ! gp) # AAPCS_caller_places (i + 1) (gp + 1) fp ts
      else Storage_stack None (8 * (i - 8)) # AAPCS_caller_places (i + 1) gp fp ts)"

definition on_stack_all :: "aapcs_variant \<Rightarrow> function_type \<Rightarrow> bool" where
  "on_stack_all v ftype \<longleftrightarrow> v = AAPCS_APPLE \<and> ftype_variadic ftype"

lemma AAPCS_caller:
  assumes "call_slots_ok frame" and "i - 8 \<le> length (frame_call_arg_slot_indices frame)"
    and "gp + fp \<le> i" and "\<not> on_stack_all v ftype"
  shows "\<exists>dsts frame'. AAPCS_emit_arg_moves_loop v ftype i gp fp ts frame = Some (dsts, frame') \<and>
    frame_extends frame frame' \<and> call_slots_ok frame' \<and>
    places_agree 0 frame' dsts (AAPCS_caller_places i gp fp ts)"
  using assms(1-3)
proof (induction ts arbitrary: i gp fp frame)
  case (Cons t ts)
  have regs: "\<not> (v = AAPCS_APPLE \<and> ftype_variadic ftype \<and> ftype_first_variadic_index ftype \<le> i)"
    using assms(4) unfolding on_stack_all_def by blast
  show ?case
  proof (cases "i < 8")
    case True
    define gp' fp' where "gp' = (if Type_is_floating_point t then gp else gp + 1)"
      and "fp' = (if Type_is_floating_point t then fp + 1 else fp)"
    have "i + 1 - 8 \<le> length (frame_call_arg_slot_indices frame)" "gp' + fp' \<le> i + 1"
      using True Cons.prems(3) by (simp_all add: gp'_def fp'_def)
    then obtain dsts frame' where rest:
      "AAPCS_emit_arg_moves_loop v ftype (i + 1) gp' fp' ts frame = Some (dsts, frame')"
      "frame_extends frame frame'" "call_slots_ok frame'"
      "places_agree 0 frame' dsts (AAPCS_caller_places (i + 1) gp' fp' ts)"
      using Cons.IH [OF Cons.prems(1)] by blast
    have "gp < 8" "fp < 8"
      using True Cons.prems(3) by simp_all
    with rest True regs show ?thesis
      by (auto simp: gp'_def fp'_def AAPCS_emit_reg_arg_move_def vector_get_def AAPCS_ARG_REGS_INT_def
          AAPCS_ARG_REGS_FP_def places_agree_reg split: if_splits)
  next
    case False
    obtain slot frame1 where create: "StackFrame_create_call_arg_slot frame (i - 8) 8 1 = (slot, frame1)"
      by force
    note slot = create_slot [OF Cons.prems(1,2) create]
    have "i + 1 - 8 \<le> length (frame_call_arg_slot_indices frame1)" "gp + fp \<le> i + 1"
      using slot(2) Cons.prems(3) by linarith+
    then obtain dsts frame' where
      "AAPCS_emit_arg_moves_loop v ftype (i + 1) gp fp ts frame1 = Some (dsts, frame')"
      "frame_extends frame1 frame'" "call_slots_ok frame'"
      "places_agree 0 frame' dsts (AAPCS_caller_places (i + 1) gp fp ts)"
      using Cons.IH [OF slot(1)] by blast
    with False regs slot(3) slot(4) [of 0 None] show ?thesis
      by (auto simp: AAPCS_emit_stack_arg_move_def create intro: frame_extends_trans places_agree_Cons)
  qed
qed simp

text \<open>The callee counts the registers of each class on its own.\<close>

abbreviation fp_count :: "ssa_type list \<Rightarrow> nat" where
  "fp_count ts \<equiv> length (filter Type_is_floating_point ts)"

abbreviation gp_count :: "ssa_type list \<Rightarrow> nat" where
  "gp_count ts \<equiv> length (filter (\<lambda>t. \<not> Type_is_floating_point t) ts)"

lemma AAPCS_callee_Cons:
  assumes "\<not> on_stack_all v ftype"
  shows "AAPCS_arg_storage_loop v ftype i gp fp n (t # ts) =
    (if Type_is_floating_point t then
       if fp < 8 then Storage_reg (AAPCS_ARG_REGS_FP ! fp) #
         AAPCS_arg_storage_loop v ftype (i + 1) gp (fp + 1) n ts
       else Storage_stack None n # AAPCS_arg_storage_loop v ftype (i + 1) gp fp (n + 8) ts
     else
       if gp < 8 then Storage_reg (AAPCS_ARG_REGS_INT ! gp) #
         AAPCS_arg_storage_loop v ftype (i + 1) (gp + 1) fp n ts
       else Storage_stack None n # AAPCS_arg_storage_loop v ftype (i + 1) gp fp (n + 8) ts)"
proof -
  have "\<not> (v = AAPCS_APPLE \<and> ftype_variadic ftype \<and> ftype_first_variadic_index ftype \<le> i)"
    using assms unfolding on_stack_all_def by blast
  moreover have "length AAPCS_ARG_REGS_FP = 8" "length AAPCS_ARG_REGS_INT = 8"
    by (simp_all add: AAPCS_ARG_REGS_FP_def AAPCS_ARG_REGS_INT_def)
  ultimately show ?thesis
    by (auto simp: Let_def)
qed

declare AAPCS_arg_storage_loop.simps(2) [simp del]

lemma AAPCS_callee_regs:
  assumes "\<not> on_stack_all v ftype" and "gp + fp = i" and "i + length ts \<le> 8"
  shows "AAPCS_arg_storage_loop v ftype i gp fp n (ts @ rest) =
      AAPCS_caller_places i gp fp ts @
      AAPCS_arg_storage_loop v ftype (i + length ts) (gp + gp_count ts) (fp + fp_count ts) n rest"
    and "AAPCS_caller_places i gp fp (ts @ rest) =
      AAPCS_caller_places i gp fp ts @
      AAPCS_caller_places (i + length ts) (gp + gp_count ts) (fp + fp_count ts) rest"
  using assms(2,3)
proof (induction ts arbitrary: i gp fp)
  case (Cons t ts)
  {
    case 1
    then show ?case
      using Cons(1) [of "gp + 1" fp "i + 1"] Cons(1) [of gp "fp + 1" "i + 1"]
      by (auto simp: AAPCS_callee_Cons [OF assms(1)])
  next
    case 2
    then show ?case
      using Cons(2) [of "gp + 1" fp "i + 1"] Cons(2) [of gp "fp + 1" "i + 1"] by auto
  }
qed simp_all

lemma AAPCS_callee_stack:
  assumes "\<not> on_stack_all v ftype" and "8 \<le> i"
  shows "AAPCS_arg_storage_loop v ftype i gp fp (8 * (i - 8)) ts = AAPCS_caller_places i gp fp ts \<longleftrightarrow>
      (\<forall>t\<in>set ts. 8 \<le> (if Type_is_floating_point t then fp else gp))"
    and "map is_reg (AAPCS_arg_storage_loop v ftype i gp fp (8 * (i - 8)) ts) =
        map is_reg (AAPCS_caller_places i gp fp ts) \<longleftrightarrow>
      (\<forall>t\<in>set ts. 8 \<le> (if Type_is_floating_point t then fp else gp))"
  using assms(2)
proof (induction ts arbitrary: i)
  case (Cons t ts)
  {
    case 1
    then have "8 * (i + 1 - 8) = 8 * (i - 8) + 8" "8 \<le> i + 1"
      by simp_all
    then show ?case
      using Cons(1) [of "i + 1"] 1 by (auto simp: AAPCS_callee_Cons [OF assms(1)])
  next
    case 2
    then have "8 * (i + 1 - 8) = 8 * (i - 8) + 8" "8 \<le> i + 1"
      by simp_all
    then show ?case
      using Cons(2) [of "i + 1"] 2 by (auto simp: AAPCS_callee_Cons [OF assms(1)])
  }
qed simp_all

text \<open>Arguments of one class, or few of them.\<close>

definition one_class :: "ssa_type list \<Rightarrow> bool" where
  "one_class ts \<longleftrightarrow> list_all Type_is_floating_point ts \<or> list_all (\<lambda>t. \<not> Type_is_floating_point t) ts"

lemma counts_one_class:
  assumes "length xs = 8" and "ys \<noteq> []"
  shows "(\<forall>t\<in>set ys. 8 \<le> (if Type_is_floating_point t then fp_count xs else gp_count xs)) \<longleftrightarrow> one_class (xs @ ys)"
proof -
  have fp: "8 \<le> fp_count xs \<longleftrightarrow> list_all Type_is_floating_point xs"
    using assms(1) length_filter_le [of Type_is_floating_point xs]
    by (metis filter_id_conv le_antisym length_filter_less linorder_not_le list_all_iff)
  have gp: "8 \<le> gp_count xs \<longleftrightarrow> list_all (\<lambda>t. \<not> Type_is_floating_point t) xs"
    using assms(1) length_filter_le [of "\<lambda>t. \<not> Type_is_floating_point t" xs]
    by (metis (mono_tags, lifting) filter_id_conv le_antisym length_filter_less linorder_not_le list_all_iff)
  have "xs \<noteq> []"
    using assms(1) by auto
  then have "\<not> (list_all Type_is_floating_point xs \<and> list_all (\<lambda>t. \<not> Type_is_floating_point t) xs)"
    by (cases xs) auto
  then show ?thesis
    using assms(2) by (cases ys) (auto simp: fp gp one_class_def list_all_iff)
qed

lemma AAPCS_agreement:
  assumes "\<not> on_stack_all v ftype"
  shows "AAPCS_arg_storage_loop v ftype 0 0 0 0 ts = AAPCS_caller_places 0 0 0 ts \<longleftrightarrow>
      length ts \<le> 8 \<or> one_class ts"
    and "map is_reg (AAPCS_arg_storage_loop v ftype 0 0 0 0 ts) = map is_reg (AAPCS_caller_places 0 0 0 ts) \<longleftrightarrow>
      length ts \<le> 8 \<or> one_class ts"
proof -
  define xs ys where "xs = take 8 ts" and "ys = drop 8 ts"
  have ts: "ts = xs @ ys" and xs: "0 + length xs \<le> 8"
    by (simp_all add: xs_def ys_def)
  note regs = AAPCS_callee_regs(1) [OF assms add_0 xs, where n = 0 and rest = ys]
    AAPCS_callee_regs(2) [OF assms add_0 xs, where rest = ys]
  have "(AAPCS_arg_storage_loop v ftype 0 0 0 0 ts = AAPCS_caller_places 0 0 0 ts \<longleftrightarrow>
        length ts \<le> 8 \<or> one_class ts) \<and>
      (map is_reg (AAPCS_arg_storage_loop v ftype 0 0 0 0 ts) = map is_reg (AAPCS_caller_places 0 0 0 ts) \<longleftrightarrow>
        length ts \<le> 8 \<or> one_class ts)"
  proof (cases "ys = []")
    case True
    then show ?thesis
      using regs ts xs by simp
  next
    case False
    then have len: "length xs = 8" "\<not> length ts \<le> 8"
      by (simp_all add: xs_def ys_def)
    note stack = AAPCS_callee_stack [OF assms order_refl, of "gp_count xs" "fp_count xs" ys]
    show ?thesis
      using regs stack counts_one_class [OF len(1) False] len by (simp add: ts)
  qed
  then show "AAPCS_arg_storage_loop v ftype 0 0 0 0 ts = AAPCS_caller_places 0 0 0 ts \<longleftrightarrow>
      length ts \<le> 8 \<or> one_class ts"
    and "map is_reg (AAPCS_arg_storage_loop v ftype 0 0 0 0 ts) = map is_reg (AAPCS_caller_places 0 0 0 ts) \<longleftrightarrow>
      length ts \<le> 8 \<or> one_class ts"
    by blast+
qed

subsection \<open>Caller and callee\<close>

text \<open>
  C36: Under AAPCS the places to which the caller moves the arguments of a call are those from which
  the callee takes its parameters if and only if there are at most eight of them or all of them are of
  one class: \<open>emit_arg_moves\<close> puts the arguments from the ninth on onto the stack, whatever their
  class, but \<open>get_arg_storage\<close> counts integer and floating-point registers separately.  Arguments
  that a variadic call on Apple platforms puts onto the stack are not considered.
\<close>

theorem AAPCS_arg_places:
  assumes "call_slots_ok frame" and "\<not> (v = AAPCS_APPLE \<and> ftype_variadic ftype)"
  shows "\<exists>dsts frame'. AAPCS_emit_arg_moves v ftype (ftype_params ftype) frame = Some (dsts, frame') \<and>
    call_slots_ok frame' \<and>
    (places_agree 0 frame' dsts (AAPCS_get_arg_storage v ftype) \<longleftrightarrow>
       length (ftype_params ftype) \<le> 8 \<or> one_class (ftype_params ftype))"
proof -
  let ?ts = "ftype_params ftype"
  have v: "\<not> on_stack_all v ftype"
    using assms(2) by (simp add: on_stack_all_def)
  obtain dsts frame' where caller: "AAPCS_emit_arg_moves_loop v ftype 0 0 0 ?ts frame = Some (dsts, frame')"
    "call_slots_ok frame'" "places_agree 0 frame' dsts (AAPCS_caller_places 0 0 0 ?ts)"
    using AAPCS_caller [OF assms(1) _ _ v, of 0 0 0 ?ts] by auto
  have "places_agree 0 frame' dsts (AAPCS_get_arg_storage v ftype) \<longleftrightarrow> length ?ts \<le> 8 \<or> one_class ?ts"
    using caller(3) places_agree_kinds [OF caller(3)] AAPCS_agreement [OF v, of ?ts]
    by (metis AAPCS_get_arg_storage_def)
  then show ?thesis
    using caller(1,2) by (simp add: AAPCS_emit_arg_moves_def)
qed

text \<open>
  C37: Under the System V convention the places to which the caller moves the arguments of a call are
  always those from which the callee takes its parameters. Under the Microsoft convention the same holds
  for every call that is not variadic, with one move for each argument and slots that start above the 32
  bytes of shadow space. In a variadic call whose floating-point register arguments are doubles (the code
  asserts it), the first move of every argument goes where the callee takes a parameter of its
  type, and the last one where the callee takes an integer, so that an unnamed double is in both
  registers of its position.
\<close>

theorem x86_64_arg_places:
  assumes "call_slots_ok frame"
  shows "(\<exists>dsts frame'. SysV_arg_dsts (SysV_get_arg_storage ftype) frame = Some (dsts, frame') \<and>
      call_slots_ok frame' \<and> places_agree 0 frame' dsts (SysV_get_arg_storage ftype)) \<and>
    (\<exists>dsts frame'. MSABI_emit_arg_moves False 0 (ftype_params ftype) frame =
        Some (map (\<lambda>dst. [dst]) dsts, frame') \<and>
      call_slots_ok frame' \<and> places_agree 32 frame' dsts (MSABI_get_arg_storage ftype)) \<and>
    (promoted (take 4 (ftype_params ftype)) \<longrightarrow>
      (\<exists>moves frame'. MSABI_emit_arg_moves True 0 (ftype_params ftype) frame = Some (moves, frame') \<and>
        call_slots_ok frame' \<and> (\<forall>dsts\<in>set moves. dsts \<noteq> [] \<and> length dsts \<le> 2) \<and>
        places_agree 32 frame' (map hd moves) (MSABI_get_arg_storage ftype) \<and>
        places_agree 32 frame' (map last moves)
          (MSABI_get_arg_storage (ftype\<lparr>ftype_params := as_ints (ftype_params ftype)\<rparr>))))"
proof (intro conjI impI)
  show "\<exists>dsts frame'. SysV_arg_dsts (SysV_get_arg_storage ftype) frame = Some (dsts, frame') \<and>
      call_slots_ok frame' \<and> places_agree 0 frame' dsts (SysV_get_arg_storage ftype)"
    using SysV_places [OF assms, of 0 0 0 "ftype_params ftype"] by (auto simp: SysV_get_arg_storage_def)
  obtain moves frame' where moves: "MSABI_emit_arg_moves False 0 (ftype_params ftype) frame = Some (moves, frame')"
    "call_slots_ok frame'" "MSABI_moves_agree False 0 (ftype_params ftype) frame' moves"
    using MSABI_places [OF assms, of 0 False "ftype_params ftype"] by auto
  have "map (\<lambda>dst. [dst]) (map hd moves) = moves"
  proof -
    have "[hd dsts] = dsts" if "dsts \<in> set moves" for dsts
      using moves(3) that by (cases dsts) (auto simp: MSABI_moves_agree_def)
    then show ?thesis by (simp add: map_idI)
  qed
  then show "\<exists>dsts frame'. MSABI_emit_arg_moves False 0 (ftype_params ftype) frame =
        Some (map (\<lambda>dst. [dst]) dsts, frame') \<and>
      call_slots_ok frame' \<and> places_agree 32 frame' dsts (MSABI_get_arg_storage ftype)"
    using moves by (intro exI [of _ "map hd moves"] exI [of _ frame'])
      (simp add: MSABI_moves_agree_def MSABI_get_arg_storage_def)
  show "\<exists>moves frame'. MSABI_emit_arg_moves True 0 (ftype_params ftype) frame = Some (moves, frame') \<and>
        call_slots_ok frame' \<and> (\<forall>dsts\<in>set moves. dsts \<noteq> [] \<and> length dsts \<le> 2) \<and>
        places_agree 32 frame' (map hd moves) (MSABI_get_arg_storage ftype) \<and>
        places_agree 32 frame' (map last moves)
          (MSABI_get_arg_storage (ftype\<lparr>ftype_params := as_ints (ftype_params ftype)\<rparr>))"
    if "promoted (take 4 (ftype_params ftype))"
    using MSABI_places [OF assms, of 0 True "ftype_params ftype"] that
    by (auto simp: MSABI_moves_agree_def MSABI_get_arg_storage_def)
qed

definition no_slots :: stack_frame where
  "no_slots = \<lparr>frame_stack_slots = [], frame_call_arg_slot_indices = [], frame_reg_save_slot_indices = [],
     frame_size = 0, frame_total_size = 0\<rparr>"

definition mixed_type :: function_type where
  "mixed_type = \<lparr>ftype_params = replicate 8 (Type_primitive P_I64) @ [Type_primitive P_F64],
     ftype_return_type = Type_primitive P_VOID, ftype_variadic = False, ftype_first_variadic_index = 0\<rparr>"

lemma no_slots_ok: "call_slots_ok no_slots"
  by (simp add: no_slots_def call_slots_ok_def)

text \<open>Eight integers and a float: the caller puts the float onto the stack, the callee looks for it in \<open>D0\<close>.\<close>

theorem AAPCS_arg_places_witness:
  "\<exists>dsts frame'. AAPCS_emit_arg_moves AAPCS_STANDARD mixed_type (ftype_params mixed_type) no_slots =
     Some (dsts, frame') \<and> \<not> places_agree 0 frame' dsts (AAPCS_get_arg_storage AAPCS_STANDARD mixed_type)"
proof -
  have "\<not> one_class (ftype_params mixed_type)" "\<not> length (ftype_params mixed_type) \<le> 8"
      "\<not> ftype_variadic mixed_type"
    by (simp_all add: mixed_type_def one_class_def list_all_iff Type_is_floating_point_def
        Type_is_primitive_def Type_primitive_def)
  then show ?thesis
    using AAPCS_arg_places [OF no_slots_ok, of AAPCS_STANDARD mixed_type] by auto
qed

text \<open>The same call, and a variadic one with an integer and a double.\<close>

definition printf_type :: function_type where
  "printf_type = \<lparr>ftype_params = [Type_primitive P_I64, Type_primitive P_F64],
     ftype_return_type = Type_primitive P_VOID, ftype_variadic = True, ftype_first_variadic_index = 1\<rparr>"

theorem x86_64_arg_places_witness:
  "(\<exists>dsts frame'. SysV_arg_dsts (SysV_get_arg_storage mixed_type) no_slots = Some (dsts, frame') \<and>
     places_agree 0 frame' dsts (SysV_get_arg_storage mixed_type)) \<and>
   (\<exists>moves frame'. MSABI_emit_arg_moves True 0 (ftype_params printf_type) no_slots = Some (moves, frame') \<and>
     places_agree 32 frame' (map last moves) [Storage_reg 1, Storage_reg 2])"
proof
  show "\<exists>dsts frame'. SysV_arg_dsts (SysV_get_arg_storage mixed_type) no_slots = Some (dsts, frame') \<and>
     places_agree 0 frame' dsts (SysV_get_arg_storage mixed_type)"
    using x86_64_arg_places [OF no_slots_ok, of mixed_type] by blast
  have "promoted (take 4 (ftype_params printf_type))"
    by (simp add: printf_type_def promoted_def)
  moreover have "MSABI_get_arg_storage (printf_type\<lparr>ftype_params := as_ints (ftype_params printf_type)\<rparr>) =
      [Storage_reg 1, Storage_reg 2]"
    by (simp add: printf_type_def as_ints_def MSABI_get_arg_storage_def MSABI_ARG_REGS_INT_def)
  ultimately show "\<exists>moves frame'. MSABI_emit_arg_moves True 0 (ftype_params printf_type) no_slots = Some (moves, frame') \<and>
     places_agree 32 frame' (map last moves) [Storage_reg 1, Storage_reg 2]"
    using x86_64_arg_places [OF no_slots_ok, of printf_type] by auto
qed

end
