(* ===== verification/Prolog_Epilog.thy ===== *)
theory Prolog_Epilog
  imports Calling_Conv
begin

section \<open>Prologs and epilogs\<close>

text \<open>
  What the prolog and epilog pass makes of a function: the epilog, which a convention computes afresh
  for every exit from code into which the prolog and earlier epilogs have been put already, is always
  the same.  The contract of a convention that this needs is a locale.
\<close>

subsection \<open>The registers that code modifies\<close>

definition first_regs :: "u32 list \<Rightarrow> m_instr list \<Rightarrow> u32 list" where
  "first_regs volatile_regs code = concat (map (\<lambda>instr.
     case instr_operands instr of
       [] \<Rightarrow> []
     | dest # _ \<Rightarrow>
         (case Operand_get_physical_reg dest of
            None \<Rightarrow> []
          | Some reg \<Rightarrow>
              if MOperand_is_physical_reg dest \<and> \<not> CallingConvention_is_volatile volatile_regs reg then [reg] else []))
     code)"

definition first_seen :: "'a list \<Rightarrow> 'a list \<Rightarrow> 'a list" where
  "first_seen seen xs = foldl (\<lambda>r x. if x \<in> set r then r else r @ [x]) seen xs"

lemma first_seen_simps [simp]:
  "first_seen seen [] = seen"
  "first_seen seen (x # xs) = first_seen (if x \<in> set seen then seen else seen @ [x]) xs"
  "first_seen seen (xs @ ys) = first_seen (first_seen seen xs) ys"
  by (simp_all add: first_seen_def)

lemma first_regs_simps [simp]:
  "first_regs vs [] = []" "first_regs vs (xs @ ys) = first_regs vs xs @ first_regs vs ys"
  by (simp_all add: first_regs_def)

lemma first_regs_Cons: "first_regs vs (i # xs) = first_regs vs [i] @ first_regs vs xs"
  by (simp add: first_regs_def)

lemma modified_instr_seen:
  "MachinePassUtils_modified_instr vs result instr = first_seen result (first_regs vs [instr])"
  by (auto simp: MachinePassUtils_modified_instr_def first_regs_def split: list.split option.split)

abbreviation code_of :: "m_basic_block list \<Rightarrow> m_instr list" where
  "code_of blocks \<equiv> concat (map m_basic_block.block_instrs blocks)"

lemma modified_regs_seen:
  "MachinePassUtils_get_modified_volatile_regs vs blocks = first_seen [] (first_regs vs (code_of blocks))"
proof -
  have instrs: "foldl (MachinePassUtils_modified_instr vs) r xs = first_seen r (first_regs vs xs)" for r xs
  proof (induction xs arbitrary: r)
    case (Cons i xs)
    then show ?case
      by (simp add: modified_instr_seen first_regs_Cons [of _ i xs])
  qed simp
  have "foldl (\<lambda>r b. foldl (MachinePassUtils_modified_instr vs) r (m_basic_block.block_instrs b)) r blocks =
      first_seen r (first_regs vs (code_of blocks))" for r
    by (induction blocks arbitrary: r) (simp_all add: instrs)
  then show ?thesis
    by (simp add: MachinePassUtils_get_modified_volatile_regs_def)
qed

lemma first_seen_set [simp]: "set (first_seen seen xs) = set seen \<union> set xs"
  by (induction xs arbitrary: seen) auto

lemma first_seen_known: "set xs \<subseteq> set seen \<Longrightarrow> first_seen seen xs = seen"
  by (induction xs) auto

lemma first_seen_distinct: "distinct seen \<Longrightarrow> distinct (first_seen seen xs)"
  by (induction xs arbitrary: seen) auto

lemma first_seen_prefix: "\<exists>ys. first_seen seen xs = seen @ ys"
  by (induction xs arbitrary: seen) (auto, (metis append.assoc)+)

lemma first_seen_fresh: "distinct (seen @ ys) \<Longrightarrow> first_seen seen ys = seen @ ys"
  by (induction ys arbitrary: seen) auto

lemma first_seen_idem [simp]: "first_seen [] (first_seen [] xs) = first_seen [] xs"
  using first_seen_fresh [of "[]" "first_seen [] xs"] first_seen_distinct [of "[]" xs] by simp

lemma filter_first_seen: "filter P (first_seen seen xs) = first_seen (filter P seen) (filter P xs)"
  by (induction xs arbitrary: seen) auto

text \<open>Code may be put in without an effect on the list when it only writes what has been seen, or all of it.\<close>

lemma first_seen_insert_known: "set ys \<subseteq> set xs \<Longrightarrow> first_seen [] (xs @ ys @ zs) = first_seen [] (xs @ zs)"
  by (simp add: first_seen_known)

lemma first_seen_insert_all: "first_seen [] (xs @ first_seen [] (xs @ zs) @ zs) = first_seen [] (xs @ zs)"
proof -
  define s where "s = first_seen [] xs"
  obtain ys where ys: "first_seen s zs = s @ ys"
    using first_seen_prefix by fastforce
  have "distinct (first_seen s zs)"
    by (simp add: s_def first_seen_distinct)
  then have "distinct (s @ ys)"
    by (simp only: ys)
  then have "first_seen s (s @ ys) = s @ ys"
    by (simp add: first_seen_known first_seen_fresh)
  moreover have "set zs \<subseteq> set (s @ ys)"
    using first_seen_set [of s zs] by (simp add: ys)
  ultimately have "first_seen (first_seen s (first_seen s zs)) zs = first_seen s zs"
    unfolding ys by (simp only: first_seen_known)
  then show ?thesis
    by (simp add: s_def)
qed

subsection \<open>The contract\<close>

definition modified :: "calling_convention \<Rightarrow> m_instr list \<Rightarrow> u32 list" where
  "modified cc code = first_seen [] (first_regs (cc_volatile_regs cc) code)"

lemma modified_blocks:
  "MachinePassUtils_get_modified_volatile_regs (cc_volatile_regs cc) blocks = modified cc (code_of blocks)"
  by (simp add: modified_def modified_regs_seen)

text \<open>Code with the epilog before every exit.\<close>

definition with_epilog :: "(int \<Rightarrow> bool) \<Rightarrow> m_instr list \<Rightarrow> m_instr list \<Rightarrow> m_instr list" where
  "with_epilog is_exit epilog code =
     concat (map (\<lambda>instr. if is_exit (instr_opcode instr) then epilog @ [instr] else [instr]) code)"

definition with_epilog_block :: "(int \<Rightarrow> bool) \<Rightarrow> m_instr list \<Rightarrow> m_basic_block \<Rightarrow> m_basic_block" where
  "with_epilog_block is_exit epilog block =
     block\<lparr>m_basic_block.block_instrs := with_epilog is_exit epilog (m_basic_block.block_instrs block)\<rparr>"

locale frame_code =
  fixes cc :: calling_convention and pushed slotted :: "u32 \<Rightarrow> bool"
  assumes epilog_cong:
      "filter pushed (modified cc (code_of bs)) = filter pushed (modified cc (code_of cs)) \<Longrightarrow>
       filter slotted (modified cc (code_of bs)) = filter slotted (modified cc (code_of cs)) \<Longrightarrow>
       cc_get_epilog cc bs frame = cc_get_epilog cc cs frame"
    and prolog_regs: "cc_get_prolog cc bs frame = Some prolog \<Longrightarrow>
      first_seen [] (filter pushed (first_regs (cc_volatile_regs cc) prolog)) =
        filter pushed (modified cc (code_of bs)) \<and>
      filter slotted (first_regs (cc_volatile_regs cc) prolog) = []"
    and epilog_regs: "cc_get_epilog cc bs frame = Some epilog \<Longrightarrow>
      set (filter pushed (first_regs (cc_volatile_regs cc) epilog)) \<subseteq> set (filter pushed (modified cc (code_of bs))) \<and>
      filter slotted (first_regs (cc_volatile_regs cc) epilog) = filter slotted (modified cc (code_of bs))"
    and prolog_exits: "cc_get_prolog cc bs frame = Some prolog \<Longrightarrow>
      instr \<in> set prolog \<Longrightarrow> \<not> cc_is_func_exit cc (instr_opcode instr)"
begin

text \<open>What the epilog depends on.\<close>

definition regs_key :: "m_instr list \<Rightarrow> u32 list \<times> u32 list" where
  "regs_key code = (filter pushed (modified cc code), filter slotted (modified cc code))"

lemma epilog_key: "regs_key (code_of bs) = regs_key (code_of cs) \<Longrightarrow> cc_get_epilog cc bs frame = cc_get_epilog cc cs frame"
  by (rule epilog_cong) (simp_all add: regs_key_def)

lemma key_prolog:
  assumes "cc_get_prolog cc bs frame = Some prolog"
  shows "regs_key (prolog @ code_of bs) = regs_key (code_of bs)"
proof -
  let ?f = "first_regs (cc_volatile_regs cc)"
  have "filter pushed (modified cc (prolog @ code_of bs)) =
      first_seen [] (filter pushed (modified cc (code_of bs)) @ filter pushed (?f (code_of bs)))"
    using prolog_regs [OF assms] by (simp add: modified_def filter_first_seen)
  also have "\<dots> = filter pushed (modified cc (code_of bs))"
    by (simp add: modified_def filter_first_seen first_seen_known
        first_seen_fresh [of "[]", simplified] first_seen_distinct)
  finally have "filter pushed (modified cc (prolog @ code_of bs)) = filter pushed (modified cc (code_of bs))" .
  moreover have "filter slotted (modified cc (prolog @ code_of bs)) = filter slotted (modified cc (code_of bs))"
    using prolog_regs [OF assms] by (simp add: modified_def filter_first_seen)
  ultimately show ?thesis
    by (simp add: regs_key_def)
qed

lemma key_epilog:
  assumes "cc_get_epilog cc bs frame = Some epilog" and "regs_key (code_of bs) = regs_key (pre @ post)"
    and "set (fst (regs_key (pre @ post))) \<subseteq> set (first_regs (cc_volatile_regs cc) pre)"
  shows "regs_key (pre @ epilog @ post) = regs_key (pre @ post)"
proof -
  let ?f = "first_regs (cc_volatile_regs cc)"
  have "set (filter pushed (?f epilog)) \<subseteq> set (filter pushed (?f pre))"
  proof -
    have "set (filter pushed (?f epilog)) \<subseteq> set (fst (regs_key (pre @ post)))"
      using epilog_regs [OF assms(1)] assms(2) by (simp only: regs_key_def fst_conv prod.inject)
    then show ?thesis
      using assms(3) by auto
  qed
  then have "filter pushed (modified cc (pre @ epilog @ post)) = filter pushed (modified cc (pre @ post))"
    using first_seen_insert_known [of "filter pushed (?f epilog)" "filter pushed (?f pre)" "filter pushed (?f post)"]
    by (simp add: modified_def filter_first_seen)
  moreover have "filter slotted (?f epilog) = filter slotted (modified cc (pre @ post))"
    using epilog_regs [OF assms(1)] assms(2) by (simp add: regs_key_def)
  then have "filter slotted (modified cc (pre @ epilog @ post)) = filter slotted (modified cc (pre @ post))"
    using first_seen_insert_all [of "filter slotted (?f pre)" "filter slotted (?f post)"]
    by (simp add: modified_def filter_first_seen)
  ultimately show ?thesis
    by (simp add: regs_key_def)
qed

text \<open>The epilogs of one block, and of all blocks.\<close>

lemma epilog_block:
  assumes "cc_get_epilog cc bs frame = Some epilog"
    and "regs_key (code_of P @ passed @ rest @ code_of R) = regs_key (code_of bs)"
    and "set (fst (regs_key (code_of bs))) \<subseteq> set (first_regs (cc_volatile_regs cc) (code_of P @ passed))"
  shows "PrologEpilogPass_epilog_block (cc_is_func_exit cc)
      (\<lambda>instrs. cc_get_epilog cc (P @ block\<lparr>m_basic_block.block_instrs := instrs\<rparr> # R) frame) passed rest =
    Some (passed @ with_epilog (cc_is_func_exit cc) epilog rest) \<and>
    regs_key (code_of P @ passed @ with_epilog (cc_is_func_exit cc) epilog rest @ code_of R) = regs_key (code_of bs)"
  using assms(2,3)
proof (induction rest arbitrary: passed)
  case (Cons instr rest)
  let ?ep = "\<lambda>instrs. cc_get_epilog cc (P @ block\<lparr>m_basic_block.block_instrs := instrs\<rparr> # R) frame"
  show ?case
  proof (cases "cc_is_func_exit cc (instr_opcode instr)")
    case True
    have "?ep (passed @ instr # rest) = Some epilog"
      using epilog_key [of "P @ block\<lparr>m_basic_block.block_instrs := passed @ instr # rest\<rparr> # R" bs] Cons.prems(1) assms(1)
      by simp
    moreover have "regs_key (code_of P @ (passed @ epilog @ [instr]) @ rest @ code_of R) = regs_key (code_of bs)"
      using key_epilog [OF assms(1), of "code_of P @ passed" "instr # rest @ code_of R"] Cons.prems by simp
    moreover have "set (fst (regs_key (code_of bs))) \<subseteq>
        set (first_regs (cc_volatile_regs cc) (code_of P @ passed @ epilog @ [instr]))"
      using Cons.prems(2) by auto
    moreover note Cons.IH [of "passed @ epilog @ [instr]"]
    ultimately show ?thesis
      using True by (simp add: with_epilog_def)
  next
    case False
    have "set (fst (regs_key (code_of bs))) \<subseteq> set (first_regs (cc_volatile_regs cc) (code_of P @ passed @ [instr]))"
      using Cons.prems(2) by auto
    then show ?thesis
      using Cons.IH [of "passed @ [instr]"] Cons.prems(1) False
      by (simp add: with_epilog_def)
  qed
qed (simp add: with_epilog_def)

lemma epilog_blocks:
  assumes "cc_get_epilog cc bs frame = Some epilog"
    and "regs_key (code_of (passed @ rest)) = regs_key (code_of bs)"
    and "set (fst (regs_key (code_of bs))) \<subseteq> set (first_regs (cc_volatile_regs cc) (code_of passed))"
  shows "PrologEpilogPass_epilog_blocks cc frame passed rest =
    Some (passed @ map (with_epilog_block (cc_is_func_exit cc) epilog) rest)"
  using assms(2,3)
proof (induction rest arbitrary: passed)
  case (Cons block rest)
  let ?code = "with_epilog (cc_is_func_exit cc) epilog (m_basic_block.block_instrs block)"
  have block: "PrologEpilogPass_epilog_block (cc_is_func_exit cc)
      (\<lambda>instrs. cc_get_epilog cc (passed @ block\<lparr>m_basic_block.block_instrs := instrs\<rparr> # rest) frame) []
      (m_basic_block.block_instrs block) = Some ?code"
    and key: "regs_key (code_of passed @ ?code @ code_of rest) = regs_key (code_of bs)"
    using epilog_block [OF assms(1), of passed "[]" "m_basic_block.block_instrs block" rest block] Cons.prems
    by simp_all
  have "set (fst (regs_key (code_of bs))) \<subseteq> set (first_regs (cc_volatile_regs cc)
      (code_of (passed @ [with_epilog_block (cc_is_func_exit cc) epilog block])))"
    using Cons.prems(2) by (simp add: le_supI1)
  moreover have "regs_key (code_of ((passed @ [with_epilog_block (cc_is_func_exit cc) epilog block]) @ rest)) =
      regs_key (code_of bs)"
    using key by (simp add: with_epilog_block_def)
  moreover note Cons.IH [of "passed @ [with_epilog_block (cc_is_func_exit cc) epilog block]"]
  ultimately show ?case
    using block by (simp add: with_epilog_block_def)
qed simp

lemma epilog_block_skip:
  "\<forall>instr\<in>set xs. \<not> is_exit (instr_opcode instr) \<Longrightarrow>
   PrologEpilogPass_epilog_block is_exit E passed (xs @ rest) =
     PrologEpilogPass_epilog_block is_exit E (passed @ xs) rest"
  by (induction xs arbitrary: passed) simp_all

theorem run_blocks:
  assumes "func_basic_blocks f = b # bs" and "cc_get_prolog cc (b # bs) (func_stack_frame f) = Some prolog"
    and "cc_get_epilog cc (b # bs) (func_stack_frame f) = Some epilog"
  shows "PrologEpilogPass_run cc f = Some (f\<lparr>func_basic_blocks :=
    b\<lparr>m_basic_block.block_instrs :=
        prolog @ with_epilog (cc_is_func_exit cc) epilog (m_basic_block.block_instrs b)\<rparr> #
    map (with_epilog_block (cc_is_func_exit cc) epilog) bs\<rparr>)"
proof -
  let ?body = "m_basic_block.block_instrs b" and ?K = "regs_key (code_of (b # bs))"
  let ?b = "b\<lparr>m_basic_block.block_instrs := prolog @ ?body\<rparr>"
  let ?code = "prolog @ with_epilog (cc_is_func_exit cc) epilog ?body"
  have saved: "set (fst ?K) \<subseteq> set (first_regs (cc_volatile_regs cc) prolog)"
  proof -
    have "fst ?K = first_seen [] (filter pushed (first_regs (cc_volatile_regs cc) prolog))"
      using prolog_regs [OF assms(2)] by (simp only: regs_key_def fst_conv)
    then show ?thesis
      by simp
  qed
  have block: "PrologEpilogPass_epilog_block (cc_is_func_exit cc)
      (\<lambda>instrs. cc_get_epilog cc ([] @ ?b\<lparr>m_basic_block.block_instrs := instrs\<rparr> # bs) (func_stack_frame f))
      prolog ?body = Some ?code"
    and key: "regs_key (?code @ code_of bs) = ?K"
    using epilog_block [OF assms(3), of "[]" prolog ?body bs ?b] key_prolog [OF assms(2)] saved by simp_all
  have "PrologEpilogPass_epilog_blocks cc (func_stack_frame f) [b\<lparr>m_basic_block.block_instrs := ?code\<rparr>] bs =
      Some ([b\<lparr>m_basic_block.block_instrs := ?code\<rparr>] @ map (with_epilog_block (cc_is_func_exit cc) epilog) bs)"
    using key saved by (intro epilog_blocks [OF assms(3)]) (auto simp: le_supI1)
  then show ?thesis
    using assms(1,2) block prolog_exits [OF assms(2)]
    by (simp add: PrologEpilogPass_run_def PrologEpilogPass_insert_prolog_def epilog_block_skip)
qed

end

end
