(* ===== verification/Prolog_Conventions.thy ===== *)
theory Prolog_Conventions
  imports Prolog_Epilog
begin

section \<open>Prologs and epilogs of the conventions\<close>

text \<open>
  The three native conventions keep the contract of \<^theory_text>\<open>Prolog_Epilog\<close>: the pass puts one prolog in
  front of the code and one and the same epilog before every exit.
\<close>

subsection \<open>What prologs and epilogs write\<close>

lemma physical_reg: "Register_is_physical (Register_from_physical r)"
  by (simp add: Register_is_physical_def and_1_eq_bit_0 bit_from_physical)

lemma physical_roundtrip: "\<not> bit r 31 \<Longrightarrow> Register_get_physical_reg (Register_from_physical r) = r"
  for r :: u32
proof (rule bit_word_eqI)
  fix n
  assume "\<not> bit r 31" "n < LENGTH(32)"
  then have "n < 31" if "bit r n"
    using that by (cases "n = 31") auto
  then show "bit (Register_get_physical_reg (Register_from_physical r)) n = bit r n"
    by (auto simp: Register_get_physical_reg_def bit_drop_bit_eq bit_from_physical)
qed

lemma get_physical_reg_bound: "\<not> bit (Register_get_physical_reg r) 31"
  by (auto simp: Register_get_physical_reg_def bit_drop_bit_eq dest: bit_imp_le_length)

lemma first_regs_instr:
  assumes "\<not> bit r 31"
  shows "first_regs vs [m_instruction opcode (m_reg r n # ops)] = (if r \<in> set vs then [] else [r])"
  using assms by (simp add: first_regs_def m_instruction_def m_reg_def m_op_def Operand_get_physical_reg_def
      Operand_get_register_def MOperand_is_physical_reg_def physical_reg physical_roundtrip
      CallingConvention_is_volatile_def)

lemma first_regs_instr_Cons:
  assumes "\<not> bit r 31"
  shows "first_regs vs (m_instruction opcode (m_reg r n # ops) # code) =
    (if r \<in> set vs then [] else [r]) @ first_regs vs code"
  using first_regs_Cons [of vs "m_instruction opcode (m_reg r n # ops)" code] assms by (simp add: first_regs_instr)

lemma first_regs_map:
  assumes "\<And>r. r \<in> set rs \<Longrightarrow> \<not> bit r 31 \<and> r \<notin> set vs"
  shows "first_regs vs (map (\<lambda>r. m_instruction opcode (m_reg r n # ops r)) rs) = rs"
  using assms
proof (induction rs)
  case (Cons r rs)
  then show ?case
    using first_regs_Cons [of vs "m_instruction opcode (m_reg r n # ops r)"] by (simp add: first_regs_instr)
qed simp

lemma modified_reg:
  assumes "r \<in> set (modified cc code)"
  shows "\<not> bit r 31" and "r \<notin> set (cc_volatile_regs cc)"
proof -
  have "r \<in> set (first_regs (cc_volatile_regs cc) code)"
    using assms by (simp add: modified_def)
  then have "(\<exists>op. Some r = map_option Register_get_physical_reg op) \<and> r \<notin> set (cc_volatile_regs cc)"
    by (auto simp: first_regs_def Operand_get_physical_reg_def get_physical_reg_bound
        CallingConvention_is_volatile_def split: list.splits option.splits if_splits)
  then obtain op where "Some r = map_option Register_get_physical_reg op" "r \<notin> set (cc_volatile_regs cc)"
    by blast
  then show "\<not> bit r 31" and "r \<notin> set (cc_volatile_regs cc)"
    using get_physical_reg_bound by (auto split: option.splits simp: map_option_case)
qed

lemma first_regs_other:
  "(\<And>r. op_value op \<noteq> Op_register r) \<Longrightarrow> first_regs vs [m_instruction opcode (op # ops)] = []"
  by (auto simp: first_regs_def m_instruction_def Operand_get_physical_reg_def Operand_get_register_def
      split: operand_value.splits option.splits)

lemma first_regs_other_Cons:
  assumes "\<And>r. op_value op \<noteq> Op_register r"
  shows "first_regs vs (m_instruction opcode (op # ops) # code) = first_regs vs code"
  using first_regs_Cons [of vs "m_instruction opcode (op # ops)" code] assms by (simp add: first_regs_other)

lemma first_regs_flag: "first_regs vs [Instruction_set_flag flag instr] = first_regs vs [instr]"
  by (simp add: first_regs_def Instruction_set_flag_def)

lemma m_instruction_opcode [simp]:
  "instr_opcode (m_instruction opcode ops) = opcode"
  "instr_opcode (Instruction_set_flag flag instr) = instr_opcode instr"
  by (simp_all add: m_instruction_def Instruction_set_flag_def)

lemma filter_modified:
  "filter P (modified cc code) = filter P (modified cc code') \<Longrightarrow>
   filter P (rev (modified cc code)) = filter P (rev (modified cc code'))"
  by (simp flip: rev_filter)

subsection \<open>AAPCS\<close>

lemma AAPCS_modify_sp_regs:
  assumes "AAPCS_modify_sp opcode n = Some instrs" and "62 \<in> set vs"
  shows "first_regs vs instrs = []"
    and "first_regs vs (map (Instruction_set_flag flag) instrs) = []"
    and "instr \<in> set instrs \<Longrightarrow> instr_opcode instr = AArch64Opcode_to_int opcode"
  using assms by (auto simp: AAPCS_modify_sp_def Let_def first_regs_instr first_regs_flag
      first_regs_Cons [of _ _ "[_]"] split: if_splits)

definition AAPCS_pushed :: "u32 \<Rightarrow> bool" where
  "AAPCS_pushed reg \<longleftrightarrow> \<not> (reg = 29 \<or> reg = 30)"

lemma AAPCS_fields [simp]:
  "cc_volatile_regs (AAPCSCallingConv v) = AAPCS_volatile_regs"
  "cc_get_prolog (AAPCSCallingConv v) = AAPCS_get_prolog"
  "cc_get_epilog (AAPCSCallingConv v) = AAPCS_get_epilog"
  "cc_is_func_exit (AAPCSCallingConv v) = AAPCS_is_func_exit"
  by (simp_all add: AAPCSCallingConv_def)

lemma AAPCS_modified: "MachinePassUtils_get_modified_volatile_regs AAPCS_volatile_regs bs =
  modified (AAPCSCallingConv v) (code_of bs)"
  using modified_blocks [of "AAPCSCallingConv v"] by simp

definition AAPCS_push :: operand where
  "AAPCS_push = m_op (Op_aarch64_addr (AA_BASE_OFFSET_IMM_WRITE (Register_from_physical 62) (- 16))) 0"

definition AAPCS_top :: operand where
  "AAPCS_top = m_op (Op_aarch64_addr (AA_BASE (Register_from_physical 62))) 0"

lemma AAPCS_prolog_eq:
  "AAPCS_get_prolog bs frame = map_option (\<lambda>allocation.
      map (\<lambda>reg. m_instruction (AArch64Opcode_to_int A64_STR) (m_reg reg 8 # [AAPCS_push]))
        (filter AAPCS_pushed (modified (AAPCSCallingConv v) (code_of bs))) @
      [m_instruction (AArch64Opcode_to_int A64_STP) (m_reg 29 8 # [m_reg 30 8, AAPCS_push])] @
      map (Instruction_set_flag Instruction_FLAG_ALLOCA) allocation)
    (AAPCS_modify_sp A64_SUB (frame_size frame))"
  by (simp add: AAPCS_get_prolog_def AAPCS_modified [of _ v] AAPCS_pushed_def [abs_def] AAPCS_push_def Let_def
      map_conv_bind_option comp_def)

lemma AAPCS_epilog_eq:
  "AAPCS_get_epilog bs frame = map_option (\<lambda>deallocation.
      deallocation @
      [m_instruction (AArch64Opcode_to_int A64_LDP) (m_reg 29 8 # [m_reg 30 8, AAPCS_top, m_imm 16])] @
      map (\<lambda>reg. m_instruction (AArch64Opcode_to_int A64_LDR) (m_reg reg 8 # [AAPCS_top, m_imm 16]))
        (rev (filter AAPCS_pushed (modified (AAPCSCallingConv v) (code_of bs)))))
    (AAPCS_modify_sp A64_ADD (frame_size frame))"
  by (simp add: AAPCS_get_epilog_def AAPCS_modified [of _ v] AAPCS_pushed_def [abs_def] AAPCS_top_def Let_def
      map_conv_bind_option comp_def flip: rev_filter)

lemma first_regs_saved:
  assumes "set rs \<subseteq> set (modified cc code)"
  shows "first_regs (cc_volatile_regs cc) (map (\<lambda>r. m_instruction opcode (m_reg r n # ops)) rs) = rs"
  using assms modified_reg by (intro first_regs_map) blast

lemma first_seen_modified [simp]: "first_seen [] (filter P (modified cc code)) = filter P (modified cc code)"
  by (simp add: modified_def flip: filter_first_seen [of P "[]", simplified])

lemma AAPCS_pushed_29 [simp]: "\<not> AAPCS_pushed 29"
  by (simp add: AAPCS_pushed_def)

lemma sp_volatile: "62 \<in> set AAPCS_volatile_regs" "29 \<notin> set AAPCS_volatile_regs"
  by (simp_all add: AAPCS_volatile_regs_def)

interpretation aapcs: frame_code "AAPCSCallingConv v" AAPCS_pushed "\<lambda>_. False" for v
proof (unfold_locales, goal_cases)
  case (1 bs cs frame)
  then show ?case
    by (simp add: AAPCS_epilog_eq [of _ _ v])
next
  case (2 bs frame prolog)
  then show ?case
    using AAPCS_modify_sp_regs(2) [OF _ sp_volatile(1)]
      first_regs_saved [of "filter AAPCS_pushed (modified (AAPCSCallingConv v) (code_of bs))" "AAPCSCallingConv v" "code_of bs"]
    by (auto simp: AAPCS_prolog_eq [of _ _ v] first_regs_instr_Cons sp_volatile)
next
  case (3 bs frame epilog)
  then show ?case
    using AAPCS_modify_sp_regs(1) [OF _ sp_volatile(1)]
      first_regs_saved [of "rev (filter AAPCS_pushed (modified (AAPCSCallingConv v) (code_of bs)))" "AAPCSCallingConv v" "code_of bs"]
    by (auto simp: AAPCS_epilog_eq [of _ _ v] first_regs_instr_Cons sp_volatile)
next
  case (4 bs frame prolog instr)
  then show ?case
    using AAPCS_modify_sp_regs(3) [OF _ sp_volatile(1)]
    by (auto simp: AAPCS_prolog_eq [of _ _ v] AAPCS_is_func_exit_def AArch64Opcode_to_int_def AArch64Opcodes_def)
qed

subsection \<open>x86-64\<close>

lemma sse_moves_filter: "X8664_sse_moves ops slots regs = X8664_sse_moves ops slots (filter X8664_is_xmm regs)"
  by (induction ops slots regs rule: X8664_sse_moves.induct) (auto split: list.split)

lemma sse_saves_regs:
  "X8664_sse_moves (\<lambda>slot reg. [slot, reg]) slots regs = Some saves \<Longrightarrow> first_regs vs saves = []"
  by (induction regs arbitrary: slots saves)
    (auto simp: first_regs_other_Cons m_op_def split: if_splits list.splits bind_splits)

lemma sse_restores_regs:
  "X8664_sse_moves (\<lambda>slot reg. [reg, slot]) slots regs = Some restores \<Longrightarrow>
   (\<And>r. r \<in> set regs \<Longrightarrow> \<not> bit r 31 \<and> r \<notin> set vs) \<Longrightarrow>
   first_regs vs restores = filter X8664_is_xmm regs"
  by (induction regs arbitrary: slots restores)
    (auto simp: first_regs_instr_Cons split: if_splits list.splits bind_splits)

lemma sse_moves_exits:
  "X8664_sse_moves ops slots regs = Some instrs \<Longrightarrow> instr \<in> set instrs \<Longrightarrow> instr_opcode instr = X8664_MOVSD"
  by (induction regs arbitrary: slots instrs) (auto split: if_splits list.splits bind_splits)

lemma pushes_regs:
  assumes "\<And>r. r \<in> set regs \<Longrightarrow> \<not> bit r 31 \<and> r \<notin> set vs" and "distinct regs"
  shows "first_seen [] (first_regs vs (X8664_pushes regs)) = filter X8664_is_gp regs"
proof -
  have "first_seen (filter X8664_is_gp seen) (first_regs vs (X8664_pushes regs)) = filter X8664_is_gp (seen @ regs)"
    if "\<And>r. r \<in> set regs \<Longrightarrow> \<not> bit r 31 \<and> r \<notin> set vs" "distinct (seen @ regs)" for seen regs
    using that
  proof (induction regs arbitrary: seen)
    case (Cons r regs)
    then show ?case
      using Cons.IH [of "seen @ [r]"] by (auto simp: X8664_pushes_def first_regs_instr_Cons)
  qed (simp add: X8664_pushes_def)
  from this [of regs "[]"] assms show ?thesis
    by simp
qed

lemma SysV_fields [simp]:
  "cc_volatile_regs SysVCallingConv = SysV_volatile_regs"
  "cc_get_prolog SysVCallingConv = SysV_get_prolog"
  "cc_get_epilog SysVCallingConv = SysV_get_epilog"
  "cc_is_func_exit SysVCallingConv = SysV_is_func_exit"
  by (simp_all add: SysVCallingConv_def)

lemma MSABI_fields [simp]:
  "cc_volatile_regs MSABICallingConv = MSABI_volatile_regs"
  "cc_get_prolog MSABICallingConv = MSABI_get_prolog"
  "cc_get_epilog MSABICallingConv = MSABI_get_epilog"
  "cc_is_func_exit MSABICallingConv = MSABI_is_func_exit"
  by (simp_all add: MSABICallingConv_def)

lemma SysV_modified: "MachinePassUtils_get_modified_volatile_regs SysV_volatile_regs bs =
  modified SysVCallingConv (code_of bs)"
  using modified_blocks [of SysVCallingConv] by simp

lemma MSABI_modified: "MachinePassUtils_get_modified_volatile_regs MSABI_volatile_regs bs =
  modified MSABICallingConv (code_of bs)"
  using modified_blocks [of MSABICallingConv] by simp

text \<open>The code that both conventions put around a body.\<close>

lemma pushes_filter: "X8664_pushes regs = X8664_pushes (filter X8664_is_gp regs)"
  by (simp add: X8664_pushes_def)

lemma pops_filter: "X8664_pops regs = X8664_pops (filter X8664_is_gp regs)"
  by (simp add: X8664_pops_def flip: rev_filter)

lemma pops_regs:
  assumes "set regs \<subseteq> set (modified cc code)"
  shows "first_regs (cc_volatile_regs cc) (X8664_pops regs) = filter X8664_is_gp (rev regs)"
  unfolding X8664_pops_def using assms by (intro first_regs_saved) auto

lemma xmm_not_gp: "X8664_is_xmm r \<Longrightarrow> \<not> X8664_is_gp r"
  by (simp add: X8664_is_xmm_def X8664_is_gp_def word_le_nat_alt)

lemma x86_64_epilog_regs:
  assumes "X8664_sse_moves (\<lambda>slot reg. [reg, slot]) slots (modified cc code) = Some restores"
    and "set (first_regs (cc_volatile_regs cc) middle) = {}"
  shows "set (filter X8664_is_gp (first_regs (cc_volatile_regs cc) (restores @ middle @ X8664_pops (modified cc code))))
      \<subseteq> set (filter X8664_is_gp (modified cc code))"
    and "filter X8664_is_xmm (first_regs (cc_volatile_regs cc) (restores @ middle @ X8664_pops (modified cc code))) =
      filter X8664_is_xmm (modified cc code)"
proof -
  have "first_regs (cc_volatile_regs cc) restores = filter X8664_is_xmm (modified cc code)"
    using modified_reg by (intro sse_restores_regs [OF assms(1)]) blast
  moreover have "first_regs (cc_volatile_regs cc) (X8664_pops (modified cc code)) =
      filter X8664_is_gp (rev (modified cc code))"
    by (rule pops_regs [where code = code]) simp
  ultimately have all: "first_regs (cc_volatile_regs cc) (restores @ middle @ X8664_pops (modified cc code)) =
      filter X8664_is_xmm (modified cc code) @ filter X8664_is_gp (rev (modified cc code))"
    using assms(2) by simp
  show "set (filter X8664_is_gp (first_regs (cc_volatile_regs cc) (restores @ middle @ X8664_pops (modified cc code))))
      \<subseteq> set (filter X8664_is_gp (modified cc code))"
    unfolding all by auto
  have "filter (\<lambda>x. X8664_is_xmm x \<and> X8664_is_gp x) xs = []" for xs
    by (simp add: filter_empty_conv xmm_not_gp)
  then show "filter X8664_is_xmm (first_regs (cc_volatile_regs cc) (restores @ middle @ X8664_pops (modified cc code))) =
      filter X8664_is_xmm (modified cc code)"
    unfolding all by (simp add: conj_commute)
qed

lemma x86_64_prolog_regs:
  assumes "X8664_sse_moves (\<lambda>slot reg. [slot, reg]) slots (modified cc code) = Some saves"
    and "set (first_regs (cc_volatile_regs cc) middle) = {}"
  shows "first_seen [] (filter X8664_is_gp (first_regs (cc_volatile_regs cc)
      (X8664_pushes (modified cc code) @ middle @ saves))) = filter X8664_is_gp (modified cc code)"
    and "filter X8664_is_xmm (first_regs (cc_volatile_regs cc) (X8664_pushes (modified cc code) @ middle @ saves)) = []"
proof -
  let ?pushes = "X8664_pushes (modified cc code)"
  have pushes: "first_seen [] (first_regs (cc_volatile_regs cc) ?pushes) = filter X8664_is_gp (modified cc code)"
    using modified_reg by (intro pushes_regs) (auto simp: modified_def intro: first_seen_distinct)
  have all: "first_regs (cc_volatile_regs cc) (?pushes @ middle @ saves) = first_regs (cc_volatile_regs cc) ?pushes"
    using sse_saves_regs [OF assms(1)] assms(2) by simp
  show "first_seen [] (filter X8664_is_gp (first_regs (cc_volatile_regs cc) (?pushes @ middle @ saves))) =
      filter X8664_is_gp (modified cc code)"
    unfolding all using pushes filter_first_seen [of X8664_is_gp "[]" "first_regs (cc_volatile_regs cc) ?pushes"] by simp
  have "set (first_regs (cc_volatile_regs cc) ?pushes) = set (filter X8664_is_gp (modified cc code))"
    using first_seen_set [of "[]" "first_regs (cc_volatile_regs cc) ?pushes"] pushes by simp
  then show "filter X8664_is_xmm (first_regs (cc_volatile_regs cc) (?pushes @ middle @ saves)) = []"
    unfolding all by (auto simp: filter_empty_conv dest: xmm_not_gp)
qed

lemma X8664_opcodes:
  "X8664_PUSH \<noteq> X8664_RET" "EH_PUSHREG \<noteq> X8664_RET" "X8664_MOV \<noteq> X8664_RET" "X8664_SUB \<noteq> X8664_RET"
  "X8664_MOVSD \<noteq> X8664_RET"
  by (simp_all add: X8664_PUSH_def EH_PUSHREG_def X8664_MOV_def X8664_SUB_def X8664_MOVSD_def X8664_RET_def)

lemma pushes_exits: "instr \<in> set (X8664_pushes regs) \<Longrightarrow> instr_opcode instr \<in> {X8664_PUSH, EH_PUSHREG}"
  by (auto simp: X8664_pushes_def)

lemma sse_moves_cong:
  "filter X8664_is_xmm regs = filter X8664_is_xmm regs' \<Longrightarrow> X8664_sse_moves ops slots regs = X8664_sse_moves ops slots regs'"
  by (metis sse_moves_filter)

lemma pops_cong: "filter X8664_is_gp regs = filter X8664_is_gp regs' \<Longrightarrow> X8664_pops regs = X8664_pops regs'"
  by (metis pops_filter)

definition SysV_prolog_middle :: "stack_frame \<Rightarrow> m_instr list" where
  "SysV_prolog_middle frame =
     [m_instruction X8664_PUSH (m_reg X8664_RBP 8 # []), m_instruction X8664_MOV (m_reg X8664_RBP 8 # [m_reg X8664_RSP 8]),
      Instruction_set_flag Instruction_FLAG_ALLOCA
        (m_instruction X8664_SUB (m_reg X8664_RSP 8 # [m_imm (sint (frame_size frame))]))]"

definition SysV_epilog_middle :: "stack_frame \<Rightarrow> m_instr list" where
  "SysV_epilog_middle frame =
     [m_instruction X8664_ADD (m_reg X8664_RSP 8 # [m_imm (sint (frame_size frame))]),
      m_instruction X8664_POP (m_reg X8664_RBP 8 # [])]"

lemma SysV_prolog_eq:
  "SysV_get_prolog bs frame = map_option (\<lambda>saves.
      X8664_pushes (modified SysVCallingConv (code_of bs)) @ SysV_prolog_middle frame @ saves)
    (X8664_sse_moves (\<lambda>slot reg. [slot, reg]) (frame_reg_save_slot_indices frame)
      (modified SysVCallingConv (code_of bs)))"
  by (simp add: SysV_get_prolog_def SysV_modified SysV_prolog_middle_def Let_def map_conv_bind_option comp_def)

lemma SysV_epilog_eq:
  "SysV_get_epilog bs frame = map_option (\<lambda>restores.
      restores @ SysV_epilog_middle frame @ X8664_pops (modified SysVCallingConv (code_of bs)))
    (X8664_sse_moves (\<lambda>slot reg. [reg, slot]) (frame_reg_save_slot_indices frame)
      (modified SysVCallingConv (code_of bs)))"
  by (simp add: SysV_get_epilog_def SysV_modified SysV_epilog_middle_def Let_def map_conv_bind_option comp_def)

lemma SysV_middle_regs:
  "first_regs SysV_volatile_regs (SysV_prolog_middle frame) = []"
  "first_regs SysV_volatile_regs (SysV_epilog_middle frame) = []"
proof -
  have "first_regs SysV_volatile_regs [Instruction_set_flag flag (m_instruction opcode (m_reg X8664_RSP 8 # ops))] = []"
    for flag opcode ops
    by (simp add: first_regs_flag first_regs_instr X8664_RSP_def SysV_volatile_regs_def)
  then show "first_regs SysV_volatile_regs (SysV_prolog_middle frame) = []"
    by (simp add: SysV_prolog_middle_def first_regs_instr_Cons X8664_RBP_def SysV_volatile_regs_def)
  show "first_regs SysV_volatile_regs (SysV_epilog_middle frame) = []"
    by (simp add: SysV_epilog_middle_def first_regs_instr_Cons X8664_RBP_def X8664_RSP_def SysV_volatile_regs_def)
qed

interpretation sysv: frame_code SysVCallingConv X8664_is_gp X8664_is_xmm
proof (unfold_locales, goal_cases)
  case (1 bs cs frame)
  then show ?case
    using pops_cong [OF 1(1)] sse_moves_cong [OF 1(2)] by (simp add: SysV_epilog_eq)
next
  case (2 bs frame prolog)
  then show ?case
    using x86_64_prolog_regs [of _ SysVCallingConv "code_of bs" _ "SysV_prolog_middle frame"]
    by (auto simp: SysV_prolog_eq SysV_middle_regs simp del: first_regs_simps)
next
  case (3 bs frame epilog)
  then show ?case
    using x86_64_epilog_regs [of _ SysVCallingConv "code_of bs" _ "SysV_epilog_middle frame"]
    by (auto simp: SysV_epilog_eq SysV_middle_regs simp del: first_regs_simps)
next
  case (4 bs frame prolog instr)
  then show ?case
    using pushes_exits [of instr] sse_moves_exits [of _ _ _ _ instr] X8664_opcodes
    by (auto simp: SysV_prolog_eq SysV_prolog_middle_def SysV_is_func_exit_def) fastforce+
qed

definition MSABI_prolog_middle :: "stack_frame \<Rightarrow> m_instr list" where
  "MSABI_prolog_middle frame =
     (if 0 <s frame_size frame then
        [Instruction_set_flag Instruction_FLAG_ALLOCA
           (m_instruction X8664_SUB (m_reg X8664_RSP 8 # [m_imm (sint (frame_size frame))]))]
      else [])"

definition MSABI_epilog_middle :: "stack_frame \<Rightarrow> m_instr list" where
  "MSABI_epilog_middle frame =
     (if 0 <s frame_size frame
      then [m_instruction X8664_ADD (m_reg X8664_RSP 8 # [m_imm (sint (frame_size frame))])] else [])"

lemma MSABI_prolog_eq:
  "MSABI_get_prolog bs frame = map_option (\<lambda>saves.
      X8664_pushes (modified MSABICallingConv (code_of bs)) @ MSABI_prolog_middle frame @ saves)
    (X8664_sse_moves (\<lambda>slot reg. [slot, reg]) (frame_reg_save_slot_indices frame)
      (modified MSABICallingConv (code_of bs)))"
  by (simp add: MSABI_get_prolog_def MSABI_modified MSABI_prolog_middle_def Let_def map_conv_bind_option comp_def)

lemma MSABI_epilog_eq:
  "MSABI_get_epilog bs frame = map_option (\<lambda>restores.
      restores @ MSABI_epilog_middle frame @ X8664_pops (modified MSABICallingConv (code_of bs)))
    (X8664_sse_moves (\<lambda>slot reg. [reg, slot]) (frame_reg_save_slot_indices frame)
      (modified MSABICallingConv (code_of bs)))"
  by (simp add: MSABI_get_epilog_def MSABI_modified MSABI_epilog_middle_def Let_def map_conv_bind_option comp_def)

lemma MSABI_middle_regs:
  "first_regs MSABI_volatile_regs (MSABI_prolog_middle frame) = []"
  "first_regs MSABI_volatile_regs (MSABI_epilog_middle frame) = []"
  by (simp_all add: MSABI_prolog_middle_def MSABI_epilog_middle_def first_regs_flag first_regs_instr
      X8664_RSP_def MSABI_volatile_regs_def)

interpretation msabi: frame_code MSABICallingConv X8664_is_gp X8664_is_xmm
proof (unfold_locales, goal_cases)
  case (1 bs cs frame)
  then show ?case
    using pops_cong [OF 1(1)] sse_moves_cong [OF 1(2)] by (simp add: MSABI_epilog_eq)
next
  case (2 bs frame prolog)
  then show ?case
    using x86_64_prolog_regs [of _ MSABICallingConv "code_of bs" _ "MSABI_prolog_middle frame"]
    by (auto simp: MSABI_prolog_eq MSABI_middle_regs simp del: first_regs_simps)
next
  case (3 bs frame epilog)
  then show ?case
    using x86_64_epilog_regs [of _ MSABICallingConv "code_of bs" _ "MSABI_epilog_middle frame"]
    by (auto simp: MSABI_epilog_eq MSABI_middle_regs simp del: first_regs_simps)
next
  case (4 bs frame prolog instr)
  then show ?case
    using pushes_exits [of instr] sse_moves_exits [of _ _ _ _ instr] X8664_opcodes
    by (auto simp: MSABI_prolog_eq MSABI_prolog_middle_def MSABI_is_func_exit_def split: if_splits) fastforce+
qed

subsection \<open>The pass\<close>

text \<open>
  C35: Under each of the three native conventions the prolog and epilog pass puts the prolog in front
  of the first block and the epilog in front of every exit, and nothing else: the prolog and the
  epilog are those of the original code, although the pass computes the epilog again for every exit
  from the code that contains the prolog and the epilogs put in before.
\<close>

theorem PrologEpilogPass_run_blocks:
  assumes "cc \<in> {AAPCSCallingConv v, SysVCallingConv, MSABICallingConv}"
    and "func_basic_blocks f = block # blocks"
    and "cc_get_prolog cc (block # blocks) (func_stack_frame f) = Some prolog"
    and "cc_get_epilog cc (block # blocks) (func_stack_frame f) = Some epilog"
  shows "PrologEpilogPass_run cc f = Some (f\<lparr>func_basic_blocks :=
    block\<lparr>m_basic_block.block_instrs :=
        prolog @ with_epilog (cc_is_func_exit cc) epilog (m_basic_block.block_instrs block)\<rparr> #
    map (with_epilog_block (cc_is_func_exit cc) epilog) blocks\<rparr>)"
  using assms by (auto intro: aapcs.run_blocks sysv.run_blocks msabi.run_blocks)

text \<open>A function with two exits that modifies a register to save.\<close>

definition exits_blocks :: "m_basic_block list" where
  "exits_blocks =
     [\<lparr>block_label = '''', block_instrs = [m_instruction X8664_MOV [m_reg 3 8, m_imm 1], m_instruction X8664_RET []]\<rparr>,
      \<lparr>block_label = ''b'', block_instrs = [m_instruction X8664_RET []]\<rparr>]"

definition exits_function :: m_frame_function where
  "exits_function =
     \<lparr>func_name = ''f'', func_basic_blocks = exits_blocks,
      func_stack_frame =
        \<lparr>frame_stack_slots = [], frame_call_arg_slot_indices = [], frame_reg_save_slot_indices = [],
         frame_size = 8, frame_total_size = 32\<rparr>,
      func_unwind_alloc_size = 0, fn_parameters = []\<rparr>"

theorem PrologEpilogPass_run_blocks_witness:
  "\<exists>prolog epilog. map m_basic_block.block_instrs
       (func_basic_blocks (the (PrologEpilogPass_run SysVCallingConv exits_function))) =
     [prolog @ [m_instruction X8664_MOV [m_reg 3 8, m_imm 1]] @ epilog @ [m_instruction X8664_RET []],
      epilog @ [m_instruction X8664_RET []]]"
proof -
  have "modified SysVCallingConv (code_of exits_blocks) = [3]"
    by (simp add: exits_blocks_def modified_def first_regs_instr_Cons SysV_volatile_regs_def)
      (simp add: first_regs_def m_instruction_def)
  then obtain prolog epilog where "SysV_get_prolog exits_blocks (func_stack_frame exits_function) = Some prolog"
    "SysV_get_epilog exits_blocks (func_stack_frame exits_function) = Some epilog"
    by (simp add: SysV_prolog_eq SysV_epilog_eq X8664_is_xmm_def)
  then have "PrologEpilogPass_run SysVCallingConv exits_function = Some (exits_function\<lparr>func_basic_blocks :=
      (hd exits_blocks)\<lparr>m_basic_block.block_instrs :=
          prolog @ with_epilog SysV_is_func_exit epilog (m_basic_block.block_instrs (hd exits_blocks))\<rparr> #
      map (with_epilog_block SysV_is_func_exit epilog) (tl exits_blocks)\<rparr>)"
    using PrologEpilogPass_run_blocks [of SysVCallingConv AAPCS_APPLE exits_function "hd exits_blocks" "tl exits_blocks"]
    by (simp add: exits_function_def exits_blocks_def)
  then show ?thesis
    by (intro exI [of _ prolog] exI [of _ epilog]) (simp add: exits_blocks_def with_epilog_def with_epilog_block_def
        SysV_is_func_exit_def X8664_MOV_def X8664_RET_def)
qed

end
