(* ===== verification/Frame_Machine.thy ===== *)
theory Frame_Machine
  imports Prolog_Conventions
begin

section \<open>Running prologs and epilogs\<close>

text \<open>
  A machine with 64-bit registers and a memory of 8-byte cells, as far as prologs and epilogs use it,
  and what they do on it: whatever the code in between does to other registers and to other cells, the
  epilog brings back the stack pointer and every register that the prolog saved.
\<close>

subsection \<open>The machine\<close>

record machine =
  mc_regs :: "u32 \<Rightarrow> u64"
  mc_mem :: "u64 \<Rightarrow> u64"

definition set_reg :: "u32 \<Rightarrow> u64 \<Rightarrow> machine \<Rightarrow> machine" where
  "set_reg r v s = s\<lparr>mc_regs := (mc_regs s)(r := v)\<rparr>"

definition set_cell :: "u64 \<Rightarrow> u64 \<Rightarrow> machine \<Rightarrow> machine" where
  "set_cell a v s = s\<lparr>mc_mem := (mc_mem s)(a := v)\<rparr>"

lemma set_simps [simp]:
  "mc_regs (set_reg r v s) = (mc_regs s)(r := v)" "mc_mem (set_reg r v s) = mc_mem s"
  "mc_regs (set_cell a v s) = mc_regs s" "mc_mem (set_cell a v s) = (mc_mem s)(a := v)"
  by (simp_all add: set_reg_def set_cell_def)

definition operand_imm :: "operand \<Rightarrow> u64 option" where
  "operand_imm op = map_option LargeInt_to_bits (Operand_get_int_immediate op)"

fun run_code :: "(m_instr \<Rightarrow> machine \<Rightarrow> machine option) \<Rightarrow> m_instr list \<Rightarrow> machine \<Rightarrow> machine option" where
  "run_code step [] s = Some s"
| "run_code step (instr # code) s = do { s' \<leftarrow> step instr s; run_code step code s' }"

lemma run_code_append: "run_code step (xs @ ys) s = do { s' \<leftarrow> run_code step xs s; run_code step ys s' }"
  by (induction xs arbitrary: s) (auto split: bind_splits)

subsection \<open>The instructions of the x86-64 prologs and epilogs\<close>

definition X8664_step :: "stack_frame \<Rightarrow> m_instr \<Rightarrow> machine \<Rightarrow> machine option" where
  "X8664_step frame instr s =
     (let opcode = instr_opcode instr; sp = mc_regs s X8664_RSP;
          cell = (\<lambda>slot. do { slot \<leftarrow> StackFrame_get_stack_slot frame slot; Some (sp + scast (slot_offset slot)) })
      in case instr_operands instr of
        [a] \<Rightarrow>
          if opcode = EH_PUSHREG then Some s
          else do { r \<leftarrow> Operand_get_physical_reg a;
                    if opcode = X8664_PUSH then Some (set_reg X8664_RSP (sp - 8) (set_cell (sp - 8) (mc_regs s r) s))
                    else if opcode = X8664_POP then Some (set_reg r (mc_mem s sp) (set_reg X8664_RSP (sp + 8) s))
                    else None }
      | [a, b] \<Rightarrow>
          if opcode = X8664_MOV then
            do { r \<leftarrow> Operand_get_physical_reg a; q \<leftarrow> Operand_get_physical_reg b; Some (set_reg r (mc_regs s q) s) }
          else if opcode = X8664_ADD then
            do { r \<leftarrow> Operand_get_physical_reg a; i \<leftarrow> operand_imm b; Some (set_reg r (mc_regs s r + i) s) }
          else if opcode = X8664_SUB then
            do { r \<leftarrow> Operand_get_physical_reg a; i \<leftarrow> operand_imm b; Some (set_reg r (mc_regs s r - i) s) }
          else if opcode = X8664_MOVSD then
            (case (op_value a, op_value b) of
               (Op_stack_slot slot, Op_register q) \<Rightarrow>
                 do { p \<leftarrow> cell slot; Some (set_cell p (mc_regs s (Register_get_physical_reg q)) s) }
             | (Op_register r, Op_stack_slot slot) \<Rightarrow>
                 do { p \<leftarrow> cell slot; Some (set_reg (Register_get_physical_reg r) (mc_mem s p) s) }
             | _ \<Rightarrow> None)
          else None
      | _ \<Rightarrow> None)"

subsection \<open>The instructions of the AArch64 prologs and epilogs\<close>

definition A64_pre :: "operand \<Rightarrow> (u32 \<times> u64) option" where
  "A64_pre op =
     (case op_value op of
        Op_aarch64_addr (AA_BASE_OFFSET_IMM_WRITE base offset) \<Rightarrow>
          Some (Register_get_physical_reg base, scast offset)
      | _ \<Rightarrow> None)"

definition A64_base :: "operand \<Rightarrow> u32 option" where
  "A64_base op =
     (case op_value op of Op_aarch64_addr (AA_BASE base) \<Rightarrow> Some (Register_get_physical_reg base) | _ \<Rightarrow> None)"

definition A64_arith :: "int \<Rightarrow> u64 \<Rightarrow> u64 \<Rightarrow> u64 option" where
  "A64_arith opcode x y =
     (if opcode = AArch64Opcode_to_int A64_ADD then Some (x + y)
      else if opcode = AArch64Opcode_to_int A64_SUB then Some (x - y) else None)"

text \<open>A store writes its base register before the address is used, a load after it.\<close>

definition A64_step :: "m_instr \<Rightarrow> machine \<Rightarrow> machine option" where
  "A64_step instr s =
     (let opcode = instr_opcode instr in
      case instr_operands instr of
        [a, b] \<Rightarrow>
          if opcode = AArch64Opcode_to_int A64_STR then
            do { r \<leftarrow> Operand_get_physical_reg a; (base, offset) \<leftarrow> A64_pre b;
                 let p = mc_regs s base + offset;
                 Some (set_reg base p (set_cell p (mc_regs s r) s)) }
          else None
      | [a, b, c] \<Rightarrow>
          if opcode = AArch64Opcode_to_int A64_STP then
            do { r \<leftarrow> Operand_get_physical_reg a; q \<leftarrow> Operand_get_physical_reg b; (base, offset) \<leftarrow> A64_pre c;
                 let p = mc_regs s base + offset;
                 Some (set_reg base p (set_cell (p + 8) (mc_regs s q) (set_cell p (mc_regs s r) s))) }
          else if opcode = AArch64Opcode_to_int A64_LDR then
            do { r \<leftarrow> Operand_get_physical_reg a; base \<leftarrow> A64_base b; offset \<leftarrow> operand_imm c;
                 let p = mc_regs s base;
                 Some (set_reg base (p + offset) (set_reg r (mc_mem s p) s)) }
          else
            do { r \<leftarrow> Operand_get_physical_reg a; q \<leftarrow> Operand_get_physical_reg b; i \<leftarrow> operand_imm c;
                 v \<leftarrow> A64_arith opcode (mc_regs s q) i; Some (set_reg r v s) }
      | [a, b, c, d] \<Rightarrow>
          if opcode = AArch64Opcode_to_int A64_LDP then
            do { r \<leftarrow> Operand_get_physical_reg a; q \<leftarrow> Operand_get_physical_reg b; base \<leftarrow> A64_base c;
                 offset \<leftarrow> operand_imm d;
                 let p = mc_regs s base;
                 Some (set_reg base (p + offset) (set_reg q (mc_mem s (p + 8)) (set_reg r (mc_mem s p) s))) }
          else
            do { r \<leftarrow> Operand_get_physical_reg a; q \<leftarrow> Operand_get_physical_reg b; i \<leftarrow> operand_imm c;
                 n \<leftarrow> Operand_get_aarch64_left_shift d;
                 v \<leftarrow> A64_arith opcode (mc_regs s q) (push_bit (unat n) i); Some (set_reg r v s) }
      | _ \<Rightarrow> None)"

subsection \<open>Pushing and popping\<close>

fun push_all :: "u64 \<Rightarrow> (u32 \<Rightarrow> u64) \<Rightarrow> u32 list \<Rightarrow> u64 \<Rightarrow> (u64 \<Rightarrow> u64) \<Rightarrow> u64 \<times> (u64 \<Rightarrow> u64)" where
  "push_all w v [] p m = (p, m)"
| "push_all w v (r # rs) p m = push_all w v rs (p - w) (m(p - w := v r))"

fun pop_all :: "u64 \<Rightarrow> (u64 \<Rightarrow> u64) \<Rightarrow> u32 list \<Rightarrow> (u32 \<Rightarrow> u64) \<Rightarrow> u64 \<Rightarrow> (u32 \<Rightarrow> u64) \<times> u64" where
  "pop_all w m [] g p = (g, p)"
| "pop_all w m (r # rs) g p = pop_all w m rs (g(r := m p)) (p + w)"

text \<open>The cell of the \<open>k\<close>th saved register.\<close>

definition cell_of :: "u64 \<Rightarrow> u64 \<Rightarrow> nat \<Rightarrow> u64" where
  "cell_of w p k = p - w * of_nat (Suc k)"

definition saved_in :: "u64 \<Rightarrow> (u64 \<Rightarrow> u64) \<Rightarrow> u64 \<Rightarrow> (u32 \<Rightarrow> u64) \<Rightarrow> u32 list \<Rightarrow> bool" where
  "saved_in w m p v rs \<longleftrightarrow> (\<forall>k<length rs. m (cell_of w p k) = v (rs ! k))"

lemma cell_of_Suc: "cell_of w p (Suc k) = cell_of w (p - w) k"
  by (simp add: cell_of_def algebra_simps)

lemma cell_of_neq:
  assumes "\<And>k. 0 < k \<Longrightarrow> k \<le> n \<Longrightarrow> w * of_nat k \<noteq> 0" and "k < n" and "j < k"
  shows "cell_of w p j \<noteq> cell_of w p k"
proof
  assume eq: "cell_of w p j = cell_of w p k"
  have split: "(of_nat (Suc k) :: u64) = of_nat (Suc j) + of_nat (k - j)"
    using assms(3) by (metis add_Suc le_add_diff_inverse less_imp_le of_nat_add)
  have "cell_of w p k = cell_of w p j - w * of_nat (k - j)"
    unfolding cell_of_def split by (simp only: distrib_left diff_diff_eq)
  then have "cell_of w p j + w * of_nat (k - j) = cell_of w p j + 0"
    unfolding eq by simp
  then have "w * of_nat (k - j) = 0"
    by (rule add_left_imp_eq)
  moreover have "w * of_nat (k - j) \<noteq> 0"
    using assms(2,3) by (intro assms(1)) linarith+
  ultimately show False
    by contradiction
qed

lemma push_all_result:
  assumes "\<And>k. 0 < k \<Longrightarrow> k \<le> length rs \<Longrightarrow> w * of_nat k \<noteq> 0"
  shows "fst (push_all w v rs p m) = p - w * of_nat (length rs) \<and>
    saved_in w (snd (push_all w v rs p m)) p v rs \<and>
    (\<forall>a. (\<forall>k<length rs. a \<noteq> cell_of w p k) \<longrightarrow> snd (push_all w v rs p m) a = m a)"
  using assms
proof (induction rs arbitrary: p m)
  case (Cons r rs)
  define m1 where "m1 = m(p - w := v r)"
  have push: "push_all w v (r # rs) p m = push_all w v rs (p - w) m1"
    by (simp add: m1_def)
  have IH: "fst (push_all w v rs (p - w) m1) = p - w - w * of_nat (length rs)"
    "saved_in w (snd (push_all w v rs (p - w) m1)) (p - w) v rs"
    "\<forall>a. (\<forall>k<length rs. a \<noteq> cell_of w (p - w) k) \<longrightarrow> snd (push_all w v rs (p - w) m1) a = m1 a"
    using Cons.IH [of "p - w" m1] Cons.prems by (simp_all add: le_SucI)
  have first: "cell_of w p 0 = p - w"
    by (simp add: cell_of_def)
  have "p - w \<noteq> cell_of w (p - w) k" if "k < length rs" for k
    using cell_of_neq [of "length (r # rs)" w "Suc k" 0 p] Cons.prems that first by (simp add: cell_of_Suc)
  then have "snd (push_all w v rs (p - w) m1) (p - w) = v r"
    using IH(3) by (simp add: m1_def)
  then have "saved_in w (snd (push_all w v rs (p - w) m1)) p v (r # rs)"
    using IH(2) first by (auto simp: saved_in_def less_Suc_eq_0_disj cell_of_Suc)
  moreover have "snd (push_all w v rs (p - w) m1) a = m a" if a: "\<forall>k<length (r # rs). a \<noteq> cell_of w p k" for a
  proof -
    have "a \<noteq> p - w" "\<forall>k<length rs. a \<noteq> cell_of w (p - w) k"
      using a first by (auto simp flip: cell_of_Suc)
    then show ?thesis
      using IH(3) by (simp add: m1_def)
  qed
  ultimately show ?case
    using IH(1) unfolding push by (simp add: algebra_simps)
qed (simp add: saved_in_def)

lemma pop_all_result:
  "saved_in w m p v rs \<Longrightarrow>
   pop_all w m (rev rs) g (p - w * of_nat (length rs)) = (\<lambda>r. if r \<in> set rs then v r else g r, p)"
proof (induction rs arbitrary: g rule: rev_induct)
  case (snoc r rs)
  have "p - w * of_nat (length (rs @ [r])) = cell_of w p (length rs)"
    by (simp add: cell_of_def)
  moreover have "cell_of w p (length rs) + w = p - w * of_nat (length rs)"
    by (simp add: cell_of_def algebra_simps)
  moreover have "m (cell_of w p (length rs)) = v r" "saved_in w m p v rs"
    using snoc.prems by (auto simp: saved_in_def nth_append)
  ultimately show ?case
    using snoc.IH by (auto simp: fun_eq_iff)
qed simp

lemma push_all_cong: "(\<And>r. r \<in> set rs \<Longrightarrow> v r = v' r) \<Longrightarrow> push_all w v rs p m = push_all w v' rs p m"
  by (induction rs arbitrary: p m) auto

lemma pop_all_upd:
  "q \<notin> set rs \<Longrightarrow> pop_all w m rs (g(q := x)) p = ((fst (pop_all w m rs g p))(q := x), snd (pop_all w m rs g p))"
proof (induction rs arbitrary: g p)
  case (Cons r rs)
  then show ?case
    using Cons.IH [of "g(r := m p)" "p + w"] fun_upd_twist [of q r g x "m p"] by (simp del: fun_upd_apply)
qed simp

lemma saved_in_cong:
  "saved_in w m p v rs \<Longrightarrow> (\<And>k. k < length rs \<Longrightarrow> m' (cell_of w p k) = m (cell_of w p k)) \<Longrightarrow> saved_in w m' p v rs"
  by (simp add: saved_in_def)

lemma saved_in_subset: "saved_in w m p v rs \<Longrightarrow> (\<And>r. r \<in> set rs \<Longrightarrow> v r = v' r) \<Longrightarrow> saved_in w m p v' rs"
  by (simp add: saved_in_def)

subsection \<open>Operands\<close>

lemma get_m_reg: "\<not> bit r 31 \<Longrightarrow> Operand_get_physical_reg (m_reg r n) = Some r"
  by (simp add: m_reg_def m_op_def Operand_get_physical_reg_def Operand_get_register_def physical_roundtrip)

lemma imm_m_imm:
  assumes "- (2 ^ 31) \<le> i" and "i < 2 ^ 31"
  shows "operand_imm (m_imm i) = Some (word_of_int i)"
proof -
  have "sint (word_of_int i :: u32) = i"
    using assms by (simp add: signed_of_int signed_take_bit_int_eq_self)
  then have "scast (word_of_int i :: u32) = (word_of_int i :: u64)"
    by (simp add: scast_eq)
  moreover have "sint (word_of_int i :: u64) = i"
    using assms by (simp add: signed_of_int signed_take_bit_int_eq_self)
  ultimately have "LargeInt_value (LargeInt_of_int (word_of_int i)) = i"
    by (simp add: LargeInt_of_int_def LargeInt_set_from_value)
  then show ?thesis
    by (simp add: operand_imm_def m_imm_def m_op_def Operand_get_int_immediate_def LargeInt_to_bits_value)
qed

lemma m_instruction_operands [simp]:
  "instr_operands (m_instruction opcode ops) = ops"
  "instr_operands (Instruction_set_flag flag instr) = instr_operands instr"
  by (simp_all add: m_instruction_def Instruction_set_flag_def)

subsection \<open>AAPCS\<close>

lemma A64_opcodes:
  "AArch64Opcode_to_int A64_STP \<noteq> AArch64Opcode_to_int A64_STR"
  "AArch64Opcode_to_int A64_LDP \<noteq> AArch64Opcode_to_int A64_STR"
  "AArch64Opcode_to_int A64_LDR \<noteq> AArch64Opcode_to_int A64_STP"
  "AArch64Opcode_to_int A64_ADD \<noteq> AArch64Opcode_to_int A64_SUB"
  "AArch64Opcode_to_int A64_SUB \<noteq> AArch64Opcode_to_int A64_ADD"
  "AArch64Opcode_to_int A64_ADD \<notin> AArch64Opcode_to_int ` {A64_STR, A64_STP, A64_LDR, A64_LDP}"
  "AArch64Opcode_to_int A64_SUB \<notin> AArch64Opcode_to_int ` {A64_STR, A64_STP, A64_LDR, A64_LDP}"
  by (simp_all add: AArch64Opcode_to_int_def AArch64Opcodes_def)

lemma AAPCS_operands:
  "A64_pre AAPCS_push = Some (62, - 16)" "A64_base AAPCS_top = Some 62"
  by (simp_all add: A64_pre_def A64_base_def AAPCS_push_def AAPCS_top_def m_op_def physical_roundtrip)

lemma A64_stores:
  assumes "\<And>r. r \<in> set rs \<Longrightarrow> \<not> bit r 31 \<and> r \<noteq> 62"
  shows "run_code A64_step (map (\<lambda>r. m_instruction (AArch64Opcode_to_int A64_STR) (m_reg r 8 # [AAPCS_push])) rs) s =
    Some (let (p, m) = push_all 16 (mc_regs s) rs (mc_regs s 62) (mc_mem s)
          in s\<lparr>mc_regs := (mc_regs s)(62 := p), mc_mem := m\<rparr>)"
  using assms
proof (induction rs arbitrary: s)
  case (Cons r rs)
  let ?s = "set_reg 62 (mc_regs s 62 - 16) (set_cell (mc_regs s 62 - 16) (mc_regs s r) s)"
  have "A64_step (m_instruction (AArch64Opcode_to_int A64_STR) (m_reg r 8 # [AAPCS_push])) s = Some ?s"
    using Cons.prems by (simp add: A64_step_def get_m_reg AAPCS_operands Let_def)
  moreover have "push_all 16 (mc_regs ?s) rs p m = push_all 16 (mc_regs s) rs p m" for p m
    using Cons.prems by (intro push_all_cong) auto
  moreover note Cons.IH [of ?s]
  ultimately show ?case
    using Cons.prems by (simp add: set_reg_def set_cell_def case_prod_beta add: fun_upd_same del: fun_upd_apply)
qed simp

lemma A64_loads:
  assumes "\<And>r. r \<in> set rs \<Longrightarrow> \<not> bit r 31 \<and> r \<noteq> 62"
  shows "run_code A64_step (map (\<lambda>r. m_instruction (AArch64Opcode_to_int A64_LDR) (m_reg r 8 # [AAPCS_top, m_imm 16])) rs) s =
    Some (let (g, p) = pop_all 16 (mc_mem s) rs (mc_regs s) (mc_regs s 62) in s\<lparr>mc_regs := g(62 := p)\<rparr>)"
  using assms
proof (induction rs arbitrary: s)
  case (Cons r rs)
  let ?s = "set_reg 62 (mc_regs s 62 + 16) (set_reg r (mc_mem s (mc_regs s 62)) s)"
  have "A64_step (m_instruction (AArch64Opcode_to_int A64_LDR) (m_reg r 8 # [AAPCS_top, m_imm 16])) s = Some ?s"
    using Cons.prems A64_opcodes by (simp add: A64_step_def get_m_reg AAPCS_operands imm_m_imm Let_def)
  moreover have "62 \<notin> set rs"
    using Cons.prems by auto
  moreover note Cons.IH [of ?s]
  ultimately show ?case
    using Cons.prems by (simp add: set_reg_def case_prod_beta pop_all_upd Let_def add: fun_upd_same del: fun_upd_apply)
qed simp

lemma split_12: "push_bit 12 (ucast (drop_bit 12 n) :: u64) + ucast (n AND 0xFFF) = ucast n" for n :: u32
proof -
  have mask: "n AND 0xFFF = take_bit 12 n"
    by (simp add: take_bit_eq_mask mask_eq_exp_minus_1)
  have "ucast n = push_bit 12 (drop_bit 12 (ucast n :: u64)) OR take_bit 12 (ucast n)"
    by (simp add: bits_ident disjunctive_add [symmetric] bit_push_bit_iff bit_take_bit_iff)
  also have "\<dots> = push_bit 12 (drop_bit 12 (ucast n :: u64)) + take_bit 12 (ucast n)"
    by (rule disjunctive_add [symmetric]) (auto simp: bit_push_bit_iff bit_take_bit_iff)
  also have "drop_bit 12 (ucast n :: u64) = ucast (drop_bit 12 n)"
    by (rule bit_word_eqI) (auto simp: bit_drop_bit_eq bit_ucast_iff dest: bit_imp_le_length)
  also have "take_bit 12 (ucast n :: u64) = ucast (n AND 0xFFF)"
    unfolding mask by (rule bit_word_eqI) (auto simp: bit_take_bit_iff bit_ucast_iff dest: bit_imp_le_length)
  finally show ?thesis
    by simp
qed

lemma imm_uint: "uint n < 2 ^ 31 \<Longrightarrow> operand_imm (m_imm (uint n)) = Some (ucast n)" for n :: u32
proof -
  assume "uint n < 2 ^ 31"
  moreover have "- (2 ^ 31) \<le> uint n"
    by (rule order_trans [of _ 0]) simp_all
  ultimately show ?thesis
    by (simp add: imm_m_imm)
qed

lemma A64_step_arith:
  assumes "opcode \<in> {A64_ADD, A64_SUB}"
  shows "A64_step (m_instruction (AArch64Opcode_to_int opcode) [m_reg 62 8, m_reg 62 8, i]) s =
      do { i \<leftarrow> operand_imm i; Some (set_reg 62 (if opcode = A64_ADD then mc_regs s 62 + i else mc_regs s 62 - i) s) }"
    and "A64_step (m_instruction (AArch64Opcode_to_int opcode) [m_reg 62 8, m_reg 62 8, i, m_op (Op_aarch64_left_shift k) 0]) s =
      do { i \<leftarrow> operand_imm i;
           Some (set_reg 62 (if opcode = A64_ADD then mc_regs s 62 + push_bit (unat k) i
                             else mc_regs s 62 - push_bit (unat k) i) s) }"
  using assms A64_opcodes by (auto simp: A64_step_def get_m_reg A64_arith_def m_op_def
      Operand_get_aarch64_left_shift_def Let_def)

lemma A64_step_flag: "A64_step (Instruction_set_flag flag instr) s = A64_step instr s"
  by (simp add: A64_step_def)

lemma AAPCS_modify_sp_run:
  assumes "AAPCS_modify_sp opcode n = Some instrs" and "opcode \<in> {A64_ADD, A64_SUB}"
  shows "run_code A64_step instrs s =
      Some (set_reg 62 (if opcode = A64_ADD then mc_regs s 62 + ucast n else mc_regs s 62 - ucast n) s)"
    and "run_code A64_step (map (Instruction_set_flag flag) instrs) s = run_code A64_step instrs s"
proof -
  have "n AND 0xFFF \<le> 0xFFF"
    by (rule word_and_le1)
  moreover have "drop_bit 12 n \<le> n"
    by (simp add: drop_bit_eq_div word_le_nat_alt unat_div)
  ultimately have small: "uint (n AND 0xFFF) < 2 ^ 31" "n < 4096 * 4096 \<Longrightarrow> uint (drop_bit 12 n) < 2 ^ 31"
      "n < 4096 \<Longrightarrow> uint n < 2 ^ 31"
    by (simp_all add: word_le_def word_less_def)
  have shift: "unat (12 :: u32) = 12"
    by simp
  show "run_code A64_step instrs s =
      Some (set_reg 62 (if opcode = A64_ADD then mc_regs s 62 + ucast n else mc_regs s 62 - ucast n) s)"
    using assms small
    by (auto simp: AAPCS_modify_sp_def Let_def A64_step_arith imm_uint set_reg_def shift add.assoc
        diff_diff_eq split_12 split: if_splits)
  show "run_code A64_step (map (Instruction_set_flag flag) instrs) s = run_code A64_step instrs s"
  proof -
    have "run_code A64_step (map (Instruction_set_flag flag) code) = run_code A64_step code" for code
    proof (induction code)
      case (Cons instr code)
      then show ?case
        by (intro ext) (simp add: A64_step_flag)
    qed simp
    then show ?thesis
      by simp
  qed
qed

lemma cells_16: "0 < k \<Longrightarrow> k < 2 ^ 33 \<Longrightarrow> (16 :: u64) * of_nat k \<noteq> 0"
proof
  assume k: "0 < k" "k < 2 ^ 33" and "(16 :: u64) * of_nat k = 0"
  then have "(of_nat (16 * k) :: u64) = 0"
    by simp
  moreover have "unat (of_nat (16 * k) :: u64) = 16 * k"
    using k by (intro of_nat_inverse [OF refl]) simp
  ultimately show False
    using k by simp
qed

lemma modified_length: "length (filter P (modified cc code)) \<le> 2 ^ 32"
proof -
  have "distinct (filter P (modified cc code))"
    by (simp add: modified_def first_seen_distinct)
  then have "length (filter P (modified cc code)) = card (set (filter P (modified cc code)))"
    by (metis distinct_card)
  also have "\<dots> \<le> card (UNIV :: u32 set)"
    by (intro card_mono) simp_all
  finally show ?thesis
    by (simp add: card_word)
qed

lemma bit_8: "bit (8 :: u64) n \<longleftrightarrow> n = 3"
  using bit_push_bit_iff [of 3 "1 :: u64" n] by (auto simp: push_bit_eq_mult bit_1_iff)

lemma odd_cell: "(p :: u64) - 16 * x \<noteq> p - 16 * y + 8"
proof
  assume "p - 16 * x = p - 16 * y + 8"
  then have eq: "push_bit 4 y = push_bit 4 x + (8 :: u64)"
    by (simp add: push_bit_eq_mult algebra_simps)
  have "push_bit 4 x + (8 :: u64) = push_bit 4 x OR 8"
  proof (rule disjunctive_add)
    fix n
    show "\<not> bit (push_bit 4 x) n \<or> \<not> bit (8 :: u64) n"
      unfolding bit_8 by (cases "n = 3") (simp_all add: bit_push_bit_iff)
  qed
  then have "bit (push_bit 4 y) 3 = bit (push_bit 4 x OR (8 :: u64)) 3"
    unfolding eq by simp
  then show False
    by (simp add: bit_push_bit_iff bit_or_iff)
qed

lemma sub_Suc: "(p :: u64) - w * of_nat n - w = p - w * of_nat (Suc n)"
  by (simp add: algebra_simps)

text \<open>The frame of a function: the saved registers, and the frame record below them.\<close>

lemma A64_pushes:
  assumes "\<And>r. r \<in> set rs \<Longrightarrow> \<not> bit r 31 \<and> r \<noteq> 62" and "length rs < 2 ^ 33 - 1"
    and "p = mc_regs s 62 - 16 * of_nat (Suc (length rs))"
  shows "\<exists>m. run_code A64_step
      (map (\<lambda>r. m_instruction (AArch64Opcode_to_int A64_STR) (m_reg r 8 # [AAPCS_push])) rs @
       [m_instruction (AArch64Opcode_to_int A64_STP) (m_reg 29 8 # [m_reg 30 8, AAPCS_push])]) s =
      Some (s\<lparr>mc_regs := (mc_regs s)(62 := p), mc_mem := m\<rparr>) \<and>
    saved_in 16 m (mc_regs s 62) (mc_regs s) rs \<and> m p = mc_regs s 29 \<and> m (p + 8) = mc_regs s 30"
proof -
  define q m where "q = fst (push_all 16 (mc_regs s) rs (mc_regs s 62) (mc_mem s))"
    and "m = snd (push_all 16 (mc_regs s) rs (mc_regs s 62) (mc_mem s))"
  have neq: "\<And>k. 0 < k \<Longrightarrow> k \<le> Suc (length rs) \<Longrightarrow> (16 :: u64) * of_nat k \<noteq> 0"
    using assms(2) cells_16 by simp
  have pushed: "q = mc_regs s 62 - 16 * of_nat (length rs)" "saved_in 16 m (mc_regs s 62) (mc_regs s) rs"
    using push_all_result [of rs 16 "mc_regs s" "mc_regs s 62" "mc_mem s"] neq by (simp_all add: q_def m_def)
  have p: "q - 16 = p" "cell_of 16 (mc_regs s 62) (length rs) = p"
    by (simp_all only: assms(3) pushed(1) cell_of_def sub_Suc)
  let ?m = "m(p := mc_regs s 29, p + 8 := mc_regs s 30)"
  have "cell_of 16 (mc_regs s 62) k \<noteq> p" if "k < length rs" for k
    using cell_of_neq [of "Suc (length rs)" 16 "length rs" k "mc_regs s 62"] neq that unfolding p(2) by simp
  moreover have "cell_of 16 (mc_regs s 62) k \<noteq> p + 8" for k
    unfolding cell_of_def assms(3) by (rule odd_cell)
  ultimately have "saved_in 16 ?m (mc_regs s 62) (mc_regs s) rs"
    by (intro saved_in_cong [OF pushed(2)]) simp
  moreover have "run_code A64_step
      (map (\<lambda>r. m_instruction (AArch64Opcode_to_int A64_STR) (m_reg r 8 # [AAPCS_push])) rs @
       [m_instruction (AArch64Opcode_to_int A64_STP) (m_reg 29 8 # [m_reg 30 8, AAPCS_push])]) s =
      Some (s\<lparr>mc_regs := (mc_regs s)(62 := p), mc_mem := ?m\<rparr>)"
  proof -
    define s1 where "s1 = s\<lparr>mc_regs := (mc_regs s)(62 := q), mc_mem := m\<rparr>"
    have "run_code A64_step (map (\<lambda>r. m_instruction (AArch64Opcode_to_int A64_STR) (m_reg r 8 # [AAPCS_push])) rs) s =
        Some s1"
      using A64_stores [of rs s] assms(1) by (simp add: s1_def q_def m_def case_prod_beta)
    moreover have "A64_step (m_instruction (AArch64Opcode_to_int A64_STP) (m_reg 29 8 # [m_reg 30 8, AAPCS_push])) s1 =
        Some (set_reg 62 p (set_cell (p + 8) (mc_regs s 30) (set_cell p (mc_regs s 29) s1)))"
      using A64_opcodes(1) by (simp add: A64_step_def get_m_reg AAPCS_operands Let_def s1_def p(1) [simplified])
    moreover have "set_reg 62 p (set_cell (p + 8) (mc_regs s 30) (set_cell p (mc_regs s 29) s1)) =
        s\<lparr>mc_regs := (mc_regs s)(62 := p), mc_mem := ?m\<rparr>"
      by (simp add: s1_def set_reg_def set_cell_def)
    ultimately show ?thesis
      by (simp add: run_code_append)
  qed
  ultimately show ?thesis
    by (intro exI [of _ ?m]) simp
qed

lemma A64_pops:
  assumes "\<And>r. r \<in> set rs \<Longrightarrow> \<not> bit r 31 \<and> r \<noteq> 62" and "saved_in 16 (mc_mem s) entry v rs"
    and "mc_regs s 62 = entry - 16 * of_nat (Suc (length rs))"
    and "mc_mem s (mc_regs s 62) = v 29" and "mc_mem s (mc_regs s 62 + 8) = v 30"
  shows "run_code A64_step
      ([m_instruction (AArch64Opcode_to_int A64_LDP) (m_reg 29 8 # [m_reg 30 8, AAPCS_top, m_imm 16])] @
       map (\<lambda>r. m_instruction (AArch64Opcode_to_int A64_LDR) (m_reg r 8 # [AAPCS_top, m_imm 16])) (rev rs)) s =
    Some (s\<lparr>mc_regs := (\<lambda>r. if r \<in> set rs \<union> {29, 30} then v r else if r = 62 then entry else mc_regs s r)\<rparr>)"
proof -
  let ?p = "entry - 16 * of_nat (length rs)"
  define s1 where "s1 = set_reg 62 ?p (set_reg 30 (v 30) (set_reg 29 (v 29) s))"
  have p: "mc_regs s 62 + 16 = ?p"
    by (simp add: assms(3) algebra_simps)
  have step: "A64_step (m_instruction (AArch64Opcode_to_int A64_LDP) (m_reg 29 8 # [m_reg 30 8, AAPCS_top, m_imm 16])) s =
      Some s1"
    using p assms(4,5) by (simp add: A64_step_def get_m_reg AAPCS_operands imm_m_imm Let_def s1_def)
  have "run_code A64_step (map (\<lambda>r. m_instruction (AArch64Opcode_to_int A64_LDR) (m_reg r 8 # [AAPCS_top, m_imm 16]))
      (rev rs)) s1 = Some (s1\<lparr>mc_regs := (\<lambda>r. if r \<in> set rs then v r else mc_regs s1 r)(62 := entry)\<rparr>)"
    using A64_loads [of "rev rs" s1] pop_all_result [of 16 "mc_mem s" entry v rs "mc_regs s1"] assms(1,2)
    by (simp add: s1_def)
  moreover have "s1\<lparr>mc_regs := (\<lambda>r. if r \<in> set rs then v r else mc_regs s1 r)(62 := entry)\<rparr> =
      s\<lparr>mc_regs := (\<lambda>r. if r \<in> set rs \<union> {29, 30} then v r else if r = 62 then entry else mc_regs s r)\<rparr>"
  proof -
    have "62 \<notin> set rs"
      using assms(1) by blast
    then have "(\<lambda>r. if r \<in> set rs then v r else mc_regs s1 r)(62 := entry) =
        (\<lambda>r. if r \<in> set rs \<union> {29, 30} then v r else if r = 62 then entry else mc_regs s r)"
      by (auto simp: fun_eq_iff s1_def)
    then show ?thesis
      by (simp add: s1_def set_reg_def)
  qed
  ultimately show ?thesis
    using step by simp
qed

text \<open>
  C38: On a machine, the prolog of AAPCS moves the stack pointer down over the saved registers, the
  frame record and the frame and changes no other register; and whatever the code in between does, as
  long as it brings the stack pointer back and leaves the area of the saved registers alone, the
  epilog gives the stack pointer, the frame pointer, the link register and every saved register the
  value it had before the prolog, and changes no other register and no memory.
\<close>

theorem AAPCS_prolog_epilog:
  fixes blocks :: "m_basic_block list" and s :: machine
  defines "modified_regs \<equiv> MachinePassUtils_get_modified_volatile_regs AAPCS_volatile_regs blocks"
  defines "n \<equiv> Suc (length (filter (\<lambda>r. r \<noteq> 29 \<and> r \<noteq> 30) modified_regs))"
  assumes "AAPCS_get_prolog blocks frame = Some prolog" and "AAPCS_get_epilog blocks frame = Some epilog"
  shows "\<exists>s1. run_code A64_step prolog s = Some s1 \<and>
    mc_regs s1 62 + ucast (frame_size frame) = mc_regs s 62 - 16 * of_nat n \<and>
    (\<forall>r. r \<noteq> 62 \<longrightarrow> mc_regs s1 r = mc_regs s r) \<and>
    (\<forall>s2. mc_regs s2 62 = mc_regs s1 62 \<and>
       (\<forall>k<2 * n. mc_mem s2 (mc_regs s 62 - 8 * of_nat (Suc k)) = mc_mem s1 (mc_regs s 62 - 8 * of_nat (Suc k))) \<longrightarrow>
       (\<exists>s3. run_code A64_step epilog s2 = Some s3 \<and> mc_mem s3 = mc_mem s2 \<and> mc_regs s3 62 = mc_regs s 62 \<and>
          (\<forall>r\<in>set modified_regs \<union> {29, 30}. mc_regs s3 r = mc_regs s r) \<and>
          (\<forall>r. r \<notin> set modified_regs \<union> {29, 30, 62} \<longrightarrow> mc_regs s3 r = mc_regs s2 r)))"
proof -
  let ?v = AAPCS_STANDARD
  let ?M = "modified (AAPCSCallingConv ?v) (code_of blocks)"
  define rs where "rs = filter AAPCS_pushed ?M"
  let ?size = "ucast (frame_size frame) :: u64" and ?top = "mc_regs s 62"
  have M: "modified_regs = ?M" and n: "n = Suc (length rs)"
    by (simp_all add: modified_regs_def n_def AAPCS_modified [of _ ?v] rs_def AAPCS_pushed_def [abs_def])
  have regs: "\<not> bit r 31 \<and> r \<noteq> 62" if "r \<in> set ?M" for r
    using modified_reg [OF that] sp_volatile by auto
  have rs: "\<not> bit r 31 \<and> r \<noteq> 62" if "r \<in> set rs" for r
    using that regs by (simp add: rs_def)
  have len: "length rs < 2 ^ 33 - 1"
    using modified_length [of AAPCS_pushed "AAPCSCallingConv ?v" "code_of blocks"] by (simp add: rs_def)
  define p where "p = ?top - 16 * of_nat (Suc (length rs))"
  obtain m where pushes: "run_code A64_step
      (map (\<lambda>r. m_instruction (AArch64Opcode_to_int A64_STR) (m_reg r 8 # [AAPCS_push])) rs @
       [m_instruction (AArch64Opcode_to_int A64_STP) (m_reg 29 8 # [m_reg 30 8, AAPCS_push])]) s =
      Some (s\<lparr>mc_regs := (mc_regs s)(62 := p), mc_mem := m\<rparr>)"
    "saved_in 16 m ?top (mc_regs s) rs" "m p = mc_regs s 29" "m (p + 8) = mc_regs s 30"
    using A64_pushes [OF rs len p_def] by blast
  define s1 where "s1 = s\<lparr>mc_regs := (mc_regs s)(62 := p - ?size), mc_mem := m\<rparr>"
  obtain allocation where prolog: "AAPCS_modify_sp A64_SUB (frame_size frame) = Some allocation"
    "prolog = (map (\<lambda>r. m_instruction (AArch64Opcode_to_int A64_STR) (m_reg r 8 # [AAPCS_push])) rs @
       [m_instruction (AArch64Opcode_to_int A64_STP) (m_reg 29 8 # [m_reg 30 8, AAPCS_push])]) @
      map (Instruction_set_flag Instruction_FLAG_ALLOCA) allocation"
    using assms(3) by (auto simp: AAPCS_prolog_eq [of _ _ ?v] rs_def)
  have run1: "run_code A64_step prolog s = Some s1"
    unfolding prolog(2) run_code_append [of _ "_ @ _"] pushes(1) using AAPCS_modify_sp_run [OF prolog(1)]
    by (simp add: s1_def set_reg_def)
  obtain deallocation where epilog: "AAPCS_modify_sp A64_ADD (frame_size frame) = Some deallocation"
    "epilog = deallocation @
      ([m_instruction (AArch64Opcode_to_int A64_LDP) (m_reg 29 8 # [m_reg 30 8, AAPCS_top, m_imm 16])] @
       map (\<lambda>r. m_instruction (AArch64Opcode_to_int A64_LDR) (m_reg r 8 # [AAPCS_top, m_imm 16])) (rev rs))"
    using assms(4) by (auto simp: AAPCS_epilog_eq [of _ _ ?v] rs_def)
  have restored: "\<exists>s3. run_code A64_step epilog s2 = Some s3 \<and> mc_mem s3 = mc_mem s2 \<and> mc_regs s3 62 = ?top \<and>
      (\<forall>r\<in>set modified_regs \<union> {29, 30}. mc_regs s3 r = mc_regs s r) \<and>
      (\<forall>r. r \<notin> set modified_regs \<union> {29, 30, 62} \<longrightarrow> mc_regs s3 r = mc_regs s2 r)"
    if sp: "mc_regs s2 62 = mc_regs s1 62"
      and cells: "\<forall>k<2 * n. mc_mem s2 (?top - 8 * of_nat (Suc k)) = mc_mem s1 (?top - 8 * of_nat (Suc k))" for s2
  proof -
    define s2' where "s2' = set_reg 62 p s2"
    have "run_code A64_step deallocation s2 = Some s2'"
      using AAPCS_modify_sp_run(1) [OF epilog(1)] sp by (simp add: s2'_def s1_def)
    moreover have "mc_mem s2' (cell_of 16 ?top k) = m (cell_of 16 ?top k)" if "k < n" for k
      using cells [rule_format, of "2 * k + 1"] that by (simp add: s2'_def s1_def cell_of_def algebra_simps)
    then have "saved_in 16 (mc_mem s2') ?top (mc_regs s) rs" "mc_mem s2' p = mc_regs s 29"
      using saved_in_cong [OF pushes(2), of "mc_mem s2'"] pushes(3) n by (simp_all add: p_def cell_of_def)
    moreover have "mc_mem s2' (p + 8) = mc_regs s 30"
      using cells [rule_format, of "2 * length rs"] pushes(4) n
      by (simp add: s2'_def s1_def p_def algebra_simps)
    moreover define s3 where "s3 = s2'\<lparr>mc_regs := (\<lambda>r. if r \<in> set rs \<union> {29, 30} then mc_regs s r
      else if r = 62 then ?top else mc_regs s2' r)\<rparr>"
    ultimately have "run_code A64_step epilog s2 = Some s3"
      using A64_pops [of rs s2' ?top "mc_regs s"] rs unfolding epilog(2) run_code_append [of _ deallocation]
      by (simp add: s2'_def p_def)
    moreover have "r \<in> set rs \<or> r = 29 \<or> r = 30" if "r \<in> set modified_regs" for r
      using that by (auto simp: M rs_def AAPCS_pushed_def)
    moreover have "r \<in> set modified_regs \<and> r \<noteq> 62" if "r \<in> set rs" for r
      using that rs by (auto simp: M rs_def)
    ultimately show ?thesis
      by (intro exI [of _ s3]) (auto simp: s3_def s2'_def)
  qed
  show ?thesis
    using restored by (intro exI [of _ s1] conjI run1) (simp_all add: s1_def p_def n)
qed

text \<open>A function that changes \<open>X19\<close>, which the code in between sets to 7.\<close>

definition save_blocks :: "m_basic_block list" where
  "save_blocks = [\<lparr>block_label = '''', block_instrs = [m_instruction (AArch64Opcode_to_int A64_ADD) [m_reg 19 8, m_reg 0 8, m_imm 1]]\<rparr>]"

definition save_frame :: stack_frame where
  "save_frame = \<lparr>frame_stack_slots = [], frame_call_arg_slot_indices = [], frame_reg_save_slot_indices = [],
     frame_size = 32, frame_total_size = 56\<rparr>"

definition save_state :: machine where
  "save_state = \<lparr>mc_regs = (\<lambda>r. ucast r), mc_mem = (\<lambda>_. 0)\<rparr>"

theorem AAPCS_prolog_epilog_witness:
  "\<exists>prolog epilog s1 s3. AAPCS_get_prolog save_blocks save_frame = Some prolog \<and>
     AAPCS_get_epilog save_blocks save_frame = Some epilog \<and>
     run_code A64_step prolog save_state = Some s1 \<and> run_code A64_step epilog (set_reg 19 7 s1) = Some s3 \<and>
     mc_regs s3 19 = 19 \<and> mc_regs s3 30 = 30 \<and> mc_regs s3 62 = 62"
proof -
  have modified: "MachinePassUtils_get_modified_volatile_regs AAPCS_volatile_regs save_blocks = [19]"
    by (simp add: modified_regs_seen save_blocks_def first_regs_instr AAPCS_volatile_regs_def)
  have "\<exists>prolog. AAPCS_get_prolog save_blocks save_frame = Some prolog"
    and "\<exists>epilog. AAPCS_get_epilog save_blocks save_frame = Some epilog"
    by (simp_all add: AAPCS_prolog_eq [of _ _ AAPCS_STANDARD] AAPCS_epilog_eq [of _ _ AAPCS_STANDARD]
        AAPCS_modify_sp_def save_frame_def Let_def)
  then obtain prolog epilog where code: "AAPCS_get_prolog save_blocks save_frame = Some prolog"
    "AAPCS_get_epilog save_blocks save_frame = Some epilog"
    by blast
  from AAPCS_prolog_epilog [OF code, of save_state] obtain s1 where
    s1: "run_code A64_step prolog save_state = Some s1" and
    restored: "\<And>s2. mc_regs s2 62 = mc_regs s1 62 \<Longrightarrow> mc_mem s2 = mc_mem s1 \<Longrightarrow>
      \<exists>s3. run_code A64_step epilog s2 = Some s3 \<and> mc_regs s3 62 = mc_regs save_state 62 \<and>
        (\<forall>r\<in>{19, 29, 30}. mc_regs s3 r = mc_regs save_state r)"
    unfolding modified by fastforce
  from restored [of "set_reg 19 7 s1"] show ?thesis
    using code s1 by (fastforce simp: save_state_def)
qed

end
