(* ===== verification/Frame_Machine_X86.thy ===== *)
theory Frame_Machine_X86
  imports Frame_Machine
begin

section \<open>Running the x86-64 prologs and epilogs\<close>

text \<open>
  The counterpart of \<^theory_text>\<open>Frame_Machine\<close> for System V and Microsoft x64, which push general-purpose
  registers and keep vector registers in slots of the frame.
\<close>

subsection \<open>Pushes and pops\<close>

lemma X8664_opcode_neq:
  "X8664_PUSH \<noteq> EH_PUSHREG" "X8664_POP \<noteq> EH_PUSHREG" "X8664_POP \<noteq> X8664_PUSH" "X8664_ADD \<noteq> X8664_MOV"
  "X8664_SUB \<noteq> X8664_MOV" "X8664_SUB \<noteq> X8664_ADD" "X8664_MOVSD \<noteq> X8664_MOV" "X8664_MOVSD \<noteq> X8664_ADD"
  "X8664_MOVSD \<noteq> X8664_SUB"
  by (simp_all add: X8664_PUSH_def EH_PUSHREG_def X8664_POP_def X8664_MOV_def X8664_ADD_def X8664_SUB_def
      X8664_MOVSD_def)

lemma step_push:
  "\<not> bit r 31 \<Longrightarrow> X8664_step frame (m_instruction X8664_PUSH [m_reg r n]) s =
     Some (set_reg X8664_RSP (mc_regs s X8664_RSP - 8) (set_cell (mc_regs s X8664_RSP - 8) (mc_regs s r) s))"
  by (simp add: X8664_step_def get_m_reg X8664_opcode_neq Let_def)

lemma step_eh: "X8664_step frame (m_instruction EH_PUSHREG [op]) s = Some s"
  by (simp add: X8664_step_def Let_def)

lemma step_pop:
  "\<not> bit r 31 \<Longrightarrow> X8664_step frame (m_instruction X8664_POP [m_reg r n]) s =
     Some (set_reg r (mc_mem s (mc_regs s X8664_RSP)) (set_reg X8664_RSP (mc_regs s X8664_RSP + 8) s))"
  by (simp add: X8664_step_def get_m_reg X8664_opcode_neq Let_def)

lemma step_add:
  "\<not> bit r 31 \<Longrightarrow> X8664_step frame (m_instruction X8664_ADD [m_reg r n, m_imm (sint i)]) s =
     Some (set_reg r (mc_regs s r + scast i) s)" for i :: u32
  using imm_m_imm [of "sint i"] sint_ge [of i] sint_lt [of i]
  by (simp add: X8664_step_def get_m_reg X8664_opcode_neq Let_def flip: scast_eq)

lemma step_sub:
  "\<not> bit r 31 \<Longrightarrow> X8664_step frame (Instruction_set_flag flag (m_instruction X8664_SUB [m_reg r n, m_imm (sint i)])) s =
     Some (set_reg r (mc_regs s r - scast i) s)" for i :: u32
  using imm_m_imm [of "sint i"] sint_ge [of i] sint_lt [of i]
  by (simp add: X8664_step_def get_m_reg X8664_opcode_neq Let_def flip: scast_eq)

lemma step_mov:
  "\<not> bit r 31 \<Longrightarrow> \<not> bit q 31 \<Longrightarrow> X8664_step frame (m_instruction X8664_MOV [m_reg r n, m_reg q k]) s =
     Some (set_reg r (mc_regs s q) s)"
  by (simp add: X8664_step_def get_m_reg Let_def)

lemma x86_64_pushes_run:
  assumes "\<And>r. r \<in> set regs \<Longrightarrow> \<not> bit r 31 \<and> r \<noteq> X8664_RSP"
  shows "run_code (X8664_step frame) (X8664_pushes regs) s =
    Some (let (p, m) = push_all 8 (mc_regs s) (filter X8664_is_gp regs) (mc_regs s X8664_RSP) (mc_mem s)
          in s\<lparr>mc_regs := (mc_regs s)(X8664_RSP := p), mc_mem := m\<rparr>)"
  using assms
proof (induction regs arbitrary: s)
  case (Cons r regs)
  show ?case
  proof (cases "X8664_is_gp r")
    case True
    let ?s = "set_reg X8664_RSP (mc_regs s X8664_RSP - 8) (set_cell (mc_regs s X8664_RSP - 8) (mc_regs s r) s)"
    have "run_code (X8664_step frame) (X8664_pushes (r # regs)) s = run_code (X8664_step frame) (X8664_pushes regs) ?s"
      using Cons.prems True by (simp add: X8664_pushes_def step_push step_eh)
    moreover have "push_all 8 (mc_regs ?s) (filter X8664_is_gp regs) p m =
        push_all 8 (mc_regs s) (filter X8664_is_gp regs) p m" for p m
      using Cons.prems by (intro push_all_cong) auto
    moreover note Cons.IH [of ?s]
    ultimately show ?thesis
      using Cons.prems True
      by (simp add: set_reg_def set_cell_def case_prod_beta fun_upd_same del: fun_upd_apply)
  next
    case False
    then have "X8664_pushes (r # regs) = X8664_pushes regs"
      by (simp add: X8664_pushes_def)
    then show ?thesis
      using Cons False by simp
  qed
qed (simp add: X8664_pushes_def)

lemma x86_64_pops_run:
  assumes "\<And>r. r \<in> set rs \<Longrightarrow> \<not> bit r 31 \<and> r \<noteq> X8664_RSP"
  shows "run_code (X8664_step frame) (map (\<lambda>r. m_instruction X8664_POP [m_reg r 8]) rs) s =
    Some (let (g, p) = pop_all 8 (mc_mem s) rs (mc_regs s) (mc_regs s X8664_RSP)
          in s\<lparr>mc_regs := g(X8664_RSP := p)\<rparr>)"
  using assms
proof (induction rs arbitrary: s)
  case (Cons r rs)
  let ?p = "mc_regs s X8664_RSP"
  let ?s = "set_reg r (mc_mem s ?p) (set_reg X8664_RSP (?p + 8) s)"
  have "X8664_step frame (m_instruction X8664_POP [m_reg r 8]) s = Some ?s"
    using Cons.prems by (simp add: step_pop)
  moreover have "X8664_RSP \<notin> set rs" "r \<noteq> X8664_RSP"
    using Cons.prems by auto
  moreover have "mc_regs ?s = ((mc_regs s)(r := mc_mem s ?p))(X8664_RSP := ?p + 8)"
    using Cons.prems by (simp add: fun_upd_twist [of r] del: fun_upd_apply)
  moreover note Cons.IH [of ?s]
  ultimately show ?case
    using Cons.prems by (simp add: case_prod_beta pop_all_upd Let_def fun_upd_same del: fun_upd_apply)
qed simp

subsection \<open>Vector registers in slots\<close>

definition slot_cells :: "stack_frame \<Rightarrow> u64 \<Rightarrow> nat list \<Rightarrow> u64 list" where
  "slot_cells frame sp slots = map (\<lambda>i. sp + scast (slot_offset (frame_stack_slots frame ! i))) slots"

lemma step_save:
  assumes "i < length (frame_stack_slots frame)" and "\<not> bit r 31"
  shows "X8664_step frame (m_instruction X8664_MOVSD [m_op (Op_stack_slot i) 8, m_reg r 8]) s =
    Some (set_cell (mc_regs s X8664_RSP + scast (slot_offset (frame_stack_slots frame ! i))) (mc_regs s r) s)"
  using assms by (simp add: X8664_step_def X8664_opcode_neq m_op_def m_reg_def StackFrame_get_stack_slot_def
      physical_roundtrip Let_def)

lemma step_restore:
  assumes "i < length (frame_stack_slots frame)" and "\<not> bit r 31"
  shows "X8664_step frame (m_instruction X8664_MOVSD [m_reg r 8, m_op (Op_stack_slot i) 8]) s =
    Some (set_reg r (mc_mem s (mc_regs s X8664_RSP + scast (slot_offset (frame_stack_slots frame ! i)))) s)"
  using assms by (simp add: X8664_step_def X8664_opcode_neq m_op_def m_reg_def StackFrame_get_stack_slot_def
      physical_roundtrip Let_def)

lemma sse_moves_Some:
  "X8664_sse_moves ops slots regs = Some code \<Longrightarrow> length (filter X8664_is_xmm regs) \<le> length slots"
  by (induction regs arbitrary: slots code) (auto split: if_splits list.splits bind_splits)

lemma sse_saves_run:
  assumes "X8664_sse_moves (\<lambda>slot reg. [slot, reg]) slots regs = Some saves"
    and "\<And>r. r \<in> set regs \<Longrightarrow> \<not> bit r 31"
    and "\<forall>i\<in>set (take (length (filter X8664_is_xmm regs)) slots). i < length (frame_stack_slots frame)"
    and "cells = slot_cells frame (mc_regs s X8664_RSP) (take (length (filter X8664_is_xmm regs)) slots)"
  shows "\<exists>m. run_code (X8664_step frame) saves s = Some (s\<lparr>mc_mem := m\<rparr>) \<and>
    (distinct cells \<longrightarrow> (\<forall>k<length cells. m (cells ! k) = mc_regs s (filter X8664_is_xmm regs ! k))) \<and>
    (\<forall>a. a \<notin> set cells \<longrightarrow> m a = mc_mem s a)"
  using assms
proof (induction regs arbitrary: slots saves s cells)
  case Nil
  then show ?case
    by (auto simp: slot_cells_def intro!: exI [of _ "mc_mem s"])
next
  case (Cons r regs)
  show ?case
  proof (cases "X8664_is_xmm r")
    case True
    then obtain i slots' rest where i: "slots = i # slots'"
      "X8664_sse_moves (\<lambda>slot reg. [slot, reg]) slots' regs = Some rest"
      "saves = m_instruction X8664_MOVSD [m_op (Op_stack_slot i) 8, m_reg r 8] # rest"
      using Cons.prems(1) by (auto split: list.splits bind_splits)
    let ?cell = "mc_regs s X8664_RSP + scast (slot_offset (frame_stack_slots frame ! i))"
    let ?s = "set_cell ?cell (mc_regs s r) s"
    define rest_cells where "rest_cells =
      slot_cells frame (mc_regs ?s X8664_RSP) (take (length (filter X8664_is_xmm regs)) slots')"
    have cells: "cells = ?cell # rest_cells"
      using Cons.prems(4) True i(1) by (simp add: slot_cells_def rest_cells_def)
    have step: "X8664_step frame (m_instruction X8664_MOVSD [m_op (Op_stack_slot i) 8, m_reg r 8]) s = Some ?s"
      using Cons.prems(2,3) True i(1) by (simp add: step_save)
    obtain m where m: "run_code (X8664_step frame) rest ?s = Some (?s\<lparr>mc_mem := m\<rparr>)"
      "distinct rest_cells \<longrightarrow>
         (\<forall>k<length rest_cells. m (rest_cells ! k) = mc_regs ?s (filter X8664_is_xmm regs ! k))"
      "\<forall>a. a \<notin> set rest_cells \<longrightarrow> m a = mc_mem ?s a"
      using Cons.IH [OF i(2) _ _ rest_cells_def] Cons.prems(2,3) True i(1) by auto
    have "m (cells ! k) = mc_regs s (filter X8664_is_xmm (r # regs) ! k)"
      if "distinct cells" "k < length cells" for k
      using that m(2,3) True cells by (cases k) auto
    moreover have "m a = mc_mem s a" if "a \<notin> set cells" for a
      using that m(3) cells by simp
    moreover have "run_code (X8664_step frame) saves s = Some (s\<lparr>mc_mem := m\<rparr>)"
      using m(1) step i(3) by (simp add: set_cell_def)
    ultimately show ?thesis
      by blast
  next
    case False
    then show ?thesis
      using Cons.IH [of slots saves cells s] Cons.prems by simp
  qed
qed

lemma sse_restores_run:
  assumes "X8664_sse_moves (\<lambda>slot reg. [reg, slot]) slots regs = Some restores"
    and "\<And>r. r \<in> set regs \<Longrightarrow> \<not> bit r 31 \<and> r \<noteq> X8664_RSP"
    and "\<forall>i\<in>set (take (length (filter X8664_is_xmm regs)) slots). i < length (frame_stack_slots frame)"
    and "cells = slot_cells frame (mc_regs s X8664_RSP) (take (length (filter X8664_is_xmm regs)) slots)"
    and "\<forall>k<length cells. mc_mem s (cells ! k) = v (filter X8664_is_xmm regs ! k)"
  shows "run_code (X8664_step frame) restores s =
    Some (s\<lparr>mc_regs := (\<lambda>r. if r \<in> set (filter X8664_is_xmm regs) then v r else mc_regs s r)\<rparr>)"
  using assms
proof (induction regs arbitrary: slots restores s cells)
  case (Cons r regs)
  show ?case
  proof (cases "X8664_is_xmm r")
    case True
    then obtain i slots' rest where i: "slots = i # slots'"
      "X8664_sse_moves (\<lambda>slot reg. [reg, slot]) slots' regs = Some rest"
      "restores = m_instruction X8664_MOVSD [m_reg r 8, m_op (Op_stack_slot i) 8] # rest"
      using Cons.prems(1) by (auto split: list.splits bind_splits)
    let ?cell = "mc_regs s X8664_RSP + scast (slot_offset (frame_stack_slots frame ! i))"
    define rest_cells where "rest_cells =
      slot_cells frame (mc_regs s X8664_RSP) (take (length (filter X8664_is_xmm regs)) slots')"
    have cells: "cells = ?cell # rest_cells"
      using Cons.prems(4) True i(1) by (simp add: slot_cells_def rest_cells_def)
    then have cell_vals: "mc_mem s ?cell = v r"
      "\<forall>k<length rest_cells. mc_mem s (rest_cells ! k) = v (filter X8664_is_xmm regs ! k)"
      using Cons.prems(5) True by (auto simp: All_less_Suc2 simp flip: nth_Cons_Suc)
    let ?s = "set_reg r (v r) s"
    have step: "X8664_step frame (m_instruction X8664_MOVSD [m_reg r 8, m_op (Op_stack_slot i) 8]) s = Some ?s"
      using Cons.prems(2,3) True i(1) cell_vals(1) by (simp add: step_restore)
    have "run_code (X8664_step frame) rest ?s = Some (?s\<lparr>mc_regs :=
        (\<lambda>q. if q \<in> set (filter X8664_is_xmm regs) then v q else mc_regs ?s q)\<rparr>)"
      using Cons.prems(2,3) True i(1) cell_vals(2)
      by (intro Cons.IH [OF i(2), of rest_cells]) (auto simp: rest_cells_def)
    moreover have "?s\<lparr>mc_regs := (\<lambda>q. if q \<in> set (filter X8664_is_xmm regs) then v q else mc_regs ?s q)\<rparr> =
        s\<lparr>mc_regs := (\<lambda>q. if q \<in> set (filter X8664_is_xmm (r # regs)) then v q else mc_regs s q)\<rparr>"
    proof -
      have "(\<lambda>q. if q \<in> set (filter X8664_is_xmm regs) then v q else mc_regs ?s q) =
          (\<lambda>q. if q \<in> set (filter X8664_is_xmm (r # regs)) then v q else mc_regs s q)"
        using True by (auto simp: fun_eq_iff)
      then show ?thesis
        by (simp add: set_reg_def)
    qed
    ultimately show ?thesis
      using step i(3) by simp
  next
    case False
    then show ?thesis
      using Cons.IH [of slots restores cells s] Cons.prems by simp
  qed
qed simp

subsection \<open>Entering and leaving\<close>

definition entered :: "u32 list \<Rightarrow> u64 \<Rightarrow> machine \<Rightarrow> machine \<Rightarrow> bool" where
  "entered rs n s t \<longleftrightarrow>
     mc_regs t X8664_RSP = mc_regs s X8664_RSP - 8 * of_nat (length rs) - n \<and>
     saved_in 8 (mc_mem t) (mc_regs s X8664_RSP) (mc_regs s) rs \<and>
     (\<forall>r. r \<noteq> X8664_RSP \<and> r \<noteq> X8664_RBP \<longrightarrow> mc_regs t r = mc_regs s r)"

lemma cells_8: "0 < k \<Longrightarrow> k < 2 ^ 33 \<Longrightarrow> (8 :: u64) * of_nat k \<noteq> 0"
proof
  assume k: "0 < k" "k < 2 ^ 33" and "(8 :: u64) * of_nat k = 0"
  then have "(of_nat (8 * k) :: u64) = 0"
    by simp
  moreover have "unat (of_nat (8 * k) :: u64) = 8 * k"
    using k by (intro of_nat_inverse [OF refl]) simp
  ultimately show False
    using k by simp
qed

lemma push_all_entered:
  assumes "length rs < 2 ^ 33"
  shows "entered rs 0 s (s\<lparr>mc_regs := (mc_regs s)(X8664_RSP := fst (push_all 8 (mc_regs s) rs (mc_regs s X8664_RSP) m)),
    mc_mem := snd (push_all 8 (mc_regs s) rs (mc_regs s X8664_RSP) m)\<rparr>)"
  using push_all_result [of rs 8 "mc_regs s" "mc_regs s X8664_RSP" m] cells_8 assms by (simp add: entered_def)

lemma push_all_append:
  "push_all w v (xs @ ys) p m = (case push_all w v xs p m of (p', m') \<Rightarrow> push_all w v ys p' m')"
  by (induction xs arbitrary: p m) simp_all

definition frame_bytes :: "stack_frame \<Rightarrow> u64" where
  "frame_bytes frame = scast (frame_size frame)"

lemma entered_alloca:
  "entered rs 0 s t \<Longrightarrow> entered rs n s (set_reg X8664_RSP (mc_regs t X8664_RSP - n) t)"
  by (simp add: entered_def)

lemma RSP_bits: "\<not> bit X8664_RSP 31" "\<not> bit X8664_RBP 31" "X8664_RBP \<noteq> X8664_RSP"
  by (simp_all add: X8664_RSP_def X8664_RBP_def)

lemma SysV_enter:
  assumes "\<And>r. r \<in> set regs \<Longrightarrow> \<not> bit r 31 \<and> r \<noteq> X8664_RSP" and "length (filter X8664_is_gp regs) < 2 ^ 33 - 1"
  shows "\<exists>t. run_code (X8664_step frame) (X8664_pushes regs @ SysV_prolog_middle frame) s = Some t \<and>
    entered (filter X8664_is_gp regs @ [X8664_RBP]) (frame_bytes frame) s t"
proof -
  let ?gp = "filter X8664_is_gp regs"
  define p m where "p = fst (push_all 8 (mc_regs s) ?gp (mc_regs s X8664_RSP) (mc_mem s))"
    and "m = snd (push_all 8 (mc_regs s) ?gp (mc_regs s X8664_RSP) (mc_mem s))"
  define s1 where "s1 = s\<lparr>mc_regs := (mc_regs s)(X8664_RSP := p), mc_mem := m\<rparr>"
  define s2 where "s2 = set_reg X8664_RSP (p - 8) (set_cell (p - 8) (mc_regs s X8664_RBP) s1)"
  have "run_code (X8664_step frame) (X8664_pushes regs) s = Some s1"
    using x86_64_pushes_run [of regs frame s] assms(1) by (simp add: s1_def p_def m_def case_prod_beta)
  moreover have "run_code (X8664_step frame) (SysV_prolog_middle frame) s1 =
      Some (set_reg X8664_RSP (p - 8 - frame_bytes frame) (set_reg X8664_RBP (p - 8) s2))"
    using RSP_bits by (simp add: SysV_prolog_middle_def step_push step_mov step_sub s1_def s2_def frame_bytes_def)
  moreover have "entered (?gp @ [X8664_RBP]) 0 s s2"
    using push_all_entered [of "?gp @ [X8664_RBP]" s "mc_mem s"] assms(2)
    by (auto simp: push_all_append case_prod_beta s2_def s1_def entered_def simp flip: p_def m_def)
  then have "entered (?gp @ [X8664_RBP]) (frame_bytes frame) s
      (set_reg X8664_RSP (p - 8 - frame_bytes frame) (set_reg X8664_RBP (p - 8) s2))"
    using RSP_bits by (auto simp: entered_def s2_def)
  ultimately show ?thesis
    by (simp add: run_code_append)
qed

lemma MSABI_enter:
  assumes "\<And>r. r \<in> set regs \<Longrightarrow> \<not> bit r 31 \<and> r \<noteq> X8664_RSP" and "length (filter X8664_is_gp regs) < 2 ^ 33 - 1"
  shows "\<exists>t. run_code (X8664_step frame) (X8664_pushes regs @ MSABI_prolog_middle frame) s = Some t \<and>
    entered (filter X8664_is_gp regs) (if 0 <s frame_size frame then frame_bytes frame else 0) s t"
proof -
  define s1 where "s1 = (let (p, m) = push_all 8 (mc_regs s) (filter X8664_is_gp regs) (mc_regs s X8664_RSP) (mc_mem s)
    in s\<lparr>mc_regs := (mc_regs s)(X8664_RSP := p), mc_mem := m\<rparr>)"
  have "entered (filter X8664_is_gp regs) 0 s s1"
    using push_all_entered [of "filter X8664_is_gp regs" s "mc_mem s"] assms(2) by (simp add: s1_def case_prod_beta)
  moreover have "run_code (X8664_step frame) (X8664_pushes regs) s = Some s1"
    using x86_64_pushes_run [of regs frame s] assms(1) by (simp add: s1_def)
  ultimately show ?thesis
    using RSP_bits entered_alloca [of _ s s1]
    by (simp add: run_code_append MSABI_prolog_middle_def step_sub flip: frame_bytes_def)
qed

lemma x86_64_leave:
  assumes "\<And>r. r \<in> set rs \<Longrightarrow> \<not> bit r 31 \<and> r \<noteq> X8664_RSP" and "saved_in 8 (mc_mem t) entry v rs"
    and "mc_regs t X8664_RSP = entry - 8 * of_nat (length rs)"
  shows "run_code (X8664_step frame) (map (\<lambda>r. m_instruction X8664_POP [m_reg r 8]) (rev rs)) t =
    Some (t\<lparr>mc_regs := (\<lambda>r. if r \<in> set rs then v r else if r = X8664_RSP then entry else mc_regs t r)\<rparr>)"
proof -
  have "run_code (X8664_step frame) (map (\<lambda>r. m_instruction X8664_POP [m_reg r 8]) (rev rs)) t =
      Some (t\<lparr>mc_regs := (\<lambda>r. if r \<in> set rs then v r else mc_regs t r)(X8664_RSP := entry)\<rparr>)"
    using x86_64_pops_run [of "rev rs" frame t] pop_all_result [OF assms(2), of "mc_regs t"] assms(1,3) by simp
  moreover have "X8664_RSP \<notin> set rs"
    using assms(1) by blast
  then have "(\<lambda>r. if r \<in> set rs then v r else mc_regs t r)(X8664_RSP := entry) =
      (\<lambda>r. if r \<in> set rs then v r else if r = X8664_RSP then entry else mc_regs t r)"
    by (auto simp: fun_eq_iff)
  ultimately show ?thesis
    by simp
qed

lemma set_reg_same: "mc_regs t r = w \<Longrightarrow> set_reg r w t = t"
  by (auto simp: set_reg_def)

lemma x86_64_leave_frame:
  assumes "\<And>r. r \<in> set rs \<Longrightarrow> \<not> bit r 31 \<and> r \<noteq> X8664_RSP" and "saved_in 8 (mc_mem t) entry v rs"
    and "mc_regs t X8664_RSP + n = entry - 8 * of_nat (length rs)"
  shows "run_code (X8664_step frame) (map (\<lambda>r. m_instruction X8664_POP [m_reg r 8]) (rev rs))
      (set_reg X8664_RSP (mc_regs t X8664_RSP + n) t) =
    Some (t\<lparr>mc_regs := (\<lambda>r. if r \<in> set rs then v r else if r = X8664_RSP then entry else mc_regs t r)\<rparr>)"
  using x86_64_leave [of rs "set_reg X8664_RSP (mc_regs t X8664_RSP + n) t" entry v frame] assms
  by (simp add: set_reg_def fun_eq_iff cong: if_cong)

subsection \<open>Cells of slots and cells of pushed registers\<close>

definition save_slots :: "stack_frame \<Rightarrow> u32 list \<Rightarrow> nat list" where
  "save_slots frame regs = take (length (filter X8664_is_xmm regs)) (frame_reg_save_slot_indices frame)"

text \<open>The slots of saved registers lie in the frame, each at a place of its own.\<close>

definition save_slots_ok :: "stack_frame \<Rightarrow> u32 list \<Rightarrow> bool" where
  "save_slots_ok frame regs \<longleftrightarrow>
     (\<forall>i\<in>set (save_slots frame regs). i < length (frame_stack_slots frame) \<and>
        0 \<le> sint (slot_offset (frame_stack_slots frame ! i)) \<and>
        sint (slot_offset (frame_stack_slots frame ! i)) + 8 \<le> sint (frame_size frame)) \<and>
     distinct (map (\<lambda>i. slot_offset (frame_stack_slots frame ! i)) (save_slots frame regs))"

lemma slot_cell_neq:
  fixes off n :: u32
  assumes "0 \<le> sint off" and "sint off + 8 \<le> sint n" and "k \<le> l" and "l < 2 ^ 34"
  shows "p - 8 * of_nat l - scast n + scast off \<noteq> p - 8 * (of_nat k :: u64)"
proof
  define d where "d = sint n - sint off + 8 * int (l - k)"
  assume "p - 8 * of_nat l - scast n + scast off = p - 8 * (of_nat k :: u64)"
  then have "8 * of_nat l + scast n - scast off - 8 * (of_nat k :: u64) = 0"
    by (simp add: algebra_simps)
  moreover have "(word_of_int d :: u64) = scast n - scast off + 8 * (of_nat l - of_nat k)"
    unfolding d_def scast_eq using assms(3) by (simp add: of_nat_diff)
  ultimately have "(word_of_int d :: u64) = 0"
    by (simp only:) (simp add: algebra_simps)
  moreover have "0 < d" "d < 2 ^ 64"
    using assms sint_lt [of n] by (simp_all add: d_def)
  then have "uint (word_of_int d :: u64) = d"
    by (simp add: uint_word_of_int)
  ultimately show False
    using \<open>0 < d\<close> by simp
qed

lemma sint_scast_64: "sint (scast i :: u64) = sint i" for i :: u32
  using sint_ge [of i] sint_lt [of i] by (simp add: signed_scast_eq signed_take_bit_int_eq_self)

lemma slot_cells_distinct:
  assumes "distinct (map (\<lambda>i. slot_offset (frame_stack_slots frame ! i)) slots)"
  shows "distinct (slot_cells frame sp slots)"
proof -
  have "inj_on (\<lambda>w :: u32. sp + scast w) A" for A
  proof (rule inj_onI)
    fix v w :: u32
    assume "sp + scast v = sp + scast w"
    then have "sint (scast v :: u64) = sint (scast w :: u64)"
      by simp
    then show "v = w"
      by (simp add: sint_scast_64 signed_word_eqI)
  qed
  then have "distinct (map (\<lambda>w. sp + scast w) (map (\<lambda>i. slot_offset (frame_stack_slots frame ! i)) slots))"
    using assms by (simp only: distinct_map)
  then show ?thesis
    by (simp add: slot_cells_def comp_def)
qed

subsection \<open>Prolog and epilog\<close>

definition brings_back :: "stack_frame \<Rightarrow> m_instr list \<Rightarrow> m_instr list \<Rightarrow> u32 list \<Rightarrow> u32 list \<Rightarrow> u64 list \<Rightarrow> machine \<Rightarrow> machine \<Rightarrow> bool" where
  "brings_back frame prolog epilog pushed slotted cells s s1 \<longleftrightarrow>
     run_code (X8664_step frame) prolog s = Some s1 \<and>
     (\<forall>s2. mc_regs s2 X8664_RSP = mc_regs s1 X8664_RSP \<and>
        (\<forall>k<length pushed. mc_mem s2 (mc_regs s X8664_RSP - 8 * of_nat (Suc k)) =
           mc_mem s1 (mc_regs s X8664_RSP - 8 * of_nat (Suc k))) \<and>
        (\<forall>a\<in>set cells. mc_mem s2 a = mc_mem s1 a) \<longrightarrow>
        (\<exists>s3. run_code (X8664_step frame) epilog s2 = Some s3 \<and> mc_mem s3 = mc_mem s2 \<and>
           mc_regs s3 X8664_RSP = mc_regs s X8664_RSP \<and>
           (\<forall>r\<in>set pushed \<union> set slotted. mc_regs s3 r = mc_regs s r) \<and>
           (\<forall>r. r \<notin> set pushed \<union> set slotted \<union> {X8664_RSP} \<longrightarrow> mc_regs s3 r = mc_regs s2 r)))"

lemma x86_64_roundtrip:
  assumes M: "\<And>r. r \<in> set M \<Longrightarrow> \<not> bit r 31 \<and> r \<noteq> X8664_RSP"
    and moves: "X8664_sse_moves (\<lambda>slot reg. [slot, reg]) (frame_reg_save_slot_indices frame) M = Some saves"
      "X8664_sse_moves (\<lambda>slot reg. [reg, slot]) (frame_reg_save_slot_indices frame) M = Some restores"
    and slots: "\<forall>i\<in>set (save_slots frame M). i < length (frame_stack_slots frame)"
    and enter: "run_code (X8664_step frame) before s = Some t" "entered rs n s t"
    and leave: "\<And>t'. mc_regs t' X8664_RSP = mc_regs t X8664_RSP \<Longrightarrow>
      saved_in 8 (mc_mem t') (mc_regs s X8664_RSP) (mc_regs s) rs \<Longrightarrow>
      run_code (X8664_step frame) after t' = Some (t'\<lparr>mc_regs := (\<lambda>r. if r \<in> set rs then mc_regs s r
        else if r = X8664_RSP then mc_regs s X8664_RSP else mc_regs t' r)\<rparr>)"
    and apart: "distinct (slot_cells frame (mc_regs t X8664_RSP) (save_slots frame M))"
      "\<And>a k. a \<in> set (slot_cells frame (mc_regs t X8664_RSP) (save_slots frame M)) \<Longrightarrow> k < length rs \<Longrightarrow>
         a \<noteq> cell_of 8 (mc_regs s X8664_RSP) k"
    and sp: "X8664_RSP \<notin> set rs" "X8664_RBP \<notin> set (filter X8664_is_xmm M)"
  shows "\<exists>s1. brings_back frame (before @ saves) (restores @ after) rs (filter X8664_is_xmm M)
      (slot_cells frame (mc_regs t X8664_RSP) (save_slots frame M)) s s1 \<and>
    mc_regs s1 = mc_regs t"
proof -
  let ?xs = "filter X8664_is_xmm M" and ?entry = "mc_regs s X8664_RSP"
  define cells where "cells = slot_cells frame (mc_regs t X8664_RSP) (save_slots frame M)"
  have bits: "\<And>r. r \<in> set M \<Longrightarrow> \<not> bit r 31"
    using M by blast
  obtain m where m: "run_code (X8664_step frame) saves t = Some (t\<lparr>mc_mem := m\<rparr>)"
    "distinct cells \<longrightarrow> (\<forall>k<length cells. m (cells ! k) = mc_regs t (?xs ! k))"
    "\<forall>a. a \<notin> set cells \<longrightarrow> m a = mc_mem t a"
    using sse_saves_run [OF moves(1) bits slots [unfolded save_slots_def] cells_def [unfolded save_slots_def]] by blast
  define s1 where "s1 = t\<lparr>mc_mem := m\<rparr>"
  have length_cells: "length cells \<le> length ?xs"
    by (simp add: cells_def slot_cells_def save_slots_def)
  have xs_t: "mc_regs t (?xs ! k) = mc_regs s (?xs ! k)" if "k < length ?xs" for k
  proof -
    have "?xs ! k \<in> set ?xs"
      using that by (rule nth_mem)
    then have "?xs ! k \<noteq> X8664_RSP" "?xs ! k \<noteq> X8664_RBP"
      using M sp(2) by (auto simp del: nth_mem)
    then show ?thesis
      using enter(2) by (simp add: entered_def)
  qed
  have pushed: "saved_in 8 m ?entry (mc_regs s) rs"
  proof (rule saved_in_cong)
    show "saved_in 8 (mc_mem t) ?entry (mc_regs s) rs"
      using enter(2) unfolding entered_def by blast
    show "m (cell_of 8 ?entry k) = mc_mem t (cell_of 8 ?entry k)" if "k < length rs" for k
      using m(3) apart(2) [OF _ that] unfolding cells_def by blast
  qed
  have "\<exists>s3. run_code (X8664_step frame) (restores @ after) s2 = Some s3 \<and> mc_mem s3 = mc_mem s2 \<and>
      mc_regs s3 X8664_RSP = ?entry \<and> (\<forall>r\<in>set rs \<union> set ?xs. mc_regs s3 r = mc_regs s r) \<and>
      (\<forall>r. r \<notin> set rs \<union> set ?xs \<union> {X8664_RSP} \<longrightarrow> mc_regs s3 r = mc_regs s2 r)"
    if sp2: "mc_regs s2 X8664_RSP = mc_regs t X8664_RSP"
      and kept: "\<forall>k<length rs. mc_mem s2 (cell_of 8 ?entry k) = m (cell_of 8 ?entry k)"
        "\<forall>a\<in>set cells. mc_mem s2 a = m a" for s2
  proof -
    define t' where "t' = s2\<lparr>mc_regs := (\<lambda>r. if r \<in> set ?xs then mc_regs s r else mc_regs s2 r)\<rparr>"
    have "run_code (X8664_step frame) restores s2 = Some t'"
      unfolding t'_def using m(2) apart(1) kept(2) xs_t length_cells sp2 M
      by (intro sse_restores_run [OF moves(2) _ slots [unfolded save_slots_def], of cells])
        (auto simp: cells_def save_slots_def)
    moreover have "mc_regs t' X8664_RSP = mc_regs t X8664_RSP"
      using sp2 M by (auto simp: t'_def)
    moreover have "saved_in 8 (mc_mem t') ?entry (mc_regs s) rs"
      using saved_in_cong [OF pushed] kept(1) by (simp add: t'_def)
    moreover define s3 where "s3 = t'\<lparr>mc_regs := (\<lambda>r. if r \<in> set rs then mc_regs s r
      else if r = X8664_RSP then ?entry else mc_regs t' r)\<rparr>"
    ultimately have "run_code (X8664_step frame) (restores @ after) s2 = Some s3"
      using leave [of t'] by (simp add: run_code_append)
    then show ?thesis
      using sp(1) M by (intro exI [of _ s3]) (auto simp: s3_def t'_def)
  qed
  moreover have "run_code (X8664_step frame) (before @ saves) s = Some s1"
    using enter(1) m(1) by (simp add: run_code_append s1_def)
  ultimately have "brings_back frame (before @ saves) (restores @ after) rs ?xs cells s s1"
    unfolding brings_back_def cell_of_def [symmetric] by (simp add: s1_def del: set_filter)
  then show ?thesis
    unfolding cells_def by (intro exI [of _ s1]) (simp add: s1_def)
qed

lemma slots_apart:
  assumes "save_slots_ok frame M" and "length rs < 2 ^ 34"
    and "save_slots frame M \<noteq> [] \<Longrightarrow> n = frame_bytes frame"
    and "mc_regs t X8664_RSP = entry - 8 * of_nat (length rs) - n"
  shows "distinct (slot_cells frame (mc_regs t X8664_RSP) (save_slots frame M))"
    and "a \<in> set (slot_cells frame (mc_regs t X8664_RSP) (save_slots frame M)) \<Longrightarrow> k < length rs \<Longrightarrow>
      a \<noteq> cell_of 8 entry k"
proof -
  show "distinct (slot_cells frame (mc_regs t X8664_RSP) (save_slots frame M))"
    using assms(1) by (intro slot_cells_distinct) (simp add: save_slots_ok_def)
  show "a \<noteq> cell_of 8 entry k"
    if a: "a \<in> set (slot_cells frame (mc_regs t X8664_RSP) (save_slots frame M))" and k: "k < length rs"
  proof -
    obtain i where i: "i \<in> set (save_slots frame M)"
      "a = mc_regs t X8664_RSP + scast (slot_offset (frame_stack_slots frame ! i))"
      using a by (auto simp: slot_cells_def)
    then have "save_slots frame M \<noteq> []"
      by auto
    then show ?thesis
      using slot_cell_neq [of "slot_offset (frame_stack_slots frame ! i)" "frame_size frame" "Suc k" "length rs" entry]
        i assms k by (auto simp: save_slots_ok_def cell_of_def frame_bytes_def)
  qed
qed

lemma pops_rev: "X8664_pops regs = map (\<lambda>r. m_instruction X8664_POP [m_reg r 8]) (rev (filter X8664_is_gp regs))"
  by (simp add: X8664_pops_def rev_filter)

lemma SysV_no_xmm: "filter X8664_is_xmm (modified SysVCallingConv code) = []"
proof -
  have "r \<in> set SysV_volatile_regs" if "X8664_is_xmm r" for r
  proof -
    have "unat r \<in> set [16..<32]"
      unfolding set_upt using that by (simp add: X8664_is_xmm_def word_le_nat_alt)
    then have "r \<in> of_nat ` set [16..<32]"
      by (intro image_eqI [of r of_nat "unat r"]) simp_all
    then show ?thesis
      by (auto simp: upt_rec SysV_volatile_regs_def)
  qed
  then show ?thesis
    using modified_reg(2) [of _ SysVCallingConv code] by (auto simp: filter_empty_conv)
qed

lemma x86_64_modified:
  assumes "cc \<in> {SysVCallingConv, MSABICallingConv}" and "r \<in> set (modified cc code)"
  shows "\<not> bit r 31 \<and> r \<noteq> X8664_RSP \<and> r \<noteq> X8664_RBP"
  using modified_reg [OF assms(2)] assms(1)
  by (auto simp: SysV_volatile_regs_def MSABI_volatile_regs_def X8664_RSP_def X8664_RBP_def)

subsection \<open>System V\<close>

text \<open>
  C39: The prolog of System V moves the stack pointer down over the saved registers, the frame pointer
  and the frame and changes no register but these two; and whatever the code in between does, as long
  as it brings the stack pointer back and leaves the cells of the saved registers alone, the epilog
  gives the stack pointer, the frame pointer and every saved register the value it had before the
  prolog, and changes no other register and no memory.
\<close>

theorem SysV_prolog_epilog:
  fixes blocks :: "m_basic_block list" and s :: machine
  defines "saved \<equiv> filter X8664_is_gp (MachinePassUtils_get_modified_volatile_regs SysV_volatile_regs blocks) @ [X8664_RBP]"
  assumes "SysV_get_prolog blocks frame = Some prolog" and "SysV_get_epilog blocks frame = Some epilog"
  shows "\<exists>s1. brings_back frame prolog epilog saved [] [] s s1 \<and>
    mc_regs s1 X8664_RSP = mc_regs s X8664_RSP - 8 * of_nat (length saved) - scast (frame_size frame) \<and>
    (\<forall>r. r \<noteq> X8664_RSP \<and> r \<noteq> X8664_RBP \<longrightarrow> mc_regs s1 r = mc_regs s r)"
proof -
  let ?M = "modified SysVCallingConv (code_of blocks)"
  have saved: "saved = filter X8664_is_gp ?M @ [X8664_RBP]"
    by (simp add: saved_def SysV_modified)
  have M: "\<not> bit r 31 \<and> r \<noteq> X8664_RSP" if "r \<in> set ?M" for r
    using x86_64_modified [of SysVCallingConv] that by blast
  have code: "prolog = (X8664_pushes ?M @ SysV_prolog_middle frame) @ []"
      "epilog = [] @ SysV_epilog_middle frame @ X8664_pops ?M"
    and moves: "X8664_sse_moves ops slots ?M = Some []" for ops slots
    using assms(2,3) sse_moves_filter [of _ _ ?M] by (simp_all add: SysV_prolog_eq SysV_epilog_eq SysV_no_xmm)
  have len: "length (filter X8664_is_gp ?M) < 2 ^ 33 - 1"
    using modified_length [of X8664_is_gp SysVCallingConv "code_of blocks"] by simp
  obtain t where t: "run_code (X8664_step frame) (X8664_pushes ?M @ SysV_prolog_middle frame) s = Some t"
    "entered saved (frame_bytes frame) s t"
    using SysV_enter [of ?M frame s] M len by (auto simp: saved)
  have rs: "\<not> bit r 31 \<and> r \<noteq> X8664_RSP" if "r \<in> set saved" for r
    using that M RSP_bits by (auto simp: saved)
  have leave: "run_code (X8664_step frame) (SysV_epilog_middle frame @ X8664_pops ?M) t' =
      Some (t'\<lparr>mc_regs := (\<lambda>r. if r \<in> set saved then mc_regs s r
        else if r = X8664_RSP then mc_regs s X8664_RSP else mc_regs t' r)\<rparr>)"
    if t': "mc_regs t' X8664_RSP = mc_regs t X8664_RSP"
      "saved_in 8 (mc_mem t') (mc_regs s X8664_RSP) (mc_regs s) saved" for t'
    using x86_64_leave_frame [of saved t' "mc_regs s X8664_RSP" "mc_regs s" "frame_bytes frame" frame] t' t(2) rs
    by (simp add: SysV_epilog_middle_def step_add saved pops_rev RSP_bits entered_def flip: frame_bytes_def)
  have slots: "save_slots frame ?M = []"
    by (simp add: save_slots_def SysV_no_xmm)
  have "\<exists>s1. brings_back frame prolog epilog saved [] [] s s1 \<and> mc_regs s1 = mc_regs t"
    using x86_64_roundtrip [OF M moves moves _ t leave] rs
    by (simp add: slots slot_cells_def code SysV_no_xmm) blast
  then show ?thesis
    using t(2) by (auto simp: entered_def frame_bytes_def)
qed

text \<open>A function that changes \<open>RBX\<close>, which the code in between sets to 7.\<close>

definition rbx_blocks :: "m_basic_block list" where
  "rbx_blocks = [\<lparr>block_label = '''', block_instrs = [m_instruction X8664_ADD [m_reg 3 8, m_imm 1]]\<rparr>]"

theorem SysV_prolog_epilog_witness:
  "\<exists>prolog epilog s1 s3. SysV_get_prolog rbx_blocks save_frame = Some prolog \<and>
     SysV_get_epilog rbx_blocks save_frame = Some epilog \<and>
     run_code (X8664_step save_frame) prolog save_state = Some s1 \<and>
     run_code (X8664_step save_frame) epilog (set_reg 3 7 s1) = Some s3 \<and>
     mc_regs s3 3 = 3 \<and> mc_regs s3 X8664_RBP = 7 \<and> mc_regs s3 X8664_RSP = 6"
proof -
  have modified: "MachinePassUtils_get_modified_volatile_regs SysV_volatile_regs rbx_blocks = [3]"
    by (simp add: modified_regs_seen rbx_blocks_def first_regs_instr SysV_volatile_regs_def)
  have "\<exists>prolog. SysV_get_prolog rbx_blocks save_frame = Some prolog"
    and "\<exists>epilog. SysV_get_epilog rbx_blocks save_frame = Some epilog"
    by (simp_all add: SysV_get_prolog_def SysV_get_epilog_def modified X8664_is_xmm_def Let_def)
  then obtain prolog epilog where code: "SysV_get_prolog rbx_blocks save_frame = Some prolog"
    "SysV_get_epilog rbx_blocks save_frame = Some epilog"
    by blast
  from SysV_prolog_epilog [OF code, of save_state] obtain s1 where
    s1: "brings_back save_frame prolog epilog [3, X8664_RBP] [] [] save_state s1"
    unfolding modified by (auto simp: X8664_is_gp_def)
  from s1 have "\<exists>s3. run_code (X8664_step save_frame) epilog (set_reg 3 7 s1) = Some s3 \<and>
      mc_regs s3 X8664_RSP = 6 \<and> mc_regs s3 3 = 3 \<and> mc_regs s3 X8664_RBP = 7"
    unfolding brings_back_def
    by (elim conjE, elim allE [of _ "set_reg 3 7 s1"]) (auto simp: save_state_def X8664_RSP_def X8664_RBP_def)
  then show ?thesis
    using code s1 by (auto simp: brings_back_def)
qed

subsection \<open>Microsoft x64\<close>

text \<open>
  C40: The prolog of Microsoft x64 pushes the general-purpose registers to be saved, moves the stack
  pointer down over the frame when there is one, and stores the saved vector registers, of which it
  keeps the low eight bytes, in their slots. When these slots lie in the frame at places of their own,
  whatever the code in between does, as long as it brings the stack pointer back and leaves the pushed
  cells and the slots alone, the epilog gives the stack pointer and every saved register the value it
  had before the prolog, and changes no other register and no memory.
\<close>

theorem MSABI_prolog_epilog:
  fixes blocks :: "m_basic_block list" and s :: machine
  defines "M \<equiv> MachinePassUtils_get_modified_volatile_regs MSABI_volatile_regs blocks"
  assumes "MSABI_get_prolog blocks frame = Some prolog" and "MSABI_get_epilog blocks frame = Some epilog"
    and "save_slots_ok frame M"
  shows "\<exists>s1. brings_back frame prolog epilog (filter X8664_is_gp M) (filter X8664_is_xmm M)
      (slot_cells frame (mc_regs s1 X8664_RSP) (save_slots frame M)) s s1 \<and>
    mc_regs s1 X8664_RSP = mc_regs s X8664_RSP - 8 * of_nat (length (filter X8664_is_gp M)) -
      (if 0 <s frame_size frame then frame_bytes frame else 0) \<and>
    (\<forall>r. r \<noteq> X8664_RSP \<and> r \<noteq> X8664_RBP \<longrightarrow> mc_regs s1 r = mc_regs s r)"
proof -
  let ?rs = "filter X8664_is_gp M" and ?n = "if 0 <s frame_size frame then frame_bytes frame else 0"
  have M_eq: "M = modified MSABICallingConv (code_of blocks)"
    by (simp add: M_def MSABI_modified)
  have M: "\<not> bit r 31 \<and> r \<noteq> X8664_RSP" and no_rbp: "r \<noteq> X8664_RBP" if "r \<in> set M" for r
    using x86_64_modified [of MSABICallingConv] that unfolding M_eq by blast+
  obtain saves restores where moves:
    "X8664_sse_moves (\<lambda>slot reg. [slot, reg]) (frame_reg_save_slot_indices frame) M = Some saves"
    "X8664_sse_moves (\<lambda>slot reg. [reg, slot]) (frame_reg_save_slot_indices frame) M = Some restores"
    and code: "prolog = (X8664_pushes M @ MSABI_prolog_middle frame) @ saves"
      "epilog = restores @ MSABI_epilog_middle frame @ X8664_pops M"
    using assms(2,3) by (auto simp: MSABI_prolog_eq MSABI_epilog_eq M_eq)
  have len: "length ?rs < 2 ^ 33 - 1"
    using modified_length [of X8664_is_gp MSABICallingConv "code_of blocks"] by (simp add: M_eq)
  obtain t where t: "run_code (X8664_step frame) (X8664_pushes M @ MSABI_prolog_middle frame) s = Some t"
    "entered ?rs ?n s t"
    using MSABI_enter [of M frame s] M len by blast
  have leave: "run_code (X8664_step frame) (MSABI_epilog_middle frame @ X8664_pops M) t' =
      Some (t'\<lparr>mc_regs := (\<lambda>r. if r \<in> set ?rs then mc_regs s r
        else if r = X8664_RSP then mc_regs s X8664_RSP else mc_regs t' r)\<rparr>)"
    if t': "mc_regs t' X8664_RSP = mc_regs t X8664_RSP"
      "saved_in 8 (mc_mem t') (mc_regs s X8664_RSP) (mc_regs s) ?rs" for t'
    using x86_64_leave_frame [of ?rs t' "mc_regs s X8664_RSP" "mc_regs s" ?n frame] t' t(2) M
    by (auto simp: MSABI_epilog_middle_def step_add pops_rev RSP_bits entered_def set_reg_same simp flip: frame_bytes_def)
  have n: "?n = frame_bytes frame" if "save_slots frame M \<noteq> []"
    using assms(4) that by (fastforce simp: save_slots_ok_def word_sless_alt neq_Nil_conv)
  have sp: "mc_regs t X8664_RSP = mc_regs s X8664_RSP - 8 * of_nat (length ?rs) - ?n"
    using t(2) by (simp add: entered_def)
  have in_frame: "\<forall>i\<in>set (save_slots frame M). i < length (frame_stack_slots frame)"
    using assms(4) by (simp add: save_slots_ok_def)
  have "length ?rs < 2 ^ 34"
    using len by simp
  note apart = slots_apart [OF assms(4) this n sp]
  have "X8664_RSP \<notin> set ?rs" and "X8664_RBP \<notin> set (filter X8664_is_xmm M)"
    using M no_rbp by auto
  then obtain s1 where "brings_back frame prolog epilog ?rs (filter X8664_is_xmm M)
      (slot_cells frame (mc_regs t X8664_RSP) (save_slots frame M)) s s1" "mc_regs s1 = mc_regs t"
    using x86_64_roundtrip [OF M moves in_frame t leave apart] unfolding code by blast
  then show ?thesis
    using t(2) by (intro exI [of _ s1]) (simp add: entered_def)
qed

text \<open>A function that changes \<open>RBX\<close> and \<open>XMM6\<close>, with a frame of one slot for the latter.\<close>

definition xmm_blocks :: "m_basic_block list" where
  "xmm_blocks = [\<lparr>block_label = '''', block_instrs =
     [m_instruction X8664_ADD [m_reg 3 8, m_imm 1], m_instruction X8664_MOVSD [m_reg 22 8, m_reg 16 8]]\<rparr>]"

definition xmm_frame :: stack_frame where
  "xmm_frame = \<lparr>frame_stack_slots = [(StackSlot_make Slot_GENERIC 8 1)\<lparr>slot_offset := 8\<rparr>],
     frame_call_arg_slot_indices = [], frame_reg_save_slot_indices = [0], frame_size = 16, frame_total_size = 24\<rparr>"

theorem MSABI_prolog_epilog_witness:
  "\<exists>prolog epilog s1 s3. MSABI_get_prolog xmm_blocks xmm_frame = Some prolog \<and>
     MSABI_get_epilog xmm_blocks xmm_frame = Some epilog \<and>
     run_code (X8664_step xmm_frame) prolog save_state = Some s1 \<and>
     run_code (X8664_step xmm_frame) epilog (set_reg 22 7 (set_reg 3 7 s1)) = Some s3 \<and>
     mc_regs s3 3 = 3 \<and> mc_regs s3 22 = 22 \<and> mc_regs s3 X8664_RSP = 6"
proof -
  have modified: "MachinePassUtils_get_modified_volatile_regs MSABI_volatile_regs xmm_blocks = [3, 22]"
    by (simp add: modified_regs_seen xmm_blocks_def first_regs_instr_Cons first_regs_instr MSABI_volatile_regs_def)
  have "\<exists>prolog. MSABI_get_prolog xmm_blocks xmm_frame = Some prolog"
    and "\<exists>epilog. MSABI_get_epilog xmm_blocks xmm_frame = Some epilog"
    by (simp_all add: MSABI_get_prolog_def MSABI_get_epilog_def modified X8664_is_xmm_def xmm_frame_def Let_def)
  then obtain prolog epilog where code: "MSABI_get_prolog xmm_blocks xmm_frame = Some prolog"
    "MSABI_get_epilog xmm_blocks xmm_frame = Some epilog"
    by blast
  have "save_slots_ok xmm_frame [3, 22]"
    by (simp add: save_slots_ok_def save_slots_def X8664_is_xmm_def xmm_frame_def StackSlot_make_def)
  then obtain s1 cells where
    s1: "brings_back xmm_frame prolog epilog [3] [22] cells save_state s1"
    using MSABI_prolog_epilog [OF code, of save_state] unfolding modified
    by (auto simp: X8664_is_gp_def X8664_is_xmm_def)
  from s1 have "\<exists>s3. run_code (X8664_step xmm_frame) epilog (set_reg 22 7 (set_reg 3 7 s1)) = Some s3 \<and>
      mc_regs s3 X8664_RSP = 6 \<and> mc_regs s3 3 = 3 \<and> mc_regs s3 22 = 22"
    unfolding brings_back_def
    by (elim conjE, elim allE [of _ "set_reg 22 7 (set_reg 3 7 s1)"]) (auto simp: save_state_def X8664_RSP_def)
  then show ?thesis
    using code s1 by (auto simp: brings_back_def)
qed

end
