(* ===== verification/Spec2Isabelle.thy ===== *)
theory Spec2Isabelle
  imports Large_Int Utils Bit_Set Write_Buffer MCode Binary_Builder Binary_Layout AArch64_Encoder
    AArch64_Correct AArch64_Link Elf_Builder Elf_Correct Decimal Json Json_Correct Ssa
    Control_Flow_Graph Dominators Cfg_Correct Loops Reg_Alloc_Func Liveness
    Liveness_Correct Live_Ranges Reg_Alloc Reg_Alloc_Loop Reg_Alloc_Correct AArch64_Reg_Analyzer AArch64_Effects
    AArch64_Reg_Correct Token_List Lexer Lexer_Correct Sources Stack_Frame Calling_Conv Stack_Layout Stack_Correct Arg_Places
    Prolog_Epilog Prolog_Conventions Frame_Machine Frame_Machine_X86
begin

text \<open>
  This library models and verifies the core of the Banjo compiler, the C++ program under
  \<open>src/src/banjo\<close>.  File names below are relative to that directory.

  \<^bold>\<open>The program.\<close>  The compiler reads source files, whose text the lexer splits into tokens; parser,
  semantic analysis and SSA generation turn them into functions of basic blocks in SSA form.  Analyses
  of the control flow graph serve the optimisation passes.  A target lowers SSA instructions to machine
  code with virtual registers; liveness analysis and register allocation replace these by physical
  ones; the stack frame pass places the stack slots and the prolog and epilog pass saves the registers
  a function changes, both as the calling convention says.  An encoder turns every instruction into
  bytes, which the section builder collects in slices and bakes into a binary module; the emitter of an
  object file format writes it to disk.  The language server edits source files and speaks JSON.

  \<^bold>\<open>How the model reads.\<close>  A class is a record or a datatype with the constructors of its tagged union,
  a member function is a definition of the same name behind the name of its class, which takes the object
  and returns it changed.  Machine integers that the code computes with modulo a power of two are words.
  An assertion that fails, an access out of range, an exception and undefined behaviour are \<open>None\<close>, so
  that a theorem with a \<open>Some\<close> in it says that none of them happens.  Linked lists are lists, iterators
  are positions.  What the standard library leaves open (the order in which a hash map is iterated, the
  top among equals of a priority queue, a sorting routine) is a parameter about which a theorem assumes
  no more than the library promises.  Virtual functions are the fields of a record or arguments.

  \<^bold>\<open>Theories and sources.\<close>  Every theory begins with what it holds; in the order of the dependences:

  \<^item> \<open>Prelude\<close>: integer types, assertions (\<open>utils/macros.hpp\<close>), little-endian bytes, word lemmas.
  \<^item> \<open>Large_Int\<close> (\<open>utils/large_int\<close>), \<open>Utils\<close> (\<open>utils/utils\<close>, \<open>fixed_vector\<close>), \<open>Bit_Set\<close>
    (\<open>utils/bit_set\<close>), \<open>Write_Buffer\<close> (\<open>utils/write_buffer\<close>): the arithmetic of literals is exact as long as
    magnitudes fit, decimal and LEB128 numbers are read back, the bit set is a set (locale \<open>set_impl\<close>).
  \<^item> \<open>Token_List\<close>, \<open>Lexer\<close> (\<open>lexer/\<close>, \<open>source/source_file\<close>) and \<open>Lexer_Correct\<close>: the lexer implements a
    function on texts, \<open>pieces\<close>, and no character of a text is lost unless the code drops it.
    \<open>Sources\<close> (\<open>source/module_path\<close>, \<open>source/edit\<close>): paths are lists of elements, edits splice a text.
  \<^item> \<open>Decimal\<close> (the number formats of the C++ library), \<open>Json\<close> (\<open>utils/json*\<close>) and \<open>Json_Correct\<close>: the
    parser ends on every text and reads back what the serializer writes.
  \<^item> \<open>Ssa\<close> (\<open>ssa/\<close>), \<open>Control_Flow_Graph\<close> (\<open>ssa/control_flow_graph\<close>, \<open>passes/loop_analysis\<close>) with
    \<open>Cfg_Correct\<close>, \<open>Dominators\<close> and \<open>Loops\<close>: the graph is the relation of the branches, the iteration over
    immediate dominators ends in the dominator tree, and the frontiers and loops are those of the textbook,
    but for the exceptions that the statements name.
  \<^item> \<open>MCode\<close> (\<open>mcode/\<close>, \<open>target/target_description\<close>): operands, instructions, blocks, frames.
  \<^item> \<open>Reg_Alloc_Func\<close>, \<open>Liveness\<close>, \<open>Reg_Alloc\<close> (\<open>codegen/reg_alloc_func\<close>, \<open>liveness\<close>, \<open>reg_alloc_pass\<close>):
    \<open>Liveness_Correct\<close> and \<open>Live_Ranges\<close> relate the analysis to paths through the code, \<open>Reg_Alloc_Loop\<close> is
    the invariant of the allocator, \<open>Reg_Alloc_Correct\<close> what it starts with.  \<open>AArch64_Reg_Analyzer\<close>
    (\<open>target/aarch64/aarch64_reg_analyzer\<close>) and \<open>AArch64_Reg_Correct\<close> instantiate them for a target;
    \<open>AArch64_Effects\<close> is a semantics of instructions over registers, written from the architecture,
    against which the operands that the analyzer reports are sound.
  \<^item> \<open>Stack_Frame\<close> (\<open>mcode/stack_regions\<close>, \<open>codegen/stack_frame_pass\<close>, \<open>prolog_epilog_pass\<close>) and
    \<open>Calling_Conv\<close> (AAPCS, System V, Microsoft x64) are the model; \<open>Stack_Layout\<close> and \<open>Prolog_Epilog\<close> state
    the contract of a convention as locales, which \<open>Stack_Correct\<close> and \<open>Prolog_Conventions\<close> interpret for
    the three conventions; \<open>Arg_Places\<close> compares caller and callee; \<open>Frame_Machine\<close> and
    \<open>Frame_Machine_X86\<close> run prologs and epilogs.
  \<^item> \<open>Binary_Builder\<close> (\<open>emit/section_builder\<close>, \<open>binary_builder\<close>, \<open>binary_module\<close>) and \<open>Binary_Layout\<close>,
    whose locale \<open>target_encoder\<close> is what the builder relies on in an encoder.
  \<^item> \<open>AArch64_Encoder\<close> (\<open>target/aarch64/aarch64_encoder\<close>, \<open>aarch64_encoding_info\<close>, \<open>aarch64_immediate\<close>),
    \<open>AArch64_Correct\<close>, \<open>AArch64_Link\<close>: one word for every instruction, read back by decoders of the
    architecture manual that reject every other class of instruction; resolved branches; constants.
  \<^item> \<open>Elf_Builder\<close> (\<open>emit/elf/\<close>) and \<open>Elf_Correct\<close>: the file read back through its section table, its
    relocations as a linker for the machine resolves them.

  \<^bold>\<open>Interfaces.\<close>  The locales are \<open>set_impl\<close> (a set over positions), \<open>target_encoder\<close> (an encoder that
  appends whole instructions and only reports uses behind them), \<open>stack_convention\<close> (the regions of a frame)
  and \<open>frame_code\<close> (prologs and epilogs).  Each is interpreted on the model of the code that provides it, so
  that no property rests on an assumption about the program.  The virtual functions of a target that the
  register allocator calls are a record; its theorems name what they need of it and are stated for AArch64.

  \<^bold>\<open>Fuel and termination.\<close>  The recursions over the control flow graph and those of the JSON parser take fuel,
  the first the number of blocks, the second two more than twice the length of the text; the properties show
  that this is enough.  The iterations to a fixed point (immediate dominators, register sets) and the loop over
  the queue of the allocator are partial functions, and the properties show that they return.

  \<^bold>\<open>What is not modelled.\<close>  The lowering of SSA instructions, the x86-64 and WebAssembly encoders, PE and
  Mach-O files, the passes over SSA and the machine code passes besides those above; parser, semantic IR,
  semantic analysis, formatter and reports, which work on a syntax tree of generated classes; command line,
  language server and hot reloader, which are input and output.  The manifest lists them with the reasons.
\<close>

end
